(* ===== verification/Prelude.thy ===== *)
theory Prelude
  imports Complex_Main "HOL-Library.Char_ord" "HOL-Library.List_Lexorder"
    "HOL-Library.Product_Lexorder"
begin

text \<open>
  What every component shares: the names of the model's types, the exceptions the
  Python code raises, programs that pass a state and may raise, Python's stable
  selection of a least or greatest element, and the named collections the component
  proofs draw on.

  A program of type \<open>('s, 'a) prog\<close> takes the state and returns either the exception
  it raised (\<open>Inl\<close>) or its value (\<open>Inr\<close>), with the state it left. A raised exception
  does not undo what was done before it: undoing is what \<open>transaction\<close> is for.
\<close>

section \<open>Types, exceptions and collections\<close>

named_theorems prog_simps \<open>how programs compute: results and final states\<close>
named_theorems steps_intros \<open>rules that build a step guarantee along a program\<close>

type_synonym seconds = rat
type_synonym agent_id = string
type_synonym engine_id = string
type_synonym token = int

datatype exn =
    KeyError string
  | IndexError string
  | ValueError string
  | RuntimeError string
  | TypeError string
  | TimeoutError string
  | AssertionError string
  | AttributeError string
  | IntegrityError string
  | EngineRequestError string
  | StateConflict string
  | StaleLease string
  | OSError string
  | NoSuchProcess string
  | AccessDenied string
  | StopIteration
  | ZeroDivisionError
  | Unfinished

text \<open>
  \<open>Unfinished\<close> is no Python exception: a run ends with it when a polling loop is still
  going after the fuel it was given. No handler catches it.
\<close>

text \<open>Python's \<open>str\<close> of an integer, and \<open>repr\<close> of a string without quotes in it.\<close>

fun str_nat :: "nat \<Rightarrow> string" where
  "str_nat n = (if n < 10 then [char_of (48 + n)] else str_nat (n div 10) @ [char_of (48 + n mod 10)])"

declare str_nat.simps [simp del]

definition str_int :: "int \<Rightarrow> string" where
  "str_int i = (if i < 0 then CHR ''-'' # str_nat (nat (- i)) else str_nat (nat i))"

definition py_repr :: "string \<Rightarrow> string" where
  "py_repr s = CHR 0x27 # s @ [CHR 0x27]"

text \<open>\<open>str(exc)\<close>; the key of a \<open>KeyError\<close> is already given as its \<open>repr\<close>.\<close>

fun exn_str :: "exn \<Rightarrow> string" where
  "exn_str (KeyError s) = s"
| "exn_str (IndexError s) = s"
| "exn_str (ValueError s) = s"
| "exn_str (RuntimeError s) = s"
| "exn_str (TypeError s) = s"
| "exn_str (TimeoutError s) = s"
| "exn_str (AssertionError s) = s"
| "exn_str (AttributeError s) = s"
| "exn_str (IntegrityError s) = s"
| "exn_str (EngineRequestError s) = s"
| "exn_str (StateConflict s) = s"
| "exn_str (StaleLease s) = s"
| "exn_str (OSError s) = s"
| "exn_str (NoSuchProcess s) = s"
| "exn_str (AccessDenied s) = s"
| "exn_str StopIteration = []"
| "exn_str ZeroDivisionError = ''division by zero''"
| "exn_str Unfinished = []"

section \<open>Programs: a state and exceptions\<close>

type_synonym ('s, 'a) prog = "'s \<Rightarrow> (exn + 'a) \<times> 's"

definition ret :: "'a \<Rightarrow> ('s, 'a) prog" where
  "ret a s = (Inr a, s)"

definition throw :: "exn \<Rightarrow> ('s, 'a) prog" where
  "throw e s = (Inl e, s)"

definition bindP :: "('s, 'a) prog \<Rightarrow> ('a \<Rightarrow> ('s, 'b) prog) \<Rightarrow> ('s, 'b) prog" where
  "bindP m f s = (case m s of (Inl e, t) \<Rightarrow> (Inl e, t) | (Inr a, t) \<Rightarrow> f a t)"

definition thenP :: "('s, 'a) prog \<Rightarrow> ('s, 'b) prog \<Rightarrow> ('s, 'b) prog" where
  "thenP m n = bindP m (\<lambda>_. n)"

text \<open>\<open>try: m except Exception as e: h e\<close>\<close>

definition try_except :: "('s, 'a) prog \<Rightarrow> (exn \<Rightarrow> ('s, 'a) prog) \<Rightarrow> ('s, 'a) prog" where
  "try_except m h s = (case m s of (Inl e, t) \<Rightarrow> h e t | (Inr a, t) \<Rightarrow> (Inr a, t))"

text \<open>\<open>gather(..., return_exceptions=True)\<close> of one awaitable: the exception as a value.\<close>

definition attempt :: "('s, 'a) prog \<Rightarrow> ('s, exn + 'a) prog" where
  "attempt m s = (case m s of (r, t) \<Rightarrow> (Inr r, t))"

definition guardP :: "bool \<Rightarrow> exn \<Rightarrow> ('s, unit) prog" where
  "guardP b e = (if b then ret () else throw e)"

definition whenP :: "bool \<Rightarrow> ('s, unit) prog \<Rightarrow> ('s, unit) prog" where
  "whenP b m = (if b then m else ret ())"

definition getP :: "('s \<Rightarrow> 'a) \<Rightarrow> ('s, 'a) prog" where
  "getP f s = (Inr (f s), s)"

definition modifyP :: "('s \<Rightarrow> 's) \<Rightarrow> ('s, unit) prog" where
  "modifyP f s = (Inr (), f s)"

definition liftS :: "exn + 'a \<Rightarrow> ('s, 'a) prog" where
  "liftS r s = (r, s)"

text \<open>
  \<open>SQLiteStateStore.transaction\<close>: commit when the body returns, roll back when it raises.
\<close>

definition transaction :: "('s, 'a) prog \<Rightarrow> ('s, 'a) prog" where
  "transaction m s = (case m s of (Inl e, _) \<Rightarrow> (Inl e, s) | (Inr a, t) \<Rightarrow> (Inr a, t))"

text \<open>
  The code equations take the first program's outcome apart by pattern matching, so that
  evaluation by the simplifier does not enter the continuation before it is reached.
\<close>

fun continue :: "(exn + 'a) \<times> 's \<Rightarrow> ('a \<Rightarrow> ('s, 'b) prog) \<Rightarrow> (exn + 'b) \<times> 's" where
  "continue (Inl e, t) f = (Inl e, t)"
| "continue (Inr a, t) f = f a t"

fun recover :: "(exn + 'a) \<times> 's \<Rightarrow> (exn \<Rightarrow> ('s, 'a) prog) \<Rightarrow> (exn + 'a) \<times> 's" where
  "recover (Inl e, t) h = h e t"
| "recover (Inr a, t) h = (Inr a, t)"

lemma bindP_code [code]: "bindP m f s = continue (m s) f"
  by (cases "m s"; cases "fst (m s)") (auto simp: bindP_def)

lemma try_except_code [code]: "try_except m h s = recover (m s) h"
  by (cases "m s"; cases "fst (m s)") (auto simp: try_except_def)

lemmas prog_defs = ret_def throw_def bindP_def thenP_def try_except_def attempt_def
  guardP_def whenP_def getP_def modifyP_def liftS_def transaction_def

lemma bindP_Inr [prog_simps]: "m s = (Inr a, t) \<Longrightarrow> bindP m f s = f a t"
  by (simp add: bindP_def)

lemma bindP_Inl [prog_simps]: "m s = (Inl e, t) \<Longrightarrow> bindP m f s = (Inl e, t)"
  by (simp add: bindP_def)

lemma bindP_InrE:
  assumes "bindP m f s = (Inr b, u)"
  obtains a t where "m s = (Inr a, t)" and "f a t = (Inr b, u)"
  using assms by (auto simp: bindP_def split: prod.splits sum.splits)

lemma bindP_InlE:
  assumes "bindP m f s = (Inl e, u)"
  obtains "m s = (Inl e, u)"
  | a t where "m s = (Inr a, t)" and "f a t = (Inl e, u)"
  using assms by (auto simp: bindP_def split: prod.splits sum.splits)

lemma bindP_assoc: "bindP (bindP m f) g = bindP m (\<lambda>a. bindP (f a) g)"
  by (rule ext) (simp add: bindP_def split: prod.splits sum.splits)

lemma bindP_ret [simp]: "bindP m ret = m"
  by (rule ext) (simp add: bindP_def ret_def split: prod.splits sum.splits)

lemma ret_bindP [simp]: "bindP (ret a) f = f a"
  by (rule ext) (simp add: bindP_def ret_def)

lemma throw_bindP [simp]: "bindP (throw e) f = throw e"
  by (rule ext) (simp add: bindP_def throw_def)

lemma transaction_fail: "transaction m s = (Inl e, t) \<Longrightarrow> t = s"
  by (auto simp: transaction_def split: prod.splits sum.splits)

lemma transaction_ok: "transaction m s = (Inr a, t) \<longleftrightarrow> m s = (Inr a, t)"
  by (auto simp: transaction_def split: prod.splits sum.splits)

section \<open>Step guarantees along programs\<close>

text \<open>
  \<open>steps R m\<close>: from every state, \<open>m\<close> ends in a state related by \<open>R\<close>, whether it
  returns or raises. For a preorder \<open>R\<close> the guarantee composes, so a handler's guarantee
  follows from that of the operations it calls.
\<close>

definition steps :: "('s \<Rightarrow> 's \<Rightarrow> bool) \<Rightarrow> ('s, 'a) prog \<Rightarrow> bool" where
  "steps R m \<longleftrightarrow> (\<forall>s. R s (snd (m s)))"

lemma stepsI: "(\<And>s. R s (snd (m s))) \<Longrightarrow> steps R m"
  by (simp add: steps_def)

lemma stepsD: "steps R m \<Longrightarrow> m s = (r, t) \<Longrightarrow> R s t"
  by (metis snd_conv steps_def)

locale step_preorder =
  fixes R :: "'s \<Rightarrow> 's \<Rightarrow> bool"
  assumes refl_R: "R s s"
    and trans_R: "R s t \<Longrightarrow> R t u \<Longrightarrow> R s u"
begin

lemma steps_ret: "steps R (ret a)"
  by (simp add: steps_def ret_def refl_R)

lemma steps_throw: "steps R (throw e)"
  by (simp add: steps_def throw_def refl_R)

lemma steps_getP: "steps R (getP f)"
  by (simp add: steps_def getP_def refl_R)

lemma steps_liftS: "steps R (liftS r)"
  by (simp add: steps_def liftS_def refl_R)

lemma steps_guardP: "steps R (guardP b e)"
  by (simp add: guardP_def steps_ret steps_throw)

lemma steps_bindP:
  assumes m: "steps R m" and f: "\<And>a. steps R (f a)"
  shows "steps R (bindP m f)"
proof (rule stepsI)
  fix s
  obtain r t where rt: "m s = (r, t)" by (cases "m s")
  have st: "R s t" using m rt by (rule stepsD)
  show "R s (snd (bindP m f s))"
  proof (cases r)
    case (Inl e)
    with rt st show ?thesis by (simp add: bindP_def)
  next
    case (Inr a)
    have "R t (snd (f a t))" using f [of a] by (simp add: steps_def)
    with rt st Inr show ?thesis by (auto simp: bindP_def intro: trans_R)
  qed
qed

lemma steps_thenP: "steps R m \<Longrightarrow> steps R n \<Longrightarrow> steps R (thenP m n)"
  by (simp add: thenP_def steps_bindP)

lemma steps_try_except:
  assumes m: "steps R m" and h: "\<And>e. steps R (h e)"
  shows "steps R (try_except m h)"
proof (rule stepsI)
  fix s
  obtain r t where rt: "m s = (r, t)" by (cases "m s")
  have st: "R s t" using m rt by (rule stepsD)
  show "R s (snd (try_except m h s))"
  proof (cases r)
    case (Inl e)
    have "R t (snd (h e t))" using h [of e] by (simp add: steps_def)
    with rt st Inl show ?thesis by (auto simp: try_except_def intro: trans_R)
  next
    case (Inr a)
    with rt st show ?thesis by (simp add: try_except_def)
  qed
qed

lemma steps_attempt: "steps R m \<Longrightarrow> steps R (attempt m)"
  by (rule stepsI) (auto simp: attempt_def dest: stepsD split: prod.splits)

lemma steps_whenP: "steps R m \<Longrightarrow> steps R (whenP b m)"
  by (simp add: whenP_def steps_ret)

lemma steps_transaction: "steps R m \<Longrightarrow> steps R (transaction m)"
  by (rule stepsI) (auto simp: transaction_def refl_R dest: stepsD split: prod.splits sum.splits)

lemma steps_if: "(b \<Longrightarrow> steps R m) \<Longrightarrow> (\<not> b \<Longrightarrow> steps R n) \<Longrightarrow> steps R (if b then m else n)"
  by simp

lemma steps_option:
  "(x = None \<Longrightarrow> steps R m) \<Longrightarrow> (\<And>a. x = Some a \<Longrightarrow> steps R (f a)) \<Longrightarrow>
     steps R (case x of None \<Rightarrow> m | Some a \<Rightarrow> f a)"
  by (cases x) simp_all

lemma steps_sum:
  "(\<And>e. x = Inl e \<Longrightarrow> steps R (g e)) \<Longrightarrow> (\<And>a. x = Inr a \<Longrightarrow> steps R (f a)) \<Longrightarrow>
     steps R (case x of Inl e \<Rightarrow> g e | Inr a \<Rightarrow> f a)"
  by (cases x) simp_all

lemma steps_prod: "(\<And>a b. x = (a, b) \<Longrightarrow> steps R (f a b)) \<Longrightarrow> steps R (case x of (a, b) \<Rightarrow> f a b)"
  by (cases x) simp

lemma steps_let: "(\<And>a. a = x \<Longrightarrow> steps R (f a)) \<Longrightarrow> steps R (let a = x in f a)"
  by simp

lemmas steps_rules = steps_ret steps_throw steps_getP steps_liftS steps_guardP steps_bindP
  steps_thenP steps_try_except steps_attempt steps_whenP steps_if steps_option steps_sum
  steps_prod steps_let

end

text \<open>A transaction that raises changes nothing, so only its returning runs matter.\<close>

context step_preorder begin

lemma steps_transactionI: "(\<And>s a t. m s = (Inr a, t) \<Longrightarrow> R s t) \<Longrightarrow> steps R (transaction m)"
  by (rule stepsI) (auto simp: transaction_def refl_R split: prod.splits sum.splits)

end

section \<open>First least and first greatest element\<close>

text \<open>
  Python's \<open>min(xs, key=k)\<close> and \<open>max(xs, key=k)\<close> on a nonempty iterable return the
  first element with the least, respectively greatest, key.
\<close>

fun min_by :: "('a \<Rightarrow> 'k::linorder) \<Rightarrow> 'a \<Rightarrow> 'a list \<Rightarrow> 'a" where
  "min_by k x [] = x"
| "min_by k x (y # ys) = (if k y < k x then min_by k y ys else min_by k x ys)"

fun max_by :: "('a \<Rightarrow> 'k::linorder) \<Rightarrow> 'a \<Rightarrow> 'a list \<Rightarrow> 'a" where
  "max_by k x [] = x"
| "max_by k x (y # ys) = (if k x < k y then max_by k y ys else max_by k x ys)"

lemma min_by_mem: "min_by k x ys \<in> set (x # ys)"
  by (induction k x ys rule: min_by.induct) auto

lemma max_by_mem: "max_by k x ys \<in> set (x # ys)"
  by (induction k x ys rule: max_by.induct) auto

lemma min_by_le: "k (min_by k x ys) \<le> k x"
  by (induction k x ys rule: min_by.induct) (auto intro: order.trans order.strict_implies_order)

lemma min_by_least: "y \<in> set (x # ys) \<Longrightarrow> k (min_by k x ys) \<le> k y"
proof (induction k x ys rule: min_by.induct)
  case (2 k x z zs)
  show ?case
  proof (cases "k z < k x")
    case True
    have "k (min_by k z zs) \<le> k x"
      using min_by_le [of k z zs] True by (rule order.strict_implies_order [OF order.strict_trans1])
    with 2 True show ?thesis by auto
  next
    case False
    have "k (min_by k x zs) \<le> k z"
      using min_by_le [of k x zs] False by (meson not_less order.trans)
    with 2 False show ?thesis by auto
  qed
qed simp

lemma max_by_ge: "k x \<le> k (max_by k x ys)"
  by (induction k x ys rule: max_by.induct) (auto intro: order.trans order.strict_implies_order)

lemma max_by_greatest: "y \<in> set (x # ys) \<Longrightarrow> k y \<le> k (max_by k x ys)"
proof (induction k x ys rule: max_by.induct)
  case (2 k x z zs)
  show ?case
  proof (cases "k x < k z")
    case True
    have "k x \<le> k (max_by k z zs)"
      using max_by_ge [of k z zs] True by (meson order.strict_implies_order order.trans)
    with 2 True show ?thesis by auto
  next
    case False
    have "k z \<le> k (max_by k x zs)"
      using max_by_ge [of k x zs] False by (meson not_less order.trans)
    with 2 False show ?thesis by auto
  qed
qed simp

section \<open>Lists\<close>

lemma find_Some_mem: "find P xs = Some x \<Longrightarrow> x \<in> set xs \<and> P x"
  by (metis find_Some_iff nth_mem)

lemma find_None_all: "find P xs = None \<longleftrightarrow> (\<forall>x \<in> set xs. \<not> P x)"
  by (auto simp: find_None_iff)

lemma find_append: "find P (xs @ ys) = (case find P xs of None \<Rightarrow> find P ys | Some x \<Rightarrow> Some x)"
  by (induction xs) auto

lemma find_distinct_eq:
  "distinct (map f xs) \<Longrightarrow> x \<in> set xs \<Longrightarrow> find (\<lambda>y. f y = f x) xs = Some x"
  by (induction xs) (auto simp: image_iff)

end
