(* ===== verification/PyJson.thy ===== *)
theory PyJson
  imports Prelude
begin

text \<open>
  JSON values and what \<open>json.dumps(v, sort_keys=True)\<close> followed by \<open>json.loads\<close>
  gives back. Texts in the tables are represented by the value they decode to: an object
  is its items in insertion order, so decoding a sorted text yields the items sorted.
\<close>

datatype json =
    JNull
  | JBool bool
  | JInt int
  | JFloat rat
  | JStr string
  | JArr "json list"
  | JObj "(string \<times> json) list"

fun json_sorted :: "json \<Rightarrow> json" where
  "json_sorted (JArr js) = JArr (map json_sorted js)"
| "json_sorted (JObj kvs) = JObj (sort_key fst (map (\<lambda>(k, v). (k, json_sorted v)) kvs))"
| "json_sorted j = j"

text \<open>A \<open>dict\<close> (which \<open>{}\<close> is) and Python's truth value of a decoded value.\<close>

fun json_truthy :: "json \<Rightarrow> bool" where
  "json_truthy JNull = False"
| "json_truthy (JBool b) = b"
| "json_truthy (JInt i) = (i \<noteq> 0)"
| "json_truthy (JFloat q) = (q \<noteq> 0)"
| "json_truthy (JStr s) = (s \<noteq> [])"
| "json_truthy (JArr js) = (js \<noteq> [])"
| "json_truthy (JObj kvs) = (kvs \<noteq> [])"

lemma json_sorted_idem: "json_sorted (json_sorted j) = json_sorted j"
proof (induction j rule: json_sorted.induct)
  case (2 kvs)
  let ?f = "\<lambda>(k, v). (k, json_sorted v)"
  let ?xs = "sort_key fst (map ?f kvs)"
  have "map ?f ?xs = ?xs"
  proof (rule map_idI)
    fix p assume "p \<in> set ?xs"
    then obtain k v where "(k, v) \<in> set kvs" and "p = (k, json_sorted v)" by auto
    with 2 show "?f p = p" by auto
  qed
  then show ?case by (simp add: sort_key_id_if_sorted)
qed auto

lemma json_truthy_sorted [simp]: "json_truthy (json_sorted j) = json_truthy j"
  by (cases j) (auto dest: arg_cong [where f = length])

section \<open>Numbers in texts\<close>

definition is_space :: "char \<Rightarrow> bool" where
  "is_space c \<longleftrightarrow> c \<in> {CHR '' '', CHR 0x09, CHR 0x0A, CHR 0x0B, CHR 0x0C, CHR 0x0D, CHR 0x1C, CHR 0x1D, CHR 0x1E, CHR 0x1F}"

definition strip :: "string \<Rightarrow> string" where
  "strip s = rev (dropWhile is_space (rev (dropWhile is_space s)))"

definition is_digit :: "char \<Rightarrow> bool" where
  "is_digit c \<longleftrightarrow> CHR ''0'' \<le> c \<and> c \<le> CHR ''9''"

definition digit_value :: "char \<Rightarrow> int" where
  "digit_value c = of_char c - 48"

text \<open>Decimal digits with single underscores between them; the flag says that a digit came last.\<close>

fun digits_from :: "int \<Rightarrow> bool \<Rightarrow> string \<Rightarrow> int option" where
  "digits_from acc last_digit [] = (if last_digit then Some acc else None)"
| "digits_from acc last_digit (c # cs) =
     (if is_digit c then digits_from (acc * 10 + digit_value c) True cs
      else if c = CHR ''_'' \<and> last_digit then digits_from acc False cs
      else None)"

definition signed :: "string \<Rightarrow> bool \<times> string" where
  "signed s = (case s of c # cs \<Rightarrow> if c = CHR ''-'' then (True, cs) else if c = CHR ''+'' then (False, cs) else (False, s)
     | [] \<Rightarrow> (False, []))"

definition decimal :: "string \<Rightarrow> int option" where
  "decimal s = (case signed s of (neg, ds) \<Rightarrow> map_option (\<lambda>i. if neg then - i else i) (digits_from 0 False ds))"

text \<open>\<open>int(s)\<close> of an ASCII text, and \<open>float(s)\<close> of one that denotes a finite number.\<close>

definition int_of_text :: "string \<Rightarrow> exn + int" where
  "int_of_text s = (case decimal (strip s) of Some i \<Rightarrow> Inr i
     | None \<Rightarrow> Inl (ValueError (''invalid literal for int() with base 10: '' @ py_repr s)))"

definition mantissa :: "string \<Rightarrow> rat option" where
  "mantissa s =
     (let whole = takeWhile (\<lambda>c. c \<noteq> CHR ''.'') s; frac = drop (length whole + 1) s;
          count = length (filter is_digit frac);
          number = (\<lambda>ds. if ds = [] then Some 0 else digits_from 0 False ds) in
      if whole = [] \<and> frac = [] then None
      else case (number whole, number frac) of
          (Some i, Some f) \<Rightarrow> Some (of_int i + of_int f / 10 ^ count)
        | _ \<Rightarrow> None)"

definition float_value :: "string \<Rightarrow> rat option" where
  "float_value s =
     (let (neg, u) = signed s; m = takeWhile (\<lambda>c. c \<noteq> CHR ''e'' \<and> c \<noteq> CHR ''E'') u; rest = drop (length m) u in
      case (mantissa m, if rest = [] then Some 0 else decimal (tl rest)) of
        (Some x, Some e) \<Rightarrow>
          let y = (if 0 \<le> e then x * 10 ^ nat e else x / 10 ^ nat (- e)) in Some (if neg then - y else y)
      | _ \<Rightarrow> None)"

definition float_of_text :: "string \<Rightarrow> exn + rat" where
  "float_of_text s = (case float_value (strip s) of Some x \<Rightarrow> Inr x
     | None \<Rightarrow> Inl (ValueError (''could not convert string to float: '' @ py_repr s)))"

text \<open>\<open>int(str(i)) = i\<close>.\<close>

lemma digit_char:
  fixes n :: nat
  assumes "n < 10"
  shows "is_digit (char_of (48 + n)) \<and> digit_value (char_of (48 + n)) = int n"
proof -
  have nat: "of_char (char_of (48 + n)) = 48 + n" using assms by (simp add: of_char_of)
  have "of_char (char_of (48 + n)) = int (of_char (char_of (48 + n)))" by (rule of_nat_of_char [symmetric])
  also have "\<dots> = 48 + int n" unfolding nat by simp
  finally show ?thesis using assms by (simp add: is_digit_def digit_value_def less_eq_char_def of_char_of)
qed

lemma digits_from_append:
  assumes "digits_from acc b xs = Some k" and "is_digit c"
  shows "digits_from acc b (xs @ [c]) = Some (k * 10 + digit_value c)"
  using assms by (induction acc b xs rule: digits_from.induct) (auto split: if_splits)

lemma str_nat_digits: "str_nat n \<noteq> [] \<and> is_digit (hd (str_nat n)) \<and> digits_from 0 False (str_nat n) = Some (int n)"
proof (induction n rule: str_nat.induct)
  case (1 n)
  show ?case
  proof (cases "n < 10")
    case True
    then show ?thesis using digit_char [of n] by (simp add: str_nat.simps [of n])
  next
    case False
    have "int (n div 10) * 10 + int (n mod 10) = int n" by presburger
    then show ?thesis
      using False 1 digit_char [of "n mod 10"] digits_from_append by (simp add: str_nat.simps [of n])
  qed
qed

lemma int_of_str_int: "decimal (str_int i) = Some i"
proof (cases "i < 0")
  case True
  then show ?thesis using str_nat_digits [of "nat (- i)"] by (simp add: str_int_def decimal_def signed_def)
next
  case False
  obtain c cs where cs: "str_nat (nat i) = c # cs" "is_digit c"
    using str_nat_digits [of "nat i"] by (cases "str_nat (nat i)") auto
  then have "c \<noteq> CHR ''-''" "c \<noteq> CHR ''+''" by (auto simp: is_digit_def less_eq_char_def)
  then show ?thesis using False str_nat_digits [of "nat i"] cs by (simp add: str_int_def decimal_def signed_def)
qed

lemma str_nat_all_digits: "c \<in> set (str_nat n) \<Longrightarrow> is_digit c"
proof (induction n arbitrary: c rule: str_nat.induct)
  case (1 n)
  then show ?case using digit_char [of n] digit_char [of "n mod 10"] by (auto simp: str_nat.simps [of n] split: if_splits)
qed

lemma strip_unspaced: "(\<And>c. c \<in> set s \<Longrightarrow> \<not> is_space c) \<Longrightarrow> strip s = s"
proof -
  assume "\<And>c. c \<in> set s \<Longrightarrow> \<not> is_space c"
  then have "dropWhile is_space s = s" "dropWhile is_space (rev s) = rev s"
    by (cases s, auto, cases s rule: rev_cases, auto)
  then show ?thesis by (simp add: strip_def)
qed

lemma digit_not_space: "is_digit c \<Longrightarrow> \<not> is_space c"
  by (auto simp: is_digit_def is_space_def less_eq_char_def)

lemma int_of_text_str: "0 \<le> i \<Longrightarrow> int_of_text (str_int i) = Inr i"
  using int_of_str_int [of i] strip_unspaced [of "str_int i"] str_nat_all_digits digit_not_space
  by (auto simp: int_of_text_def str_int_def)

end
