(* ===== verification/Schema.thy ===== *)
theory Schema
  imports PyJson
begin

text \<open>
  The data of \<open>agentshift/state/schema.py\<close>: the enumerations of the protocol, the frozen
  dataclasses, and the rows of the five tables, which are the dataclasses with the columns
  the tables add.
\<close>

datatype migration_state =
  PREPARING | COPYING | DEST_READY | COMMITTED | SOURCE_RELEASED | RECOVERED | ABORTED

datatype effect_status = E_PREPARED | E_SUBMITTED | E_COMPLETED | E_UNKNOWN

datatype step_status = S_CLAIMED | S_COMPLETED | S_FAILED | S_UNKNOWN

fun migration_state_value :: "migration_state \<Rightarrow> string" where
  "migration_state_value PREPARING = ''PREPARING''"
| "migration_state_value COPYING = ''COPYING''"
| "migration_state_value DEST_READY = ''DEST_READY''"
| "migration_state_value COMMITTED = ''COMMITTED''"
| "migration_state_value SOURCE_RELEASED = ''SOURCE_RELEASED''"
| "migration_state_value RECOVERED = ''RECOVERED''"
| "migration_state_value ABORTED = ''ABORTED''"

record agent_continuation =
  ac_agent_id :: agent_id
  ac_committed_step :: int
  ac_owner_engine :: engine_id
  ac_owner_epoch :: int
  ac_token_ids :: "token list"
  ac_pending_tool_future :: "string option"
  ac_workspace_ref :: "string option"
  ac_stream_offset :: int
  ac_metadata :: json

record migration_record =
  mr_migration_id :: string
  mr_agent_id :: agent_id
  mr_source_engine :: engine_id
  mr_destination_engine :: engine_id
  mr_source_epoch :: int
  mr_state :: migration_state
  mr_token_count :: int
  mr_bytes_transferred :: int
  mr_transfer_seconds :: seconds
  mr_error :: "string option"

record tool_result =
  tr_agent_id :: agent_id
  tr_step_id :: int
  tr_future_id :: string
  tr_payload :: json

record effect_record =
  er_agent_id :: agent_id
  er_step_id :: int
  er_operation_id :: string
  er_owner_epoch :: int
  er_status :: effect_status
  er_payload :: json
  er_result :: "json option"

record agent_row = agent_continuation +
  ag_updated_at :: seconds

record migration_row = migration_record +
  mg_updated_at :: seconds

record mailbox_row = tool_result +
  mb_created_at :: seconds

record effect_row = effect_record +
  ef_updated_at :: seconds

record claim_row =
  cl_agent_id :: agent_id
  cl_step_id :: int
  cl_owner_epoch :: int
  cl_rid :: string
  cl_status :: step_status
  cl_updated_at :: seconds

text \<open>\<open>MigrationRecord(...)\<close> with the defaults of its last four fields.\<close>

definition new_migration_record ::
  "string \<Rightarrow> agent_id \<Rightarrow> engine_id \<Rightarrow> engine_id \<Rightarrow> int \<Rightarrow> migration_state \<Rightarrow> migration_record" where
  "new_migration_record mid a src dst e st =
     \<lparr>mr_migration_id = mid, mr_agent_id = a, mr_source_engine = src, mr_destination_engine = dst,
      mr_source_epoch = e, mr_state = st, mr_token_count = 0, mr_bytes_transferred = 0,
      mr_transfer_seconds = 0, mr_error = None\<rparr>"

text \<open>
  The condition of the partial unique index \<open>one_live_migration_per_agent\<close>: a migration
  is live unless it is released, recovered or aborted.
\<close>

fun live_state :: "migration_state \<Rightarrow> bool" where
  "live_state SOURCE_RELEASED = False"
| "live_state RECOVERED = False"
| "live_state ABORTED = False"
| "live_state _ = True"

end
