(* ===== verification/SqlTable.thy ===== *)
theory SqlTable
  imports Prelude
begin

text \<open>
  Tables of the SQLite database, as the list of their rows in insertion order, and the
  four statements the store issues: \<open>SELECT ... WHERE key=?\<close>, \<open>INSERT\<close>,
  \<open>INSERT OR IGNORE\<close> and \<open>UPDATE ... WHERE\<close> with its \<open>rowcount\<close>. The interface
  \<open>keyed_table\<close> states what the store relies on: a primary key identifies a row, an
  insert adds exactly one row or fails on a used key, an update touches the rows its
  condition selects and no key.
\<close>

definition sel :: "('r \<Rightarrow> 'k) \<Rightarrow> 'k \<Rightarrow> 'r list \<Rightarrow> 'r option" where
  "sel key k t = find (\<lambda>r. key r = k) t"

definition ins :: "('r \<Rightarrow> 'k) \<Rightarrow> 'r \<Rightarrow> 'r list \<Rightarrow> 'r list option" where
  "ins key r t = (if sel key (key r) t = None then Some (t @ [r]) else None)"

definition ins_ignore :: "('r \<Rightarrow> 'k) \<Rightarrow> 'r \<Rightarrow> 'r list \<Rightarrow> nat \<times> 'r list" where
  "ins_ignore key r t = (case ins key r t of None \<Rightarrow> (0, t) | Some t' \<Rightarrow> (1, t'))"

definition upd :: "('r \<Rightarrow> bool) \<Rightarrow> ('r \<Rightarrow> 'r) \<Rightarrow> 'r list \<Rightarrow> 'r list" where
  "upd P f t = map (\<lambda>r. if P r then f r else r) t"

definition rowcount :: "('r \<Rightarrow> bool) \<Rightarrow> 'r list \<Rightarrow> nat" where
  "rowcount P t = length (filter P t)"

locale keyed_table =
  fixes key :: "'r \<Rightarrow> 'k"
    and select :: "'k \<Rightarrow> 't \<Rightarrow> 'r option"
    and insert_row :: "'r \<Rightarrow> 't \<Rightarrow> 't option"
    and update_rows :: "('r \<Rightarrow> bool) \<Rightarrow> ('r \<Rightarrow> 'r) \<Rightarrow> 't \<Rightarrow> 't"
  assumes select_key: "select k t = Some r \<Longrightarrow> key r = k"
    and insert_fails: "insert_row r t = None \<longleftrightarrow> select (key r) t \<noteq> None"
    and select_insert: "insert_row r t = Some t' \<Longrightarrow>
          select k t' = (if k = key r then Some r else select k t)"
    and select_update: "(\<And>r. key (f r) = key r) \<Longrightarrow>
          select k (update_rows P f t) = map_option (\<lambda>r. if P r then f r else r) (select k t)"
begin

lemma insert_grows: "insert_row r t = Some t' \<Longrightarrow> select k t = Some x \<Longrightarrow> select k t' = Some x"
  using insert_fails [of r t] by (auto simp: select_insert)

lemma insert_twice: "insert_row r t = Some t' \<Longrightarrow> key q = key r \<Longrightarrow> insert_row q t' = None"
  by (simp add: insert_fails select_insert)

lemma update_domain:
  "(\<And>r. key (f r) = key r) \<Longrightarrow> select k (update_rows P f t) = None \<longleftrightarrow> select k t = None"
  by (simp add: select_update)

lemma update_row:
  "(\<And>r. key (f r) = key r) \<Longrightarrow> select k t = Some r \<Longrightarrow> P r \<Longrightarrow>
     select k (update_rows P f t) = Some (f r)"
  by (simp add: select_update)

lemma update_by_key:
  assumes "\<And>r. key (f r) = key r"
  shows "select k (update_rows (\<lambda>r. key r = j) f t) =
    (if k = j then map_option f (select k t) else select k t)"
  using select_key [of k t] by (cases "select k t") (auto simp: select_update [OF assms])

lemma update_no_row:
  "(\<And>r. key (f r) = key r) \<Longrightarrow> select k t = Some r \<Longrightarrow> \<not> P r \<Longrightarrow>
     select k (update_rows P f t) = Some r"
  by (simp add: select_update)

end

lemma sel_key: "sel key k t = Some r \<Longrightarrow> key r = k"
  by (auto simp: sel_def dest: find_Some_mem)

lemma sel_mem: "sel key k t = Some r \<Longrightarrow> r \<in> set t"
  by (auto simp: sel_def dest: find_Some_mem)

lemma sel_None: "sel key k t = None \<longleftrightarrow> k \<notin> key ` set t"
  by (auto simp: sel_def find_None_all)

lemma sel_append_one: "sel key (key r) t = None \<Longrightarrow>
   sel key k (t @ [r]) = (if k = key r then Some r else sel key k t)"
  by (auto simp: sel_def find_append split: option.splits)

lemma sel_upd: "(\<And>r. key (f r) = key r) \<Longrightarrow>
   sel key k (upd P f t) = map_option (\<lambda>r. if P r then f r else r) (sel key k t)"
  by (induction t) (auto simp: sel_def upd_def)

lemma keys_upd: "(\<And>r. key (f r) = key r) \<Longrightarrow> map key (upd P f t) = map key t"
  by (induction t) (auto simp: upd_def)

lemma keys_ins: "ins key r t = Some t' \<Longrightarrow> distinct (map key t) \<Longrightarrow> distinct (map key t')"
  by (auto simp: ins_def sel_None split: if_splits)

lemma sel_of_mem: "distinct (map key t) \<Longrightarrow> r \<in> set t \<Longrightarrow> sel key (key r) t = Some r"
  unfolding sel_def by (rule find_distinct_eq)

lemma keyed_table_list: "keyed_table key (sel key) (ins key) upd"
proof (unfold_locales, goal_cases)
  case (1 k t r)
  then show ?case by (rule sel_key)
next
  case (2 r t)
  show ?case by (simp add: ins_def)
next
  case (3 r t t' k)
  then show ?case by (auto simp: ins_def sel_append_one split: if_splits)
next
  case (4 f k P t)
  then show ?case by (rule sel_upd)
qed

lemma rowcount_by_key:
  assumes "distinct (map key t)" and "\<And>r. P r \<Longrightarrow> key r = k"
  shows "rowcount P t = (case sel key k t of None \<Rightarrow> 0 | Some r \<Rightarrow> if P r then 1 else 0)"
  using assms
proof (induction t)
  case (Cons a t)
  show ?case
  proof (cases "key a = k")
    case True
    with Cons.prems have "sel key k t = None" by (auto simp: sel_None)
    with Cons True show ?thesis by (simp add: rowcount_def sel_def)
  next
    case False
    then have "\<not> P a" using Cons.prems(2) by auto
    with Cons False show ?thesis by (simp add: rowcount_def sel_def)
  qed
qed (simp add: rowcount_def sel_def)

section \<open>Tables that evolve\<close>

text \<open>
  \<open>table_le L key t u\<close>: every row of \<open>t\<close> is still in \<open>u\<close> under its key and has moved
  along \<open>L\<close>. Inserting moves no row; an update moves the rows its condition selects.
\<close>

definition table_le :: "('r \<Rightarrow> 'r \<Rightarrow> bool) \<Rightarrow> ('r \<Rightarrow> 'k) \<Rightarrow> 'r list \<Rightarrow> 'r list \<Rightarrow> bool" where
  "table_le L key t u \<longleftrightarrow>
     (\<forall>k r. sel key k t = Some r \<longrightarrow> (\<exists>q. sel key k u = Some q \<and> L r q))"

lemma table_leD: "table_le L key t u \<Longrightarrow> sel key k t = Some r \<Longrightarrow> \<exists>q. sel key k u = Some q \<and> L r q"
  by (simp add: table_le_def)

locale row_order =
  fixes L :: "'r \<Rightarrow> 'r \<Rightarrow> bool"
    and key :: "'r \<Rightarrow> 'k"
  assumes L_refl: "L r r"
    and L_trans: "L r q \<Longrightarrow> L q p \<Longrightarrow> L r p"
begin

lemma table_refl: "table_le L key t t"
  by (auto simp: table_le_def L_refl)

lemma table_trans: "table_le L key t u \<Longrightarrow> table_le L key u v \<Longrightarrow> table_le L key t v"
  unfolding table_le_def by (meson L_trans)

lemma table_ins: "ins key r t = Some u \<Longrightarrow> table_le L key t u"
  by (auto simp: table_le_def ins_def sel_append_one L_refl split: if_splits)

lemma table_ins_ignore: "table_le L key t (snd (ins_ignore key r t))"
  by (auto simp: ins_ignore_def table_refl table_ins split: option.splits)

lemma table_upd:
  assumes "\<And>r. key (f r) = key r"
    and "\<And>k r. sel key k t = Some r \<Longrightarrow> P r \<Longrightarrow> L r (f r)"
  shows "table_le L key t (upd P f t)"
  using assms(2) by (auto simp: table_le_def sel_upd [where key = key and f = f, OF assms(1)] L_refl)

lemma table_upd_key:
  assumes "\<And>r. key (f r) = key r" and "\<And>r. sel key k t = Some r \<Longrightarrow> L r (f r)"
  shows "table_le L key t (upd (\<lambda>r. key r = k) f t)"
  using assms by (intro table_upd) (auto dest: sel_key)

end

end
