(* ===== verification/StateStore.thy ===== *)
theory StateStore
  imports Schema SqlTable
begin

text \<open>
  \<open>SQLiteStateStore\<close> of \<open>agentshift/state/store.py\<close>: the five tables and one definition
  per method. A write method runs its statements in one transaction; the readings of
  \<open>time.time()\<close> of one call are its argument \<open>now\<close>. \<open>start_migration\<close>,
  \<open>prepare_effect\<close> and \<open>transition_effect\<close> check the lease before their transaction
  opens, so each is the composition of the check and the transaction.
\<close>

section \<open>The database\<close>

record store =
  agents :: "agent_row list"
  migrations :: "migration_row list"
  mailbox :: "mailbox_row list"
  effects :: "effect_row list"
  step_claims :: "claim_row list"

text \<open>\<open>_initialize\<close> on a new file: the tables exist and are empty.\<close>

definition initialize :: store where
  "initialize = \<lparr>agents = [], migrations = [], mailbox = [], effects = [], step_claims = []\<rparr>"

text \<open>The tables' primary keys, and the partial unique index on live migrations.\<close>

abbreviation agent_key :: "('a) agent_continuation_scheme \<Rightarrow> agent_id" where
  "agent_key \<equiv> ac_agent_id"

abbreviation migration_key :: "('a) migration_record_scheme \<Rightarrow> string" where
  "migration_key \<equiv> mr_migration_id"

definition mailbox_key :: "('a) tool_result_scheme \<Rightarrow> agent_id \<times> int \<times> string" where
  "mailbox_key r = (tr_agent_id r, tr_step_id r, tr_future_id r)"

definition effect_key :: "('a) effect_record_scheme \<Rightarrow> agent_id \<times> int \<times> string" where
  "effect_key r = (er_agent_id r, er_step_id r, er_operation_id r)"

definition claim_key :: "claim_row \<Rightarrow> agent_id \<times> int" where
  "claim_key r = (cl_agent_id r, cl_step_id r)"

definition one_live_migration_per_agent :: "('a) migration_record_scheme list \<Rightarrow> bool" where
  "one_live_migration_per_agent ms \<longleftrightarrow>
     distinct (map mr_agent_id (filter (\<lambda>m. live_state (mr_state m)) ms))"

interpretation agent_tab: keyed_table ac_agent_id "sel ac_agent_id" "ins ac_agent_id" upd
  by (rule keyed_table_list)

interpretation migration_tab:
  keyed_table mr_migration_id "sel mr_migration_id" "ins mr_migration_id" upd
  by (rule keyed_table_list)

interpretation mailbox_tab: keyed_table mailbox_key "sel mailbox_key" "ins mailbox_key" upd
  by (rule keyed_table_list)

interpretation effect_tab: keyed_table effect_key "sel effect_key" "ins effect_key" upd
  by (rule keyed_table_list)

interpretation claim_tab: keyed_table claim_key "sel claim_key" "ins claim_key" upd
  by (rule keyed_table_list)

section \<open>Agents and leases\<close>

definition agent_row_of :: "seconds \<Rightarrow> agent_continuation \<Rightarrow> agent_row" where
  "agent_row_of now c =
     \<lparr>ac_agent_id = ac_agent_id c, ac_committed_step = ac_committed_step c,
      ac_owner_engine = ac_owner_engine c, ac_owner_epoch = ac_owner_epoch c,
      ac_token_ids = ac_token_ids c, ac_pending_tool_future = ac_pending_tool_future c,
      ac_workspace_ref = ac_workspace_ref c, ac_stream_offset = ac_stream_offset c,
      ac_metadata = json_sorted (ac_metadata c), ag_updated_at = now\<rparr>"

definition register_agent :: "seconds \<Rightarrow> agent_continuation \<Rightarrow> (store, unit) prog" where
  "register_agent now c = transaction (\<lambda>s.
     case ins ac_agent_id (agent_row_of now c) (agents s) of
       None \<Rightarrow> (Inl (StateConflict (''agent already exists: '' @ ac_agent_id c)), s)
     | Some t \<Rightarrow> (Inr (), s\<lparr>agents := t\<rparr>))"

definition get_agent :: "agent_id \<Rightarrow> (store, agent_continuation) prog" where
  "get_agent a s =
     (case sel ac_agent_id a (agents s) of
        None \<Rightarrow> (Inl (KeyError (py_repr a)), s)
      | Some row \<Rightarrow> (Inr (agent_continuation.truncate row), s))"

definition assert_lease :: "agent_id \<Rightarrow> engine_id \<Rightarrow> int \<Rightarrow> (store, unit) prog" where
  "assert_lease a e n = bindP (get_agent a) (\<lambda>current.
     guardP ((ac_owner_engine current, ac_owner_epoch current) = (e, n))
       (StaleLease (''stale lease for '' @ a @ '': got '' @ e @ ''@'' @ str_int n @
          '', current is '' @ ac_owner_engine current @ ''@'' @ str_int (ac_owner_epoch current))))"

text \<open>\<open>UPDATE agents SET committed_step=?, token_ids=?, ...\<close>: not the owner, not the epoch.\<close>

definition update_progress :: "seconds \<Rightarrow> agent_continuation \<Rightarrow> agent_row list \<Rightarrow> agent_row list" where
  "update_progress now c = upd (\<lambda>r. ac_agent_id r = ac_agent_id c)
     (\<lambda>r. r\<lparr>ac_committed_step := ac_committed_step c, ac_token_ids := ac_token_ids c,
        ac_pending_tool_future := ac_pending_tool_future c,
        ac_workspace_ref := ac_workspace_ref c, ac_stream_offset := ac_stream_offset c,
        ac_metadata := json_sorted (ac_metadata c), ag_updated_at := now\<rparr>)"

text \<open>\<open>UPDATE agents SET owner_engine=?, owner_epoch=?, updated_at=? WHERE agent_id=?\<close>\<close>

definition update_owner ::
  "seconds \<Rightarrow> agent_id \<Rightarrow> engine_id \<Rightarrow> int \<Rightarrow> agent_row list \<Rightarrow> agent_row list" where
  "update_owner now a e n = upd (\<lambda>r. ac_agent_id r = a)
     (\<lambda>r. r\<lparr>ac_owner_engine := e, ac_owner_epoch := n, ag_updated_at := now\<rparr>)"

definition commit_step :: "seconds \<Rightarrow> agent_continuation \<Rightarrow> int \<Rightarrow> (store, unit) prog" where
  "commit_step now c expected_epoch = transaction (\<lambda>s.
     case sel ac_agent_id (ac_agent_id c) (agents s) of
       None \<Rightarrow> (Inl (KeyError (py_repr (ac_agent_id c))), s)
     | Some current \<Rightarrow>
         if ac_owner_epoch current \<noteq> expected_epoch then (Inl (StaleLease (ac_agent_id c)), s)
         else if ac_committed_step c \<le> ac_committed_step current
         then (Inl (StateConflict ''committed_step must advance monotonically''), s)
         else (Inr (), s\<lparr>agents := update_progress now c (agents s)\<rparr>))"

section \<open>Step claims\<close>

definition claim_row_of :: "seconds \<Rightarrow> agent_id \<Rightarrow> int \<Rightarrow> int \<Rightarrow> string \<Rightarrow> claim_row" where
  "claim_row_of now a k n rid = \<lparr>cl_agent_id = a, cl_step_id = k, cl_owner_epoch = n, cl_rid = rid,
     cl_status = S_CLAIMED, cl_updated_at = now\<rparr>"

definition claim_step ::
  "seconds \<Rightarrow> agent_id \<Rightarrow> int \<Rightarrow> engine_id \<Rightarrow> int \<Rightarrow> string \<Rightarrow> (store, unit) prog" where
  "claim_step now a step e n rid = transaction (\<lambda>s.
     case sel ac_agent_id a (agents s) of
       None \<Rightarrow> (Inl (KeyError (py_repr a)), s)
     | Some agent \<Rightarrow>
         if (ac_owner_engine agent, ac_owner_epoch agent) \<noteq> (e, n) then (Inl (StaleLease a), s)
         else if step \<noteq> ac_committed_step agent + 1
         then (Inl (StateConflict (''step '' @ str_int step @ '' cannot follow committed step '' @
                 str_int (ac_committed_step agent))), s)
         else
           let insert_row = (case ins claim_key (claim_row_of now a step n rid) (step_claims s) of
                    None \<Rightarrow> (Inl (StateConflict (''step is already claimed: '' @ a @ ''/'' @ str_int step)), s)
                  | Some t \<Rightarrow> (Inr (), s\<lparr>step_claims := t\<rparr>))
           in case sel claim_key (a, step) (step_claims s) of
                None \<Rightarrow> insert_row
              | Some existing \<Rightarrow>
                  if cl_status existing = S_FAILED
                  then (Inr (), s\<lparr>step_claims := upd (\<lambda>r. claim_key r = (a, step))
                          (\<lambda>r. r\<lparr>cl_owner_epoch := n, cl_rid := rid, cl_status := S_CLAIMED,
                                  cl_updated_at := now\<rparr>) (step_claims s)\<rparr>)
                  else insert_row)"

text \<open>
  A claim row without its agent row cannot be read: subscripting the missing row is a
  \<open>TypeError\<close> in Python.
\<close>

definition subscript_none :: exn where
  "subscript_none = TypeError (py_repr ''NoneType'' @ '' object is not subscriptable'')"

definition commit_claimed_step ::
  "seconds \<Rightarrow> agent_continuation \<Rightarrow> int \<Rightarrow> string \<Rightarrow> (store, unit) prog" where
  "commit_claimed_step now c expected_epoch rid = transaction (\<lambda>s.
     let k = (ac_agent_id c, ac_committed_step c) in
     case sel claim_key k (step_claims s) of
       None \<Rightarrow> (Inl (StateConflict ''step has no live claim''), s)
     | Some claim \<Rightarrow>
         if cl_status claim \<noteq> S_CLAIMED then (Inl (StateConflict ''step has no live claim''), s)
         else if cl_rid claim \<noteq> rid \<or> cl_owner_epoch claim \<noteq> expected_epoch
         then (Inl (StaleLease (ac_agent_id c)), s)
         else case sel ac_agent_id (ac_agent_id c) (agents s) of
             None \<Rightarrow> (Inl subscript_none, s)
           | Some agent \<Rightarrow>
               if ac_owner_epoch agent \<noteq> expected_epoch then (Inl (StaleLease (ac_agent_id c)), s)
               else if ac_committed_step c \<noteq> ac_committed_step agent + 1
               then (Inl (StateConflict ''committed_step must advance by one''), s)
               else (Inr (), s\<lparr>agents := update_progress now c (agents s),
                       step_claims := upd (\<lambda>r. claim_key r = k)
                         (\<lambda>r. r\<lparr>cl_status := S_COMPLETED, cl_updated_at := now\<rparr>) (step_claims s)\<rparr>))"

definition fail_claimed_step ::
  "seconds \<Rightarrow> agent_id \<Rightarrow> int \<Rightarrow> string \<Rightarrow> bool \<Rightarrow> (store, unit) prog" where
  "fail_claimed_step now a step rid outcome_unknown = transaction (\<lambda>s.
     let target = (if outcome_unknown then S_UNKNOWN else S_FAILED);
         P = (\<lambda>r. claim_key r = (a, step) \<and> cl_rid r = rid \<and> cl_status r = S_CLAIMED)
     in if rowcount P (step_claims s) \<noteq> 1
        then (Inl (StateConflict ''step claim is no longer active''), s)
        else (Inr (), s\<lparr>step_claims :=
                upd P (\<lambda>r. r\<lparr>cl_status := target, cl_updated_at := now\<rparr>) (step_claims s)\<rparr>))"

section \<open>Migrations\<close>

definition migration_row_of :: "seconds \<Rightarrow> migration_record \<Rightarrow> migration_row" where
  "migration_row_of now m =
     \<lparr>mr_migration_id = mr_migration_id m, mr_agent_id = mr_agent_id m,
      mr_source_engine = mr_source_engine m, mr_destination_engine = mr_destination_engine m,
      mr_source_epoch = mr_source_epoch m, mr_state = mr_state m, mr_token_count = mr_token_count m,
      mr_bytes_transferred = mr_bytes_transferred m,
      mr_transfer_seconds = mr_transfer_seconds m, mr_error = mr_error m, mg_updated_at = now\<rparr>"

text \<open>
  The insert of \<open>start_migration\<close>. An \<open>IntegrityError\<close> (used primary key, missing agent
  under the foreign key, second live migration of the agent) becomes a \<open>StateConflict\<close>.
\<close>

definition insert_migration :: "seconds \<Rightarrow> migration_record \<Rightarrow> (store, unit) prog" where
  "insert_migration now m = transaction (\<lambda>s.
     let conflict = (Inl (StateConflict (''agent already has a live migration: '' @ mr_agent_id m)), s)
     in case ins mr_migration_id (migration_row_of now m) (migrations s) of
          None \<Rightarrow> conflict
        | Some t \<Rightarrow>
            if sel ac_agent_id (mr_agent_id m) (agents s) = None \<or> \<not> one_live_migration_per_agent t
            then conflict
            else (Inr (), s\<lparr>migrations := t\<rparr>))"

definition start_migration :: "seconds \<Rightarrow> migration_record \<Rightarrow> (store, unit) prog" where
  "start_migration now m =
     thenP (assert_lease (mr_agent_id m) (mr_source_engine m) (mr_source_epoch m))
       (insert_migration now m)"

text \<open>
  \<open>UPDATE migrations SET ... WHERE migration_id=?\<close>. SQLite checks the partial index on
  every update; none of the callers catches its \<open>IntegrityError\<close>.
\<close>

definition update_migration ::
  "string \<Rightarrow> (migration_row \<Rightarrow> migration_row) \<Rightarrow> store \<Rightarrow> exn + store" where
  "update_migration mid f s =
     (let t = upd (\<lambda>r. mr_migration_id r = mid) f (migrations s)
      in if one_live_migration_per_agent t then Inr (s\<lparr>migrations := t\<rparr>)
         else Inl (IntegrityError ''UNIQUE constraint failed: migrations.agent_id''))"

record transition_fields =
  tf_token_count :: "int option"
  tf_bytes_transferred :: "int option"
  tf_transfer_seconds :: "seconds option"
  tf_error :: "string option"

definition no_fields :: transition_fields where
  "no_fields = \<lparr>tf_token_count = None, tf_bytes_transferred = None,
     tf_transfer_seconds = None, tf_error = None\<rparr>"

definition apply_transition ::
  "seconds \<Rightarrow> migration_state \<Rightarrow> transition_fields \<Rightarrow> migration_row \<Rightarrow> migration_row" where
  "apply_transition now target tf r =
     r\<lparr>mr_state := target, mg_updated_at := now, mr_error := tf_error tf,
       mr_token_count := (case tf_token_count tf of None \<Rightarrow> mr_token_count r | Some n \<Rightarrow> n),
       mr_bytes_transferred :=
         (case tf_bytes_transferred tf of None \<Rightarrow> mr_bytes_transferred r | Some n \<Rightarrow> n),
       mr_transfer_seconds :=
         (case tf_transfer_seconds tf of None \<Rightarrow> mr_transfer_seconds r | Some x \<Rightarrow> x)\<rparr>"

definition transition_migration ::
  "seconds \<Rightarrow> string \<Rightarrow> migration_state \<Rightarrow> migration_state \<Rightarrow> transition_fields \<Rightarrow> (store, unit) prog"
where
  "transition_migration now mid expected target tf = transaction (\<lambda>s.
     case sel mr_migration_id mid (migrations s) of
       None \<Rightarrow> (Inl (KeyError (py_repr mid)), s)
     | Some row \<Rightarrow>
         if mr_state row \<noteq> expected
         then (Inl (StateConflict (''migration '' @ mid @ '' is '' @ migration_state_value (mr_state row) @
                 '', expected '' @ migration_state_value expected)), s)
         else case update_migration mid (apply_transition now target tf) s of
             Inl e \<Rightarrow> (Inl e, s)
           | Inr t \<Rightarrow> (Inr (), t))"

text \<open>The ownership compare-and-swap: \<open>source@epoch\<close> becomes \<open>destination@(epoch+1)\<close>.\<close>

definition commit_migration_tx :: "seconds \<Rightarrow> string \<Rightarrow> (store, agent_id) prog" where
  "commit_migration_tx now mid = transaction (\<lambda>s.
     case sel mr_migration_id mid (migrations s) of
       None \<Rightarrow> (Inl (KeyError (py_repr mid)), s)
     | Some m \<Rightarrow>
         if mr_state m \<noteq> DEST_READY then (Inl (StateConflict ''destination is not ready''), s)
         else case sel ac_agent_id (mr_agent_id m) (agents s) of
             None \<Rightarrow> (Inl subscript_none, s)
           | Some agent \<Rightarrow>
               if ac_owner_engine agent \<noteq> mr_source_engine m \<or> ac_owner_epoch agent \<noteq> mr_source_epoch m
               then (Inl (StaleLease (mr_agent_id m)), s)
               else
                 let s1 = s\<lparr>agents := update_owner now (mr_agent_id m) (mr_destination_engine m)
                        (mr_source_epoch m + 1) (agents s)\<rparr>
                 in case update_migration mid (\<lambda>r. r\<lparr>mr_state := COMMITTED, mg_updated_at := now\<rparr>) s1 of
                      Inl e \<Rightarrow> (Inl e, s)
                    | Inr t \<Rightarrow> (Inr (mr_agent_id m), t))"

definition commit_migration :: "seconds \<Rightarrow> string \<Rightarrow> (store, agent_continuation) prog" where
  "commit_migration now mid = bindP (commit_migration_tx now mid) get_agent"

definition get_migration :: "string \<Rightarrow> (store, migration_record) prog" where
  "get_migration mid s =
     (case sel mr_migration_id mid (migrations s) of
        None \<Rightarrow> (Inl (KeyError (py_repr mid)), s)
      | Some row \<Rightarrow> (Inr (migration_record.truncate row), s))"

text \<open>\<open>ORDER BY updated_at, migration_id\<close>; an absent or empty \<open>states\<close> selects every row.\<close>

definition list_migrations ::
  "migration_state list option \<Rightarrow> store \<Rightarrow> migration_record list" where
  "list_migrations states s =
     (let rows = (case states of
            None \<Rightarrow> migrations s
          | Some ss \<Rightarrow> if ss = [] then migrations s
                        else filter (\<lambda>m. mr_state m \<in> set ss) (migrations s))
      in map migration_record.truncate
           (sort_key (\<lambda>m. (mg_updated_at m, mr_migration_id m)) rows))"

text \<open>Recovery moves the lease past the failed destination: \<open>source_epoch + 2\<close>.\<close>

definition recover_tx :: "seconds \<Rightarrow> string \<Rightarrow> engine_id \<Rightarrow> (store, agent_id) prog" where
  "recover_tx now mid recovery_engine = transaction (\<lambda>s.
     case sel mr_migration_id mid (migrations s) of
       None \<Rightarrow> (Inl (KeyError (py_repr mid)), s)
     | Some m \<Rightarrow>
         if mr_state m = RECOVERED then (Inr (mr_agent_id m), s)
         else if mr_state m \<noteq> COMMITTED \<and> mr_state m \<noteq> SOURCE_RELEASED
         then (Inl (StateConflict ''only a committed or source-released migration can be recovered''), s)
         else case sel ac_agent_id (mr_agent_id m) (agents s) of
             None \<Rightarrow> (Inl subscript_none, s)
           | Some agent \<Rightarrow>
               let destination_epoch = mr_source_epoch m + 1 in
               if (ac_owner_engine agent, ac_owner_epoch agent) \<noteq> (mr_destination_engine m, destination_epoch)
               then (Inl (StaleLease (mr_agent_id m)), s)
               else
                 let s1 = s\<lparr>agents := update_owner now (mr_agent_id m) recovery_engine
                        (destination_epoch + 1) (agents s)\<rparr>
                 in case update_migration mid (\<lambda>r. r\<lparr>mr_state := RECOVERED, mg_updated_at := now\<rparr>) s1 of
                      Inl e \<Rightarrow> (Inl e, s)
                    | Inr t \<Rightarrow> (Inr (mr_agent_id m), t))"

definition recover_committed_migration ::
  "seconds \<Rightarrow> string \<Rightarrow> engine_id \<Rightarrow> (store, agent_continuation) prog" where
  "recover_committed_migration now mid recovery_engine =
     bindP (recover_tx now mid recovery_engine) get_agent"

section \<open>Mailbox and effects\<close>

definition put_tool_result :: "seconds \<Rightarrow> tool_result \<Rightarrow> (store, bool) prog" where
  "put_tool_result now r = transaction (\<lambda>s.
     case ins_ignore mailbox_key
        \<lparr>tr_agent_id = tr_agent_id r, tr_step_id = tr_step_id r, tr_future_id = tr_future_id r,
         tr_payload = json_sorted (tr_payload r), mb_created_at = now\<rparr> (mailbox s) of
       (n, t) \<Rightarrow> (Inr (n = 1), s\<lparr>mailbox := t\<rparr>))"

definition get_tool_result ::
  "agent_id \<Rightarrow> int \<Rightarrow> string \<Rightarrow> (store, tool_result option) prog" where
  "get_tool_result a step future_id s =
     (Inr (map_option tool_result.truncate (sel mailbox_key (a, step, future_id) (mailbox s))), s)"

definition get_effect :: "agent_id \<Rightarrow> int \<Rightarrow> string \<Rightarrow> (store, effect_record) prog" where
  "get_effect a step opid s =
     (case sel effect_key (a, step, opid) (effects s) of
        None \<Rightarrow> (Inl (KeyError (''('' @ py_repr a @ '', '' @ str_int step @ '', '' @ py_repr opid @ '')'')), s)
      | Some row \<Rightarrow> (Inr (effect_record.truncate row), s))"

definition insert_effect :: "seconds \<Rightarrow> effect_record \<Rightarrow> (store, unit) prog" where
  "insert_effect now r = transaction (\<lambda>s.
     case ins_ignore effect_key
        \<lparr>er_agent_id = er_agent_id r, er_step_id = er_step_id r, er_operation_id = er_operation_id r,
         er_owner_epoch = er_owner_epoch r, er_status = E_PREPARED,
         er_payload = json_sorted (er_payload r), er_result = None, ef_updated_at = now\<rparr> (effects s) of
       (_, t) \<Rightarrow> (Inr (), s\<lparr>effects := t\<rparr>))"

definition prepare_effect :: "seconds \<Rightarrow> effect_record \<Rightarrow> (store, effect_record) prog" where
  "prepare_effect now r =
     bindP (get_agent (er_agent_id r)) (\<lambda>agent.
     thenP (assert_lease (er_agent_id r) (ac_owner_engine agent) (er_owner_epoch r))
    (thenP (insert_effect now r)
           (get_effect (er_agent_id r) (er_step_id r) (er_operation_id r))))"

fun effect_status_str :: "effect_status \<Rightarrow> string" where
  "effect_status_str E_PREPARED = ''EffectStatus.PREPARED''"
| "effect_status_str E_SUBMITTED = ''EffectStatus.SUBMITTED''"
| "effect_status_str E_COMPLETED = ''EffectStatus.COMPLETED''"
| "effect_status_str E_UNKNOWN = ''EffectStatus.UNKNOWN''"

text \<open>The update of \<open>transition_effect\<close>: a compare-and-swap on the status alone.\<close>

definition swap_effect ::
  "seconds \<Rightarrow> agent_id \<times> int \<times> string \<Rightarrow> effect_status \<Rightarrow> effect_status \<Rightarrow> int \<Rightarrow> json option \<Rightarrow>
   (store, unit) prog" where
  "swap_effect now k expected target n res = transaction (\<lambda>s.
     let P = (\<lambda>r. effect_key r = k \<and> er_status r = expected)
     in if rowcount P (effects s) \<noteq> 1 then (Inl (StateConflict ''effect transition raced''), s)
        else (Inr (), s\<lparr>effects := upd P
               (\<lambda>r. r\<lparr>er_status := target, er_owner_epoch := n, er_result := map_option json_sorted res,
                       ef_updated_at := now\<rparr>) (effects s)\<rparr>))"

definition transition_effect ::
  "seconds \<Rightarrow> agent_id \<Rightarrow> int \<Rightarrow> string \<Rightarrow> effect_status \<Rightarrow> effect_status \<Rightarrow> int \<Rightarrow> json option \<Rightarrow>
   (store, effect_record) prog" where
  "transition_effect now a step opid expected target n res =
     bindP (get_effect a step opid) (\<lambda>current.
     thenP (guardP (er_status current = expected)
              (StateConflict (''effect is '' @ effect_status_str (er_status current) @
                 '', expected '' @ effect_status_str expected)))
    (bindP (get_agent a) (\<lambda>agent.
     thenP (assert_lease a (ac_owner_engine agent) n)
    (thenP (swap_effect now (a, step, opid) expected target n res)
           (get_effect a step opid)))))"

section \<open>Returning calls\<close>

text \<open>
  What is known when a write returns: the guards it passed and the store it left. A write
  that raises leaves the store as it was (\<open>transaction_fail\<close>).
\<close>

lemma register_agent_ok:
  assumes "register_agent now c s = (Inr u, t)"
  obtains rows where "ins ac_agent_id (agent_row_of now c) (agents s) = Some rows"
    and "t = s\<lparr>agents := rows\<rparr>"
  using assms by (auto simp: register_agent_def transaction_ok split: option.splits)

lemma get_agent_ok:
  assumes "get_agent a s = (Inr c, t)"
  obtains r where "sel ac_agent_id a (agents s) = Some r" and "c = agent_continuation.truncate r" and "t = s"
  using assms by (auto simp: get_agent_def split: option.splits)

lemma truncate_agent [simp]:
  "ac_agent_id (agent_continuation.truncate r) = ac_agent_id r"
  "ac_owner_engine (agent_continuation.truncate r) = ac_owner_engine r"
  "ac_owner_epoch (agent_continuation.truncate r) = ac_owner_epoch r"
  "ac_committed_step (agent_continuation.truncate r) = ac_committed_step r"
  "ac_token_ids (agent_continuation.truncate r) = ac_token_ids r"
  "ac_stream_offset (agent_continuation.truncate r) = ac_stream_offset r"
  by (simp_all add: agent_continuation.truncate_def)

lemma truncate_migration [simp]:
  "mr_migration_id (migration_record.truncate m) = mr_migration_id m"
  "mr_agent_id (migration_record.truncate m) = mr_agent_id m"
  "mr_source_engine (migration_record.truncate m) = mr_source_engine m"
  "mr_destination_engine (migration_record.truncate m) = mr_destination_engine m"
  "mr_source_epoch (migration_record.truncate m) = mr_source_epoch m"
  "mr_state (migration_record.truncate m) = mr_state m"
  by (simp_all add: migration_record.truncate_def)

lemma truncate_effect [simp]:
  "er_status (effect_record.truncate r) = er_status r"
  "er_owner_epoch (effect_record.truncate r) = er_owner_epoch r"
  "er_payload (effect_record.truncate r) = er_payload r"
  "er_result (effect_record.truncate r) = er_result r"
  by (simp_all add: effect_record.truncate_def)

lemma assert_lease_iff:
  "assert_lease a e n s = (Inr (), s) \<longleftrightarrow>
     (\<exists>r. sel ac_agent_id a (agents s) = Some r \<and> ac_owner_engine r = e \<and> ac_owner_epoch r = n)"
  by (auto simp: assert_lease_def bindP_def get_agent_def guardP_def ret_def throw_def split: option.splits)

lemma assert_lease_state: "snd (assert_lease a e n s) = s"
  by (auto simp: assert_lease_def bindP_def get_agent_def guardP_def ret_def throw_def split: option.splits)

lemma assert_lease_ok:
  assumes "assert_lease a e n s = (Inr u, t)"
  obtains r where "sel ac_agent_id a (agents s) = Some r" and "ac_owner_engine r = e"
    and "ac_owner_epoch r = n" and "t = s"
  using assms assert_lease_state [of a e n s] assert_lease_iff [of a e n s] by auto

lemma commit_step_ok:
  assumes "commit_step now c n s = (Inr u, t)"
  obtains r where "sel ac_agent_id (ac_agent_id c) (agents s) = Some r" and "ac_owner_epoch r = n"
    and "ac_committed_step r < ac_committed_step c"
    and "t = s\<lparr>agents := update_progress now c (agents s)\<rparr>"
  using assms by (auto simp: commit_step_def transaction_ok split: option.splits if_splits)

lemma claim_step_ok:
  assumes "claim_step now a k e n rid s = (Inr u, t)"
  obtains r where "sel ac_agent_id a (agents s) = Some r" and "ac_owner_engine r = e"
    and "ac_owner_epoch r = n" and "k = ac_committed_step r + 1"
    and "(\<exists>rows. sel claim_key (a, k) (step_claims s) = None \<and>
            ins claim_key (claim_row_of now a k n rid) (step_claims s) = Some rows \<and>
            t = s\<lparr>step_claims := rows\<rparr>) \<or>
         (\<exists>q. sel claim_key (a, k) (step_claims s) = Some q \<and> cl_status q = S_FAILED \<and>
            t = s\<lparr>step_claims := upd (\<lambda>r. claim_key r = (a, k))
              (\<lambda>r. r\<lparr>cl_owner_epoch := n, cl_rid := rid, cl_status := S_CLAIMED, cl_updated_at := now\<rparr>)
              (step_claims s)\<rparr>)"
  using assms
  by (auto simp: claim_step_def transaction_ok Let_def claim_row_of_def ins_def claim_key_def
      split: option.splits if_splits)

lemma commit_claimed_step_ok:
  assumes "commit_claimed_step now c n rid s = (Inr u, t)"
  obtains q r where "sel claim_key (ac_agent_id c, ac_committed_step c) (step_claims s) = Some q"
    and "cl_status q = S_CLAIMED" and "cl_rid q = rid" and "cl_owner_epoch q = n"
    and "sel ac_agent_id (ac_agent_id c) (agents s) = Some r" and "ac_owner_epoch r = n"
    and "ac_committed_step c = ac_committed_step r + 1"
    and "t = s\<lparr>agents := update_progress now c (agents s),
         step_claims := upd (\<lambda>r. claim_key r = (ac_agent_id c, ac_committed_step c))
           (\<lambda>r. r\<lparr>cl_status := S_COMPLETED, cl_updated_at := now\<rparr>) (step_claims s)\<rparr>"
  using assms by (auto simp: commit_claimed_step_def transaction_ok Let_def split: option.splits if_splits)

lemma fail_claimed_step_ok:
  assumes "fail_claimed_step now a k rid unk s = (Inr u, t)"
  obtains "rowcount (\<lambda>r. claim_key r = (a, k) \<and> cl_rid r = rid \<and> cl_status r = S_CLAIMED) (step_claims s) = 1"
    and "t = s\<lparr>step_claims := upd (\<lambda>r. claim_key r = (a, k) \<and> cl_rid r = rid \<and> cl_status r = S_CLAIMED)
      (\<lambda>r. r\<lparr>cl_status := (if unk then S_UNKNOWN else S_FAILED), cl_updated_at := now\<rparr>) (step_claims s)\<rparr>"
  using assms by (auto simp: fail_claimed_step_def transaction_ok Let_def split: if_splits)

lemma insert_migration_ok:
  assumes "insert_migration now m s = (Inr u, t)"
  obtains rows where "ins mr_migration_id (migration_row_of now m) (migrations s) = Some rows"
    and "sel ac_agent_id (mr_agent_id m) (agents s) \<noteq> None" and "one_live_migration_per_agent rows"
    and "t = s\<lparr>migrations := rows\<rparr>"
  using assms by (auto simp: insert_migration_def transaction_ok Let_def split: option.splits if_splits)

lemma update_migration_ok:
  assumes "update_migration mid f s = Inr t"
  shows "t = s\<lparr>migrations := upd (\<lambda>r. mr_migration_id r = mid) f (migrations s)\<rparr>"
    and "one_live_migration_per_agent (upd (\<lambda>r. mr_migration_id r = mid) f (migrations s))"
  using assms by (auto simp: update_migration_def Let_def split: if_splits)

lemma transition_migration_ok:
  assumes "transition_migration now mid expected target tf s = (Inr u, t)"
  obtains row where "sel mr_migration_id mid (migrations s) = Some row" and "mr_state row = expected"
    and "update_migration mid (apply_transition now target tf) s = Inr t"
  using assms by (auto simp: transition_migration_def transaction_ok split: option.splits if_splits sum.splits)

lemma commit_migration_tx_ok:
  assumes "commit_migration_tx now mid s = (Inr a, t)"
  obtains m r where "sel mr_migration_id mid (migrations s) = Some m" and "mr_state m = DEST_READY"
    and "a = mr_agent_id m" and "sel ac_agent_id a (agents s) = Some r"
    and "ac_owner_engine r = mr_source_engine m" and "ac_owner_epoch r = mr_source_epoch m"
    and "update_migration mid (\<lambda>r. r\<lparr>mr_state := COMMITTED, mg_updated_at := now\<rparr>)
      (s\<lparr>agents := update_owner now a (mr_destination_engine m) (mr_source_epoch m + 1) (agents s)\<rparr>) = Inr t"
  using assms
  by (auto simp: commit_migration_tx_def transaction_ok Let_def split: option.splits if_splits sum.splits)

lemma recover_tx_ok:
  assumes "recover_tx now mid e s = (Inr a, t)"
  obtains (again) m where "sel mr_migration_id mid (migrations s) = Some m" and "mr_state m = RECOVERED"
    and "a = mr_agent_id m" and "t = s"
  | (moved) m r where "sel mr_migration_id mid (migrations s) = Some m"
    and "mr_state m = COMMITTED \<or> mr_state m = SOURCE_RELEASED"
    and "a = mr_agent_id m" and "sel ac_agent_id a (agents s) = Some r"
    and "ac_owner_engine r = mr_destination_engine m" and "ac_owner_epoch r = mr_source_epoch m + 1"
    and "update_migration mid (\<lambda>r. r\<lparr>mr_state := RECOVERED, mg_updated_at := now\<rparr>)
      (s\<lparr>agents := update_owner now a e (mr_source_epoch m + 1 + 1) (agents s)\<rparr>) = Inr t"
  using assms
  by (auto simp: recover_tx_def transaction_ok Let_def split: option.splits if_splits sum.splits)

lemma swap_effect_ok:
  assumes "swap_effect now k expected target n res s = (Inr u, t)"
  obtains "rowcount (\<lambda>r. effect_key r = k \<and> er_status r = expected) (effects s) = 1"
    and "t = s\<lparr>effects := upd (\<lambda>r. effect_key r = k \<and> er_status r = expected)
      (\<lambda>r. r\<lparr>er_status := target, er_owner_epoch := n, er_result := map_option json_sorted res,
              ef_updated_at := now\<rparr>) (effects s)\<rparr>"
  using assms by (auto simp: swap_effect_def transaction_ok Let_def split: if_splits)

end
