(* ===== verification/StoreLaws.thy ===== *)
theory StoreLaws
  imports StateStore
begin

text \<open>
  What the store keeps true. A run of the system is a sequence of transactions, whatever
  processes issue them and however their other work interleaves: \<open>store_call\<close> lists the
  transactions, \<open>run_call\<close> applies one. \<open>store_le\<close> says how rows may move (epochs and
  steps grow, an epoch has one owner, claims follow their life cycle, identities are
  fixed) and every call respects it; \<open>store_ok\<close> collects the integrity constraints.
\<close>

section \<open>How rows move\<close>

definition agent_le :: "agent_row \<Rightarrow> agent_row \<Rightarrow> bool" where
  "agent_le r q \<longleftrightarrow> ac_owner_epoch r \<le> ac_owner_epoch q \<and> ac_committed_step r \<le> ac_committed_step q \<and>
     (ac_owner_epoch r = ac_owner_epoch q \<longrightarrow> ac_owner_engine r = ac_owner_engine q)"

text \<open>
  The life cycle of a step claim. Completed and unknown claims never move again; a failed
  claim may be taken by another request.
\<close>

inductive claim_next :: "claim_row \<Rightarrow> claim_row \<Rightarrow> bool" where
  finished: "cl_status r = S_CLAIMED \<Longrightarrow>
     claim_next r (r\<lparr>cl_status := S_COMPLETED, cl_updated_at := now\<rparr>)"
| failed: "cl_status r = S_CLAIMED \<Longrightarrow> st = S_FAILED \<or> st = S_UNKNOWN \<Longrightarrow>
     claim_next r (r\<lparr>cl_status := st, cl_updated_at := now\<rparr>)"
| retaken: "cl_status r = S_FAILED \<Longrightarrow>
     claim_next r (r\<lparr>cl_owner_epoch := n, cl_rid := rid, cl_status := S_CLAIMED, cl_updated_at := now\<rparr>)"

inductive_cases claim_nextE: "claim_next r q"

inductive_simps claim_next_completed: "claim_next \<lparr>cl_agent_id = a, cl_step_id = k,
  cl_owner_epoch = n, cl_rid = rid, cl_status = S_COMPLETED, cl_updated_at = now\<rparr> q"

definition migration_le :: "migration_row \<Rightarrow> migration_row \<Rightarrow> bool" where
  "migration_le r q \<longleftrightarrow> mr_agent_id q = mr_agent_id r \<and> mr_source_engine q = mr_source_engine r \<and>
     mr_destination_engine q = mr_destination_engine r \<and> mr_source_epoch q = mr_source_epoch r"

definition effect_le :: "effect_row \<Rightarrow> effect_row \<Rightarrow> bool" where
  "effect_le r q \<longleftrightarrow> er_payload q = er_payload r"

interpretation agent_moves: row_order agent_le ac_agent_id
  by unfold_locales (auto simp: agent_le_def)

interpretation claim_moves: row_order "claim_next\<^sup>*\<^sup>*" claim_key
  by unfold_locales auto

interpretation migration_moves: row_order migration_le mr_migration_id
  by unfold_locales (auto simp: migration_le_def)

interpretation effect_moves: row_order effect_le effect_key
  by unfold_locales (auto simp: effect_le_def)

interpretation mailbox_moves: row_order "(=) :: mailbox_row \<Rightarrow> mailbox_row \<Rightarrow> bool" mailbox_key
  by unfold_locales auto

definition store_le :: "store \<Rightarrow> store \<Rightarrow> bool" where
  "store_le s t \<longleftrightarrow>
     table_le agent_le ac_agent_id (agents s) (agents t) \<and>
     table_le claim_next\<^sup>*\<^sup>* claim_key (step_claims s) (step_claims t) \<and>
     table_le migration_le mr_migration_id (migrations s) (migrations t) \<and>
     table_le effect_le effect_key (effects s) (effects t) \<and>
     table_le (=) mailbox_key (mailbox s) (mailbox t)"

lemmas store_le_refls = agent_moves.table_refl claim_moves.table_refl migration_moves.table_refl
  effect_moves.table_refl mailbox_moves.table_refl

interpretation store_moves: step_preorder store_le
proof (unfold_locales, goal_cases)
  case (1 s)
  show ?case by (simp add: store_le_def store_le_refls)
next
  case (2 s t u)
  then show ?case
    unfolding store_le_def
    by (meson agent_moves.table_trans claim_moves.table_trans migration_moves.table_trans
        effect_moves.table_trans mailbox_moves.table_trans)
qed

lemma store_le_agents: "table_le agent_le ac_agent_id (agents s) t \<Longrightarrow> store_le s (s\<lparr>agents := t\<rparr>)"
  by (simp add: store_le_def store_le_refls)

lemma store_le_claims:
  "table_le claim_next\<^sup>*\<^sup>* claim_key (step_claims s) t \<Longrightarrow> store_le s (s\<lparr>step_claims := t\<rparr>)"
  by (simp add: store_le_def store_le_refls)

lemma store_le_migrations:
  "table_le migration_le mr_migration_id (migrations s) t \<Longrightarrow> store_le s (s\<lparr>migrations := t\<rparr>)"
  by (simp add: store_le_def store_le_refls)

lemma store_le_effects:
  "table_le effect_le effect_key (effects s) t \<Longrightarrow> store_le s (s\<lparr>effects := t\<rparr>)"
  by (simp add: store_le_def store_le_refls)

lemma store_le_mailbox:
  "table_le (=) mailbox_key (mailbox s) t \<Longrightarrow> store_le s (s\<lparr>mailbox := t\<rparr>)"
  by (simp add: store_le_def store_le_refls)

section \<open>Every operation moves rows forward\<close>

lemma agent_row_key [simp]: "ac_agent_id (agent_row_of now c) = ac_agent_id c"
  by (simp add: agent_row_of_def)

lemma migration_row_fields [simp]:
  "mr_migration_id (migration_row_of now m) = mr_migration_id m"
  "mr_agent_id (migration_row_of now m) = mr_agent_id m"
  "mr_state (migration_row_of now m) = mr_state m"
  by (simp_all add: migration_row_of_def)

lemma apply_transition_fields [simp]:
  "mr_migration_id (apply_transition now st tf r) = mr_migration_id r"
  "mr_agent_id (apply_transition now st tf r) = mr_agent_id r"
  "mr_source_engine (apply_transition now st tf r) = mr_source_engine r"
  "mr_destination_engine (apply_transition now st tf r) = mr_destination_engine r"
  "mr_source_epoch (apply_transition now st tf r) = mr_source_epoch r"
  "mr_state (apply_transition now st tf r) = st"
  by (simp_all add: apply_transition_def)

lemma claim_key_update [simp]:
  "claim_key (r\<lparr>cl_status := st\<rparr>) = claim_key r" "claim_key (r\<lparr>cl_updated_at := now\<rparr>) = claim_key r"
  "claim_key (r\<lparr>cl_rid := rid\<rparr>) = claim_key r" "claim_key (r\<lparr>cl_owner_epoch := n\<rparr>) = claim_key r"
  by (simp_all add: claim_key_def)

lemma effect_key_update [simp]:
  "effect_key (r\<lparr>er_status := st\<rparr>) = effect_key r" "effect_key (r\<lparr>er_owner_epoch := n\<rparr>) = effect_key r"
  "effect_key (r\<lparr>er_result := v\<rparr>) = effect_key r" "effect_key (r\<lparr>ef_updated_at := now\<rparr>) = effect_key r"
  for r :: effect_row
  by (simp_all add: effect_key_def)

lemma sel_update_owner:
  "sel ac_agent_id k (update_owner now a e n t) =
     (if k = a then map_option (\<lambda>r. r\<lparr>ac_owner_engine := e, ac_owner_epoch := n, ag_updated_at := now\<rparr>)
        (sel ac_agent_id k t) else sel ac_agent_id k t)"
  unfolding update_owner_def by (rule agent_tab.update_by_key) simp

lemma sel_update_progress:
  "sel ac_agent_id k (update_progress now c t) =
     (if k = ac_agent_id c then map_option (\<lambda>r. r\<lparr>ac_committed_step := ac_committed_step c,
        ac_token_ids := ac_token_ids c, ac_pending_tool_future := ac_pending_tool_future c,
        ac_workspace_ref := ac_workspace_ref c, ac_stream_offset := ac_stream_offset c,
        ac_metadata := json_sorted (ac_metadata c), ag_updated_at := now\<rparr>) (sel ac_agent_id k t)
      else sel ac_agent_id k t)"
  unfolding update_progress_def by (rule agent_tab.update_by_key) simp

lemma table_le_update_owner:
  assumes "sel ac_agent_id a t = Some r" and "ac_owner_epoch r < n"
  shows "table_le agent_le ac_agent_id t (update_owner now a e n t)"
  using assms by (auto simp: table_le_def sel_update_owner agent_le_def)

lemma table_le_update_progress:
  assumes "sel ac_agent_id (ac_agent_id c) t = Some r" and "ac_committed_step r \<le> ac_committed_step c"
  shows "table_le agent_le ac_agent_id t (update_progress now c t)"
  using assms by (auto simp: table_le_def sel_update_progress agent_le_def)

lemma store_le_update_migration:
  assumes up: "update_migration mid f s = Inr t"
    and f: "\<And>r. mr_migration_id (f r) = mr_migration_id r" "\<And>r. migration_le r (f r)"
  shows "store_le s t"
proof -
  have "t = s\<lparr>migrations := upd (\<lambda>r. mr_migration_id r = mid) f (migrations s)\<rparr>"
    using up by (auto simp: update_migration_def Let_def split: if_splits)
  then show ?thesis
    by (simp add: store_le_migrations migration_moves.table_upd f)
qed

lemma claim_finished:
  "cl_status r = S_CLAIMED \<Longrightarrow> claim_next\<^sup>*\<^sup>* r (r\<lparr>cl_status := S_COMPLETED, cl_updated_at := now\<rparr>)"
  by (rule r_into_rtranclp) (rule claim_next.finished)

lemma claim_failed:
  "cl_status r = S_CLAIMED \<Longrightarrow>
     claim_next\<^sup>*\<^sup>* r (r\<lparr>cl_status := (if unk then S_UNKNOWN else S_FAILED), cl_updated_at := now\<rparr>)"
  by (rule r_into_rtranclp) (rule claim_next.failed; simp)

lemma claim_retaken:
  "cl_status r = S_FAILED \<Longrightarrow> claim_next\<^sup>*\<^sup>* r
     (r\<lparr>cl_owner_epoch := n, cl_rid := rid, cl_status := S_CLAIMED, cl_updated_at := now\<rparr>)"
  by (rule r_into_rtranclp) (rule claim_next.retaken)

lemma steps_get_agent [steps_intros]: "steps store_le (get_agent a)"
  by (rule stepsI) (simp add: get_agent_def store_moves.refl_R split: option.splits)

lemma steps_assert_lease [steps_intros]: "steps store_le (assert_lease a e n)"
  by (rule stepsI) (simp add: assert_lease_state store_moves.refl_R)

lemma steps_txI:
  assumes "m = transaction b" and "\<And>s a t. m s = (Inr a, t) \<Longrightarrow> store_le s t"
  shows "steps store_le m"
  using assms store_moves.steps_transactionI [of b] by (simp add: transaction_ok)

lemma steps_register_agent [steps_intros]: "steps store_le (register_agent now c)"
  by (rule steps_txI [OF register_agent_def])
    (auto elim!: register_agent_ok intro!: store_le_agents agent_moves.table_ins)

lemma steps_commit_step [steps_intros]: "steps store_le (commit_step now c n)"
  by (rule steps_txI [OF commit_step_def])
    (auto elim!: commit_step_ok intro!: store_le_agents table_le_update_progress)

lemma store_le_claim_upd:
  assumes "sel claim_key k (step_claims s) = Some q" and "claim_next\<^sup>*\<^sup>* q (f q)"
    and "\<And>r. claim_key (f r) = claim_key r"
  shows "store_le s (s\<lparr>step_claims := upd (\<lambda>r. claim_key r = k) f (step_claims s)\<rparr>)"
  using assms by (intro store_le_claims claim_moves.table_upd_key) auto

lemma steps_claim_step [steps_intros]: "steps store_le (claim_step now a k e n rid)"
proof (rule steps_txI [OF claim_step_def])
  fix s u t
  assume "claim_step now a k e n rid s = (Inr u, t)"
  then show "store_le s t"
  proof (rule claim_step_ok, elim disjE exE conjE)
    fix rows
    assume "ins claim_key (claim_row_of now a k n rid) (step_claims s) = Some rows"
      and "t = s\<lparr>step_claims := rows\<rparr>"
    then show ?thesis by (simp add: store_le_claims claim_moves.table_ins)
  next
    fix q
    assume "sel claim_key (a, k) (step_claims s) = Some q" and "cl_status q = S_FAILED"
      and "t = s\<lparr>step_claims := upd (\<lambda>r. claim_key r = (a, k)) (\<lambda>r. r\<lparr>cl_owner_epoch := n,
        cl_rid := rid, cl_status := S_CLAIMED, cl_updated_at := now\<rparr>) (step_claims s)\<rparr>"
    then show ?thesis by (auto intro: store_le_claim_upd claim_retaken)
  qed
qed

lemma steps_commit_claimed_step [steps_intros]: "steps store_le (commit_claimed_step now c n rid)"
proof (rule steps_txI [OF commit_claimed_step_def])
  fix s u t
  assume "commit_claimed_step now c n rid s = (Inr u, t)"
  then show "store_le s t"
  proof (rule commit_claimed_step_ok)
    fix q r
    let ?k = "(ac_agent_id c, ac_committed_step c)"
    let ?t1 = "s\<lparr>agents := update_progress now c (agents s)\<rparr>"
    assume q: "sel claim_key ?k (step_claims s) = Some q" "cl_status q = S_CLAIMED"
      and r: "sel ac_agent_id (ac_agent_id c) (agents s) = Some r"
        "ac_committed_step c = ac_committed_step r + 1"
      and t: "t = s\<lparr>agents := update_progress now c (agents s), step_claims :=
        upd (\<lambda>r. claim_key r = ?k) (\<lambda>r. r\<lparr>cl_status := S_COMPLETED, cl_updated_at := now\<rparr>) (step_claims s)\<rparr>"
    have "store_le s ?t1"
      using r by (intro store_le_agents table_le_update_progress [OF r(1)]) simp
    moreover have "store_le ?t1 t"
      using q store_le_claim_upd [of ?k ?t1 q "\<lambda>r. r\<lparr>cl_status := S_COMPLETED, cl_updated_at := now\<rparr>"]
      by (simp add: t claim_finished)
    ultimately show ?thesis by (rule store_moves.trans_R)
  qed
qed

lemma steps_fail_claimed_step [steps_intros]: "steps store_le (fail_claimed_step now a k rid unk)"
  by (rule steps_txI [OF fail_claimed_step_def])
    (auto elim!: fail_claimed_step_ok simp del: if_split intro!: store_le_claims claim_moves.table_upd claim_failed)

lemma steps_insert_migration [steps_intros]: "steps store_le (insert_migration now m)"
  by (rule steps_txI [OF insert_migration_def])
    (auto elim!: insert_migration_ok intro!: store_le_migrations migration_moves.table_ins)

lemma steps_start_migration [steps_intros]: "steps store_le (start_migration now m)"
  unfolding start_migration_def by (intro store_moves.steps_thenP steps_intros)

lemma steps_transition_migration [steps_intros]:
  "steps store_le (transition_migration now mid expected target tf)"
  by (rule steps_txI [OF transition_migration_def])
    (auto elim!: transition_migration_ok intro!: store_le_update_migration simp: migration_le_def)

lemma store_le_move_owner:
  assumes "sel ac_agent_id a (agents s) = Some r" and "ac_owner_epoch r < n"
    and "update_migration mid (\<lambda>r. r\<lparr>mr_state := st, mg_updated_at := now\<rparr>)
      (s\<lparr>agents := update_owner now a e n (agents s)\<rparr>) = Inr t"
  shows "store_le s t"
  using store_le_agents [OF table_le_update_owner [OF assms(1,2)]] store_le_update_migration [OF assms(3)]
  by (auto simp: migration_le_def intro: store_moves.trans_R)

lemma steps_commit_migration_tx [steps_intros]: "steps store_le (commit_migration_tx now mid)"
proof (rule steps_txI [OF commit_migration_tx_def])
  fix s a t
  assume "commit_migration_tx now mid s = (Inr a, t)"
  then show "store_le s t"
  proof (rule commit_migration_tx_ok)
    fix m r
    assume "sel ac_agent_id a (agents s) = Some r" and "ac_owner_epoch r = mr_source_epoch m"
      and "update_migration mid (\<lambda>r. r\<lparr>mr_state := COMMITTED, mg_updated_at := now\<rparr>) (s\<lparr>agents :=
        update_owner now a (mr_destination_engine m) (mr_source_epoch m + 1) (agents s)\<rparr>) = Inr t"
    then show ?thesis by (intro store_le_move_owner) auto
  qed
qed

lemma steps_commit_migration [steps_intros]: "steps store_le (commit_migration now mid)"
  unfolding commit_migration_def by (intro store_moves.steps_bindP steps_intros)

lemma steps_recover_tx [steps_intros]: "steps store_le (recover_tx now mid e)"
proof (rule steps_txI [OF recover_tx_def])
  fix s a t
  assume "recover_tx now mid e s = (Inr a, t)"
  then show "store_le s t"
  proof (rule recover_tx_ok)
    assume "t = s" then show ?thesis by (simp add: store_moves.refl_R)
  next
    fix m r
    assume "sel ac_agent_id a (agents s) = Some r" and "ac_owner_epoch r = mr_source_epoch m + 1"
      and "update_migration mid (\<lambda>r. r\<lparr>mr_state := RECOVERED, mg_updated_at := now\<rparr>)
        (s\<lparr>agents := update_owner now a e (mr_source_epoch m + 1 + 1) (agents s)\<rparr>) = Inr t"
    then show ?thesis by (intro store_le_move_owner) auto
  qed
qed

lemma steps_recover_committed_migration [steps_intros]:
  "steps store_le (recover_committed_migration now mid e)"
  unfolding recover_committed_migration_def by (intro store_moves.steps_bindP steps_intros)

lemma steps_get_migration [steps_intros]: "steps store_le (get_migration mid)"
  by (rule stepsI) (simp add: get_migration_def store_moves.refl_R split: option.splits)

lemma steps_put_tool_result [steps_intros]: "steps store_le (put_tool_result now r)"
  using mailbox_moves.table_ins_ignore
  by (intro stepsI) (auto simp: put_tool_result_def transaction_def store_le_mailbox
      dest!: arg_cong [where f = snd] split: prod.splits)

lemma steps_get_tool_result [steps_intros]: "steps store_le (get_tool_result a k f)"
  by (rule stepsI) (simp add: get_tool_result_def store_moves.refl_R)

lemma steps_get_effect [steps_intros]: "steps store_le (get_effect a k opid)"
  by (rule stepsI) (simp add: get_effect_def store_moves.refl_R split: option.splits)

lemma steps_insert_effect [steps_intros]: "steps store_le (insert_effect now r)"
  using effect_moves.table_ins_ignore
  by (intro stepsI) (auto simp: insert_effect_def transaction_def store_le_effects
      dest!: arg_cong [where f = snd] split: prod.splits)

lemma steps_prepare_effect [steps_intros]: "steps store_le (prepare_effect now r)"
  unfolding prepare_effect_def by (intro store_moves.steps_rules steps_intros)

lemma steps_swap_effect [steps_intros]: "steps store_le (swap_effect now k expected target n res)"
  by (rule steps_txI [OF swap_effect_def])
    (auto elim!: swap_effect_ok intro!: store_le_effects effect_moves.table_upd simp: effect_le_def)

lemma steps_transition_effect [steps_intros]:
  "steps store_le (transition_effect now a k opid expected target n res)"
  unfolding transition_effect_def by (intro store_moves.steps_rules steps_intros)

end
