(* ===== verification/StoreRuns.thy ===== *)
theory StoreRuns
  imports StoreLaws
begin

text \<open>
  Runs of the store: sequences of transactions issued by any number of executors,
  coordinators and effect proxies, in any order. A call whose guard fails is part of the
  run and changes nothing. The lease check that \<open>start_migration\<close>, \<open>prepare_effect\<close> and
  \<open>transition_effect\<close> do outside their transaction may be arbitrarily old when the
  transaction runs, so the calls here are the transactions alone, with any arguments.
\<close>

section \<open>Calls, runs, reachable stores\<close>

datatype store_call =
    RegisterAgent seconds agent_continuation
  | CommitStep seconds agent_continuation int
  | ClaimStep seconds agent_id int engine_id int string
  | CommitClaimedStep seconds agent_continuation int string
  | FailClaimedStep seconds agent_id int string bool
  | InsertMigration seconds migration_record
  | TransitionMigration seconds string migration_state migration_state transition_fields
  | CommitMigration seconds string
  | RecoverMigration seconds string engine_id
  | PutToolResult seconds tool_result
  | InsertEffect seconds effect_record
  | SwapEffect seconds "agent_id \<times> int \<times> string" effect_status effect_status int "json option"

fun run_call :: "store_call \<Rightarrow> store \<Rightarrow> store" where
  "run_call (RegisterAgent now c) s = snd (register_agent now c s)"
| "run_call (CommitStep now c n) s = snd (commit_step now c n s)"
| "run_call (ClaimStep now a k e n rid) s = snd (claim_step now a k e n rid s)"
| "run_call (CommitClaimedStep now c n rid) s = snd (commit_claimed_step now c n rid s)"
| "run_call (FailClaimedStep now a k rid unk) s = snd (fail_claimed_step now a k rid unk s)"
| "run_call (InsertMigration now m) s = snd (insert_migration now m s)"
| "run_call (TransitionMigration now mid x y tf) s = snd (transition_migration now mid x y tf s)"
| "run_call (CommitMigration now mid) s = snd (commit_migration_tx now mid s)"
| "run_call (RecoverMigration now mid e) s = snd (recover_tx now mid e s)"
| "run_call (PutToolResult now r) s = snd (put_tool_result now r s)"
| "run_call (InsertEffect now r) s = snd (insert_effect now r s)"
| "run_call (SwapEffect now k x y n v) s = snd (swap_effect now k x y n v s)"

definition run_calls :: "store_call list \<Rightarrow> store \<Rightarrow> store" where
  "run_calls cs s = fold run_call cs s"

lemma run_calls_simps [simp]:
  "run_calls [] s = s" "run_calls (c # cs) s = run_calls cs (run_call c s)"
  "run_calls (cs @ ds) s = run_calls ds (run_calls cs s)"
  by (simp_all add: run_calls_def)

inductive reachable :: "store \<Rightarrow> bool" where
  init: "reachable initialize"
| call: "reachable s \<Longrightarrow> reachable (run_call c s)"

lemma reachable_run_calls: "reachable s \<Longrightarrow> reachable (run_calls cs s)"
  by (induction cs arbitrary: s) (auto intro: reachable.call)

lemma steps_store: "steps store_le m \<Longrightarrow> store_le s (snd (m s))"
  by (simp add: steps_def)

lemma run_call_le: "store_le s (run_call c s)"
  by (cases c; simp only: run_call.simps; rule steps_store; rule steps_intros)

lemma run_calls_le: "store_le s (run_calls cs s)"
  by (induction cs arbitrary: s) (auto intro: store_moves.refl_R store_moves.trans_R run_call_le)

lemma store_le_agentD:
  "store_le s t \<Longrightarrow> sel ac_agent_id a (agents s) = Some r \<Longrightarrow>
     \<exists>q. sel ac_agent_id a (agents t) = Some q \<and> agent_le r q"
  by (auto simp: store_le_def dest: table_leD)

text \<open>A call either leaves the store or is one of its returning transactions.\<close>

lemma tx_cases:
  assumes "m = transaction b"
  obtains "snd (m s) = s" | a where "m s = (Inr a, snd (m s))"
  using assms by (cases "b s"; cases "fst (b s)") (auto simp: transaction_def)

section \<open>Integrity\<close>

text \<open>
  A claim is for a step that exists or is next, was taken at an epoch not above the
  agent's, and a completed claim's step is committed.
\<close>

definition claim_ok :: "agent_row list \<Rightarrow> claim_row \<Rightarrow> bool" where
  "claim_ok as q = (case sel ac_agent_id (cl_agent_id q) as of
      None \<Rightarrow> False
    | Some r \<Rightarrow> cl_step_id q \<le> ac_committed_step r + 1 \<and> cl_owner_epoch q \<le> ac_owner_epoch r \<and>
        (cl_status q = S_COMPLETED \<longrightarrow> cl_step_id q \<le> ac_committed_step r))"

definition store_ok :: "store \<Rightarrow> bool" where
  "store_ok s \<longleftrightarrow>
     distinct (map ac_agent_id (agents s)) \<and> distinct (map mr_migration_id (migrations s)) \<and>
     distinct (map mailbox_key (mailbox s)) \<and> distinct (map effect_key (effects s)) \<and>
     distinct (map claim_key (step_claims s)) \<and>
     one_live_migration_per_agent (migrations s) \<and>
     (\<forall>m \<in> set (migrations s). sel ac_agent_id (mr_agent_id m) (agents s) \<noteq> None) \<and>
     (\<forall>q \<in> set (step_claims s). claim_ok (agents s) q)"

lemma claim_ok_mono:
  assumes "store_le s t" and "claim_ok (agents s) q"
  shows "claim_ok (agents t) q"
  using assms store_le_agentD [of s t "cl_agent_id q"]
  by (fastforce simp: claim_ok_def agent_le_def split: option.splits)

lemma agent_stays:
  "store_le s t \<Longrightarrow> sel ac_agent_id a (agents s) \<noteq> None \<Longrightarrow> sel ac_agent_id a (agents t) \<noteq> None"
  by (auto dest: store_le_agentD)

lemma store_okI:
  assumes "store_ok s" and "store_le s t"
    and "distinct (map ac_agent_id (agents t))" and "distinct (map mr_migration_id (migrations t))"
    and "distinct (map mailbox_key (mailbox t))" and "distinct (map effect_key (effects t))"
    and "distinct (map claim_key (step_claims t))"
    and "one_live_migration_per_agent (migrations t)"
    and "\<And>m. m \<in> set (migrations t) \<Longrightarrow> sel ac_agent_id (mr_agent_id m) (agents s) \<noteq> None"
    and "\<And>q. q \<in> set (step_claims t) \<Longrightarrow> q \<notin> set (step_claims s) \<Longrightarrow> claim_ok (agents t) q"
  shows "store_ok t"
  using assms claim_ok_mono [OF assms(2)] agent_stays [OF assms(2)]
  unfolding store_ok_def by blast

lemma store_ok_sel_claim:
  "store_ok s \<Longrightarrow> sel claim_key k (step_claims s) = Some q \<Longrightarrow> claim_ok (agents s) q"
  by (auto simp: store_ok_def dest: sel_mem)

lemma keys_update_progress [simp]:
  "map ac_agent_id (update_progress now c t) = map ac_agent_id t"
  unfolding update_progress_def by (rule keys_upd) simp

lemma keys_update_owner [simp]:
  "map ac_agent_id (update_owner now a e n t) = map ac_agent_id t"
  unfolding update_owner_def by (rule keys_upd) simp

lemma mem_upd: "q \<in> set (upd P f t) \<Longrightarrow> q \<in> set t \<or> (\<exists>r \<in> set t. P r \<and> q = f r)"
  by (auto simp: upd_def split: if_splits)

lemma mem_ins: "ins key r t = Some u \<Longrightarrow> q \<in> set u \<Longrightarrow> q \<in> set t \<or> q = r"
  by (auto simp: ins_def split: if_splits)

lemma distinct_ins_ignore: "distinct (map key t) \<Longrightarrow> distinct (map key (snd (ins_ignore key r t)))"
  by (auto simp: ins_ignore_def dest: keys_ins split: option.splits)

lemma store_ok_update_migration:
  assumes "store_ok s" and "store_le s t" and "update_migration mid f s1 = Inr t"
    and "migrations s1 = migrations s" "mailbox s1 = mailbox s" "effects s1 = effects s"
      "step_claims s1 = step_claims s" "map ac_agent_id (agents s1) = map ac_agent_id (agents s)"
    and "\<And>r. mr_migration_id (f r) = mr_migration_id r" "\<And>r. mr_agent_id (f r) = mr_agent_id r"
  shows "store_ok t"
proof (rule store_okI [OF assms(1,2)])
  note up = update_migration_ok [OF assms(3)]
  show "one_live_migration_per_agent (migrations t)" using up by simp
  show "distinct (map mr_migration_id (migrations t))"
    using assms(1,4,9) up(1) keys_upd [of mr_migration_id f] by (simp add: store_ok_def)
  fix m assume "m \<in> set (migrations t)"
  then obtain r where "r \<in> set (migrations s)" and "mr_agent_id m = mr_agent_id r"
    using up(1) assms(4,10) by (auto dest!: mem_upd)
  then show "sel ac_agent_id (mr_agent_id m) (agents s) \<noteq> None"
    using assms(1) by (simp add: store_ok_def)
qed (use assms update_migration_ok(1) [OF assms(3)] in \<open>simp_all add: store_ok_def\<close>)

text \<open>Every transaction keeps the integrity constraints: one lemma per table it writes.\<close>

lemma store_ok_run_agents:
  assumes "store_ok s" and "store_le s (s\<lparr>agents := t\<rparr>)" and "distinct (map ac_agent_id t)"
  shows "store_ok (s\<lparr>agents := t\<rparr>)"
  using assms by (intro store_okI [OF assms(1,2)]) (auto simp: store_ok_def)

lemma store_ok_run_claims:
  assumes "store_ok s" and "store_le s t"
    and "t = s\<lparr>agents := rows, step_claims := claims\<rparr>"
    and "map ac_agent_id rows = map ac_agent_id (agents s)"
    and "distinct (map claim_key claims)"
    and "\<And>q. q \<in> set claims \<Longrightarrow> q \<notin> set (step_claims s) \<Longrightarrow> claim_ok rows q"
  shows "store_ok t"
  using assms by (intro store_okI [OF assms(1,2)]) (auto simp: store_ok_def)

lemma store_ok_register_agent:
  assumes ok: "store_ok s" and call: "register_agent now c s = (Inr u, t)"
  shows "store_ok t"
  using call
proof (rule register_agent_ok)
  fix rows
  assume rows: "ins ac_agent_id (agent_row_of now c) (agents s) = Some rows" and t: "t = s\<lparr>agents := rows\<rparr>"
  show ?thesis
    using ok keys_ins [OF rows] stepsD [OF steps_register_agent call] t
    by (simp add: store_ok_run_agents store_ok_def [of s])
qed

lemma store_ok_commit_step:
  assumes ok: "store_ok s" and call: "commit_step now c n s = (Inr u, t)"
  shows "store_ok t"
  using call
proof (rule commit_step_ok)
  assume "t = s\<lparr>agents := update_progress now c (agents s)\<rparr>"
  then show ?thesis
    using ok stepsD [OF steps_commit_step call] by (simp add: store_ok_run_agents store_ok_def [of s])
qed

lemma store_ok_claim_step:
  assumes ok: "store_ok s" and call: "claim_step now a k e n rid s = (Inr u, t)"
  shows "store_ok t"
proof -
  note le = stepsD [OF steps_claim_step call]
  have new: "claim_ok (agents s) q" if "sel ac_agent_id a (agents s) = Some r"
    "cl_agent_id q = a" "cl_step_id q = k" "cl_owner_epoch q = n" "cl_status q = S_CLAIMED"
    "ac_owner_epoch r = n" "k = ac_committed_step r + 1" for q r
    using that by (simp add: claim_ok_def)
  have keys: "distinct (map claim_key (step_claims s))" using ok by (simp add: store_ok_def)
  show ?thesis
    using call
  proof (rule claim_step_ok, elim disjE exE conjE)
    fix r rows
    assume r: "sel ac_agent_id a (agents s) = Some r" "ac_owner_epoch r = n" "k = ac_committed_step r + 1"
      and rows: "ins claim_key (claim_row_of now a k n rid) (step_claims s) = Some rows"
      and t: "t = s\<lparr>step_claims := rows\<rparr>"
    show ?thesis
      using new [OF r(1), of "claim_row_of now a k n rid"] r keys keys_ins [OF rows] t
      by (intro store_ok_run_claims [OF ok le, where rows = "agents s" and claims = rows])
        (auto simp: claim_row_of_def dest: mem_ins [OF rows])
  next
    fix r q
    let ?f = "\<lambda>r. r\<lparr>cl_owner_epoch := n, cl_rid := rid, cl_status := S_CLAIMED, cl_updated_at := now\<rparr>"
    assume r: "sel ac_agent_id a (agents s) = Some r" "ac_owner_epoch r = n" "k = ac_committed_step r + 1"
      and t: "t = s\<lparr>step_claims := upd (\<lambda>r. claim_key r = (a, k)) ?f (step_claims s)\<rparr>"
    show ?thesis
      using new [OF r(1)] r keys keys_upd [of claim_key ?f] t
      by (intro store_ok_run_claims [OF ok le, where rows = "agents s"
           and claims = "upd (\<lambda>r. claim_key r = (a, k)) ?f (step_claims s)"])
        (auto simp: claim_key_def dest!: mem_upd)
  qed
qed

lemma store_ok_commit_claimed_step:
  assumes ok: "store_ok s" and call: "commit_claimed_step now c n rid s = (Inr u, t)"
  shows "store_ok t"
  using call
proof (rule commit_claimed_step_ok)
  fix q r
  let ?k = "(ac_agent_id c, ac_committed_step c)"
  let ?f = "\<lambda>r. r\<lparr>cl_status := S_COMPLETED, cl_updated_at := now\<rparr>"
  let ?cs = "upd (\<lambda>r. claim_key r = ?k) ?f (step_claims s)"
  assume q: "cl_owner_epoch q = n" "sel claim_key ?k (step_claims s) = Some q"
    and r: "sel ac_agent_id (ac_agent_id c) (agents s) = Some r" "ac_owner_epoch r = n"
    and t: "t = s\<lparr>agents := update_progress now c (agents s), step_claims := ?cs\<rparr>"
  have keys: "distinct (map claim_key (step_claims s))" using ok by (simp add: store_ok_def)
  have "claim_ok (update_progress now c (agents s)) p" if "p \<in> set ?cs" "p \<notin> set (step_claims s)" for p
  proof -
    obtain p' where p': "p' \<in> set (step_claims s)" "claim_key p' = ?k" "p = ?f p'"
      using \<open>p \<in> set ?cs\<close> \<open>p \<notin> set (step_claims s)\<close> by (auto dest!: mem_upd)
    have "claim_ok (agents s) p'" using ok p'(1) by (simp add: store_ok_def)
    then show ?thesis using p' r by (auto simp: claim_ok_def sel_update_progress claim_key_def)
  qed
  then show ?thesis
    using keys keys_upd [of claim_key ?f] t
    by (intro store_ok_run_claims [OF ok stepsD [OF steps_commit_claimed_step call],
           where rows = "update_progress now c (agents s)" and claims = ?cs]) auto
qed

lemma store_ok_fail_claimed_step:
  assumes ok: "store_ok s" and call: "fail_claimed_step now a k rid unk s = (Inr u, t)"
  shows "store_ok t"
  using call
proof (rule fail_claimed_step_ok)
  let ?P = "\<lambda>r. claim_key r = (a, k) \<and> cl_rid r = rid \<and> cl_status r = S_CLAIMED"
  let ?f = "\<lambda>r. r\<lparr>cl_status := (if unk then S_UNKNOWN else S_FAILED), cl_updated_at := now\<rparr>"
  assume t: "t = s\<lparr>step_claims := upd ?P ?f (step_claims s)\<rparr>"
  have "claim_ok (agents s) p" if p: "p \<in> set (upd ?P ?f (step_claims s))" for p
  proof -
    from p consider "p \<in> set (step_claims s)" | r where "r \<in> set (step_claims s)" "p = ?f r"
      by (auto dest!: mem_upd)
    then show ?thesis using ok by cases (fastforce simp: store_ok_def claim_ok_def split: option.splits)+
  qed
  then show ?thesis
    using ok keys_upd [of claim_key ?f] t
    by (intro store_ok_run_claims [OF ok stepsD [OF steps_fail_claimed_step call],
           where rows = "agents s" and claims = "upd ?P ?f (step_claims s)"])
      (auto simp: store_ok_def)
qed

lemma store_ok_insert_migration:
  assumes ok: "store_ok s" and call: "insert_migration now m s = (Inr u, t)"
  shows "store_ok t"
  using call
proof (rule insert_migration_ok)
  fix rows
  assume rows: "ins mr_migration_id (migration_row_of now m) (migrations s) = Some rows"
    and fk: "sel ac_agent_id (mr_agent_id m) (agents s) \<noteq> None"
    and live: "one_live_migration_per_agent rows" and t: "t = s\<lparr>migrations := rows\<rparr>"
  show ?thesis
    using ok fk live t keys_ins [OF rows]
    by (intro store_okI [OF ok stepsD [OF steps_insert_migration call]])
      (auto simp: store_ok_def dest!: mem_ins [OF rows])
qed

lemma store_ok_transition_migration:
  assumes ok: "store_ok s" and call: "transition_migration now mid x y tf s = (Inr u, t)"
  shows "store_ok t"
  using call
proof (rule transition_migration_ok)
  assume "update_migration mid (apply_transition now y tf) s = Inr t"
  then show ?thesis
    by (rule store_ok_update_migration [OF ok stepsD [OF steps_transition_migration call]]) simp_all
qed

lemma store_ok_commit_migration_tx:
  assumes ok: "store_ok s" and call: "commit_migration_tx now mid s = (Inr a, t)"
  shows "store_ok t"
  using call
proof (rule commit_migration_tx_ok)
  fix m r
  assume "update_migration mid (\<lambda>r. r\<lparr>mr_state := COMMITTED, mg_updated_at := now\<rparr>)
    (s\<lparr>agents := update_owner now a (mr_destination_engine m) (mr_source_epoch m + 1) (agents s)\<rparr>) = Inr t"
  then show ?thesis
    by (rule store_ok_update_migration [OF ok stepsD [OF steps_commit_migration_tx call]]) simp_all
qed

lemma store_ok_recover_tx:
  assumes ok: "store_ok s" and call: "recover_tx now mid e s = (Inr a, t)"
  shows "store_ok t"
  using call
proof (rule recover_tx_ok)
  fix m r
  assume "update_migration mid (\<lambda>r. r\<lparr>mr_state := RECOVERED, mg_updated_at := now\<rparr>)
    (s\<lparr>agents := update_owner now a e (mr_source_epoch m + 1 + 1) (agents s)\<rparr>) = Inr t"
  then show ?thesis
    by (rule store_ok_update_migration [OF ok stepsD [OF steps_recover_tx call]]) simp_all
qed (use ok in simp)

lemma store_ok_put_tool_result: "store_ok s \<Longrightarrow> store_ok (snd (put_tool_result now r s))"
  by (auto simp: put_tool_result_def transaction_def store_ok_def distinct_ins_ignore
      dest!: arg_cong [where f = snd] split: prod.splits)

lemma store_ok_insert_effect: "store_ok s \<Longrightarrow> store_ok (snd (insert_effect now r s))"
  by (auto simp: insert_effect_def transaction_def store_ok_def distinct_ins_ignore
      dest!: arg_cong [where f = snd] split: prod.splits)

lemma store_ok_swap_effect: "store_ok s \<Longrightarrow> swap_effect now k x y n v s = (Inr u, t) \<Longrightarrow> store_ok t"
  by (elim swap_effect_ok) (simp add: store_ok_def keys_upd)

lemma tx_keeps_ok:
  assumes "m = transaction b" and "store_ok s" and "\<And>a t. m s = (Inr a, t) \<Longrightarrow> store_ok t"
  shows "store_ok (snd (m s))"
  by (rule tx_cases [OF assms(1), of s]) (use assms(2,3) in auto)

lemma store_ok_run_call:
  assumes "store_ok s"
  shows "store_ok (run_call c s)"
proof (cases c)
  case (RegisterAgent now c)
  show ?thesis unfolding RegisterAgent run_call.simps
    by (rule tx_keeps_ok [OF register_agent_def assms]) (rule store_ok_register_agent [OF assms])
next
  case (CommitStep now c n)
  show ?thesis unfolding CommitStep run_call.simps
    by (rule tx_keeps_ok [OF commit_step_def assms]) (rule store_ok_commit_step [OF assms])
next
  case (ClaimStep now a k e n rid)
  show ?thesis unfolding ClaimStep run_call.simps
    by (rule tx_keeps_ok [OF claim_step_def assms]) (rule store_ok_claim_step [OF assms])
next
  case (CommitClaimedStep now c n rid)
  show ?thesis unfolding CommitClaimedStep run_call.simps
    by (rule tx_keeps_ok [OF commit_claimed_step_def assms]) (rule store_ok_commit_claimed_step [OF assms])
next
  case (FailClaimedStep now a k rid unk)
  show ?thesis unfolding FailClaimedStep run_call.simps
    by (rule tx_keeps_ok [OF fail_claimed_step_def assms]) (rule store_ok_fail_claimed_step [OF assms])
next
  case (InsertMigration now m)
  show ?thesis unfolding InsertMigration run_call.simps
    by (rule tx_keeps_ok [OF insert_migration_def assms]) (rule store_ok_insert_migration [OF assms])
next
  case (TransitionMigration now mid x y tf)
  show ?thesis unfolding TransitionMigration run_call.simps
    by (rule tx_keeps_ok [OF transition_migration_def assms]) (rule store_ok_transition_migration [OF assms])
next
  case (CommitMigration now mid)
  show ?thesis unfolding CommitMigration run_call.simps
    by (rule tx_keeps_ok [OF commit_migration_tx_def assms]) (rule store_ok_commit_migration_tx [OF assms])
next
  case (RecoverMigration now mid e)
  show ?thesis unfolding RecoverMigration run_call.simps
    by (rule tx_keeps_ok [OF recover_tx_def assms]) (rule store_ok_recover_tx [OF assms])
next
  case (SwapEffect now k x y n v)
  show ?thesis unfolding SwapEffect run_call.simps
    by (rule tx_keeps_ok [OF swap_effect_def assms]) (rule store_ok_swap_effect [OF assms])
qed (simp_all add: assms store_ok_put_tool_result store_ok_insert_effect)

lemma store_ok_run_calls: "store_ok s \<Longrightarrow> store_ok (run_calls cs s)"
  by (induction cs arbitrary: s) (auto intro: store_ok_run_call)

lemma store_ok_initialize: "store_ok initialize"
  by (simp add: store_ok_def initialize_def one_live_migration_per_agent_def)

lemma store_ok_of_reachable: "reachable s \<Longrightarrow> store_ok s"
  by (induction rule: reachable.induct) (auto intro: store_ok_run_call store_ok_initialize)

section \<open>Blocked claims\<close>

text \<open>
  A live claim whose agent has moved to a later epoch: neither the old owner (stale) nor
  the new one (step already claimed) can finish or take the step.
\<close>

definition stranded :: "agent_id \<Rightarrow> int \<Rightarrow> store \<Rightarrow> bool" where
  "stranded a k s \<longleftrightarrow>
     (case (sel ac_agent_id a (agents s), sel claim_key (a, k) (step_claims s)) of
        (Some r, Some q) \<Rightarrow> k = ac_committed_step r + 1 \<and> cl_status q = S_CLAIMED \<and>
           cl_owner_epoch q < ac_owner_epoch r
      | _ \<Rightarrow> False)"

fun resolves_claim :: "agent_id \<Rightarrow> int \<Rightarrow> store_call \<Rightarrow> bool" where
  "resolves_claim a k (FailClaimedStep _ b j _ _) = (b = a \<and> j = k)"
| "resolves_claim a k (CommitStep _ c _) = (ac_agent_id c = a)"
| "resolves_claim _ _ _ = False"

lemma strandedE:
  assumes "stranded a k s"
  obtains r q where "sel ac_agent_id a (agents s) = Some r" and "sel claim_key (a, k) (step_claims s) = Some q"
    and "k = ac_committed_step r + 1" and "cl_status q = S_CLAIMED" and "cl_owner_epoch q < ac_owner_epoch r"
  using assms by (auto simp: stranded_def split: option.splits)

lemma stranded_claim_step: "stranded a k s \<Longrightarrow> fst (claim_step now a k e n rid s) \<noteq> Inr u"
  by (auto elim!: strandedE simp: claim_step_def transaction_def Let_def ins_def claim_row_of_def claim_key_def
      split: sum.splits if_splits)

lemma stranded_commit_claimed:
  "stranded (ac_agent_id c) (ac_committed_step c) s \<Longrightarrow> fst (commit_claimed_step now c n rid s) \<noteq> Inr u"
  by (auto elim!: strandedE simp: commit_claimed_step_def transaction_def Let_def split: sum.splits if_splits)

end
