(* ===== verification/StoreProps.thy ===== *)
theory StoreProps
  imports StoreRuns
begin

text \<open>
  The properties of the state store: leases have one owner per epoch and stay fenced once
  superseded, the migration commit and the recovery refine a compare-and-swap on leases,
  a step is committed once and claimed by one request at a time, tool results are
  delivered once. The last one is a behaviour that blocks an agent: a claim that outlives
  its owner's lease.
\<close>

section \<open>Leases abstractly\<close>

text \<open>
  The abstract view: who owns an agent and at which epoch; a compare-and-swap moves it.
\<close>

definition leases :: "store \<Rightarrow> agent_id \<rightharpoonup> engine_id \<times> int" where
  "leases s a = map_option (\<lambda>r. (ac_owner_engine r, ac_owner_epoch r)) (sel ac_agent_id a (agents s))"

definition cas_lease ::
  "(agent_id \<rightharpoonup> engine_id \<times> int) \<Rightarrow> agent_id \<Rightarrow> engine_id \<times> int \<Rightarrow> engine_id \<times> int \<Rightarrow>
   (agent_id \<rightharpoonup> engine_id \<times> int) option" where
  "cas_lease L a old new = (if L a = Some old then Some (L(a \<mapsto> new)) else None)"

lemma assert_lease_leases: "assert_lease a e n s = (Inr (), s) \<longleftrightarrow> leases s a = Some (e, n)"
  by (auto simp: assert_lease_iff leases_def)

lemma assert_lease_passes: "fst (assert_lease a e n s) = Inr () \<longleftrightarrow> leases s a = Some (e, n)"
  using assert_lease_state [of a e n s] assert_lease_leases [of a e n s]
  by (cases "assert_lease a e n s") auto

lemma leases_step:
  assumes "store_le s t" and "leases s a = Some (e, n)"
  obtains e' n' where "leases t a = Some (e', n')" and "n \<le> n'" and "n = n' \<longrightarrow> e = e'"
  using assms by (auto simp: leases_def agent_le_def dest!: store_le_agentD)

lemma leases_update_owner:
  assumes "sel ac_agent_id a (agents s) = Some r" and "migs = ms"
  shows "leases (s\<lparr>agents := update_owner now a e n (agents s), migrations := migs\<rparr>) = (leases s)(a \<mapsto> (e, n))"
  using assms by (auto simp: leases_def sel_update_owner fun_eq_iff)

lemma one_live_upd:
  assumes "distinct (map mr_migration_id ms)" and "sel mr_migration_id mid ms = Some m"
    and "live_state (mr_state (f m)) \<longrightarrow> live_state (mr_state m)"
    and "mr_agent_id (f m) = mr_agent_id m"
    and "one_live_migration_per_agent ms"
  shows "one_live_migration_per_agent (upd (\<lambda>r. mr_migration_id r = mid) f ms)"
  using assms
proof (induction ms)
  case (Cons x ms)
  let ?live = "\<lambda>ms. map mr_agent_id (filter (\<lambda>m. live_state (mr_state m)) ms)"
  let ?u = "upd (\<lambda>r. mr_migration_id r = mid) f"
  show ?case
  proof (cases "mr_migration_id x = mid")
    case True
    with Cons.prems have "x = m" and "\<forall>r \<in> set ms. mr_migration_id r \<noteq> mid"
      by (auto simp: sel_def image_iff)
    then have "?u ms = ms" by (simp add: upd_def map_idI)
    then have "?u (x # ms) = f m # ms" using True \<open>x = m\<close> by (simp add: upd_def)
    then show ?thesis using Cons.prems \<open>x = m\<close> by (auto simp: one_live_migration_per_agent_def split: if_splits)
  next
    case False
    have sub: "mr_agent_id p \<in> set (?live ms)" if p: "p \<in> set (?u ms)" "live_state (mr_state p)" for p
    proof -
      consider "p \<in> set ms" | r where "r \<in> set ms" "mr_migration_id r = mid" "p = f r"
        using mem_upd [OF p(1)] by blast
      then show ?thesis
      proof cases
        case 2
        then have "r = m"
          using Cons.prems False sel_of_mem [of mr_migration_id ms r] by (auto simp: sel_def)
        with 2 p(2) Cons.prems(3,4) show ?thesis by auto
      qed (use p(2) in auto)
    qed
    have "one_live_migration_per_agent (?u ms)"
      using Cons False by (auto simp: sel_def one_live_migration_per_agent_def split: if_splits)
    then show ?thesis
      using Cons.prems(5) False sub by (auto simp: one_live_migration_per_agent_def upd_def split: if_splits)
  qed
qed (simp add: sel_def)

lemma update_migration_lowers:
  assumes "store_ok s" and "migrations s1 = migrations s" and "sel mr_migration_id mid (migrations s) = Some m"
    and "live_state (mr_state (f m)) \<longrightarrow> live_state (mr_state m)" and "mr_agent_id (f m) = mr_agent_id m"
  shows "update_migration mid f s1 =
    Inr (s1\<lparr>migrations := upd (\<lambda>r. mr_migration_id r = mid) f (migrations s)\<rparr>)"
  using assms one_live_upd [of "migrations s" mid m f] by (simp add: update_migration_def store_ok_def)

lemma store_ok_migration_agent:
  assumes "store_ok s" and "sel mr_migration_id mid (migrations s) = Some m"
  shows "\<exists>r. sel ac_agent_id (mr_agent_id m) (agents s) = Some r"
  using assms(1) sel_mem [OF assms(2)] by (auto simp: store_ok_def)

lemma progress_update_owner:
  "sel ac_agent_id a (agents s) = Some r \<Longrightarrow>
   map_option ac_committed_step (sel ac_agent_id b (update_owner now a e n (agents s))) =
   map_option ac_committed_step (sel ac_agent_id b (agents s))"
  by (simp add: sel_update_owner option.map_comp comp_def)

text \<open>
  C1. At any two moments of a run, two leases on the same agent with the same epoch name the
  same engine: no interleaving of executors, coordinators and recoveries gives an epoch to
  two engines. Epochs and committed steps never go back.
\<close>

theorem lease_has_one_owner:
  assumes "sel ac_agent_id a (agents s) = Some r"
  shows "\<exists>q. sel ac_agent_id a (agents (run_calls cs s)) = Some q \<and>
    ac_owner_epoch r \<le> ac_owner_epoch q \<and> ac_committed_step r \<le> ac_committed_step q \<and>
    (ac_owner_epoch q = ac_owner_epoch r \<longrightarrow> ac_owner_engine q = ac_owner_engine r)"
  using store_le_agentD [OF run_calls_le assms, of cs] by (auto simp: agent_le_def)

text \<open>
  C2. A lease that was valid and has been superseded is fenced for good: in every later
  state the check fails, and a step claim, a claimed commit or a step commit under its
  epoch raises and leaves the store as it was.
\<close>

theorem superseded_lease_is_fenced:
  assumes "fst (assert_lease a e n s) = Inr ()"
    and "fst (assert_lease a e' n' (run_calls cs s)) = Inr ()" and "(e', n') \<noteq> (e, n)"
    and "t = run_calls ds (run_calls cs s)"
  shows "(\<exists>msg. fst (assert_lease a e n t) = Inl (StaleLease msg)) \<and>
    (\<exists>x. claim_step now a k e n rid t = (Inl x, t)) \<and>
    (ac_agent_id c = a \<longrightarrow> (\<exists>x. commit_claimed_step now c n rid t = (Inl x, t))) \<and>
    (ac_agent_id c = a \<longrightarrow> commit_step now c n t = (Inl (StaleLease a), t))"
proof -
  have "leases s a = Some (e, n)" and later: "leases (run_calls cs s) a = Some (e', n')"
    using assms(1,2) by (simp_all add: assert_lease_passes)
  then have "n < n'"
    using assms(3) leases_step [OF run_calls_le, of s a e n cs] by fastforce
  obtain q where "sel ac_agent_id a (agents (run_calls cs s)) = Some q" and "ac_owner_epoch q = n'"
    using later by (auto simp: leases_def)
  with \<open>n < n'\<close> obtain r where r: "sel ac_agent_id a (agents t) = Some r" and newer: "n < ac_owner_epoch r"
    using store_le_agentD [OF run_calls_le, of a "run_calls cs s" q ds] by (auto simp: assms(4) agent_le_def)
  have "\<exists>msg. fst (assert_lease a e n t) = Inl (StaleLease msg)"
    using r newer by (simp add: assert_lease_def bindP_def get_agent_def guardP_def throw_def)
  moreover have "\<exists>x. claim_step now a k e n rid t = (Inl x, t)"
    using r newer by (simp add: claim_step_def transaction_def)
  moreover have "\<exists>x. commit_claimed_step now c n rid t = (Inl x, t)" if "ac_agent_id c = a"
    using r newer that by (auto simp: commit_claimed_step_def transaction_def Let_def split: option.splits)
  moreover have "commit_step now c n t = (Inl (StaleLease a), t)" if "ac_agent_id c = a"
    using r newer that by (simp add: commit_step_def transaction_def)
  ultimately show ?thesis by blast
qed

text \<open>
  C3. \<open>commit_migration\<close> of a destination-ready migration is exactly a compare-and-swap of
  the agent's lease from \<open>source@epoch\<close> to \<open>destination@(epoch+1)\<close>: when the swap applies
  it returns the continuation under the new lease and marks the migration committed, and
  when it does not it raises \<open>StaleLease\<close> and changes nothing.
\<close>

theorem commit_migration_refines_cas:
  assumes ok: "store_ok s" and m: "sel mr_migration_id mid (migrations s) = Some m"
    and ready: "mr_state m = DEST_READY"
  shows "case cas_lease (leases s) (mr_agent_id m) (mr_source_engine m, mr_source_epoch m)
            (mr_destination_engine m, mr_source_epoch m + 1) of
      None \<Rightarrow> commit_migration now mid s = (Inl (StaleLease (mr_agent_id m)), s)
    | Some L \<Rightarrow> \<exists>c t. commit_migration now mid s = (Inr c, t) \<and> leases t = L \<and>
        ac_agent_id c = mr_agent_id m \<and> ac_owner_engine c = mr_destination_engine m \<and>
        ac_owner_epoch c = mr_source_epoch m + 1 \<and>
        map_option mr_state (sel mr_migration_id mid (migrations t)) = Some COMMITTED"
proof -
  obtain r where r: "sel ac_agent_id (mr_agent_id m) (agents s) = Some r"
    using store_ok_migration_agent [OF ok m] by blast
  let ?f = "\<lambda>r. r\<lparr>mr_state := COMMITTED, mg_updated_at := now\<rparr>"
  let ?s1 = "s\<lparr>agents := update_owner now (mr_agent_id m) (mr_destination_engine m)
     (mr_source_epoch m + 1) (agents s)\<rparr>"
  let ?t = "?s1\<lparr>migrations := upd (\<lambda>r. mr_migration_id r = mid) ?f (migrations s)\<rparr>"
  have up: "update_migration mid ?f ?s1 = Inr ?t"
    using ok m ready by (intro update_migration_lowers) auto
  show ?thesis
  proof (cases "ac_owner_engine r = mr_source_engine m \<and> ac_owner_epoch r = mr_source_epoch m")
    case True
    have "commit_migration_tx now mid s = (Inr (mr_agent_id m), ?t)"
      using True m ready r up by (simp add: commit_migration_tx_def transaction_def Let_def)
    moreover have "leases ?t = (leases s)(mr_agent_id m \<mapsto> (mr_destination_engine m, mr_source_epoch m + 1))"
      using r by (simp add: leases_update_owner)
    moreover have "sel mr_migration_id mid (migrations ?t) = Some (?f m)"
      using m by (simp add: migration_tab.update_by_key)
    ultimately show ?thesis
      using True r sel_key [OF r]
      by (simp add: cas_lease_def leases_def commit_migration_def bindP_def get_agent_def sel_update_owner)
  next
    case False
    then have "commit_migration_tx now mid s = (Inl (StaleLease (mr_agent_id m)), s)"
      using m ready r by (auto simp: commit_migration_tx_def transaction_def Let_def)
    with False r show ?thesis by (auto simp: cas_lease_def leases_def commit_migration_def bindP_def)
  qed
qed

text \<open>
  C4. Recovery of a committed or released migration is the swap from \<open>destination@(epoch+1)\<close>
  to \<open>recovery@(epoch+2)\<close>, after which the failed destination's lease check fails; on any
  other lease it raises and changes nothing.
\<close>

theorem recovery_refines_cas:
  assumes ok: "store_ok s" and m: "sel mr_migration_id mid (migrations s) = Some m"
    and st: "mr_state m = COMMITTED \<or> mr_state m = SOURCE_RELEASED"
  shows "case cas_lease (leases s) (mr_agent_id m) (mr_destination_engine m, mr_source_epoch m + 1)
            (e, mr_source_epoch m + 2) of
      None \<Rightarrow> recover_committed_migration now mid e s = (Inl (StaleLease (mr_agent_id m)), s)
    | Some L \<Rightarrow> \<exists>c t. recover_committed_migration now mid e s = (Inr c, t) \<and> leases t = L \<and>
        ac_owner_engine c = e \<and> ac_owner_epoch c = mr_source_epoch m + 2 \<and>
        fst (assert_lease (mr_agent_id m) (mr_destination_engine m) (mr_source_epoch m + 1) t) \<noteq> Inr () \<and>
        recover_committed_migration now' mid e' t = (Inr c, t)"
proof -
  obtain r where r: "sel ac_agent_id (mr_agent_id m) (agents s) = Some r"
    using store_ok_migration_agent [OF ok m] by blast
  let ?f = "\<lambda>r. r\<lparr>mr_state := RECOVERED, mg_updated_at := now\<rparr>"
  let ?s1 = "s\<lparr>agents := update_owner now (mr_agent_id m) e (mr_source_epoch m + 1 + 1) (agents s)\<rparr>"
  let ?t = "?s1\<lparr>migrations := upd (\<lambda>r. mr_migration_id r = mid) ?f (migrations s)\<rparr>"
  have up: "update_migration mid ?f ?s1 = Inr ?t"
    using ok m st by (intro update_migration_lowers) auto
  show ?thesis
  proof (cases "ac_owner_engine r = mr_destination_engine m \<and> ac_owner_epoch r = mr_source_epoch m + 1")
    case True
    have tx: "recover_tx now mid e s = (Inr (mr_agent_id m), ?t)"
      using True m st r up by (auto simp: recover_tx_def transaction_def Let_def)
    have L: "leases ?t = (leases s)(mr_agent_id m \<mapsto> (e, mr_source_epoch m + 2))"
      using r by (simp add: leases_update_owner add.commute)
    have "sel mr_migration_id mid (migrations ?t) = Some (?f m)"
      using m by (simp add: migration_tab.update_by_key)
    then have again: "recover_tx now' mid e' ?t = (Inr (mr_agent_id m), ?t)"
      by (simp add: recover_tx_def transaction_def)
    from True r tx L again show ?thesis
      by (simp add: cas_lease_def leases_def assert_lease_passes recover_committed_migration_def bindP_def
          get_agent_def sel_update_owner)
  next
    case False
    then have "recover_tx now mid e s = (Inl (StaleLease (mr_agent_id m)), s)"
      using m st r by (auto simp: recover_tx_def transaction_def Let_def)
    with False r show ?thesis
      by (auto simp: cas_lease_def leases_def recover_committed_migration_def bindP_def)
  qed
qed

section \<open>Steps\<close>

lemma agent_row_run:
  assumes "sel ac_agent_id a (agents s) = Some r" and "sel ac_agent_id a (agents (run_calls cs s)) = Some q"
  shows "agent_le r q"
  using store_le_agentD [OF run_calls_le assms(1), of cs] assms(2) by auto

text \<open>
  C8. A step is committed at most once: after a claimed commit, any later claimed commit of
  the same agent, by whatever owner, epoch and request, is for a later step.
\<close>

theorem step_committed_once:
  assumes "commit_claimed_step now c n rid s = (Inr (), t)"
    and "commit_claimed_step now' c' n' rid' (run_calls cs t) = (Inr (), u)"
    and "ac_agent_id c' = ac_agent_id c"
  shows "ac_committed_step c < ac_committed_step c'"
proof -
  obtain r where r: "sel ac_agent_id (ac_agent_id c) (agents t) = Some r" "ac_committed_step r = ac_committed_step c"
    using assms(1) by (rule commit_claimed_step_ok) (auto simp: sel_update_progress)
  obtain q where q: "sel ac_agent_id (ac_agent_id c) (agents (run_calls cs t)) = Some q"
      "ac_committed_step c' = ac_committed_step q + 1"
    using assms(2) by (rule commit_claimed_step_ok) (auto simp: assms(3))
  from agent_row_run [OF r(1) q(1)] r(2) q(2) show ?thesis by (simp add: agent_le_def)
qed

fun reopens_claim :: "agent_id \<Rightarrow> int \<Rightarrow> store_call \<Rightarrow> bool" where
  "reopens_claim a k (FailClaimedStep _ b j _ unk) = (b = a \<and> j = k \<and> \<not> unk)"
| "reopens_claim _ _ _ = False"

definition claim_taken :: "agent_id \<Rightarrow> int \<Rightarrow> store \<Rightarrow> bool" where
  "claim_taken a k s = (case sel claim_key (a, k) (step_claims s) of
      None \<Rightarrow> False | Some q \<Rightarrow> cl_status q \<noteq> S_FAILED)"

lemma claim_taken_blocks: "claim_taken a k s \<Longrightarrow> \<exists>x. claim_step now a k e n rid s = (Inl x, s)"
  by (auto simp: claim_taken_def claim_step_def transaction_def Let_def ins_def claim_row_of_def claim_key_def
      split: option.splits)

lemma claim_taken_upd:
  assumes "claim_taken a k s" and "\<And>r. claim_key (f r) = claim_key r"
    and "\<And>r. claim_key r = (a, k) \<Longrightarrow> P r \<Longrightarrow> cl_status (f r) \<noteq> S_FAILED"
  shows "claim_taken a k (s\<lparr>step_claims := upd P f (step_claims s)\<rparr>)"
  using assms by (auto simp: claim_taken_def claim_tab.select_update dest: sel_key split: option.splits)

lemma claim_taken_cong: "step_claims t = step_claims s \<Longrightarrow> claim_taken a k t = claim_taken a k s"
  by (simp add: claim_taken_def)

lemma update_migration_frame:
  "update_migration mid f s = Inr t \<Longrightarrow>
     step_claims t = step_claims s \<and> agents t = agents s \<and> effects t = effects s \<and> mailbox t = mailbox s"
  by (auto dest!: update_migration_ok(1))

lemma tx_frame:
  assumes "m = transaction b" and "\<And>a t. m s = (Inr a, t) \<Longrightarrow> f t = f s"
  shows "f (snd (m s)) = f s"
  by (rule tx_cases [OF assms(1), of s]) (use assms(2) in auto)

lemma claims_untouched:
  "step_claims (snd (register_agent now c s)) = step_claims s"
  "step_claims (snd (commit_step now c n s)) = step_claims s"
  "step_claims (snd (insert_migration now m s)) = step_claims s"
  "step_claims (snd (transition_migration now mid x y tf s)) = step_claims s"
  "step_claims (snd (commit_migration_tx now mid s)) = step_claims s"
  "step_claims (snd (recover_tx now mid e s)) = step_claims s"
  "step_claims (snd (put_tool_result now w s)) = step_claims s"
  "step_claims (snd (insert_effect now v s)) = step_claims s"
  "step_claims (snd (swap_effect now j st st' n res s)) = step_claims s"
  apply (rule tx_frame [OF register_agent_def, where f = step_claims], elim register_agent_ok, auto dest!: update_migration_frame)[1]
  apply (rule tx_frame [OF commit_step_def, where f = step_claims], elim commit_step_ok, auto dest!: update_migration_frame)[1]
  apply (rule tx_frame [OF insert_migration_def, where f = step_claims], elim insert_migration_ok, auto dest!: update_migration_frame)[1]
  apply (rule tx_frame [OF transition_migration_def, where f = step_claims], elim transition_migration_ok, auto dest!: update_migration_frame)[1]
  apply (rule tx_frame [OF commit_migration_tx_def, where f = step_claims], elim commit_migration_tx_ok, auto dest!: update_migration_frame)[1]
  apply (rule tx_frame [OF recover_tx_def, where f = step_claims], elim recover_tx_ok, auto dest!: update_migration_frame)[1]
  apply (auto simp: put_tool_result_def transaction_def split: prod.splits)[1]
  apply (auto simp: insert_effect_def transaction_def split: prod.splits)[1]
  apply (rule tx_frame [OF swap_effect_def, where f = step_claims], elim swap_effect_ok, auto dest!: update_migration_frame)[1]
  done

lemma claim_taken_run_call:
  assumes taken: "claim_taken a k s" and c: "\<not> reopens_claim a k c"
  shows "claim_taken a k (run_call c s)"
proof (cases c)
  case (ClaimStep now b j e n rid)
  have "claim_taken a k (snd (claim_step now b j e n rid s))"
  proof (rule tx_cases [OF claim_step_def, of now b j e n rid s])
    fix u assume "claim_step now b j e n rid s = (Inr u, snd (claim_step now b j e n rid s))"
    then show ?thesis
    proof (rule claim_step_ok, elim disjE exE conjE)
      fix rows
      assume "ins claim_key (claim_row_of now b j n rid) (step_claims s) = Some rows"
        and "snd (claim_step now b j e n rid s) = s\<lparr>step_claims := rows\<rparr>"
      then show ?thesis
        using taken by (auto simp: claim_taken_def dest: claim_tab.insert_grows split: option.splits)
    qed (auto intro!: claim_taken_upd taken)
  qed (use taken in simp)
  with ClaimStep show ?thesis by simp
next
  case (CommitClaimedStep now c n rid)
  have "claim_taken a k (s\<lparr>agents := x, step_claims := upd P
      (\<lambda>r. r\<lparr>cl_status := S_COMPLETED, cl_updated_at := now\<rparr>) (step_claims s)\<rparr>)" for x P
    using claim_taken_upd [of a k "s\<lparr>agents := x\<rparr>"] taken by (simp add: claim_taken_def)
  with taken CommitClaimedStep show ?thesis
    by (auto simp: commit_claimed_step_def transaction_def Let_def split: option.splits)
next
  case (FailClaimedStep now b j rid unk)
  have "claim_taken a k (snd (fail_claimed_step now b j rid unk s))"
    using c FailClaimedStep taken
    by (auto simp: fail_claimed_step_def transaction_def Let_def intro!: claim_taken_upd)
  with FailClaimedStep show ?thesis by simp
qed (use taken in \<open>simp_all add: claim_taken_cong [OF claims_untouched(1)] claim_taken_cong [OF claims_untouched(2)]
  claim_taken_cong [OF claims_untouched(3)] claim_taken_cong [OF claims_untouched(4)]
  claim_taken_cong [OF claims_untouched(5)] claim_taken_cong [OF claims_untouched(6)]
  claim_taken_cong [OF claims_untouched(7)] claim_taken_cong [OF claims_untouched(8)]
  claim_taken_cong [OF claims_untouched(9)]\<close>)

text \<open>
  Between a successful claim of a step and a recorded definite failure of it, every
  other claim of that step is refused and changes nothing: at most one request runs a step
  of an agent at a time, and a step whose outcome is unknown is never run again.
\<close>

theorem claim_is_exclusive:
  assumes claim: "claim_step now a k e n rid s = (Inr (), t)"
    and none: "list_all (\<lambda>c. \<not> reopens_claim a k c) cs"
  shows "\<exists>x. claim_step now' a k e' n' rid' (run_calls cs t) = (Inl x, run_calls cs t)"
proof -
  have "claim_taken a k t"
    using claim
  proof (rule claim_step_ok, elim disjE exE conjE)
    fix rows
    assume "ins claim_key (claim_row_of now a k n rid) (step_claims s) = Some rows"
      and "t = s\<lparr>step_claims := rows\<rparr>"
    then show ?thesis by (auto simp: claim_taken_def claim_tab.select_insert claim_row_of_def claim_key_def)
  next
    fix q
    let ?f = "\<lambda>r. r\<lparr>cl_owner_epoch := n, cl_rid := rid, cl_status := S_CLAIMED, cl_updated_at := now\<rparr>"
    assume "sel claim_key (a, k) (step_claims s) = Some q"
      and "t = s\<lparr>step_claims := upd (\<lambda>r. claim_key r = (a, k)) ?f (step_claims s)\<rparr>"
    then show ?thesis by (simp add: claim_taken_def claim_tab.update_by_key)
  qed
  then have "claim_taken a k (run_calls cs t)"
    using none by (induction cs arbitrary: t) (auto intro: claim_taken_run_call)
  then show ?thesis by (rule claim_taken_blocks)
qed

section \<open>Stranded claims\<close>

lemma strandedI:
  assumes "sel ac_agent_id a (agents s) = Some r" and "sel claim_key (a, k) (step_claims s) = Some q"
    and "k = ac_committed_step r + 1" and "cl_status q = S_CLAIMED" and "cl_owner_epoch q < ac_owner_epoch r"
  shows "stranded a k s"
  using assms by (simp add: stranded_def)

lemma stranded_cong: "step_claims t = step_claims s \<Longrightarrow> agents t = agents s \<Longrightarrow> stranded a k t = stranded a k s"
  by (simp add: stranded_def)

lemma stranded_update_owner:
  assumes st: "stranded a k s" and "sel ac_agent_id b (agents s) = Some p" and "ac_owner_epoch p < n"
    and t: "step_claims t = step_claims s" "agents t = update_owner now b e n (agents s)"
  shows "stranded a k t"
  using st
proof (rule strandedE)
  fix r q
  assume "sel ac_agent_id a (agents s) = Some r" "sel claim_key (a, k) (step_claims s) = Some q"
    "k = ac_committed_step r + 1" "cl_status q = S_CLAIMED" "cl_owner_epoch q < ac_owner_epoch r"
  with assms(2,3) t show ?thesis
    by (cases "a = b") (auto simp: sel_update_owner intro!: strandedI)
qed

lemma stranded_claim_other:
  assumes "stranded a k s" and "(b, j) \<noteq> (a, k)" and "\<And>r. claim_key (f r) = claim_key r"
  shows "stranded a k (s\<lparr>step_claims := upd (\<lambda>r. claim_key r = (b, j) \<and> Q r) f (step_claims s)\<rparr>)"
  using assms(1)
proof (rule strandedE)
  fix r q
  assume st: "sel ac_agent_id a (agents s) = Some r" "sel claim_key (a, k) (step_claims s) = Some q"
    "k = ac_committed_step r + 1" "cl_status q = S_CLAIMED" "cl_owner_epoch q < ac_owner_epoch r"
  have "sel claim_key (a, k) (upd (\<lambda>r. claim_key r = (b, j) \<and> Q r) f (step_claims s)) = Some q"
    using st(2) sel_key [OF st(2)] assms(2) by (intro claim_tab.update_no_row) (auto simp: assms(3))
  with st show ?thesis by (auto intro!: strandedI)
qed

lemma stranded_claim_step_keeps:
  assumes st: "stranded a k s"
  shows "stranded a k (snd (claim_step now b j e n rid s))"
proof (rule tx_cases [OF claim_step_def, of now b j e n rid s])
  let ?t = "snd (claim_step now b j e n rid s)"
  fix u assume call: "claim_step now b j e n rid s = (Inr u, ?t)"
  then have other: "(b, j) \<noteq> (a, k)" using stranded_claim_step [OF st] by (metis fst_conv prod.inject)
  show ?thesis
    using call
  proof (rule claim_step_ok, elim disjE exE conjE)
    fix rows
    assume "ins claim_key (claim_row_of now b j n rid) (step_claims s) = Some rows" and "?t = s\<lparr>step_claims := rows\<rparr>"
    with st show ?thesis by (auto elim!: strandedE intro!: strandedI dest: claim_tab.insert_grows)
  next
    let ?f = "\<lambda>r. r\<lparr>cl_owner_epoch := n, cl_rid := rid, cl_status := S_CLAIMED, cl_updated_at := now\<rparr>"
    assume "?t = s\<lparr>step_claims := upd (\<lambda>r. claim_key r = (b, j)) ?f (step_claims s)\<rparr>"
    with stranded_claim_other [OF st other, of ?f "\<lambda>_. True"] show ?thesis by simp
  qed
qed (use st in simp)

lemma stranded_commit_claimed_keeps:
  assumes st: "stranded a k s"
  shows "stranded a k (snd (commit_claimed_step now c n rid s))"
proof (rule tx_cases [OF commit_claimed_step_def, of now c n rid s])
  let ?t = "snd (commit_claimed_step now c n rid s)"
  fix u assume "commit_claimed_step now c n rid s = (Inr u, ?t)"
  then show ?thesis
  proof (rule commit_claimed_step_ok)
    fix p q
    let ?f = "\<lambda>r. r\<lparr>cl_status := S_COMPLETED, cl_updated_at := now\<rparr>"
    assume q: "sel claim_key (ac_agent_id c, ac_committed_step c) (step_claims s) = Some q" "cl_owner_epoch q = n"
      and p: "sel ac_agent_id (ac_agent_id c) (agents s) = Some p" "ac_owner_epoch p = n"
        "ac_committed_step c = ac_committed_step p + 1"
      and t: "?t = s\<lparr>agents := update_progress now c (agents s), step_claims := upd (\<lambda>r. claim_key r =
        (ac_agent_id c, ac_committed_step c)) ?f (step_claims s)\<rparr>"
    have other: "ac_agent_id c \<noteq> a" using st p q by (auto elim!: strandedE)
    then have "stranded a k (s\<lparr>step_claims := upd (\<lambda>r. claim_key r =
        (ac_agent_id c, ac_committed_step c)) ?f (step_claims s)\<rparr>)"
      using stranded_claim_other [OF st, of "ac_agent_id c" "ac_committed_step c" ?f "\<lambda>_. True"] by simp
    with other t show ?thesis by (auto simp: sel_update_progress elim!: strandedE intro!: strandedI)
  qed
qed (use st in simp)

lemma agents_untouched:
  "agents (snd (insert_migration now m s)) = agents s"
  "agents (snd (transition_migration now mid x y tf s)) = agents s"
  "agents (snd (put_tool_result now w s)) = agents s"
  "agents (snd (insert_effect now v s)) = agents s"
  "agents (snd (swap_effect now j st st' n res s)) = agents s"
  apply (rule tx_frame [OF insert_migration_def, where f = agents], elim insert_migration_ok, simp)
  apply (rule tx_frame [OF transition_migration_def, where f = agents], elim transition_migration_ok,
      auto dest!: update_migration_frame)[1]
  apply (auto simp: put_tool_result_def transaction_def split: prod.splits)[1]
  apply (auto simp: insert_effect_def transaction_def split: prod.splits)[1]
  apply (rule tx_frame [OF swap_effect_def, where f = agents], elim swap_effect_ok, simp)
  done

lemma stranded_run_call:
  assumes st: "stranded a k s" and c: "\<not> resolves_claim a k c"
  shows "stranded a k (run_call c s)"
proof (cases c)
  case (RegisterAgent now b)
  have "stranded a k (snd (register_agent now b s))"
    using st by (rule_tac tx_cases [OF register_agent_def, of now b s])
      (auto elim!: register_agent_ok strandedE intro!: strandedI dest: agent_tab.insert_grows)
  with RegisterAgent show ?thesis by simp
next
  case (CommitStep now b n)
  have "stranded a k (snd (commit_step now b n s))"
    using st c CommitStep by (rule_tac tx_cases [OF commit_step_def, of now b n s])
      (auto elim!: commit_step_ok strandedE intro!: strandedI simp: sel_update_progress)
  with CommitStep show ?thesis by simp
next
  case (FailClaimedStep now b j rid unk)
  have "stranded a k (snd (fail_claimed_step now b j rid unk s))"
    using st c FailClaimedStep by (auto simp: fail_claimed_step_def transaction_def Let_def intro: stranded_claim_other)
  with FailClaimedStep show ?thesis by simp
next
  case (CommitMigration now mid)
  have "stranded a k (snd (commit_migration_tx now mid s))"
  proof (rule tx_cases [OF commit_migration_tx_def, of now mid s])
    fix b assume "commit_migration_tx now mid s = (Inr b, snd (commit_migration_tx now mid s))"
    then show ?thesis
      by (rule commit_migration_tx_ok) (rule stranded_update_owner [OF st], assumption,
        auto dest!: update_migration_frame)
  qed (use st in simp)
  with CommitMigration show ?thesis by simp
next
  case (RecoverMigration now mid e)
  have "stranded a k (snd (recover_tx now mid e s))"
  proof (rule tx_cases [OF recover_tx_def, of now mid e s])
    fix b assume "recover_tx now mid e s = (Inr b, snd (recover_tx now mid e s))"
    then show ?thesis
      by (rule recover_tx_ok) (use st in simp, rule stranded_update_owner [OF st], assumption,
        auto dest!: update_migration_frame)
  qed (use st in simp)
  with RecoverMigration show ?thesis by simp
qed (use st in \<open>simp_all add: stranded_claim_step_keeps stranded_commit_claimed_keeps
  stranded_cong [OF claims_untouched(3) agents_untouched(1)]
  stranded_cong [OF claims_untouched(4) agents_untouched(2)]
  stranded_cong [OF claims_untouched(7) agents_untouched(3)]
  stranded_cong [OF claims_untouched(8) agents_untouched(4)]
  stranded_cong [OF claims_untouched(9) agents_untouched(5)]\<close>)

text \<open>
  A migration that commits while a turn is running strands the turn's claim: from then
  on, whatever else happens, no owner can claim or commit the agent's next step until some
  call records a failure of that claim or commits the step without a claim, so the new
  owner's turns are all refused.
\<close>

theorem migration_strands_running_claim:
  assumes claim: "sel claim_key (a, k) (step_claims s) = Some q" "cl_status q = S_CLAIMED"
    and agent: "sel ac_agent_id a (agents s) = Some r" "k = ac_committed_step r + 1"
      "cl_owner_epoch q = ac_owner_epoch r"
    and mig: "commit_migration_tx now mid s = (Inr a, t)"
    and none: "list_all (\<lambda>c. \<not> resolves_claim a k c) cs"
  shows "fst (claim_step now' a k e n rid (run_calls cs t)) \<noteq> Inr () \<and>
    (ac_agent_id c = a \<longrightarrow> fst (commit_claimed_step now' c n rid (run_calls cs t)) \<noteq> Inr ()) \<and>
    (\<exists>p. sel ac_agent_id a (agents (run_calls cs t)) = Some p \<and> ac_committed_step p = k - 1)"
proof -
  have "stranded a k t"
    using mig
  proof (rule commit_migration_tx_ok)
    fix m p
    assume p: "sel ac_agent_id a (agents s) = Some p" "ac_owner_epoch p = mr_source_epoch m"
      and "update_migration mid (\<lambda>r. r\<lparr>mr_state := COMMITTED, mg_updated_at := now\<rparr>) (s\<lparr>agents :=
        update_owner now a (mr_destination_engine m) (mr_source_epoch m + 1) (agents s)\<rparr>) = Inr t"
    then have "step_claims t = step_claims s"
      and "agents t = update_owner now a (mr_destination_engine m) (mr_source_epoch m + 1) (agents s)"
      by (auto dest!: update_migration_frame)
    with p claim agent show ?thesis by (auto intro!: strandedI simp: sel_update_owner)
  qed
  then have st: "stranded a k (run_calls cs t)"
    using none by (induction cs arbitrary: t) (auto intro: stranded_run_call)
  have "fst (commit_claimed_step now' c n rid (run_calls cs t)) \<noteq> Inr ()" if "ac_agent_id c = a"
  proof
    assume "fst (commit_claimed_step now' c n rid (run_calls cs t)) = Inr ()"
    then obtain u where "commit_claimed_step now' c n rid (run_calls cs t) = (Inr (), u)"
      by (metis prod.collapse)
    then show False
      using st that by (auto elim!: commit_claimed_step_ok strandedE)
  qed
  with st show ?thesis by (auto simp: stranded_claim_step elim!: strandedE)
qed

section \<open>Mailbox\<close>

text \<open>
  A tool result is delivered once: the first publication under a key returns True, and
  whatever happens later every further publication under that key returns False and
  reading the key gives the first payload (with sorted keys).
\<close>

theorem tool_result_delivered_once:
  assumes "put_tool_result now w s = (Inr True, t)" and "mailbox_key w' = mailbox_key w"
  shows "put_tool_result now' w' (run_calls cs t) = (Inr False, run_calls cs t) \<and>
    get_tool_result (tr_agent_id w) (tr_step_id w) (tr_future_id w) (run_calls cs t) =
      (Inr (Some (w\<lparr>tr_payload := json_sorted (tr_payload w)\<rparr>)), run_calls cs t)"
proof -
  let ?row = "\<lparr>tr_agent_id = tr_agent_id w, tr_step_id = tr_step_id w, tr_future_id = tr_future_id w,
    tr_payload = json_sorted (tr_payload w), mb_created_at = now\<rparr>"
  have key: "mailbox_key ?row = mailbox_key w" by (simp add: mailbox_key_def)
  have "ins mailbox_key ?row (mailbox s) = Some (mailbox t)"
    using assms(1) by (auto simp: put_tool_result_def transaction_def ins_ignore_def split: option.splits)
  then have "sel mailbox_key (mailbox_key w) (mailbox t) = Some ?row"
    by (simp add: mailbox_tab.select_insert key)
  then have row: "sel mailbox_key (mailbox_key w) (mailbox (run_calls cs t)) = Some ?row"
    using run_calls_le [of t cs] by (auto simp: store_le_def dest: table_leD)
  then have "put_tool_result now' w' (run_calls cs t) = (Inr False, run_calls cs t)"
    using assms(2)
    by (simp add: put_tool_result_def transaction_def ins_ignore_def ins_def mailbox_key_def)
  moreover have "tool_result.truncate ?row = w\<lparr>tr_payload := json_sorted (tr_payload w)\<rparr>"
    by (simp add: tool_result.truncate_def)
  ultimately show ?thesis
    using row by (simp add: get_tool_result_def mailbox_key_def)
qed

section \<open>Witnesses\<close>

text \<open>One agent at \<open>e0\<close>, epoch 1, whose migration to \<open>e1\<close> is ready to commit.\<close>

definition demo_agent :: agent_continuation where
  "demo_agent = \<lparr>ac_agent_id = ''a'', ac_committed_step = 0, ac_owner_engine = ''e0'', ac_owner_epoch = 1,
     ac_token_ids = [], ac_pending_tool_future = None, ac_workspace_ref = None, ac_stream_offset = 0,
     ac_metadata = JObj []\<rparr>"

definition demo_migration :: migration_record where
  "demo_migration = new_migration_record ''m'' ''a'' ''e0'' ''e1'' 1 DEST_READY"

definition demo_store :: store where
  "demo_store = run_calls [RegisterAgent 0 demo_agent, InsertMigration 0 demo_migration] initialize"

lemma demo_store_ok: "store_ok demo_store"
  by code_simp

lemma demo_row: "sel ac_agent_id ''a'' (agents demo_store) = Some (agent_row_of 0 demo_agent)"
  by code_simp

lemma demo_mig: "sel mr_migration_id ''m'' (migrations demo_store) = Some (migration_row_of 0 demo_migration)"
  by code_simp

theorem lease_has_one_owner_witness:
  "\<exists>q. sel ac_agent_id ''a'' (agents (run_calls [CommitMigration 1 ''m''] demo_store)) = Some q \<and> 1 \<le> ac_owner_epoch q"
  using lease_has_one_owner [OF demo_row, of "[CommitMigration 1 ''m'']"]
  by (auto simp: agent_row_of_def demo_agent_def)

theorem superseded_lease_is_fenced_witness:
  "\<exists>x. claim_step 2 ''a'' 1 ''e0'' 1 ''r'' (run_calls [CommitMigration 1 ''m''] demo_store) =
     (Inl x, run_calls [CommitMigration 1 ''m''] demo_store)"
proof -
  have "fst (assert_lease ''a'' ''e0'' 1 demo_store) = Inr ()"
    "fst (assert_lease ''a'' ''e1'' 2 (run_calls [CommitMigration 1 ''m''] demo_store)) = Inr ()"
    by code_simp+
  from superseded_lease_is_fenced [OF this, of _ "[]"] show ?thesis by auto
qed

theorem commit_migration_refines_cas_witness:
  "\<exists>c t. commit_migration 1 ''m'' demo_store = (Inr c, t) \<and> leases t ''a'' = Some (''e1'', 2)"
proof -
  have "mr_state (migration_row_of 0 demo_migration) = DEST_READY" by code_simp
  note swap = commit_migration_refines_cas [OF demo_store_ok demo_mig this, of 1]
  have "leases demo_store ''a'' = Some (''e0'', 1)" by code_simp
  with swap show ?thesis
    by (auto simp: cas_lease_def migration_row_of_def demo_migration_def new_migration_record_def)
qed

definition committed_store :: store where
  "committed_store = run_calls [CommitMigration 1 ''m''] demo_store"

definition committed_row :: migration_row where
  "committed_row = (migration_row_of 0 demo_migration)\<lparr>mr_state := COMMITTED, mg_updated_at := 1\<rparr>"

theorem recovery_refines_cas_witness:
  "\<exists>c t. recover_committed_migration 2 ''m'' ''e2'' committed_store = (Inr c, t) \<and> leases t ''a'' = Some (''e2'', 3)"
proof -
  have "store_ok committed_store" "sel mr_migration_id ''m'' (migrations committed_store) = Some committed_row"
    "mr_state committed_row = COMMITTED \<or> mr_state committed_row = SOURCE_RELEASED" by code_simp+
  note swap = recovery_refines_cas [OF this, where e = "''e2''" and now = 2 and now' = 0 and e' = "[]"]
  have "leases committed_store ''a'' = Some (''e1'', 2)" by code_simp
  with swap show ?thesis
    by (auto simp: cas_lease_def committed_row_def migration_row_of_def demo_migration_def new_migration_record_def)
qed

definition demo_step :: "int \<Rightarrow> agent_continuation" where
  "demo_step k = demo_agent\<lparr>ac_committed_step := k\<rparr>"

definition claimed_store :: store where
  "claimed_store = snd (claim_step 1 ''a'' 1 ''e0'' 1 ''r1'' demo_store)"

definition after_step :: store where
  "after_step = snd (commit_claimed_step 2 (demo_step 1) 1 ''r1'' claimed_store)"

theorem step_committed_once_witness:
  "ac_committed_step (demo_step 1) < ac_committed_step (demo_step 2)"
proof -
  let ?cs = "[ClaimStep 3 ''a'' 2 ''e0'' 1 ''r2'']"
  have "fst (commit_claimed_step 2 (demo_step 1) 1 ''r1'' claimed_store) = Inr ()" by code_simp
  then have 1: "commit_claimed_step 2 (demo_step 1) 1 ''r1'' claimed_store = (Inr (), after_step)"
    by (simp add: after_step_def prod_eq_iff)
  have "fst (commit_claimed_step 4 (demo_step 2) 1 ''r2'' (run_calls ?cs after_step)) = Inr ()" by code_simp
  then have "commit_claimed_step 4 (demo_step 2) 1 ''r2'' (run_calls ?cs after_step) =
      (Inr (), snd (commit_claimed_step 4 (demo_step 2) 1 ''r2'' (run_calls ?cs after_step)))"
    by (simp add: prod_eq_iff)
  then show ?thesis by (rule step_committed_once [OF 1]) (simp add: demo_step_def)
qed

lemma claimed_call: "claim_step 1 ''a'' 1 ''e0'' 1 ''r1'' demo_store = (Inr (), claimed_store)"
proof -
  have "fst (claim_step 1 ''a'' 1 ''e0'' 1 ''r1'' demo_store) = Inr ()" by code_simp
  then show ?thesis by (simp add: claimed_store_def prod_eq_iff)
qed

theorem claim_is_exclusive_witness:
  "\<exists>x. claim_step 3 ''a'' 1 ''e1'' 2 ''r2'' (run_calls [CommitMigration 2 ''m''] claimed_store) =
     (Inl x, run_calls [CommitMigration 2 ''m''] claimed_store)"
  by (rule claim_is_exclusive [OF claimed_call]) simp

theorem migration_strands_running_claim_witness:
  "fst (claim_step 3 ''a'' 1 ''e1'' 2 ''r2''
     (run_calls [] (snd (commit_migration_tx 2 ''m'' claimed_store)))) \<noteq> Inr ()"
proof -
  let ?q = "claim_row_of 1 ''a'' 1 1 ''r1''"
  have q: "sel claim_key (''a'', 1) (step_claims claimed_store) = Some ?q" "cl_status ?q = S_CLAIMED"
    "sel ac_agent_id ''a'' (agents claimed_store) = Some (agent_row_of 0 demo_agent)"
    "1 = ac_committed_step (agent_row_of 0 demo_agent) + 1"
    "cl_owner_epoch ?q = ac_owner_epoch (agent_row_of 0 demo_agent)" by code_simp+
  have "fst (commit_migration_tx 2 ''m'' claimed_store) = Inr ''a''" by code_simp
  then have "commit_migration_tx 2 ''m'' claimed_store = (Inr ''a'', snd (commit_migration_tx 2 ''m'' claimed_store))"
    by (simp add: prod_eq_iff)
  from migration_strands_running_claim [OF q this, of "[]"] show ?thesis by simp
qed

theorem tool_result_delivered_once_witness:
  "fst (put_tool_result 2 \<lparr>tr_agent_id = ''a'', tr_step_id = 1, tr_future_id = ''f'', tr_payload = JInt 2\<rparr>
     (run_calls [] (snd (put_tool_result 1 \<lparr>tr_agent_id = ''a'', tr_step_id = 1, tr_future_id = ''f'', tr_payload = JInt 1\<rparr>
        demo_store)))) = Inr False"
proof -
  let ?w = "\<lambda>v. \<lparr>tr_agent_id = ''a'', tr_step_id = 1, tr_future_id = ''f'', tr_payload = JInt v\<rparr>"
  have "fst (put_tool_result 1 (?w 1) demo_store) = Inr True" by code_simp
  then have "put_tool_result 1 (?w 1) demo_store = (Inr True, snd (put_tool_result 1 (?w 1) demo_store))"
    by (simp add: prod_eq_iff)
  from tool_result_delivered_once [OF this, of "?w 2" 2 "[]"] show ?thesis by (simp add: mailbox_key_def)
qed

section \<open>Integrity\<close>

text \<open>
  C9. Every store any run of the system reaches satisfies the integrity constraints: keys
  are unique, an agent has at most one live migration, migrations and claims name
  registered agents, no claim is ahead of its agent's step or epoch, and a completed
  claim's step is committed.
\<close>

theorem reachable_store_is_integral:
  "store_ok (run_calls cs initialize)"
  by (rule store_ok_run_calls [OF store_ok_initialize])

end
