(* ===== verification/EngineClient.thy ===== *)
theory EngineClient
  imports PyJson
begin

text \<open>
  \<open>SGLangAgentShiftClient\<close> of \<open>agentshift/engine/sglang.py\<close>: every control call with the
  path and JSON payload it posts, and how an HTTP outcome becomes a result or an exception.
  The engine behind the HTTP server is not in the repository's Python code: what it answers
  is the argument \<open>transport\<close> of the definitions that post.
\<close>

section \<open>Requests\<close>

datatype engine_call =
    InspectHybridPrefix "token list"
  | PinPrefix agent_id int "token list"
  | InitTransferGroup string "int list" int string
  | InitHybridStateGroup string int int string
  | DirectTransferHybridState string "token list" string int
  | StartAsyncHybridTransfer string string "token list" string int bool
  | AsyncHybridTransferStatus string
  | CleanupAsyncHybridTransfer string
  | TransferPrefix string string agent_id int "token list" string "int list" bool bool int
  | TransferStatus string
  | CleanupTransfer string
  | StartTierOperation string string string agent_id int "token list" bool
  | TierStatus string
  | CleanupTierOperation string bool
  | ReleasePrefix agent_id int bool bool
  | RebindPrefix agent_id int int
  | Generate "token list" int string "string option" "int option" "string option"

definition jtokens :: "token list \<Rightarrow> json" where
  "jtokens ts = JArr (map JInt ts)"

fun jopt :: "('a \<Rightarrow> json) \<Rightarrow> 'a option \<Rightarrow> json" where
  "jopt f None = JNull"
| "jopt f (Some x) = f x"

text \<open>\<open>",".join(map(str, ports))\<close>\<close>

fun join_ports :: "int list \<Rightarrow> string" where
  "join_ports [] = []"
| "join_ports [p] = str_int p"
| "join_ports (p # q # ps) = str_int p @ '','' @ join_ports (q # ps)"

fun request_of :: "engine_call \<Rightarrow> string \<times> json" where
  "request_of (InspectHybridPrefix ts) =
     (''/agentshift/hybrid_state/inspect'', JObj [(''token_ids'', jtokens ts)])"
| "request_of (PinPrefix a n ts) =
     (''/agentshift/prefix/pin'',
      JObj [(''agent_id'', JStr a), (''owner_epoch'', JInt n), (''token_ids'', jtokens ts)])"
| "request_of (InitTransferGroup addr ports rank name) =
     (''/agentshift/transfer_group/init'',
      JObj [(''master_address'', JStr addr), (''ports'', JStr (join_ports ports)),
        (''group_rank'', JInt rank), (''world_size'', JInt 2), (''group_name'', JStr name),
        (''backend'', JStr ''nccl'')])"
| "request_of (InitHybridStateGroup addr port rank name) =
     (''/agentshift/hybrid_state/direct_group/init'',
      JObj [(''master_address'', JStr addr), (''port'', JInt port),
        (''group_rank'', JInt rank), (''world_size'', JInt 2), (''group_name'', JStr name),
        (''backend'', JStr ''nccl'')])"
| "request_of (DirectTransferHybridState role ts name port) =
     (''/agentshift/hybrid_state/direct_transfer'',
      JObj [(''role'', JStr role), (''token_ids'', jtokens ts), (''group_name'', JStr name),
        (''port'', JInt port)])"
| "request_of (StartAsyncHybridTransfer tid role ts name port prep) =
     (''/agentshift/hybrid_state/direct_transfer/start'',
      JObj [(''transfer_id'', JStr tid), (''prepare_only'', JBool prep), (''role'', JStr role),
        (''token_ids'', jtokens ts), (''group_name'', JStr name), (''port'', JInt port)])"
| "request_of (AsyncHybridTransferStatus tid) =
     (''/agentshift/hybrid_state/direct_transfer/status/'' @ tid, JNull)"
| "request_of (CleanupAsyncHybridTransfer tid) =
     (''/agentshift/hybrid_state/direct_transfer/cleanup/'' @ tid, JNull)"
| "request_of (TransferPrefix role mid a n ts name ports asynct prog group_size) =
     (''/agentshift/prefix/transfer'',
      JObj [(''role'', JStr role), (''migration_id'', JStr mid), (''agent_id'', JStr a),
        (''owner_epoch'', JInt n), (''token_ids'', jtokens ts), (''group_name'', JStr name),
        (''ports'', JStr (join_ports ports)), (''async_transfer'', JBool asynct),
        (''progressive'', JBool prog), (''layer_group_size'', JInt group_size)])"
| "request_of (TransferStatus mid) =
     (''/agentshift/prefix/transfer/status'', JObj [(''migration_id'', JStr mid)])"
| "request_of (CleanupTransfer mid) =
     (''/agentshift/prefix/transfer/cleanup'', JObj [(''migration_id'', JStr mid)])"
| "request_of (StartTierOperation op oid cid a n ts release_gpu) =
     (''/agentshift/prefix/tier/start'',
      JObj [(''operation'', JStr op), (''operation_id'', JStr oid), (''checkpoint_id'', JStr cid),
        (''agent_id'', JStr a), (''owner_epoch'', JInt n), (''token_ids'', jtokens ts),
        (''release_gpu'', JBool release_gpu)])"
| "request_of (TierStatus oid) =
     (''/agentshift/prefix/tier/status'', JObj [(''operation_id'', JStr oid)])"
| "request_of (CleanupTierOperation oid drop_cp) =
     (''/agentshift/prefix/tier/cleanup'',
      JObj [(''operation_id'', JStr oid), (''drop_checkpoint'', JBool drop_cp)])"
| "request_of (ReleasePrefix a n evict allow) =
     (''/agentshift/prefix/release'',
      JObj [(''agent_id'', JStr a), (''owner_epoch'', JInt n), (''evict_after_release'', JBool evict),
        (''allow_missing'', JBool allow)])"
| "request_of (RebindPrefix a n n') =
     (''/agentshift/prefix/rebind'',
      JObj [(''agent_id'', JStr a), (''expected_owner_epoch'', JInt n), (''new_owner_epoch'', JInt n')])"
| "request_of (Generate ts max_new rid pin_agent pin_epoch progressive_id) =
     (''/generate'',
      JObj [(''input_ids'', jtokens ts), (''rid'', JStr rid),
        (''agentshift_pin_agent_id'', jopt JStr pin_agent),
        (''agentshift_pin_owner_epoch'', jopt JInt pin_epoch),
        (''agentshift_progressive_migration_id'', jopt JStr progressive_id),
        (''sampling_params'', JObj [(''max_new_tokens'', JInt max_new), (''temperature'', JInt 0)])])"

text \<open>The calls that pass \<open>require_success=False\<close>.\<close>

fun require_success :: "engine_call \<Rightarrow> bool" where
  "require_success (InspectHybridPrefix _) = False"
| "require_success (DirectTransferHybridState _ _ _ _) = False"
| "require_success (StartAsyncHybridTransfer _ _ _ _ _ _) = False"
| "require_success (AsyncHybridTransferStatus _) = False"
| "require_success (CleanupAsyncHybridTransfer _) = False"
| "require_success (Generate _ _ _ _ _ _) = False"
| "require_success _ = True"

text \<open>\<open>generate\<close> posts outside the per-engine control lock; every other call holds it.\<close>

fun control_traffic :: "engine_call \<Rightarrow> bool" where
  "control_traffic (Generate _ _ _ _ _ _) = False"
| "control_traffic _ = True"

section \<open>Answers\<close>

text \<open>What \<open>urlopen\<close> gives: a decoded body, an HTTP error, another \<open>OSError\<close>, or a body that is not JSON.\<close>

datatype http_outcome =
    Body json
  | HttpError int string
  | OsError string
  | BadJson string

text \<open>Python's \<open>d[k]\<close>, \<open>d.get(k, default)\<close>, \<open>int(v)\<close> and \<open>float(v)\<close> on decoded values.\<close>

definition jget :: "string \<Rightarrow> json \<Rightarrow> json option" where
  "jget k j = (case j of JObj kvs \<Rightarrow> map_of (rev kvs) k | _ \<Rightarrow> None)"

definition jfield :: "string \<Rightarrow> json \<Rightarrow> exn + json" where
  "jfield k j = (case j of
      JObj kvs \<Rightarrow> (case jget k j of None \<Rightarrow> Inl (KeyError (py_repr k)) | Some v \<Rightarrow> Inr v)
    | _ \<Rightarrow> Inl (TypeError ''indices must be integers''))"

definition jget_default :: "string \<Rightarrow> json \<Rightarrow> json \<Rightarrow> json" where
  "jget_default k d j = (case jget k j of None \<Rightarrow> d | Some v \<Rightarrow> v)"

fun py_int :: "json \<Rightarrow> exn + int" where
  "py_int (JInt i) = Inr i"
| "py_int (JBool b) = Inr (if b then 1 else 0)"
| "py_int (JFloat q) = Inr (if q < 0 then - \<lfloor>- q\<rfloor> else \<lfloor>q\<rfloor>)"
| "py_int (JStr s) = int_of_text s"
| "py_int _ = Inl (TypeError ''int() argument must be a string, a bytes-like object or a real number'')"

fun py_float :: "json \<Rightarrow> exn + rat" where
  "py_float (JInt i) = Inr (of_int i)"
| "py_float (JBool b) = Inr (if b then 1 else 0)"
| "py_float (JFloat q) = Inr q"
| "py_float (JStr s) = float_of_text s"
| "py_float _ = Inl (TypeError ''float() argument must be a string or a real number'')"

text \<open>A JSON number compared with another value by \<open>==\<close>, as Python compares them.\<close>

fun json_num :: "json \<Rightarrow> rat option" where
  "json_num (JInt i) = Some (of_int i)"
| "json_num (JBool b) = Some (if b then 1 else 0)"
| "json_num (JFloat q) = Some q"
| "json_num _ = None"

definition json_eq_int :: "json \<Rightarrow> int \<Rightarrow> bool" where
  "json_eq_int j i \<longleftrightarrow> json_num j = Some (of_int i)"

fun json_tokens :: "json \<Rightarrow> exn + token list" where
  "json_tokens (JArr js) =
     (if list_all (\<lambda>j. case j of JInt _ \<Rightarrow> True | _ \<Rightarrow> False) js
      then Inr (map (\<lambda>j. case j of JInt i \<Rightarrow> i | _ \<Rightarrow> 0) js)
      else Inl (TypeError ''token ids are integers''))"
| "json_tokens _ = Inl (TypeError ''can only concatenate list (not another type) to list'')"

section \<open>Posting\<close>

text \<open>
  \<open>_post_sync\<close>. \<open>show_value\<close> is Python's \<open>str\<close> of a decoded value; it only reaches the
  text of an error.
\<close>

definition post_sync ::
  "(json \<Rightarrow> string) \<Rightarrow> (string \<times> json \<Rightarrow> http_outcome) \<Rightarrow> engine_id \<Rightarrow> string \<times> json \<Rightarrow> bool \<Rightarrow> exn + json"
where
  "post_sync show_value transport engine req need_success =
     (let (path, payload) = req; site = engine @ '' '' @ path @ '': '' in
      case transport req of
        HttpError code detail \<Rightarrow> Inl (EngineRequestError (site @ str_int code @ '' '' @ detail))
      | OsError msg \<Rightarrow> Inl (EngineRequestError (site @ msg))
      | BadJson msg \<Rightarrow> Inl (ValueError msg)
      | Body result \<Rightarrow>
          (if \<not> need_success then Inr result
           else case result of
               JObj _ \<Rightarrow>
                 if json_truthy (jget_default ''success'' (JBool False) result) then Inr result
                 else Inl (EngineRequestError (site @
                        show_value (jget_default ''message'' (JStr ''request failed'') result)))
             | _ \<Rightarrow> Inl (AttributeError ''object has no attribute get'')))"

definition call_engine ::
  "(json \<Rightarrow> string) \<Rightarrow> (string \<times> json \<Rightarrow> http_outcome) \<Rightarrow> engine_id \<Rightarrow> engine_call \<Rightarrow> exn + json" where
  "call_engine show_value transport engine c =
     post_sync show_value transport engine (request_of c) (require_success c)"

lemma call_engine_success:
  assumes "call_engine sv tr e c = Inr j" and "require_success c"
  shows "\<exists>kvs v. j = JObj kvs \<and> map_of (rev kvs) ''success'' = Some v \<and> json_truthy v"
  using assms
  by (auto simp: call_engine_def post_sync_def jget_default_def jget_def Let_def
      split: prod.splits http_outcome.splits if_splits json.splits option.splits)

section \<open>Streaming\<close>

text \<open>
  \<open>_stream_generate_sync\<close>: the server-sent lines that carry data, the last decoded one,
  and a time stamp per decoded line. \<open>loads\<close> is \<open>json.loads\<close> of a line's data and the
  stamps are the readings of \<open>time.perf_counter()\<close>, one per decoded line
  (\<open>clock i\<close> is the one of the line decoded after \<open>i\<close> others).
\<close>

definition sse_data :: "string \<Rightarrow> string option" where
  "sse_data raw =
     (let line = strip raw; data = strip (drop 5 line) in
      if take 5 line \<noteq> ''data:'' then None
      else if data = [] \<or> data = ''[DONE]'' then None
      else Some data)"

fun stream_loop ::
  "(string \<Rightarrow> exn + json) \<Rightarrow> (nat \<Rightarrow> seconds) \<Rightarrow> string list \<Rightarrow> json option \<Rightarrow> seconds list \<Rightarrow>
   exn + json option \<times> seconds list" where
  "stream_loop loads clock [] final stamps = Inr (final, stamps)"
| "stream_loop loads clock (raw # lines) final stamps =
     (case sse_data raw of
        None \<Rightarrow> stream_loop loads clock lines final stamps
      | Some data \<Rightarrow> (case loads data of
            Inl e \<Rightarrow> Inl e
          | Inr j \<Rightarrow> stream_loop loads clock lines (Some j) (stamps @ [clock (length stamps)])))"

text \<open>The request it posts.\<close>

definition stream_request ::
  "token list \<Rightarrow> int \<Rightarrow> string \<Rightarrow> bool \<Rightarrow> string option \<Rightarrow> int option \<Rightarrow> string option \<Rightarrow> string \<times> json"
where
  "stream_request ts max_new rid ignore_eos pin_agent pin_epoch progressive_id =
     (''/generate'',
      JObj [(''input_ids'', jtokens ts), (''rid'', JStr rid),
        (''agentshift_pin_agent_id'', jopt JStr pin_agent),
        (''agentshift_pin_owner_epoch'', jopt JInt pin_epoch),
        (''agentshift_progressive_migration_id'', jopt JStr progressive_id),
        (''stream'', JBool True),
        (''sampling_params'', JObj [(''max_new_tokens'', JInt max_new), (''temperature'', JInt 0),
           (''ignore_eos'', JBool ignore_eos)])])"

text \<open>What the server answers: the lines of the body, an HTTP error, or another \<open>OSError\<close>.\<close>

datatype stream_outcome =
    Lines "string list"
  | StreamHttpError int string
  | StreamOsError string

record stream_result =
  sr_response :: json
  sr_request_started :: seconds
  sr_finished :: seconds
  sr_token_timestamps :: "seconds list"
  sr_ttft_seconds :: seconds
  sr_e2e_seconds :: seconds
  sr_token_intervals :: "seconds list"

definition intervals :: "seconds list \<Rightarrow> seconds list" where
  "intervals ts = map (\<lambda>(previous, current). current - previous) (zip ts (tl ts))"

text \<open>An empty stream raises; otherwise there is a first stamp.\<close>

definition stream_generate ::
  "(string \<Rightarrow> exn + json) \<Rightarrow> engine_id \<Rightarrow> stream_outcome \<Rightarrow> seconds \<Rightarrow> (nat \<Rightarrow> seconds) \<Rightarrow> seconds \<Rightarrow>
   exn + stream_result"
where
  "stream_generate loads engine outcome started clock finished =
     (case outcome of
        StreamHttpError code detail \<Rightarrow>
          Inl (EngineRequestError (engine @ '' /generate: '' @ str_int code @ '' '' @ detail))
      | StreamOsError msg \<Rightarrow> Inl (OSError msg)
      | Lines lines \<Rightarrow> (case stream_loop loads clock lines None [] of
            Inl e \<Rightarrow> Inl e
          | Inr (None, _) \<Rightarrow> Inl (EngineRequestError (engine @ '' /generate: empty stream''))
          | Inr (Some final, stamps) \<Rightarrow> Inr
              \<lparr>sr_response = final, sr_request_started = started, sr_finished = finished,
               sr_token_timestamps = stamps, sr_ttft_seconds = hd stamps - started,
               sr_e2e_seconds = finished - started, sr_token_intervals = intervals stamps\<rparr>))"

lemma stream_loop_stamps:
  "stream_loop loads clock lines final stamps = Inr (final', stamps') \<Longrightarrow>
     (\<exists>more. stamps' = stamps @ more \<and> (final' = None \<longleftrightarrow> final = None \<and> more = []))"
proof (induction loads clock lines final stamps rule: stream_loop.induct)
  case (2 loads clock raw lines final stamps)
  then show ?case by (fastforce split: option.splits sum.splits list.splits)
qed simp

lemma intervals_Cons: "intervals (x # y # ts) = (y - x) # intervals (y # ts)"
  by (simp add: intervals_def)

lemma intervals_sum: "ts \<noteq> [] \<Longrightarrow> sum_list (intervals ts) = last ts - hd ts"
proof (induction ts rule: induct_list012)
  case (3 x y ts)
  then show ?case by (simp add: intervals_Cons)
qed (simp_all add: intervals_def)

text \<open>
  A streamed generation that returns accounts for its whole duration: it has a first
  token, one interval less than it has tokens, and time to first token, token intervals and
  the tail after the last token add up to the end-to-end time.
\<close>

theorem stream_times_add_up:
  assumes "stream_generate loads engine outcome started clock finished = Inr r"
  shows "sr_token_timestamps r \<noteq> [] \<and>
    length (sr_token_timestamps r) = Suc (length (sr_token_intervals r)) \<and>
    sr_ttft_seconds r + sum_list (sr_token_intervals r) + (finished - last (sr_token_timestamps r)) =
      sr_e2e_seconds r"
proof -
  obtain lines final stamps where run: "stream_loop loads clock lines None [] = Inr (Some final, stamps)"
    and r: "r = \<lparr>sr_response = final, sr_request_started = started, sr_finished = finished,
       sr_token_timestamps = stamps, sr_ttft_seconds = hd stamps - started,
       sr_e2e_seconds = finished - started, sr_token_intervals = intervals stamps\<rparr>"
    using assms by (auto simp: stream_generate_def split: stream_outcome.splits sum.splits option.splits)
  have "stamps \<noteq> []" using stream_loop_stamps [OF run] by auto
  then show ?thesis using intervals_sum [of stamps] by (simp add: r intervals_def Suc_diff_1)
qed

definition demo_loads :: "string \<Rightarrow> exn + json" where
  "demo_loads s = Inr (JStr s)"

theorem stream_times_add_up_witness:
  "\<exists>r. stream_generate demo_loads ''e0'' (Lines [''data: 1'', [], ''data:2'', ''data: [DONE]'']) 10
         (\<lambda>i. 11 + rat_of_nat i) 20 = Inr r \<and> sr_ttft_seconds r = 1 \<and> sr_token_timestamps r \<noteq> []"
proof -
  let ?r = "\<lparr>sr_response = JStr ''2'', sr_request_started = 10, sr_finished = 20,
     sr_token_timestamps = [11, 12], sr_ttft_seconds = 1, sr_e2e_seconds = 10, sr_token_intervals = [1]\<rparr> :: stream_result"
  have "stream_generate demo_loads ''e0'' (Lines [''data: 1'', [], ''data:2'', ''data: [DONE]'']) 10
         (\<lambda>i. 11 + rat_of_nat i) 20 = Inr ?r"
    by (simp add: stream_generate_def demo_loads_def sse_data_def strip_def is_space_def intervals_def Let_def)
  from this stream_times_add_up [OF this] show ?thesis by auto
qed

end
