(* ===== verification/Runtime.thy ===== *)
theory Runtime
  imports StoreProps EngineClient
begin

text \<open>
  How the handlers run. A handler of the runtime or of a coordinator makes store
  transactions and awaits engines; between any two of them other tasks, threads and
  controllers may run transactions of their own. The environment says what they run, what
  the engines answer and what the clocks read, each as a function of the history of the
  handler, so a theorem for every environment holds for every interleaving, every engine
  behaviour and every timing.
\<close>

datatype event =
    StoreTx
  | Posted engine_id engine_call
  | SubmittedEffect "agent_id \<times> int \<times> string" json
  | ClockRead
  | Slept seconds
  | FreshId
  | Fault string string
  | AwaitedTokens
  | PerfRead
  | Acquired string
  | Released string

record env =
  others :: "event list \<Rightarrow> store_call list"
  transport :: "event list \<Rightarrow> engine_id \<Rightarrow> string \<times> json \<Rightarrow> http_outcome"
  show_value :: "json \<Rightarrow> string"
  wall_clock :: "event list \<Rightarrow> seconds"
  monotonic :: "event list \<Rightarrow> seconds"
  fresh_hex :: "event list \<Rightarrow> string"
  submit_effect :: "event list \<Rightarrow> json \<Rightarrow> exn + json"
  inject_fault :: "event list \<Rightarrow> string \<Rightarrow> string \<Rightarrow> exn option"
  awaited_tokens :: "event list \<Rightarrow> exn + token list"
  perf_counter :: "event list \<Rightarrow> seconds"
  next_task :: "event list \<Rightarrow> nat"
  second_fails_first :: "event list \<Rightarrow> bool"
  groups_meanwhile :: "event list \<Rightarrow> ((engine_id \<times> engine_id) \<times> string \<times> int list) list"

text \<open>
  \<open>next_task\<close> picks which of the awaitables of a \<open>gather\<close> runs next, \<open>second_fails_first\<close>
  which of two failing ones raises, and \<open>groups_meanwhile\<close> is what the coordinator's other
  tasks added to its table of transfer groups; \<open>rt_groups\<close> is that table.
\<close>

record rt =
  rt_store :: store
  rt_log :: "event list"
  rt_groups :: "((engine_id \<times> engine_id) \<times> string \<times> int list) list"

definition log_event :: "event \<Rightarrow> rt \<Rightarrow> rt" where
  "log_event e s = s\<lparr>rt_log := rt_log s @ [e]\<rparr>"

text \<open>What the other tasks did since the last event.\<close>

definition interfere :: "env \<Rightarrow> rt \<Rightarrow> rt" where
  "interfere E s = s\<lparr>rt_store := run_calls (others E (rt_log s)) (rt_store s)\<rparr>"

text \<open>A store operation: the others' transactions first, then this one. \<open>now\<close> is \<open>time.time()\<close>.\<close>

definition db :: "env \<Rightarrow> (seconds \<Rightarrow> (store, 'a) prog) \<Rightarrow> (rt, 'a) prog" where
  "db E m s =
     (let s1 = interfere E s; (r, t) = m (wall_clock E (rt_log s)) (rt_store s1)
      in (r, log_event StoreTx (s1\<lparr>rt_store := t\<rparr>)))"

text \<open>Awaiting an engine call: the others run while it is in flight.\<close>

definition post :: "env \<Rightarrow> engine_id \<Rightarrow> engine_call \<Rightarrow> (rt, json) prog" where
  "post E e c s =
     (call_engine (show_value E) (transport E (rt_log s) e) e c, log_event (Posted e c) (interfere E s))"

definition read_clock :: "env \<Rightarrow> (rt, seconds) prog" where
  "read_clock E s = (Inr (monotonic E (rt_log s)), log_event ClockRead s)"

definition sleep :: "env \<Rightarrow> seconds \<Rightarrow> (rt, unit) prog" where
  "sleep E d s = (Inr (), log_event (Slept d) (interfere E s))"

definition uuid4_hex :: "env \<Rightarrow> (rt, string) prog" where
  "uuid4_hex E s = (Inr (fresh_hex E (rt_log s)), log_event FreshId s)"

lemmas runtime_defs = log_event_def interfere_def db_def post_def read_clock_def sleep_def uuid4_hex_def

text \<open>
  The two guarantees every handler has: the store moves forward (\<open>store_le\<close>) and stays
  integral. They hold of each primitive, whatever the others do, and compose.
\<close>

definition rt_le :: "rt \<Rightarrow> rt \<Rightarrow> bool" where
  "rt_le s t \<longleftrightarrow> store_le (rt_store s) (rt_store t) \<and> (\<exists>more. rt_log t = rt_log s @ more) \<and>
     (store_ok (rt_store s) \<longrightarrow> store_ok (rt_store t))"

interpretation rt_moves: step_preorder rt_le
proof (unfold_locales, goal_cases)
  case (1 s)
  show ?case by (simp add: rt_le_def store_moves.refl_R)
next
  case (2 s t u)
  then show ?case unfolding rt_le_def by (auto intro: store_moves.trans_R)
qed

definition keeps_store :: "(store, 'a) prog \<Rightarrow> bool" where
  "keeps_store m \<longleftrightarrow> (\<forall>s. store_le s (snd (m s)) \<and> (store_ok s \<longrightarrow> store_ok (snd (m s))))"

named_theorems keeps_intros \<open>store operations that keep the store integral and moving forward\<close>

lemma keeps_storeI:
  assumes "steps store_le m" and "\<And>s. store_ok s \<Longrightarrow> store_ok (snd (m s))"
  shows "keeps_store m"
  using assms by (simp add: keeps_store_def steps_def)

lemma keeps_call:
  assumes "\<And>s. snd (m s) = run_call c s"
  shows "keeps_store m"
  using assms run_call_le store_ok_run_call by (simp add: keeps_store_def)

lemma keeps_read: "(\<And>s. snd (m s) = s) \<Longrightarrow> keeps_store m"
  by (simp add: keeps_store_def store_moves.refl_R)

lemma keeps_bind:
  assumes "keeps_store m" and "\<And>a. keeps_store (f a)"
  shows "keeps_store (bindP m f)"
  unfolding keeps_store_def
proof
  fix s
  obtain r t where "m s = (r, t)" by (cases "m s")
  moreover have "store_le s t" "store_ok s \<longrightarrow> store_ok t"
    using assms(1) \<open>m s = (r, t)\<close> by (auto simp: keeps_store_def dest: spec [of _ s])
  ultimately show "store_le s (snd (bindP m f s)) \<and> (store_ok s \<longrightarrow> store_ok (snd (bindP m f s)))"
    using assms(2) by (cases r) (auto simp: bindP_def keeps_store_def intro: store_moves.trans_R)
qed

lemma get_agent_state [simp]: "snd (get_agent a s) = s"
  by (simp add: get_agent_def split: option.splits)

lemma get_migration_state [simp]: "snd (get_migration mid s) = s"
  by (simp add: get_migration_def split: option.splits)

lemma get_effect_state [simp]: "snd (get_effect a k opid s) = s"
  by (simp add: get_effect_def split: option.splits)

lemma get_tool_result_state [simp]: "snd (get_tool_result a k f s) = s"
  by (simp add: get_tool_result_def)

lemma keeps_reads [keeps_intros]:
  "keeps_store (get_agent a)" "keeps_store (get_migration mid)" "keeps_store (get_effect a k opid)"
  "keeps_store (assert_lease a e n)" "keeps_store (getP f)" "keeps_store (get_tool_result a k fid)"
  by (rule keeps_read; simp add: assert_lease_state getP_def)+

lemma keeps_txs [keeps_intros]:
  "keeps_store (claim_step now a k e n rid)" "keeps_store (commit_claimed_step now c n rid)"
  "keeps_store (fail_claimed_step now a k rid unk)" "keeps_store (insert_migration now m)"
  "keeps_store (transition_migration now mid x y tf)" "keeps_store (insert_effect now v)"
  "keeps_store (swap_effect now j st st' n res)" "keeps_store (put_tool_result now w)"
  by (rule keeps_call, rule run_call.simps [symmetric])+

lemma keeps_commit_tx [keeps_intros]: "keeps_store (commit_migration_tx now mid)"
  by (rule keeps_call [OF run_call.simps(8) [symmetric]])

lemma keeps_recover_tx [keeps_intros]: "keeps_store (recover_tx now mid e)"
  by (rule keeps_call [OF run_call.simps(9) [symmetric]])

lemma keeps_ret [keeps_intros]: "keeps_store (ret a)"
  by (rule keeps_read) (simp add: ret_def)

lemma rt_le_interfere: "rt_le s (interfere E s)"
  by (simp add: rt_le_def interfere_def run_calls_le store_ok_run_calls)

lemma rt_le_log_event: "rt_le s (log_event e s)"
  by (simp add: rt_le_def log_event_def store_moves.refl_R)

lemma steps_db [steps_intros]:
  assumes "\<And>now. keeps_store (m now)"
  shows "steps rt_le (db E m)"
proof (rule stepsI)
  fix s
  let ?s1 = "interfere E s"
  obtain r t where rt: "m (wall_clock E (rt_log s)) (rt_store ?s1) = (r, t)" by (cases "m (wall_clock E (rt_log s)) (rt_store ?s1)")
  have "rt_le ?s1 (?s1\<lparr>rt_store := t\<rparr>)"
    using assms [of "wall_clock E (rt_log s)"] rt by (auto simp: rt_le_def keeps_store_def dest: spec [of _ "rt_store ?s1"])
  then have "rt_le s (log_event StoreTx (?s1\<lparr>rt_store := t\<rparr>))"
    by (meson rt_le_interfere rt_le_log_event rt_moves.trans_R)
  with rt show "rt_le s (snd (db E m s))" by (simp add: db_def Let_def)
qed

lemma db_result:
  assumes "db E m s = (r, t)"
  shows "m (wall_clock E (rt_log s)) (rt_store (interfere E s)) = (r, rt_store t)"
    and "rt_log t = rt_log s @ [StoreTx]"
  using assms by (auto simp: db_def Let_def log_event_def interfere_def split: prod.splits)

lemma steps_post [steps_intros]: "steps rt_le (post E e c)"
  by (rule stepsI) (auto simp: post_def intro: rt_moves.trans_R [OF rt_le_interfere rt_le_log_event])

lemma steps_read_clock [steps_intros]: "steps rt_le (read_clock E)"
  by (rule stepsI) (simp add: read_clock_def rt_le_log_event)

lemma steps_sleep [steps_intros]: "steps rt_le (sleep E d)"
  by (rule stepsI) (auto simp: sleep_def intro: rt_moves.trans_R [OF rt_le_interfere rt_le_log_event])

lemma steps_uuid4_hex [steps_intros]: "steps rt_le (uuid4_hex E)"
  by (rule stepsI) (simp add: uuid4_hex_def rt_le_log_event)

text \<open>\<open>start_migration\<close> with what may happen between its lease check and its insert.\<close>

definition db_start_migration :: "env \<Rightarrow> migration_record \<Rightarrow> (rt, unit) prog" where
  "db_start_migration E m =
     thenP (db E (\<lambda>_. assert_lease (mr_agent_id m) (mr_source_engine m) (mr_source_epoch m)))
       (db E (\<lambda>now. insert_migration now m))"

lemma steps_db_start_migration [steps_intros]: "steps rt_le (db_start_migration E m)"
  unfolding db_start_migration_def by (intro rt_moves.steps_thenP steps_db keeps_intros)

text \<open>With no interference the two-transaction form is the store's \<open>start_migration\<close>.\<close>

lemma db_start_migration_alone:
  assumes "\<And>l. others E l = []" and "\<And>l. wall_clock E l = now"
  shows "fst (db_start_migration E m s) = fst (start_migration now m (rt_store s)) \<and>
    rt_store (snd (db_start_migration E m s)) = snd (start_migration now m (rt_store s))"
  using assms
  by (auto simp: db_start_migration_def start_migration_def thenP_def bindP_def db_def interfere_def log_event_def
      Let_def run_calls_def split: prod.splits sum.splits)

text \<open>
  \<open>commit_migration\<close> leaves its transaction before it reads the continuation it returns, so
  another process may move the lease in between. \<open>recover_committed_migration\<close> does the same,
  except for a migration recovered before, whose continuation it reads inside the transaction.
\<close>

definition db_commit_migration :: "env \<Rightarrow> string \<Rightarrow> (rt, agent_continuation) prog" where
  "db_commit_migration E mid =
     bindP (db E (\<lambda>now. commit_migration_tx now mid)) (\<lambda>a. db E (\<lambda>_. get_agent a))"

definition recover_or_read :: "seconds \<Rightarrow> string \<Rightarrow> engine_id \<Rightarrow> (store, agent_continuation + agent_id) prog" where
  "recover_or_read now mid recovery_engine s =
     (if map_option mr_state (sel mr_migration_id mid (migrations s)) = Some RECOVERED
      then bindP (bindP (recover_tx now mid recovery_engine) get_agent) (\<lambda>c. ret (Inl c)) s
      else bindP (recover_tx now mid recovery_engine) (\<lambda>a. ret (Inr a)) s)"

definition db_recover_committed :: "env \<Rightarrow> string \<Rightarrow> engine_id \<Rightarrow> (rt, agent_continuation) prog" where
  "db_recover_committed E mid recovery_engine =
     bindP (db E (\<lambda>now. recover_or_read now mid recovery_engine)) (\<lambda>r. case r of
        Inl c \<Rightarrow> ret c
      | Inr a \<Rightarrow> db E (\<lambda>_. get_agent a))"

lemma keeps_recover_or_read [keeps_intros]: "keeps_store (recover_or_read now mid e)"
proof -
  have "keeps_store (bindP (bindP (recover_tx now mid e) get_agent) (\<lambda>c. ret (Inl c :: agent_continuation + agent_id)))"
    and "keeps_store (bindP (recover_tx now mid e) (\<lambda>a. ret (Inr a :: agent_continuation + agent_id)))"
    by (intro keeps_bind keeps_intros)+
  then show ?thesis by (simp add: keeps_store_def recover_or_read_def)
qed

lemma steps_db_commit_migration [steps_intros]: "steps rt_le (db_commit_migration E mid)"
  unfolding db_commit_migration_def by (intro rt_moves.steps_bindP steps_db keeps_intros)

lemma steps_db_recover_committed [steps_intros]: "steps rt_le (db_recover_committed E mid e)"
  unfolding db_recover_committed_def
  by (intro rt_moves.steps_bindP steps_db keeps_intros) (auto split: sum.splits intro!: steps_db keeps_intros rt_moves.steps_ret)

text \<open>With no interference these are the store's operations.\<close>

lemma commits_alone:
  assumes "\<And>l. others E l = []" and "\<And>l. wall_clock E l = now"
  shows "fst (db_commit_migration E mid s) = fst (commit_migration now mid (rt_store s)) \<and>
    rt_store (snd (db_commit_migration E mid s)) = snd (commit_migration now mid (rt_store s))"
    and "fst (db_recover_committed E mid e s) = fst (recover_committed_migration now mid e (rt_store s)) \<and>
    rt_store (snd (db_recover_committed E mid e s)) = snd (recover_committed_migration now mid e (rt_store s))"
proof -
  have read: "t = u" if "get_agent a u = (r, t)" for a r and t u :: store
    using that get_agent_state [of a u] by simp
  show "fst (db_commit_migration E mid s) = fst (commit_migration now mid (rt_store s)) \<and>
    rt_store (snd (db_commit_migration E mid s)) = snd (commit_migration now mid (rt_store s))"
    using assms
    by (auto simp: db_commit_migration_def commit_migration_def bindP_def db_def interfere_def log_event_def Let_def
        run_calls_def split: prod.splits sum.splits dest: read)
  show "fst (db_recover_committed E mid e s) = fst (recover_committed_migration now mid e (rt_store s)) \<and>
    rt_store (snd (db_recover_committed E mid e s)) = snd (recover_committed_migration now mid e (rt_store s))"
    using assms
    by (auto simp: db_recover_committed_def recover_committed_migration_def recover_or_read_def bindP_def ret_def db_def
        interfere_def log_event_def Let_def run_calls_def split: prod.splits sum.splits dest: read)
qed

end
