(* ===== verification/Effects.thy ===== *)
theory Effects
  imports Runtime
begin

text \<open>
  \<open>ManagedEffectProxy\<close> of \<open>agentshift/runtime/effects.py\<close>: a tool call is submitted to the
  outside world between two status changes of its effect record. \<open>prepare_effect\<close> and
  \<open>transition_effect\<close> are here with what other processes may do between their lease check
  and their transaction. The lemmas show that a submission follows the proxy's own
  \<open>PREPARED \<rightarrow> SUBMITTED\<close> swap and that this swap succeeds at most once for a key.
\<close>

section \<open>The proxy\<close>

definition db_prepare_effect :: "env \<Rightarrow> effect_record \<Rightarrow> (rt, effect_record) prog" where
  "db_prepare_effect E r =
     bindP (db E (\<lambda>_. get_agent (er_agent_id r))) (\<lambda>agent.
     thenP (db E (\<lambda>_. assert_lease (er_agent_id r) (ac_owner_engine agent) (er_owner_epoch r)))
    (thenP (db E (\<lambda>now. insert_effect now r))
           (db E (\<lambda>_. get_effect (er_agent_id r) (er_step_id r) (er_operation_id r)))))"

definition db_transition_effect ::
  "env \<Rightarrow> agent_id \<Rightarrow> int \<Rightarrow> string \<Rightarrow> effect_status \<Rightarrow> effect_status \<Rightarrow> int \<Rightarrow> json option \<Rightarrow>
   (rt, effect_record) prog" where
  "db_transition_effect E a step opid expected target n res =
     bindP (db E (\<lambda>_. get_effect a step opid)) (\<lambda>current.
     thenP (guardP (er_status current = expected)
              (StateConflict (''effect is '' @ effect_status_str (er_status current) @
                 '', expected '' @ effect_status_str expected)))
    (bindP (db E (\<lambda>_. get_agent a)) (\<lambda>agent.
     thenP (db E (\<lambda>_. assert_lease a (ac_owner_engine agent) n))
    (thenP (db E (\<lambda>now. swap_effect now (a, step, opid) expected target n res))
           (db E (\<lambda>_. get_effect a step opid))))))"

text \<open>\<open>submit(payload)\<close>: the outside world acts, and other tasks run meanwhile.\<close>

definition submit :: "env \<Rightarrow> agent_id \<times> int \<times> string \<Rightarrow> json \<Rightarrow> (rt, json) prog" where
  "submit E k payload s =
     (submit_effect E (rt_log s) payload, log_event (SubmittedEffect k payload) (interfere E s))"

text \<open>The submission and the recording of its outcome.\<close>

definition submit_and_record :: "env \<Rightarrow> agent_id \<Rightarrow> int \<Rightarrow> string \<Rightarrow> int \<Rightarrow> json \<Rightarrow> (rt, json) prog" where
  "submit_and_record E a step opid n payload =
     bindP (try_except (submit E (a, step, opid) payload)
              (\<lambda>e. thenP (db_transition_effect E a step opid E_SUBMITTED E_UNKNOWN n None) (throw e)))
           (\<lambda>res. thenP (db_transition_effect E a step opid E_SUBMITTED E_COMPLETED n (Some res)) (ret res))"

definition execute ::
  "env \<Rightarrow> agent_id \<Rightarrow> int \<Rightarrow> string \<Rightarrow> int \<Rightarrow> json \<Rightarrow> (rt, json) prog" where
  "execute E a step opid n payload =
     bindP (db_prepare_effect E
        \<lparr>er_agent_id = a, er_step_id = step, er_operation_id = opid, er_owner_epoch = n,
         er_status = E_PREPARED, er_payload = payload, er_result = None\<rparr>) (\<lambda>record.
     if er_status record = E_COMPLETED then
       ret (case er_result record of
              None \<Rightarrow> JObj []
            | Some res \<Rightarrow> if json_truthy res then res else JObj [])
     else if er_status record \<noteq> E_PREPARED then
       throw (StateConflict (''effect cannot be replayed from '' @ effect_status_str (er_status record)))
     else
       thenP (db_transition_effect E a step opid E_PREPARED E_SUBMITTED n None)
           (submit_and_record E a step opid n payload))"

text \<open>A caller that keeps retrying one operation, with whatever epoch and payload it has.\<close>

fun retries :: "env \<Rightarrow> agent_id \<Rightarrow> int \<Rightarrow> string \<Rightarrow> (int \<times> json) list \<Rightarrow> rt \<Rightarrow> rt" where
  "retries E a step opid [] s = s"
| "retries E a step opid ((n, payload) # rest) s =
     retries E a step opid rest (snd (execute E a step opid n payload s))"

section \<open>Proxies only move a status forward\<close>

text \<open>The status changes a proxy asks for; every other transaction leaves statuses alone.\<close>

fun proxy_move :: "effect_status \<Rightarrow> effect_status \<Rightarrow> bool" where
  "proxy_move E_PREPARED E_SUBMITTED = True"
| "proxy_move E_SUBMITTED E_UNKNOWN = True"
| "proxy_move E_SUBMITTED E_COMPLETED = True"
| "proxy_move _ _ = False"

fun proxy_call :: "store_call \<Rightarrow> bool" where
  "proxy_call (SwapEffect _ _ x y _ _) = proxy_move x y"
| "proxy_call _ = True"

definition proxies :: "env \<Rightarrow> bool" where
  "proxies E \<longleftrightarrow> (\<forall>l. list_all proxy_call (others E l))"

definition row_holds :: "agent_id \<times> int \<times> string \<Rightarrow> (effect_row \<Rightarrow> bool) \<Rightarrow> store \<Rightarrow> bool" where
  "row_holds k P s \<longleftrightarrow> (case sel effect_key k (effects s) of None \<Rightarrow> False | Some r \<Rightarrow> P r)"

definition started :: "agent_id \<times> int \<times> string \<Rightarrow> store \<Rightarrow> bool" where
  "started k = row_holds k (\<lambda>r. er_status r \<noteq> E_PREPARED)"

text \<open>What no proxy changes once it holds of a record.\<close>

definition stable :: "(effect_row \<Rightarrow> bool) \<Rightarrow> bool" where
  "stable P \<longleftrightarrow> (\<forall>r y n v now. proxy_move (er_status r) y \<longrightarrow> P r \<longrightarrow>
     P (r\<lparr>er_status := y, er_owner_epoch := n, er_result := v, ef_updated_at := now\<rparr>))"

lemma stable_started: "stable (\<lambda>r. er_status r \<noteq> E_PREPARED)"
  by (auto simp: stable_def elim: proxy_move.elims)

lemma stable_completed: "stable (\<lambda>r. er_status r = E_COMPLETED \<and> er_result r = v)"
  by (auto simp: stable_def)

definition submissions :: "agent_id \<times> int \<times> string \<Rightarrow> rt \<Rightarrow> nat" where
  "submissions k s =
     length (filter (\<lambda>e. case e of SubmittedEffect j _ \<Rightarrow> j = k | _ \<Rightarrow> False) (rt_log s))"

lemma submissions_log_event [simp]:
  "submissions k (log_event e s) =
     submissions k s + (case e of SubmittedEffect j _ \<Rightarrow> if j = k then 1 else 0 | _ \<Rightarrow> 0)"
  by (simp add: submissions_def log_event_def split: event.splits)

lemma submissions_store [simp]: "submissions k (s\<lparr>rt_store := t\<rparr>) = submissions k s"
  by (simp add: submissions_def)

lemma store_log_event [simp]: "rt_store (log_event e s) = rt_store s"
  by (simp add: log_event_def)

text \<open>A transaction that does not swap a status keeps the effects, or adds one row.\<close>

lemma row_holds_insert_effect: "row_holds k P s \<Longrightarrow> row_holds k P (snd (insert_effect now r s))"
  by (auto simp: row_holds_def insert_effect_def transaction_def ins_ignore_def ins_def
      sel_append_one split: option.splits if_splits)

lemma row_holds_swap_effect:
  assumes "stable P" and "proxy_move x y" and "row_holds k P s"
  shows "row_holds k P (snd (swap_effect now j x y n v s))"
proof (rule tx_cases [OF swap_effect_def, of now j x y n v s])
  fix u
  assume "swap_effect now j x y n v s = (Inr u, snd (swap_effect now j x y n v s))"
  then show ?thesis
  proof (rule swap_effect_ok)
    assume "snd (swap_effect now j x y n v s) = s\<lparr>effects := upd (\<lambda>r. effect_key r = j \<and> er_status r = x)
      (\<lambda>r. r\<lparr>er_status := y, er_owner_epoch := n, er_result := map_option json_sorted v, ef_updated_at := now\<rparr>) (effects s)\<rparr>"
    then show ?thesis
      using assms by (cases "sel effect_key k (effects s)") (auto simp: row_holds_def sel_upd stable_def)
  qed
qed (use assms in simp)

lemma swap_effect_starts:
  assumes ok: "store_ok s" and call: "swap_effect now k E_PREPARED y n v s = (Inr u, t)" and y: "y \<noteq> E_PREPARED"
  shows "\<not> started k s \<and> started k t"
  using call
proof (rule swap_effect_ok)
  let ?P = "\<lambda>r. effect_key r = k \<and> er_status r = E_PREPARED"
  let ?f = "\<lambda>r. r\<lparr>er_status := y, er_owner_epoch := n, er_result := map_option json_sorted v, ef_updated_at := now\<rparr>"
  assume one: "rowcount ?P (effects s) = 1" and t: "t = s\<lparr>effects := upd ?P ?f (effects s)\<rparr>"
  have cnt: "rowcount ?P (effects s) = (case sel effect_key k (effects s) of None \<Rightarrow> 0 | Some r \<Rightarrow> if ?P r then 1 else 0)"
    by (rule rowcount_by_key) (use ok in \<open>auto simp: store_ok_def\<close>)
  obtain r where "sel effect_key k (effects s) = Some r" "?P r"
  proof (cases "sel effect_key k (effects s)")
    case None
    then show ?thesis using cnt one by simp
  next
    case (Some r)
    then have "(if ?P r then 1 else 0) = (1::nat)" using cnt one by simp
    then have "?P r" by (rule_tac ccontr) simp
    with Some show ?thesis by (rule that)
  qed
  then show ?thesis using y by (auto simp: started_def row_holds_def t sel_upd)
qed

lemma effects_untouched:
  "effects (snd (register_agent now c s)) = effects s"
  "effects (snd (commit_step now c n s)) = effects s"
  "effects (snd (claim_step now a k e n rid s)) = effects s"
  "effects (snd (commit_claimed_step now c n rid s)) = effects s"
  "effects (snd (fail_claimed_step now a k rid unk s)) = effects s"
  "effects (snd (insert_migration now m s)) = effects s"
  "effects (snd (transition_migration now mid x y tf s)) = effects s"
  "effects (snd (commit_migration_tx now mid s)) = effects s"
  "effects (snd (recover_tx now mid e s)) = effects s"
  "effects (snd (put_tool_result now w s)) = effects s"
  apply (rule tx_frame [OF register_agent_def, where f = effects], elim register_agent_ok, simp)
  apply (rule tx_frame [OF commit_step_def, where f = effects], elim commit_step_ok, simp)
  apply (rule tx_frame [OF claim_step_def, where f = effects], elim claim_step_ok, auto)[1]
  apply (rule tx_frame [OF commit_claimed_step_def, where f = effects], elim commit_claimed_step_ok, simp)
  apply (rule tx_frame [OF fail_claimed_step_def, where f = effects], elim fail_claimed_step_ok, simp)
  apply (rule tx_frame [OF insert_migration_def, where f = effects], elim insert_migration_ok, simp)
  apply (rule tx_frame [OF transition_migration_def, where f = effects], elim transition_migration_ok, auto dest!: update_migration_frame)[1]
  apply (rule tx_frame [OF commit_migration_tx_def, where f = effects], elim commit_migration_tx_ok, auto dest!: update_migration_frame)[1]
  apply (rule tx_frame [OF recover_tx_def, where f = effects], elim recover_tx_ok, auto dest!: update_migration_frame)[1]
  apply (auto simp: put_tool_result_def transaction_def split: prod.splits)[1]
  done

lemma row_holds_run_call:
  assumes "stable P" and "proxy_call c" and "row_holds k P s"
  shows "row_holds k P (run_call c s)"
proof (cases c)
  case (InsertEffect now r)
  with assms show ?thesis by (simp add: row_holds_insert_effect)
next
  case (SwapEffect now j x y n v)
  with assms show ?thesis by (simp add: row_holds_swap_effect)
qed (use assms in \<open>simp_all add: row_holds_def effects_untouched\<close>)

lemma row_holds_run_calls:
  "stable P \<Longrightarrow> list_all proxy_call cs \<Longrightarrow> row_holds k P s \<Longrightarrow> row_holds k P (run_calls cs s)"
  by (induction cs arbitrary: s) (auto intro: row_holds_run_call)

section \<open>Quiet programs\<close>

text \<open>A quiet program submits nothing under \<open>k\<close> and keeps what proxies cannot change.\<close>

definition quiet :: "agent_id \<times> int \<times> string \<Rightarrow> rt \<Rightarrow> rt \<Rightarrow> bool" where
  "quiet k s t \<longleftrightarrow> submissions k t = submissions k s \<and>
     (\<forall>P. stable P \<longrightarrow> row_holds k P (rt_store s) \<longrightarrow> row_holds k P (rt_store t)) \<and>
     (store_ok (rt_store s) \<longrightarrow> store_ok (rt_store t))"

interpretation quiet_moves: step_preorder "quiet k" for k
  by unfold_locales (simp_all add: quiet_def)

lemma quiet_started: "quiet k s t \<Longrightarrow> started k (rt_store s) \<Longrightarrow> started k (rt_store t)"
  using stable_started by (auto simp: quiet_def started_def)

lemma row_holds_interfere:
  "proxies E \<Longrightarrow> stable P \<Longrightarrow> row_holds k P (rt_store s) \<Longrightarrow> row_holds k P (rt_store (interfere E s))"
  by (simp add: interfere_def proxies_def row_holds_run_calls)

lemma submissions_interfere [simp]: "submissions k (interfere E s) = submissions k s"
  by (simp add: interfere_def)

lemma store_ok_interfere: "store_ok (rt_store s) \<Longrightarrow> store_ok (rt_store (interfere E s))"
  by (simp add: interfere_def store_ok_run_calls)

lemma quiet_interfere: "proxies E \<Longrightarrow> quiet k s (interfere E s)"
  by (simp add: quiet_def row_holds_interfere store_ok_interfere)

named_theorems quiet_intros \<open>store operations that keep what proxies cannot change\<close>

definition keeps_rows :: "agent_id \<times> int \<times> string \<Rightarrow> (store, 'a) prog \<Rightarrow> bool" where
  "keeps_rows k m \<longleftrightarrow> (\<forall>s. (\<forall>P. stable P \<longrightarrow> row_holds k P s \<longrightarrow> row_holds k P (snd (m s))) \<and>
     (store_ok s \<longrightarrow> store_ok (snd (m s))))"

lemma keeps_rowsD:
  assumes "keeps_rows k m" and "m s = (r, t)"
  shows "stable P \<Longrightarrow> row_holds k P s \<Longrightarrow> row_holds k P t" and "store_ok s \<Longrightarrow> store_ok t"
  using assms unfolding keeps_rows_def by (metis snd_conv)+

lemma keeps_rows_read [quiet_intros]:
  "keeps_rows k (get_agent a)" "keeps_rows k (assert_lease a e n)" "keeps_rows k (get_effect a j opid)"
  by (simp_all add: keeps_rows_def assert_lease_state)

lemma keeps_rows_insert [quiet_intros]: "keeps_rows k (insert_effect now r)"
  by (simp add: keeps_rows_def row_holds_insert_effect store_ok_insert_effect)

lemma keeps_rows_swap [quiet_intros]:
  assumes "proxy_move x y"
  shows "keeps_rows k (swap_effect now j x y n v)"
  using assms store_ok_run_call [of _ "SwapEffect now j x y n v"]
  by (simp add: keeps_rows_def row_holds_swap_effect)

lemma quiet_db:
  assumes "proxies E" and "\<And>now. keeps_rows k (m now)"
  shows "steps (quiet k) (db E m)"
proof (rule stepsI)
  fix s :: rt
  let ?now = "wall_clock E (rt_log s)"
  obtain r t where rt: "m ?now (rt_store (interfere E s)) = (r, t)" by (cases "m ?now (rt_store (interfere E s))")
  note k = keeps_rowsD [OF assms(2) rt]
  have "db E m s = (r, log_event StoreTx ((interfere E s)\<lparr>rt_store := t\<rparr>))"
    using rt by (simp add: db_def Let_def)
  moreover have "quiet k (interfere E s) (log_event StoreTx ((interfere E s)\<lparr>rt_store := t\<rparr>))"
    using k by (simp add: quiet_def)
  ultimately show "quiet k s (snd (db E m s))"
    using quiet_interfere [OF assms(1), of k s] quiet_moves.trans_R by simp
qed

lemmas quiet_rules = quiet_moves.steps_rules quiet_db quiet_intros

lemma quiet_prepare: "proxies E \<Longrightarrow> steps (quiet k) (db_prepare_effect E r)"
  unfolding db_prepare_effect_def by (intro quiet_rules; assumption)

lemma quiet_transition:
  "proxies E \<Longrightarrow> proxy_move x y \<Longrightarrow> steps (quiet k) (db_transition_effect E a step opid x y n res)"
  unfolding db_transition_effect_def by (intro quiet_rules; assumption)

text \<open>The first transition returns only after its own swap: not started before, started after.\<close>

lemma db_swap_starts:
  assumes "proxies E" and "store_ok (rt_store s)"
    and "db E (\<lambda>now. swap_effect now k E_PREPARED E_SUBMITTED n v) s = (Inr u, t)"
  shows "\<not> started k (rt_store s) \<and> started k (rt_store t)"
proof -
  let ?s1 = "interfere E s"
  have "swap_effect (wall_clock E (rt_log s)) k E_PREPARED E_SUBMITTED n v (rt_store ?s1) = (Inr u, rt_store t)"
    using assms(3) by (auto simp: db_def Let_def split: prod.splits)
  then have "\<not> started k (rt_store ?s1) \<and> started k (rt_store t)"
    by (rule swap_effect_starts [OF store_ok_interfere [OF assms(2)]]) simp
  then show ?thesis using quiet_started [OF quiet_interfere [OF assms(1)]] by blast
qed

lemma transition_starts:
  assumes E: "proxies E" and ok: "store_ok (rt_store s)"
    and call: "db_transition_effect E a step opid E_PREPARED E_SUBMITTED n v s = (Inr u, t)"
  shows "\<not> started (a, step, opid) (rt_store s) \<and> started (a, step, opid) (rt_store t) \<and>
    submissions (a, step, opid) t = submissions (a, step, opid) s \<and> store_ok (rt_store t)"
proof -
  let ?k = "(a, step, opid)"
  let ?read = "\<lambda>m. db E (\<lambda>_. m)"
  note q = quiet_db [OF E, where k = ?k]
  have all: "quiet ?k s t" by (rule stepsD [OF quiet_transition [OF E] call]) simp
  from call obtain c s1 s2 g s3 s4 s5 w1 w2 where
    r1: "?read (get_effect a step opid) s = (Inr c, s1)" and
    r2: "guardP (er_status c = E_PREPARED) (StateConflict (''effect is '' @ effect_status_str (er_status c) @
       '', expected '' @ effect_status_str E_PREPARED)) s1 = (Inr w1, s2)" and
    r3: "?read (get_agent a) s2 = (Inr g, s3)" and
    r4: "?read (assert_lease a (ac_owner_engine g) n) s3 = (Inr w2, s4)" and
    r5: "db E (\<lambda>now. swap_effect now ?k E_PREPARED E_SUBMITTED n v) s4 = (Inr (), s5)" and
    r6: "?read (get_effect a step opid) s5 = (Inr u, t)"
    unfolding db_transition_effect_def thenP_def by (elim bindP_InrE) auto
  have "quiet ?k s s1" by (rule stepsD [OF q, OF _ r1]) (rule quiet_intros)
  moreover have "s2 = s1" using r2 by (auto simp: guardP_def ret_def throw_def split: if_splits)
  moreover have "quiet ?k s2 s3" by (rule stepsD [OF q, OF _ r3]) (rule quiet_intros)
  moreover have "quiet ?k s3 s4" by (rule stepsD [OF q, OF _ r4]) (rule quiet_intros)
  ultimately have before: "quiet ?k s s4" by (metis quiet_moves.trans_R)
  then have "\<not> started ?k (rt_store s4) \<and> started ?k (rt_store s5)"
    using ok by (intro db_swap_starts [OF E _ r5]) (simp add: quiet_def)
  moreover have "quiet ?k s5 t" by (rule stepsD [OF q, OF _ r6]) (rule quiet_intros)
  ultimately have "\<not> started ?k (rt_store s) \<and> started ?k (rt_store t)"
    using quiet_started before by blast
  then show ?thesis using all ok by (simp add: quiet_def)
qed

lemma submit_counts:
  assumes "proxies E" and "submit E k payload s = (r, t)"
  shows "submissions k t = Suc (submissions k s)" and "started k (rt_store s) \<Longrightarrow> started k (rt_store t)"
    and "store_ok (rt_store s) \<Longrightarrow> store_ok (rt_store t)"
  using assms(2) quiet_started [OF quiet_interfere [OF assms(1)], of k s] store_ok_interfere [of s E]
  by (auto simp: submit_def)

section \<open>Accounting for submissions\<close>

text \<open>After the submission only quiet steps follow, in the returning and in the raising branch.\<close>

lemma submit_and_record_quiet:
  assumes E: "proxies E" and sub: "submit E (a, step, opid) payload s = (x, s1)"
    and call: "submit_and_record E a step opid n payload s = (r, t)"
  shows "quiet (a, step, opid) s1 t"
proof -
  let ?h = "\<lambda>e. thenP (db_transition_effect E a step opid E_SUBMITTED E_UNKNOWN n None) (throw e) :: (rt, json) prog"
  let ?c = "\<lambda>res. thenP (db_transition_effect E a step opid E_SUBMITTED E_COMPLETED n (Some res)) (ret res)"
  have h: "steps (quiet (a, step, opid)) (?h e)" for e
    by (intro quiet_moves.steps_rules quiet_transition [OF E]) simp
  have c: "steps (quiet (a, step, opid)) (?c res)" for res
    by (intro quiet_moves.steps_rules quiet_transition [OF E]) simp
  show ?thesis
  proof (cases x)
    case (Inl e)
    then have "bindP (?h e) ?c s1 = (r, t)"
      using call sub by (simp add: submit_and_record_def bindP_def try_except_def)
    then show ?thesis by (rule stepsD [OF quiet_moves.steps_bindP, OF h, OF c])
  next
    case (Inr v)
    then have "?c v s1 = (r, t)" using call sub by (simp add: submit_and_record_def bindP_def try_except_def)
    then show ?thesis by (rule stepsD [OF c])
  qed
qed

text \<open>
  A run of the proxy either is quiet, or starts the effect and submits once. The second
  needs an effect nobody has started.
\<close>

lemma execute_cases:
  assumes E: "proxies E" and ok: "store_ok (rt_store s)" and call: "execute E a step opid n payload s = (r, t)"
  obtains "quiet (a, step, opid) s t"
  | "\<not> started (a, step, opid) (rt_store s)" and "started (a, step, opid) (rt_store t)"
    and "submissions (a, step, opid) t = Suc (submissions (a, step, opid) s)" and "store_ok (rt_store t)"
proof -
  let ?k = "(a, step, opid)"
  let ?r = "\<lparr>er_agent_id = a, er_step_id = step, er_operation_id = opid, er_owner_epoch = n,
     er_status = E_PREPARED, er_payload = payload, er_result = None\<rparr>"
  obtain p s1 where prep: "db_prepare_effect E ?r s = (p, s1)" by (cases "db_prepare_effect E ?r s")
  have q1: "quiet ?k s s1" by (rule stepsD [OF quiet_prepare [OF E] prep])
  show thesis
  proof (cases "\<exists>rec. p = Inr rec \<and> er_status rec = E_PREPARED")
    case False
    then have "t = s1"
      using call prep by (cases p) (auto simp: execute_def bindP_def ret_def throw_def split: if_splits)
    with q1 that(1) show ?thesis by simp
  next
    case True
    let ?tr = "db_transition_effect E a step opid E_PREPARED E_SUBMITTED n None"
    obtain x s2 where tr: "?tr s1 = (x, s2)" by (cases "?tr s1")
    have rest: "thenP ?tr (submit_and_record E a step opid n payload) s1 = (r, t)"
      using call prep True by (auto simp: execute_def bindP_def)
    show ?thesis
    proof (cases x)
      case (Inl e)
      then have "t = s2" using rest tr by (simp add: thenP_def bindP_def)
      moreover have "quiet ?k s1 s2" by (rule stepsD [OF quiet_transition [OF E] tr]) simp
      ultimately show ?thesis using q1 quiet_moves.trans_R that(1) by blast
    next
      case (Inr u)
      have ok1: "store_ok (rt_store s1)" using q1 ok by (simp add: quiet_def)
      note st = transition_starts [OF E ok1 tr [unfolded Inr]]
      obtain y s3 where sub: "submit E ?k payload s2 = (y, s3)" by (cases "submit E ?k payload s2")
      have "submit_and_record E a step opid n payload s2 = (r, t)"
        using rest tr Inr by (simp add: thenP_def bindP_def)
      then have q3: "quiet ?k s3 t" by (rule submit_and_record_quiet [OF E sub])
      note cnt = submit_counts [OF E sub]
      have "\<not> started ?k (rt_store s)" using st quiet_started [OF q1] by blast
      moreover have "started ?k (rt_store t)" using st cnt(2) quiet_started [OF q3] by blast
      moreover have "submissions ?k t = Suc (submissions ?k s)"
        using st cnt(1) q1 q3 by (simp add: quiet_def)
      moreover have "store_ok (rt_store t)" using st cnt(3) q3 by (simp add: quiet_def)
      ultimately show ?thesis by (rule that(2))
    qed
  qed
qed

lemma execute_quiet_of_started:
  assumes "proxies E" and "store_ok (rt_store s)" and "execute E a step opid n payload s = (r, t)"
    and "started (a, step, opid) (rt_store s)"
  shows "quiet (a, step, opid) s t"
  using assms(4) by (rule_tac execute_cases [OF assms(1-3)]) auto

lemma retries_account:
  assumes "proxies E" and "store_ok (rt_store s)"
  shows "submissions (a, step, opid) (retries E a step opid tries s) \<le>
    submissions (a, step, opid) s + (if started (a, step, opid) (rt_store s) then 0 else 1)"
  using assms(2)
proof (induction tries arbitrary: s)
  case (Cons attempt1 rest)
  obtain n payload where hd: "attempt1 = (n, payload)" by (cases attempt1)
  obtain r t where call: "execute E a step opid n payload s = (r, t)" by (cases "execute E a step opid n payload s")
  show ?case
  proof (rule execute_cases [OF assms(1) Cons.prems call])
    assume q: "quiet (a, step, opid) s t"
    then have "store_ok (rt_store t)" using Cons.prems by (simp add: quiet_def)
    from Cons.IH [OF this] show ?thesis using q quiet_started [OF q] hd call by (auto simp: quiet_def split: if_splits)
  next
    assume "\<not> started (a, step, opid) (rt_store s)" "started (a, step, opid) (rt_store t)"
      "submissions (a, step, opid) t = Suc (submissions (a, step, opid) s)" "store_ok (rt_store t)"
    with Cons.IH [of t] hd call show ?thesis by simp
  qed
qed simp

text \<open>
  C5. An operation is submitted at most once: however often and with whatever epochs and
  payloads it is retried, in any interleaving with other executors, coordinators and
  proxies, the retries together submit the operation at most once, and not at all once its
  record has left \<open>PREPARED\<close> (which includes a crash between submission and completion).
\<close>

theorem effect_submitted_at_most_once:
  assumes "proxies E" and "store_ok (rt_store s)"
  shows "submissions (a, step, opid) (retries E a step opid tries s) - submissions (a, step, opid) s \<le> 1 \<and>
    (started (a, step, opid) (rt_store s) \<longrightarrow>
       submissions (a, step, opid) (retries E a step opid tries s) \<le> submissions (a, step, opid) s)"
  using retries_account [OF assms, of a step opid tries] by (auto split: if_splits)

lemma db_get_effect_row:
  assumes E: "proxies E" and P: "stable P" and row: "row_holds (a, step, opid) P (rt_store s)"
    and call: "db E (\<lambda>_. get_effect a step opid) s = (Inr rec, t)"
  shows "\<exists>r. P r \<and> rec = effect_record.truncate r"
proof -
  have "get_effect a step opid (rt_store (interfere E s)) = (Inr rec, rt_store t)"
    using call by (auto simp: db_def Let_def split: prod.splits)
  then show ?thesis
    using row_holds_interfere [OF E P row]
    by (auto simp: get_effect_def row_holds_def split: option.splits)
qed

lemma prepare_effect_row:
  assumes E: "proxies E" and P: "stable P" and row: "row_holds k P (rt_store s)"
    and k: "k = (er_agent_id q, er_step_id q, er_operation_id q)"
    and call: "db_prepare_effect E q s = (Inr rec, t)"
  shows "\<exists>r. P r \<and> rec = effect_record.truncate r"
proof -
  have q: "steps (quiet k) (db E m)" if "\<And>now. keeps_rows k (m now)" for m :: "seconds \<Rightarrow> (store, 'b) prog"
    using quiet_db [OF E] that .
  from call obtain g s1 u s2 v s3 where
    r1: "db E (\<lambda>_. get_agent (er_agent_id q)) s = (Inr g, s1)" and
    r2: "db E (\<lambda>_. assert_lease (er_agent_id q) (ac_owner_engine g) (er_owner_epoch q)) s1 = (Inr u, s2)" and
    r3: "db E (\<lambda>now. insert_effect now q) s2 = (Inr v, s3)" and
    r4: "db E (\<lambda>_. get_effect (er_agent_id q) (er_step_id q) (er_operation_id q)) s3 = (Inr rec, t)"
    unfolding db_prepare_effect_def thenP_def by (elim bindP_InrE) auto
  have "quiet k s s1" by (rule stepsD [OF quiet_db [OF E] r1]) (rule quiet_intros)
  moreover have "quiet k s1 s2" by (rule stepsD [OF quiet_db [OF E] r2]) (rule quiet_intros)
  moreover have "quiet k s2 s3" by (rule stepsD [OF quiet_db [OF E] r3]) (rule quiet_intros)
  ultimately have "row_holds k P (rt_store s3)" using row P by (simp add: quiet_def)
  then show ?thesis using db_get_effect_row [OF E P _ r4] k by simp
qed

text \<open>
  A completed effect is replayed from its record: in any interleaving a retry that
  returns gives the recorded result (an empty object where the record holds no truthy one)
  and submits nothing.
\<close>

theorem completed_effect_is_replayed:
  assumes E: "proxies E"
    and row: "row_holds (a, step, opid) (\<lambda>r. er_status r = E_COMPLETED \<and> er_result r = Some v) (rt_store s)"
    and call: "execute E a step opid n payload s = (Inr w, t)"
  shows "w = (if json_truthy v then v else JObj []) \<and> submissions (a, step, opid) t = submissions (a, step, opid) s"
proof -
  let ?r = "\<lparr>er_agent_id = a, er_step_id = step, er_operation_id = opid, er_owner_epoch = n,
     er_status = E_PREPARED, er_payload = payload, er_result = None\<rparr>"
  obtain rec s1 where prep: "db_prepare_effect E ?r s = (Inr rec, s1)"
    using call by (auto simp: execute_def elim: bindP_InrE)
  have "er_status rec = E_COMPLETED \<and> er_result rec = Some v"
    using prepare_effect_row [OF E stable_completed row _ prep] by auto
  then have "(Inr w, t) = (Inr (if json_truthy v then v else JObj []), s1)"
    using call prep by (simp add: execute_def bindP_def ret_def)
  moreover have "quiet (a, step, opid) s s1" by (rule stepsD [OF quiet_prepare [OF E] prep])
  ultimately show ?thesis by (simp add: quiet_def)
qed

section \<open>One proxy at a time\<close>

text \<open>What the proxy does when no other process touches the store meanwhile.\<close>

definition alone :: "env \<Rightarrow> bool" where
  "alone E \<longleftrightarrow> (\<forall>l. others E l = [])"

lemma db_alone:
  assumes "alone E" and "m (wall_clock E (rt_log s)) (rt_store s) = (r, t)"
  shows "db E m s = (r, s\<lparr>rt_store := t, rt_log := rt_log s @ [StoreTx]\<rparr>)"
  using assms by (simp add: alone_def db_def interfere_def log_event_def Let_def)

lemma prepare_alone:
  assumes "alone E" and "leases (rt_store s) (er_agent_id q) = Some (e, er_owner_epoch q)"
    and "sel effect_key (er_agent_id q, er_step_id q, er_operation_id q) (effects (rt_store s)) = None"
  shows "\<exists>row now. db_prepare_effect E q s = (Inr (effect_record.truncate row),
      s\<lparr>rt_store := (rt_store s)\<lparr>effects := effects (rt_store s) @ [row]\<rparr>, rt_log := rt_log s @ replicate 4 StoreTx\<rparr>) \<and>
    effect_key row = (er_agent_id q, er_step_id q, er_operation_id q) \<and> er_status row = E_PREPARED \<and>
    er_payload row = json_sorted (er_payload q)"
proof -
  let ?k = "(er_agent_id q, er_step_id q, er_operation_id q)"
  let ?now = "wall_clock E (rt_log s @ [StoreTx] @ [StoreTx])"
  let ?row = "\<lparr>er_agent_id = er_agent_id q, er_step_id = er_step_id q, er_operation_id = er_operation_id q,
     er_owner_epoch = er_owner_epoch q, er_status = E_PREPARED,
     er_payload = json_sorted (er_payload q), er_result = None, ef_updated_at = ?now\<rparr>"
  obtain g where g: "sel ac_agent_id (er_agent_id q) (agents (rt_store s)) = Some g"
    "ac_owner_engine g = e" "ac_owner_epoch g = er_owner_epoch q"
    using assms(2) by (auto simp: leases_def)
  have key: "effect_key ?row = ?k" by (simp add: effect_key_def)
  have 3: "insert_effect ?now q (rt_store s) = (Inr (), (rt_store s)\<lparr>effects := effects (rt_store s) @ [?row]\<rparr>)"
    using assms(3) key by (simp add: insert_effect_def transaction_def ins_ignore_def ins_def)
  have "sel effect_key ?k (effects (rt_store s) @ [?row]) = Some ?row"
    using sel_append_one [of effect_key ?row "effects (rt_store s)" ?k] assms(3) key by simp
  then have "db_prepare_effect E q s = (Inr (effect_record.truncate ?row),
      s\<lparr>rt_store := (rt_store s)\<lparr>effects := effects (rt_store s) @ [?row]\<rparr>, rt_log := rt_log s @ replicate 4 StoreTx\<rparr>)"
    using assms(1) g 3
    by (simp add: db_prepare_effect_def thenP_def bindP_def db_alone get_agent_def assert_lease_def
        guardP_def ret_def get_effect_def numeral_eq_Suc)
  then show ?thesis using key by fastforce
qed

lemma transition_alone:
  assumes "alone E" and "store_ok (rt_store s)" and "leases (rt_store s) a = Some (e, n)"
    and row: "sel effect_key (a, step, opid) (effects (rt_store s)) = Some row" and "er_status row = x"
  shows "\<exists>t row' rec now. db_transition_effect E a step opid x y n v s = (Inr rec, t) \<and>
    sel effect_key (a, step, opid) (effects (rt_store t)) = Some row' \<and>
    row' = row\<lparr>er_status := y, er_owner_epoch := n, er_result := map_option json_sorted v, ef_updated_at := now\<rparr> \<and>
    leases (rt_store t) a = Some (e, n) \<and> store_ok (rt_store t) \<and>
    rt_log t = rt_log s @ replicate 5 StoreTx"
proof -
  let ?k = "(a, step, opid)" and ?st = "rt_store s"
  let ?now = "wall_clock E (rt_log s @ [StoreTx] @ [StoreTx] @ [StoreTx])"
  let ?P = "\<lambda>r. effect_key r = ?k \<and> er_status r = x"
  let ?f = "\<lambda>r. r\<lparr>er_status := y, er_owner_epoch := n, er_result := map_option json_sorted v, ef_updated_at := ?now\<rparr>"
  let ?st' = "?st\<lparr>effects := upd ?P ?f (effects ?st)\<rparr>"
  obtain g where g: "sel ac_agent_id a (agents ?st) = Some g" "ac_owner_engine g = e" "ac_owner_epoch g = n"
    using assms(3) by (auto simp: leases_def)
  have "rowcount ?P (effects ?st) = (case sel effect_key ?k (effects ?st) of None \<Rightarrow> 0 | Some r \<Rightarrow> if ?P r then 1 else 0)"
    by (rule rowcount_by_key) (use assms(2) in \<open>auto simp: store_ok_def\<close>)
  then have one: "rowcount ?P (effects ?st) = 1" using row assms(5) sel_key [OF row] by simp
  then have swap: "swap_effect ?now ?k x y n v ?st = (Inr (), ?st')"
    by (simp add: swap_effect_def transaction_def Let_def)
  have row': "sel effect_key ?k (effects ?st') = Some (?f row)"
    using row assms(5) sel_key [OF row] by (simp add: sel_upd)
  have "db_transition_effect E a step opid x y n v s = (Inr (effect_record.truncate (?f row)),
      s\<lparr>rt_store := ?st', rt_log := rt_log s @ replicate 5 StoreTx\<rparr>)"
    using assms(1,5) g row row' swap
    by (simp add: db_transition_effect_def thenP_def bindP_def db_alone get_agent_def assert_lease_def
        guardP_def ret_def get_effect_def numeral_eq_Suc)
  moreover have "store_ok ?st'" using store_ok_swap_effect [OF assms(2) swap] .
  moreover have "leases ?st' a = Some (e, n)" using assms(3) by (simp add: leases_def)
  ultimately show ?thesis using row' by fastforce
qed

text \<open>
  The proxy alone, on an operation without a record and under the current lease: it
  submits the payload it was given, exactly once; when the outside world answers it returns
  the answer and records it as completed, and when the outside world raises it records
  \<open>UNKNOWN\<close> and raises the same exception.
\<close>

theorem execute_alone_records_outcome:
  assumes alone: "alone E" and ok: "store_ok (rt_store s)" and lease: "leases (rt_store s) a = Some (e, n)"
    and fresh: "sel effect_key (a, step, opid) (effects (rt_store s)) = None"
  shows "\<exists>t row. execute E a step opid n payload s =
      (submit_effect E (rt_log s @ replicate 9 StoreTx) payload, t) \<and>
    submissions (a, step, opid) t = Suc (submissions (a, step, opid) s) \<and>
    sel effect_key (a, step, opid) (effects (rt_store t)) = Some row \<and>
    (case submit_effect E (rt_log s @ replicate 9 StoreTx) payload of
       Inr w \<Rightarrow> er_status row = E_COMPLETED \<and> er_result row = Some (json_sorted w)
     | Inl _ \<Rightarrow> er_status row = E_UNKNOWN \<and> er_result row = None)"
proof -
  let ?k = "(a, step, opid)"
  let ?q = "\<lparr>er_agent_id = a, er_step_id = step, er_operation_id = opid, er_owner_epoch = n,
     er_status = E_PREPARED, er_payload = payload, er_result = None\<rparr>"
  let ?out = "submit_effect E (rt_log s @ replicate 9 StoreTx) payload"
  obtain row1 s1 where prep: "db_prepare_effect E ?q s = (Inr (effect_record.truncate row1), s1)"
    and s1: "s1 = s\<lparr>rt_store := (rt_store s)\<lparr>effects := effects (rt_store s) @ [row1]\<rparr>, rt_log := rt_log s @ replicate 4 StoreTx\<rparr>"
    and key: "effect_key row1 = ?k" and st1: "er_status row1 = E_PREPARED"
    using prepare_alone [OF alone, of s ?q e] lease fresh by auto
  have p: "proxies E" using alone by (simp add: alone_def proxies_def)
  have q1: "quiet ?k s s1" by (rule stepsD [OF quiet_prepare [OF p] prep])
  have ok1: "store_ok (rt_store s1)" using q1 ok by (simp add: quiet_def)
  have row1: "sel effect_key ?k (effects (rt_store s1)) = Some row1"
    using sel_append_one [of effect_key row1 "effects (rt_store s)" ?k] fresh key s1 by simp
  have l1: "leases (rt_store s1) a = Some (e, n)" using lease s1 by (simp add: leases_def)
  obtain s2 row2 rec2 now2 where tr: "db_transition_effect E a step opid E_PREPARED E_SUBMITTED n None s1 = (Inr rec2, s2)"
    and row2: "sel effect_key ?k (effects (rt_store s2)) = Some row2"
    and st2: "er_status row2 = E_SUBMITTED" "er_result row2 = None"
    and l2: "leases (rt_store s2) a = Some (e, n)" and ok2: "store_ok (rt_store s2)"
    and log2: "rt_log s2 = rt_log s1 @ replicate 5 StoreTx"
    using transition_alone [OF alone ok1 l1 row1 st1, of E_SUBMITTED None] by auto
  have log: "rt_log s2 = rt_log s @ replicate 9 StoreTx" using log2 s1 by (simp add: numeral_eq_Suc)
  let ?s3 = "log_event (SubmittedEffect ?k payload) s2"
  have sub: "submit E ?k payload s2 = (?out, ?s3)"
    using alone log by (simp add: submit_def interfere_def alone_def)
  have run: "execute E a step opid n payload s = submit_and_record E a step opid n payload s2"
    using prep tr st1 by (simp add: execute_def bindP_def thenP_def)
  have cnt: "submissions ?k s2 = submissions ?k s"
    using q1 stepsD [OF quiet_transition [OF p] tr, of ?k] by (simp add: quiet_def)
  show ?thesis
  proof (cases ?out)
    case (Inl x)
    obtain s4 row4 rec4 now4 where "db_transition_effect E a step opid E_SUBMITTED E_UNKNOWN n None ?s3 = (Inr rec4, s4)"
      and "sel effect_key ?k (effects (rt_store s4)) = Some row4" and "er_status row4 = E_UNKNOWN" "er_result row4 = None"
      using transition_alone [OF alone, of ?s3 a e n step opid row2 E_SUBMITTED E_UNKNOWN None] ok2 l2 row2 st2 by auto
    moreover from this have "submissions ?k s4 = submissions ?k ?s3"
      using stepsD [OF quiet_transition [OF p], of E_SUBMITTED E_UNKNOWN a step opid n None ?s3 _ s4 ?k] by (simp add: quiet_def)
    ultimately show ?thesis
      using run sub Inl cnt by (auto simp: submit_and_record_def bindP_def thenP_def try_except_def throw_def)
  next
    case (Inr w)
    obtain s4 row4 rec4 now4 where "db_transition_effect E a step opid E_SUBMITTED E_COMPLETED n (Some w) ?s3 = (Inr rec4, s4)"
      and "sel effect_key ?k (effects (rt_store s4)) = Some row4" and "er_status row4 = E_COMPLETED"
        "er_result row4 = Some (json_sorted w)"
      using transition_alone [OF alone, of ?s3 a e n step opid row2 E_SUBMITTED E_COMPLETED "Some w"] ok2 l2 row2 st2 by auto
    moreover from this have "submissions ?k s4 = submissions ?k ?s3"
      using stepsD [OF quiet_transition [OF p], of E_SUBMITTED E_COMPLETED a step opid n "Some w" ?s3 _ s4 ?k] by (simp add: quiet_def)
    ultimately show ?thesis
      using run sub Inr cnt by (auto simp: submit_and_record_def bindP_def thenP_def try_except_def ret_def)
  qed
qed

section \<open>The lease check is not atomic with the swap\<close>

text \<open>
  An agent at \<open>e0\<close>, epoch 1, with a migration to \<open>e1\<close> ready; another process commits the
  migration after the seventh store access of the proxy, which is its second lease check,
  and nothing else happens.
\<close>

definition late_commit :: env where
  "late_commit = \<lparr>others = (\<lambda>l. if length l = 7 then [CommitMigration 0 ''m''] else []),
     transport = (\<lambda>_ _ _. OsError []), show_value = (\<lambda>_. []), wall_clock = (\<lambda>_. 0), monotonic = (\<lambda>_. 0),
     fresh_hex = (\<lambda>_. []), submit_effect = (\<lambda>_ _. Inr (JObj [])), inject_fault = (\<lambda>_ _ _. None),
     awaited_tokens = (\<lambda>_. Inr []), perf_counter = (\<lambda>_. 0), next_task = (\<lambda>_. 0),
     second_fails_first = (\<lambda>_. False), groups_meanwhile = (\<lambda>_. [])\<rparr>"

definition ready_to_commit :: rt where
  "ready_to_commit = \<lparr>rt_store = demo_store, rt_log = [], rt_groups = []\<rparr>"

lemma late_commit_proxies: "proxies late_commit"
  by (simp add: proxies_def late_commit_def)

text \<open>
  The lease check of a transition is not part of its transaction. In this interleaving
  the migration commits between the proxy's lease check and its swap, so the agent belongs
  to \<open>e1\<close> at epoch 2 from then on, and the proxy of \<open>e0\<close> at epoch 1 submits all the same;
  the record then stays \<open>SUBMITTED\<close> because the completion fails its own lease check.
\<close>

theorem stale_owner_submits:
  "(case execute late_commit ''a'' 1 ''op'' 1 (JObj []) ready_to_commit of (r, t) \<Rightarrow>
     take 10 (rt_log t) = replicate 9 StoreTx @ [SubmittedEffect (''a'', 1, ''op'') (JObj [])] \<and>
     leases (rt_store ready_to_commit) ''a'' = Some (''e0'', 1) \<and>
     leases (rt_store t) ''a'' = Some (''e1'', 2) \<and>
     row_holds (''a'', 1, ''op'') (\<lambda>x. er_status x = E_SUBMITTED) (rt_store t) \<and>
     (case r of Inl (StaleLease _) \<Rightarrow> True | _ \<Rightarrow> False))"
  by code_simp

section \<open>Witnesses\<close>

definition quiet_env :: env where
  "quiet_env = late_commit\<lparr>others := (\<lambda>_. [])\<rparr>"

lemma quiet_env_alone: "alone quiet_env" "proxies quiet_env"
  by (simp_all add: alone_def proxies_def quiet_env_def)

lemma ready_store_ok: "store_ok (rt_store ready_to_commit)"
  by code_simp

theorem effect_submitted_at_most_once_witness:
  "submissions (''a'', 1, ''op'') (retries late_commit ''a'' 1 ''op'' [(1, JObj []), (2, JNull)] ready_to_commit) - 0 \<le> 1"
  using effect_submitted_at_most_once [OF late_commit_proxies ready_store_ok, of "''a''" 1 "''op''" "[(1, JObj []), (2, JNull)]"]
  by (simp add: submissions_def ready_to_commit_def)

definition after_execute :: rt where
  "after_execute = snd (execute quiet_env ''a'' 1 ''op'' 1 (JObj []) ready_to_commit)"

theorem completed_effect_is_replayed_witness:
  "fst (execute quiet_env ''a'' 1 ''op'' 1 JNull after_execute) = Inr (JObj []) \<and>
   submissions (''a'', 1, ''op'') (snd (execute quiet_env ''a'' 1 ''op'' 1 JNull after_execute)) =
   submissions (''a'', 1, ''op'') after_execute"
proof -
  have "row_holds (''a'', 1, ''op'') (\<lambda>x. er_status x = E_COMPLETED \<and> er_result x = Some (JObj [])) (rt_store after_execute)"
    by code_simp
  moreover have "fst (execute quiet_env ''a'' 1 ''op'' 1 JNull after_execute) = Inr (JObj [])"
    by code_simp
  moreover obtain r t where "execute quiet_env ''a'' 1 ''op'' 1 JNull after_execute = (r, t)"
    by (cases "execute quiet_env ''a'' 1 ''op'' 1 JNull after_execute")
  ultimately show ?thesis
    using completed_effect_is_replayed [OF quiet_env_alone(2), of "''a''" 1 "''op''" "JObj []" after_execute 1 JNull "JObj []" t]
    by simp
qed

theorem execute_alone_records_outcome_witness:
  "\<exists>t row. execute quiet_env ''a'' 1 ''op'' 1 JNull ready_to_commit = (Inr (JObj []), t) \<and>
     sel effect_key (''a'', 1, ''op'') (effects (rt_store t)) = Some row \<and> er_status row = E_COMPLETED"
proof -
  have "leases (rt_store ready_to_commit) ''a'' = Some (''e0'', 1)"
    "sel effect_key (''a'', 1, ''op'') (effects (rt_store ready_to_commit)) = None" by code_simp+
  from execute_alone_records_outcome [OF quiet_env_alone(1) ready_store_ok this, of JNull]
  show ?thesis by (auto simp: quiet_env_def late_commit_def)
qed

end
