(* ===== verification/Executor.thy ===== *)
theory Executor
  imports Effects
begin

text \<open>
  The serving side of \<open>agentshift/runtime\<close>: \<open>ManagedAgentExecutor.run_turn\<close>
  (\<open>executor.py\<close>), the tool mailbox (\<open>mailbox.py\<close>) and the lease guard (\<open>ownership.py\<close>).
  A turn is claimed before the engine is asked and committed under the claim afterwards;
  the lemmas follow it through every interleaving with other tasks.
\<close>

section \<open>Turns\<close>

text \<open>\<open>self.engines[owner_engine]\<close> and the module function \<open>generate\<close> with its default arguments.\<close>

definition generate_turn ::
  "env \<Rightarrow> engine_id list \<Rightarrow> engine_id \<Rightarrow> token list \<Rightarrow> int \<Rightarrow> string \<Rightarrow> (rt, json) prog" where
  "generate_turn E engines e input_ids max_new_tokens rid =
     (if e \<in> set engines then post E e (Generate input_ids max_new_tokens rid None None None)
      else throw (KeyError (py_repr e)))"

text \<open>
  \<open>result["output_ids"]\<close>, as the list that is appended to the input. Ids that are no
  integers, which Python would append as they are, are refused here: engines answer integers.
\<close>

definition output_ids :: "json \<Rightarrow> exn + token list" where
  "output_ids result = (case jfield ''output_ids'' result of Inl e \<Rightarrow> Inl e | Inr j \<Rightarrow> json_tokens j)"

definition turn_continuation ::
  "agent_continuation \<Rightarrow> int \<Rightarrow> token list \<Rightarrow> token list \<Rightarrow> string option \<Rightarrow> agent_continuation" where
  "turn_continuation current step_id input_ids output pending =
     current\<lparr>ac_committed_step := step_id, ac_token_ids := input_ids @ output,
             ac_pending_tool_future := pending,
             ac_stream_offset := ac_stream_offset current + int (length output)\<rparr>"

definition run_turn ::
  "env \<Rightarrow> engine_id list \<Rightarrow> agent_id \<Rightarrow> engine_id \<Rightarrow> int \<Rightarrow> int \<Rightarrow> token list \<Rightarrow> int \<Rightarrow> string \<Rightarrow>
   string option \<Rightarrow> (rt, json) prog" where
  "run_turn E engines a e n k input_ids max_new_tokens rid pending =
     thenP (db E (\<lambda>now. claim_step now a k e n rid))
    (bindP (try_except (generate_turn E engines e input_ids max_new_tokens rid)
              (\<lambda>x. thenP (db E (\<lambda>now. fail_claimed_step now a k rid False)) (throw x)))
           (\<lambda>result. bindP (db E (\<lambda>_. get_agent a)) (\<lambda>current.
              bindP (liftS (output_ids result)) (\<lambda>output.
              thenP (db E (\<lambda>now. commit_claimed_step now
                       (turn_continuation current k input_ids output pending) n rid))
                    (ret result)))))"

section \<open>Mailbox and lease guard\<close>

definition publish :: "env \<Rightarrow> tool_result \<Rightarrow> (rt, bool) prog" where
  "publish E r = db E (\<lambda>now. put_tool_result now r)"

definition read_result :: "env \<Rightarrow> agent_id \<Rightarrow> int \<Rightarrow> string \<Rightarrow> (rt, tool_result option) prog" where
  "read_result E a k fid = db E (\<lambda>_. get_tool_result a k fid)"

definition validate_lease :: "env \<Rightarrow> agent_id \<Rightarrow> engine_id \<Rightarrow> int \<Rightarrow> (rt, unit) prog" where
  "validate_lease E a e n = db E (\<lambda>_. assert_lease a e n)"

lemma steps_generate_turn [steps_intros]: "steps rt_le (generate_turn E es e ts mx rid)"
  unfolding generate_turn_def by (intro rt_moves.steps_rules steps_intros)

lemma steps_run_turn [steps_intros]: "steps rt_le (run_turn E es a e n k ts mx rid pending)"
  unfolding run_turn_def by (intro rt_moves.steps_rules steps_db steps_generate_turn keeps_intros)

lemma steps_mailbox [steps_intros]:
  "steps rt_le (publish E r)" "steps rt_le (read_result E a k fid)" "steps rt_le (validate_lease E a e n)"
  unfolding publish_def read_result_def validate_lease_def by (intro steps_db keeps_intros)+

section \<open>What a turn leaves\<close>

text \<open>
  C6. A turn that returns was committed exactly: in any interleaving, when \<open>run_turn\<close>
  returns the agent still has the claimed epoch, its committed step is the turn's step, its
  tokens are the input followed by the engine's output, the next tool future is the one
  given, and the claim of the step is completed under the turn's request id and epoch.
\<close>

theorem returned_turn_is_committed:
  assumes call: "run_turn E es a e n k ts mx rid pending s = (Inr result, t)"
  shows "\<exists>out row claim. output_ids result = Inr out \<and>
    sel ac_agent_id a (agents (rt_store t)) = Some row \<and> ac_owner_epoch row = n \<and>
    ac_committed_step row = k \<and> ac_token_ids row = ts @ out \<and> ac_pending_tool_future row = pending \<and>
    sel claim_key (a, k) (step_claims (rt_store t)) = Some claim \<and> cl_status claim = S_COMPLETED \<and>
    cl_rid claim = rid \<and> cl_owner_epoch claim = n"
proof -
  from call obtain current out s1 s2 where
    out: "output_ids result = Inr out" and
    r1: "db E (\<lambda>_. get_agent a) s1 = (Inr current, s2)" and
    r2: "db E (\<lambda>now. commit_claimed_step now (turn_continuation current k ts out pending) n rid) s2 = (Inr (), t)"
    unfolding run_turn_def thenP_def by (elim bindP_InrE) (auto simp: liftS_def ret_def)
  let ?c = "turn_continuation current k ts out pending"
  have "ac_agent_id current = a"
    using db_result(1) [OF r1] by (auto elim!: get_agent_ok dest: sel_key)
  then have c: "ac_agent_id ?c = a" "ac_committed_step ?c = k" "ac_token_ids ?c = ts @ out"
    "ac_pending_tool_future ?c = pending" by (simp_all add: turn_continuation_def)
  from db_result(1) [OF r2] obtain q r s3 where
    q: "sel claim_key (a, k) (step_claims s3) = Some q" "cl_rid q = rid" "cl_owner_epoch q = n" and
    r: "sel ac_agent_id a (agents s3) = Some r" "ac_owner_epoch r = n" and
    t: "rt_store t = s3\<lparr>agents := update_progress (wall_clock E (rt_log s2)) ?c (agents s3),
         step_claims := upd (\<lambda>r. claim_key r = (a, k))
           (\<lambda>r. r\<lparr>cl_status := S_COMPLETED, cl_updated_at := wall_clock E (rt_log s2)\<rparr>) (step_claims s3)\<rparr>"
    by (rule commit_claimed_step_ok) (use c in auto)
  show ?thesis
    using out q r c by (auto simp: t sel_update_progress claim_tab.update_by_key)
qed

lemma claim_row_fields [simp]:
  "claim_key (claim_row_of now a k n rid) = (a, k)" "cl_status (claim_row_of now a k n rid) = S_CLAIMED"
  "cl_rid (claim_row_of now a k n rid) = rid" "cl_owner_epoch (claim_row_of now a k n rid) = n"
  by (simp_all add: claim_row_of_def claim_key_def)

lemma claim_step_result:
  assumes "claim_step now a k e n rid s = (Inr u, t)"
  shows "\<exists>q. sel claim_key (a, k) (step_claims t) = Some q \<and> cl_status q = S_CLAIMED \<and>
    cl_rid q = rid \<and> cl_owner_epoch q = n" and "agents t = agents s"
  using assms
  by (auto elim!: claim_step_ok simp: claim_tab.select_insert claim_tab.update_by_key)

text \<open>The turn after its claim.\<close>

lemma run_turn_unclaimed:
  assumes "db E (\<lambda>now. claim_step now a k e n rid) s = (Inl x, t)"
  shows "run_turn E es a e n k ts mx rid pending s = (Inl x, t)"
  using assms by (simp add: run_turn_def thenP_def bindP_def)

text \<open>The claim of a turn: its row is \<open>CLAIMED\<close> for the step under the request id and epoch.\<close>

definition holds_claim :: "agent_id \<Rightarrow> int \<Rightarrow> int \<Rightarrow> string \<Rightarrow> store \<Rightarrow> bool" where
  "holds_claim a k n rid s \<longleftrightarrow> (\<exists>q. sel claim_key (a, k) (step_claims s) = Some q \<and> cl_status q = S_CLAIMED \<and>
     cl_rid q = rid \<and> cl_owner_epoch q = n)"

text \<open>The calls that finish the request of the turn, which only the turn itself should make.\<close>

fun settles_request :: "agent_id \<Rightarrow> int \<Rightarrow> string \<Rightarrow> store_call \<Rightarrow> bool" where
  "settles_request a k rid (FailClaimedStep _ b j r _) = (b = a \<and> j = k \<and> r = rid)"
| "settles_request a k rid (CommitClaimedStep _ c _ r) = (ac_agent_id c = a \<and> ac_committed_step c = k \<and> r = rid)"
| "settles_request a k rid (CommitStep _ c _) = (ac_agent_id c = a)"
| "settles_request _ _ _ _ = False"

lemma holds_claim_upd:
  assumes "holds_claim a k n rid s" and "\<And>q. P q \<Longrightarrow> cl_status q = S_CLAIMED \<Longrightarrow> claim_key q = (a, k) \<Longrightarrow> cl_rid q \<noteq> rid"
    and "\<And>r. claim_key (f r) = claim_key r" and "step_claims t = upd P f (step_claims s)"
  shows "holds_claim a k n rid t"
proof -
  obtain q where q: "sel claim_key (a, k) (step_claims s) = Some q" "cl_status q = S_CLAIMED" "cl_rid q = rid" "cl_owner_epoch q = n"
    using assms(1) unfolding holds_claim_def by blast
  have "\<not> P q" using assms(2) q sel_key [OF q(1)] by blast
  then have "sel claim_key (a, k) (step_claims t) = Some q"
    unfolding assms(4) using q(1) assms(3) by (intro claim_tab.update_no_row) auto
  then show ?thesis using q unfolding holds_claim_def by blast
qed

lemma holds_claim_run_call:
  assumes held: "holds_claim a k n rid s" and c: "\<not> settles_request a k rid c"
  shows "holds_claim a k n rid (run_call c s)"
proof (cases c)
  case (ClaimStep now b j e m r)
  have "holds_claim a k n rid (snd (claim_step now b j e m r s))"
  proof (rule tx_cases [OF claim_step_def, of now b j e m r s])
    let ?t = "snd (claim_step now b j e m r s)"
    fix u
    assume "claim_step now b j e m r s = (Inr u, ?t)"
    then show ?thesis
    proof (rule claim_step_ok, elim disjE exE conjE)
      fix rows
      assume "ins claim_key (claim_row_of now b j m r) (step_claims s) = Some rows" and "?t = s\<lparr>step_claims := rows\<rparr>"
      then show ?thesis using held by (auto simp: holds_claim_def dest: claim_tab.insert_grows)
    next
      fix q
      let ?f = "\<lambda>x. x\<lparr>cl_owner_epoch := m, cl_rid := r, cl_status := S_CLAIMED, cl_updated_at := now\<rparr>"
      assume q: "sel claim_key (b, j) (step_claims s) = Some q" "cl_status q = S_FAILED"
        and t: "?t = s\<lparr>step_claims := upd (\<lambda>x. claim_key x = (b, j)) ?f (step_claims s)\<rparr>"
      have "(b, j) \<noteq> (a, k)" using held q by (auto simp: holds_claim_def)
      then show ?thesis
        by (intro holds_claim_upd [OF held, where f = ?f and P = "\<lambda>x. claim_key x = (b, j)"]) (auto simp: t claim_key_def)
    qed
  qed (use held in simp)
  then show ?thesis using ClaimStep by simp
next
  case (CommitClaimedStep now d m r)
  have "holds_claim a k n rid (snd (commit_claimed_step now d m r s))"
  proof (rule tx_cases [OF commit_claimed_step_def, of now d m r s])
    let ?t = "snd (commit_claimed_step now d m r s)" and ?j = "(ac_agent_id d, ac_committed_step d)"
    let ?f = "\<lambda>x. x\<lparr>cl_status := S_COMPLETED, cl_updated_at := now\<rparr>"
    fix u
    assume "commit_claimed_step now d m r s = (Inr u, ?t)"
    then show ?thesis
    proof (rule commit_claimed_step_ok)
      fix q p
      assume q: "sel claim_key ?j (step_claims s) = Some q" "cl_rid q = r"
        and t: "?t = s\<lparr>agents := update_progress now d (agents s), step_claims := upd (\<lambda>x. claim_key x = ?j) ?f (step_claims s)\<rparr>"
      have "?j \<noteq> (a, k)" using held q c CommitClaimedStep by (auto simp: holds_claim_def)
      then show ?thesis
        by (intro holds_claim_upd [OF held, where f = ?f and P = "\<lambda>x. claim_key x = ?j"]) (auto simp: t claim_key_def)
    qed
  qed (use held in simp)
  then show ?thesis using CommitClaimedStep by simp
next
  case (FailClaimedStep now b j r unk)
  have "holds_claim a k n rid (snd (fail_claimed_step now b j r unk s))"
  proof (rule tx_cases [OF fail_claimed_step_def, of now b j r unk s])
    let ?t = "snd (fail_claimed_step now b j r unk s)"
    let ?f = "\<lambda>x. x\<lparr>cl_status := (if unk then S_UNKNOWN else S_FAILED), cl_updated_at := now\<rparr>"
      and ?P = "\<lambda>x. claim_key x = (b, j) \<and> cl_rid x = r \<and> cl_status x = S_CLAIMED"
    fix u
    assume "fail_claimed_step now b j r unk s = (Inr u, ?t)"
    then have t: "?t = s\<lparr>step_claims := upd ?P ?f (step_claims s)\<rparr>" by (rule fail_claimed_step_ok)
    have st: "step_claims ?t = upd ?P ?f (step_claims s)" unfolding t by simp
    have mine: "cl_rid q \<noteq> rid" if "?P q" "cl_status q = S_CLAIMED" "claim_key q = (a, k)" for q
      using that c FailClaimedStep by auto
    show ?thesis by (rule holds_claim_upd [OF held mine _ st]) (simp_all add: claim_key_def)
  qed (use held in simp)
  then show ?thesis using FailClaimedStep by simp
qed (use held in \<open>simp_all add: holds_claim_def claims_untouched\<close>)

lemma holds_claim_run_calls:
  "holds_claim a k n rid s \<Longrightarrow> \<forall>c \<in> set cs. \<not> settles_request a k rid c \<Longrightarrow> holds_claim a k n rid (run_calls cs s)"
  by (induction cs arbitrary: s) (auto intro: holds_claim_run_call)

text \<open>While the claim is held, the agent's progress waits at the step before.\<close>

definition at_step :: "agent_id \<Rightarrow> int \<Rightarrow> store \<Rightarrow> bool" where
  "at_step a k s \<longleftrightarrow> (\<exists>r. sel ac_agent_id a (agents s) = Some r \<and> ac_committed_step r + 1 = k)"

lemma at_step_run_call:
  assumes st: "at_step a k s" and held: "holds_claim a k n rid s" and c: "\<not> settles_request a k rid c"
  shows "at_step a k (run_call c s)"
proof -
  obtain r where r: "sel ac_agent_id a (agents s) = Some r" "ac_committed_step r + 1 = k" using st unfolding at_step_def by blast
  show ?thesis
  proof (cases c)
    case (RegisterAgent now b)
    have "at_step a k (snd (register_agent now b s))"
      by (rule tx_cases [OF register_agent_def, of now b s])
        (use st in \<open>auto elim!: register_agent_ok simp: at_step_def dest: agent_tab.insert_grows\<close>)
    then show ?thesis using RegisterAgent by simp
  next
    case (CommitStep now b m)
    then have b: "ac_agent_id b \<noteq> a" using c by simp
    have "at_step a k (snd (commit_step now b m s))"
      by (rule tx_cases [OF commit_step_def, of now b m s])
        (use st b in \<open>auto elim!: commit_step_ok simp: at_step_def sel_update_progress\<close>)
    then show ?thesis using CommitStep by simp
  next
    case (ClaimStep now b j e m i)
    have "agents (snd (claim_step now b j e m i s)) = agents s"
      by (rule tx_frame [OF claim_step_def, where f = agents], rule claim_step_result(2))
    then show ?thesis using ClaimStep st by (simp add: at_step_def)
  next
    case (CommitClaimedStep now d m i)
    have "at_step a k (snd (commit_claimed_step now d m i s))"
    proof (rule tx_cases [OF commit_claimed_step_def, of now d m i s])
      fix u
      assume "commit_claimed_step now d m i s = (Inr u, snd (commit_claimed_step now d m i s))"
      then show ?thesis
      proof (rule commit_claimed_step_ok)
        fix q p
        assume q: "sel claim_key (ac_agent_id d, ac_committed_step d) (step_claims s) = Some q" "cl_rid q = i"
          and p: "sel ac_agent_id (ac_agent_id d) (agents s) = Some p" "ac_committed_step d = ac_committed_step p + 1"
          and t: "snd (commit_claimed_step now d m i s) = s\<lparr>agents := update_progress now d (agents s),
            step_claims := upd (\<lambda>x. claim_key x = (ac_agent_id d, ac_committed_step d))
              (\<lambda>x. x\<lparr>cl_status := S_COMPLETED, cl_updated_at := now\<rparr>) (step_claims s)\<rparr>"
        have "ac_agent_id d \<noteq> a"
        proof
          assume a: "ac_agent_id d = a"
          then have "ac_committed_step d = k" using p r by simp
          then have "i = rid" using a q held by (auto simp: holds_claim_def)
          then show False using a \<open>ac_committed_step d = k\<close> c CommitClaimedStep by simp
        qed
        then show ?thesis unfolding t using r by (simp add: at_step_def sel_update_progress)
      qed
    qed (use st in simp)
    then show ?thesis using CommitClaimedStep by simp
  next
    case (FailClaimedStep now b j i unk)
    have "agents (snd (fail_claimed_step now b j i unk s)) = agents s"
      by (simp add: fail_claimed_step_def transaction_def Let_def)
    then show ?thesis using FailClaimedStep st by (simp add: at_step_def)
  next
    case (CommitMigration now mid)
    have "at_step a k (snd (commit_migration_tx now mid s))"
      by (rule tx_cases [OF commit_migration_tx_def, of now mid s])
        (use r in \<open>auto elim!: commit_migration_tx_ok dest!: update_migration_frame simp: at_step_def sel_update_owner\<close>)
    then show ?thesis using CommitMigration by simp
  next
    case (RecoverMigration now mid e)
    have "at_step a k (snd (recover_tx now mid e s))"
      by (rule tx_cases [OF recover_tx_def, of now mid e s])
        (use r in \<open>auto elim!: recover_tx_ok dest!: update_migration_frame simp: at_step_def sel_update_owner\<close>)
    then show ?thesis using RecoverMigration by simp
  qed (use st in \<open>simp_all add: at_step_def agents_untouched\<close>)
qed

lemma claim_kept:
  assumes "holds_claim a k n rid s" and "at_step a k s" and "\<forall>c \<in> set cs. \<not> settles_request a k rid c"
  shows "holds_claim a k n rid (run_calls cs s) \<and> at_step a k (run_calls cs s)"
  using assms by (induction cs arbitrary: s) (auto intro: holds_claim_run_call at_step_run_call)

text \<open>The programs that ask no engine to generate, by the events they log.\<close>

definition is_generate :: "event \<Rightarrow> bool" where
  "is_generate ev = (case ev of Posted _ (Generate _ _ _ _ _ _) \<Rightarrow> True | _ \<Rightarrow> False)"

definition no_generate :: "rt \<Rightarrow> rt \<Rightarrow> bool" where
  "no_generate s t \<longleftrightarrow> (\<exists>l. rt_log t = rt_log s @ l \<and> (\<forall>ev \<in> set l. \<not> is_generate ev))"

interpretation no_generate_moves: step_preorder no_generate
proof (unfold_locales, goal_cases)
  case (1 s)
  show ?case by (simp add: no_generate_def)
next
  case (2 s t u)
  then obtain l m where "rt_log t = rt_log s @ l" "\<forall>ev \<in> set l. \<not> is_generate ev"
    "rt_log u = rt_log t @ m" "\<forall>ev \<in> set m. \<not> is_generate ev" unfolding no_generate_def by blast
  then show ?case unfolding no_generate_def by (intro exI [of _ "l @ m"]) auto
qed

lemma no_generate_db: "steps no_generate (db E m)"
  by (rule stepsI) (auto simp: no_generate_def is_generate_def db_def log_event_def interfere_def Let_def split: prod.splits)

text \<open>What follows the answer of the engine, or its failure.\<close>

lemma turn_tail:
  assumes run: "run_turn E es a e n k ts mx rid pending s = (r, t)"
    and claim: "db E (\<lambda>now. claim_step now a k e n rid) s = (Inr u, s1)"
    and gen: "generate_turn E es e ts mx rid s1 = (g, s2)"
  shows "no_generate s2 t"
proof -
  let ?h = "\<lambda>x. thenP (db E (\<lambda>now. fail_claimed_step now a k rid False)) (throw x) :: (rt, json) prog"
  let ?c = "\<lambda>v. bindP (db E (\<lambda>_. get_agent a)) (\<lambda>current. bindP (liftS (output_ids v)) (\<lambda>output.
    thenP (db E (\<lambda>now. commit_claimed_step now (turn_continuation current k ts output pending) n rid)) (ret v)))"
  have h: "steps no_generate (?h x)" for x by (intro no_generate_moves.steps_rules no_generate_db)
  have c: "steps no_generate (?c v)" for v by (intro no_generate_moves.steps_rules no_generate_db)
  have body: "bindP (try_except (generate_turn E es e ts mx rid) ?h) ?c s1 = (r, t)"
    using run claim by (simp add: run_turn_def thenP_def bindP_def [of "db E (\<lambda>now. claim_step now a k e n rid)"])
  show ?thesis
  proof (cases g)
    case (Inl x)
    then have "bindP (?h x) ?c s2 = (r, t)"
      using body gen by (simp add: bindP_def [of "try_except _ _"] bindP_def [of "?h x"] try_except_def)
    then show ?thesis by (rule stepsD [OF no_generate_moves.steps_bindP, OF h, OF c])
  next
    case (Inr v)
    then have "?c v s2 = (r, t)"
      using body gen by (simp add: bindP_def [of "try_except _ _"] try_except_def)
    then show ?thesis by (rule stepsD [OF c])
  qed
qed

text \<open>
  C7. The engine is asked only under a claim: a turn whose claim is refused raises without
  asking any engine and without changing the store. Any other turn holds the claim of its step
  under its request id and epoch when it posts \<open>generate\<close>, which is the very next thing it
  does, to the owner's engine and only once; and unless another task settles that very
  request, the claim is still held when the answer arrives. With an unknown engine no engine
  is asked.
\<close>

theorem engine_asked_only_under_claim:
  assumes call: "run_turn E es a e n k ts mx rid pending s = (r, t)"
  shows "(\<exists>x. r = Inl x \<and> rt_log t = rt_log s @ [StoreTx] \<and> rt_store t = rt_store (interfere E s)) \<or>
    (\<exists>s1. db E (\<lambda>now. claim_step now a k e n rid) s = (Inr (), s1) \<and> rt_log s1 = rt_log s @ [StoreTx] \<and>
       holds_claim a k n rid (rt_store s1) \<and>
       ((\<forall>c \<in> set (others E (rt_log s1)). \<not> settles_request a k rid c) \<longrightarrow> holds_claim a k n rid (rt_store (interfere E s1))) \<and>
       (\<exists>l. rt_log t = rt_log s1 @ (if e \<in> set es then [Posted e (Generate ts mx rid None None None)] else []) @ l \<and>
          (\<forall>ev \<in> set l. \<not> is_generate ev)))"
proof -
  let ?claim = "db E (\<lambda>now. claim_step now a k e n rid)"
  obtain c s1 where claim: "?claim s = (c, s1)" by (cases "?claim s")
  note res = db_result [OF claim]
  show ?thesis
  proof (cases c)
    case (Inl x)
    then have "rt_store s1 = rt_store (interfere E s)"
      using res(1) unfolding claim_step_def by (rule_tac transaction_fail) simp
    then show ?thesis using run_turn_unclaimed [OF claim [unfolded Inl]] call res(2) Inl by auto
  next
    case (Inr u)
    have held: "holds_claim a k n rid (rt_store s1)"
      using claim_step_result(1) [OF res(1) [unfolded Inr]] unfolding holds_claim_def .
    obtain g s2 where gen: "generate_turn E es e ts mx rid s1 = (g, s2)" by (cases "generate_turn E es e ts mx rid s1")
    have "rt_log s2 = rt_log s1 @ (if e \<in> set es then [Posted e (Generate ts mx rid None None None)] else [])"
      using gen by (auto simp: generate_turn_def throw_def post_def log_event_def interfere_def split: if_splits)
    moreover obtain l where "rt_log t = rt_log s2 @ l" "\<forall>ev \<in> set l. \<not> is_generate ev"
      using turn_tail [OF call claim [unfolded Inr] gen] unfolding no_generate_def by blast
    ultimately show ?thesis
      using claim Inr held holds_claim_run_calls [OF held] res(2) by (auto simp: interfere_def)
  qed
qed

text \<open>
  A turn alone whose \<open>generate\<close> raises (an HTTP error, a timeout, an unknown engine)
  raises the same exception, leaves every agent as it was and gives the step back: the
  owner can claim it again under any request id.
\<close>

theorem failed_turn_gives_step_back:
  assumes alone: "alone E" and ok: "store_ok (rt_store s)"
    and claim: "claim_step (wall_clock E (rt_log s)) a k e n rid (rt_store s) = (Inr (), s1)"
    and gen: "fst (generate_turn E es e ts mx rid (s\<lparr>rt_store := s1, rt_log := rt_log s @ [StoreTx]\<rparr>)) = Inl x"
  shows "\<exists>t. run_turn E es a e n k ts mx rid pending s = (Inl x, t) \<and>
    agents (rt_store t) = agents (rt_store s) \<and>
    fst (claim_step now a k e n rid' (rt_store t)) = Inr ()"
proof -
  let ?r1 = "s\<lparr>rt_store := s1, rt_log := rt_log s @ [StoreTx]\<rparr>"
  obtain q where q: "sel claim_key (a, k) (step_claims s1) = Some q" "cl_status q = S_CLAIMED" "cl_rid q = rid"
    using claim_step_result(1) [OF claim] by blast
  obtain r where r: "sel ac_agent_id a (agents (rt_store s)) = Some r" "ac_owner_engine r = e"
    "ac_owner_epoch r = n" "k = ac_committed_step r + 1"
    using claim by (rule claim_step_ok) auto
  note ag = claim_step_result(2) [OF claim]
  have ok1: "store_ok s1" using store_ok_claim_step [OF ok claim] .
  obtain s2 where s2: "generate_turn E es e ts mx rid ?r1 = (Inl x, s2)" "rt_store s2 = s1"
    using gen alone
    by (cases "generate_turn E es e ts mx rid ?r1")
      (auto simp: generate_turn_def post_def throw_def alone_def interfere_def log_event_def split: if_splits)
  let ?now = "wall_clock E (rt_log s2)"
  let ?P = "\<lambda>r. claim_key r = (a, k) \<and> cl_rid r = rid \<and> cl_status r = S_CLAIMED"
  let ?f = "\<lambda>r. r\<lparr>cl_status := S_FAILED, cl_updated_at := ?now\<rparr>"
  let ?t = "s1\<lparr>step_claims := upd ?P ?f (step_claims s1)\<rparr>"
  have "rowcount ?P (step_claims s1) = (case sel claim_key (a, k) (step_claims s1) of None \<Rightarrow> 0 | Some r \<Rightarrow> if ?P r then 1 else 0)"
    by (rule rowcount_by_key) (use ok1 in \<open>auto simp: store_ok_def\<close>)
  then have "fail_claimed_step ?now a k rid False s1 = (Inr (), ?t)"
    using q sel_key [OF q(1)] by (simp add: fail_claimed_step_def transaction_def Let_def)
  then have "run_turn E es a e n k ts mx rid pending s = (Inl x, s2\<lparr>rt_store := ?t, rt_log := rt_log s2 @ [StoreTx]\<rparr>)"
    using s2 claim alone
    by (simp add: run_turn_def thenP_def bindP_def try_except_def throw_def db_alone)
  moreover have "sel claim_key (a, k) (step_claims ?t) = Some (?f q)"
    using q sel_key [OF q(1)] by (simp add: sel_upd)
  then have "fst (claim_step now a k e n rid' ?t) = Inr ()"
    using r ag by (auto simp: claim_step_def transaction_def Let_def ins_def)
  ultimately show ?thesis using ag by auto
qed

section \<open>A turn overtaken by a migration\<close>

text \<open>The migration of \<open>ready_to_commit\<close> commits while \<open>generate\<close> is in flight.\<close>

definition overtaken :: env where
  "overtaken = quiet_env\<lparr>others := (\<lambda>l. if length l = 1 then [CommitMigration 0 ''m''] else []),
     transport := (\<lambda>_ _ _. Body (JObj [(''output_ids'', JArr [JInt 7])]))\<rparr>"

text \<open>A claim held for the agent's next step under an epoch the lease has left is stranded.\<close>

lemma stranded_of_claim:
  assumes "holds_claim a k n rid s" and "at_step a k s" and "leases s a = Some (e, m)" and "n < m"
  shows "stranded a k s"
  using assms by (auto simp: holds_claim_def at_step_def leases_def intro!: strandedI)

lemma stranded_run_calls:
  "stranded a k s \<Longrightarrow> list_all (\<lambda>c. \<not> resolves_claim a k c) cs \<Longrightarrow> stranded a k (run_calls cs s)"
  by (induction cs arbitrary: s) (auto intro: stranded_run_call)

text \<open>
  A turn whose engine answered and whose request no one settled: it arrives at its commit
  with its claim held and its step next.
\<close>

lemma turn_before_commit:
  assumes call: "run_turn E es a e n k ts mx rid pending s = (r, t)"
    and claim: "db E (\<lambda>now. claim_step now a k e n rid) s = (Inr (), s1)"
    and gen: "fst (generate_turn E es e ts mx rid s1) = Inr result" and out: "output_ids result = Inr ids"
    and quiet: "\<forall>l. \<forall>c \<in> set (others E l). \<not> settles_request a k rid c"
  obtains current w s3 s4 where "ac_agent_id current = a"
    "holds_claim a k n rid (rt_store (interfere E s3))" "at_step a k (rt_store (interfere E s3))"
    "db E (\<lambda>now. commit_claimed_step now (turn_continuation current k ts ids pending) n rid) s3 = (w, s4)"
    "t = s4" "r = (case w of Inl x \<Rightarrow> Inl x | Inr _ \<Rightarrow> Inr result)" "rt_le s1 t"
proof -
  note res = db_result [OF claim]
  have held1: "holds_claim a k n rid (rt_store s1)"
    using claim_step_result(1) [OF res(1)] unfolding holds_claim_def .
  have at1: "at_step a k (rt_store s1)"
    using claim_step_ok [OF res(1)] claim_step_result(2) [OF res(1)] unfolding at_step_def by metis
  have keep: "holds_claim a k n rid (rt_store (interfere E u)) \<and> at_step a k (rt_store (interfere E u))"
    if "holds_claim a k n rid (rt_store u)" "at_step a k (rt_store u)" for u
    using claim_kept [OF that] quiet by (simp add: interfere_def)
  obtain s2 where s2: "generate_turn E es e ts mx rid s1 = (Inr result, s2)"
    using gen by (cases "generate_turn E es e ts mx rid s1") auto
  then have "rt_store s2 = rt_store (interfere E s1)"
    by (auto simp: generate_turn_def post_def throw_def log_event_def split: if_splits)
  then have k2: "holds_claim a k n rid (rt_store s2)" "at_step a k (rt_store s2)" using keep [OF held1 at1] by simp_all
  obtain g s3 where s3: "db E (\<lambda>_. get_agent a) s2 = (g, s3)" by (cases "db E (\<lambda>_. get_agent a) s2")
  have st3: "rt_store s3 = rt_store (interfere E s2)" and g: "g = fst (get_agent a (rt_store s3))"
    using db_result(1) [OF s3] get_agent_state [of a "rt_store (interfere E s2)"] by simp_all
  then have k3: "holds_claim a k n rid (rt_store s3)" "at_step a k (rt_store s3)" using keep [OF k2] by simp_all
  then obtain current where cur: "g = Inr current" and ca: "ac_agent_id current = a"
    using g sel_key [of ac_agent_id a "agents (rt_store s3)"] by (auto simp: at_step_def get_agent_def agent_continuation.defs)
  let ?tx = "\<lambda>now. commit_claimed_step now (turn_continuation current k ts ids pending) n rid"
  obtain w s4 where s4: "db E ?tx s3 = (w, s4)" by (cases "db E ?tx s3")
  have rt: "t = s4" "r = (case w of Inl x \<Rightarrow> Inl x | Inr _ \<Rightarrow> Inr result)"
    using call claim s2 s3 cur out s4
    by (cases w; simp add: run_turn_def thenP_def bindP_def try_except_def liftS_def ret_def)+
  have "rt_le s1 s2" by (rule stepsD [OF steps_generate_turn s2])
  moreover have "rt_le s2 s3" by (rule stepsD [OF steps_db s3]) (rule keeps_reads)
  moreover have "rt_le s3 s4" by (rule stepsD [OF steps_db s4]) (rule keeps_txs)
  ultimately have "rt_le s1 t" unfolding rt(1) by (meson rt_moves.trans_R)
  with that [OF ca _ _ s4 rt] keep [OF k3] show thesis by blast
qed

text \<open>
  C10. A turn that loses its lease blocks the agent: take any turn that claimed its step and
  whose engine answered with output tokens, while other tasks moved the lease on (as a
  migration or a recovery does) and none of them settled its request. The turn raises
  \<open>StaleLease\<close> and loses the output, its claim stays \<open>CLAIMED\<close> under the old epoch, the new
  owner's claim of the step is refused with \<open>StateConflict\<close>, and through every later run of
  store calls no owner can claim the step until some call fails that claim or commits the
  step without one.
\<close>

theorem overtaken_turn_blocks_agent:
  assumes call: "run_turn E es a e n k ts mx rid pending s = (r, t)"
    and claim: "db E (\<lambda>now. claim_step now a k e n rid) s = (Inr (), s1)"
    and gen: "fst (generate_turn E es e ts mx rid s1) = Inr result" and out: "output_ids result = Inr ids"
    and quiet: "\<forall>l. \<forall>c \<in> set (others E l). \<not> settles_request a k rid c"
    and lost: "leases (rt_store t) a \<noteq> Some (e, n)"
  shows "r = Inl (StaleLease a) \<and> holds_claim a k n rid (rt_store t) \<and> stranded a k (rt_store t) \<and>
    (\<exists>e' m. leases (rt_store t) a = Some (e', m) \<and> n < m \<and>
       (\<forall>now rid'. \<exists>x. fst (claim_step now a k e' m rid' (rt_store t)) = Inl (StateConflict x))) \<and>
    (\<forall>cs now e' m rid'. list_all (\<lambda>c. \<not> resolves_claim a k c) cs \<longrightarrow>
       fst (claim_step now a k e' m rid' (run_calls cs (rt_store t))) \<noteq> Inr ())"
proof -
  obtain current w s3 s4 where ca: "ac_agent_id current = a"
    and k4: "holds_claim a k n rid (rt_store (interfere E s3))" "at_step a k (rt_store (interfere E s3))"
    and s4: "db E (\<lambda>now. commit_claimed_step now (turn_continuation current k ts ids pending) n rid) s3 = (w, s4)"
    and t: "t = s4" and r: "r = (case w of Inl x \<Rightarrow> Inl x | Inr _ \<Rightarrow> Inr result)" and le: "rt_le s1 t"
    using call claim gen out quiet by (rule turn_before_commit)
  let ?c = "turn_continuation current k ts ids pending" and ?u = "rt_store (interfere E s3)"
  have c: "ac_agent_id ?c = a" "ac_committed_step ?c = k" using ca by (simp_all add: turn_continuation_def)
  have tx: "commit_claimed_step (wall_clock E (rt_log s3)) ?c n rid ?u = (w, rt_store s4)" by (rule db_result(1) [OF s4])
  obtain q p where q: "sel claim_key (a, k) (step_claims ?u) = Some q" "cl_status q = S_CLAIMED" "cl_rid q = rid" "cl_owner_epoch q = n"
    and p: "sel ac_agent_id a (agents ?u) = Some p" "ac_committed_step p + 1 = k"
    using k4 unfolding holds_claim_def at_step_def by blast
  obtain r0 where r0: "sel ac_agent_id a (agents (rt_store s1)) = Some r0" "ac_owner_engine r0 = e" "ac_owner_epoch r0 = n"
    using claim_step_ok [OF db_result(1) [OF claim]] claim_step_result(2) [OF db_result(1) [OF claim]] by metis
  have "store_le (rt_store s1) (rt_store t)" using le by (simp add: rt_le_def)
  moreover have "leases (rt_store s1) a = Some (e, n)" using r0 by (simp add: leases_def)
  ultimately obtain e' m where m: "leases (rt_store t) a = Some (e', m)" "n \<le> m" "n = m \<longrightarrow> e = e'"
    by (rule leases_step)
  then have less: "n < m" using lost by (cases "n = m") auto
  have epoch: "ac_owner_epoch p \<noteq> n"
  proof
    assume n: "ac_owner_epoch p = n"
    then have "w = Inr ()" "agents (rt_store s4) = update_progress (wall_clock E (rt_log s3)) ?c (agents ?u)"
      using tx q p c by (auto simp: commit_claimed_step_def transaction_def Let_def dest!: arg_cong [of _ "rt_store s4" agents])
    then have "leases (rt_store t) a = Some (ac_owner_engine p, n)"
      using t p n c by (simp add: leases_def sel_update_progress)
    then show False using m(1) less by simp
  qed
  then have w: "w = Inl (StaleLease a)" and same: "rt_store s4 = ?u"
    using tx q p c by (auto simp: commit_claimed_step_def transaction_def Let_def)
  have held: "holds_claim a k n rid (rt_store t)" and at: "at_step a k (rt_store t)" using k4 t same by simp_all
  have stuck: "stranded a k (rt_store t)" by (rule stranded_of_claim [OF held at m(1) less])
  have "\<exists>x. fst (claim_step now a k e' m rid' (rt_store t)) = Inl (StateConflict x)" for now rid'
    using m(1) held at
    by (auto simp: claim_step_def transaction_def leases_def holds_claim_def at_step_def Let_def ins_def)
  moreover have "r = Inl (StaleLease a)" using r w by simp
  ultimately show ?thesis
    using held stuck m(1) less stranded_claim_step [OF stranded_run_calls [OF stuck]] by blast
qed

section \<open>Witnesses\<close>

definition serving :: env where
  "serving = overtaken\<lparr>others := (\<lambda>_. [])\<rparr>"

definition served :: rt where
  "served = snd (run_turn serving [''e0''] ''a'' ''e0'' 1 1 [5] 16 ''r1'' None ready_to_commit)"

lemma served_run: "run_turn serving [''e0''] ''a'' ''e0'' 1 1 [5] 16 ''r1'' None ready_to_commit =
    (Inr (JObj [(''output_ids'', JArr [JInt 7])]), served)"
proof -
  have "fst (run_turn serving [''e0''] ''a'' ''e0'' 1 1 [5] 16 ''r1'' None ready_to_commit) =
    Inr (JObj [(''output_ids'', JArr [JInt 7])])" by code_simp
  then show ?thesis unfolding served_def by (metis prod.collapse)
qed

theorem returned_turn_is_committed_witness:
  "\<exists>row. sel ac_agent_id ''a'' (agents (rt_store served)) = Some row \<and> ac_token_ids row = [5, 7] \<and>
     ac_committed_step row = 1"
proof -
  have "output_ids (JObj [(''output_ids'', JArr [JInt 7])]) = Inr [7]" by code_simp
  then show ?thesis using returned_turn_is_committed [OF served_run] by auto
qed

theorem engine_asked_only_under_claim_witness:
  "\<exists>l. rt_log served = [StoreTx, Posted ''e0'' (Generate [5] 16 ''r1'' None None None)] @ l \<and> (\<forall>ev \<in> set l. \<not> is_generate ev)"
proof -
  have "rt_log ready_to_commit = []" by code_simp
  then show ?thesis using engine_asked_only_under_claim [OF served_run] by auto
qed

theorem overtaken_turn_blocks_agent_witness:
  "\<exists>t. run_turn overtaken [''e0'', ''e1''] ''a'' ''e0'' 1 1 [5] 16 ''r1'' None ready_to_commit = (Inl (StaleLease ''a''), t) \<and>
     stranded ''a'' 1 (rt_store t) \<and> fst (claim_step 0 ''a'' 1 ''e1'' 2 ''r2'' (rt_store t)) \<noteq> Inr ()"
proof -
  let ?run = "run_turn overtaken [''e0'', ''e1''] ''a'' ''e0'' 1 1 [5] 16 ''r1'' None ready_to_commit"
  let ?claim = "db overtaken (\<lambda>now. claim_step now ''a'' 1 ''e0'' 1 ''r1'') ready_to_commit"
  obtain r t where run: "?run = (r, t)" by (cases ?run)
  obtain c s1 where claim: "?claim = (c, s1)" by (cases ?claim)
  have "fst ?claim = Inr ()" by code_simp
  then have claim': "?claim = (Inr (), s1)" using claim by simp
  have "fst (generate_turn overtaken [''e0'', ''e1''] ''e0'' [5] 16 ''r1'' (snd ?claim)) = Inr (JObj [(''output_ids'', JArr [JInt 7])])"
    by code_simp
  then have gen: "fst (generate_turn overtaken [''e0'', ''e1''] ''e0'' [5] 16 ''r1'' s1) = Inr (JObj [(''output_ids'', JArr [JInt 7])])"
    using claim by simp
  have out: "output_ids (JObj [(''output_ids'', JArr [JInt 7])]) = Inr [7]" by code_simp
  have quiet: "\<forall>l. \<forall>c \<in> set (others overtaken l). \<not> settles_request ''a'' 1 ''r1'' c" by (simp add: overtaken_def)
  have "leases (rt_store (snd ?run)) ''a'' = Some (''e1'', 2)" by code_simp
  then have "leases (rt_store t) ''a'' \<noteq> Some (''e0'', 1)" using run by simp
  note blocked = overtaken_turn_blocks_agent [OF run claim' gen out quiet this]
  then have "fst (claim_step 0 ''a'' 1 ''e1'' 2 ''r2'' (run_calls [] (rt_store t))) \<noteq> Inr ()" by (metis list.pred_inject(1))
  then show ?thesis using blocked run by auto
qed

theorem failed_turn_gives_step_back_witness:
  "\<exists>t. run_turn quiet_env [''e0''] ''a'' ''e0'' 1 1 [5] 16 ''r1'' None ready_to_commit =
     (Inl (EngineRequestError ''e0 /generate: ''), t) \<and>
     fst (claim_step 0 ''a'' 1 ''e0'' 1 ''r2'' (rt_store t)) = Inr ()"
proof -
  let ?s1 = "snd (claim_step 0 ''a'' 1 ''e0'' 1 ''r1'' (rt_store ready_to_commit))"
  have "fst (claim_step 0 ''a'' 1 ''e0'' 1 ''r1'' (rt_store ready_to_commit)) = Inr ()" by code_simp
  then have "claim_step (wall_clock quiet_env (rt_log ready_to_commit)) ''a'' 1 ''e0'' 1 ''r1'' (rt_store ready_to_commit) = (Inr (), ?s1)"
    by (simp add: quiet_env_def late_commit_def prod_eq_iff)
  moreover have "fst (generate_turn quiet_env [''e0''] ''e0'' [5] 16 ''r1'' (ready_to_commit\<lparr>rt_store := ?s1, rt_log := rt_log ready_to_commit @ [StoreTx]\<rparr>)) =
    Inl (EngineRequestError ''e0 /generate: '')"
    by code_simp
  ultimately show ?thesis
    using failed_turn_gives_step_back [OF quiet_env_alone(1) ready_store_ok, where now = 0 and rid' = "''r2''"] by blast
qed

end
