(* ===== verification/Tasks.thy ===== *)
theory Tasks
  imports Effects
begin

text \<open>
  What the coordinators use of \<open>asyncio\<close>: \<open>try\<close>/\<open>finally\<close> and \<open>except Exception\<close>, locks,
  \<open>gather\<close> with and without \<open>return_exceptions\<close>, and polling loops that wait for an engine
  under a deadline. The awaitables of a \<open>gather\<close> interleave as the environment picks; a
  polling loop takes fuel, one unit per turn of one of them, and \<open>waiting_ends\<close> shows how
  much is enough once the clock outlasts the deadline.
\<close>

section \<open>Handlers and locks\<close>

definition catching :: "('s, 'a) prog \<Rightarrow> (exn \<Rightarrow> ('s, 'a) prog) \<Rightarrow> ('s, 'a) prog" where
  "catching m h = try_except m (\<lambda>e. if e = Unfinished then throw e else h e)"

definition finally_do :: "('s, 'a) prog \<Rightarrow> ('s, unit) prog \<Rightarrow> ('s, 'a) prog" where
  "finally_do m f = bindP (catching m (\<lambda>e. thenP f (throw e))) (\<lambda>a. thenP f (ret a))"

fun mapP :: "('a \<Rightarrow> ('s, 'b) prog) \<Rightarrow> 'a list \<Rightarrow> ('s, 'b list) prog" where
  "mapP f [] = ret []"
| "mapP f (x # xs) = bindP (f x) (\<lambda>y. bindP (mapP f xs) (\<lambda>ys. ret (y # ys)))"

fun forP :: "('a \<Rightarrow> ('s, unit) prog) \<Rightarrow> 'a list \<Rightarrow> ('s, unit) prog" where
  "forP f [] = ret ()"
| "forP f (x # xs) = thenP (f x) (forP f xs)"

text \<open>Waiting for an \<open>asyncio.Lock\<close> lets the others run; releasing it does not.\<close>

definition acquire :: "env \<Rightarrow> string \<Rightarrow> (rt, unit) prog" where
  "acquire E l s = (Inr (), log_event (Acquired l) (interfere E s))"

definition release :: "string \<Rightarrow> (rt, unit) prog" where
  "release l s = (Inr (), log_event (Released l) s)"

definition with_lock :: "env \<Rightarrow> string \<Rightarrow> (rt, 'a) prog \<Rightarrow> (rt, 'a) prog" where
  "with_lock E l m = thenP (acquire E l) (finally_do m (release l))"

definition read_perf :: "env \<Rightarrow> (rt, seconds) prog" where
  "read_perf E s = (Inr (perf_counter E (rt_log s)), log_event PerfRead s)"

text \<open>\<open>self._inject_fault(point, migration_id)\<close>: the injector may raise.\<close>

definition fault_point :: "env \<Rightarrow> string \<Rightarrow> string \<Rightarrow> (rt, unit) prog" where
  "fault_point E point mid s =
     (case inject_fault E (rt_log s) point mid of
        None \<Rightarrow> (Inr (), log_event (Fault point mid) s)
      | Some e \<Rightarrow> (Inl e, log_event (Fault point mid) s))"

text \<open>\<open>await token_source\<close>\<close>

definition await_tokens :: "env \<Rightarrow> (rt, token list) prog" where
  "await_tokens E s = (awaited_tokens E (rt_log s), log_event AwaitedTokens (interfere E s))"

section \<open>\<open>gather\<close> of two calls\<close>

text \<open>
  The requests go out in argument order. Without \<open>return_exceptions\<close> the first failure
  raises; which of two comes first is the environment's.
\<close>

definition gather_two :: "env \<Rightarrow> (rt, 'a) prog \<Rightarrow> (rt, 'a) prog \<Rightarrow> (rt, 'a \<times> 'a) prog" where
  "gather_two E m n =
     bindP (attempt m) (\<lambda>r. bindP (attempt n) (\<lambda>q. bindP (getP (\<lambda>s. second_fails_first E (rt_log s))) (\<lambda>second.
       case (r, q) of
         (Inr a, Inr b) \<Rightarrow> ret (a, b)
       | (Inl e, Inr _) \<Rightarrow> throw e
       | (Inr _, Inl e) \<Rightarrow> throw e
       | (Inl e, Inl e') \<Rightarrow> throw (if second then e' else e))))"

text \<open>With \<open>return_exceptions=True\<close> and the results dropped.\<close>

definition gather_quietly :: "(rt, 'a) prog \<Rightarrow> (rt, 'a) prog \<Rightarrow> (rt, unit) prog" where
  "gather_quietly m n = thenP (attempt m) (thenP (attempt n) (ret ()))"

section \<open>Polling under a deadline\<close>

text \<open>
  One polling loop: what it asks, what an answer settles (\<open>None\<close>: ask again), what it raises
  at the deadline, how long it waits in all and between two questions.
\<close>

record poll_spec =
  ps_engine :: engine_id
  ps_call :: engine_call
  ps_verdict :: "json \<Rightarrow> (exn + json) option"
  ps_timeout :: exn
  ps_limit :: seconds
  ps_interval :: seconds

datatype waiter =
    NewWait poll_spec
  | Polling poll_spec seconds
  | NewCall engine_id engine_call
  | Settled "exn + json"

fun waiter_step :: "env \<Rightarrow> waiter \<Rightarrow> rt \<Rightarrow> waiter \<times> rt" where
  "waiter_step E (NewWait p) s = (Polling p (monotonic E (rt_log s) + ps_limit p), log_event ClockRead s)"
| "waiter_step E (NewCall e c) s = (case post E e c s of (r, t) \<Rightarrow> (Settled r, t))"
| "waiter_step E (Settled r) s = (Settled r, s)"
| "waiter_step E (Polling p deadline) s =
     (case post E (ps_engine p) (ps_call p) s of
        (Inl e, t) \<Rightarrow> (Settled (Inl e), t)
      | (Inr answer, t) \<Rightarrow> (case ps_verdict p answer of
            Some r \<Rightarrow> (Settled r, t)
          | None \<Rightarrow>
              let now = monotonic E (rt_log t); t = log_event ClockRead t in
              if deadline \<le> now then (Settled (Inl (ps_timeout p)), t)
              else (Polling p deadline, snd (sleep E (ps_interval p) t))))"

fun settled :: "waiter \<Rightarrow> bool" where
  "settled (Settled _) = True"
| "settled _ = False"

fun outcome_of :: "waiter \<Rightarrow> exn + json" where
  "outcome_of (Settled r) = r"
| "outcome_of _ = Inl Unfinished"

definition pending :: "waiter list \<Rightarrow> nat list" where
  "pending ws = filter (\<lambda>i. \<not> settled (ws ! i)) [0..<length ws]"

definition pick :: "env \<Rightarrow> waiter list \<Rightarrow> rt \<Rightarrow> nat" where
  "pick E ws s = pending ws ! (next_task E (rt_log s) mod length (pending ws))"

fun run_waiters :: "env \<Rightarrow> nat \<Rightarrow> waiter list \<Rightarrow> (rt, (exn + json) list) prog" where
  "run_waiters E 0 ws s =
     (if pending ws = [] then (Inr (map outcome_of ws), s) else (Inl Unfinished, s))"
| "run_waiters E (Suc n) ws s =
     (if pending ws = [] then (Inr (map outcome_of ws), s)
      else let i = pick E ws s; (w, t) = waiter_step E (ws ! i) s in run_waiters E n (ws[i := w]) t)"

text \<open>One loop alone, raising what it raises.\<close>

definition wait_for :: "env \<Rightarrow> nat \<Rightarrow> poll_spec \<Rightarrow> (rt, json) prog" where
  "wait_for E fuel p = bindP (run_waiters E fuel [NewWait p]) (\<lambda>rs. liftS (hd rs))"

section \<open>What an engine's status says\<close>

text \<open>\<open>result.get('message') or result.get('error') or 'unknown error'\<close> in an f-string.\<close>

definition error_text :: "env \<Rightarrow> json \<Rightarrow> string" where
  "error_text E result =
     (let m = jget_default ''message'' JNull result; e = jget_default ''error'' JNull result in
      if json_truthy m then show_value E m else if json_truthy e then show_value E e else ''unknown error'')"

text \<open>\<open>COMPLETE\<close> returns the status, \<open>FAILED\<close> raises, any other state keeps waiting.\<close>

definition until_complete :: "env \<Rightarrow> string \<Rightarrow> json \<Rightarrow> (exn + json) option" where
  "until_complete E what result =
     (case jfield ''state'' result of
        Inl e \<Rightarrow> Some (Inl e)
      | Inr st \<Rightarrow>
          if st = JStr ''COMPLETE'' then Some (Inr result)
          else if st = JStr ''FAILED'' then Some (Inl (RuntimeError (what @ '': '' @ error_text E result)))
          else None)"

text \<open>\<open>int(result[k])\<close> and \<open>float(result.get(k, 0.0))\<close>.\<close>

definition field_int :: "string \<Rightarrow> json \<Rightarrow> exn + int" where
  "field_int k result = (case jfield k result of Inl e \<Rightarrow> Inl e | Inr v \<Rightarrow> py_int v)"

definition field_float :: "string \<Rightarrow> json \<Rightarrow> exn + rat" where
  "field_float k result = (case jfield k result of Inl e \<Rightarrow> Inl e | Inr v \<Rightarrow> py_float v)"

definition get_float :: "string \<Rightarrow> json \<Rightarrow> exn + rat" where
  "get_float k result = py_float (jget_default k (JFloat 0) result)"

section \<open>What every step keeps\<close>

lemma steps_catching: "step_preorder R \<Longrightarrow> steps R m \<Longrightarrow> (\<And>e. steps R (h e)) \<Longrightarrow> steps R (catching m h)"
  unfolding catching_def by (intro step_preorder.steps_try_except) (simp_all add: step_preorder.steps_throw)

context step_preorder begin

lemma steps_finally_do: "steps R m \<Longrightarrow> steps R f \<Longrightarrow> steps R (finally_do m f)"
  unfolding finally_do_def catching_def by (intro steps_rules)

lemma steps_mapP: "(\<And>x. steps R (f x)) \<Longrightarrow> steps R (mapP f xs)"
  by (induction xs) (auto intro: steps_rules)

lemma steps_forP: "(\<And>x. steps R (f x)) \<Longrightarrow> steps R (forP f xs)"
  by (induction xs) (auto intro: steps_rules)

lemma steps_catch: "steps R m \<Longrightarrow> (\<And>e. steps R (h e)) \<Longrightarrow> steps R (catching m h)"
  unfolding catching_def by (intro steps_rules)

end

text \<open>
  A guarantee over the runtime that interference and every event keep is kept by whole
  awaiting programs.
\<close>

locale awaiting = step_preorder R for R :: "rt \<Rightarrow> rt \<Rightarrow> bool" +
  fixes E :: env
  assumes interfere_R: "R s (interfere E s)"
    and log_R: "R s (log_event ev s)"
begin

lemma R_log_interfere: "R s (log_event ev (interfere E s))"
  by (rule trans_R [OF interfere_R log_R])

lemma steps_awaits:
  "steps R (post E e c)" "steps R (read_clock E)" "steps R (sleep E d)" "steps R (uuid4_hex E)"
  "steps R (acquire E l)" "steps R (release l)" "steps R (read_perf E)" "steps R (fault_point E pt mid)"
  "steps R (await_tokens E)"
  by (rule stepsI; simp add: post_def read_clock_def sleep_def uuid4_hex_def acquire_def release_def
      read_perf_def fault_point_def await_tokens_def R_log_interfere log_R split: option.splits)+

lemma steps_with_lock: "steps R m \<Longrightarrow> steps R (with_lock E l m)"
  unfolding with_lock_def by (intro steps_rules steps_finally_do steps_awaits)

lemma steps_gather_two: "steps R m \<Longrightarrow> steps R n \<Longrightarrow> steps R (gather_two E m n)"
  unfolding gather_two_def by (intro steps_rules)

lemma steps_gather_quietly: "steps R m \<Longrightarrow> steps R n \<Longrightarrow> steps R (gather_quietly m n)"
  unfolding gather_quietly_def by (intro steps_rules)

lemma R_waiter_step: "R s (snd (waiter_step E w s))"
proof (cases w)
  case (Polling p d)
  obtain r t where post: "post E (ps_engine p) (ps_call p) s = (r, t)"
    by (cases "post E (ps_engine p) (ps_call p) s")
  have st: "R s t" using post by (rule stepsD [OF steps_awaits(1)])
  have tl: "R s (log_event ClockRead t)" by (rule trans_R [OF st log_R])
  have "R s (snd (sleep E (ps_interval p) (log_event ClockRead t)))"
    using tl steps_awaits(3) by (auto simp: steps_def intro: trans_R)
  then show ?thesis using post st tl Polling by (auto simp: Let_def split: sum.splits option.splits)
next
  case (NewCall e c)
  then show ?thesis using steps_awaits(1) by (auto simp: steps_def split: prod.splits) (metis snd_conv)
qed (simp_all add: refl_R log_R)

lemma steps_run_waiters: "steps R (run_waiters E n ws)"
proof (rule stepsI)
  fix s
  show "R s (snd (run_waiters E n ws s))"
  proof (induction n arbitrary: ws s)
    case (Suc n)
    have "R s (snd (run_waiters E n (ws[pick E ws s := w]) t))" if "waiter_step E (ws ! pick E ws s) s = (w, t)" for w t
      using Suc.IH R_waiter_step [of s "ws ! pick E ws s"] that by (auto intro: trans_R)
    then show ?case by (auto simp: refl_R Let_def split: prod.splits)
  qed (simp add: refl_R)
qed

lemma steps_wait_for: "steps R (wait_for E n p)"
  unfolding wait_for_def by (intro steps_rules steps_run_waiters)

lemmas awaiting_rules = steps_rules steps_finally_do steps_mapP steps_forP steps_catch steps_awaits
  steps_with_lock steps_gather_two steps_gather_quietly steps_run_waiters steps_wait_for

end

interpretation rt_awaits: awaiting rt_le E for E
  by unfold_locales (rule rt_le_interfere rt_le_log_event)+

text \<open>A guarantee that changes to the table of transfer groups keep as well.\<close>

locale engine_traffic = awaiting R E for R :: "rt \<Rightarrow> rt \<Rightarrow> bool" and E :: env +
  assumes groups_R: "R s (s\<lparr>rt_groups := g\<rparr>)"
begin

lemma steps_set_groups: "steps R (modifyP (\<lambda>s. s\<lparr>rt_groups := f s\<rparr>))"
  by (rule stepsI) (simp add: modifyP_def groups_R)

end

interpretation rt_traffic: engine_traffic rt_le E for E
  by unfold_locales (simp add: rt_le_def store_moves.refl_R)

section \<open>How much fuel is enough\<close>

definition sleeps :: "event list \<Rightarrow> nat" where
  "sleeps l = length (filter (\<lambda>ev. case ev of Slept _ \<Rightarrow> True | _ \<Rightarrow> False) l)"

lemma sleeps_append [simp]: "sleeps (l @ m) = sleeps l + sleeps m"
  by (simp add: sleeps_def)

text \<open>The clock outlasts a limit: after enough sleeps more time than the limit has passed.\<close>

definition clock_outlasts :: "env \<Rightarrow> seconds \<Rightarrow> nat \<Rightarrow> bool" where
  "clock_outlasts E limit n \<longleftrightarrow> (\<forall>l m. n \<le> sleeps m \<longrightarrow> monotonic E l + limit \<le> monotonic E (l @ m))"

fun initial :: "seconds \<Rightarrow> waiter \<Rightarrow> bool" where
  "initial limit (NewWait p) = (ps_limit p \<le> limit)"
| "initial limit (Polling p d) = False"
| "initial limit _ = True"

text \<open>Turns a waiter may still take: one per sleep until its deadline, and two.\<close>

fun fits :: "env \<Rightarrow> seconds \<Rightarrow> nat \<Rightarrow> rt \<Rightarrow> waiter \<Rightarrow> nat \<Rightarrow> bool" where
  "fits E limit n s (NewWait p) b = (ps_limit p \<le> limit \<and> n + 2 \<le> b)"
| "fits E limit n s (Polling p d) b =
     (0 < b \<and> (\<exists>l m. rt_log s = l @ m \<and> d \<le> monotonic E l + limit \<and> n + 1 \<le> b + sleeps m))"
| "fits E limit n s (NewCall e c) b = (0 < b)"
| "fits E limit n s (Settled r) b = True"

lemma fits_later:
  assumes "fits E limit n s w b" and "\<exists>more. rt_log t = rt_log s @ more"
  shows "fits E limit n t w b"
proof (cases w)
  case (Polling p d)
  obtain more where more: "rt_log t = rt_log s @ more" using assms(2) by blast
  from assms(1) Polling obtain l m where lm: "rt_log s = l @ m" "d \<le> monotonic E l + limit" "n + 1 \<le> b + sleeps m" "0 < b"
    by auto
  then have "rt_log t = l @ (m @ more)" "n + 1 \<le> b + sleeps (m @ more)" using more by simp_all
  then show ?thesis unfolding Polling fits.simps using lm(2,4) by blast
qed (use assms in auto)

lemma waiter_step_log: "\<exists>more. rt_log (snd (waiter_step E w s)) = rt_log s @ more"
  using rt_awaits.R_waiter_step [of s E w] by (simp add: rt_le_def)

lemma post_log: "post E e c s = (r, t) \<Longrightarrow> rt_log t = rt_log s @ [Posted e c]"
  by (auto simp: post_def log_event_def interfere_def)

lemma fits_step:
  assumes clock: "clock_outlasts E limit n" and fit: "fits E limit n s w b" and go: "\<not> settled w"
    and step: "waiter_step E w s = (w', t)"
  shows "0 < b \<and> fits E limit n t w' (b - 1)"
proof (cases w)
  case (NewWait p)
  then have t: "w' = Polling p (monotonic E (rt_log s) + ps_limit p)" "rt_log t = rt_log s @ [ClockRead]"
    using step by (auto simp: log_event_def)
  have "\<exists>l m. rt_log t = l @ m \<and> monotonic E (rt_log s) + ps_limit p \<le> monotonic E l + limit \<and> n + 1 \<le> b - 1 + sleeps m"
    using t fit NewWait by (intro exI [of _ "rt_log s"] exI [of _ "[ClockRead]"]) auto
  then show ?thesis using t fit NewWait by auto
next
  case (Polling p d)
  from fit Polling obtain l m where lm: "rt_log s = l @ m" "d \<le> monotonic E l + limit" "n + 1 \<le> b + sleeps m" "0 < b"
    by auto
  obtain r u where post: "post E (ps_engine p) (ps_call p) s = (r, u)"
    by (cases "post E (ps_engine p) (ps_call p) s")
  have u: "rt_log u = l @ m @ [Posted (ps_engine p) (ps_call p)]" using post_log [OF post] lm by simp
  show ?thesis
  proof (cases "\<exists>x. w' = Settled x")
    case True
    then show ?thesis using lm by auto
  next
    case False
    then have w': "w' = Polling p d" and late: "\<not> d \<le> monotonic E (rt_log u)"
      and t: "t = snd (sleep E (ps_interval p) (log_event ClockRead u))"
      using step post Polling by (auto simp: Let_def split: sum.splits option.splits if_splits)
    have logt: "rt_log t = l @ (m @ [Posted (ps_engine p) (ps_call p), ClockRead, Slept (ps_interval p)])"
      using t u by (simp add: sleep_def log_event_def interfere_def)
    have "\<not> n \<le> sleeps (m @ [Posted (ps_engine p) (ps_call p)])"
    proof
      assume "n \<le> sleeps (m @ [Posted (ps_engine p) (ps_call p)])"
      then have "monotonic E l + limit \<le> monotonic E (rt_log u)"
        using clock [unfolded clock_outlasts_def, rule_format, of "m @ [Posted (ps_engine p) (ps_call p)]" l] u by simp
      then show False using late lm(2) by simp
    qed
    then have "sleeps m < n" by (simp add: sleeps_def)
    then have "0 < b - 1" "n + 1 \<le> b - 1 + sleeps (m @ [Posted (ps_engine p) (ps_call p), ClockRead, Slept (ps_interval p)])"
      using lm(3) by (simp_all add: sleeps_def)
    then show ?thesis unfolding w' fits.simps using logt lm(2) by (intro conjI) (simp, simp, blast)
  qed
qed (use assms in \<open>auto split: prod.splits\<close>)

lemma pick_pending:
  assumes "pending ws \<noteq> []"
  shows "pick E ws s < length ws" and "\<not> settled (ws ! pick E ws s)"
proof -
  have "pick E ws s \<in> set (pending ws)"
    unfolding pick_def using assms by (intro nth_mem) simp
  then show "pick E ws s < length ws" "\<not> settled (ws ! pick E ws s)" by (auto simp: pending_def)
qed

lemma run_waiters_enough:
  assumes clock: "clock_outlasts E limit n"
  shows "length bs = length ws \<Longrightarrow> \<forall>i < length ws. fits E limit n s (ws ! i) (bs ! i) \<Longrightarrow> sum_list bs \<le> fuel \<Longrightarrow>
    \<exists>rs t. run_waiters E fuel ws s = (Inr rs, t) \<and> length rs = length ws"
proof (induction fuel arbitrary: ws bs s)
  case 0
  have "pending ws = []"
  proof (rule ccontr)
    assume ne: "pending ws \<noteq> []"
    let ?i = "pick E ws s"
    note i = pick_pending [OF ne, of E s]
    have "0 < bs ! ?i" using 0(2) i by (cases "ws ! ?i") auto
    moreover have "bs ! ?i \<le> sum_list bs" using i 0(1) by (intro elem_le_sum_list) simp
    ultimately show False using 0(3) by simp
  qed
  then show ?case by simp
next
  case (Suc fuel)
  show ?case
  proof (cases "pending ws = []")
    case False
    let ?i = "pick E ws s"
    note i = pick_pending [OF False, of E s]
    obtain w t where wt: "waiter_step E (ws ! ?i) s = (w, t)" by (cases "waiter_step E (ws ! ?i) s")
    have fit: "0 < bs ! ?i \<and> fits E limit n t w (bs ! ?i - 1)"
      by (rule fits_step [OF clock _ i(2) wt]) (use Suc.prems i in auto)
    have log: "\<exists>more. rt_log t = rt_log s @ more" using waiter_step_log [of E "ws ! ?i" s] wt by simp
    let ?bs = "bs[?i := bs ! ?i - 1]"
    have "\<forall>j < length (ws[?i := w]). fits E limit n t (ws[?i := w] ! j) (?bs ! j)"
    proof (intro allI impI)
      fix j
      assume j: "j < length (ws[?i := w])"
      show "fits E limit n t (ws[?i := w] ! j) (?bs ! j)"
      proof (cases "j = ?i")
        case True
        then show ?thesis using fit i(1) Suc.prems(1) by simp
      next
        case False
        then show ?thesis using Suc.prems(2) j fits_later [OF _ log] by simp
      qed
    qed
    moreover have "sum_list ?bs \<le> fuel"
      using Suc.prems i fit by (simp add: sum_list_update)
    ultimately have "\<exists>rs u. run_waiters E fuel (ws[?i := w]) t = (Inr rs, u) \<and> length rs = length (ws[?i := w])"
      by (intro Suc.IH [of ?bs]) (use Suc.prems in auto)
    then show ?thesis using False wt by (simp add: Let_def)
  qed simp
qed

text \<open>
  C18. Waiting ends: when the clock outlasts the limit after \<open>n\<close> sleeps, polling loops with
  deadlines within that limit settle, in any interleaving and whatever the engines answer,
  within \<open>n + 2\<close> turns each; every one ends with an answer or an exception of its own.
\<close>

theorem waiting_ends:
  assumes "clock_outlasts E limit n" and "\<forall>w \<in> set ws. initial limit w" and "length ws * (n + 2) \<le> fuel"
  shows "\<exists>rs t. run_waiters E fuel ws s = (Inr rs, t) \<and> length rs = length ws"
proof (rule run_waiters_enough [OF assms(1)])
  show "\<forall>i < length ws. fits E limit n s (ws ! i) (replicate (length ws) (n + 2) ! i)"
  proof (intro allI impI)
    fix i
    assume "i < length ws"
    then have "initial limit (ws ! i)" using assms(2) by auto
    then show "fits E limit n s (ws ! i) (replicate (length ws) (n + 2) ! i)"
      using \<open>i < length ws\<close> by (cases "ws ! i") auto
  qed
qed (use assms(3) in \<open>simp_all add: sum_list_replicate\<close>)

text \<open>A clock that advances by one second per sleep, and an engine that never finishes.\<close>

definition stalled :: env where
  "stalled = quiet_env\<lparr>monotonic := (\<lambda>l. rat_of_nat (sleeps l)),
     transport := (\<lambda>_ _ _. Body (JObj [(''success'', JBool True), (''state'', JStr ''RUNNING'')]))\<rparr>"

definition stalled_wait :: poll_spec where
  "stalled_wait = \<lparr>ps_engine = ''e0'', ps_call = TransferStatus ''m'', ps_verdict = (\<lambda>_. None),
     ps_timeout = TimeoutError ''transfer timed out: m'', ps_limit = 2, ps_interval = 1\<rparr>"

theorem waiting_ends_witness:
  "\<exists>rs t. run_waiters stalled 8 [NewWait stalled_wait, NewWait stalled_wait] ready_to_commit = (Inr rs, t) \<and>
     length rs = 2"
proof -
  have "clock_outlasts stalled 2 2" by (auto simp: clock_outlasts_def stalled_def)
  from waiting_ends [OF this, of "[NewWait stalled_wait, NewWait stalled_wait]" 8 ready_to_commit]
  show ?thesis by (simp add: stalled_wait_def numeral_2_eq_2)
qed

end
