(* ===== verification/Handover.thy ===== *)
theory Handover
  imports Tasks
begin

text \<open>
  What the three migration coordinators share: a migration record goes from
  \<open>PREPARING\<close> over \<open>COPYING\<close> to \<open>DEST_READY\<close>, the commit moves the lease, and a failure
  before that leaves it. The lemmas are triples over programs of the runtime, in two
  settings: among arbitrary interference, and alone.
\<close>

section \<open>The shared failure handler\<close>

text \<open>\<open>except Exception\<close>: a migration that has not reached \<open>DEST_READY\<close> is aborted.\<close>

definition abort_unfinished :: "env \<Rightarrow> string \<Rightarrow> exn \<Rightarrow> (rt, 'a) prog" where
  "abort_unfinished E mid e =
     bindP (db E (\<lambda>_. get_migration mid)) (\<lambda>current.
     thenP (whenP (mr_state current \<in> {PREPARING, COPYING})
              (db E (\<lambda>t. transition_migration t mid (mr_state current) ABORTED
                 (no_fields\<lparr>tf_error := Some (exn_str e)\<rparr>))))
           (throw e))"

section \<open>Triples\<close>

text \<open>From a state with \<open>P\<close>, a return satisfies \<open>Q\<close> and a raise satisfies \<open>F\<close>.\<close>

definition triple :: "('s \<Rightarrow> bool) \<Rightarrow> ('s, 'a) prog \<Rightarrow> ('a \<Rightarrow> 's \<Rightarrow> bool) \<Rightarrow> (exn \<Rightarrow> 's \<Rightarrow> bool) \<Rightarrow> bool" where
  "triple P m Q F \<longleftrightarrow> (\<forall>s. P s \<longrightarrow> (case m s of (Inl e, t) \<Rightarrow> F e t | (Inr a, t) \<Rightarrow> Q a t))"

lemma tripleI:
  assumes "\<And>s a t. P s \<Longrightarrow> m s = (Inr a, t) \<Longrightarrow> Q a t" and "\<And>s e t. P s \<Longrightarrow> m s = (Inl e, t) \<Longrightarrow> F e t"
  shows "triple P m Q F"
  using assms by (auto simp: triple_def split: prod.splits sum.splits)

lemma triple_returns: "triple P m Q F \<Longrightarrow> P s \<Longrightarrow> m s = (Inr a, t) \<Longrightarrow> Q a t"
  by (fastforce simp: triple_def)

lemma triple_raises: "triple P m Q F \<Longrightarrow> P s \<Longrightarrow> m s = (Inl e, t) \<Longrightarrow> F e t"
  by (fastforce simp: triple_def)

lemma triple_conseq:
  assumes "triple P m Q F" and "\<And>s. P' s \<Longrightarrow> P s" and "\<And>a s. Q a s \<Longrightarrow> Q' a s" and "\<And>e s. F e s \<Longrightarrow> F' e s"
  shows "triple P' m Q' F'"
  using assms triple_returns [OF assms(1)] triple_raises [OF assms(1)] by (intro tripleI) blast+

lemma triple_disj: "triple P m Q F \<Longrightarrow> triple P' m Q F \<Longrightarrow> triple (\<lambda>s. P s \<or> P' s) m Q F"
  by (auto simp: triple_def)

lemma triple_safe: "triple P m Q (\<lambda>_ _. False) \<Longrightarrow> triple P m Q F"
  by (erule triple_conseq) auto

lemma triple_bind:
  assumes "triple P m R F" and "\<And>a. triple (R a) (f a) Q F"
  shows "triple P (bindP m f) Q F"
proof (rule tripleI)
  fix s a t
  assume "P s" and "bindP m f s = (Inr a, t)"
  then show "Q a t" using triple_returns [OF assms(1)] triple_returns [OF assms(2)] by (elim bindP_InrE) blast
next
  fix s e t
  assume "P s" and "bindP m f s = (Inl e, t)"
  then show "F e t"
    using triple_raises [OF assms(1)] triple_returns [OF assms(1)] triple_raises [OF assms(2)]
    by (elim bindP_InlE) blast+
qed

lemma triple_then: "triple P m (\<lambda>_. R) F \<Longrightarrow> triple R n Q F \<Longrightarrow> triple P (thenP m n) Q F"
  unfolding thenP_def by (rule triple_bind)

lemma triple_pure:
  "(\<And>s. P s \<Longrightarrow> Q a s) \<Longrightarrow> triple P (ret a) Q F"
  "(\<And>s. P s \<Longrightarrow> F e s) \<Longrightarrow> triple P (throw e) Q F"
  "(\<And>s. P s \<Longrightarrow> Q (f s) s) \<Longrightarrow> triple P (getP f) Q F"
  by (auto intro!: tripleI simp: ret_def throw_def getP_def)

lemma triple_guard: "(\<And>s. P s \<Longrightarrow> b \<Longrightarrow> Q s) \<Longrightarrow> (\<And>s. P s \<Longrightarrow> \<not> b \<Longrightarrow> F e s) \<Longrightarrow> triple P (guardP b e) (\<lambda>_. Q) F"
  by (auto intro!: tripleI simp: guardP_def ret_def throw_def split: if_splits)

lemma triple_lift: "(\<And>s a. P s \<Longrightarrow> r = Inr a \<Longrightarrow> Q a s) \<Longrightarrow> (\<And>s e. P s \<Longrightarrow> r = Inl e \<Longrightarrow> F e s) \<Longrightarrow> triple P (liftS r) Q F"
  by (auto intro!: tripleI simp: liftS_def)

lemma triple_catching:
  assumes "triple P m Q F" and "\<And>e. triple (F e) (h e) Q F'" and "\<And>s. F Unfinished s \<Longrightarrow> F' Unfinished s"
  shows "triple P (catching m h) Q F'"
proof -
  have h: "triple (F e) (if e = Unfinished then throw e else h e) Q F'" for e
    using assms(2,3) by (auto intro: triple_pure)
  show ?thesis
  proof (rule tripleI)
    fix s a t
    assume "P s" and "catching m h s = (Inr a, t)"
    then show "Q a t"
      using triple_returns [OF assms(1)] triple_raises [OF assms(1)] triple_returns [OF h]
      unfolding catching_def try_except_def by (cases "m s"; cases "fst (m s)") fastforce+
  next
    fix s e t
    assume "P s" and "catching m h s = (Inl e, t)"
    then show "F' e t"
      using triple_raises [OF assms(1)] triple_raises [OF h]
      unfolding catching_def try_except_def by (cases "m s"; cases "fst (m s)") fastforce+
  qed
qed

lemma triple_steps:
  assumes "steps R m" and "\<And>s t. R s t \<Longrightarrow> P s \<Longrightarrow> P t"
  shows "triple P m (\<lambda>_. P) (\<lambda>_. P)"
  using assms by (auto intro!: tripleI dest: stepsD)

text \<open>A raise of which nothing is asked.\<close>

lemma triple_steps_any:
  assumes "steps R m" and "\<And>s t. R s t \<Longrightarrow> P s \<Longrightarrow> P t"
  shows "triple P m (\<lambda>_. P) (\<lambda>_ _. True)"
  by (rule triple_conseq [OF triple_steps [OF assms]]) auto

lemma triple_finally:
  assumes "triple P m Q F" and "\<And>a. triple (Q a) f (\<lambda>_. Q a) F" and "\<And>e. triple (F e) f (\<lambda>_. F e) F"
  shows "triple P (finally_do m f) Q F"
  unfolding finally_do_def
proof (rule triple_bind [where R = Q])
  show "triple P (catching m (\<lambda>e. thenP f (throw e))) Q F"
    by (rule triple_catching [OF assms(1)]) (rule triple_then [OF assms(3)], rule triple_pure, assumption)
  show "triple (Q a) (thenP f (ret a)) Q F" for a
    by (rule triple_then [OF assms(2)], rule triple_pure)
qed

section \<open>Among interference\<close>

definition migration_of :: "string \<Rightarrow> agent_id \<Rightarrow> engine_id \<Rightarrow> engine_id \<Rightarrow> int \<Rightarrow> ('a) migration_record_scheme \<Rightarrow> bool" where
  "migration_of mid a src dst n m \<longleftrightarrow> mr_migration_id m = mid \<and> mr_agent_id m = a \<and> mr_source_engine m = src \<and>
     mr_destination_engine m = dst \<and> mr_source_epoch m = n"

definition published :: "store \<Rightarrow> string \<Rightarrow> agent_id \<Rightarrow> engine_id \<Rightarrow> engine_id \<Rightarrow> int \<Rightarrow> rt \<Rightarrow> bool" where
  "published S mid a src dst n s \<longleftrightarrow> store_le S (rt_store s) \<and>
     (\<exists>m. sel mr_migration_id mid (migrations (rt_store s)) = Some m \<and> migration_of mid a src dst n m)"

text \<open>The lease moved, and the record says so.\<close>

definition handed_over :: "string \<Rightarrow> agent_id \<Rightarrow> engine_id \<Rightarrow> engine_id \<Rightarrow> int \<Rightarrow> rt \<Rightarrow> bool" where
  "handed_over mid a src dst n s \<longleftrightarrow>
     leases (rt_store s) a = Some (dst, n + 1) \<and>
     (\<exists>m. sel mr_migration_id mid (migrations (rt_store s)) = Some m \<and> migration_of mid a src dst n m \<and>
        mr_state m = COMMITTED)"

text \<open>
  Since the store was \<open>S\<close>, a commit transaction of the migration took the lease from the
  source at epoch \<open>n\<close> to the destination at the next, and the store went on from there.
\<close>

definition moved :: "store \<Rightarrow> string \<Rightarrow> agent_id \<Rightarrow> engine_id \<Rightarrow> engine_id \<Rightarrow> int \<Rightarrow> rt \<Rightarrow> bool" where
  "moved S mid a src dst n s \<longleftrightarrow>
     (\<exists>now u v. store_le S u \<and> leases u a = Some (src, n) \<and> commit_migration_tx now mid u = (Inr a, v) \<and>
        leases v a = Some (dst, n + 1) \<and>
        (\<exists>m. sel mr_migration_id mid (migrations v) = Some m \<and> migration_of mid a src dst n m \<and> mr_state m = COMMITTED) \<and>
        store_le v (rt_store s))"

text \<open>
  What the continuation read after a commit says: the lease of that later moment, which is
  the next epoch at the destination or a later one, and from which the store went on.
\<close>

definition reads_lease :: "agent_id \<Rightarrow> engine_id \<Rightarrow> int \<Rightarrow> agent_continuation \<Rightarrow> rt \<Rightarrow> bool" where
  "reads_lease a dst n c s \<longleftrightarrow> ac_agent_id c = a \<and> n + 1 \<le> ac_owner_epoch c \<and>
     (ac_owner_epoch c = n + 1 \<longrightarrow> ac_owner_engine c = dst) \<and>
     (\<exists>e k. leases (rt_store s) a = Some (e, k) \<and> ac_owner_epoch c \<le> k \<and>
        (k = ac_owner_epoch c \<longrightarrow> e = ac_owner_engine c))"

lemma new_migration_row:
  "migration_of mid a src dst n (migration_row_of now (new_migration_record mid a src dst n st))"
  "mr_state (migration_row_of now (new_migration_record mid a src dst n st)) = st"
  by (simp_all add: migration_of_def migration_row_of_def new_migration_record_def)

lemma published_moves:
  assumes "rt_le s t" and "published S mid a src dst n s"
  shows "published S mid a src dst n t"
proof -
  obtain m where m: "sel mr_migration_id mid (migrations (rt_store s)) = Some m" "migration_of mid a src dst n m"
    using assms(2) by (auto simp: published_def)
  have "table_le migration_le mr_migration_id (migrations (rt_store s)) (migrations (rt_store t))"
    using assms(1) by (simp add: rt_le_def store_le_def)
  from table_leD [OF this m(1)] obtain q where
    q: "sel mr_migration_id mid (migrations (rt_store t)) = Some q" "migration_le m q" by blast
  then have "migration_of mid a src dst n q"
    using m(2) sel_key [OF q(1)] by (simp add: migration_of_def migration_le_def)
  moreover have "store_le S (rt_store t)"
    using assms store_moves.trans_R by (auto simp: rt_le_def published_def)
  ultimately show ?thesis using q(1) by (auto simp: published_def)
qed

lemma triple_published:
  "steps rt_le m \<Longrightarrow> triple (published S mid a src dst n) m (\<lambda>_. published S mid a src dst n) (\<lambda>_ _. True)"
  by (rule triple_steps_any [where R = rt_le]) (auto intro: published_moves)

text \<open>Everything of a run lies after its start.\<close>

definition since :: "store \<Rightarrow> rt \<Rightarrow> bool" where
  "since S s \<longleftrightarrow> store_le S (rt_store s)"

lemma since_later: "rt_le s t \<Longrightarrow> since S s \<Longrightarrow> since S t"
  unfolding since_def rt_le_def using store_moves.trans_R by blast

lemma since_start: "since (rt_store s) s"
  by (simp add: since_def store_moves.refl_R)

lemma triple_since: "steps rt_le m \<Longrightarrow> triple (since S) m (\<lambda>_. since S) (\<lambda>_ _. True)"
  by (rule triple_steps_any [where R = rt_le]) (auto intro: since_later)

lemma start_publishes:
  "triple (since S) (db_start_migration E (new_migration_record mid a src dst n st))
     (\<lambda>_. published S mid a src dst n) (\<lambda>_ _. True)"
proof (rule tripleI)
  fix s t u
  assume S: "since S s" and run: "db_start_migration E (new_migration_record mid a src dst n st) s = (Inr u, t)"
  from run obtain s1 where "db E (\<lambda>now. insert_migration now (new_migration_record mid a src dst n st)) s1 = (Inr u, t)"
    unfolding db_start_migration_def thenP_def by (elim bindP_InrE)
  then obtain now s2 where "insert_migration now (new_migration_record mid a src dst n st) s2 = (Inr u, rt_store t)"
    using db_result(1) by blast
  then have "sel mr_migration_id mid (migrations (rt_store t)) =
      Some (migration_row_of now (new_migration_record mid a src dst n st))"
    using new_migration_row(1) [of mid a src dst n now st]
    by (auto elim!: insert_migration_ok simp: migration_tab.select_insert migration_of_def)
  moreover have "since S t" using triple_returns [OF triple_since [OF steps_db_start_migration] S run] .
  ultimately show "published S mid a src dst n t"
    using new_migration_row(1) by (auto simp: published_def since_def)
qed simp

lemma triple_get_agent:
  "triple (since S) (db E (\<lambda>_. get_agent a)) (\<lambda>c s. since S s \<and> ac_agent_id c = a) (\<lambda>_ _. True)"
proof (rule tripleI)
  fix s c t
  assume S: "since S s" and run: "db E (\<lambda>_. get_agent a) s = (Inr c, t)"
  have "since S t" using triple_returns [OF triple_since [OF steps_db] S run] keeps_reads(1) by blast
  moreover have "ac_agent_id c = a" using db_result(1) [OF run] by (auto elim!: get_agent_ok dest: sel_key)
  ultimately show "since S t \<and> ac_agent_id c = a" ..
qed simp

lemma moved_later: "rt_le s t \<Longrightarrow> moved S mid a src dst n s \<Longrightarrow> moved S mid a src dst n t"
  unfolding moved_def rt_le_def using store_moves.trans_R by blast

lemma triple_moved: "steps rt_le m \<Longrightarrow> triple (moved S mid a src dst n) m (\<lambda>_. moved S mid a src dst n) (\<lambda>_ _. True)"
  by (rule triple_steps_any [where R = rt_le]) (auto intro: moved_later)

lemma moved_moment:
  "moved S mid a src dst n s \<Longrightarrow>
    \<exists>u v. store_le S u \<and> leases u a = Some (src, n) \<and> (\<exists>now. commit_migration_tx now mid u = (Inr a, v)) \<and>
      leases v a = Some (dst, n + 1) \<and>
      (\<exists>m. sel mr_migration_id mid (migrations v) = Some m \<and> mr_state m = COMMITTED \<and> migration_of mid a src dst n m) \<and>
      store_le v (rt_store s)"
  unfolding moved_def by blast

lemma moved_lease:
  assumes "moved S mid a src dst n s"
  obtains e k where "leases (rt_store s) a = Some (e, k)" and "n + 1 \<le> k" and "k = n + 1 \<longrightarrow> e = dst"
proof -
  obtain v where v: "leases v a = Some (dst, n + 1)" "store_le v (rt_store s)" using assms unfolding moved_def by blast
  show thesis by (rule leases_step [OF v(2,1)]) (rule that, assumption+, blast)
qed

lemma reads_lease_later:
  assumes "rt_le s t" and "reads_lease a dst n c s"
  shows "reads_lease a dst n c t"
proof -
  obtain e k where l: "leases (rt_store s) a = Some (e, k)" "ac_owner_epoch c \<le> k" "k = ac_owner_epoch c \<longrightarrow> e = ac_owner_engine c"
    and c: "ac_agent_id c = a" "n + 1 \<le> ac_owner_epoch c" "ac_owner_epoch c = n + 1 \<longrightarrow> ac_owner_engine c = dst"
    using assms(2) unfolding reads_lease_def by blast
  moreover obtain e' k' where "leases (rt_store t) a = Some (e', k')" "k \<le> k'" "k = k' \<longrightarrow> e = e'"
    using leases_step [OF _ l(1)] assms(1) unfolding rt_le_def by metis
  ultimately show ?thesis unfolding reads_lease_def by force
qed

lemma commit_tx_hands_over:
  assumes tx: "commit_migration_tx now mid u = (Inr b, v)"
    and m: "sel mr_migration_id mid (migrations u) = Some m" "migration_of mid a src dst n m"
  shows "b = a" and "leases u a = Some (src, n)" and "handed_over mid a src dst n (t\<lparr>rt_store := v\<rparr>)"
proof -
  from tx m obtain r where b: "b = a" and r: "sel ac_agent_id a (agents u) = Some r" "ac_owner_engine r = src" "ac_owner_epoch r = n"
    and up: "update_migration mid (\<lambda>r. r\<lparr>mr_state := COMMITTED, mg_updated_at := now\<rparr>)
      (u\<lparr>agents := update_owner now a dst (n + 1) (agents u)\<rparr>) = Inr v"
    by (elim commit_migration_tx_ok) (auto simp: migration_of_def)
  note v = update_migration_ok(1) [OF up]
  have "sel ac_agent_id a (agents v) = Some (r\<lparr>ac_owner_engine := dst, ac_owner_epoch := n + 1, ag_updated_at := now\<rparr>)"
    using r by (simp add: v sel_update_owner)
  moreover have "sel mr_migration_id mid (migrations v) = Some (m\<lparr>mr_state := COMMITTED, mg_updated_at := now\<rparr>)"
    using m by (simp add: v migration_tab.update_by_key)
  ultimately show "b = a" "leases u a = Some (src, n)" "handed_over mid a src dst n (t\<lparr>rt_store := v\<rparr>)"
    using b r m(2) by (auto simp: handed_over_def leases_def migration_of_def)
qed

text \<open>
  The commit among interference: the transaction moved the lease by one epoch, and the
  continuation is the one read after it, which a task in between may have moved on.
\<close>

lemma commit_hands_over:
  "triple (published S mid a src dst n) (db_commit_migration E mid)
     (\<lambda>c s. moved S mid a src dst n s \<and> reads_lease a dst n c s \<and> (alone E \<longrightarrow> handed_over mid a src dst n s))
     (\<lambda>_ _. True)"
proof (rule tripleI)
  fix s c t
  assume pub: "published S mid a src dst n s" and call: "db_commit_migration E mid s = (Inr c, t)"
  from call obtain b s1 where tx: "db E (\<lambda>now. commit_migration_tx now mid) s = (Inr b, s1)"
    and get: "db E (\<lambda>_. get_agent b) s1 = (Inr c, t)"
    unfolding db_commit_migration_def by (rule bindP_InrE)
  let ?u = "rt_store (interfere E s)"
  from published_moves [OF rt_le_interfere pub] obtain m where S: "store_le S ?u"
    and m: "sel mr_migration_id mid (migrations ?u) = Some m" "migration_of mid a src dst n m"
    by (auto simp: published_def)
  note done_tx = commit_tx_hands_over [OF db_result(1) [OF tx] m]
  have over: "handed_over mid a src dst n s1" using done_tx(3) [of s1] by simp
  have later: "rt_le s1 t" using stepsD [OF steps_db get] keeps_reads(1) by blast
  have "moved S mid a src dst n t"
    using S done_tx(1,2) db_result(1) [OF tx] over later unfolding moved_def handed_over_def rt_le_def by blast
  moreover from this have "reads_lease a dst n c t"
  proof (rule moved_lease)
    fix e k
    assume "leases (rt_store t) a = Some (e, k)" "n + 1 \<le> k" "k = n + 1 \<longrightarrow> e = dst"
    then show "reads_lease a dst n c t"
      using db_result(1) [OF get] done_tx(1) by (auto elim!: get_agent_ok simp: reads_lease_def leases_def dest: sel_key)
  qed
  moreover have "handed_over mid a src dst n t" if "alone E"
  proof -
    have "rt_store t = rt_store (interfere E s1)"
      using db_result(1) [OF get] get_agent_state [of b "rt_store (interfere E s1)"] by simp
    then have "rt_store t = rt_store s1" using that by (simp add: alone_def interfere_def)
    then show ?thesis using over by (simp add: handed_over_def)
  qed
  ultimately show "moved S mid a src dst n t \<and> reads_lease a dst n c t \<and> (alone E \<longrightarrow> handed_over mid a src dst n t)" by blast
qed simp

section \<open>Alone\<close>

definition same_store :: "rt \<Rightarrow> rt \<Rightarrow> bool" where
  "same_store s t \<longleftrightarrow> rt_store t = rt_store s"

interpretation same_store_moves: step_preorder same_store
  by unfold_locales (auto simp: same_store_def)

lemma alone_traffic: "alone E \<Longrightarrow> engine_traffic same_store E"
  by unfold_locales (auto simp: same_store_def interfere_def log_event_def alone_def)

text \<open>What touches only the log keeps every property of the store, interference or not.\<close>

lemma local_steps: "steps same_store (release l)" "steps same_store (fault_point E pt mid)" "steps same_store (read_perf E)"
  by (rule stepsI; simp add: release_def fault_point_def read_perf_def same_store_def log_event_def split: option.splits)+

lemma triple_same_store:
  assumes "steps same_store m" and "\<And>s t. rt_store s = rt_store t \<Longrightarrow> P s \<Longrightarrow> P t"
  shows "triple P m (\<lambda>_. P) (\<lambda>_. P)"
  by (rule triple_steps [OF assms(1)]) (metis assms(2) same_store_def)

text \<open>The store of \<open>s0\<close> with one more migration, in the given state, of an agent owned by its source.\<close>

definition in_flight ::
  "store \<Rightarrow> string \<Rightarrow> agent_id \<Rightarrow> engine_id \<Rightarrow> engine_id \<Rightarrow> int \<Rightarrow> migration_state \<Rightarrow> rt \<Rightarrow> bool" where
  "in_flight s0 mid a src dst n st s \<longleftrightarrow>
     store_ok (rt_store s) \<and> leases s0 a = Some (src, n) \<and>
     (\<exists>row. rt_store s = s0\<lparr>migrations := migrations s0 @ [row]\<rparr> \<and> migration_of mid a src dst n row \<and>
        mr_state row = st)"

lemma in_flight_same: "rt_store s = rt_store t \<Longrightarrow> in_flight s0 mid a src dst n st s \<Longrightarrow> in_flight s0 mid a src dst n st t"
  by (simp add: in_flight_def)

text \<open>No owner changed and no live migration was added.\<close>

definition owners_kept :: "store \<Rightarrow> rt \<Rightarrow> bool" where
  "owners_kept s0 s \<longleftrightarrow> agents (rt_store s) = agents s0 \<and>
     (\<forall>m \<in> set (migrations (rt_store s)). live_state (mr_state m) \<longrightarrow> m \<in> set (migrations s0))"

lemma owners_kept_refl: "rt_store s = s0 \<Longrightarrow> owners_kept s0 s"
  by (simp add: owners_kept_def)

lemma owners_kept_aborted: "in_flight s0 mid a src dst n ABORTED s \<Longrightarrow> owners_kept s0 s"
  by (auto simp: in_flight_def owners_kept_def)

lemma in_flight_row:
  assumes "in_flight s0 mid a src dst n st s"
  obtains row where "rt_store s = s0\<lparr>migrations := migrations s0 @ [row]\<rparr>" and "migration_of mid a src dst n row"
    and "mr_state row = st" and "sel mr_migration_id mid (migrations (rt_store s)) = Some row"
    and "mid \<notin> mr_migration_id ` set (migrations s0)"
proof -
  from assms obtain row where row: "rt_store s = s0\<lparr>migrations := migrations s0 @ [row]\<rparr>"
    "migration_of mid a src dst n row" "mr_state row = st" by (auto simp: in_flight_def)
  have "distinct (map mr_migration_id (migrations s0 @ [row]))"
    using assms row(1) by (auto simp: in_flight_def store_ok_def)
  then have new: "mid \<notin> mr_migration_id ` set (migrations s0)" using row(2) by (auto simp: migration_of_def)
  then have "sel mr_migration_id mid (migrations (rt_store s)) = Some row"
    using row sel_append_one [of mr_migration_id row "migrations s0" mid] by (simp add: sel_None migration_of_def)
  then show thesis using that row new by blast
qed

lemma db_alone_store:
  assumes "alone E"
  shows "db E m s = (r, t) \<Longrightarrow> m (wall_clock E (rt_log s)) (rt_store s) = (r, rt_store t)"
  using assms by (auto simp: alone_def db_def Let_def interfere_def log_event_def split: prod.splits)

lemma triple_db_read:
  assumes "alone E" and "\<And>s. snd (m s) = s" and "\<And>s t. rt_store s = rt_store t \<Longrightarrow> P s \<Longrightarrow> P t"
  shows "triple P (db E (\<lambda>_. m)) (\<lambda>_. P) (\<lambda>_. P)"
proof (rule triple_steps [where R = same_store])
  show "steps same_store (db E (\<lambda>_. m))"
  proof (rule stepsI)
    fix s
    obtain r t where rt: "db E (\<lambda>_. m) s = (r, t)" by (cases "db E (\<lambda>_. m) s")
    then show "same_store s (snd (db E (\<lambda>_. m) s))"
      using db_alone_store [OF assms(1) rt] assms(2) [of "rt_store s"] by (simp add: same_store_def)
  qed
  show "P t" if "same_store s t" "P s" for s t using assms(3) that by (metis same_store_def)
qed

lemma start_alone:
  assumes "alone E" and "store_ok s0"
  shows "triple (\<lambda>s. rt_store s = s0) (db_start_migration E (new_migration_record mid a src dst n PREPARING))
    (\<lambda>_. in_flight s0 mid a src dst n PREPARING) (\<lambda>_ s. rt_store s = s0)"
  unfolding db_start_migration_def
proof (rule triple_then)
  let ?m = "new_migration_record mid a src dst n PREPARING"
  show "triple (\<lambda>s. rt_store s = s0)
     (db E (\<lambda>_. assert_lease (mr_agent_id ?m) (mr_source_engine ?m) (mr_source_epoch ?m)))
     (\<lambda>_ s. rt_store s = s0 \<and> leases s0 a = Some (src, n)) (\<lambda>_ s. rt_store s = s0)"
    using assert_lease_state [of a src n]
    by (auto intro!: tripleI dest!: db_alone_store [OF assms(1)] simp: new_migration_record_def assert_lease_leases
        elim!: assert_lease_ok) (auto simp: leases_def, metis snd_conv)
  show "triple (\<lambda>s. rt_store s = s0 \<and> leases s0 a = Some (src, n)) (db E (\<lambda>now. insert_migration now ?m))
     (\<lambda>_. in_flight s0 mid a src dst n PREPARING) (\<lambda>_ s. rt_store s = s0)"
  proof (rule tripleI)
    fix s u t
    assume s: "rt_store s = s0 \<and> leases s0 a = Some (src, n)" and "db E (\<lambda>now. insert_migration now ?m) s = (Inr u, t)"
    then have ins: "insert_migration (wall_clock E (rt_log s)) ?m s0 = (Inr u, rt_store t)"
      using db_alone_store [OF assms(1)] by metis
    then have "store_ok (rt_store t)" using store_ok_insert_migration [OF assms(2)] by blast
    moreover have "rt_store t = s0\<lparr>migrations := migrations s0 @ [migration_row_of (wall_clock E (rt_log s)) ?m]\<rparr>"
      using ins by (auto elim!: insert_migration_ok simp: ins_def split: if_splits)
    ultimately show "in_flight s0 mid a src dst n PREPARING t"
      using s new_migration_row unfolding in_flight_def by blast
  next
    fix s e t
    assume s: "rt_store s = s0 \<and> leases s0 a = Some (src, n)" and "db E (\<lambda>now. insert_migration now ?m) s = (Inl e, t)"
    then have "insert_migration (wall_clock E (rt_log s)) ?m s0 = (Inl e, rt_store t)"
      using db_alone_store [OF assms(1)] by metis
    then show "rt_store t = s0" unfolding insert_migration_def by (rule transaction_fail)
  qed
qed

lemma upd_last:
  assumes "mid \<notin> mr_migration_id ` set ms" and "mr_migration_id row = mid"
  shows "upd (\<lambda>r. mr_migration_id r = mid) f (ms @ [row]) = ms @ [f row]"
proof -
  have "upd (\<lambda>r. mr_migration_id r = mid) f ms = ms"
    unfolding upd_def using assms(1) by (intro map_idI) auto
  then show ?thesis using assms(2) by (simp add: upd_def)
qed

lemma store_ok_db: "\<lbrakk>\<And>now. keeps_store (m now); store_ok (rt_store s); db E m s = (r, t)\<rbrakk> \<Longrightarrow> store_ok (rt_store t)"
  using stepsD [OF steps_db] by (fastforce simp: rt_le_def)

lemma migration_moves_alone:
  assumes alone: "alone E" and live: "live_state y \<longrightarrow> live_state x"
  shows "triple (in_flight s0 mid a src dst n x) (db E (\<lambda>now. transition_migration now mid x y tf))
    (\<lambda>_. in_flight s0 mid a src dst n y) (\<lambda>_ _. False)"
proof -
  have "fst (db E (\<lambda>now. transition_migration now mid x y tf) s) = Inr () \<and>
      in_flight s0 mid a src dst n y (snd (db E (\<lambda>now. transition_migration now mid x y tf) s))"
    if flight: "in_flight s0 mid a src dst n x s" for s
  proof -
    obtain r t where rt: "db E (\<lambda>now. transition_migration now mid x y tf) s = (r, t)"
      by (cases "db E (\<lambda>now. transition_migration now mid x y tf) s")
    from flight obtain row where row: "rt_store s = s0\<lparr>migrations := migrations s0 @ [row]\<rparr>"
      "migration_of mid a src dst n row" "mr_state row = x"
      and sel: "sel mr_migration_id mid (migrations (rt_store s)) = Some row"
      and new: "mid \<notin> mr_migration_id ` set (migrations s0)" by (rule in_flight_row)
    let ?f = "apply_transition (wall_clock E (rt_log s)) y tf"
    have ok: "store_ok (rt_store s)" using flight by (simp add: in_flight_def)
    have "update_migration mid ?f (rt_store s) = Inr (s0\<lparr>migrations := migrations s0 @ [?f row]\<rparr>)"
      using update_migration_lowers [OF ok refl sel, of ?f] live row upd_last [OF new, of row]
      by (simp add: migration_of_def)
    then have "transition_migration (wall_clock E (rt_log s)) mid x y tf (rt_store s) =
        (Inr (), s0\<lparr>migrations := migrations s0 @ [?f row]\<rparr>)"
      using sel row(3) by (simp add: transition_migration_def transaction_def)
    then have r: "r = Inr ()" and t: "rt_store t = s0\<lparr>migrations := migrations s0 @ [?f row]\<rparr>"
      using db_alone_store [OF alone rt] by auto
    have "store_ok (rt_store t)" by (rule store_ok_db [OF _ ok rt]) (rule keeps_intros)
    then have "in_flight s0 mid a src dst n y t"
      using flight t row(2) by (auto simp: in_flight_def migration_of_def)
    then show ?thesis using rt r by simp
  qed
  then show ?thesis by (fastforce intro!: tripleI)
qed

text \<open>Alone, the commit of a ready migration cannot fail.\<close>

lemma flight_since: "in_flight s0 mid a src dst n st s \<Longrightarrow> store_le s0 (rt_store s)"
proof (erule in_flight_row)
  fix row
  assume row: "rt_store s = s0\<lparr>migrations := migrations s0 @ [row]\<rparr>"
  have "sel mr_migration_id k (migrations s0 @ [row]) = Some r" if "sel mr_migration_id k (migrations s0) = Some r" for k r
    using that by (simp add: sel_def find_append)
  then have "table_le migration_le mr_migration_id (migrations s0) (migrations s0 @ [row])"
    by (auto simp: table_le_def migration_le_def)
  then show "store_le s0 (rt_store s)" using row store_le_migrations by simp
qed

lemma flight_published: "in_flight s0 mid a src dst n st s \<Longrightarrow> published s0 mid a src dst n s"
  using flight_since by (auto simp: published_def elim!: in_flight_row)

lemma commit_alone:
  assumes alone: "alone E"
  shows "triple (in_flight s0 mid a src dst n DEST_READY) (db_commit_migration E mid)
    (\<lambda>c s. moved s0 mid a src dst n s \<and> reads_lease a dst n c s \<and> handed_over mid a src dst n s)
    (\<lambda>_ _. False)"
proof (rule tripleI)
  fix s c t
  assume flight: "in_flight s0 mid a src dst n DEST_READY s" and call: "db_commit_migration E mid s = (Inr c, t)"
  show "moved s0 mid a src dst n t \<and> reads_lease a dst n c t \<and> handed_over mid a src dst n t"
    using triple_returns [OF commit_hands_over flight_published [OF flight] call] alone by blast
next
  fix s e t
  assume flight: "in_flight s0 mid a src dst n DEST_READY s" and call: "db_commit_migration E mid s = (Inl e, t)"
  let ?now = "wall_clock E (rt_log s)"
  from flight obtain row where row: "rt_store s = s0\<lparr>migrations := migrations s0 @ [row]\<rparr>"
    "migration_of mid a src dst n row" "mr_state row = DEST_READY"
    and sel: "sel mr_migration_id mid (migrations (rt_store s)) = Some row"
    and new: "mid \<notin> mr_migration_id ` set (migrations s0)" by (rule in_flight_row)
  have ok: "store_ok (rt_store s)" and lease: "leases s0 a = Some (src, n)" using flight by (auto simp: in_flight_def)
  then obtain r where r: "sel ac_agent_id a (agents (rt_store s)) = Some r" "ac_owner_engine r = src" "ac_owner_epoch r = n"
    using row(1) by (auto simp: leases_def)
  let ?f = "\<lambda>r. r\<lparr>mr_state := COMMITTED, mg_updated_at := ?now\<rparr>"
  have "update_migration mid ?f ((rt_store s)\<lparr>agents := update_owner ?now a dst (n + 1) (agents (rt_store s))\<rparr>) =
     Inr ((rt_store s)\<lparr>agents := update_owner ?now a dst (n + 1) (agents (rt_store s)),
       migrations := upd (\<lambda>r. mr_migration_id r = mid) ?f (migrations (rt_store s))\<rparr>)"
    using update_migration_lowers [OF ok _ sel, of "(rt_store s)\<lparr>agents := update_owner ?now a dst (n + 1) (agents (rt_store s))\<rparr>" ?f]
      row(3) by simp
  then have tx: "fst (commit_migration_tx ?now mid (rt_store s)) = Inr a"
    using sel row(2,3) r by (simp add: commit_migration_tx_def transaction_def Let_def migration_of_def)
  obtain x s1 where run: "db E (\<lambda>now. commit_migration_tx now mid) s = (x, s1)"
    by (cases "db E (\<lambda>now. commit_migration_tx now mid) s")
  then have x: "x = Inr a" and tx': "commit_migration_tx ?now mid (rt_store s) = (Inr a, rt_store s1)"
    using db_alone_store [OF alone run] tx by auto
  have "handed_over mid a src dst n s1"
    using commit_tx_hands_over(3) [OF tx' sel row(2), of s1] by simp
  then have "fst (get_agent a (rt_store s1)) \<noteq> Inl e"
    by (auto simp: handed_over_def leases_def get_agent_def split: option.splits)
  moreover have "db E (\<lambda>_. get_agent a) s1 = (Inl e, t)"
    using call run x by (simp add: db_commit_migration_def bindP_def)
  ultimately show False using db_alone_store [OF alone] by fastforce
qed

lemma get_migration_alone:
  assumes alone: "alone E"
  shows "triple (in_flight s0 mid a src dst n st) (db E (\<lambda>_. get_migration mid))
      (\<lambda>m s. in_flight s0 mid a src dst n st s \<and> mr_state m = st) (\<lambda>_ _. False)"
    and "triple (handed_over mid a src dst n) (db E (\<lambda>_. get_migration mid))
      (\<lambda>m s. handed_over mid a src dst n s \<and> mr_state m = COMMITTED) (\<lambda>_ _. False)"
proof -
  have db: "r = fst (get_migration mid (rt_store s)) \<and> rt_store t = rt_store s"
    if "db E (\<lambda>_. get_migration mid) s = (r, t)" for r s t
    using db_alone_store [OF alone that] get_migration_state [of mid "rt_store s"] by simp
  show "triple (in_flight s0 mid a src dst n st) (db E (\<lambda>_. get_migration mid))
      (\<lambda>m s. in_flight s0 mid a src dst n st s \<and> mr_state m = st) (\<lambda>_ _. False)"
  proof -
    have get: "\<exists>m. get_migration mid (rt_store s) = (Inr m, rt_store s) \<and> mr_state m = st"
      if "in_flight s0 mid a src dst n st s" for s
      using that by (rule in_flight_row) (simp add: get_migration_def)
    show ?thesis
      by (rule tripleI) (use get in \<open>fastforce dest!: db simp: in_flight_def\<close>)+
  qed
  show "triple (handed_over mid a src dst n) (db E (\<lambda>_. get_migration mid))
      (\<lambda>m s. handed_over mid a src dst n s \<and> mr_state m = COMMITTED) (\<lambda>_ _. False)"
    by (rule tripleI) (auto dest!: db simp: handed_over_def get_migration_def)
qed

section \<open>Under locks\<close>

definition store_property :: "(rt \<Rightarrow> bool) \<Rightarrow> bool" where
  "store_property P \<longleftrightarrow> (\<forall>s t. rt_store s = rt_store t \<longrightarrow> P s \<longrightarrow> P t)"

lemma store_property_True: "store_property (\<lambda>_. True)"
  by (simp add: store_property_def)

lemma triple_local:
  assumes "steps same_store m" and "store_property P"
  shows "triple P m (\<lambda>_. P) (\<lambda>_. P)"
  by (rule triple_same_store [OF assms(1)]) (use assms(2) in \<open>unfold store_property_def, blast\<close>)

lemma triple_with_lock:
  assumes m: "triple P m Q F" and acq: "triple P (acquire E l) (\<lambda>_. P) F"
    and "\<And>a. store_property (Q a)" and "\<And>e. store_property (F e)"
  shows "triple P (with_lock E l m) Q F"
  unfolding with_lock_def
proof (rule triple_then [OF acq], rule triple_finally [OF m])
  show "triple (Q a) (release l) (\<lambda>_. Q a) F" for a
    by (rule tripleI) (use assms(3) in \<open>auto simp: release_def log_event_def store_property_def\<close>)
  show "triple (F e) (release l) (\<lambda>_. F e) F" for e
    by (rule tripleI) (use assms(4) in \<open>auto simp: release_def log_event_def store_property_def\<close>)
qed

lemma acquire_any: "triple (\<lambda>_. True) (acquire E l) (\<lambda>_ _. True) F"
  by (rule tripleI) (simp_all add: acquire_def)

lemma acquire_alone:
  assumes "alone E" and "store_property P"
  shows "triple P (acquire E l) (\<lambda>_. P) F"
proof (rule tripleI)
  fix s u t
  assume "P s" and "acquire E l s = (Inr u, t)"
  moreover from this have "rt_store s = rt_store t"
    using assms(1) by (auto simp: acquire_def alone_def interfere_def log_event_def)
  ultimately show "P t" using assms(2) unfolding store_property_def by blast
qed (simp add: acquire_def)

end
