(* ===== verification/Migration.thy ===== *)
theory Migration
  imports Handover
begin

text \<open>
  \<open>MigrationCoordinator\<close> of \<open>agentshift/controller/migration.py\<close>: a migration pins the
  prefix at the source, sets up a transfer group, copies to the destination, optionally
  lets the destination already generate, and commits the new owner; then acknowledgement,
  finalisation, recovery from a failed destination and reconciliation after a restart.
  Programs run over the store and the event log under an environment that interleaves
  anything; \<open>fuel\<close> bounds the turns of the polling loops, \<open>tries\<close> those of the owner loop.
\<close>

section \<open>Data\<close>

record migration_result =
  mo_migration_id :: string
  mo_agent_id :: agent_id
  mo_source_engine :: engine_id
  mo_destination_engine :: engine_id
  mo_old_epoch :: int
  mo_new_epoch :: int
  mo_token_count :: int
  mo_bytes_transferred :: int
  mo_transfer_seconds :: seconds
  mo_worker_transfer_seconds :: seconds
  mo_queue_seconds :: seconds

text \<open>\<open>token_ids\<close> of a progressive continuation: a tuple, or an awaitable of one.\<close>

datatype token_source = GivenTokens "token list" | TokensLater

record progressive_continuation =
  pc_token_ids :: token_source
  pc_max_new_tokens :: int
  pc_rid :: string
  pc_layer_group_size :: int

record recovery_result =
  rr_continuation :: agent_continuation
  rr_source_shadow_reused :: bool

record migration_coordinator =
  mc_engines :: "engine_id list"
  mc_master_address :: string
  mc_base_port :: int
  mc_tp_size :: int
  mc_async_transfer :: bool
  mc_transfer_poll_interval :: seconds
  mc_transfer_timeout :: seconds

text \<open>\<open>MigrationCoordinator(store, engines)\<close> with its defaults.\<close>

definition new_migration_coordinator :: "engine_id list \<Rightarrow> migration_coordinator" where
  "new_migration_coordinator engines =
     \<lparr>mc_engines = engines, mc_master_address = ''127.0.0.1'', mc_base_port = 29600, mc_tp_size = 1,
      mc_async_transfer = True, mc_transfer_poll_interval = 2/1000, mc_transfer_timeout = 120\<rparr>"

text \<open>\<open>self.engines[e].call(...)\<close>\<close>

definition post_to :: "migration_coordinator \<Rightarrow> env \<Rightarrow> engine_id \<Rightarrow> engine_call \<Rightarrow> (rt, json) prog" where
  "post_to C E e c = (if e \<in> set (mc_engines C) then post E e c else throw (KeyError (py_repr e)))"

section \<open>Transfer groups\<close>

definition engine_order :: "migration_coordinator \<Rightarrow> engine_id list" where
  "engine_order C = sort (mc_engines C)"

definition engine_index :: "migration_coordinator \<Rightarrow> engine_id \<Rightarrow> exn + int" where
  "engine_index C e =
     (let order = engine_order C; i = length (takeWhile (\<lambda>x. x \<noteq> e) order) in
      if i < length order then Inr (int i) else Inl (ValueError ''tuple.index(x): x not in tuple''))"

definition pair_index :: "migration_coordinator \<Rightarrow> int \<Rightarrow> int \<Rightarrow> int" where
  "pair_index C source_index destination_index =
     (let destination_slot = (if destination_index < source_index then destination_index else destination_index - 1)
      in source_index * (int (length (engine_order C)) - 1) + destination_slot)"

definition pair_ports :: "migration_coordinator \<Rightarrow> int \<Rightarrow> int \<Rightarrow> int list" where
  "pair_ports C i j = map (\<lambda>rank. mc_base_port C + pair_index C i j * mc_tp_size C + rank) [0..mc_tp_size C - 1]"

text \<open>The coordinator's other tasks may have added groups before the lock was granted.\<close>

definition join_groups :: "env \<Rightarrow> (rt, unit) prog" where
  "join_groups E s = (Inr (), s\<lparr>rt_groups := rt_groups s @ groups_meanwhile E (rt_log s)\<rparr>)"

definition ensure_group ::
  "migration_coordinator \<Rightarrow> env \<Rightarrow> engine_id \<Rightarrow> engine_id \<Rightarrow> (rt, string \<times> int list) prog" where
  "ensure_group C E source destination = with_lock E ''groups'' (thenP (join_groups E)
     (bindP (getP (\<lambda>s. map_of (rt_groups s) (source, destination))) (\<lambda>known. case known of
        Some g \<Rightarrow> ret g
      | None \<Rightarrow>
          bindP (liftS (engine_index C source)) (\<lambda>i.
          bindP (liftS (engine_index C destination)) (\<lambda>j.
            let ports = pair_ports C i j; name = ''agentshift_'' @ source @ ''_'' @ destination in
            thenP (gather_two E
                     (post_to C E source (InitTransferGroup (mc_master_address C) ports 0 name))
                     (post_to C E destination (InitTransferGroup (mc_master_address C) ports 1 name)))
           (thenP (modifyP (\<lambda>s. s\<lparr>rt_groups := ((source, destination), name, ports) # rt_groups s\<rparr>))
                  (ret (name, ports))))))))"

definition initialize_transfer_pair ::
  "migration_coordinator \<Rightarrow> env \<Rightarrow> engine_id \<Rightarrow> engine_id \<Rightarrow> (rt, string \<times> int list) prog" where
  "initialize_transfer_pair C E source destination = ensure_group C E source destination"

section \<open>Waiting for a transfer\<close>

definition transfer_wait :: "migration_coordinator \<Rightarrow> env \<Rightarrow> engine_id \<Rightarrow> string \<Rightarrow> poll_spec" where
  "transfer_wait C E e mid =
     \<lparr>ps_engine = e, ps_call = TransferStatus mid, ps_verdict = until_complete E (''transfer failed: '' @ mid),
      ps_timeout = TimeoutError (''transfer timed out: '' @ mid), ps_limit = mc_transfer_timeout C,
      ps_interval = mc_transfer_poll_interval C\<rparr>"

text \<open>\<open>_wait_for_transfer_states\<close>: any of the states, or \<open>FAILED\<close>, ends the wait without raising.\<close>

definition until_states :: "string list \<Rightarrow> json \<Rightarrow> (exn + json) option" where
  "until_states states result =
     (case jfield ''state'' result of
        Inl e \<Rightarrow> Some (Inl e)
      | Inr st \<Rightarrow> if st \<in> JStr ` set states \<or> st = JStr ''FAILED'' then Some (Inr result) else None)"

definition transfer_states_wait ::
  "migration_coordinator \<Rightarrow> env \<Rightarrow> engine_id \<Rightarrow> string \<Rightarrow> string list \<Rightarrow> poll_spec" where
  "transfer_states_wait C E e mid states = (transfer_wait C E e mid)\<lparr>ps_verdict := until_states states\<rparr>"

section \<open>One migration\<close>

text \<open>A progressive continuation has to extend the migrated prefix.\<close>

definition extends_prefix :: "token list \<Rightarrow> int \<Rightarrow> token list \<Rightarrow> exn + unit" where
  "extends_prefix tokens count prefix =
     (if int (length tokens) \<le> count
      then Inl (RuntimeError ''progressive continuation must append at least one token'')
      else if take (nat count) tokens \<noteq> prefix
      then Inl (RuntimeError ''progressive continuation does not extend the migrated prefix'')
      else Inr ())"

definition check_given :: "progressive_continuation option \<Rightarrow> int \<Rightarrow> token list \<Rightarrow> exn + unit" where
  "check_given pc count prefix =
     (case pc of
        None \<Rightarrow> Inr ()
      | Some p \<Rightarrow> (case pc_token_ids p of
            TokensLater \<Rightarrow> Inr ()
          | GivenTokens ts \<Rightarrow> extends_prefix ts count prefix))"

definition cleanup_both :: "migration_coordinator \<Rightarrow> env \<Rightarrow> engine_id \<Rightarrow> engine_id \<Rightarrow> string \<Rightarrow> (rt, unit) prog" where
  "cleanup_both C E source destination mid =
     gather_quietly (post_to C E source (CleanupTransfer mid)) (post_to C E destination (CleanupTransfer mid))"

text \<open>The tokens the destination continues from; if there are none, the copies end and are cleaned up.\<close>

definition progressive_tokens ::
  "migration_coordinator \<Rightarrow> env \<Rightarrow> nat \<Rightarrow> string \<Rightarrow> engine_id \<Rightarrow> engine_id \<Rightarrow> progressive_continuation \<Rightarrow> int \<Rightarrow>
   token list \<Rightarrow> (rt, token list) prog" where
  "progressive_tokens C E fuel mid source destination pc count prefix =
     catching
       (bindP (case pc_token_ids pc of GivenTokens ts \<Rightarrow> ret ts | TokensLater \<Rightarrow> await_tokens E) (\<lambda>tokens.
        thenP (liftS (extends_prefix tokens count prefix)) (ret tokens)))
       (\<lambda>e. thenP (run_waiters E fuel
                     [NewWait (transfer_states_wait C E source mid [''COMPLETE'']),
                      NewWait (transfer_states_wait C E destination mid [''COPY_DONE'', ''COMPLETE''])])
           (thenP (cleanup_both C E source destination mid) (throw e)))"

record transfer_args =
  ta_migration_id :: string
  ta_agent_id :: agent_id
  ta_source :: engine_id
  ta_destination :: engine_id
  ta_source_epoch :: int
  ta_count :: int
  ta_token_ids :: "token list"
  ta_group_name :: string
  ta_ports :: "int list"

definition transfer_call :: "transfer_args \<Rightarrow> string \<Rightarrow> int \<Rightarrow> bool \<Rightarrow> bool \<Rightarrow> int \<Rightarrow> engine_call" where
  "transfer_call ta role epoch asynchronous progressive group_size =
     TransferPrefix role (ta_migration_id ta) (ta_agent_id ta) epoch (ta_token_ids ta) (ta_group_name ta) (ta_ports ta)
       asynchronous progressive group_size"

definition transfer_async ::
  "migration_coordinator \<Rightarrow> env \<Rightarrow> nat \<Rightarrow> transfer_args \<Rightarrow> progressive_continuation option \<Rightarrow>
   (rt, (exn + json) list) prog" where
  "transfer_async C E fuel ta pc =
     (let mid = ta_migration_id ta; source = ta_source ta; destination = ta_destination ta;
          waits = [NewWait (transfer_wait C E source mid), NewWait (transfer_wait C E destination mid)] in
      thenP (post_to C E destination (transfer_call ta ''destination'' (ta_source_epoch ta + 1) True (pc \<noteq> None)
               (case pc of None \<Rightarrow> 4 | Some p \<Rightarrow> pc_layer_group_size p)))
     (thenP (post_to C E source (transfer_call ta ''source'' (ta_source_epoch ta) True False 4))
     (case pc of
        None \<Rightarrow> run_waiters E fuel waits
      | Some p \<Rightarrow>
          bindP (progressive_tokens C E fuel mid source destination p (ta_count ta) (ta_token_ids ta)) (\<lambda>tokens.
            run_waiters E fuel (waits @ [NewCall destination
              (Generate tokens (pc_max_new_tokens p) (pc_rid p) None None (Some mid))])))))"

definition transfer_sync ::
  "migration_coordinator \<Rightarrow> env \<Rightarrow> transfer_args \<Rightarrow> (rt, (exn + json) list) prog" where
  "transfer_sync C E ta =
     bindP (attempt (post_to C E (ta_source ta) (transfer_call ta ''source'' (ta_source_epoch ta) False False 4))) (\<lambda>r.
     bindP (attempt (post_to C E (ta_destination ta)
              (transfer_call ta ''destination'' (ta_source_epoch ta + 1) False False 4))) (\<lambda>q.
       ret [r, q]))"

fun errors_of :: "(exn + 'a) list \<Rightarrow> exn list" where
  "errors_of [] = []"
| "errors_of (Inl e # rs) = e # errors_of rs"
| "errors_of (Inr _ # rs) = errors_of rs"

text \<open>Any failed awaitable: the destination drops what it holds, both engines clean up, the first error raises.\<close>

definition raise_errors ::
  "migration_coordinator \<Rightarrow> env \<Rightarrow> transfer_args \<Rightarrow> (exn + json) list \<Rightarrow> (rt, unit) prog" where
  "raise_errors C E ta results =
     (case errors_of results of
        [] \<Rightarrow> ret ()
      | e # _ \<Rightarrow>
          thenP (catching (thenP (post_to C E (ta_destination ta)
                     (ReleasePrefix (ta_agent_id ta) (ta_source_epoch ta + 1) True True)) (ret ())) (\<lambda>_. ret ()))
         (thenP (cleanup_both C E (ta_source ta) (ta_destination ta) (ta_migration_id ta)) (throw e)))"

text \<open>\<open>int(max(a, b))\<close> of two JSON numbers.\<close>

definition max_int :: "json \<Rightarrow> json \<Rightarrow> exn + int" where
  "max_int a b =
     (case (json_num a, json_num b) of
        (Some x, Some y) \<Rightarrow> py_int (if x < y then b else a)
      | _ \<Rightarrow> Inl (TypeError ''unorderable types''))"

definition max_of :: "string \<Rightarrow> json \<Rightarrow> json \<Rightarrow> exn + rat" where
  "max_of k a b =
     (case get_float k a of
        Inl e \<Rightarrow> Inl e
      | Inr x \<Rightarrow> (case get_float k b of Inl e \<Rightarrow> Inl e | Inr y \<Rightarrow> Inr (max x y)))"

text \<open>\<open>source_result, destination_result = transfer_results[:2]\<close> and the generation, if any.\<close>

definition unpack_results :: "(exn + json) list \<Rightarrow> exn + (json \<times> json \<times> json option)" where
  "unpack_results results =
     (case results of
        [Inr a, Inr b] \<Rightarrow> Inr (a, b, None)
      | [Inr a, Inr b, Inr g] \<Rightarrow> Inr (a, b, Some g)
      | _ \<Rightarrow> Inl (ValueError ''not enough values to unpack (expected 2)''))"

definition is_dict :: "json \<Rightarrow> bool" where
  "is_dict j = (case j of JObj _ \<Rightarrow> True | _ \<Rightarrow> False)"

text \<open>From the engines' answers to the committed owner.\<close>

definition commit_transfer ::
  "migration_coordinator \<Rightarrow> env \<Rightarrow> transfer_args \<Rightarrow> seconds \<Rightarrow> (exn + json) list \<Rightarrow>
   (rt, migration_result \<times> json option) prog" where
  "commit_transfer C E ta begun results =
     (let mid = ta_migration_id ta in
      bindP (liftS (unpack_results results)) (\<lambda>(a, b, generation).
      bindP (read_perf E) (\<lambda>now.
      bindP (liftS (max_of ''transfer_seconds'' a b)) (\<lambda>worker.
      bindP (liftS (max_of ''queue_seconds'' a b)) (\<lambda>queue.
      bindP (liftS (max_int (jget_default ''bytes_transferred'' (JInt 0) a) (jget_default ''bytes_transferred'' (JInt 0) b))) (\<lambda>bytes.
      thenP (cleanup_both C E (ta_source ta) (ta_destination ta) mid)
     (thenP (db E (\<lambda>t. transition_migration t mid COPYING DEST_READY
              (no_fields\<lparr>tf_bytes_transferred := Some bytes, tf_transfer_seconds := Some (now - begun)\<rparr>)))
     (thenP (fault_point E ''DEST_READY'' mid)
     (bindP (db_commit_migration E mid) (\<lambda>continuation.
      thenP (fault_point E ''COMMITTED'' mid)
     (thenP (guardP (\<forall>g \<in> set_option generation. is_dict g) (AssertionError []))
      (ret (\<lparr>mo_migration_id = mid, mo_agent_id = ta_agent_id ta, mo_source_engine = ta_source ta,
        mo_destination_engine = ta_destination ta, mo_old_epoch = ta_source_epoch ta,
        mo_new_epoch = ac_owner_epoch continuation, mo_token_count = ta_count ta, mo_bytes_transferred = bytes,
        mo_transfer_seconds = now - begun, mo_worker_transfer_seconds = worker, mo_queue_seconds = queue\<rparr>,
        generation)))))))))))))"

definition transfer_prefix ::
  "migration_coordinator \<Rightarrow> env \<Rightarrow> nat \<Rightarrow> transfer_args \<Rightarrow> progressive_continuation option \<Rightarrow>
   (rt, migration_result \<times> json option) prog" where
  "transfer_prefix C E fuel ta pc =
     thenP (db E (\<lambda>t. transition_migration t (ta_migration_id ta) PREPARING COPYING
              (no_fields\<lparr>tf_token_count := Some (ta_count ta)\<rparr>)))
    (bindP (read_perf E) (\<lambda>begun.
     bindP (if mc_async_transfer C then transfer_async C E fuel ta pc else transfer_sync C E ta) (\<lambda>results.
     thenP (raise_errors C E ta results) (commit_transfer C E ta begun results))))"

text \<open>The body of the \<open>try\<close>: pin, check, set up the group, transfer, commit.\<close>

definition migrate_body ::
  "migration_coordinator \<Rightarrow> env \<Rightarrow> nat \<Rightarrow> string \<Rightarrow> agent_continuation \<Rightarrow> engine_id \<Rightarrow> progressive_continuation option \<Rightarrow>
   (rt, migration_result \<times> json option) prog" where
  "migrate_body C E fuel mid c destination pc =
     (let a = ac_agent_id c; source = ac_owner_engine c; epoch = ac_owner_epoch c in
      bindP (post_to C E source (PinPrefix a epoch (ac_token_ids c))) (\<lambda>pin.
      thenP (fault_point E ''SOURCE_PINNED'' mid)
     (bindP (liftS (field_int ''token_count'' pin)) (\<lambda>count.
      thenP (guardP (0 < count) (RuntimeError ''source has no completed prefix to migrate''))
     (let prefix = take (nat count) (ac_token_ids c) in
      thenP (liftS (check_given pc count prefix))
     (bindP (ensure_group C E source destination) (\<lambda>(name, ports).
        transfer_prefix C E fuel
          \<lparr>ta_migration_id = mid, ta_agent_id = a, ta_source = source, ta_destination = destination,
           ta_source_epoch = epoch, ta_count = count, ta_token_ids = prefix, ta_group_name = name, ta_ports = ports\<rparr> pc)))))))"

definition migrate_serial ::
  "migration_coordinator \<Rightarrow> env \<Rightarrow> nat \<Rightarrow> agent_id \<Rightarrow> engine_id \<Rightarrow> progressive_continuation option \<Rightarrow>
   (rt, migration_result \<times> json option) prog" where
  "migrate_serial C E fuel a destination pc =
     bindP (db E (\<lambda>_. get_agent a)) (\<lambda>c.
     thenP (guardP (destination \<noteq> ac_owner_engine c) (ValueError ''source and destination must differ''))
    (thenP (guardP (destination \<in> set (mc_engines C)) (KeyError (py_repr destination)))
    (bindP (uuid4_hex E) (\<lambda>mid.
     thenP (db_start_migration E (new_migration_record mid a (ac_owner_engine c) destination (ac_owner_epoch c) PREPARING))
    (thenP (guardP (ac_owner_engine c \<in> set (mc_engines C)) (KeyError (py_repr (ac_owner_engine c))))
    (catching (migrate_body C E fuel mid c destination pc) (abort_unfinished E mid)))))))"

section \<open>Migrations under the engine locks\<close>

text \<open>
  Both endpoints' locks in the order of their names, released in reverse. If the owner
  changed while they were awaited (\<open>None\<close>), the loop starts again.
\<close>

definition with_engine_locks :: "env \<Rightarrow> engine_id list \<Rightarrow> (rt, 'a) prog \<Rightarrow> (rt, 'a) prog" where
  "with_engine_locks E engines m = foldr (\<lambda>e. with_lock E (''engine '' @ e)) (sort engines) m"

fun owner_loop ::
  "migration_coordinator \<Rightarrow> env \<Rightarrow> nat \<Rightarrow> agent_id \<Rightarrow> engine_id \<Rightarrow> (rt, 'a) prog \<Rightarrow> (rt, 'a) prog" where
  "owner_loop C E 0 a destination body = throw Unfinished"
| "owner_loop C E (Suc tries) a destination body =
     bindP (db E (\<lambda>_. get_agent a)) (\<lambda>c.
     let source = ac_owner_engine c in
     thenP (guardP (source \<noteq> destination) (ValueError ''source and destination must differ''))
    (thenP (guardP (destination \<in> set (mc_engines C)) (KeyError (py_repr destination)))
    (thenP (guardP (source \<in> set (mc_engines C)) (KeyError (py_repr source)))
    (bindP (with_engine_locks E [source, destination]
       (bindP (db E (\<lambda>_. get_agent a)) (\<lambda>c'.
          if ac_owner_engine c' \<noteq> source then ret None else bindP body (\<lambda>r. ret (Some r)))))
     (\<lambda>done_or_moved. case done_or_moved of
        Some r \<Rightarrow> ret r
      | None \<Rightarrow> owner_loop C E tries a destination body)))))"

definition migrate ::
  "migration_coordinator \<Rightarrow> env \<Rightarrow> nat \<Rightarrow> nat \<Rightarrow> agent_id \<Rightarrow> engine_id \<Rightarrow> (rt, migration_result) prog" where
  "migrate C E tries fuel a destination =
     thenP (guardP (destination \<in> set (mc_engines C)) (KeyError (py_repr destination)))
    (bindP (owner_loop C E tries a destination (migrate_serial C E fuel a destination None)) (\<lambda>(r, _). ret r))"

definition migrate_and_generate_progressive ::
  "migration_coordinator \<Rightarrow> env \<Rightarrow> nat \<Rightarrow> nat \<Rightarrow> agent_id \<Rightarrow> engine_id \<Rightarrow> token_source \<Rightarrow> int \<Rightarrow> string \<Rightarrow> int \<Rightarrow>
   (rt, migration_result \<times> json option) prog" where
  "migrate_and_generate_progressive C E tries fuel a destination tokens max_new rid group_size =
     thenP (guardP (mc_async_transfer C) (RuntimeError ''progressive continuation requires async transfers''))
    (thenP (guardP (0 < group_size) (ValueError ''layer_group_size must be positive''))
    (owner_loop C E tries a destination (migrate_serial C E fuel a destination
       (Some \<lparr>pc_token_ids = tokens, pc_max_new_tokens = max_new, pc_rid = rid, pc_layer_group_size = group_size\<rparr>))))"

section \<open>After the commit\<close>

definition acknowledge_destination :: "migration_coordinator \<Rightarrow> env \<Rightarrow> string \<Rightarrow> (rt, unit) prog" where
  "acknowledge_destination C E mid =
     bindP (db E (\<lambda>_. get_migration mid)) (\<lambda>first.
     thenP (guardP (mr_source_engine first \<in> set (mc_engines C)) (KeyError (py_repr (mr_source_engine first))))
    (with_lock E (''release '' @ mr_source_engine first)
      (bindP (db E (\<lambda>_. get_migration mid)) (\<lambda>m.
         if mr_state m = SOURCE_RELEASED then ret ()
         else thenP (guardP (mr_state m = COMMITTED) (RuntimeError ''migration has not committed''))
             (thenP (post_to C E (mr_source_engine m) (ReleasePrefix (mr_agent_id m) (mr_source_epoch m) True True))
             (thenP (db E (\<lambda>t. transition_migration t mid COMMITTED SOURCE_RELEASED no_fields))
                    (fault_point E ''SOURCE_RELEASED'' mid)))))))"

definition finalize_destination :: "migration_coordinator \<Rightarrow> env \<Rightarrow> string \<Rightarrow> bool \<Rightarrow> (rt, unit) prog" where
  "finalize_destination C E mid keep_cached =
     bindP (db E (\<lambda>_. get_migration mid)) (\<lambda>m.
     thenP (acknowledge_destination C E mid)
    (thenP (guardP (mr_destination_engine m \<in> set (mc_engines C)) (KeyError (py_repr (mr_destination_engine m))))
    (with_lock E (''release '' @ mr_destination_engine m)
      (thenP (post_to C E (mr_destination_engine m)
                (ReleasePrefix (mr_agent_id m) (mr_source_epoch m + 1) (\<not> keep_cached) True)) (ret ())))))"

definition rebind_shadow :: "migration_coordinator \<Rightarrow> env \<Rightarrow> migration_record \<Rightarrow> engine_id \<Rightarrow> (rt, bool) prog" where
  "rebind_shadow C E m recovery_engine =
     (if mr_state m = COMMITTED \<and> recovery_engine = mr_source_engine m
      then catching (thenP (post_to C E (mr_source_engine m)
                       (RebindPrefix (mr_agent_id m) (mr_source_epoch m) (mr_source_epoch m + 2))) (ret True))
             (\<lambda>_. ret False)
      else ret False)"

text \<open>\<open>recovery_engine or migration.source_engine\<close>\<close>

definition recovery_target :: "engine_id option \<Rightarrow> engine_id \<Rightarrow> engine_id" where
  "recovery_target requested source =
     (case requested of Some e \<Rightarrow> if e = [] then source else e | None \<Rightarrow> source)"

definition recover_destination_failure ::
  "migration_coordinator \<Rightarrow> env \<Rightarrow> string \<Rightarrow> engine_id option \<Rightarrow> (rt, recovery_result) prog" where
  "recover_destination_failure C E mid requested =
     bindP (db E (\<lambda>_. get_migration mid)) (\<lambda>m.
       if mr_state m = RECOVERED
       then bindP (db E (\<lambda>_. get_agent (mr_agent_id m))) (\<lambda>c.
              ret \<lparr>rr_continuation = c, rr_source_shadow_reused = False\<rparr>)
       else thenP (guardP (mr_state m \<in> {COMMITTED, SOURCE_RELEASED}) (RuntimeError ''migration has not committed''))
           (let engine = recovery_target requested (mr_source_engine m) in
            bindP (rebind_shadow C E m engine) (\<lambda>reused.
            bindP (db_recover_committed E mid engine) (\<lambda>c.
              ret \<lparr>rr_continuation = c, rr_source_shadow_reused = reused\<rparr>))))"

definition recover_committed :: "migration_coordinator \<Rightarrow> env \<Rightarrow> string \<Rightarrow> (rt, agent_continuation) prog" where
  "recover_committed C E mid = bindP (recover_destination_failure C E mid None) (\<lambda>r. ret (rr_continuation r))"

section \<open>Reconciliation after a restart\<close>

definition still_copying :: "exn + json \<Rightarrow> bool" where
  "still_copying status =
     (case status of
        Inr (JObj kvs) \<Rightarrow> jget ''state'' (JObj kvs) \<notin> {Some (JStr ''COMPLETE''), Some (JStr ''FAILED'')}
      | _ \<Rightarrow> False)"

definition copy_in_flight :: "migration_coordinator \<Rightarrow> env \<Rightarrow> migration_record \<Rightarrow> (rt, bool) prog" where
  "copy_in_flight C E m =
     (if mr_state m = COPYING
      then bindP (attempt (post_to C E (mr_source_engine m) (TransferStatus (mr_migration_id m)))) (\<lambda>r.
           bindP (attempt (post_to C E (mr_destination_engine m) (TransferStatus (mr_migration_id m)))) (\<lambda>q.
             ret (still_copying r \<or> still_copying q)))
      else ret False)"

definition reconcile_one :: "migration_coordinator \<Rightarrow> env \<Rightarrow> migration_record \<Rightarrow> (rt, string \<times> string) prog" where
  "reconcile_one C E m =
     (let mid = mr_migration_id m; source = mr_source_engine m; destination = mr_destination_engine m in
      if mr_state m = COMMITTED then ret (mid, ''retain-source-shadow'')
      else
        thenP (guardP (source \<in> set (mc_engines C)) (KeyError (py_repr source)))
       (thenP (guardP (destination \<in> set (mc_engines C)) (KeyError (py_repr destination)))
       (bindP (copy_in_flight C E m) (\<lambda>copying.
          if copying then ret (mid, ''wait-for-copy'')
          else
            thenP (whenP (mr_state m = COPYING) (cleanup_both C E source destination mid))
           (thenP (post_to C E destination (ReleasePrefix (mr_agent_id m) (mr_source_epoch m + 1) True True))
           (thenP (db E (\<lambda>t. transition_migration t mid (mr_state m) ABORTED
                      (no_fields\<lparr>tf_error := Some ''controller restart before ownership commit''\<rparr>)))
                  (ret (mid, ''abort-to-source''))))))))"

definition live_states :: "migration_state list" where
  "live_states = [PREPARING, COPYING, DEST_READY, COMMITTED]"

definition reconcile_after_restart :: "migration_coordinator \<Rightarrow> env \<Rightarrow> (rt, (string \<times> string) list) prog" where
  "reconcile_after_restart C E =
     bindP (db E (\<lambda>_. getP (list_migrations (Some live_states)))) (mapP (reconcile_one C E))"

section \<open>What the engine traffic keeps\<close>

context engine_traffic begin

lemma steps_post_to: "steps R (post_to C E e c)"
  unfolding post_to_def by (intro awaiting_rules)

lemma steps_cleanup_both: "steps R (cleanup_both C E src dst mid)"
  unfolding cleanup_both_def by (intro steps_gather_quietly steps_post_to)

lemma steps_join_groups: "steps R (join_groups E)"
  by (rule stepsI) (simp add: join_groups_def groups_R)

lemma steps_ensure_group: "steps R (ensure_group C E src dst)"
  unfolding ensure_group_def Let_def
  by (intro awaiting_rules steps_post_to steps_join_groups steps_set_groups)

lemma steps_progressive_tokens: "steps R (progressive_tokens C E fuel mid src dst pc count prefix)"
proof -
  have "steps R (case pc_token_ids pc of GivenTokens ts \<Rightarrow> ret ts | TokensLater \<Rightarrow> await_tokens E)"
    by (cases "pc_token_ids pc") (auto intro: awaiting_rules)
  then show ?thesis
    unfolding progressive_tokens_def by (intro awaiting_rules steps_cleanup_both)
qed

lemma steps_transfer_async: "steps R (transfer_async C E fuel ta pc)"
  unfolding transfer_async_def Let_def
  by (intro awaiting_rules steps_post_to steps_progressive_tokens)

lemma steps_transfer_sync: "steps R (transfer_sync C E ta)"
  unfolding transfer_sync_def by (intro awaiting_rules steps_post_to)

lemma steps_raise_errors: "steps R (raise_errors C E ta results)"
  unfolding raise_errors_def
  by (cases "errors_of results") (auto intro!: awaiting_rules steps_post_to steps_cleanup_both)

lemma steps_copy_in_flight: "steps R (copy_in_flight C E m)"
  unfolding copy_in_flight_def by (intro awaiting_rules steps_post_to)

lemma steps_rebind_shadow: "steps R (rebind_shadow C E m e)"
  unfolding rebind_shadow_def by (intro awaiting_rules steps_post_to)

lemmas traffic_rules = steps_post_to steps_cleanup_both steps_ensure_group steps_transfer_async steps_transfer_sync
  steps_raise_errors steps_copy_in_flight steps_rebind_shadow

end

end
