(* ===== verification/MigrationProps.thy ===== *)
theory MigrationProps
  imports Migration
begin

text \<open>
  What the migration coordinator guarantees: port ranges of engine pairs never overlap, a
  migration that returns moved the lease, one that fails alone left the owner in place, and
  what recovery and reconciliation do to the records.
\<close>

section \<open>Ports\<close>

lemma engine_index_nth:
  assumes "engine_index C e = Inr i"
  shows "0 \<le> i" and "i < int (length (engine_order C))" and "engine_order C ! nat i = e"
proof -
  let ?k = "length (takeWhile (\<lambda>x. x \<noteq> e) (engine_order C))"
  have k: "?k < length (engine_order C)" "i = int ?k"
    using assms by (auto simp: engine_index_def Let_def split: if_splits)
  then show "0 \<le> i" "i < int (length (engine_order C))" "engine_order C ! nat i = e"
    using nth_length_takeWhile [of "\<lambda>x. x \<noteq> e" "engine_order C"] by auto
qed

lemma block_of:
  fixes n i s q :: int
  assumes "0 \<le> s" "s < n" "q = i * n + s"
  shows "q div n = i" and "q mod n = s"
  using assms by (simp_all add: div_pos_pos_trivial)

text \<open>
  No two ordered engine pairs share a port: the port lists of two different pairs are
  disjoint, and all ports of a coordinator with \<open>n\<close> engines lie in a range of
  \<open>n * (n - 1) * tp_size\<close> from the base port.
\<close>

theorem pair_ports_disjoint:
  assumes i: "engine_index C s = Inr i" "engine_index C d = Inr j" "s \<noteq> d"
    and i': "engine_index C s' = Inr i'" "engine_index C d' = Inr j'" "s' \<noteq> d'"
    and other: "(s, d) \<noteq> (s', d')"
  shows "set (pair_ports C i j) \<inter> set (pair_ports C i' j') = {} \<and>
    (\<forall>p \<in> set (pair_ports C i j). mc_base_port C \<le> p \<and>
       p < mc_base_port C + int (length (mc_engines C)) * (int (length (mc_engines C)) - 1) * mc_tp_size C)"
proof -
  let ?n = "int (length (engine_order C)) - 1" and ?tp = "mc_tp_size C"
  let ?slot = "\<lambda>i j. if j < i then j else j - 1 :: int"
  have ne: "i \<noteq> j" if "engine_index C s = Inr i" "engine_index C d = Inr j" "s \<noteq> d" for s d i j
    using engine_index_nth(3) [OF that(1)] engine_index_nth(3) [OF that(2)] that(3) by auto
  have slot: "0 \<le> ?slot i j \<and> ?slot i j < ?n" if "engine_index C s = Inr i" "engine_index C d = Inr j" "s \<noteq> d" for s d i j
    using engine_index_nth(1,2) [OF that(1)] engine_index_nth(1,2) [OF that(2)] ne [OF that] by auto
  have idx: "pair_index C i j = i * ?n + ?slot i j" for i j by (simp add: pair_index_def Let_def)
  have apart: "pair_index C i j \<noteq> pair_index C i' j'"
  proof
    assume eq: "pair_index C i j = pair_index C i' j'"
    have "i = i'" "?slot i j = ?slot i' j'"
      using block_of [OF _ _ idx [of i j]] block_of [OF _ _ idx [of i' j']] slot [OF i] slot [OF i'] eq by auto
    then have "j = j'" using ne [OF i] ne [OF i'] by (auto split: if_splits)
    then show False
      using engine_index_nth(3) [OF i(1)] engine_index_nth(3) [OF i(2)] engine_index_nth(3) [OF i'(1)]
        engine_index_nth(3) [OF i'(2)] \<open>i = i'\<close> other by auto
  qed
  have port: "\<exists>r. 0 \<le> r \<and> r < ?tp \<and> p - mc_base_port C = pair_index C i j * ?tp + r"
    if "p \<in> set (pair_ports C i j)" for p i j
    using that by (intro exI [of _ "p - mc_base_port C - pair_index C i j * ?tp"]) (auto simp: pair_ports_def)
  have "set (pair_ports C i j) \<inter> set (pair_ports C i' j') = {}"
  proof (rule ccontr)
    assume "\<not> ?thesis"
    then obtain p where p: "p \<in> set (pair_ports C i j)" "p \<in> set (pair_ports C i' j')" by auto
    from port [OF p(1)] port [OF p(2)] show False using block_of(1) apart by metis
  qed
  moreover have "mc_base_port C \<le> p \<and> p < mc_base_port C + (?n + 1) * ?n * ?tp" if p: "p \<in> set (pair_ports C i j)" for p
  proof -
    obtain r where r: "0 \<le> r" "r < ?tp" "p - mc_base_port C = pair_index C i j * ?tp + r" using port [OF p] by blast
    have "0 \<le> i * ?n" using slot [OF i] engine_index_nth(1) [OF i(1)] by (intro mult_nonneg_nonneg) auto
    then have q: "0 \<le> pair_index C i j" using slot [OF i] by (simp add: idx del: split_paired_All)
    have "pair_index C i j + 1 \<le> i * ?n + ?n" using slot [OF i] by (simp add: idx)
    also have "\<dots> = (i + 1) * ?n" by (simp add: algebra_simps)
    also have "\<dots> \<le> (?n + 1) * ?n" using engine_index_nth(2) [OF i(1)] slot [OF i] by (intro mult_right_mono) auto
    finally have "(pair_index C i j + 1) * ?tp \<le> (?n + 1) * ?n * ?tp" using r by (intro mult_right_mono) auto
    moreover have "p - mc_base_port C < (pair_index C i j + 1) * ?tp" using r by (simp add: algebra_simps)
    moreover have "0 \<le> pair_index C i j * ?tp" using q r by (intro mult_nonneg_nonneg) auto
    ultimately show ?thesis using r by linarith
  qed
  ultimately show ?thesis by (simp add: engine_order_def algebra_simps)
qed

section \<open>The owner loop\<close>

lemma owner_loop_triple:
  assumes body: "triple P body Q F" and agent: "triple P (db E (\<lambda>_. get_agent a)) (\<lambda>_. P) F"
    and acq: "\<And>l. triple P (acquire E l) (\<lambda>_. P) F"
    and raise: "\<And>e s. P s \<Longrightarrow> F e s"
    and stores: "store_property P" "\<And>x. store_property (Q x)" "\<And>e. store_property (F e)"
  shows "triple P (owner_loop C E tries a destination body) Q F"
proof (induction tries)
  case 0
  then show ?case using raise by (simp add: triple_pure)
next
  case (Suc tries)
  let ?R = "\<lambda>r s. case r of None \<Rightarrow> P s | Some x \<Rightarrow> Q x s"
  have R: "store_property (?R r)" for r using stores by (cases r) simp_all
  have once: "triple P (bindP (db E (\<lambda>_. get_agent a)) (\<lambda>c'. if ac_owner_engine c' \<noteq> source then ret None
      else bindP body (\<lambda>r. ret (Some r)))) ?R F" for source
    by (rule triple_bind [OF agent]) (auto intro!: triple_pure triple_bind [OF body])
  have locked: "triple P (foldr (\<lambda>e. with_lock E (''engine '' @ e)) es m) ?R F" if "triple P m ?R F" for es m
    using that by (induction es) (auto intro!: triple_with_lock acq R stores)
  show ?case
    unfolding owner_loop.simps Let_def with_engine_locks_def
    by (rule triple_bind [OF agent], (rule triple_then [OF triple_guard [where Q = P]], assumption, erule raise)+,
        rule triple_bind [OF locked [OF once]])
      (auto split: option.splits intro!: Suc triple_pure)
qed

section \<open>A migration that returns\<close>

definition migrated :: "env \<Rightarrow> store \<Rightarrow> agent_id \<Rightarrow> engine_id \<Rightarrow> migration_result \<times> json option \<Rightarrow> rt \<Rightarrow> bool" where
  "migrated E S a dst x s \<longleftrightarrow> (case x of (r, generation) \<Rightarrow>
     mo_agent_id r = a \<and> mo_destination_engine r = dst \<and> mo_source_engine r \<noteq> dst \<and>
     0 < mo_token_count r \<and> (\<forall>g \<in> set_option generation. is_dict g) \<and>
     moved S (mo_migration_id r) a (mo_source_engine r) dst (mo_old_epoch r) s \<and>
     (\<exists>c. mo_new_epoch r = ac_owner_epoch c \<and> reads_lease a dst (mo_old_epoch r) c s) \<and>
     (alone E \<longrightarrow> handed_over (mo_migration_id r) a (mo_source_engine r) dst (mo_old_epoch r) s))"

lemma store_property_migrated: "store_property (migrated E S a dst x)"
  by (cases x) (simp add: store_property_def migrated_def handed_over_def moved_def reads_lease_def)

definition args_for :: "transfer_args \<Rightarrow> string \<Rightarrow> agent_id \<Rightarrow> engine_id \<Rightarrow> engine_id \<Rightarrow> int \<Rightarrow> bool" where
  "args_for ta mid a src dst n \<longleftrightarrow> ta_migration_id ta = mid \<and> ta_agent_id ta = a \<and> ta_source ta = src \<and>
     ta_destination ta = dst \<and> ta_source_epoch ta = n \<and> 0 < ta_count ta"

text \<open>What the commit establishes, which the last steps keep.\<close>

definition committing ::
  "env \<Rightarrow> store \<Rightarrow> string \<Rightarrow> agent_id \<Rightarrow> engine_id \<Rightarrow> engine_id \<Rightarrow> int \<Rightarrow> agent_continuation \<Rightarrow> rt \<Rightarrow> bool" where
  "committing E S mid a src dst n c s \<longleftrightarrow> moved S mid a src dst n s \<and> reads_lease a dst n c s \<and>
     (alone E \<longrightarrow> handed_over mid a src dst n s)"

lemma store_property_committing: "store_property (committing E S mid a src dst n c)"
  by (simp add: store_property_def committing_def moved_def reads_lease_def handed_over_def)

lemma commit_committing:
  "triple (published S mid a src dst n) (db_commit_migration E mid) (committing E S mid a src dst n) (\<lambda>_ _. True)"
  by (rule triple_conseq [OF commit_hands_over]) (simp_all add: committing_def)

lemma commit_transfer_triple:
  assumes ta: "args_for ta mid a src dst n" and ne: "src \<noteq> dst"
    and P: "store_property P" and raise: "\<And>e s. P s \<Longrightarrow> F e s"
    and cleanup: "triple P (cleanup_both C E src dst mid) (\<lambda>_. P) F"
    and ready: "\<And>tf. triple P (db E (\<lambda>t. transition_migration t mid COPYING DEST_READY tf)) (\<lambda>_. R) F"
    and fault: "triple R (fault_point E ''DEST_READY'' mid) (\<lambda>_. R) F"
    and commit: "triple R (db_commit_migration E mid) (committing E S mid a src dst n) F"
    and late: "\<And>c. triple (committing E S mid a src dst n c) (fault_point E ''COMMITTED'' mid) (\<lambda>_. committing E S mid a src dst n c) F"
    and nodict: "\<And>c s. committing E S mid a src dst n c s \<Longrightarrow> F (AssertionError []) s"
  shows "triple P (commit_transfer C E ta begun results) (migrated E S a dst) F"
proof -
  have perf: "triple P (read_perf E) (\<lambda>_. P) F"
    by (rule triple_conseq [OF triple_local [OF local_steps(3) P]]) (auto intro: raise)
  have last: "triple (committing E S mid a src dst n c)
     (thenP (guardP (\<forall>g \<in> set_option generation. is_dict g) (AssertionError []))
       (ret (\<lparr>mo_migration_id = mid, mo_agent_id = a, mo_source_engine = src, mo_destination_engine = dst,
          mo_old_epoch = n, mo_new_epoch = ac_owner_epoch c, mo_token_count = ta_count ta, mo_bytes_transferred = bytes,
          mo_transfer_seconds = secs, mo_worker_transfer_seconds = worker, mo_queue_seconds = queue\<rparr>, generation)))
     (migrated E S a dst) F" for c generation bytes secs worker queue
    by (rule triple_then [OF triple_guard [where Q = "\<lambda>s. committing E S mid a src dst n c s \<and>
        (\<forall>g \<in> set_option generation. is_dict g)"]])
      (use ta ne nodict in \<open>auto intro!: triple_pure simp: migrated_def args_for_def committing_def\<close>)
  note fields = ta [unfolded args_for_def]
  show ?thesis
    unfolding commit_transfer_def Let_def
    by (simp only: fields, rule triple_bind [OF triple_lift [where Q = "\<lambda>_. P"]], assumption, erule raise)
      (auto split: prod.splits intro!: triple_bind [OF perf] triple_bind [OF triple_lift [where Q = "\<lambda>_. P"]]
        triple_then [OF cleanup] triple_then [OF ready] triple_then [OF fault] triple_bind [OF commit]
        triple_then [OF late] last intro: raise)
qed

text \<open>The whole \<open>try\<close> body, from the started record to the commit.\<close>

lemma migrate_body_triple:
  assumes c: "ac_agent_id c = a" "ac_owner_engine c = src" "ac_owner_epoch c = n" and ne: "src \<noteq> dst"
    and stores: "store_property P" "store_property R" "store_property T" and raise: "\<And>e s. P s \<Longrightarrow> F e s" "\<And>e s. R s \<Longrightarrow> F e s"
    and traffic: "\<And>m :: (rt, json) prog. (\<And>r. engine_traffic r E \<Longrightarrow> steps r m) \<Longrightarrow> triple P m (\<lambda>_. P) F"
      "\<And>m :: (rt, string \<times> int list) prog. (\<And>r. engine_traffic r E \<Longrightarrow> steps r m) \<Longrightarrow> triple P m (\<lambda>_. P) F"
      "\<And>m :: (rt, (exn + json) list) prog. (\<And>r. engine_traffic r E \<Longrightarrow> steps r m) \<Longrightarrow> triple R m (\<lambda>_. R) F"
      "\<And>m :: (rt, unit) prog. (\<And>r. engine_traffic r E \<Longrightarrow> steps r m) \<Longrightarrow> triple R m (\<lambda>_. R) F"
    and pinned: "triple P (fault_point E ''SOURCE_PINNED'' mid) (\<lambda>_. P) F"
    and copying: "\<And>tf. triple P (db E (\<lambda>t. transition_migration t mid PREPARING COPYING tf)) (\<lambda>_. R) F"
    and ready: "\<And>tf. triple R (db E (\<lambda>t. transition_migration t mid COPYING DEST_READY tf)) (\<lambda>_. T) F"
    and fault: "triple T (fault_point E ''DEST_READY'' mid) (\<lambda>_. T) F"
    and commit: "triple T (db_commit_migration E mid) (committing E S mid a src dst n) F"
    and late: "\<And>c. triple (committing E S mid a src dst n c) (fault_point E ''COMMITTED'' mid) (\<lambda>_. committing E S mid a src dst n c) F"
    and nodict: "\<And>c s. committing E S mid a src dst n c s \<Longrightarrow> F (AssertionError []) s"
  shows "triple P (migrate_body C E fuel mid c dst pc) (migrated E S a dst) F"
proof -
  have perf: "triple R (read_perf E) (\<lambda>_. R) F"
    by (rule triple_conseq [OF triple_local [OF local_steps(3) stores(2)]]) (auto intro: raise)
  have commit': "triple R (commit_transfer C E ta begun results) (migrated E S a dst) F"
    if "args_for ta mid a src dst n" for ta begun results
    by (rule commit_transfer_triple [OF that ne stores(2) raise(2) traffic(4) ready fault commit late nodict])
      (auto intro: engine_traffic.traffic_rules)
  have transfer: "triple P (transfer_prefix C E fuel ta pc) (migrated E S a dst) F" if ta: "args_for ta mid a src dst n" for ta
    unfolding transfer_prefix_def
    by (simp only: ta [unfolded args_for_def], rule triple_then [OF copying], rule triple_bind [OF perf],
        rule triple_bind [OF traffic(3)])
      (auto intro!: triple_then [OF traffic(4)] commit' ta intro: engine_traffic.traffic_rules)
  note lift = triple_lift [where Q = "\<lambda>_. P"]
  show ?thesis
    unfolding migrate_body_def Let_def c
  proof (rule triple_bind [OF traffic(1)], erule engine_traffic.steps_post_to, rule triple_then [OF pinned],
      rule triple_bind [OF lift], assumption, erule raise)
    fix pin count
    show "triple P (thenP (guardP (0 < count) (RuntimeError ''source has no completed prefix to migrate''))
       (thenP (liftS (check_given pc count (take (nat count) (ac_token_ids c))))
       (bindP (ensure_group C E src dst) (\<lambda>(name, ports). transfer_prefix C E fuel
          \<lparr>ta_migration_id = mid, ta_agent_id = a, ta_source = src, ta_destination = dst, ta_source_epoch = n,
           ta_count = count, ta_token_ids = take (nat count) (ac_token_ids c), ta_group_name = name, ta_ports = ports\<rparr> pc))))
       (migrated E S a dst) F"
    proof (cases "0 < count")
      case True
      then show ?thesis
        by (intro triple_then [OF triple_guard [where Q = P]] triple_then [OF lift] triple_bind [OF traffic(2)])
          (auto split: prod.splits intro!: transfer simp: args_for_def intro: raise engine_traffic.traffic_rules)
    next
      case False
      then show ?thesis by (auto simp: guardP_def thenP_def intro!: triple_pure raise(1))
    qed
  qed
qed

text \<open>Among interference, nothing is asked of a raise.\<close>

lemma triple_True: "(\<And>s a t. P s \<Longrightarrow> m s = (Inr a, t) \<Longrightarrow> Q a t) \<Longrightarrow> triple P m Q (\<lambda>_ _. True)"
  by (rule tripleI) auto

lemma store_property_published: "store_property (published S mid a src dst n)"
  by (simp add: store_property_def published_def)

lemma store_property_handed_over: "store_property (handed_over mid a src dst n)"
  by (simp add: store_property_def handed_over_def)

lemma migrate_serial_triple:
  assumes agent: "triple P (db E (\<lambda>_. get_agent a)) (\<lambda>c s. P s \<and> G c) F" and raise: "\<And>e s. P s \<Longrightarrow> F e s"
    and fresh: "triple P (uuid4_hex E) (\<lambda>_. P) F"
    and start: "\<And>c mid. G c \<Longrightarrow> dst \<noteq> ac_owner_engine c \<Longrightarrow>
      triple P (db_start_migration E (new_migration_record mid a (ac_owner_engine c) dst (ac_owner_epoch c) PREPARING))
        (\<lambda>_. B mid c) F"
    and unknown: "\<And>c mid e s. B mid c s \<Longrightarrow> G c \<Longrightarrow> ac_owner_engine c \<notin> set (mc_engines C) \<Longrightarrow> F e s"
    and body: "\<And>c mid. G c \<Longrightarrow> dst \<noteq> ac_owner_engine c \<Longrightarrow>
      triple (B mid c) (migrate_body C E fuel mid c dst pc) Q (H mid c)"
    and abort: "\<And>c mid e. G c \<Longrightarrow> triple (H mid c e) (abort_unfinished E mid e) Q F"
    and stuck: "\<And>c mid s. H mid c Unfinished s \<Longrightarrow> F Unfinished s"
  shows "triple P (migrate_serial C E fuel a dst pc) Q F"
  unfolding migrate_serial_def
proof (rule triple_bind [OF agent])
  fix c
  let ?rest = "\<lambda>mid. thenP (guardP (ac_owner_engine c \<in> set (mc_engines C)) (KeyError (py_repr (ac_owner_engine c))))
     (catching (migrate_body C E fuel mid c dst pc) (abort_unfinished E mid))"
  have rest: "triple (B mid c) (?rest mid) Q F" if "G c" "dst \<noteq> ac_owner_engine c" for mid
    by (rule triple_then [OF triple_guard [where Q = "B mid c"]])
      (use that in \<open>auto intro: unknown triple_catching [OF body abort stuck]\<close>)
  show "triple (\<lambda>s. P s \<and> G c) (thenP (guardP (dst \<noteq> ac_owner_engine c) (ValueError ''source and destination must differ''))
     (thenP (guardP (dst \<in> set (mc_engines C)) (KeyError (py_repr dst)))
     (bindP (uuid4_hex E) (\<lambda>mid.
      thenP (db_start_migration E (new_migration_record mid a (ac_owner_engine c) dst (ac_owner_epoch c) PREPARING))
        (?rest mid))))) Q F"
  proof (cases "G c \<and> dst \<noteq> ac_owner_engine c")
    case True
    then show ?thesis
      by (intro triple_then [OF triple_guard [where Q = P]] triple_bind [OF fresh] triple_then [OF start] rest)
        (auto intro: raise)
  next
    case False
    then show ?thesis by (auto simp: triple_def guardP_def thenP_def bindP_def throw_def intro: raise)
  qed
qed

lemma store_property_since: "store_property (since S)"
  by (simp add: store_property_def since_def)

lemma migrate_serial_returns:
  "triple (since S) (migrate_serial C E fuel a dst pc) (migrated E S a dst) (\<lambda>_ _. True)"
proof (rule migrate_serial_triple [where G = "\<lambda>c. ac_agent_id c = a" and H = "\<lambda>_ _ _ _. True"
      and B = "\<lambda>mid c. published S mid a (ac_owner_engine c) dst (ac_owner_epoch c)"])
  show "triple (since S) (db E (\<lambda>_. get_agent a)) (\<lambda>c s. since S s \<and> ac_agent_id c = a) (\<lambda>_ _. True)"
    by (rule triple_get_agent)
  show "triple (since S) (uuid4_hex E) (\<lambda>_. since S) (\<lambda>_ _. True)"
    by (rule triple_since [OF steps_uuid4_hex])
next
  fix c :: agent_continuation and mid
  assume c: "ac_agent_id c = a" "dst \<noteq> ac_owner_engine c"
  show "triple (published S mid a (ac_owner_engine c) dst (ac_owner_epoch c))
      (migrate_body C E fuel mid c dst pc) (migrated E S a dst) (\<lambda>_ _. True)"
  proof (rule migrate_body_triple [OF c(1) refl refl c(2) [symmetric] store_property_published store_property_published
        store_property_published, where F = "\<lambda>_ _. True"])
    show "triple (committing E S mid a (ac_owner_engine c) dst (ac_owner_epoch c) k) (fault_point E ''COMMITTED'' mid)
        (\<lambda>_. committing E S mid a (ac_owner_engine c) dst (ac_owner_epoch c) k) (\<lambda>_ _. True)" for k
      by (rule triple_conseq [OF triple_local [OF local_steps(2) store_property_committing]]) simp_all
  qed (auto intro!: triple_published commit_committing rt_traffic.engine_traffic_axioms rt_awaits.steps_awaits
      steps_db keeps_intros)
qed (auto intro!: triple_True start_publishes simp: abort_unfinished_def thenP_def throw_def
    dest!: db_result(1) elim!: get_agent_ok bindP_InrE dest: sel_key)

text \<open>
  C11. A migration that returns has moved the lease: in any interleaving with other
  coordinators, executors and recoveries, when \<open>migrate\<close> returns, there was a moment during
  the call at which the lease went from the reported source and old epoch to the destination
  at the next epoch and the record became \<open>COMMITTED\<close>, and a nonempty prefix was moved. The
  reported new epoch is read after that moment: it is the next epoch, or a later one if
  another process moved the lease on in between, and the agent is at that epoch or beyond.
  Without other processes it is exactly the next epoch and the destination owns the agent.
\<close>

theorem migrate_moves_lease:
  assumes "migrate C E tries fuel a dst s = (Inr r, t)"
  shows "mo_source_engine r \<noteq> dst \<and> mo_destination_engine r = dst \<and> mo_agent_id r = a \<and> 0 < mo_token_count r \<and>
    (\<exists>u v. store_le (rt_store s) u \<and> leases u a = Some (mo_source_engine r, mo_old_epoch r) \<and>
       (\<exists>now. commit_migration_tx now (mo_migration_id r) u = (Inr a, v)) \<and>
       leases v a = Some (dst, mo_old_epoch r + 1) \<and>
       (\<exists>m. sel mr_migration_id (mo_migration_id r) (migrations v) = Some m \<and> mr_state m = COMMITTED \<and>
          migration_of (mo_migration_id r) a (mo_source_engine r) dst (mo_old_epoch r) m) \<and>
       store_le v (rt_store t)) \<and>
    mo_old_epoch r + 1 \<le> mo_new_epoch r \<and>
    (\<exists>e k. leases (rt_store t) a = Some (e, k) \<and> mo_new_epoch r \<le> k \<and> (k = mo_old_epoch r + 1 \<longrightarrow> e = dst)) \<and>
    (alone E \<longrightarrow> mo_new_epoch r = mo_old_epoch r + 1 \<and> leases (rt_store t) a = Some (dst, mo_new_epoch r))"
proof -
  let ?S = "rt_store s"
  have loop: "triple (since ?S) (owner_loop C E tries a dst (migrate_serial C E fuel a dst None)) (migrated E ?S a dst) (\<lambda>_ _. True)"
    by (rule owner_loop_triple [OF migrate_serial_returns])
      (auto intro!: triple_since rt_awaits.steps_awaits steps_db keeps_intros store_property_migrated store_property_since
        store_property_True)
  obtain x where "owner_loop C E tries a dst (migrate_serial C E fuel a dst None) s = (Inr x, t)" and "fst x = r"
    using assms unfolding migrate_def thenP_def
    by (elim bindP_InrE) (auto simp: guardP_def ret_def throw_def split: if_splits prod.splits)
  then obtain g where m: "migrated E ?S a dst (r, g) t"
    using triple_returns [OF loop since_start] by (cases x) auto
  then have moved: "moved ?S (mo_migration_id r) a (mo_source_engine r) dst (mo_old_epoch r) t"
    and c: "mo_old_epoch r + 1 \<le> mo_new_epoch r" "\<exists>e k. leases (rt_store t) a = Some (e, k) \<and> mo_new_epoch r \<le> k"
    and alone: "alone E \<longrightarrow> leases (rt_store t) a = Some (dst, mo_old_epoch r + 1)"
    by (auto simp: migrated_def reads_lease_def handed_over_def)
  from moved have "\<exists>e k. leases (rt_store t) a = Some (e, k) \<and> mo_new_epoch r \<le> k \<and> (k = mo_old_epoch r + 1 \<longrightarrow> e = dst)"
    by (rule moved_lease) (use c in auto)
  moreover have "alone E \<longrightarrow> mo_new_epoch r = mo_old_epoch r + 1 \<and> leases (rt_store t) a = Some (dst, mo_new_epoch r)"
    using alone c by auto
  moreover have "mo_source_engine r \<noteq> dst" "mo_destination_engine r = dst" "mo_agent_id r = a" "0 < mo_token_count r"
    using m by (auto simp: migrated_def)
  ultimately show ?thesis using c(1) moved_moment [OF moved] by (intro conjI) assumption+
qed

section \<open>A migration that fails\<close>

definition no_faults :: "env \<Rightarrow> bool" where
  "no_faults E \<longleftrightarrow> (\<forall>l p m. inject_fault E l p m = None)"

lemma no_fault_point: "no_faults E \<Longrightarrow> store_property P \<Longrightarrow> triple P (fault_point E pt mid) (\<lambda>_. P) (\<lambda>_ _. False)"
  by (rule tripleI) (auto simp: fault_point_def no_faults_def log_event_def store_property_def)

lemma store_property_in_flight: "store_property (in_flight s0 mid a src dst n st)"
  unfolding store_property_def using in_flight_same by blast

definition unfinished_migration :: "store \<Rightarrow> string \<Rightarrow> agent_id \<Rightarrow> engine_id \<Rightarrow> engine_id \<Rightarrow> int \<Rightarrow> exn \<Rightarrow> rt \<Rightarrow> bool" where
  "unfinished_migration s0 mid a src dst n e s \<longleftrightarrow>
     in_flight s0 mid a src dst n PREPARING s \<or> in_flight s0 mid a src dst n COPYING s \<or>
     (e = AssertionError [] \<and> handed_over mid a src dst n s)"

text \<open>What a failed migration alone leaves: the old owner, unless the new one has already taken over.\<close>

definition failed_cleanly :: "store \<Rightarrow> agent_id \<Rightarrow> engine_id \<Rightarrow> exn \<Rightarrow> rt \<Rightarrow> bool" where
  "failed_cleanly s0 a dst e s \<longleftrightarrow>
     e = Unfinished \<or> owners_kept s0 s \<or> (e = AssertionError [] \<and> (\<exists>mid src n. handed_over mid a src dst n s))"

lemma abort_alone:
  assumes alone: "alone E"
  shows "triple (unfinished_migration s0 mid a src dst n e) (abort_unfinished E mid e) Q (failed_cleanly s0 a dst)"
proof -
  have flight: "triple (in_flight s0 mid a src dst n st) (abort_unfinished E mid e) Q (failed_cleanly s0 a dst)"
    if "st = PREPARING \<or> st = COPYING" for st
  proof -
    have "triple (\<lambda>s. in_flight s0 mid a src dst n st s \<and> mr_state m = st)
        (thenP (whenP (mr_state m \<in> {PREPARING, COPYING}) (db E (\<lambda>t. transition_migration t mid (mr_state m) ABORTED tf)))
          (throw e)) Q (failed_cleanly s0 a dst)" for m tf
    proof (cases "mr_state m = st")
      case True
      then show ?thesis
        using that owners_kept_aborted
        by (intro triple_then [where R = "in_flight s0 mid a src dst n ABORTED"] triple_pure)
          (auto simp: whenP_def failed_cleanly_def intro!: triple_safe [OF migration_moves_alone [OF alone]])
    qed (simp add: triple_def)
    then show ?thesis
      unfolding abort_unfinished_def by (rule triple_bind [OF triple_safe [OF get_migration_alone(1) [OF alone]]])
  qed
  have late: "triple (\<lambda>s. e = AssertionError [] \<and> handed_over mid a src dst n s) (abort_unfinished E mid e) Q (failed_cleanly s0 a dst)"
  proof -
    have "triple (\<lambda>s. (e = AssertionError [] \<and> handed_over mid a src dst n s) \<and> mr_state m = COMMITTED)
        (thenP (whenP (mr_state m \<in> {PREPARING, COPYING}) (db E (\<lambda>t. transition_migration t mid (mr_state m) ABORTED tf)))
          (throw e)) Q (failed_cleanly s0 a dst)" for m tf
      by (auto simp: triple_def whenP_def thenP_def bindP_def ret_def throw_def failed_cleanly_def)
    moreover have "triple (\<lambda>s. e = AssertionError [] \<and> handed_over mid a src dst n s) (db E (\<lambda>_. get_migration mid))
      (\<lambda>m s. (e = AssertionError [] \<and> handed_over mid a src dst n s) \<and> mr_state m = COMMITTED) (failed_cleanly s0 a dst)"
      using triple_returns [OF get_migration_alone(2) [OF alone]] triple_raises [OF get_migration_alone(2) [OF alone]]
      by (intro tripleI) blast+
    ultimately show ?thesis unfolding abort_unfinished_def by (rule triple_bind [rotated])
  qed
  show ?thesis
    unfolding unfinished_migration_def by (intro triple_disj flight late) simp_all
qed

lemma migrate_serial_alone:
  assumes alone: "alone E" and nf: "no_faults E" and ok: "store_ok s0"
    and owner: "leases s0 a = Some (src, n)" "src \<in> set (mc_engines C)"
  shows "triple (\<lambda>s. rt_store s = s0) (migrate_serial C E fuel a dst pc) (migrated E s0 a dst) (failed_cleanly s0 a dst)"
proof (rule migrate_serial_triple [where G = "\<lambda>c. ac_agent_id c = a \<and> ac_owner_engine c = src \<and> ac_owner_epoch c = n"
      and B = "\<lambda>mid c. in_flight s0 mid a src dst n PREPARING" and H = "\<lambda>mid c. unfinished_migration s0 mid a src dst n"])
  show "triple (\<lambda>s. rt_store s = s0) (db E (\<lambda>_. get_agent a))
      (\<lambda>c s. rt_store s = s0 \<and> ac_agent_id c = a \<and> ac_owner_engine c = src \<and> ac_owner_epoch c = n) (failed_cleanly s0 a dst)"
    using owner by (intro tripleI) (auto dest!: db_alone_store [OF alone] simp: get_agent_def leases_def failed_cleanly_def
        owners_kept_def dest: sel_key split: option.splits)
next
  show "triple (\<lambda>s. rt_store s = s0) (uuid4_hex E) (\<lambda>_ s. rt_store s = s0) (failed_cleanly s0 a dst)"
    by (rule tripleI) (auto simp: uuid4_hex_def log_event_def)
next
  fix c :: agent_continuation and mid
  assume c: "ac_agent_id c = a \<and> ac_owner_engine c = src \<and> ac_owner_epoch c = n" and ne: "dst \<noteq> ac_owner_engine c"
  show "triple (\<lambda>s. rt_store s = s0)
      (db_start_migration E (new_migration_record mid a (ac_owner_engine c) dst (ac_owner_epoch c) PREPARING))
      (\<lambda>_. in_flight s0 mid a src dst n PREPARING) (failed_cleanly s0 a dst)"
    using c by (auto intro!: triple_conseq [OF start_alone [OF alone ok]] simp: failed_cleanly_def owners_kept_refl)
  show "triple (in_flight s0 mid a src dst n PREPARING) (migrate_body C E fuel mid c dst pc) (migrated E s0 a dst)
      (unfinished_migration s0 mid a src dst n)"
  proof (rule migrate_body_triple [where R = "in_flight s0 mid a src dst n COPYING" and T = "in_flight s0 mid a src dst n DEST_READY"])
    have same: "triple P m (\<lambda>_. P) F" if "\<And>r. engine_traffic r E \<Longrightarrow> steps r m" "store_property P" "\<And>e s. P s \<Longrightarrow> F e s"
      for P F and m :: "(rt, 'x) prog"
      by (rule triple_conseq [OF triple_local [OF that(1) [OF alone_traffic [OF alone]] that(2)]]) (auto intro: that(3))
    show "triple (in_flight s0 mid a src dst n PREPARING) m (\<lambda>_. in_flight s0 mid a src dst n PREPARING)
        (unfinished_migration s0 mid a src dst n)" if "\<And>r. engine_traffic r E \<Longrightarrow> steps r m" for m :: "(rt, json) prog"
      by (rule same [OF that]) (auto simp: store_property_in_flight unfinished_migration_def)
    show "triple (in_flight s0 mid a src dst n PREPARING) m (\<lambda>_. in_flight s0 mid a src dst n PREPARING)
        (unfinished_migration s0 mid a src dst n)" if "\<And>r. engine_traffic r E \<Longrightarrow> steps r m" for m :: "(rt, string \<times> int list) prog"
      by (rule same [OF that]) (auto simp: store_property_in_flight unfinished_migration_def)
    show "triple (in_flight s0 mid a src dst n COPYING) m (\<lambda>_. in_flight s0 mid a src dst n COPYING)
        (unfinished_migration s0 mid a src dst n)" if "\<And>r. engine_traffic r E \<Longrightarrow> steps r m" for m :: "(rt, (exn + json) list) prog"
      by (rule same [OF that]) (auto simp: store_property_in_flight unfinished_migration_def)
    show "triple (in_flight s0 mid a src dst n COPYING) m (\<lambda>_. in_flight s0 mid a src dst n COPYING)
        (unfinished_migration s0 mid a src dst n)" if "\<And>r. engine_traffic r E \<Longrightarrow> steps r m" for m :: "(rt, unit) prog"
      by (rule same [OF that]) (auto simp: store_property_in_flight unfinished_migration_def)
    show "triple (in_flight s0 mid a src dst n DEST_READY) (db_commit_migration E mid) (committing E s0 mid a src dst n)
        (unfinished_migration s0 mid a src dst n)"
      by (rule triple_safe, rule triple_conseq [OF commit_alone [OF alone, of s0 mid a src dst n]]) (auto simp: committing_def)
    show "unfinished_migration s0 mid a src dst n (AssertionError []) u" if "committing E s0 mid a src dst n k u" for k u
      using that alone by (simp add: committing_def unfinished_migration_def)
  qed (use c ne in \<open>auto simp: store_property_in_flight unfinished_migration_def
      intro!: triple_safe [OF no_fault_point [OF nf]] store_property_committing triple_safe [OF migration_moves_alone [OF alone]]\<close>)
qed (use owner in \<open>auto intro: abort_alone [OF alone] simp: failed_cleanly_def owners_kept_refl\<close>)

text \<open>
  C12. A migration alone that fails leaves the owner in place: with no other process and no
  injected fault, when \<open>migrate\<close> raises (other than by running out of fuel), whatever the
  engines answered and at whatever step, every agent has its old lease and progress and no
  live migration was added, so a later migration of the agent can start; or the destination
  has taken over and only the result was malformed.
\<close>

theorem failed_migrate_keeps_owner:
  assumes "alone E" and "no_faults E" and "store_ok (rt_store s)"
    and "leases (rt_store s) a = Some (src, n)" and "src \<in> set (mc_engines C)"
    and call: "migrate C E tries fuel a dst s = (Inl e, t)" and "e \<noteq> Unfinished" and "e \<noteq> AssertionError []"
  shows "agents (rt_store t) = agents (rt_store s) \<and>
    (\<forall>m \<in> set (migrations (rt_store t)). live_state (mr_state m) \<longrightarrow> m \<in> set (migrations (rt_store s)))"
proof -
  let ?s0 = "rt_store s" and ?P = "\<lambda>u. rt_store u = rt_store s"
  have P: "store_property ?P" by (simp add: store_property_def)
  have F: "store_property (failed_cleanly ?s0 a dst e)" for e
    by (simp add: store_property_def failed_cleanly_def owners_kept_def handed_over_def)
  have loop: "triple ?P (owner_loop C E tries a dst (migrate_serial C E fuel a dst None)) (migrated E ?s0 a dst) (failed_cleanly ?s0 a dst)"
  proof (rule owner_loop_triple [OF migrate_serial_alone [OF assms(1-5)] _ _ _ P store_property_migrated F])
    show "triple ?P (db E (\<lambda>_. get_agent a)) (\<lambda>_. ?P) (failed_cleanly ?s0 a dst)"
      by (rule triple_conseq [OF triple_db_read [OF assms(1) get_agent_state, of ?P]]) (auto simp: failed_cleanly_def owners_kept_refl)
  qed (auto intro: acquire_alone [OF assms(1) P] simp: failed_cleanly_def owners_kept_refl)
  have "triple ?P (migrate C E tries fuel a dst) (\<lambda>_ _. True) (failed_cleanly ?s0 a dst)"
    unfolding migrate_def
    by (rule triple_then [OF triple_guard [where Q = ?P]], assumption, simp add: failed_cleanly_def owners_kept_refl,
        rule triple_bind [OF loop]) (auto split: prod.splits intro: triple_pure)
  from triple_raises [OF this refl call] have "failed_cleanly ?s0 a dst e t" .
  then show ?thesis using assms(7,8) by (auto simp: failed_cleanly_def owners_kept_def)
qed

end
