(* ===== verification/MigrationRepair.thy ===== *)
theory MigrationRepair
  imports MigrationProps
begin

text \<open>
  What follows a migration: recovery from a failed destination, reconciliation after a
  controller restart, and what a recovery during a migration of the same agent leaves.
\<close>

section \<open>Recovery\<close>

lemma post_to_alone_store:
  assumes "alone E" and "post_to C E e c s = (r, t)"
  shows "rt_store t = rt_store s"
  using stepsD [OF engine_traffic.steps_post_to [OF alone_traffic [OF assms(1)]] assms(2)] by (simp add: same_store_def)

lemma post_to_raises: "post_to C E e c s = (Inl x, t) \<Longrightarrow> x \<noteq> Unfinished"
  by (auto simp: post_to_def post_def throw_def call_engine_def post_sync_def Let_def
      split: if_splits prod.splits http_outcome.splits json.splits)

lemma rebind_shadow_alone:
  assumes "alone E"
  shows "\<exists>b t. rebind_shadow C E m e s = (Inr b, t) \<and> rt_store t = rt_store s \<and>
    (b \<longrightarrow> mr_state m = COMMITTED \<and> e = mr_source_engine m \<and>
       Posted e (RebindPrefix (mr_agent_id m) (mr_source_epoch m) (mr_source_epoch m + 2)) \<in> set (rt_log t))"
proof -
  let ?call = "RebindPrefix (mr_agent_id m) (mr_source_epoch m) (mr_source_epoch m + 2)"
  obtain r t where rt: "post_to C E (mr_source_engine m) ?call s = (r, t)"
    by (cases "post_to C E (mr_source_engine m) ?call s")
  have "rt_store t = rt_store s" by (rule post_to_alone_store [OF assms rt])
  moreover have "r = Inr j \<Longrightarrow> Posted (mr_source_engine m) ?call \<in> set (rt_log t)" for j
    using rt post_log by (fastforce simp: post_to_def throw_def split: if_splits)
  moreover have "r \<noteq> Inl Unfinished" using rt post_to_raises by blast
  ultimately show ?thesis
    using rt by (cases r) (auto simp: rebind_shadow_def catching_def try_except_def thenP_def bindP_def ret_def throw_def)
qed

lemma recover_tx_run:
  assumes ok: "store_ok s" and m: "sel mr_migration_id mid (migrations s) = Some m"
    and st: "mr_state m = COMMITTED \<or> mr_state m = SOURCE_RELEASED"
    and lease: "leases s (mr_agent_id m) = Some (mr_destination_engine m, mr_source_epoch m + 1)"
  shows "\<exists>t. recover_tx now mid e s = (Inr (mr_agent_id m), t) \<and>
    leases t = (leases s)(mr_agent_id m \<mapsto> (e, mr_source_epoch m + 2)) \<and>
    map_option mr_state (sel mr_migration_id mid (migrations t)) = Some RECOVERED"
proof -
  obtain r where r: "sel ac_agent_id (mr_agent_id m) (agents s) = Some r" "ac_owner_engine r = mr_destination_engine m"
    "ac_owner_epoch r = mr_source_epoch m + 1" using lease by (auto simp: leases_def)
  let ?f = "\<lambda>r. r\<lparr>mr_state := RECOVERED, mg_updated_at := now\<rparr>"
  let ?s1 = "s\<lparr>agents := update_owner now (mr_agent_id m) e (mr_source_epoch m + 1 + 1) (agents s)\<rparr>"
  let ?t = "?s1\<lparr>migrations := upd (\<lambda>r. mr_migration_id r = mid) ?f (migrations s)\<rparr>"
  have "update_migration mid ?f ?s1 = Inr ?t"
    using ok m st by (intro update_migration_lowers) auto
  then have "recover_tx now mid e s = (Inr (mr_agent_id m), ?t)"
    using m st r by (auto simp: recover_tx_def transaction_def Let_def)
  moreover have "leases ?t = (leases s)(mr_agent_id m \<mapsto> (e, mr_source_epoch m + 2))"
    using r by (simp add: leases_update_owner add.commute)
  moreover have "sel mr_migration_id mid (migrations ?t) = Some (?f m)"
    using m by (simp add: migration_tab.update_by_key)
  ultimately show ?thesis by simp
qed

lemma recover_alone:
  assumes alone: "alone E" and ok: "store_ok (rt_store s)" and m: "sel mr_migration_id mid (migrations (rt_store s)) = Some m"
    and st: "mr_state m = COMMITTED \<or> mr_state m = SOURCE_RELEASED"
    and lease: "leases (rt_store s) (mr_agent_id m) = Some (mr_destination_engine m, mr_source_epoch m + 1)"
  shows "\<exists>c t. db_recover_committed E mid e s = (Inr c, t) \<and> rt_log t = rt_log s @ [StoreTx, StoreTx] \<and>
    leases (rt_store t) = (leases (rt_store s))(mr_agent_id m \<mapsto> (e, mr_source_epoch m + 2)) \<and>
    ac_owner_engine c = e \<and> ac_owner_epoch c = mr_source_epoch m + 2 \<and>
    map_option mr_state (sel mr_migration_id mid (migrations (rt_store t))) = Some RECOVERED"
proof -
  let ?a = "mr_agent_id m" and ?now = "wall_clock E (rt_log s)"
  obtain u where u: "recover_tx ?now mid e (rt_store s) = (Inr ?a, u)"
    and lu: "leases u = (leases (rt_store s))(?a \<mapsto> (e, mr_source_epoch m + 2))"
    and mu: "map_option mr_state (sel mr_migration_id mid (migrations u)) = Some RECOVERED"
    using recover_tx_run [OF ok m st lease] by blast
  let ?s1 = "s\<lparr>rt_store := u, rt_log := rt_log s @ [StoreTx]\<rparr>"
  have "recover_or_read ?now mid e (rt_store s) = (Inr (Inr ?a), u)"
    using u m st by (auto simp: recover_or_read_def bindP_def ret_def)
  then have one: "db E (\<lambda>now. recover_or_read now mid e) s = (Inr (Inr ?a), ?s1)"
    by (rule db_alone [OF alone])
  obtain r where r: "sel ac_agent_id ?a (agents u) = Some r" "ac_owner_engine r = e" "ac_owner_epoch r = mr_source_epoch m + 2"
    using fun_cong [OF lu, of ?a] by (auto simp: leases_def)
  let ?c = "agent_continuation.truncate r" and ?t = "?s1\<lparr>rt_store := u, rt_log := rt_log ?s1 @ [StoreTx]\<rparr>"
  have two: "db E (\<lambda>_. get_agent ?a) ?s1 = (Inr ?c, ?t)"
    using r(1) by (intro db_alone [OF alone]) (simp add: get_agent_def)
  have "db_recover_committed E mid e s = (Inr ?c, ?t)"
    using one two by (simp add: db_recover_committed_def bindP_def)
  then show ?thesis using lu mu r by (intro exI [of _ ?c] exI [of _ ?t]) (simp add: agent_continuation.defs)
qed

text \<open>
  Recovery needs no engine: alone, a committed or released migration whose destination
  still holds the lease is recovered whatever the engines answer. The lease moves to the
  recovery engine (the source unless another is named) at \<open>source_epoch + 2\<close>, the record is
  \<open>RECOVERED\<close>, and the shadow is reported reused only if the source was asked to rebind it
  from the old epoch to the new one, which only a \<open>COMMITTED\<close> migration back to its source does.
\<close>

theorem recovery_needs_no_engine:
  assumes alone: "alone E" and ok: "store_ok (rt_store s)"
    and m: "sel mr_migration_id mid (migrations (rt_store s)) = Some m"
    and st: "mr_state m = COMMITTED \<or> mr_state m = SOURCE_RELEASED"
    and lease: "leases (rt_store s) (mr_agent_id m) = Some (mr_destination_engine m, mr_source_epoch m + 1)"
    and e: "e = recovery_target requested (mr_source_engine m)"
  shows "\<exists>r t. recover_destination_failure C E mid requested s = (Inr r, t) \<and>
    leases (rt_store t) = (leases (rt_store s))(mr_agent_id m \<mapsto> (e, mr_source_epoch m + 2)) \<and>
    ac_owner_engine (rr_continuation r) = e \<and> ac_owner_epoch (rr_continuation r) = mr_source_epoch m + 2 \<and>
    map_option mr_state (sel mr_migration_id mid (migrations (rt_store t))) = Some RECOVERED \<and>
    (rr_source_shadow_reused r \<longrightarrow> mr_state m = COMMITTED \<and> e = mr_source_engine m \<and>
       Posted e (RebindPrefix (mr_agent_id m) (mr_source_epoch m) (mr_source_epoch m + 2)) \<in> set (rt_log t))"
proof -
  let ?m = "migration_record.truncate m"
  let ?s1 = "s\<lparr>rt_store := rt_store s, rt_log := rt_log s @ [StoreTx]\<rparr>"
  have get: "db E (\<lambda>_. get_migration mid) s = (Inr ?m, ?s1)"
    using m by (intro db_alone [OF alone]) (simp add: get_migration_def)
  obtain b s2 where b: "rebind_shadow C E ?m e ?s1 = (Inr b, s2)" "rt_store s2 = rt_store s"
    and used: "b \<longrightarrow> mr_state m = COMMITTED \<and> e = mr_source_engine m \<and>
       Posted e (RebindPrefix (mr_agent_id m) (mr_source_epoch m) (mr_source_epoch m + 2)) \<in> set (rt_log s2)"
    using rebind_shadow_alone [OF alone, of C ?m e ?s1] by auto
  obtain c t where rec: "db_recover_committed E mid e s2 = (Inr c, t)" and log: "rt_log t = rt_log s2 @ [StoreTx, StoreTx]"
    and t: "leases (rt_store t) = (leases (rt_store s))(mr_agent_id m \<mapsto> (e, mr_source_epoch m + 2))" "ac_owner_engine c = e"
      "ac_owner_epoch c = mr_source_epoch m + 2"
      "map_option mr_state (sel mr_migration_id mid (migrations (rt_store t))) = Some RECOVERED"
    using recover_alone [OF alone, of s2 mid m e] ok m st lease b(2) by auto
  have "recover_destination_failure C E mid requested s = (Inr \<lparr>rr_continuation = c, rr_source_shadow_reused = b\<rparr>, t)"
    using get b st e rec
    by (auto simp: recover_destination_failure_def thenP_def bindP_def [of "db E _"] bindP_def [of "rebind_shadow _ _ _ _"]
        bindP_def [of "db_recover_committed _ _ _"] guardP_def ret_def Let_def)
  then show ?thesis using t used log by auto
qed

section \<open>Reconciliation\<close>




















section \<open>A recovery during a migration\<close>

text \<open>
  Engines that answer every call with success, and an agent at \<open>e1\<close> that an earlier,
  released migration \<open>m1\<close> brought there from \<open>e0\<close>. While it migrates to \<open>e2\<close>, another
  process recovers \<open>m1\<close>, as it does when \<open>e1\<close> fails.
\<close>

definition obliging :: env where
  "obliging = quiet_env\<lparr>fresh_hex := (\<lambda>_. ''m2''),
     transport := (\<lambda>_ _ _. Body (JObj [(''success'', JBool True), (''state'', JStr ''COMPLETE''),
        (''token_count'', JInt 1), (''bytes_transferred'', JInt 5)]))\<rparr>"

definition recovering :: env where
  "recovering = obliging\<lparr>others := (\<lambda>l. if l \<noteq> [] \<and> last l = Fault ''SOURCE_PINNED'' ''m2''
     then [RecoverMigration 0 ''m1'' ''e0''] else [])\<rparr>"

definition moved_before :: rt where
  "moved_before = \<lparr>rt_store = demo_store\<lparr>
       agents := [agent_row_of 0 (demo_agent\<lparr>ac_owner_engine := ''e1'', ac_owner_epoch := 2\<rparr>)],
       migrations := [migration_row_of 0 (new_migration_record ''m1'' ''a'' ''e0'' ''e1'' 1 SOURCE_RELEASED)]\<rparr>,
     rt_log = [], rt_groups = []\<rparr>"

text \<open>A \<open>DEST_READY\<close> record of an agent whose lease is past the record's epoch.\<close>

definition overtaken_record :: "string \<Rightarrow> migration_row \<Rightarrow> store \<Rightarrow> bool" where
  "overtaken_record mid m s \<longleftrightarrow> sel mr_migration_id mid (migrations s) = Some m \<and> mr_state m = DEST_READY \<and>
     (\<exists>e k. leases s (mr_agent_id m) = Some (e, k) \<and> mr_source_epoch m < k)"

definition transitions_record :: "string \<Rightarrow> store_call \<Rightarrow> bool" where
  "transitions_record mid c = (case c of TransitionMigration now k x y tf \<Rightarrow> k = mid | _ \<Rightarrow> False)"

lemma overtaken_commit:
  assumes "overtaken_record mid m s"
  shows "commit_migration_tx now mid s = (Inl (StaleLease (mr_agent_id m)), s)"
  using assms by (auto simp: overtaken_record_def leases_def commit_migration_tx_def transaction_def)

lemma overtaken_recover:
  assumes "overtaken_record mid m s"
  shows "recover_tx now mid e s = (Inl (StateConflict ''only a committed or source-released migration can be recovered''), s)"
  using assms by (simp add: overtaken_record_def recover_tx_def transaction_def)

lemma migrations_untouched:
  "migrations (snd (register_agent now b s)) = migrations s"
  "migrations (snd (commit_step now b n s)) = migrations s"
  "migrations (snd (claim_step now a k e n rid s)) = migrations s"
  "migrations (snd (commit_claimed_step now b n rid s)) = migrations s"
  "migrations (snd (fail_claimed_step now a k rid unk s)) = migrations s"
  "migrations (snd (put_tool_result now w s)) = migrations s"
  "migrations (snd (insert_effect now v s)) = migrations s"
  "migrations (snd (swap_effect now j st st' i res s)) = migrations s"
  apply (rule tx_frame [OF register_agent_def, where f = migrations], elim register_agent_ok, simp)
  apply (rule tx_frame [OF commit_step_def, where f = migrations], elim commit_step_ok, simp)
  apply (rule tx_frame [OF claim_step_def, where f = migrations], elim claim_step_ok, auto)[1]
  apply (rule tx_frame [OF commit_claimed_step_def, where f = migrations], elim commit_claimed_step_ok, auto)[1]
  apply (simp add: fail_claimed_step_def transaction_def Let_def)
  apply (simp add: put_tool_result_def transaction_def split: prod.splits)
  apply (simp add: insert_effect_def transaction_def split: prod.splits)
  apply (rule tx_frame [OF swap_effect_def, where f = migrations], elim swap_effect_ok, simp)
  done

text \<open>No call but a transition of the record itself changes it.\<close>

lemma update_other_migration:
  "update_migration j f s = Inr t \<Longrightarrow> (\<And>r. mr_migration_id (f r) = mr_migration_id r) \<Longrightarrow> j \<noteq> mid \<Longrightarrow>
    sel mr_migration_id mid (migrations t) = sel mr_migration_id mid (migrations s)"
  using migration_tab.update_by_key [of f mid j "migrations s"] update_migration_ok(1) [of j f s t] by simp

lemma overtaken_row:
  assumes "overtaken_record mid m s" and "\<not> transitions_record mid c"
  shows "sel mr_migration_id mid (migrations (run_call c s)) = Some m"
proof -
  have m: "sel mr_migration_id mid (migrations s) = Some m" using assms(1) by (simp add: overtaken_record_def)
  show ?thesis
  proof (cases c)
    case (InsertMigration now r)
    have "sel mr_migration_id mid (migrations (snd (insert_migration now r s))) = Some m"
      by (rule tx_cases [OF insert_migration_def, of now r s])
        (use m in \<open>auto elim!: insert_migration_ok dest: migration_tab.insert_grows\<close>)
    then show ?thesis using InsertMigration by simp
  next
    case (TransitionMigration now j x y tf)
    then have j: "j \<noteq> mid" using assms(2) by (simp add: transitions_record_def)
    have "sel mr_migration_id mid (migrations (snd (transition_migration now j x y tf s))) = Some m"
    proof (rule tx_cases [OF transition_migration_def, of now j x y tf s])
      fix u
      assume "transition_migration now j x y tf s = (Inr u, snd (transition_migration now j x y tf s))"
      then obtain row where "update_migration j (apply_transition now y tf) s = Inr (snd (transition_migration now j x y tf s))"
        by (rule transition_migration_ok)
      from update_other_migration [OF this _ j] m show ?thesis by (simp add: apply_transition_def)
    qed (use m in simp)
    then show ?thesis using TransitionMigration by simp
  next
    case (CommitMigration now j)
    show ?thesis
    proof (cases "j = mid")
      case True
      then show ?thesis using CommitMigration overtaken_commit [OF assms(1)] m by simp
    next
      case False
      have "sel mr_migration_id mid (migrations (snd (commit_migration_tx now j s))) = Some m"
        by (rule tx_cases [OF commit_migration_tx_def, of now j s])
          (use m False in \<open>auto elim!: commit_migration_tx_ok dest!: update_other_migration [where mid = mid]\<close>)
      then show ?thesis using CommitMigration by simp
    qed
  next
    case (RecoverMigration now j e)
    show ?thesis
    proof (cases "j = mid")
      case True
      then show ?thesis using RecoverMigration overtaken_recover [OF assms(1)] m by simp
    next
      case False
      have "sel mr_migration_id mid (migrations (snd (recover_tx now j e s))) = Some m"
        by (rule tx_cases [OF recover_tx_def, of now j e s])
          (use m False in \<open>auto elim!: recover_tx_ok dest!: update_other_migration [where mid = mid]\<close>)
      then show ?thesis using RecoverMigration by simp
    qed
  qed (simp_all add: m migrations_untouched)
qed

lemma overtaken_run_calls:
  assumes "overtaken_record mid m s" and "\<forall>c \<in> set cs. \<not> transitions_record mid c"
  shows "overtaken_record mid m (run_calls cs s)"
  using assms
proof (induction cs arbitrary: s)
  case (Cons c cs)
  obtain e k where l: "leases s (mr_agent_id m) = Some (e, k)" "mr_source_epoch m < k"
    using Cons.prems(1) by (auto simp: overtaken_record_def)
  have "\<exists>e' k'. leases (run_call c s) (mr_agent_id m) = Some (e', k') \<and> mr_source_epoch m < k'"
    by (rule leases_step [OF run_call_le l(1), of c]) (use l(2) in auto)
  then have "overtaken_record mid m (run_call c s)"
    using overtaken_row [OF Cons.prems(1), of c] Cons.prems by (auto simp: overtaken_record_def)
  then show ?case using Cons.IH Cons.prems(2) by simp
qed simp

text \<open>
  C17. An overtaken migration strands its agent: once a migration's record is \<open>DEST_READY\<close>
  and the agent's lease has moved past its epoch, as a recovery of the previous migration
  does while this one runs, the handler of \<open>migrate\<close> re-raises without touching the record.
  From then on, through every run of store calls that does not transition this very record,
  the record stays \<open>DEST_READY\<close>: its commit raises \<open>StaleLease\<close>, its recovery is refused,
  and every new migration of the agent is refused, although the agent runs elsewhere.
\<close>

theorem recovery_strands_migration:
  assumes "overtaken_record mid m (rt_store s)"
    and "\<forall>c \<in> set (others E (rt_log s)). \<not> transitions_record mid c" and "\<forall>c \<in> set cs. \<not> transitions_record mid c"
  shows "\<exists>t. abort_unfinished E mid x s = (Inl x, t) \<and>
    (let u = run_calls cs (rt_store t) in
       map_option mr_state (sel mr_migration_id mid (migrations u)) = Some DEST_READY \<and>
       (\<forall>now. commit_migration_tx now mid u = (Inl (StaleLease (mr_agent_id m)), u)) \<and>
       (\<forall>now e. \<exists>y. recover_tx now mid e u = (Inl (StateConflict y), u)) \<and>
       (\<forall>now r. mr_agent_id r = mr_agent_id m \<longrightarrow> mr_state r = PREPARING \<longrightarrow>
          (\<exists>y. insert_migration now r u = (Inl (StateConflict y), u))))"
proof -
  let ?s1 = "rt_store (interfere E s)"
  have o1: "overtaken_record mid m ?s1" using overtaken_run_calls [OF assms(1,2)] by (simp add: interfere_def)
  then have "get_migration mid ?s1 = (Inr (migration_record.truncate m), ?s1)" by (simp add: overtaken_record_def get_migration_def)
  then have "abort_unfinished E mid x s = (Inl x, log_event StoreTx (interfere E s))"
    using o1 by (simp add: abort_unfinished_def thenP_def bindP_def db_def Let_def whenP_def throw_def ret_def overtaken_record_def
        migration_record.defs)
  moreover have o2: "overtaken_record mid m (run_calls cs (rt_store (log_event StoreTx (interfere E s))))"
    using overtaken_run_calls [OF o1 assms(3)] by (simp add: log_event_def)
  moreover have "\<exists>y. insert_migration now r u = (Inl (StateConflict y), u)"
    if "overtaken_record mid m u" "mr_agent_id r = mr_agent_id m" "mr_state r = PREPARING" for now r u
  proof -
    have "m \<in> set (migrations u)" "mr_state m = DEST_READY" using that(1) by (auto simp: overtaken_record_def dest: sel_mem)
    then have "\<not> one_live_migration_per_agent (migrations u @ [migration_row_of now r])"
      using that(2,3) by (auto simp: one_live_migration_per_agent_def migration_row_of_def intro!: image_eqI [of _ _ m])
    then show ?thesis
      by (auto simp: insert_migration_def transaction_def ins_def Let_def split: option.splits)
  qed
  ultimately show ?thesis
    using overtaken_commit [OF o2] overtaken_recover [OF o2]
    by (intro exI [of _ "log_event StoreTx (interfere E s)"]) (simp add: Let_def overtaken_record_def)
qed

text \<open>The run that gets there: the recovery during the migration of \<open>recovering\<close>.\<close>

lemma recovering_overtakes:
  "(case migrate ((new_migration_coordinator [''e0'', ''e1'', ''e2''])\<lparr>mc_base_port := 5\<rparr>) recovering 1 9 ''a'' ''e2'' moved_before of (r, t) \<Rightarrow>
     (case r of Inl (StaleLease _) \<Rightarrow> True | _ \<Rightarrow> False) \<and> leases (rt_store t) ''a'' = Some (''e0'', 3) \<and>
     (case sel mr_migration_id ''m2'' (migrations (rt_store t)) of None \<Rightarrow> False
      | Some m \<Rightarrow> mr_state m = DEST_READY \<and> mr_agent_id m = ''a'' \<and> mr_source_epoch m = 2))"
  by code_simp

section \<open>Witnesses\<close>

definition idle :: rt where
  "idle = \<lparr>rt_store = demo_store\<lparr>migrations := []\<rparr>, rt_log = [], rt_groups = []\<rparr>"

definition demo_coordinator :: migration_coordinator where
  "demo_coordinator = (new_migration_coordinator [''e0'', ''e1''])\<lparr>mc_base_port := 5\<rparr>"

lemma idle_ok: "store_ok (rt_store idle)" "leases (rt_store idle) ''a'' = Some (''e0'', 1)" "''e0'' \<in> set (mc_engines demo_coordinator)"
  by code_simp+

theorem pair_ports_disjoint_witness:
  "set (pair_ports demo_coordinator 0 1) \<inter> set (pair_ports demo_coordinator 1 0) = {}"
proof -
  have "engine_index demo_coordinator ''e0'' = Inr 0" "engine_index demo_coordinator ''e1'' = Inr 1" by code_simp+
  from pair_ports_disjoint [OF this _ this(2,1)] show ?thesis by simp
qed

theorem migrate_moves_lease_witness:
  "\<exists>r t. migrate demo_coordinator obliging 1 9 ''a'' ''e1'' idle = (Inr r, t) \<and> leases (rt_store t) ''a'' = Some (''e1'', 2)"
proof -
  have "(case fst (migrate demo_coordinator obliging 1 9 ''a'' ''e1'' idle) of Inr r \<Rightarrow> mo_old_epoch r = 1 | _ \<Rightarrow> False)" by code_simp
  then obtain r t where "migrate demo_coordinator obliging 1 9 ''a'' ''e1'' idle = (Inr r, t)" "mo_old_epoch r = 1"
    by (cases "migrate demo_coordinator obliging 1 9 ''a'' ''e1'' idle") (auto split: sum.splits)
  moreover have "alone obliging" by (simp add: alone_def obliging_def quiet_env_def)
  ultimately show ?thesis using migrate_moves_lease [of demo_coordinator obliging 1 9 "''a''" "''e1''" idle r t] by auto
qed

theorem failed_migrate_keeps_owner_witness:
  "\<exists>x t. migrate demo_coordinator quiet_env 1 9 ''a'' ''e1'' idle = (Inl (EngineRequestError x), t) \<and>
     agents (rt_store t) = agents (rt_store idle)"
proof -
  have "(case fst (migrate demo_coordinator quiet_env 1 9 ''a'' ''e1'' idle) of Inl (EngineRequestError _) \<Rightarrow> True | _ \<Rightarrow> False)"
    by code_simp
  then obtain x t where run: "migrate demo_coordinator quiet_env 1 9 ''a'' ''e1'' idle = (Inl (EngineRequestError x), t)"
    by (cases "migrate demo_coordinator quiet_env 1 9 ''a'' ''e1'' idle") (auto split: sum.splits exn.splits)
  have "no_faults quiet_env" by (simp add: no_faults_def quiet_env_def late_commit_def)
  from failed_migrate_keeps_owner [OF quiet_env_alone(1) this idle_ok run] show ?thesis using run by auto
qed

definition after_commit :: rt where
  "after_commit = \<lparr>rt_store = committed_store, rt_log = [], rt_groups = []\<rparr>"

theorem recovery_needs_no_engine_witness:
  "\<exists>r t. recover_destination_failure demo_coordinator quiet_env ''m'' None after_commit = (Inr r, t) \<and>
     ac_owner_engine (rr_continuation r) = ''e0'' \<and> ac_owner_epoch (rr_continuation r) = 3"
proof -
  have "store_ok (rt_store after_commit)" by code_simp
  moreover obtain m where m: "sel mr_migration_id ''m'' (migrations (rt_store after_commit)) = Some m" "mr_state m = COMMITTED"
    "mr_agent_id m = ''a''" "mr_source_engine m = ''e0''" "mr_destination_engine m = ''e1''" "mr_source_epoch m = 1"
  proof -
    have "(case sel mr_migration_id ''m'' (migrations (rt_store after_commit)) of None \<Rightarrow> False
      | Some m \<Rightarrow> mr_state m = COMMITTED \<and> mr_agent_id m = ''a'' \<and> mr_source_engine m = ''e0'' \<and>
          mr_destination_engine m = ''e1'' \<and> mr_source_epoch m = 1)" by code_simp
    then show thesis using that by (auto split: option.splits)
  qed
  moreover have "leases (rt_store after_commit) ''a'' = Some (''e1'', 2)" by code_simp
  ultimately show ?thesis
    using recovery_needs_no_engine [OF quiet_env_alone(1), of after_commit "''m''" m "''e0''" None demo_coordinator]
    by (auto simp: recovery_target_def)
qed



theorem recovery_strands_migration_witness:
  "\<exists>r t. migrate ((new_migration_coordinator [''e0'', ''e1'', ''e2''])\<lparr>mc_base_port := 5\<rparr>) recovering 1 9 ''a'' ''e2'' moved_before = (r, t) \<and>
     leases (rt_store t) ''a'' = Some (''e0'', 3) \<and>
     (\<exists>y. insert_migration 0 (new_migration_record ''m3'' ''a'' ''e0'' ''e1'' 3 PREPARING)
        (run_calls [RecoverMigration 0 ''m1'' ''e2''] (rt_store t)) =
          (Inl (StateConflict y), run_calls [RecoverMigration 0 ''m1'' ''e2''] (rt_store t)))"
proof -
  obtain r t where run: "migrate ((new_migration_coordinator [''e0'', ''e1'', ''e2''])\<lparr>mc_base_port := 5\<rparr>) recovering 1 9 ''a'' ''e2''
      moved_before = (r, t)" by (cases "migrate ((new_migration_coordinator [''e0'', ''e1'', ''e2''])\<lparr>mc_base_port := 5\<rparr>) recovering 1 9
      ''a'' ''e2'' moved_before")
  then obtain m where lease: "leases (rt_store t) ''a'' = Some (''e0'', 3)"
    and m: "sel mr_migration_id ''m2'' (migrations (rt_store t)) = Some m" "mr_state m = DEST_READY" "mr_agent_id m = ''a''" "mr_source_epoch m = 2"
    using recovering_overtakes by (auto split: option.splits)
  have "overtaken_record ''m2'' m (rt_store t)" using lease m by (simp add: overtaken_record_def)
  moreover have "\<forall>c \<in> set (others quiet_env (rt_log t)). \<not> transitions_record ''m2'' c"
    "\<forall>c \<in> set [RecoverMigration 0 ''m1'' ''e2'']. \<not> transitions_record ''m2'' c"
    using quiet_env_alone(1) by (simp_all add: alone_def transitions_record_def)
  ultimately obtain v where v: "abort_unfinished quiet_env ''m2'' Unfinished t = (Inl Unfinished, v)"
    and stuck: "\<And>now r. mr_agent_id r = ''a'' \<Longrightarrow> mr_state r = PREPARING \<Longrightarrow> \<exists>y. insert_migration now r
        (run_calls [RecoverMigration 0 ''m1'' ''e2''] (rt_store v)) =
          (Inl (StateConflict y), run_calls [RecoverMigration 0 ''m1'' ''e2''] (rt_store v))"
    using recovery_strands_migration [of "''m2''" m t quiet_env "[RecoverMigration 0 ''m1'' ''e2'']" Unfinished]
    unfolding Let_def m(3) by blast
  have "rt_store v = rt_store t"
    using v m(1,2) quiet_env_alone(1)
    by (auto simp: abort_unfinished_def thenP_def bindP_def db_def interfere_def alone_def log_event_def Let_def get_migration_def
        whenP_def throw_def ret_def migration_record.defs)
  then show ?thesis using run lease stuck [of "new_migration_record ''m3'' ''a'' ''e0'' ''e1'' 3 PREPARING" 0]
    by (auto simp: new_migration_record_def)
qed

end
