(* ===== verification/Tiered.thy ===== *)
theory Tiered
  imports MigrationProps
begin

text \<open>
  \<open>agentshift/controller/tiered.py\<close>: operations on a shared host tier
  (\<open>TieredPrefixCoordinator\<close>) and the semantic handoff built on them
  (\<open>SharedSemanticHandoffCoordinator\<close>), which exports the prefix at the source, imports it
  at the destination and commits the new owner.
\<close>

section \<open>Tier operations\<close>

record tier_result =
  tp_operation_id :: string
  tp_checkpoint_id :: string
  tp_operation :: string
  tp_token_count :: int
  tp_bytes_transferred :: int
  tp_wall_seconds :: seconds
  tp_worker_seconds :: seconds
  tp_queue_seconds :: seconds

record tiered_coordinator =
  td_poll_interval :: seconds
  td_operation_timeout :: seconds

definition tier_wait :: "tiered_coordinator \<Rightarrow> env \<Rightarrow> engine_id \<Rightarrow> string \<Rightarrow> poll_spec" where
  "tier_wait T E client oid =
     \<lparr>ps_engine = client, ps_call = TierStatus oid, ps_verdict = until_complete E (''tier operation failed: '' @ oid),
      ps_timeout = TimeoutError (''tier operation timed out: '' @ oid), ps_limit = td_operation_timeout T,
      ps_interval = td_poll_interval T\<rparr>"

text \<open>The fields read from a completed status, in the order they are read.\<close>

definition tier_result_of ::
  "string \<Rightarrow> string \<Rightarrow> string \<Rightarrow> seconds \<Rightarrow> json \<Rightarrow> exn + tier_result" where
  "tier_result_of oid cid operation wall result =
     (case field_int ''token_count'' result of Inl e \<Rightarrow> Inl e | Inr count \<Rightarrow>
     (case field_int ''bytes_transferred'' result of Inl e \<Rightarrow> Inl e | Inr bytes \<Rightarrow>
     (case field_float ''operation_seconds'' result of Inl e \<Rightarrow> Inl e | Inr worker \<Rightarrow>
     (case field_float ''queue_seconds'' result of Inl e \<Rightarrow> Inl e | Inr queue \<Rightarrow>
        Inr \<lparr>tp_operation_id = oid, tp_checkpoint_id = cid, tp_operation = operation, tp_token_count = count,
          tp_bytes_transferred = bytes, tp_wall_seconds = wall, tp_worker_seconds = worker, tp_queue_seconds = queue\<rparr>))))"

definition run_tier ::
  "tiered_coordinator \<Rightarrow> env \<Rightarrow> nat \<Rightarrow> engine_id \<Rightarrow> string \<Rightarrow> string \<Rightarrow> agent_id \<Rightarrow> int \<Rightarrow> token list \<Rightarrow> bool \<Rightarrow>
   (rt, tier_result) prog" where
  "run_tier T E fuel client operation cid a epoch tokens release_gpu =
     bindP (uuid4_hex E) (\<lambda>oid.
     bindP (read_perf E) (\<lambda>begun.
     thenP (post E client (StartTierOperation operation oid cid a epoch tokens release_gpu))
    (bindP (catching (wait_for E fuel (tier_wait T E client oid))
              (\<lambda>e. thenP (post E client (CleanupTierOperation oid False)) (throw e))) (\<lambda>result.
     bindP (read_perf E) (\<lambda>now.
       liftS (tier_result_of oid cid operation (now - begun) result))))))"

definition cleanup_tier :: "env \<Rightarrow> engine_id \<Rightarrow> tier_result \<Rightarrow> bool \<Rightarrow> (rt, unit) prog" where
  "cleanup_tier E client result drop_checkpoint =
     thenP (post E client (CleanupTierOperation (tp_operation_id result) drop_checkpoint)) (ret ())"

section \<open>The handoff\<close>

record shared_coordinator =
  sh_engines :: "engine_id list"
  sh_tiered :: tiered_coordinator

definition new_shared_coordinator :: "engine_id list \<Rightarrow> shared_coordinator" where
  "new_shared_coordinator engines =
     \<lparr>sh_engines = engines, sh_tiered = \<lparr>td_poll_interval = 2/1000, td_operation_timeout = 300\<rparr>\<rparr>"

text \<open>
  \<open>except Exception\<close> of the handoff: what was imported is released at the destination, what
  was exported is cleaned up at the source, then the record is aborted. An engine error in
  here replaces the original one and skips the rest.
\<close>

definition fail_handoff ::
  "env \<Rightarrow> engine_id \<Rightarrow> engine_id \<Rightarrow> string \<Rightarrow> agent_id \<Rightarrow> int \<Rightarrow> tier_result option \<Rightarrow> tier_result option \<Rightarrow> exn \<Rightarrow>
   (rt, 'a) prog" where
  "fail_handoff E source destination mid a epoch exported imported e =
     thenP (case imported of
              None \<Rightarrow> ret ()
            | Some r \<Rightarrow> thenP (post E destination (ReleasePrefix a (epoch + 1) True True)) (cleanup_tier E destination r True))
    (thenP (case exported of
              None \<Rightarrow> ret ()
            | Some r \<Rightarrow> cleanup_tier E source r (imported = None))
           (abort_unfinished E mid e))"

text \<open>Pin the prefix and mark the record \<open>COPYING\<close>.\<close>

definition pin_for_handoff ::
  "env \<Rightarrow> engine_id \<Rightarrow> string \<Rightarrow> agent_continuation \<Rightarrow> (rt, int) prog" where
  "pin_for_handoff E source mid c =
     bindP (post E source (PinPrefix (ac_agent_id c) (ac_owner_epoch c) (ac_token_ids c))) (\<lambda>pin.
     bindP (liftS (field_int ''token_count'' pin)) (\<lambda>count.
     thenP (guardP (0 < count) (RuntimeError ''source has no completed prefix to export''))
    (thenP (db E (\<lambda>t. transition_migration t mid PREPARING COPYING (no_fields\<lparr>tf_token_count := Some count\<rparr>)))
           (ret count))))"

text \<open>Mark it \<open>DEST_READY\<close>, commit, and clean up both operations.\<close>

definition commit_handoff ::
  "env \<Rightarrow> engine_id \<Rightarrow> engine_id \<Rightarrow> string \<Rightarrow> agent_continuation \<Rightarrow> int \<Rightarrow> seconds \<Rightarrow> tier_result \<Rightarrow> tier_result \<Rightarrow>
   (rt, migration_result) prog" where
  "commit_handoff E source destination mid c count begun exported imported =
     bindP (read_perf E) (\<lambda>now.
     let bytes = tp_bytes_transferred exported + tp_bytes_transferred imported in
     thenP (db E (\<lambda>t. transition_migration t mid COPYING DEST_READY
              (no_fields\<lparr>tf_bytes_transferred := Some bytes, tf_transfer_seconds := Some (now - begun)\<rparr>)))
    (bindP (db_commit_migration E mid) (\<lambda>continuation.
     thenP (cleanup_tier E source exported False)
    (thenP (cleanup_tier E destination imported True)
     (ret \<lparr>mo_migration_id = mid, mo_agent_id = ac_agent_id c, mo_source_engine = source,
        mo_destination_engine = destination, mo_old_epoch = ac_owner_epoch c, mo_new_epoch = ac_owner_epoch continuation,
        mo_token_count = count, mo_bytes_transferred = bytes, mo_transfer_seconds = now - begun,
        mo_worker_transfer_seconds = tp_worker_seconds exported + tp_worker_seconds imported,
        mo_queue_seconds = tp_queue_seconds exported + tp_queue_seconds imported\<rparr>)))))"

definition handoff_serial ::
  "shared_coordinator \<Rightarrow> env \<Rightarrow> nat \<Rightarrow> agent_id \<Rightarrow> engine_id \<Rightarrow> (rt, migration_result) prog" where
  "handoff_serial S E fuel a destination =
     bindP (db E (\<lambda>_. get_agent a)) (\<lambda>c.
     let source = ac_owner_engine c; epoch = ac_owner_epoch c;
         unknown = (\<lambda>e. KeyError (py_repr (''unknown handoff engine: '' @ e))) in
     thenP (guardP (destination \<noteq> source) (ValueError ''source and destination must differ''))
    (thenP (guardP (source \<in> set (sh_engines S)) (unknown source))
    (thenP (guardP (destination \<in> set (sh_engines S)) (unknown destination))
    (bindP (uuid4_hex E) (\<lambda>mid.
     let cid = ''shared-cas-'' @ mid in
     thenP (db_start_migration E (new_migration_record mid a source destination epoch PREPARING))
    (bindP (read_perf E) (\<lambda>begun.
     bindP (catching (pin_for_handoff E source mid c) (fail_handoff E source destination mid a epoch None None)) (\<lambda>count.
     let tokens = take (nat count) (ac_token_ids c) in
     bindP (catching (run_tier (sh_tiered S) E fuel source ''shared_export'' cid a epoch tokens False)
              (fail_handoff E source destination mid a epoch None None)) (\<lambda>exported.
     bindP (catching (run_tier (sh_tiered S) E fuel destination ''shared_import'' cid a (epoch + 1) tokens False)
              (fail_handoff E source destination mid a epoch (Some exported) None)) (\<lambda>imported.
       catching (commit_handoff E source destination mid c count begun exported imported)
         (fail_handoff E source destination mid a epoch (Some exported) (Some imported))))))))))))"

definition handoff ::
  "shared_coordinator \<Rightarrow> env \<Rightarrow> nat \<Rightarrow> agent_id \<Rightarrow> engine_id \<Rightarrow> (rt, migration_result) prog" where
  "handoff S E fuel a destination = with_lock E ''handoff'' (handoff_serial S E fuel a destination)"

definition acknowledge_handoff :: "shared_coordinator \<Rightarrow> env \<Rightarrow> string \<Rightarrow> (rt, unit) prog" where
  "acknowledge_handoff S E mid =
     bindP (db E (\<lambda>_. get_migration mid)) (\<lambda>m.
       if mr_state m = SOURCE_RELEASED then ret ()
       else thenP (guardP (mr_state m = COMMITTED) (RuntimeError ''migration has not committed''))
           (thenP (guardP (mr_source_engine m \<in> set (sh_engines S)) (KeyError (py_repr (mr_source_engine m))))
           (thenP (post E (mr_source_engine m) (ReleasePrefix (mr_agent_id m) (mr_source_epoch m) True True))
                  (db E (\<lambda>t. transition_migration t mid COMMITTED SOURCE_RELEASED no_fields)))))"

end
