(* ===== verification/TieredProps.thy ===== *)
theory TieredProps
  imports Tiered MigrationRepair
begin

text \<open>
  What the semantic handoff over the shared tier guarantees, and what its failure handler
  does when an engine fails during cleanup.
\<close>

section \<open>A handoff that returns\<close>

context engine_traffic begin

lemma steps_run_tier: "steps R (run_tier T E fuel client op cid a n tokens gpu)"
  unfolding run_tier_def by (intro awaiting_rules)

lemma steps_cleanup_tier: "steps R (cleanup_tier E client r d)"
  unfolding cleanup_tier_def by (intro awaiting_rules)

end

lemma abort_unfinished_raises: "abort_unfinished E mid e s \<noteq> (Inr a, t)"
  by (auto simp: abort_unfinished_def thenP_def throw_def elim!: bindP_InrE)

lemma fail_handoff_triple: "triple P (fail_handoff E src dst mid a n ex im e) Q (\<lambda>_ _. True)"
  by (rule triple_True) (auto simp: fail_handoff_def thenP_def abort_unfinished_raises elim!: bindP_InrE)

lemma triple_try_fail:
  "triple P m Q (\<lambda>_ _. True) \<Longrightarrow> triple P (catching m (fail_handoff E src dst mid a n ex im)) Q (\<lambda>_ _. True)"
  by (rule triple_catching [OF _ fail_handoff_triple]) simp_all

definition handoff_result :: "env \<Rightarrow> store \<Rightarrow> agent_id \<Rightarrow> engine_id \<Rightarrow> migration_result \<Rightarrow> rt \<Rightarrow> bool" where
  "handoff_result E S a dst r s \<longleftrightarrow> mo_agent_id r = a \<and> mo_destination_engine r = dst \<and> mo_source_engine r \<noteq> dst \<and>
     moved S (mo_migration_id r) a (mo_source_engine r) dst (mo_old_epoch r) s \<and>
     (\<exists>c. mo_new_epoch r = ac_owner_epoch c \<and> reads_lease a dst (mo_old_epoch r) c s) \<and>
     (alone E \<longrightarrow> handed_over (mo_migration_id r) a (mo_source_engine r) dst (mo_old_epoch r) s)"

lemma committing_later:
  assumes "rt_le s t" and "alone E \<Longrightarrow> rt_store t = rt_store s" and "committing E S mid a src dst n c s"
  shows "committing E S mid a src dst n c t"
  using assms moved_later [OF assms(1)] reads_lease_later [OF assms(1)] by (auto simp: committing_def handed_over_def)

lemma commit_handoff_triple:
  assumes c: "ac_agent_id c = a" "ac_owner_engine c = src" "ac_owner_epoch c = n" and ne: "src \<noteq> dst"
  shows "triple (published S mid a src dst n) (commit_handoff E src dst mid c count begun ex im)
    (handoff_result E S a dst) (\<lambda>_ _. True)"
proof -
  have clean: "triple (committing E S mid a src dst n new) (cleanup_tier E e r d) (\<lambda>_. committing E S mid a src dst n new) (\<lambda>_ _. True)"
    for new e r d
  proof (rule triple_True)
    fix s u t
    assume before: "committing E S mid a src dst n new s" and run: "cleanup_tier E e r d s = (Inr u, t)"
    show "committing E S mid a src dst n new t"
    proof (rule committing_later [OF stepsD [OF rt_traffic.steps_cleanup_tier run] _ before])
      assume "alone E"
      then show "rt_store t = rt_store s"
        using stepsD [OF engine_traffic.steps_cleanup_tier [OF alone_traffic] run] by (simp add: same_store_def)
    qed
  qed
  show ?thesis
    unfolding commit_handoff_def Let_def
    by (rule triple_bind [OF triple_published], rule rt_awaits.steps_awaits, rule triple_then [OF triple_published],
        rule steps_db, rule keeps_intros, rule triple_bind [OF commit_committing], rule triple_then [OF clean], rule triple_then [OF clean])
      (use c ne in \<open>auto intro!: triple_pure simp: handoff_result_def committing_def\<close>)
qed

lemma handoff_serial_triple:
  "triple (since S) (handoff_serial H E fuel a dst) (handoff_result E S a dst) (\<lambda>_ _. True)"
proof -
  have rest: "triple (\<lambda>s. published S mid a src dst n s) (bindP (read_perf E) (\<lambda>begun.
     bindP (catching (pin_for_handoff E src mid c) (fail_handoff E src dst mid a n None None)) (\<lambda>count.
     bindP (catching (run_tier (sh_tiered H) E fuel src op cid a n (tokens count) False)
              (fail_handoff E src dst mid a n None None)) (\<lambda>exported.
     bindP (catching (run_tier (sh_tiered H) E fuel dst op' cid a (n + 1) (tokens count) False)
              (fail_handoff E src dst mid a n (Some exported) None)) (\<lambda>imported.
       catching (commit_handoff E src dst mid c count begun exported imported)
         (fail_handoff E src dst mid a n (Some exported) (Some imported)))))))
     (handoff_result E S a dst) (\<lambda>_ _. True)"
    if c: "ac_agent_id c = a" "ac_owner_engine c = src" "ac_owner_epoch c = n" "src \<noteq> dst"
    for c src n mid op op' cid tokens
  proof -
    have pin: "steps rt_le (pin_for_handoff E src mid c)"
      unfolding pin_for_handoff_def by (intro rt_awaits.awaiting_rules steps_db keeps_intros)
    show ?thesis
      by (intro triple_bind [OF triple_published] triple_bind [OF triple_try_fail [OF triple_published]] triple_try_fail
          commit_handoff_triple c pin rt_traffic.steps_run_tier rt_awaits.steps_awaits)
  qed
  show ?thesis
    unfolding handoff_serial_def Let_def
  proof (rule triple_bind [OF triple_get_agent])
    fix c :: agent_continuation
    note guard = triple_then [OF triple_guard [where Q = "since S"]]
    show "triple (\<lambda>s. since S s \<and> ac_agent_id c = a)
       (thenP (guardP (dst \<noteq> ac_owner_engine c) (ValueError ''source and destination must differ''))
       (thenP (guardP (ac_owner_engine c \<in> set (sh_engines H)) (KeyError (py_repr (''unknown handoff engine: '' @ ac_owner_engine c))))
       (thenP (guardP (dst \<in> set (sh_engines H)) (KeyError (py_repr (''unknown handoff engine: '' @ dst))))
       (bindP (uuid4_hex E) (\<lambda>mid.
        thenP (db_start_migration E (new_migration_record mid a (ac_owner_engine c) dst (ac_owner_epoch c) PREPARING))
       (bindP (read_perf E) (\<lambda>begun.
        bindP (catching (pin_for_handoff E (ac_owner_engine c) mid c)
                 (fail_handoff E (ac_owner_engine c) dst mid a (ac_owner_epoch c) None None)) (\<lambda>count.
        bindP (catching (run_tier (sh_tiered H) E fuel (ac_owner_engine c) ''shared_export'' (''shared-cas-'' @ mid) a
                   (ac_owner_epoch c) (take (nat count) (ac_token_ids c)) False)
                 (fail_handoff E (ac_owner_engine c) dst mid a (ac_owner_epoch c) None None)) (\<lambda>exported.
        bindP (catching (run_tier (sh_tiered H) E fuel dst ''shared_import'' (''shared-cas-'' @ mid) a
                   (ac_owner_epoch c + 1) (take (nat count) (ac_token_ids c)) False)
                 (fail_handoff E (ac_owner_engine c) dst mid a (ac_owner_epoch c) (Some exported) None)) (\<lambda>imported.
          catching (commit_handoff E (ac_owner_engine c) dst mid c count begun exported imported)
            (fail_handoff E (ac_owner_engine c) dst mid a (ac_owner_epoch c) (Some exported) (Some imported))))))))))))
       (handoff_result E S a dst) (\<lambda>_ _. True)"
    proof (cases "ac_agent_id c = a \<and> ac_owner_engine c \<noteq> dst")
      case True
      then show ?thesis
        by (intro guard triple_bind [OF triple_since [OF steps_uuid4_hex]] triple_then [OF start_publishes] rest)
          auto
    qed (auto simp: triple_def guardP_def thenP_def bindP_def throw_def)
  qed
qed

lemma handoff_triple: "triple (since S) (handoff H E fuel a dst) (handoff_result E S a dst) (\<lambda>_ _. True)"
  unfolding handoff_def
proof (rule triple_with_lock [OF handoff_serial_triple])
  show "triple (since S) (acquire E ''handoff'') (\<lambda>_. since S) (\<lambda>_ _. True)"
    by (rule triple_since [OF rt_awaits.steps_awaits(5)])
qed (simp_all add: store_property_def handoff_result_def moved_def reads_lease_def handed_over_def)

text \<open>
  C16. A handoff that returns has moved the lease: in any interleaving with other
  coordinators, executors and recoveries, during a handoff that returned a commit transaction
  took the lease from the reported source, other than the destination, at the old epoch to the
  destination at the next, and the record became \<open>COMMITTED\<close>. The reported new epoch is read
  after that: it is the next epoch, or a later one if the lease was moved on in between, and
  the agent is at that epoch or beyond. Without other processes it is exactly the next epoch
  and the destination owns the agent.
\<close>

theorem handoff_moves_lease:
  assumes "handoff H E fuel a dst s = (Inr r, t)"
  shows "mo_agent_id r = a \<and> mo_destination_engine r = dst \<and> mo_source_engine r \<noteq> dst \<and>
    (\<exists>u v. store_le (rt_store s) u \<and> leases u a = Some (mo_source_engine r, mo_old_epoch r) \<and>
       (\<exists>now. commit_migration_tx now (mo_migration_id r) u = (Inr a, v)) \<and>
       leases v a = Some (dst, mo_old_epoch r + 1) \<and>
       (\<exists>m. sel mr_migration_id (mo_migration_id r) (migrations v) = Some m \<and> mr_state m = COMMITTED \<and>
          migration_of (mo_migration_id r) a (mo_source_engine r) dst (mo_old_epoch r) m) \<and>
       store_le v (rt_store t)) \<and>
    mo_old_epoch r + 1 \<le> mo_new_epoch r \<and>
    (\<exists>e k. leases (rt_store t) a = Some (e, k) \<and> mo_new_epoch r \<le> k \<and> (k = mo_old_epoch r + 1 \<longrightarrow> e = dst)) \<and>
    (alone E \<longrightarrow> mo_new_epoch r = mo_old_epoch r + 1 \<and> leases (rt_store t) a = Some (dst, mo_new_epoch r))"
proof -
  have res: "handoff_result E (rt_store s) a dst r t" using triple_returns [OF handoff_triple since_start assms] .
  then have moved: "moved (rt_store s) (mo_migration_id r) a (mo_source_engine r) dst (mo_old_epoch r) t"
    and c: "mo_old_epoch r + 1 \<le> mo_new_epoch r" "\<exists>e k. leases (rt_store t) a = Some (e, k) \<and> mo_new_epoch r \<le> k"
    and alone: "alone E \<longrightarrow> leases (rt_store t) a = Some (dst, mo_old_epoch r + 1)"
    by (auto simp: handoff_result_def reads_lease_def handed_over_def)
  from moved have "\<exists>e k. leases (rt_store t) a = Some (e, k) \<and> mo_new_epoch r \<le> k \<and> (k = mo_old_epoch r + 1 \<longrightarrow> e = dst)"
    by (rule moved_lease) (use c in auto)
  moreover have "alone E \<longrightarrow> mo_new_epoch r = mo_old_epoch r + 1 \<and> leases (rt_store t) a = Some (dst, mo_new_epoch r)"
    using alone c by auto
  moreover have "mo_source_engine r \<noteq> dst" "mo_destination_engine r = dst" "mo_agent_id r = a"
    using res by (auto simp: handoff_result_def)
  ultimately show ?thesis using c(1) moved_moment [OF moved] by (intro conjI) assumption+
qed

section \<open>Engines that fail during cleanup\<close>

text \<open>
  An environment like \<open>obliging\<close> in which the cleanup of a tier operation fails at \<open>e0\<close>, and
  one in which the import fails as well.
\<close>

definition cleanup_breaks :: env where
  "cleanup_breaks = obliging\<lparr>fresh_hex := (\<lambda>l. if l = [] then [] else ''m2''),
     transport := (\<lambda>l e req.
       if e = ''e0'' \<and> fst req = ''/agentshift/prefix/tier/cleanup'' then HttpError 500 ''boom''
       else Body (JObj [(''success'', JBool True), (''state'', JStr ''COMPLETE''), (''token_count'', JInt 1),
          (''bytes_transferred'', JInt 5), (''operation_seconds'', JInt 1), (''queue_seconds'', JInt 0)]))\<rparr>"

definition import_and_cleanup_break :: env where
  "import_and_cleanup_break = cleanup_breaks\<lparr>transport := (\<lambda>l e req.
     if e = ''e1'' \<and> fst req = ''/agentshift/prefix/tier/start'' then HttpError 503 ''down''
     else transport cleanup_breaks l e req)\<rparr>"

definition handoff_demo :: "env \<Rightarrow> (exn + migration_result) \<times> rt" where
  "handoff_demo E = handoff (new_shared_coordinator [''e0'', ''e1'']) E 9 ''a'' ''e1'' idle"

text \<open>
  A failed cleanup after the commit drops the new owner's state: the handoff commits
  \<open>e1\<close> at epoch 2, the source's cleanup then fails, and the failure handler asks \<open>e1\<close> to
  release and evict the agent's prefix at the epoch it has just been given. The handoff
  raises although ownership moved.
\<close>

theorem cleanup_failure_drops_new_owner:
  "(case handoff_demo cleanup_breaks of (r, t) \<Rightarrow>
     (case r of Inl (EngineRequestError _) \<Rightarrow> True | _ \<Rightarrow> False) \<and> leases (rt_store t) ''a'' = Some (''e1'', 2) \<and>
     Posted ''e1'' (ReleasePrefix ''a'' 2 True True) \<in> set (rt_log t))"
  by code_simp

text \<open>
  A failed import whose cleanup fails strands the handoff: the handler leaves before it
  aborts, so the record stays \<open>COPYING\<close> and a later migration of the agent is refused while
  nobody works on the first.
\<close>

theorem failed_cleanup_strands_handoff:
  "(case handoff_demo import_and_cleanup_break of (r, t) \<Rightarrow>
     (case r of Inl (EngineRequestError _) \<Rightarrow> True | _ \<Rightarrow> False) \<and> leases (rt_store t) ''a'' = Some (''e0'', 1) \<and>
     map mr_state (migrations (rt_store t)) = [COPYING] \<and>
     (case start_migration 0 (new_migration_record ''m3'' ''a'' ''e0'' ''e1'' 1 PREPARING) (rt_store t) of
        (Inl (StateConflict _), _) \<Rightarrow> True | _ \<Rightarrow> False))"
  by code_simp

section \<open>Witness\<close>

definition tier_obliging :: env where
  "tier_obliging = cleanup_breaks\<lparr>transport := (\<lambda>l e req. transport cleanup_breaks l ''e1'' req)\<rparr>"

theorem handoff_moves_lease_witness:
  "\<exists>r t. handoff_demo tier_obliging = (Inr r, t) \<and> mo_source_engine r \<noteq> ''e1''"
proof -
  have "(case fst (handoff_demo tier_obliging) of Inr _ \<Rightarrow> True | _ \<Rightarrow> False)" by code_simp
  then obtain r t where run: "handoff_demo tier_obliging = (Inr r, t)"
    by (cases "handoff_demo tier_obliging") (auto split: sum.splits)
  from handoff_moves_lease [OF run [unfolded handoff_demo_def]] run show ?thesis by auto
qed

end
