(* ===== verification/Hybrid.thy ===== *)
theory Hybrid
  imports MigrationProps
begin

text \<open>
  \<open>HybridMigrationCoordinator\<close> of \<open>agentshift/controller/hybrid_migration.py\<close>: it moves a
  complete heterogeneous bundle (KV and recurrent state) between two engines, in one
  blocking transfer (\<open>migrate\<close>) or as a prepared asynchronous one (\<open>migrate_async\<close>), and
  commits the new owner when both engines agree on what was moved.
\<close>

section \<open>Groups\<close>

record hybrid_result =
  hr_migration_id :: string
  hr_agent_id :: agent_id
  hr_source_engine :: engine_id
  hr_destination_engine :: engine_id
  hr_old_epoch :: int
  hr_new_epoch :: int
  hr_continuation :: agent_continuation
  hr_token_count :: int
  hr_bytes_transferred :: int
  hr_transfer_seconds :: seconds
  hr_group_name :: string

record hybrid_coordinator =
  hc_engines :: "engine_id list"
  hc_master_address :: string
  hc_base_port :: int

definition new_hybrid_coordinator :: "engine_id list \<Rightarrow> exn + hybrid_coordinator" where
  "new_hybrid_coordinator engines =
     (if engines = [] then Inl (ValueError ''at least one engine is required'')
      else Inr \<lparr>hc_engines = engines, hc_master_address = ''127.0.0.1'', hc_base_port = 29700\<rparr>)"

text \<open>An unordered pair is represented by its sorted tuple, the key the pairs are numbered by.\<close>

definition pair_key :: "engine_id \<Rightarrow> engine_id \<Rightarrow> engine_id \<times> engine_id" where
  "pair_key source destination = (if source \<le> destination then (source, destination) else (destination, source))"

definition hybrid_pairs :: "hybrid_coordinator \<Rightarrow> (engine_id \<times> engine_id) list" where
  "hybrid_pairs C = sort (remdups [pair_key s d. s \<leftarrow> hc_engines C, d \<leftarrow> hc_engines C, s \<noteq> d])"

definition pair_number :: "hybrid_coordinator \<Rightarrow> engine_id \<times> engine_id \<Rightarrow> int" where
  "pair_number C pair = int (length (takeWhile (\<lambda>p. p \<noteq> pair) (hybrid_pairs C)))"

definition hybrid_port :: "hybrid_coordinator \<Rightarrow> engine_id \<Rightarrow> engine_id \<Rightarrow> int" where
  "hybrid_port C source destination = hc_base_port C + pair_number C (pair_key source destination)"

definition hybrid_group ::
  "hybrid_coordinator \<Rightarrow> env \<Rightarrow> engine_id \<Rightarrow> engine_id \<Rightarrow> (rt, string \<times> int) prog" where
  "hybrid_group C E source destination =
     (let pair = pair_key source destination in
      with_lock E (''group '' @ fst pair @ '' '' @ snd pair) (thenP (join_groups E)
        (bindP (getP (\<lambda>s. map_of (rt_groups s) pair)) (\<lambda>known. case known of
           Some (name, ports) \<Rightarrow> ret (name, hd ports)
         | None \<Rightarrow>
             bindP (uuid4_hex E) (\<lambda>hex.
             let port = hybrid_port C source destination;
                 name = ''hybrid_'' @ source @ ''_'' @ destination @ ''_'' @ str_int port @ ''_'' @ take 8 hex in
             thenP (gather_two E
                      (post E source (InitHybridStateGroup (hc_master_address C) port 0 name))
                      (post E destination (InitHybridStateGroup (hc_master_address C) port 1 name)))
            (thenP (modifyP (\<lambda>s. s\<lparr>rt_groups := (pair, name, [port]) # rt_groups s\<rparr>)) (ret (name, port))))))))"

section \<open>Answers\<close>

text \<open>\<open>result.get(k, default)\<close> on an answer that need not be an object, and \<open>a or b\<close> in a message.\<close>

definition dict_get :: "string \<Rightarrow> json \<Rightarrow> json \<Rightarrow> exn + json" where
  "dict_get k d j = (if is_dict j then Inr (jget_default k d j) else Inl (AttributeError ''object has no attribute get''))"

definition in_state :: "string \<Rightarrow> json \<Rightarrow> exn + bool" where
  "in_state st j = (case dict_get ''state'' JNull j of Inl e \<Rightarrow> Inl e | Inr v \<Rightarrow> Inr (v = JStr st))"

definition text_or :: "env \<Rightarrow> json \<Rightarrow> string \<Rightarrow> string" where
  "text_or E v alternative = (if json_truthy v then show_value E v else alternative)"

text \<open>Both engines have to report the same counts, and the count the continuation has.\<close>

definition agreed_counts :: "string \<Rightarrow> nat \<Rightarrow> json \<Rightarrow> json \<Rightarrow> exn + int \<times> int" where
  "agreed_counts what n a b =
     (case field_int ''token_count'' a of Inl e \<Rightarrow> Inl e | Inr count \<Rightarrow>
     (case field_int ''bytes_transferred'' a of Inl e \<Rightarrow> Inl e | Inr bytes \<Rightarrow>
     (case jfield ''token_count'' b of Inl e \<Rightarrow> Inl e | Inr count' \<Rightarrow>
        if \<not> json_eq_int count' count then Inl (RuntimeError ''source and destination token counts disagree'')
        else (case jfield ''bytes_transferred'' b of Inl e \<Rightarrow> Inl e | Inr bytes' \<Rightarrow>
          if \<not> json_eq_int bytes' bytes then Inl (RuntimeError what)
          else if count \<noteq> int n then Inl (RuntimeError ''transferred token count does not match continuation'')
          else Inr (count, bytes)))))"

text \<open>A direct transfer failed if an engine says \<open>"success": false\<close>; other answers pass this check.\<close>

definition direct_succeeded :: "env \<Rightarrow> engine_id \<Rightarrow> json \<Rightarrow> exn + unit" where
  "direct_succeeded E engine result =
     (case dict_get ''success'' JNull result of
        Inl e \<Rightarrow> Inl e
      | Inr v \<Rightarrow>
          if v = JBool False
          then Inl (RuntimeError (engine @ '' hybrid transfer failed: '' @
                 show_value E (jget_default ''message'' (JStr ''request failed'') result)))
          else Inr ())"

section \<open>The blocking migration\<close>

text \<open>\<open>except Exception\<close>: the handler aborts from the state the variable \<open>current_state\<close> holds.\<close>

definition abort_from :: "env \<Rightarrow> string \<Rightarrow> migration_state \<Rightarrow> exn \<Rightarrow> (rt, 'a) prog" where
  "abort_from E mid st e =
     thenP (db E (\<lambda>t. transition_migration t mid st ABORTED (no_fields\<lparr>tf_error := Some (exn_str e)\<rparr>))) (throw e)"

definition mark_ready :: "env \<Rightarrow> string \<Rightarrow> int \<Rightarrow> seconds \<Rightarrow> (rt, unit) prog" where
  "mark_ready E mid bytes elapsed =
     db E (\<lambda>t. transition_migration t mid COPYING DEST_READY
       (no_fields\<lparr>tf_bytes_transferred := Some bytes, tf_transfer_seconds := Some elapsed\<rparr>))"

definition mark_copying :: "env \<Rightarrow> string \<Rightarrow> agent_continuation \<Rightarrow> (rt, unit) prog" where
  "mark_copying E mid c =
     db E (\<lambda>t. transition_migration t mid PREPARING COPYING
       (no_fields\<lparr>tf_token_count := Some (int (length (ac_token_ids c)))\<rparr>))"

definition direct_transfer ::
  "env \<Rightarrow> string \<Rightarrow> agent_continuation \<Rightarrow> engine_id \<Rightarrow> string \<Rightarrow> int \<Rightarrow> (rt, int \<times> int \<times> seconds) prog" where
  "direct_transfer E mid c destination name port =
     (let source = ac_owner_engine c; tokens = ac_token_ids c in
      bindP (read_perf E) (\<lambda>begun.
      bindP (gather_two E (post E source (DirectTransferHybridState ''source'' tokens name port))
              (post E destination (DirectTransferHybridState ''destination'' tokens name port))) (\<lambda>(a, b).
      bindP (read_perf E) (\<lambda>now.
      thenP (liftS (direct_succeeded E source a))
     (thenP (liftS (direct_succeeded E destination b))
     (bindP (liftS (agreed_counts ''source and destination transfer byte counts disagree'' (length tokens) a b)) (\<lambda>(count, bytes).
      thenP (mark_ready E mid bytes (now - begun)) (ret (count, bytes, now - begun)))))))))"

definition hybrid_result_of ::
  "string \<Rightarrow> agent_continuation \<Rightarrow> engine_id \<Rightarrow> agent_continuation \<Rightarrow> int \<times> int \<times> seconds \<Rightarrow> string \<Rightarrow> hybrid_result" where
  "hybrid_result_of mid c destination new x name = (case x of (count, bytes, elapsed) \<Rightarrow>
     \<lparr>hr_migration_id = mid, hr_agent_id = ac_agent_id c, hr_source_engine = ac_owner_engine c,
      hr_destination_engine = destination, hr_old_epoch = ac_owner_epoch c, hr_new_epoch = ac_owner_epoch new,
      hr_continuation = new, hr_token_count = count, hr_bytes_transferred = bytes,
      hr_transfer_seconds = elapsed, hr_group_name = name\<rparr>)"

text \<open>What both variants do first: read the owner, check the engines, start the record.\<close>

definition start_hybrid ::
  "hybrid_coordinator \<Rightarrow> env \<Rightarrow> agent_id \<Rightarrow> engine_id \<Rightarrow> (rt, agent_continuation \<times> string) prog" where
  "start_hybrid C E a destination =
     bindP (db E (\<lambda>_. get_agent a)) (\<lambda>c.
     thenP (guardP (destination \<noteq> ac_owner_engine c) (ValueError ''destination must differ from the source engine''))
    (thenP (guardP (destination \<in> set (hc_engines C) \<and> ac_owner_engine c \<in> set (hc_engines C)) (KeyError (py_repr destination)))
    (bindP (uuid4_hex E) (\<lambda>mid.
     thenP (db_start_migration E (new_migration_record mid a (ac_owner_engine c) destination (ac_owner_epoch c) PREPARING))
           (ret (c, mid))))))"

definition hybrid_migrate ::
  "hybrid_coordinator \<Rightarrow> env \<Rightarrow> agent_id \<Rightarrow> engine_id \<Rightarrow> (rt, hybrid_result) prog" where
  "hybrid_migrate C E a destination =
     bindP (start_hybrid C E a destination) (\<lambda>(c, mid).
     bindP (catching
        (bindP (hybrid_group C E (ac_owner_engine c) destination) (\<lambda>g. thenP (mark_copying E mid c) (ret g)))
        (abort_from E mid PREPARING)) (\<lambda>(name, port).
     bindP (catching (direct_transfer E mid c destination name port) (abort_from E mid COPYING)) (\<lambda>x.
     bindP (db_commit_migration E mid) (\<lambda>new.
       ret (hybrid_result_of mid c destination new x name)))))"

section \<open>The asynchronous migration\<close>

definition start_transfer ::
  "env \<Rightarrow> string \<Rightarrow> engine_id \<Rightarrow> string \<Rightarrow> token list \<Rightarrow> string \<Rightarrow> int \<Rightarrow> bool \<Rightarrow> (rt, json) prog" where
  "start_transfer E tid engine role tokens name port prepare_only =
     post E engine (StartAsyncHybridTransfer tid role tokens name port prepare_only)"

definition prepare_transfer ::
  "env \<Rightarrow> string \<Rightarrow> engine_id \<Rightarrow> string \<Rightarrow> token list \<Rightarrow> string \<Rightarrow> int \<Rightarrow> (rt, unit) prog" where
  "prepare_transfer E tid engine role tokens name port =
     bindP (start_transfer E tid engine role tokens name port True) (\<lambda>prepared.
     bindP (liftS (in_state ''PREPARED'' prepared)) (\<lambda>ok.
       guardP ok (RuntimeError (text_or E (jget_default ''error'' JNull prepared) ''engine did not prepare hybrid transfer''))))"

definition cleanup_async :: "env \<Rightarrow> string \<Rightarrow> engine_id \<Rightarrow> (rt, json) prog" where
  "cleanup_async E tid engine = post E engine (CleanupAsyncHybridTransfer tid)"

text \<open>An answer \<open>FAILED\<close> to the start raises, the source's first.\<close>

definition check_start :: "env \<Rightarrow> json \<Rightarrow> (rt, unit) prog" where
  "check_start E result =
     bindP (liftS (in_state ''FAILED'' result)) (\<lambda>failed.
       guardP (\<not> failed) (RuntimeError (show_value E (jget_default ''error'' (JStr ''async transfer failed'') result))))"

text \<open>
  One look at both statuses: \<open>Inr None\<close> to keep waiting. \<open>any\<close> and \<open>all\<close> read the
  destination's state only when the source's does not decide.
\<close>

definition judge_status :: "env \<Rightarrow> json \<Rightarrow> json \<Rightarrow> exn + (json \<times> json) option" where
  "judge_status E a b =
     (let failed = Inl (RuntimeError (text_or E (jget_default ''error'' JNull a)
            (text_or E (jget_default ''error'' JNull b) ''async transfer failed''))) in
      case in_state ''FAILED'' a of
        Inl e \<Rightarrow> Inl e
      | Inr True \<Rightarrow>
          if \<not> json_truthy (jget_default ''error'' JNull a) \<and> \<not> is_dict b
          then Inl (AttributeError ''object has no attribute get'') else failed
      | Inr False \<Rightarrow> (case in_state ''FAILED'' b of
            Inl e \<Rightarrow> Inl e
          | Inr True \<Rightarrow> failed
          | Inr False \<Rightarrow>
              if in_state ''COMPLETE'' a = Inr True \<and> in_state ''COMPLETE'' b = Inr True then Inr (Some (a, b)) else Inr None))"

fun poll_both ::
  "env \<Rightarrow> nat \<Rightarrow> string \<Rightarrow> engine_id \<Rightarrow> engine_id \<Rightarrow> seconds \<Rightarrow> (rt, json \<times> json) prog" where
  "poll_both E 0 tid source destination deadline = throw Unfinished"
| "poll_both E (Suc fuel) tid source destination deadline =
     bindP (gather_two E (post E source (AsyncHybridTransferStatus tid)) (post E destination (AsyncHybridTransferStatus tid)))
       (\<lambda>(a, b).
     bindP (liftS (judge_status E a b)) (\<lambda>verdict. case verdict of
        Some r \<Rightarrow> ret r
      | None \<Rightarrow>
          bindP (read_clock E) (\<lambda>now.
          thenP (guardP (\<not> deadline < now) (RuntimeError ''async hybrid transfer timed out''))
         (thenP (sleep E (2/100)) (poll_both E fuel tid source destination deadline)))))"

text \<open>Reservation at both engines, then \<open>COPYING\<close>. No transfer starts before that.\<close>

definition reserve_async ::
  "hybrid_coordinator \<Rightarrow> env \<Rightarrow> string \<Rightarrow> agent_continuation \<Rightarrow> engine_id \<Rightarrow> (rt, string \<times> int \<times> seconds) prog" where
  "reserve_async C E mid c destination =
     (let source = ac_owner_engine c; tokens = ac_token_ids c; tid = ''hybrid-'' @ mid in
      bindP (hybrid_group C E source destination) (\<lambda>(name, port).
      bindP (read_perf E) (\<lambda>begun.
      thenP (prepare_transfer E tid source ''source'' tokens name port)
     (thenP (prepare_transfer E tid destination ''destination'' tokens name port)
     (thenP (mark_copying E mid c) (ret (name, port, begun)))))))"

definition copy_async ::
  "env \<Rightarrow> nat \<Rightarrow> string \<Rightarrow> agent_continuation \<Rightarrow> engine_id \<Rightarrow> string \<Rightarrow> int \<Rightarrow> seconds \<Rightarrow> (rt, int \<times> int \<times> seconds) prog" where
  "copy_async E fuel mid c destination name port begun =
     (let source = ac_owner_engine c; tokens = ac_token_ids c; tid = ''hybrid-'' @ mid in
      bindP (gather_two E (start_transfer E tid source ''source'' tokens name port False)
              (start_transfer E tid destination ''destination'' tokens name port False)) (\<lambda>(a, b).
      thenP (check_start E a)
     (thenP (check_start E b)
     (bindP (read_clock E) (\<lambda>now.
      bindP (poll_both E fuel tid source destination (now + 120)) (\<lambda>(a, b).
      bindP (read_perf E) (\<lambda>finished.
      bindP (liftS (agreed_counts ''source and destination byte counts disagree'' (length tokens) a b)) (\<lambda>(count, bytes).
      thenP (mark_ready E mid bytes (finished - begun)) (ret (count, bytes, finished - begun))))))))))"

definition commit_async ::
  "env \<Rightarrow> string \<Rightarrow> engine_id \<Rightarrow> engine_id \<Rightarrow> (rt, agent_continuation) prog" where
  "commit_async E mid source destination =
     bindP (db_commit_migration E mid) (\<lambda>new.
     thenP (gather_two E (cleanup_async E (''hybrid-'' @ mid) source) (cleanup_async E (''hybrid-'' @ mid) destination))
           (ret new))"

text \<open>\<open>except Exception\<close>: both engines clean up, whatever they answer, then the handler of the state.\<close>

definition cleaned ::
  "env \<Rightarrow> string \<Rightarrow> engine_id \<Rightarrow> engine_id \<Rightarrow> (exn \<Rightarrow> (rt, 'a) prog) \<Rightarrow> exn \<Rightarrow> (rt, 'a) prog" where
  "cleaned E mid source destination h e =
     thenP (gather_quietly (cleanup_async E (''hybrid-'' @ mid) source) (cleanup_async E (''hybrid-'' @ mid) destination)) (h e)"

definition hybrid_migrate_async ::
  "hybrid_coordinator \<Rightarrow> env \<Rightarrow> nat \<Rightarrow> agent_id \<Rightarrow> engine_id \<Rightarrow> (rt, hybrid_result) prog" where
  "hybrid_migrate_async C E fuel a destination =
     bindP (start_hybrid C E a destination) (\<lambda>(c, mid).
     let source = ac_owner_engine c in
     bindP (catching (reserve_async C E mid c destination) (cleaned E mid source destination (abort_from E mid PREPARING))) (\<lambda>(name, port, begun).
     bindP (catching (copy_async E fuel mid c destination name port begun) (cleaned E mid source destination (abort_from E mid COPYING))) (\<lambda>x.
     bindP (catching (commit_async E mid source destination) (cleaned E mid source destination throw)) (\<lambda>new.
       ret (hybrid_result_of mid c destination new x name)))))"

definition acknowledge_async_migration :: "env \<Rightarrow> string \<Rightarrow> (rt, unit) prog" where
  "acknowledge_async_migration E mid =
     db E (\<lambda>t. transition_migration t mid COMMITTED SOURCE_RELEASED no_fields)"

end
