(* ===== verification/HybridProps.thy ===== *)
theory HybridProps
  imports Hybrid MigrationRepair
begin

text \<open>
  What the hybrid coordinator guarantees: no two engine pairs share a port, a migration that
  returns moved the lease, one that fails alone is settled, and no transfer starts before
  both engines hold their reservation.
\<close>

section \<open>Ports\<close>

lemma hybrid_pairs_mem:
  assumes "s \<in> set (hc_engines C)" and "d \<in> set (hc_engines C)" and "s \<noteq> d"
  shows "pair_key s d \<in> set (hybrid_pairs C)"
  using assms by (auto simp: hybrid_pairs_def)

lemma takeWhile_before: "p \<in> set xs \<Longrightarrow> length (takeWhile (\<lambda>q. q \<noteq> p) xs) < length xs"
  by (induction xs) auto

lemma pair_number_nth:
  assumes "p \<in> set (hybrid_pairs C)"
  shows "hybrid_pairs C ! nat (pair_number C p) = p" and "0 \<le> pair_number C p"
    and "pair_number C p < int (length (hybrid_pairs C))"
proof -
  let ?k = "length (takeWhile (\<lambda>q. q \<noteq> p) (hybrid_pairs C))"
  have "?k < length (hybrid_pairs C)"
    using assms by (rule takeWhile_before)
  then show "hybrid_pairs C ! nat (pair_number C p) = p" "0 \<le> pair_number C p"
    "pair_number C p < int (length (hybrid_pairs C))"
    using nth_length_takeWhile [of "\<lambda>q. q \<noteq> p" "hybrid_pairs C"] by (simp_all add: pair_number_def)
qed

lemma ordered_pair_eq:
  fixes s d s' d' :: "'a :: linorder"
  shows "(if s \<le> d then (s, d) else (d, s)) = (if s' \<le> d' then (s', d') else (d', s')) \<longleftrightarrow> {s, d} = {s', d'}"
  by (auto simp: doubleton_eq_iff)

text \<open>
  Hybrid groups of different engine pairs never share a port: the port of a pair does not
  depend on the direction, two unordered pairs have different ports, and every port lies in
  the range of as many ports as there are pairs.
\<close>

theorem hybrid_ports_distinct:
  assumes "s \<in> set (hc_engines C)" "d \<in> set (hc_engines C)" "s \<noteq> d"
    and "s' \<in> set (hc_engines C)" "d' \<in> set (hc_engines C)" "s' \<noteq> d'"
  shows "(hybrid_port C s d = hybrid_port C s' d' \<longleftrightarrow> {s, d} = {s', d'}) \<and>
    hc_base_port C \<le> hybrid_port C s d \<and> hybrid_port C s d < hc_base_port C + int (length (hybrid_pairs C))"
proof -
  note n = pair_number_nth [OF hybrid_pairs_mem [OF assms(1-3)]]
  note n' = pair_number_nth [OF hybrid_pairs_mem [OF assms(4-6)]]
  have "hybrid_port C s d = hybrid_port C s' d' \<longleftrightarrow> pair_key s d = pair_key s' d'"
    unfolding hybrid_port_def using n(1) n'(1) by (metis add_left_cancel)
  also have "pair_key s d = pair_key s' d' \<longleftrightarrow> {s, d} = {s', d'}"
    unfolding pair_key_def by (rule ordered_pair_eq)
  finally show ?thesis using n(2,3) by (simp add: hybrid_port_def del: doubleton_eq_iff)
qed

section \<open>Steps\<close>

context engine_traffic begin

lemma steps_hybrid_group: "steps R (hybrid_group C E src dst)"
  unfolding hybrid_group_def Let_def
  by (intro awaiting_rules steps_join_groups steps_set_groups)

lemma steps_prepare_transfer: "steps R (prepare_transfer E tid e role ts name port)"
  unfolding prepare_transfer_def start_transfer_def by (intro awaiting_rules)

lemma steps_check_start: "steps R (check_start E x)"
  unfolding check_start_def by (intro awaiting_rules)

lemma steps_poll_both: "steps R (poll_both E fuel tid src dst d)"
  by (induction fuel) (auto intro!: awaiting_rules split: option.splits)

lemma steps_start_transfer: "steps R (start_transfer E tid e role ts name port b)"
  unfolding start_transfer_def by (intro awaiting_rules)

lemma steps_cleanup_async: "steps R (cleanup_async E tid e)"
  unfolding cleanup_async_def by (intro awaiting_rules)

lemmas hybrid_rules = steps_hybrid_group steps_prepare_transfer steps_check_start steps_poll_both
  steps_start_transfer steps_cleanup_async

end

text \<open>What a guarantee keeps, over any program of steps.\<close>

definition kept :: "(rt \<Rightarrow> rt \<Rightarrow> bool) \<Rightarrow> (rt \<Rightarrow> bool) \<Rightarrow> bool" where
  "kept R P \<longleftrightarrow> (\<forall>s t. R s t \<longrightarrow> P s \<longrightarrow> P t)"

lemma triple_kept: "kept R P \<Longrightarrow> steps R m \<Longrightarrow> (\<And>e s. P s \<Longrightarrow> F e s) \<Longrightarrow> triple P m (\<lambda>_. P) F"
  by (rule triple_conseq [OF triple_steps [of R m P]]) (simp_all add: kept_def)

section \<open>Both variants, in any setting\<close>

definition hybrid_done :: "store \<Rightarrow> agent_id \<Rightarrow> engine_id \<Rightarrow> hybrid_result \<Rightarrow> rt \<Rightarrow> bool" where
  "hybrid_done S a dst r s \<longleftrightarrow> hr_agent_id r = a \<and> hr_destination_engine r = dst \<and> hr_source_engine r \<noteq> dst \<and>
     ac_owner_epoch (hr_continuation r) = hr_new_epoch r \<and>
     reads_lease a dst (hr_old_epoch r) (hr_continuation r) s \<and>
     moved S (hr_migration_id r) a (hr_source_engine r) dst (hr_old_epoch r) s"

text \<open>
  The steps of one migration: \<open>B\<close> holds while \<open>PREPARING\<close>, \<open>K\<close> while \<open>COPYING\<close>, \<open>D\<close> at
  \<open>DEST_READY\<close> and \<open>M\<close> after the commit; other tasks only make moves of \<open>R\<close>.
\<close>

definition hybrid_steps ::
  "store \<Rightarrow> env \<Rightarrow> (rt \<Rightarrow> rt \<Rightarrow> bool) \<Rightarrow> string \<Rightarrow> agent_continuation \<Rightarrow> engine_id \<Rightarrow> (rt \<Rightarrow> bool) \<Rightarrow> (rt \<Rightarrow> bool) \<Rightarrow> (rt \<Rightarrow> bool) \<Rightarrow>
   (rt \<Rightarrow> bool) \<Rightarrow> (exn \<Rightarrow> rt \<Rightarrow> bool) \<Rightarrow> bool" where
  "hybrid_steps S E R mid c dst B K D M F \<longleftrightarrow>
     kept R B \<and> kept R K \<and> (\<forall>new. kept R (\<lambda>s. M s \<and> reads_lease (ac_agent_id c) dst (ac_owner_epoch c) new s)) \<and> (\<forall>e. kept R (F e)) \<and>
     triple B (mark_copying E mid c) (\<lambda>_. K) (\<lambda>_. B) \<and>
     (\<forall>b t. triple K (mark_ready E mid b t) (\<lambda>_. D) (\<lambda>_. K)) \<and>
     triple D (db_commit_migration E mid)
       (\<lambda>new s. M s \<and> reads_lease (ac_agent_id c) dst (ac_owner_epoch c) new s) F \<and>
     (\<forall>tf. triple B (db E (\<lambda>t. transition_migration t mid PREPARING ABORTED tf)) (\<lambda>_ s. \<forall>e. F e s) F) \<and>
     (\<forall>tf. triple K (db E (\<lambda>t. transition_migration t mid COPYING ABORTED tf)) (\<lambda>_ s. \<forall>e. F e s) F) \<and>
     (\<forall>s. B s \<or> K s \<longrightarrow> F Unfinished s) \<and> (\<forall>e s. M s \<longrightarrow> F e s) \<and>
     (\<forall>s. M s \<longrightarrow> moved S mid (ac_agent_id c) (ac_owner_engine c) dst (ac_owner_epoch c) s)"

lemma hybrid_stepsD:
  assumes "hybrid_steps S E R mid c dst B K D M F"
  shows "kept R B" "kept R K" "kept R (\<lambda>s. M s \<and> reads_lease (ac_agent_id c) dst (ac_owner_epoch c) new s)" "kept R (F e)"
    "triple B (mark_copying E mid c) (\<lambda>_. K) (\<lambda>_. B)"
    "triple K (mark_ready E mid b t) (\<lambda>_. D) (\<lambda>_. K)"
    "triple D (db_commit_migration E mid)
       (\<lambda>new s. M s \<and> reads_lease (ac_agent_id c) dst (ac_owner_epoch c) new s) F"
    "triple B (db E (\<lambda>t. transition_migration t mid PREPARING ABORTED tf)) (\<lambda>_ s. \<forall>e. F e s) F"
    "triple K (db E (\<lambda>t. transition_migration t mid COPYING ABORTED tf)) (\<lambda>_ s. \<forall>e. F e s) F"
    "B s \<Longrightarrow> F Unfinished s" "K s \<Longrightarrow> F Unfinished s" "M s \<Longrightarrow> F e s"
    "M s \<Longrightarrow> moved S mid (ac_agent_id c) (ac_owner_engine c) dst (ac_owner_epoch c) s"
  using assms by (simp_all add: hybrid_steps_def)

lemma abort_from_triple:
  assumes "hybrid_steps S E R mid c dst B K D M F"
  shows "triple B (abort_from E mid PREPARING e) Q F" and "triple K (abort_from E mid COPYING e) Q F"
  unfolding abort_from_def
  by (rule triple_then [OF hybrid_stepsD(8) [OF assms]], rule triple_pure, blast)
    (rule triple_then [OF hybrid_stepsD(9) [OF assms]], rule triple_pure, blast)

lemma hybrid_done_of:
  assumes "hybrid_steps S E R mid c dst B K D M F" and "ac_owner_engine c \<noteq> dst"
    and "M s" and "reads_lease (ac_agent_id c) dst (ac_owner_epoch c) new s"
  shows "hybrid_done S (ac_agent_id c) dst (hybrid_result_of mid c dst new x name) s"
proof -
  obtain count bytes elapsed where x: "x = (count, bytes, elapsed)" by (cases x)
  have m: "moved S mid (ac_agent_id c) (ac_owner_engine c) dst (ac_owner_epoch c) s"
    by (rule hybrid_stepsD(13) [OF assms(1,3)])
  show ?thesis using assms(2,4) m unfolding x by (simp add: hybrid_done_def hybrid_result_of_def)
qed

lemma gather_quietly_returns: "gather_quietly m n s \<noteq> (Inl e, t)"
  by (auto simp: gather_quietly_def thenP_def attempt_def ret_def elim!: bindP_InlE split: prod.splits)

lemma triple_given: "(G \<Longrightarrow> triple P m Q F) \<Longrightarrow> triple (\<lambda>s. P s \<and> G) m Q F"
  by (cases G) (simp_all add: triple_def)

text \<open>A pair kept as a list of equations, for the results that are matched on.\<close>

lemma triple_fst: "(\<And>c mid. triple (P (c, mid)) (f c mid) Q F) \<Longrightarrow> triple (P x) (case x of (c, mid) \<Rightarrow> f c mid) Q F"
  by (cases x) simp

lemma triple_case:
  "(\<And>c mid. triple (P c mid) (f c mid) Q F) \<Longrightarrow> triple (\<lambda>s. case x of (c, mid) \<Rightarrow> P c mid s) (case x of (c, mid) \<Rightarrow> f c mid) Q F"
  by (cases x) simp

context engine_traffic begin

lemma triple_R: "kept R P \<Longrightarrow> steps R m \<Longrightarrow> triple P m (\<lambda>_. P) (\<lambda>_. P)"
  by (rule triple_kept)

lemma triple_R_pair: "kept R P \<Longrightarrow> steps R m \<Longrightarrow> triple P m (\<lambda>x. P) (\<lambda>_. P)"
  by (rule triple_kept)

lemma triple_lift_same: "triple P (liftS r) (\<lambda>_. P) (\<lambda>_. P)"
  by (rule triple_lift)

lemma direct_transfer_triple:
  assumes h: "hybrid_steps S E R mid c dst B K D M F"
  shows "triple K (direct_transfer E mid c dst name port) (\<lambda>_. D) (\<lambda>_. K)"
  unfolding direct_transfer_def Let_def
  by (rule triple_bind [OF triple_R], rule hybrid_stepsD(2) [OF h], rule steps_awaits,
      rule triple_bind [OF triple_R], rule hybrid_stepsD(2) [OF h], intro steps_gather_two steps_awaits,
      rule triple_fst, rule triple_bind [OF triple_R], rule hybrid_stepsD(2) [OF h], rule steps_awaits,
      rule triple_then [OF triple_lift_same], rule triple_then [OF triple_lift_same],
      rule triple_bind [OF triple_lift_same], rule triple_fst,
      rule triple_then [OF hybrid_stepsD(6) [OF h]], rule triple_pure)

lemma blocking_triple:
  assumes h: "hybrid_steps S E R mid c dst B K D M F" and ne: "ac_owner_engine c \<noteq> dst"
  shows "triple B (bindP (catching
        (bindP (hybrid_group C E (ac_owner_engine c) dst) (\<lambda>g. thenP (mark_copying E mid c) (ret g)))
        (abort_from E mid PREPARING)) (\<lambda>(name, port).
     bindP (catching (direct_transfer E mid c dst name port) (abort_from E mid COPYING)) (\<lambda>x.
     bindP (db_commit_migration E mid) (\<lambda>new.
       ret (hybrid_result_of mid c dst new x name))))) (hybrid_done S (ac_agent_id c) dst) F"
proof (rule triple_bind)
  show "triple B (catching (bindP (hybrid_group C E (ac_owner_engine c) dst) (\<lambda>g. thenP (mark_copying E mid c) (ret g)))
      (abort_from E mid PREPARING)) (\<lambda>_. K) F"
  proof (rule triple_catching [OF _ abort_from_triple(1) [OF h]])
    show "triple B (bindP (hybrid_group C E (ac_owner_engine c) dst) (\<lambda>g. thenP (mark_copying E mid c) (ret g))) (\<lambda>_. K) (\<lambda>_. B)"
      by (rule triple_bind [OF triple_R], rule hybrid_stepsD(1) [OF h], rule steps_hybrid_group,
          rule triple_then [OF hybrid_stepsD(5) [OF h]], rule triple_pure)
  qed (rule hybrid_stepsD(10) [OF h])
next
  fix x :: "string \<times> int"
  show "triple K (case x of (name, port) \<Rightarrow>
     bindP (catching (direct_transfer E mid c dst name port) (abort_from E mid COPYING)) (\<lambda>x.
     bindP (db_commit_migration E mid) (\<lambda>new.
       ret (hybrid_result_of mid c dst new x name)))) (hybrid_done S (ac_agent_id c) dst) F"
    by (rule triple_fst [where P = "\<lambda>_. K"], rule triple_bind [OF triple_catching],
        rule direct_transfer_triple [OF h], rule abort_from_triple(2) [OF h], erule hybrid_stepsD(11) [OF h],
        rule triple_bind [OF hybrid_stepsD(7) [OF h]], rule triple_pure)
      (blast intro: hybrid_done_of [OF h ne])
qed

lemma reserve_async_triple:
  assumes h: "hybrid_steps S E R mid c dst B K D M F"
  shows "triple B (reserve_async C E mid c dst) (\<lambda>_. K) (\<lambda>_. B)"
  unfolding reserve_async_def Let_def
  by (rule triple_bind [OF triple_R], rule hybrid_stepsD(1) [OF h], rule steps_hybrid_group, rule triple_fst,
      rule triple_bind [OF triple_R], rule hybrid_stepsD(1) [OF h], rule steps_awaits,
      rule triple_then [OF triple_R], rule hybrid_stepsD(1) [OF h], rule steps_prepare_transfer,
      rule triple_then [OF triple_R], rule hybrid_stepsD(1) [OF h], rule steps_prepare_transfer,
      rule triple_then [OF hybrid_stepsD(5) [OF h]], rule triple_pure)

lemma copy_async_triple:
  assumes h: "hybrid_steps S E R mid c dst B K D M F"
  shows "triple K (copy_async E fuel mid c dst name port begun) (\<lambda>_. D) (\<lambda>_. K)"
  unfolding copy_async_def Let_def
  by (rule triple_bind [OF triple_R], rule hybrid_stepsD(2) [OF h], intro steps_gather_two steps_start_transfer,
      rule triple_fst, rule triple_then [OF triple_R], rule hybrid_stepsD(2) [OF h], rule steps_check_start,
      rule triple_then [OF triple_R], rule hybrid_stepsD(2) [OF h], rule steps_check_start,
      rule triple_bind [OF triple_R], rule hybrid_stepsD(2) [OF h], rule steps_awaits,
      rule triple_bind [OF triple_R], rule hybrid_stepsD(2) [OF h], rule steps_poll_both, rule triple_fst,
      rule triple_bind [OF triple_R], rule hybrid_stepsD(2) [OF h], rule steps_awaits,
      rule triple_bind [OF triple_lift_same], rule triple_fst,
      rule triple_then [OF hybrid_stepsD(6) [OF h]], rule triple_pure)

lemma commit_async_triple:
  assumes h: "hybrid_steps S E R mid c dst B K D M F"
  shows "triple D (commit_async E mid src dst)
    (\<lambda>new s. M s \<and> reads_lease (ac_agent_id c) dst (ac_owner_epoch c) new s) F"
  unfolding commit_async_def
proof (rule triple_bind [OF hybrid_stepsD(7) [OF h]])
  fix new
  let ?Q = "\<lambda>s. M s \<and> reads_lease (ac_agent_id c) dst (ac_owner_epoch c) new s"
  have "kept R ?Q" by (rule hybrid_stepsD(3) [OF h])
  then have "triple ?Q (gather_two E (cleanup_async E (''hybrid-'' @ mid) src) (cleanup_async E (''hybrid-'' @ mid) dst))
      (\<lambda>_. ?Q) F"
    by (rule triple_kept) (intro steps_gather_two steps_cleanup_async, blast intro: hybrid_stepsD(12) [OF h])
  then show "triple ?Q (thenP (gather_two E (cleanup_async E (''hybrid-'' @ mid) src) (cleanup_async E (''hybrid-'' @ mid) dst)) (ret new))
      (\<lambda>new s. M s \<and> reads_lease (ac_agent_id c) dst (ac_owner_epoch c) new s) F"
    by (rule triple_then) (rule triple_pure)
qed

lemma cleaned_triple:
  assumes "kept R P" and "triple P (h e) Q F"
  shows "triple P (cleaned E mid src dst h e) Q F"
  unfolding cleaned_def
proof (rule triple_then [OF _ assms(2)])
  let ?m = "gather_quietly (cleanup_async E (''hybrid-'' @ mid) src) (cleanup_async E (''hybrid-'' @ mid) dst)"
  have "steps R ?m" by (intro steps_gather_quietly steps_cleanup_async)
  then show "triple P ?m (\<lambda>_. P) F"
    using assms(1) by (intro tripleI) (auto simp: kept_def gather_quietly_returns dest: stepsD)
qed

lemma async_triple:
  assumes h: "hybrid_steps S E R mid c dst B K D M F" and ne: "ac_owner_engine c \<noteq> dst"
  shows "triple B (bindP (catching (reserve_async C E mid c dst)
        (cleaned E mid (ac_owner_engine c) dst (abort_from E mid PREPARING))) (\<lambda>(name, port, begun).
     bindP (catching (copy_async E fuel mid c dst name port begun)
        (cleaned E mid (ac_owner_engine c) dst (abort_from E mid COPYING))) (\<lambda>x.
     bindP (catching (commit_async E mid (ac_owner_engine c) dst) (cleaned E mid (ac_owner_engine c) dst throw)) (\<lambda>new.
       ret (hybrid_result_of mid c dst new x name))))) (hybrid_done S (ac_agent_id c) dst) F"
proof (rule triple_bind [OF triple_catching [OF reserve_async_triple [OF h]
        cleaned_triple [OF hybrid_stepsD(1) [OF h] abort_from_triple(1) [OF h]]]])
  fix x :: "string \<times> int \<times> seconds"
  show "triple K (case x of (name, port, begun) \<Rightarrow>
     bindP (catching (copy_async E fuel mid c dst name port begun)
        (cleaned E mid (ac_owner_engine c) dst (abort_from E mid COPYING))) (\<lambda>x.
     bindP (catching (commit_async E mid (ac_owner_engine c) dst) (cleaned E mid (ac_owner_engine c) dst throw)) (\<lambda>new.
       ret (hybrid_result_of mid c dst new x name)))) (hybrid_done S (ac_agent_id c) dst) F"
    by (rule triple_fst [where P = "\<lambda>_. K"], rule triple_fst [where P = "\<lambda>_. K"],
        rule triple_bind [OF triple_catching [OF copy_async_triple [OF h]
          cleaned_triple [OF hybrid_stepsD(2) [OF h] abort_from_triple(2) [OF h]]]],
        erule hybrid_stepsD(11) [OF h],
        rule triple_bind [OF triple_catching [OF commit_async_triple [OF h] cleaned_triple [OF hybrid_stepsD(4) [OF h] triple_pure(2)]]],
        assumption, assumption, rule triple_pure)
      (blast intro: hybrid_done_of [OF h ne])
qed (rule hybrid_stepsD(10) [OF h])

end

section \<open>Among interference\<close>

lemma published_steps:
  assumes "ac_owner_engine c \<noteq> dst"
  shows "hybrid_steps S E rt_le mid c dst (published S mid (ac_agent_id c) (ac_owner_engine c) dst (ac_owner_epoch c))
    (published S mid (ac_agent_id c) (ac_owner_engine c) dst (ac_owner_epoch c))
    (published S mid (ac_agent_id c) (ac_owner_engine c) dst (ac_owner_epoch c))
    (moved S mid (ac_agent_id c) (ac_owner_engine c) dst (ac_owner_epoch c)) (\<lambda>_ _. True)"
proof -
  let ?P = "published S mid (ac_agent_id c) (ac_owner_engine c) dst (ac_owner_epoch c)"
  have P: "kept rt_le ?P" by (auto simp: kept_def intro: published_moves)
  have db: "steps rt_le (db E (\<lambda>t. transition_migration t mid st st' tf))" for st st' tf
    by (intro steps_db keeps_intros)
  have "triple ?P (db_commit_migration E mid)
      (\<lambda>new s. moved S mid (ac_agent_id c) (ac_owner_engine c) dst (ac_owner_epoch c) s \<and>
        reads_lease (ac_agent_id c) dst (ac_owner_epoch c) new s) (\<lambda>_ _. True)"
    by (rule triple_conseq [OF commit_hands_over]) auto
  moreover have "triple ?P (db E (\<lambda>t. transition_migration t mid st st' tf)) (\<lambda>_ _. True) (\<lambda>_ _. True)" for st st' tf
    by (rule triple_True) simp
  moreover have "kept rt_le (\<lambda>s. moved S mid (ac_agent_id c) (ac_owner_engine c) dst (ac_owner_epoch c) s \<and>
      reads_lease (ac_agent_id c) dst (ac_owner_epoch c) new s)" for new
    by (auto simp: kept_def intro: moved_later reads_lease_later)
  ultimately show ?thesis
    using P triple_kept [OF P db] by (simp add: hybrid_steps_def mark_copying_def mark_ready_def kept_def [of _ "\<lambda>_. True"])
qed

lemma start_hybrid_any:
  "triple (since S) (start_hybrid C E a dst)
    (\<lambda>x s. case x of (c, mid) \<Rightarrow> published S mid (ac_agent_id c) (ac_owner_engine c) dst (ac_owner_epoch c) s \<and>
       True \<and> ac_agent_id c = a \<and> ac_owner_engine c \<noteq> dst) (\<lambda>_ _. True)"
  unfolding start_hybrid_def
proof (rule triple_bind [OF triple_get_agent])
  fix c
  have start: "triple (\<lambda>s. (since S s \<and> ac_agent_id c = a) \<and> dst \<noteq> ac_owner_engine c)
      (thenP (db_start_migration E (new_migration_record mid a (ac_owner_engine c) dst (ac_owner_epoch c) PREPARING)) (ret (c, mid)))
      (\<lambda>x s. case x of (c, mid) \<Rightarrow> published S mid (ac_agent_id c) (ac_owner_engine c) dst (ac_owner_epoch c) s \<and>
         True \<and> ac_agent_id c = a \<and> ac_owner_engine c \<noteq> dst) (\<lambda>_ _. True)" for mid
  proof (cases "ac_agent_id c = a \<and> dst \<noteq> ac_owner_engine c")
    case True
    then show ?thesis
      by (intro triple_then [OF triple_conseq [OF start_publishes [of S]]] triple_pure) auto
  qed (auto simp: triple_def)
  have fresh: "triple (\<lambda>s. (since S s \<and> ac_agent_id c = a) \<and> dst \<noteq> ac_owner_engine c) (uuid4_hex E)
      (\<lambda>_ s. (since S s \<and> ac_agent_id c = a) \<and> dst \<noteq> ac_owner_engine c) (\<lambda>_ _. True)"
    using since_later [OF stepsD [OF steps_uuid4_hex]] by (intro triple_True) blast
  show "triple (\<lambda>s. since S s \<and> ac_agent_id c = a)
    (thenP (guardP (dst \<noteq> ac_owner_engine c) (ValueError ''destination must differ from the source engine''))
    (thenP (guardP (dst \<in> set (hc_engines C) \<and> ac_owner_engine c \<in> set (hc_engines C)) (KeyError (py_repr dst)))
    (bindP (uuid4_hex E) (\<lambda>mid.
     thenP (db_start_migration E (new_migration_record mid a (ac_owner_engine c) dst (ac_owner_epoch c) PREPARING))
           (ret (c, mid))))))
    (\<lambda>x s. case x of (c, mid) \<Rightarrow> published S mid (ac_agent_id c) (ac_owner_engine c) dst (ac_owner_epoch c) s \<and>
       True \<and> ac_agent_id c = a \<and> ac_owner_engine c \<noteq> dst) (\<lambda>_ _. True)"
    by (rule triple_then [OF triple_guard [where Q = "\<lambda>s. (since S s \<and> ac_agent_id c = a) \<and> dst \<noteq> ac_owner_engine c"]],
        simp, simp, rule triple_then [OF triple_guard], assumption, simp, rule triple_bind [OF fresh], rule start)
qed

lemma hybrid_variants:
  assumes "\<And>c mid. G c \<Longrightarrow> ac_agent_id c = a \<Longrightarrow> ac_owner_engine c \<noteq> dst \<Longrightarrow> \<exists>K D M. hybrid_steps S E R mid c dst (B c mid) K D M F"
    and R: "engine_traffic R E"
    and start: "triple P (start_hybrid C E a dst)
      (\<lambda>x s. case x of (c, mid) \<Rightarrow> B c mid s \<and> G c \<and> ac_agent_id c = a \<and> ac_owner_engine c \<noteq> dst) F"
  shows "triple P (hybrid_migrate C E a dst) (hybrid_done S a dst) F"
    and "triple P (hybrid_migrate_async C E fuel a dst) (hybrid_done S a dst) F"
proof -
  have "triple (\<lambda>s. B c mid s \<and> G c \<and> ac_agent_id c = a \<and> ac_owner_engine c \<noteq> dst) m (hybrid_done S a dst) F"
    if "\<And>K D M. hybrid_steps S E R mid c dst (B c mid) K D M F \<Longrightarrow> ac_owner_engine c \<noteq> dst \<Longrightarrow>
      triple (B c mid) m (hybrid_done S (ac_agent_id c) dst) F" for c mid m
  proof (rule triple_given)
    assume "G c \<and> ac_agent_id c = a \<and> ac_owner_engine c \<noteq> dst"
    then show "triple (B c mid) m (hybrid_done S a dst) F" using that assms(1) by blast
  qed
  note given = this
  show "triple P (hybrid_migrate C E a dst) (hybrid_done S a dst) F"
    unfolding hybrid_migrate_def
    by (rule triple_bind [OF start], rule triple_case, rule given, rule engine_traffic.blocking_triple [OF R])
  show "triple P (hybrid_migrate_async C E fuel a dst) (hybrid_done S a dst) F"
    unfolding hybrid_migrate_async_def Let_def
    by (rule triple_bind [OF start], rule triple_case, rule given, rule engine_traffic.async_triple [OF R])
qed

text \<open>
  A hybrid migration that returns has moved the lease: in any interleaving, when the
  blocking or the asynchronous variant returns, a commit transaction during the call took
  the lease from the reported source and old epoch to the destination at the next epoch. The
  continuation it returns was read after that: it names that epoch at the destination, or a
  later one, and the store's lease is there or has moved on since.
\<close>

theorem hybrid_migration_moves_lease:
  assumes "hybrid_migrate C E a dst s = (Inr r, t) \<or> hybrid_migrate_async C E fuel a dst s = (Inr r, t)"
  shows "hr_agent_id r = a \<and> hr_destination_engine r = dst \<and> hr_source_engine r \<noteq> dst \<and>
    (\<exists>u v. store_le (rt_store s) u \<and> leases u a = Some (hr_source_engine r, hr_old_epoch r) \<and>
       (\<exists>now. commit_migration_tx now (hr_migration_id r) u = (Inr a, v)) \<and>
       leases v a = Some (dst, hr_old_epoch r + 1) \<and>
       (\<exists>m. sel mr_migration_id (hr_migration_id r) (migrations v) = Some m \<and> mr_state m = COMMITTED \<and>
          migration_of (hr_migration_id r) a (hr_source_engine r) dst (hr_old_epoch r) m) \<and>
       store_le v (rt_store t)) \<and>
    ac_owner_epoch (hr_continuation r) = hr_new_epoch r \<and> hr_old_epoch r + 1 \<le> hr_new_epoch r \<and>
    (hr_new_epoch r = hr_old_epoch r + 1 \<longrightarrow> ac_owner_engine (hr_continuation r) = dst) \<and>
    (\<exists>e k. leases (rt_store t) a = Some (e, k) \<and> hr_new_epoch r \<le> k \<and>
       (k = hr_new_epoch r \<longrightarrow> e = ac_owner_engine (hr_continuation r)))"
proof -
  let ?S = "rt_store s"
  note variants = hybrid_variants [where R = rt_le and G = "\<lambda>_. True" and F = "\<lambda>_ _. True" and P = "since ?S" and S = ?S and
      B = "\<lambda>c mid. published ?S mid (ac_agent_id c) (ac_owner_engine c) dst (ac_owner_epoch c)",
      OF _ rt_traffic.engine_traffic_axioms start_hybrid_any]
  have "triple (since ?S) (hybrid_migrate C E a dst) (hybrid_done ?S a dst) (\<lambda>_ _. True)"
    by (rule variants(1)) (rule exI, rule exI, rule exI, erule published_steps)
  moreover have "triple (since ?S) (hybrid_migrate_async C E fuel a dst) (hybrid_done ?S a dst) (\<lambda>_ _. True)"
    by (rule variants(2)) (rule exI, rule exI, rule exI, erule published_steps)
  ultimately have res: "hybrid_done ?S a dst r t"
    using assms triple_returns [where P = "since ?S" and s = s and t = t and a = r and Q = "hybrid_done ?S a dst"]
      since_start [of s] by metis
  then have "moved ?S (hr_migration_id r) a (hr_source_engine r) dst (hr_old_epoch r) t" by (simp add: hybrid_done_def)
  note moment = moved_moment [OF this]
  show ?thesis by (intro conjI moment) (use res in \<open>auto simp: hybrid_done_def reads_lease_def\<close>)
qed

section \<open>Alone\<close>

definition hybrid_settled :: "store \<Rightarrow> agent_id \<Rightarrow> engine_id \<Rightarrow> int \<Rightarrow> engine_id \<Rightarrow> exn \<Rightarrow> rt \<Rightarrow> bool" where
  "hybrid_settled s0 a src n dst e s \<longleftrightarrow>
     e = Unfinished \<or> owners_kept s0 s \<or> (\<exists>mid. handed_over mid a src dst n s)"

lemma kept_same_store: "store_property P \<Longrightarrow> kept same_store P"
  unfolding kept_def same_store_def store_property_def by metis

lemma store_property_moves: "store_property (moved S mid a src dst n)" "store_property (reads_lease a dst n c)"
  by (simp_all add: store_property_def moved_def reads_lease_def)

lemma store_property_conj: "store_property P \<Longrightarrow> store_property Q \<Longrightarrow> store_property (\<lambda>s. P s \<and> Q s)"
  unfolding store_property_def by blast

lemma flight_steps:
  assumes alone: "alone E"
    and c: "ac_owner_engine c = src \<and> ac_owner_epoch c = n" "ac_agent_id c = a"
  shows "hybrid_steps s0 E same_store mid c dst (in_flight s0 mid a src dst n PREPARING) (in_flight s0 mid a src dst n COPYING)
    (in_flight s0 mid a src dst n DEST_READY) (\<lambda>s. handed_over mid a src dst n s \<and> moved s0 mid a src dst n s)
    (hybrid_settled s0 a src n dst)"
proof -
  have aborted: "triple (in_flight s0 mid a src dst n st) (db E (\<lambda>t. transition_migration t mid st ABORTED tf))
      (\<lambda>_ s. \<forall>e. hybrid_settled s0 a src n dst e s) (hybrid_settled s0 a src n dst)" if "live_state st" for st tf
    by (rule triple_conseq [OF migration_moves_alone [OF alone]])
      (use that in \<open>auto simp: hybrid_settled_def dest: owners_kept_aborted\<close>)
  have commit: "triple (in_flight s0 mid a src dst n DEST_READY) (db_commit_migration E mid)
      (\<lambda>new s. (handed_over mid a src dst n s \<and> moved s0 mid a src dst n s) \<and> reads_lease a dst n new s) (hybrid_settled s0 a src n dst)"
    by (rule triple_conseq [OF commit_alone [OF alone, of s0 mid a src dst n]]) auto
  have over: "kept same_store (\<lambda>s. (handed_over mid a src dst n s \<and> moved s0 mid a src dst n s) \<and> reads_lease a dst n new s)" for new
    by (intro kept_same_store store_property_conj store_property_handed_over store_property_moves)
  have move: "triple (in_flight s0 mid a src dst n st) (db E (\<lambda>t. transition_migration t mid st st' tf))
      (\<lambda>_. in_flight s0 mid a src dst n st') (\<lambda>_. in_flight s0 mid a src dst n st)" if "live_state st" for st st' tf
    by (rule triple_safe [OF migration_moves_alone [OF alone]]) (use that in simp)
  have "kept same_store (hybrid_settled s0 a src n dst e)" for e
    by (rule kept_same_store) (simp add: store_property_def hybrid_settled_def owners_kept_def handed_over_def)
  then show ?thesis
    using aborted commit move kept_same_store [OF store_property_in_flight] over c
    by (simp add: hybrid_steps_def mark_copying_def mark_ready_def hybrid_settled_def) blast
qed

lemma start_hybrid_alone:
  assumes alone: "alone E" and ok: "store_ok s0" and owner: "leases s0 a = Some (src, n)"
  shows "triple (\<lambda>s. rt_store s = s0) (start_hybrid C E a dst)
    (\<lambda>x s. case x of (c, mid) \<Rightarrow> in_flight s0 mid a src dst n PREPARING s \<and>
       (ac_owner_engine c = src \<and> ac_owner_epoch c = n) \<and> ac_agent_id c = a \<and> ac_owner_engine c \<noteq> dst)
    (hybrid_settled s0 a src n dst)"
  unfolding start_hybrid_def
proof (rule triple_bind)
  show "triple (\<lambda>s. rt_store s = s0) (db E (\<lambda>_. get_agent a))
      (\<lambda>c s. rt_store s = s0 \<and> ac_agent_id c = a \<and> ac_owner_engine c = src \<and> ac_owner_epoch c = n)
      (hybrid_settled s0 a src n dst)"
    using owner by (intro tripleI) (auto dest!: db_alone_store [OF alone] simp: get_agent_def leases_def hybrid_settled_def
        owners_kept_def dest: sel_key split: option.splits)
next
  fix c
  let ?P = "\<lambda>s. rt_store s = s0 \<and> ac_agent_id c = a \<and> ac_owner_engine c = src \<and> ac_owner_epoch c = n"
  have fail: "hybrid_settled s0 a src n dst e s" if "?P s" for e s
    using that by (simp add: hybrid_settled_def owners_kept_refl)
  have fresh: "triple (\<lambda>s. ?P s \<and> dst \<noteq> src) (uuid4_hex E) (\<lambda>_ s. ?P s \<and> dst \<noteq> src) (hybrid_settled s0 a src n dst)"
    by (rule tripleI) (auto simp: uuid4_hex_def log_event_def)
  have start: "triple (\<lambda>s. ?P s \<and> dst \<noteq> src)
      (db_start_migration E (new_migration_record mid a (ac_owner_engine c) dst (ac_owner_epoch c) PREPARING))
      (\<lambda>_ s. in_flight s0 mid a src dst n PREPARING s \<and>
         (ac_owner_engine c = src \<and> ac_owner_epoch c = n) \<and> ac_agent_id c = a \<and> ac_owner_engine c \<noteq> dst)
      (hybrid_settled s0 a src n dst)" for mid
  proof (cases "ac_agent_id c = a \<and> ac_owner_engine c = src \<and> ac_owner_epoch c = n \<and> dst \<noteq> src")
    case True
    then show ?thesis
      by (auto intro!: triple_conseq [OF start_alone [OF alone ok]] simp: hybrid_settled_def owners_kept_refl)
  qed (auto simp: triple_def)
  show "triple ?P (thenP (guardP (dst \<noteq> ac_owner_engine c) (ValueError ''destination must differ from the source engine''))
    (thenP (guardP (dst \<in> set (hc_engines C) \<and> ac_owner_engine c \<in> set (hc_engines C)) (KeyError (py_repr dst)))
    (bindP (uuid4_hex E) (\<lambda>mid.
     thenP (db_start_migration E (new_migration_record mid a (ac_owner_engine c) dst (ac_owner_epoch c) PREPARING))
           (ret (c, mid))))))
    (\<lambda>x s. case x of (c, mid) \<Rightarrow> in_flight s0 mid a src dst n PREPARING s \<and>
       (ac_owner_engine c = src \<and> ac_owner_epoch c = n) \<and> ac_agent_id c = a \<and> ac_owner_engine c \<noteq> dst)
    (hybrid_settled s0 a src n dst)"
    by (rule triple_then [OF triple_guard [where Q = "\<lambda>s. ?P s \<and> dst \<noteq> src"]], simp, erule fail,
        rule triple_then [OF triple_guard [where Q = "\<lambda>s. ?P s \<and> dst \<noteq> src"]], assumption, rule fail, erule conjunct1,
        rule triple_bind [OF fresh], rule triple_then [OF start], rule triple_pure)
      auto
qed

text \<open>
  C13. A hybrid migration alone that fails is settled: with no other process, whatever the
  engines answered and at whatever step either variant raised (other than by running out of
  fuel), the owners are as before and no live migration was added; or the destination owns
  the agent at the next epoch and the record is \<open>COMMITTED\<close>.
\<close>

theorem failed_hybrid_migration_is_settled:
  assumes "alone E" and "store_ok (rt_store s)" and "leases (rt_store s) a = Some (src, n)"
    and "hybrid_migrate C E a dst s = (Inl e, t) \<or> hybrid_migrate_async C E fuel a dst s = (Inl e, t)" and "e \<noteq> Unfinished"
  shows "(agents (rt_store t) = agents (rt_store s) \<and>
      (\<forall>m \<in> set (migrations (rt_store t)). live_state (mr_state m) \<longrightarrow> m \<in> set (migrations (rt_store s)))) \<or>
    (leases (rt_store t) a = Some (dst, n + 1) \<and>
      (\<exists>m \<in> set (migrations (rt_store t)). mr_state m = COMMITTED \<and> mr_agent_id m = a \<and> mr_destination_engine m = dst))"
proof -
  let ?F = "hybrid_settled (rt_store s) a src n dst"
  note variants = hybrid_variants [where R = same_store and S = "rt_store s" and G = "\<lambda>c. ac_owner_engine c = src \<and> ac_owner_epoch c = n" and
      F = ?F and P = "\<lambda>u. rt_store u = rt_store s" and B = "\<lambda>c mid. in_flight (rt_store s) mid a src dst n PREPARING",
      OF _ alone_traffic [OF assms(1)] start_hybrid_alone [OF assms(1-3)]]
  have "triple (\<lambda>u. rt_store u = rt_store s) (hybrid_migrate C E a dst) (hybrid_done (rt_store s) a dst) ?F"
    by (rule variants(1)) (rule exI, rule exI, rule exI, erule (1) flight_steps [OF assms(1)])
  moreover have "triple (\<lambda>u. rt_store u = rt_store s) (hybrid_migrate_async C E fuel a dst) (hybrid_done (rt_store s) a dst) ?F"
    by (rule variants(2)) (rule exI, rule exI, rule exI, erule (1) flight_steps [OF assms(1)])
  ultimately have "?F e t"
    using assms(4) triple_raises [where P = "\<lambda>u. rt_store u = rt_store s" and s = s and t = t and e = e and F = ?F] by metis
  then show ?thesis
    using assms(5) by (auto simp: hybrid_settled_def owners_kept_def handed_over_def migration_of_def dest: sel_mem)
qed

section \<open>Witnesses\<close>

definition demo_hybrid :: hybrid_coordinator where
  "demo_hybrid = \<lparr>hc_engines = [''e0'', ''e1''], hc_master_address = ''h'', hc_base_port = 5\<rparr>"

definition direct_obliging :: env where
  "direct_obliging = obliging\<lparr>transport := (\<lambda>_ _ _. Body (JObj [(''success'', JBool True), (''state'', JStr ''COMPLETE''),
     (''token_count'', JInt (int (length (ac_token_ids demo_agent)))), (''bytes_transferred'', JInt 5)]))\<rparr>"

theorem hybrid_ports_distinct_witness:
  "hybrid_port demo_hybrid ''e0'' ''e1'' = hybrid_port demo_hybrid ''e1'' ''e0''"
  using hybrid_ports_distinct [of "''e0''" demo_hybrid "''e1''" "''e1''" "''e0''"] by (simp add: demo_hybrid_def insert_commute)

theorem hybrid_migration_moves_lease_witness:
  "\<exists>r t. hybrid_migrate demo_hybrid direct_obliging ''a'' ''e1'' idle = (Inr r, t) \<and> hr_source_engine r \<noteq> ''e1''"
proof -
  have "(case fst (hybrid_migrate demo_hybrid direct_obliging ''a'' ''e1'' idle) of Inr _ \<Rightarrow> True | _ \<Rightarrow> False)" by code_simp
  then obtain r t where run: "hybrid_migrate demo_hybrid direct_obliging ''a'' ''e1'' idle = (Inr r, t)"
    by (cases "hybrid_migrate demo_hybrid direct_obliging ''a'' ''e1'' idle") (auto split: sum.splits)
  from hybrid_migration_moves_lease [OF disjI1, OF run] run show ?thesis by auto
qed

theorem failed_hybrid_migration_is_settled_witness:
  "\<exists>x t. hybrid_migrate demo_hybrid quiet_env ''a'' ''e1'' idle = (Inl (EngineRequestError x), t) \<and>
     (agents (rt_store t) = agents (rt_store idle) \<or> leases (rt_store t) ''a'' = Some (''e1'', 2))"
proof -
  have "(case fst (hybrid_migrate demo_hybrid quiet_env ''a'' ''e1'' idle) of Inl (EngineRequestError _) \<Rightarrow> True | _ \<Rightarrow> False)"
    by code_simp
  then obtain x t where run: "hybrid_migrate demo_hybrid quiet_env ''a'' ''e1'' idle = (Inl (EngineRequestError x), t)"
    by (cases "hybrid_migrate demo_hybrid quiet_env ''a'' ''e1'' idle") (auto split: sum.splits exn.splits)
  from failed_hybrid_migration_is_settled [OF quiet_env_alone(1) idle_ok(1,2) disjI1, OF run] run show ?thesis by auto
qed

end
