(* ===== verification/HybridOrder.thy ===== *)
theory HybridOrder
  imports HybridProps
begin

text \<open>
  The order of calls in \<open>HybridMigrationCoordinator.migrate_async\<close>: no engine is told to
  start its transfer before both have answered that they are prepared.
\<close>

section \<open>Reservations before transfers\<close>

fun starts_transfer :: "event \<Rightarrow> bool" where
  "starts_transfer (Posted e (StartAsyncHybridTransfer tid role ts name port prepare_only)) = (\<not> prepare_only)"
| "starts_transfer _ = False"

text \<open>At some earlier point the engine was asked to prepare, and answered \<open>PREPARED\<close>.\<close>

definition prepared_at ::
  "env \<Rightarrow> event list \<Rightarrow> engine_id \<Rightarrow> string \<Rightarrow> string \<Rightarrow> token list \<Rightarrow> string \<Rightarrow> int \<Rightarrow> bool" where
  "prepared_at E l e tid role ts name port \<longleftrightarrow>
     (\<exists>i < length l. let c = StartAsyncHybridTransfer tid role ts name port True in
        l ! i = Posted e c \<and>
        (\<exists>j. call_engine (show_value E) (transport E (take i l) e) e c = Inr j \<and> in_state ''PREPARED'' j = Inr True))"

text \<open>The two calls that start the transfer between engines that are both prepared.\<close>

definition backed :: "env \<Rightarrow> event list \<Rightarrow> event \<Rightarrow> bool" where
  "backed E l ev \<longleftrightarrow> (\<exists>src dst tid role ts name port.
     ev = Posted (if role = ''source'' then src else dst) (StartAsyncHybridTransfer tid role ts name port False) \<and>
     prepared_at E l src tid ''source'' ts name port \<and> prepared_at E l dst tid ''destination'' ts name port)"

text \<open>Every transfer started after the first \<open>n\<close> events is backed by what precedes it.\<close>

definition all_backed :: "env \<Rightarrow> nat \<Rightarrow> rt \<Rightarrow> bool" where
  "all_backed E n s \<longleftrightarrow> n \<le> length (rt_log s) \<and> (\<forall>i < length (rt_log s). n \<le> i \<longrightarrow> starts_transfer (rt_log s ! i) \<longrightarrow>
     backed E (take i (rt_log s)) (rt_log s ! i))"

definition no_start :: "rt \<Rightarrow> rt \<Rightarrow> bool" where
  "no_start s t \<longleftrightarrow> (\<exists>l. rt_log t = rt_log s @ l \<and> (\<forall>ev \<in> set l. \<not> starts_transfer ev))"

interpretation unstarted: step_preorder no_start
proof (unfold_locales, goal_cases)
  case (1 s)
  then show ?case by (simp add: no_start_def)
next
  case (2 s t u)
  then obtain l m where "rt_log t = rt_log s @ l" "\<forall>ev \<in> set l. \<not> starts_transfer ev"
    "rt_log u = rt_log t @ m" "\<forall>ev \<in> set m. \<not> starts_transfer ev" by (auto simp: no_start_def)
  then have "rt_log u = rt_log s @ (l @ m) \<and> (\<forall>ev \<in> set (l @ m). \<not> starts_transfer ev)" by auto
  then show ?case unfolding no_start_def by blast
qed

lemma prepared_at_append: "prepared_at E l e tid role ts name port \<Longrightarrow> prepared_at E (l @ m) e tid role ts name port"
  unfolding prepared_at_def Let_def by (fastforce simp: nth_append)

lemma all_backed_later: "no_start s t \<Longrightarrow> all_backed E n s \<Longrightarrow> all_backed E n t"
proof -
  assume "no_start s t" and ab: "all_backed E n s"
  then obtain l where l: "rt_log t = rt_log s @ l" "\<forall>ev \<in> set l. \<not> starts_transfer ev" by (auto simp: no_start_def)
  show ?thesis
    unfolding all_backed_def
  proof (intro conjI allI impI)
    show "n \<le> length (rt_log t)" using ab l(1) by (simp add: all_backed_def)
    fix i assume i: "i < length (rt_log t)" "n \<le> i" "starts_transfer (rt_log t ! i)"
    have "i < length (rt_log s)"
    proof (rule ccontr)
      assume "\<not> ?thesis"
      then have "rt_log t ! i \<in> set l" using i(1) l(1) by (simp add: nth_append)
      then show False using i(3) l(2) by blast
    qed
    then show "backed E (take i (rt_log t)) (rt_log t ! i)"
      using ab i(2,3) l(1) by (simp add: all_backed_def nth_append)
  qed
qed

text \<open>No step but the two starts posts a start.\<close>

lemma unstarted_post: "\<not> starts_transfer (Posted e c) \<Longrightarrow> steps no_start (post E e c)"
  by (rule stepsI) (simp add: no_start_def post_def log_event_def interfere_def)

lemma unstarted_awaits:
  "steps no_start (read_clock E)" "steps no_start (sleep E d)" "steps no_start (uuid4_hex E)"
  "steps no_start (acquire E l)" "steps no_start (release l)" "steps no_start (read_perf E)"
  "steps no_start (db E m)" "steps no_start (join_groups E)" "steps no_start (modifyP (\<lambda>s. s\<lparr>rt_groups := g s\<rparr>))"
  by (rule stepsI; simp add: no_start_def read_clock_def sleep_def uuid4_hex_def acquire_def release_def read_perf_def db_def
      join_groups_def modifyP_def log_event_def interfere_def Let_def split: prod.splits)+

lemma unstarted_gather_two: "steps no_start m \<Longrightarrow> steps no_start m' \<Longrightarrow> steps no_start (gather_two E m m')"
  unfolding gather_two_def by (intro unstarted.steps_rules)

lemma unstarted_gather_quietly: "steps no_start m \<Longrightarrow> steps no_start m' \<Longrightarrow> steps no_start (gather_quietly m m')"
  unfolding gather_quietly_def by (intro unstarted.steps_rules)

lemma unstarted_with_lock: "steps no_start m \<Longrightarrow> steps no_start (with_lock E l m)"
  unfolding with_lock_def by (intro unstarted.steps_rules unstarted.steps_finally_do unstarted_awaits)

lemmas unstarted_rules = unstarted.steps_rules unstarted.steps_catch unstarted_awaits unstarted_gather_two
  unstarted_gather_quietly unstarted_with_lock unstarted_post

lemma unstarted_group: "steps no_start (hybrid_group C E src dst)"
  unfolding hybrid_group_def Let_def by (intro unstarted_rules) simp_all

lemma unstarted_start: "steps no_start (start_hybrid C E a dst)"
  unfolding start_hybrid_def db_start_migration_def by (intro unstarted_rules)

lemma unstarted_check: "steps no_start (check_start E x)"
  unfolding check_start_def by (intro unstarted_rules)

lemma unstarted_poll: "steps no_start (poll_both E fuel tid src dst d)"
  by (induction fuel) (auto intro!: unstarted_rules split: option.splits)

lemma unstarted_mark: "steps no_start (mark_copying E mid c)" "steps no_start (mark_ready E mid b x)"
  unfolding mark_copying_def mark_ready_def by (rule unstarted_awaits)+

lemma unstarted_cleaned: "(\<And>e. steps no_start (h e)) \<Longrightarrow> steps no_start (cleaned E mid src dst h e)"
  unfolding cleaned_def cleanup_async_def by (intro unstarted_rules) simp_all

lemma unstarted_abort: "steps no_start (abort_from E mid st e)"
  unfolding abort_from_def by (intro unstarted_rules)

lemma unstarted_commit: "steps no_start (commit_async E mid src dst)"
  unfolding commit_async_def cleanup_async_def db_commit_migration_def by (intro unstarted_rules) simp_all

text \<open>Triples over the log.\<close>

lemma triple_unstarted: "steps no_start m \<Longrightarrow> triple (all_backed E n) m (\<lambda>_. all_backed E n) (\<lambda>_. all_backed E n)"
  by (rule triple_steps [where R = no_start]) (auto intro: all_backed_later)

lemma prepared_later: "no_start s t \<Longrightarrow> prepared_at E (rt_log s) e tid role ts name port \<Longrightarrow> prepared_at E (rt_log t) e tid role ts name port"
  by (auto simp: no_start_def intro: prepared_at_append)

lemma triple_gather_two:
  assumes "triple P m (\<lambda>_. P) (\<lambda>_. P)" and "triple P m' (\<lambda>_. P) (\<lambda>_. P)"
  shows "triple P (gather_two E m m') (\<lambda>_. P) (\<lambda>_. P)"
proof -
  have attempt: "triple P (attempt x) (\<lambda>_. P) (\<lambda>_. P)" if "triple P x (\<lambda>_. P) (\<lambda>_. P)" for x :: "(rt, 'a) prog"
  proof (rule tripleI)
    fix s r t
    assume P: "P s" and "attempt x s = (Inr r, t)"
    then obtain q where "x s = (q, t)" by (auto simp: attempt_def split: prod.splits)
    then show "P t" using triple_returns [OF that P] triple_raises [OF that P] by (cases q) auto
  qed (auto simp: attempt_def split: prod.splits)
  show ?thesis
    unfolding gather_two_def
    by (rule triple_bind [OF attempt [OF assms(1)]], rule triple_bind [OF attempt [OF assms(2)]],
        rule triple_bind [where R = "\<lambda>_. P"])
      (auto intro: triple_pure split: sum.splits)
qed

definition both_prepared :: "env \<Rightarrow> nat \<Rightarrow> engine_id \<Rightarrow> engine_id \<Rightarrow> string \<Rightarrow> token list \<Rightarrow> string \<Rightarrow> int \<Rightarrow> rt \<Rightarrow> bool" where
  "both_prepared E n src dst tid ts name port s \<longleftrightarrow> all_backed E n s \<and>
     prepared_at E (rt_log s) src tid ''source'' ts name port \<and> prepared_at E (rt_log s) dst tid ''destination'' ts name port"

lemma prepare_triple:
  assumes "\<And>s t. no_start s t \<Longrightarrow> P s \<Longrightarrow> P t" and "\<And>s. P s \<Longrightarrow> all_backed E n s"
  shows "triple P (prepare_transfer E tid e role ts name port)
    (\<lambda>_ s. P s \<and> prepared_at E (rt_log s) e tid role ts name port) (\<lambda>_. all_backed E n)"
proof -
  let ?c = "StartAsyncHybridTransfer tid role ts name port True"
  have st: "steps no_start (prepare_transfer E tid e role ts name port)"
    unfolding prepare_transfer_def start_transfer_def by (intro unstarted_rules) simp
  have "prepared_at E (rt_log t) e tid role ts name port"
    if run: "prepare_transfer E tid e role ts name port s = (Inr u, t)" for s u t
  proof -
    from run obtain j s1 where post: "post E e ?c s = (Inr j, s1)" and ok: "in_state ''PREPARED'' j = Inr True" and t: "t = s1"
      unfolding prepare_transfer_def start_transfer_def
      by (elim bindP_InrE) (auto simp: guardP_def ret_def throw_def liftS_def split: if_splits)
    have "call_engine (show_value E) (transport E (rt_log s) e) e ?c = Inr j" "rt_log t = rt_log s @ [Posted e ?c]"
      using post t by (auto simp: post_def log_event_def interfere_def)
    then show ?thesis using ok by (auto simp: prepared_at_def Let_def intro!: exI [of _ "length (rt_log s)"])
  qed
  then show ?thesis using assms stepsD [OF st] by (intro tripleI) blast+
qed

lemma start_triple:
  assumes "e = (if role = ''source'' then src else dst)"
  shows "triple (both_prepared E n src dst tid ts name port) (start_transfer E tid e role ts name port False)
    (\<lambda>_. both_prepared E n src dst tid ts name port) (\<lambda>_. both_prepared E n src dst tid ts name port)"
proof -
  have "both_prepared E n src dst tid ts name port t"
    if both: "both_prepared E n src dst tid ts name port s" and run: "start_transfer E tid e role ts name port False s = (r, t)"
    for s r t
  proof -
    let ?ev = "Posted e (StartAsyncHybridTransfer tid role ts name port False)"
    have log: "rt_log t = rt_log s @ [?ev]" using run by (auto simp: start_transfer_def post_def log_event_def interfere_def)
    have "backed E (rt_log s) ?ev" using both assms unfolding backed_def both_prepared_def by blast
    then have "all_backed E n t"
      using both log by (auto simp: both_prepared_def all_backed_def nth_append less_Suc_eq)
    then show ?thesis using both log by (simp add: both_prepared_def prepared_at_append)
  qed
  then show ?thesis by (intro tripleI) blast+
qed

lemma reserve_order:
  "triple (all_backed E n) (reserve_async C E mid c dst)
    (\<lambda>(name, port, _). both_prepared E n (ac_owner_engine c) dst (''hybrid-'' @ mid) (ac_token_ids c) name port)
    (\<lambda>_. all_backed E n)"
proof -
  note pure = triple_pure(1) [where Q = "\<lambda>(name, port, _).
    both_prepared E n (ac_owner_engine c) dst (''hybrid-'' @ mid) (ac_token_ids c) name port"]
  have mark: "triple (\<lambda>s. (all_backed E n s \<and> prepared_at E (rt_log s) src tid ''source'' ts name port) \<and>
        prepared_at E (rt_log s) dst tid ''destination'' ts name port) (mark_copying E mid c)
      (\<lambda>_. both_prepared E n src dst tid ts name port) (\<lambda>_. all_backed E n)" for src tid ts name port
    by (intro tripleI) (auto simp: both_prepared_def dest!: stepsD [OF unstarted_mark(1)] intro: all_backed_later prepared_later)
  show ?thesis
    unfolding reserve_async_def Let_def
    by (rule triple_bind [OF triple_unstarted [OF unstarted_group]], rule triple_fst,
        rule triple_bind [OF triple_unstarted [OF unstarted_awaits(6)]],
        rule triple_then [OF prepare_triple [where P = "all_backed E n"]], erule (1) all_backed_later, assumption,
        rule triple_then [OF prepare_triple], blast intro: prepared_later all_backed_later, blast,
        rule triple_then [OF mark], rule pure, simp)
qed

lemma unstarted_case: "(\<And>a b. steps no_start (f a b)) \<Longrightarrow> steps no_start (case x of (a, b) \<Rightarrow> f a b)"
  by (cases x) simp

lemma cleaned_abort_raises: "cleaned E mid src dst (abort_from E mid' st) e s \<noteq> (Inr a, t)"
  by (auto simp: cleaned_def abort_from_def thenP_def throw_def elim!: bindP_InrE)

lemma cleaned_abort:
  "triple (all_backed E n) (cleaned E mid src dst (abort_from E mid' st) e) Q (\<lambda>_. all_backed E n)"
  using triple_raises [OF triple_unstarted [OF unstarted_cleaned [OF unstarted_abort]]]
  by (intro tripleI) (auto simp: cleaned_abort_raises)

lemma triple_outcome: "triple P m (\<lambda>_. Q) (\<lambda>_. Q) \<Longrightarrow> P s \<Longrightarrow> m s = (r, t) \<Longrightarrow> Q t"
  by (cases r) (auto dest: triple_returns triple_raises)

lemma copy_order:
  "triple (both_prepared E n (ac_owner_engine c) dst (''hybrid-'' @ mid) (ac_token_ids c) name port)
    (copy_async E fuel mid c dst name port begun) (\<lambda>_. all_backed E n) (\<lambda>_. all_backed E n)"
proof -
  have weaken: "all_backed E n s" if "both_prepared E n src dst tid ts name port s" for src tid ts name port s
    using that by (simp add: both_prepared_def)
  have both: "triple (both_prepared E n src dst tid ts name port) (gather_two E
      (start_transfer E tid src ''source'' ts name port False) (start_transfer E tid dst ''destination'' ts name port False))
      (\<lambda>_. all_backed E n) (\<lambda>_. all_backed E n)" for src tid ts
    by (rule triple_conseq [OF triple_gather_two [OF start_triple start_triple]]) (auto intro: weaken)
  show ?thesis
    unfolding copy_async_def Let_def
    by (rule triple_bind [OF both], rule triple_fst, rule triple_unstarted,
        intro unstarted.steps_rules unstarted_awaits unstarted_check unstarted_poll unstarted_mark unstarted_case)
qed

text \<open>
  C14. No transfer starts before both reservations: in an asynchronous migration, whatever its
  outcome and in any interleaving, each engine call that starts a transfer comes after both
  engines were asked to prepare exactly this transfer and each had answered \<open>PREPARED\<close>.
\<close>

theorem transfer_starts_after_both_prepared:
  assumes call: "hybrid_migrate_async C E fuel a dst s = (r, t)"
    and i: "length (rt_log s) \<le> i" "i < length (rt_log t)" "starts_transfer (rt_log t ! i)"
  shows "backed E (take i (rt_log t)) (rt_log t ! i)"
proof -
  let ?n = "length (rt_log s)"
  have "triple (all_backed E ?n) (hybrid_migrate_async C E fuel a dst) (\<lambda>_. all_backed E ?n) (\<lambda>_. all_backed E ?n)"
    unfolding hybrid_migrate_async_def Let_def
  proof (rule triple_bind [OF triple_unstarted [OF unstarted_start]], rule triple_fst,
      rule triple_bind [OF triple_catching [OF reserve_order cleaned_abort]], assumption)
    fix c mid and x :: "string \<times> int \<times> seconds"
    obtain name port begun where x: "x = (name, port, begun)" by (cases x)
    have rest: "steps no_start (bindP (catching (commit_async E mid src dst) (cleaned E mid src dst throw))
        (\<lambda>new. ret (hybrid_result_of mid c dst new y name)))" for src y
      by (intro unstarted_rules unstarted_commit unstarted_cleaned)
    show "triple ((\<lambda>(name, port, _). both_prepared E ?n (ac_owner_engine c) dst (''hybrid-'' @ mid) (ac_token_ids c) name port) x)
       (case x of (name, port, begun) \<Rightarrow>
          bindP (catching (copy_async E fuel mid c dst name port begun)
             (cleaned E mid (ac_owner_engine c) dst (abort_from E mid COPYING))) (\<lambda>x.
          bindP (catching (commit_async E mid (ac_owner_engine c) dst) (cleaned E mid (ac_owner_engine c) dst throw)) (\<lambda>new.
            ret (hybrid_result_of mid c dst new x name))))
       (\<lambda>_. all_backed E ?n) (\<lambda>_. all_backed E ?n)"
      unfolding x prod.case
      by (rule triple_bind [OF triple_catching [OF copy_order cleaned_abort]], assumption)
        (rule triple_unstarted [OF rest])
  qed
  moreover have "all_backed E ?n s" by (simp add: all_backed_def)
  ultimately have "all_backed E ?n t" using call by (rule triple_outcome)
  then show ?thesis using i by (simp add: all_backed_def)
qed

section \<open>A cleanup that fails after the commit\<close>

text \<open>
  Engines that prepare and complete every transfer, with the token count of the agent; in
  the second environment the cleanup at the source fails.
\<close>

definition async_obliging :: env where
  "async_obliging = obliging\<lparr>transport := (\<lambda>_ _ req. Body (JObj [(''success'', JBool True),
     (''state'', if fst req = ''/agentshift/hybrid_state/direct_transfer/start'' then JStr ''PREPARED'' else JStr ''COMPLETE''),
     (''token_count'', JInt (int (length (ac_token_ids demo_agent)))), (''bytes_transferred'', JInt 5)]))\<rparr>"

definition async_cleanup_breaks :: env where
  "async_cleanup_breaks = async_obliging\<lparr>transport := (\<lambda>l e req.
     if e = ''e0'' \<and> fst req = ''/agentshift/hybrid_state/direct_transfer/cleanup/hybrid-m2'' then HttpError 500 ''boom''
     else transport async_obliging l e req)\<rparr>"

text \<open>
  A failed cleanup after the commit is reported as a failed migration: the destination
  owns the agent at epoch 2 and the record is \<open>COMMITTED\<close>, but \<open>migrate_async\<close> raises the
  cleanup's error, so the caller never receives the new continuation.
\<close>

theorem async_cleanup_failure_raises_after_commit:
  "(case hybrid_migrate_async demo_hybrid async_cleanup_breaks 9 ''a'' ''e1'' idle of (r, t) \<Rightarrow>
     (case r of Inl (EngineRequestError _) \<Rightarrow> True | _ \<Rightarrow> False) \<and> leases (rt_store t) ''a'' = Some (''e1'', 2) \<and>
     map mr_state (migrations (rt_store t)) = [COMMITTED])"
  by code_simp

theorem transfer_starts_after_both_prepared_witness:
  "case hybrid_migrate_async demo_hybrid async_obliging 9 ''a'' ''e1'' idle of (r, t) \<Rightarrow>
     \<exists>i < length (rt_log t). starts_transfer (rt_log t ! i) \<and> backed async_obliging (take i (rt_log t)) (rt_log t ! i)"
proof -
  have "(case hybrid_migrate_async demo_hybrid async_obliging 9 ''a'' ''e1'' idle of (r, t) \<Rightarrow>
      list_ex (\<lambda>i. starts_transfer (rt_log t ! i)) [0..<length (rt_log t)])" by code_simp
  then obtain r t i where run: "hybrid_migrate_async demo_hybrid async_obliging 9 ''a'' ''e1'' idle = (r, t)"
    and i: "i < length (rt_log t)" "starts_transfer (rt_log t ! i)"
    by (cases "hybrid_migrate_async demo_hybrid async_obliging 9 ''a'' ''e1'' idle") (auto simp: list_ex_iff)
  have "length (rt_log idle) \<le> i" by (simp add: idle_def)
  from transfer_starts_after_both_prepared [OF run this i] show ?thesis using run i by auto
qed

end
