(* ===== verification/Descriptor.thy ===== *)
theory Descriptor
  imports PyJson
begin

text \<open>
  \<open>agentshift/state/descriptor.py\<close>: the components of an agent's execution state on a GPU
  (token KV, recurrent snapshots, control metadata), the descriptor that bundles them, its
  two factories and its measures. The dataclass constructors check in \<open>__post_init__\<close>,
  so they are functions that may raise.
\<close>

datatype state_component_type = TOKEN_KV | RECURRENT_SNAPSHOT | CONTROL_METADATA

record state_component =
  sc_component_type :: state_component_type
  sc_size_bytes :: int
  sc_token_slots :: int
  sc_snapshot_slots :: int
  sc_validity_scope :: string
  sc_layout :: string
  sc_capability :: json

definition state_component_checked :: "state_component \<Rightarrow> exn + state_component" where
  "state_component_checked c =
     (if sc_size_bytes c < 0 \<or> sc_token_slots c < 0 \<or> sc_snapshot_slots c < 0
      then Inl (ValueError ''state component footprints must be non-negative'')
      else if sc_component_type c = TOKEN_KV \<and> sc_snapshot_slots c \<noteq> 0
      then Inl (ValueError ''token KV cannot consume recurrent snapshot slots'')
      else if sc_component_type c = RECURRENT_SNAPSHOT \<and> sc_token_slots c \<noteq> 0
      then Inl (ValueError ''recurrent snapshots cannot consume token slots'')
      else Inr c)"

text \<open>The constructor with the defaults the factories leave.\<close>

definition new_component ::
  "state_component_type \<Rightarrow> int \<Rightarrow> int \<Rightarrow> int \<Rightarrow> string \<Rightarrow> exn + state_component" where
  "new_component ty bytes tokens snapshots layout = state_component_checked
     \<lparr>sc_component_type = ty, sc_size_bytes = bytes, sc_token_slots = tokens, sc_snapshot_slots = snapshots,
      sc_validity_scope = ''exact-prefix-branch'', sc_layout = layout, sc_capability = JObj []\<rparr>"

record state_descriptor =
  sd_descriptor_id :: string
  sd_model_identity :: string
  sd_branch_id :: string
  sd_prefix_tokens :: int
  sd_components :: "state_component list"
  sd_token_fingerprint :: string
  sd_causal_epoch :: int

definition state_descriptor_checked :: "state_descriptor \<Rightarrow> exn + state_descriptor" where
  "state_descriptor_checked d =
     (if sd_prefix_tokens d < 0 then Inl (ValueError ''prefix_tokens must be non-negative'') else Inr d)"

definition homogeneous_mha ::
  "string \<Rightarrow> string \<Rightarrow> string \<Rightarrow> int \<Rightarrow> int \<Rightarrow> exn + state_descriptor" where
  "homogeneous_mha did model branch prefix_tokens bytes_per_token =
     (case new_component TOKEN_KV (prefix_tokens * bytes_per_token) prefix_tokens 0 ''layer-first-kv'' of
        Inl e \<Rightarrow> Inl e
      | Inr kv \<Rightarrow> state_descriptor_checked
          \<lparr>sd_descriptor_id = did, sd_model_identity = model, sd_branch_id = branch,
           sd_prefix_tokens = prefix_tokens, sd_components = [kv], sd_token_fingerprint = [], sd_causal_epoch = 0\<rparr>)"

definition hybrid_qwen35 ::
  "string \<Rightarrow> string \<Rightarrow> string \<Rightarrow> int \<Rightarrow> int \<Rightarrow> int \<Rightarrow> int \<Rightarrow> exn + state_descriptor" where
  "hybrid_qwen35 did model branch prefix_tokens kv_bytes_per_token recurrent_snapshot_bytes snapshot_count =
     (case new_component TOKEN_KV (prefix_tokens * kv_bytes_per_token) prefix_tokens 0
             ''layer-first-full-attention-kv'' of
        Inl e \<Rightarrow> Inl e
      | Inr kv \<Rightarrow>
          (case new_component RECURRENT_SNAPSHOT (recurrent_snapshot_bytes * snapshot_count) 0 snapshot_count
                  ''layer-first-mamba-conv-temporal'' of
             Inl e \<Rightarrow> Inl e
           | Inr snap \<Rightarrow> state_descriptor_checked
               \<lparr>sd_descriptor_id = did, sd_model_identity = model, sd_branch_id = branch,
                sd_prefix_tokens = prefix_tokens, sd_components = [kv, snap], sd_token_fingerprint = [],
                sd_causal_epoch = 0\<rparr>))"

text \<open>The defaults of \<open>hybrid_qwen35\<close>.\<close>

definition default_kv_bytes_per_token :: int where
  "default_kv_bytes_per_token = 20480"

definition default_recurrent_snapshot_bytes :: int where
  "default_recurrent_snapshot_bytes = 64389120"

definition total_bytes :: "state_descriptor \<Rightarrow> int" where
  "total_bytes d = sum_list (map sc_size_bytes (sd_components d))"

definition token_slots :: "state_descriptor \<Rightarrow> int" where
  "token_slots d = sum_list (map sc_token_slots (sd_components d))"

definition snapshot_slots :: "state_descriptor \<Rightarrow> int" where
  "snapshot_slots d = sum_list (map sc_snapshot_slots (sd_components d))"

definition component :: "state_component_type \<Rightarrow> state_descriptor \<Rightarrow> state_component option" where
  "component ty d = find (\<lambda>c. sc_component_type c = ty) (sd_components d)"

definition valid_for :: "state_descriptor \<Rightarrow> string \<Rightarrow> int \<Rightarrow> bool" where
  "valid_for d branch epoch \<longleftrightarrow> sd_branch_id d = branch \<and> sd_causal_epoch d \<le> epoch"

text \<open>What the constructors guarantee of every descriptor built from checked components.\<close>

definition component_ok :: "state_component \<Rightarrow> bool" where
  "component_ok c \<longleftrightarrow> state_component_checked c = Inr c"

definition descriptor_ok :: "state_descriptor \<Rightarrow> bool" where
  "descriptor_ok d \<longleftrightarrow> state_descriptor_checked d = Inr d \<and> list_all component_ok (sd_components d)"

lemma component_ok_iff:
  "component_ok c \<longleftrightarrow> 0 \<le> sc_size_bytes c \<and> 0 \<le> sc_token_slots c \<and> 0 \<le> sc_snapshot_slots c \<and>
     (sc_component_type c = TOKEN_KV \<longrightarrow> sc_snapshot_slots c = 0) \<and>
     (sc_component_type c = RECURRENT_SNAPSHOT \<longrightarrow> sc_token_slots c = 0)"
  by (auto simp: component_ok_def state_component_checked_def)

lemma new_component_ok: "new_component ty b n k lay = Inr c \<Longrightarrow> component_ok c"
  by (auto simp: new_component_def component_ok_def state_component_checked_def split: if_splits)

lemma descriptor_measures_nonneg:
  assumes "descriptor_ok d"
  shows "0 \<le> total_bytes d" and "0 \<le> token_slots d" and "0 \<le> snapshot_slots d" and "0 \<le> sd_prefix_tokens d"
  using assms
  by (auto simp: descriptor_ok_def total_bytes_def token_slots_def snapshot_slots_def list_all_iff
      component_ok_iff state_descriptor_checked_def intro!: sum_list_nonneg split: if_splits)

text \<open>
  The hybrid factory accepts exactly the nonnegative footprints, and its descriptor
  accounts for them: one token slot per prefix token, one snapshot slot per snapshot, and
  the bytes of both components.
\<close>

theorem hybrid_qwen35_accounts:
  "case hybrid_qwen35 did model branch n kvb rsb k of
     Inl e \<Rightarrow> \<not> (0 \<le> n \<and> 0 \<le> n * kvb \<and> 0 \<le> rsb * k \<and> 0 \<le> k) \<and>
       e = ValueError ''state component footprints must be non-negative''
   | Inr d \<Rightarrow> (0 \<le> n \<and> 0 \<le> n * kvb \<and> 0 \<le> rsb * k \<and> 0 \<le> k) \<and>
       descriptor_ok d \<and> total_bytes d = n * kvb + rsb * k \<and> token_slots d = n \<and> snapshot_slots d = k \<and>
       map_option sc_token_slots (component TOKEN_KV d) = Some n \<and>
       map_option sc_snapshot_slots (component RECURRENT_SNAPSHOT d) = Some k"
  by (auto simp: hybrid_qwen35_def new_component_def state_component_checked_def state_descriptor_checked_def
      total_bytes_def token_slots_def snapshot_slots_def component_def descriptor_ok_def component_ok_def)

end
