(* ===== verification/Materialization.thy ===== *)
theory Materialization
  imports Descriptor "HOL-Library.Multiset"
begin

text \<open>
  \<open>BranchStatePlanner\<close> of \<open>agentshift/controller/materialization.py\<close>: the ways a bundle of
  execution state can become runnable on a destination (copy, replay from an ancestor,
  reconstruct from tokens), ordered by completion time, and the one chosen for a tool gap.
  Floating-point seconds and rates are exact rationals; a division by zero raises, as in
  Python.
\<close>

datatype materialization_method = COPY_FULL_STATE | REPLAY_FROM_ANCESTOR | RECONSTRUCT_FROM_TOKENS

fun method_value :: "materialization_method \<Rightarrow> string" where
  "method_value COPY_FULL_STATE = ''copy_full_state''"
| "method_value REPLAY_FROM_ANCESTOR = ''replay_from_ancestor''"
| "method_value RECONSTRUCT_FROM_TOKENS = ''reconstruct_from_tokens''"

record materialization_option =
  mo_method :: materialization_method
  mo_completion_seconds :: seconds
  mo_transfer_bytes :: int
  mo_replay_tokens :: int
  mo_token_slots :: int
  mo_snapshot_slots :: int
  mo_branch_valid :: bool

record materialization_plan =
  mp_selected :: materialization_option
  mp_options :: "materialization_option list"
  mp_remaining_gap_seconds :: seconds
  mp_exposed_seconds :: seconds
  mp_fits_gap :: bool

record materialization_request =
  rq_descriptor :: state_descriptor
  rq_destination_engine :: engine_id
  rq_remaining_gap_seconds :: seconds
  rq_free_token_slots :: int
  rq_free_snapshot_slots :: int
  rq_source_snapshot_available :: bool
  rq_ancestor_snapshot_available :: bool
  rq_ancestor_state_bytes :: int
  rq_ancestor_prefix_tokens :: int
  rq_replay_tokens_per_second :: rat
  rq_reconstructible :: bool
  rq_causal_epoch :: int

record branch_state_planner =
  bp_bandwidth_bytes_per_second :: rat
  bp_fixed_copy_seconds :: seconds

definition new_branch_state_planner :: "rat \<Rightarrow> seconds \<Rightarrow> exn + branch_state_planner" where
  "new_branch_state_planner bandwidth fixed =
     (if bandwidth \<le> 0 then Inl (ValueError ''bandwidth must be positive'')
      else if fixed < 0 then Inl (ValueError ''fixed copy overhead must be non-negative'')
      else Inr \<lparr>bp_bandwidth_bytes_per_second = bandwidth, bp_fixed_copy_seconds = fixed\<rparr>)"

definition planner_ok :: "branch_state_planner \<Rightarrow> bool" where
  "planner_ok p \<longleftrightarrow> 0 < bp_bandwidth_bytes_per_second p \<and> 0 \<le> bp_fixed_copy_seconds p"

text \<open>Python's \<open>/\<close> on numbers.\<close>

definition py_div :: "rat \<Rightarrow> rat \<Rightarrow> exn + rat" where
  "py_div a b = (if b = 0 then Inl ZeroDivisionError else Inr (a / b))"

definition copy_option :: "branch_state_planner \<Rightarrow> materialization_request \<Rightarrow> exn + materialization_option list" where
  "copy_option p rq =
     (let d = rq_descriptor rq in
      case py_div (of_int (total_bytes d)) (bp_bandwidth_bytes_per_second p) of
        Inl e \<Rightarrow> Inl e
      | Inr t \<Rightarrow> Inr [\<lparr>mo_method = COPY_FULL_STATE, mo_completion_seconds = bp_fixed_copy_seconds p + t,
          mo_transfer_bytes = total_bytes d, mo_replay_tokens = 0, mo_token_slots = token_slots d,
          mo_snapshot_slots = snapshot_slots d, mo_branch_valid = True\<rparr>])"

definition replay_option :: "branch_state_planner \<Rightarrow> materialization_request \<Rightarrow> exn + materialization_option list" where
  "replay_option p rq =
     (let d = rq_descriptor rq; suffix_tokens = sd_prefix_tokens d - rq_ancestor_prefix_tokens rq in
      case py_div (of_int (rq_ancestor_state_bytes rq)) (bp_bandwidth_bytes_per_second p) of
        Inl e \<Rightarrow> Inl e
      | Inr t \<Rightarrow> (case py_div (of_int suffix_tokens) (rq_replay_tokens_per_second rq) of
          Inl e \<Rightarrow> Inl e
        | Inr u \<Rightarrow> Inr [\<lparr>mo_method = REPLAY_FROM_ANCESTOR, mo_completion_seconds = bp_fixed_copy_seconds p + t + u,
            mo_transfer_bytes = rq_ancestor_state_bytes rq, mo_replay_tokens = suffix_tokens,
            mo_token_slots = token_slots d, mo_snapshot_slots = snapshot_slots d, mo_branch_valid = True\<rparr>]))"

definition reconstruct_option :: "materialization_request \<Rightarrow> exn + materialization_option list" where
  "reconstruct_option rq =
     (let d = rq_descriptor rq in
      case py_div (of_int (sd_prefix_tokens d)) (rq_replay_tokens_per_second rq) of
        Inl e \<Rightarrow> Inl e
      | Inr t \<Rightarrow> Inr [\<lparr>mo_method = RECONSTRUCT_FROM_TOKENS, mo_completion_seconds = t, mo_transfer_bytes = 0,
          mo_replay_tokens = sd_prefix_tokens d, mo_token_slots = token_slots d,
          mo_snapshot_slots = snapshot_slots d, mo_branch_valid = True\<rparr>])"

definition capacity_ok :: "materialization_request \<Rightarrow> bool" where
  "capacity_ok rq \<longleftrightarrow> token_slots (rq_descriptor rq) \<le> rq_free_token_slots rq \<and>
     snapshot_slots (rq_descriptor rq) \<le> rq_free_snapshot_slots rq"

definition when_option :: "bool \<Rightarrow> exn + 'a list \<Rightarrow> exn + 'a list" where
  "when_option b r = (if b then r else Inr [])"

definition materialization_options ::
  "branch_state_planner \<Rightarrow> materialization_request \<Rightarrow> exn + materialization_option list" where
  "materialization_options p rq =
     (let d = rq_descriptor rq in
      if \<not> valid_for d (sd_branch_id d) (rq_causal_epoch rq) then Inr []
      else case when_option (rq_source_snapshot_available rq \<and> capacity_ok rq) (copy_option p rq) of
        Inl e \<Rightarrow> Inl e
      | Inr copy \<Rightarrow>
        (case when_option (rq_ancestor_snapshot_available rq \<and> 0 \<le> rq_ancestor_prefix_tokens rq \<and>
               rq_ancestor_prefix_tokens rq \<le> sd_prefix_tokens d \<and> capacity_ok rq) (replay_option p rq) of
          Inl e \<Rightarrow> Inl e
        | Inr replay \<Rightarrow>
          (case when_option (rq_reconstructible rq \<and> capacity_ok rq) (reconstruct_option rq) of
            Inl e \<Rightarrow> Inl e
          | Inr rebuild \<Rightarrow> Inr (copy @ replay @ rebuild))))"

definition option_key :: "materialization_option \<Rightarrow> seconds \<times> int \<times> string" where
  "option_key m = (mo_completion_seconds m, mo_transfer_bytes m, method_value (mo_method m))"

definition plan_of ::
  "materialization_request \<Rightarrow> bool \<Rightarrow> materialization_option list \<Rightarrow> materialization_plan option" where
  "plan_of rq require_within_gap options =
     (let ordered = sort_key option_key options;
          gap = rq_remaining_gap_seconds rq;
          fitting = filter (\<lambda>m. mo_completion_seconds m \<le> gap) ordered
      in if options = [] then None
         else if require_within_gap \<and> fitting = [] then None
         else let selected = (if fitting \<noteq> [] then hd fitting else hd ordered) in
           Some \<lparr>mp_selected = selected, mp_options = ordered, mp_remaining_gap_seconds = gap,
                 mp_exposed_seconds = max 0 (mo_completion_seconds selected - gap),
                 mp_fits_gap = (fitting \<noteq> [])\<rparr>)"

definition plan ::
  "branch_state_planner \<Rightarrow> materialization_request \<Rightarrow> bool \<Rightarrow> exn + materialization_plan option" where
  "plan p rq require_within_gap =
     (case materialization_options p rq of
        Inl e \<Rightarrow> Inl e
      | Inr options \<Rightarrow> Inr (plan_of rq require_within_gap options))"

section \<open>Options\<close>

lemma options_sound:
  assumes "materialization_options p rq = Inr options" and "m \<in> set options"
  shows "sd_causal_epoch (rq_descriptor rq) \<le> rq_causal_epoch rq" and "capacity_ok rq"
    and "mo_token_slots m = token_slots (rq_descriptor rq)"
    and "mo_snapshot_slots m = snapshot_slots (rq_descriptor rq)"
  using assms
  by (auto simp: materialization_options_def Let_def valid_for_def when_option_def copy_option_def
      replay_option_def reconstruct_option_def split: if_splits sum.splits)

lemma sort_key_hd_least:
  assumes "x \<in> set xs"
  shows "f (hd (sort_key f xs)) \<le> f x"
proof -
  obtain y ys where ys: "sort_key f xs = y # ys"
    using assms by (cases "sort_key f xs") (auto dest: arg_cong [where f = set])
  have "x \<in> set (y # ys)" using assms ys by (metis set_sort)
  moreover have "sorted (map f (y # ys))" using sorted_sort_key [of f xs] by (simp add: ys)
  ultimately show ?thesis using ys by auto
qed

lemma sorted_filter_hd_least:
  assumes "sorted (map f xs)" and "x \<in> set (filter P xs)"
  shows "f (hd (filter P xs)) \<le> f x"
  using assms by (induction xs) auto

lemma plan_of_sound:
  assumes "plan_of rq b options = Some pl"
  shows "mp_selected pl \<in> set options \<and> mset (mp_options pl) = mset options \<and>
    (mp_fits_gap pl \<longleftrightarrow> mo_completion_seconds (mp_selected pl) \<le> rq_remaining_gap_seconds rq) \<and>
    (b \<longrightarrow> mp_fits_gap pl) \<and>
    (\<forall>m \<in> set options. option_key (mp_selected pl) \<le> option_key m)"
proof -
  let ?o = "sort_key option_key options"
  let ?f = "filter (\<lambda>m. mo_completion_seconds m \<le> rq_remaining_gap_seconds rq) ?o"
  have ne: "options \<noteq> []" and sel: "mp_selected pl = (if ?f \<noteq> [] then hd ?f else hd ?o)"
    and opts: "mp_options pl = ?o" and fits: "mp_fits_gap pl \<longleftrightarrow> ?f \<noteq> []" and req: "b \<Longrightarrow> ?f \<noteq> []"
    using assms by (auto simp: plan_of_def Let_def split: if_splits)
  have o: "?o \<noteq> []" using ne by (metis set_empty set_sort)
  have first: "hd ?f = hd ?o" if f: "?f \<noteq> []"
  proof -
    obtain x where x: "x \<in> set ?o" "mo_completion_seconds x \<le> rq_remaining_gap_seconds rq"
      using f by (auto simp: filter_empty_conv)
    then have "option_key (hd ?o) \<le> option_key x" using sort_key_hd_least [of x options option_key] by simp
    then have "mo_completion_seconds (hd ?o) \<le> mo_completion_seconds x" by (auto simp: option_key_def less_eq_prod_def)
    then show ?thesis using x o by (cases ?o) auto
  qed
  then have s: "mp_selected pl = hd ?o" using sel by simp
  have "?f \<noteq> [] \<longleftrightarrow> mo_completion_seconds (hd ?o) \<le> rq_remaining_gap_seconds rq"
  proof
    assume f: "?f \<noteq> []"
    from hd_in_set [OF f] first [OF f] show "mo_completion_seconds (hd ?o) \<le> rq_remaining_gap_seconds rq" by simp
  next
    assume "mo_completion_seconds (hd ?o) \<le> rq_remaining_gap_seconds rq"
    then have "hd ?o \<in> set ?f" using hd_in_set [OF o] by simp
    then show "?f \<noteq> []" by (metis empty_iff list.set(1))
  qed
  moreover have "hd ?o \<in> set options" using o hd_in_set [of ?o] by simp
  ultimately show ?thesis
    using s opts fits req sort_key_hd_least [of _ options option_key] by auto
qed

text \<open>
  The planner's choice: the selected option is one of the options, all options are kept
  (in a stable order), the destination has the slots the bundle needs, its epoch is not
  ahead of the request's, no option comes earlier in (completion, bytes, method) order, the
  exposed time is what the gap does not hide, and a plan demanded within the gap completes
  within it.
\<close>

theorem plan_selects_best_option:
  assumes "plan p rq require_within_gap = Inr (Some pl)"
  shows "\<exists>options. materialization_options p rq = Inr options \<and>
    mp_selected pl \<in> set options \<and> mset (mp_options pl) = mset options \<and>
    (\<forall>m \<in> set options. option_key (mp_selected pl) \<le> option_key m) \<and>
    token_slots (rq_descriptor rq) \<le> rq_free_token_slots rq \<and>
    snapshot_slots (rq_descriptor rq) \<le> rq_free_snapshot_slots rq \<and>
    sd_causal_epoch (rq_descriptor rq) \<le> rq_causal_epoch rq \<and>
    mp_exposed_seconds pl = max 0 (mo_completion_seconds (mp_selected pl) - rq_remaining_gap_seconds rq) \<and>
    (mp_fits_gap pl \<longleftrightarrow> mo_completion_seconds (mp_selected pl) \<le> rq_remaining_gap_seconds rq) \<and>
    (require_within_gap \<longrightarrow> mp_fits_gap pl)"
proof -
  obtain options where o: "materialization_options p rq = Inr options"
    and pl: "plan_of rq require_within_gap options = Some pl"
    using assms by (auto simp: plan_def split: sum.splits)
  note sound = plan_of_sound [OF pl]
  have "mp_selected pl \<in> set options" using sound by blast
  note opt = options_sound [OF o this]
  have "mp_exposed_seconds pl = max 0 (mo_completion_seconds (mp_selected pl) - rq_remaining_gap_seconds rq)"
    using pl by (auto simp: plan_of_def Let_def split: if_splits)
  then show ?thesis using o sound opt by (auto simp: capacity_ok_def)
qed

text \<open>
  The planner gives up only for want of options: with a positive replay rate it never
  raises, and it returns no plan exactly when nothing is available for the destination or,
  where the gap must hide the work, when every option takes longer than the gap.
\<close>

theorem plan_none_iff:
  assumes "planner_ok p" and "0 < rq_replay_tokens_per_second rq"
  shows "\<exists>options. materialization_options p rq = Inr options \<and>
    (plan p rq b = Inr None \<longleftrightarrow>
      options = [] \<or> (b \<and> (\<forall>m \<in> set options. rq_remaining_gap_seconds rq < mo_completion_seconds m)))"
proof -
  obtain options where "materialization_options p rq = Inr options"
    using assms
    by (cases "materialization_options p rq")
      (auto simp: materialization_options_def Let_def when_option_def copy_option_def replay_option_def
        reconstruct_option_def py_div_def planner_ok_def split: if_splits)
  then show ?thesis by (auto simp: plan_def plan_of_def Let_def filter_empty_conv not_le)
qed

lemma rename_branch [simp]:
  "copy_option p (rq\<lparr>rq_descriptor := d\<lparr>sd_branch_id := other\<rparr>\<rparr>) = copy_option p (rq\<lparr>rq_descriptor := d\<rparr>)"
  "replay_option p (rq\<lparr>rq_descriptor := d\<lparr>sd_branch_id := other\<rparr>\<rparr>) = replay_option p (rq\<lparr>rq_descriptor := d\<rparr>)"
  "reconstruct_option (rq\<lparr>rq_descriptor := d\<lparr>sd_branch_id := other\<rparr>\<rparr>) = reconstruct_option (rq\<lparr>rq_descriptor := d\<rparr>)"
  "capacity_ok (rq\<lparr>rq_descriptor := d\<lparr>sd_branch_id := other\<rparr>\<rparr>) = capacity_ok (rq\<lparr>rq_descriptor := d\<rparr>)"
  by (simp_all add: copy_option_def replay_option_def reconstruct_option_def capacity_ok_def
      total_bytes_def token_slots_def snapshot_slots_def Let_def cong: sum.case_cong)

text \<open>
  The branch check of the planner is vacuous: it compares the descriptor's branch with
  itself, so a descriptor of any other branch gets the same options.
\<close>

theorem branch_is_not_checked:
  "materialization_options p (rq\<lparr>rq_descriptor := (rq_descriptor rq)\<lparr>sd_branch_id := other\<rparr>\<rparr>) =
   materialization_options p rq"
  by (simp add: materialization_options_def Let_def valid_for_def cong: sum.case_cong)

section \<open>Witnesses\<close>

definition demo_planner :: branch_state_planner where
  "demo_planner = \<lparr>bp_bandwidth_bytes_per_second = 1000, bp_fixed_copy_seconds = 1\<rparr>"

definition demo_descriptor :: state_descriptor where
  "demo_descriptor = \<lparr>sd_descriptor_id = ''d'', sd_model_identity = ''m'', sd_branch_id = ''b'', sd_prefix_tokens = 100,
     sd_components = [\<lparr>sc_component_type = TOKEN_KV, sc_size_bytes = 2000, sc_token_slots = 100, sc_snapshot_slots = 0,
       sc_validity_scope = [], sc_layout = [], sc_capability = JObj []\<rparr>],
     sd_token_fingerprint = [], sd_causal_epoch = 0\<rparr>"

definition demo_request :: materialization_request where
  "demo_request = \<lparr>rq_descriptor = demo_descriptor, rq_destination_engine = ''e1'', rq_remaining_gap_seconds = 5,
     rq_free_token_slots = 200, rq_free_snapshot_slots = 0, rq_source_snapshot_available = True,
     rq_ancestor_snapshot_available = False, rq_ancestor_state_bytes = 0, rq_ancestor_prefix_tokens = 0,
     rq_replay_tokens_per_second = 10, rq_reconstructible = True, rq_causal_epoch = 0\<rparr>"

definition demo_plan :: materialization_plan where
  "demo_plan = (case plan demo_planner demo_request True of Inr (Some pl) \<Rightarrow> pl)"

lemma demo_plan_run: "plan demo_planner demo_request True = Inr (Some demo_plan)"
  by (simp add: demo_plan_def plan_def plan_of_def materialization_options_def demo_request_def demo_descriptor_def
      demo_planner_def valid_for_def when_option_def copy_option_def replay_option_def reconstruct_option_def
      capacity_ok_def py_div_def total_bytes_def token_slots_def snapshot_slots_def Let_def option_key_def)

theorem plan_selects_best_option_witness:
  "mo_completion_seconds (mp_selected demo_plan) \<le> 5"
  using plan_selects_best_option [OF demo_plan_run] by (auto simp: demo_request_def)

theorem plan_none_iff_witness:
  "\<exists>options. materialization_options demo_planner demo_request = Inr options \<and>
     (plan demo_planner demo_request True = Inr None \<longleftrightarrow>
       options = [] \<or> (\<forall>m \<in> set options. 5 < mo_completion_seconds m))"
  using plan_none_iff [of demo_planner demo_request True] by (simp add: planner_ok_def demo_planner_def demo_request_def)

end
