(* ===== verification/GlobalMobility.thy ===== *)
theory GlobalMobility
  imports Materialization
begin

text \<open>
  \<open>GlobalMobilityPolicy\<close> of \<open>agentshift/controller/global_mobility.py\<close>: which engine an
  agent's execution state should move to, by load relief, drain urgency and the planner's
  completion time. Scores are exact rationals; a tie falls to the earlier completion and
  then to the greatest engine name, and a full tie to the first in the list.
\<close>

record engine_mobility_state =
  em_engine_id :: engine_id
  em_free_token_slots :: int
  em_free_state_snapshots :: int
  em_active_requests :: int
  em_warm_states :: int
  em_retiring :: bool

definition em_load :: "engine_mobility_state \<Rightarrow> int" where
  "em_load e = em_active_requests e + em_warm_states e"

record global_mobility_candidate =
  gc_agent_id :: agent_id
  gc_source_engine :: engine_id
  gc_descriptor :: state_descriptor
  gc_remaining_gap_seconds :: seconds
  gc_future_service_seconds :: seconds
  gc_recompute_seconds :: seconds

record global_mobility_decision =
  gd_agent_id :: agent_id
  gd_source_engine :: engine_id
  gd_destination_engine :: engine_id
  gd_plan :: materialization_plan
  gd_score :: rat
  gd_drain_urgent :: bool

record global_mobility_policy =
  gp_planner :: branch_state_planner
  gp_load_threshold :: int
  gp_drain_bonus :: rat

definition new_global_mobility_policy ::
  "branch_state_planner \<Rightarrow> int \<Rightarrow> rat \<Rightarrow> exn + global_mobility_policy" where
  "new_global_mobility_policy planner threshold bonus =
     (if threshold < 0 then Inl (ValueError ''load_threshold must be non-negative'')
      else Inr \<lparr>gp_planner = planner, gp_load_threshold = threshold, gp_drain_bonus = bonus\<rparr>)"

text \<open>The request for one destination; the fields it leaves out keep their defaults.\<close>

definition mobility_request ::
  "global_mobility_candidate \<Rightarrow> engine_mobility_state \<Rightarrow> materialization_request" where
  "mobility_request c dest =
     \<lparr>rq_descriptor = gc_descriptor c, rq_destination_engine = em_engine_id dest,
      rq_remaining_gap_seconds = gc_remaining_gap_seconds c,
      rq_free_token_slots = em_free_token_slots dest, rq_free_snapshot_slots = em_free_state_snapshots dest,
      rq_source_snapshot_available = True, rq_ancestor_snapshot_available = False,
      rq_ancestor_state_bytes = 0, rq_ancestor_prefix_tokens = 0, rq_replay_tokens_per_second = 10000,
      rq_reconstructible = True, rq_causal_epoch = 0\<rparr>"

text \<open>The loop body for one destination: a decision, or \<open>continue\<close>.\<close>

definition consider_destination ::
  "global_mobility_policy \<Rightarrow> global_mobility_candidate \<Rightarrow> engine_mobility_state \<Rightarrow> engine_mobility_state \<Rightarrow>
   exn + global_mobility_decision option" where
  "consider_destination g c source dest =
     (let drain_urgent = em_retiring source in
      if em_engine_id dest = em_engine_id source \<or> em_retiring dest then Inr None
      else if \<not> drain_urgent \<and> em_load source < em_load dest + gp_load_threshold g then Inr None
      else case plan (gp_planner g) (mobility_request c dest) True of
          Inl e \<Rightarrow> Inl e
        | Inr None \<Rightarrow> Inr None
        | Inr (Some pl) \<Rightarrow>
            let relief = max 0 (em_load source - em_load dest);
                score = of_int relief + gc_future_service_seconds c +
                  (if drain_urgent then gp_drain_bonus g else 0) - mo_completion_seconds (mp_selected pl)
            in if score \<le> 0 then Inr None
               else Inr (Some \<lparr>gd_agent_id = gc_agent_id c, gd_source_engine = em_engine_id source,
                     gd_destination_engine = em_engine_id dest, gd_plan = pl, gd_score = score,
                     gd_drain_urgent = drain_urgent\<rparr>))"

fun rank_destinations ::
  "global_mobility_policy \<Rightarrow> global_mobility_candidate \<Rightarrow> engine_mobility_state \<Rightarrow>
   engine_mobility_state list \<Rightarrow> exn + global_mobility_decision list" where
  "rank_destinations g c source [] = Inr []"
| "rank_destinations g c source (dest # rest) =
     (case consider_destination g c source dest of
        Inl e \<Rightarrow> Inl e
      | Inr d \<Rightarrow> (case rank_destinations g c source rest of
          Inl e \<Rightarrow> Inl e
        | Inr ds \<Rightarrow> Inr (case d of None \<Rightarrow> ds | Some d \<Rightarrow> d # ds)))"

definition decision_key :: "global_mobility_decision \<Rightarrow> rat \<times> rat \<times> string" where
  "decision_key d = (gd_score d, - mo_completion_seconds (mp_selected (gd_plan d)), gd_destination_engine d)"

definition select_destination ::
  "global_mobility_policy \<Rightarrow> global_mobility_candidate \<Rightarrow> engine_mobility_state list \<Rightarrow>
   exn + global_mobility_decision option" where
  "select_destination g c engines =
     (case map_of (rev (map (\<lambda>e. (em_engine_id e, e)) engines)) (gc_source_engine c) of
        None \<Rightarrow> Inl (KeyError (py_repr (gc_source_engine c)))
      | Some source \<Rightarrow> (case rank_destinations g c source engines of
            Inl e \<Rightarrow> Inl e
          | Inr [] \<Rightarrow> Inr None
          | Inr (d # ds) \<Rightarrow> Inr (Some (max_by decision_key d ds))))"

section \<open>What a decision guarantees\<close>

lemma plan_no_error:
  "planner_ok p \<Longrightarrow> plan p (mobility_request c dest) b \<noteq> Inl e"
  by (auto simp: plan_def materialization_options_def Let_def when_option_def copy_option_def replay_option_def
      reconstruct_option_def py_div_def planner_ok_def mobility_request_def split: if_splits)

lemma plan_sound:
  assumes "plan p rq True = Inr (Some pl)"
  shows "token_slots (rq_descriptor rq) \<le> rq_free_token_slots rq"
    and "snapshot_slots (rq_descriptor rq) \<le> rq_free_snapshot_slots rq"
    and "mo_completion_seconds (mp_selected pl) \<le> rq_remaining_gap_seconds rq"
    and "sd_causal_epoch (rq_descriptor rq) \<le> rq_causal_epoch rq"
proof -
  obtain options where o: "materialization_options p rq = Inr options" and pl: "plan_of rq True options = Some pl"
    using assms by (auto simp: plan_def split: sum.splits)
  note sound = plan_of_sound [OF pl]
  then have "mp_selected pl \<in> set options" by blast
  from options_sound [OF o this] sound show "token_slots (rq_descriptor rq) \<le> rq_free_token_slots rq"
    and "snapshot_slots (rq_descriptor rq) \<le> rq_free_snapshot_slots rq"
    and "mo_completion_seconds (mp_selected pl) \<le> rq_remaining_gap_seconds rq"
    and "sd_causal_epoch (rq_descriptor rq) \<le> rq_causal_epoch rq"
    by (auto simp: capacity_ok_def)
qed

definition decision_ok ::
  "global_mobility_policy \<Rightarrow> global_mobility_candidate \<Rightarrow> engine_mobility_state \<Rightarrow> engine_mobility_state \<Rightarrow>
   global_mobility_decision \<Rightarrow> bool" where
  "decision_ok g c source dest d \<longleftrightarrow>
     gd_destination_engine d = em_engine_id dest \<and> gd_source_engine d = em_engine_id source \<and>
     em_engine_id dest \<noteq> em_engine_id source \<and> \<not> em_retiring dest \<and>
     (em_retiring source \<or> em_load dest + gp_load_threshold g \<le> em_load source) \<and>
     token_slots (gc_descriptor c) \<le> em_free_token_slots dest \<and>
     snapshot_slots (gc_descriptor c) \<le> em_free_state_snapshots dest \<and>
     mo_completion_seconds (mp_selected (gd_plan d)) \<le> gc_remaining_gap_seconds c \<and> 0 < gd_score d"

lemma consider_destination_ok:
  assumes "consider_destination g c source dest = Inr (Some d)"
  shows "decision_ok g c source dest d" and "sd_causal_epoch (gc_descriptor c) \<le> 0"
proof -
  obtain pl where pl: "plan (gp_planner g) (mobility_request c dest) True = Inr (Some pl)"
    and d: "gd_plan d = pl" "gd_destination_engine d = em_engine_id dest" "gd_source_engine d = em_engine_id source"
      "0 < gd_score d" "em_engine_id dest \<noteq> em_engine_id source" "\<not> em_retiring dest"
      "em_retiring source \<or> em_load dest + gp_load_threshold g \<le> em_load source"
    using assms by (auto simp: consider_destination_def Let_def split: if_splits sum.splits option.splits)
  note sound = plan_sound [OF pl]
  show "decision_ok g c source dest d" using d sound by (simp add: decision_ok_def mobility_request_def)
  show "sd_causal_epoch (gc_descriptor c) \<le> 0" using sound(4) by (simp add: mobility_request_def)
qed

lemma consider_destination_total:
  "planner_ok (gp_planner g) \<Longrightarrow> \<exists>d. consider_destination g c source dest = Inr d"
  using plan_no_error [of "gp_planner g" c dest True]
  by (cases "plan (gp_planner g) (mobility_request c dest) True")
    (auto simp: consider_destination_def Let_def split: option.splits)

lemma rank_destinations_total:
  assumes "planner_ok (gp_planner g)"
  shows "rank_destinations g c source engines =
    Inr (List.map_filter (\<lambda>dest. projr (consider_destination g c source dest)) engines)"
proof (induction engines)
  case (Cons dest rest)
  obtain d where "consider_destination g c source dest = Inr d"
    using consider_destination_total [OF assms] by blast
  with Cons show ?case by (simp add: map_filter_simps split: option.splits)
qed (simp add: map_filter_simps)

lemma mem_map_filter: "y \<in> set (List.map_filter f xs) \<longleftrightarrow> (\<exists>x \<in> set xs. f x = Some y)"
  by (induction xs) (auto simp: map_filter_simps split: option.splits)

text \<open>
  The policy's decision, for engines whose source is known: it never raises; a decision
  names another engine of the list that is not retiring, that has the token and snapshot
  slots the bundle needs, whose load is below the source's by the threshold unless the
  source is draining, and on which the state is ready within the gap, at a positive score;
  no other admissible destination scores higher; and there is no decision exactly when no
  destination is admissible.
\<close>

theorem mobility_decision_is_best:
  assumes ok: "planner_ok (gp_planner g)"
    and src: "map_of (rev (map (\<lambda>e. (em_engine_id e, e)) engines)) (gc_source_engine c) = Some source"
  shows "case select_destination g c engines of
      Inl _ \<Rightarrow> False
    | Inr None \<Rightarrow> \<forall>dest \<in> set engines. consider_destination g c source dest = Inr None
    | Inr (Some d) \<Rightarrow> (\<exists>dest \<in> set engines. consider_destination g c source dest = Inr (Some d) \<and>
          decision_ok g c source dest d) \<and>
        (\<forall>dest \<in> set engines. \<forall>d'. consider_destination g c source dest = Inr (Some d') \<longrightarrow>
          decision_key d' \<le> decision_key d)"
proof -
  let ?ds = "List.map_filter (\<lambda>dest. projr (consider_destination g c source dest)) engines"
  have right: "projr (consider_destination g c source dest) = Some d \<longleftrightarrow>
      consider_destination g c source dest = Inr (Some d)" for dest d
    using consider_destination_total [OF ok, of c source dest] by auto
  have mem: "d \<in> set ?ds \<longleftrightarrow> (\<exists>dest \<in> set engines. consider_destination g c source dest = Inr (Some d))" for d
    by (simp add: mem_map_filter right)
  show ?thesis
  proof (cases ?ds)
    case Nil
    then have "\<forall>dest \<in> set engines. consider_destination g c source dest = Inr None"
      using mem consider_destination_total [OF ok] by (metis empty_iff list.set(1) not_Some_eq)
    then show ?thesis using src Nil by (simp add: select_destination_def rank_destinations_total [OF ok])
  next
    case (Cons d ds)
    let ?best = "max_by decision_key d ds"
    have sel: "select_destination g c engines = Inr (Some ?best)"
      using src Cons by (simp add: select_destination_def rank_destinations_total [OF ok])
    have "?best \<in> set ?ds" using max_by_mem [of decision_key d ds] Cons by simp
    then obtain dest where "dest \<in> set engines" "consider_destination g c source dest = Inr (Some ?best)"
      using mem by blast
    moreover have "decision_key d' \<le> decision_key ?best"
      if "dest' \<in> set engines" "consider_destination g c source dest' = Inr (Some d')" for dest' d'
    proof -
      have "d' \<in> set (d # ds)" using that mem Cons by (metis (no_types, lifting))
      then show ?thesis by (rule max_by_greatest)
    qed
    ultimately show ?thesis using sel consider_destination_ok(1) by auto
  qed
qed

text \<open>
  The policy never moves a bundle whose causal epoch is above 0: it builds its requests
  without the epoch, which defaults to 0, so the planner finds every such descriptor ahead
  of the request, on every engine, drain or not.
\<close>

theorem advanced_state_never_moves:
  assumes "0 < sd_causal_epoch (gc_descriptor c)" and "planner_ok (gp_planner g)"
    and "gc_source_engine c \<in> em_engine_id ` set engines"
  shows "select_destination g c engines = Inr None"
proof -
  obtain source where src: "map_of (rev (map (\<lambda>e. (em_engine_id e, e)) engines)) (gc_source_engine c) = Some source"
    using assms(3) by (cases "map_of (rev (map (\<lambda>e. (em_engine_id e, e)) engines)) (gc_source_engine c)")
      (auto simp: map_of_eq_None_iff image_iff)
  have "projr (consider_destination g c source dest) = None" for dest
    using consider_destination_total [OF assms(2), of c source dest] consider_destination_ok(2) [of g c source dest] assms(1)
    by (metis linorder_not_less not_Some_eq sum.sel(2))
  then have "List.map_filter (\<lambda>dest. projr (consider_destination g c source dest)) engines = []"
    by (induction engines) (simp_all add: map_filter_simps)
  then show ?thesis using src by (simp add: select_destination_def rank_destinations_total [OF assms(2)])
qed

section \<open>Witnesses\<close>

definition demo_policy :: global_mobility_policy where
  "demo_policy = \<lparr>gp_planner = demo_planner, gp_load_threshold = 1, gp_drain_bonus = 1000\<rparr>"

definition demo_candidate :: "int \<Rightarrow> global_mobility_candidate" where
  "demo_candidate epoch = \<lparr>gc_agent_id = ''a'', gc_source_engine = ''e0'',
     gc_descriptor = demo_descriptor\<lparr>sd_causal_epoch := epoch\<rparr>, gc_remaining_gap_seconds = 5,
     gc_future_service_seconds = 4, gc_recompute_seconds = 0\<rparr>"

definition demo_engine :: "engine_id \<Rightarrow> int \<Rightarrow> engine_mobility_state" where
  "demo_engine e n = \<lparr>em_engine_id = e, em_free_token_slots = 200, em_free_state_snapshots = 0,
     em_active_requests = n, em_warm_states = 0, em_retiring = False\<rparr>"

theorem mobility_decision_is_best_witness:
  "\<exists>d. select_destination demo_policy (demo_candidate 0) [demo_engine ''e0'' 3, demo_engine ''e1'' 0] = Inr (Some d) \<and>
     gd_destination_engine d = ''e1''"
proof -
  let ?c = "demo_candidate 0" and ?es = "[demo_engine ''e0'' 3, demo_engine ''e1'' 0]"
  have ok: "planner_ok (gp_planner demo_policy)" by (simp add: planner_ok_def demo_policy_def demo_planner_def)
  have src: "map_of (rev (map (\<lambda>e. (em_engine_id e, e)) ?es)) (gc_source_engine ?c) = Some (demo_engine ''e0'' 3)"
    by (simp add: demo_candidate_def demo_engine_def)
  have "consider_destination demo_policy ?c (demo_engine ''e0'' 3) (demo_engine ''e1'' 0) \<noteq> Inr None"
    by code_simp
  moreover have "gd_destination_engine d = ''e1''"
    if "dest \<in> set ?es" "decision_ok demo_policy ?c (demo_engine ''e0'' 3) dest d" for dest d
    using that by (auto simp: decision_ok_def demo_engine_def)
  ultimately show ?thesis
    using mobility_decision_is_best [OF ok src] by (fastforce split: sum.splits option.splits)
qed

theorem advanced_state_never_moves_witness:
  "select_destination demo_policy (demo_candidate 1) [demo_engine ''e0'' 3, demo_engine ''e1'' 0] = Inr None"
  by (rule advanced_state_never_moves)
    (simp_all add: demo_candidate_def demo_policy_def demo_planner_def planner_ok_def demo_engine_def)

end
