(* ===== verification/Counters.thy ===== *)
theory Counters
  imports Prelude "HOL-Library.AList"
begin

text \<open>
  \<open>collections.Counter\<close>: an association list from the counted keys, in the order they were
  first counted, with 0 for every other key.
\<close>

type_synonym counter = "(string \<times> int) list"

definition count_of :: "string \<Rightarrow> counter \<Rightarrow> int" where
  "count_of k c = (case map_of c k of None \<Rightarrow> 0 | Some n \<Rightarrow> n)"

definition count_up :: "string \<Rightarrow> int \<Rightarrow> counter \<Rightarrow> counter" where
  "count_up k n c = AList.update k (count_of k c + n) c"

lemma count_of_up: "count_of k (count_up k' n c) = count_of k c + (if k = k' then n else 0)"
  by (simp add: count_of_def count_up_def update_conv')

end
