(* ===== verification/Simulation.thy ===== *)
theory Simulation
  imports GlobalMobility Counters
begin

text \<open>
  \<open>ReplaySimulation\<close> of \<open>experiments/hybrid_state_mobility/simulate_global_mobility.py\<close>: the
  event-driven replay of a trace over a fleet of engines, with its four mobility policies,
  and \<open>scale_tool_gaps\<close> of \<open>sweep_global_mobility.py\<close>, which stretches a trace's tool calls.

  Times and durations are exact rationals. A manifest row is a record with the fields the
  replay reads. The dictionaries keyed by engine (\<open>used_tokens\<close>, \<open>used_snapshots\<close>,
  \<open>active\<close>, \<open>warm\<close>) share the keys \<open>engine_ids\<close>, so they are functions here and the first
  access at an engine that comes from the trace raises the \<open>KeyError\<close>. The constructor's
  parameters, which never change, are kept apart from the state of a run. The replay
  itself is a total function: its timeline runs out, which its termination proof shows.
\<close>

section \<open>The manifest, the agents and the state\<close>

record sim_event =
  ev_event_id :: string
  ev_agent_id :: agent_id
  ev_branch_id :: string
  ev_turn_index :: int
  ev_source_engine :: engine_id
  ev_prompt_tokens :: int
  ev_target_output_tokens :: int
  ev_arrival_rel_s :: seconds
  ev_llm_e2e_template_s :: seconds
  ev_tool_duration_s :: seconds
  ev_tool_start_rel_s :: seconds
  ev_tool_end_rel_s :: seconds

datatype agent_phase = PNew | PActive | PTool | PWarm | PExpired

record agent_runtime =
  ag_agent_id :: agent_id
  ag_events :: "sim_event list"
  ag_next_event :: nat
  ag_phase :: agent_phase
  ag_owner_engine :: engine_id
  ag_prompt_tokens :: int
  ag_blocked :: bool
  ag_current_event :: "sim_event option"

definition new_agent_runtime :: "agent_id \<Rightarrow> sim_event list \<Rightarrow> agent_runtime" where
  "new_agent_runtime a rows =
     \<lparr>ag_agent_id = a, ag_events = rows, ag_next_event = 0, ag_phase = PNew, ag_owner_engine = [],
      ag_prompt_tokens = 0, ag_blocked = False, ag_current_event = None\<rparr>"

text \<open>\<open>by_agent[event["agent_id"]].append(event)\<close> on a \<open>defaultdict(list)\<close>, over the events.\<close>

definition append_row ::
  "sim_event \<Rightarrow> (agent_id \<times> sim_event list) list \<Rightarrow> (agent_id \<times> sim_event list) list" where
  "append_row e m = AList.update (ev_agent_id e)
     ((case map_of m (ev_agent_id e) of None \<Rightarrow> [] | Some rows \<Rightarrow> rows) @ [e]) m"

definition group_by_agent :: "sim_event list \<Rightarrow> (agent_id \<times> sim_event list) list" where
  "group_by_agent events = map (\<lambda>(a, rows). (a, sort_key ev_turn_index rows)) (fold append_row events [])"

record migration_event =
  me_time :: seconds
  me_agent_id :: agent_id
  me_event_id :: string
  me_source_engine :: engine_id
  me_destination_engine :: engine_id
  me_method :: string
  me_tokens :: int
  me_bytes :: int
  me_drain :: bool

record retirement_sample =
  rs_time :: seconds
  rs_retiring_states :: int
  rs_retiring_tokens :: int

record sim_config =
  cf_events :: "sim_event list"
  cf_engine_ids :: "engine_id list"
  cf_token_slots :: int
  cf_snapshot_slots :: int
  cf_scale_in_time :: seconds
  cf_retirement_deadline :: seconds
  cf_policy_name :: string
  cf_bandwidth :: int
  cf_fixed_transfer_seconds :: seconds
  cf_retention_seconds :: seconds
  cf_policy :: global_mobility_policy

record sim =
  sm_agents :: "agent_runtime list"
  sm_retiring :: "engine_id set"
  sm_used_tokens :: "engine_id \<Rightarrow> int"
  sm_used_snapshots :: "engine_id \<Rightarrow> int"
  sm_active :: "engine_id \<Rightarrow> agent_id set"
  sm_warm :: "engine_id \<Rightarrow> agent_id set"
  sm_stats :: counter
  sm_method_counts :: counter
  sm_transfer_bytes :: int
  sm_transfer_seconds :: seconds
  sm_load_samples :: "(seconds \<times> int list) list"
  sm_retirement_samples :: "retirement_sample list"
  sm_migration_events :: "migration_event list"
  sm_cache_hit_tokens :: int
  sm_recompute_tokens :: int

text \<open>\<open>f"engine-{index:02d}"\<close>\<close>

definition engine_name :: "nat \<Rightarrow> engine_id" where
  "engine_name i = ''engine-'' @ (if i < 10 then CHR ''0'' # str_nat i else str_nat i)"

definition new_simulation ::
  "sim_event list \<Rightarrow> int \<Rightarrow> int \<Rightarrow> int \<Rightarrow> seconds \<Rightarrow> seconds \<Rightarrow> string \<Rightarrow> int \<Rightarrow> seconds \<Rightarrow> seconds \<Rightarrow>
   exn + sim_config \<times> sim" where
  "new_simulation events engine_count token_limit snapshot_limit scale_in_time retirement_deadline
     policy_name bandwidth fixed_transfer_seconds retention_seconds =
     (let sorted_events = sort_key ev_arrival_rel_s events
      in case new_branch_state_planner (of_int bandwidth) fixed_transfer_seconds of
           Inl e \<Rightarrow> Inl e
         | Inr planner \<Rightarrow>
         (case new_global_mobility_policy planner 1 1000 of
            Inl e \<Rightarrow> Inl e
          | Inr policy \<Rightarrow> Inr
              (\<lparr>cf_events = sorted_events, cf_engine_ids = map engine_name [0..<nat engine_count],
                cf_token_slots = token_limit, cf_snapshot_slots = snapshot_limit,
                cf_scale_in_time = scale_in_time, cf_retirement_deadline = retirement_deadline,
                cf_policy_name = policy_name, cf_bandwidth = bandwidth,
                cf_fixed_transfer_seconds = fixed_transfer_seconds,
                cf_retention_seconds = retention_seconds, cf_policy = policy\<rparr>,
               \<lparr>sm_agents = map (\<lambda>(a, rows). new_agent_runtime a rows) (group_by_agent sorted_events),
                sm_retiring = {}, sm_used_tokens = (\<lambda>_. 0), sm_used_snapshots = (\<lambda>_. 0),
                sm_active = (\<lambda>_. {}), sm_warm = (\<lambda>_. {}), sm_stats = [], sm_method_counts = [],
                sm_transfer_bytes = 0, sm_transfer_seconds = 0, sm_load_samples = [],
                sm_retirement_samples = [], sm_migration_events = [], sm_cache_hit_tokens = 0,
                sm_recompute_tokens = 0\<rparr>)))"

text \<open>
  The values of \<open>agents\<close>, in the order of the dictionary; the key of each is its
  \<open>agent_id\<close>. An agent object is changed in place.
\<close>

definition agent_of :: "agent_runtime list \<Rightarrow> agent_id \<Rightarrow> agent_runtime option" where
  "agent_of ags a = find (\<lambda>ag. ag_agent_id ag = a) ags"

fun replace_agent :: "agent_runtime \<Rightarrow> agent_runtime list \<Rightarrow> agent_runtime list" where
  "replace_agent ag [] = []"
| "replace_agent ag (x # xs) = (if ag_agent_id x = ag_agent_id ag then ag # xs else x # replace_agent ag xs)"

definition put_agent :: "agent_runtime \<Rightarrow> sim \<Rightarrow> sim" where
  "put_agent ag s = s\<lparr>sm_agents := replace_agent ag (sm_agents s)\<rparr>"

definition add_stat :: "string \<Rightarrow> int \<Rightarrow> sim \<Rightarrow> sim" where
  "add_stat k n s = s\<lparr>sm_stats := count_up k n (sm_stats s)\<rparr>"

section \<open>Capacity\<close>

definition engine_states :: "sim_config \<Rightarrow> sim \<Rightarrow> engine_mobility_state list" where
  "engine_states cf s = map (\<lambda>engine.
     \<lparr>em_engine_id = engine,
      em_free_token_slots = cf_token_slots cf - sm_used_tokens s engine,
      em_free_state_snapshots = cf_snapshot_slots cf - sm_used_snapshots s engine,
      em_active_requests = int (card (sm_active s engine)),
      em_warm_states = int (card (sm_warm s engine)),
      em_retiring = (engine \<in> sm_retiring s)\<rparr>) (cf_engine_ids cf)"

definition use_tokens :: "engine_id \<Rightarrow> int \<Rightarrow> sim \<Rightarrow> sim" where
  "use_tokens e n s = s\<lparr>sm_used_tokens := (sm_used_tokens s)(e := sm_used_tokens s e + n)\<rparr>"

definition use_snapshots :: "engine_id \<Rightarrow> int \<Rightarrow> sim \<Rightarrow> sim" where
  "use_snapshots e n s = s\<lparr>sm_used_snapshots := (sm_used_snapshots s)(e := sm_used_snapshots s e + n)\<rparr>"

text \<open>The answer, with the agent and the state as the call leaves them.\<close>

definition allocate ::
  "sim_config \<Rightarrow> agent_runtime \<Rightarrow> sim_event \<Rightarrow> sim \<Rightarrow> exn + bool \<times> agent_runtime \<times> sim" where
  "allocate cf ag ev s =
     (let owner = ag_owner_engine ag in
      if owner \<notin> set (cf_engine_ids cf) then Inl (KeyError (py_repr owner))
      else if ag_phase ag = PNew then
        (let needed_tokens = ev_prompt_tokens ev; needed_snapshots = 1 in
         if cf_token_slots cf < sm_used_tokens s owner + needed_tokens \<or>
            cf_snapshot_slots cf < sm_used_snapshots s owner + needed_snapshots
         then Inr (False, ag, s)
         else Inr (True, ag\<lparr>ag_prompt_tokens := needed_tokens\<rparr>,
                   use_snapshots owner needed_snapshots (use_tokens owner needed_tokens s)))
      else
        (let growth = ev_prompt_tokens ev - ag_prompt_tokens ag in
         if growth \<noteq> 0 \<and> cf_token_slots cf < sm_used_tokens s owner + growth then Inr (False, ag, s)
         else Inr (True, ag\<lparr>ag_prompt_tokens := ev_prompt_tokens ev\<rparr>, use_tokens owner growth s)))"

definition move_warm :: "agent_id \<Rightarrow> engine_id \<Rightarrow> engine_id \<Rightarrow> sim \<Rightarrow> sim" where
  "move_warm a source dest s =
     (if a \<in> sm_warm s source
      then let without = (sm_warm s)(source := sm_warm s source - {a})
           in s\<lparr>sm_warm := without(dest := insert a (without dest))\<rparr>
      else s)"

definition move_state :: "agent_runtime \<Rightarrow> engine_id \<Rightarrow> sim \<Rightarrow> sim" where
  "move_state ag destination s =
     (let source = ag_owner_engine ag;
          s1 = use_snapshots source (- 1) (use_tokens source (- ag_prompt_tokens ag) s);
          s2 = use_snapshots destination 1 (use_tokens destination (ag_prompt_tokens ag) s1);
          s3 = move_warm (ag_agent_id ag) source destination s2
      in put_agent (ag\<lparr>ag_owner_engine := destination\<rparr>) s3)"

section \<open>The policies\<close>

definition reroute_key :: "engine_mobility_state \<Rightarrow> int \<times> string" where
  "reroute_key e = (em_load e, em_engine_id e)"

text \<open>
  The choice \<open>stateless-reroute\<close> and \<open>token-only\<close> share: the agent's engine, and the least
  loaded engine that is not retiring, unless it is the same one or the relief is too small.
\<close>

definition reroute_target ::
  "sim_config \<Rightarrow> agent_runtime \<Rightarrow> sim \<Rightarrow> exn + (engine_mobility_state \<times> engine_mobility_state) option" where
  "reroute_target cf ag s =
     (let states = engine_states cf s in
      case find (\<lambda>state. em_engine_id state = ag_owner_engine ag) states of
        None \<Rightarrow> Inl StopIteration
      | Some source \<Rightarrow>
         (case filter (\<lambda>state. \<not> em_retiring state) states of
            [] \<Rightarrow> Inr None
          | c # cs \<Rightarrow>
             (let destination = min_by reroute_key c cs in
              if em_engine_id destination = em_engine_id source then Inr None
              else if \<not> em_retiring source \<and> em_load source < em_load destination + 1 then Inr None
              else Inr (Some (source, destination)))))"

text \<open>The entries every policy makes in the log and the counters when it moves a state.\<close>

definition log_migration :: "migration_event \<Rightarrow> string \<Rightarrow> sim \<Rightarrow> sim" where
  "log_migration me k s =
     (let s1 = add_stat ''drain_migrations'' (if me_drain me then 1 else 0) (add_stat ''migrations'' 1 s)
      in s1\<lparr>sm_method_counts := count_up k 1 (sm_method_counts s1),
            sm_migration_events := sm_migration_events s1 @ [me]\<rparr>)"

definition decide_stateless ::
  "sim_config \<Rightarrow> agent_runtime \<Rightarrow> sim_event \<Rightarrow> sim \<Rightarrow> exn + sim" where
  "decide_stateless cf ag ev s =
     (case reroute_target cf ag s of
        Inl e \<Rightarrow> Inl e
      | Inr None \<Rightarrow> Inr s
      | Inr (Some (source, destination)) \<Rightarrow>
         (let s1 = move_state ag (em_engine_id destination) s;
              s2 = log_migration
                \<lparr>me_time = ev_tool_start_rel_s ev, me_agent_id = ag_agent_id ag, me_event_id = ev_event_id ev,
                 me_source_engine = em_engine_id source, me_destination_engine = em_engine_id destination,
                 me_method = ''stateless_reconstruct'', me_tokens = ev_prompt_tokens ev, me_bytes = 0,
                 me_drain = em_retiring source\<rparr> ''stateless_reconstruct'' s1
          in Inr (s2\<lparr>sm_recompute_tokens := sm_recompute_tokens s2 + ev_prompt_tokens ev\<rparr>)))"

definition add_transfer :: "int \<Rightarrow> seconds \<Rightarrow> sim \<Rightarrow> sim" where
  "add_transfer bytes secs s =
     s\<lparr>sm_transfer_bytes := sm_transfer_bytes s + bytes, sm_transfer_seconds := sm_transfer_seconds s + secs\<rparr>"

definition decide_token_only ::
  "sim_config \<Rightarrow> agent_runtime \<Rightarrow> sim_event \<Rightarrow> state_descriptor \<Rightarrow> seconds \<Rightarrow> seconds \<Rightarrow> sim \<Rightarrow> exn + sim" where
  "decide_token_only cf ag ev descriptor actual_duration gap s =
     (case reroute_target cf ag s of
        Inl e \<Rightarrow> Inl e
      | Inr None \<Rightarrow> Inr s
      | Inr (Some (source, destination)) \<Rightarrow>
         (let token_only_duration =
                cf_fixed_transfer_seconds cf + of_int (ev_prompt_tokens ev * 147456) / of_int (cf_bandwidth cf);
              token_only_fits = token_only_duration \<le> gap;
              actual_fits = actual_duration \<le> gap;
              s1 = (if token_only_fits \<and> \<not> actual_fits then add_stat ''optimistic_token_only'' 1 s else s);
              s2 = (if \<not> token_only_fits \<and> actual_fits then add_stat ''conservative_token_only'' 1 s1 else s1)
          in if \<not> token_only_fits then Inr s2
             else let s3 = add_stat ''token_only_decisions'' 1 s2 in
               if \<not> actual_fits then Inr s3
               else if em_free_token_slots destination < token_slots descriptor
               then Inr (add_stat ''destination_token_capacity_miss'' 1 s3)
               else if em_free_state_snapshots destination < 1
               then Inr (add_stat ''destination_snapshot_capacity_miss'' 1 s3)
               else let s4 = move_state ag (em_engine_id destination) s3;
                        s5 = log_migration
                          \<lparr>me_time = ev_tool_start_rel_s ev, me_agent_id = ag_agent_id ag,
                           me_event_id = ev_event_id ev, me_source_engine = em_engine_id source,
                           me_destination_engine = em_engine_id destination, me_method = ''token_only_copy'',
                           me_tokens = ev_prompt_tokens ev, me_bytes = total_bytes descriptor,
                           me_drain = em_retiring source\<rparr> (method_value COPY_FULL_STATE) s4
                    in Inr (add_transfer (total_bytes descriptor) actual_duration s5)))"

definition decide_heterogeneous ::
  "sim_config \<Rightarrow> agent_runtime \<Rightarrow> sim_event \<Rightarrow> state_descriptor \<Rightarrow> seconds \<Rightarrow> sim \<Rightarrow> exn + sim" where
  "decide_heterogeneous cf ag ev descriptor gap s =
     (let candidate = \<lparr>gc_agent_id = ag_agent_id ag, gc_source_engine = ag_owner_engine ag,
            gc_descriptor = descriptor, gc_remaining_gap_seconds = gap,
            gc_future_service_seconds = of_int (ev_target_output_tokens ev) / 1000, gc_recompute_seconds = 0\<rparr>
      in case select_destination (cf_policy cf) candidate (engine_states cf s) of
           Inl e \<Rightarrow> Inl e
         | Inr None \<Rightarrow> Inr (add_stat ''no_feasible_destination'' 1 s)
         | Inr (Some decision) \<Rightarrow>
            (let source_engine = ag_owner_engine ag;
                 selected = mp_selected (gd_plan decision);
                 s1 = move_state ag (gd_destination_engine decision) s;
                 s2 = log_migration
                   \<lparr>me_time = ev_tool_start_rel_s ev, me_agent_id = ag_agent_id ag, me_event_id = ev_event_id ev,
                    me_source_engine = source_engine, me_destination_engine = gd_destination_engine decision,
                    me_method = method_value (mo_method selected), me_tokens = ev_prompt_tokens ev,
                    me_bytes = mo_transfer_bytes selected, me_drain = gd_drain_urgent decision\<rparr>
                   (method_value (mo_method selected)) s1
             in Inr (add_transfer (mo_transfer_bytes selected) (mo_completion_seconds selected) s2)))"

definition decide :: "sim_config \<Rightarrow> agent_runtime \<Rightarrow> sim_event \<Rightarrow> sim \<Rightarrow> exn + sim" where
  "decide cf ag ev s =
     (if cf_policy_name cf = ''sticky'' then Inr s
      else case hybrid_qwen35 (ev_event_id ev) ''qwen35-h100-bf16-tp1'' (ev_branch_id ev) (ev_prompt_tokens ev)
                  default_kv_bytes_per_token default_recurrent_snapshot_bytes 1 of
             Inl e \<Rightarrow> Inl e
           | Inr descriptor \<Rightarrow>
           (case py_div (of_int (total_bytes descriptor)) (of_int (cf_bandwidth cf)) of
              Inl e \<Rightarrow> Inl e
            | Inr copying \<Rightarrow>
               (let actual_duration = cf_fixed_transfer_seconds cf + copying;
                    gap = ev_tool_end_rel_s ev - ev_tool_start_rel_s ev
                in if cf_policy_name cf = ''stateless-reroute'' then decide_stateless cf ag ev s
                   else if cf_policy_name cf = ''token-only''
                   then decide_token_only cf ag ev descriptor actual_duration gap s
                   else if cf_policy_name cf \<noteq> ''heterogeneous''
                   then Inl (ValueError (''unknown policy: '' @ cf_policy_name cf))
                   else decide_heterogeneous cf ag ev descriptor gap s)))"

section \<open>The event loop\<close>

definition sample_loads :: "sim_config \<Rightarrow> seconds \<Rightarrow> sim \<Rightarrow> sim" where
  "sample_loads cf now s =
     (let loads = map (\<lambda>e. int (card (sm_active s e)) + int (card (sm_warm s e))) (cf_engine_ids cf);
          s1 = s\<lparr>sm_load_samples := sm_load_samples s @ [(now, loads)]\<rparr>
      in if sm_retiring s = {} then s1
         else s1\<lparr>sm_retirement_samples := sm_retirement_samples s @
                   [\<lparr>rs_time = now, rs_retiring_states = sum (sm_used_snapshots s) (sm_retiring s),
                     rs_retiring_tokens = sum (sm_used_tokens s) (sm_retiring s)\<rparr>]\<rparr>)"

text \<open>
  What a timeline entry asks for; the entries of an agent carry it. An entry is the tuple
  \<open>(time, priority, kind, agent)\<close>.
\<close>

datatype sim_kind = Scale | Sample | Arrival agent_id | ToolStart agent_id | ToolEnd agent_id | Expire agent_id

type_synonym sim_item = "seconds \<times> nat \<times> sim_kind"

definition item_key :: "sim_item \<Rightarrow> seconds \<times> nat" where
  "item_key it = (fst it, fst (snd it))"

text \<open>Every handler returns the state and the entries it appends to the timeline.\<close>

definition handle_scale :: "sim_config \<Rightarrow> seconds \<Rightarrow> sim \<Rightarrow> sim" where
  "handle_scale cf now s =
     (let active_count = length (cf_engine_ids cf) div 2
      in sample_loads cf now
           (add_stat ''scale_in_event'' 1 (s\<lparr>sm_retiring := set (drop active_count (cf_engine_ids cf))\<rparr>)))"

definition handle_arrival ::
  "sim_config \<Rightarrow> agent_runtime \<Rightarrow> sim \<Rightarrow> exn + sim \<times> sim_item list" where
  "handle_arrival cf ag s =
     (if \<not> ag_next_event ag < length (ag_events ag) then Inl (IndexError ''list index out of range'')
      else
        (let ev = ag_events ag ! ag_next_event ag;
             s1 = (if ag_phase ag \<noteq> PNew \<and> cf_policy_name cf \<noteq> ''stateless-reroute''
                   then s\<lparr>sm_cache_hit_tokens := sm_cache_hit_tokens s + ag_prompt_tokens ag\<rparr> else s);
             ag1 = (if ag_phase ag = PNew then ag\<lparr>ag_owner_engine := ev_source_engine ev\<rparr> else ag)
         in case allocate cf ag1 ev s1 of
              Inl e \<Rightarrow> Inl e
            | Inr (admitted, ag2, s2) \<Rightarrow>
               (if \<not> admitted
                then Inr (add_stat ''source_capacity_blocks'' 1 (put_agent (ag2\<lparr>ag_blocked := True\<rparr>) s2), [])
                else
                  (let owner = ag_owner_engine ag2; a = ag_agent_id ag2;
                       ag3 = ag2\<lparr>ag_blocked := False, ag_phase := PActive, ag_current_event := Some ev,
                                 ag_next_event := Suc (ag_next_event ag2)\<rparr>;
                       s3 = s2\<lparr>sm_active := (sm_active s2)(owner := insert a (sm_active s2 owner)),
                               sm_warm := (sm_warm s2)(owner := sm_warm s2 owner - {a})\<rparr>
                   in Inr (put_agent ag3 s3, [(ev_tool_start_rel_s ev, 1, ToolStart a)])))))"

definition handle_tool_start ::
  "sim_config \<Rightarrow> seconds \<Rightarrow> agent_runtime \<Rightarrow> sim \<Rightarrow> exn + sim \<times> sim_item list" where
  "handle_tool_start cf now ag s =
     (case ag_current_event ag of
        None \<Rightarrow> Inl (RuntimeError (''tool-start without current event: '' @ ag_agent_id ag))
      | Some ev \<Rightarrow>
         (let owner = ag_owner_engine ag; a = ag_agent_id ag;
              ag1 = ag\<lparr>ag_phase := PTool\<rparr>;
              s1 = put_agent ag1 (s\<lparr>sm_active := (sm_active s)(owner := sm_active s owner - {a}),
                                    sm_warm := (sm_warm s)(owner := insert a (sm_warm s owner))\<rparr>)
          in case decide cf ag1 ev s1 of
               Inl e \<Rightarrow> Inl e
             | Inr s2 \<Rightarrow> Inr (sample_loads cf now s2, [(ev_tool_end_rel_s ev, 2, ToolEnd a)])))"

definition handle_tool_end ::
  "sim_config \<Rightarrow> seconds \<Rightarrow> agent_runtime \<Rightarrow> sim \<Rightarrow> sim \<times> sim_item list" where
  "handle_tool_end cf now ag s =
     (put_agent (ag\<lparr>ag_phase := PWarm\<rparr>) s,
      [(now + cf_retention_seconds cf, 2, Expire (ag_agent_id ag))] @
      (if ag_next_event ag < length (ag_events ag)
       then [(ev_arrival_rel_s (ag_events ag ! ag_next_event ag), 3, Arrival (ag_agent_id ag))] else []))"

definition handle_expire :: "agent_runtime \<Rightarrow> sim \<Rightarrow> sim" where
  "handle_expire ag s =
     (if ag_phase ag = PWarm then
        (let owner = ag_owner_engine ag;
             s1 = use_snapshots owner (- 1) (use_tokens owner (- ag_prompt_tokens ag) s);
             s2 = s1\<lparr>sm_warm := (sm_warm s1)(owner := sm_warm s1 owner - {ag_agent_id ag})\<rparr>
         in add_stat ''expired_warm_states'' 1 (put_agent (ag\<lparr>ag_phase := PExpired\<rparr>) s2))
      else s)"

text \<open>The agent an entry carries, looked up in the state that holds its current fields.\<close>

definition with_agent ::
  "agent_id \<Rightarrow> sim \<Rightarrow> (agent_runtime \<Rightarrow> exn + 'a) \<Rightarrow> exn + 'a" where
  "with_agent a s f = (case agent_of (sm_agents s) a of None \<Rightarrow> Inl (KeyError (py_repr a)) | Some ag \<Rightarrow> f ag)"

definition handle_item :: "sim_config \<Rightarrow> sim_item \<Rightarrow> sim \<Rightarrow> exn + sim \<times> sim_item list" where
  "handle_item cf it s =
     (let now = fst it in
      case snd (snd it) of
        Scale \<Rightarrow> Inr (handle_scale cf now s, [])
      | Sample \<Rightarrow> Inr (sample_loads cf now s, [])
      | Arrival a \<Rightarrow> with_agent a s (\<lambda>ag. handle_arrival cf ag s)
      | ToolStart a \<Rightarrow> with_agent a s (\<lambda>ag. handle_tool_start cf now ag s)
      | ToolEnd a \<Rightarrow> with_agent a s (\<lambda>ag. Inr (handle_tool_end cf now ag s))
      | Expire a \<Rightarrow> with_agent a s (\<lambda>ag. Inr (handle_expire ag s, [])))"

definition initial_timeline :: "sim_config \<Rightarrow> sim \<Rightarrow> sim_item list" where
  "initial_timeline cf s =
     List.map_filter (\<lambda>ag. case ag_events ag of [] \<Rightarrow> None
         | first # _ \<Rightarrow> Some (ev_arrival_rel_s first, 3, Arrival (ag_agent_id ag))) (sm_agents s) @
     [(cf_scale_in_time cf, 1, Scale), (cf_retirement_deadline cf, 3, Sample)]"

section \<open>The loop ends\<close>

text \<open>
  The bound on the steps left: an arrival still to come is worth five, of which its
  tool start keeps four, its tool end three and its expiry one.
\<close>

fun kind_weight :: "sim_kind \<Rightarrow> nat" where
  "kind_weight Scale = 1"
| "kind_weight Sample = 1"
| "kind_weight (Arrival _) = 1"
| "kind_weight (ToolStart _) = 4"
| "kind_weight (ToolEnd _) = 3"
| "kind_weight (Expire _) = 1"

definition timeline_weight :: "sim_item list \<Rightarrow> nat" where
  "timeline_weight q = sum_list (map (\<lambda>it. kind_weight (snd (snd it))) q)"

definition turns_left :: "agent_runtime list \<Rightarrow> nat" where
  "turns_left ags = sum_list (map (\<lambda>ag. length (ag_events ag) - ag_next_event ag) ags)"

definition potential :: "sim_item list \<Rightarrow> sim \<Rightarrow> nat" where
  "potential q s = timeline_weight q + 5 * turns_left (sm_agents s)"

lemma timeline_weight_simps [simp]:
  "timeline_weight [] = 0"
  "timeline_weight (it # q) = kind_weight (snd (snd it)) + timeline_weight q"
  "timeline_weight (q @ q') = timeline_weight q + timeline_weight q'"
  by (simp_all add: timeline_weight_def)

lemma timeline_weight_remove1:
  "it \<in> set q \<Longrightarrow> timeline_weight q = kind_weight (snd (snd it)) + timeline_weight (remove1 it q)"
  by (simp add: timeline_weight_def sum_list_map_remove1)

lemma turns_left_replace:
  "agent_of ags (ag_agent_id ag') = Some ag \<Longrightarrow>
     turns_left (replace_agent ag' ags) + (length (ag_events ag) - ag_next_event ag) =
     turns_left ags + (length (ag_events ag') - ag_next_event ag')"
  by (induction ags) (auto simp: turns_left_def agent_of_def)

lemma agent_of_replace [simp]:
  "agent_of (replace_agent ag ags) a =
     (if a = ag_agent_id ag then map_option (\<lambda>_. ag) (agent_of ags a) else agent_of ags a)"
  by (induction ags) (auto simp: agent_of_def)

lemma agent_of_id: "agent_of ags a = Some ag \<Longrightarrow> ag_agent_id ag = a \<and> ag \<in> set ags"
  by (auto simp: agent_of_def dest: find_Some_mem)

lemma replace_replace [simp]:
  "ag_agent_id ag' = ag_agent_id ag \<Longrightarrow> replace_agent ag (replace_agent ag' ags) = replace_agent ag ags"
  by (induction ags) auto

text \<open>Everything but \<open>put_agent\<close> leaves the agents alone.\<close>

named_theorems agents_simps \<open>what an operation leaves of the agents\<close>

lemma sm_agents_frame [agents_simps]:
  "sm_agents (add_stat k n s) = sm_agents s"
  "sm_agents (use_tokens e m s) = sm_agents s"
  "sm_agents (use_snapshots e m s) = sm_agents s"
  "sm_agents (move_warm a e e' s) = sm_agents s"
  "sm_agents (log_migration me k s) = sm_agents s"
  "sm_agents (add_transfer b d s) = sm_agents s"
  "sm_agents (sample_loads cf now s) = sm_agents s"
  "sm_agents (handle_scale cf now s) = sm_agents s"
  by (simp_all add: add_stat_def use_tokens_def use_snapshots_def move_warm_def log_migration_def add_transfer_def
      sample_loads_def handle_scale_def Let_def)

lemma sm_agents_put [agents_simps]:
  "sm_agents (put_agent ag s) = replace_agent ag (sm_agents s)"
  by (simp add: put_agent_def)

lemma sm_agents_move [agents_simps]:
  "sm_agents (move_state ag e s) =
     replace_agent (ag\<lparr>ag_owner_engine := e\<rparr>) (sm_agents s)"
  by (simp add: move_state_def Let_def agents_simps)

lemma allocate_shape:
  assumes "allocate cf ag ev s = Inr (admitted, ag', s')"
  shows "ag' = ag\<lparr>ag_prompt_tokens := (if admitted then ev_prompt_tokens ev else ag_prompt_tokens ag)\<rparr> \<and>
    sm_agents s' = sm_agents s \<and> (\<not> admitted \<longrightarrow> s' = s)"
  using assms by (auto simp: allocate_def Let_def agents_simps split: if_splits)

text \<open>A decision leaves the agent where it is, or moves it to another engine.\<close>

lemma decide_agents:
  assumes "decide cf ag ev s = Inr s'"
  shows "sm_agents s' = sm_agents s \<or>
    (\<exists>e. sm_agents s' = replace_agent (ag\<lparr>ag_owner_engine := e\<rparr>) (sm_agents s))"
  using assms
  by (auto simp: decide_def decide_stateless_def decide_token_only_def decide_heterogeneous_def Let_def
      agents_simps split: if_splits sum.splits option.splits prod.splits)

text \<open>
  The agent and the state an arrival hands to \<open>allocate\<close>, and what an admitted arrival
  makes of what it gets back.
\<close>

definition arriving :: "agent_runtime \<Rightarrow> agent_runtime" where
  "arriving ag = (if ag_phase ag = PNew
     then ag\<lparr>ag_owner_engine := ev_source_engine (ag_events ag ! ag_next_event ag)\<rparr> else ag)"

definition admitted_agent :: "agent_runtime \<Rightarrow> agent_runtime" where
  "admitted_agent ag = ag\<lparr>ag_blocked := False, ag_phase := PActive,
     ag_current_event := Some (ag_events ag ! ag_next_event ag), ag_next_event := Suc (ag_next_event ag)\<rparr>"

definition enter_active :: "engine_id \<Rightarrow> agent_id \<Rightarrow> sim \<Rightarrow> sim" where
  "enter_active owner a s = s\<lparr>sm_active := (sm_active s)(owner := insert a (sm_active s owner)),
     sm_warm := (sm_warm s)(owner := sm_warm s owner - {a})\<rparr>"

definition enter_warm :: "engine_id \<Rightarrow> agent_id \<Rightarrow> sim \<Rightarrow> sim" where
  "enter_warm owner a s = s\<lparr>sm_active := (sm_active s)(owner := sm_active s owner - {a}),
     sm_warm := (sm_warm s)(owner := insert a (sm_warm s owner))\<rparr>"

definition count_hit :: "sim_config \<Rightarrow> agent_runtime \<Rightarrow> sim \<Rightarrow> sim" where
  "count_hit cf ag s = (if ag_phase ag \<noteq> PNew \<and> cf_policy_name cf \<noteq> ''stateless-reroute''
     then s\<lparr>sm_cache_hit_tokens := sm_cache_hit_tokens s + ag_prompt_tokens ag\<rparr> else s)"

lemma sm_agents_enter [agents_simps]:
  "sm_agents (enter_active e a s) = sm_agents s" "sm_agents (enter_warm e a s) = sm_agents s"
  "sm_agents (count_hit cf ag s) = sm_agents s"
  by (simp_all add: enter_active_def enter_warm_def count_hit_def)

lemma arriving_simps [simp]:
  "ag_agent_id (arriving ag) = ag_agent_id ag" "ag_events (arriving ag) = ag_events ag"
  "ag_next_event (arriving ag) = ag_next_event ag" "ag_phase (arriving ag) = ag_phase ag"
  "ag_prompt_tokens (arriving ag) = ag_prompt_tokens ag" "ag_current_event (arriving ag) = ag_current_event ag"
  by (simp_all add: arriving_def)

lemma handle_arrivalE:
  assumes "handle_arrival cf ag s = Inr (s', new)"
  obtains (blocked) "ag_next_event ag < length (ag_events ag)"
      "allocate cf (arriving ag) (ag_events ag ! ag_next_event ag) (count_hit cf ag s) =
         Inr (False, arriving ag, count_hit cf ag s)"
      "s' = add_stat ''source_capacity_blocks'' 1 (put_agent ((arriving ag)\<lparr>ag_blocked := True\<rparr>) (count_hit cf ag s))"
      "new = []"
    | (admitted) ag1 s1 where "ag_next_event ag < length (ag_events ag)"
      "allocate cf (arriving ag) (ag_events ag ! ag_next_event ag) (count_hit cf ag s) = Inr (True, ag1, s1)"
      "ag1 = (arriving ag)\<lparr>ag_prompt_tokens := ev_prompt_tokens (ag_events ag ! ag_next_event ag)\<rparr>"
      "sm_agents s1 = sm_agents s"
      "s' = put_agent (admitted_agent ag1) (enter_active (ag_owner_engine ag1) (ag_agent_id ag) s1)"
      "new = [(ev_tool_start_rel_s (ag_events ag ! ag_next_event ag), 1, ToolStart (ag_agent_id ag))]"
proof -
  let ?ev = "ag_events ag ! ag_next_event ag"
  have n: "ag_next_event ag < length (ag_events ag)" using assms by (auto simp: handle_arrival_def split: if_splits)
  obtain admitted ag1 s1 where al: "allocate cf (arriving ag) ?ev (count_hit cf ag s) = Inr (admitted, ag1, s1)"
    using assms n by (auto simp: handle_arrival_def Let_def arriving_def count_hit_def split: sum.splits)
  note shape = allocate_shape [OF al]
  show thesis
  proof (cases admitted)
    case True
    then show thesis
      using shape al n assms
      by (intro admitted [of ag1 s1])
        (auto simp: handle_arrival_def Let_def arriving_def count_hit_def enter_active_def admitted_agent_def agents_simps
          split: if_splits)
  next
    case False
    then show thesis
      using shape al n assms
      by (intro blocked) (auto simp: handle_arrival_def Let_def arriving_def count_hit_def split: if_splits)
  qed
qed

lemma handle_tool_startE:
  assumes "handle_tool_start cf now ag s = Inr (s', new)"
  obtains ev s1 where "ag_current_event ag = Some ev"
    "decide cf (ag\<lparr>ag_phase := PTool\<rparr>) ev
       (put_agent (ag\<lparr>ag_phase := PTool\<rparr>) (enter_warm (ag_owner_engine ag) (ag_agent_id ag) s)) = Inr s1"
    "s' = sample_loads cf now s1" "new = [(ev_tool_end_rel_s ev, 2, ToolEnd (ag_agent_id ag))]"
  using assms by (auto simp: handle_tool_start_def Let_def enter_warm_def split: option.splits sum.splits)

text \<open>The cases of the loop body, with the agent an entry carries.\<close>

lemma handle_itemE:
  assumes "handle_item cf it s = Inr (s', new)"
  obtains (scale) "snd (snd it) = Scale" "s' = handle_scale cf (fst it) s" "new = []"
    | (sample) "snd (snd it) = Sample" "s' = sample_loads cf (fst it) s" "new = []"
    | (arrival) a ag where "snd (snd it) = Arrival a" "agent_of (sm_agents s) a = Some ag" "ag_agent_id ag = a"
        "handle_arrival cf ag s = Inr (s', new)"
    | (tool_start) a ag where "snd (snd it) = ToolStart a" "agent_of (sm_agents s) a = Some ag" "ag_agent_id ag = a"
        "handle_tool_start cf (fst it) ag s = Inr (s', new)"
    | (tool_end) a ag where "snd (snd it) = ToolEnd a" "agent_of (sm_agents s) a = Some ag" "ag_agent_id ag = a"
        "handle_tool_end cf (fst it) ag s = (s', new)"
    | (expire) a ag where "snd (snd it) = Expire a" "agent_of (sm_agents s) a = Some ag" "ag_agent_id ag = a"
        "s' = handle_expire ag s" "new = []"
  using assms that
  by (cases "snd (snd it)")
    (auto simp: handle_item_def Let_def with_agent_def split: option.splits dest: agent_of_id)

lemma handler_weight:
  assumes "handle_item cf it s = Inr (s', new)"
  shows "timeline_weight new + 5 * turns_left (sm_agents s') < kind_weight (snd (snd it)) + 5 * turns_left (sm_agents s)"
  using assms
proof (cases rule: handle_itemE)
  case (arrival a ag)
  from arrival(4) show ?thesis
  proof (cases rule: handle_arrivalE)
    case blocked
    then show ?thesis
      using arrival turns_left_replace [of "sm_agents s" "(arriving ag)\<lparr>ag_blocked := True\<rparr>" ag] by (simp add: agents_simps)
  next
    case (admitted ag1 s1)
    then show ?thesis
      using arrival turns_left_replace [of "sm_agents s" "admitted_agent ag1" ag]
      by (simp add: agents_simps admitted_agent_def)
  qed
next
  case (tool_start a ag)
  from tool_start(4) obtain ev s1 where d: "decide cf (ag\<lparr>ag_phase := PTool\<rparr>) ev
       (put_agent (ag\<lparr>ag_phase := PTool\<rparr>) (enter_warm (ag_owner_engine ag) (ag_agent_id ag) s)) = Inr s1"
    and s': "s' = sample_loads cf (fst it) s1" and new: "new = [(ev_tool_end_rel_s ev, 2, ToolEnd (ag_agent_id ag))]"
    by (rule handle_tool_startE)
  have "turns_left (sm_agents s1) = turns_left (sm_agents s)"
    using decide_agents [OF d] tool_start(2,3)
      turns_left_replace [of "sm_agents s" "ag\<lparr>ag_phase := PTool\<rparr>" ag]
      turns_left_replace [of "sm_agents s" "ag\<lparr>ag_phase := PTool, ag_owner_engine := e\<rparr>" ag for e]
    by (auto simp: agents_simps)
  then show ?thesis using tool_start(1) s' new by (simp add: agents_simps)
next
  case (tool_end a ag)
  then show ?thesis
    using turns_left_replace [of "sm_agents s" "ag\<lparr>ag_phase := PWarm\<rparr>" ag]
    by (auto simp: handle_tool_end_def agents_simps)
next
  case (expire a ag)
  then show ?thesis
    using turns_left_replace [of "sm_agents s" "ag\<lparr>ag_phase := PExpired\<rparr>" ag]
    by (auto simp: handle_expire_def Let_def agents_simps)
qed (simp_all add: agents_simps)

text \<open>\<open>run\<close>'s loop: take the first least entry out, handle it, append what it schedules.\<close>

function replay :: "sim_config \<Rightarrow> sim_item list \<Rightarrow> sim \<Rightarrow> exn + sim" where
  "replay cf [] s = Inr s"
| "replay cf (x # xs) s =
     (let it = min_by item_key x xs in
      case handle_item cf it s of
        Inl e \<Rightarrow> Inl e
      | Inr (s', new) \<Rightarrow> replay cf (remove1 it (x # xs) @ new) s')"
  by pat_completeness auto
termination
proof (relation "measure (\<lambda>(cf, q, s). potential q s)", goal_cases)
  case (2 cf x xs s it r s' new)
  then have "it \<in> set (x # xs)" and "handle_item cf it s = Inr (s', new)" using min_by_mem [of item_key x xs] by auto
  from timeline_weight_remove1 [OF this(1)] handler_weight [OF this(2)]
  show ?case by (simp add: potential_def)
qed simp

record sim_result =
  sr_policy :: string
  sr_events :: nat
  sr_agents :: nat
  sr_migrations :: int
  sr_drain_migrations :: int
  sr_method_counts :: counter
  sr_transfer_bytes :: int
  sr_transfer_seconds :: seconds
  sr_counts :: counter
  sr_load_p50_p90_max :: "rat list"
  sr_retirement_at_deadline :: "retirement_sample option"
  sr_final_retiring_snapshots :: int
  sr_final_retiring_tokens :: int
  sr_cache_hit_tokens :: int
  sr_recompute_tokens :: int
  sr_migration_events :: "migration_event list"
  sr_load_series :: "(seconds \<times> int list) list"
  sr_final_owner_distribution :: "(engine_id \<times> int) list"

text \<open>\<open>np.percentile(loads, [50, 90])\<close> is a parameter: numpy is not part of the repository.\<close>

definition sim_report ::
  "(int list \<Rightarrow> exn + rat list) \<Rightarrow> sim_config \<Rightarrow> sim \<Rightarrow> exn + sim_result" where
  "sim_report percentile_50_90 cf s =
     (let loads = concat (map snd (sm_load_samples s)) in
      case percentile_50_90 loads of
        Inl e \<Rightarrow> Inl e
      | Inr ps \<Rightarrow> Inr
          \<lparr>sr_policy = cf_policy_name cf, sr_events = length (cf_events cf), sr_agents = length (sm_agents s),
           sr_migrations = count_of ''migrations'' (sm_stats s),
           sr_drain_migrations = count_of ''drain_migrations'' (sm_stats s),
           sr_method_counts = sm_method_counts s, sr_transfer_bytes = sm_transfer_bytes s,
           sr_transfer_seconds = sm_transfer_seconds s, sr_counts = sm_stats s,
           sr_load_p50_p90_max = ps @ [case loads of [] \<Rightarrow> 0 | l # ls \<Rightarrow> of_int (max_by id l ls)],
           sr_retirement_at_deadline =
             find (\<lambda>x. rs_time x \<le> cf_retirement_deadline cf) (rev (sm_retirement_samples s)),
           sr_final_retiring_snapshots = sum (sm_used_snapshots s) (sm_retiring s),
           sr_final_retiring_tokens = sum (sm_used_tokens s) (sm_retiring s),
           sr_cache_hit_tokens = sm_cache_hit_tokens s, sr_recompute_tokens = sm_recompute_tokens s,
           sr_migration_events = sm_migration_events s, sr_load_series = sm_load_samples s,
           sr_final_owner_distribution = map (\<lambda>e. (e, sm_used_snapshots s e)) (cf_engine_ids cf)\<rparr>)"

definition run_simulation ::
  "(int list \<Rightarrow> exn + rat list) \<Rightarrow> sim_config \<Rightarrow> sim \<Rightarrow> exn + sim_result" where
  "run_simulation percentile_50_90 cf s =
     (case replay cf (initial_timeline cf s) s of
        Inl e \<Rightarrow> Inl e
      | Inr s' \<Rightarrow> sim_report percentile_50_90 cf s')"

section \<open>Stretching a trace\<close>

text \<open>The loop over one agent's rows, with \<open>previous_tool_end\<close>.\<close>

fun stretch_rows :: "rat \<Rightarrow> seconds option \<Rightarrow> sim_event list \<Rightarrow> sim_event list" where
  "stretch_rows multiplier previous_tool_end [] = []"
| "stretch_rows multiplier previous_tool_end (row # rows) =
     (let duration = ev_tool_duration_s row * multiplier;
          arrival = (case previous_tool_end of None \<Rightarrow> ev_arrival_rel_s row | Some t \<Rightarrow> t);
          tool_start = arrival + ev_llm_e2e_template_s row;
          tool_end = tool_start + duration
      in row\<lparr>ev_tool_duration_s := duration, ev_arrival_rel_s := arrival, ev_tool_start_rel_s := tool_start,
             ev_tool_end_rel_s := tool_end\<rparr> # stretch_rows multiplier (Some tool_end) rows)"

definition scale_tool_gaps :: "sim_event list \<Rightarrow> rat \<Rightarrow> sim_event list" where
  "scale_tool_gaps events multiplier =
     sort_key ev_arrival_rel_s
       (concat (map (\<lambda>(_, rows). stretch_rows multiplier None rows) (group_by_agent events)))"

end
