(* ===== verification/SimulationProps.thy ===== *)
theory SimulationProps
  imports Simulation
begin

text \<open>
  What the replay guarantees: its loop as a step relation with a locale for its invariants,
  the turn of every agent (\<open>sim_wf\<close>), and from it that a well-formed replay returns, that it
  ends every agent's turns or counts it as blocked, and how long it runs.
\<close>

section \<open>The loop as a step relation\<close>

inductive sim_step :: "sim_config \<Rightarrow> sim_item list \<times> sim \<Rightarrow> sim_item list \<times> sim \<Rightarrow> bool" for cf where
  step: "q \<noteq> [] \<Longrightarrow> it = min_by item_key (hd q) (tl q) \<Longrightarrow> handle_item cf it s = Inr (s', new) \<Longrightarrow>
    sim_step cf (q, s) (remove1 it q @ new, s')"

inductive_cases sim_stepE: "sim_step cf (q, s) c"

lemma sim_stepD:
  assumes "sim_step cf (q, s) (q', s')"
  obtains it new where "it \<in> set q" "\<forall>x \<in> set q. item_key it \<le> item_key x"
    "handle_item cf it s = Inr (s', new)" "q' = remove1 it q @ new"
proof -
  let ?it = "min_by item_key (hd q) (tl q)"
  from assms obtain new where "q \<noteq> []" "handle_item cf ?it s = Inr (s', new)" "q' = remove1 ?it q @ new"
    by (auto elim!: sim_stepE)
  moreover from this(1) have "?it \<in> set q \<and> (\<forall>x \<in> set q. item_key ?it \<le> item_key x)"
    using min_by_mem [of item_key "hd q" "tl q"] min_by_least [of _ "hd q" "tl q" item_key] by (cases q) auto
  ultimately show thesis using that by blast
qed

lemma replay_reaches:
  "replay cf q s = Inr s' \<Longrightarrow> (sim_step cf)\<^sup>*\<^sup>* (q, s) ([], s')"
proof (induction cf q s rule: replay.induct)
  case (2 cf x xs s)
  define it where "it = min_by item_key x xs"
  obtain s1 new where h: "handle_item cf it s = Inr (s1, new)"
    and r: "replay cf (remove1 it (x # xs) @ new) s1 = Inr s'"
    using "2.prems" by (auto simp: Let_def it_def split: sum.splits)
  have "sim_step cf (x # xs, s) (remove1 it (x # xs) @ new, s1)"
    by (rule step) (simp_all add: h it_def [symmetric])
  moreover have "(sim_step cf)\<^sup>*\<^sup>* (remove1 it (x # xs) @ new, s1) ([], s')"
    using "2.IH" [OF it_def h refl] r by simp
  ultimately show ?case by (rule converse_rtranclp_into_rtranclp)
qed simp

text \<open>
  An invariant of the loop: the handler of any entry of the timeline keeps it. It then holds
  all along a replay, and the replay cannot raise if no handler raises under it.
\<close>

locale sim_invariant =
  fixes cf :: sim_config and I :: "sim_item list \<Rightarrow> sim \<Rightarrow> bool"
  assumes kept: "I q s \<Longrightarrow> it \<in> set q \<Longrightarrow> \<forall>x \<in> set q. item_key it \<le> item_key x \<Longrightarrow> handle_item cf it s = Inr (s', new) \<Longrightarrow>
    I (remove1 it q @ new) s'"
begin

lemma along: "(sim_step cf)\<^sup>*\<^sup>* (q, s) (q', s') \<Longrightarrow> I q s \<Longrightarrow> I q' s'"
proof (induction "(q', s')" arbitrary: q' s' rule: rtranclp_induct)
  case (step c)
  obtain q1 s1 where c: "c = (q1, s1)" by (cases c)
  from step(2) [unfolded c] show ?case by (rule sim_stepD) (use step(3) [OF c step.prems] kept in blast)
qed simp

lemma at_end: "replay cf q s = Inr s' \<Longrightarrow> I q s \<Longrightarrow> I [] s'"
  by (rule along [OF replay_reaches])

lemma returns:
  assumes "\<And>q s it e. I q s \<Longrightarrow> it \<in> set q \<Longrightarrow> handle_item cf it s \<noteq> Inl e" and "I q s"
  shows "\<exists>s'. replay cf q s = Inr s'"
  using assms(2)
proof (induction "potential q s" arbitrary: q s rule: less_induct)
  case less
  show ?case
  proof (cases q)
    case (Cons x xs)
    let ?it = "min_by item_key x xs"
    have it: "?it \<in> set q" using min_by_mem [of item_key x xs] Cons by simp
    have least: "\<forall>y \<in> set q. item_key ?it \<le> item_key y" using min_by_least [of _ x xs item_key] Cons by simp
    from it assms(1) [OF less.prems] obtain s1 new where h: "handle_item cf ?it s = Inr (s1, new)"
      by (metis old.prod.exhaust sum.exhaust)
    have "potential (remove1 ?it q @ new) s1 < potential q s"
      using timeline_weight_remove1 [OF it] handler_weight [OF h] by (simp add: potential_def)
    from less.hyps [OF this kept [OF less.prems it least h]] h Cons show ?thesis by (simp add: Let_def)
  qed simp
qed

end

section \<open>What an entry does to the agents\<close>

text \<open>The destinations the policies choose from.\<close>

lemma engine_states_ids: "state \<in> set (engine_states cf s) \<Longrightarrow> em_engine_id state \<in> set (cf_engine_ids cf)"
  by (auto simp: engine_states_def)

lemma engine_states_fields:
  "state \<in> set (engine_states cf s) \<Longrightarrow>
     em_free_token_slots state = cf_token_slots cf - sm_used_tokens s (em_engine_id state) \<and>
     em_free_state_snapshots state = cf_snapshot_slots cf - sm_used_snapshots s (em_engine_id state) \<and>
     em_load state = int (card (sm_active s (em_engine_id state))) + int (card (sm_warm s (em_engine_id state))) \<and>
     (em_retiring state \<longleftrightarrow> em_engine_id state \<in> sm_retiring s)"
  by (auto simp: engine_states_def em_load_def)

lemma reroute_targetD:
  assumes "reroute_target cf ag s = Inr (Some (source, destination))"
  shows "source \<in> set (engine_states cf s)" and "em_engine_id source = ag_owner_engine ag"
    and "destination \<in> set (engine_states cf s)" and "\<not> em_retiring destination"
    and "em_engine_id destination \<noteq> ag_owner_engine ag"
    and "em_retiring source \<or> em_load destination + 1 \<le> em_load source"
proof -
  obtain c cs where src: "find (\<lambda>state. em_engine_id state = ag_owner_engine ag) (engine_states cf s) = Some source"
    and cs: "filter (\<lambda>state. \<not> em_retiring state) (engine_states cf s) = c # cs"
    and d: "destination = min_by reroute_key c cs" "em_engine_id destination \<noteq> em_engine_id source"
      "em_retiring source \<or> em_load destination + 1 \<le> em_load source"
    using assms by (auto simp: reroute_target_def Let_def split: option.splits list.splits if_splits)
  from find_Some_mem [OF src] show s: "source \<in> set (engine_states cf s)"
    "em_engine_id source = ag_owner_engine ag" by simp_all
  have "destination \<in> set (filter (\<lambda>state. \<not> em_retiring state) (engine_states cf s))"
    using min_by_mem [of reroute_key c cs] d(1) cs by simp
  then show "destination \<in> set (engine_states cf s)" "\<not> em_retiring destination" by simp_all
  show "em_engine_id destination \<noteq> ag_owner_engine ag" using d(2) s by simp
  show "em_retiring source \<or> em_load destination + 1 \<le> em_load source" by (rule d(3))
qed

lemma reroute_target_total:
  assumes "ag_owner_engine ag \<in> set (cf_engine_ids cf)"
  shows "\<exists>t. reroute_target cf ag s = Inr t"
proof -
  have "find (\<lambda>state. em_engine_id state = ag_owner_engine ag) (engine_states cf s) \<noteq> None"
    using assms by (auto simp: find_None_all engine_states_def)
  then show ?thesis by (auto simp: reroute_target_def Let_def split: list.splits if_splits)
qed

lemma select_destinationD:
  assumes ok: "planner_ok (gp_planner g)" and d: "select_destination g c engines = Inr (Some d)"
  obtains source dest where "source \<in> set engines" "em_engine_id source = gc_source_engine c"
    "dest \<in> set engines" "decision_ok g c source dest d" "gd_drain_urgent d \<longleftrightarrow> em_retiring source"
proof -
  obtain source where src: "map_of (rev (map (\<lambda>e. (em_engine_id e, e)) engines)) (gc_source_engine c) = Some source"
    using d by (auto simp: select_destination_def split: option.splits)
  let ?ds = "List.map_filter (\<lambda>dest. projr (consider_destination g c source dest)) engines"
  from d src have "d \<in> set ?ds"
    using max_by_mem [of decision_key] by (fastforce simp: select_destination_def rank_destinations_total [OF ok] split: list.splits)
  then obtain dest where dest: "dest \<in> set engines" "projr (consider_destination g c source dest) = Some d"
    by (auto simp: mem_map_filter)
  then have "consider_destination g c source dest = Inr (Some d)"
    using consider_destination_total [OF ok, of c source dest] by auto
  moreover from map_of_SomeD [OF src] have "source \<in> set engines" "em_engine_id source = gc_source_engine c" by auto
  moreover have "gd_drain_urgent d \<longleftrightarrow> em_retiring source"
    using calculation(1) by (auto simp: consider_destination_def Let_def split: if_splits sum.splits option.splits)
  ultimately show thesis using that dest(1) consider_destination_ok(1) by blast
qed

lemma select_destination_total:
  assumes "planner_ok (gp_planner g)" and "gc_source_engine c \<in> em_engine_id ` set engines"
  shows "\<exists>d. select_destination g c engines = Inr d"
proof -
  obtain source where "map_of (rev (map (\<lambda>e. (em_engine_id e, e)) engines)) (gc_source_engine c) = Some source"
    using assms(2) by (cases "map_of (rev (map (\<lambda>e. (em_engine_id e, e)) engines)) (gc_source_engine c)")
      (auto simp: map_of_eq_None_iff image_iff)
  then show ?thesis by (auto simp: select_destination_def rank_destinations_total [OF assms(1)] split: list.splits)
qed

text \<open>
  The two halves of the state: where states are, and what is counted of their moves.
\<close>

type_synonym fleet_view = "agent_runtime list \<times> engine_id set \<times> (engine_id \<Rightarrow> int) \<times> (engine_id \<Rightarrow> int) \<times>
  (engine_id \<Rightarrow> agent_id set) \<times> (engine_id \<Rightarrow> agent_id set)"

definition fleet :: "sim \<Rightarrow> fleet_view" where
  "fleet s = (sm_agents s, sm_retiring s, sm_used_tokens s, sm_used_snapshots s, sm_active s, sm_warm s)"

definition counter_total :: "counter \<Rightarrow> int" where
  "counter_total c = sum_list (map snd c)"

text \<open>Migrations, drains, copies by method, bytes and blocked arrivals, as counted.\<close>

definition ledger :: "sim \<Rightarrow> int \<times> int \<times> int \<times> int \<times> int" where
  "ledger s = (count_of ''migrations'' (sm_stats s), count_of ''drain_migrations'' (sm_stats s),
     counter_total (sm_method_counts s), sm_transfer_bytes s, count_of ''source_capacity_blocks'' (sm_stats s))"

lemma counter_total_up: "counter_total (count_up k n c) = counter_total c + n"
proof -
  have "counter_total (AList.update k (count_of k c + m) c) = counter_total c + m" for m
    by (induction c) (auto simp: counter_total_def count_of_def)
  then show ?thesis by (simp add: count_up_def)
qed

named_theorems fleet_simps \<open>what an operation leaves of the fleet, the ledger and the log\<close>

lemma fleet_frame [fleet_simps]:
  "fleet (add_stat k n s) = fleet s" "fleet (log_migration me k s) = fleet s"
  "fleet (add_transfer b d s) = fleet s" "fleet (s\<lparr>sm_recompute_tokens := r\<rparr>) = fleet s"
  "fleet (count_hit cf ag s) = fleet s" "fleet (sample_loads cf now s) = fleet s"
  by (simp_all add: fleet_def add_stat_def log_migration_def add_transfer_def count_hit_def sample_loads_def Let_def)

lemma fleet_put: "fleet s = fleet t \<Longrightarrow> fleet (put_agent ag s) = fleet (put_agent ag t)"
  by (simp add: fleet_def put_agent_def)

lemma fleet_move: "fleet s = fleet t \<Longrightarrow> fleet (move_state ag e s) = fleet (move_state ag e t)"
  by (simp add: fleet_def move_state_def Let_def put_agent_def move_warm_def use_tokens_def use_snapshots_def)

lemma ledger_frame [fleet_simps]:
  "ledger (move_state ag e s) = ledger s" "ledger (put_agent ag s) = ledger s"
  "ledger (enter_active e a s) = ledger s" "ledger (enter_warm e a s) = ledger s"
  "ledger (s\<lparr>sm_recompute_tokens := r\<rparr>) = ledger s"
  "ledger (count_hit cf ag s) = ledger s" "ledger (sample_loads cf now s) = ledger s"
  "ledger (use_tokens e n s) = ledger s" "ledger (use_snapshots e n s) = ledger s"
  by (simp_all add: ledger_def move_state_def Let_def put_agent_def move_warm_def use_tokens_def use_snapshots_def
      enter_active_def enter_warm_def count_hit_def sample_loads_def)

lemma migration_log_frame [fleet_simps]:
  "sm_migration_events (move_state ag e s) = sm_migration_events s"
  "sm_migration_events (put_agent ag s) = sm_migration_events s"
  "sm_migration_events (enter_active e a s) = sm_migration_events s"
  "sm_migration_events (enter_warm e a s) = sm_migration_events s"
  "sm_migration_events (add_stat k n s) = sm_migration_events s"
  "sm_migration_events (count_hit cf ag s) = sm_migration_events s"
  "sm_migration_events (sample_loads cf now s) = sm_migration_events s"
  "sm_migration_events (use_tokens e n s) = sm_migration_events s"
  "sm_migration_events (use_snapshots e n s) = sm_migration_events s"
  "sm_migration_events (add_transfer b d s) = sm_migration_events s"
  "sm_migration_events (log_migration me k s) = sm_migration_events s @ [me]"
  by (simp_all add: move_state_def Let_def put_agent_def move_warm_def use_tokens_def use_snapshots_def add_stat_def
      enter_active_def enter_warm_def count_hit_def sample_loads_def add_transfer_def log_migration_def)

lemma ledger_stat [fleet_simps]:
  "k \<noteq> ''migrations'' \<Longrightarrow> k \<noteq> ''drain_migrations'' \<Longrightarrow> k \<noteq> ''source_capacity_blocks'' \<Longrightarrow>
     ledger (add_stat k n s) = ledger s"
  by (simp add: ledger_def add_stat_def count_of_up)

lemma ledger_blocks [fleet_simps]:
  "ledger (add_stat ''source_capacity_blocks'' n s) = (case ledger s of (m, dr, k, b, c) \<Rightarrow> (m, dr, k, b, c + n))"
  by (simp add: ledger_def add_stat_def count_of_up)

lemma ledger_logged [fleet_simps]:
  "ledger (add_transfer b d (log_migration me k s)) = (case ledger s of (m, dr, n, b', c) \<Rightarrow>
     (m + 1, dr + (if me_drain me then 1 else 0), n + 1, b' + b, c))"
  "ledger (log_migration me k s) = (case ledger s of (m, dr, n, b', c) \<Rightarrow>
     (m + 1, dr + (if me_drain me then 1 else 0), n + 1, b', c))"
  by (simp_all add: ledger_def log_migration_def add_stat_def add_transfer_def count_of_up counter_total_up Let_def)

text \<open>What a policy's decision may do: nothing to the fleet, or one move, logged and counted.\<close>

definition moved_to :: "sim_config \<Rightarrow> agent_runtime \<Rightarrow> sim_event \<Rightarrow> sim \<Rightarrow> sim \<Rightarrow> engine_id \<Rightarrow> migration_event \<Rightarrow> bool" where
  "moved_to cf ag ev s s' e me \<longleftrightarrow>
     e \<in> set (cf_engine_ids cf) \<and> e \<noteq> ag_owner_engine ag \<and> e \<notin> sm_retiring s \<and>
     me_source_engine me = ag_owner_engine ag \<and> me_destination_engine me = e \<and> me_agent_id me = ag_agent_id ag \<and>
     (me_drain me \<longleftrightarrow> ag_owner_engine ag \<in> sm_retiring s) \<and>
     fleet s' = fleet (move_state ag e s) \<and> sm_migration_events s' = sm_migration_events s @ [me] \<and>
     ledger s' = (case ledger s of (m, dr, k, b, c) \<Rightarrow>
       (m + 1, dr + (if me_drain me then 1 else 0), k + 1, b + me_bytes me, c)) \<and>
     (cf_policy_name cf \<noteq> ''stateless-reroute'' \<longrightarrow>
       sm_used_tokens s e + ev_prompt_tokens ev \<le> cf_token_slots cf \<and>
       sm_used_snapshots s e + 1 \<le> cf_snapshot_slots cf)"

definition stayed :: "sim \<Rightarrow> sim \<Rightarrow> bool" where
  "stayed s s' \<longleftrightarrow> fleet s' = fleet s \<and> ledger s' = ledger s \<and> sm_migration_events s' = sm_migration_events s"

lemma stayed_stats [simp]:
  "stayed s s"
  "stayed s s' \<Longrightarrow> k \<noteq> ''migrations'' \<Longrightarrow> k \<noteq> ''drain_migrations'' \<Longrightarrow> k \<noteq> ''source_capacity_blocks'' \<Longrightarrow>
     stayed s (add_stat k n s')"
  by (simp_all add: stayed_def fleet_simps)

lemma stateless_moves:
  assumes "decide_stateless cf ag ev s = Inr s'" and "cf_policy_name cf = ''stateless-reroute''"
  shows "stayed s s' \<or> (\<exists>e me. moved_to cf ag ev s s' e me)"
proof (cases "s' = s")
  case False
  with assms(1) obtain source dest where t: "reroute_target cf ag s = Inr (Some (source, dest))"
    by (auto simp: decide_stateless_def split: sum.splits option.splits)
  note r = reroute_targetD [OF t]
  let ?me = "\<lparr>me_time = ev_tool_start_rel_s ev, me_agent_id = ag_agent_id ag, me_event_id = ev_event_id ev,
     me_source_engine = em_engine_id source, me_destination_engine = em_engine_id dest,
     me_method = ''stateless_reconstruct'', me_tokens = ev_prompt_tokens ev, me_bytes = 0,
     me_drain = em_retiring source\<rparr>"
  let ?s = "log_migration ?me ''stateless_reconstruct'' (move_state ag (em_engine_id dest) s)"
  have "s' = ?s\<lparr>sm_recompute_tokens := sm_recompute_tokens ?s + ev_prompt_tokens ev\<rparr>"
    using assms(1) t by (simp add: decide_stateless_def Let_def)
  then have "moved_to cf ag ev s s' (em_engine_id dest) ?me"
    using assms(2) r engine_states_fields [OF r(1)] engine_states_fields [OF r(3)] engine_states_ids [OF r(3)]
    by (auto simp: moved_to_def fleet_simps split: prod.splits)
  then show ?thesis by blast
qed simp

lemma token_only_moves:
  assumes "decide_token_only cf ag ev descriptor actual gap s = Inr s'" and "token_slots descriptor = ev_prompt_tokens ev"
  shows "stayed s s' \<or> (\<exists>e me. moved_to cf ag ev s s' e me)"
proof (cases "s' = s")
  case False
  with assms(1) obtain source dest where t: "reroute_target cf ag s = Inr (Some (source, dest))"
    by (auto simp: decide_token_only_def split: sum.splits option.splits)
  note r = reroute_targetD [OF t]
  let ?only = "cf_fixed_transfer_seconds cf + of_int (ev_prompt_tokens ev * 147456) / of_int (cf_bandwidth cf)"
  define s1 where "s1 = (if ?only \<le> gap \<and> \<not> actual \<le> gap then add_stat ''optimistic_token_only'' 1 s else s)"
  define s2 where "s2 = (if \<not> ?only \<le> gap \<and> actual \<le> gap then add_stat ''conservative_token_only'' 1 s1 else s1)"
  define s3 where "s3 = add_stat ''token_only_decisions'' 1 s2"
  have s2: "stayed s s2" and s3: "stayed s s3" by (simp_all add: s1_def s2_def s3_def)
  have run: "Inr s' = (if \<not> ?only \<le> gap then Inr s2 else if \<not> actual \<le> gap then Inr s3
      else if em_free_token_slots dest < token_slots descriptor then Inr (add_stat ''destination_token_capacity_miss'' 1 s3)
      else if em_free_state_snapshots dest < 1 then Inr (add_stat ''destination_snapshot_capacity_miss'' 1 s3)
      else (Inr (add_transfer (total_bytes descriptor) actual (log_migration
            \<lparr>me_time = ev_tool_start_rel_s ev, me_agent_id = ag_agent_id ag, me_event_id = ev_event_id ev,
             me_source_engine = em_engine_id source, me_destination_engine = em_engine_id dest,
             me_method = ''token_only_copy'', me_tokens = ev_prompt_tokens ev, me_bytes = total_bytes descriptor,
             me_drain = em_retiring source\<rparr> (method_value COPY_FULL_STATE)
            (move_state ag (em_engine_id dest) s3))) :: exn + sim))"
    using assms(1) [symmetric] unfolding decide_token_only_def t Let_def s3_def s2_def s1_def by (simp only: sum.case option.case prod.case)
  show ?thesis
  proof (cases "?only \<le> gap \<and> actual \<le> gap \<and> \<not> em_free_token_slots dest < token_slots descriptor \<and>
      \<not> em_free_state_snapshots dest < 1")
    case True
    let ?me = "\<lparr>me_time = ev_tool_start_rel_s ev, me_agent_id = ag_agent_id ag, me_event_id = ev_event_id ev,
       me_source_engine = em_engine_id source, me_destination_engine = em_engine_id dest,
       me_method = ''token_only_copy'', me_tokens = ev_prompt_tokens ev, me_bytes = total_bytes descriptor,
       me_drain = em_retiring source\<rparr>"
    have "s' = add_transfer (total_bytes descriptor) actual
        (log_migration ?me (method_value COPY_FULL_STATE) (move_state ag (em_engine_id dest) s3))"
      using run True by simp
    then have "moved_to cf ag ev s s' (em_engine_id dest) ?me"
      using True r s3 assms(2) engine_states_fields [OF r(1)] engine_states_fields [OF r(3)] engine_states_ids [OF r(3)]
        fleet_move [of s3 s ag "em_engine_id dest"]
      by (auto simp: stayed_def moved_to_def fleet_simps split: prod.splits)
    then show ?thesis by blast
  next
    case False
    then show ?thesis using run s2 s3 by (auto split: if_splits)
  qed
qed simp

lemma heterogeneous_moves:
  assumes "decide_heterogeneous cf ag ev descriptor gap s = Inr s'" and ok: "planner_ok (gp_planner (cf_policy cf))"
    and "token_slots descriptor = ev_prompt_tokens ev" and "snapshot_slots descriptor = 1"
  shows "stayed s s' \<or> (\<exists>e me. moved_to cf ag ev s s' e me)"
proof -
  let ?c = "\<lparr>gc_agent_id = ag_agent_id ag, gc_source_engine = ag_owner_engine ag,
            gc_descriptor = descriptor, gc_remaining_gap_seconds = gap,
            gc_future_service_seconds = of_int (ev_target_output_tokens ev) / 1000, gc_recompute_seconds = 0\<rparr>"
  show ?thesis
  proof (cases "select_destination (cf_policy cf) ?c (engine_states cf s)")
    case (Inr r)
    show ?thesis
    proof (cases r)
      case None
      with Inr assms(1) show ?thesis by (auto simp: decide_heterogeneous_def)
    next
      case (Some d)
      with Inr have sel: "select_destination (cf_policy cf) ?c (engine_states cf s) = Inr (Some d)" by simp
      obtain source dest where r: "source \<in> set (engine_states cf s)" "em_engine_id source = gc_source_engine ?c"
        "dest \<in> set (engine_states cf s)" "decision_ok (cf_policy cf) ?c source dest d"
        "gd_drain_urgent d \<longleftrightarrow> em_retiring source"
        by (rule select_destinationD [OF ok sel])
      let ?m = "mp_selected (gd_plan d)"
      let ?me = "\<lparr>me_time = ev_tool_start_rel_s ev, me_agent_id = ag_agent_id ag, me_event_id = ev_event_id ev,
         me_source_engine = ag_owner_engine ag, me_destination_engine = em_engine_id dest,
         me_method = method_value (mo_method ?m), me_tokens = ev_prompt_tokens ev,
         me_bytes = mo_transfer_bytes ?m, me_drain = gd_drain_urgent d\<rparr>"
      have dest: "gd_destination_engine d = em_engine_id dest" using r(4) by (simp add: decision_ok_def)
      have "s' = add_transfer (mo_transfer_bytes ?m) (mo_completion_seconds ?m)
          (log_migration ?me (method_value (mo_method ?m)) (move_state ag (em_engine_id dest) s))"
        using assms(1) sel dest by (simp add: decide_heterogeneous_def Let_def)
      then have "moved_to cf ag ev s s' (em_engine_id dest) ?me"
        using assms(3,4) r engine_states_fields [OF r(1)] engine_states_fields [OF r(3)] engine_states_ids [OF r(3)]
        by (auto simp: moved_to_def decision_ok_def fleet_simps split: prod.splits)
      then show ?thesis by blast
    qed
  qed (use assms(1) in \<open>simp add: decide_heterogeneous_def\<close>)
qed

lemma hybrid_qwen35_slots:
  "hybrid_qwen35 i m b n kvb rsb k = Inr d \<Longrightarrow> token_slots d = n \<and> snapshot_slots d = k"
  by (auto simp: hybrid_qwen35_def new_component_def state_component_checked_def state_descriptor_checked_def
      token_slots_def snapshot_slots_def split: if_splits)

lemma decide_moves:
  assumes d: "decide cf ag ev s = Inr s'" and ok: "planner_ok (gp_planner (cf_policy cf))"
  shows "stayed s s' \<or> (\<exists>e me. moved_to cf ag ev s s' e me)"
proof (cases "cf_policy_name cf = ''sticky''")
  case True
  with d show ?thesis by (simp add: decide_def)
next
  case False
  with d obtain descriptor where q: "hybrid_qwen35 (ev_event_id ev) ''qwen35-h100-bf16-tp1'' (ev_branch_id ev)
      (ev_prompt_tokens ev) default_kv_bytes_per_token default_recurrent_snapshot_bytes 1 = Inr descriptor"
    by (auto simp: decide_def split: sum.splits)
  note slots = hybrid_qwen35_slots [OF q]
  from d False q consider
      "decide_stateless cf ag ev s = Inr s'" "cf_policy_name cf = ''stateless-reroute''"
    | actual gap where "decide_token_only cf ag ev descriptor actual gap s = Inr s'"
    | gap where "decide_heterogeneous cf ag ev descriptor gap s = Inr s'"
    by (auto simp: decide_def Let_def split: sum.splits if_splits)
  then show ?thesis
  proof cases
    case 1
    then show ?thesis by (rule stateless_moves)
  next
    case 2
    then show ?thesis by (rule token_only_moves) (use slots in simp)
  next
    case 3
    then show ?thesis by (rule heterogeneous_moves) (use slots ok in simp_all)
  qed
qed

text \<open>A policy the code knows decides without raising, for a known engine and a prompt of length at least 0.\<close>

definition known_policies :: "string set" where
  "known_policies = {''sticky'', ''stateless-reroute'', ''token-only'', ''heterogeneous''}"

definition config_ok :: "sim_config \<Rightarrow> bool" where
  "config_ok cf \<longleftrightarrow> planner_ok (gp_planner (cf_policy cf)) \<and> 0 < cf_bandwidth cf"

lemma decide_returns:
  assumes ok: "config_ok cf" and known: "cf_policy_name cf \<in> known_policies" and "0 \<le> ev_prompt_tokens ev"
    and owner: "ag_owner_engine ag \<in> set (cf_engine_ids cf)"
  shows "decide cf ag ev s \<noteq> Inl e"
proof -
  obtain d where q: "hybrid_qwen35 (ev_event_id ev) ''qwen35-h100-bf16-tp1'' (ev_branch_id ev)
      (ev_prompt_tokens ev) default_kv_bytes_per_token default_recurrent_snapshot_bytes 1 = Inr d"
    using assms(3) by (auto simp: hybrid_qwen35_def new_component_def state_component_checked_def
        state_descriptor_checked_def default_kv_bytes_per_token_def default_recurrent_snapshot_bytes_def)
  obtain t where t: "reroute_target cf ag s = Inr t" using reroute_target_total [OF owner] by blast
  have div: "py_div x (of_int (cf_bandwidth cf)) = Inr (x / of_int (cf_bandwidth cf))" for x
    using ok by (simp add: py_div_def config_ok_def)
  have "\<exists>s'. decide_stateless cf ag ev s = Inr s'"
    by (cases t) (auto simp: decide_stateless_def t Let_def)
  moreover have "\<exists>s'. decide_token_only cf ag ev d' x g s = Inr s'" for d' x g
    by (cases t) (auto simp: decide_token_only_def t Let_def)
  moreover have "\<exists>s'. decide_heterogeneous cf ag ev d' g s = Inr s'" for d' g
  proof -
    let ?c = "\<lparr>gc_agent_id = ag_agent_id ag, gc_source_engine = ag_owner_engine ag, gc_descriptor = d',
      gc_remaining_gap_seconds = g, gc_future_service_seconds = of_int (ev_target_output_tokens ev) / 1000,
      gc_recompute_seconds = 0\<rparr>"
    have "gc_source_engine ?c \<in> em_engine_id ` set (engine_states cf s)"
      using owner by (auto simp: engine_states_def image_iff)
    with ok obtain r where "select_destination (cf_policy cf) ?c (engine_states cf s) = Inr r"
      using select_destination_total [of "cf_policy cf" ?c] by (auto simp: config_ok_def)
    then show ?thesis by (cases r) (auto simp: decide_heterogeneous_def Let_def)
  qed
  ultimately show ?thesis using known
    by (auto simp: decide_def q div Let_def known_policies_def) (metis Inl_Inr_False)+
qed

section \<open>An agent's life as a state machine\<close>

text \<open>
  What the entry of an agent may make of it, and the entries it schedules: an arrival is
  blocked or admitted, a tool starts (where a policy may move the agent), a tool ends, a
  warm state expires.
\<close>

inductive agent_step ::
  "sim_config \<Rightarrow> seconds \<Rightarrow> sim_kind \<Rightarrow> agent_runtime \<Rightarrow> agent_runtime \<Rightarrow> sim_item list \<Rightarrow> bool" for cf now where
  block: "ag_next_event ag < length (ag_events ag) \<Longrightarrow>
    agent_step cf now (Arrival (ag_agent_id ag)) ag ((arriving ag)\<lparr>ag_blocked := True\<rparr>) []"
| admit: "ag_next_event ag < length (ag_events ag) \<Longrightarrow> ag_owner_engine (arriving ag) \<in> set (cf_engine_ids cf) \<Longrightarrow>
    agent_step cf now (Arrival (ag_agent_id ag)) ag
      (admitted_agent ((arriving ag)\<lparr>ag_prompt_tokens := ev_prompt_tokens (ag_events ag ! ag_next_event ag)\<rparr>))
      [(ev_tool_start_rel_s (ag_events ag ! ag_next_event ag), 1, ToolStart (ag_agent_id ag))]"
| tool_start: "ag_current_event ag = Some ev \<Longrightarrow> e = ag_owner_engine ag \<or> e \<in> set (cf_engine_ids cf) \<Longrightarrow>
    agent_step cf now (ToolStart (ag_agent_id ag)) ag (ag\<lparr>ag_phase := PTool, ag_owner_engine := e\<rparr>)
      [(ev_tool_end_rel_s ev, 2, ToolEnd (ag_agent_id ag))]"
| tool_end: "agent_step cf now (ToolEnd (ag_agent_id ag)) ag (ag\<lparr>ag_phase := PWarm\<rparr>)
    ((now + cf_retention_seconds cf, 2, Expire (ag_agent_id ag)) #
     (if ag_next_event ag < length (ag_events ag)
      then [(ev_arrival_rel_s (ag_events ag ! ag_next_event ag), 3, Arrival (ag_agent_id ag))] else []))"
| expire: "ag_phase ag = PWarm \<Longrightarrow>
    agent_step cf now (Expire (ag_agent_id ag)) ag (ag\<lparr>ag_phase := PExpired\<rparr>) []"
| outlived: "ag_phase ag \<noteq> PWarm \<Longrightarrow> agent_step cf now (Expire (ag_agent_id ag)) ag ag []"

lemma allocate_owner: "allocate cf ag ev s = Inr r \<Longrightarrow> ag_owner_engine ag \<in> set (cf_engine_ids cf)"
  by (auto simp: allocate_def Let_def split: if_splits)

lemma replace_agent_same: "agent_of ags (ag_agent_id ag) = Some ag \<Longrightarrow> replace_agent ag ags = ags"
  by (induction ags) (auto simp: agent_of_def split: if_splits)

text \<open>Every entry of the loop is a step of one agent, or changes no agent.\<close>

lemma handler_agents:
  assumes h: "handle_item cf it s = Inr (s', new)" and ok: "config_ok cf"
  obtains (fleet) "snd (snd it) = Scale \<or> snd (snd it) = Sample" "sm_agents s' = sm_agents s" "new = []"
    | (agent) ag ag' where "agent_of (sm_agents s) (ag_agent_id ag) = Some ag" "ag_agent_id ag' = ag_agent_id ag"
        "agent_step cf (fst it) (snd (snd it)) ag ag' new" "sm_agents s' = replace_agent ag' (sm_agents s)"
  using h
proof (cases rule: handle_itemE)
  case (arrival a ag)
  from arrival(4) show thesis
  proof (cases rule: handle_arrivalE)
    case blocked
    with arrival show thesis
      by (intro agent [of ag "(arriving ag)\<lparr>ag_blocked := True\<rparr>"]) (auto simp: agents_simps intro: agent_step.block)
  next
    case (admitted ag1 s1)
    have own: "ag_owner_engine (arriving ag) \<in> set (cf_engine_ids cf)" by (rule allocate_owner [OF admitted(2)])
    with admitted arrival agent_step.admit [of ag cf "fst it"] show thesis
      by (intro agent [of ag "admitted_agent ag1"]) (auto simp: agents_simps admitted_agent_def)
  qed
next
  case (tool_start a ag)
  from tool_start(4) obtain ev s1 where ev: "ag_current_event ag = Some ev"
    and d: "decide cf (ag\<lparr>ag_phase := PTool\<rparr>) ev
       (put_agent (ag\<lparr>ag_phase := PTool\<rparr>) (enter_warm (ag_owner_engine ag) (ag_agent_id ag) s)) = Inr s1"
    and s': "s' = sample_loads cf (fst it) s1" and new: "new = [(ev_tool_end_rel_s ev, 2, ToolEnd (ag_agent_id ag))]"
    by (rule handle_tool_startE)
  let ?ag = "ag\<lparr>ag_phase := PTool\<rparr>"
  have "planner_ok (gp_planner (cf_policy cf))" using ok by (simp add: config_ok_def)
  from decide_moves [OF d this] consider "sm_agents s1 = replace_agent ?ag (sm_agents s)"
    | e where "e \<in> set (cf_engine_ids cf)" "sm_agents s1 = replace_agent (?ag\<lparr>ag_owner_engine := e\<rparr>) (sm_agents s)"
    by (auto simp: stayed_def moved_to_def fleet_def agents_simps)
  then show thesis
  proof cases
    case 1
    with tool_start ev s' new agent_step.tool_start [OF ev, of "ag_owner_engine ag" cf "fst it"] show thesis
      by (intro agent [of ag ?ag]) (simp_all add: agents_simps)
  next
    case 2
    with tool_start ev s' new agent_step.tool_start [OF ev, of e cf "fst it"] show thesis
      by (intro agent [of ag "?ag\<lparr>ag_owner_engine := e\<rparr>"]) (simp_all add: agents_simps)
  qed
next
  case (tool_end a ag)
  with agent_step.tool_end [of cf "fst it" ag] show thesis
    by (intro agent [of ag "ag\<lparr>ag_phase := PWarm\<rparr>"]) (auto simp: handle_tool_end_def agents_simps)
next
  case (expire a ag)
  show thesis
  proof (cases "ag_phase ag = PWarm")
    case True
    with expire agent_step.expire [OF True, of cf "fst it"] show thesis
      by (intro agent [of ag "ag\<lparr>ag_phase := PExpired\<rparr>"]) (auto simp: handle_expire_def Let_def agents_simps)
  next
    case False
    with expire agent_step.outlived [OF False, of cf "fst it"] replace_agent_same [of "sm_agents s" ag] show thesis
      by (intro agent [of ag ag]) (auto simp: handle_expire_def)
  qed
qed (use fleet in \<open>simp_all add: agents_simps\<close>)

text \<open>
  The entries that drive an agent's turn, as opposed to its expiries, and what they say of
  it: an agent has at most one, and without one it has finished its turns or is blocked.
\<close>

fun kind_agent :: "sim_kind \<Rightarrow> agent_id option" where
  "kind_agent (Arrival a) = Some a"
| "kind_agent (ToolStart a) = Some a"
| "kind_agent (ToolEnd a) = Some a"
| "kind_agent (Expire a) = Some a"
| "kind_agent _ = None"

definition drives :: "agent_id \<Rightarrow> sim_item \<Rightarrow> bool" where
  "drives a it \<longleftrightarrow> snd (snd it) \<in> {Arrival a, ToolStart a, ToolEnd a}"

definition drivers :: "agent_id \<Rightarrow> sim_item list \<Rightarrow> sim_kind list" where
  "drivers a q = map (snd \<circ> snd) (filter (drives a) q)"

definition scheduled :: "sim_kind \<Rightarrow> sim_item list \<Rightarrow> bool" where
  "scheduled k q \<longleftrightarrow> (\<exists>it \<in> set q. snd (snd it) = k)"

lemma scheduled_simps [simp]:
  "\<not> scheduled k []" "scheduled k (it # q) \<longleftrightarrow> snd (snd it) = k \<or> scheduled k q"
  "scheduled k (q @ q') \<longleftrightarrow> scheduled k q \<or> scheduled k q'"
  by (auto simp: scheduled_def)

lemma scheduled_after: "snd (snd it) \<noteq> k \<Longrightarrow> scheduled k (remove1 it q) \<longleftrightarrow> scheduled k q"
  by (induction q) auto

definition at_rest :: "agent_runtime \<Rightarrow> bool" where
  "at_rest ag \<longleftrightarrow> ag_phase ag \<in> {PNew, PWarm, PExpired}"

fun turn_ok :: "sim_kind list \<Rightarrow> agent_runtime \<Rightarrow> bool" where
  "turn_ok [] ag \<longleftrightarrow> at_rest ag \<and> (ag_next_event ag = length (ag_events ag) \<or> ag_blocked ag)"
| "turn_ok [Arrival _] ag \<longleftrightarrow> at_rest ag \<and> ag_next_event ag < length (ag_events ag) \<and> \<not> ag_blocked ag"
| "turn_ok [ToolStart _] ag \<longleftrightarrow> ag_phase ag = PActive \<and> \<not> ag_blocked ag"
| "turn_ok [ToolEnd _] ag \<longleftrightarrow> ag_phase ag = PTool \<and> \<not> ag_blocked ag"
| "turn_ok _ ag \<longleftrightarrow> False"

definition served_event :: "agent_runtime \<Rightarrow> sim_event" where
  "served_event ag = ag_events ag ! (ag_next_event ag - 1)"

definition agent_ok :: "sim_config \<Rightarrow> sim_item list \<Rightarrow> agent_runtime \<Rightarrow> bool" where
  "agent_ok cf q ag \<longleftrightarrow>
     ag_next_event ag \<le> length (ag_events ag) \<and> (ag_blocked ag \<longrightarrow> ag_next_event ag < length (ag_events ag)) \<and>
     (ag_phase ag = PNew \<longleftrightarrow> ag_next_event ag = 0) \<and>
     (ag_phase ag \<noteq> PNew \<longrightarrow> ag_owner_engine ag \<in> set (cf_engine_ids cf) \<and>
        ag_current_event ag = Some (served_event ag) \<and> ag_prompt_tokens ag = ev_prompt_tokens (served_event ag)) \<and>
     (ag_phase ag = PWarm \<longrightarrow> scheduled (Expire (ag_agent_id ag)) q) \<and>
     turn_ok (drivers (ag_agent_id ag) q) ag"

definition sim_wf :: "sim_config \<Rightarrow> sim_item list \<Rightarrow> sim \<Rightarrow> bool" where
  "sim_wf cf q s \<longleftrightarrow> config_ok cf \<and> distinct (map ag_agent_id (sm_agents s)) \<and>
     (\<forall>ag \<in> set (sm_agents s). agent_ok cf q ag) \<and>
     (\<forall>it \<in> set q. \<forall>a. kind_agent (snd (snd it)) = Some a \<longrightarrow> agent_of (sm_agents s) a \<noteq> None)"

lemma drivers_after:
  "drivers a (q @ new) = drivers a q @ drivers a new"
  "\<not> drives a it \<Longrightarrow> drivers a (remove1 it q) = drivers a q"
  "filter (drives a) q = [it] \<Longrightarrow> drivers a (remove1 it q) = []"
  by (simp_all add: drivers_def filter_remove1 remove1_idem)

lemma turn_ok_expired: "turn_ok ks ag \<Longrightarrow> ag_phase ag = PWarm \<Longrightarrow> turn_ok ks (ag\<lparr>ag_phase := PExpired\<rparr>)"
  by (cases "(ks, ag)" rule: turn_ok.cases) (auto simp: at_rest_def)

text \<open>An entry that drives an agent is its only one.\<close>

lemma turn_ok_one: "turn_ok ks ag \<Longrightarrow> ks = [] \<or> (\<exists>k. ks = [k])"
  by (cases "(ks, ag)" rule: turn_ok.cases) auto

lemma driver_alone:
  assumes "turn_ok (drivers a q) ag" and "it \<in> set q" and "drives a it"
  shows "filter (drives a) q = [it]" and "drivers a q = [snd (snd it)]"
proof -
  have "it \<in> set (filter (drives a) q)" using assms by simp
  moreover from turn_ok_one [OF assms(1)] have "length (filter (drives a) q) \<le> 1" by (auto simp: drivers_def)
  ultimately show "filter (drives a) q = [it]" by (cases "filter (drives a) q") auto
  then show "drivers a q = [snd (snd it)]" by (simp add: drivers_def)
qed

text \<open>The step of an agent hands its turn on.\<close>

lemma agent_step_id: "agent_step cf now k ag ag' new \<Longrightarrow>
    kind_agent k = Some (ag_agent_id ag) \<and> (\<forall>it \<in> set new. kind_agent (snd (snd it)) = Some (ag_agent_id ag))"
  by (auto elim!: agent_step.cases)

lemma drivers_simps [simp]:
  "drivers a [] = []"
  "drivers a ((t, p, k) # q) = (if k \<in> {Arrival a, ToolStart a, ToolEnd a} then k # drivers a q else drivers a q)"
  by (simp_all add: drivers_def drives_def)

lemma agent_step_ok:
  assumes st: "agent_step cf (fst it) (snd (snd it)) ag ag' new" and "agent_ok cf q ag" and it: "it \<in> set q"
  shows "agent_ok cf (remove1 it q @ new) ag'"
proof -
  let ?a = "ag_agent_id ag"
  have t: "turn_ok (drivers ?a q) ag" using assms(2) by (simp add: agent_ok_def)
  have alone: "filter (drives ?a) q = [it] \<and> drivers ?a q = [snd (snd it)]" if "drives ?a it"
    using driver_alone [OF t it that] by simp
  have gone: "drivers ?a (remove1 it q @ new) = drivers ?a new" if "drives ?a it"
    using alone [OF that] that by (simp add: drivers_after)
  have home: "ag_phase ag \<noteq> PNew \<Longrightarrow> arriving ag = ag" by (simp add: arriving_def)
  from st show ?thesis
  proof cases
    case block
    then have "drives ?a it" by (simp add: drives_def)
    with assms(2) alone gone home block show ?thesis
      by (cases "ag_phase ag = PNew") (auto simp: agent_ok_def at_rest_def served_event_def scheduled_after)
  next
    case admit
    with assms(2) alone gone show ?thesis
      by (auto simp: agent_ok_def drives_def at_rest_def admitted_agent_def served_event_def scheduled_after)
  next
    case (tool_start ev e)
    with assms(2) alone gone show ?thesis
      by (auto simp: agent_ok_def drives_def at_rest_def served_event_def scheduled_after)
  next
    case tool_end
    with assms(2) alone gone show ?thesis
      by (auto simp: agent_ok_def drives_def at_rest_def served_event_def scheduled_after)
  next
    case expire
    then have "\<not> drives ?a it" by (simp add: drives_def)
    with assms(2) expire show ?thesis
      by (auto simp: agent_ok_def served_event_def drivers_after scheduled_after intro: turn_ok_expired)
  next
    case outlived
    then have "\<not> drives ?a it" by (simp add: drives_def)
    with assms(2) outlived show ?thesis by (auto simp: agent_ok_def drivers_after scheduled_after)
  qed
qed

text \<open>It leaves the other agents' turns alone.\<close>

lemma agent_ok_other:
  assumes "agent_ok cf q ag" and "\<forall>it' \<in> insert it (set new). kind_agent (snd (snd it')) \<noteq> Some (ag_agent_id ag)"
  shows "agent_ok cf (remove1 it q @ new) ag"
proof -
  have "\<not> drives (ag_agent_id ag) it" "filter (drives (ag_agent_id ag)) new = []"
    using assms(2) by (auto simp: drives_def filter_empty_conv)
  then have d: "drivers (ag_agent_id ag) (remove1 it q @ new) = drivers (ag_agent_id ag) q"
    by (simp add: drivers_after) (simp add: drivers_def)
  moreover have "snd (snd it) \<noteq> Expire (ag_agent_id ag)" using assms(2) by auto
  ultimately show ?thesis using assms(1) by (simp add: agent_ok_def scheduled_after)
qed

lemma replace_agent_ids [simp]: "map ag_agent_id (replace_agent ag ags) = map ag_agent_id ags"
  by (induction ags) auto

lemma set_replace_agent:
  "distinct (map ag_agent_id ags) \<Longrightarrow>
     set (replace_agent ag ags) \<subseteq> insert ag {x \<in> set ags. ag_agent_id x \<noteq> ag_agent_id ag}"
  by (induction ags) (auto simp: image_iff)

lemma agent_of_distinct:
  "distinct (map ag_agent_id ags) \<Longrightarrow> ag \<in> set ags \<Longrightarrow> agent_of ags (ag_agent_id ag) = Some ag"
  unfolding agent_of_def by (rule find_distinct_eq)

lemma sim_wf_kept:
  assumes wf: "sim_wf cf q s" and it: "it \<in> set q" and h: "handle_item cf it s = Inr (s', new)"
  shows "sim_wf cf (remove1 it q @ new) s'"
proof -
  have ok: "config_ok cf" using wf by (simp add: sim_wf_def)
  from h ok show ?thesis
  proof (cases rule: handler_agents)
    case fleet
    then have "kind_agent (snd (snd it)) = None" by auto
    with wf fleet agent_ok_other [of cf q _ it "[]"] show ?thesis by (auto simp: sim_wf_def dest: notin_set_remove1)
  next
    case (agent ag ag')
    note step_id = agent_step_id [OF agent(3)]
    have ag: "ag \<in> set (sm_agents s)" using agent_of_id [OF agent(1)] by simp
    have "agent_ok cf (remove1 it q @ new) ag'"
      using agent(3) wf ag it by (intro agent_step_ok) (auto simp: sim_wf_def)
    moreover have "agent_ok cf (remove1 it q @ new) x" if "x \<in> set (sm_agents s)" "ag_agent_id x \<noteq> ag_agent_id ag" for x
      using wf that step_id by (intro agent_ok_other) (auto simp: sim_wf_def)
    ultimately have "\<forall>x \<in> set (sm_agents s'). agent_ok cf (remove1 it q @ new) x"
      using set_replace_agent [of "sm_agents s" ag'] wf agent(2,4) by (auto simp: sim_wf_def)
    moreover have "agent_of (sm_agents s') a \<noteq> None"
      if "x \<in> set (remove1 it q @ new)" "kind_agent (snd (snd x)) = Some a" for x a
    proof -
      have "a = ag_agent_id ag \<or> x \<in> set q" using that step_id by (auto dest: notin_set_remove1)
      then have "agent_of (sm_agents s) a \<noteq> None" using wf that(2) agent(1) by (auto simp: sim_wf_def)
      then show ?thesis using agent(4) by auto
    qed
    ultimately show ?thesis using wf agent(4) by (auto simp: sim_wf_def)
  qed
qed

interpretation turns: sim_invariant cf "sim_wf cf" for cf
  by unfold_locales (rule sim_wf_kept)

section \<open>The initial state\<close>

text \<open>Grouping keeps every row once, under its agent, in a dictionary of distinct keys.\<close>

lemma append_row_keys: "distinct (map fst m) \<Longrightarrow> distinct (map fst (fold append_row events m))"
  by (induction events arbitrary: m) (auto simp: append_row_def distinct_update)

lemma map_of_append_rows:
  "map_of (fold append_row events m) a =
     (if filter (\<lambda>e. ev_agent_id e = a) events = [] then map_of m a
      else Some ((case map_of m a of None \<Rightarrow> [] | Some rows \<Rightarrow> rows) @ filter (\<lambda>e. ev_agent_id e = a) events))"
proof (induction events arbitrary: m)
  case (Cons e events)
  have "map_of (append_row e m) a = (if a = ev_agent_id e
      then Some ((case map_of m a of None \<Rightarrow> [] | Some rows \<Rightarrow> rows) @ [e]) else map_of m a)"
    by (simp add: append_row_def update_conv')
  with Cons show ?case by simp
qed simp

lemma sort_key_Nil [simp]: "sort_key f xs = [] \<longleftrightarrow> xs = []"
  by (metis set_empty set_sort)

lemma group_by_agent_rows:
  assumes "(a, rows) \<in> set (group_by_agent events)"
  shows "rows = sort_key ev_turn_index (filter (\<lambda>e. ev_agent_id e = a) events)" and "rows \<noteq> []"
proof -
  obtain rows' where r: "(a, rows') \<in> set (fold append_row events [])" "rows = sort_key ev_turn_index rows'"
    using assms by (auto simp: group_by_agent_def)
  have "map_of (fold append_row events []) a = Some rows'"
    using r(1) append_row_keys [of "[]" events] by simp
  then have "rows' = filter (\<lambda>e. ev_agent_id e = a) events" "rows' \<noteq> []"
    by (simp_all add: map_of_append_rows split: if_splits)
  with r(2) show "rows = sort_key ev_turn_index (filter (\<lambda>e. ev_agent_id e = a) events)" "rows \<noteq> []"
    by simp_all
qed

lemma sum_lengths_update:
  "distinct (map fst m) \<Longrightarrow> sum_list (map (\<lambda>p. length (snd p)) (AList.update k rows m)) +
     (case map_of m k of None \<Rightarrow> 0 | Some old \<Rightarrow> length old) = sum_list (map (\<lambda>p. length (snd p)) m) + length rows"
  by (induction m) (auto split: option.splits)

lemma sum_lengths_rows:
  "distinct (map fst m) \<Longrightarrow> sum_list (map (\<lambda>p. length (snd p)) (fold append_row events m)) =
     sum_list (map (\<lambda>p. length (snd p)) m) + length events"
proof (induction events arbitrary: m)
  case (Cons e events)
  have "sum_list (map (\<lambda>p. length (snd p)) (append_row e m)) = Suc (sum_list (map (\<lambda>p. length (snd p)) m))"
    using sum_lengths_update [OF Cons.prems, of "ev_agent_id e"
        "(case map_of m (ev_agent_id e) of None \<Rightarrow> [] | Some rows \<Rightarrow> rows) @ [e]"]
    by (simp add: append_row_def split: option.splits)
  moreover have "distinct (map fst (append_row e m))" using append_row_keys [OF Cons.prems, of "[e]"] by simp
  ultimately show ?case using Cons.IH by simp
qed simp

lemma new_simulation_config:
  assumes "new_simulation events n tokens snaps scale deadline policy bw fixed keep = Inr (cf, s)"
  shows "config_ok cf" and "sm_agents s = map (\<lambda>(a, rows). new_agent_runtime a rows) (group_by_agent (cf_events cf))"
    and "cf_events cf = sort_key ev_arrival_rel_s events" and "cf_policy_name cf = policy"
    and "cf_engine_ids cf = map engine_name [0..<nat n]" and "cf_token_slots cf = tokens" and "cf_snapshot_slots cf = snaps"
    and "sm_active s = (\<lambda>_. {})" and "sm_warm s = (\<lambda>_. {})" and "sm_used_tokens s = (\<lambda>_. 0)"
    and "sm_used_snapshots s = (\<lambda>_. 0)" and "ledger s = (0, 0, 0, 0, 0)" and "sm_migration_events s = []"
    and "sm_retiring s = {}"
  using assms
  by (auto simp: new_simulation_def Let_def config_ok_def new_branch_state_planner_def planner_ok_def
      new_global_mobility_policy_def ledger_def counter_total_def count_of_def split: sum.splits if_splits)

lemma new_simulation_agents:
  assumes "new_simulation events n tokens snaps scale deadline policy bw fixed keep = Inr (cf, s)"
  shows "distinct (map ag_agent_id (sm_agents s))"
    and "ag \<in> set (sm_agents s) \<Longrightarrow> ag = new_agent_runtime (ag_agent_id ag) (ag_events ag) \<and> ag_events ag \<noteq> [] \<and>
      ag_events ag = sort_key ev_turn_index (filter (\<lambda>e. ev_agent_id e = ag_agent_id ag) (cf_events cf))"
    and "sum_list (map (\<lambda>ag. length (ag_events ag)) (sm_agents s)) = length events"
proof -
  note c = new_simulation_config [OF assms]
  have ids: "map ag_agent_id (sm_agents s) = map fst (fold append_row (cf_events cf) [])"
    by (simp add: c(2) group_by_agent_def new_agent_runtime_def case_prod_beta comp_def)
  show "distinct (map ag_agent_id (sm_agents s))" unfolding ids by (rule append_row_keys) simp
  show "ag = new_agent_runtime (ag_agent_id ag) (ag_events ag) \<and> ag_events ag \<noteq> [] \<and>
      ag_events ag = sort_key ev_turn_index (filter (\<lambda>e. ev_agent_id e = ag_agent_id ag) (cf_events cf))"
    if "ag \<in> set (sm_agents s)"
  proof -
    from that obtain a rows where r: "(a, rows) \<in> set (group_by_agent (cf_events cf))" "ag = new_agent_runtime a rows"
      by (auto simp: c(2))
    then show ?thesis using group_by_agent_rows [OF r(1)] by (simp add: new_agent_runtime_def)
  qed
  have "sum_list (map (\<lambda>ag. length (ag_events ag)) (sm_agents s)) =
      sum_list (map (\<lambda>p. length (snd p)) (fold append_row (cf_events cf) []))"
    by (simp add: c(2) group_by_agent_def new_agent_runtime_def case_prod_beta comp_def)
  also have "\<dots> = length events" by (simp add: sum_lengths_rows c(3))
  finally show "sum_list (map (\<lambda>ag. length (ag_events ag)) (sm_agents s)) = length events" .
qed

text \<open>The timeline starts with one arrival per agent.\<close>

definition first_arrival :: "agent_runtime \<Rightarrow> sim_item option" where
  "first_arrival ag = (case ag_events ag of [] \<Rightarrow> None
     | first # _ \<Rightarrow> Some (ev_arrival_rel_s first, 3, Arrival (ag_agent_id ag)))"

lemma initial_timeline_alt:
  "initial_timeline cf s = List.map_filter first_arrival (sm_agents s) @
     [(cf_scale_in_time cf, 1, Scale), (cf_retirement_deadline cf, 3, Sample)]"
  by (simp add: initial_timeline_def first_arrival_def [abs_def])

lemma drivers_first:
  "distinct (map ag_agent_id ags) \<Longrightarrow> drivers a (List.map_filter first_arrival ags) =
     (case agent_of ags a of None \<Rightarrow> [] | Some ag \<Rightarrow> if ag_events ag = [] then [] else [Arrival a])"
proof (induction ags)
  case (Cons ag ags)
  have "agent_of ags (ag_agent_id ag) = None" using Cons.prems by (auto simp: agent_of_def find_None_iff image_iff)
  with Cons show ?case
    by (auto simp: map_filter_simps first_arrival_def agent_of_def split: list.splits)
qed (simp add: map_filter_simps agent_of_def)

lemma initial_items:
  assumes "it \<in> set (List.map_filter first_arrival ags)"
  shows "\<exists>ag \<in> set ags. snd (snd it) = Arrival (ag_agent_id ag)"
proof -
  from assms obtain ag where "ag \<in> set ags" "first_arrival ag = Some it" by (auto simp: mem_map_filter)
  then show ?thesis by (cases "ag_events ag") (auto simp: first_arrival_def)
qed

lemma new_simulation_wf:
  assumes "new_simulation events n tokens snaps scale deadline policy bw fixed keep = Inr (cf, s)"
  shows "sim_wf cf (initial_timeline cf s) s"
proof -
  note ags = new_simulation_agents [OF assms]
  have "agent_ok cf (initial_timeline cf s) ag" if ag: "ag \<in> set (sm_agents s)" for ag
  proof -
    let ?a = "ag_agent_id ag"
    have "drivers ?a (initial_timeline cf s) = [Arrival ?a]"
      using drivers_first [OF ags(1), of ?a] agent_of_distinct [OF ags(1) ag] conjunct1 [OF conjunct2 [OF ags(2) [OF ag]]]
      by (simp add: initial_timeline_alt drivers_after)
    moreover from ags(2) [OF ag] have "ag_phase ag = PNew" "ag_next_event ag = 0" "\<not> ag_blocked ag"
      by (metis agent_runtime.select_convs new_agent_runtime_def)+
    ultimately show ?thesis using conjunct1 [OF conjunct2 [OF ags(2) [OF ag]]] by (simp add: agent_ok_def at_rest_def)
  qed
  moreover have "agent_of (sm_agents s) a \<noteq> None"
    if it: "it \<in> set (initial_timeline cf s)" and a: "kind_agent (snd (snd it)) = Some a" for it a
  proof -
    have "it \<in> set (List.map_filter first_arrival (sm_agents s))" using it a by (auto simp: initial_timeline_alt)
    from initial_items [OF this] obtain ag where "ag \<in> set (sm_agents s)" "snd (snd it) = Arrival (ag_agent_id ag)" by blast
    with a agent_of_distinct [OF ags(1)] show ?thesis by auto
  qed
  ultimately show ?thesis using new_simulation_config(1) [OF assms] ags(1) by (auto simp: sim_wf_def)
qed

section \<open>A replay ends, and returns\<close>

lemma sim_step_potential:
  assumes "sim_step cf (q, s) (q', s')"
  shows "potential q' s' < potential q s"
proof -
  from assms obtain it new where it: "it \<in> set q" and h: "handle_item cf it s = Inr (s', new)" and q': "q' = remove1 it q @ new"
    by (rule sim_stepD)
  from timeline_weight_remove1 [OF it] handler_weight [OF h] q' show ?thesis by (simp add: potential_def)
qed

lemma sim_steps_potential: "(sim_step cf ^^ n) (q, s) (q', s') \<Longrightarrow> n + potential q' s' \<le> potential q s"
proof (induction n arbitrary: q' s')
  case (Suc n)
  then obtain q1 s1 where "(sim_step cf ^^ n) (q, s) (q1, s1)" "sim_step cf (q1, s1) (q', s')" by auto
  with Suc.IH sim_step_potential show ?case by fastforce
qed simp

lemma initial_potential:
  assumes "new_simulation events n tokens snaps scale deadline policy bw fixed keep = Inr (cf, s)"
  shows "potential (initial_timeline cf s) s \<le> 6 * length events + 2"
proof -
  note ags = new_simulation_agents [OF assms]
  have "timeline_weight (List.map_filter first_arrival xs) \<le> sum_list (map (\<lambda>ag. length (ag_events ag)) xs)" for xs
    by (induction xs) (auto simp: map_filter_simps first_arrival_def split: list.splits)
  from this [of "sm_agents s"] have "timeline_weight (initial_timeline cf s) \<le> length events + 2"
    by (simp add: initial_timeline_alt ags(3))
  moreover have "turns_left (sm_agents s) = sum_list (map (\<lambda>ag. length (ag_events ag)) (sm_agents s))"
    unfolding turns_left_def
  proof (rule arg_cong [where f = sum_list], rule map_cong [OF refl])
    fix ag assume "ag \<in> set (sm_agents s)"
    from ags(2) [OF this] have "ag_next_event ag = 0" by (metis agent_runtime.select_convs(3) new_agent_runtime_def)
    then show "length (ag_events ag) - ag_next_event ag = length (ag_events ag)" by simp
  qed
  ultimately show ?thesis by (simp add: potential_def ags(3))
qed

text \<open>
  C22. A replay ends: whatever the trace, the policy and the capacities, its loop makes at
  most six steps per event of the trace and two more, on any path it can take.
\<close>

theorem replay_ends:
  assumes "new_simulation events n tokens snaps scale deadline policy bw fixed keep = Inr (cf, s)"
    and "(sim_step cf ^^ k) (initial_timeline cf s, s) c"
  shows "k \<le> 6 * length events + 2"
proof -
  obtain q' s' where "c = (q', s')" by (cases c)
  with sim_steps_potential [of k cf "initial_timeline cf s" s q' s'] initial_potential [OF assms(1)] assms(2)
  show ?thesis by simp
qed

text \<open>The agents and their rows are the trace's, all along.\<close>

definition itinerary :: "sim \<Rightarrow> (agent_id \<times> sim_event list) list" where
  "itinerary s = map (\<lambda>ag. (ag_agent_id ag, ag_events ag)) (sm_agents s)"

lemma agent_step_rows: "agent_step cf now k ag ag' new \<Longrightarrow> ag_events ag' = ag_events ag"
  by (auto elim!: agent_step.cases simp: admitted_agent_def)

lemma itinerary_replace:
  "agent_of ags (ag_agent_id ag') = Some ag \<Longrightarrow> ag_events ag' = ag_events ag \<Longrightarrow>
     map (\<lambda>ag. (ag_agent_id ag, ag_events ag)) (replace_agent ag' ags) = map (\<lambda>ag. (ag_agent_id ag, ag_events ag)) ags"
  by (induction ags) (auto simp: agent_of_def)

lemma itinerary_kept:
  assumes wf: "sim_wf cf q s" and h: "handle_item cf it s = Inr (s', new)"
  shows "itinerary s' = itinerary s"
proof -
  have "config_ok cf" using wf by (simp add: sim_wf_def)
  with h show ?thesis
  proof (cases rule: handler_agents)
    case fleet
    then show ?thesis by (simp add: itinerary_def)
  next
    case (agent ag ag')
    then show ?thesis using itinerary_replace [of "sm_agents s" ag' ag] agent_step_rows [OF agent(3)]
      by (simp add: itinerary_def)
  qed
qed

definition event_ok :: "sim_config \<Rightarrow> sim_event \<Rightarrow> bool" where
  "event_ok cf ev \<longleftrightarrow> ev_source_engine ev \<in> set (cf_engine_ids cf) \<and> 0 \<le> ev_prompt_tokens ev"

definition itinerary_ok :: "sim_config \<Rightarrow> (agent_id \<times> sim_event list) list \<Rightarrow> bool" where
  "itinerary_ok cf i \<longleftrightarrow> (\<forall>(a, rows) \<in> set i. \<forall>ev \<in> set rows. event_ok cf ev)"

lemma new_simulation_itinerary:
  assumes "new_simulation events n tokens snaps scale deadline policy bw fixed keep = Inr (cf, s)"
    and "\<forall>ev \<in> set events. event_ok cf ev"
  shows "itinerary_ok cf (itinerary s)"
proof -
  have "event_ok cf ev" if "ag \<in> set (sm_agents s)" "ev \<in> set (ag_events ag)" for ag ev
  proof -
    have "ag_events ag = sort_key ev_turn_index (filter (\<lambda>e. ev_agent_id e = ag_agent_id ag) (cf_events cf))"
      using new_simulation_agents(2) [OF assms(1) that(1)] by simp
    then have "ev \<in> set (cf_events cf)" using that(2) by (metis filter_is_subset set_sort subsetD)
    then show ?thesis using assms(2) new_simulation_config(3) [OF assms(1)] by simp
  qed
  then show ?thesis by (auto simp: itinerary_ok_def itinerary_def)
qed

lemma itinerary_events: "itinerary_ok cf (itinerary s) \<Longrightarrow> ag \<in> set (sm_agents s) \<Longrightarrow> ev \<in> set (ag_events ag) \<Longrightarrow> event_ok cf ev"
  by (auto simp: itinerary_ok_def itinerary_def)

interpretation traces: sim_invariant cf "\<lambda>q s. sim_wf cf q s \<and> itinerary s = i" for cf i
  by unfold_locales (auto intro: sim_wf_kept simp: itinerary_kept)

lemma allocate_known: "ag_owner_engine ag \<in> set (cf_engine_ids cf) \<Longrightarrow> \<exists>r. allocate cf ag ev s = Inr r"
  by (auto simp: allocate_def Let_def)

text \<open>What the timeline says of the agent of an entry, under the invariant.\<close>

lemma turn_of_item:
  assumes "sim_wf cf q s" and "it \<in> set q" and "kind_agent (snd (snd it)) = Some a"
  obtains ag where "agent_of (sm_agents s) a = Some ag" "ag_agent_id ag = a" "ag \<in> set (sm_agents s)" "agent_ok cf q ag"
    "drives a it \<longrightarrow> turn_ok [snd (snd it)] ag"
proof -
  from assms obtain ag where ag: "agent_of (sm_agents s) a = Some ag" by (force simp: sim_wf_def)
  note id = agent_of_id [OF ag]
  have ok: "agent_ok cf q ag" using assms(1) id by (simp add: sim_wf_def)
  have "turn_ok [snd (snd it)] ag" if "drives a it"
    using ok id driver_alone(2) [of a q ag it] that assms(2) by (simp add: agent_ok_def)
  then show thesis using that [OF ag] id ok by blast
qed

lemma handler_returns:
  assumes wf: "sim_wf cf q s" and rows: "itinerary_ok cf (itinerary s)" and it: "it \<in> set q" and known: "cf_policy_name cf \<in> known_policies"
  shows "handle_item cf it s \<noteq> Inl e"
proof -
  show ?thesis
  proof (cases "kind_agent (snd (snd it))")
    case None
    then show ?thesis by (cases "snd (snd it)") (simp_all add: handle_item_def)
  next
    case (Some a)
    obtain ag where ag: "agent_of (sm_agents s) a = Some ag" "ag_agent_id ag = a" "ag \<in> set (sm_agents s)"
        "agent_ok cf q ag" and turn: "drives a it \<longrightarrow> turn_ok [snd (snd it)] ag"
      by (rule turn_of_item [OF wf it Some])
    show ?thesis
    proof (cases "snd (snd it)")
      case (Arrival b)
      then have b: "b = a" and t: "turn_ok [snd (snd it)] ag" using Some turn by (simp_all add: drives_def)
      let ?ev = "ag_events ag ! ag_next_event ag"
      have n: "ag_next_event ag < length (ag_events ag)" using t Arrival by simp
      then have "event_ok cf ?ev" using itinerary_events [OF rows ag(3)] by simp
      then have "ag_owner_engine (arriving ag) \<in> set (cf_engine_ids cf)"
        using ag(4) by (auto simp: arriving_def event_ok_def agent_ok_def)
      from allocate_known [OF this] obtain r where "allocate cf (arriving ag) ?ev (count_hit cf ag s) = Inr r" by blast
      then show ?thesis using Arrival b ag(1) n
        by (cases r) (auto simp: handle_item_def with_agent_def handle_arrival_def Let_def arriving_def count_hit_def)
    next
      case (ToolStart b)
      then have b: "b = a" and "turn_ok [snd (snd it)] ag" using Some turn by (simp_all add: drives_def)
      then have ph: "ag_phase ag = PActive" using ToolStart by simp
      let ?ev = "served_event ag"
      from ag(4) ph have cur: "ag_current_event ag = Some ?ev" "ag_owner_engine ag \<in> set (cf_engine_ids cf)"
        "0 < ag_next_event ag" "ag_next_event ag \<le> length (ag_events ag)" by (auto simp: agent_ok_def)
      then have "?ev \<in> set (ag_events ag)" by (simp add: served_event_def)
      then have "0 \<le> ev_prompt_tokens ?ev" using itinerary_events [OF rows ag(3)] by (simp add: event_ok_def)
      then have "decide cf (ag\<lparr>ag_phase := PTool\<rparr>) ?ev t \<noteq> Inl e" for t e
        using wf known cur(2) by (intro decide_returns) (simp_all add: sim_wf_def)
      then show ?thesis using ToolStart b ag(1) cur(1)
        by (auto simp: handle_item_def with_agent_def handle_tool_start_def Let_def split: sum.splits)
    qed (use Some ag in \<open>auto simp: handle_item_def with_agent_def\<close>)
  qed
qed

text \<open>How a replay leaves an agent.\<close>

definition turns_over :: "agent_runtime \<Rightarrow> bool" where
  "turns_over ag \<longleftrightarrow> ag_phase ag \<in> {PNew, PExpired} \<and>
     (if ag_blocked ag then ag_next_event ag < length (ag_events ag) else ag_next_event ag = length (ag_events ag))"

lemma wf_turns_over: "sim_wf cf [] s \<Longrightarrow> \<forall>ag \<in> set (sm_agents s). turns_over ag"
  by (auto simp: sim_wf_def agent_ok_def turns_over_def at_rest_def)

lemma replay_returns:
  assumes new: "new_simulation events n tokens snaps scale deadline policy bw fixed keep = Inr (cf, s)"
    and trace: "\<forall>ev \<in> set events. event_ok cf ev" and known: "policy \<in> known_policies"
  shows "\<exists>s'. replay cf (initial_timeline cf s) s = Inr s'"
proof -
  have start: "sim_wf cf (initial_timeline cf s) s \<and> itinerary s = itinerary s"
    using new_simulation_wf [OF new] by simp
  have rows: "itinerary_ok cf (itinerary s)" by (rule new_simulation_itinerary [OF new trace])
  have pol: "cf_policy_name cf \<in> known_policies" using known new_simulation_config(4) [OF new] by simp
  have "handle_item cf it t \<noteq> Inl e" if "sim_wf cf q t \<and> itinerary t = itinerary s" "it \<in> set q" for q t it e
    using that rows pol by (intro handler_returns) auto
  then show ?thesis by (rule traces.returns [OF _ start])
qed

text \<open>
  C23. On a trace whose events name engines of the fleet and nonnegative prompts, under one
  of the four policies, a replay returns, however small the capacities; and in any replay
  that returns every agent has either served all its events or is blocked before the next
  one, and holds no state.
\<close>

theorem replay_serves_or_blocks:
  assumes new: "new_simulation events n tokens snaps scale deadline policy bw fixed keep = Inr (cf, s)"
    and trace: "\<forall>ev \<in> set events. event_ok cf ev" and known: "policy \<in> known_policies"
  shows "\<exists>s'. replay cf (initial_timeline cf s) s = Inr s' \<and> itinerary s' = itinerary s \<and>
    (\<forall>ag \<in> set (sm_agents s'). turns_over ag)"
proof -
  obtain s' where r: "replay cf (initial_timeline cf s) s = Inr s'" using replay_returns [OF assms] by blast
  have "sim_wf cf [] s' \<and> itinerary s' = itinerary s"
    by (rule traces.at_end [OF r]) (use new_simulation_wf [OF new] in simp)
  with r wf_turns_over show ?thesis by blast
qed

section \<open>A small trace\<close>

definition demo_row :: "agent_id \<Rightarrow> int \<Rightarrow> int \<Rightarrow> seconds \<Rightarrow> sim_event" where
  "demo_row a turn tokens t = \<lparr>ev_event_id = a, ev_agent_id = a, ev_branch_id = a, ev_turn_index = turn,
     ev_source_engine = ''engine-00'', ev_prompt_tokens = tokens, ev_target_output_tokens = 10, ev_arrival_rel_s = t,
     ev_llm_e2e_template_s = 1, ev_tool_duration_s = 2, ev_tool_start_rel_s = t + 1, ev_tool_end_rel_s = t + 3\<rparr>"

definition demo_trace :: "sim_event list" where
  "demo_trace = [demo_row ''a'' 0 100 0, demo_row ''b'' 0 50 1, demo_row ''a'' 1 120 3]"

definition demo_simulation :: "string \<Rightarrow> seconds \<Rightarrow> exn + sim_config \<times> sim" where
  "demo_simulation policy keep = new_simulation demo_trace 2 1000 4 5 9 policy 4692251770 (1 / 50) keep"

lemma demo_simulation_new: "\<exists>cf s. demo_simulation policy keep = Inr (cf, s)"
  by (simp add: demo_simulation_def new_simulation_def new_branch_state_planner_def new_global_mobility_policy_def Let_def)

lemma demo_trace_ok:
  assumes "demo_simulation policy keep = Inr (cf, s)"
  shows "\<forall>ev \<in> set demo_trace. event_ok cf ev"
proof -
  have "cf_engine_ids cf = map engine_name [0..<2]"
    using new_simulation_config(5) [OF assms [unfolded demo_simulation_def]] by simp
  moreover have "engine_name 0 = ''engine-00''" by code_simp
  ultimately show ?thesis by (simp add: demo_trace_def demo_row_def event_ok_def upt_rec)
qed

theorem replay_ends_witness:
  "\<exists>cf s s'. demo_simulation ''heterogeneous'' 300 = Inr (cf, s) \<and> replay cf (initial_timeline cf s) s = Inr s' \<and>
     (\<forall>k. (sim_step cf ^^ k) (initial_timeline cf s, s) ([], s') \<longrightarrow> k \<le> 20)"
proof -
  obtain cf s where new: "demo_simulation ''heterogeneous'' 300 = Inr (cf, s)" using demo_simulation_new by blast
  note n = new [unfolded demo_simulation_def]
  from replay_returns [OF n demo_trace_ok [OF new]] obtain s' where r: "replay cf (initial_timeline cf s) s = Inr s'"
    by (auto simp: known_policies_def)
  have "k \<le> 20" if "(sim_step cf ^^ k) (initial_timeline cf s, s) ([], s')" for k
    using replay_ends [OF n that] by (simp add: demo_trace_def)
  with new r show ?thesis by blast
qed

theorem replay_serves_or_blocks_witness:
  "\<exists>cf s s'. demo_simulation ''heterogeneous'' 300 = Inr (cf, s) \<and> replay cf (initial_timeline cf s) s = Inr s' \<and>
     (\<forall>ag \<in> set (sm_agents s'). turns_over ag)"
proof -
  obtain cf s where new: "demo_simulation ''heterogeneous'' 300 = Inr (cf, s)" using demo_simulation_new by blast
  from replay_serves_or_blocks [OF new [unfolded demo_simulation_def] demo_trace_ok [OF new]] new show ?thesis
    by (auto simp: known_policies_def)
qed

end
