(* ===== verification/SimulationBooks.thy ===== *)
theory SimulationBooks
  imports SimulationProps
begin

text \<open>
  The books of the replay: what each entry does to the tokens, snapshots and sets of every
  engine, and from it that the sets name exactly the agents in each phase, that the counts
  are those of the agents held as long as no expired agent comes back, that the policies
  that check capacity stay within it, and that the log and the counters agree.
\<close>

section \<open>What an entry does to the fleet\<close>

definition token_charge :: "agent_runtime \<Rightarrow> int" where
  "token_charge ag = (let tokens = ev_prompt_tokens (ag_events ag ! ag_next_event ag)
     in if ag_phase ag = PNew then tokens else tokens - ag_prompt_tokens ag)"

definition snapshot_charge :: "agent_runtime \<Rightarrow> int" where
  "snapshot_charge ag = (if ag_phase ag = PNew then 1 else 0)"

definition add_at :: "engine_id \<Rightarrow> int \<Rightarrow> (engine_id \<Rightarrow> int) \<Rightarrow> engine_id \<Rightarrow> int" where
  "add_at e n f = f(e := f e + n)"

lemma add_at_apply: "add_at e n f x = f x + (if x = e then n else 0)"
  by (simp add: add_at_def)

lemma fleet_simp: "fleet s = (ags, r, ut, us, ac, wa) \<longleftrightarrow> sm_agents s = ags \<and> sm_retiring s = r \<and>
    sm_used_tokens s = ut \<and> sm_used_snapshots s = us \<and> sm_active s = ac \<and> sm_warm s = wa"
  by (auto simp: fleet_def)

text \<open>The books an entry of an agent leaves, for each step of the agent.\<close>

inductive fleet_step :: "sim_config \<Rightarrow> sim_kind \<Rightarrow> fleet_view \<Rightarrow> fleet_view \<Rightarrow> bool" for cf where
  fleet_scale: "fleet_step cf Scale (ags, r, ut, us, ac, wa) (ags, r', ut, us, ac, wa)"
| fleet_sample: "fleet_step cf Sample f f"
| fleet_block: "agent_of ags a = Some ag \<Longrightarrow> ag_agent_id ag = a \<Longrightarrow>
    fleet_step cf (Arrival a) (ags, r, ut, us, ac, wa) (replace_agent ((arriving ag)\<lparr>ag_blocked := True\<rparr>) ags, r, ut, us, ac, wa)"
| fleet_admit: "agent_of ags a = Some ag \<Longrightarrow> ag_agent_id ag = a \<Longrightarrow> ag_next_event ag < length (ag_events ag) \<Longrightarrow>
    own = ag_owner_engine (arriving ag) \<Longrightarrow>
    token_charge ag = 0 \<and> ag_phase ag \<noteq> PNew \<or> ut own + token_charge ag \<le> cf_token_slots cf \<Longrightarrow>
    snapshot_charge ag = 0 \<or> us own + snapshot_charge ag \<le> cf_snapshot_slots cf \<Longrightarrow>
    fleet_step cf (Arrival a) (ags, r, ut, us, ac, wa)
      (replace_agent (admitted_agent
         ((arriving ag)\<lparr>ag_prompt_tokens := ev_prompt_tokens (ag_events ag ! ag_next_event ag)\<rparr>)) ags,
       r, add_at own (token_charge ag) ut, add_at own (snapshot_charge ag) us,
       ac(own := insert a (ac own)), wa(own := wa own - {a}))"
| fleet_tool_start: "agent_of ags a = Some ag \<Longrightarrow> ag_agent_id ag = a \<Longrightarrow> own = ag_owner_engine ag \<Longrightarrow>
    fleet_step cf (ToolStart a) (ags, r, ut, us, ac, wa)
      (replace_agent (ag\<lparr>ag_phase := PTool\<rparr>) ags, r, ut, us, ac(own := ac own - {a}), wa(own := insert a (wa own)))"
| fleet_move: "agent_of ags a = Some ag \<Longrightarrow> ag_agent_id ag = a \<Longrightarrow> own = ag_owner_engine ag \<Longrightarrow>
    ag_current_event ag = Some ev \<Longrightarrow> e \<in> set (cf_engine_ids cf) \<Longrightarrow> e \<noteq> own \<Longrightarrow> e \<notin> r \<Longrightarrow>
    cf_policy_name cf \<noteq> ''stateless-reroute'' \<longrightarrow>
      ut e + ev_prompt_tokens ev \<le> cf_token_slots cf \<and> us e + 1 \<le> cf_snapshot_slots cf \<Longrightarrow>
    fleet_step cf (ToolStart a) (ags, r, ut, us, ac, wa)
      (replace_agent (ag\<lparr>ag_phase := PTool, ag_owner_engine := e\<rparr>) ags, r,
       add_at e (ag_prompt_tokens ag) (add_at own (- ag_prompt_tokens ag) ut), add_at e 1 (add_at own (- 1) us),
       ac(own := ac own - {a}), wa(own := wa own - {a}, e := insert a (wa e)))"
| fleet_tool_end: "agent_of ags a = Some ag \<Longrightarrow> ag_agent_id ag = a \<Longrightarrow>
    fleet_step cf (ToolEnd a) (ags, r, ut, us, ac, wa) (replace_agent (ag\<lparr>ag_phase := PWarm\<rparr>) ags, r, ut, us, ac, wa)"
| fleet_expire: "agent_of ags a = Some ag \<Longrightarrow> ag_agent_id ag = a \<Longrightarrow> ag_phase ag = PWarm \<Longrightarrow> own = ag_owner_engine ag \<Longrightarrow>
    fleet_step cf (Expire a) (ags, r, ut, us, ac, wa)
      (replace_agent (ag\<lparr>ag_phase := PExpired\<rparr>) ags, r, add_at own (- ag_prompt_tokens ag) ut, add_at own (- 1) us, ac,
       wa(own := wa own - {a}))"
| fleet_outlived: "fleet_step cf (Expire a) f f"

lemma count_hit_fields [simp]:
  "sm_used_tokens (count_hit cf ag s) = sm_used_tokens s" "sm_used_snapshots (count_hit cf ag s) = sm_used_snapshots s"
  "sm_agents (count_hit cf ag s) = sm_agents s" "sm_retiring (count_hit cf ag s) = sm_retiring s"
  "sm_active (count_hit cf ag s) = sm_active s" "sm_warm (count_hit cf ag s) = sm_warm s"
  by (simp_all add: count_hit_def)

lemma allocate_books:
  assumes "allocate cf (arriving ag) (ag_events ag ! ag_next_event ag) s = Inr (True, ag', s')"
  defines "own \<equiv> ag_owner_engine (arriving ag)"
  shows "fleet s' = (sm_agents s, sm_retiring s, add_at own (token_charge ag) (sm_used_tokens s),
      add_at own (snapshot_charge ag) (sm_used_snapshots s), sm_active s, sm_warm s)"
    and "token_charge ag = 0 \<and> ag_phase ag \<noteq> PNew \<or> sm_used_tokens s own + token_charge ag \<le> cf_token_slots cf"
    and "snapshot_charge ag = 0 \<or> sm_used_snapshots s own + snapshot_charge ag \<le> cf_snapshot_slots cf"
    and "ledger s' = ledger s" and "sm_migration_events s' = sm_migration_events s"
  using assms
  by (auto simp: allocate_def Let_def token_charge_def snapshot_charge_def fleet_def use_tokens_def use_snapshots_def
      add_at_def ledger_def split: if_splits)

lemma fleet_move_state:
  assumes "e \<noteq> ag_owner_engine ag" and "ag_agent_id ag \<in> sm_warm s (ag_owner_engine ag)"
  shows "fleet (move_state ag e s) = (replace_agent (ag\<lparr>ag_owner_engine := e\<rparr>) (sm_agents s), sm_retiring s,
     add_at e (ag_prompt_tokens ag) (add_at (ag_owner_engine ag) (- ag_prompt_tokens ag) (sm_used_tokens s)),
     add_at e 1 (add_at (ag_owner_engine ag) (- 1) (sm_used_snapshots s)), sm_active s,
     (sm_warm s)(ag_owner_engine ag := sm_warm s (ag_owner_engine ag) - {ag_agent_id ag},
                 e := insert (ag_agent_id ag) (sm_warm s e)))"
  using assms
  by (simp add: fleet_def move_state_def Let_def put_agent_def move_warm_def use_tokens_def use_snapshots_def add_at_def)

text \<open>Every entry is such a step, and appends at most one migration to the log, with its counts.\<close>

definition logged :: "sim_kind \<Rightarrow> sim \<Rightarrow> sim \<Rightarrow> bool" where
  "logged k s s' \<longleftrightarrow> (case ledger s of (m, dr, n, b, c) \<Rightarrow>
     (\<exists>c'. ledger s' = (m, dr, n, b, c') \<and> sm_migration_events s' = sm_migration_events s \<and>
        (c' = c \<or> c' = c + 1 \<and> (\<exists>a. k = Arrival a))) \<or>
     (\<exists>me. ledger s' = (m + 1, dr + (if me_drain me then 1 else 0), n + 1, b + me_bytes me, c) \<and>
        sm_migration_events s' = sm_migration_events s @ [me] \<and> me_source_engine me \<noteq> me_destination_engine me \<and>
        me_destination_engine me \<notin> sm_retiring s \<and> (me_drain me \<longleftrightarrow> me_source_engine me \<in> sm_retiring s) \<and>
        k = ToolStart (me_agent_id me)))"

lemma logged_same: "ledger s' = ledger s \<Longrightarrow> sm_migration_events s' = sm_migration_events s \<Longrightarrow> logged k s s'"
  by (cases "ledger s") (simp add: logged_def)

lemma handler_books:
  assumes h: "handle_item cf it s = Inr (s', new)" and ok: "config_ok cf"
  shows "fleet_step cf (snd (snd it)) (fleet s) (fleet s') \<and> logged (snd (snd it)) s s'"
  using h
proof (cases rule: handle_itemE)
  case scale
  then have "fleet s' = (sm_agents s, sm_retiring s', sm_used_tokens s, sm_used_snapshots s, sm_active s, sm_warm s)"
    by (simp add: fleet_def handle_scale_def sample_loads_def add_stat_def Let_def)
  moreover have "ledger s' = ledger s" "sm_migration_events s' = sm_migration_events s"
    using scale by (simp_all add: handle_scale_def Let_def fleet_simps) (simp_all add: ledger_def)
  ultimately show ?thesis using scale(1) fleet_scale logged_same by (simp add: fleet_def)
next
  case sample
  then show ?thesis using fleet_sample logged_same by (simp add: fleet_simps)
next
  case (arrival a ag)
  from arrival(4) show ?thesis
  proof (cases rule: handle_arrivalE)
    case blocked
    have "fleet s' = (replace_agent ((arriving ag)\<lparr>ag_blocked := True\<rparr>) (sm_agents s), sm_retiring s, sm_used_tokens s,
        sm_used_snapshots s, sm_active s, sm_warm s)"
      using blocked by (simp add: fleet_simps) (simp add: fleet_def put_agent_def count_hit_def)
    with fleet_block [OF arrival(2,3)] have "fleet_step cf (snd (snd it)) (fleet s) (fleet s')"
      by (simp add: arrival(1) fleet_def [of s])
    moreover have "logged (snd (snd it)) s s'"
      using blocked arrival(1) by (cases "ledger s") (simp add: logged_def fleet_simps)
    ultimately show ?thesis ..
  next
    case (admitted ag1 s1)
    note books = allocate_books [OF admitted(2)]
    have s1: "fleet s1 = (sm_agents s, sm_retiring s, add_at (ag_owner_engine (arriving ag)) (token_charge ag) (sm_used_tokens s),
      add_at (ag_owner_engine (arriving ag)) (snapshot_charge ag) (sm_used_snapshots s), sm_active s, sm_warm s)"
      using books(1) by simp
    have ag1: "ag_owner_engine ag1 = ag_owner_engine (arriving ag)" "ag_agent_id ag1 = a"
      using admitted(3) arrival(3) by simp_all
    have "fleet s' = (replace_agent (admitted_agent ag1) (sm_agents s), sm_retiring s,
        add_at (ag_owner_engine (arriving ag)) (token_charge ag) (sm_used_tokens s),
        add_at (ag_owner_engine (arriving ag)) (snapshot_charge ag) (sm_used_snapshots s),
        (sm_active s)(ag_owner_engine (arriving ag) := insert a (sm_active s (ag_owner_engine (arriving ag)))),
        (sm_warm s)(ag_owner_engine (arriving ag) := sm_warm s (ag_owner_engine (arriving ag)) - {a}))"
      using s1 ag1 arrival(3) unfolding admitted(5) by (simp add: fleet_def put_agent_def enter_active_def)
    moreover have "token_charge ag = 0 \<and> ag_phase ag \<noteq> PNew \<or>
          sm_used_tokens s (ag_owner_engine (arriving ag)) + token_charge ag \<le> cf_token_slots cf"
        "snapshot_charge ag = 0 \<or>
          sm_used_snapshots s (ag_owner_engine (arriving ag)) + snapshot_charge ag \<le> cf_snapshot_slots cf"
      using books(2,3) by simp_all
    ultimately have "fleet_step cf (snd (snd it)) (fleet s) (fleet s')"
      using fleet_admit [OF arrival(2,3) admitted(1) refl] by (simp add: arrival(1) fleet_def [of s] admitted(3))
    moreover have "logged (snd (snd it)) s s'"
      using books(4,5) admitted(5) by (intro logged_same) (simp_all add: fleet_simps)
    ultimately show ?thesis ..
  qed
next
  case (tool_start a ag)
  let ?ag = "ag\<lparr>ag_phase := PTool\<rparr>" and ?own = "ag_owner_engine ag"
  let ?s = "put_agent ?ag (enter_warm ?own (ag_agent_id ag) s)"
  from tool_start(4) obtain ev s1 where ev: "ag_current_event ag = Some ev"
    and d: "decide cf ?ag ev ?s = Inr s1" and s': "s' = sample_loads cf (fst it) s1"
    and new: "new = [(ev_tool_end_rel_s ev, 2, ToolEnd (ag_agent_id ag))]"
    by (rule handle_tool_startE)
  have s: "fleet ?s = (replace_agent ?ag (sm_agents s), sm_retiring s, sm_used_tokens s, sm_used_snapshots s,
      (sm_active s)(?own := sm_active s ?own - {a}), (sm_warm s)(?own := insert a (sm_warm s ?own)))"
    using tool_start(3) by (simp add: fleet_def put_agent_def enter_warm_def)
  have planner: "planner_ok (gp_planner (cf_policy cf))" using ok by (simp add: config_ok_def)
  from decide_moves [OF d planner] consider "stayed ?s s1" | e me where "moved_to cf ?ag ev ?s s1 e me" by blast
  then show ?thesis
  proof cases
    case 1
    then have "fleet s' = fleet ?s" by (simp add: stayed_def s' fleet_simps)
    with fleet_tool_start [OF tool_start(2,3) refl] s have "fleet_step cf (snd (snd it)) (fleet s) (fleet s')"
      by (simp add: tool_start(1) fleet_def [of s])
    moreover have "logged (snd (snd it)) s s'"
      using 1 by (intro logged_same) (simp_all add: s' stayed_def fleet_simps)
    ultimately show ?thesis ..
  next
    case 2
    then have m: "e \<in> set (cf_engine_ids cf)" "e \<noteq> ?own" "e \<notin> sm_retiring s"
        "cf_policy_name cf \<noteq> ''stateless-reroute'' \<longrightarrow> sm_used_tokens s e + ev_prompt_tokens ev \<le> cf_token_slots cf \<and>
           sm_used_snapshots s e + 1 \<le> cf_snapshot_slots cf"
      and me: "me_source_engine me = ?own" "me_destination_engine me = e" "me_agent_id me = a" "me_drain me \<longleftrightarrow> ?own \<in> sm_retiring s"
      and f: "fleet s1 = fleet (move_state ?ag e ?s)" and l: "sm_migration_events s1 = sm_migration_events s @ [me]"
        "ledger s1 = (case ledger s of (m, dr, k, b, c) \<Rightarrow>
          (m + 1, dr + (if me_drain me then 1 else 0), k + 1, b + me_bytes me, c))"
      using s tool_start(3) by (auto simp: moved_to_def fleet_simp fleet_simps)
    have "fleet s' = (replace_agent (ag\<lparr>ag_phase := PTool, ag_owner_engine := e\<rparr>) (sm_agents s), sm_retiring s,
       add_at e (ag_prompt_tokens ag) (add_at ?own (- ag_prompt_tokens ag) (sm_used_tokens s)),
       add_at e 1 (add_at ?own (- 1) (sm_used_snapshots s)),
       (sm_active s)(?own := sm_active s ?own - {a}), (sm_warm s)(?own := sm_warm s ?own - {a}, e := insert a (sm_warm s e)))"
      using f fleet_move_state [of e ?ag ?s] m(2) s tool_start(3) by (simp add: s' fleet_simps fleet_simp)
    with fleet_move [where ut = "sm_used_tokens s" and us = "sm_used_snapshots s", OF tool_start(2,3) refl ev m] have "fleet_step cf (snd (snd it)) (fleet s) (fleet s')"
      by (simp add: tool_start(1) fleet_def [of s])
    moreover have "logged (snd (snd it)) s s'"
      using me m l tool_start(1) by (cases "ledger s") (auto simp: logged_def s' fleet_simps)
    ultimately show ?thesis ..
  qed
next
  case (tool_end a ag)
  have "fleet s' = (replace_agent (ag\<lparr>ag_phase := PWarm\<rparr>) (sm_agents s), sm_retiring s, sm_used_tokens s,
      sm_used_snapshots s, sm_active s, sm_warm s)"
    using tool_end(4) by (auto simp: handle_tool_end_def fleet_def put_agent_def)
  with fleet_tool_end [OF tool_end(2,3)] have "fleet_step cf (snd (snd it)) (fleet s) (fleet s')"
    by (simp add: tool_end(1) fleet_def [of s])
  moreover have "logged (snd (snd it)) s s'"
    using tool_end(4) by (intro logged_same) (auto simp: handle_tool_end_def fleet_simps)
  ultimately show ?thesis ..
next
  case (expire a ag)
  show ?thesis
  proof (cases "ag_phase ag = PWarm")
    case True
    let ?own = "ag_owner_engine ag"
    have "fleet s' = (replace_agent (ag\<lparr>ag_phase := PExpired\<rparr>) (sm_agents s), sm_retiring s,
        add_at ?own (- ag_prompt_tokens ag) (sm_used_tokens s), add_at ?own (- 1) (sm_used_snapshots s), sm_active s,
        (sm_warm s)(?own := sm_warm s ?own - {a}))"
      using expire True by (simp add: handle_expire_def Let_def fleet_def put_agent_def use_tokens_def use_snapshots_def
          add_stat_def add_at_def)
    with fleet_expire [OF expire(2,3) True refl] have "fleet_step cf (snd (snd it)) (fleet s) (fleet s')"
      by (simp add: expire(1) fleet_def [of s])
    moreover have "ledger s' = ledger s" "sm_migration_events s' = sm_migration_events s"
      using expire(4) True by (simp_all add: handle_expire_def Let_def fleet_simps) (simp add: ledger_def use_tokens_def use_snapshots_def)
    ultimately show ?thesis using logged_same by blast
  next
    case False
    then show ?thesis using expire fleet_outlived logged_same by (simp add: handle_expire_def)
  qed
qed

section \<open>Sets, loads and books\<close>

definition held :: "engine_id \<Rightarrow> agent_runtime \<Rightarrow> bool" where
  "held e ag \<longleftrightarrow> ag_phase ag \<in> {PActive, PTool, PWarm} \<and> ag_owner_engine ag = e"

definition held_tokens :: "engine_id \<Rightarrow> agent_runtime list \<Rightarrow> int" where
  "held_tokens e ags = sum_list (map (\<lambda>ag. if held e ag then ag_prompt_tokens ag else 0) ags)"

definition held_states :: "engine_id \<Rightarrow> agent_runtime list \<Rightarrow> int" where
  "held_states e ags = sum_list (map (\<lambda>ag. if held e ag then 1 else 0) ags)"

text \<open>An engine's sets name the agents active on it, and those in a tool call or warm on it.\<close>

definition in_phase :: "agent_phase set \<Rightarrow> engine_id \<Rightarrow> agent_runtime list \<Rightarrow> agent_id set" where
  "in_phase ps e ags = {a. \<exists>ag. agent_of ags a = Some ag \<and> ag_phase ag \<in> ps \<and> ag_owner_engine ag = e}"

definition sets_exact :: "fleet_view \<Rightarrow> bool" where
  "sets_exact f \<longleftrightarrow> (case f of (ags, r, ut, us, ac, wa) \<Rightarrow>
     ac = (\<lambda>e. in_phase {PActive} e ags) \<and> wa = (\<lambda>e. in_phase {PTool, PWarm} e ags))"

text \<open>What \<open>sim_wf\<close> says of the agent an entry is about.\<close>

definition timely :: "sim_kind \<Rightarrow> agent_runtime list \<Rightarrow> bool" where
  "timely k ags \<longleftrightarrow> (\<forall>a ag. agent_of ags a = Some ag \<longrightarrow>
     (k \<in> {Arrival a, ToolStart a, ToolEnd a} \<longrightarrow> turn_ok [k] ag) \<and>
     (ag_phase ag \<noteq> PNew \<longrightarrow> ag_current_event ag = Some (served_event ag) \<and>
        ag_prompt_tokens ag = ev_prompt_tokens (served_event ag)))"

lemma wf_timely:
  assumes "sim_wf cf q s" and "it \<in> set q"
  shows "timely (snd (snd it)) (sm_agents s)"
  unfolding timely_def
proof (intro allI impI conjI)
  fix a ag assume ag: "agent_of (sm_agents s) a = Some ag"
  then have ok: "agent_ok cf q ag" and id: "ag_agent_id ag = a" using assms(1) by (auto simp: sim_wf_def dest: agent_of_id)
  show "turn_ok [snd (snd it)] ag" if "snd (snd it) \<in> {Arrival a, ToolStart a, ToolEnd a}"
    using ok id driver_alone(2) [of a q ag it] that assms(2) by (simp add: agent_ok_def drives_def)
  show "ag_current_event ag = Some (served_event ag)" "ag_prompt_tokens ag = ev_prompt_tokens (served_event ag)"
    if "ag_phase ag \<noteq> PNew" using ok that by (simp_all add: agent_ok_def)
qed

lemma in_phase_replace:
  "agent_of ags (ag_agent_id ag') = Some ag \<Longrightarrow>
     in_phase ps e (replace_agent ag' ags) =
       (if ag_phase ag' \<in> ps \<and> ag_owner_engine ag' = e then insert (ag_agent_id ag') (in_phase ps e ags)
        else in_phase ps e ags - {ag_agent_id ag'})"
  by (auto simp: in_phase_def)

lemma not_in_phase:
  "agent_of ags a = Some ag \<Longrightarrow> \<not> (ag_phase ag \<in> ps \<and> ag_owner_engine ag = e) \<Longrightarrow> a \<notin> in_phase ps e ags"
  by (auto simp: in_phase_def)

lemma is_in_phase:
  "agent_of ags a = Some ag \<Longrightarrow> ag_phase ag \<in> ps \<Longrightarrow> ag_owner_engine ag = e \<Longrightarrow> a \<in> in_phase ps e ags"
  by (auto simp: in_phase_def)

lemma admitted_agent_simps [simp]:
  "ag_agent_id (admitted_agent ag) = ag_agent_id ag" "ag_phase (admitted_agent ag) = PActive"
  "ag_owner_engine (admitted_agent ag) = ag_owner_engine ag" "ag_prompt_tokens (admitted_agent ag) = ag_prompt_tokens ag"
  by (simp_all add: admitted_agent_def)

lemma sets_exact_step:
  assumes st: "fleet_step cf k f f'" and sets: "sets_exact f" and timely: "timely k (fst f)"
  shows "sets_exact f'"
  using st
proof cases
  case (fleet_block ags a ag r ut us ac wa)
  then have "at_rest ag" using timely by (auto simp: timely_def)
  with fleet_block sets show ?thesis
    by (auto simp: sets_exact_def fun_eq_iff in_phase_replace at_rest_def arriving_def not_in_phase is_in_phase)
next
  case (fleet_admit ags a ag own ut us r ac wa)
  then have "at_rest ag" using timely by (auto simp: timely_def)
  with fleet_admit sets show ?thesis
    by (auto simp: sets_exact_def fun_eq_iff in_phase_replace at_rest_def arriving_def not_in_phase is_in_phase)
next
  case (fleet_tool_start ags a ag own r ut us ac wa)
  then have "ag_phase ag = PActive" using timely by (auto simp: timely_def)
  with fleet_tool_start sets show ?thesis
    by (auto simp: sets_exact_def fun_eq_iff in_phase_replace not_in_phase is_in_phase)
next
  case (fleet_move ags a ag own ev e r ut us ac wa)
  then have "ag_phase ag = PActive" using timely by (auto simp: timely_def)
  with fleet_move sets show ?thesis
    by (auto simp: sets_exact_def fun_eq_iff in_phase_replace not_in_phase is_in_phase)
next
  case (fleet_tool_end ags a ag r ut us ac wa)
  then have "ag_phase ag = PTool" using timely by (auto simp: timely_def)
  with fleet_tool_end sets show ?thesis
    by (auto simp: sets_exact_def fun_eq_iff in_phase_replace not_in_phase is_in_phase)
next
  case (fleet_expire ags a ag own r ut us ac wa)
  with sets show ?thesis
    by (auto simp: sets_exact_def fun_eq_iff in_phase_replace not_in_phase is_in_phase)
qed (use sets in \<open>auto simp: sets_exact_def\<close>)

text \<open>What a replaced agent changes of a sum over the agents.\<close>

lemma sum_replace:
  fixes f :: "agent_runtime \<Rightarrow> int"
  shows "agent_of ags (ag_agent_id ag') = Some ag \<Longrightarrow>
    sum_list (map f (replace_agent ag' ags)) = sum_list (map f ags) - f ag + f ag'"
  by (induction ags) (auto simp: agent_of_def)

lemma held_replace:
  assumes "agent_of ags (ag_agent_id ag') = Some ag"
  shows "held_tokens e (replace_agent ag' ags) = held_tokens e ags -
      (if held e ag then ag_prompt_tokens ag else 0) + (if held e ag' then ag_prompt_tokens ag' else 0)"
    and "held_states e (replace_agent ag' ags) = held_states e ags -
      (if held e ag then 1 else 0) + (if held e ag' then 1 else 0)"
  using assms sum_replace [of ags ag' ag] by (simp_all add: held_tokens_def held_states_def)

text \<open>
  The tokens and snapshots held and not charged. A step leaves them as they are, but for the
  arrival of an expired agent, which is charged as if its state were still there.
\<close>

definition uncharged :: "fleet_view \<Rightarrow> engine_id \<Rightarrow> int \<times> int" where
  "uncharged f e = (case f of (ags, r, ut, us, ac, wa) \<Rightarrow> (held_tokens e ags - ut e, held_states e ags - us e))"

definition returns_expired :: "sim_kind \<Rightarrow> agent_runtime list \<Rightarrow> agent_runtime option" where
  "returns_expired k ags = (case k of Arrival a \<Rightarrow> (case agent_of ags a of
     Some ag \<Rightarrow> if ag_phase ag = PExpired then Some ag else None | None \<Rightarrow> None) | _ \<Rightarrow> None)"

lemma uncharged_step:
  assumes st: "fleet_step cf k f f'" and timely: "timely k (fst f)"
  shows "uncharged f' e = uncharged f e \<or>
    (\<exists>ag. returns_expired k (fst f) = Some ag \<and> ag_owner_engine ag = e \<and>
       uncharged f' e = (fst (uncharged f e) + ag_prompt_tokens ag, snd (uncharged f e) + 1))"
  using st
proof cases
  case (fleet_block ags a ag r ut us ac wa)
  then have "at_rest ag" using timely by (auto simp: timely_def)
  with fleet_block show ?thesis by (auto simp: uncharged_def held_replace held_def arriving_def at_rest_def)
next
  case (fleet_admit ags a ag own ut us r ac wa)
  then have "at_rest ag" using timely by (auto simp: timely_def)
  then consider "ag_phase ag = PNew" | "ag_phase ag = PWarm" | "ag_phase ag = PExpired" by (auto simp: at_rest_def)
  then show ?thesis
    using fleet_admit
    by cases (auto simp: uncharged_def held_replace held_def arriving_def add_at_apply token_charge_def snapshot_charge_def
        Let_def returns_expired_def)
next
  case (fleet_tool_start ags a ag own r ut us ac wa)
  then have "ag_phase ag = PActive" using timely by (auto simp: timely_def)
  with fleet_tool_start show ?thesis by (auto simp: uncharged_def held_replace held_def)
next
  case (fleet_move ags a ag own ev e' r ut us ac wa)
  then have "ag_phase ag = PActive" using timely by (auto simp: timely_def)
  with fleet_move show ?thesis by (auto simp: uncharged_def held_replace held_def add_at_apply)
next
  case (fleet_tool_end ags a ag r ut us ac wa)
  then have "ag_phase ag = PTool" using timely by (auto simp: timely_def)
  with fleet_tool_end show ?thesis by (auto simp: uncharged_def held_replace held_def)
next
  case (fleet_expire ags a ag own r ut us ac wa)
  then show ?thesis by (auto simp: uncharged_def held_replace held_def add_at_apply)
qed (auto simp: uncharged_def)

text \<open>An engine's load, the sum of the sizes of its sets, counts the states held on it.\<close>

lemma load_counts_held:
  assumes "sets_exact (ags, r, ut, us, ac, wa)" and d: "distinct (map ag_agent_id ags)"
  shows "int (card (ac e)) + int (card (wa e)) = held_states e ags"
proof -
  have set: "in_phase ps e ags = ag_agent_id ` set (filter (\<lambda>ag. ag_phase ag \<in> ps \<and> ag_owner_engine ag = e) ags)" for ps
    using agent_of_distinct [OF d] by (auto simp: in_phase_def image_iff dest: agent_of_id)
  have card: "card (in_phase ps e ags) = length (filter (\<lambda>ag. ag_phase ag \<in> ps \<and> ag_owner_engine ag = e) ags)" for ps
  proof -
    let ?xs = "filter (\<lambda>ag. ag_phase ag \<in> ps \<and> ag_owner_engine ag = e) ags"
    have "distinct (map ag_agent_id ?xs)" using d by (rule distinct_map_filter)
    from distinct_card [OF this] show ?thesis unfolding set by (simp only: list.set_map length_map)
  qed
  have "held_states e ags = int (length (filter (\<lambda>ag. ag_phase ag \<in> {PActive} \<and> ag_owner_engine ag = e) ags) +
      length (filter (\<lambda>ag. ag_phase ag \<in> {PTool, PWarm} \<and> ag_owner_engine ag = e) ags))"
    by (induction ags) (auto simp: held_states_def held_def)
  then show ?thesis using assms(1) by (simp add: sets_exact_def card)
qed

section \<open>Capacity\<close>

definition within_capacity :: "sim_config \<Rightarrow> sim \<Rightarrow> bool" where
  "within_capacity cf s \<longleftrightarrow>
     (\<forall>e. sm_used_tokens s e \<le> cf_token_slots cf) \<and> (\<forall>e. sm_used_snapshots s e \<le> cf_snapshot_slots cf)"

lemma add_at_le:
  assumes "\<forall>x. f x \<le> b" and "n \<le> 0 \<or> f e + n \<le> b"
  shows "\<forall>x. add_at e n f x \<le> (b :: int)"
proof
  fix x
  show "add_at e n f x \<le> b" using spec [OF assms(1), of x] assms(2) by (auto simp: add_at_apply)
qed

lemma capacity_step:
  assumes st: "fleet_step cf k (fleet s) (fleet s')" and cap: "within_capacity cf s"
    and timely: "timely k (sm_agents s)" and pol: "cf_policy_name cf \<noteq> ''stateless-reroute''"
    and prompts: "\<forall>ag \<in> set (sm_agents s). ag_phase ag \<noteq> PNew \<longrightarrow> 0 \<le> ag_prompt_tokens ag"
  shows "within_capacity cf s'"
  using st
proof cases
  case (fleet_admit ags a ag own ut us r ac wa)
  with cap show ?thesis unfolding within_capacity_def fleet_def by (auto intro!: add_at_le [rule_format])
next
  case (fleet_move ags a ag own ev e r ut us ac wa)
  have "ag_phase ag = PActive" using fleet_move timely by (auto simp: timely_def fleet_def)
  moreover have "ag \<in> set (sm_agents s)" using fleet_move agent_of_id by (auto simp: fleet_def)
  ultimately have "0 \<le> ag_prompt_tokens ag" "ag_prompt_tokens ag = ev_prompt_tokens ev"
    using prompts fleet_move timely by (auto simp: timely_def fleet_def)
  with fleet_move cap pol show ?thesis
    unfolding within_capacity_def fleet_def by (auto intro!: add_at_le [rule_format] simp: add_at_apply [of _ _ _ e])
next
  case (fleet_expire ags a ag own r ut us ac wa)
  have "ag \<in> set (sm_agents s)" using fleet_expire agent_of_id by (auto simp: fleet_def)
  then have "0 \<le> ag_prompt_tokens ag" using prompts fleet_expire by auto
  with fleet_expire cap show ?thesis unfolding within_capacity_def fleet_def by (auto intro!: add_at_le [rule_format])
qed (use cap in \<open>auto simp: within_capacity_def fleet_def\<close>)

lemma served_prompts:
  assumes "sim_wf cf q s" and "itinerary_ok cf (itinerary s)"
  shows "\<forall>ag \<in> set (sm_agents s). ag_phase ag \<noteq> PNew \<longrightarrow> 0 \<le> ag_prompt_tokens ag"
proof (intro ballI impI)
  fix ag assume ag: "ag \<in> set (sm_agents s)" "ag_phase ag \<noteq> PNew"
  with assms(1) have p: "ag_prompt_tokens ag = ev_prompt_tokens (served_event ag)"
    "0 < ag_next_event ag" "ag_next_event ag \<le> length (ag_events ag)" by (auto simp: sim_wf_def agent_ok_def)
  then have "served_event ag \<in> set (ag_events ag)" by (simp add: served_event_def)
  from itinerary_events [OF assms(2) ag(1) this] p(1) show "0 \<le> ag_prompt_tokens ag" by (simp add: event_ok_def)
qed

interpretation capacity: sim_invariant cf
  "\<lambda>q s. sim_wf cf q s \<and> itinerary s = i \<and> itinerary_ok cf i \<and> cf_policy_name cf \<noteq> ''stateless-reroute'' \<and> within_capacity cf s"
  for cf i
proof (unfold_locales, elim conjE, intro conjI)
  fix q s it s' new
  assume wf: "sim_wf cf q s" and i: "itinerary s = i" and rows: "itinerary_ok cf i" and it: "it \<in> set q"
    and pol: "cf_policy_name cf \<noteq> ''stateless-reroute''" and cap: "within_capacity cf s"
    and h: "handle_item cf it s = Inr (s', new)"
  show "sim_wf cf (remove1 it q @ new) s'" by (rule sim_wf_kept [OF wf it h])
  show "itinerary s' = i" using itinerary_kept [OF wf h] i by simp
  have "config_ok cf" using wf by (simp add: sim_wf_def)
  from handler_books [OF h this] have "fleet_step cf (snd (snd it)) (fleet s) (fleet s')" ..
  from capacity_step [OF this cap wf_timely [OF wf it] pol] served_prompts [OF wf] rows i
  show "within_capacity cf s'" by simp
qed

text \<open>
  Under every policy but the stateless one, no engine's counters of used tokens and snapshots
  ever exceed its slots, in any state a replay reaches. What an engine holds can be more: an
  agent that comes back after its state expired is charged for its growth only.
\<close>

lemma counters_within_capacity:
  assumes new: "new_simulation events n tokens snaps scale deadline policy bw fixed keep = Inr (cf, s)"
    and trace: "\<forall>ev \<in> set events. event_ok cf ev" and "policy \<noteq> ''stateless-reroute''" and "0 \<le> tokens" "0 \<le> snaps"
    and "(sim_step cf)\<^sup>*\<^sup>* (initial_timeline cf s, s) (q', s')"
  shows "sm_used_tokens s' e \<le> tokens \<and> sm_used_snapshots s' e \<le> snaps"
proof -
  note c = new_simulation_config [OF new]
  have "sim_wf cf (initial_timeline cf s) s \<and> itinerary s = itinerary s \<and> itinerary_ok cf (itinerary s) \<and>
      cf_policy_name cf \<noteq> ''stateless-reroute'' \<and> within_capacity cf s"
    using new_simulation_wf [OF new] new_simulation_itinerary [OF new trace] assms(3-5) c
    by (simp add: within_capacity_def)
  from capacity.along [OF assms(6) this] c(6,7) show ?thesis by (simp add: within_capacity_def)
qed

section \<open>The log and the counters\<close>

definition log_counts :: "sim \<Rightarrow> int \<times> int \<times> int \<times> int" where
  "log_counts s = (let l = sm_migration_events s in
     (int (length l), int (length (filter me_drain l)), int (length l), sum_list (map me_bytes l)))"

definition books_agree :: "sim \<Rightarrow> bool" where
  "books_agree s \<longleftrightarrow> (case ledger s of (m, dr, n, b, c) \<Rightarrow> (m, dr, n, b) = log_counts s)"

lemma logged_agree: "logged k s s' \<Longrightarrow> books_agree s \<Longrightarrow> books_agree s'"
  by (cases "ledger s") (auto simp: logged_def books_agree_def log_counts_def Let_def)

text \<open>After the scale-in the retiring engines stay the same, and no migration goes to one.\<close>

definition safe_moves :: "migration_event list \<Rightarrow> engine_id set \<Rightarrow> sim_item list \<Rightarrow> sim \<Rightarrow> bool" where
  "safe_moves l0 R q s \<longleftrightarrow> \<not> scheduled Scale q \<and> sm_retiring s = R \<and>
     (\<exists>l. sm_migration_events s = l0 @ l \<and> (\<forall>me \<in> set l. me_source_engine me \<noteq> me_destination_engine me \<and>
        me_destination_engine me \<notin> R \<and> (me_drain me \<longleftrightarrow> me_source_engine me \<in> R)))"

lemma fleet_step_retiring: "fleet_step cf k (fleet s) (fleet s') \<Longrightarrow> k \<noteq> Scale \<Longrightarrow> sm_retiring s' = sm_retiring s"
  by (erule fleet_step.cases) (auto simp: fleet_def)

lemma handler_new_kinds:
  "handle_item cf it s = Inr (s', new) \<Longrightarrow> config_ok cf \<Longrightarrow> \<not> scheduled Scale new"
  by (erule handler_agents) (auto simp: scheduled_def dest!: agent_step_id)

lemma safe_moves_step:
  assumes safe: "safe_moves l0 R q s" and it: "it \<in> set q" and h: "handle_item cf it s = Inr (s', new)" and ok: "config_ok cf"
  shows "safe_moves l0 R (remove1 it q @ new) s'"
proof -
  have k: "snd (snd it) \<noteq> Scale" using safe it by (auto simp: safe_moves_def scheduled_def)
  from handler_books [OF h ok] have st: "fleet_step cf (snd (snd it)) (fleet s) (fleet s')" and l: "logged (snd (snd it)) s s'"
    by simp_all
  have r: "sm_retiring s' = R" using fleet_step_retiring [OF st k] safe by (simp add: safe_moves_def)
  obtain l1 where l1: "sm_migration_events s = l0 @ l1"
    "\<forall>me \<in> set l1. me_source_engine me \<noteq> me_destination_engine me \<and> me_destination_engine me \<notin> R \<and>
       (me_drain me \<longleftrightarrow> me_source_engine me \<in> R)" "sm_retiring s = R"
    using safe by (auto simp: safe_moves_def)
  from l consider "sm_migration_events s' = sm_migration_events s"
    | me where "sm_migration_events s' = sm_migration_events s @ [me]" "me_source_engine me \<noteq> me_destination_engine me"
      "me_destination_engine me \<notin> R" "me_drain me \<longleftrightarrow> me_source_engine me \<in> R"
    using l1(3) by (auto simp: logged_def split: prod.splits)
  then have "\<exists>l. sm_migration_events s' = l0 @ l \<and> (\<forall>me \<in> set l. me_source_engine me \<noteq> me_destination_engine me \<and>
        me_destination_engine me \<notin> R \<and> (me_drain me \<longleftrightarrow> me_source_engine me \<in> R))"
  proof cases
    case 1
    with l1 show ?thesis by (intro exI [of _ l1]) simp
  next
    case 2
    with l1 show ?thesis by (intro exI [of _ "l1 @ [me]"]) auto
  qed
  moreover have "\<not> scheduled Scale (remove1 it q @ new)"
    using safe k handler_new_kinds [OF h ok] by (simp add: safe_moves_def scheduled_after)
  ultimately show ?thesis using r by (simp add: safe_moves_def)
qed

interpretation logs: sim_invariant cf "\<lambda>q s. config_ok cf \<and> books_agree s" for cf
  by unfold_locales (use handler_books logged_agree in blast)

interpretation moves: sim_invariant cf "\<lambda>q s. config_ok cf \<and> safe_moves l0 R q s" for cf l0 R
  by unfold_locales (use safe_moves_step in blast)

text \<open>
  The log of migrations and the counters agree in every state a replay reaches: as
  many migrations, drains and method uses counted as logged, and as many bytes; and every
  migration logged after the scale-in goes to another engine that is not retiring, and is
  marked as a drain exactly when it leaves a retiring engine.
\<close>

theorem migrations_are_logged_and_avoid_retiring:
  assumes new: "new_simulation events n tokens snaps scale deadline policy bw fixed keep = Inr (cf, s)"
    and run: "(sim_step cf)\<^sup>*\<^sup>* (initial_timeline cf s, s) (q1, s1)" "(sim_step cf)\<^sup>*\<^sup>* (q1, s1) (q2, s2)"
  shows "books_agree s2 \<and> (\<not> scheduled Scale q1 \<longrightarrow>
    (\<exists>l. sm_migration_events s2 = sm_migration_events s1 @ l \<and> sm_retiring s2 = sm_retiring s1 \<and>
       (\<forall>me \<in> set l. me_source_engine me \<noteq> me_destination_engine me \<and> me_destination_engine me \<notin> sm_retiring s2 \<and>
          (me_drain me \<longleftrightarrow> me_source_engine me \<in> sm_retiring s2))))"
proof (intro conjI impI)
  note c = new_simulation_config [OF new]
  have "config_ok cf \<and> books_agree s" using c by (simp add: books_agree_def log_counts_def)
  from logs.along [OF rtranclp_trans [OF run] this] show "books_agree s2" ..
  assume "\<not> scheduled Scale q1"
  then have "config_ok cf \<and> safe_moves (sm_migration_events s1) (sm_retiring s1) q1 s1"
    using c(1) by (simp add: safe_moves_def)
  from moves.along [OF run(2) this]
  show "\<exists>l. sm_migration_events s2 = sm_migration_events s1 @ l \<and> sm_retiring s2 = sm_retiring s1 \<and>
       (\<forall>me \<in> set l. me_source_engine me \<noteq> me_destination_engine me \<and> me_destination_engine me \<notin> sm_retiring s2 \<and>
          (me_drain me \<longleftrightarrow> me_source_engine me \<in> sm_retiring s2))"
    by (auto simp: safe_moves_def)
qed

end
