(* ===== verification/SimulationRetention.thy ===== *)
theory SimulationRetention
  imports SimulationBooks
begin

text \<open>
  Retention: when every warm state is kept until the agent's next arrival, the books of the
  replay are exact and empty at its end; and what the timers do otherwise. Runs on small
  traces, which are also the witnesses of the replay's properties.
\<close>

section \<open>The times of the entries\<close>

text \<open>An entry comes at the time its agent's rows give.\<close>

definition timed :: "sim_config \<Rightarrow> agent_runtime \<Rightarrow> sim_item \<Rightarrow> bool" where
  "timed cf ag it \<longleftrightarrow> (case snd (snd it) of
       Arrival a \<Rightarrow> fst it = ev_arrival_rel_s (ag_events ag ! ag_next_event ag) \<and> ag_next_event ag < length (ag_events ag)
     | ToolEnd a \<Rightarrow> fst it = ev_tool_end_rel_s (served_event ag) \<and> 0 < ag_next_event ag \<and> ag_next_event ag \<le> length (ag_events ag)
     | Expire a \<Rightarrow> (\<exists>ev \<in> set (ag_events ag). fst it = ev_tool_end_rel_s ev + cf_retention_seconds cf)
     | _ \<Rightarrow> True)"

definition all_timed :: "sim_config \<Rightarrow> sim_item list \<Rightarrow> sim \<Rightarrow> bool" where
  "all_timed cf q s \<longleftrightarrow> (\<forall>it \<in> set q. \<forall>a ag. kind_agent (snd (snd it)) = Some a \<longrightarrow>
     agent_of (sm_agents s) a = Some ag \<longrightarrow> timed cf ag it)"

lemma timed_other_fields:
  "timed cf (ag\<lparr>ag_phase := p, ag_owner_engine := e\<rparr>) it = timed cf ag it"
  "timed cf (ag\<lparr>ag_phase := p\<rparr>) it = timed cf ag it"
  "timed cf ((arriving ag)\<lparr>ag_blocked := b\<rparr>) it = timed cf ag it"
  by (simp_all add: timed_def served_event_def split: sim_kind.splits)

text \<open>The entries a step leaves of its agent, and those it adds, are timed.\<close>

lemma agent_step_timed:
  assumes st: "agent_step cf (fst it) (snd (snd it)) ag ag' new" and ok: "agent_ok cf q ag" and it: "it \<in> set q"
    and timed: "\<And>x. x \<in> set q \<Longrightarrow> kind_agent (snd (snd x)) = Some (ag_agent_id ag) \<Longrightarrow> timed cf ag x"
    and x: "x \<in> set (remove1 it q @ new)" and k: "kind_agent (snd (snd x)) = Some (ag_agent_id ag)"
  shows "timed cf ag' x"
proof -
  let ?a = "ag_agent_id ag"
  have t: "turn_ok (drivers ?a q) ag" using ok by (simp add: agent_ok_def)
  have alone: "\<not> drives ?a x" if "drives ?a it" "x \<in> set (remove1 it q)"
  proof
    assume "drives ?a x"
    then have "x \<in> set (filter (drives ?a) (remove1 it q))" using that(2) by simp
    then show False using driver_alone(1) [OF t it that(1)] by (simp add: filter_remove1)
  qed
  have old: "timed cf ag x" if "x \<in> set (remove1 it q)" using timed [of x] k notin_set_remove1 [of x q it] that by blast
  from st show ?thesis
  proof cases
    case block
    with x old show ?thesis by (simp add: timed_other_fields)
  next
    case admit
    show ?thesis
    proof (cases "x \<in> set (remove1 it q)")
      case True
      with admit alone have "\<not> drives ?a x" by (simp add: drives_def)
      with old [OF True] k admit show ?thesis
        by (cases "snd (snd x)") (simp_all add: timed_def drives_def admitted_agent_def)
    next
      case False
      with x admit show ?thesis by (simp add: timed_def)
    qed
  next
    case (tool_start ev e)
    show ?thesis
    proof (cases "x \<in> set (remove1 it q)")
      case True
      with old tool_start show ?thesis by (simp add: timed_other_fields)
    next
      case False
      have "ag_phase ag = PActive" using t tool_start(1) driver_alone(2) [OF t it] by (simp add: drives_def)
      with ok have "ag_current_event ag = Some (served_event ag)" "0 < ag_next_event ag" "ag_next_event ag \<le> length (ag_events ag)"
        by (auto simp: agent_ok_def)
      with False x tool_start show ?thesis by (simp add: timed_def served_event_def)
    qed
  next
    case tool_end
    show ?thesis
    proof (cases "x \<in> set (remove1 it q)")
      case True
      with old tool_end show ?thesis by (simp add: timed_other_fields)
    next
      case False
      have "timed cf ag it" using timed [OF it] tool_end(1) by simp
      then have "fst it = ev_tool_end_rel_s (served_event ag)" "served_event ag \<in> set (ag_events ag)"
        using tool_end(1) by (auto simp: timed_def served_event_def)
      with False x tool_end show ?thesis by (auto simp: timed_def split: if_splits)
    qed
  next
    case expire
    with x old show ?thesis by (simp add: timed_other_fields)
  next
    case outlived
    with x old show ?thesis by simp
  qed
qed

lemma all_timed_kept:
  assumes wf: "sim_wf cf q s" and timed: "all_timed cf q s" and it: "it \<in> set q" and h: "handle_item cf it s = Inr (s', new)"
  shows "all_timed cf (remove1 it q @ new) s'"
proof -
  have ok: "config_ok cf" using wf by (simp add: sim_wf_def)
  from h ok show ?thesis
  proof (cases rule: handler_agents)
    case fleet
    with timed show ?thesis by (auto simp: all_timed_def dest: notin_set_remove1)
  next
    case (agent ag ag')
    have "ag \<in> set (sm_agents s)" using agent_of_id [OF agent(1)] by simp
    then have aok: "agent_ok cf q ag" using wf by (simp add: sim_wf_def)
    show ?thesis
      unfolding all_timed_def
    proof (intro ballI allI impI)
      fix x a y
      assume x: "x \<in> set (remove1 it q @ new)" and k: "kind_agent (snd (snd x)) = Some a"
        and y: "agent_of (sm_agents s') a = Some y"
      show "timed cf y x"
      proof (cases "a = ag_agent_id ag")
        case True
        then have "y = ag'" using y agent(1,2,4) by simp
        moreover have "timed cf ag' x"
          by (rule agent_step_timed [OF agent(3) aok it _ x]) (use timed agent(1) k True in \<open>auto simp: all_timed_def\<close>)
        ultimately show ?thesis by simp
      next
        case False
        with agent_step_id [OF agent(3)] x k have "x \<in> set q" by (auto dest: set_remove1_subset [THEN subsetD])
        moreover have "agent_of (sm_agents s) a = Some y" using y False agent(2,4) by simp
        ultimately show ?thesis using timed k by (auto simp: all_timed_def)
      qed
    qed
  qed
qed

section \<open>No expired agent comes back\<close>

definition retention_covers :: "sim_config \<Rightarrow> (agent_id \<times> sim_event list) list \<Rightarrow> bool" where
  "retention_covers cf i \<longleftrightarrow> (\<forall>(a, rows) \<in> set i. \<forall>ev \<in> set rows. \<forall>ev' \<in> set rows.
     ev_arrival_rel_s ev' < ev_tool_end_rel_s ev + cf_retention_seconds cf)"

definition expired_settled :: "sim_item list \<Rightarrow> sim \<Rightarrow> bool" where
  "expired_settled q s \<longleftrightarrow> (\<forall>ag \<in> set (sm_agents s). ag_phase ag = PExpired \<longrightarrow> drivers (ag_agent_id ag) q = [])"

lemma expired_settled_kept:
  assumes wf: "sim_wf cf q s" and timed: "all_timed cf q s" and cover: "retention_covers cf (itinerary s)"
    and set: "expired_settled q s" and it: "it \<in> set q" and least: "\<forall>x \<in> set q. item_key it \<le> item_key x"
    and h: "handle_item cf it s = Inr (s', new)"
  shows "expired_settled (remove1 it q @ new) s'"
proof -
  have ok: "config_ok cf" using wf by (simp add: sim_wf_def)
  from h ok show ?thesis
  proof (cases rule: handler_agents)
    case fleet
    then have "\<not> drives a it" for a by (auto simp: drives_def)
    with fleet set show ?thesis by (simp add: expired_settled_def drivers_after)
  next
    case (agent ag ag')
    note id = agent_step_id [OF agent(3)]
    have ag: "ag \<in> set (sm_agents s)" using agent_of_id [OF agent(1)] by simp
    then have aok: "agent_ok cf q ag" using wf by (simp add: sim_wf_def)
    let ?a = "ag_agent_id ag"
    have other: "drivers (ag_agent_id x) (remove1 it q @ new) = drivers (ag_agent_id x) q" if "ag_agent_id x \<noteq> ?a" for x :: agent_runtime
    proof -
      have "\<not> drives (ag_agent_id x) it" "filter (drives (ag_agent_id x)) new = []"
        using id that by (auto simp: drives_def filter_empty_conv)
      then show ?thesis by (simp add: drivers_after) (simp add: drivers_def)
    qed
    have mine: "drivers ?a (remove1 it q @ new) = []" if exp: "ag_phase ag' = PExpired"
      using agent(3)
    proof cases
      case block
      then have "ag_phase ag = PExpired" using exp by simp
      then have "drivers ?a q = []" using set ag by (simp add: expired_settled_def)
      then show ?thesis using block by (simp add: drivers_def filter_remove1)
    next
      case expire
      have "drivers ?a q = []"
      proof (rule ccontr)
        assume ne: "drivers ?a q \<noteq> []"
        from aok expire have "turn_ok (drivers ?a q) ag" by (simp add: agent_ok_def)
        with ne expire(4) have "\<exists>b. drivers ?a q = [Arrival b]"
          by (cases "(drivers ?a q, ag)" rule: turn_ok.cases) (auto simp: at_rest_def)
        then obtain b where "Arrival b \<in> set (drivers ?a q)" by auto
        then obtain x where x: "x \<in> set q" "snd (snd x) = Arrival ?a" by (auto simp: drivers_def drives_def)
        have "timed cf ag x" "timed cf ag it" using timed agent(1) x it expire(1) by (auto simp: all_timed_def)
        then obtain ev where "fst x = ev_arrival_rel_s (ag_events ag ! ag_next_event ag)"
          "ag_next_event ag < length (ag_events ag)" "ev \<in> set (ag_events ag)"
          "fst it = ev_tool_end_rel_s ev + cf_retention_seconds cf" using x expire(1) by (auto simp: timed_def)
        moreover from calculation have "ev_arrival_rel_s (ag_events ag ! ag_next_event ag) <
            ev_tool_end_rel_s ev + cf_retention_seconds cf"
          using cover ag by (force simp: retention_covers_def itinerary_def)
        ultimately have "item_key x < item_key it" by (simp add: item_key_def less_prod_def)
        with least x(1) show False by auto
      qed
      then show ?thesis using expire by (simp add: drivers_def filter_remove1)
    next
      case outlived
      then have "drivers ?a q = []" using set ag exp by (simp add: expired_settled_def)
      then show ?thesis using outlived by (simp add: drivers_def filter_remove1)
    qed (use exp in \<open>simp_all add: admitted_agent_def\<close>)
    show ?thesis
      unfolding expired_settled_def
    proof (intro ballI impI)
      fix x assume x: "x \<in> set (sm_agents s')" and e: "ag_phase x = PExpired"
      have "x = ag' \<or> x \<in> set (sm_agents s) \<and> ag_agent_id x \<noteq> ?a"
        using set_replace_agent [of "sm_agents s" ag'] wf agent(2,4) x by (auto simp: sim_wf_def)
      then show "drivers (ag_agent_id x) (remove1 it q @ new) = []"
        using mine e agent(2) other set by (auto simp: expired_settled_def)
    qed
  qed
qed

definition charged :: "sim \<Rightarrow> bool" where
  "charged s \<longleftrightarrow> (\<forall>e. uncharged (fleet s) e = (0, 0))"

definition covered :: "sim_config \<Rightarrow> (agent_id \<times> sim_event list) list \<Rightarrow> sim_item list \<Rightarrow> sim \<Rightarrow> bool" where
  "covered cf i q s \<longleftrightarrow> sim_wf cf q s \<and> itinerary s = i \<and> retention_covers cf i \<and> all_timed cf q s \<and> expired_settled q s \<and>
     charged s \<and> sets_exact (fleet s)"

lemma fst_fleet [simp]: "fst (fleet s) = sm_agents s"
  by (simp add: fleet_def)

interpretation retention: sim_invariant cf "covered cf i" for cf i
proof
  fix q s it s' new
  assume c: "covered cf i q s" and it: "it \<in> set q" and least: "\<forall>x \<in> set q. item_key it \<le> item_key x"
    and h: "handle_item cf it s = Inr (s', new)"
  then have wf: "sim_wf cf q s" and i: "itinerary s = i" and cover: "retention_covers cf i" and timed: "all_timed cf q s"
    and set: "expired_settled q s" and ch: "charged s" and sets: "sets_exact (fleet s)" by (simp_all add: covered_def)
  have "config_ok cf" using wf by (simp add: sim_wf_def)
  from handler_books [OF h this] have st: "fleet_step cf (snd (snd it)) (fleet s) (fleet s')" ..
  have tm: "timely (snd (snd it)) (fst (fleet s))" using wf_timely [OF wf it] by simp
  have none: "returns_expired (snd (snd it)) (sm_agents s) = None"
  proof (cases "snd (snd it)")
    case (Arrival a)
    have False if "agent_of (sm_agents s) a = Some ag" "ag_phase ag = PExpired" for ag
    proof -
      from agent_of_id [OF that(1)] that(2) set have "drivers a q = []" by (auto simp: expired_settled_def)
      with it Arrival show False by (auto simp: drivers_def drives_def filter_empty_conv)
    qed
    with Arrival show ?thesis by (auto simp: returns_expired_def split: option.splits)
  qed (simp_all add: returns_expired_def)
  have "uncharged (fleet s') e = uncharged (fleet s) e" for e
    using uncharged_step [OF st tm, of e] none by auto
  then have "charged s'" using ch by (simp add: charged_def)
  moreover have "expired_settled (remove1 it q @ new) s'"
    using expired_settled_kept [OF wf timed _ set it least h] cover i by simp
  ultimately show "covered cf i (remove1 it q @ new) s'"
    using sim_wf_kept [OF wf it h] itinerary_kept [OF wf h] i cover all_timed_kept [OF wf timed it h]
      sets_exact_step [OF st sets tm] by (simp add: covered_def)
qed

section \<open>The books balance\<close>

lemma new_simulation_fresh:
  assumes new: "new_simulation events n tokens snaps scale deadline policy bw fixed keep = Inr (cf, s)"
  shows "ag \<in> set (sm_agents s) \<Longrightarrow> ag_phase ag = PNew \<and> ag_next_event ag = 0 \<and> ag_events ag \<noteq> []"
    and "uncharged (fleet s) e = (0, 0)"
proof -
  note c = new_simulation_config [OF new] and ags = new_simulation_agents [OF new]
  show fresh: "ag_phase ag = PNew \<and> ag_next_event ag = 0 \<and> ag_events ag \<noteq> []" if "ag \<in> set (sm_agents s)" for ag
    using ags(2) [OF that] by (metis agent_runtime.select_convs(3,4) new_agent_runtime_def)
  have "held_tokens e ags = 0 \<and> held_states e ags = 0" if "\<forall>ag \<in> set ags. ag_phase ag = PNew" for ags
    using that by (induction ags) (auto simp: held_tokens_def held_states_def held_def)
  then show "uncharged (fleet s) e = (0, 0)" using fresh c(10,11) by (simp add: uncharged_def fleet_def)
qed

lemma new_simulation_covered:
  assumes new: "new_simulation events n tokens snaps scale deadline policy bw fixed keep = Inr (cf, s)"
    and cover: "\<forall>ev \<in> set events. \<forall>ev' \<in> set events. ev_agent_id ev = ev_agent_id ev' \<longrightarrow>
      ev_arrival_rel_s ev' < ev_tool_end_rel_s ev + keep"
  shows "covered cf (itinerary s) (initial_timeline cf s) s"
proof -
  note c = new_simulation_config [OF new] and ags = new_simulation_agents [OF new]
  have keep: "cf_retention_seconds cf = keep"
    using new by (auto simp: new_simulation_def Let_def split: sum.splits)
  note fresh = new_simulation_fresh(1) [OF new]
  have rows: "ev \<in> set events \<and> ev_agent_id ev = ag_agent_id ag" if "ag \<in> set (sm_agents s)" "ev \<in> set (ag_events ag)" for ag ev
  proof -
    have "ag_events ag = sort_key ev_turn_index (filter (\<lambda>e. ev_agent_id e = ag_agent_id ag) (cf_events cf))"
      using ags(2) [OF that(1)] by simp
    then have "ev \<in> set (filter (\<lambda>e. ev_agent_id e = ag_agent_id ag) (cf_events cf))" using that(2) by (metis set_sort)
    then show ?thesis using c(3) by simp
  qed
  have "retention_covers cf (itinerary s)"
    using rows cover keep by (auto simp: retention_covers_def itinerary_def)
  moreover have "all_timed cf (initial_timeline cf s) s"
    unfolding all_timed_def
  proof (intro ballI allI impI)
    fix it a ag
    assume it: "it \<in> set (initial_timeline cf s)" and k: "kind_agent (snd (snd it)) = Some a"
      and ag: "agent_of (sm_agents s) a = Some ag"
    have "it \<in> set (List.map_filter first_arrival (sm_agents s))" using it k by (auto simp: initial_timeline_alt)
    then obtain y where y: "y \<in> set (sm_agents s)" "first_arrival y = Some it" by (auto simp: mem_map_filter)
    then have "snd (snd it) = Arrival (ag_agent_id y)" by (auto simp: first_arrival_def split: list.splits)
    with k agent_of_distinct [OF ags(1) y(1)] ag have "y = ag" by simp
    with y fresh [of ag] show "timed cf ag it" by (auto simp: first_arrival_def timed_def split: list.splits)
  qed
  moreover have "expired_settled (initial_timeline cf s) s" using fresh by (auto simp: expired_settled_def)
  moreover have "charged s" using new_simulation_fresh(2) [OF new] by (simp add: charged_def)
  moreover have "in_phase ps e (sm_agents s) = {}" if "PNew \<notin> ps" for ps e
    using fresh that agent_of_id by (auto simp: in_phase_def)
  then have "sets_exact (fleet s)" using c(8,9) by (simp add: sets_exact_def fleet_def)
  ultimately show ?thesis using new_simulation_wf [OF new] by (simp add: covered_def)
qed

text \<open>What the invariant says of the books of an engine.\<close>

lemma covered_books:
  assumes c: "covered cf i q s"
  shows "sm_used_tokens s e = held_tokens e (sm_agents s)" and "sm_used_snapshots s e = held_states e (sm_agents s)"
    and "int (card (sm_active s e)) + int (card (sm_warm s e)) = held_states e (sm_agents s)"
proof -
  have wf: "sim_wf cf q s" and ch: "charged s" and sets: "sets_exact (fleet s)" using c by (simp_all add: covered_def)
  show "sm_used_tokens s e = held_tokens e (sm_agents s)" "sm_used_snapshots s e = held_states e (sm_agents s)"
    using ch by (simp_all add: charged_def uncharged_def fleet_def)
  show "int (card (sm_active s e)) + int (card (sm_warm s e)) = held_states e (sm_agents s)"
    using wf sets by (intro load_counts_held) (auto simp: fleet_def sim_wf_def)
qed

text \<open>
  C24. Capacity: under every policy but the stateless one, in any state a replay reaches, no
  engine's counters of used tokens and snapshots exceed its slots; and if the retention
  outlasts every agent's last arrival, neither do the tokens of the states it holds nor their
  number, its load.
\<close>

theorem replay_within_capacity:
  assumes new: "new_simulation events n tokens snaps scale deadline policy bw fixed keep = Inr (cf, s)"
    and trace: "\<forall>ev \<in> set events. event_ok cf ev" and pol: "policy \<noteq> ''stateless-reroute''" and slots: "0 \<le> tokens" "0 \<le> snaps"
    and run: "(sim_step cf)\<^sup>*\<^sup>* (initial_timeline cf s, s) (q', s')"
  shows "sm_used_tokens s' e \<le> tokens \<and> sm_used_snapshots s' e \<le> snaps \<and>
    ((\<forall>ev \<in> set events. \<forall>ev' \<in> set events. ev_agent_id ev = ev_agent_id ev' \<longrightarrow>
        ev_arrival_rel_s ev' < ev_tool_end_rel_s ev + keep) \<longrightarrow>
     held_tokens e (sm_agents s') \<le> tokens \<and> int (card (sm_active s' e)) + int (card (sm_warm s' e)) \<le> snaps)"
proof (intro conjI impI)
  show used: "sm_used_tokens s' e \<le> tokens" "sm_used_snapshots s' e \<le> snaps"
    using counters_within_capacity [OF new trace pol slots run] by simp_all
  assume cover: "\<forall>ev \<in> set events. \<forall>ev' \<in> set events. ev_agent_id ev = ev_agent_id ev' \<longrightarrow>
      ev_arrival_rel_s ev' < ev_tool_end_rel_s ev + keep"
  note books = covered_books [OF retention.along [OF run new_simulation_covered [OF new cover]], of e]
  show "held_tokens e (sm_agents s') \<le> tokens" "int (card (sm_active s' e)) + int (card (sm_warm s' e)) \<le> snaps"
    using used books by simp_all
qed

text \<open>
  C25. When the retention outlasts every agent's last arrival, the books are exact in every
  state a replay reaches: the tokens charged to an engine are those of the agents it holds,
  its snapshots are as many as its load, and at the end of a replay both are 0 on every
  engine, whatever was moved.
\<close>

theorem books_balance_under_retention:
  assumes new: "new_simulation events n tokens snaps scale deadline policy bw fixed keep = Inr (cf, s)"
    and cover: "\<forall>ev \<in> set events. \<forall>ev' \<in> set events. ev_agent_id ev = ev_agent_id ev' \<longrightarrow>
      ev_arrival_rel_s ev' < ev_tool_end_rel_s ev + keep"
    and run: "(sim_step cf)\<^sup>*\<^sup>* (initial_timeline cf s, s) (q', s')"
  shows "sm_used_tokens s' e = held_tokens e (sm_agents s') \<and>
    sm_used_snapshots s' e = int (card (sm_active s' e)) + int (card (sm_warm s' e)) \<and>
    (q' = [] \<longrightarrow> sm_used_tokens s' e = 0 \<and> sm_used_snapshots s' e = 0)"
proof -
  have c: "covered cf (itinerary s) q' s'" by (rule retention.along [OF run new_simulation_covered [OF new cover]])
  note books = covered_books [OF c, of e]
  have wf: "sim_wf cf q' s'" using c by (simp add: covered_def)
  have "held_tokens e (sm_agents s') = 0 \<and> held_states e (sm_agents s') = 0" if "q' = []"
  proof -
    have "\<forall>ag \<in> set (sm_agents s'). \<not> held e ag" using wf_turns_over wf that by (fastforce simp: turns_over_def held_def)
    then show ?thesis by (simp add: held_tokens_def held_states_def cong: map_cong)
  qed
  then show ?thesis using books by simp
qed

section \<open>What the report calls final\<close>

definition overcharged :: "sim \<Rightarrow> bool" where
  "overcharged s \<longleftrightarrow> (\<exists>e. snd (uncharged (fleet s) e) < 0)"

lemma overcharged_step:
  assumes wf: "sim_wf cf q s" and none: "\<not> overcharged s" and it: "it \<in> set q" and h: "handle_item cf it s = Inr (s', new)"
  shows "\<not> overcharged s'"
proof -
  have "config_ok cf" using wf by (simp add: sim_wf_def)
  from handler_books [OF h this] have st: "fleet_step cf (snd (snd it)) (fleet s) (fleet s')" ..
  have tm: "timely (snd (snd it)) (fst (fleet s))" using wf_timely [OF wf it] by simp
  have "0 \<le> snd (uncharged (fleet s') e)" for e
    using uncharged_step [OF st tm, of e] none by (auto simp: overcharged_def not_less)
  then show ?thesis by (auto simp: overcharged_def not_less)
qed

interpretation charges: sim_invariant cf "\<lambda>q s. sim_wf cf q s \<and> \<not> overcharged s" for cf
proof (unfold_locales, elim conjE, intro conjI)
  fix q s it s' new
  assume *: "sim_wf cf q s" "\<not> overcharged s" "it \<in> set q" "handle_item cf it s = Inr (s', new)"
  show "sim_wf cf (remove1 it q @ new) s'" by (rule sim_wf_kept [OF *(1,3,4)])
  show "\<not> overcharged s'" by (rule overcharged_step [OF *])
qed

text \<open>
  The report's \<open>final_retiring_snapshots\<close> and \<open>final_owner_distribution\<close> are never
  positive, for any trace, fleet and policy, whatever the retiring engines held at the
  deadline: they are read after the loop has let every state expire.
\<close>

theorem final_snapshots_never_positive:
  assumes new: "new_simulation events n tokens snaps scale deadline policy bw fixed keep = Inr (cf, s)"
    and run: "run_simulation percentile cf s = Inr r"
  shows "sr_final_retiring_snapshots r \<le> 0 \<and> (\<forall>(e, k) \<in> set (sr_final_owner_distribution r). k \<le> 0)"
proof -
  from run obtain s' where rep: "replay cf (initial_timeline cf s) s = Inr s'" and r: "sim_report percentile cf s' = Inr r"
    by (auto simp: run_simulation_def split: sum.splits)
  have "\<not> overcharged s"
    using new_simulation_fresh(2) [OF new] by (simp add: overcharged_def)
  with new_simulation_wf [OF new] have start: "sim_wf cf (initial_timeline cf s) s \<and> \<not> overcharged s" by simp
  from charges.at_end [OF rep start] have wf: "sim_wf cf [] s'" and oc: "\<not> overcharged s'" by simp_all
  have "held_states e (sm_agents s') = 0" for e
  proof -
    have "\<forall>ag \<in> set (sm_agents s'). \<not> held e ag" using wf_turns_over [OF wf] by (fastforce simp: turns_over_def held_def)
    then show ?thesis by (simp add: held_states_def cong: map_cong)
  qed
  then have "sm_used_snapshots s' e \<le> 0" for e
    using oc by (auto simp: overcharged_def uncharged_def fleet_def not_less)
  moreover from this have "sum (sm_used_snapshots s') A \<le> 0" for A by (rule sum_nonpos)
  ultimately show ?thesis using r by (auto simp: sim_report_def Let_def split: sum.splits)
qed

section \<open>Runs\<close>

text \<open>
  Two turns of an agent, with time between them or not. Under a short retention the first
  timer expires the state of the second turn early, or the agent comes back after it expired
  and is charged for its growth only, so that its next expiry takes the counts below 0.
\<close>

definition solo_run :: "seconds \<Rightarrow> seconds \<Rightarrow> exn + sim" where
  "solo_run second keep =
     (case new_simulation [demo_row ''a'' 0 100 0, demo_row ''a'' 1 120 second] 2 1000 4 100 9 ''sticky'' 1 0 keep of
        Inl e \<Rightarrow> Inl e
      | Inr (cf, s) \<Rightarrow> replay cf (initial_timeline cf s) s)"

lemma early_expiry_run:
  "(case solo_run 3 5 of Inl _ \<Rightarrow> False | Inr s \<Rightarrow>
     map (\<lambda>x. (fst x, hd (snd x))) (sm_load_samples s) = [(1, 1), (4, 1), (9, 0), (100, 0)])"
  by code_simp

lemma returning_agent_run:
  "(case solo_run 10 4 of Inl _ \<Rightarrow> False | Inr s \<Rightarrow>
     sm_used_tokens s ''engine-00'' = - 100 \<and> sm_used_snapshots s ''engine-00'' = - 1 \<and> sm_cache_hit_tokens s = 100)"
  by code_simp

text \<open>
  The retention timer of an earlier turn is not cancelled: with 5 seconds of retention
  and a last tool call that ends at 6, the deadline sample at 9 finds the agent's state gone,
  two seconds before its retention is over.
\<close>

theorem earlier_timer_expires_state:
  "\<exists>s ev. solo_run 3 5 = Inr s \<and> ev = demo_row ''a'' 1 120 3 \<and> ev_tool_end_rel_s ev \<le> 9 \<and> 9 < ev_tool_end_rel_s ev + 5 \<and>
     (\<exists>loads. (9, loads) \<in> set (sm_load_samples s) \<and> hd loads = 0)"
proof -
  from early_expiry_run obtain s where s: "solo_run 3 5 = Inr s"
    "map (\<lambda>x. (fst x, hd (snd x))) (sm_load_samples s) = [(1, 1), (4, 1), (9, 0), (100, 0)]" by (auto split: sum.splits)
  have "(9, 0) \<in> set (map (\<lambda>x. (fst x, hd (snd x))) (sm_load_samples s))" unfolding s(2) by simp
  then show ?thesis using s(1) by (auto simp: demo_row_def)
qed

text \<open>
  An agent that arrives after its state expired is charged the growth of its prompt
  only and counted as a cache hit: its next expiry leaves its engine with a negative number
  of used tokens and snapshots.
\<close>

theorem returning_agent_undercharged:
  "\<exists>s. solo_run 10 4 = Inr s \<and> sm_used_tokens s ''engine-00'' < 0 \<and> sm_used_snapshots s ''engine-00'' < 0 \<and>
     0 < sm_cache_hit_tokens s"
  using returning_agent_run by (auto split: sum.splits)

text \<open>
  Without that retention an engine can hold more states than it has slots for: one snapshot
  slot, and an agent that comes back after its state expired while another one has taken the
  slot. It is admitted without a snapshot, so at the deadline the engine holds two states.
\<close>

definition crowded_run :: "exn + sim" where
  "crowded_run =
     (case new_simulation [demo_row ''a'' 0 100 0, demo_row ''b'' 0 50 8, demo_row ''a'' 1 120 9] 2 1000 1 100 10 ''sticky'' 1 0 4 of
        Inl e \<Rightarrow> Inl e
      | Inr (cf, s) \<Rightarrow> replay cf (initial_timeline cf s) s)"

theorem returning_agent_overfills_engine:
  "(case crowded_run of Inl _ \<Rightarrow> False | Inr s \<Rightarrow> (10, [2, 0]) \<in> set (sm_load_samples s))"
  by code_simp

section \<open>Witnesses\<close>

theorem replay_within_capacity_witness:
  "\<exists>cf s s'. demo_simulation ''heterogeneous'' 300 = Inr (cf, s) \<and> replay cf (initial_timeline cf s) s = Inr s' \<and>
     sm_used_tokens s' ''engine-01'' \<le> 1000 \<and> sm_used_snapshots s' ''engine-01'' \<le> 4 \<and>
     held_tokens ''engine-01'' (sm_agents s') \<le> 1000"
proof -
  obtain cf s where new: "demo_simulation ''heterogeneous'' 300 = Inr (cf, s)" using demo_simulation_new by blast
  note n = new [unfolded demo_simulation_def] and ok = demo_trace_ok [OF new]
  from replay_returns [OF n ok] obtain s' where r: "replay cf (initial_timeline cf s) s = Inr s'"
    by (auto simp: known_policies_def)
  have "\<forall>ev \<in> set demo_trace. \<forall>ev' \<in> set demo_trace. ev_agent_id ev = ev_agent_id ev' \<longrightarrow>
      ev_arrival_rel_s ev' < ev_tool_end_rel_s ev + 300"
    by (simp add: demo_trace_def demo_row_def)
  then show ?thesis using replay_within_capacity [OF n ok _ _ _ replay_reaches [OF r], of "''engine-01''"] new r by auto
qed

theorem migrations_are_logged_and_avoid_retiring_witness:
  "\<exists>cf s s'. demo_simulation ''heterogeneous'' 300 = Inr (cf, s) \<and> replay cf (initial_timeline cf s) s = Inr s' \<and>
     books_agree s' \<and> \<not> scheduled Scale []"
proof -
  obtain cf s where new: "demo_simulation ''heterogeneous'' 300 = Inr (cf, s)" using demo_simulation_new by blast
  note n = new [unfolded demo_simulation_def]
  from replay_returns [OF n demo_trace_ok [OF new]] obtain s' where r: "replay cf (initial_timeline cf s) s = Inr s'"
    by (auto simp: known_policies_def)
  from migrations_are_logged_and_avoid_retiring [OF n replay_reaches [OF r] rtranclp.rtrancl_refl] new r
  show ?thesis by auto
qed

theorem books_balance_under_retention_witness:
  "\<exists>cf s s'. demo_simulation ''heterogeneous'' 300 = Inr (cf, s) \<and> replay cf (initial_timeline cf s) s = Inr s' \<and>
     sm_used_tokens s' ''engine-00'' = 0 \<and> sm_used_snapshots s' ''engine-01'' = 0"
proof -
  obtain cf s where new: "demo_simulation ''heterogeneous'' 300 = Inr (cf, s)" using demo_simulation_new by blast
  note n = new [unfolded demo_simulation_def]
  from replay_returns [OF n demo_trace_ok [OF new]] obtain s' where r: "replay cf (initial_timeline cf s) s = Inr s'"
    by (auto simp: known_policies_def)
  have "\<forall>ev \<in> set demo_trace. \<forall>ev' \<in> set demo_trace. ev_agent_id ev = ev_agent_id ev' \<longrightarrow>
      ev_arrival_rel_s ev' < ev_tool_end_rel_s ev + 300"
    by (simp add: demo_trace_def demo_row_def)
  from books_balance_under_retention [OF n this replay_reaches [OF r]]
  have "sm_used_tokens s' e = 0 \<and> sm_used_snapshots s' e = 0" for e by blast
  with new r show ?thesis by blast
qed

theorem final_snapshots_never_positive_witness:
  "\<exists>cf s r. demo_simulation ''sticky'' 300 = Inr (cf, s) \<and> run_simulation (\<lambda>_. Inr [0, 0]) cf s = Inr r \<and>
     sr_final_retiring_snapshots r \<le> 0"
proof -
  obtain cf s where new: "demo_simulation ''sticky'' 300 = Inr (cf, s)" using demo_simulation_new by blast
  note n = new [unfolded demo_simulation_def]
  from replay_returns [OF n demo_trace_ok [OF new]] obtain s' where "replay cf (initial_timeline cf s) s = Inr s'"
    by (auto simp: known_policies_def)
  then obtain r where r: "run_simulation (\<lambda>_. Inr [0, 0]) cf s = Inr r"
    by (simp add: run_simulation_def sim_report_def Let_def)
  from final_snapshots_never_positive [OF n r] new r show ?thesis by auto
qed

end
