(* ===== verification/TraceStretch.thy ===== *)
theory TraceStretch
  imports SimulationProps
begin

text \<open>
  \<open>scale_tool_gaps\<close> of \<open>sweep_global_mobility.py\<close>: what stretching a trace's tool calls keeps.
\<close>

section \<open>Chained rows\<close>

text \<open>
  Rows of one agent that follow each other: a turn starts where the last tool call ended, its
  tool call starts after the model's time, and takes its duration.
\<close>

fun chained :: "seconds option \<Rightarrow> sim_event list \<Rightarrow> bool" where
  "chained previous [] \<longleftrightarrow> True"
| "chained previous (row # rows) \<longleftrightarrow>
     (case previous of None \<Rightarrow> True | Some t \<Rightarrow> ev_arrival_rel_s row = t) \<and>
     ev_tool_start_rel_s row = ev_arrival_rel_s row + ev_llm_e2e_template_s row \<and>
     ev_tool_end_rel_s row = ev_tool_start_rel_s row + ev_tool_duration_s row \<and>
     chained (Some (ev_tool_end_rel_s row)) rows"

lemma stretch_chained: "chained p (stretch_rows m p rows)"
  by (induction m p rows rule: stretch_rows.induct) (auto simp: Let_def split: option.splits)

lemma stretch_one: "chained p rows \<Longrightarrow> stretch_rows 1 p rows = rows"
  by (induction p rows rule: chained.induct) (auto simp: Let_def split: option.splits)

text \<open>What a row keeps when it is stretched.\<close>

definition timeless :: "sim_event \<Rightarrow> sim_event" where
  "timeless ev = ev\<lparr>ev_arrival_rel_s := 0, ev_tool_duration_s := 0, ev_tool_start_rel_s := 0, ev_tool_end_rel_s := 0\<rparr>"

lemma stretch_timeless: "map timeless (stretch_rows m p rows) = map timeless rows"
  by (induction m p rows rule: stretch_rows.induct) (simp_all add: Let_def timeless_def)

lemma stretch_durations: "map ev_tool_duration_s (stretch_rows m p rows) = map (\<lambda>r. ev_tool_duration_s r * m) rows"
  by (induction m p rows rule: stretch_rows.induct) (simp_all add: Let_def)

section \<open>Grouped traces\<close>

lemma mset_append_rows:
  "distinct (map fst m) \<Longrightarrow>
     mset (concat (map snd (fold append_row events m))) = mset (concat (map snd m)) + mset events"
proof (induction events arbitrary: m)
  case (Cons e events)
  have one: "distinct (map fst m) \<Longrightarrow> mset (concat (map snd (AList.update k (rows @ [e]) m))) + mset (case map_of m k of None \<Rightarrow> [] | Some r \<Rightarrow> r) =
      mset (concat (map snd m)) + mset rows + {#e#}" for k rows
    by (induction m) (auto split: option.splits)
  have "mset (concat (map snd (append_row e m))) = mset (concat (map snd m)) + {#e#}"
    using one [OF Cons.prems, of "ev_agent_id e" "case map_of m (ev_agent_id e) of None \<Rightarrow> [] | Some r \<Rightarrow> r"]
    by (simp add: append_row_def split: option.splits)
  moreover have "distinct (map fst (append_row e m))" using append_row_keys [OF Cons.prems, of "[e]"] by simp
  ultimately show ?case using Cons.IH by simp
qed simp

lemma mset_groups: "mset (concat (map snd (group_by_agent events))) = mset events"
proof -
  have "mset (concat (map (\<lambda>x. sort_key ev_turn_index (snd x)) m)) = mset (concat (map snd m))"
    for m :: "(agent_id \<times> sim_event list) list"
    by (induction m) simp_all
  then show ?thesis using mset_append_rows [of "[]" events]
    by (simp add: group_by_agent_def case_prod_beta comp_def)
qed

text \<open>
  Stretching a trace by 1 gives its rows back: on a trace whose agents' turns follow
  each other, as the manifest builder writes it, the result has the same rows, in the order
  of arrival. By any factor, the rows keep everything but their times.
\<close>

theorem unit_stretch_keeps_trace:
  shows "mset (map timeless (scale_tool_gaps events m)) = mset (map timeless events) \<and>
    sorted (map ev_arrival_rel_s (scale_tool_gaps events m)) \<and>
    ((\<forall>(a, rows) \<in> set (group_by_agent events). chained None rows) \<longrightarrow> mset (scale_tool_gaps events 1) = mset events)"
proof (intro conjI impI)
  have "mset (map timeless (concat (map (\<lambda>(_, rows). stretch_rows m None rows) g))) =
      mset (map timeless (concat (map snd g)))" for g :: "(agent_id \<times> sim_event list) list"
    by (induction g) (auto simp: stretch_timeless simp flip: mset_map)
  from this [of "group_by_agent events"] mset_groups [of events]
  show "mset (map timeless (scale_tool_gaps events m)) = mset (map timeless events)"
    by (simp add: scale_tool_gaps_def)
  show "sorted (map ev_arrival_rel_s (scale_tool_gaps events m))" by (simp add: scale_tool_gaps_def)
  assume "\<forall>(a, rows) \<in> set (group_by_agent events). chained None rows"
  then have "map (\<lambda>(_, rows). stretch_rows 1 None rows) (group_by_agent events) = map snd (group_by_agent events)"
    by (auto simp: stretch_one)
  then show "mset (scale_tool_gaps events 1) = mset events"
    unfolding scale_tool_gaps_def mset_sort by (simp only: mset_groups)
qed

theorem unit_stretch_keeps_trace_witness:
  "mset (scale_tool_gaps demo_trace 1) = mset demo_trace"
proof -
  have "\<forall>(a, rows) \<in> set (group_by_agent demo_trace). chained None rows" by code_simp
  with unit_stretch_keeps_trace [of demo_trace 1] show ?thesis by blast
qed

end
