(* ===== verification/HandoffOrder.thy ===== *)
theory HandoffOrder
  imports Prelude "HOL-Library.Multiset"
begin

text \<open>
  \<open>order_admissible_first\<close> of \<open>agentshift/controller/placement.py\<close>: the order in which a
  serial handoff channel serves its jobs. Jobs are taken by deadline; when the admitted
  ones no longer meet the deadline of the last, the longest of them is deferred. The
  lemmas prove what its docstring says: no order of the jobs has more of them on time.
\<close>

text \<open>The loop state: admitted and deferred jobs, in the order they were appended, and \<open>elapsed\<close>.\<close>

fun admit_loop ::
  "('a \<Rightarrow> seconds) \<Rightarrow> ('a \<Rightarrow> seconds) \<Rightarrow> ('a \<Rightarrow> int) \<Rightarrow> 'a list \<Rightarrow> 'a list \<Rightarrow> 'a list \<Rightarrow> seconds \<Rightarrow>
   'a list \<times> 'a list" where
  "admit_loop deadline dur bytes [] admitted deferred elapsed = (admitted, deferred)"
| "admit_loop deadline dur bytes (item # items) admitted deferred elapsed =
     (let admitted = admitted @ [item]; elapsed = elapsed + dur item in
      if deadline item < elapsed then
        let longest = max_by (\<lambda>c. (dur c, bytes c)) (hd admitted) (tl admitted) in
        admit_loop deadline dur bytes items (remove1 longest admitted) (deferred @ [longest]) (elapsed - dur longest)
      else admit_loop deadline dur bytes items admitted deferred elapsed)"

definition order_admissible_first ::
  "('a \<Rightarrow> seconds) \<Rightarrow> ('a \<Rightarrow> seconds) \<Rightarrow> ('a \<Rightarrow> int) \<Rightarrow> 'a list \<Rightarrow> 'a list" where
  "order_admissible_first deadline dur bytes items =
     (case admit_loop deadline dur bytes (sort_key deadline items) [] [] 0 of
        (admitted, deferred) \<Rightarrow> admitted @ sort_key (\<lambda>i. (deadline i, dur i)) deferred)"

section \<open>Schedules\<close>

text \<open>How many jobs of a serial schedule finish by their deadline, starting at a given time.\<close>

fun on_time_from :: "('a \<Rightarrow> seconds) \<Rightarrow> ('a \<Rightarrow> seconds) \<Rightarrow> seconds \<Rightarrow> 'a list \<Rightarrow> nat" where
  "on_time_from deadline dur t [] = 0"
| "on_time_from deadline dur t (x # xs) =
     (if t + dur x \<le> deadline x then 1 else 0) + on_time_from deadline dur (t + dur x) xs"

definition work :: "('a \<Rightarrow> seconds) \<Rightarrow> 'a multiset \<Rightarrow> seconds" where
  "work dur S = sum_mset (image_mset dur S)"

text \<open>
  A set of jobs is feasible when some order meets all its deadlines; for nonnegative
  durations this is: by each of its deadlines, the jobs due by then fit.
\<close>

definition feasible :: "('a \<Rightarrow> seconds) \<Rightarrow> ('a \<Rightarrow> seconds) \<Rightarrow> 'a multiset \<Rightarrow> bool" where
  "feasible deadline dur S \<longleftrightarrow>
     (\<forall>u \<in># S. work dur (filter_mset (\<lambda>v. deadline v \<le> deadline u) S) \<le> deadline u)"

lemma work_simps [simp]:
  "work dur {#} = 0" "work dur (add_mset x S) = dur x + work dur S" "work dur (S + T) = work dur S + work dur T"
  by (simp_all add: work_def)

lemma work_nonneg: "(\<And>x. 0 \<le> dur x) \<Longrightarrow> 0 \<le> work dur S"
  by (induction S) auto

lemma work_mono:
  assumes "S \<subseteq># T" and "\<And>x. 0 \<le> dur x"
  shows "work dur S \<le> work dur T"
proof -
  have "T = S + (T - S)" using assms(1) by (simp add: subset_mset.add_diff_inverse)
  then have "work dur T = work dur S + work dur (T - S)" by (metis work_simps(3))
  moreover have "0 \<le> work dur (T - S)" using assms(2) by (rule work_nonneg)
  ultimately show ?thesis by simp
qed

lemma feasible_subset:
  assumes "feasible deadline dur T" and "S \<subseteq># T" and "\<And>x. 0 \<le> dur x"
  shows "feasible deadline dur S"
  unfolding feasible_def
proof
  fix u assume u: "u \<in># S"
  then have "u \<in># T" using assms(2) by (rule mset_subset_eqD [rotated])
  have "work dur (filter_mset (\<lambda>v. deadline v \<le> deadline u) S) \<le> work dur (filter_mset (\<lambda>v. deadline v \<le> deadline u) T)"
    by (rule work_mono [OF multiset_filter_mono [OF assms(2)] assms(3)])
  also have "\<dots> \<le> deadline u" using assms(1) \<open>u \<in># T\<close> by (simp add: feasible_def)
  finally show "work dur (filter_mset (\<lambda>v. deadline v \<le> deadline u) S) \<le> deadline u" .
qed

text \<open>The on-time jobs of any schedule form a feasible set.\<close>

lemma on_time_feasible:
  assumes nonneg: "\<And>x. 0 \<le> dur x"
  shows "\<exists>U. U \<subseteq># mset xs \<and> size U = on_time_from deadline dur t xs \<and>
    (\<forall>u \<in># U. t + work dur (filter_mset (\<lambda>v. deadline v \<le> deadline u) U) \<le> deadline u)"
proof (induction xs arbitrary: t)
  case (Cons x xs)
  obtain U where U: "U \<subseteq># mset xs" "size U = on_time_from deadline dur (t + dur x) xs"
    "\<forall>u \<in># U. t + dur x + work dur (filter_mset (\<lambda>v. deadline v \<le> deadline u) U) \<le> deadline u"
    using Cons.IH by blast
  show ?case
  proof (cases "t + dur x \<le> deadline x")
    case True
    have "t + work dur (filter_mset (\<lambda>v. deadline v \<le> deadline u) (add_mset x U)) \<le> deadline u" if "u \<in># add_mset x U" for u
    proof (cases "u \<in># U")
      case True
      have "t + work dur (filter_mset (\<lambda>v. deadline v \<le> deadline u) (add_mset x U)) \<le>
          t + dur x + work dur (filter_mset (\<lambda>v. deadline v \<le> deadline u) U)"
        using nonneg [of x] by simp
      then show ?thesis using U(3) True by force
    next
      case False
      then have u: "u = x" using that by simp
      let ?F = "filter_mset (\<lambda>v. deadline v \<le> deadline x) U"
      show ?thesis
      proof (cases "?F = {#}")
        case True
        from arg_cong [OF this, of "work dur"] show ?thesis using \<open>t + dur x \<le> deadline x\<close> u by simp
      next
        case False
        then have "Max (deadline ` set_mset ?F) \<in> deadline ` set_mset ?F" by (intro Max_in) auto
        then obtain w where w: "w \<in># ?F" "Max (deadline ` set_mset ?F) = deadline w" by blast
        have le: "deadline v \<le> deadline w" if "v \<in># ?F" for v
          using that w(2) by (metis Max_ge finite_imageI finite_set_mset image_eqI)
        have "?F \<subseteq># filter_mset (\<lambda>v. deadline v \<le> deadline w) U"
        proof (rule mset_subset_eqI)
          fix v
          show "count ?F v \<le> count (filter_mset (\<lambda>v. deadline v \<le> deadline w) U) v"
            using le [of v] by (cases "v \<in># ?F") (auto simp: not_in_iff)
        qed
        then have "t + dur x + work dur ?F \<le> deadline w"
          using work_mono [of ?F "filter_mset (\<lambda>v. deadline v \<le> deadline w) U" dur] nonneg U(3) w(1) by fastforce
        then show ?thesis using w(1) u by simp
      qed
    qed
    then show ?thesis using U(1,2) True by (intro exI [where x = "add_mset x U"]) auto
  next
    case False
    have "t + work dur (filter_mset (\<lambda>v. deadline v \<le> deadline u) U) \<le> deadline u" if "u \<in># U" for u
      using U(3) that nonneg [of x] by force
    then show ?thesis using U(1,2) False by (intro exI [where x = U]) (auto simp: subset_mset.le_supI1 intro: subset_mset.trans)
  qed
qed simp

section \<open>The loop keeps a best admitted set\<close>

text \<open>
  \<open>A\<close> is best among the jobs \<open>M\<close> seen so far: feasible, and every feasible set of seen
  jobs is matched by a part of \<open>A\<close> of the same size that takes no longer.
\<close>

definition best_admitted ::
  "('a \<Rightarrow> seconds) \<Rightarrow> ('a \<Rightarrow> seconds) \<Rightarrow> 'a multiset \<Rightarrow> 'a multiset \<Rightarrow> bool" where
  "best_admitted deadline dur M A \<longleftrightarrow> A \<subseteq># M \<and> feasible deadline dur A \<and>
     (\<forall>S. S \<subseteq># M \<longrightarrow> feasible deadline dur S \<longrightarrow> (\<exists>T. T \<subseteq># A \<and> size T = size S \<and> work dur T \<le> work dur S))"

lemma subset_add_notin: "S \<subseteq># add_mset j M \<Longrightarrow> j \<notin># S \<Longrightarrow> S \<subseteq># M"
  by (metis diff_single_trivial subset_eq_diff_conv add_mset_add_single)

lemma subset_add_max:
  assumes "S \<subseteq># add_mset j M" and "\<forall>v \<in># M. P v" and "P j"
  shows "\<forall>v \<in># S. P v"
  using assms by (auto dest!: mset_subset_eqD)

lemma subset_add_missing:
  assumes "T \<subseteq># A" and "y \<in># A - T"
  shows "add_mset y T \<subseteq># A"
proof -
  have "T + (A - T) = A" using assms(1) by (rule subset_mset.add_diff_inverse)
  moreover have "A - T = {#y#} + (A - T - {#y#})" using insert_DiffM [OF assms(2)] by simp
  ultimately have "A = add_mset y T + (A - T - {#y#})"
    by (metis add_mset_add_single union_assoc union_commute)
  then show ?thesis by (metis mset_subset_eq_add_left)
qed

lemma feasible_total:
  assumes "feasible deadline dur A" and "A \<noteq> {#}" and "\<forall>v \<in># A. deadline v \<le> d"
  shows "work dur A \<le> d"
proof -
  have "Max (deadline ` set_mset A) \<in> deadline ` set_mset A" using assms(2) by (intro Max_in) auto
  then obtain w where w: "w \<in># A" "Max (deadline ` set_mset A) = deadline w" by blast
  then have "deadline v \<le> deadline w" if "v \<in># A" for v
    using that by (metis Max_ge finite_imageI finite_set_mset image_eqI)
  then have "filter_mset (\<lambda>v. deadline v \<le> deadline w) A = A" by (simp add: filter_mset_eq_conv)
  then have "work dur A \<le> deadline w" using assms(1) w(1) by (auto simp: feasible_def dest!: bspec)
  then show ?thesis using assms(3) w(1) by force
qed

lemma feasible_add:
  assumes A: "feasible deadline dur A" and last: "\<forall>v \<in># A. deadline v \<le> deadline j"
    and B: "B \<subseteq># add_mset j A" and fits: "B \<noteq> {#} \<Longrightarrow> work dur B \<le> deadline j" and nonneg: "\<And>x. 0 \<le> dur x"
  shows "feasible deadline dur B"
  unfolding feasible_def
proof
  fix u assume u: "u \<in># B"
  let ?le = "\<lambda>v. deadline v \<le> deadline u"
  show "work dur (filter_mset ?le B) \<le> deadline u"
  proof (cases "deadline j \<le> deadline u")
    case True
    have "work dur (filter_mset ?le B) \<le> work dur B" by (rule work_mono [OF multiset_filter_subset nonneg])
    also have "work dur B \<le> deadline j" using u by (intro fits) auto
    finally show ?thesis using True by simp
  next
    case False
    then have "u \<in># A" using u mset_subset_eqD [OF B] by fastforce
    have "filter_mset ?le B \<subseteq># filter_mset ?le A"
      using multiset_filter_mono [OF B, of ?le] False by simp
    then have "work dur (filter_mset ?le B) \<le> work dur (filter_mset ?le A)" by (rule work_mono [OF _ nonneg])
    also have "\<dots> \<le> deadline u" using A \<open>u \<in># A\<close> by (simp add: feasible_def)
    finally show ?thesis .
  qed
qed

lemma dominated_add:
  assumes best: "best_admitted deadline dur M A" and nonneg: "\<And>x. 0 \<le> dur x"
    and S: "S \<subseteq># add_mset j M" "feasible deadline dur S"
  shows "\<exists>T. T \<subseteq># add_mset j A \<and> size T = size S \<and> work dur T \<le> work dur S \<and>
    (T \<subseteq># A \<or> (j \<in># S \<and> work dur T \<le> work dur S))"
proof (cases "j \<in># S")
  case True
  then obtain R where R: "S = add_mset j R" by (metis mset_add)
  then have "R \<subseteq># M" using S(1) by simp
  moreover have "feasible deadline dur R" by (rule feasible_subset [OF S(2) _ nonneg]) (simp add: R)
  ultimately obtain T where "T \<subseteq># A" "size T = size R" "work dur T \<le> work dur R"
    using best by (auto simp: best_admitted_def)
  then show ?thesis using R True by (intro exI [where x = "add_mset j T"]) auto
next
  case False
  then have "S \<subseteq># M" using S(1) by (simp add: subset_add_notin)
  then obtain T where "T \<subseteq># A" "size T = size S" "work dur T \<le> work dur S"
    using best S(2) by (auto simp: best_admitted_def)
  then show ?thesis by (intro exI [where x = T]) (auto intro: subset_mset.trans)
qed

lemma best_admitted_keep:
  assumes best: "best_admitted deadline dur M A" and nonneg: "\<And>x. 0 \<le> dur x"
    and last: "\<forall>v \<in># M. deadline v \<le> deadline j" and fits: "work dur (add_mset j A) \<le> deadline j"
  shows "best_admitted deadline dur (add_mset j M) (add_mset j A)"
  unfolding best_admitted_def
proof (intro conjI allI impI)
  show "add_mset j A \<subseteq># add_mset j M" using best by (simp add: best_admitted_def)
  have fA: "feasible deadline dur A" and "A \<subseteq># M" using best by (auto simp: best_admitted_def)
  then have lastA: "\<forall>v \<in># A. deadline v \<le> deadline j" using last by (auto dest: mset_subset_eqD)
  show "feasible deadline dur (add_mset j A)"
    by (rule feasible_add [OF fA lastA subset_mset.order_refl _ nonneg]) (rule fits)
  fix S assume "S \<subseteq># add_mset j M" "feasible deadline dur S"
  from dominated_add [OF best nonneg this] show "\<exists>T. T \<subseteq># add_mset j A \<and> size T = size S \<and> work dur T \<le> work dur S"
    by blast
qed

lemma best_admitted_defer:
  assumes best: "best_admitted deadline dur M A" and nonneg: "\<And>x. 0 \<le> dur x"
    and last: "\<forall>v \<in># M. deadline v \<le> deadline j" and over: "deadline j < work dur (add_mset j A)"
    and l: "l \<in># add_mset j A" "\<forall>v \<in># add_mset j A. dur v \<le> dur l"
  shows "best_admitted deadline dur (add_mset j M) (add_mset j A - {#l#})"
  unfolding best_admitted_def
proof (intro conjI allI impI)
  let ?B = "add_mset j A - {#l#}"
  have AM: "A \<subseteq># M" and fA: "feasible deadline dur A" using best by (auto simp: best_admitted_def)
  have lastA: "\<forall>v \<in># A. deadline v \<le> deadline j" using last AM by (auto dest: mset_subset_eqD)
  have AB: "add_mset j A = add_mset l ?B" using l(1) by simp
  have sizes: "size ?B = size A" using arg_cong [OF AB, of size] by simp
  have dj: "dur j \<le> dur l" using l(2) by simp
  show "?B \<subseteq># add_mset j M"
    using AM by (meson diff_subset_eq_self mset_subset_eq_add_mset_cancel subset_mset.trans)
  show "feasible deadline dur ?B"
  proof (rule feasible_add [OF fA lastA diff_subset_eq_self _ nonneg])
    assume "?B \<noteq> {#}"
    then have "A \<noteq> {#}" using sizes by auto
    have "work dur ?B \<le> work dur A" using arg_cong [OF AB, of "work dur"] dj by simp
    also have "\<dots> \<le> deadline j" by (rule feasible_total [OF fA \<open>A \<noteq> {#}\<close> lastA])
    finally show "work dur ?B \<le> deadline j" .
  qed
  fix S assume S: "S \<subseteq># add_mset j M" "feasible deadline dur S"
  obtain T where T: "T \<subseteq># add_mset j A" "size T = size S" "work dur T \<le> work dur S" "T \<subseteq># A \<or> j \<in># S"
    using dominated_add [OF best nonneg S] by blast
  have "T \<noteq> add_mset j A"
  proof
    assume eq: "T = add_mset j A"
    then have "j \<in># S" using T(4) by (auto dest: size_mset_mono)
    then have "work dur S \<le> deadline j"
      using subset_add_max [OF S(1) last] by (intro feasible_total [OF S(2)]) auto
    then show False using T(3) over eq by simp
  qed
  then have "add_mset j A - T \<noteq> {#}" using T(1) by (metis Diff_eq_empty_iff_mset subset_mset.antisym)
  then obtain y where y: "y \<in># add_mset j A - T" by blast
  show "\<exists>T. T \<subseteq># ?B \<and> size T = size S \<and> work dur T \<le> work dur S"
  proof (cases "T \<subseteq># ?B")
    case True
    then show ?thesis using T by blast
  next
    case False
    then have "l \<in># T" using T(1) by (metis AB subset_add_notin)
    then obtain R where R: "T = add_mset l R" by (metis mset_add)
    have "add_mset y T \<subseteq># add_mset j A" using T(1) y by (rule subset_add_missing)
    then have "add_mset y R \<subseteq># ?B" using AB R by (metis add_mset_commute mset_subset_eq_add_mset_cancel)
    moreover have "dur y \<le> dur l" using l(2) y by (meson in_diffD)
    ultimately show ?thesis using T(2,3) R by (intro exI [where x = "add_mset y R"]) auto
  qed
qed

lemma longest_is_longest:
  assumes "x = max_by (\<lambda>c. (dur c, bytes c)) (hd xs) (tl xs)" and "xs \<noteq> []"
  shows "x \<in> set xs" and "v \<in> set xs \<Longrightarrow> dur v \<le> dur x"
proof -
  have xs: "set (hd xs # tl xs) = set xs" using assms(2) by simp
  show "x \<in> set xs" using max_by_mem [of "\<lambda>c. (dur c, bytes c)" "hd xs" "tl xs"] assms(1) xs by metis
  assume "v \<in> set xs"
  then have "(dur v, bytes v) \<le> (dur x, bytes x)"
    using max_by_greatest [of v "hd xs" "tl xs" "\<lambda>c. (dur c, bytes c)"] assms(1) xs by metis
  then show "dur v \<le> dur x" by (auto simp: less_eq_prod_def)
qed

lemma deferred_moves:
  assumes "add_mset l X = add_mset j Y" and "Y + mset ds = M"
  shows "X + mset (ds @ [l]) = add_mset j M"
proof -
  have "X + mset (ds @ [l]) = add_mset l X + mset ds" by simp
  also have "\<dots> = add_mset j (Y + mset ds)" unfolding assms(1) by simp
  finally show ?thesis unfolding assms(2) .
qed

lemma admit_loop_best:
  assumes nonneg: "\<And>x. 0 \<le> dur x"
    and "admit_loop deadline dur bytes items admitted deferred elapsed = (A, D)"
    and "best_admitted deadline dur M (mset admitted)" and "elapsed = work dur (mset admitted)"
    and "mset admitted + mset deferred = M" and "\<forall>v \<in># M. \<forall>j \<in> set items. deadline v \<le> deadline j"
    and "sorted (map deadline items)" and "sorted (map deadline admitted)"
  shows "best_admitted deadline dur (M + mset items) (mset A) \<and> mset A + mset D = M + mset items \<and>
    sorted (map deadline A)"
  using assms(2-)
proof (induction items arbitrary: admitted deferred elapsed M)
  case (Cons j items)
  let ?adm = "admitted @ [j]"
  let ?el = "elapsed + dur j"
  let ?l = "max_by (\<lambda>c. (dur c, bytes c)) (hd ?adm) (tl ?adm)"
  have last: "\<forall>v \<in># M. deadline v \<le> deadline j" using Cons.prems(5) by simp
  have el: "?el = work dur (add_mset j (mset admitted))" using Cons.prems(3) by simp
  have M: "\<forall>v \<in># add_mset j M. \<forall>i \<in> set items. deadline v \<le> deadline i"
    using Cons.prems(5,6) by simp
  have srt: "sorted (map deadline ?adm)"
    using Cons.prems(7) last Cons.prems(4) by (auto simp: sorted_append)
  show ?case
  proof (cases "deadline j < ?el")
    case False
    have "best_admitted deadline dur (add_mset j M) (mset ?adm)"
      using best_admitted_keep [OF Cons.prems(2) nonneg last] False el by simp
    then show ?thesis
      using Cons.IH [of ?adm deferred ?el "add_mset j M"] Cons.prems(1,4,6) False el M srt by (simp add: Let_def)
  next
    case True
    note l = longest_is_longest [where x = ?l and xs = ?adm and dur = dur and bytes = bytes, OF refl]
    have lm: "?l \<in># add_mset j (mset admitted)" "\<forall>v \<in># add_mset j (mset admitted). dur v \<le> dur ?l"
      using l by auto
    let ?adm' = "remove1 ?l ?adm"
    have ms: "mset ?adm' = add_mset j (mset admitted) - {#?l#}" by simp
    have "best_admitted deadline dur (add_mset j M) (mset ?adm')"
      unfolding ms using best_admitted_defer [OF Cons.prems(2) nonneg last _ lm] True el by simp
    moreover have add: "add_mset ?l (mset ?adm') = add_mset j (mset admitted)" unfolding ms using lm(1) by simp
    moreover have "?el - dur ?l = work dur (mset ?adm')" using arg_cong [OF add, of "work dur"] el by simp
    moreover have "mset ?adm' + mset (deferred @ [?l]) = add_mset j M"
      by (rule deferred_moves [OF add Cons.prems(4)])
    moreover have "sorted (map deadline ?adm')" by (rule sorted_map_remove1 [OF srt])
    ultimately show ?thesis
      using Cons.IH [of ?adm' "deferred @ [?l]" "?el - dur ?l" "add_mset j M"] Cons.prems(1,6) True M
      by (simp add: Let_def)
  qed
qed simp

lemma feasible_sorted_on_time:
  assumes nonneg: "\<And>x. 0 \<le> dur x" and "feasible deadline dur (mset (ps @ xs))"
    and "sorted (map deadline (ps @ xs))"
  shows "on_time_from deadline dur (work dur (mset ps)) (xs @ ys) \<ge> length xs"
  using assms(2,3)
proof (induction xs arbitrary: ps)
  case (Cons x xs)
  have "\<forall>v \<in> set (ps @ [x]). deadline v \<le> deadline x" using Cons.prems(2) by (auto simp: sorted_append)
  then have "filter_mset (\<lambda>v. deadline v \<le> deadline x) (mset (ps @ [x])) = mset (ps @ [x])"
    by (intro filter_mset_eq_conv [THEN iffD2]) auto
  moreover have "mset (ps @ [x]) \<subseteq># mset (ps @ x # xs)" by simp
  ultimately have "mset (ps @ [x]) \<subseteq># filter_mset (\<lambda>v. deadline v \<le> deadline x) (mset (ps @ x # xs))"
    by (metis multiset_filter_mono)
  then have "work dur (mset (ps @ [x])) \<le> work dur (filter_mset (\<lambda>v. deadline v \<le> deadline x) (mset (ps @ x # xs)))"
    by (rule work_mono [OF _ nonneg])
  also have "\<dots> \<le> deadline x" using Cons.prems(1) by (simp add: feasible_def)
  finally have "work dur (mset ps) + dur x \<le> deadline x" by simp
  moreover have "length xs \<le> on_time_from deadline dur (work dur (mset (ps @ [x]))) (xs @ ys)"
    using Cons.IH [of "ps @ [x]"] Cons.prems by simp
  ultimately show ?case by (simp add: add.commute)
qed simp

text \<open>
  C19. The handoff order serves as many jobs on time as any order can: it is a permutation
  of the jobs, and for nonnegative durations no other order of the same jobs has more of
  them finished by their deadline.
\<close>

theorem handoff_order_maximises_on_time:
  assumes nonneg: "\<And>x. 0 \<le> dur x"
  shows "mset (order_admissible_first deadline dur bytes items) = mset items \<and>
    (mset schedule = mset items \<longrightarrow>
       on_time_from deadline dur 0 schedule \<le> on_time_from deadline dur 0 (order_admissible_first deadline dur bytes items))"
proof -
  let ?items = "sort_key deadline items"
  obtain A D where loop: "admit_loop deadline dur bytes ?items [] [] 0 = (A, D)"
    by (cases "admit_loop deadline dur bytes ?items [] [] 0")
  have "best_admitted deadline dur {#} (mset [])" by (simp add: best_admitted_def feasible_def)
  then have best: "best_admitted deadline dur (mset items) (mset A)" and ms: "mset A + mset D = mset items"
    and srt: "sorted (map deadline A)"
    using admit_loop_best [OF nonneg loop, of "{#}"] by auto
  let ?rest = "sort_key (\<lambda>i. (deadline i, dur i)) D"
  have order: "order_admissible_first deadline dur bytes items = A @ ?rest"
    using loop by (simp add: order_admissible_first_def)
  have "length A \<le> on_time_from deadline dur 0 (A @ ?rest)"
    using feasible_sorted_on_time [where ps = "[]" and xs = A and dur = dur, OF nonneg] best srt
    by (simp add: best_admitted_def)
  moreover have "on_time_from deadline dur 0 schedule \<le> length A" if sched: "mset schedule = mset items"
  proof -
    obtain U where U: "U \<subseteq># mset schedule" "size U = on_time_from deadline dur 0 schedule" "feasible deadline dur U"
      using on_time_feasible [where dur = dur and t = 0 and xs = schedule, OF nonneg] by (auto simp: feasible_def)
    then obtain T where "T \<subseteq># mset A" "size T = size U"
      using best sched by (auto simp: best_admitted_def)
    then show ?thesis using U(2) size_mset_mono [of T "mset A"] by simp
  qed
  ultimately show ?thesis using ms order by auto
qed

theorem handoff_order_maximises_on_time_witness:
  "order_admissible_first fst (\<lambda>j. \<bar>snd j\<bar>) (\<lambda>_. 0) [(3, 3), (4, 2), (5, 2)] = [(4, 2), (5, 2), (3, 3)] \<and>
   on_time_from fst (\<lambda>j. \<bar>snd j\<bar>) 0 [(3, 3), (4, 2), (5, 2)] \<le>
     on_time_from fst (\<lambda>j. \<bar>snd j\<bar>) 0 (order_admissible_first fst (\<lambda>j. \<bar>snd j\<bar>) (\<lambda>_. 0) [(3, 3), (4, 2), (5, 2)])"
proof -
  have "order_admissible_first fst (\<lambda>j. \<bar>snd j\<bar>) (\<lambda>_. 0) [(3, 3), (4, 2), (5, 2)] = [(4, 2), (5, 2), (3, 3)]"
    by (simp add: order_admissible_first_def Let_def)
  then show ?thesis
    using handoff_order_maximises_on_time [of "\<lambda>j. \<bar>snd j\<bar>" fst "\<lambda>_. 0" "[(3, 3), (4, 2), (5, 2)]" "[(3, 3), (4, 2), (5, 2)]"]
    by simp
qed

end
