(* ===== verification/Recency.thy ===== *)
theory Recency
  imports Prelude
begin

text \<open>
  Lists kept in the order of use, oldest first: \<open>OrderedDict.move_to_end\<close>, the newest
  entries of such a list, and what a sequence of uses makes of it. The caches that evict
  the least recently used entry are proved against these.
\<close>

definition move_to_end :: "'a \<Rightarrow> 'a list \<Rightarrow> 'a list" where
  "move_to_end x xs = remove1 x xs @ [x]"

definition newest :: "nat \<Rightarrow> 'a list \<Rightarrow> 'a list" where
  "newest n xs = drop (length xs - n) xs"

lemma set_move_to_end: "set (move_to_end x xs) = insert x (set xs)"
  by (induction xs) (auto simp: move_to_end_def)

lemma distinct_move_to_end: "distinct xs \<Longrightarrow> distinct (move_to_end x xs)"
  by (simp add: move_to_end_def set_remove1_eq)

lemma move_to_end_filter: "distinct xs \<Longrightarrow> move_to_end x xs = filter (\<lambda>y. y \<noteq> x) xs @ [x]"
  by (simp add: move_to_end_def distinct_remove1_removeAll removeAll_filter_not_eq)
    (metis (mono_tags, lifting) filter_cong)

lemma set_newest: "set (newest n xs) \<subseteq> set xs"
  by (simp add: newest_def set_drop_subset)

lemma distinct_newest: "distinct xs \<Longrightarrow> distinct (newest n xs)"
  by (simp add: newest_def)

lemma length_newest: "length (newest n xs) = min n (length xs)"
  by (simp add: newest_def)

lemma newest_append: "newest n (xs @ ys) = newest (n - length ys) xs @ newest n ys"
  by (cases "n \<le> length ys") (simp_all add: newest_def)

lemma newest_mono: "m \<le> n \<Longrightarrow> set (newest m xs) \<subseteq> set (newest n xs)"
  by (simp add: newest_def set_drop_subset_set_drop diff_le_mono2)

text \<open>A use changes the newest entries as it changes a cache that holds only them.\<close>

lemma newest_move_to_end:
  assumes "distinct xs"
  shows "newest n (move_to_end x xs) =
    (if x \<in> set (newest n xs) then move_to_end x (newest n xs) else newest n (newest n xs @ [x]))"
proof -
  let ?ys = "take (length xs - n) xs" and ?zs = "newest n xs"
  have xs: "xs = ?ys @ ?zs" by (simp add: newest_def)
  have dist: "distinct ?zs" "set ?ys \<inter> set ?zs = {}" using assms xs by (metis distinct_append)+
  show ?thesis
  proof (cases "x \<in> set ?zs")
    case True
    then have "x \<notin> set ?ys" using dist(2) by blast
    then have "move_to_end x xs = ?ys @ move_to_end x ?zs"
      by (subst xs) (simp add: move_to_end_def remove1_append del: append_take_drop_id)
    moreover have "length (move_to_end x ?zs) = length ?zs"
      using True length_pos_if_in_set [OF True] by (simp add: move_to_end_def length_remove1)
    ultimately show ?thesis using True by (simp add: newest_def)
  next
    case False
    have m: "move_to_end x xs = remove1 x ?ys @ ?zs @ [x]"
      using False by (subst xs) (simp add: move_to_end_def remove1_append remove1_idem)
    show ?thesis
    proof (cases "length xs \<le> n")
      case True
      then show ?thesis using m False by simp
    next
      case long: False
      then have "length ?zs = n" by (simp add: length_newest)
      then show ?thesis using m False by (simp add: newest_append) (simp add: newest_def)
    qed
  qed
qed

text \<open>A sequence of uses leaves what it used at the end, in the order of the last uses.\<close>

lemma fold_move_to_end:
  "distinct xs \<Longrightarrow> fold move_to_end hs xs = filter (\<lambda>x. x \<notin> set hs) xs @ remdups hs"
proof (induction hs arbitrary: xs)
  case (Cons h hs)
  have "fold move_to_end (h # hs) xs = filter (\<lambda>x. x \<notin> set hs) (move_to_end h xs) @ remdups hs"
    using Cons by (simp add: distinct_move_to_end)
  also have "\<dots> = filter (\<lambda>x. x \<notin> set (h # hs)) xs @ remdups (h # hs)"
    using Cons.prems by (simp add: move_to_end_filter conj_commute)
  finally show ?case .
qed simp

lemma distinct_uses: "distinct xs \<Longrightarrow> distinct (fold move_to_end hs xs)"
  by (simp add: fold_move_to_end) blast

lemma set_uses: "distinct xs \<Longrightarrow> set (fold move_to_end hs xs) = set xs \<union> set hs"
  by (auto simp: fold_move_to_end)

text \<open>Using a prefix first changes nothing.\<close>

lemma uses_of_prefix:
  assumes "distinct xs"
  shows "fold move_to_end hs (fold move_to_end (take n hs) xs) = fold move_to_end hs xs"
proof -
  have "filter (\<lambda>x. x \<notin> set hs) (filter (\<lambda>x. x \<notin> set (take n hs)) xs) = filter (\<lambda>x. x \<notin> set hs) xs"
    by (auto intro!: filter_cong dest: in_set_takeD)
  moreover have "filter (\<lambda>x. x \<notin> set hs) (remdups (take n hs)) = []"
    by (auto simp: filter_empty_conv dest: in_set_takeD)
  ultimately show ?thesis using assms
    by (subst fold_move_to_end, simp add: distinct_uses) (simp add: fold_move_to_end)
qed

end
