(* ===== verification/OracleCache.thy ===== *)
theory OracleCache
  imports Recency
begin

text \<open>
  \<open>Engine\<close> of \<open>experiments/weka_baselines/oracle/simulate.py\<close>: the block cache with a token
  capacity that every engine of the offline policy replay has. \<open>blocks\<close> is the list of the
  \<open>OrderedDict\<close>'s items, oldest first. The lemmas relate it to its abstract specification:
  after any requests the cache holds the most recently used blocks that fit, so that a
  larger cache never hits less and a request that fits hits fully when it is repeated.
\<close>

definition cache_block :: int where
  "cache_block = 16"

record oracle_engine =
  oe_cap :: int
  oe_blocks :: "(int \<times> int) list"
  oe_used :: int

definition new_oracle_engine :: "int \<Rightarrow> oracle_engine" where
  "new_oracle_engine cap = \<lparr>oe_cap = cap, oe_blocks = [], oe_used = 0\<rparr>"

text \<open>\<open>blocks.move_to_end(h)\<close> of a block that is there.\<close>

definition touch_block :: "int \<Rightarrow> (int \<times> int) list \<Rightarrow> (int \<times> int) list" where
  "touch_block h bs = filter (\<lambda>b. fst b \<noteq> h) bs @ filter (\<lambda>b. fst b = h) bs"

fun hit_blocks :: "int list \<Rightarrow> (int \<times> int) list \<Rightarrow> nat \<times> (int \<times> int) list" where
  "hit_blocks [] bs = (0, bs)"
| "hit_blocks (h # hs) bs =
     (if h \<in> fst ` set bs then case hit_blocks hs (touch_block h bs) of (n, bs') \<Rightarrow> (Suc n, bs')
      else (0, bs))"

definition prefix_len :: "int list \<Rightarrow> oracle_engine \<Rightarrow> int \<times> oracle_engine" where
  "prefix_len hash_ids e = (case hit_blocks hash_ids (oe_blocks e) of
     (n, bs) \<Rightarrow> (int n * cache_block, e\<lparr>oe_blocks := bs\<rparr>))"

text \<open>The inner loop of \<open>admit\<close>: the oldest blocks go while the cache is too full.\<close>

fun pop_oldest :: "int \<Rightarrow> int \<Rightarrow> (int \<times> int) list \<Rightarrow> int \<times> (int \<times> int) list" where
  "pop_oldest cap used [] = (used, [])"
| "pop_oldest cap used ((h, sz) # bs) =
     (if cap < used then pop_oldest cap (used - sz) bs else (used, (h, sz) # bs))"

definition admit_block :: "int \<Rightarrow> oracle_engine \<Rightarrow> oracle_engine" where
  "admit_block h e =
     (if h \<in> fst ` set (oe_blocks e) then e\<lparr>oe_blocks := touch_block h (oe_blocks e)\<rparr>
      else case pop_oldest (oe_cap e) (oe_used e + cache_block) (oe_blocks e @ [(h, cache_block)]) of
             (used, bs) \<Rightarrow> e\<lparr>oe_blocks := bs, oe_used := used\<rparr>)"

definition admit_blocks :: "int list \<Rightarrow> oracle_engine \<Rightarrow> oracle_engine" where
  "admit_blocks hash_ids e = fold admit_block hash_ids e"

text \<open>What \<open>run\<close> does with a request on its engine: the hit, then the blocks.\<close>

definition serve_blocks :: "int list \<Rightarrow> oracle_engine \<Rightarrow> int \<times> oracle_engine" where
  "serve_blocks hash_ids e = (case prefix_len hash_ids e of (hit, e') \<Rightarrow> (hit, admit_blocks hash_ids e'))"

section \<open>The abstract cache: the newest blocks of a recency list\<close>

text \<open>An engine whose cache holds what is newest in a list of blocks, as much as fits.\<close>

definition capacity_blocks :: "int \<Rightarrow> nat" where
  "capacity_blocks cap = nat (cap div cache_block)"

abbreviation block_items :: "int list \<Rightarrow> (int \<times> int) list" where
  "block_items hs \<equiv> map (\<lambda>h. (h, cache_block)) hs"

definition caches :: "int \<Rightarrow> int list \<Rightarrow> oracle_engine \<Rightarrow> bool" where
  "caches cap stack e \<longleftrightarrow> distinct stack \<and> oe_cap e = cap \<and>
     oe_blocks e = block_items (newest (capacity_blocks cap) stack) \<and>
     oe_used e = cache_block * int (length (newest (capacity_blocks cap) stack))"

lemma caches_new: "caches cap [] (new_oracle_engine cap)"
  by (simp add: caches_def new_oracle_engine_def newest_def)

lemma cached_blocks [simp]: "fst ` (\<lambda>h. (h, cache_block)) ` H = H"
  by (simp add: image_image)

lemma touch_cached: "distinct hs \<Longrightarrow> h \<in> set hs \<Longrightarrow> touch_block h (block_items hs) = block_items (move_to_end h hs)"
proof -
  assume "distinct hs" and "h \<in> set hs"
  then have "filter (\<lambda>x. x = h) hs = [h]" by (induction hs) (auto simp: filter_empty_conv)
  then show ?thesis using \<open>distinct hs\<close>
    by (simp add: touch_block_def move_to_end_filter filter_map comp_def)
qed

lemma pop_cached:
  "pop_oldest cap (cache_block * int (length hs)) (block_items hs) =
     (cache_block * int (length (newest (capacity_blocks cap) hs)), block_items (newest (capacity_blocks cap) hs))"
proof (induction hs)
  case (Cons h hs)
  show ?case
  proof (cases "cap < cache_block * int (length (h # hs))")
    case True
    then have "capacity_blocks cap < length (h # hs)"
      by (auto simp: capacity_blocks_def cache_block_def)
    then have "newest (capacity_blocks cap) (h # hs) = newest (capacity_blocks cap) hs"
      by (simp add: newest_def Suc_diff_le)
    moreover have "cache_block * int (length (h # hs)) - cache_block = cache_block * int (length hs)"
      by (simp add: distrib_left)
    ultimately show ?thesis using True Cons by simp
  next
    case False
    then have "length (h # hs) \<le> capacity_blocks cap"
      by (simp add: capacity_blocks_def cache_block_def le_nat_iff)
    with False show ?thesis by (simp add: newest_def)
  qed
qed (simp add: newest_def)

lemma caches_admit_block: "caches cap stack e \<Longrightarrow> caches cap (move_to_end h stack) (admit_block h e)"
proof -
  assume c: "caches cap stack e"
  let ?c = "capacity_blocks cap" and ?n = "newest (capacity_blocks cap) stack"
  have d: "distinct ?n" using c by (simp add: caches_def distinct_newest)
  show ?thesis
  proof (cases "h \<in> set ?n")
    case True
    then have "newest ?c (move_to_end h stack) = move_to_end h ?n" "length (move_to_end h ?n) = length ?n"
      using c length_pos_if_in_set [OF True]
      by (simp_all add: caches_def newest_move_to_end) (simp add: move_to_end_def length_remove1)
    then show ?thesis using c True d
      by (simp add: caches_def admit_block_def touch_cached distinct_move_to_end)
  next
    case False
    have "pop_oldest cap (oe_used e + cache_block) (oe_blocks e @ [(h, cache_block)]) =
        (cache_block * int (length (newest ?c (?n @ [h]))), block_items (newest ?c (?n @ [h])))"
      using pop_cached [of cap "?n @ [h]"] c by (simp add: caches_def distrib_left add.commute)
    then show ?thesis using c False
      by (simp add: caches_def admit_block_def newest_move_to_end distinct_move_to_end)
  qed
qed

lemma caches_admit: "caches cap stack e \<Longrightarrow> caches cap (fold move_to_end hs stack) (admit_blocks hs e)"
  unfolding admit_blocks_def by (induction hs arbitrary: stack e) (auto dest: caches_admit_block)

text \<open>A lookup finds the longest prefix that is cached, and uses it.\<close>

lemma hit_blocks_cached:
  assumes "distinct stack"
  shows "hit_blocks hs (block_items (newest c stack)) =
    (let n = length (takeWhile (\<lambda>h. h \<in> set (newest c stack)) hs)
     in (n, block_items (newest c (fold move_to_end (take n hs) stack))))"
  using assms
proof (induction hs arbitrary: stack)
  case (Cons h hs)
  show ?case
  proof (cases "h \<in> set (newest c stack)")
    case True
    then have m: "newest c (move_to_end h stack) = move_to_end h (newest c stack)"
      using Cons.prems by (simp add: newest_move_to_end)
    then have "set (newest c (move_to_end h stack)) = set (newest c stack)" using True by (auto simp: set_move_to_end)
    then show ?thesis
      using True Cons.IH [of "move_to_end h stack"] Cons.prems m [symmetric]
      by (simp add: distinct_move_to_end distinct_newest touch_cached Let_def)
  qed (simp add: Let_def)
qed (simp add: Let_def)

definition cached_prefix :: "int \<Rightarrow> int list \<Rightarrow> int list \<Rightarrow> nat" where
  "cached_prefix cap stack hs = length (takeWhile (\<lambda>h. h \<in> set (newest (capacity_blocks cap) stack)) hs)"

lemma prefix_len_cached:
  assumes "caches cap stack e"
  shows "fst (prefix_len hs e) = cache_block * int (cached_prefix cap stack hs)"
    and "caches cap (fold move_to_end (take (cached_prefix cap stack hs) hs) stack) (snd (prefix_len hs e))"
proof -
  let ?n = "cached_prefix cap stack hs"
  have h: "hit_blocks hs (oe_blocks e) =
      (?n, block_items (newest (capacity_blocks cap) (fold move_to_end (take ?n hs) stack)))"
    using assms hit_blocks_cached [of stack hs] by (simp add: caches_def cached_prefix_def Let_def)
  show "fst (prefix_len hs e) = cache_block * int ?n" by (simp add: prefix_len_def h)
  have "set (take ?n hs) \<subseteq> set (newest (capacity_blocks cap) stack)"
    unfolding cached_prefix_def by (metis set_takeWhileD subsetI takeWhile_eq_take)
  then have "length (newest (capacity_blocks cap) (fold move_to_end (take ?n hs) stack)) =
      length (newest (capacity_blocks cap) stack)"
    using assms set_newest [of "capacity_blocks cap" stack] set_uses [of stack "take ?n hs"]
    by (simp add: length_newest caches_def) (metis distinct_card distinct_uses subset_trans sup.absorb1)
  then show "caches cap (fold move_to_end (take ?n hs) stack) (snd (prefix_len hs e))"
    unfolding prefix_len_def h using assms by (simp add: caches_def distinct_uses)
qed

lemma serve_blocks_cached:
  assumes "caches cap stack e"
  shows "fst (serve_blocks hs e) = cache_block * int (cached_prefix cap stack hs)"
    and "caches cap (fold move_to_end hs stack) (snd (serve_blocks hs e))"
proof -
  obtain hit e' where p: "prefix_len hs e = (hit, e')" by fastforce
  show "fst (serve_blocks hs e) = cache_block * int (cached_prefix cap stack hs)"
    using prefix_len_cached(1) [OF assms, of hs] by (simp add: serve_blocks_def p)
  have "caches cap (fold move_to_end hs (fold move_to_end (take (cached_prefix cap stack hs) hs) stack)) (admit_blocks hs e')"
    using caches_admit [OF prefix_len_cached(2) [OF assms]] p by (metis snd_conv)
  then show "caches cap (fold move_to_end hs stack) (snd (serve_blocks hs e))"
    using assms by (simp add: serve_blocks_def p uses_of_prefix caches_def)
qed

end
