(* ===== verification/CacheRoute.thy ===== *)
theory CacheRoute
  imports Prelude "HOL-Library.AList"
begin

text \<open>
  \<open>experiments/multinode/cacheroute.py\<close>: the plan that gives every hot key the replicas its
  rate needs, within a budget of slots, and the dispatch of a request over a plan. Rates and
  loads are exact rationals, so every number is finite; the time the plan took to build is
  left out. \<open>rng.sample\<close> is a parameter: a sample of \<open>k\<close> of the first \<open>n\<close> numbers.
\<close>

record route_plan =
  pn_assignments :: "(string \<times> nat list) list"
  pn_expected_load :: "rat list"
  pn_slots_used :: int

definition hot_order :: "(string \<times> rat) list \<Rightarrow> (string \<times> rat) list" where
  "hot_order rates = sort_key (\<lambda>(k, r). (- r, k)) (filter (\<lambda>(k, r). 0 < r) rates)"

definition replica_count :: "rat \<Rightarrow> rat \<Rightarrow> int" where
  "replica_count rate qcap = max 1 \<lceil>rate / qcap\<rceil>"

text \<open>The first loop: keys in order until one does not fit the slots.\<close>

fun admit_keys ::
  "int \<Rightarrow> rat \<Rightarrow> int \<Rightarrow> int \<Rightarrow> (string \<times> rat) list \<Rightarrow> exn + (string \<times> rat \<times> int) list \<times> int" where
  "admit_keys replicas qcap slots used [] = Inr ([], used)"
| "admit_keys replicas qcap slots used ((key, rate) # rest) =
     (let count = replica_count rate qcap in
      if replicas < count
      then Inl (ValueError (''key '' @ py_repr key @ '' exceeds total calibrated destination capacity''))
      else if slots < used + count then Inr ([], used)
      else case admit_keys replicas qcap slots (used + count) rest of
             Inl e \<Rightarrow> Inl e
           | Inr (admitted, u) \<Rightarrow> Inr ((key, rate, count) # admitted, u))"

definition least_loaded_replicas :: "rat list \<Rightarrow> int \<Rightarrow> nat list" where
  "least_loaded_replicas loads count = take (nat count) (sort_key (\<lambda>i. (loads ! i, i)) [0..<length loads])"

fun add_loads :: "nat list \<Rightarrow> rat \<Rightarrow> rat list \<Rightarrow> rat list" where
  "add_loads [] share loads = loads"
| "add_loads (t # ts) share loads = add_loads ts share (loads[t := loads ! t + share])"

text \<open>The second loop; a key's entry in the table is set once.\<close>

fun place_keys ::
  "(string \<times> rat \<times> int) list \<Rightarrow> (string \<times> nat list) list \<Rightarrow> rat list \<Rightarrow> (string \<times> nat list) list \<times> rat list" where
  "place_keys [] table loads = (table, loads)"
| "place_keys ((key, rate, count) # rest) table loads =
     (let targets = least_loaded_replicas loads count
      in place_keys rest (AList.update key targets table) (add_loads targets (rate / of_int count) loads))"

definition build_plan :: "(string \<times> rat) list \<Rightarrow> int \<Rightarrow> rat \<Rightarrow> int \<Rightarrow> exn + route_plan" where
  "build_plan rates replicas qcap slots =
     (if replicas < 1 \<or> slots < 0 \<or> qcap \<le> 0
      then Inl (ValueError ''positive replica count/qcap and nonnegative slot budget required'')
      else if \<exists>(k, r) \<in> set rates. r < 0 then Inl (ValueError ''rates must be finite and nonnegative'')
      else case admit_keys replicas qcap slots 0 (hot_order rates) of
             Inl e \<Rightarrow> Inl e
           | Inr (admitted, used) \<Rightarrow>
              (let cold_rate = sum_list (map snd (hot_order rates)) - sum_list (map (\<lambda>(_, r, _). r) admitted);
                   (table, loads) = place_keys admitted [] (replicate (nat replicas) (cold_rate / of_int replicas))
               in Inr \<lparr>pn_assignments = table, pn_expected_load = loads, pn_slots_used = used\<rparr>))"

definition route_dispatch ::
  "(nat \<Rightarrow> nat \<Rightarrow> nat list) \<Rightarrow> route_plan \<Rightarrow> string \<Rightarrow> rat list \<Rightarrow> exn + nat" where
  "route_dispatch sample pl key live_load =
     (if length live_load \<noteq> length (pn_expected_load pl) \<or> (\<exists>x \<in> set live_load. x < 0)
      then Inl (ValueError ''finite, nonnegative load required for every destination'')
      else case (case map_of (pn_assignments pl) key of
                   Some targets \<Rightarrow> targets
                 | None \<Rightarrow> sample (length live_load) (min 2 (length live_load))) of
             [] \<Rightarrow> Inl (ValueError ''min() arg is an empty sequence'')
           | t # ts \<Rightarrow> Inr (min_by (\<lambda>i. live_load ! i) t ts))"

section \<open>The replicas of a key\<close>

lemma least_loaded_set:
  "set (least_loaded_replicas loads count) \<subseteq> {0..<length loads}" "distinct (least_loaded_replicas loads count)"
  "length (least_loaded_replicas loads count) = min (nat count) (length loads)"
proof -
  show "set (least_loaded_replicas loads count) \<subseteq> {0..<length loads}"
    unfolding least_loaded_replicas_def using set_take_subset by fastforce
  show "distinct (least_loaded_replicas loads count)"
    unfolding least_loaded_replicas_def by (rule distinct_take) simp
  show "length (least_loaded_replicas loads count) = min (nat count) (length loads)"
    by (simp add: least_loaded_replicas_def min.commute)
qed

text \<open>No replica left out has less load than a chosen one.\<close>

lemma least_loaded_least:
  assumes i: "i \<in> set (least_loaded_replicas loads count)" and j: "j < length loads" "j \<notin> set (least_loaded_replicas loads count)"
  shows "loads ! i \<le> loads ! j"
proof -
  let ?s = "sort_key (\<lambda>i. (loads ! i, i)) [0..<length loads]" and ?n = "nat count"
  have s: "sorted (map (\<lambda>i. (loads ! i, i)) (take ?n ?s @ drop ?n ?s))" by (simp del: map_append)
  have "i \<in> set (take ?n ?s)" using i by (simp add: least_loaded_replicas_def)
  moreover have "j \<in> set (drop ?n ?s)"
  proof -
    have "j \<in> set (take ?n ?s @ drop ?n ?s)" unfolding append_take_drop_id using j(1) by simp
    then show ?thesis using j(2) unfolding least_loaded_replicas_def set_append by blast
  qed
  ultimately have "(loads ! i, i) \<le> (loads ! j, j)" using s unfolding map_append sorted_append by auto
  then show ?thesis by (auto simp: less_eq_prod_def)
qed

lemma replica_share: "0 < qcap \<Longrightarrow> rate / of_int (replica_count rate qcap) \<le> qcap"
proof -
  assume q: "0 < qcap"
  have "rate / qcap \<le> of_int (replica_count rate qcap)"
    unfolding replica_count_def by (metis ceiling_le_iff max.cobounded2)
  moreover have "0 < (of_int (replica_count rate qcap) :: rat)" by (simp add: replica_count_def)
  ultimately show ?thesis using q by (simp add: field_simps)
qed

section \<open>The plan\<close>

lemma add_loads_length [simp]: "length (add_loads ts share loads) = length loads"
  by (induction ts share loads rule: add_loads.induct) simp_all

lemma sum_list_plus: "t < length loads \<Longrightarrow> sum_list (loads[t := loads ! t + x]) = sum_list loads + (x :: rat)"
proof (induction loads arbitrary: t)
  case (Cons l loads)
  then show ?case by (cases t) simp_all
qed simp

lemma add_loads_sum:
  "set ts \<subseteq> {0..<length loads} \<Longrightarrow> sum_list (add_loads ts share loads) = sum_list loads + of_nat (length ts) * share"
proof (induction ts share loads rule: add_loads.induct)
  case (2 t ts share loads)
  then show ?case by (simp add: sum_list_plus distrib_right)
qed simp

definition entry_ok :: "int \<Rightarrow> rat \<Rightarrow> string \<times> rat \<times> int \<Rightarrow> bool" where
  "entry_ok replicas qcap x \<longleftrightarrow> (case x of (k, r, c) \<Rightarrow> 0 < r \<and> c = replica_count r qcap \<and> c \<le> replicas)"

lemma admit_keys_spec:
  assumes "admit_keys replicas qcap slots used rs = Inr (admitted, u)" and "\<forall>(k, r) \<in> set rs. 0 < r" and "used \<le> slots"
  shows "(\<exists>n. map (\<lambda>(k, r, c). (k, r)) admitted = take n rs) \<and> (\<forall>x \<in> set admitted. entry_ok replicas qcap x) \<and>
    u = used + sum_list (map (\<lambda>(k, r, c). c) admitted) \<and> u \<le> slots"
  using assms
proof (induction replicas qcap slots used rs arbitrary: admitted u rule: admit_keys.induct)
  case (2 replicas qcap slots used key rate rest)
  let ?c = "replica_count rate qcap"
  show ?case
  proof (cases "slots < used + ?c")
    case True
    with 2 show ?thesis by (auto simp: Let_def split: if_splits intro: exI [of _ 0])
  next
    case False
    then obtain adm where r: "admit_keys replicas qcap slots (used + ?c) rest = Inr (adm, u)"
      and a: "admitted = (key, rate, ?c) # adm" and c: "?c \<le> replicas"
      using "2.prems"(1) by (auto simp: Let_def split: if_splits sum.splits)
    from "2.IH" [OF refl _ False r] c "2.prems"(2) False
    have ih: "(\<exists>n. map (\<lambda>(k, r, c). (k, r)) adm = take n rest) \<and> (\<forall>x \<in> set adm. entry_ok replicas qcap x) \<and>
      u = used + ?c + sum_list (map (\<lambda>(k, r, c). c) adm) \<and> u \<le> slots" by simp
    then obtain n where "map (\<lambda>(k, r, c). (k, r)) adm = take n rest" by blast
    then have "map (\<lambda>(k, r, c). (k, r)) admitted = take (Suc n) ((key, rate) # rest)" using a by simp
    with ih a c "2.prems"(2) show ?thesis by (auto simp: entry_ok_def simp del: take_Suc_Cons)
  qed
qed auto

text \<open>A table entry after the second loop: the replicas of a key, as many as it needs.\<close>

definition table_ok :: "int \<Rightarrow> (string \<times> rat \<times> int) list \<Rightarrow> (string \<times> nat list) list \<Rightarrow> bool" where
  "table_ok replicas admitted table \<longleftrightarrow> (\<forall>k ts. map_of table k = Some ts \<longrightarrow>
     distinct ts \<and> set ts \<subseteq> {0..<nat replicas} \<and> (\<exists>r c. (k, r, c) \<in> set admitted \<and> int (length ts) = c))"

lemma place_keys_spec:
  assumes "place_keys todo table loads = (table', loads')" and "\<forall>x \<in> set todo. entry_ok replicas qcap x"
    and "length loads = nat replicas" and "table_ok replicas placed table"
  shows "table_ok replicas (placed @ todo) table' \<and> length loads' = nat replicas \<and>
    sum_list loads' = sum_list loads + sum_list (map (\<lambda>(_, r, _). r) todo) \<and>
    dom (map_of table') = dom (map_of table) \<union> fst ` set todo"
  using assms
proof (induction todo table loads arbitrary: placed rule: place_keys.induct)
  case (2 key rate cnt rest table loads)
  let ?ts = "least_loaded_replicas loads cnt"
  let ?loads = "add_loads ?ts (rate / of_int cnt) loads" and ?table = "AList.update key ?ts table"
  have c: "0 < cnt" "cnt \<le> replicas" using "2.prems"(2) by (auto simp: entry_ok_def replica_count_def)
  then have len: "length ?ts = nat cnt" using "2.prems"(3) by (simp add: least_loaded_set(3))
  have t: "set ?ts \<subseteq> {0..<length loads}" "distinct ?ts" by (rule least_loaded_set)+
  have "table_ok replicas (placed @ [(key, rate, cnt)]) ?table"
    using "2.prems"(3,4) t len c by (auto simp: table_ok_def update_conv' split: if_splits)
  moreover have "sum_list ?loads = sum_list loads + rate"
    using add_loads_sum [OF t(1), of "rate / of_int cnt"] len c by simp
  moreover have "place_keys rest ?table ?loads = (table', loads')" using "2.prems"(1) by (simp add: Let_def)
  ultimately show ?case
    using "2.IH" [OF refl, of "placed @ [(key, rate, cnt)]"] "2.prems"(2,3)
    by (auto simp: update_conv' Let_def)
qed auto

lemma sum_filter_pos: "\<forall>(k, r) \<in> set rates. 0 \<le> r \<Longrightarrow>
    sum_list (map snd (filter (\<lambda>(k, r). (0 :: rat) < r) rates)) = sum_list (map snd rates)"
  by (induction rates) auto

lemma sum_insort_key: "sum_list (map f (insort_key k x xs)) = f x + sum_list (map (f :: 'a \<Rightarrow> rat) xs)"
  by (induction xs) simp_all

lemma sum_sort_key: "sum_list (map f (sort_key k xs)) = sum_list (map (f :: 'a \<Rightarrow> rat) xs)"
  by (induction xs) (simp_all add: sum_insort_key)

text \<open>What an accepted plan was built from.\<close>

lemma build_plan_parts:
  assumes "build_plan rates replicas qcap slots = Inr pl"
  obtains admitted n where "1 \<le> replicas" "0 < qcap" "\<forall>(k, r) \<in> set rates. 0 \<le> r"
    "map (\<lambda>(k, r, c). (k, r)) admitted = take n (hot_order rates)" "\<forall>x \<in> set admitted. entry_ok replicas qcap x"
    "table_ok replicas admitted (pn_assignments pl)" "dom (map_of (pn_assignments pl)) = fst ` set (take n (hot_order rates))"
    "pn_slots_used pl \<le> slots" "length (pn_expected_load pl) = nat replicas"
    "sum_list (pn_expected_load pl) = sum_list (map snd (hot_order rates))"
proof -
  obtain admitted used table loads where ok: "1 \<le> replicas" "0 \<le> slots" "0 < qcap" "\<forall>(k, r) \<in> set rates. 0 \<le> r"
    and adm: "admit_keys replicas qcap slots 0 (hot_order rates) = Inr (admitted, used)"
    and place: "place_keys admitted [] (replicate (nat replicas)
        ((sum_list (map snd (hot_order rates)) - sum_list (map (\<lambda>(_, r, _). r) admitted)) / of_int replicas)) = (table, loads)"
    and pl: "pl = \<lparr>pn_assignments = table, pn_expected_load = loads, pn_slots_used = used\<rparr>"
    using assms by (auto simp: build_plan_def Let_def not_less split: if_splits sum.splits prod.splits)
  have pos: "\<forall>(k, r) \<in> set (hot_order rates). 0 < r" by (auto simp: hot_order_def)
  from admit_keys_spec [OF adm pos ok(2)] obtain n where n: "map (\<lambda>(k, r, c). (k, r)) admitted = take n (hot_order rates)"
    and entries: "\<forall>x \<in> set admitted. entry_ok replicas qcap x" and u: "used \<le> slots" by blast
  have t: "table_ok replicas admitted table" "length loads = nat replicas"
      "dom (map_of table) = fst ` set admitted"
    and s: "sum_list loads = sum_list (map snd (hot_order rates))"
    using place_keys_spec [OF place entries, of "[]"] ok(1) by (auto simp: table_ok_def sum_list_replicate)
  have "fst ` set admitted = fst ` set (map (\<lambda>(k, r, c). (k, r)) admitted)" by (force simp: image_iff)
  then have "dom (map_of table) = fst ` set (take n (hot_order rates))" using t(3) n by simp
  then show ?thesis using that [OF ok(1,3,4) n entries] t u s by (simp add: pl)
qed

text \<open>
  A plan over rates that are nonnegative: each planned key has as many different
  replicas as its rate needs, so that none of them gets more than \<open>qcap\<close> of it; the
  replicas exist, the slots used are those of the planned keys and within the budget, the
  planned keys are the hottest, and the expected loads add up to the whole rate.
\<close>

theorem plan_spreads_hot_keys:
  assumes "build_plan rates replicas qcap slots = Inr pl" and "distinct (map fst rates)"
  shows "(\<exists>n. dom (map_of (pn_assignments pl)) = fst ` set (take n (hot_order rates))) \<and>
    (\<forall>k ts. map_of (pn_assignments pl) k = Some ts \<longrightarrow> distinct ts \<and> set ts \<subseteq> {0..<nat replicas} \<and> ts \<noteq> [] \<and>
       (\<exists>r. map_of rates k = Some r \<and> r / of_nat (length ts) \<le> qcap)) \<and>
    pn_slots_used pl \<le> slots \<and> length (pn_expected_load pl) = nat replicas \<and>
    sum_list (pn_expected_load pl) = sum_list (map snd rates)"
proof -
  obtain admitted n where ok: "1 \<le> replicas" "0 < qcap" "\<forall>(k, r) \<in> set rates. 0 \<le> r"
    and n: "map (\<lambda>(k, r, c). (k, r)) admitted = take n (hot_order rates)"
    and entries: "\<forall>x \<in> set admitted. entry_ok replicas qcap x"
    and t: "table_ok replicas admitted (pn_assignments pl)"
    and books: "dom (map_of (pn_assignments pl)) = fst ` set (take n (hot_order rates))" "pn_slots_used pl \<le> slots"
      "length (pn_expected_load pl) = nat replicas" "sum_list (pn_expected_load pl) = sum_list (map snd (hot_order rates))"
    using assms(1) by (rule build_plan_parts)
  have "distinct ts \<and> set ts \<subseteq> {0..<nat replicas} \<and> ts \<noteq> [] \<and>
      (\<exists>r. map_of rates k = Some r \<and> r / of_nat (length ts) \<le> qcap)" if k: "map_of (pn_assignments pl) k = Some ts" for k ts
  proof -
    obtain r where kc: "(k, r, int (length ts)) \<in> set admitted" "distinct ts" "set ts \<subseteq> {0..<nat replicas}"
      using t k unfolding table_ok_def by blast
    then have e: "int (length ts) = replica_count r qcap" using entries by (auto simp: entry_ok_def)
    have "0 < replica_count r qcap" by (simp add: replica_count_def)
    have "(k, r) \<in> set (map (\<lambda>(k, r, c). (k, r)) admitted)" using kc(1) by force
    then have "(k, r) \<in> set rates" unfolding n by (auto simp: hot_order_def dest: in_set_takeD)
    then have "map_of rates k = Some r" using assms(2) by simp
    moreover have "r / of_nat (length ts) \<le> qcap" using replica_share [OF ok(2), of r] e by (metis of_int_of_nat_eq)
    ultimately show ?thesis using kc e \<open>0 < replica_count r qcap\<close> by auto
  qed
  moreover have "sum_list (map snd (hot_order rates)) = sum_list (map snd rates)"
    using sum_filter_pos [OF ok(3)] by (simp add: hot_order_def sum_sort_key)
  ultimately show ?thesis using books by auto
qed

text \<open>The plan of three keys over three replicas and four slots: the hottest key gets two.\<close>

lemma plan_spreads_hot_keys_witness:
  "\<exists>pl. build_plan [(''a'', 1), (''b'', 3), (''c'', 0)] 3 2 4 = Inr pl \<and>
     map_of (pn_assignments pl) ''b'' = Some [0, 1] \<and> map_of (pn_assignments pl) ''a'' = Some [2] \<and>
     sum_list (pn_expected_load pl) = 4"
proof -
  let ?pl = "\<lparr>pn_assignments = [(''b'', [0, 1]), (''a'', [2])], pn_expected_load = [3 / 2, 3 / 2, 1], pn_slots_used = 3\<rparr>"
  have b: "build_plan [(''a'', 1), (''b'', 3), (''c'', 0)] 3 2 4 = Inr ?pl" by code_simp
  from plan_spreads_hot_keys [OF b] have "sum_list (pn_expected_load ?pl) = 4" by simp
  with b show ?thesis by (intro exI [of _ ?pl]) simp
qed

section \<open>The dispatch of a request\<close>

text \<open>
  A request dispatched over a built plan goes to a destination that exists and that has
  the least live load of those it may use: the planned replicas of its key, or the sampled
  ones when the key is not planned.
\<close>

theorem dispatch_least_loaded:
  assumes "build_plan rates replicas qcap slots = Inr pl" and "route_dispatch sample pl key live = Inr i"
    and "\<And>n k. set (sample n k) \<subseteq> {0..<n}"
  shows "int i < replicas \<and> length live = nat replicas \<and>
    (case map_of (pn_assignments pl) key of
       Some ts \<Rightarrow> i \<in> set ts \<and> (\<forall>j \<in> set ts. live ! i \<le> live ! j)
     | None \<Rightarrow> i \<in> set (sample (length live) (min 2 (length live))) \<and>
         (\<forall>j \<in> set (sample (length live) (min 2 (length live))). live ! i \<le> live ! j))"
proof -
  let ?ts = "case map_of (pn_assignments pl) key of Some ts \<Rightarrow> ts | None \<Rightarrow> sample (length live) (min 2 (length live))"
  obtain admitted where table: "table_ok replicas admitted (pn_assignments pl)" and n: "length (pn_expected_load pl) = nat replicas"
    using assms(1) by (rule build_plan_parts)
  obtain t ts where len: "length live = length (pn_expected_load pl)" and t: "?ts = t # ts"
    and i: "i = min_by (\<lambda>i. live ! i) t ts"
    using assms(2) by (auto simp: route_dispatch_def split: if_splits list.splits)
  have least: "i \<in> set ?ts" "\<forall>j \<in> set ?ts. live ! i \<le> live ! j"
    unfolding t i by (rule min_by_mem, rule ballI, erule min_by_least)
  have "set ?ts \<subseteq> {0..<nat replicas}" using assms(3) [of "length live"] table len n
    by (auto simp: table_ok_def split: option.splits)
  with least(1) have "i < nat replicas" by auto
  then have "int i < replicas" by simp
  with least len n show ?thesis by (auto split: option.splits)
qed

lemma dispatch_least_loaded_witness:
  "\<exists>pl. build_plan [(''a'', 1), (''b'', 3)] 3 2 4 = Inr pl \<and>
     route_dispatch (\<lambda>n k. take k [0..<n]) pl ''b'' [5, 1, 0] = Inr 1 \<and>
     route_dispatch (\<lambda>n k. take k [0..<n]) pl ''z'' [5, 1, 0] = Inr 1 \<and> int 1 < 3"
proof -
  let ?pl = "\<lparr>pn_assignments = [(''b'', [0, 1]), (''a'', [2])], pn_expected_load = [3 / 2, 3 / 2, 1], pn_slots_used = 3\<rparr>"
  let ?sample = "\<lambda>n k. take k [0..<n]"
  have b: "build_plan [(''a'', 1), (''b'', 3)] 3 2 4 = Inr ?pl" by code_simp
  have d: "route_dispatch ?sample ?pl ''b'' [5, 1, 0] = Inr 1" "route_dispatch ?sample ?pl ''z'' [5, 1, 0] = Inr 1"
    by code_simp+
  have "set (?sample n k) \<subseteq> {0..<n}" for n k by (auto dest: in_set_takeD)
  from dispatch_least_loaded [OF b d(1) this] have "int 1 < (3 :: int)" by blast
  with b d show ?thesis by blast
qed

end
