(* ===== verification/OracleReplay.thy ===== *)
theory OracleReplay
  imports OracleCache CacheRoute Counters
begin

text \<open>
  \<open>experiments/weka_baselines/oracle/simulate.py\<close>: the offline replay of a workload under a
  routing policy, with the seven policies, and \<open>rate_plan\<close> of
  \<open>experiments/weka_baselines/common.py\<close>. SHA-256, the two hash rings, the random sample,
  \<open>math.nextafter(x, 0)\<close> and \<open>np.percentile\<close> are parameters; rates, times and loads are exact
  rationals. The dictionaries \<open>counts\<close>, \<open>table\<close> and \<open>home\<close> are association lists.
\<close>

section \<open>The policies\<close>

record oracle_env =
  env_sha256 :: "string \<Rightarrow> nat"
  env_ring1 :: "nat \<Rightarrow> string \<Rightarrow> nat option"
  env_ring2 :: "nat \<Rightarrow> string \<Rightarrow> nat option"
  env_sample :: "int \<Rightarrow> nat \<Rightarrow> nat \<Rightarrow> nat list"
  env_below :: "rat \<Rightarrow> rat"
  env_percentile :: "int list \<Rightarrow> int \<Rightarrow> rat"

record oracle_request =
  rq_key :: string
  rq_hash_ids :: "int list"
  rq_input_tokens :: int
  rq_offered_seconds :: rat
  rq_ordinal :: int
  rq_phase :: int
  rq_turn :: int

datatype oracle_policy =
    StickyPolicy
  | RoundRobinPolicy nat
  | LeastLoadedPolicy
  | TwoChoicePolicy
  | CacheRoutePolicy "(string \<times> nat list) list"
  | HomePolicy "(string \<times> nat) list"
  | OmniscientPolicy

text \<open>\<open>POLICIES[policy_name]\<close> with the state its constructor gives it.\<close>

definition new_policy :: "string \<Rightarrow> exn + oracle_policy" where
  "new_policy name =
     (if name = ''sticky'' then Inr StickyPolicy
      else if name = ''rr'' then Inr (RoundRobinPolicy 0)
      else if name = ''least-loaded'' then Inr LeastLoadedPolicy
      else if name = ''p2c-ring'' then Inr TwoChoicePolicy
      else if name = ''cacheroute'' then Inr (CacheRoutePolicy [])
      else if name = ''oracle-home'' then Inr (HomePolicy [])
      else if name = ''oracle-omniscient'' then Inr OmniscientPolicy
      else Inl (KeyError (py_repr name)))"

text \<open>\<open>fit\<close>, which only \<open>oracle-home\<close> has.\<close>

definition fit_policy :: "oracle_env \<Rightarrow> nat \<Rightarrow> oracle_request list \<Rightarrow> oracle_policy \<Rightarrow> exn + oracle_policy" where
  "fit_policy env n rows pol = (case pol of
     HomePolicy _ \<Rightarrow>
       if n = 0 \<and> rows \<noteq> [] then Inl ZeroDivisionError
       else Inr (HomePolicy (map (\<lambda>k. (k, env_sha256 env (''ideal:'' @ k) mod n)) (remdups (map rq_key rows))))
   | _ \<Rightarrow> Inr pol)"

text \<open>\<open>CacheRoute.refresh\<close>: the loop stops at the first key that does not fit.\<close>

fun refresh_keys ::
  "nat \<Rightarrow> rat \<Rightarrow> int \<Rightarrow> (string \<times> rat) list \<Rightarrow> int \<Rightarrow> rat list \<Rightarrow> (string \<times> nat list) list \<Rightarrow> (string \<times> nat list) list" where
  "refresh_keys n qcap slots [] used loads table = table"
| "refresh_keys n qcap slots ((key, rate) # rest) used loads table =
     (let count = replica_count rate qcap in
      if int n < count \<or> slots < used + count then table
      else let targets = least_loaded_replicas loads count
           in refresh_keys n qcap slots rest (used + count) (add_loads targets (rate / of_int count) loads)
                (AList.update key targets table))"

definition capped_rates :: "(rat \<Rightarrow> rat) \<Rightarrow> rat \<Rightarrow> rat \<Rightarrow> int \<Rightarrow> counter \<Rightarrow> (string \<times> rat) list" where
  "capped_rates below window qcap replicas counts =
     map (\<lambda>(k, v). (k, min (of_int v / window) (below (qcap * of_int replicas)))) counts"

definition refresh_table :: "(rat \<Rightarrow> rat) \<Rightarrow> nat \<Rightarrow> rat \<Rightarrow> int \<Rightarrow> counter \<Rightarrow> (string \<times> nat list) list" where
  "refresh_table below n qcap slots counts =
     refresh_keys n qcap slots (hot_order (capped_rates below 60 qcap (int n) counts)) 0 (replicate n 0) []"

definition refresh_policy :: "oracle_env \<Rightarrow> nat \<Rightarrow> rat \<Rightarrow> counter \<Rightarrow> oracle_policy \<Rightarrow> oracle_policy" where
  "refresh_policy env n qcap counts pol = (case pol of
     CacheRoutePolicy _ \<Rightarrow>
       CacheRoutePolicy (refresh_table (env_below env) n (if qcap = 0 then 1 else qcap) (int n * 128) counts)
   | _ \<Rightarrow> pol)"

text \<open>\<open>min(targets, key=lambda i: (load[i], i))\<close>\<close>

definition least_loaded_of :: "nat list \<Rightarrow> int list \<Rightarrow> exn + nat" where
  "least_loaded_of targets load =
     (if \<exists>i \<in> set targets. length load \<le> i then Inl (IndexError ''list index out of range'')
      else case targets of
             [] \<Rightarrow> Inl (ValueError ''min() arg is an empty sequence'')
           | t # ts \<Rightarrow> Inr (min_by (\<lambda>i. (load ! i, i)) t ts))"

fun join_colon :: "string list \<Rightarrow> string" where
  "join_colon [] = []"
| "join_colon [s] = s"
| "join_colon (s # ss) = s @ '':'' @ join_colon ss"

definition ring_candidates :: "oracle_env \<Rightarrow> nat \<Rightarrow> string \<Rightarrow> exn + nat \<times> nat" where
  "ring_candidates env n key = (case (env_ring1 env n key, env_ring2 env n key) of
     (Some a, Some b) \<Rightarrow>
       if a \<noteq> b then Inr (a, b) else if n = 0 then Inl ZeroDivisionError else Inr (a, (a + 1) mod n)
   | _ \<Rightarrow> Inl (TypeError ''int() argument must be a string, a bytes-like object or a real number, not NoneType''))"

text \<open>
  The loop of \<open>OracleOmniscient.choose\<close>: every engine is asked, in order, which uses the
  blocks it finds there.
\<close>

fun ask_engines ::
  "int list \<Rightarrow> int list \<Rightarrow> nat \<Rightarrow> (nat \<times> int) option \<Rightarrow> oracle_engine list \<Rightarrow> (nat \<times> int) option \<times> oracle_engine list" where
  "ask_engines hash_ids load i best [] = (best, [])"
| "ask_engines hash_ids load i best (e # es) =
     (case prefix_len hash_ids e of (hit, e') \<Rightarrow>
        let best' = (case best of
                None \<Rightarrow> Some (i, hit)
              | Some (b, best_hit) \<Rightarrow>
                  if best_hit < hit \<or> hit = best_hit \<and> load ! i < load ! b then Some (i, hit) else best)
        in case ask_engines hash_ids load (Suc i) best' es of (r, es') \<Rightarrow> (r, e' # es'))"

definition choose_engine ::
  "oracle_env \<Rightarrow> nat \<Rightarrow> int \<Rightarrow> oracle_request \<Rightarrow> int list \<Rightarrow> oracle_policy \<times> oracle_engine list \<Rightarrow>
   exn + nat \<times> oracle_policy \<times> oracle_engine list" where
  "choose_engine env n seed req load st = (case st of (pol, engines) \<Rightarrow>
     let keep = (\<lambda>r. case r of Inl e \<Rightarrow> Inl e | Inr t \<Rightarrow> Inr (t, pol, engines)) in
     case pol of
       StickyPolicy \<Rightarrow> keep (if n = 0 then Inl ZeroDivisionError else Inr (env_sha256 env (rq_key req) mod n))
     | RoundRobinPolicy i \<Rightarrow>
         if n = 0 then Inl ZeroDivisionError else Inr (i mod n, RoundRobinPolicy (i + 1), engines)
     | LeastLoadedPolicy \<Rightarrow> keep (least_loaded_of [0..<n] load)
     | TwoChoicePolicy \<Rightarrow>
         keep (case ring_candidates env n (''fluidkv:'' @ join_colon (map str_int (rq_hash_ids req))) of
                 Inl e \<Rightarrow> Inl e
               | Inr (a, b) \<Rightarrow>
                   if length load \<le> a \<or> length load \<le> b then Inl (IndexError ''list index out of range'')
                   else Inr (if (load ! a, a) \<le> (load ! b, b) then a else b))
     | CacheRoutePolicy table \<Rightarrow>
         keep (least_loaded_of (case map_of table (rq_key req) of
                   Some (t # ts) \<Rightarrow> t # ts
                 | _ \<Rightarrow> env_sample env seed n (min 2 n)) load)
     | HomePolicy home \<Rightarrow>
         keep (case map_of home (rq_key req) of Some t \<Rightarrow> Inr t | None \<Rightarrow> Inl (KeyError (py_repr (rq_key req))))
     | OmniscientPolicy \<Rightarrow>
         (case ask_engines (rq_hash_ids req) load 0 None engines of
            (Some (b, _), engines') \<Rightarrow> Inr (b, pol, engines')
          | (None, _) \<Rightarrow> Inl (TypeError ''list indices must be integers or slices, not NoneType'')))"

section \<open>The replay\<close>

record request_row =
  rr_ordinal :: int
  rr_target :: nat
  rr_phase :: int
  rr_key :: string
  rr_turn :: int
  rr_input_tokens :: int
  rr_hit_tokens :: int
  rr_uncached_tokens :: int
  rr_ttft_seconds :: rat

record oracle_state =
  os_policy :: oracle_policy
  os_counts :: counter
  os_engines :: "oracle_engine list"
  os_live :: "int list"
  os_peak :: "int list"
  os_last_phase :: "int option"
  os_uncached :: int
  os_hit :: int
  os_served :: int
  os_rows :: "request_row list"

definition refresh_at_phase :: "oracle_env \<Rightarrow> nat \<Rightarrow> rat \<Rightarrow> oracle_request \<Rightarrow> oracle_state \<Rightarrow> oracle_state" where
  "refresh_at_phase env n qcap req s = (case os_policy s of
     CacheRoutePolicy _ \<Rightarrow>
       let phase = \<lfloor>rq_offered_seconds req / 60\<rfloor> in
       if os_last_phase s = Some phase then s
       else s\<lparr>os_last_phase := Some phase, os_policy := refresh_policy env n qcap (os_counts s) (os_policy s)\<rparr>
   | _ \<Rightarrow> s)"

definition count_at :: "nat \<Rightarrow> int \<Rightarrow> int list \<Rightarrow> int list" where
  "count_at i x xs = xs[i := xs ! i + x]"

definition serve_request :: "rat \<Rightarrow> oracle_request \<Rightarrow> nat \<Rightarrow> oracle_state \<Rightarrow> exn + oracle_state" where
  "serve_request service_scale req target s =
     (if length (os_engines s) \<le> target then Inl (IndexError ''list index out of range'')
      else case serve_blocks (rq_hash_ids req) (os_engines s ! target) of (hit, e) \<Rightarrow>
        let uncached = rq_input_tokens req - hit;
            row = \<lparr>rr_ordinal = rq_ordinal req, rr_target = target, rr_phase = rq_phase req, rr_key = rq_key req,
                   rr_turn = rq_turn req, rr_input_tokens = rq_input_tokens req, rr_hit_tokens = hit,
                   rr_uncached_tokens = uncached, rr_ttft_seconds = of_int uncached * service_scale\<rparr>
        in Inr (s\<lparr>os_engines := (os_engines s)[target := e], os_uncached := os_uncached s + uncached,
                  os_hit := os_hit s + hit, os_served := os_served s + 1,
                  os_peak := count_at target 1 (os_peak s), os_rows := os_rows s @ [row],
                  os_live := count_at target (- 1) (count_at target 1 (os_live s))\<rparr>))"

definition route_request ::
  "oracle_env \<Rightarrow> nat \<Rightarrow> int \<Rightarrow> rat \<Rightarrow> rat \<Rightarrow> oracle_request \<Rightarrow> oracle_state \<Rightarrow> exn + oracle_state" where
  "route_request env n seed qcap service_scale req s0 =
     (let s = refresh_at_phase env n qcap req s0 in
      case choose_engine env n seed req (os_live s) (os_policy s, os_engines s) of
        Inl e \<Rightarrow> Inl e
      | Inr (target, pol, engines) \<Rightarrow>
          serve_request service_scale req target
            (s\<lparr>os_policy := pol, os_engines := engines, os_counts := count_up (rq_key req) 1 (os_counts s)\<rparr>))"

fun route_requests ::
  "oracle_env \<Rightarrow> nat \<Rightarrow> int \<Rightarrow> rat \<Rightarrow> rat \<Rightarrow> oracle_request list \<Rightarrow> oracle_state \<Rightarrow> exn + oracle_state" where
  "route_requests env n seed qcap service_scale [] s = Inr s"
| "route_requests env n seed qcap service_scale (req # rows) s =
     (case route_request env n seed qcap service_scale req s of
        Inl e \<Rightarrow> Inl e
      | Inr t \<Rightarrow> route_requests env n seed qcap service_scale rows t)"

record oracle_report =
  op_policy :: string
  op_engines :: nat
  op_cap_tokens :: int
  op_requests :: int
  op_total_input_tokens :: int
  op_uncached_tokens :: int
  op_hit_tokens :: int
  op_hit_ratio :: rat
  op_uncached_p50 :: rat
  op_uncached_p90 :: rat
  op_uncached_p99 :: rat
  op_uncached_mean :: rat
  op_per_engine_requests :: "nat \<Rightarrow> int"
  op_imbalance :: rat
  op_per_request :: "request_row list"

definition served_by :: "request_row list \<Rightarrow> nat \<Rightarrow> int" where
  "served_by rows i = int (length (filter (\<lambda>r. rr_target r = i) rows))"

definition oracle_start :: "oracle_policy \<Rightarrow> nat \<Rightarrow> int \<Rightarrow> oracle_state" where
  "oracle_start pol n cap =
     \<lparr>os_policy = pol, os_counts = [], os_engines = replicate n (new_oracle_engine cap), os_live = replicate n 0,
      os_peak = replicate n 0, os_last_phase = None, os_uncached = 0, os_hit = 0, os_served = 0, os_rows = []\<rparr>"

definition oracle_report_of ::
  "oracle_env \<Rightarrow> string \<Rightarrow> nat \<Rightarrow> int \<Rightarrow> oracle_request list \<Rightarrow> oracle_state \<Rightarrow> exn + oracle_report" where
  "oracle_report_of env name n cap rows s =
     (let total = sum_list (map rq_input_tokens rows);
          uncached = map rr_uncached_tokens (os_rows s);
          load = map (\<lambda>i. of_int (served_by (os_rows s) i)) [0..<n] in
      if total = 0 then Inl ZeroDivisionError
      else Inr \<lparr>op_policy = name, op_engines = n, op_cap_tokens = cap, op_requests = os_served s,
                op_total_input_tokens = total, op_uncached_tokens = os_uncached s, op_hit_tokens = os_hit s,
                op_hit_ratio = of_int (os_hit s) / of_int total,
                op_uncached_p50 = env_percentile env uncached 50, op_uncached_p90 = env_percentile env uncached 90,
                op_uncached_p99 = env_percentile env uncached 99,
                op_uncached_mean = of_int (sum_list uncached) / of_nat (length uncached),
                op_per_engine_requests = served_by (os_rows s),
                op_imbalance = fold max load 0 / max (1 / 10 ^ 9) (sum_list load / of_nat n),
                op_per_request = os_rows s\<rparr>)"

definition run_oracle ::
  "oracle_env \<Rightarrow> string \<Rightarrow> oracle_request list \<Rightarrow> nat \<Rightarrow> int \<Rightarrow> rat \<Rightarrow> int \<Rightarrow> rat \<Rightarrow> exn + oracle_report" where
  "run_oracle env name rows n cap service_scale seed qcap =
     (case new_policy name of Inl e \<Rightarrow> Inl e | Inr pol0 \<Rightarrow>
      case fit_policy env n rows pol0 of Inl e \<Rightarrow> Inl e | Inr pol \<Rightarrow>
      case route_requests env n seed qcap service_scale rows (oracle_start pol n cap) of Inl e \<Rightarrow> Inl e | Inr s \<Rightarrow>
      oracle_report_of env name n cap rows s)"

section \<open>The plan from a history\<close>

definition rate_plan :: "(rat \<Rightarrow> rat) \<Rightarrow> string list \<Rightarrow> int \<Rightarrow> rat \<Rightarrow> rat \<Rightarrow> exn + route_plan" where
  "rate_plan below history replicas qcap window =
     (if window = 0 \<and> history \<noteq> [] then Inl ZeroDivisionError
      else build_plan (capped_rates below window qcap replicas (fold (\<lambda>k. count_up k 1) history []))
             replicas qcap (replicas * 128))"

end
