(* ===== verification/OracleProps.thy ===== *)
theory OracleProps
  imports OracleReplay
begin

text \<open>
  What the offline policy replay computes: the cache of every engine is the list of the most
  recently used blocks that fit, a larger cache never hits less under a policy that does not
  look at the caches, the totals are those of the requests, the two planners agree, and the
  loads that the policies are shown are always zero.
\<close>

section \<open>The cache\<close>

definition serve_all :: "int list list \<Rightarrow> oracle_engine \<Rightarrow> oracle_engine" where
  "serve_all reqs e = fold (\<lambda>hs e. snd (serve_blocks hs e)) reqs e"

lemma caches_serve_all: "caches cap stack e \<Longrightarrow> caches cap (fold move_to_end (concat reqs) stack) (serve_all reqs e)"
  by (induction reqs arbitrary: stack e) (auto simp: serve_all_def dest: serve_blocks_cached(2))

lemma caches_served: "caches cap (remdups (concat reqs)) (serve_all reqs (new_oracle_engine cap))"
  using caches_serve_all [OF caches_new] by (simp add: fold_move_to_end)

text \<open>
  C26. After any requests an engine that started empty holds exactly the most recently used
  blocks, as many as its capacity has room for, and counts their tokens; the next request
  hits the longest prefix of its blocks that are all among them.
\<close>

theorem oracle_cache_is_lru:
  "oe_blocks (serve_all reqs (new_oracle_engine cap)) =
     map (\<lambda>h. (h, 16)) (newest (nat (cap div 16)) (remdups (concat reqs))) \<and>
   oe_used (serve_all reqs (new_oracle_engine cap)) =
     16 * int (length (oe_blocks (serve_all reqs (new_oracle_engine cap)))) \<and>
   oe_used (serve_all reqs (new_oracle_engine cap)) \<le> max 0 cap \<and>
   fst (serve_blocks hs (serve_all reqs (new_oracle_engine cap))) =
     16 * int (length (takeWhile (\<lambda>h. h \<in> set (newest (nat (cap div 16)) (remdups (concat reqs)))) hs))"
proof -
  have c: "caches cap (remdups (concat reqs)) (serve_all reqs (new_oracle_engine cap))" by (rule caches_served)
  have "int (length (newest (nat (cap div 16)) (remdups (concat reqs)))) \<le> max 0 (cap div 16)"
    by (simp add: length_newest min_le_iff_disj)
  then have "16 * int (length (newest (nat (cap div 16)) (remdups (concat reqs)))) \<le> max 0 cap" by linarith
  then show ?thesis using c serve_blocks_cached(1) [OF c, of hs]
    by (simp add: caches_def capacity_blocks_def cache_block_def cached_prefix_def)
qed

text \<open>
  A request finds its whole prefix again when it is repeated on its engine, whatever
  was served before and whatever was served in between, as long as its blocks and those
  served in between fit the engine together.
\<close>

theorem repeated_request_hits:
  assumes "16 * int (card (set hs \<union> set (concat between))) \<le> cap"
  shows "fst (serve_blocks hs (serve_all (before @ [hs] @ between) (new_oracle_engine cap))) = 16 * int (length hs)"
proof -
  let ?recent = "remdups (concat ([hs] @ between))" and ?stack = "remdups (concat (before @ [hs] @ between))"
  let ?c = "capacity_blocks cap"
  have stack: "?stack = filter (\<lambda>x. x \<notin> set ?recent) (remdups (concat before)) @ ?recent"
    using fold_move_to_end [of "[]" "concat (before @ [hs] @ between)"]
      fold_move_to_end [of "remdups (concat before)" "concat ([hs] @ between)"]
      fold_move_to_end [of "[]" "concat before"] by simp
  have "length ?recent = card (set hs \<union> set (concat between))" by (simp add: length_remdups_card_conv)
  then have "length ?recent \<le> ?c" using assms by (simp add: capacity_blocks_def cache_block_def le_nat_iff)
  then have "set ?recent \<subseteq> set (newest ?c ?stack)"
    unfolding stack newest_append by (simp add: newest_def)
  then have "\<forall>h \<in> set hs. h \<in> set (newest ?c ?stack)" by auto
  then have "takeWhile (\<lambda>h. h \<in> set (newest ?c ?stack)) hs = hs" by (simp add: takeWhile_eq_all_conv)
  moreover have "caches cap ?stack (serve_all (before @ [hs] @ between) (new_oracle_engine cap))" by (rule caches_served)
  ultimately show ?thesis
    using serve_blocks_cached(1) [where hs = hs] by (simp only: cached_prefix_def cache_block_def)
qed

lemma repeated_request_hits_witness:
  "fst (serve_blocks [1, 2] (serve_all ([[7, 8, 9]] @ [[1, 2]] @ [[1, 3]]) (new_oracle_engine 50))) = 32 \<and>
   fst (serve_blocks [1, 2] (serve_all ([[7, 8, 9]] @ [[1, 2]] @ [[4, 5]]) (new_oracle_engine 50))) = 0"
proof -
  have "fst (serve_blocks [1, 2] (serve_all ([[7, 8, 9]] @ [[1, 2]] @ [[1, 3]]) (new_oracle_engine 50))) =
      16 * int (length [1, 2 :: int])"
    by (rule repeated_request_hits) code_simp
  moreover have "fst (serve_blocks [1, 2] (serve_all ([[7, 8, 9]] @ [[1, 2]] @ [[4, 5]]) (new_oracle_engine 50))) = 0"
    by code_simp
  ultimately show ?thesis by simp
qed

section \<open>The replay, one request at a time\<close>

text \<open>A policy other than \<open>oracle-omniscient\<close> chooses without looking at the caches.\<close>

definition blind_choice ::
  "oracle_env \<Rightarrow> nat \<Rightarrow> int \<Rightarrow> oracle_request \<Rightarrow> int list \<Rightarrow> oracle_policy \<Rightarrow> exn + nat \<times> oracle_policy" where
  "blind_choice env n seed req load pol = (case choose_engine env n seed req load (pol, []) of
     Inl e \<Rightarrow> Inl e | Inr (t, p, _) \<Rightarrow> Inr (t, p))"

lemma choose_blind:
  "pol \<noteq> OmniscientPolicy \<Longrightarrow> choose_engine env n seed req load (pol, engines) =
     (case blind_choice env n seed req load pol of Inl e \<Rightarrow> Inl e | Inr (t, p) \<Rightarrow> Inr (t, p, engines))"
  by (cases pol) (auto simp: blind_choice_def choose_engine_def Let_def split: sum.splits)

lemma blind_choice_stays: "pol \<noteq> OmniscientPolicy \<Longrightarrow> blind_choice env n seed req load pol = Inr (t, p) \<Longrightarrow> p \<noteq> OmniscientPolicy"
  by (cases pol) (auto simp: blind_choice_def choose_engine_def Let_def split: sum.splits if_splits)

lemma refresh_at_phase_frame:
  "os_counts (refresh_at_phase env n qcap req s) = os_counts s" "os_engines (refresh_at_phase env n qcap req s) = os_engines s"
  "os_live (refresh_at_phase env n qcap req s) = os_live s" "os_peak (refresh_at_phase env n qcap req s) = os_peak s"
  "os_uncached (refresh_at_phase env n qcap req s) = os_uncached s" "os_hit (refresh_at_phase env n qcap req s) = os_hit s"
  "os_served (refresh_at_phase env n qcap req s) = os_served s" "os_rows (refresh_at_phase env n qcap req s) = os_rows s"
  by (simp_all add: refresh_at_phase_def Let_def split: oracle_policy.split)

text \<open>What a served request adds to the books.\<close>

definition row_of :: "rat \<Rightarrow> oracle_request \<Rightarrow> nat \<Rightarrow> int \<Rightarrow> request_row" where
  "row_of service_scale req target hit =
     \<lparr>rr_ordinal = rq_ordinal req, rr_target = target, rr_phase = rq_phase req, rr_key = rq_key req,
      rr_turn = rq_turn req, rr_input_tokens = rq_input_tokens req, rr_hit_tokens = hit,
      rr_uncached_tokens = rq_input_tokens req - hit,
      rr_ttft_seconds = of_int (rq_input_tokens req - hit) * service_scale\<rparr>"

lemma count_at_back: "count_at i (- 1) (count_at i 1 xs) = xs"
  by (cases "i < length xs") (simp_all add: count_at_def not_less list_update_beyond)

text \<open>A request that is routed: chosen with the loads of the state before it, which it leaves as they are.\<close>

lemma route_requestE:
  assumes "route_request env n seed qcap scale req s = Inr t"
  obtains target pol engines hit e where
    "choose_engine env n seed req (os_live s) (os_policy (refresh_at_phase env n qcap req s), os_engines s) = Inr (target, pol, engines)"
    "target < length engines" "serve_blocks (rq_hash_ids req) (engines ! target) = (hit, e)"
    "os_policy t = pol" "os_engines t = engines[target := e]" "os_counts t = count_up (rq_key req) 1 (os_counts s)"
    "os_live t = os_live s" "os_peak t = count_at target 1 (os_peak s)"
    "os_uncached t = os_uncached s + (rq_input_tokens req - hit)" "os_hit t = os_hit s + hit"
    "os_served t = os_served s + 1" "os_rows t = os_rows s @ [row_of scale req target hit]"
    "os_last_phase t = os_last_phase (refresh_at_phase env n qcap req s)"
proof -
  let ?s = "refresh_at_phase env n qcap req s"
  obtain target pol engines where c: "choose_engine env n seed req (os_live s) (os_policy ?s, os_engines s) = Inr (target, pol, engines)"
    and r: "serve_request scale req target
        (?s\<lparr>os_policy := pol, os_engines := engines, os_counts := count_up (rq_key req) 1 (os_counts s)\<rparr>) = Inr t"
    using assms by (auto simp: route_request_def Let_def refresh_at_phase_frame split: sum.splits)
  obtain hit e where h: "serve_blocks (rq_hash_ids req) (engines ! target) = (hit, e)" by fastforce
  have len: "target < length engines" using r by (simp add: serve_request_def split: if_splits)
  show ?thesis
    by (rule that [OF c len h]) (use r h len in \<open>auto simp: serve_request_def refresh_at_phase_frame count_at_back row_of_def Let_def\<close>)
qed

lemma route_requests_induct [consumes 1, case_names Nil Cons]:
  assumes "route_requests env n seed qcap scale rows s = Inr t"
    and "\<And>s. P [] s s"
    and "\<And>req rows s u t. route_request env n seed qcap scale req s = Inr u \<Longrightarrow>
      route_requests env n seed qcap scale rows u = Inr t \<Longrightarrow> P rows u t \<Longrightarrow> P (req # rows) s t"
  shows "P rows s t"
  using assms(1)
proof (induction rows arbitrary: s)
  case (Cons req rows)
  then obtain u where "route_request env n seed qcap scale req s = Inr u" "route_requests env n seed qcap scale rows u = Inr t"
    by (auto split: sum.splits)
  with Cons.IH assms(3) show ?case by blast
qed (use assms(2) in simp)

lemma run_oracleE:
  assumes "run_oracle env name rows n cap scale seed qcap = Inr r"
  obtains pol0 pol s where "new_policy name = Inr pol0" "fit_policy env n rows pol0 = Inr pol"
    "route_requests env n seed qcap scale rows (oracle_start pol n cap) = Inr s"
    "oracle_report_of env name n cap rows s = Inr r"
  using assms by (auto simp: run_oracle_def split: sum.splits)

section \<open>The loads the policies see\<close>

lemma live_unchanged: "route_requests env n seed qcap scale rows s = Inr t \<Longrightarrow> os_live t = os_live s"
  by (induction rows s t rule: route_requests_induct) (auto elim!: route_requestE)

lemma min_by_first: "(\<forall>y \<in> set xs. k x \<le> k y) \<Longrightarrow> min_by k x xs = (x :: 'a)" for k :: "'a \<Rightarrow> 'k :: linorder"
  by (induction xs) (auto simp: not_less)

lemma least_of_zeros: "least_loaded_of [0..<n] (replicate n 0) = Inr t \<Longrightarrow> t = 0"
proof -
  assume a: "least_loaded_of [0..<n] (replicate n 0) = Inr t"
  then obtain m where n: "n = Suc m" by (cases n) (auto simp: least_loaded_of_def)
  have "min_by (\<lambda>i. (replicate n (0 :: int) ! i, i)) 0 [Suc 0..<n] = 0"
    by (rule min_by_first) (auto simp: n)
  moreover have "[0..<n] = 0 # [Suc 0..<n]" by (simp add: n upt_conv_Cons)
  ultimately show ?thesis using a by (auto simp: least_loaded_of_def split: if_splits)
qed

lemma least_loaded_run:
  assumes "route_requests env n seed qcap scale rows s = Inr t"
  shows "os_policy s = LeastLoadedPolicy \<Longrightarrow> os_live s = replicate n 0 \<Longrightarrow> \<forall>x \<in> set (os_rows s). rr_target x = 0 \<Longrightarrow>
    \<forall>x \<in> set (os_rows t). rr_target x = 0"
  using assms
proof (induction rows s t rule: route_requests_induct)
  case (Cons req rows s u t)
  from Cons.hyps(1) show ?case
  proof (rule route_requestE)
    fix target pol engines hit e
    assume c: "choose_engine env n seed req (os_live s) (os_policy (refresh_at_phase env n qcap req s), os_engines s) =
        Inr (target, pol, engines)"
      and u: "os_policy u = pol" "os_live u = os_live s" "os_rows u = os_rows s @ [row_of scale req target hit]"
    have "os_policy (refresh_at_phase env n qcap req s) = LeastLoadedPolicy"
      using Cons.prems(1) by (simp add: refresh_at_phase_def)
    then have "target = 0" "pol = LeastLoadedPolicy"
      using c Cons.prems(2) by (auto simp: choose_engine_def dest: least_of_zeros split: sum.splits)
    then show ?thesis using Cons u by (simp add: row_of_def)
  qed
qed

text \<open>
  The load of an engine is raised and lowered again within one request, so that every
  choice is made with all loads at zero: under \<open>least-loaded\<close> every request goes to engine 0.
\<close>

theorem least_loaded_uses_one_engine:
  assumes "run_oracle env ''least-loaded'' rows n cap scale seed qcap = Inr r"
  shows "(\<forall>x \<in> set (op_per_request r). rr_target x = 0) \<and> (\<forall>i. 0 < i \<longrightarrow> op_per_engine_requests r i = 0)"
proof -
  obtain s where run: "route_requests env n seed qcap scale rows (oracle_start LeastLoadedPolicy n cap) = Inr s"
    and r: "oracle_report_of env ''least-loaded'' n cap rows s = Inr r"
    using assms by (auto elim!: run_oracleE simp: new_policy_def fit_policy_def)
  have zero: "\<forall>x \<in> set (os_rows s). rr_target x = 0"
    using least_loaded_run [OF run] by (simp add: oracle_start_def)
  then show ?thesis
    using r by (auto simp: oracle_report_of_def Let_def served_by_def filter_empty_conv split: if_splits)
qed

section \<open>The totals\<close>

lemma hit_blocks_le: "fst (hit_blocks hs bs) \<le> length hs"
proof (induction hs arbitrary: bs)
  case (Cons h hs)
  from Cons [of "touch_block h bs"] show ?case by (simp add: case_prod_unfold)
qed simp

lemma hit_bounds: "serve_blocks hs e = (hit, e') \<Longrightarrow> 0 \<le> hit \<and> hit \<le> 16 * int (length hs)"
  using hit_blocks_le [of hs "oe_blocks e"]
  by (auto simp: serve_blocks_def prefix_len_def cache_block_def split: prod.splits)

lemma ask_engines_length: "length (snd (ask_engines hs load i best es)) = length es"
proof (induction es arbitrary: i best)
  case (Cons e es)
  obtain hit e' where p: "prefix_len hs e = (hit, e')" by fastforce
  show ?case using Cons by (simp add: p Let_def case_prod_unfold)
qed simp

lemma choose_engine_length: "choose_engine env n seed req load (pol, es) = Inr (t, p, es') \<Longrightarrow> length es' = length es"
proof (cases "pol = OmniscientPolicy")
  case True
  moreover assume "choose_engine env n seed req load (pol, es) = Inr (t, p, es')"
  ultimately show ?thesis using ask_engines_length [of "rq_hash_ids req" load 0 None es]
    by (auto simp: choose_engine_def Let_def split: prod.splits option.splits)
next
  case False
  assume "choose_engine env n seed req load (pol, es) = Inr (t, p, es')"
  then show ?thesis unfolding choose_blind [OF False] by (auto split: sum.splits)
qed

definition row_matches :: "nat \<Rightarrow> oracle_request \<Rightarrow> request_row \<Rightarrow> bool" where
  "row_matches n req x \<longleftrightarrow> rr_ordinal x = rq_ordinal req \<and> rr_target x < n \<and> 0 \<le> rr_hit_tokens x \<and>
     rr_hit_tokens x \<le> 16 * int (length (rq_hash_ids req)) \<and> rr_hit_tokens x + rr_uncached_tokens x = rq_input_tokens req"

lemma route_requests_books:
  assumes "route_requests env n seed qcap scale rows s = Inr t"
  shows "length (os_engines t) = length (os_engines s) \<and> os_served t = os_served s + int (length rows) \<and>
    os_hit t + os_uncached t = os_hit s + os_uncached s + sum_list (map rq_input_tokens rows) \<and>
    (\<exists>xs. os_rows t = os_rows s @ xs \<and> list_all2 (row_matches (length (os_engines s))) rows xs)"
  using assms
proof (induction rows s t rule: route_requests_induct)
  case (Cons req rows s u t)
  from Cons.hyps(1) show ?case
  proof (rule route_requestE)
    fix target pol engines hit e
    assume c: "choose_engine env n seed req (os_live s) (os_policy (refresh_at_phase env n qcap req s), os_engines s) =
        Inr (target, pol, engines)"
      and tgt: "target < length engines" "serve_blocks (rq_hash_ids req) (engines ! target) = (hit, e)"
      and u: "os_engines u = engines[target := e]" "os_uncached u = os_uncached s + (rq_input_tokens req - hit)"
        "os_hit u = os_hit s + hit" "os_served u = os_served s + 1" "os_rows u = os_rows s @ [row_of scale req target hit]"
    have len: "length engines = length (os_engines s)" by (rule choose_engine_length [OF c])
    obtain xs where xs: "os_rows t = os_rows u @ xs" "list_all2 (row_matches (length (os_engines u))) rows xs"
      using Cons.IH by blast
    have "row_matches (length (os_engines s)) req (row_of scale req target hit)"
      using tgt(1) len hit_bounds [OF tgt(2)] by (simp add: row_matches_def row_of_def)
    then have "\<exists>xs. os_rows t = os_rows s @ xs \<and> list_all2 (row_matches (length (os_engines s))) (req # rows) xs"
      using xs u(1,5) len by (intro exI [of _ "row_of scale req target hit # xs"]) simp
    with Cons.IH u len show ?thesis by simp
  qed
qed simp

lemma counted_rows: "\<forall>x \<in> set xs. rr_target x < n \<Longrightarrow> (\<Sum>i < n. served_by xs i) = int (length xs)"
proof (induction xs)
  case (Cons x xs)
  have "served_by (x # xs) i = (if i = rr_target x then 1 else 0) + served_by xs i" for i
    by (simp add: served_by_def)
  then show ?case using Cons by (simp add: sum.distrib)
qed (simp add: served_by_def)

text \<open>
  The report of a run under any policy accounts for every request once, in order, on an
  engine that exists: hit and uncached tokens add up to the input tokens of each request and
  of all, a hit is no longer than the request's blocks, and the engines' requests add up.
\<close>

theorem replay_totals_add_up:
  assumes "run_oracle env name rows n cap scale seed qcap = Inr r"
  shows "op_requests r = int (length rows) \<and> op_hit_tokens r + op_uncached_tokens r = op_total_input_tokens r \<and>
    op_total_input_tokens r = sum_list (map rq_input_tokens rows) \<and>
    list_all2 (\<lambda>req x. rr_ordinal x = rq_ordinal req \<and> rr_target x < n \<and> 0 \<le> rr_hit_tokens x \<and>
      rr_hit_tokens x \<le> 16 * int (length (rq_hash_ids req)) \<and>
      rr_hit_tokens x + rr_uncached_tokens x = rq_input_tokens req) rows (op_per_request r) \<and>
    (\<Sum>i < n. op_per_engine_requests r i) = op_requests r"
proof -
  obtain pol s where run: "route_requests env n seed qcap scale rows (oracle_start pol n cap) = Inr s"
    and r: "oracle_report_of env name n cap rows s = Inr r"
    using assms by (rule run_oracleE) blast
  have all: "list_all2 (row_matches n) rows (os_rows s)" and books: "os_served s = int (length rows)"
      "os_hit s + os_uncached s = sum_list (map rq_input_tokens rows)"
    using route_requests_books [OF run] by (auto simp: oracle_start_def)
  have "\<forall>x \<in> set (os_rows s). rr_target x < n"
    using all by (auto simp: in_set_conv_nth list_all2_conv_all_nth row_matches_def)
  then have "(\<Sum>i < n. served_by (os_rows s) i) = int (length (os_rows s))" by (rule counted_rows)
  then have "(\<Sum>i < n. served_by (os_rows s) i) = os_served s" using books(1) list_all2_lengthD [OF all] by simp
  then show ?thesis using r books all
    by (auto simp: oracle_report_of_def Let_def row_matches_def [abs_def] split: if_splits)
qed

section \<open>A larger capacity\<close>

text \<open>
  Two runs that differ in the capacity alone: the policies, the counts and the choices are
  the same, every pair of engines caches what is newest in one recency list, and the run
  with more room has hit no less.
\<close>

definition caches_both :: "int \<Rightarrow> int \<Rightarrow> oracle_engine list \<Rightarrow> oracle_engine list \<Rightarrow> bool" where
  "caches_both cap cap' es es' \<longleftrightarrow>
     list_all2 (\<lambda>e e'. \<exists>stack. caches cap stack e \<and> caches cap' stack e') es es'"

definition same_routing :: "int \<Rightarrow> int \<Rightarrow> oracle_state \<Rightarrow> oracle_state \<Rightarrow> bool" where
  "same_routing cap cap' s s' \<longleftrightarrow> os_policy s = os_policy s' \<and> os_policy s \<noteq> OmniscientPolicy \<and>
     os_counts s = os_counts s' \<and> os_live s = os_live s' \<and> os_last_phase s = os_last_phase s' \<and>
     caches_both cap cap' (os_engines s) (os_engines s') \<and> os_hit s \<le> os_hit s' \<and>
     list_all2 (\<lambda>x x'. rr_target x = rr_target x' \<and> rr_hit_tokens x \<le> rr_hit_tokens x') (os_rows s) (os_rows s')"

lemma cached_prefix_mono: "cap \<le> cap' \<Longrightarrow> cached_prefix cap stack hs \<le> cached_prefix cap' stack hs"
proof (induction hs)
  case (Cons h hs)
  have "capacity_blocks cap \<le> capacity_blocks cap'"
    using Cons.prems by (simp add: capacity_blocks_def cache_block_def zdiv_mono1 nat_mono)
  then have "set (newest (capacity_blocks cap) stack) \<subseteq> set (newest (capacity_blocks cap') stack)" by (rule newest_mono)
  then show ?case using Cons by (auto simp: cached_prefix_def)
qed (simp add: cached_prefix_def)

lemma serve_both:
  assumes "caches_both cap cap' es es'" and "i < length es" and "cap \<le> cap'"
    and "serve_blocks hs (es ! i) = (hit, e)"
  obtains hit' e' where "serve_blocks hs (es' ! i) = (hit', e')" "hit \<le> hit'" "caches_both cap cap' (es[i := e]) (es'[i := e'])"
proof -
  obtain stack where c: "caches cap stack (es ! i)" "caches cap' stack (es' ! i)"
    using assms(1,2) by (auto simp: caches_both_def dest: list_all2_nthD)
  obtain hit' e' where s: "serve_blocks hs (es' ! i) = (hit', e')" by fastforce
  have "hit \<le> hit'"
    using serve_blocks_cached(1) [OF c(1), of hs] serve_blocks_cached(1) [OF c(2), of hs] assms(4) s
      cached_prefix_mono [OF assms(3), of stack hs] by (simp add: cache_block_def)
  moreover have "caches cap (fold move_to_end hs stack) e" "caches cap' (fold move_to_end hs stack) e'"
    using serve_blocks_cached(2) [OF c(1), of hs] serve_blocks_cached(2) [OF c(2), of hs] assms(4) s by simp_all
  then have "caches_both cap cap' (es[i := e]) (es'[i := e'])"
    using assms(1) unfolding caches_both_def by (intro list_all2_update_cong) auto
  ultimately show ?thesis using that s by blast
qed

lemma refresh_same:
  "same_routing cap cap' s s' \<Longrightarrow>
     os_policy (refresh_at_phase env n qcap req s') = os_policy (refresh_at_phase env n qcap req s) \<and>
     os_last_phase (refresh_at_phase env n qcap req s') = os_last_phase (refresh_at_phase env n qcap req s) \<and>
     os_policy (refresh_at_phase env n qcap req s) \<noteq> OmniscientPolicy"
  by (auto simp: same_routing_def refresh_at_phase_def refresh_policy_def Let_def split: oracle_policy.splits)

lemma route_request_larger:
  assumes same: "same_routing cap cap' s s'" and cap: "cap \<le> cap'" and run: "route_request env n seed qcap scale req s = Inr t"
  shows "\<exists>t'. route_request env n seed qcap scale req s' = Inr t' \<and> same_routing cap cap' t t'"
  using run
proof (rule route_requestE)
  fix target pol engines hit e
  let ?p = "os_policy (refresh_at_phase env n qcap req s)"
  assume c: "choose_engine env n seed req (os_live s) (?p, os_engines s) = Inr (target, pol, engines)"
    and tgt: "target < length engines" "serve_blocks (rq_hash_ids req) (engines ! target) = (hit, e)"
    and t: "os_policy t = pol" "os_engines t = engines[target := e]" "os_counts t = count_up (rq_key req) 1 (os_counts s)"
      "os_live t = os_live s" "os_hit t = os_hit s + hit" "os_rows t = os_rows s @ [row_of scale req target hit]"
      "os_last_phase t = os_last_phase (refresh_at_phase env n qcap req s)"
  note p = refresh_same [OF same, of env n qcap req]
  have b: "blind_choice env n seed req (os_live s) ?p = Inr (target, pol)" "engines = os_engines s"
    using c p by (auto simp: choose_blind split: sum.splits)
  obtain hit' e' where s': "serve_blocks (rq_hash_ids req) (os_engines s' ! target) = (hit', e')" "hit \<le> hit'"
    and both: "caches_both cap cap' ((os_engines s)[target := e]) ((os_engines s')[target := e'])"
    using same tgt cap unfolding b(2) same_routing_def by (blast elim: serve_both)
  have len: "target < length (os_engines s')"
    using same tgt(1) unfolding b(2) same_routing_def caches_both_def by (auto dest: list_all2_lengthD)
  have c': "choose_engine env n seed req (os_live s') (os_policy (refresh_at_phase env n qcap req s'), os_engines s') =
      Inr (target, pol, os_engines s')"
    using p b(1) same by (simp add: choose_blind same_routing_def)
  obtain t' where r': "route_request env n seed qcap scale req s' = Inr t'"
    using c' len s' by (simp add: route_request_def serve_request_def refresh_at_phase_frame Let_def)
  then show ?thesis
  proof (rule route_requestE)
    fix target' pol' engines' hit'' e''
    assume "choose_engine env n seed req (os_live s') (os_policy (refresh_at_phase env n qcap req s'), os_engines s') =
          Inr (target', pol', engines')"
      and "serve_blocks (rq_hash_ids req) (engines' ! target') = (hit'', e'')"
      and t': "os_policy t' = pol'" "os_engines t' = engines'[target' := e'']"
        "os_counts t' = count_up (rq_key req) 1 (os_counts s')" "os_live t' = os_live s'" "os_hit t' = os_hit s' + hit''"
        "os_rows t' = os_rows s' @ [row_of scale req target' hit'']"
        "os_last_phase t' = os_last_phase (refresh_at_phase env n qcap req s')"
    then have eq: "target' = target" "pol' = pol" "engines' = os_engines s'" "hit'' = hit'" "e'' = e'"
      using c' s' by auto
    have "pol \<noteq> OmniscientPolicy" using blind_choice_stays b(1) p by blast
    then have "same_routing cap cap' t t'"
      using same t t' both s'(2) p unfolding eq b(2) same_routing_def
      by (auto simp: row_of_def intro!: list_all2_appendI)
    then show ?thesis using r' by blast
  qed
qed

lemma route_requests_larger:
  assumes "route_requests env n seed qcap scale rows s = Inr t" and "cap \<le> cap'"
  shows "same_routing cap cap' s s' \<Longrightarrow>
    \<exists>t'. route_requests env n seed qcap scale rows s' = Inr t' \<and> same_routing cap cap' t t'"
  using assms(1)
proof (induction rows s t arbitrary: s' rule: route_requests_induct)
  case (Cons req rows s u t)
  from route_request_larger [OF Cons.prems assms(2) Cons.hyps(1)] obtain u'
    where "route_request env n seed qcap scale req s' = Inr u'" "same_routing cap cap' u u'" by blast
  with Cons.IH show ?case by auto
qed auto

text \<open>
  C27. Under every policy but \<open>oracle-omniscient\<close>, a run with larger caches sends every
  request to the same engine and hits no less, request by request and in total.
\<close>

theorem larger_caches_never_hit_less:
  assumes "run_oracle env name rows n cap scale seed qcap = Inr r" and "name \<noteq> ''oracle-omniscient''" and "cap \<le> cap'"
  shows "\<exists>r'. run_oracle env name rows n cap' scale seed qcap = Inr r' \<and> op_hit_tokens r \<le> op_hit_tokens r' \<and>
    list_all2 (\<lambda>x x'. rr_target x = rr_target x' \<and> rr_hit_tokens x \<le> rr_hit_tokens x') (op_per_request r) (op_per_request r')"
proof -
  obtain pol0 pol s where pol0: "new_policy name = Inr pol0" and pol: "fit_policy env n rows pol0 = Inr pol"
    and run: "route_requests env n seed qcap scale rows (oracle_start pol n cap) = Inr s"
    and r: "oracle_report_of env name n cap rows s = Inr r"
    using assms(1) by (rule run_oracleE)
  have "pol \<noteq> OmniscientPolicy"
    using pol0 pol assms(2) by (auto simp: new_policy_def fit_policy_def split: if_splits oracle_policy.splits)
  then have "same_routing cap cap' (oracle_start pol n cap) (oracle_start pol n cap')"
    using caches_new by (auto simp: same_routing_def oracle_start_def caches_both_def list_all2_conv_all_nth)
  then obtain s' where run': "route_requests env n seed qcap scale rows (oracle_start pol n cap') = Inr s'"
    and same: "same_routing cap cap' s s'"
    using route_requests_larger [OF run assms(3)] by blast
  obtain r' where r': "oracle_report_of env name n cap' rows s' = Inr r'"
    using r by (auto simp: oracle_report_of_def Let_def split: if_splits)
  have "run_oracle env name rows n cap' scale seed qcap = Inr r'"
    by (simp add: run_oracle_def pol0 pol run' r')
  moreover have "op_hit_tokens r = os_hit s" "op_per_request r = os_rows s" "op_hit_tokens r' = os_hit s'" "op_per_request r' = os_rows s'"
    using r r' by (auto simp: oracle_report_of_def Let_def split: if_splits)
  ultimately show ?thesis using same by (auto simp: same_routing_def)
qed

section \<open>Concrete runs\<close>

definition demo_env :: oracle_env where
  "demo_env = \<lparr>env_sha256 = (\<lambda>s. if s = ''ideal:b'' then 1 else if s = ''ideal:a'' then 0 else 0),
     env_ring1 = (\<lambda>n k. if n = 0 then None else Some 0), env_ring2 = (\<lambda>n k. if n = 0 then None else Some 0),
     env_sample = (\<lambda>seed n k. [0..<k]), env_below = (\<lambda>x. x - 1 / 1000), env_percentile = (\<lambda>xs q. 0)\<rparr>"

definition demo_routed :: "string \<Rightarrow> int list \<Rightarrow> int \<Rightarrow> oracle_request" where
  "demo_routed key hs i = \<lparr>rq_key = key, rq_hash_ids = hs, rq_input_tokens = 50, rq_offered_seconds = 0, rq_ordinal = i,
     rq_phase = 0, rq_turn = 0\<rparr>"

definition demo_workload :: "oracle_request list" where
  "demo_workload = [demo_routed ''a'' [1, 2, 3] 0, demo_routed ''b'' [1, 2, 4] 1, demo_routed ''a'' [1, 2, 3] 2]"

text \<open>The reported hits and targets of a run on the demonstration rows.\<close>

definition demo_run :: "string \<Rightarrow> int \<Rightarrow> exn + (nat \<times> int) list \<times> int" where
  "demo_run name cap = (case run_oracle demo_env name demo_workload 2 cap (1 / 20000) 42 1 of
     Inl e \<Rightarrow> Inl e | Inr r \<Rightarrow> Inr (map (\<lambda>x. (rr_target x, rr_hit_tokens x)) (op_per_request r), op_hit_tokens r))"

lemma demo_run_ok: "demo_run name cap = Inr v \<Longrightarrow> \<exists>r. run_oracle demo_env name demo_workload 2 cap (1 / 20000) 42 1 = Inr r \<and>
    map (\<lambda>x. (rr_target x, rr_hit_tokens x)) (op_per_request r) = fst v \<and> op_hit_tokens r = snd v"
  by (auto simp: demo_run_def split: sum.splits)

lemma demo_least_loaded: "demo_run ''least-loaded'' 48 = Inr ([(0, 0), (0, 32), (0, 32)], 64)"
  by code_simp

lemma demo_round_robin: "demo_run ''rr'' 48 = Inr ([(0, 0), (1, 0), (0, 48)], 48)" by code_simp

lemma demo_sticky: "demo_run ''sticky'' 32 = Inr ([(0, 0), (0, 0), (0, 0)], 0)" by code_simp

lemma demo_sticky_larger: "demo_run ''sticky'' 64 = Inr ([(0, 0), (0, 32), (0, 48)], 80)" by code_simp

lemma demo_home: "demo_run ''oracle-home'' 64 = Inr ([(0, 0), (1, 0), (0, 48)], 48)" by code_simp

lemma least_loaded_uses_one_engine_witness:
  "\<exists>r. run_oracle demo_env ''least-loaded'' demo_workload 2 48 (1 / 20000) 42 1 = Inr r \<and>
     length (op_per_request r) = 3 \<and> op_per_engine_requests r 1 = 0"
proof -
  obtain r where r: "run_oracle demo_env ''least-loaded'' demo_workload 2 48 (1 / 20000) 42 1 = Inr r"
    "map (\<lambda>x. (rr_target x, rr_hit_tokens x)) (op_per_request r) = [(0, 0), (0, 32), (0, 32)]"
    using demo_run_ok [OF demo_least_loaded] by auto
  have "length (op_per_request r) = 3" using arg_cong [OF r(2), of length] by simp
  with r(1) least_loaded_uses_one_engine [OF r(1)] show ?thesis by auto
qed

lemma replay_totals_add_up_witness:
  "\<exists>r. run_oracle demo_env ''rr'' demo_workload 2 48 (1 / 20000) 42 1 = Inr r \<and>
     op_hit_tokens r = 48 \<and> op_uncached_tokens r = 102"
proof -
  obtain r where r: "run_oracle demo_env ''rr'' demo_workload 2 48 (1 / 20000) 42 1 = Inr r" "op_hit_tokens r = 48"
    using demo_run_ok [OF demo_round_robin] by auto
  with replay_totals_add_up [OF r(1)] show ?thesis by (auto simp: demo_workload_def demo_routed_def)
qed

lemma larger_caches_never_hit_less_witness:
  "\<exists>r r'. run_oracle demo_env ''sticky'' demo_workload 2 32 (1 / 20000) 42 1 = Inr r \<and>
     run_oracle demo_env ''sticky'' demo_workload 2 64 (1 / 20000) 42 1 = Inr r' \<and>
     op_hit_tokens r = 0 \<and> op_hit_tokens r' = 80 \<and> op_hit_tokens r \<le> op_hit_tokens r'"
proof -
  obtain r where r: "run_oracle demo_env ''sticky'' demo_workload 2 32 (1 / 20000) 42 1 = Inr r" "op_hit_tokens r = 0"
    using demo_run_ok [OF demo_sticky] by auto
  obtain r' where r': "run_oracle demo_env ''sticky'' demo_workload 2 64 (1 / 20000) 42 1 = Inr r'" "op_hit_tokens r' = 80"
    using demo_run_ok [OF demo_sticky_larger] by auto
  from larger_caches_never_hit_less [OF r(1), of 64] obtain r'' where
    r'': "run_oracle demo_env ''sticky'' demo_workload 2 64 (1 / 20000) 42 1 = Inr r''" "op_hit_tokens r \<le> op_hit_tokens r''" by auto
  then have "r'' = r'" using r'(1) by simp
  with r r' r''(2) show ?thesis by blast
qed

text \<open>
  \<open>oracle-home\<close> is no bound on the policies with one home per stream: it spreads the streams
  by a hash, and \<open>sticky\<close> hits more where its own hash puts streams with a common prefix
  together.
\<close>

lemma home_oracle_can_lose:
  "\<exists>env rows r r'. run_oracle env ''oracle-home'' rows 2 64 (1 / 20000) 42 1 = Inr r \<and>
     run_oracle env ''sticky'' rows 2 64 (1 / 20000) 42 1 = Inr r' \<and> op_hit_tokens r < op_hit_tokens r'"
  using demo_run_ok [OF demo_home] demo_run_ok [OF demo_sticky_larger] by force

end
