(* ===== verification/OraclePlans.thy ===== *)
theory OraclePlans
  imports OracleReplay
begin

text \<open>
  The two planners of hot keys: \<open>rate_plan\<close> of \<open>experiments/weka_baselines/common.py\<close>, which
  calls \<open>build_plan\<close>, and \<open>CacheRoute.refresh\<close> of the offline replay, which repeats its
  loops in one. They start from different loads and stop differently, and over exact numbers
  assign the same replicas. In floating point the different loads at the start are rounded
  differently, which can order nearly equal loads the other way: then the two plans place a
  key differently, and what is shown here holds of the algorithms and not of their floats.
\<close>

lemma insort_key_order_cong:
  "\<forall>y \<in> set ys. (f x \<le> f y) = (g x \<le> g y) \<Longrightarrow> insort_key f x ys = insort_key g x ys"
  by (induction ys) auto

lemma sort_key_order_cong:
  "\<forall>x \<in> set xs. \<forall>y \<in> set xs. (f x \<le> f y) = (g x \<le> g y) \<Longrightarrow> sort_key f xs = sort_key g xs"
proof (induction xs)
  case (Cons x xs)
  have "insort_key f x (sort_key g xs) = insort_key g x (sort_key g xs)"
    using Cons.prems by (intro insort_key_order_cong) auto
  then show ?case using Cons by simp
qed simp

text \<open>A load that all replicas share does not matter.\<close>

lemma least_loaded_shift: "least_loaded_replicas (map (\<lambda>x. c + x) loads) count = least_loaded_replicas loads count"
proof -
  have "sort_key (\<lambda>i. (map (\<lambda>x. c + x) loads ! i, i)) [0..<length loads] = sort_key (\<lambda>i. (loads ! i, i)) [0..<length loads]"
    by (rule sort_key_order_cong) (auto simp: less_eq_prod_def)
  then show ?thesis by (simp add: least_loaded_replicas_def)
qed

lemma add_loads_shift:
  "set ts \<subseteq> {0..<length loads} \<Longrightarrow> add_loads ts share (map (\<lambda>x. c + x) loads) = map (\<lambda>x. c + x) (add_loads ts share loads)"
proof (induction ts arbitrary: loads)
  case (Cons t ts)
  then have "(map (\<lambda>x. c + x) loads)[t := map (\<lambda>x. c + x) loads ! t + share] = map (\<lambda>x. c + x) (loads[t := loads ! t + share])"
    by (simp add: map_update add.assoc)
  with Cons show ?case by simp
qed simp

lemma refresh_follows_plan:
  "admit_keys (int n) qcap slots used rs = Inr (admitted, u) \<Longrightarrow>
   refresh_keys n qcap slots rs used loads table = fst (place_keys admitted table (map (\<lambda>x. c + x) loads))"
proof (induction n qcap slots rs used loads table arbitrary: admitted rule: refresh_keys.induct)
  case (2 n qcap slots key rate rest used loads table)
  let ?count = "replica_count rate qcap" and ?ts = "least_loaded_replicas loads (replica_count rate qcap)"
  have fits: "\<not> int n < ?count" using "2.prems" by (auto split: if_splits)
  show ?case
  proof (cases "slots < used + ?count")
    case True
    then show ?thesis using "2.prems" fits by simp
  next
    case False
    with fits obtain adm where adm: "admit_keys (int n) qcap slots (used + ?count) rest = Inr (adm, u)"
      and eq: "admitted = (key, rate, ?count) # adm"
      using "2.prems" by (auto simp: Let_def split: sum.splits)
    have shift: "add_loads ?ts (rate / of_int ?count) (map (\<lambda>x. c + x) loads) =
        map (\<lambda>x. c + x) (add_loads ?ts (rate / of_int ?count) loads)"
      by (rule add_loads_shift [OF least_loaded_set(1)])
    show ?thesis using "2.IH" [OF refl _ refl adm] fits False shift by (simp add: eq Let_def least_loaded_shift)
  qed
qed simp

text \<open>Rates below the whole capacity never need more replicas than there are.\<close>

lemma capped_rate_fits:
  assumes "0 < qcap" and "1 \<le> n" and "rate \<le> qcap * of_int n"
  shows "replica_count rate qcap \<le> n"
proof -
  have "rate / qcap \<le> of_int n" using assms by (simp add: divide_le_eq mult.commute)
  then show ?thesis using assms(2) by (simp add: replica_count_def ceiling_le_iff)
qed

lemma capped_keys_admitted:
  "\<forall>(k, r) \<in> set rs. replica_count r qcap \<le> n \<Longrightarrow> \<exists>admitted u. admit_keys n qcap slots used rs = Inr (admitted, u)"
proof (induction rs arbitrary: used)
  case (Cons x rs)
  obtain k r where x: "x = (k, r)" by fastforce
  with Cons obtain admitted u where "admit_keys n qcap slots (used + replica_count r qcap) rs = Inr (admitted, u)" by fastforce
  with Cons.prems x show ?case by (auto simp: Let_def)
qed simp

lemma updated_nonneg: "0 \<le> (x :: int) \<Longrightarrow> \<forall>(k, v) \<in> set c. 0 \<le> v \<Longrightarrow> \<forall>(k, v) \<in> set (AList.update k' x c). 0 \<le> v"
  by (induction c) auto

lemma counted_nonneg: "\<forall>(k, v) \<in> set c. 0 \<le> v \<Longrightarrow> \<forall>(k, v) \<in> set (fold (\<lambda>k. count_up k 1) history c). 0 \<le> v"
proof (induction history arbitrary: c)
  case (Cons k ks)
  have "0 \<le> count_of k c" using Cons.prems by (auto simp: count_of_def dest: map_of_SomeD split: option.split)
  then have "\<forall>(k', v) \<in> set (count_up k 1 c). 0 \<le> v"
    unfolding count_up_def using Cons.prems by (intro updated_nonneg) simp_all
  with Cons.IH show ?case by simp
qed simp

text \<open>
  On the counts of any history, with a cap on the rates that stays within the whole
  capacity, \<open>rate_plan\<close> returns a plan, and over exact numbers \<open>CacheRoute.refresh\<close> builds the
  same table of assignments from those counts.
\<close>

lemma planners_agree:
  assumes "0 < qcap" and "1 \<le> n" and "\<And>x. 0 < x \<Longrightarrow> 0 \<le> below x \<and> below x \<le> x"
  shows "\<exists>pl. rate_plan below history (int n) qcap 60 = Inr pl \<and>
    pn_assignments pl = refresh_table below n qcap (int n * 128) (fold (\<lambda>k. count_up k 1) history [])"
proof -
  let ?counts = "fold (\<lambda>k. count_up k 1) history []"
  let ?rates = "capped_rates below 60 qcap (int n) ?counts"
  have counts: "\<forall>(k, v) \<in> set ?counts. 0 \<le> v" by (rule counted_nonneg) simp
  have cap: "0 < qcap * of_int (int n)" using assms(1,2) by simp
  have pos: "\<forall>(k, r) \<in> set ?rates. 0 \<le> r \<and> r \<le> qcap * of_int (int n)"
    using counts assms(3) [OF cap] by (auto simp: capped_rates_def intro: min.coboundedI2)
  then have "\<forall>(k, r) \<in> set (hot_order ?rates). replica_count r qcap \<le> int n"
    using capped_rate_fits [OF assms(1), of "int n"] assms(2) by (auto simp: hot_order_def)
  then obtain admitted u where adm: "admit_keys (int n) qcap (int n * 128) 0 (hot_order ?rates) = Inr (admitted, u)"
    using capped_keys_admitted by blast
  let ?cold = "(sum_list (map snd (hot_order ?rates)) - sum_list (map (\<lambda>(_, r, _). r) admitted)) / of_int (int n)"
  obtain table loads where place: "place_keys admitted [] (replicate n ?cold) = (table, loads)" by fastforce
  have "\<not> (\<exists>(k, r) \<in> set ?rates. r < 0)" using pos by fastforce
  then have "rate_plan below history (int n) qcap 60 =
      Inr \<lparr>pn_assignments = table, pn_expected_load = loads, pn_slots_used = u\<rparr>"
    using assms(1,2) adm place by (simp add: rate_plan_def build_plan_def Let_def)
  moreover have "refresh_table below n qcap (int n * 128) ?counts = table"
    using refresh_follows_plan [OF adm, of "replicate n 0" "[]" ?cold] place by (simp add: refresh_table_def)
  ultimately show ?thesis by simp
qed

end
