(* ===== verification/Workload.thy ===== *)
theory Workload
  imports Prelude "HOL-Library.Multiset"
begin

text \<open>
  \<open>schedule\<close> of \<open>experiments/weka_baselines/common.py\<close> and its twin \<open>build_workload\<close> of
  \<open>oracle/simulate.py\<close>: three phases of shuffled arrivals, with the predecessor of every
  request. SHA-256 and the seeded shuffle are parameters, times are exact rationals. The
  lemmas show that a stream's requests keep their turn order and are linked in it.
\<close>

record source_row =
  sr_key :: string
  sr_stream_index :: int
  sr_turn :: int
  sr_hash_ids :: "int list"
  sr_input_tokens :: int

record scheduled_row = source_row +
  sc_ordinal :: int
  sc_phase :: int
  sc_offered :: rat
  sc_predecessor :: "int option"

text \<open>\<open>lookup\<close>: the last row of a stream and turn.\<close>

definition lookup_row :: "source_row list \<Rightarrow> int \<times> int \<Rightarrow> source_row option" where
  "lookup_row rows p = find (\<lambda>r. (sr_stream_index r, sr_turn r) = p) (rev rows)"

definition hot_streams :: "(string \<Rightarrow> string) \<Rightarrow> int \<Rightarrow> int list" where
  "hot_streams digest streams =
     take (nat (max 1 (streams div 4))) (sort_key (\<lambda>i. digest (''hot:'' @ str_int i)) [0..streams - 1])"

definition skewed :: "string \<Rightarrow> int \<Rightarrow> bool" where
  "skewed scenario phase \<longleftrightarrow> scenario = ''hotspot'' \<and> 0 < phase"

definition phase_pairs :: "(string \<Rightarrow> string) \<Rightarrow> string \<Rightarrow> int \<Rightarrow> int \<Rightarrow> (int \<times> int) list" where
  "phase_pairs digest scenario streams phase =
     (if skewed scenario phase
      then concat (map (\<lambda>j. map (\<lambda>i. (i, 1 + (phase - 1) * 4 + j)) (hot_streams digest streams)) [0, 1, 2, 3])
      else map (\<lambda>i. (i, phase)) [0..streams - 1])"

text \<open>The pairs of a phase in their final order: shuffled, then stably sorted.\<close>

definition phase_order ::
  "(string \<Rightarrow> string) \<Rightarrow> (int \<Rightarrow> (int \<times> int) list \<Rightarrow> (int \<times> int) list) \<Rightarrow> int \<Rightarrow> string \<Rightarrow> int \<Rightarrow> int \<Rightarrow> (int \<times> int) list" where
  "phase_order digest shuffle seed scenario streams phase =
     sort_key (\<lambda>p. if skewed scenario phase then snd p else 0)
       (shuffle (seed + phase) (phase_pairs digest scenario streams phase))"

definition spread :: "string \<Rightarrow> rat \<Rightarrow> nat \<Rightarrow> nat \<Rightarrow> rat" where
  "spread scenario period rank n =
     (if scenario = ''burst'' then 0 else period * (1 / 2) * of_nat rank / of_nat (max 1 n))"

text \<open>The inner loop over a phase's pairs; \<open>n\<close> is their number.\<close>

fun place_pairs ::
  "source_row list \<Rightarrow> string \<Rightarrow> rat \<Rightarrow> int \<Rightarrow> nat \<Rightarrow> nat \<Rightarrow> (int \<times> int) list \<Rightarrow> scheduled_row list \<Rightarrow> exn + scheduled_row list" where
  "place_pairs rows scenario period phase n rank [] result = Inr result"
| "place_pairs rows scenario period phase n rank (p # ps) result =
     (case lookup_row rows p of
        None \<Rightarrow> Inl (KeyError (''('' @ str_int (fst p) @ '', '' @ str_int (snd p) @ '')''))
      | Some r \<Rightarrow> place_pairs rows scenario period phase n (Suc rank) ps
          (result @ [\<lparr>sr_key = sr_key r, sr_stream_index = sr_stream_index r, sr_turn = sr_turn r,
                      sr_hash_ids = sr_hash_ids r, sr_input_tokens = sr_input_tokens r,
                      sc_ordinal = int (length result), sc_phase = phase,
                      sc_offered = of_int phase * period + spread scenario period rank n, sc_predecessor = None\<rparr>]))"

fun place_phases ::
  "(int \<Rightarrow> (int \<times> int) list) \<Rightarrow> source_row list \<Rightarrow> string \<Rightarrow> rat \<Rightarrow> int list \<Rightarrow> scheduled_row list \<Rightarrow> exn + scheduled_row list" where
  "place_phases order rows scenario period [] result = Inr result"
| "place_phases order rows scenario period (phase # phases) result =
     (case place_pairs rows scenario period phase (length (order phase)) 0 (order phase) result of
        Inl e \<Rightarrow> Inl e
      | Inr result' \<Rightarrow> place_phases order rows scenario period phases result')"

text \<open>The predecessor links, over the rows in the order of phase, turn and stream.\<close>

fun link_rows :: "(string \<Rightarrow> int option) \<Rightarrow> scheduled_row list \<Rightarrow> scheduled_row list" where
  "link_rows prior [] = []"
| "link_rows prior (r # rs) = r\<lparr>sc_predecessor := prior (sr_key r)\<rparr> # link_rows (prior(sr_key r \<mapsto> sc_ordinal r)) rs"

text \<open>
  The code links the rows in place and sorts \<open>result\<close>; the ordinals are distinct, so sorting
  the linked rows is the same.
\<close>

definition build_workload ::
  "(string \<Rightarrow> string) \<Rightarrow> (int \<Rightarrow> (int \<times> int) list \<Rightarrow> (int \<times> int) list) \<Rightarrow> source_row list \<Rightarrow> rat \<Rightarrow> int \<Rightarrow> string \<Rightarrow> int \<Rightarrow>
   exn + scheduled_row list" where
  "build_workload digest shuffle rows period streams scenario seed =
     (case place_phases (phase_order digest shuffle seed scenario streams) rows scenario period [0, 1, 2] [] of
        Inl e \<Rightarrow> Inl e
      | Inr result \<Rightarrow>
          let linked = link_rows Map.empty (sort_key (\<lambda>r. (sc_phase r, sr_turn r, sr_stream_index r)) result)
          in Inr (sort_key (\<lambda>r. (sc_offered r, sc_ordinal r)) linked))"

definition schedule_rows ::
  "(string \<Rightarrow> string) \<Rightarrow> (int \<Rightarrow> (int \<times> int) list \<Rightarrow> (int \<times> int) list) \<Rightarrow> source_row list \<Rightarrow> string \<Rightarrow> int \<Rightarrow> rat \<Rightarrow>
   exn + scheduled_row list" where
  "schedule_rows digest shuffle rows scenario streams period = build_workload digest shuffle rows period streams scenario 734"

section \<open>The placed rows\<close>

text \<open>What a placed row keeps of its pair.\<close>

definition placed :: "string \<Rightarrow> rat \<Rightarrow> int \<Rightarrow> nat \<Rightarrow> nat \<Rightarrow> int \<times> int \<Rightarrow> scheduled_row \<Rightarrow> bool" where
  "placed scenario period phase n rank p x \<longleftrightarrow> (sr_stream_index x, sr_turn x) = p \<and> sc_phase x = phase \<and>
     sc_offered x = of_int phase * period + spread scenario period rank n"

lemma place_pairs_spec:
  assumes "place_pairs rows scenario period phase n rank ps result = Inr out"
  obtains xs where "out = result @ xs" "length xs = length ps"
    "\<forall>i < length ps. placed scenario period phase n (rank + i) (ps ! i) (xs ! i) \<and> sc_ordinal (xs ! i) = int (length result + i) \<and>
       (\<exists>r \<in> set rows. sr_key (xs ! i) = sr_key r \<and> sr_stream_index (xs ! i) = sr_stream_index r)"
  using assms
proof (induction ps arbitrary: rank result thesis)
  case (Cons p ps)
  then obtain r where r: "lookup_row rows p = Some r" by (auto split: option.splits)
  let ?x = "\<lparr>sr_key = sr_key r, sr_stream_index = sr_stream_index r, sr_turn = sr_turn r,
      sr_hash_ids = sr_hash_ids r, sr_input_tokens = sr_input_tokens r,
      sc_ordinal = int (length result), sc_phase = phase,
      sc_offered = of_int phase * period + spread scenario period rank n, sc_predecessor = None\<rparr> :: scheduled_row"
  from r have rr: "r \<in> set rows" "(sr_stream_index r, sr_turn r) = p"
    by (auto simp: lookup_row_def dest!: find_Some_mem)
  obtain xs where xs: "out = (result @ [?x]) @ xs" "length xs = length ps"
    "\<forall>i < length ps. placed scenario period phase n (Suc rank + i) (ps ! i) (xs ! i) \<and>
       sc_ordinal (xs ! i) = int (length (result @ [?x]) + i) \<and>
       (\<exists>r \<in> set rows. sr_key (xs ! i) = sr_key r \<and> sr_stream_index (xs ! i) = sr_stream_index r)"
    using Cons.IH [of "result @ [?x]" "Suc rank"] Cons.prems(2) r by auto
  show ?case
  proof (rule Cons.prems(1) [of "?x # xs"])
    show "\<forall>i < length (p # ps). placed scenario period phase n (rank + i) ((p # ps) ! i) ((?x # xs) ! i) \<and>
       sc_ordinal ((?x # xs) ! i) = int (length result + i) \<and>
       (\<exists>r \<in> set rows. sr_key ((?x # xs) ! i) = sr_key r \<and> sr_stream_index ((?x # xs) ! i) = sr_stream_index r)"
    proof (intro allI impI)
      fix i assume "i < length (p # ps)"
      then show "placed scenario period phase n (rank + i) ((p # ps) ! i) ((?x # xs) ! i) \<and>
         sc_ordinal ((?x # xs) ! i) = int (length result + i) \<and>
         (\<exists>r \<in> set rows. sr_key ((?x # xs) ! i) = sr_key r \<and> sr_stream_index ((?x # xs) ! i) = sr_stream_index r)"
        using xs(3) rr by (cases i) (auto simp: placed_def)
    qed
  qed (use xs in simp_all)
qed simp

section \<open>The order of a phase\<close>

text \<open>The turns a phase serves.\<close>

definition phase_turn :: "string \<Rightarrow> int \<Rightarrow> int \<Rightarrow> bool" where
  "phase_turn scenario phase turn \<longleftrightarrow>
     (if skewed scenario phase then 4 * phase - 3 \<le> turn \<and> turn \<le> 4 * phase else turn = phase)"

lemma phase_turn_less: "phase_turn scenario p t \<Longrightarrow> phase_turn scenario q u \<Longrightarrow> 0 \<le> p \<Longrightarrow> p < q \<Longrightarrow> t < u"
  by (auto simp: phase_turn_def skewed_def split: if_splits)

lemma distinct_hot_streams: "distinct (hot_streams digest streams)"
  unfolding hot_streams_def by (intro distinct_take) simp

lemma phase_pairs_ok:
  "distinct (phase_pairs digest scenario streams phase) \<and>
   (\<forall>p \<in> set (phase_pairs digest scenario streams phase). phase_turn scenario phase (snd p))"
  by (auto simp: phase_pairs_def phase_turn_def distinct_map inj_on_def distinct_hot_streams)

lemma phase_order_ok:
  assumes shuffle: "\<And>s xs. mset (shuffle s xs) = mset xs"
  shows "sorted_wrt (\<lambda>p q. fst p = fst q \<longrightarrow> snd p < snd q) (phase_order digest shuffle seed scenario streams phase)"
    and "\<forall>p \<in> set (phase_order digest shuffle seed scenario streams phase). phase_turn scenario phase (snd p)"
proof -
  let ?o = "phase_order digest shuffle seed scenario streams phase"
  have m: "mset ?o = mset (phase_pairs digest scenario streams phase)" by (simp add: phase_order_def shuffle)
  have d: "distinct ?o" using m phase_pairs_ok by (metis mset_eq_imp_distinct_iff)
  show turns: "\<forall>p \<in> set ?o. phase_turn scenario phase (snd p)" using m phase_pairs_ok by (metis mset_eq_setD)
  have sorted: "sorted (map (\<lambda>p. if skewed scenario phase then snd p else 0) ?o)" by (simp add: phase_order_def)
  show "sorted_wrt (\<lambda>p q. fst p = fst q \<longrightarrow> snd p < snd q) ?o"
    unfolding sorted_wrt_iff_nth_less
  proof (intro allI impI)
    fix i j assume ij: "i < j" "j < length ?o" "fst (?o ! i) = fst (?o ! j)"
    then have ne: "?o ! i \<noteq> ?o ! j" using d by (simp add: nth_eq_iff_index_eq)
    show "snd (?o ! i) < snd (?o ! j)"
    proof (cases "skewed scenario phase")
      case True
      then have "snd (?o ! i) \<le> snd (?o ! j)" using sorted_nth_mono [OF sorted, of i j] ij by simp
      then show ?thesis using ne ij(3) by (metis order_le_less prod_eqI)
    next
      case False
      then have "snd (?o ! i) = snd (?o ! j)" using turns ij by (simp add: phase_turn_def)
      then show ?thesis using ne ij(3) by (metis prod_eqI)
    qed
  qed
qed

section \<open>The placed rows are in causal order\<close>

definition row_before :: "scheduled_row \<Rightarrow> scheduled_row \<Rightarrow> bool" where
  "row_before x y \<longleftrightarrow> sc_ordinal x < sc_ordinal y \<and> sc_offered x \<le> sc_offered y \<and>
     (sr_key x = sr_key y \<longrightarrow> sr_turn x < sr_turn y \<and> sc_phase x \<le> sc_phase y \<and> sr_stream_index x = sr_stream_index y)"

text \<open>The rows placed before a phase.\<close>

definition placed_before :: "source_row list \<Rightarrow> string \<Rightarrow> rat \<Rightarrow> int \<Rightarrow> scheduled_row list \<Rightarrow> bool" where
  "placed_before rows scenario period phase result \<longleftrightarrow> sorted_wrt row_before result \<and>
     map sc_ordinal result = map int [0..<length result] \<and>
     (\<forall>x \<in> set result. 0 \<le> sc_phase x \<and> sc_phase x < phase \<and> sc_offered x \<le> of_int phase * period \<and>
        phase_turn scenario (sc_phase x) (sr_turn x) \<and>
        (\<exists>r \<in> set rows. sr_key x = sr_key r \<and> sr_stream_index x = sr_stream_index r))"

lemma spread_mono: "0 \<le> period \<Longrightarrow> i \<le> j \<Longrightarrow> spread scenario period i n \<le> spread scenario period j n"
  by (simp add: spread_def divide_right_mono mult_left_mono)

lemma spread_bounds: "0 \<le> period \<Longrightarrow> i < n \<Longrightarrow> 0 \<le> spread scenario period i n \<and> spread scenario period i n \<le> period"
proof -
  assume p: "0 \<le> period" and i: "i < n"
  then have "of_nat i / of_nat (max 1 n) \<le> (1 :: rat)" by (simp add: divide_le_eq)
  then have "period * (1 / 2 * (of_nat i / of_nat (max 1 n))) \<le> period * 1"
    using p by (intro mult_left_mono) simp_all
  then show ?thesis using p by (simp add: spread_def)
qed

lemma place_phase_before:
  assumes run: "place_pairs rows scenario period phase (length ps) 0 ps result = Inr out"
    and before: "placed_before rows scenario period phase result" and period: "0 \<le> period" and phase: "0 \<le> phase"
    and streams: "\<And>r r'. r \<in> set rows \<Longrightarrow> r' \<in> set rows \<Longrightarrow> sr_key r = sr_key r' \<Longrightarrow> sr_stream_index r = sr_stream_index r'"
    and order: "sorted_wrt (\<lambda>p q. fst p = fst q \<longrightarrow> snd p < snd q) ps" "\<forall>p \<in> set ps. phase_turn scenario phase (snd p)"
  shows "placed_before rows scenario period (phase + 1) out"
proof -
  obtain xs where out: "out = result @ xs" and len: "length xs = length ps"
    and xs: "\<And>i. i < length ps \<Longrightarrow> placed scenario period phase (length ps) i (ps ! i) (xs ! i)"
      "\<And>i. i < length ps \<Longrightarrow> sc_ordinal (xs ! i) = int (length result + i)"
      "\<And>i. i < length ps \<Longrightarrow> \<exists>r \<in> set rows. sr_key (xs ! i) = sr_key r \<and> sr_stream_index (xs ! i) = sr_stream_index r"
    using run by (rule place_pairs_spec) auto
  have new: "0 \<le> sc_phase x \<and> sc_phase x < phase + 1 \<and> of_int phase * period \<le> sc_offered x \<and>
      sc_offered x \<le> of_int (phase + 1) * period \<and> sc_phase x = phase \<and> phase_turn scenario phase (sr_turn x) \<and>
      int (length result) \<le> sc_ordinal x \<and>
      (\<exists>r \<in> set rows. sr_key x = sr_key r \<and> sr_stream_index x = sr_stream_index r)" if x: "x \<in> set xs" for x
  proof -
    obtain i where i: "i < length ps" "x = xs ! i" using x len by (auto simp: in_set_conv_nth)
    have "snd (ps ! i) = sr_turn x" using xs(1) [OF i(1)] i(2) unfolding placed_def by (metis snd_conv)
    then have "phase_turn scenario phase (sr_turn x)" using order(2) nth_mem [OF i(1)] by metis
    then show ?thesis
      using xs(1) [OF i(1)] xs(2,3) [OF i(1)] spread_bounds [OF period i(1), of scenario] phase
      by (simp add: i(2) placed_def distrib_right)
  qed
  have "map sc_ordinal xs = map int [length result..<length result + length xs]"
    using xs(2) len by (intro nth_equalityI) simp_all
  then have ordinals: "map sc_ordinal out = map int [0..<length out]"
    using before by (simp add: out placed_before_def upt_add_eq_append [of 0])
  have old: "sc_ordinal x < int (length result)" if "x \<in> set result" for x
  proof -
    have "sc_ordinal x \<in> set (map sc_ordinal result)" using that by simp
    then show ?thesis using before unfolding placed_before_def by auto
  qed
  have "sorted_wrt row_before xs"
    unfolding sorted_wrt_iff_nth_less
  proof (intro allI impI)
    fix i j assume ij: "i < j" "j < length xs"
    then have i: "i < length ps" and j: "j < length ps" using len by simp_all
    have "sr_stream_index (xs ! i) = sr_stream_index (xs ! j)" if "sr_key (xs ! i) = sr_key (xs ! j)"
      using xs(3) [OF i] xs(3) [OF j] that streams by metis
    moreover have "fst (ps ! i) = fst (ps ! j) \<longrightarrow> snd (ps ! i) < snd (ps ! j)"
      using order(1) ij(1) j by (simp add: sorted_wrt_iff_nth_less)
    ultimately show "row_before (xs ! i) (xs ! j)"
      using xs(1,2) [OF i] xs(1,2) [OF j] spread_mono [OF period less_imp_le [OF ij(1)], of scenario "length ps"] ij(1)
      by (auto simp: row_before_def placed_def prod_eq_iff)
  qed
  moreover have "row_before x y" if x: "x \<in> set result" and y: "y \<in> set xs" for x y
  proof -
    have xf: "0 \<le> sc_phase x" "sc_phase x < phase" "sc_offered x \<le> of_int phase * period"
        "phase_turn scenario (sc_phase x) (sr_turn x)" "\<exists>r \<in> set rows. sr_key x = sr_key r \<and> sr_stream_index x = sr_stream_index r"
      using before x by (auto simp: placed_before_def)
    have "sr_turn x < sr_turn y" using phase_turn_less [OF xf(4) _ xf(1,2)] new [OF y] by blast
    moreover have "sr_stream_index x = sr_stream_index y" if "sr_key x = sr_key y"
      using xf(5) new [OF y] that streams by metis
    ultimately show ?thesis using old [OF x] xf(2,3) new [OF y] by (auto simp: row_before_def)
  qed
  ultimately have "sorted_wrt row_before out" using before by (auto simp: out sorted_wrt_append placed_before_def)
  moreover have "of_int phase * period \<le> of_int (phase + 1) * period" using period by (simp add: distrib_right)
  ultimately show ?thesis
    using before new ordinals unfolding placed_before_def out set_append by fastforce
qed

lemma place_phases_before:
  assumes "place_phases order rows scenario period phases result = Inr out" and "phases = [k..2]" and "0 \<le> k" "k \<le> 3"
    and "placed_before rows scenario period k result" and "0 \<le> period"
    and "\<And>r r'. r \<in> set rows \<Longrightarrow> r' \<in> set rows \<Longrightarrow> sr_key r = sr_key r' \<Longrightarrow> sr_stream_index r = sr_stream_index r'"
    and "\<And>phase. sorted_wrt (\<lambda>p q. fst p = fst q \<longrightarrow> snd p < snd q) (order phase)"
    and "\<And>phase. \<forall>p \<in> set (order phase). phase_turn scenario phase (snd p)"
  shows "placed_before rows scenario period 3 out"
  using assms
proof (induction order rows scenario period phases result arbitrary: k rule: place_phases.induct)
  case (1 order rows scenario period result)
  have "k = 3" using "1.prems"(2,4) by simp
  moreover have "out = result" using "1.prems"(1) by simp
  ultimately show ?case using "1.prems"(5) by simp
next
  case (2 order rows scenario period phase phases result)
  have k: "k \<le> 2" "phase = k" "phases = [k + 1..2]"
    using "2.prems"(2) by (metis list.distinct(1) list.inject not_less upto_Nil2 upto_rec1)+
  obtain mid where mid: "place_pairs rows scenario period phase (length (order phase)) 0 (order phase) result = Inr mid"
    and rest: "place_phases order rows scenario period phases mid = Inr out"
    using "2.prems"(1) by (auto split: sum.splits)
  have "placed_before rows scenario period (k + 1) mid"
    unfolding k(2) [symmetric]
  proof (rule place_phase_before [OF mid _ "2.prems"(6)])
    show "placed_before rows scenario period phase result" "0 \<le> phase" using "2.prems"(3,5) k(2) by simp_all
  qed (fact "2.prems"(7), rule "2.prems"(8), rule "2.prems"(9))
  moreover have "0 \<le> k + 1" "k + 1 \<le> 3" using "2.prems"(3) k(1) by simp_all
  ultimately show ?case using "2.IH" [OF mid rest k(3)] "2.prems"(6-9) by blast
qed

section \<open>The links\<close>

text \<open>Within a key, every row is linked to the one before it.\<close>

lemma link_rows_key:
  "map sc_predecessor (filter (\<lambda>r. sr_key r = k) (link_rows prior rs)) =
     butlast (prior k # map (\<lambda>r. Some (sc_ordinal r)) (filter (\<lambda>r. sr_key r = k) rs))"
proof (induction rs arbitrary: prior)
  case (Cons r rs)
  from Cons [of "prior(sr_key r \<mapsto> sc_ordinal r)"] show ?case
    by (cases "sr_key r = k") (simp_all del: fun_upd_apply butlast.simps, simp_all)
qed simp

lemma link_rows_map:
  "(\<And>r p. f (r\<lparr>sc_predecessor := p\<rparr>) = f r) \<Longrightarrow> map f (link_rows prior rs) = map f rs"
  by (induction rs arbitrary: prior) simp_all

lemma filter_link_rows:
  "(\<And>r p. f (r\<lparr>sc_predecessor := p\<rparr>) = f r) \<Longrightarrow>
     map f (filter (\<lambda>r. sr_key r = k) (link_rows prior rs)) = map f (filter (\<lambda>r. sr_key r = k) rs)"
  by (induction rs arbitrary: prior) simp_all

text \<open>
  Over rows whose key determines their stream, whatever the shuffles: the schedule is in
  the order of its ordinals and of its arrival times, the requests of a stream arrive in the
  order of their turns, and each is linked to the one before it in the stream, the first to
  none.
\<close>

theorem schedule_keeps_causal_order:
  assumes run: "build_workload digest shuffle rows period streams scenario seed = Inr out"
    and shuffle: "\<And>s xs. mset (shuffle s xs) = mset xs" and period: "0 \<le> period"
    and keys: "\<And>r r'. r \<in> set rows \<Longrightarrow> r' \<in> set rows \<Longrightarrow> sr_key r = sr_key r' \<Longrightarrow> sr_stream_index r = sr_stream_index r'"
  shows "map sc_ordinal out = map int [0..<length out] \<and> sorted (map sc_offered out) \<and>
    (\<forall>k. sorted_wrt (<) (map sr_turn (filter (\<lambda>r. sr_key r = k) out)) \<and>
       map sc_predecessor (filter (\<lambda>r. sr_key r = k) out) =
         butlast (None # map (\<lambda>r. Some (sc_ordinal r)) (filter (\<lambda>r. sr_key r = k) out)))"
proof -
  define f where "f r = (sc_offered r, sc_ordinal r)" for r :: scheduled_row
  define g where "g r = (sc_phase r, sr_turn r, sr_stream_index r)" for r :: scheduled_row
  obtain R where placed: "place_phases (phase_order digest shuffle seed scenario streams) rows scenario period [0, 1, 2] [] = Inr R"
    and out: "out = sort_key f (link_rows Map.empty (sort_key g R))"
    using run by (auto simp: build_workload_def Let_def f_def [abs_def] g_def [abs_def] split: sum.splits)
  have fp: "f (r\<lparr>sc_predecessor := p\<rparr>) = f r" for r p by (simp add: f_def)
  have phases: "[0, 1, 2] = [0..2 :: int]" by (simp add: upto.simps)
  have start: "placed_before rows scenario period 0 []" by (simp add: placed_before_def)
  have R: "placed_before rows scenario period 3 R"
    by (rule place_phases_before [OF placed phases _ _ start period keys phase_order_ok [OF shuffle]]) simp_all
  then have before: "sorted_wrt row_before R" and ord: "map sc_ordinal R = map int [0..<length R]"
    by (simp_all add: placed_before_def)
  have fR: "sorted (map f R)"
    using before unfolding sorted_map by (rule sorted_wrt_mono_rel [rotated]) (auto simp: f_def row_before_def)
  have "mset (map f (link_rows Map.empty (sort_key g R))) = mset (map f R)"
    unfolding link_rows_map [of f, OF fp] by simp
  then have "mset (map f out) = mset (map f R)" by (simp add: out)
  moreover have "sorted (map f out)" by (simp add: out)
  ultimately have map: "map f out = map f R" using fR by (metis properties_for_sort)
  then have "map snd (map f out) = map snd (map f R)" "map fst (map f out) = map fst (map f R)" by simp_all
  then have "map sc_ordinal out = map sc_ordinal R" "map sc_offered out = map sc_offered R"
    by (simp_all add: f_def comp_def)
  moreover from map have "length out = length R" by (rule map_eq_imp_length_eq)
  moreover have "sorted (map sc_offered R)"
    using before unfolding sorted_map by (rule sorted_wrt_mono_rel [rotated]) (simp add: row_before_def)
  moreover have "sorted_wrt (<) (map sr_turn (filter (\<lambda>r. sr_key r = k) out)) \<and>
      map sc_predecessor (filter (\<lambda>r. sr_key r = k) out) =
        butlast (None # map (\<lambda>r. Some (sc_ordinal r)) (filter (\<lambda>r. sr_key r = k) out))" for k
  proof -
    let ?P = "\<lambda>r :: scheduled_row. sr_key r = k" and ?L = "link_rows Map.empty (sort_key g R)"
    have kR: "sorted_wrt (\<lambda>x y. sr_turn x < sr_turn y \<and> g x \<le> g y \<and> f x \<le> f y) (filter ?P R)"
      using sorted_wrt_filter [OF before, of ?P]
      by (rule sorted_wrt_mono_rel [rotated]) (auto simp: row_before_def f_def g_def)
    then have "sorted (map g (filter ?P R))" unfolding sorted_map by (rule sorted_wrt_mono_rel [rotated]) simp
    then have kS: "filter ?P (sort_key g R) = filter ?P R" by (simp add: filter_sort sorted_map sort_key_id_if_sorted)
    have "map f (filter ?P ?L) = map f (filter ?P R)" using filter_link_rows [of f k Map.empty, OF fp] kS by simp
    moreover have "sorted (map f (filter ?P R))" using kR unfolding sorted_map by (rule sorted_wrt_mono_rel [rotated]) simp
    ultimately have "sorted (map f (filter ?P ?L))" by simp
    then have kout: "filter ?P out = filter ?P ?L" by (simp add: out filter_sort sort_key_id_if_sorted)
    have "map sr_turn (filter ?P ?L) = map sr_turn (filter ?P R)" "map sc_ordinal (filter ?P ?L) = map sc_ordinal (filter ?P R)"
      using filter_link_rows [of sr_turn k Map.empty] filter_link_rows [of sc_ordinal k Map.empty] kS by simp_all
    then have eq: "map sr_turn (filter ?P out) = map sr_turn (filter ?P R)"
        "map (\<lambda>r. Some (sc_ordinal r)) (filter ?P out) = map (\<lambda>r. Some (sc_ordinal r)) (filter ?P R)"
      unfolding kout by (simp, metis (mono_tags, lifting) map_map comp_def map_eq_conv)
    have "map sc_predecessor (filter ?P out) = butlast (None # map (\<lambda>r. Some (sc_ordinal r)) (filter ?P R))"
      using link_rows_key [of k Map.empty "sort_key g R"] unfolding kout kS by simp
    moreover have "sorted_wrt (<) (map sr_turn (filter ?P R))"
      unfolding sorted_wrt_map using kR by (rule sorted_wrt_mono_rel [rotated]) simp
    ultimately show ?thesis unfolding eq by simp
  qed
  ultimately show ?thesis using ord by simp
qed

text \<open>Two streams, three phases: the turns of a stream follow each other under any shuffle.\<close>

definition demo_source :: "source_row list" where
  "demo_source = map (\<lambda>(i, t). \<lparr>sr_key = ''s'' @ str_int i, sr_stream_index = i, sr_turn = t, sr_hash_ids = [], sr_input_tokens = 10\<rparr>)
     [(0, 0), (0, 1), (0, 2), (1, 0), (1, 1), (1, 2)]"

lemma schedule_keeps_causal_order_witness:
  "\<exists>out. build_workload id (\<lambda>s. rev) demo_source 60 2 ''balanced'' 734 = Inr out \<and>
     map sr_turn (filter (\<lambda>r. sr_key r = ''s1'') out) = [0, 1, 2] \<and>
     map sc_predecessor (filter (\<lambda>r. sr_key r = ''s1'') out) = [None, Some 0, Some 2] \<and>
     map sc_ordinal out = [0, 1, 2, 3, 4, 5] \<and> map sc_offered out = [0, 15, 60, 75, 120, 135]"
proof -
  let ?run = "build_workload id (\<lambda>s. rev) demo_source 60 2 ''balanced'' 734"
  have v: "case ?run of Inl e \<Rightarrow> False | Inr out \<Rightarrow>
      map sr_turn (filter (\<lambda>r. sr_key r = ''s1'') out) = [0, 1, 2] \<and>
      map sc_predecessor (filter (\<lambda>r. sr_key r = ''s1'') out) = [None, Some 0, Some 2] \<and>
      map sc_offered out = [0, 15, 60, 75, 120, 135]" by code_simp
  then obtain out where out: "?run = Inr out" by (auto split: sum.splits)
  have keys: "sr_stream_index r = sr_stream_index r'"
    if "r \<in> set demo_source" "r' \<in> set demo_source" "sr_key r = sr_key r'" for r r'
    using that by (auto simp: demo_source_def str_int_def str_nat.simps)
  have "map sc_ordinal out = map int [0..<length out]"
    by (rule schedule_keeps_causal_order [OF out _ _ keys, THEN conjunct1]) simp_all
  moreover have "length out = 6" using v out by (auto dest: arg_cong [of _ _ length])
  ultimately have "map sc_ordinal out = [0, 1, 2, 3, 4, 5]" by (simp add: upt_rec)
  with v out show ?thesis by simp
qed

end
