(* ===== verification/PrefixObservation.thy ===== *)
theory PrefixObservation
  imports Prelude "HOL-Library.Sublist"
begin

text \<open>
  The metadata side of \<open>experiments/hygon_runtime/hybrid_control.py\<close>, which runs inside the
  engine: \<open>observe_prefix\<close> walks the radix tree of cached prefixes and \<open>handle\<close> combines what
  the tensor-parallel ranks saw. A tree node has the tokens of its edge, the length of its
  KV value, the number of its recurrent states and its children by key; \<open>child_key\<close> of the
  runtime is a parameter, and so are the counts of its allocators and the tensor layout.
  The walk is proved to find exactly the executable prefixes, and a combined answer to
  promise only what every rank has.
\<close>

section \<open>The walk\<close>

datatype radix_node = Radix_Node (node_key: "int list") (node_value: "nat option") (node_mamba: "nat option")
  (node_children: "(int \<times> radix_node) list")

text \<open>The conditions under which the walk goes on to a child.\<close>

definition usable_child :: "radix_node \<Rightarrow> int list \<Rightarrow> bool" where
  "usable_child child rest \<longleftrightarrow> node_value child \<noteq> None \<and> node_key child \<noteq> [] \<and>
     node_value child = Some (length (node_key child)) \<and>
     length (node_key child) \<le> length rest \<and> take (length (node_key child)) rest = node_key child"

function walk_boundaries :: "(int list \<Rightarrow> int) \<Rightarrow> radix_node \<Rightarrow> nat \<Rightarrow> int list \<Rightarrow> nat list" where
  "walk_boundaries child_key node offset rest =
     (if rest = [] then []
      else case map_of (node_children node) (child_key rest) of
             None \<Rightarrow> []
           | Some child \<Rightarrow>
               if \<not> usable_child child rest then []
               else let next = offset + length (node_key child);
                        more = walk_boundaries child_key child next (drop (length (node_key child)) rest)
                    in if node_mamba child = Some 1 then next # more else more)"
  by pat_completeness auto
termination
  by (relation "measure (\<lambda>(_, _, _, rest). length rest)") (auto simp: usable_child_def)

declare walk_boundaries.simps [simp del]

record 'l observation =
  ob_token_count :: nat
  ob_matched_tokens :: nat
  ob_boundaries :: "nat list"
  ob_full_prefix :: bool
  ob_has_mamba :: bool
  ob_available_tokens :: int
  ob_evictable_tokens :: int
  ob_available_snapshots :: int
  ob_evictable_snapshots :: int
  ob_layout :: 'l

text \<open>What the scheduler's tree cache and allocators hold.\<close>

record 'l rank_cache =
  rc_vocab_size :: int
  rc_child_key :: "int list \<Rightarrow> int"
  rc_root :: radix_node
  rc_available_tokens :: int
  rc_evictable_tokens :: int
  rc_available_snapshots :: int
  rc_evictable_snapshots :: int
  rc_layout :: "nat \<Rightarrow> 'l"

definition valid_tokens :: "int \<Rightarrow> int list \<Rightarrow> bool" where
  "valid_tokens vocab_size tokens \<longleftrightarrow> tokens \<noteq> [] \<and> (\<forall>t \<in> set tokens. 0 \<le> t \<and> t < vocab_size)"

definition observe_prefix :: "'l rank_cache \<Rightarrow> int list \<Rightarrow> exn + 'l observation" where
  "observe_prefix rc tokens =
     (if \<not> valid_tokens (rc_vocab_size rc) tokens then Inl (ValueError ''nonempty, valid token IDs required'')
      else let boundaries = walk_boundaries (rc_child_key rc) (rc_root rc) 0 tokens;
               matched = fold max boundaries 0
           in Inr \<lparr>ob_token_count = length tokens, ob_matched_tokens = matched, ob_boundaries = boundaries,
                   ob_full_prefix = (matched = length tokens), ob_has_mamba = (boundaries \<noteq> []),
                   ob_available_tokens = rc_available_tokens rc, ob_evictable_tokens = rc_evictable_tokens rc,
                   ob_available_snapshots = rc_available_snapshots rc,
                   ob_evictable_snapshots = rc_evictable_snapshots rc, ob_layout = rc_layout rc (length tokens)\<rparr>)"

section \<open>The combined answer of the ranks\<close>

datatype 'l rank_answer = Rank_Failed string | Rank_Observed "'l observation"

datatype 'l engine_answer =
    Engine_Failed string "'l rank_answer list"
  | Engine_Observed "'l observation" "'l rank_answer list"

fun first_failure :: "'l rank_answer list \<Rightarrow> string option" where
  "first_failure [] = None"
| "first_failure (Rank_Failed e # rs) = Some e"
| "first_failure (Rank_Observed ob # rs) = first_failure rs"

fun observed :: "'l rank_answer list \<Rightarrow> 'l observation list" where
  "observed [] = []"
| "observed (Rank_Failed e # rs) = observed rs"
| "observed (Rank_Observed ob # rs) = ob # observed rs"

definition common_boundaries :: "'l observation list \<Rightarrow> nat list" where
  "common_boundaries obs = (case obs of [] \<Rightarrow> [] | ob # rest \<Rightarrow>
     filter (\<lambda>b. \<forall>x \<in> set rest. b \<in> set (ob_boundaries x)) (sort (remdups (ob_boundaries ob))))"

definition least_of :: "('l observation \<Rightarrow> int) \<Rightarrow> 'l observation \<Rightarrow> 'l observation list \<Rightarrow> int" where
  "least_of f ob obs = fold (min \<circ> f) obs (f ob)"

text \<open>\<open>handle\<close> of an \<open>inspect\<close> without digest, after the ranks have gathered their results.\<close>

definition combine_observations :: "'l rank_answer list \<Rightarrow> 'l engine_answer" where
  "combine_observations results = (case first_failure results of
     Some e \<Rightarrow> Engine_Failed e []
   | None \<Rightarrow> (case observed results of
       [] \<Rightarrow> Engine_Failed [] []
     | ob # obs \<Rightarrow>
         if \<exists>x \<in> set obs. ob_token_count x \<noteq> ob_token_count ob
         then Engine_Failed ''TP ranks disagree on token_count'' results
         else let common = common_boundaries (ob # obs) in
           Engine_Observed (ob\<lparr>ob_boundaries := common, ob_matched_tokens := fold max common 0,
               ob_full_prefix := (common \<noteq> [] \<and> last common = ob_token_count ob), ob_has_mamba := (common \<noteq> []),
               ob_available_tokens := least_of ob_available_tokens ob obs,
               ob_evictable_tokens := least_of ob_evictable_tokens ob obs,
               ob_available_snapshots := least_of ob_available_snapshots ob obs,
               ob_evictable_snapshots := least_of ob_evictable_snapshots ob obs\<rparr>) results))"

text \<open>
  The ranks run \<open>handle\<close> in step, so that a \<open>gather\<close> gives each of them the list of all
  their values.
\<close>

record rank_runtime =
  ru_fully_idle :: bool
  ru_mamba_radix_cache :: bool
  ru_cache_disabled :: bool
  ru_dp_size :: int
  ru_pp_size :: int
  ru_speculative :: bool
  ru_page_size :: int
  ru_standard_layout :: bool

definition validate_runtime :: "bool \<Rightarrow> rank_runtime \<Rightarrow> exn option" where
  "validate_runtime require_idle ru =
     (if require_idle \<and> \<not> ru_fully_idle ru then Some (ValueError ''hybrid transfer requires an idle scheduler'')
      else if \<not> ru_mamba_radix_cache ru \<or> ru_cache_disabled ru then Some (ValueError ''enabled MambaRadixCache required'')
      else if ru_dp_size ru \<noteq> 1 \<or> ru_pp_size ru \<noteq> 1 then Some (ValueError ''only DP=1, PP=1 supported'')
      else if ru_speculative ru then Some (ValueError ''speculative decoding not supported'')
      else if ru_page_size ru \<noteq> 1 \<or> \<not> ru_standard_layout ru
      then Some (ValueError ''page size 1 and standard KV layout required'')
      else None)"

fun join_comma :: "string list \<Rightarrow> string" where
  "join_comma [] = []"
| "join_comma [s] = s"
| "join_comma (s # ss) = s @ '', '' @ join_comma ss"

text \<open>\<open>str\<close> of a list of optional texts, and \<open>any\<close> of it: an empty text is as none.\<close>

definition errors_repr :: "string option list \<Rightarrow> string" where
  "errors_repr errors = ''['' @ join_comma (map (\<lambda>e. case e of None \<Rightarrow> ''None'' | Some s \<Rightarrow> py_repr s) errors) @ '']''"

definition any_error :: "string option list \<Rightarrow> bool" where
  "any_error errors \<longleftrightarrow> (\<exists>e \<in> set errors. e \<noteq> None \<and> e \<noteq> Some [])"

definition rank_errors :: "(rank_runtime \<times> 'l rank_cache) list \<Rightarrow> string option list" where
  "rank_errors ranks = map (\<lambda>r. map_option exn_str (validate_runtime False (fst r))) ranks"

definition answer_of_rank :: "string option list \<Rightarrow> int list \<Rightarrow> rank_runtime \<times> 'l rank_cache \<Rightarrow> 'l rank_answer" where
  "answer_of_rank errors tokens r =
     (if any_error errors then Rank_Failed (''ValueError: '' @ errors_repr errors)
      else case observe_prefix (snd r) tokens of
             Inl e \<Rightarrow> Rank_Failed (''ValueError: '' @ exn_str e)
           | Inr ob \<Rightarrow> Rank_Observed ob)"

definition handle_inspect :: "(rank_runtime \<times> 'l rank_cache) list \<Rightarrow> int list \<Rightarrow> 'l engine_answer" where
  "handle_inspect ranks tokens = combine_observations (map (answer_of_rank (rank_errors ranks) tokens) ranks)"

section \<open>The executable prefixes of a tree\<close>

text \<open>
  A prefix is executable when a path of edges whose KV values are complete spells it and
  ends in a node with one recurrent state.
\<close>

inductive executable_prefix :: "radix_node \<Rightarrow> int list \<Rightarrow> bool" where
  here: "(k, child) \<in> set (node_children node) \<Longrightarrow> node_value child = Some (length (node_key child)) \<Longrightarrow>
    node_mamba child = Some 1 \<Longrightarrow> executable_prefix node (node_key child)"
| deeper: "(k, child) \<in> set (node_children node) \<Longrightarrow> node_value child = Some (length (node_key child)) \<Longrightarrow>
    executable_prefix child p \<Longrightarrow> executable_prefix node (node_key child @ p)"

text \<open>Every child is filed under the key of its edge, which is not empty.\<close>

inductive well_filed :: "(int list \<Rightarrow> int) \<Rightarrow> radix_node \<Rightarrow> bool" for child_key where
  "distinct (map fst (node_children node)) \<Longrightarrow>
   (\<And>k child. (k, child) \<in> set (node_children node) \<Longrightarrow> k = child_key (node_key child) \<and> node_key child \<noteq> []) \<Longrightarrow>
   (\<And>k child. (k, child) \<in> set (node_children node) \<Longrightarrow> well_filed child_key child) \<Longrightarrow> well_filed child_key node"

inductive_cases well_filedE: "well_filed child_key node"

text \<open>One step of the walk.\<close>

definition next_child :: "(int list \<Rightarrow> int) \<Rightarrow> radix_node \<Rightarrow> int list \<Rightarrow> radix_node option" where
  "next_child child_key node rest = (if rest = [] then None
     else case map_of (node_children node) (child_key rest) of
       None \<Rightarrow> None | Some child \<Rightarrow> if usable_child child rest then Some child else None)"

lemma walk_stops: "next_child ck node rest = None \<Longrightarrow> walk_boundaries ck node offset rest = []"
  by (simp add: next_child_def walk_boundaries.simps [of ck node] split: if_splits option.splits)

lemma walk_goes:
  "next_child ck node rest = Some child \<Longrightarrow> walk_boundaries ck node offset rest =
     (if node_mamba child = Some 1 then [offset + length (node_key child)] else []) @
     walk_boundaries ck child (offset + length (node_key child)) (drop (length (node_key child)) rest)"
  by (auto simp: next_child_def walk_boundaries.simps [of ck node] Let_def split: if_splits option.splits)

lemma next_child_usable: "next_child ck node rest = Some child \<Longrightarrow> usable_child child rest \<and> rest \<noteq> []"
  by (auto simp: next_child_def split: if_splits option.splits)

lemma walk_induct [case_names stop go]:
  assumes "\<And>node offset rest. next_child ck node rest = None \<Longrightarrow> P node offset rest"
    and "\<And>node offset rest child. next_child ck node rest = Some child \<Longrightarrow>
      P child (offset + length (node_key child)) (drop (length (node_key child)) rest) \<Longrightarrow> P node offset rest"
  shows "P node offset rest"
proof (induction "length rest" arbitrary: node offset rest rule: less_induct)
  case less
  show ?case
  proof (cases "next_child ck node rest")
    case (Some child)
    then have "length (drop (length (node_key child)) rest) < length rest"
      by (auto simp: usable_child_def dest: next_child_usable)
    from assms(2) [OF Some less [OF this]] show ?thesis .
  qed (rule assms(1))
qed

lemma walk_increases: "b \<in> set (walk_boundaries ck node offset rest) \<Longrightarrow> offset < b \<and> b \<le> offset + length rest"
proof (induction node offset rest rule: walk_induct [where ck = ck])
  case (go node offset rest child)
  then show ?case using next_child_usable [OF go(1)]
    by (auto simp: walk_goes usable_child_def split: if_splits)
qed (simp add: walk_stops)

lemma walk_sorted: "sorted_wrt (<) (walk_boundaries ck node offset rest)"
proof (induction node offset rest rule: walk_induct [where ck = ck])
  case (go node offset rest child)
  then show ?case by (auto simp: walk_goes dest: walk_increases)
qed (simp add: walk_stops)

lemma executable_step:
  assumes ck: "\<And>x xs. ck (x # xs) = ck [x]" and wf: "well_filed ck node"
  shows "executable_prefix node p \<and> prefix p rest \<longleftrightarrow> (\<exists>child. next_child ck node rest = Some child \<and>
    (p = node_key child \<and> node_mamba child = Some 1 \<or>
     (\<exists>q. p = node_key child @ q \<and> executable_prefix child q \<and> prefix q (drop (length (node_key child)) rest))))"
    (is "?l \<longleftrightarrow> (\<exists>child. ?r child)")
proof -
  have dist: "distinct (map fst (node_children node))"
    and filed: "\<And>k child. (k, child) \<in> set (node_children node) \<Longrightarrow> k = ck (node_key child) \<and> node_key child \<noteq> []"
    using wf by (auto elim: well_filedE)
  have found: "next_child ck node rest = Some child"
    if c: "(k, child) \<in> set (node_children node)" and v: "node_value child = Some (length (node_key child))"
      and pre: "prefix (node_key child) rest" for k child
  proof -
    from pre obtain xs where rest: "rest = node_key child @ xs" by (auto simp: prefix_def)
    have "ck rest = k" using filed [OF c] ck rest by (cases "node_key child") (simp, metis append_Cons)
    then have "map_of (node_children node) (ck rest) = Some child" using dist c by simp
    moreover have "usable_child child rest" "rest \<noteq> []" using v filed [OF c] rest by (auto simp: usable_child_def)
    ultimately show ?thesis by (simp add: next_child_def)
  qed
  have usable: "(ck rest, child) \<in> set (node_children node) \<and> node_value child = Some (length (node_key child)) \<and>
      (\<exists>xs. rest = node_key child @ xs)" if "next_child ck node rest = Some child" for child
    using that by (auto simp: next_child_def usable_child_def dest: map_of_SomeD split: if_splits option.splits)
      (metis append_take_drop_id)+
  show ?thesis
  proof
    assume l: ?l
    then have "executable_prefix node p" and pre: "prefix p rest" by simp_all
    from this(1) show "\<exists>child. ?r child"
    proof cases
      case (here k child)
      then show ?thesis using found [OF here(2,3)] pre by (intro exI [of _ child]) simp
    next
      case (deeper k child q)
      then have "prefix (node_key child) rest" "prefix q (drop (length (node_key child)) rest)"
        using pre by (auto simp: prefix_def)
      then show ?thesis using found [OF deeper(2,3)] deeper by (intro exI [of _ child]) simp
    qed
  next
    assume "\<exists>child. ?r child"
    then obtain child where r: "?r child" ..
    then show ?l using usable [of child] by (auto simp: prefix_def intro: executable_prefix.intros)
  qed
qed

text \<open>The walk finds exactly the executable prefixes of the tokens.\<close>

lemma walk_iff_executable:
  assumes ck: "\<And>x xs. ck (x # xs) = ck [x]"
  shows "well_filed ck node \<Longrightarrow>
    set (walk_boundaries ck node offset rest) = {offset + length p |p. executable_prefix node p \<and> prefix p rest}"
proof (induction node offset rest rule: walk_induct [where ck = ck])
  case (stop node offset rest)
  then show ?case using executable_step [OF ck stop(2)] by (auto simp: walk_stops)
next
  case (go node offset rest child)
  have "well_filed ck child"
    using go(3) go(1) by (auto elim!: well_filedE simp: next_child_def dest!: map_of_SomeD split: if_splits option.splits)
  note ih = go(2) [OF this]
  show ?case
    unfolding executable_step [OF ck go(3)] walk_goes [OF go(1)] set_append ih go(1)
    by (force simp: add.assoc)
qed

lemma fold_max: "fold max xs (n :: nat) = Max (insert n (set xs))"
  by (simp add: Max.set_eq_fold [symmetric])

text \<open>What a rank reports.\<close>

lemma observe_prefix_exact:
  assumes "observe_prefix rc tokens = Inr ob" and "well_filed (rc_child_key rc) (rc_root rc)"
    and "\<And>x xs. rc_child_key rc (x # xs) = rc_child_key rc [x]"
  shows "set (ob_boundaries ob) = {length p |p. executable_prefix (rc_root rc) p \<and> prefix p tokens}"
    and "ob_token_count ob = length tokens" and "ob_available_tokens ob = rc_available_tokens rc"
    and "ob_available_snapshots ob = rc_available_snapshots rc"
  using assms(1) walk_iff_executable [OF assms(3,2), of 0 tokens]
  by (auto simp: observe_prefix_def Let_def split: if_splits)

text \<open>What the ranks answer together.\<close>

lemma first_failure_None: "first_failure rs = None \<Longrightarrow> rs = map Rank_Observed (observed rs)"
  by (induction rs rule: first_failure.induct) auto

lemma least_of_le: "least_of f ob obs \<le> f ob \<and> (\<forall>x \<in> set obs. least_of f ob obs \<le> f x)"
proof -
  have "fold (min \<circ> f) obs n \<le> n \<and> (\<forall>x \<in> set obs. fold (min \<circ> f) obs n \<le> f x)" for n
    by (induction obs arbitrary: n) (auto, (meson min.cobounded1 min.cobounded2 order.trans)+)
  then show ?thesis by (simp add: least_of_def)
qed

lemma common_boundaries_set: "set (common_boundaries (ob # obs)) = (\<Inter>x \<in> set (ob # obs). set (ob_boundaries x))"
  by (auto simp: common_boundaries_def)

lemma common_boundaries_sorted: "sorted (common_boundaries obs)"
  by (simp add: common_boundaries_def sorted_wrt_filter split: list.split)

lemma combine_observations_spec:
  assumes "combine_observations results = Engine_Observed ob rs"
  shows "results = map Rank_Observed (observed results)" "observed results \<noteq> []"
    and "set (ob_boundaries ob) = (\<Inter>x \<in> set (observed results). set (ob_boundaries x))"
    and "\<forall>x \<in> set (observed results). ob_token_count x = ob_token_count ob \<and>
      ob_available_tokens ob \<le> ob_available_tokens x \<and> ob_available_snapshots ob \<le> ob_available_snapshots x"
    and "ob_matched_tokens ob = fold max (ob_boundaries ob) 0" "sorted (ob_boundaries ob)"
    and "ob_full_prefix ob = (ob_boundaries ob \<noteq> [] \<and> last (ob_boundaries ob) = ob_token_count ob)"
proof -
  have none: "first_failure results = None"
    using assms by (auto simp: combine_observations_def split: option.splits)
  show "results = map Rank_Observed (observed results)" by (rule first_failure_None [OF none])
  obtain x xs where obs: "observed results = x # xs"
    using assms none by (auto simp: combine_observations_def split: list.splits)
  have same: "\<forall>y \<in> set xs. ob_token_count y = ob_token_count x"
    and ob: "ob = x\<lparr>ob_boundaries := common_boundaries (x # xs), ob_matched_tokens := fold max (common_boundaries (x # xs)) 0,
        ob_full_prefix := (common_boundaries (x # xs) \<noteq> [] \<and> last (common_boundaries (x # xs)) = ob_token_count x),
        ob_has_mamba := (common_boundaries (x # xs) \<noteq> []),
        ob_available_tokens := least_of ob_available_tokens x xs,
        ob_evictable_tokens := least_of ob_evictable_tokens x xs,
        ob_available_snapshots := least_of ob_available_snapshots x xs,
        ob_evictable_snapshots := least_of ob_evictable_snapshots x xs\<rparr>"
    using assms none obs by (auto simp: combine_observations_def Let_def split: if_splits)
  show "observed results \<noteq> []" "set (ob_boundaries ob) = (\<Inter>x \<in> set (observed results). set (ob_boundaries x))"
    unfolding obs by (simp_all add: ob common_boundaries_set)
  show "\<forall>x \<in> set (observed results). ob_token_count x = ob_token_count ob \<and>
      ob_available_tokens ob \<le> ob_available_tokens x \<and> ob_available_snapshots ob \<le> ob_available_snapshots x"
    using same least_of_le [of ob_available_tokens x xs] least_of_le [of ob_available_snapshots x xs]
    unfolding obs by (auto simp: ob)
  show "ob_matched_tokens ob = fold max (ob_boundaries ob) 0" "sorted (ob_boundaries ob)"
    "ob_full_prefix ob = (ob_boundaries ob \<noteq> [] \<and> last (ob_boundaries ob) = ob_token_count ob)"
    by (simp_all add: ob common_boundaries_sorted)
qed

lemma prefix_whole: "prefix p xs \<Longrightarrow> length p = length xs \<Longrightarrow> p = xs"
  by (auto simp: prefix_def)

lemma last_is_greatest: "sorted xs \<Longrightarrow> x \<in> set xs \<Longrightarrow> x \<le> last xs"
  by (induction xs) auto

lemma list_all2_each:
  "list_all2 P xs ys \<Longrightarrow> (\<forall>x \<in> set xs. \<exists>y \<in> set ys. P x y) \<and> (\<forall>y \<in> set ys. \<exists>x \<in> set xs. P x y)"
  by (induction rule: list_all2_induct) auto

lemma observed_answers:
  assumes "map (answer_of_rank errors tokens) ranks = map Rank_Observed obs"
  shows "list_all2 (\<lambda>r ob. observe_prefix (snd r) tokens = Inr ob) ranks obs"
  using assms
proof (induction ranks arbitrary: obs)
  case (Cons r ranks)
  then show ?case by (auto simp: answer_of_rank_def split: if_splits sum.splits)
qed simp

text \<open>
  C40. An engine that answers an inspection answers what all its ranks have: its boundaries
  are the lengths of the prefixes that every rank can execute, \<open>matched_tokens\<close> is the longest
  of them, the whole prefix is called available exactly when every rank can execute it, and
  no rank has fewer free slots than the answer says.
\<close>

theorem inspection_is_common:
  assumes "handle_inspect ranks tokens = Engine_Observed ob rs"
    and "\<forall>r \<in> set ranks. well_filed (rc_child_key (snd r)) (rc_root (snd r)) \<and>
      (\<forall>x xs. rc_child_key (snd r) (x # xs) = rc_child_key (snd r) [x])"
  shows "ranks \<noteq> [] \<and> ob_token_count ob = length tokens \<and>
    set (ob_boundaries ob) =
      (\<Inter>r \<in> set ranks. {length p |p. executable_prefix (rc_root (snd r)) p \<and> prefix p tokens}) \<and>
    ob_matched_tokens ob = Max (insert 0 (set (ob_boundaries ob))) \<and>
    (ob_full_prefix ob \<longleftrightarrow> (\<forall>r \<in> set ranks. executable_prefix (rc_root (snd r)) tokens)) \<and>
    (\<forall>r \<in> set ranks. ob_available_tokens ob \<le> rc_available_tokens (snd r) \<and>
       ob_available_snapshots ob \<le> rc_available_snapshots (snd r))"
proof -
  define B where "B r = {length p |p. executable_prefix (rc_root (snd r)) p \<and> prefix p tokens}" for r :: "rank_runtime \<times> 'a rank_cache"
  define obs where "obs = observed (map (answer_of_rank (rank_errors ranks) tokens) ranks)"
  note spec = combine_observations_spec [OF assms(1) [unfolded handle_inspect_def], folded obs_def]
  note obs = spec(1-4) and matched = spec(5) and sorted = spec(6) and full = spec(7)
  have "list_all2 (\<lambda>r x. set (ob_boundaries x) = B r \<and> ob_token_count x = length tokens \<and>
      ob_available_tokens x = rc_available_tokens (snd r) \<and> ob_available_snapshots x = rc_available_snapshots (snd r)) ranks obs"
    (is "list_all2 ?Q _ _")
  proof (rule list.rel_mono_strong [OF observed_answers [OF obs(1)]])
    fix r x assume "r \<in> set ranks" and x: "observe_prefix (snd r) tokens = Inr x"
    then have "well_filed (rc_child_key (snd r)) (rc_root (snd r))"
      and "\<And>y ys. rc_child_key (snd r) (y # ys) = rc_child_key (snd r) [y]" using assms(2) by blast+
    from observe_prefix_exact [OF x this] show "?Q r x" by (simp add: B_def)
  qed
  then have ranks: "\<forall>r \<in> set ranks. \<exists>x \<in> set obs. ?Q r x" "\<forall>x \<in> set obs. \<exists>r \<in> set ranks. ?Q r x"
    using list_all2_each [where P = ?Q] by blast+
  have ne: "ranks \<noteq> []" using obs(1,2) by auto
  have len: "ob_token_count ob = length tokens" using obs(2,4) ranks(2) by (metis hd_in_set)
  have bounds: "set (ob_boundaries ob) = (\<Inter>r \<in> set ranks. B r)"
  proof -
    have "(\<lambda>x. set (ob_boundaries x)) ` set obs = B ` set ranks"
      using ranks by (intro equalityI image_subsetI) (metis image_eqI)+
    then show ?thesis unfolding obs(3) by simp
  qed
  have "ob_boundaries ob \<noteq> [] \<and> last (ob_boundaries ob) = length tokens \<longleftrightarrow> length tokens \<in> set (ob_boundaries ob)"
  proof
    assume mem: "length tokens \<in> set (ob_boundaries ob)"
    then have ne: "ob_boundaries ob \<noteq> []" by auto
    then have "last (ob_boundaries ob) \<in> set (ob_boundaries ob)" by simp
    then have "last (ob_boundaries ob) \<le> length tokens"
      unfolding bounds using \<open>ranks \<noteq> []\<close> by (cases ranks) (auto simp: B_def dest: prefix_length_le)
    moreover have "length tokens \<le> last (ob_boundaries ob)"
      using sorted mem by (rule last_is_greatest)
    ultimately show "ob_boundaries ob \<noteq> [] \<and> last (ob_boundaries ob) = length tokens" using ne by simp
  qed (metis last_in_set)
  also have "\<dots> \<longleftrightarrow> (\<forall>r \<in> set ranks. executable_prefix (rc_root (snd r)) tokens)"
  proof -
    have "length tokens \<in> B r \<longleftrightarrow> executable_prefix (rc_root (snd r)) tokens" for r
      unfolding B_def by (auto, metis prefix_whole)
    then show ?thesis unfolding bounds by simp
  qed
  finally have "ob_full_prefix ob \<longleftrightarrow> (\<forall>r \<in> set ranks. executable_prefix (rc_root (snd r)) tokens)" by (simp add: full len)
  moreover have "\<forall>r \<in> set ranks. ob_available_tokens ob \<le> rc_available_tokens (snd r) \<and>
       ob_available_snapshots ob \<le> rc_available_snapshots (snd r)"
    using ranks(1) obs(4) by metis
  ultimately show ?thesis using ne len bounds matched by (simp add: fold_max B_def)
qed

text \<open>Two ranks that cache the same three tokens; the second has no state at the end.\<close>

definition demo_tree :: "nat option \<Rightarrow> radix_node" where
  "demo_tree state = Radix_Node [] None None [(7, Radix_Node [7, 8] (Some 2) (Some 1) [(9, Radix_Node [9] (Some 1) state [])])]"

definition demo_rank :: "nat option \<Rightarrow> rank_runtime \<times> unit rank_cache" where
  "demo_rank state =
     (\<lparr>ru_fully_idle = False, ru_mamba_radix_cache = True, ru_cache_disabled = False, ru_dp_size = 1, ru_pp_size = 1,
       ru_speculative = False, ru_page_size = 1, ru_standard_layout = True\<rparr>,
      \<lparr>rc_vocab_size = 100, rc_child_key = hd, rc_root = demo_tree state, rc_available_tokens = 5, rc_evictable_tokens = 3,
       rc_available_snapshots = 1, rc_evictable_snapshots = 2, rc_layout = (\<lambda>_. ())\<rparr>)"

lemma demo_tree_filed: "well_filed hd (demo_tree state)"
  unfolding demo_tree_def
  by (rule well_filed.intros; simp; rule well_filed.intros; simp; rule well_filed.intros; simp)

lemma inspection_is_common_witness:
  "\<exists>ob rs. handle_inspect [demo_rank (Some 1), demo_rank None] [7, 8, 9] = Engine_Observed ob rs \<and>
     ob_boundaries ob = [2] \<and> ob_matched_tokens ob = 2 \<and> \<not> ob_full_prefix ob \<and>
     \<not> executable_prefix (demo_tree None) [7, 8, 9]"
proof -
  let ?ranks = "[demo_rank (Some 1), demo_rank None]"
  have v: "case handle_inspect ?ranks [7, 8, 9] of Engine_Failed _ _ \<Rightarrow> False
      | Engine_Observed ob _ \<Rightarrow> ob_boundaries ob = [2] \<and> ob_matched_tokens ob = 2 \<and> \<not> ob_full_prefix ob" by code_simp
  then obtain ob rs where ob: "handle_inspect ?ranks [7, 8, 9] = Engine_Observed ob rs"
    by (auto split: engine_answer.splits)
  have "\<forall>r \<in> set ?ranks. well_filed (rc_child_key (snd r)) (rc_root (snd r)) \<and>
      (\<forall>x xs. rc_child_key (snd r) (x # xs) = rc_child_key (snd r) [x])"
    by (simp add: demo_rank_def demo_tree_filed)
  from inspection_is_common [OF ob this] v ob
  have "set (ob_boundaries ob) = (\<Inter>r \<in> set ?ranks. {length p |p. executable_prefix (rc_root (snd r)) p \<and> prefix p [7, 8, 9]})"
    and full: "ob_full_prefix ob \<longleftrightarrow> (\<forall>r \<in> set ?ranks. executable_prefix (rc_root (snd r)) [7, 8, 9])" by blast+
  have "executable_prefix (demo_tree (Some 1)) ([7, 8] @ [9])"
    using executable_prefix.deeper [of 7 "Radix_Node [7, 8] (Some 2) (Some 1) [(9, Radix_Node [9] (Some 1) (Some 1) [])]"]
      executable_prefix.here [of 9 "Radix_Node [9] (Some 1) (Some 1) []"]
    by (simp add: demo_tree_def)
  then have "\<not> executable_prefix (demo_tree None) [7, 8, 9]" using full v ob by (auto simp: demo_rank_def)
  with v ob show ?thesis by auto
qed

end
