(* ===== verification/TransferControl.thy ===== *)
theory TransferControl
  imports PrefixObservation "HOL-Library.AList"
begin

text \<open>
  The transfer side of \<open>experiments/hygon_runtime/hybrid_control.py\<close> on one tensor-parallel
  rank: \<open>init_group\<close> and \<open>transfer\<close>. The tree cache and the allocators of the runtime are
  parameters (\<open>cache_ops\<close>) over an opaque state, whose lookups, allocations and insertions may
  raise and whose frees do not; the tensors are maps from slots to cells, so that \<open>index_select\<close> reads the cells of
  some slots and \<open>index_copy_\<close> writes them. What the other ranks, the peer engine and the device
  do is an environment (\<open>peers\<close>): each collective operation, exchange and tensor operation
  returns anything or raises. Time stamps and transport flags are left out.
\<close>

section \<open>The rank and its surroundings\<close>

record transfer_group =
  tg_rank :: nat
  tg_sequence :: nat
  tg_port :: int
  tg_failed :: bool

record ('m, 'c) transfer_rank =
  tr_groups :: "(string \<times> transfer_group) list"
  tr_cache :: 'm
  tr_kv :: "(nat \<Rightarrow> 'c) list"
  tr_conv :: "(nat \<Rightarrow> 'c) list"
  tr_temporal :: "nat \<Rightarrow> 'c"

text \<open>\<open>buffers\<close>: the tensors with the axis of their slots, and a rank with other contents of them.\<close>

definition tr_buffers :: "('m, 'c) transfer_rank \<Rightarrow> (nat \<times> (nat \<Rightarrow> 'c)) list" where
  "tr_buffers st = map (Pair 0) (tr_kv st) @ map (Pair 1) (tr_conv st) @ [(1, tr_temporal st)]"

definition with_buffers :: "(nat \<times> (nat \<Rightarrow> 'c)) list \<Rightarrow> ('m, 'c) transfer_rank \<Rightarrow> ('m, 'c) transfer_rank" where
  "with_buffers bs st = (let kv = length (tr_kv st); conv = length (tr_conv st) in
     st\<lparr>tr_kv := map snd (take kv bs), tr_conv := map snd (take conv (drop kv bs)), tr_temporal := snd (bs ! (kv + conv))\<rparr>)"

record ('m, 'l) cache_ops =
  co_vocab_size :: int
  co_match :: "int list \<Rightarrow> ('m, nat list \<times> nat list option) prog"
  co_has_children :: "'m \<Rightarrow> bool"
  co_alloc_tokens :: "nat \<Rightarrow> ('m, nat list option) prog"
  co_alloc_state :: "('m, nat list option) prog"
  co_free_tokens :: "nat list \<Rightarrow> 'm \<Rightarrow> 'm"
  co_free_state :: "nat list \<Rightarrow> 'm \<Rightarrow> 'm"
  co_insert :: "int list \<Rightarrow> nat list option \<Rightarrow> nat list option \<Rightarrow> ('m, nat \<times> bool) prog"
  co_layout :: "nat \<Rightarrow> 'l"
  co_cell_bytes :: "nat \<Rightarrow> int"
  co_sha256 :: "int list \<Rightarrow> string"

record 'l transfer_metadata =
  md_tokens_sha256 :: string
  md_layout :: 'l
  md_errors :: "string option list"

record ('l, 'c) peers =
  pe_gather_errors :: "string option \<Rightarrow> exn + string option list"
  pe_exchange :: "'l transfer_metadata \<Rightarrow> exn + 'l transfer_metadata"
  pe_synchronize :: "exn option"
  pe_tensor :: "nat \<Rightarrow> exn option"
  pe_broadcast :: "nat \<Rightarrow> 'c list \<Rightarrow> exn + 'c list"
  pe_index_copy :: "nat \<Rightarrow> exn option"
  pe_gather_copied :: "exn option"
  pe_gather_ready :: "bool \<Rightarrow> exn + bool list"
  pe_exchange_ready :: "bool list \<Rightarrow> exn + bool list"

record transfer_payload =
  pl_group_name :: string
  pl_role :: string
  pl_port :: int
  pl_token_ids :: "int list"

record transfer_result =
  tx_token_count :: nat
  tx_bytes :: int
  tx_state :: string

section \<open>\<open>init_group\<close>\<close>

record 'l group_identity =
  gi_signature :: string
  gi_tp_size :: nat
  gi_tp_rank :: nat
  gi_layout :: 'l
  gi_name :: string

record group_payload =
  gp_group_rank :: nat
  gp_group_name :: string
  gp_world_size :: int
  gp_backend :: string
  gp_port :: int

text \<open>
  \<open>exchange\<close> opens the store and swaps identities, \<open>gather\<close> collects the ranks' errors,
  \<open>connect\<close> is the exception of the process group's start.
\<close>

definition init_group ::
  "('l group_identity \<Rightarrow> exn + 'l group_identity) \<Rightarrow> (string option \<Rightarrow> exn + string option list) \<Rightarrow> exn option \<Rightarrow>
   'l group_identity \<Rightarrow> group_payload \<Rightarrow> ('m, 'c) transfer_rank \<Rightarrow> (exn + unit) \<times> ('m, 'c) transfer_rank" where
  "init_group exchange gather connect me p st =
     (if 1 < gp_group_rank p \<or> gp_world_size p \<noteq> 2 \<or> gp_backend p \<noteq> ''nccl''
      then (Inl (ValueError ''two-engine NCCL/RCCL groups required''), st)
      else if map_of (tr_groups st) (gp_group_name p) \<noteq> None
      then (Inl (ValueError ''group name already in use''), st)
      else case exchange (me\<lparr>gi_name := gp_group_name p\<rparr>) of
             Inl e \<Rightarrow> (Inl e, st)
           | Inr peer \<Rightarrow>
              (case gather (if me\<lparr>gi_name := gp_group_name p\<rparr> = peer then None else Some ''peer model/layout mismatch'') of
                 Inl e \<Rightarrow> (Inl e, st)
               | Inr errors \<Rightarrow>
                   if any_error errors then (Inl (ValueError (errors_repr errors)), st)
                   else case connect of
                          Some e \<Rightarrow> (Inl e, st)
                        | None \<Rightarrow> (Inr (), st\<lparr>tr_groups := AList.update (gp_group_name p)
                            \<lparr>tg_rank = gp_group_rank p, tg_sequence = 0, tg_port = gp_port p, tg_failed = False\<rparr>
                            (tr_groups st)\<rparr>)))"

section \<open>\<open>transfer\<close>\<close>

text \<open>
  The first \<open>try\<close> block: the error it noted, the text of any exception, the slots of tokens
  and state it holds and the cache.
\<close>

definition prepare_slots ::
  "('m, 'l) cache_ops \<Rightarrow> transfer_group \<Rightarrow> transfer_payload \<Rightarrow> 'm \<Rightarrow> string option \<times> nat list option \<times> nat list option \<times> 'm" where
  "prepare_slots ops g p c =
     (if pl_role p \<noteq> (if tg_rank g = 0 then ''source'' else ''destination'') \<or> pl_port p \<noteq> tg_port g
      then (Some ''role/port differs from initialized group'', None, None, c)
      else if \<not> valid_tokens (co_vocab_size ops) (pl_token_ids p)
      then (Some ''nonempty, valid token IDs required'', None, None, c)
      else case co_match ops (pl_token_ids p) c of
        (Inl e, c1) \<Rightarrow> (Some (exn_str e), None, None, c1)
      | (Inr (device, state_slots), c1) \<Rightarrow>
          if tg_rank g = 0
          then if length device \<noteq> length (pl_token_ids p) \<or> state_slots = None
               then (Some ''exact completed hybrid boundary unavailable'', None, None, c1)
               else (None, Some device, state_slots, c1)
          else if co_has_children ops c1
          then (Some ''destination cache must be empty; flush before migration'', None, None, c1)
          else (case co_alloc_tokens ops (length (pl_token_ids p)) c1 of
                  (Inl e, c2) \<Rightarrow> (Some (exn_str e), None, None, c2)
                | (Inr indices, c2) \<Rightarrow>
                   (case co_alloc_state ops c2 of
                      (Inl e, c3) \<Rightarrow> (Some (exn_str e), indices, None, c3)
                    | (Inr state, c3) \<Rightarrow>
                       (if indices = None \<or> state = None then Some ''insufficient destination cache capacity'' else None,
                        indices, state, c3))))"

text \<open>\<open>index_copy_\<close>: the cells of a tensor go to the slots.\<close>

fun copy_cells :: "nat list \<Rightarrow> 'c list \<Rightarrow> (nat \<Rightarrow> 'c) \<Rightarrow> nat \<Rightarrow> 'c" where
  "copy_cells (s # ss) (c # cs) data = copy_cells ss cs (data(s := c))"
| "copy_cells _ _ data = data"

text \<open>
  The copy loop over the buffers from the \<open>i\<close>-th on; what was copied before an exception stays,
  and an \<open>index_copy_\<close> that raises writes nothing.
\<close>

fun copy_buffers ::
  "('m, 'l) cache_ops \<Rightarrow> ('l, 'c) peers \<Rightarrow> bool \<Rightarrow> nat list option \<Rightarrow> nat list option \<Rightarrow> nat \<Rightarrow> (nat \<times> (nat \<Rightarrow> 'c)) list \<Rightarrow>
   (exn + int) \<times> (nat \<times> (nat \<Rightarrow> 'c)) list" where
  "copy_buffers ops pe source indices state i [] = (Inr 0, [])"
| "copy_buffers ops pe source indices state i ((axis, data) # bs) =
     (case (if axis = 0 then indices else state) of
        None \<Rightarrow> (Inl (TypeError ''index_select''), (axis, data) # bs)
      | Some slots \<Rightarrow>
         (case pe_tensor pe i of
            Some e \<Rightarrow> (Inl e, (axis, data) # bs)
          | None \<Rightarrow>
             (case pe_broadcast pe i (if source then map data slots else []) of
                Inl e \<Rightarrow> (Inl e, (axis, data) # bs)
              | Inr cells \<Rightarrow>
                 (case (if source then None else pe_index_copy pe i) of
                    Some e \<Rightarrow> (Inl e, (axis, data) # bs)
                  | None \<Rightarrow>
                     (case copy_buffers ops pe source indices state (Suc i) bs of (r, bs') \<Rightarrow>
                       (case r of Inl e \<Rightarrow> Inl e | Inr n \<Rightarrow> Inr (int (length slots) * co_cell_bytes ops i + n),
                        (axis, if source then data else copy_cells slots cells data) # bs'))))))"

text \<open>From the published prefix to the answer.\<close>

definition confirm_ready ::
  "('m, 'l) cache_ops \<Rightarrow> ('l, 'c) peers \<Rightarrow> int list \<Rightarrow> int \<Rightarrow> ('m, 'c) transfer_rank \<Rightarrow> (exn + transfer_result) \<times> ('m, 'c) transfer_rank" where
  "confirm_ready ops pe tokens nbytes st =
     (case co_match ops tokens (tr_cache st) of
        (Inl e, c) \<Rightarrow> (Inl e, st\<lparr>tr_cache := c\<rparr>)
      | (Inr (device, state_slots), c) \<Rightarrow>
        (case pe_gather_ready pe (length device = length tokens) of
           Inl e \<Rightarrow> Inl e
         | Inr ready \<Rightarrow>
            (case pe_exchange_ready pe ready of
               Inl e \<Rightarrow> Inl e
             | Inr peer_ready \<Rightarrow>
                 if \<not> (\<forall>b \<in> set (ready @ peer_ready). b) then Inl (RuntimeError ''prefix not ready on every shard'')
                 else Inr \<lparr>tx_token_count = length tokens, tx_bytes = nbytes, tx_state = ''COMPLETE''\<rparr>),
         st\<lparr>tr_cache := c\<rparr>))"

text \<open>
  After the copies, when every rank of this engine has copied: the destination publishes the
  prefix. Outcome, whether the prefix was installed, and the rank.
\<close>

definition publish_prefix ::
  "('m, 'l) cache_ops \<Rightarrow> ('l, 'c) peers \<Rightarrow> bool \<Rightarrow> int list \<Rightarrow> nat list option \<Rightarrow> nat list option \<Rightarrow> int \<Rightarrow>
   ('m, 'c) transfer_rank \<Rightarrow> (exn + transfer_result) \<times> bool \<times> ('m, 'c) transfer_rank" where
  "publish_prefix ops pe source tokens indices state nbytes st =
     (case pe_gather_copied pe of
        Some e \<Rightarrow> (Inl e, False, st)
      | None \<Rightarrow>
          if source then case confirm_ready ops pe tokens nbytes st of (r, st') \<Rightarrow> (r, False, st')
          else case co_insert ops tokens indices state (tr_cache st) of
            (Inl e, c) \<Rightarrow> (Inl e, False, st\<lparr>tr_cache := c\<rparr>)
          | (Inr (prefix_len, mamba_exist), c) \<Rightarrow>
            if prefix_len \<noteq> 0 \<or> mamba_exist
            then (Inl (RuntimeError ''unexpected destination prefix collision''), True, st\<lparr>tr_cache := c\<rparr>)
            else case confirm_ready ops pe tokens nbytes (st\<lparr>tr_cache := c\<rparr>) of (r, st') \<Rightarrow> (r, True, st'))"

definition transfer_metadata_of :: "('m, 'l) cache_ops \<Rightarrow> int list \<Rightarrow> string option list \<Rightarrow> 'l transfer_metadata" where
  "transfer_metadata_of ops tokens errors =
     \<lparr>md_tokens_sha256 = co_sha256 ops tokens, md_layout = co_layout ops (length tokens), md_errors = errors\<rparr>"

text \<open>The second \<open>try\<close> block.\<close>

definition transfer_body ::
  "('m, 'l) cache_ops \<Rightarrow> ('l, 'c) peers \<Rightarrow> bool \<Rightarrow> int list \<Rightarrow> string option list \<Rightarrow> nat list option \<Rightarrow> nat list option \<Rightarrow>
   ('m, 'c) transfer_rank \<Rightarrow> (exn + transfer_result) \<times> bool \<times> ('m, 'c) transfer_rank" where
  "transfer_body ops pe source tokens errors indices state st =
     (case pe_exchange pe (transfer_metadata_of ops tokens errors) of
        Inl e \<Rightarrow> (Inl e, False, st)
      | Inr peer \<Rightarrow>
          if any_error errors \<or> any_error (md_errors peer) \<or> transfer_metadata_of ops tokens errors \<noteq> peer
          then (Inl (ValueError (''transfer preparation rejected: local='' @ errors_repr errors @ '', peer='' @ errors_repr (md_errors peer))), False, st)
          else case pe_synchronize pe of
            Some e \<Rightarrow> (Inl e, False, st)
          | None \<Rightarrow>
              (case copy_buffers ops pe source indices state 0 (tr_buffers st) of
                 (Inl e, bs) \<Rightarrow> (Inl e, False, with_buffers bs st)
               | (Inr nbytes, bs) \<Rightarrow> publish_prefix ops pe source tokens indices state nbytes (with_buffers bs st)))"

definition set_group :: "string \<Rightarrow> transfer_group \<Rightarrow> ('m, 'c) transfer_rank \<Rightarrow> ('m, 'c) transfer_rank" where
  "set_group name g st = st\<lparr>tr_groups := AList.update name g (tr_groups st)\<rparr>"

text \<open>The \<open>finally\<close> block of a destination.\<close>

definition release_slots ::
  "('m, 'l) cache_ops \<Rightarrow> nat list option \<Rightarrow> nat list option \<Rightarrow> ('m, 'c) transfer_rank \<Rightarrow> ('m, 'c) transfer_rank" where
  "release_slots ops indices state st =
     (let c1 = (case indices of None \<Rightarrow> tr_cache st | Some s \<Rightarrow> co_free_tokens ops s (tr_cache st));
          c2 = (case state of None \<Rightarrow> c1 | Some s \<Rightarrow> co_free_state ops s c1)
      in st\<lparr>tr_cache := c2\<rparr>)"

definition handle_transfer ::
  "('m, 'l) cache_ops \<Rightarrow> ('l, 'c) peers \<Rightarrow> transfer_payload \<Rightarrow> ('m, 'c) transfer_rank \<Rightarrow> (exn + transfer_result) \<times> ('m, 'c) transfer_rank" where
  "handle_transfer ops pe p st =
     (case map_of (tr_groups st) (pl_group_name p) of
        None \<Rightarrow> (Inl (KeyError (py_repr (pl_group_name p))), st)
      | Some g \<Rightarrow>
          if tg_failed g then (Inl (ValueError ''failed group cannot be reused''), st)
          else let g1 = g\<lparr>tg_sequence := Suc (tg_sequence g)\<rparr> in
               case prepare_slots ops g p (tr_cache st) of (error, indices, state, c) \<Rightarrow>
                 let st1 = set_group (pl_group_name p) g1 (st\<lparr>tr_cache := c\<rparr>) in
                 case pe_gather_errors pe error of
                   Inl e \<Rightarrow> (Inl e, st1)
                 | Inr errors \<Rightarrow>
                    (case transfer_body ops pe (tg_rank g = 0) (pl_token_ids p) errors indices state st1 of (r, installed, st2) \<Rightarrow>
                       let st3 = (case r of Inl _ \<Rightarrow> set_group (pl_group_name p) (g1\<lparr>tg_failed := True\<rparr>) st2 | Inr _ \<Rightarrow> st2)
                       in (r, if tg_rank g \<noteq> 0 \<and> \<not> installed then release_slots ops indices state st3 else st3)))"

section \<open>The combined answer of the ranks\<close>

text \<open>\<open>handle\<close> of a transfer after the ranks have gathered their results, a failure's text or a result.\<close>

fun first_error :: "(string + 'a) list \<Rightarrow> string option" where
  "first_error [] = None"
| "first_error (Inl e # rs) = Some e"
| "first_error (Inr a # rs) = first_error rs"

fun successes :: "(string + 'a) list \<Rightarrow> 'a list" where
  "successes [] = []"
| "successes (Inl e # rs) = successes rs"
| "successes (Inr a # rs) = a # successes rs"

definition combine_transfers :: "(string + transfer_result) list \<Rightarrow> string + transfer_result" where
  "combine_transfers results = (case first_error results of
     Some e \<Rightarrow> Inl e
   | None \<Rightarrow> (case successes results of
       [] \<Rightarrow> Inl []
     | x # xs \<Rightarrow>
         if \<exists>y \<in> set xs. tx_token_count y \<noteq> tx_token_count x then Inl ''TP ranks disagree on token_count''
         else if \<exists>y \<in> set xs. tx_state y \<noteq> tx_state x then Inl ''TP ranks disagree on state''
         else Inr (x\<lparr>tx_bytes := sum_list (map tx_bytes (x # xs))\<rparr>)))"

end
