(* ===== verification/TransferProps.thy ===== *)
theory TransferProps
  imports TransferControl
begin

text \<open>
  What a transfer on one rank does: a failed group stays failed, a transfer that raises gives
  back the slots it took, and a transfer that completes leaves in the destination's slots
  the cells of the source's.
\<close>

section \<open>What a transfer keeps\<close>

lemma with_buffers_frame [simp]:
  "tr_groups (with_buffers bs st) = tr_groups st" "tr_cache (with_buffers bs st) = tr_cache st"
  by (simp_all add: with_buffers_def Let_def)

lemma tr_buffers_frame [simp]:
  "tr_buffers (st\<lparr>tr_cache := c\<rparr>) = tr_buffers st" "tr_buffers (st\<lparr>tr_groups := gs\<rparr>) = tr_buffers st"
  by (simp_all add: tr_buffers_def)

lemma temporal_buffer: "(1, tr_temporal st) \<in> set (tr_buffers st)"
  by (simp add: tr_buffers_def)

lemma map_Pair_snd: "\<forall>b \<in> set bs. fst b = a \<Longrightarrow> map (Pair a) (map snd bs) = bs"
  by (induction bs) auto

lemma fst_take:
  assumes "map fst bs = replicate n a @ xs"
  shows "\<forall>b \<in> set (take n bs). fst b = a"
proof
  fix b assume "b \<in> set (take n bs)"
  then have "fst b \<in> set (map fst (take n bs))" by simp
  also have "map fst (take n bs) = replicate n a" unfolding take_map [symmetric] assms by simp
  finally show "fst b = a" by simp
qed

lemma buffers_with_buffers:
  assumes "map fst bs = map fst (tr_buffers st)"
  shows "tr_buffers (with_buffers bs st) = bs"
proof -
  let ?n = "length (tr_kv st)" and ?m = "length (tr_conv st)"
  have axes: "map fst bs = replicate ?n 0 @ replicate ?m 1 @ [1]"
    using assms by (simp add: tr_buffers_def comp_def map_replicate_const)
  have len: "length bs = ?n + ?m + 1" using arg_cong [OF axes, of length] by simp
  have rest: "map fst (drop ?n bs) = replicate ?m 1 @ [1]" by (simp add: axes drop_map [symmetric])
  have "map fst (drop (?n + ?m) bs) = drop ?m (map fst (drop ?n bs))" by (simp add: drop_map add.commute)
  then have "map fst (drop (?n + ?m) bs) = [1]" unfolding rest by simp
  then have last: "drop (?n + ?m) bs = [(1, snd (bs ! (?n + ?m)))]"
    using len by (simp add: Cons_nth_drop_Suc [symmetric] prod_eq_iff)
  have "map (Pair 0) (map snd (take ?n bs)) = take ?n bs" by (rule map_Pair_snd [OF fst_take [OF axes]])
  moreover have "map (Pair 1) (map snd (take ?m (drop ?n bs))) = take ?m (drop ?n bs)"
    by (rule map_Pair_snd [OF fst_take [OF rest]])
  moreover have "take ?n bs @ take ?m (drop ?n bs) @ drop (?n + ?m) bs = bs"
    by (metis append_take_drop_id drop_drop add.commute)
  ultimately show ?thesis by (simp add: tr_buffers_def with_buffers_def Let_def last)
qed

lemma set_group_frame [simp]:
  "tr_cache (set_group name g st) = tr_cache st" "tr_buffers (set_group name g st) = tr_buffers st"
  by (simp_all add: set_group_def)

lemma groups_set_group: "map_of (tr_groups (set_group name g st)) = (map_of (tr_groups st))(name \<mapsto> g)"
  by (simp add: set_group_def update_conv')

lemma release_slots_frame [simp]:
  "tr_groups (release_slots ops indices state st) = tr_groups st"
  "tr_buffers (release_slots ops indices state st) = tr_buffers st"
  by (simp_all add: release_slots_def Let_def)

lemma confirm_ready_frame:
  "confirm_ready ops pe tokens n st = (r, st') \<Longrightarrow>
     tr_groups st' = tr_groups st \<and> tr_buffers st' = tr_buffers st \<and> tr_cache st' = snd (co_match ops tokens (tr_cache st))"
  by (auto simp: confirm_ready_def split: prod.splits sum.splits)

text \<open>The runs of the second block: stopped before the prefix is there, or with a copied prefix.\<close>

lemma publish_prefix_cases:
  assumes "publish_prefix ops pe src tokens indices state n st = (r, installed, st')"
  obtains (early) e where "r = Inl e" "\<not> installed" "st' = st"
  | (source) src "\<not> installed" "confirm_ready ops pe tokens n st = (r, st')"
  | (refused) e c where "r = Inl e" "\<not> installed" "co_insert ops tokens indices state (tr_cache st) = (Inl e, c)" "st' = st\<lparr>tr_cache := c\<rparr>"
  | (installed) x c where "\<not> src" installed "co_insert ops tokens indices state (tr_cache st) = (Inr x, c)"
      "r = Inl (RuntimeError ''unexpected destination prefix collision'') \<and> st' = st\<lparr>tr_cache := c\<rparr> \<or>
       confirm_ready ops pe tokens n (st\<lparr>tr_cache := c\<rparr>) = (r, st')"
proof (cases "pe_gather_copied pe")
  case (Some e)
  then show ?thesis using assms by (intro early [of e]) (auto simp: publish_prefix_def)
next
  case None
  obtain x c where i: "co_insert ops tokens indices state (tr_cache st) = (x, c)" by fastforce
  show ?thesis
  proof (cases src)
    case True
    then show ?thesis using assms None by (intro source) (auto simp: publish_prefix_def split: prod.splits)
  next
    case False
    show ?thesis
    proof (cases x)
      case (Inl e)
      then show ?thesis using assms None i False by (intro refused [of e c]) (auto simp: publish_prefix_def)
    next
      case (Inr y)
      then show ?thesis using assms None i False
        by (intro installed [of y c]) (auto simp: publish_prefix_def split: prod.splits if_splits)
    qed
  qed
qed

lemma transfer_body_cases:
  assumes "transfer_body ops pe src tokens errors indices state st = (r, installed, st')"
  obtains (early) e where "r = Inl e" "\<not> installed" "tr_groups st' = tr_groups st" "tr_cache st' = tr_cache st"
  | (copied) n bs where "pe_exchange pe (transfer_metadata_of ops tokens errors) = Inr (transfer_metadata_of ops tokens errors)"
      "\<not> any_error errors" "copy_buffers ops pe src indices state 0 (tr_buffers st) = (Inr n, bs)"
      "publish_prefix ops pe src tokens indices state n (with_buffers bs st) = (r, installed, st')"
proof -
  let ?md = "transfer_metadata_of ops tokens errors"
  show ?thesis
  proof (cases "(\<exists>peer. pe_exchange pe ?md = Inr peer \<and> \<not> any_error errors \<and> \<not> any_error (md_errors peer) \<and> ?md = peer) \<and>
      pe_synchronize pe = None")
    case True
    obtain r' bs where c: "copy_buffers ops pe src indices state 0 (tr_buffers st) = (r', bs)" by fastforce
    show ?thesis
    proof (cases r')
      case (Inl e)
      then show ?thesis using assms True c by (intro early [of e]) (auto simp: transfer_body_def)
    next
      case (Inr n)
      then show ?thesis using assms True c by (intro copied [of n bs]) (auto simp: transfer_body_def)
    qed
  next
    case False
    then obtain e where "(r, installed, st') = (Inl e, False, st)"
      using assms by (auto simp: transfer_body_def split: sum.splits if_splits option.splits)
    then show ?thesis using early [of e] by simp
  qed
qed

lemma copy_buffers_frame: "copy_buffers ops pe src indices state i bs = (r, bs') \<Longrightarrow> map fst bs' = map fst bs"
proof (induction bs arbitrary: i r bs')
  case (Cons b bs)
  obtain axis data where b: "b = (axis, data)" by fastforce
  obtain r2 bs2 where c: "copy_buffers ops pe src indices state (Suc i) bs = (r2, bs2)" by fastforce
  show ?case using Cons.prems Cons.IH [OF c] by (auto simp: b c split: option.splits sum.splits if_splits)
qed simp

lemma publish_prefix_groups: "publish_prefix ops pe src tokens indices state n st = (r, installed, st') \<Longrightarrow> tr_groups st' = tr_groups st"
  by (erule publish_prefix_cases) (auto dest!: confirm_ready_frame)

lemma transfer_body_groups: "transfer_body ops pe src tokens errors indices state st = (r, installed, st') \<Longrightarrow> tr_groups st' = tr_groups st"
  by (erule transfer_body_cases) (auto dest!: publish_prefix_groups)

text \<open>A transfer that got past the preparation.\<close>

lemma handle_transfer_cases:
  assumes "handle_transfer ops pe p st = (r, st')" and "map_of (tr_groups st) (pl_group_name p) = Some g" and "\<not> tg_failed g"
  obtains error indices state c st1 where
    "prepare_slots ops g p (tr_cache st) = (error, indices, state, c)"
    "st1 = set_group (pl_group_name p) (g\<lparr>tg_sequence := Suc (tg_sequence g)\<rparr>) (st\<lparr>tr_cache := c\<rparr>)"
    "(\<exists>e. pe_gather_errors pe error = Inl e \<and> r = Inl e \<and> st' = st1) \<or>
     (\<exists>errors installed st2 st3. pe_gather_errors pe error = Inr errors \<and>
        transfer_body ops pe (tg_rank g = 0) (pl_token_ids p) errors indices state st1 = (r, installed, st2) \<and>
        st3 = (case r of Inl _ \<Rightarrow> set_group (pl_group_name p)
            (g\<lparr>tg_sequence := Suc (tg_sequence g), tg_failed := True\<rparr>) st2 | Inr _ \<Rightarrow> st2) \<and>
        st' = (if tg_rank g \<noteq> 0 \<and> \<not> installed then release_slots ops indices state st3 else st3))"
proof -
  obtain error indices state c where p: "prepare_slots ops g p (tr_cache st) = (error, indices, state, c)" by (metis surj_pair)
  show ?thesis
  proof (rule that [OF p refl])
    let ?st1 = "set_group (pl_group_name p) (g\<lparr>tg_sequence := Suc (tg_sequence g)\<rparr>) (st\<lparr>tr_cache := c\<rparr>)"
    show "(\<exists>e. pe_gather_errors pe error = Inl e \<and> r = Inl e \<and> st' = ?st1) \<or>
     (\<exists>errors installed st2 st3. pe_gather_errors pe error = Inr errors \<and>
        transfer_body ops pe (tg_rank g = 0) (pl_token_ids p) errors indices state ?st1 = (r, installed, st2) \<and>
        st3 = (case r of Inl _ \<Rightarrow> set_group (pl_group_name p)
            (g\<lparr>tg_sequence := Suc (tg_sequence g), tg_failed := True\<rparr>) st2 | Inr _ \<Rightarrow> st2) \<and>
        st' = (if tg_rank g \<noteq> 0 \<and> \<not> installed then release_slots ops indices state st3 else st3))"
    proof (cases "pe_gather_errors pe error")
      case (Inr errors)
      obtain r2 installed st2 where b: "transfer_body ops pe (tg_rank g = 0) (pl_token_ids p) errors indices state ?st1 = (r2, installed, st2)"
        by (metis surj_pair)
      show ?thesis using assms Inr b by (auto simp: handle_transfer_def p Let_def)
    qed (use assms in \<open>simp add: handle_transfer_def p Let_def\<close>)
  qed
qed

section \<open>A failed group stays failed\<close>

text \<open>The operations of a rank on its groups, with any payload and surroundings.\<close>

inductive group_step :: "('m, 'l) cache_ops \<Rightarrow> ('m, 'c) transfer_rank \<Rightarrow> ('m, 'c) transfer_rank \<Rightarrow> bool" for ops where
  init: "init_group exchange gather connect (me :: 'l group_identity) p st = (r, st') \<Longrightarrow> group_step ops st st'"
| transfer: "handle_transfer ops (pe :: ('l, 'c) peers) p st = (r, st') \<Longrightarrow> group_step ops st st'"

lemma init_group_keeps:
  "init_group exchange gather connect me p st = (r, st') \<Longrightarrow> map_of (tr_groups st) name = Some g \<Longrightarrow>
     map_of (tr_groups st') name = Some g"
  by (auto simp: init_group_def update_conv' Let_def split: if_splits sum.splits option.splits)

lemma failed_transfer_refused:
  "map_of (tr_groups st) (pl_group_name p) = Some g \<Longrightarrow> tg_failed g \<Longrightarrow>
     handle_transfer ops pe p st = (Inl (ValueError ''failed group cannot be reused''), st)"
  by (simp add: handle_transfer_def)

lemma transfer_keeps_others:
  assumes "handle_transfer ops pe p st = (r, st')" and "name \<noteq> pl_group_name p"
  shows "map_of (tr_groups st') name = map_of (tr_groups st) name"
proof (cases "map_of (tr_groups st) (pl_group_name p)")
  case None
  then show ?thesis using assms(1) by (simp add: handle_transfer_def)
next
  case (Some g)
  show ?thesis
  proof (cases "tg_failed g")
    case True
    then show ?thesis using assms(1) Some by (simp add: handle_transfer_def)
  next
    case False
    from assms(1) Some False show ?thesis
      by (rule handle_transfer_cases)
        (use assms(2) in \<open>cases r; auto simp: groups_set_group dest!: transfer_body_groups\<close>)
  qed
qed

lemma group_step_keeps_failed:
  "group_step ops st st' \<Longrightarrow> map_of (tr_groups st) name = Some g \<Longrightarrow> tg_failed g \<Longrightarrow> map_of (tr_groups st') name = Some g"
proof (induction rule: group_step.induct)
  case (transfer pe p st r st')
  then show ?case
    by (cases "name = pl_group_name p") (simp_all add: failed_transfer_refused transfer_keeps_others)
qed (rule init_group_keeps)

text \<open>
  C39. A transfer that raises in a living group: either the collective that compares the
  errors of its engine's ranks raised, which no handler guards, and the group has only its
  sequence number advanced; or the group is marked failed, and from then on, after any other
  operations, it stays as it is and every transfer in it is refused without touching the rank.
\<close>

theorem failed_group_is_dead:
  assumes "handle_transfer ops pe p st = (Inl e, st')" and "map_of (tr_groups st) (pl_group_name p) = Some g" and "\<not> tg_failed g"
  shows "(\<exists>x. pe_gather_errors pe x = Inl e) \<and>
      map_of (tr_groups st') (pl_group_name p) = Some (g\<lparr>tg_sequence := Suc (tg_sequence g)\<rparr>) \<or>
    (\<forall>later pe' p'. (group_step ops)\<^sup>*\<^sup>* st' later \<longrightarrow> pl_group_name p' = pl_group_name p \<longrightarrow>
      map_of (tr_groups later) (pl_group_name p) = Some (g\<lparr>tg_sequence := Suc (tg_sequence g), tg_failed := True\<rparr>) \<and>
      handle_transfer ops pe' p' later = (Inl (ValueError ''failed group cannot be reused''), later))"
    (is "?unguarded \<or> _")
proof (cases ?unguarded)
  case False
  let ?g = "g\<lparr>tg_sequence := Suc (tg_sequence g), tg_failed := True\<rparr>"
  from assms have g': "map_of (tr_groups st') (pl_group_name p) = Some ?g"
  proof (rule handle_transfer_cases)
    fix error indices state c st1
    assume "st1 = set_group (pl_group_name p) (g\<lparr>tg_sequence := Suc (tg_sequence g)\<rparr>) (st\<lparr>tr_cache := c\<rparr>)"
      and "(\<exists>e'. pe_gather_errors pe error = Inl e' \<and> Inl e = Inl e' \<and> st' = st1) \<or>
      (\<exists>errors installed st2 st3. pe_gather_errors pe error = Inr errors \<and>
        transfer_body ops pe (tg_rank g = 0) (pl_token_ids p) errors indices state st1 = (Inl e, installed, st2) \<and>
        st3 = (case Inl e of Inl _ \<Rightarrow> set_group (pl_group_name p)
            (g\<lparr>tg_sequence := Suc (tg_sequence g), tg_failed := True\<rparr>) st2 | Inr _ \<Rightarrow> st2) \<and>
        st' = (if tg_rank g \<noteq> 0 \<and> \<not> installed then release_slots ops indices state st3 else st3))"
    with False show ?thesis by (auto simp: groups_set_group)
  qed
  have "map_of (tr_groups later) (pl_group_name p) = Some ?g" if "(group_step ops)\<^sup>*\<^sup>* st' later" for later
    using that by (induction rule: rtranclp_induct) (use g' group_step_keeps_failed [of ops _ _ _ ?g] in auto)
  then show ?thesis by (simp add: failed_transfer_refused)
qed blast

section \<open>Slots are given back\<close>

text \<open>An allocation of \<open>n\<close> slots: raised or refused with nothing taken, or of fresh ones.\<close>

definition alloc_ok :: "nat \<Rightarrow> exn + nat list option \<Rightarrow> nat set \<Rightarrow> nat set \<Rightarrow> bool" where
  "alloc_ok n r before after \<longleftrightarrow> (case r of Inr (Some s) \<Rightarrow>
       distinct s \<and> length s = n \<and> set s \<inter> before = {} \<and> after = before \<union> set s
     | _ \<Rightarrow> after = before)"

text \<open>
  What the allocators and the tree promise: who holds which slots of tokens and states, that
  only an insertion puts nodes in the tree, and that one that raises holds nothing.
\<close>

definition slot_laws :: "('m, 'l) cache_ops \<Rightarrow> ('m \<Rightarrow> nat set) \<Rightarrow> ('m \<Rightarrow> nat set) \<Rightarrow> bool" where
  "slot_laws ops tokens_held states_held \<longleftrightarrow>
     (\<forall>ts c. tokens_held (snd (co_match ops ts c)) = tokens_held c \<and> states_held (snd (co_match ops ts c)) = states_held c \<and>
        co_has_children ops (snd (co_match ops ts c)) = co_has_children ops c) \<and>
     (\<forall>n c r c'. co_alloc_tokens ops n c = (r, c') \<longrightarrow>
        states_held c' = states_held c \<and> alloc_ok n r (tokens_held c) (tokens_held c')) \<and>
     (\<forall>c r c'. co_alloc_state ops c = (r, c') \<longrightarrow>
        tokens_held c' = tokens_held c \<and> alloc_ok 1 r (states_held c) (states_held c')) \<and>
     (\<forall>s c. tokens_held (co_free_tokens ops s c) = tokens_held c - set s \<and> states_held (co_free_tokens ops s c) = states_held c) \<and>
     (\<forall>s c. states_held (co_free_state ops s c) = states_held c - set s \<and> tokens_held (co_free_state ops s c) = tokens_held c) \<and>
     (\<forall>ts i s c r c'. co_insert ops ts i s c = (r, c') \<longrightarrow>
        (case r of Inl e \<Rightarrow> tokens_held c' = tokens_held c \<and> states_held c' = states_held c | Inr x \<Rightarrow> co_has_children ops c'))"

lemma slot_lawsD:
  assumes "slot_laws ops tokens_held states_held"
  shows "\<forall>ts c. tokens_held (snd (co_match ops ts c)) = tokens_held c \<and> states_held (snd (co_match ops ts c)) = states_held c \<and>
      co_has_children ops (snd (co_match ops ts c)) = co_has_children ops c"
    and "\<forall>n c r c'. co_alloc_tokens ops n c = (r, c') \<longrightarrow>
        states_held c' = states_held c \<and> alloc_ok n r (tokens_held c) (tokens_held c')"
    and "\<forall>c r c'. co_alloc_state ops c = (r, c') \<longrightarrow>
        tokens_held c' = tokens_held c \<and> alloc_ok 1 r (states_held c) (states_held c')"
    and "\<forall>ts i s c r c'. co_insert ops ts i s c = (r, c') \<longrightarrow>
        (case r of Inl e \<Rightarrow> tokens_held c' = tokens_held c \<and> states_held c' = states_held c | Inr x \<Rightarrow> co_has_children ops c')"
proof -
  note laws = assms [unfolded slot_laws_def]
  show "\<forall>ts c. tokens_held (snd (co_match ops ts c)) = tokens_held c \<and> states_held (snd (co_match ops ts c)) = states_held c \<and>
      co_has_children ops (snd (co_match ops ts c)) = co_has_children ops c" by (rule laws [THEN conjunct1])
  show "\<forall>n c r c'. co_alloc_tokens ops n c = (r, c') \<longrightarrow>
      states_held c' = states_held c \<and> alloc_ok n r (tokens_held c) (tokens_held c')"
    by (rule laws [THEN conjunct2, THEN conjunct1])
  show "\<forall>c r c'. co_alloc_state ops c = (r, c') \<longrightarrow>
      tokens_held c' = tokens_held c \<and> alloc_ok 1 r (states_held c) (states_held c')"
    by (rule laws [THEN conjunct2, THEN conjunct2, THEN conjunct1])
  show "\<forall>ts i s c r c'. co_insert ops ts i s c = (r, c') \<longrightarrow>
      (case r of Inl e \<Rightarrow> tokens_held c' = tokens_held c \<and> states_held c' = states_held c | Inr x \<Rightarrow> co_has_children ops c')"
    by (rule laws [THEN conjunct2, THEN conjunct2, THEN conjunct2, THEN conjunct2, THEN conjunct2])
qed

lemmas alloc_tokens_law = slot_lawsD(2) [rule_format]
lemmas alloc_state_law = slot_lawsD(3) [rule_format]
lemmas insert_law = slot_lawsD(4) [rule_format]
lemmas match_law = slot_lawsD(1) [rule_format, THEN conjunct1] slot_lawsD(1) [rule_format, THEN conjunct2, THEN conjunct1]
  slot_lawsD(1) [rule_format, THEN conjunct2, THEN conjunct2]

abbreviation slots_of :: "nat list option \<Rightarrow> nat set" where
  "slots_of s \<equiv> (case s of None \<Rightarrow> {} | Some s \<Rightarrow> set s)"

lemma alloc_held:
  "alloc_ok n r before after \<Longrightarrow> after = before \<union> slots_of (case r of Inl e \<Rightarrow> None | Inr s \<Rightarrow> s) \<and>
     slots_of (case r of Inl e \<Rightarrow> None | Inr s \<Rightarrow> s) \<inter> before = {}"
  by (auto simp: alloc_ok_def split: sum.splits option.splits)

lemma prepare_slots_held:
  assumes laws: "slot_laws ops tokens_held states_held" and p: "prepare_slots ops g p c = (error, indices, state, c')"
  shows "tg_rank g = 0 \<Longrightarrow> tokens_held c' = tokens_held c \<and> states_held c' = states_held c"
    and "tg_rank g \<noteq> 0 \<Longrightarrow> tokens_held c' = tokens_held c \<union> slots_of indices \<and> slots_of indices \<inter> tokens_held c = {} \<and>
      states_held c' = states_held c \<union> slots_of state \<and> slots_of state \<inter> states_held c = {}"
    and "tg_rank g \<noteq> 0 \<Longrightarrow> state \<noteq> None \<Longrightarrow> \<not> co_has_children ops c"
proof -
  obtain m c1 where m: "co_match ops (pl_token_ids p) c = (m, c1)" by fastforce
  have h1: "tokens_held c1 = tokens_held c" "states_held c1 = states_held c" "co_has_children ops c1 = co_has_children ops c"
    using match_law [OF laws, of "pl_token_ids p" c] m by simp_all
  show "tokens_held c' = tokens_held c \<and> states_held c' = states_held c" if "tg_rank g = 0"
    using p m h1 that by (cases m) (auto simp: prepare_slots_def split: if_splits)
  show "\<not> co_has_children ops c" if "tg_rank g \<noteq> 0" "state \<noteq> None"
    using p m h1 that by (cases m) (auto simp: prepare_slots_def split: if_splits)
  obtain r2 c2 where a: "co_alloc_tokens ops (length (pl_token_ids p)) c1 = (r2, c2)" by fastforce
  obtain r3 c3 where b: "co_alloc_state ops c2 = (r3, c3)" by fastforce
  note h2 = alloc_tokens_law [OF laws a, THEN conjunct1] alloc_held [OF alloc_tokens_law [OF laws a, THEN conjunct2]]
  note h3 = alloc_state_law [OF laws b, THEN conjunct1] alloc_held [OF alloc_state_law [OF laws b, THEN conjunct2]]
  show "tokens_held c' = tokens_held c \<union> slots_of indices \<and> slots_of indices \<inter> tokens_held c = {} \<and>
      states_held c' = states_held c \<union> slots_of state \<and> slots_of state \<inter> states_held c = {}" if "tg_rank g \<noteq> 0"
    using p m a b h1 h2 h3 that by (cases m; cases r2; cases r3) (auto simp: prepare_slots_def split: if_splits)
qed

lemma release_slots_held:
  assumes "slot_laws ops tokens_held states_held"
  shows "tokens_held (tr_cache (release_slots ops indices state st)) = tokens_held (tr_cache st) - slots_of indices"
    and "states_held (tr_cache (release_slots ops indices state st)) = states_held (tr_cache st) - slots_of state"
  using assms by (auto simp: release_slots_def Let_def slot_laws_def split: option.splits)

lemma copy_buffers_slots:
  "copy_buffers ops pe src indices state i bs = (Inr n, bs') \<Longrightarrow> (axis, data) \<in> set bs \<Longrightarrow>
     (if axis = 0 then indices else state) \<noteq> None"
proof (induction bs arbitrary: i n bs')
  case (Cons b bs)
  obtain axis' data' where b: "b = (axis', data')" by fastforce
  obtain r2 bs2 where c: "copy_buffers ops pe src indices state (Suc i) bs = (r2, bs2)" by fastforce
  then have "\<exists>m. r2 = Inr m" and "(if axis' = 0 then indices else state) \<noteq> None"
    using Cons.prems(1) by (auto simp: b split: option.splits sum.splits if_splits)
  then show ?case using Cons.IH c Cons.prems(2) by (auto simp: b)
qed simp

text \<open>A prefix is installed only at a destination that held a state slot, and then it is in the tree.\<close>

lemma transfer_body_held:
  assumes laws: "slot_laws ops tokens_held states_held"
    and b: "transfer_body ops pe src tokens errors indices state st = (r, installed, st')"
  shows "installed \<Longrightarrow> \<not> src \<and> state \<noteq> None \<and> co_has_children ops (tr_cache st')"
    and "\<not> installed \<Longrightarrow> tokens_held (tr_cache st') = tokens_held (tr_cache st) \<and> states_held (tr_cache st') = states_held (tr_cache st)"
proof -
  note match = match_law [OF laws]
  have pub: "(installed \<longrightarrow> \<not> src \<and> co_has_children ops (tr_cache st')) \<and> (\<not> installed \<longrightarrow>
      tokens_held (tr_cache st') = tokens_held (tr_cache st) \<and> states_held (tr_cache st') = states_held (tr_cache st))"
    if "publish_prefix ops pe src tokens indices state n (with_buffers bs st) = (r, installed, st')" for n bs
    using that by (rule publish_prefix_cases) (auto dest!: confirm_ready_frame insert_law [OF laws] simp: match)
  have slots: "state \<noteq> None" if "copy_buffers ops pe src indices state 0 (tr_buffers st) = (Inr n, bs)" for n bs
    using copy_buffers_slots [OF that temporal_buffer] by simp
  from b have both: "(installed \<longrightarrow> \<not> src \<and> state \<noteq> None \<and> co_has_children ops (tr_cache st')) \<and> (\<not> installed \<longrightarrow>
      tokens_held (tr_cache st') = tokens_held (tr_cache st) \<and> states_held (tr_cache st') = states_held (tr_cache st))"
    by (rule transfer_body_cases) (use pub slots in auto)
  show "installed \<Longrightarrow> \<not> src \<and> state \<noteq> None \<and> co_has_children ops (tr_cache st')"
    and "\<not> installed \<Longrightarrow> tokens_held (tr_cache st') = tokens_held (tr_cache st) \<and> states_held (tr_cache st') = states_held (tr_cache st)"
    using both by blast+
qed

text \<open>A second block that raises, with the \<open>finally\<close> block of a destination.\<close>

lemma raised_body_held:
  assumes laws: "slot_laws ops tokens_held states_held" and prep: "prepare_slots ops g p c0 = (error, indices, state, tr_cache st1)"
    and body: "transfer_body ops pe (tg_rank g = 0) tokens errors indices state st1 = (Inl e, installed, st2)"
    and same: "tr_cache st3 = tr_cache st2"
    and st': "st' = (if tg_rank g \<noteq> 0 \<and> \<not> installed then release_slots ops indices state st3 else st3)"
  shows "tokens_held (tr_cache st') = tokens_held c0 \<and> states_held (tr_cache st') = states_held c0 \<or>
    tg_rank g \<noteq> 0 \<and> \<not> co_has_children ops c0 \<and> co_has_children ops (tr_cache st')"
proof (cases installed)
  case True
  then show ?thesis using transfer_body_held(1) [OF laws body] prepare_slots_held(3) [OF laws prep] by (auto simp: st' same)
next
  case False
  note held = prepare_slots_held [OF laws prep]
  have h: "tokens_held (tr_cache st2) = tokens_held (tr_cache st1)" "states_held (tr_cache st2) = states_held (tr_cache st1)"
    using transfer_body_held(2) [OF laws body False] by simp_all
  show ?thesis
  proof (cases "tg_rank g = 0")
    case True
    then show ?thesis using held(1) h by (simp add: st' same)
  next
    case dest: False
    show ?thesis
      using held(2) [OF dest] h False dest
      by (simp add: st' same release_slots_held [OF laws]) (simp add: Un_Diff Diff_triv Int_commute)
  qed
qed

text \<open>
  C38. A transfer that raises holds no slot of tokens or states more or less than before it,
  wherever it raises, with two exceptions, both at a destination: the collective that
  compares the ranks' errors raised, which stands outside the block that frees; or the prefix
  has come into the tree, which was empty.
\<close>

theorem failed_transfer_returns_slots:
  assumes "handle_transfer ops pe p st = (Inl e, st')" and "slot_laws ops tokens_held states_held"
  shows "tokens_held (tr_cache st') = tokens_held (tr_cache st) \<and> states_held (tr_cache st') = states_held (tr_cache st) \<or>
    (\<exists>g. map_of (tr_groups st) (pl_group_name p) = Some g \<and> tg_rank g \<noteq> 0 \<and>
      ((\<exists>x. pe_gather_errors pe x = Inl e) \<or>
       \<not> co_has_children ops (tr_cache st) \<and> co_has_children ops (tr_cache st')))"
proof (cases "\<exists>g. map_of (tr_groups st) (pl_group_name p) = Some g \<and> \<not> tg_failed g")
  case False
  then have "st' = st"
    using assms(1) failed_transfer_refused [of st p] by (auto simp: handle_transfer_def split: option.splits)
  then show ?thesis by simp
next
  case True
  then obtain g where g: "map_of (tr_groups st) (pl_group_name p) = Some g" "\<not> tg_failed g" by blast
  from assms(1) g show ?thesis
  proof (rule handle_transfer_cases)
    fix error indices state c st1
    assume prep: "prepare_slots ops g p (tr_cache st) = (error, indices, state, c)"
      and st1: "st1 = set_group (pl_group_name p) (g\<lparr>tg_sequence := Suc (tg_sequence g)\<rparr>) (st\<lparr>tr_cache := c\<rparr>)"
      and rest: "(\<exists>e'. pe_gather_errors pe error = Inl e' \<and> Inl e = Inl e' \<and> st' = st1) \<or>
        (\<exists>errors installed st2 st3. pe_gather_errors pe error = Inr errors \<and>
          transfer_body ops pe (tg_rank g = 0) (pl_token_ids p) errors indices state st1 = (Inl e, installed, st2) \<and>
          st3 = (case Inl e of Inl _ \<Rightarrow> set_group (pl_group_name p)
              (g\<lparr>tg_sequence := Suc (tg_sequence g), tg_failed := True\<rparr>) st2 | Inr _ \<Rightarrow> st2) \<and>
          st' = (if tg_rank g \<noteq> 0 \<and> \<not> installed then release_slots ops indices state st3 else st3))"
    show ?thesis
    proof (cases "pe_gather_errors pe error")
      case (Inl e')
      then have "e' = e" "st' = st1" using rest by auto
      then show ?thesis using Inl g(1) prepare_slots_held(1) [OF assms(2) prep] by (cases "tg_rank g = 0") (auto simp: st1)
    next
      case (Inr errors)
      with rest obtain installed st2
        where body: "transfer_body ops pe (tg_rank g = 0) (pl_token_ids p) errors indices state st1 = (Inl e, installed, st2)"
          and st': "st' = (if tg_rank g \<noteq> 0 \<and> \<not> installed
            then release_slots ops indices state (set_group (pl_group_name p) (g\<lparr>tg_sequence := Suc (tg_sequence g), tg_failed := True\<rparr>) st2)
            else set_group (pl_group_name p) (g\<lparr>tg_sequence := Suc (tg_sequence g), tg_failed := True\<rparr>) st2)"
        by auto
      have "prepare_slots ops g p (tr_cache st) = (error, indices, state, tr_cache st1)" using prep by (simp add: st1)
      from raised_body_held [OF assms(2) this body _ st'] g(1) show ?thesis by auto
    qed
  qed
qed

section \<open>The copied state\<close>

lemma copy_cells_other: "s \<notin> set slots \<Longrightarrow> copy_cells slots cells data s = data s"
  by (induction slots cells data rule: copy_cells.induct) auto

lemma copy_cells_read:
  "distinct slots \<Longrightarrow> length slots = length cells \<Longrightarrow> map (copy_cells slots cells data) slots = cells"
  by (induction slots cells data rule: copy_cells.induct) (auto simp: copy_cells_other)

lemma copy_buffers_received:
  "copy_buffers ops pe False indices state i bs = (Inr n, bs') \<Longrightarrow> length bs' = length bs \<and>
    (\<forall>j < length bs. \<exists>slots cells. (if fst (bs ! j) = 0 then indices else state) = Some slots \<and>
      pe_broadcast pe (i + j) [] = Inr cells \<and> bs' ! j = (fst (bs ! j), copy_cells slots cells (snd (bs ! j))))"
proof (induction bs arbitrary: i n bs')
  case (Cons b bs)
  obtain axis data where b: "b = (axis, data)" by fastforce
  obtain slots cells r2 bs2 where s: "(if axis = 0 then indices else state) = Some slots" "pe_broadcast pe i [] = Inr cells"
    and c: "copy_buffers ops pe False indices state (Suc i) bs = (r2, bs2)"
    using Cons.prems by (auto simp: b split: option.splits sum.splits prod.splits if_splits)
  obtain m where m: "r2 = Inr m" and bs': "bs' = (axis, copy_cells slots cells data) # bs2"
    using Cons.prems s c by (cases r2) (auto simp: b split: option.splits)
  note ih = Cons.IH [OF c [unfolded m]]
  show ?case
  proof (intro conjI allI impI)
    fix j assume j: "j < length (b # bs)"
    show "\<exists>slots cells. (if fst ((b # bs) ! j) = 0 then indices else state) = Some slots \<and>
      pe_broadcast pe (i + j) [] = Inr cells \<and> bs' ! j = (fst ((b # bs) ! j), copy_cells slots cells (snd ((b # bs) ! j)))"
    proof (cases j)
      case 0
      then show ?thesis using s by (simp add: b bs')
    next
      case (Suc k)
      then show ?thesis using conjunct2 [OF ih, rule_format, of k] j by (simp add: bs')
    qed
  qed (use ih in \<open>simp add: bs'\<close>)
qed simp

lemma transfer_body_completes:
  assumes "transfer_body ops pe False tokens errors indices state st = (Inr res, installed, st')"
  obtains n where "installed" "copy_buffers ops pe False indices state 0 (tr_buffers st) = (Inr n, tr_buffers st')" "\<not> any_error errors"
  using assms
proof (rule transfer_body_cases)
  fix n bs
  assume c: "copy_buffers ops pe False indices state 0 (tr_buffers st) = (Inr n, bs)" and e: "\<not> any_error errors"
    and "publish_prefix ops pe False tokens indices state n (with_buffers bs st) = (Inr res, installed, st')"
  from this(3) show ?thesis
    by (rule publish_prefix_cases) (use c e that buffers_with_buffers [OF copy_buffers_frame [OF c]] in \<open>auto dest!: confirm_ready_frame\<close>)
qed simp

lemma prepare_slots_error: "prepare_slots ops g p c = (Some x, indices, Some slots, c') \<Longrightarrow> x \<noteq> []"
  by (auto simp: prepare_slots_def split: if_splits prod.splits sum.splits)

lemma prepare_slots_destination:
  assumes "slot_laws ops tokens_held states_held" and "prepare_slots ops g p c = (None, indices, state, c')" and "tg_rank g \<noteq> 0"
  obtains slots st where "indices = Some slots" "state = Some st" "distinct slots" "distinct st"
    "length slots = length (pl_token_ids p)" "length st = 1" "set slots \<inter> tokens_held c = {}" "set st \<inter> states_held c = {}"
proof -
  obtain m c1 where m: "co_match ops (pl_token_ids p) c = (m, c1)" by fastforce
  have h1: "tokens_held c1 = tokens_held c" "states_held c1 = states_held c"
    using match_law(1,2) [OF assms(1), of "pl_token_ids p" c] m by simp_all
  obtain s2 c2 where a: "co_alloc_tokens ops (length (pl_token_ids p)) c1 = (s2, c2)" by fastforce
  obtain s3 c3 where b: "co_alloc_state ops c2 = (s3, c3)" by fastforce
  have "s2 = Inr indices" "s3 = Inr state" "indices \<noteq> None" "state \<noteq> None"
    using assms(2,3) m a b by (cases m; cases s2; cases s3; auto simp: prepare_slots_def split: if_splits)+
  then show ?thesis
    using that alloc_tokens_law [OF assms(1) a] alloc_state_law [OF assms(1) b] h1
    by (auto simp: alloc_ok_def)
qed

text \<open>
  C37. When the peers deliver what the source reads, a transfer that completes at the
  destination has copied the state: in fresh slots, as many as there are tokens, and one
  state slot, every buffer holds the cells of the source's slots, in order, and nothing else
  of any buffer has changed.
\<close>

theorem completed_transfer_copies_state:
  assumes run: "handle_transfer ops pe p dst = (Inr res, dst')" and dest: "map_of (tr_groups dst) (pl_group_name p) = Some g" "tg_rank g \<noteq> 0"
    and laws: "slot_laws ops tokens_held states_held"
    and gather: "\<And>x errors. pe_gather_errors pe x = Inr errors \<Longrightarrow> x \<in> set errors"
    and buffers: "map fst (tr_buffers src) = map fst (tr_buffers dst)"
    and source: "length src_slots = length (pl_token_ids p)" "length src_state = 1"
    and delivered: "\<And>i x. i < length (tr_buffers src) \<Longrightarrow> pe_broadcast pe i x =
      Inr (map (snd (tr_buffers src ! i)) (if fst (tr_buffers src ! i) = 0 then src_slots else src_state))"
  shows "\<exists>slots state. length slots = length (pl_token_ids p) \<and> length state = 1 \<and>
    set slots \<inter> tokens_held (tr_cache dst) = {} \<and> set state \<inter> states_held (tr_cache dst) = {} \<and>
    (\<forall>i < length (tr_buffers dst). let own = (if fst (tr_buffers dst ! i) = 0 then slots else state);
        peers = (if fst (tr_buffers dst ! i) = 0 then src_slots else src_state) in
      map (snd (tr_buffers dst' ! i)) own = map (snd (tr_buffers src ! i)) peers \<and>
      (\<forall>s. s \<notin> set own \<longrightarrow> snd (tr_buffers dst' ! i) s = snd (tr_buffers dst ! i) s))"
proof -
  have alive: "\<not> tg_failed g" using run dest(1) by (auto simp: failed_transfer_refused)
  from run dest(1) alive show ?thesis
  proof (rule handle_transfer_cases)
    fix error indices state c st1
    assume prep: "prepare_slots ops g p (tr_cache dst) = (error, indices, state, c)"
      and st1: "st1 = set_group (pl_group_name p) (g\<lparr>tg_sequence := Suc (tg_sequence g)\<rparr>) (dst\<lparr>tr_cache := c\<rparr>)"
      and "(\<exists>e. pe_gather_errors pe error = Inl e \<and> Inr res = Inl e \<and> dst' = st1) \<or>
        (\<exists>errors installed st2 st3. pe_gather_errors pe error = Inr errors \<and>
          transfer_body ops pe (tg_rank g = 0) (pl_token_ids p) errors indices state st1 = (Inr res, installed, st2) \<and>
          st3 = (case Inr res of Inl _ \<Rightarrow> set_group (pl_group_name p)
              (g\<lparr>tg_sequence := Suc (tg_sequence g), tg_failed := True\<rparr>) st2 | Inr _ \<Rightarrow> st2) \<and>
          dst' = (if tg_rank g \<noteq> 0 \<and> \<not> installed then release_slots ops indices state st3 else st3))"
    then obtain errors installed st2 where g: "pe_gather_errors pe error = Inr errors"
      and body: "transfer_body ops pe False (pl_token_ids p) errors indices state st1 = (Inr res, installed, st2)"
      and dst': "dst' = (if \<not> installed then release_slots ops indices state st2 else st2)"
      using dest(2) by auto
    from body obtain n where inst: installed and ne: "\<not> any_error errors"
      and copy: "copy_buffers ops pe False indices state 0 (tr_buffers dst) = (Inr n, tr_buffers st2)"
      by (rule transfer_body_completes) (auto simp: st1)
    have "error = None \<or> error = Some []" using gather [OF g] ne unfolding any_error_def by blast
    moreover have "state \<noteq> None" using copy_buffers_slots [OF copy temporal_buffer] by simp
    ultimately have "error = None" using prepare_slots_error [of ops g p "tr_cache dst" "[]"] prep by auto
    with prep obtain slots st where ok: "indices = Some slots" "state = Some st" "distinct slots" "distinct st"
      "length slots = length (pl_token_ids p)" "length st = 1"
      "set slots \<inter> tokens_held (tr_cache dst) = {}" "set st \<inter> states_held (tr_cache dst) = {}"
      using prepare_slots_destination [OF laws _ dest(2)] by blast
    have "map (snd (tr_buffers dst' ! i)) (if fst (tr_buffers dst ! i) = 0 then slots else st) =
        map (snd (tr_buffers src ! i)) (if fst (tr_buffers dst ! i) = 0 then src_slots else src_state) \<and>
      (\<forall>s. s \<notin> set (if fst (tr_buffers dst ! i) = 0 then slots else st) \<longrightarrow> snd (tr_buffers dst' ! i) s = snd (tr_buffers dst ! i) s)"
      if i: "i < length (tr_buffers dst)" for i
    proof -
      have axis: "i < length (tr_buffers src)" "fst (tr_buffers src ! i) = fst (tr_buffers dst ! i)"
        using i buffers by (metis length_map) (metis i buffers length_map nth_map)
      obtain own cells where own: "(if fst (tr_buffers dst ! i) = 0 then indices else state) = Some own"
        "pe_broadcast pe (0 + i) [] = Inr cells"
        "tr_buffers st2 ! i = (fst (tr_buffers dst ! i), copy_cells own cells (snd (tr_buffers dst ! i)))"
        using conjunct2 [OF copy_buffers_received [OF copy], rule_format, OF i] by blast
      have o: "own = (if fst (tr_buffers dst ! i) = 0 then slots else st)" "distinct own"
        using own(1) ok(1-4) by (auto split: if_splits)
      have c: "cells = map (snd (tr_buffers src ! i)) (if fst (tr_buffers dst ! i) = 0 then src_slots else src_state)"
        using own(2) delivered [OF axis(1), of "[]"] axis(2) by simp
      have "length own = length cells" using o(1) c ok(5,6) source by simp
      then have "map (copy_cells own cells (snd (tr_buffers dst ! i))) own = cells" by (rule copy_cells_read [OF o(2)])
      moreover have "\<forall>s. s \<notin> set own \<longrightarrow> copy_cells own cells (snd (tr_buffers dst ! i)) s = snd (tr_buffers dst ! i) s"
        by (simp add: copy_cells_other)
      ultimately show ?thesis using own(3) inst unfolding o(1) c by (simp add: dst')
    qed
    with ok show ?thesis by (intro exI [of _ slots] exI [of _ st]) (simp add: Let_def)
  qed
qed

section \<open>Concrete transfers\<close>

text \<open>A cache of ten slots of each kind, with the prefix that is in the tree.\<close>

record demo_cache =
  dc_tokens :: "nat list"
  dc_states :: "nat list"
  dc_prefix :: "(int list \<times> nat list \<times> nat list option) option"

definition free_first :: "nat \<Rightarrow> nat list \<Rightarrow> nat list option" where
  "free_first n held = (let free = filter (\<lambda>s. s \<notin> set held) [0..<10] in if length free < n then None else Some (take n free))"

definition demo_ops :: "(demo_cache, nat) cache_ops" where
  "demo_ops = \<lparr>co_vocab_size = 100,
     co_match = (\<lambda>ts c. (case dc_prefix c of
         Some (ps, slots, st) \<Rightarrow> Inr (if ps = ts then (slots, st) else ([], None)) | None \<Rightarrow> Inr ([], None), c)),
     co_has_children = (\<lambda>c. dc_prefix c \<noteq> None),
     co_alloc_tokens = (\<lambda>n c. case free_first n (dc_tokens c) of
         None \<Rightarrow> (Inr None, c) | Some s \<Rightarrow> (Inr (Some s), c\<lparr>dc_tokens := dc_tokens c @ s\<rparr>)),
     co_alloc_state = (\<lambda>c. case free_first 1 (dc_states c) of
         None \<Rightarrow> (Inr None, c) | Some s \<Rightarrow> (Inr (Some s), c\<lparr>dc_states := dc_states c @ s\<rparr>)),
     co_free_tokens = (\<lambda>s c. c\<lparr>dc_tokens := filter (\<lambda>x. x \<notin> set s) (dc_tokens c)\<rparr>),
     co_free_state = (\<lambda>s c. c\<lparr>dc_states := filter (\<lambda>x. x \<notin> set s) (dc_states c)\<rparr>),
     co_insert = (\<lambda>ts slots st c. case slots of
         None \<Rightarrow> (Inl (TypeError ''insert''), c) | Some s \<Rightarrow> (Inr (0, False), c\<lparr>dc_prefix := Some (ts, s, st)\<rparr>)),
     co_layout = (\<lambda>n. n), co_cell_bytes = (\<lambda>i. 2), co_sha256 = (\<lambda>ts. map (\<lambda>t. char_of (nat t)) ts)\<rparr>"

lemma free_first_ok: "free_first n held = Some s \<Longrightarrow> distinct s \<and> length s = n \<and> set s \<inter> set held = {}"
  by (auto simp: free_first_def Let_def split: if_splits dest!: in_set_takeD)

lemma demo_slot_laws: "slot_laws demo_ops (\<lambda>c. set (dc_tokens c)) (\<lambda>c. set (dc_states c))"
  unfolding slot_laws_def
proof (intro conjI allI impI)
  fix n c s c' assume a: "co_alloc_tokens demo_ops n c = (s, c')"
  then show "set (dc_states c') = set (dc_states c)" by (auto simp: demo_ops_def split: option.splits)
  show "alloc_ok n s (set (dc_tokens c)) (set (dc_tokens c'))"
    using a free_first_ok [of n "dc_tokens c"] by (auto simp: demo_ops_def alloc_ok_def split: option.splits)
next
  fix c s c' assume a: "co_alloc_state demo_ops c = (s, c')"
  then show "set (dc_tokens c') = set (dc_tokens c)" by (auto simp: demo_ops_def split: option.splits)
  show "alloc_ok 1 s (set (dc_states c)) (set (dc_states c'))"
    using a free_first_ok [of 1 "dc_states c"] by (auto simp: demo_ops_def alloc_ok_def split: option.splits)
qed (auto simp: demo_ops_def split: option.splits)

text \<open>A destination with one buffer of token cells and one of states, and its peers.\<close>

definition demo_rank_state :: "nat \<Rightarrow> demo_cache \<Rightarrow> (nat \<Rightarrow> int) \<Rightarrow> (demo_cache, int) transfer_rank" where
  "demo_rank_state rank c f = \<lparr>tr_groups = [(''g'', \<lparr>tg_rank = rank, tg_sequence = 0, tg_port = 9, tg_failed = False\<rparr>)],
     tr_cache = c, tr_kv = [f], tr_conv = [], tr_temporal = f\<rparr>"

definition demo_destination :: "(demo_cache, int) transfer_rank" where
  "demo_destination = demo_rank_state 1 \<lparr>dc_tokens = [0, 2], dc_states = [0], dc_prefix = None\<rparr> (\<lambda>_. 0)"

definition demo_source_rank :: "(demo_cache, int) transfer_rank" where
  "demo_source_rank = demo_rank_state 0 \<lparr>dc_tokens = [4, 5], dc_states = [6], dc_prefix = Some ([11, 12], [4, 5], Some [6])\<rparr> (\<lambda>s. int s * 10)"

definition demo_payload :: transfer_payload where
  "demo_payload = \<lparr>pl_group_name = ''g'', pl_role = ''destination'', pl_port = 9, pl_token_ids = [11, 12]\<rparr>"

definition demo_peers :: "exn option \<Rightarrow> (nat, int) peers" where
  "demo_peers copied = \<lparr>pe_gather_errors = (\<lambda>x. Inr [x, None]), pe_exchange = Inr,
     pe_synchronize = None, pe_tensor = (\<lambda>i. None),
     pe_broadcast = (\<lambda>i _. Inr (if i = 0 then [40, 50] else [60])), pe_index_copy = (\<lambda>i. None), pe_gather_copied = copied,
     pe_gather_ready = (\<lambda>b. Inr [b, True]), pe_exchange_ready = Inr\<rparr>"

lemma demo_buffers: "tr_buffers demo_destination = [(0, \<lambda>_. 0), (1, \<lambda>_. 0)]"
    "tr_buffers demo_source_rank = [(0, \<lambda>s. int s * 10), (1, \<lambda>s. int s * 10)]"
  by (simp_all add: tr_buffers_def demo_destination_def demo_source_rank_def demo_rank_state_def)

text \<open>What a run leaves, as values.\<close>

definition outcome :: "(exn + transfer_result) \<times> (demo_cache, int) transfer_rank \<Rightarrow>
    (exn + transfer_result) \<times> bool list \<times> demo_cache \<times> int list list" where
  "outcome x = (fst x, map (tg_failed \<circ> snd) (tr_groups (snd x)), tr_cache (snd x),
     map (\<lambda>b. map (snd b) [0..<4]) (tr_buffers (snd x)))"

lemma demo_completes: "outcome (handle_transfer demo_ops (demo_peers None) demo_payload demo_destination) =
    (Inr \<lparr>tx_token_count = 2, tx_bytes = 6, tx_state = ''COMPLETE''\<rparr>, [False],
     \<lparr>dc_tokens = [0, 2, 1, 3], dc_states = [0, 1], dc_prefix = Some ([11, 12], [1, 3], Some [1])\<rparr>, [[0, 40, 0, 50], [0, 60, 0, 0]])"
  by code_simp

lemma demo_stops: "outcome (handle_transfer demo_ops (demo_peers (Some (RuntimeError ''rank lost''))) demo_payload demo_destination) =
    (Inl (RuntimeError ''rank lost''), [True],
     \<lparr>dc_tokens = [0, 2], dc_states = [0], dc_prefix = None\<rparr>, [[0, 40, 0, 50], [0, 60, 0, 0]])"
  by code_simp

lemma outcomeE:
  assumes "outcome (handle_transfer ops pe p st) = (r, fs, c, vs)"
  obtains st' where "handle_transfer ops pe p st = (r, st')" "tr_cache st' = c" "map (\<lambda>b. map (snd b) [0..<4]) (tr_buffers st') = vs"
  using assms by (cases "handle_transfer ops pe p st") (auto simp: outcome_def)

lemma failed_group_is_dead_witness:
  "\<exists>st'. handle_transfer demo_ops (demo_peers (Some (RuntimeError ''rank lost''))) demo_payload demo_destination =
       (Inl (RuntimeError ''rank lost''), st') \<and>
     handle_transfer demo_ops (demo_peers None) demo_payload st' = (Inl (ValueError ''failed group cannot be reused''), st')"
proof -
  obtain st' where r: "handle_transfer demo_ops (demo_peers (Some (RuntimeError ''rank lost''))) demo_payload demo_destination =
      (Inl (RuntimeError ''rank lost''), st')" using demo_stops by (rule outcomeE)
  have "map_of (tr_groups demo_destination) (pl_group_name demo_payload) =
      Some \<lparr>tg_rank = 1, tg_sequence = 0, tg_port = 9, tg_failed = False\<rparr>"
    by (simp add: demo_destination_def demo_rank_state_def demo_payload_def)
  from failed_group_is_dead [OF r this] have "\<forall>later (pe' :: (nat, int) peers) p'.
      (group_step demo_ops)\<^sup>*\<^sup>* st' later \<longrightarrow> pl_group_name p' = pl_group_name demo_payload \<longrightarrow>
      handle_transfer demo_ops pe' p' later = (Inl (ValueError ''failed group cannot be reused''), later)"
    by (simp add: demo_peers_def)
  then have "handle_transfer demo_ops (demo_peers None) demo_payload st' = (Inl (ValueError ''failed group cannot be reused''), st')"
    by blast
  with r show ?thesis by blast
qed

lemma failed_transfer_returns_slots_witness:
  "\<exists>st'. handle_transfer demo_ops (demo_peers (Some (RuntimeError ''rank lost''))) demo_payload demo_destination =
       (Inl (RuntimeError ''rank lost''), st') \<and> set (dc_tokens (tr_cache st')) = {0, 2} \<and> set (dc_states (tr_cache st')) = {0}"
proof -
  obtain st' where r: "handle_transfer demo_ops (demo_peers (Some (RuntimeError ''rank lost''))) demo_payload demo_destination =
      (Inl (RuntimeError ''rank lost''), st')" and c: "tr_cache st' = \<lparr>dc_tokens = [0, 2], dc_states = [0], dc_prefix = None\<rparr>"
    using demo_stops by (rule outcomeE)
  have "\<not> co_has_children demo_ops (tr_cache st')" by (simp add: c demo_ops_def)
  with failed_transfer_returns_slots [OF r demo_slot_laws]
  have "set (dc_tokens (tr_cache st')) = set (dc_tokens (tr_cache demo_destination))"
    "set (dc_states (tr_cache st')) = set (dc_states (tr_cache demo_destination))" by (auto simp: demo_peers_def)
  with r show ?thesis by (auto simp: demo_destination_def demo_rank_state_def)
qed

lemma completed_transfer_copies_state_witness:
  "\<exists>res dst' slots. handle_transfer demo_ops (demo_peers None) demo_payload demo_destination = (Inr res, dst') \<and>
     length slots = 2 \<and> set slots \<inter> {0, 2} = {} \<and> map (snd (tr_buffers dst' ! 0)) slots = [40, 50]"
proof -
  obtain dst' where r: "handle_transfer demo_ops (demo_peers None) demo_payload demo_destination =
      (Inr \<lparr>tx_token_count = 2, tx_bytes = 6, tx_state = ''COMPLETE''\<rparr>, dst')" using demo_completes by (rule outcomeE)
  have g: "map_of (tr_groups demo_destination) (pl_group_name demo_payload) =
      Some \<lparr>tg_rank = 1, tg_sequence = 0, tg_port = 9, tg_failed = False\<rparr>"
    by (simp add: demo_destination_def demo_rank_state_def demo_payload_def)
  have d: "pe_broadcast (demo_peers None) i x = Inr (map (snd (tr_buffers demo_source_rank ! i))
      (if fst (tr_buffers demo_source_rank ! i) = 0 then [4, 5] else [6]))" if "i < length (tr_buffers demo_source_rank)" for i x
    using that by (cases i) (auto simp: demo_peers_def demo_buffers)
  have "\<exists>slots state. length slots = length (pl_token_ids demo_payload) \<and> length state = 1 \<and>
    set slots \<inter> set (dc_tokens (tr_cache demo_destination)) = {} \<and> set state \<inter> set (dc_states (tr_cache demo_destination)) = {} \<and>
    (\<forall>i < length (tr_buffers demo_destination). let own = (if fst (tr_buffers demo_destination ! i) = 0 then slots else state);
        peers = (if fst (tr_buffers demo_destination ! i) = 0 then [4, 5] else [6]) in
      map (snd (tr_buffers dst' ! i)) own = map (snd (tr_buffers demo_source_rank ! i)) peers \<and>
      (\<forall>s. s \<notin> set own \<longrightarrow> snd (tr_buffers dst' ! i) s = snd (tr_buffers demo_destination ! i) s))"
    by (rule completed_transfer_copies_state [OF r g _ demo_slot_laws _ _ _ _ d])
      (auto simp: demo_peers_def demo_buffers demo_payload_def)
  then obtain slots state where "length slots = length (pl_token_ids demo_payload)"
    "set slots \<inter> set (dc_tokens (tr_cache demo_destination)) = {}"
    and all: "\<forall>i < length (tr_buffers demo_destination). let own = (if fst (tr_buffers demo_destination ! i) = 0 then slots else state);
        peers = (if fst (tr_buffers demo_destination ! i) = 0 then [4, 5] else [6]) in
      map (snd (tr_buffers dst' ! i)) own = map (snd (tr_buffers demo_source_rank ! i)) peers \<and>
      (\<forall>s. s \<notin> set own \<longrightarrow> snd (tr_buffers dst' ! i) s = snd (tr_buffers demo_destination ! i) s)"
    by (elim exE conjE) (rule that)
  then have "length slots = 2" "set slots \<inter> {0, 2} = {}"
    by (simp_all add: demo_destination_def demo_rank_state_def demo_payload_def)
  moreover have "map (snd (tr_buffers dst' ! 0)) slots = [40, 50]"
    using spec [OF all, of 0] by (simp add: demo_buffers)
  ultimately show ?thesis using r by (intro exI conjI)
qed

text \<open>
  The collective between the allocation and the \<open>try\<close> block is guarded by neither: when it
  raises, the allocated slots stay taken and the group is not marked failed.
\<close>

lemma unguarded_gather_keeps_slots:
  "outcome (handle_transfer demo_ops ((demo_peers None)\<lparr>pe_gather_errors := (\<lambda>_. Inl (RuntimeError ''rank lost''))\<rparr>) demo_payload demo_destination) =
     (Inl (RuntimeError ''rank lost''), [False],
      \<lparr>dc_tokens = [0, 2, 1, 3], dc_states = [0, 1], dc_prefix = None\<rparr>, [[0, 0, 0, 0], [0, 0, 0, 0]])"
  by code_simp

end
