(* ===== verification/SnapshotDirectory.thy ===== *)
theory SnapshotDirectory
  imports EngineClient Recency
begin

text \<open>
  \<open>agentshift/controller/snapshot_directory.py\<close>: validation of an engine's inspection
  response, and the bounded least-recently-used directory of the snapshot boundaries the
  engines confirmed. Arguments whose types the code checks are JSON values; an
  \<open>OrderedDict\<close> is the list of its entries, oldest first. The lemmas prove the bounds and
  the counters of the directory in every run, and that what it offers for reuse was
  confirmed by an engine.
\<close>

section \<open>Validation\<close>

definition nonnegative_int :: "json \<Rightarrow> string \<Rightarrow> exn + int" where
  "nonnegative_int v name = (case v of
      JInt i \<Rightarrow> if i < 0 then Inl (ValueError (name @ '' must be a nonnegative integer'')) else Inr i
    | _ \<Rightarrow> Inl (ValueError (name @ '' must be a nonnegative integer'')))"

fun check_tokens :: "json list \<Rightarrow> exn + int list" where
  "check_tokens [] = Inr []"
| "check_tokens (v # vs) = (case nonnegative_int v ''token ID'' of
      Inl e \<Rightarrow> Inl e
    | Inr i \<Rightarrow> (case check_tokens vs of Inl e \<Rightarrow> Inl e | Inr is \<Rightarrow> Inr (i # is)))"

text \<open>\<open>tuple(token_ids)\<close>: a string is refused, an object iterates over its keys.\<close>

definition tokens_of :: "json \<Rightarrow> exn + int list" where
  "tokens_of v = (case v of
      JStr _ \<Rightarrow> Inl (ValueError ''token_ids must contain nonnegative integer token IDs'')
    | JArr vs \<Rightarrow> check_tokens vs
    | JObj kvs \<Rightarrow> check_tokens (map (\<lambda>kv. JStr (fst kv)) kvs)
    | _ \<Rightarrow> Inl (ValueError ''token_ids must be iterable''))"

record capacity_observation =
  co_available_token_slots :: int
  co_evictable_token_slots :: int
  co_available_snapshot_slots :: int
  co_evictable_snapshot_slots :: int

text \<open>\<open>_nonnegative_int(response[name], name)\<close> inside the \<open>try\<close> that turns a \<open>KeyError\<close>.\<close>

definition response_int :: "json \<Rightarrow> string \<Rightarrow> exn + int" where
  "response_int response name = (case jget name response of
      None \<Rightarrow> Inl (ValueError (''inspection response is missing '' @ name))
    | Some v \<Rightarrow> nonnegative_int v name)"

fun check_boundaries :: "int list \<Rightarrow> int \<Rightarrow> int \<Rightarrow> json list \<Rightarrow> exn + int list list" where
  "check_boundaries tokens matched previous [] = Inr []"
| "check_boundaries tokens matched previous (v # vs) =
     (case nonnegative_int v ''snapshot boundary'' of
        Inl e \<Rightarrow> Inl e
      | Inr b \<Rightarrow>
          if b \<le> previous then Inl (ValueError ''snapshot boundaries must be positive, unique and increasing'')
          else if matched < b then Inl (ValueError ''snapshot boundary exceeds matching inspected prefix'')
          else (case check_boundaries tokens matched b vs of
              Inl e \<Rightarrow> Inl e
            | Inr ps \<Rightarrow> Inr (take (nat b) tokens # ps)))"

definition bind_sum :: "'e + 'a \<Rightarrow> ('a \<Rightarrow> 'e + 'b) \<Rightarrow> 'e + 'b" where
  "bind_sum r f = (case r of Inl e \<Rightarrow> Inl e | Inr a \<Rightarrow> f a)"

definition parse_capacity :: "json \<Rightarrow> exn + capacity_observation" where
  "parse_capacity response =
     bind_sum (response_int response ''available_token_slots'') (\<lambda>c1.
     bind_sum (response_int response ''evictable_token_slots'') (\<lambda>c2.
     bind_sum (response_int response ''available_snapshot_slots'') (\<lambda>c3.
     bind_sum (response_int response ''evictable_snapshot_slots'') (\<lambda>c4.
       Inr \<lparr>co_available_token_slots = c1, co_evictable_token_slots = c2,
            co_available_snapshot_slots = c3, co_evictable_snapshot_slots = c4\<rparr>))))"

definition parse_prefixes :: "int list \<Rightarrow> int \<Rightarrow> json \<Rightarrow> exn + int list list" where
  "parse_prefixes tokens matched boundaries = (case boundaries of
      JArr bs \<Rightarrow> check_boundaries tokens matched 0 bs
    | _ \<Rightarrow> Inl (ValueError ''snapshot_boundaries must be an ordered list''))"

definition parse_fields ::
  "int list \<Rightarrow> json \<Rightarrow> exn + (int list \<times> int list list \<times> capacity_observation)" where
  "parse_fields tokens response =
     bind_sum (response_int response ''query_tokens'') (\<lambda>query_tokens.
     bind_sum (response_int response ''matched_tokens'') (\<lambda>matched_tokens.
     (case jget ''snapshot_boundaries'' response of
        None \<Rightarrow> Inl (ValueError ''inspection response is missing snapshot_boundaries'')
      | Some boundaries \<Rightarrow>
          bind_sum (parse_capacity response) (\<lambda>capacity.
            if query_tokens \<noteq> int (length tokens)
            then Inl (ValueError ''query_tokens does not match inspected token_ids'')
            else if query_tokens < matched_tokens
            then Inl (ValueError ''matched_tokens exceeds inspected input length'')
            else bind_sum (parse_prefixes tokens matched_tokens boundaries) (\<lambda>prefixes.
              Inr (tokens, prefixes, capacity))))))"

definition parse_inspection ::
  "json \<Rightarrow> json \<Rightarrow> exn + (int list \<times> int list list \<times> capacity_observation)" where
  "parse_inspection token_ids response =
     bind_sum (tokens_of token_ids) (\<lambda>tokens.
       case response of
         JObj _ \<Rightarrow> parse_fields tokens response
       | _ \<Rightarrow> Inl (ValueError ''inspection response must be an object''))"

definition validated_snapshots :: "json \<Rightarrow> json \<Rightarrow> exn + int list list" where
  "validated_snapshots token_ids response =
     bind_sum (parse_inspection token_ids response) (\<lambda>(_, prefixes, _). Inr prefixes)"

text \<open>
  The longest observed prefix of the tokens, with a nonempty suffix where one is required.
  The observed prefixes are tuples of the directory, already checked.
\<close>

fun longest_prefix :: "int list \<Rightarrow> int \<Rightarrow> int \<Rightarrow> int list list \<Rightarrow> int" where
  "longest_prefix tokens maximum longest [] = longest"
| "longest_prefix tokens maximum longest (p # ps) =
     longest_prefix tokens maximum
       (if longest < int (length p) \<and> int (length p) \<le> maximum \<and> take (length p) tokens = p
        then int (length p) else longest) ps"

definition best_reusable_prefix :: "int list \<Rightarrow> int list list \<Rightarrow> bool \<Rightarrow> int" where
  "best_reusable_prefix tokens observed require_suffix =
     longest_prefix tokens (int (length tokens) - (if require_suffix then 1 else 0)) 0 observed"

text \<open>The module function on arguments it has to check.\<close>

fun tokens_of_all :: "json list \<Rightarrow> exn + int list list" where
  "tokens_of_all [] = Inr []"
| "tokens_of_all (v # vs) = bind_sum (tokens_of v) (\<lambda>p. bind_sum (tokens_of_all vs) (\<lambda>ps. Inr (p # ps)))"

definition best_reusable_prefix_of :: "json \<Rightarrow> json list \<Rightarrow> bool \<Rightarrow> exn + int" where
  "best_reusable_prefix_of token_ids observed require_suffix =
     bind_sum (tokens_of token_ids) (\<lambda>tokens. bind_sum (tokens_of_all observed) (\<lambda>ps.
       Inr (best_reusable_prefix tokens ps require_suffix)))"

section \<open>The directory\<close>

record engine_observations =
  ob_prefixes :: "int list list"
  ob_capacity :: capacity_observation
  ob_token_count :: int

record snapshot_directory =
  dr_max_snapshots :: int
  dr_max_tokens :: int
  dr_max_engines :: int
  dr_engines :: "(json \<times> engine_observations) list"

definition new_snapshot_directory :: "json \<Rightarrow> json \<Rightarrow> json \<Rightarrow> exn + snapshot_directory" where
  "new_snapshot_directory snapshots tokens engines =
     (let positive = (\<lambda>v name. bind_sum (nonnegative_int v name) (\<lambda>i.
            if i = 0 then Inl (ValueError (name @ '' must be positive'')) else Inr i)) in
      bind_sum (positive snapshots ''max_snapshots_per_engine'') (\<lambda>s.
      bind_sum (positive tokens ''max_tokens_per_engine'') (\<lambda>t.
      bind_sum (positive engines ''max_engines'') (\<lambda>e.
        Inr \<lparr>dr_max_snapshots = s, dr_max_tokens = t, dr_max_engines = e, dr_engines = []\<rparr>))))"

definition engine_key :: "json \<Rightarrow> exn + json" where
  "engine_key v = (case v of
      JInt i \<Rightarrow> if 0 \<le> i then Inr v else Inl (ValueError ''physical_engine must be a nonnegative integer or nonempty string'')
    | JStr s \<Rightarrow> if s \<noteq> [] then Inr v else Inl (ValueError ''physical_engine must be a nonnegative integer or nonempty string'')
    | _ \<Rightarrow> Inl (ValueError ''physical_engine must be a nonnegative integer or nonempty string''))"

text \<open>Assignment to a key that is popped first.\<close>

definition set_entry :: "json \<Rightarrow> engine_observations \<Rightarrow> (json \<times> engine_observations) list \<Rightarrow> (json \<times> engine_observations) list" where
  "set_entry k v es = filter (\<lambda>e. fst e \<noteq> k) es @ [(k, v)]"

text \<open>The eviction loop of one engine: oldest prefixes go while a bound is exceeded.\<close>

fun evict :: "int \<Rightarrow> int \<Rightarrow> int list list \<Rightarrow> int \<Rightarrow> int list list \<times> int" where
  "evict max_snapshots max_tokens [] count = ([], count)"
| "evict max_snapshots max_tokens (p # ps) count =
     (if max_snapshots < int (length (p # ps)) \<or> max_tokens < count
      then evict max_snapshots max_tokens ps (count - int (length p)) else (p # ps, count))"

fun retain :: "int \<Rightarrow> int \<Rightarrow> int list list \<Rightarrow> int list list \<times> int \<Rightarrow> int list list \<times> int" where
  "retain max_snapshots max_tokens [] st = st"
| "retain max_snapshots max_tokens (p # confirmed) (ps, count) =
     (if max_tokens < int (length p) then retain max_snapshots max_tokens confirmed (ps, count)
      else let count = (if p \<in> set ps then count else count + int (length p));
               ps = (if p \<in> set ps then ps else ps @ [p])
           in retain max_snapshots max_tokens confirmed
                (evict max_snapshots max_tokens (move_to_end p ps) count))"

definition stale_prefix :: "int list \<Rightarrow> int list list \<Rightarrow> int list \<Rightarrow> bool" where
  "stale_prefix tokens confirmed p \<longleftrightarrow>
     length p \<le> length tokens \<and> take (length p) tokens = p \<and> p \<notin> set confirmed"

definition drop_stale :: "int list \<Rightarrow> int list list \<Rightarrow> int list list \<times> int \<Rightarrow> int list list \<times> int" where
  "drop_stale tokens confirmed st =
     (case st of (ps, count) \<Rightarrow>
        (filter (\<lambda>p. \<not> stale_prefix tokens confirmed p) ps,
         count - sum_list (map (int \<circ> length) (filter (stale_prefix tokens confirmed) ps))))"

definition last_entries :: "int \<Rightarrow> 'a list \<Rightarrow> 'a list" where
  "last_entries n xs = drop (length xs - nat n) xs"

definition update_directory :: "json \<Rightarrow> json \<Rightarrow> json \<Rightarrow> (snapshot_directory, int list list) prog" where
  "update_directory physical_engine token_ids response d =
     (case bind_sum (engine_key physical_engine) (\<lambda>k. bind_sum (parse_inspection token_ids response) (\<lambda>r. Inr (k, r))) of
        Inl e \<Rightarrow> (Inl e, d)
      | Inr (k, tokens, confirmed, capacity) \<Rightarrow>
          let (ps, count) = (case map_of (dr_engines d) k of
                 None \<Rightarrow> ([], 0) | Some st \<Rightarrow> (ob_prefixes st, ob_token_count st));
              (ps, count) = retain (dr_max_snapshots d) (dr_max_tokens d) confirmed
                 (drop_stale tokens confirmed (ps, count))
          in (Inr confirmed, d\<lparr>dr_engines := last_entries (dr_max_engines d)
                (set_entry k \<lparr>ob_prefixes = ps, ob_capacity = capacity, ob_token_count = count\<rparr> (dr_engines d))\<rparr>))"

definition directory_prefixes :: "json \<Rightarrow> (snapshot_directory, int list list) prog" where
  "directory_prefixes physical_engine d = (case engine_key physical_engine of
      Inl e \<Rightarrow> (Inl e, d)
    | Inr k \<Rightarrow> (Inr (case map_of (dr_engines d) k of None \<Rightarrow> [] | Some st \<Rightarrow> ob_prefixes st), d))"

definition directory_resources :: "json \<Rightarrow> (snapshot_directory, capacity_observation option) prog" where
  "directory_resources physical_engine d = (case engine_key physical_engine of
      Inl e \<Rightarrow> (Inl e, d)
    | Inr k \<Rightarrow> (Inr (map_option ob_capacity (map_of (dr_engines d) k)), d))"

definition directory_best_prefix :: "json \<Rightarrow> json \<Rightarrow> bool \<Rightarrow> (snapshot_directory, int) prog" where
  "directory_best_prefix physical_engine token_ids require_suffix d =
     (case bind_sum (engine_key physical_engine) (\<lambda>k. bind_sum (tokens_of token_ids) (\<lambda>ts. Inr (k, ts))) of
        Inl e \<Rightarrow> (Inl e, d)
      | Inr (k, tokens) \<Rightarrow>
          (case map_of (dr_engines d) k of
             None \<Rightarrow> (Inr 0, d)
           | Some st \<Rightarrow>
               let longest = best_reusable_prefix tokens (ob_prefixes st) require_suffix;
                   st' = (if longest \<noteq> 0
                          then st\<lparr>ob_prefixes := move_to_end (take (nat longest) tokens) (ob_prefixes st)\<rparr> else st)
               in (Inr longest, d\<lparr>dr_engines := set_entry k st' (dr_engines d)\<rparr>)))"

definition discard_engine :: "json \<Rightarrow> (snapshot_directory, unit) prog" where
  "discard_engine physical_engine d = (case engine_key physical_engine of
      Inl e \<Rightarrow> (Inl e, d)
    | Inr k \<Rightarrow> (Inr (), d\<lparr>dr_engines := filter (\<lambda>e. fst e \<noteq> k) (dr_engines d)\<rparr>))"

definition clear_directory :: "(snapshot_directory, unit) prog" where
  "clear_directory d = (Inr (), d\<lparr>dr_engines := []\<rparr>)"

section \<open>One engine's observations\<close>

definition total_length :: "int list list \<Rightarrow> int" where
  "total_length ps = sum_list (map (int \<circ> length) ps)"

lemma total_length_simps [simp]:
  "total_length [] = 0" "total_length (p # ps) = int (length p) + total_length ps"
  "total_length (ps @ qs) = total_length ps + total_length qs"
  by (simp_all add: total_length_def)

lemma total_length_nonneg: "0 \<le> total_length ps"
  by (induction ps) auto

lemma total_length_filter:
  "total_length (filter P ps) + total_length (filter (\<lambda>p. \<not> P p) ps) = total_length ps"
  by (induction ps) auto

lemma total_length_remove1: "p \<in> set ps \<Longrightarrow> total_length (remove1 p ps) = total_length ps - int (length p)"
  by (induction ps) auto

lemma evict_spec:
  assumes "evict ms mt ps count = (qs, c)" and "count = total_length ps" and "0 \<le> ms" and "0 \<le> mt"
  shows "c = total_length qs \<and> int (length qs) \<le> ms \<and> c \<le> mt \<and> (\<exists>rs. ps = rs @ qs)"
  using assms
proof (induction ms mt ps count rule: evict.induct)
  case (2 ms mt p ps count)
  show ?case
  proof (cases "ms < int (length (p # ps)) \<or> mt < count")
    case True
    then have "evict ms mt ps (count - int (length p)) = (qs, c)" using 2(2) by simp
    from 2(1) [OF True this] 2(3-) show ?thesis by auto
  next
    case False
    then show ?thesis using 2(2-) by auto
  qed
qed simp

text \<open>The newest prefix survives when it alone is within the bounds.\<close>

lemma evict_keeps_last:
  assumes "evict ms mt (ps @ [p]) count = (qs, c)" and "count = total_length (ps @ [p])"
    and "1 \<le> ms" and "int (length p) \<le> mt"
  shows "\<exists>rs. qs = rs @ [p]"
  using assms
proof (induction ps arbitrary: count)
  case Nil
  then show ?case by (auto split: if_splits)
next
  case (Cons x ps)
  show ?case
  proof (cases "ms < int (length (x # ps @ [p])) \<or> mt < count")
    case True
    then have "evict ms mt (ps @ [p]) (count - int (length x)) = (qs, c)" using Cons.prems(1) by simp
    then show ?thesis using Cons.IH Cons.prems(2-) by simp
  next
    case False
    then have "qs = x # ps @ [p]" using Cons.prems(1) by auto
    then show ?thesis by (metis append_Cons)
  qed
qed

definition prefixes_ok :: "int \<Rightarrow> int \<Rightarrow> int list list \<Rightarrow> int \<Rightarrow> bool" where
  "prefixes_ok ms mt ps count \<longleftrightarrow>
     distinct ps \<and> count = total_length ps \<and> int (length ps) \<le> ms \<and> count \<le> mt"

lemma move_to_end_facts:
  assumes "p \<in> set ps"
  shows "set (move_to_end p ps) = set ps" and "distinct ps \<Longrightarrow> distinct (move_to_end p ps)"
    and "total_length (move_to_end p ps) = total_length ps" and "length (move_to_end p ps) = length ps"
proof -
  show "set (move_to_end p ps) = set ps" using assms by (auto simp: set_move_to_end)
  show "distinct (move_to_end p ps)" if "distinct ps" using that by (rule distinct_move_to_end)
  show "total_length (move_to_end p ps) = total_length ps"
    using assms by (simp add: move_to_end_def total_length_remove1)
  show "length (move_to_end p ps) = length ps"
    using assms length_pos_if_in_set [OF assms] by (simp add: move_to_end_def length_remove1)
qed

lemma retain_spec:
  assumes "retain ms mt confirmed (ps, count) = (qs, c)" and "prefixes_ok ms mt ps count" and "1 \<le> ms" and "0 \<le> mt"
  shows "prefixes_ok ms mt qs c \<and> set qs \<subseteq> set ps \<union> set confirmed"
  using assms
proof (induction ms mt confirmed "(ps, count)" arbitrary: ps count rule: retain.induct)
  case (2 ms mt p confirmed ps count)
  show ?case
  proof (cases "mt < int (length p)")
    case True
    then have "retain ms mt confirmed (ps, count) = (qs, c)" using 2(3) by simp
    from 2(1) [OF True this 2(4-6)] show ?thesis by auto
  next
    case False
    let ?n = "if p \<in> set ps then count else count + int (length p)"
    let ?ps = "if p \<in> set ps then ps else ps @ [p]"
    obtain rs c' where ev: "evict ms mt (move_to_end p ?ps) ?n = (rs, c')" by (cases "evict ms mt (move_to_end p ?ps) ?n")
    have mem: "p \<in> set ?ps" by simp
    note mv = move_to_end_facts [OF mem]
    have cnt: "?n = total_length (move_to_end p ?ps)" using mv(3) 2(4) by (auto simp: prefixes_ok_def)
    note es = evict_spec [OF ev cnt]
    have dist: "distinct (move_to_end p ?ps)" using mv(2) 2(4) by (auto simp: prefixes_ok_def)
    obtain ds where ds: "move_to_end p ?ps = ds @ rs" using es 2(5,6) by auto
    then have "prefixes_ok ms mt rs c'" using es dist 2(5,6) by (auto simp: prefixes_ok_def)
    moreover have "set rs \<subseteq> set ps \<union> {p}"
    proof -
      have "set rs \<subseteq> set (move_to_end p ?ps)" using ds by simp
      also have "\<dots> = set ?ps" by (rule mv(1))
      finally show ?thesis by (auto split: if_splits)
    qed
    moreover have "retain ms mt confirmed (rs, c') = (qs, c)" using 2(3) False ev by (simp add: Let_def)
    ultimately show ?thesis using 2(2) [OF False refl refl, of rs c'] ev 2(5,6) by fastforce
  qed
qed simp

lemma drop_stale_spec:
  assumes "drop_stale tokens confirmed (ps, count) = (qs, c)" and "prefixes_ok ms mt ps count"
  shows "prefixes_ok ms mt qs c \<and> set qs = {p \<in> set ps. \<not> stale_prefix tokens confirmed p}"
proof -
  have qs: "qs = filter (\<lambda>p. \<not> stale_prefix tokens confirmed p) ps"
    and c: "c = count - total_length (filter (stale_prefix tokens confirmed) ps)"
    using assms(1) by (auto simp: drop_stale_def total_length_def)
  have "c = total_length qs"
    using c qs assms(2) total_length_filter [of "stale_prefix tokens confirmed" ps] by (simp add: prefixes_ok_def)
  moreover have "length qs \<le> length ps" using qs by simp
  moreover have "c \<le> count" using c total_length_nonneg by simp
  moreover have "int (length qs) \<le> ms" using calculation(2) assms(2) by (simp add: prefixes_ok_def)
  ultimately show ?thesis using assms(2) qs by (auto simp: prefixes_ok_def)
qed

section \<open>The directory in every run\<close>

definition directory_ok :: "snapshot_directory \<Rightarrow> bool" where
  "directory_ok d \<longleftrightarrow> 1 \<le> dr_max_snapshots d \<and> 1 \<le> dr_max_tokens d \<and> 1 \<le> dr_max_engines d \<and>
     distinct (map fst (dr_engines d)) \<and> int (length (dr_engines d)) \<le> dr_max_engines d \<and>
     (\<forall>(k, ob) \<in> set (dr_engines d).
        prefixes_ok (dr_max_snapshots d) (dr_max_tokens d) (ob_prefixes ob) (ob_token_count ob))"

datatype directory_op =
    Update json json json
  | BestPrefix json json bool
  | DiscardEngine json
  | ClearAll

fun run_op :: "directory_op \<Rightarrow> snapshot_directory \<Rightarrow> snapshot_directory" where
  "run_op (Update e ts r) d = snd (update_directory e ts r d)"
| "run_op (BestPrefix e ts b) d = snd (directory_best_prefix e ts b d)"
| "run_op (DiscardEngine e) d = snd (discard_engine e d)"
| "run_op ClearAll d = snd (clear_directory d)"

text \<open>What an update confirms, and for which engine.\<close>

definition confirms :: "directory_op \<Rightarrow> json \<Rightarrow> int list \<Rightarrow> bool" where
  "confirms c k p \<longleftrightarrow> (\<exists>ts r prefixes. c = Update k ts r \<and> validated_snapshots ts r = Inr prefixes \<and> p \<in> set prefixes)"

lemma keys_set_entry:
  "distinct (map fst es) \<Longrightarrow> distinct (map fst (set_entry k v es))"
  by (auto simp: set_entry_def distinct_map inj_on_def)

lemma mem_set_entry: "(j, w) \<in> set (set_entry k v es) \<Longrightarrow> (j, w) \<in> set es \<or> (j = k \<and> w = v)"
  by (auto simp: set_entry_def)

lemma mem_last_entries: "x \<in> set (last_entries n xs) \<Longrightarrow> x \<in> set xs"
  by (auto simp: last_entries_def dest: in_set_dropD)

lemma length_last_entries: "1 \<le> n \<Longrightarrow> int (length (last_entries n xs)) \<le> n"
  by (simp add: last_entries_def)

lemma distinct_last_entries: "distinct (map f xs) \<Longrightarrow> distinct (map f (last_entries n xs))"
  by (simp add: last_entries_def drop_map [symmetric] distinct_drop)

lemma bind_sum_InrE:
  assumes "bind_sum r f = Inr b"
  obtains a where "r = Inr a" and "f a = Inr b"
  using assms by (cases r) (auto simp: bind_sum_def)

lemma engine_key_same: "engine_key v = Inr k \<Longrightarrow> k = v \<and> engine_key v = Inr v"
  by (cases v) (auto simp: engine_key_def split: if_splits)

text \<open>An update either raises and changes nothing, or stores an engine's new observations.\<close>

lemma update_cases:
  assumes ok: "directory_ok d" and run: "update_directory e ts r d = (res, d')"
  obtains (raised) x where "res = Inl x" and "d' = d"
  | (stored) confirmed tokens capacity ps count where "res = Inr confirmed"
    and "engine_key e = Inr e" and "parse_inspection ts r = Inr (tokens, confirmed, capacity)"
    and "d' = d\<lparr>dr_engines := last_entries (dr_max_engines d)
           (set_entry e \<lparr>ob_prefixes = ps, ob_capacity = capacity, ob_token_count = count\<rparr> (dr_engines d))\<rparr>"
    and "prefixes_ok (dr_max_snapshots d) (dr_max_tokens d) ps count"
    and "set ps \<subseteq> set confirmed \<union> {p. \<not> stale_prefix tokens confirmed p \<and>
           p \<in> set (case map_of (dr_engines d) e of None \<Rightarrow> [] | Some ob \<Rightarrow> ob_prefixes ob)}"
proof (cases "bind_sum (engine_key e) (\<lambda>k. bind_sum (parse_inspection ts r) (\<lambda>x. Inr (k, x)))")
  case (Inl x)
  then have "res = Inl x" "d' = d" using run by (simp_all add: update_directory_def)
  then show ?thesis by (rule raised)
next
  case (Inr y)
  then obtain tokens confirmed capacity where y: "y = (e, tokens, confirmed, capacity)"
    and key: "engine_key e = Inr e" and parse: "parse_inspection ts r = Inr (tokens, confirmed, capacity)"
    by (auto elim!: bind_sum_InrE dest: engine_key_same)
  let ?old = "case map_of (dr_engines d) e of None \<Rightarrow> ([], 0) | Some st \<Rightarrow> (ob_prefixes st, ob_token_count st)"
  obtain ps0 c0 where old: "?old = (ps0, c0)" by (cases ?old)
  obtain ps1 c1 where dropped: "drop_stale tokens confirmed (ps0, c0) = (ps1, c1)" by (cases "drop_stale tokens confirmed (ps0, c0)")
  obtain ps c where kept: "retain (dr_max_snapshots d) (dr_max_tokens d) confirmed (ps1, c1) = (ps, c)"
    by (cases "retain (dr_max_snapshots d) (dr_max_tokens d) confirmed (ps1, c1)")
  have ok0: "prefixes_ok (dr_max_snapshots d) (dr_max_tokens d) ps0 c0"
    using ok old by (auto simp: directory_ok_def prefixes_ok_def split: option.splits dest!: map_of_SomeD)
  note s1 = drop_stale_spec [OF dropped ok0]
  note s2 = retain_spec [OF kept]
  have ps0: "ps0 = (case map_of (dr_engines d) e of None \<Rightarrow> [] | Some ob \<Rightarrow> ob_prefixes ob)"
    using old by (auto split: option.splits)
  show ?thesis
  proof (rule stored [OF _ key parse])
    show "res = Inr confirmed"
      and "d' = d\<lparr>dr_engines := last_entries (dr_max_engines d)
           (set_entry e \<lparr>ob_prefixes = ps, ob_capacity = capacity, ob_token_count = c\<rparr> (dr_engines d))\<rparr>"
      using run Inr y old dropped kept by (simp_all add: update_directory_def Let_def)
    show "prefixes_ok (dr_max_snapshots d) (dr_max_tokens d) ps c" using s1 s2 ok by (simp add: directory_ok_def)
    show "set ps \<subseteq> set confirmed \<union> {p. \<not> stale_prefix tokens confirmed p \<and>
           p \<in> set (case map_of (dr_engines d) e of None \<Rightarrow> [] | Some ob \<Rightarrow> ob_prefixes ob)}"
      using s1 s2 ok ps0 by (auto simp: directory_ok_def)
  qed
qed

lemma directory_ok_store:
  assumes ok: "directory_ok d" and ob: "prefixes_ok (dr_max_snapshots d) (dr_max_tokens d) (ob_prefixes ob) (ob_token_count ob)"
  shows "directory_ok (d\<lparr>dr_engines := last_entries (dr_max_engines d) (set_entry k ob (dr_engines d))\<rparr>)"
  using assms
  by (auto simp: directory_ok_def length_last_entries keys_set_entry distinct_last_entries
      dest!: mem_last_entries mem_set_entry)

lemma longest_prefix_spec:
  assumes "0 \<le> longest"
  shows "longest \<le> longest_prefix tokens m longest ps \<and>
    (longest_prefix tokens m longest ps = longest \<or>
      (\<exists>p \<in> set ps. longest_prefix tokens m longest ps = int (length p) \<and> int (length p) \<le> m \<and> take (length p) tokens = p)) \<and>
    (\<forall>p \<in> set ps. int (length p) \<le> m \<and> take (length p) tokens = p \<longrightarrow> int (length p) \<le> longest_prefix tokens m longest ps)"
  using assms
proof (induction tokens m longest ps rule: longest_prefix.induct)
  case (2 tokens m longest p ps)
  let ?l = "if longest < int (length p) \<and> int (length p) \<le> m \<and> take (length p) tokens = p then int (length p) else longest"
  have "0 \<le> ?l" "longest \<le> ?l" using 2(2) by auto
  with 2(1) show ?case by (auto split: if_splits)
qed simp

lemma best_prefix_stored:
  assumes "best_reusable_prefix tokens ps b \<noteq> 0"
  shows "take (nat (best_reusable_prefix tokens ps b)) tokens \<in> set ps"
  using assms longest_prefix_spec [of 0 tokens "int (length tokens) - (if b then 1 else 0)" ps]
  by (auto simp: best_reusable_prefix_def)

lemma best_prefix_cases:
  assumes run: "directory_best_prefix e ts b d = (res, d')"
  obtains "d' = d"
  | ob tokens where "map_of (dr_engines d) e = Some ob" and "tokens_of ts = Inr tokens"
    and "res = Inr (best_reusable_prefix tokens (ob_prefixes ob) b)"
    and "\<exists>qs. d' = d\<lparr>dr_engines := set_entry e (ob\<lparr>ob_prefixes := qs\<rparr>) (dr_engines d)\<rparr> \<and>
      (qs = ob_prefixes ob \<or> (\<exists>p \<in> set (ob_prefixes ob). qs = move_to_end p (ob_prefixes ob)))"
proof (cases "bind_sum (engine_key e) (\<lambda>k. bind_sum (tokens_of ts) (\<lambda>x. Inr (k, x)))")
  case (Inl x)
  then have "d' = d" using run by (simp add: directory_best_prefix_def)
  then show ?thesis by (rule that(1))
next
  case (Inr y)
  then obtain tokens where y: "y = (e, tokens)" and ts: "tokens_of ts = Inr tokens"
    by (auto elim!: bind_sum_InrE dest: engine_key_same)
  show ?thesis
  proof (cases "map_of (dr_engines d) e")
    case None
    then have "d' = d" using run Inr y by (simp add: directory_best_prefix_def)
    then show ?thesis by (rule that(1))
  next
    case (Some ob)
    let ?l = "best_reusable_prefix tokens (ob_prefixes ob) b"
    have "res = Inr ?l" using run Inr y Some by (simp add: directory_best_prefix_def Let_def)
    moreover have "\<exists>qs. d' = d\<lparr>dr_engines := set_entry e (ob\<lparr>ob_prefixes := qs\<rparr>) (dr_engines d)\<rparr> \<and>
      (qs = ob_prefixes ob \<or> (\<exists>p \<in> set (ob_prefixes ob). qs = move_to_end p (ob_prefixes ob)))"
    proof (cases "?l = 0")
      case True
      then have "d' = d\<lparr>dr_engines := set_entry e (ob\<lparr>ob_prefixes := ob_prefixes ob\<rparr>) (dr_engines d)\<rparr>"
        using run Inr y Some by (simp add: directory_best_prefix_def Let_def)
      then show ?thesis by blast
    next
      case False
      then have "d' = d\<lparr>dr_engines := set_entry e (ob\<lparr>ob_prefixes :=
          move_to_end (take (nat ?l) tokens) (ob_prefixes ob)\<rparr>) (dr_engines d)\<rparr>"
        using run Inr y Some by (simp add: directory_best_prefix_def Let_def)
      then show ?thesis using best_prefix_stored [OF False] by blast
    qed
    ultimately show ?thesis using that(2) Some ts by blast
  qed
qed

lemma directory_ok_reorder:
  assumes ok: "directory_ok d" and ob: "map_of (dr_engines d) e = Some ob"
    and qs: "qs = ob_prefixes ob \<or> (\<exists>p \<in> set (ob_prefixes ob). qs = move_to_end p (ob_prefixes ob))"
  shows "directory_ok (d\<lparr>dr_engines := set_entry e (ob\<lparr>ob_prefixes := qs\<rparr>) (dr_engines d)\<rparr>)"
proof -
  let ?es = "dr_engines d"
  have mem: "(e, ob) \<in> set ?es" using ob by (rule map_of_SomeD)
  have "prefixes_ok (dr_max_snapshots d) (dr_max_tokens d) (ob_prefixes ob) (ob_token_count ob)"
    using ok mem by (auto simp: directory_ok_def)
  then have q: "prefixes_ok (dr_max_snapshots d) (dr_max_tokens d) qs (ob_token_count ob)"
    using qs move_to_end_facts by (auto simp: prefixes_ok_def)
  have dist: "distinct (map fst ?es)" using ok by (simp add: directory_ok_def)
  have "length (filter (\<lambda>x. fst x \<noteq> e) ?es) < length ?es" by (rule length_filter_less [OF mem]) simp
  then have "int (length (set_entry e (ob\<lparr>ob_prefixes := qs\<rparr>) ?es)) \<le> dr_max_engines d"
    using ok by (simp add: directory_ok_def set_entry_def)
  then show ?thesis
    using ok q keys_set_entry [OF dist] by (auto simp: directory_ok_def dest!: mem_set_entry)
qed

lemma run_op_ok:
  assumes ok: "directory_ok d"
  shows "directory_ok (run_op c d)"
proof (cases c)
  case (Update e ts r)
  obtain res d' where run: "update_directory e ts r d = (res, d')" by (cases "update_directory e ts r d")
  from ok run show ?thesis
    by (cases rule: update_cases) (simp_all add: Update run ok directory_ok_store)
next
  case (BestPrefix e ts b)
  obtain res d' where run: "directory_best_prefix e ts b d = (res, d')" by (cases "directory_best_prefix e ts b d")
  from run show ?thesis
    by (cases rule: best_prefix_cases) (auto simp: BestPrefix run ok intro: directory_ok_reorder [OF ok])
next
  case (DiscardEngine e)
  have "int (length (filter (\<lambda>x. fst x \<noteq> k) (dr_engines d))) \<le> int (length (dr_engines d))" for k by simp
  then have "int (length (filter (\<lambda>x. fst x \<noteq> k) (dr_engines d))) \<le> dr_max_engines d" for k
    using ok unfolding directory_ok_def by (meson order_trans)
  then show ?thesis
    using ok by (auto simp: DiscardEngine discard_engine_def directory_ok_def distinct_map_filter split: sum.splits)
next
  case ClearAll
  then show ?thesis using ok by (simp add: clear_directory_def directory_ok_def)
qed

lemma new_directory_ok: "new_snapshot_directory a b c = Inr d \<Longrightarrow> directory_ok d"
  by (auto simp: new_snapshot_directory_def bind_sum_def Let_def nonnegative_int_def directory_ok_def
      split: sum.splits json.splits if_splits)

text \<open>
  C20. The directory stays within its bounds in every run: at most the configured number of
  engines, and per engine distinct prefixes, at most the configured number of them and of
  their tokens, with a token counter that is exactly their total length.
\<close>

theorem directory_stays_bounded:
  assumes "new_snapshot_directory a b c = Inr d" and "d' = fold run_op ops d"
  shows "int (length (dr_engines d')) \<le> dr_max_engines d' \<and> distinct (map fst (dr_engines d')) \<and>
    (\<forall>(k, ob) \<in> set (dr_engines d').
       prefixes_ok (dr_max_snapshots d') (dr_max_tokens d') (ob_prefixes ob) (ob_token_count ob))"
proof -
  have "directory_ok (fold run_op ops d)" if "directory_ok d" for d
    using that by (induction ops arbitrary: d) (simp_all add: run_op_ok)
  then show ?thesis using new_directory_ok [OF assms(1)] assms(2) by (simp add: directory_ok_def)
qed

lemma stored_was_confirmed:
  assumes ok: "directory_ok d" and mem: "(k, ob) \<in> set (dr_engines (run_op c d))" "p \<in> set (ob_prefixes ob)"
  shows "confirms c k p \<or> (\<exists>ob0. (k, ob0) \<in> set (dr_engines d) \<and> p \<in> set (ob_prefixes ob0))"
proof (cases c)
  case (Update e ts r)
  obtain res d' where run: "update_directory e ts r d = (res, d')" by (cases "update_directory e ts r d")
  from ok run show ?thesis
  proof (cases rule: update_cases)
    case raised
    then show ?thesis using mem run Update by auto
  next
    case (stored confirmed tokens capacity ps count)
    have "validated_snapshots ts r = Inr confirmed" using stored(3) by (simp add: validated_snapshots_def bind_sum_def)
    then have conf: "p \<in> set confirmed \<Longrightarrow> k = e \<Longrightarrow> confirms c k p" using Update by (auto simp: confirms_def)
    have old: "p \<in> set (case map_of (dr_engines d) e of None \<Rightarrow> [] | Some ob \<Rightarrow> ob_prefixes ob) \<Longrightarrow>
        \<exists>ob0. (e, ob0) \<in> set (dr_engines d) \<and> p \<in> set (ob_prefixes ob0)"
      by (cases "map_of (dr_engines d) e") (auto dest: map_of_SomeD)
    have "(k, ob) \<in> set (dr_engines d) \<or>
        (k = e \<and> ob = \<lparr>ob_prefixes = ps, ob_capacity = capacity, ob_token_count = count\<rparr>)"
      using mem(1) run Update stored(4) by (auto dest!: mem_last_entries mem_set_entry)
    then show ?thesis
    proof
      assume "(k, ob) \<in> set (dr_engines d)"
      then show ?thesis using mem(2) by blast
    next
      assume new: "k = e \<and> ob = \<lparr>ob_prefixes = ps, ob_capacity = capacity, ob_token_count = count\<rparr>"
      then have "p \<in> set ps" using mem(2) by simp
      then have "p \<in> set confirmed \<or> p \<in> set (case map_of (dr_engines d) e of None \<Rightarrow> [] | Some ob \<Rightarrow> ob_prefixes ob)"
        using stored(6) by blast
      then show ?thesis using conf old new by blast
    qed
  qed
next
  case (BestPrefix e ts b)
  obtain res d' where run: "directory_best_prefix e ts b d = (res, d')" by (cases "directory_best_prefix e ts b d")
  from run show ?thesis
  proof (cases rule: best_prefix_cases)
    case 1
    then show ?thesis using mem run BestPrefix by auto
  next
    case (2 ob0 tokens)
    then obtain qs where d': "d' = d\<lparr>dr_engines := set_entry e (ob0\<lparr>ob_prefixes := qs\<rparr>) (dr_engines d)\<rparr>"
      and qs: "set qs = set (ob_prefixes ob0)" using move_to_end_facts(1) by metis
    have "(k, ob) \<in> set (dr_engines d) \<or> (k = e \<and> ob = ob0\<lparr>ob_prefixes := qs\<rparr>)"
      using mem(1) run BestPrefix d' by (auto dest!: mem_set_entry)
    then show ?thesis using mem(2) qs map_of_SomeD [OF 2(1)] by auto
  qed
next
  case (DiscardEngine e)
  then show ?thesis using mem by (auto simp: discard_engine_def split: sum.splits)
next
  case ClearAll
  then show ?thesis using mem by (simp add: clear_directory_def)
qed

text \<open>
  The directory never claims state that was not observed: in every run, a prefix stored
  for an engine was confirmed by the validated inspection of that engine in one of the
  run's updates.
\<close>

theorem stored_prefixes_were_confirmed:
  assumes "new_snapshot_directory a b c = Inr d"
    and "(k, ob) \<in> set (dr_engines (fold run_op ops d))" and "p \<in> set (ob_prefixes ob)"
  shows "\<exists>op \<in> set ops. confirms op k p"
proof -
  have "(\<exists>op \<in> set ops. confirms op k p) \<or> (\<exists>ob0. (k, ob0) \<in> set (dr_engines d0) \<and> p \<in> set (ob_prefixes ob0))"
    if "directory_ok d0" "(k, ob) \<in> set (dr_engines (fold run_op ops d0))" "p \<in> set (ob_prefixes ob)" for d0 ob
    using that
  proof (induction ops arbitrary: d0)
    case (Cons op ops)
    from Cons.IH [OF run_op_ok [OF Cons.prems(1)]] Cons.prems(2,3) stored_was_confirmed [OF Cons.prems(1), of k _ op p]
    show ?case by fastforce
  qed auto
  moreover have "dr_engines d = []"
    using assms(1) by (auto simp: new_snapshot_directory_def Let_def elim!: bind_sum_InrE)
  ultimately show ?thesis using new_directory_ok [OF assms(1)] assms(2,3) by fastforce
qed

lemma check_boundaries_spec:
  assumes "check_boundaries tokens matched previous vs = Inr ps" and "0 \<le> previous" and "matched \<le> int (length tokens)"
  shows "\<forall>p \<in> set ps. previous < int (length p) \<and> int (length p) \<le> matched \<and> take (length p) tokens = p"
    and "sorted_wrt (\<lambda>p q. length p < length q) ps"
proof -
  have "(\<forall>p \<in> set ps. previous < int (length p) \<and> int (length p) \<le> matched \<and> take (length p) tokens = p) \<and>
      sorted_wrt (\<lambda>p q. length p < length q) ps"
    using assms(1,2)
  proof (induction vs arbitrary: previous ps)
    case (Cons v vs)
    obtain b where nb: "nonnegative_int v ''snapshot boundary'' = Inr b"
      using Cons.prems(1) by (cases "nonnegative_int v ''snapshot boundary''") simp_all
    then have b: "previous < b" "b \<le> matched" using Cons.prems(1) by (auto split: if_splits)
    obtain qs where qs: "check_boundaries tokens matched b vs = Inr qs"
      using Cons.prems(1) nb b by (cases "check_boundaries tokens matched b vs") simp_all
    then have ps: "ps = take (nat b) tokens # qs" using Cons.prems(1) nb b by simp
    have len: "int (length (take (nat b) tokens)) = b" using b Cons.prems(2) assms(3) by simp
    have "0 \<le> b" using b Cons.prems(2) by simp
    from Cons.IH [OF qs this] show ?case
      using ps b len \<open>0 \<le> b\<close> by (auto simp: take_take min_def nat_less_iff)
  qed simp
  then show "\<forall>p \<in> set ps. previous < int (length p) \<and> int (length p) \<le> matched \<and> take (length p) tokens = p"
    and "sorted_wrt (\<lambda>p q. length p < length q) ps" by auto
qed

text \<open>
  Validation returns only exact, nonempty prefixes of the inspected tokens, shortest
  first and without repeats, none longer than the confirmed match.
\<close>

theorem validated_snapshots_are_prefixes:
  assumes "validated_snapshots token_ids response = Inr ps"
  shows "\<exists>tokens matched. tokens_of token_ids = Inr tokens \<and> jget ''matched_tokens'' response = Some (JInt matched) \<and>
    matched \<le> int (length tokens) \<and> sorted_wrt (\<lambda>p q. length p < length q) ps \<and>
    (\<forall>p \<in> set ps. p \<noteq> [] \<and> int (length p) \<le> matched \<and> take (length p) tokens = p)"
proof -
  obtain tokens capacity where parse: "parse_inspection token_ids response = Inr (tokens, ps, capacity)"
    using assms by (auto simp: validated_snapshots_def elim!: bind_sum_InrE)
  obtain tokens' where "tokens_of token_ids = Inr tokens'" "parse_fields tokens' response = Inr (tokens, ps, capacity)"
    using parse by (auto simp: parse_inspection_def elim!: bind_sum_InrE split: json.splits)
  moreover from this(2) have "tokens' = tokens"
    by (auto simp: parse_fields_def elim!: bind_sum_InrE split: option.splits if_splits)
  ultimately have tok: "tokens_of token_ids = Inr tokens" and fields: "parse_fields tokens response = Inr (tokens, ps, capacity)"
    by simp_all
  obtain query matched boundaries where m: "response_int response ''matched_tokens'' = Inr matched"
    and len: "query = int (length tokens)" "matched \<le> query"
    and pre: "parse_prefixes tokens matched boundaries = Inr ps"
    using fields by (auto simp: parse_fields_def elim!: bind_sum_InrE split: option.splits if_splits)
  have "jget ''matched_tokens'' response = Some (JInt matched)"
    using m by (auto simp: response_int_def nonnegative_int_def split: option.splits json.splits if_splits)
  moreover obtain bs where "check_boundaries tokens matched 0 bs = Inr ps"
    using pre by (auto simp: parse_prefixes_def split: json.splits)
  from check_boundaries_spec [OF this] len
  have "sorted_wrt (\<lambda>p q. length p < length q) ps"
    "\<forall>p \<in> set ps. 0 < int (length p) \<and> int (length p) \<le> matched \<and> take (length p) tokens = p" by auto
  ultimately show ?thesis using tok len by fastforce
qed

text \<open>
  Asking the directory for a reusable prefix gives the length of the longest prefix
  stored for that engine that the tokens start with and that leaves a suffix where one is
  required, or 0 when there is none; the stored prefixes stay the same.
\<close>

theorem best_prefix_is_longest:
  assumes "map_of (dr_engines d) e = Some ob" and "engine_key e = Inr e" and "tokens_of ts = Inr tokens"
    and "fits = (\<lambda>p. take (length p) tokens = p \<and> length p + (if b then 1 else 0) \<le> length tokens)"
  shows "\<exists>n d'. directory_best_prefix e ts b d = (Inr n, d') \<and>
    (\<forall>p \<in> set (ob_prefixes ob). fits p \<longrightarrow> int (length p) \<le> n) \<and>
    (n = 0 \<or> (\<exists>p \<in> set (ob_prefixes ob). fits p \<and> n = int (length p))) \<and>
    (\<exists>ob'. map_of (dr_engines d') e = Some ob' \<and> set (ob_prefixes ob') = set (ob_prefixes ob) \<and>
       ob_token_count ob' = ob_token_count ob)"
proof -
  obtain res d' where run: "directory_best_prefix e ts b d = (res, d')" by (cases "directory_best_prefix e ts b d")
  let ?n = "best_reusable_prefix tokens (ob_prefixes ob) b"
  have fits: "fits p \<longleftrightarrow> int (length p) \<le> int (length tokens) - (if b then 1 else 0) \<and> take (length p) tokens = p" for p
    using assms(4) by auto
  note spec = longest_prefix_spec [of 0 tokens "int (length tokens) - (if b then 1 else 0)" "ob_prefixes ob", simplified,
      folded best_reusable_prefix_def]
  have res: "res = Inr ?n"
    using run assms(1-3) by (auto simp: directory_best_prefix_def bind_sum_def Let_def)
  obtain qs where d': "d' = d\<lparr>dr_engines := set_entry e (ob\<lparr>ob_prefixes := qs\<rparr>) (dr_engines d)\<rparr>"
    and qs: "set qs = set (ob_prefixes ob)"
  proof (cases "?n = 0")
    case True
    then have "d' = d\<lparr>dr_engines := set_entry e (ob\<lparr>ob_prefixes := ob_prefixes ob\<rparr>) (dr_engines d)\<rparr>"
      using run assms(1-3) by (simp add: directory_best_prefix_def bind_sum_def Let_def)
    then show ?thesis using that by blast
  next
    case False
    then have "d' = d\<lparr>dr_engines := set_entry e (ob\<lparr>ob_prefixes := move_to_end (take (nat ?n) tokens) (ob_prefixes ob)\<rparr>) (dr_engines d)\<rparr>"
      using run assms(1-3) by (simp add: directory_best_prefix_def bind_sum_def Let_def)
    then show ?thesis using that move_to_end_facts(1) [OF best_prefix_stored [OF False]] by blast
  qed
  have "map_of (dr_engines d') e = Some (ob\<lparr>ob_prefixes := qs\<rparr>)"
    by (auto simp: d' set_entry_def map_add_def map_of_eq_None_iff split: option.splits dest!: map_of_SomeD)
  moreover have "\<forall>p \<in> set (ob_prefixes ob). fits p \<longrightarrow> int (length p) \<le> ?n"
    using longest_prefix_spec [of 0 tokens "int (length tokens) - (if b then 1 else 0)" "ob_prefixes ob"]
    by (auto simp: fits best_reusable_prefix_def)
  moreover have "?n = 0 \<or> (\<exists>p \<in> set (ob_prefixes ob). fits p \<and> ?n = int (length p))"
    using longest_prefix_spec [of 0 tokens "int (length tokens) - (if b then 1 else 0)" "ob_prefixes ob"]
    by (auto simp: fits best_reusable_prefix_def)
  ultimately show ?thesis using run res qs by auto
qed

lemma map_of_last_entries:
  assumes "1 \<le> n"
  shows "map_of (last_entries n (set_entry k v es)) k = Some v"
proof -
  let ?fs = "filter (\<lambda>e. fst e \<noteq> k) es"
  obtain gs where gs: "last_entries n (?fs @ [(k, v)]) = gs @ [(k, v)]" "set gs \<subseteq> set ?fs"
  proof
    show "last_entries n (?fs @ [(k, v)]) = drop (Suc (length ?fs) - nat n) ?fs @ [(k, v)]"
      using assms by (simp add: last_entries_def Suc_diff_le nat_le_iff)
    show "set (drop (Suc (length ?fs) - nat n) ?fs) \<subseteq> set ?fs" by (rule set_drop_subset)
  qed
  then have "map_of gs k = None" by (auto simp: map_of_eq_None_iff)
  then show ?thesis using gs(1) by (simp add: set_entry_def map_add_def)
qed

text \<open>
  An update is authoritative for the path it inspected: it returns the validated
  boundaries, and afterwards every prefix stored for the engine that lies on the inspected
  tokens is one of them.
\<close>

theorem update_is_authoritative:
  assumes "directory_ok d" and "update_directory e ts r d = (Inr confirmed, d')"
  shows "validated_snapshots ts r = Inr confirmed \<and>
    (\<exists>tokens ob. tokens_of ts = Inr tokens \<and> map_of (dr_engines d') e = Some ob \<and>
      (\<forall>p \<in> set (ob_prefixes ob). length p \<le> length tokens \<and> take (length p) tokens = p \<longrightarrow> p \<in> set confirmed))"
  using assms
proof (cases rule: update_cases)
  case (stored confirmed' tokens capacity ps count)
  let ?ob = "\<lparr>ob_prefixes = ps, ob_capacity = capacity, ob_token_count = count\<rparr>"
  have c: "confirmed' = confirmed" using stored(1) by simp
  have "validated_snapshots ts r = Inr confirmed" using stored(3) c by (simp add: validated_snapshots_def bind_sum_def)
  moreover have "tokens_of ts = Inr tokens"
    using stored(3) by (auto simp: parse_inspection_def parse_fields_def elim!: bind_sum_InrE split: json.splits option.splits if_splits)
  moreover have "map_of (dr_engines d') e = Some ?ob"
    using assms(1) stored(4) by (simp add: directory_ok_def map_of_last_entries)
  moreover have "\<forall>p \<in> set ps. length p \<le> length tokens \<and> take (length p) tokens = p \<longrightarrow> p \<in> set confirmed"
    using stored(6) c by (auto simp: stale_prefix_def)
  ultimately show ?thesis by auto
qed simp

section \<open>Witnesses\<close>

definition demo_tokens :: json where
  "demo_tokens = JArr [JInt 1, JInt 2, JInt 3]"

definition demo_inspection :: json where
  "demo_inspection = JObj [(''query_tokens'', JInt 3), (''matched_tokens'', JInt 2),
     (''snapshot_boundaries'', JArr [JInt 2]), (''available_token_slots'', JInt 9), (''evictable_token_slots'', JInt 0),
     (''available_snapshot_slots'', JInt 1), (''evictable_snapshot_slots'', JInt 0)]"

definition demo_directory :: snapshot_directory where
  "demo_directory = \<lparr>dr_max_snapshots = 1, dr_max_tokens = 10, dr_max_engines = 1, dr_engines = []\<rparr>"

lemma demo_new: "new_snapshot_directory (JInt 1) (JInt 10) (JInt 1) = Inr demo_directory"
  by (simp add: new_snapshot_directory_def bind_sum_def nonnegative_int_def demo_directory_def)

definition demo_updated :: snapshot_directory where
  "demo_updated = fold run_op [Update (JInt 0) demo_tokens demo_inspection] demo_directory"

theorem directory_stays_bounded_witness: "int (length (dr_engines demo_updated)) \<le> dr_max_engines demo_updated"
  using directory_stays_bounded [OF demo_new demo_updated_def] by simp

theorem stored_prefixes_were_confirmed_witness:
  "confirms (Update (JInt 0) demo_tokens demo_inspection) (JInt 0) [1, 2]"
proof -
  obtain ob where "map_of (dr_engines demo_updated) (JInt 0) = Some ob" "[1, 2] \<in> set (ob_prefixes ob)"
  proof
    show "map_of (dr_engines demo_updated) (JInt 0) = Some (snd (hd (dr_engines demo_updated)))" by code_simp
    show "[1, 2] \<in> set (ob_prefixes (snd (hd (dr_engines demo_updated))))" by code_simp
  qed
  then show ?thesis
    using stored_prefixes_were_confirmed [OF demo_new, of "JInt 0" ob "[Update (JInt 0) demo_tokens demo_inspection]" "[1, 2]"]
    by (auto simp: demo_updated_def dest: map_of_SomeD)
qed

lemma demo_validated: "validated_snapshots demo_tokens demo_inspection = Inr [[1, 2]]"
  by code_simp

theorem validated_snapshots_are_prefixes_witness:
  "\<exists>tokens. tokens_of demo_tokens = Inr tokens \<and> take 2 tokens = [1, 2]"
  using validated_snapshots_are_prefixes [OF demo_validated] by (auto simp: numeral_2_eq_2)

theorem best_prefix_is_longest_witness:
  "\<exists>n d'. directory_best_prefix (JInt 0) demo_tokens True demo_updated = (Inr n, d') \<and> 2 \<le> n"
proof -
  let ?ob = "snd (hd (dr_engines demo_updated))"
  have "map_of (dr_engines demo_updated) (JInt 0) = Some ?ob" "engine_key (JInt 0) = Inr (JInt 0)"
    "tokens_of demo_tokens = Inr [1, 2, 3]" "ob_prefixes ?ob = [[1, 2]]" by code_simp+
  from best_prefix_is_longest [OF this(1-3) refl, where b = True] this(4) show ?thesis by auto
qed

theorem update_is_authoritative_witness:
  "validated_snapshots demo_tokens demo_inspection = Inr [[1, 2]]"
proof -
  have "fst (update_directory (JInt 0) demo_tokens demo_inspection demo_directory) = Inr [[1, 2]]" by code_simp
  then have "update_directory (JInt 0) demo_tokens demo_inspection demo_directory =
      (Inr [[1, 2]], snd (update_directory (JInt 0) demo_tokens demo_inspection demo_directory))"
    by (simp add: prod_eq_iff)
  from update_is_authoritative [OF new_directory_ok [OF demo_new] this] show ?thesis by simp
qed

end
