(* ===== verification/DualMapReplica.thy ===== *)
theory DualMapReplica
  imports SnapshotDirectory "HOL-Library.AList"
begin

text \<open>
  \<open>HybridReplica\<close> of \<open>experiments/fluidkv/dualmap_adapter.py\<close>: the snapshots a replica is
  thought to hold, least recently used first, with an index by length that replaces a scan
  over them, and the adapter's operations that fill them from the snapshot directory. The
  index is proved to hold the snapshots exactly, so that the estimate of tokens to recompute
  is the one the scan gives, and the replicas to agree with the directory.
\<close>

type_synonym length_index = "(nat \<times> int list list) list"

record hybrid_replica =
  hp_snapshots :: "int list list"
  hp_index :: length_index

definition new_replica :: hybrid_replica where
  "new_replica = \<lparr>hp_snapshots = [], hp_index = []\<rparr>"

text \<open>The group of a length, empty when it has no entry; \<open>index.setdefault(len(key), set()).add(key)\<close>.\<close>

definition group_of :: "length_index \<Rightarrow> nat \<Rightarrow> int list list" where
  "group_of ix n = (case map_of ix n of None \<Rightarrow> [] | Some g \<Rightarrow> g)"

definition index_add :: "int list \<Rightarrow> length_index \<Rightarrow> length_index" where
  "index_add key ix = AList.update (length key) (List.insert key (group_of ix (length key))) ix"

definition index_remove :: "int list \<Rightarrow> length_index \<Rightarrow> exn + length_index" where
  "index_remove key ix = (case map_of ix (length key) of
     None \<Rightarrow> Inl (KeyError (str_nat (length key)))
   | Some g \<Rightarrow>
       if key \<notin> set g then Inl (KeyError ''snapshot'')
       else Inr (if remove1 key g = [] then AList.delete (length key) ix
                 else AList.update (length key) (remove1 key g) ix))"

definition rebuild_index :: "int list list \<Rightarrow> length_index" where
  "rebuild_index snapshots = fold index_add snapshots []"

text \<open>The eviction loop of \<open>remember\<close>; an empty \<open>OrderedDict\<close> has no item to pop.\<close>

fun trim_snapshots :: "int \<Rightarrow> int list list \<Rightarrow> length_index \<Rightarrow> (exn + unit) \<times> hybrid_replica" where
  "trim_snapshots slots [] ix =
     (if slots < 0 then Inl (KeyError ''dictionary is empty'') else Inr (),
      \<lparr>hp_snapshots = [], hp_index = ix\<rparr>)"
| "trim_snapshots slots (p # ps) ix =
     (if slots < int (length (p # ps))
      then case index_remove p ix of
             Inl e \<Rightarrow> (Inl e, \<lparr>hp_snapshots = ps, hp_index = ix\<rparr>)
           | Inr ix' \<Rightarrow> trim_snapshots slots ps ix'
      else (Inr (), \<lparr>hp_snapshots = p # ps, hp_index = ix\<rparr>))"

definition remember :: "bool \<Rightarrow> int \<Rightarrow> int list \<Rightarrow> (hybrid_replica, unit) prog" where
  "remember inspect_snapshots slots ids r =
     (if inspect_snapshots \<or> ids = [] then (Inr (), r)
      else trim_snapshots slots (move_to_end ids (hp_snapshots r)) (index_add ids (hp_index r)))"

text \<open>Each boundary length is looked up once, longest first.\<close>

fun first_match :: "int list \<Rightarrow> length_index \<Rightarrow> nat list \<Rightarrow> nat" where
  "first_match ids ix [] = length ids"
| "first_match ids ix (n # ns) =
     (if n < length ids \<and> take n ids \<in> set (group_of ix n)
      then length ids - n else first_match ids ix ns)"

definition recompute_tokens :: "hybrid_replica \<Rightarrow> int list \<Rightarrow> nat" where
  "recompute_tokens r ids = first_match ids (hp_index r) (rev (sort (map fst (hp_index r))))"

section \<open>The adapter\<close>

record dualmap_state =
  da_directory :: "snapshot_directory option"
  da_replicas :: "hybrid_replica list"

definition show_snapshots :: "nat \<Rightarrow> int list list \<Rightarrow> dualmap_state \<Rightarrow> dualmap_state" where
  "show_snapshots e ps s = s\<lparr>da_replicas := (da_replicas s)[e := \<lparr>hp_snapshots = ps, hp_index = rebuild_index ps\<rparr>]\<rparr>"

definition observe_snapshot_response :: "nat \<Rightarrow> json \<Rightarrow> json \<Rightarrow> (dualmap_state, int list list) prog" where
  "observe_snapshot_response e token_ids response s = (case da_directory s of
     None \<Rightarrow> (Inl (RuntimeError ''actual snapshot inspection is not enabled''), s)
   | Some d \<Rightarrow>
       case update_directory (JInt (int e)) token_ids response d of
         (Inl x, d1) \<Rightarrow> (Inl x, s\<lparr>da_directory := Some d1\<rparr>)
       | (Inr confirmed, d1) \<Rightarrow>
           (case directory_prefixes (JInt (int e)) d1 of
              (Inl x, d2) \<Rightarrow> (Inl x, s\<lparr>da_directory := Some d2\<rparr>)
            | (Inr ps, d2) \<Rightarrow>
                if length (da_replicas s) \<le> e then (Inl (KeyError (str_nat e)), s\<lparr>da_directory := Some d2\<rparr>)
                else (Inr confirmed, show_snapshots e ps (s\<lparr>da_directory := Some d2\<rparr>))))"

definition invalidate_snapshot_engine :: "nat \<Rightarrow> (dualmap_state, unit) prog" where
  "invalidate_snapshot_engine e s = (case da_directory s of
     None \<Rightarrow> (Inr (), s)
   | Some d \<Rightarrow>
       case discard_engine (JInt (int e)) d of
         (Inl x, d1) \<Rightarrow> (Inl x, s\<lparr>da_directory := Some d1\<rparr>)
       | (Inr _, d1) \<Rightarrow>
           if length (da_replicas s) \<le> e then (Inl (KeyError (str_nat e)), s\<lparr>da_directory := Some d1\<rparr>)
           else (Inr (), show_snapshots e [] (s\<lparr>da_directory := Some d1\<rparr>)))"

text \<open>\<open>save_token_ids\<close> and \<open>save_prefill_token_ids\<close>, as far as the snapshots go.\<close>

definition save_token_ids :: "int \<Rightarrow> nat \<Rightarrow> int list \<Rightarrow> (dualmap_state, unit) prog" where
  "save_token_ids slots e ids s =
     (if length (da_replicas s) \<le> e then (Inl (KeyError (str_nat e)), s)
      else case remember (da_directory s \<noteq> None) slots ids (da_replicas s ! e) of
             (res, r) \<Rightarrow> (res, s\<lparr>da_replicas := (da_replicas s)[e := r]\<rparr>))"

section \<open>The index holds the snapshots\<close>

definition index_ok :: "int list set \<Rightarrow> length_index \<Rightarrow> bool" where
  "index_ok S ix \<longleftrightarrow> distinct (map fst ix) \<and>
     (\<forall>n. distinct (group_of ix n) \<and> set (group_of ix n) = {p \<in> S. length p = n})"

lemma group_of_update: "group_of (AList.update n g ix) m = (if m = n then g else group_of ix m)"
  by (simp add: group_of_def update_conv')

lemma group_of_delete: "group_of (AList.delete n ix) m = (if m = n then [] else group_of ix m)"
  by (simp add: group_of_def delete_conv')

lemma index_ok_empty: "index_ok {} []"
  by (simp add: index_ok_def group_of_def)

lemma index_ok_add: "index_ok S ix \<Longrightarrow> index_ok (insert key S) (index_add key ix)"
  by (auto simp: index_ok_def index_add_def group_of_update distinct_update)

lemma index_ok_remove:
  assumes "index_ok S ix" and "key \<in> S"
  obtains ix' where "index_remove key ix = Inr ix'" "index_ok (S - {key}) ix'"
proof -
  have g: "set (group_of ix (length key)) = {p \<in> S. length p = length key}" "distinct (group_of ix (length key))"
    and d: "distinct (map fst ix)" using assms(1) by (auto simp: index_ok_def)
  then have mem: "key \<in> set (group_of ix (length key))" using assms(2) by simp
  then obtain grp where m: "map_of ix (length key) = Some grp" by (cases "map_of ix (length key)") (auto simp: group_of_def)
  then have grp: "group_of ix (length key) = grp" by (simp add: group_of_def)
  let ?ix = "if remove1 key grp = [] then AList.delete (length key) ix else AList.update (length key) (remove1 key grp) ix"
  have "group_of ?ix n = (if n = length key then remove1 key grp else group_of ix n)" for n
    by (auto simp: group_of_update group_of_delete)
  moreover have "distinct (map fst ?ix)" using d by (simp add: distinct_update distinct_delete)
  ultimately have "index_ok (S - {key}) ?ix"
    using assms(1) g unfolding grp by (auto simp: index_ok_def)
  moreover have "index_remove key ix = Inr ?ix" using m mem grp by (simp add: index_remove_def)
  ultimately show ?thesis using that by blast
qed

lemma index_ok_rebuild: "index_ok (set ps) (rebuild_index ps)"
proof -
  have "index_ok S ix \<Longrightarrow> index_ok (S \<union> set ps) (fold index_add ps ix)" for S ix
  proof (induction ps arbitrary: S ix)
    case (Cons p ps)
    from Cons.IH [OF index_ok_add [OF Cons.prems, of p]] show ?case by simp
  qed simp
  from this [OF index_ok_empty] show ?thesis by (simp add: rebuild_index_def)
qed

text \<open>A replica whose index is that of its snapshots, which are no more than it may hold.\<close>

definition replica_ok :: "hybrid_replica \<Rightarrow> bool" where
  "replica_ok r \<longleftrightarrow> distinct (hp_snapshots r) \<and> index_ok (set (hp_snapshots r)) (hp_index r)"

lemma trim_snapshots_ok:
  "distinct ps \<Longrightarrow> index_ok (set ps) ix \<Longrightarrow> 0 \<le> slots \<Longrightarrow>
    \<exists>r. trim_snapshots slots ps ix = (Inr (), r) \<and> replica_ok r \<and> hp_snapshots r = newest (nat slots) ps"
proof (induction ps arbitrary: ix)
  case Nil
  then show ?case by (simp add: replica_ok_def newest_def)
next
  case (Cons p ps)
  show ?case
  proof (cases "slots < int (length (p # ps))")
    case True
    obtain ix' where ix': "index_remove p ix = Inr ix'" "index_ok (set (p # ps) - {p}) ix'"
      using index_ok_remove [OF Cons.prems(2), of p] by auto
    moreover have "set (p # ps) - {p} = set ps" using Cons.prems(1) by auto
    moreover have "newest (nat slots) (p # ps) = newest (nat slots) ps"
      using True Cons.prems(3) by (simp add: newest_def Suc_diff_le nat_le_iff)
    ultimately show ?thesis using Cons.IH [of ix'] Cons.prems True by simp
  next
    case False
    then have "newest (nat slots) (p # ps) = p # ps" by (simp add: newest_def le_nat_iff)
    then show ?thesis using False Cons.prems by (simp add: replica_ok_def)
  qed
qed

text \<open>\<open>remember\<close> does not raise, and keeps the most recently used snapshots.\<close>

lemma remember_ok:
  assumes "replica_ok r" and "0 \<le> slots" and "ids \<noteq> []"
  shows "\<exists>r'. remember False slots ids r = (Inr (), r') \<and> replica_ok r' \<and>
    hp_snapshots r' = newest (nat slots) (move_to_end ids (hp_snapshots r))"
proof -
  have "index_ok (set (move_to_end ids (hp_snapshots r))) (index_add ids (hp_index r))"
    using assms(1) by (simp add: replica_ok_def set_move_to_end index_ok_add)
  moreover have "distinct (move_to_end ids (hp_snapshots r))" using assms(1) by (simp add: replica_ok_def distinct_move_to_end)
  ultimately show ?thesis using trim_snapshots_ok assms(2,3) by (simp add: remember_def)
qed

section \<open>The estimate\<close>

lemma first_match_spec:
  assumes "sorted_wrt (>) ns"
  shows "first_match ids ix ns = length ids - Max (insert 0 {n \<in> set ns. n < length ids \<and> take n ids \<in> set (group_of ix n)})"
  using assms
proof (induction ns)
  case (Cons n ns)
  let ?P = "\<lambda>n. n < length ids \<and> take n ids \<in> set (group_of ix n)"
  show ?case
  proof (cases "?P n")
    case True
    have "Max (insert 0 {m \<in> set (n # ns). ?P m}) = n"
      using True Cons.prems by (intro Max_eqI) auto
    with True show ?thesis by (simp only: first_match.simps simp_thms if_True)
  next
    case False
    then have "{m \<in> set (n # ns). ?P m} = {m \<in> set ns. ?P m}" by auto
    moreover have "first_match ids ix (n # ns) = first_match ids ix ns" using False by auto
    moreover have "sorted_wrt (>) ns" using Cons.prems by simp
    ultimately show ?thesis using Cons.IH by simp
  qed
qed simp

text \<open>The scan that the index replaces is the directory's own.\<close>

lemma scan_is_max:
  "best_reusable_prefix ids ps True =
     int (Max (insert 0 {length p |p. p \<in> set ps \<and> length p < length ids \<and> take (length p) ids = p}))"
    (is "_ = int (Max (insert 0 ?L))")
proof -
  let ?b = "best_reusable_prefix ids ps True"
  have fin: "finite (insert 0 ?L)" by (rule finite_subset [of _ "insert 0 {..<length ids}"]) auto
  note spec = longest_prefix_spec [of 0 ids "int (length ids) - 1" ps, simplified]
  have b: "?b = longest_prefix ids (int (length ids) - 1) 0 ps" by (simp add: best_reusable_prefix_def)
  have "Max (insert 0 ?L) = nat ?b"
  proof (rule Max_eqI [OF fin])
    fix n assume "n \<in> insert 0 ?L"
    then show "n \<le> nat ?b" using spec unfolding b by force
  next
    show "nat ?b \<in> insert 0 ?L" using spec unfolding b by force
  qed
  moreover have "0 \<le> ?b" using spec unfolding b by simp
  ultimately show ?thesis by simp
qed

lemma recompute_is_scan:
  assumes "replica_ok r"
  shows "int (recompute_tokens r ids) = int (length ids) - best_reusable_prefix ids (hp_snapshots r) True"
proof -
  let ?ix = "hp_index r" and ?ps = "hp_snapshots r"
  have ok: "distinct (map fst ?ix)" "\<And>n. set (group_of ?ix n) = {p \<in> set ?ps. length p = n}"
    using assms by (auto simp: replica_ok_def index_ok_def)
  have "sorted_wrt (<) (sort (map fst ?ix))" using ok(1) by (simp add: strict_sorted_iff)
  then have desc: "sorted_wrt (>) (rev (sort (map fst ?ix)))" by (simp add: sorted_wrt_rev)
  have eq: "{n \<in> set (rev (sort (map fst ?ix))). n < length ids \<and> take n ids \<in> set (group_of ?ix n)} =
      {length p |p. p \<in> set ?ps \<and> length p < length ids \<and> take (length p) ids = p}" (is "?A = ?L")
  proof (rule set_eqI)
    fix n
    have "n \<in> fst ` set ?ix" if "take n ids \<in> set (group_of ?ix n)"
      using that by (cases "map_of ?ix n") (auto simp: group_of_def dest: map_of_SomeD intro: rev_image_eqI)
    then have "n \<in> ?A \<longleftrightarrow> n < length ids \<and> take n ids \<in> set (group_of ?ix n)" by auto
    also have "\<dots> \<longleftrightarrow> n \<in> ?L" unfolding ok(2) by (auto, metis length_take min.absorb4)
    finally show "n \<in> ?A \<longleftrightarrow> n \<in> ?L" .
  qed
  have r: "recompute_tokens r ids = length ids - Max (insert 0 ?L)"
    unfolding recompute_tokens_def eq [symmetric] by (rule first_match_spec [OF desc])
  have fin: "finite (insert 0 ?L)" by (rule finite_subset [of _ "insert 0 {..<length ids}"]) auto
  have "Max (insert 0 ?L) \<le> length ids" using Max_in [OF fin] by auto
  then show ?thesis unfolding r scan_is_max by simp
qed

section \<open>Runs\<close>

text \<open>A replica without inspection, told the token lists of the requests it served.\<close>

fun remember_all :: "int \<Rightarrow> int list list \<Rightarrow> (hybrid_replica, unit) prog" where
  "remember_all slots [] r = (Inr (), r)"
| "remember_all slots (ids # hs) r = (case remember False slots ids r of
     (Inl e, r') \<Rightarrow> (Inl e, r') | (Inr _, r') \<Rightarrow> remember_all slots hs r')"

lemma newest_of_newest: "distinct xs \<Longrightarrow> newest n (move_to_end x (newest n xs)) = newest n (move_to_end x xs)"
proof -
  assume d: "distinct xs"
  show ?thesis
  proof (cases "x \<in> set (newest n xs)")
    case True
    then have "length (move_to_end x (newest n xs)) \<le> n"
      using length_newest [of n xs] length_pos_if_in_set [OF True]
      by (simp add: move_to_end_def length_remove1)
    then show ?thesis using newest_move_to_end [OF d] True by (simp add: newest_def)
  next
    case False
    then show ?thesis using newest_move_to_end [OF d] by (simp add: move_to_end_def remove1_idem)
  qed
qed

lemma remember_all_run:
  "replica_ok r \<Longrightarrow> hp_snapshots r = newest (nat slots) xs \<Longrightarrow> distinct xs \<Longrightarrow> 0 \<le> slots \<Longrightarrow>
    \<exists>r'. remember_all slots hs r = (Inr (), r') \<and> replica_ok r' \<and>
      hp_snapshots r' = newest (nat slots) (fold move_to_end (filter (\<lambda>h. h \<noteq> []) hs) xs)"
proof (induction hs arbitrary: r xs)
  case (Cons h hs)
  show ?case
  proof (cases "h = []")
    case True
    then show ?thesis using Cons by (simp add: remember_def)
  next
    case False
    obtain r' where r': "remember False slots h r = (Inr (), r')" "replica_ok r'"
      "hp_snapshots r' = newest (nat slots) (move_to_end h xs)"
      using remember_ok [OF Cons.prems(1,4) False] Cons.prems(2,3) by (auto simp: newest_of_newest)
    from Cons.IH [OF r'(2,3) distinct_move_to_end Cons.prems(4)] Cons.prems(3) r'(1) False
    show ?thesis by simp
  qed
qed auto

lemma replica_ok_new: "replica_ok new_replica"
  by (simp add: replica_ok_def new_replica_def index_ok_empty)

text \<open>
  C31. The replica's estimate of the tokens to recompute, found through the index by length,
  is the one a scan of the snapshots gives: whatever token lists the replica was told,
  nothing is raised, and the estimate is the length of the input less the longest
  proper prefix of it among the last distinct nonempty lists, as many as there are slots.
\<close>

theorem replica_estimates_from_recent_snapshots:
  assumes "0 \<le> slots"
  shows "\<exists>r. remember_all slots hs new_replica = (Inr (), r) \<and>
    hp_snapshots r = newest (nat slots) (remdups (filter (\<lambda>h. h \<noteq> []) hs)) \<and>
    int (recompute_tokens r ids) = int (length ids) - best_reusable_prefix ids (hp_snapshots r) True"
proof -
  have "hp_snapshots new_replica = newest (nat slots) []" by (simp add: new_replica_def newest_def)
  from remember_all_run [OF replica_ok_new this _ assms, of hs] recompute_is_scan
  show ?thesis by (auto simp: fold_move_to_end)
qed

theorem replica_estimates_from_recent_snapshots_witness:
  "\<exists>r. remember_all 1 [[5, 6], [5]] new_replica = (Inr (), r) \<and> hp_snapshots r = [[5]]"
  using replica_estimates_from_recent_snapshots [of 1 "[[5, 6], [5]]" "[5, 6]"] by (auto simp: newest_def)

section \<open>The adapter shows what the directory holds\<close>

datatype dualmap_op =
    SaveTokens nat "int list"
  | ObserveResponse nat json json
  | InvalidateEngine nat

fun op_engine :: "dualmap_op \<Rightarrow> nat" where
  "op_engine (SaveTokens e _) = e"
| "op_engine (ObserveResponse e _ _) = e"
| "op_engine (InvalidateEngine e) = e"

fun run_dualmap :: "int \<Rightarrow> dualmap_op \<Rightarrow> dualmap_state \<Rightarrow> dualmap_state" where
  "run_dualmap slots (SaveTokens e ids) s = snd (save_token_ids slots e ids s)"
| "run_dualmap slots (ObserveResponse e ts r) s = snd (observe_snapshot_response e ts r s)"
| "run_dualmap slots (InvalidateEngine e) s = snd (invalidate_snapshot_engine e s)"

definition held_prefixes :: "snapshot_directory \<Rightarrow> nat \<Rightarrow> int list list" where
  "held_prefixes d e = (case map_of (dr_engines d) (JInt (int e)) of None \<Rightarrow> [] | Some ob \<Rightarrow> ob_prefixes ob)"

definition engines_within :: "nat \<Rightarrow> snapshot_directory \<Rightarrow> bool" where
  "engines_within n d \<longleftrightarrow> directory_ok d \<and> int n \<le> dr_max_engines d \<and>
     fst ` set (dr_engines d) \<subseteq> (\<lambda>e. JInt (int e)) ` {..<n}"

definition replicas_agree :: "nat \<Rightarrow> dualmap_state \<Rightarrow> snapshot_directory \<Rightarrow> bool" where
  "replicas_agree n s d \<longleftrightarrow> da_directory s = Some d \<and> engines_within n d \<and> length (da_replicas s) = n \<and>
     (\<forall>e < n. replica_ok (da_replicas s ! e) \<and> hp_snapshots (da_replicas s ! e) = held_prefixes d e)"

lemma directory_prefixes_held: "directory_prefixes (JInt (int e)) d = (Inr (held_prefixes d e), d)"
  by (simp add: directory_prefixes_def engine_key_def held_prefixes_def split: option.split)

lemma held_prefixes_distinct: "directory_ok d \<Longrightarrow> distinct (held_prefixes d e)"
  by (auto simp: held_prefixes_def directory_ok_def prefixes_ok_def split: option.splits dest!: map_of_SomeD)

text \<open>With no more engines than the directory has room for, a stored entry evicts none.\<close>

lemma store_evicts_none:
  assumes "engines_within n d" and "e < n"
  shows "last_entries (dr_max_engines d) (set_entry (JInt (int e)) ob (dr_engines d)) =
    set_entry (JInt (int e)) ob (dr_engines d)"
proof -
  let ?es = "set_entry (JInt (int e)) ob (dr_engines d)" and ?K = "(\<lambda>e. JInt (int e)) ` {..<n}"
  have "distinct (map fst ?es)" using assms(1) by (auto simp: engines_within_def directory_ok_def intro: keys_set_entry)
  then have "length ?es = card (fst ` set ?es)" using distinct_card [of "map fst ?es"] by simp
  also have "fst ` set ?es \<subseteq> ?K" using assms by (auto simp: engines_within_def set_entry_def)
  then have "card (fst ` set ?es) \<le> card ?K" by (intro card_mono) auto
  also have "card ?K \<le> n" using card_image_le [of "{..<n}" "\<lambda>e. JInt (int e)"] by simp
  finally have "int (length ?es) \<le> dr_max_engines d" using assms(1) by (simp add: engines_within_def)
  then show ?thesis by (simp add: last_entries_def nat_le_iff)
qed

lemma map_of_set_entry: "map_of (set_entry k v es) j = (if j = k then Some v else map_of es j)"
  by (induction es) (auto simp: set_entry_def map_add_def split: option.splits)

lemma map_of_discard: "map_of (filter (\<lambda>x. fst x \<noteq> k) es) j = (if j = k then None else map_of es j)"
  by (induction es) auto

text \<open>A replica that is shown the directory's prefixes agrees with it again.\<close>

lemma show_agrees:
  assumes "replicas_agree n s d" and "engines_within n d'" and "e < n" and "ps = held_prefixes d' e"
    and "\<And>f. f \<noteq> e \<Longrightarrow> held_prefixes d' f = held_prefixes d f"
  shows "replicas_agree n (show_snapshots e ps (s\<lparr>da_directory := Some d'\<rparr>)) d'"
proof -
  have "directory_ok d'" using assms(2) by (simp add: engines_within_def)
  then have "replica_ok \<lparr>hp_snapshots = ps, hp_index = rebuild_index ps\<rparr>"
    by (simp add: replica_ok_def assms(4) held_prefixes_distinct index_ok_rebuild)
  then show ?thesis using assms by (auto simp: replicas_agree_def show_snapshots_def nth_list_update)
qed

lemma update_agrees:
  assumes "engines_within n d" and "e < n" and "update_directory (JInt (int e)) ts r d = (Inr confirmed, d')"
  shows "engines_within n d' \<and> (\<forall>f. f \<noteq> e \<longrightarrow> held_prefixes d' f = held_prefixes d f)"
proof -
  have ok: "directory_ok d" using assms(1) by (simp add: engines_within_def)
  from ok assms(3) show ?thesis
  proof (cases rule: update_cases)
    case (stored confirmed' tokens capacity ps count)
    let ?ob = "\<lparr>ob_prefixes = ps, ob_capacity = capacity, ob_token_count = count\<rparr>"
    have d': "d' = d\<lparr>dr_engines := set_entry (JInt (int e)) ?ob (dr_engines d)\<rparr>"
      using stored(4) store_evicts_none [OF assms(1,2)] by simp
    have "directory_ok d'" unfolding stored(4) by (rule directory_ok_store [OF ok]) (simp add: stored(5))
    then have "engines_within n d'" using assms(1,2) d' by (auto simp: engines_within_def set_entry_def)
    then show ?thesis using d' by (simp add: held_prefixes_def map_of_set_entry)
  qed simp
qed

lemma discard_agrees:
  assumes "engines_within n d"
  shows "\<exists>d'. discard_engine (JInt (int e)) d = (Inr (), d') \<and> engines_within n d' \<and>
    held_prefixes d' e = [] \<and> (\<forall>f. f \<noteq> e \<longrightarrow> held_prefixes d' f = held_prefixes d f)"
proof -
  let ?d = "d\<lparr>dr_engines := filter (\<lambda>x. fst x \<noteq> JInt (int e)) (dr_engines d)\<rparr>"
  have run: "discard_engine (JInt (int e)) d = (Inr (), ?d)" by (simp add: discard_engine_def engine_key_def)
  have "directory_ok ?d" using run_op_ok [of d "DiscardEngine (JInt (int e))"] assms run by (simp add: engines_within_def)
  then have "engines_within n ?d" using assms by (auto simp: engines_within_def)
  then show ?thesis using run by (auto simp: held_prefixes_def map_of_discard)
qed

lemma run_dualmap_agrees:
  assumes "replicas_agree n s d" and "op_engine c < n"
  shows "\<exists>d'. replicas_agree n (run_dualmap slots c s) d'"
proof (cases c)
  case (SaveTokens e ids)
  then have "run_dualmap slots c s = s" using assms
    by (cases s) (auto simp: save_token_ids_def remember_def replicas_agree_def)
  then show ?thesis using assms(1) by auto
next
  case (ObserveResponse e ts r)
  have e: "e < n" using assms(2) ObserveResponse by simp
  have s: "da_directory s = Some d" "engines_within n d" "length (da_replicas s) = n"
    using assms(1) by (auto simp: replicas_agree_def)
  obtain res d' where run: "update_directory (JInt (int e)) ts r d = (res, d')"
    by (cases "update_directory (JInt (int e)) ts r d")
  show ?thesis
  proof (cases res)
    case (Inl x)
    have "directory_ok d" using s(2) by (simp add: engines_within_def)
    from this run have "d' = d" by (cases rule: update_cases) (simp_all add: Inl)
    then have "run_dualmap slots c s = s"
      using run s ObserveResponse Inl by (cases s) (simp add: observe_snapshot_response_def)
    then show ?thesis using assms(1) by auto
  next
    case (Inr confirmed)
    note u = update_agrees [OF s(2) e run [unfolded Inr]]
    have "run_dualmap slots c s = show_snapshots e (held_prefixes d' e) (s\<lparr>da_directory := Some d'\<rparr>)"
      using run s e ObserveResponse Inr by (simp add: observe_snapshot_response_def directory_prefixes_held)
    then show ?thesis using show_agrees [OF assms(1) conjunct1 [OF u] e refl] u by auto
  qed
next
  case (InvalidateEngine e)
  have e: "e < n" using assms(2) InvalidateEngine by simp
  have s: "da_directory s = Some d" "engines_within n d" "length (da_replicas s) = n"
    using assms(1) by (auto simp: replicas_agree_def)
  obtain d' where d': "discard_engine (JInt (int e)) d = (Inr (), d')" "engines_within n d'"
    "held_prefixes d' e = []" "\<forall>f. f \<noteq> e \<longrightarrow> held_prefixes d' f = held_prefixes d f"
    using discard_agrees [OF s(2)] by blast
  have "run_dualmap slots c s = show_snapshots e [] (s\<lparr>da_directory := Some d'\<rparr>)"
    using d'(1) s e InvalidateEngine by (simp add: invalidate_snapshot_engine_def)
  then show ?thesis using show_agrees [OF assms(1) d'(2) e d'(3) [symmetric]] d'(4) by auto
qed

definition new_dualmap :: "nat \<Rightarrow> snapshot_directory option \<Rightarrow> dualmap_state" where
  "new_dualmap n d = \<lparr>da_directory = d, da_replicas = replicate n new_replica\<rparr>"

lemma new_dualmap_agrees:
  assumes "new_snapshot_directory a b c = Inr d" and "int n \<le> dr_max_engines d"
  shows "replicas_agree n (new_dualmap n (Some d)) d"
proof -
  have "dr_engines d = []" using assms(1)
    by (auto simp: new_snapshot_directory_def bind_sum_def Let_def split: sum.splits if_splits)
  then have "engines_within n d" "\<And>e. held_prefixes d e = []"
    using new_directory_ok [OF assms(1)] assms(2) by (auto simp: engines_within_def held_prefixes_def)
  then show ?thesis by (auto simp: replicas_agree_def new_dualmap_def replica_ok_new) (simp add: new_replica_def)
qed

lemma runs_agree:
  assumes "replicas_agree n s d" and "\<forall>c \<in> set ops. op_engine c < n"
  shows "\<exists>d'. replicas_agree n (fold (run_dualmap slots) ops s) d'"
  using assms
proof (induction ops arbitrary: s d)
  case (Cons c ops)
  obtain d1 where "replicas_agree n (run_dualmap slots c s) d1" using run_dualmap_agrees [OF Cons.prems(1), of c slots] Cons.prems(2) by auto
  from Cons.IH [OF this] Cons.prems(2) show ?case by simp
qed auto

text \<open>
  C32. With inspection enabled, the replicas follow the snapshot directory: after any
  sequence of inspection responses, valid or not, invalidations and served requests, every
  replica holds exactly the prefixes the directory holds for its engine, and estimates the
  tokens to recompute from them, provided the directory has room for every engine.
\<close>

theorem replicas_follow_directory:
  assumes "new_snapshot_directory a b c = Inr d0" and "int n \<le> dr_max_engines d0"
    and "\<forall>op \<in> set ops. op_engine op < n" and "e < n"
    and "s = fold (run_dualmap slots) ops (new_dualmap n (Some d0))"
  shows "\<exists>d. da_directory s = Some d \<and>
    fst (directory_prefixes (JInt (int e)) d) = Inr (hp_snapshots (da_replicas s ! e)) \<and>
    int (recompute_tokens (da_replicas s ! e) ids) =
      int (length ids) - best_reusable_prefix ids (hp_snapshots (da_replicas s ! e)) True"
proof -
  obtain d where d: "replicas_agree n s d"
    using runs_agree [OF new_dualmap_agrees [OF assms(1,2)] assms(3)] assms(5) by auto
  then have "replica_ok (da_replicas s ! e)" "hp_snapshots (da_replicas s ! e) = held_prefixes d e" "da_directory s = Some d"
    using assms(4) by (auto simp: replicas_agree_def)
  then show ?thesis by (simp add: directory_prefixes_held recompute_is_scan)
qed

definition demo_followed :: dualmap_state where
  "demo_followed = fold (run_dualmap 1) [ObserveResponse 0 demo_tokens demo_inspection, SaveTokens 0 [7]]
     (new_dualmap 1 (Some demo_directory))"

theorem replicas_follow_directory_witness:
  "int (recompute_tokens (da_replicas demo_followed ! 0) [1, 2, 3]) =
    3 - best_reusable_prefix [1, 2, 3] (hp_snapshots (da_replicas demo_followed ! 0)) True \<and>
   hp_snapshots (da_replicas demo_followed ! 0) = [[1, 2]]"
proof
  have room: "int 1 \<le> dr_max_engines demo_directory" by (simp add: demo_directory_def)
  show "int (recompute_tokens (da_replicas demo_followed ! 0) [1, 2, 3]) =
    3 - best_reusable_prefix [1, 2, 3] (hp_snapshots (da_replicas demo_followed ! 0)) True"
    using replicas_follow_directory [OF demo_new room, of "[ObserveResponse 0 demo_tokens demo_inspection, SaveTokens 0 [7]]"
        0 demo_followed 1 "[1, 2, 3]"] demo_followed_def by auto
  show "hp_snapshots (da_replicas demo_followed ! 0) = [[1, 2]]" by code_simp
qed

end
