(* ===== verification/Retirement.thy ===== *)
theory Retirement
  imports HybridProps Materialization DualMapReplica
begin

text \<open>
  \<open>experiments/fluidkv/retirement_materializer.py\<close>: when an engine is retired, the completed
  request states it holds are prepared on other engines, by a copy of the state or by
  reconstruction from the tokens, as the planner chooses. The materializer puts together
  the ownership store, the hybrid coordinator, the planner and the DualMap adapter.
\<close>

section \<open>State and environment\<close>

record preparation =
  pr_chat_id :: string
  pr_source :: nat
  pr_target :: nat
  pr_method :: materialization_method
  pr_input_tokens :: int
  pr_queue_seconds :: seconds
  pr_since_retirement_seconds :: seconds
  pr_remaining_drain_budget_seconds :: seconds
  pr_success :: bool
  pr_transfer_bytes :: int
  pr_reconstruction_tokens :: rat
  pr_requested_reconstruction_tokens :: "int option"
  pr_preparation_output_tokens :: "json option"
  pr_error :: "string option"
  pr_wall_seconds :: seconds
  pr_finished_since_retirement_seconds :: seconds

text \<open>\<open>rm_current\<close> is the local \<open>record\<close> of the preparation that holds the lock.\<close>

record retirement =
  rm_rt :: rt
  rm_completed :: "(string \<times> nat \<times> token list) list"
  rm_records :: "preparation list"
  rm_retired :: "nat option"
  rm_retired_at :: seconds
  rm_scheduled :: "(string \<times> seconds) list"
  rm_adapter :: dualmap_state
  rm_active :: "nat list"
  rm_current :: preparation

record retirement_config =
  rg_mode :: string
  rg_engines :: "string list"
  rg_drain_budget :: seconds
  rg_cache_tokens :: int
  rg_replay_tps :: rat
  rg_slots :: int
  rg_planner :: branch_state_planner
  rg_coordinator :: hybrid_coordinator
  rg_fuel :: nat

text \<open>
  What the replicas' queues hold, what an engine streams, which completions other tasks
  observed while this one waited and what they told the adapter are functions of the history, like the environment of the
  coordinator. A stream's result is the dictionary the benchmark's \<open>stream\<close> returns.
\<close>

record retirement_env =
  rv_env :: env
  rv_load :: "event list \<Rightarrow> nat \<Rightarrow> int"
  rv_stream :: "event list \<Rightarrow> string \<Rightarrow> token list \<Rightarrow> exn + json"
  rv_observed :: "event list \<Rightarrow> (string \<times> nat \<times> token list) list"
  rv_saved :: "event list \<Rightarrow> dualmap_state \<Rightarrow> dualmap_state"

text \<open>The ports of a run: each mode and repetition has its own range of pairs.\<close>

definition mode_index :: "string \<Rightarrow> exn + int" where
  "mode_index mode =
     (if mode = ''dualmap-full-copy'' then Inr 0
      else if mode = ''fluidkv-planner-prototype'' then Inr 1 else Inl (KeyError (py_repr mode)))"

definition retirement_port :: "int \<Rightarrow> int \<Rightarrow> string \<Rightarrow> nat \<Rightarrow> exn + int" where
  "retirement_port transfer_port repetition mode engines = (case mode_index mode of
     Inl e \<Rightarrow> Inl e
   | Inr i \<Rightarrow> Inr (transfer_port + (2 * repetition + i) * (int (engines * (engines - 1)) div 2)))"

text \<open>
  The constructor: one client per engine, named by its index, and a planner for the measured
  bandwidth. \<open>initialize\<close> joins the engine to retire with every other.
\<close>

definition setup_retirement ::
  "int \<Rightarrow> int \<Rightarrow> rat \<Rightarrow> rat \<Rightarrow> retirement_config \<Rightarrow> exn + retirement_config" where
  "setup_retirement transfer_port repetition bandwidth_gib copy_fixed_ms G =
     bind_sum (retirement_port transfer_port repetition (rg_mode G) (length (rg_engines G))) (\<lambda>port.
     bind_sum (new_hybrid_coordinator (map str_nat [0..<length (rg_engines G)])) (\<lambda>C.
     bind_sum (new_branch_state_planner (bandwidth_gib * 1024 ^ 3) (copy_fixed_ms / 1000)) (\<lambda>p.
       Inr (G\<lparr>rg_planner := p, rg_coordinator := C\<lparr>hc_base_port := port\<rparr>\<rparr>))))"

definition initialize_retirement :: "retirement_config \<Rightarrow> env \<Rightarrow> int option \<Rightarrow> (rt, unit) prog" where
  "initialize_retirement G E retire_engine =
     (if retire_engine = Some (-1) then ret ()
      else let n = length (rg_engines G); source = (case retire_engine of Some i \<Rightarrow> i | None \<Rightarrow> int n - 1) in
        forP (\<lambda>target.
          whenP (int target \<noteq> source)
            (thenP (guardP (0 \<le> source \<and> source < int n) (KeyError (str_int source)))
              (bindP (hybrid_group (rg_coordinator G) E (str_int source) (str_nat target)) (\<lambda>_. ret ()))))
          [0..<n])"

section \<open>Completions and retirement\<close>

definition schedule_preparation :: "seconds \<Rightarrow> string \<Rightarrow> retirement \<Rightarrow> retirement" where
  "schedule_preparation now chat s = s\<lparr>rm_scheduled := rm_scheduled s @ [(chat, now)]\<rparr>"

definition observe_completion :: "seconds \<Rightarrow> string \<Rightarrow> nat \<Rightarrow> token list \<Rightarrow> retirement \<Rightarrow> retirement" where
  "observe_completion now chat source tokens s =
     (let s1 = s\<lparr>rm_completed := AList.update chat (source, tokens) (rm_completed s)\<rparr>
      in if Some source = rm_retired s then schedule_preparation now chat s1 else s1)"

text \<open>\<open>clock\<close> is what \<open>time.perf_counter()\<close> reads when a chat is scheduled.\<close>

definition retire_source :: "seconds \<Rightarrow> (string \<Rightarrow> seconds) \<Rightarrow> nat \<Rightarrow> retirement \<Rightarrow> retirement" where
  "retire_source now clock source s =
     fold (\<lambda>chat. schedule_preparation (clock chat) chat) (map fst (filter (\<lambda>c. fst (snd c) = source) (rm_completed s)))
       (s\<lparr>rm_retired := Some source, rm_retired_at := now\<rparr>)"

definition on_rt :: "(rt, 'a) prog \<Rightarrow> (retirement, 'a) prog" where
  "on_rt m s = (case m (rm_rt s) of (r, t) \<Rightarrow> (r, s\<lparr>rm_rt := t\<rparr>))"

definition on_adapter :: "(dualmap_state, 'a) prog \<Rightarrow> (retirement, 'a) prog" where
  "on_adapter m s = (case m (rm_adapter s) of (r, t) \<Rightarrow> (r, s\<lparr>rm_adapter := t\<rparr>))"

text \<open>While this task waits, the others observe completions.\<close>

definition observed_meanwhile :: "retirement_env \<Rightarrow> event list \<Rightarrow> retirement \<Rightarrow> retirement" where
  "observed_meanwhile R l s =
     fold (\<lambda>(chat, source, tokens). observe_completion (perf_counter (rv_env R) l) chat source tokens) (rv_observed R l)
       (s\<lparr>rm_adapter := rv_saved R l (rm_adapter s)\<rparr>)"

definition awaiting_rt :: "retirement_env \<Rightarrow> (rt, 'a) prog \<Rightarrow> (retirement, 'a) prog" where
  "awaiting_rt R m s = (case on_rt m s of (r, t) \<Rightarrow> (r, observed_meanwhile R (rt_log (rm_rt t)) t))"

section \<open>One preparation\<close>

definition set_current :: "(preparation \<Rightarrow> preparation) \<Rightarrow> (retirement, unit) prog" where
  "set_current f = modifyP (\<lambda>s. s\<lparr>rm_current := f (rm_current s)\<rparr>)"

definition stream_tokens :: "retirement_env \<Rightarrow> string \<Rightarrow> token list \<Rightarrow> (rt, json) prog" where
  "stream_tokens R url tokens s =
     (rv_stream R (rt_log s) url tokens, log_event AwaitedTokens (interfere (rv_env R) s))"

text \<open>\<open>==\<close> with an integer, and a number that is subtracted.\<close>

fun json_is_int :: "json \<Rightarrow> int \<Rightarrow> bool" where
  "json_is_int (JInt i) n = (i = n)"
| "json_is_int (JFloat r) n = (r = of_int n)"
| "json_is_int (JBool b) n = (n = (if b then 1 else 0))"
| "json_is_int _ n = False"

fun json_number :: "json \<Rightarrow> exn + rat" where
  "json_number (JInt i) = Inr (of_int i)"
| "json_number (JFloat r) = Inr r"
| "json_number (JBool b) = Inr (if b then 1 else 0)"
| "json_number _ = Inl (TypeError ''unsupported operand type(s) for -'')"

definition copy_branch ::
  "retirement_env \<Rightarrow> retirement_config \<Rightarrow> agent_id \<Rightarrow> nat \<Rightarrow> (retirement, unit) prog" where
  "copy_branch R G branch target =
     bindP (awaiting_rt R (hybrid_migrate_async (rg_coordinator G) (rv_env R) (rg_fuel G) branch (str_nat target)))
       (\<lambda>migration. set_current (pr_transfer_bytes_update (\<lambda>_. hr_bytes_transferred migration)))"

definition reconstruct_branch ::
  "retirement_env \<Rightarrow> retirement_config \<Rightarrow> string \<Rightarrow> agent_id \<Rightarrow> nat \<Rightarrow> nat \<Rightarrow> token list \<Rightarrow> (retirement, unit) prog" where
  "reconstruct_branch R G mid branch source target tokens =
     thenP (on_rt (db_start_migration (rv_env R)
              (new_migration_record mid branch (str_nat source) (str_nat target) 1 PREPARING)))
    (thenP (on_rt (db (rv_env R) (\<lambda>t. transition_migration t mid PREPARING COPYING no_fields)))
    (thenP (set_current (pr_requested_reconstruction_tokens_update (\<lambda>_. Some (int (length tokens)))))
    (thenP (guardP (target < length (rg_engines G)) (IndexError ''list index out of range''))
    (bindP (awaiting_rt R (stream_tokens R (rg_engines G ! target) tokens)) (\<lambda>result.
     bindP (liftS (jfield ''meta_info'' result)) (\<lambda>meta.
     bindP (liftS (jfield ''prompt_tokens'' meta)) (\<lambda>prompt.
     thenP (guardP (json_is_int prompt (int (length tokens))) (ValueError ''reconstruction length mismatch''))
    (bindP (liftS (bind_sum (jfield ''cached_tokens'' meta) json_number)) (\<lambda>cached.
     thenP (set_current (pr_reconstruction_tokens_update (\<lambda>_. of_nat (length tokens) - cached)))
    (bindP (liftS (jfield ''completion_tokens'' meta)) (\<lambda>output.
     thenP (set_current (pr_preparation_output_tokens_update (\<lambda>_. Some output)))
    (thenP (on_rt (db (rv_env R) (\<lambda>t. transition_migration t mid COPYING DEST_READY no_fields)))
    (bindP (on_rt (db_commit_migration (rv_env R) mid)) (\<lambda>_. ret ()))))))))))))))"

text \<open>After either method: the adapter learns of the tokens, and the owner is read back.\<close>

definition adopt_branch ::
  "retirement_env \<Rightarrow> retirement_config \<Rightarrow> string \<Rightarrow> agent_id \<Rightarrow> nat \<Rightarrow> token list \<Rightarrow> (retirement, unit) prog" where
  "adopt_branch R G chat branch target tokens =
     thenP (on_adapter (save_token_ids (rg_slots G) target tokens))
    (thenP (modifyP (\<lambda>s. s\<lparr>rm_completed := AList.update chat (target, tokens) (rm_completed s)\<rparr>))
    (bindP (on_rt (db (rv_env R) (\<lambda>_. get_agent branch))) (\<lambda>c.
       set_current (pr_success_update (\<lambda>_. ac_owner_engine c = str_nat target)))))"

definition record_error :: "exn \<Rightarrow> (retirement, unit) prog" where
  "record_error e = set_current (pr_error_update (\<lambda>_. Some (exn_str e)))"

text \<open>The handler of a reconstruction aborts a record that has not reached \<open>DEST_READY\<close>.\<close>

definition settle_reconstruction :: "retirement_env \<Rightarrow> string \<Rightarrow> exn \<Rightarrow> (retirement, unit) prog" where
  "settle_reconstruction R mid e =
     bindP (on_rt (db (rv_env R) (\<lambda>_. get_migration mid))) (\<lambda>m.
       whenP (mr_state m \<in> {PREPARING, COPYING})
         (on_rt (db (rv_env R) (\<lambda>t. transition_migration t mid (mr_state m) ABORTED
            (no_fields\<lparr>tf_error := Some (exn_str e)\<rparr>)))))"

definition run_preparation ::
  "retirement_env \<Rightarrow> retirement_config \<Rightarrow> string \<Rightarrow> agent_id \<Rightarrow> materialization_method \<Rightarrow> nat \<Rightarrow> nat \<Rightarrow> token list \<Rightarrow>
    (retirement, unit) prog" where
  "run_preparation R G chat branch how source target tokens =
     (if how = COPY_FULL_STATE
      then catching (thenP (copy_branch R G branch target) (adopt_branch R G chat branch target tokens)) record_error
      else bindP (on_rt (uuid4_hex (rv_env R))) (\<lambda>mid.
        catching (thenP (reconstruct_branch R G mid branch source target tokens) (adopt_branch R G chat branch target tokens))
          (\<lambda>e. thenP (record_error e) (settle_reconstruction R mid e))))"

definition preparation_request ::
  "retirement_config \<Rightarrow> state_descriptor \<Rightarrow> nat \<Rightarrow> seconds \<Rightarrow> materialization_request" where
  "preparation_request G d target gap =
     \<lparr>rq_descriptor = d, rq_destination_engine = str_nat target, rq_remaining_gap_seconds = gap,
      rq_free_token_slots = rg_cache_tokens G, rq_free_snapshot_slots = 1, rq_source_snapshot_available = True,
      rq_ancestor_snapshot_available = False, rq_ancestor_state_bytes = 0, rq_ancestor_prefix_tokens = 0,
      rq_replay_tokens_per_second = rg_replay_tps G, rq_reconstructible = True, rq_causal_epoch = 0\<rparr>"

definition choose_method :: "retirement_config \<Rightarrow> materialization_request \<Rightarrow> exn + materialization_method" where
  "choose_method G rq = (case plan (rg_planner G) rq False of
     Inl e \<Rightarrow> Inl e
   | Inr p \<Rightarrow>
       if rg_mode G = ''dualmap-full-copy'' then Inr COPY_FULL_STATE
       else (case p of None \<Rightarrow> Inl (AttributeError ''selected'') | Some p \<Rightarrow> Inr (mo_method (mp_selected p))))"

definition new_preparation ::
  "string \<Rightarrow> nat \<Rightarrow> nat \<Rightarrow> materialization_method \<Rightarrow> token list \<Rightarrow> seconds \<Rightarrow> seconds \<Rightarrow> seconds \<Rightarrow> seconds \<Rightarrow> preparation" where
  "new_preparation chat source target how tokens begun queued_at retired_at gap =
     \<lparr>pr_chat_id = chat, pr_source = source, pr_target = target, pr_method = how, pr_input_tokens = int (length tokens),
      pr_queue_seconds = begun - queued_at, pr_since_retirement_seconds = begun - retired_at,
      pr_remaining_drain_budget_seconds = gap, pr_success = False, pr_transfer_bytes = 0, pr_reconstruction_tokens = 0,
      pr_requested_reconstruction_tokens = None, pr_preparation_output_tokens = None, pr_error = None,
      pr_wall_seconds = 0, pr_finished_since_retirement_seconds = 0\<rparr>"

definition branch_agent :: "agent_id \<Rightarrow> nat \<Rightarrow> token list \<Rightarrow> agent_continuation" where
  "branch_agent branch source tokens =
     \<lparr>ac_agent_id = branch, ac_committed_step = 0, ac_owner_engine = str_nat source, ac_owner_epoch = 1,
      ac_token_ids = tokens, ac_pending_tool_future = None, ac_workspace_ref = None, ac_stream_offset = 0,
      ac_metadata = JObj []\<rparr>"

definition least_busy :: "(nat \<Rightarrow> int) \<Rightarrow> nat list \<Rightarrow> exn + nat" where
  "least_busy load candidates = (case candidates of
     [] \<Rightarrow> Inl (ValueError ''min() arg is an empty sequence'')
   | i # is \<Rightarrow> Inr (min_by (\<lambda>i. (load i, i)) i is))"

definition finish_record :: "retirement_env \<Rightarrow> seconds \<Rightarrow> (retirement, unit) prog" where
  "finish_record R begun =
     bindP (on_rt (read_perf (rv_env R))) (\<lambda>now.
     bindP (on_rt (read_perf (rv_env R))) (\<lambda>later.
       modifyP (\<lambda>s. s\<lparr>rm_records := rm_records s @
         [(rm_current s)\<lparr>pr_wall_seconds := now - begun,
            pr_finished_since_retirement_seconds := later - rm_retired_at s\<rparr>]\<rparr>)))"

text \<open>The body of \<open>prepare\<close> once it knows that the state is on the retired engine.\<close>

definition prepare_as ::
  "retirement_env \<Rightarrow> retirement_config \<Rightarrow> string \<Rightarrow> agent_id \<Rightarrow> seconds \<Rightarrow> seconds \<Rightarrow> nat \<Rightarrow> token list \<Rightarrow> (retirement, unit) prog" where
  "prepare_as R G chat branch queued_at begun source tokens =
     thenP (on_rt (db (rv_env R) (\<lambda>now. register_agent now (branch_agent branch source tokens))))
    (bindP (getP (\<lambda>s. least_busy (rv_load R (rt_log (rm_rt s))) (rm_active s))) (\<lambda>choice.
     bindP (liftS choice) (\<lambda>target.
     bindP (liftS (hybrid_qwen35 branch ''Qwen3.5-35B-A3B'' branch (int (length tokens))
         default_kv_bytes_per_token default_recurrent_snapshot_bytes 1)) (\<lambda>d.
     bindP (getP (\<lambda>s. (rm_retired_at s, max 0 (rg_drain_budget G - (begun - rm_retired_at s))))) (\<lambda>(retired_at, gap).
     bindP (liftS (choose_method G (preparation_request G d target gap))) (\<lambda>how.
     thenP (set_current (\<lambda>_. new_preparation chat source target how tokens begun queued_at retired_at gap))
    (thenP (run_preparation R G chat branch how source target tokens)
       (finish_record R begun))))))))"

definition prepare_branch ::
  "retirement_env \<Rightarrow> retirement_config \<Rightarrow> string \<Rightarrow> seconds \<Rightarrow> nat \<Rightarrow> token list \<Rightarrow> (retirement, unit) prog" where
  "prepare_branch R G chat queued_at source tokens =
     bindP (on_rt (read_perf (rv_env R))) (\<lambda>begun.
     bindP (on_rt (uuid4_hex (rv_env R))) (\<lambda>hex.
       prepare_as R G chat (rg_mode G @ ''-'' @ chat @ ''-'' @ hex) queued_at begun source tokens))"

definition prepare ::
  "retirement_env \<Rightarrow> retirement_config \<Rightarrow> string \<Rightarrow> seconds \<Rightarrow> (retirement, unit) prog" where
  "prepare R G chat queued_at =
     thenP (awaiting_rt R (acquire (rv_env R) ''prepare''))
       (finally_do
          (bindP (getP (\<lambda>s. (map_of (rm_completed s) chat, rm_retired s))) (\<lambda>(entry, retired).
             case entry of
               None \<Rightarrow> throw (KeyError (py_repr chat))
             | Some (source, tokens) \<Rightarrow>
                 if Some source \<noteq> retired then ret () else prepare_branch R G chat queued_at source tokens))
          (on_rt (release ''prepare'')))"

definition finish_retirement :: "preparation list \<Rightarrow> int \<times> int \<times> preparation list" where
  "finish_retirement records = (int (length records), int (length (filter pr_success records)), records)"

end
