(* ===== verification/RetirementProps.thy ===== *)
theory RetirementProps
  imports Retirement
begin

text \<open>
  What a preparation guarantees. Reported successful, in any interleaving, it left the
  completed state and the lease of its branch with the target; a state that no plan fits is
  not recorded; after a retirement every state completed on the engine is scheduled; the
  runs of a benchmark use disjoint ports.
\<close>

section \<open>What every step keeps\<close>

text \<open>Nothing but \<open>adopt_branch\<close> judges a preparation, and nothing but its end records it.\<close>

definition unjudged :: "retirement \<Rightarrow> retirement \<Rightarrow> bool" where
  "unjudged s t \<longleftrightarrow> rt_le (rm_rt s) (rm_rt t) \<and> rm_records t = rm_records s \<and> rm_active t = rm_active s \<and>
     pr_success (rm_current t) = pr_success (rm_current s) \<and> pr_chat_id (rm_current t) = pr_chat_id (rm_current s) \<and>
     pr_source (rm_current t) = pr_source (rm_current s) \<and> pr_target (rm_current t) = pr_target (rm_current s)"

interpretation unjudged_steps: step_preorder unjudged
  by unfold_locales (auto simp: unjudged_def intro: rt_moves.refl_R rt_moves.trans_R)

lemma observe_completion_keeps:
  "rm_rt (observe_completion now chat source ts s) = rm_rt s \<and> rm_records (observe_completion now chat source ts s) = rm_records s \<and>
   rm_active (observe_completion now chat source ts s) = rm_active s \<and> rm_current (observe_completion now chat source ts s) = rm_current s \<and>
   rm_retired (observe_completion now chat source ts s) = rm_retired s \<and> rm_adapter (observe_completion now chat source ts s) = rm_adapter s"
  by (simp add: observe_completion_def schedule_preparation_def Let_def)

lemma observed_keeps:
  "rm_rt (observed_meanwhile R l s) = rm_rt s \<and> rm_records (observed_meanwhile R l s) = rm_records s \<and>
   rm_active (observed_meanwhile R l s) = rm_active s \<and> rm_current (observed_meanwhile R l s) = rm_current s \<and>
   rm_retired (observed_meanwhile R l s) = rm_retired s"
proof -
  let ?f = "\<lambda>(chat, source, tokens). observe_completion (perf_counter (rv_env R) l) chat source tokens"
  have "rm_rt (fold ?f ys s) = rm_rt s \<and> rm_records (fold ?f ys s) = rm_records s \<and> rm_active (fold ?f ys s) = rm_active s \<and>
    rm_current (fold ?f ys s) = rm_current s \<and> rm_retired (fold ?f ys s) = rm_retired s" for ys s
    by (induction ys arbitrary: s) (auto simp: observe_completion_keeps split: prod.split)
  then show ?thesis by (simp add: observed_meanwhile_def)
qed

lemma steps_on_rt: "steps rt_le m \<Longrightarrow> steps unjudged (on_rt m)"
  by (rule stepsI) (auto simp: on_rt_def unjudged_def dest: stepsD split: prod.split)

lemma steps_awaiting_rt: "steps rt_le m \<Longrightarrow> steps unjudged (awaiting_rt R m)"
  by (rule stepsI) (auto simp: awaiting_rt_def on_rt_def unjudged_def observed_keeps dest: stepsD split: prod.split)

lemma steps_set_current:
  "(\<And>p. pr_success (f p) = pr_success p \<and> pr_chat_id (f p) = pr_chat_id p \<and> pr_source (f p) = pr_source p \<and> pr_target (f p) = pr_target p) \<Longrightarrow>
    steps unjudged (set_current f)"
  by (rule stepsI) (simp add: set_current_def modifyP_def unjudged_def rt_moves.refl_R)

lemma steps_on_adapter: "steps unjudged (on_adapter m)"
  by (rule stepsI) (simp add: on_adapter_def unjudged_def rt_moves.refl_R split: prod.split)

lemma steps_set_completed: "steps unjudged (modifyP (\<lambda>s. s\<lparr>rm_completed := f s\<rparr>))"
  by (rule stepsI) (simp add: modifyP_def unjudged_def rt_moves.refl_R)

lemmas preparation_rules = unjudged_steps.steps_rules unjudged_steps.steps_catch unjudged_steps.steps_finally_do
  steps_on_rt steps_awaiting_rt steps_on_adapter steps_set_completed

lemma steps_hybrid_migrate_async: "steps rt_le (hybrid_migrate_async C E fuel a dst)"
  unfolding hybrid_migrate_async_def start_hybrid_def reserve_async_def copy_async_def commit_async_def cleaned_def
    abort_from_def mark_ready_def mark_copying_def Let_def
  by (intro rt_awaits.awaiting_rules rt_traffic.hybrid_rules steps_db steps_db_start_migration steps_db_commit_migration keeps_intros)

lemma steps_copy_branch: "steps unjudged (copy_branch R G branch target)"
  unfolding copy_branch_def by (intro preparation_rules steps_hybrid_migrate_async steps_set_current) simp

lemma steps_stream_tokens: "steps rt_le (stream_tokens R url ts)"
  by (rule stepsI) (simp add: stream_tokens_def rt_awaits.R_log_interfere)

lemma steps_reconstruct_branch: "steps unjudged (reconstruct_branch R G mid branch source target tokens)"
  unfolding reconstruct_branch_def
  by (intro preparation_rules steps_stream_tokens steps_db steps_db_start_migration steps_db_commit_migration keeps_intros steps_set_current) simp_all

lemma steps_record_error: "steps unjudged (record_error e)"
  unfolding record_error_def by (intro steps_set_current) simp

lemma steps_settle: "steps unjudged (settle_reconstruction R mid e)"
  unfolding settle_reconstruction_def by (intro preparation_rules steps_db keeps_intros)

section \<open>The judgement\<close>

definition adopted :: "string \<Rightarrow> agent_id \<Rightarrow> nat \<Rightarrow> token list \<Rightarrow> retirement \<Rightarrow> bool" where
  "adopted chat branch target tokens s \<longleftrightarrow> map_of (rm_completed s) chat = Some (target, tokens) \<and>
     (\<exists>k. leases (rt_store (rm_rt s)) branch = Some (str_nat target, k))"

definition judged :: "string \<Rightarrow> agent_id \<Rightarrow> nat \<Rightarrow> token list \<Rightarrow> retirement \<Rightarrow> retirement \<Rightarrow> bool" where
  "judged chat branch target tokens s t \<longleftrightarrow> unjudged s (t\<lparr>rm_current := (rm_current t)\<lparr>pr_success := pr_success (rm_current s)\<rparr>\<rparr>) \<and>
     (pr_success (rm_current t) \<longrightarrow> pr_success (rm_current s) \<or> adopted chat branch target tokens t)"

lemma judged_of: "unjudged s t \<Longrightarrow> judged chat branch target tokens s t"
  by (auto simp: judged_def unjudged_def)

lemma triple_adopt:
  "triple (unjudged s0) (adopt_branch R G chat branch target tokens)
     (\<lambda>_. judged chat branch target tokens s0) (\<lambda>_. unjudged s0)"
proof -
  let ?read = "on_rt (db (rv_env R) (\<lambda>_. get_agent branch))"
  have kept: "triple (unjudged s0) m (\<lambda>_. unjudged s0) (\<lambda>_. unjudged s0)" if "steps unjudged m" for m :: "(retirement, 'b) prog"
    by (rule triple_steps [OF that]) (rule unjudged_steps.trans_R)
  have set: "triple (unjudged s0) (modifyP (\<lambda>s. s\<lparr>rm_completed := AList.update chat (target, tokens) (rm_completed s)\<rparr>))
      (\<lambda>_ s. unjudged s0 s \<and> map_of (rm_completed s) chat = Some (target, tokens)) (\<lambda>_. unjudged s0)"
    by (rule tripleI) (auto simp: modifyP_def unjudged_def update_conv')
  have read: "triple (\<lambda>s. unjudged s0 s \<and> map_of (rm_completed s) chat = Some (target, tokens)) ?read
      (\<lambda>c s. unjudged s0 s \<and> map_of (rm_completed s) chat = Some (target, tokens) \<and>
         leases (rt_store (rm_rt s)) branch = Some (ac_owner_engine c, ac_owner_epoch c)) (\<lambda>_. unjudged s0)"
  proof (rule tripleI)
    fix s c t
    assume s: "unjudged s0 s \<and> map_of (rm_completed s) chat = Some (target, tokens)" and run: "?read s = (Inr c, t)"
    have "steps unjudged ?read" by (intro preparation_rules steps_db keeps_intros)
    from stepsD [OF this run] have "unjudged s0 t" using s unjudged_steps.trans_R by blast
    moreover obtain u where u: "db (rv_env R) (\<lambda>_. get_agent branch) (rm_rt s) = (Inr c, u)" "t = s\<lparr>rm_rt := u\<rparr>"
      using run by (auto simp: on_rt_def split: prod.splits)
    have "get_agent branch (rt_store (interfere (rv_env R) (rm_rt s))) = (Inr c, rt_store u)" by (rule db_result(1) [OF u(1)])
    then have "leases (rt_store u) branch = Some (ac_owner_engine c, ac_owner_epoch c)"
      by (auto elim!: get_agent_ok simp: leases_def)
    ultimately show "unjudged s0 t \<and> map_of (rm_completed t) chat = Some (target, tokens) \<and>
         leases (rt_store (rm_rt t)) branch = Some (ac_owner_engine c, ac_owner_epoch c)" using s u(2) by simp
  next
    fix s e t
    assume s: "unjudged s0 s \<and> map_of (rm_completed s) chat = Some (target, tokens)" and run: "?read s = (Inl e, t)"
    have "steps unjudged ?read" by (intro preparation_rules steps_db keeps_intros)
    from stepsD [OF this run] show "unjudged s0 t" using s unjudged_steps.trans_R by blast
  qed
  have judge: "triple (\<lambda>s. unjudged s0 s \<and> map_of (rm_completed s) chat = Some (target, tokens) \<and>
         leases (rt_store (rm_rt s)) branch = Some (ac_owner_engine c, ac_owner_epoch c))
      (set_current (pr_success_update (\<lambda>_. ac_owner_engine c = str_nat target)))
      (\<lambda>_. judged chat branch target tokens s0) (\<lambda>_. unjudged s0)" for c
    by (rule tripleI) (auto simp: set_current_def modifyP_def judged_def unjudged_def adopted_def)
  show ?thesis unfolding adopt_branch_def
    by (rule triple_then [OF kept [OF steps_on_adapter]], rule triple_then [OF set], rule triple_bind [OF read], rule judge)
qed

lemma triple_run_preparation:
  "triple (unjudged s0) (run_preparation R G chat branch how source target tokens)
     (\<lambda>_. judged chat branch target tokens s0) (\<lambda>_ _. True)"
proof -
  have kept: "triple (unjudged s0) m (\<lambda>_. unjudged s0) (\<lambda>_. unjudged s0)" if "steps unjudged m" for m :: "(retirement, 'b) prog"
    by (rule triple_steps [OF that]) (rule unjudged_steps.trans_R)
  have handler: "triple (unjudged s0) h (\<lambda>_. judged chat branch target tokens s0) (\<lambda>_ _. True)"
    if "steps unjudged h" for h :: "(retirement, unit) prog"
    by (rule triple_conseq [OF kept [OF that]]) (simp_all add: judged_of)
  have body: "triple (unjudged s0) (catching (thenP m (adopt_branch R G chat branch target tokens)) h)
      (\<lambda>_. judged chat branch target tokens s0) (\<lambda>_ _. True)"
    if "steps unjudged m" "\<And>e. steps unjudged (h e)" for m h
    by (rule triple_catching [OF triple_then [OF kept [OF that(1)] triple_adopt]]) (rule handler [OF that(2)], simp)
  show ?thesis
  proof (cases "how = COPY_FULL_STATE")
    case True
    then show ?thesis by (simp add: run_preparation_def body [OF steps_copy_branch steps_record_error])
  next
    case False
    have fresh: "steps unjudged (on_rt (uuid4_hex (rv_env R)))" by (intro preparation_rules rt_awaits.awaiting_rules)
    have h: "steps unjudged (thenP (record_error e) (settle_reconstruction R mid e))" for mid e
      by (intro preparation_rules steps_record_error steps_settle)
    have "triple (unjudged s0) (bindP (on_rt (uuid4_hex (rv_env R))) (\<lambda>mid.
        catching (thenP (reconstruct_branch R G mid branch source target tokens) (adopt_branch R G chat branch target tokens))
          (\<lambda>e. thenP (record_error e) (settle_reconstruction R mid e))))
      (\<lambda>_. judged chat branch target tokens s0) (\<lambda>_ _. True)"
      by (rule triple_bind [OF triple_conseq [OF kept [OF fresh], where P' = "unjudged s0" and Q' = "\<lambda>_. unjudged s0" and F' = "\<lambda>_ _. True"]])
        (simp_all add: body [OF steps_reconstruct_branch h])
    then show ?thesis using False by (simp add: run_preparation_def)
  qed
qed

section \<open>A whole preparation\<close>

lemma on_rt_Inr: "on_rt m s = (Inr a, t) \<Longrightarrow> \<exists>u. m (rm_rt s) = (Inr a, u) \<and> t = s\<lparr>rm_rt := u\<rparr>"
  by (auto simp: on_rt_def split: prod.splits)

lemma register_leases:
  assumes "on_rt (db E (\<lambda>now. register_agent now (branch_agent branch source tokens))) s = (Inr (), t)"
  shows "leases (rt_store (rm_rt t)) branch = Some (str_nat source, 1)"
proof -
  obtain u where u: "db E (\<lambda>now. register_agent now (branch_agent branch source tokens)) (rm_rt s) = (Inr (), u)" "t = s\<lparr>rm_rt := u\<rparr>"
    using on_rt_Inr [OF assms] by blast
  let ?row = "agent_row_of (wall_clock E (rt_log (rm_rt s))) (branch_agent branch source tokens)"
  have "register_agent (wall_clock E (rt_log (rm_rt s))) (branch_agent branch source tokens) (rt_store (interfere E (rm_rt s))) =
      (Inr (), rt_store u)" by (rule db_result(1) [OF u(1)])
  then obtain rows where rows: "ins ac_agent_id ?row (agents (rt_store (interfere E (rm_rt s)))) = Some rows" "agents (rt_store u) = rows"
    by (elim register_agent_ok) simp
  have "sel ac_agent_id branch rows = Some ?row"
    using agent_tab.select_insert [OF rows(1), of branch] by (simp add: agent_row_of_def branch_agent_def)
  then show ?thesis using u(2) rows(2) by (simp add: leases_def agent_row_of_def branch_agent_def)
qed

definition branch_prepared :: "string \<Rightarrow> nat \<Rightarrow> token list \<Rightarrow> retirement \<Rightarrow> retirement \<Rightarrow> bool" where
  "branch_prepared chat source tokens s t \<longleftrightarrow> (\<exists>r branch. rm_records t = rm_records s @ [r] \<and> pr_chat_id r = chat \<and>
     pr_source r = source \<and> pr_target r \<in> set (rm_active s) \<and>
     (pr_success r \<longrightarrow> adopted chat branch (pr_target r) tokens t \<and>
        (\<forall>k. leases (rt_store (rm_rt t)) branch = Some (str_nat (pr_target r), k) \<longrightarrow>
           pr_target r = source \<or> 2 \<le> k)))"

lemma finish_record_run:
  assumes "finish_record R begun s = (Inr (), t)"
  shows "\<exists>r. rm_records t = rm_records s @ [r] \<and> pr_chat_id r = pr_chat_id (rm_current s) \<and> pr_source r = pr_source (rm_current s) \<and>
    pr_target r = pr_target (rm_current s) \<and> pr_success r = pr_success (rm_current s) \<and> pr_error r = pr_error (rm_current s) \<and>
    rm_completed t = rm_completed s \<and> rt_store (rm_rt t) = rt_store (rm_rt s)"
  using assms by (auto simp: finish_record_def bindP_def on_rt_def read_perf_def modifyP_def log_event_def)

lemma prepare_as_run:
  assumes "prepare_as R G chat branch queued_at begun source tokens s = (Inr (), t)"
  obtains how target retired_at gap s2 s3 where
    "on_rt (db (rv_env R) (\<lambda>now. register_agent now (branch_agent branch source tokens))) s = (Inr (), s2)"
    and "least_busy (rv_load R (rt_log (rm_rt s2))) (rm_active s2) = Inr target"
    and "run_preparation R G chat branch how source target tokens
      (s2\<lparr>rm_current := new_preparation chat source target how tokens begun queued_at retired_at gap\<rparr>) = (Inr (), s3)"
    and "finish_record R begun s3 = (Inr (), t)"
  using assms unfolding prepare_as_def thenP_def
  apply (elim bindP_InrE)
  apply (simp add: getP_def liftS_def set_current_def split: prod.splits)
  apply (elim bindP_InrE)
  apply (simp add: liftS_def modifyP_def)
  apply blast
  done

lemma least_busy_mem:
  assumes "least_busy load is = Inr i" shows "i \<in> set is"
proof (cases "is")
  case Nil
  then show ?thesis using assms by (simp add: least_busy_def)
next
  case (Cons j js)
  then have "i = min_by (\<lambda>i. (load i, i)) j js" using assms by (simp add: least_busy_def)
  then show ?thesis using min_by_mem Cons by metis
qed

lemma str_nat_inj: "str_nat m = str_nat n \<Longrightarrow> m = n"
  by (metis str_nat_digits option.inject of_nat_eq_iff)

lemma adopted_lease:
  assumes "store_le u v" and "leases u branch = Some (str_nat source, 1)"
    and "leases v branch = Some (str_nat target, k)"
  shows "target = source \<or> 2 \<le> k"
proof -
  obtain e' n' where "leases v branch = Some (e', n')" "1 \<le> n'" "1 = n' \<longrightarrow> str_nat source = e'"
    by (rule leases_step [OF assms(1,2)])
  then have "str_nat source = str_nat target \<or> 2 \<le> k" using assms(3) by force
  then show ?thesis using str_nat_inj by metis
qed

lemma keeps_register: "keeps_store (register_agent now c)"
  by (rule keeps_call [of _ "RegisterAgent now c"]) simp

lemma prepare_as_prepared:
  assumes "prepare_as R G chat branch queued_at begun source tokens s = (Inr (), t)"
  shows "branch_prepared chat source tokens s t"
proof -
  obtain how target retired_at gap s2 s3 where reg: "on_rt (db (rv_env R) (\<lambda>now. register_agent now (branch_agent branch source tokens))) s = (Inr (), s2)"
    and target: "least_busy (rv_load R (rt_log (rm_rt s2))) (rm_active s2) = Inr target"
    and run: "run_preparation R G chat branch how source target tokens
      (s2\<lparr>rm_current := new_preparation chat source target how tokens begun queued_at retired_at gap\<rparr>) = (Inr (), s3)"
    and finish: "finish_record R begun s3 = (Inr (), t)"
    by (rule prepare_as_run [OF assms])
  let ?p = "new_preparation chat source target how tokens begun queued_at retired_at gap"
  have kept: "unjudged s s2" by (rule stepsD [OF steps_on_rt [OF steps_db [OF keeps_register]] reg])
  have judged: "judged chat branch target tokens (s2\<lparr>rm_current := ?p\<rparr>) s3"
    by (rule triple_returns [OF triple_run_preparation unjudged_steps.refl_R run])
  have le: "store_le (rt_store (rm_rt s2)) (rt_store (rm_rt s3))" "rm_records s3 = rm_records s" "pr_chat_id (rm_current s3) = chat"
    "pr_source (rm_current s3) = source" "pr_target (rm_current s3) = target"
    using judged kept by (simp_all add: judged_def unjudged_def rt_le_def new_preparation_def)
  have ok: "pr_success (rm_current s3) \<Longrightarrow> adopted chat branch target tokens s3"
    using judged by (simp add: judged_def new_preparation_def)
  have active: "target \<in> set (rm_active s)" using least_busy_mem [OF target] kept by (simp add: unjudged_def)
  obtain r where r: "rm_records t = rm_records s3 @ [r]" "pr_chat_id r = pr_chat_id (rm_current s3)" "pr_source r = pr_source (rm_current s3)"
    "pr_target r = pr_target (rm_current s3)" "pr_success r = pr_success (rm_current s3)"
    "rm_completed t = rm_completed s3" "rt_store (rm_rt t) = rt_store (rm_rt s3)"
    using finish_record_run [OF finish] by blast
  have "adopted chat branch target tokens t" if "pr_success r"
    using ok that r by (simp add: adopted_def)
  moreover have "target = source \<or> 2 \<le> k" if "leases (rt_store (rm_rt t)) branch = Some (str_nat target, k)" for k
    using adopted_lease [OF le(1) register_leases [OF reg]] that r(7) by simp
  ultimately show ?thesis unfolding branch_prepared_def using r(1-5) le active by (intro exI [of _ r] exI [of _ branch]) simp
qed

lemma prepare_branch_prepared:
  assumes "prepare_branch R G chat queued_at source tokens s = (Inr (), t)"
  shows "branch_prepared chat source tokens s t"
proof -
  have kept: "steps unjudged (on_rt (read_perf (rv_env R)))" "steps unjudged (on_rt (uuid4_hex (rv_env R)))"
    by (intro preparation_rules rt_awaits.awaiting_rules)+
  obtain begun s1 where s1: "on_rt (read_perf (rv_env R)) s = (Inr begun, s1)"
    and rest: "bindP (on_rt (uuid4_hex (rv_env R))) (\<lambda>hex.
      prepare_as R G chat (rg_mode G @ ''-'' @ chat @ ''-'' @ hex) queued_at begun source tokens) s1 = (Inr (), t)"
    using assms unfolding prepare_branch_def by (rule bindP_InrE)
  obtain hex s2 where s2: "on_rt (uuid4_hex (rv_env R)) s1 = (Inr hex, s2)"
    and run: "prepare_as R G chat (rg_mode G @ ''-'' @ chat @ ''-'' @ hex) queued_at begun source tokens s2 = (Inr (), t)"
    using rest by (rule bindP_InrE)
  have "rm_records s2 = rm_records s" "rm_active s2 = rm_active s"
    using stepsD [OF kept(1) s1] stepsD [OF kept(2) s2] by (simp_all add: unjudged_def)
  then show ?thesis using prepare_as_prepared [OF run] by (simp add: branch_prepared_def)
qed

lemma finally_do_Inr: "finally_do m f s = (Inr a, t) \<Longrightarrow> \<exists>u. m s = (Inr a, u) \<and> f u = (Inr (), t)"
  unfolding finally_do_def thenP_def
  by (elim bindP_InrE) (auto simp: catching_def try_except_def ret_def throw_def bindP_def split: prod.splits sum.splits if_splits)

text \<open>
  C33. A preparation that returns has recorded nothing, or it appended one record for the chat
  on the retired engine with an active engine as target, and if it reports success then the
  completed state of the chat is at the target with the same tokens, the target owns the
  branch and the epoch grew unless the target is the source, in any interleaving.
\<close>

theorem preparation_reported_truly:
  assumes "prepare R G chat queued_at s = (Inr (), t)"
  shows "rm_records t = rm_records s \<or> (\<exists>source tokens. rm_retired s = Some source \<and> branch_prepared chat source tokens s t)"
proof -
  obtain s1 where s1: "awaiting_rt R (acquire (rv_env R) ''prepare'') s = (Inr (), s1)"
    and rest: "finally_do
          (bindP (getP (\<lambda>s. (map_of (rm_completed s) chat, rm_retired s))) (\<lambda>(entry, retired).
             case entry of
               None \<Rightarrow> throw (KeyError (py_repr chat))
             | Some (source, tokens) \<Rightarrow>
                 if Some source \<noteq> retired then ret () else prepare_branch R G chat queued_at source tokens))
          (on_rt (release ''prepare'')) s1 = (Inr (), t)"
    using assms unfolding prepare_def thenP_def by (elim bindP_InrE) simp
  have same: "rm_records s1 = rm_records s" "rm_active s1 = rm_active s" "rm_retired s1 = rm_retired s"
    using s1 by (auto simp: awaiting_rt_def on_rt_def observed_keeps split: prod.splits)
  obtain u where u: "bindP (getP (\<lambda>s. (map_of (rm_completed s) chat, rm_retired s))) (\<lambda>(entry, retired).
             case entry of
               None \<Rightarrow> throw (KeyError (py_repr chat))
             | Some (source, tokens) \<Rightarrow>
                 if Some source \<noteq> retired then ret () else prepare_branch R G chat queued_at source tokens) s1 = (Inr (), u)"
    and fin: "on_rt (release ''prepare'') u = (Inr (), t)"
    using finally_do_Inr [OF rest] by blast
  have tu: "rm_records t = rm_records u" "rm_completed t = rm_completed u" "rt_store (rm_rt t) = rt_store (rm_rt u)"
    using fin by (auto simp: on_rt_def release_def log_event_def)
  obtain source tokens where entry: "map_of (rm_completed s1) chat = Some (source, tokens)"
    using u by (cases "map_of (rm_completed s1) chat") (auto simp: bindP_def getP_def throw_def)
  show ?thesis
  proof (cases "Some source = rm_retired s1")
    case True
    then have "prepare_branch R G chat queued_at source tokens s1 = (Inr (), u)"
      using u entry by (simp add: bindP_def getP_def)
    from prepare_branch_prepared [OF this] have "branch_prepared chat source tokens s t"
      using same tu by (simp add: branch_prepared_def adopted_def)
    then show ?thesis using True same by auto
  next
    case False
    then have "u = s1" using u entry by (auto simp: bindP_def getP_def ret_def)
    then show ?thesis using tu same by simp
  qed
qed

section \<open>A state that no plan fits\<close>

lemma planned_slots:
  assumes "hybrid_qwen35 branch model branch n kv snap 1 = Inr d"
  shows "token_slots d = n"
  using assms by (auto simp: hybrid_qwen35_def new_component_def state_component_checked_def state_descriptor_checked_def token_slots_def
      split: if_splits sum.splits)

lemma oversized_has_no_method:
  assumes "hybrid_qwen35 branch model branch (int (length tokens)) kv snap 1 = Inr d"
    and "rg_mode G \<noteq> ''dualmap-full-copy''" and "rg_cache_tokens G < int (length tokens)"
  shows "choose_method G (preparation_request G d target gap) \<noteq> Inr how"
proof
  assume "choose_method G (preparation_request G d target gap) = Inr how"
  then obtain pl where "plan (rg_planner G) (preparation_request G d target gap) False = Inr (Some pl)"
    using assms(2) by (auto simp: choose_method_def split: sum.splits option.splits)
  then have "plan_of (preparation_request G d target gap) False [] = Some pl"
    using planned_slots [OF assms(1)] assms(3)
    by (simp add: plan_def materialization_options_def capacity_ok_def preparation_request_def when_option_def split: if_splits)
  then show False by (simp add: plan_of_def)
qed

lemma oversized_raises:
  assumes "rg_mode G \<noteq> ''dualmap-full-copy''" and "rg_cache_tokens G < int (length tokens)"
  shows "triple (unjudged s0) (prepare_as R G chat branch queued_at begun source tokens) (\<lambda>_ _. False) (\<lambda>_. unjudged s0)"
proof -
  have kept: "triple (unjudged s0) m (\<lambda>_. unjudged s0) (\<lambda>_. unjudged s0)" if "steps unjudged m" for m :: "(retirement, 'b) prog"
    by (rule triple_steps [OF that]) (rule unjudged_steps.trans_R)
  have never: "triple (\<lambda>_. False) m Q F" for m :: "(retirement, 'b) prog" and Q F by (rule tripleI) simp_all
  have described: "triple (unjudged s0) (liftS r) (\<lambda>d s. unjudged s0 s \<and> r = Inr d) (\<lambda>_. unjudged s0)"
    for r :: "exn + state_descriptor" by (rule triple_lift) simp_all
  have at: "triple (\<lambda>s. unjudged s0 s \<and> P) (getP f) (\<lambda>_ s. unjudged s0 s \<and> P) (\<lambda>_. unjudged s0)"
    for P and f :: "retirement \<Rightarrow> 'b" by (rule triple_pure) simp
  have chosen: "triple (\<lambda>s. unjudged s0 s \<and> hybrid_qwen35 branch m branch (int (length tokens)) kv sn 1 = Inr d)
      (liftS (choose_method G (preparation_request G d target gap))) (\<lambda>_ _. False) (\<lambda>_. unjudged s0)" for m kv sn d target gap
    by (rule triple_lift) (use oversized_has_no_method [OF _ assms] in auto)
  have reg: "steps unjudged (on_rt (db (rv_env R) (\<lambda>now. register_agent now (branch_agent branch source tokens))))"
    by (intro preparation_rules steps_db keeps_register)
  have pure: "steps unjudged (getP f)" "steps unjudged (liftS r)" for f :: "retirement \<Rightarrow> 'b" and r :: "exn + 'c"
    by (intro preparation_rules)+
  show ?thesis unfolding prepare_as_def
    apply (rule triple_then [OF kept [OF reg]], rule triple_bind [OF kept [OF pure(1)]], rule triple_bind [OF kept [OF pure(2)]])
    apply (rule triple_bind [OF described], rule triple_bind [OF at], clarsimp split: prod.split)
    apply (rule triple_bind [OF chosen], rule never)
    done
qed

text \<open>
  In the prototype mode a state longer than the destination's free slots raises from
  \<open>plan.selected\<close> before the \<open>try\<close> block: no record of the failure is kept, although the
  code's comment says that a failure is recorded.
\<close>

theorem oversized_state_goes_unrecorded:
  assumes "rg_mode G \<noteq> ''dualmap-full-copy''" and "rg_cache_tokens G < int (length tokens)"
    and "prepare_branch R G chat queued_at source tokens s = (r, t)"
  shows "(\<exists>e. r = Inl e) \<and> rm_records t = rm_records s"
proof -
  have kept: "triple (unjudged s) m (\<lambda>_. unjudged s) (\<lambda>_. unjudged s)" if "steps unjudged m" for m :: "(retirement, 'b) prog"
    by (rule triple_steps [OF that]) (rule unjudged_steps.trans_R)
  have reads: "steps unjudged (on_rt (read_perf (rv_env R)))" "steps unjudged (on_rt (uuid4_hex (rv_env R)))"
    by (intro preparation_rules rt_awaits.awaiting_rules)+
  have all: "triple (unjudged s) (prepare_branch R G chat queued_at source tokens) (\<lambda>_ _. False) (\<lambda>_. unjudged s)"
    unfolding prepare_branch_def
    by (rule triple_bind [OF kept [OF reads(1)]], rule triple_bind [OF kept [OF reads(2)]], rule oversized_raises [OF assms(1,2)])
  show ?thesis
  proof (cases r)
    case (Inl e)
    then show ?thesis using triple_raises [OF all unjudged_steps.refl_R] assms(3) by (auto simp: unjudged_def)
  next
    case (Inr u)
    then show ?thesis using triple_returns [OF all unjudged_steps.refl_R] assms(3) by auto
  qed
qed

section \<open>What is scheduled\<close>

definition all_scheduled :: "retirement \<Rightarrow> bool" where
  "all_scheduled s \<longleftrightarrow> (\<forall>chat tokens. case rm_retired s of None \<Rightarrow> True
     | Some src \<Rightarrow> map_of (rm_completed s) chat = Some (src, tokens) \<longrightarrow> chat \<in> fst ` set (rm_scheduled s))"

lemma fold_schedule:
  "rm_scheduled (fold (\<lambda>chat. schedule_preparation (clock chat) chat) cs s) = rm_scheduled s @ map (\<lambda>c. (c, clock c)) cs \<and>
   rm_completed (fold (\<lambda>chat. schedule_preparation (clock chat) chat) cs s) = rm_completed s \<and>
   rm_retired (fold (\<lambda>chat. schedule_preparation (clock chat) chat) cs s) = rm_retired s"
  by (induction cs arbitrary: s) (simp_all add: schedule_preparation_def)

lemma all_scheduled_retire: "all_scheduled (retire_source now clock source s)"
  by (force simp: all_scheduled_def retire_source_def fold_schedule dest: map_of_SomeD)

lemma all_scheduled_observe: "all_scheduled s \<Longrightarrow> all_scheduled (observe_completion now chat source tokens s)"
  by (auto simp: all_scheduled_def observe_completion_def schedule_preparation_def update_conv' Let_def split: option.splits)

text \<open>
  After a retirement every state whose last completion was on the retired engine has a
  preparation scheduled, whatever completions follow.
\<close>

theorem retired_states_are_scheduled:
  "all_scheduled (fold (\<lambda>(now, chat, source, tokens). observe_completion now chat source tokens) observed (retire_source now clock src s))"
proof -
  have "all_scheduled s \<Longrightarrow> all_scheduled (fold (\<lambda>(now, chat, source, tokens). observe_completion now chat source tokens) observed s)" for s
    by (induction observed arbitrary: s) (auto simp: all_scheduled_observe split: prod.split)
  then show ?thesis by (simp add: all_scheduled_retire)
qed

section \<open>The ports of the runs\<close>

lemma hybrid_pairs_count: "length (hybrid_pairs C) \<le> card (set (hc_engines C)) choose 2"
proof -
  let ?S = "set (hc_engines C)" and ?f = "\<lambda>p :: engine_id \<times> engine_id. {fst p, snd p}"
  have d: "distinct (hybrid_pairs C)" by (simp add: hybrid_pairs_def)
  have keys: "\<exists>s e. s \<in> ?S \<and> e \<in> ?S \<and> s \<noteq> e \<and> p = pair_key s e" if "p \<in> set (hybrid_pairs C)" for p
    using that by (auto simp: hybrid_pairs_def)
  have f: "?f (pair_key s e) = {s, e}" for s e by (auto simp: pair_key_def)
  have "inj_on ?f (set (hybrid_pairs C))"
  proof (rule inj_onI)
    fix p q assume "p \<in> set (hybrid_pairs C)" "q \<in> set (hybrid_pairs C)" "?f p = ?f q"
    moreover obtain s e where "p = pair_key s e" using keys \<open>p \<in> set (hybrid_pairs C)\<close> by blast
    moreover obtain s' e' where "q = pair_key s' e'" using keys \<open>q \<in> set (hybrid_pairs C)\<close> by blast
    moreover have "pair_key s e = pair_key s' e' \<longleftrightarrow> {s, e} = {s', e'}" unfolding pair_key_def by (rule ordered_pair_eq)
    ultimately show "p = q" by (simp only: f)
  qed
  moreover have "?f ` set (hybrid_pairs C) \<subseteq> {K. K \<subseteq> ?S \<and> card K = 2}"
  proof
    fix K assume "K \<in> ?f ` set (hybrid_pairs C)"
    then obtain p where p: "p \<in> set (hybrid_pairs C)" "K = ?f p" by blast
    obtain s e where s: "s \<in> ?S" "e \<in> ?S" "s \<noteq> e" "p = pair_key s e" using keys [OF p(1)] by blast
    have "K = {s, e}" unfolding p(2) s(4) by (rule f)
    then show "K \<in> {K. K \<subseteq> ?S \<and> card K = 2}" using s(1-3) by simp
  qed
  ultimately have "card (set (hybrid_pairs C)) \<le> card {K. K \<subseteq> ?S \<and> card K = 2}"
    by (intro card_inj_on_le) simp_all
  also have "\<dots> = card ?S choose 2" by (rule n_subsets) simp
  finally show ?thesis using d by (simp add: distinct_card)
qed

lemma setup_ports:
  assumes "setup_retirement base repetition bw ms G = Inr G'" and "s < length (rg_engines G)" "e < length (rg_engines G)" "s \<noteq> e"
  obtains i where "mode_index (rg_mode G) = Inr i" and "i = 0 \<or> i = 1"
    and "base + (2 * repetition + i) * int (length (rg_engines G) choose 2) \<le> hybrid_port (rg_coordinator G') (str_nat s) (str_nat e)"
    and "hybrid_port (rg_coordinator G') (str_nat s) (str_nat e) < base + (2 * repetition + i + 1) * int (length (rg_engines G) choose 2)"
proof -
  let ?n = "length (rg_engines G)" and ?C = "rg_coordinator G'"
  obtain i where i: "mode_index (rg_mode G) = Inr i" "i = 0 \<or> i = 1"
    and C: "hc_engines ?C = map str_nat [0..<?n]" "hc_base_port ?C = base + (2 * repetition + i) * (int (?n * (?n - 1)) div 2)"
    using assms(1) by (auto simp: setup_retirement_def bind_sum_def retirement_port_def new_hybrid_coordinator_def
        mode_index_def split: sum.splits if_splits)
  have pairs: "int (?n * (?n - 1)) div 2 = int (?n choose 2)" by (simp add: choose_two zdiv_int)
  have "inj str_nat" by (rule injI) (rule str_nat_inj)
  then have card: "card (set (hc_engines ?C)) = ?n" by (simp add: C(1) card_image inj_on_def inj_def)
  have "str_nat s \<noteq> str_nat e" using assms(4) str_nat_inj by blast
  then have "hc_base_port ?C \<le> hybrid_port ?C (str_nat s) (str_nat e) \<and>
      hybrid_port ?C (str_nat s) (str_nat e) < hc_base_port ?C + int (length (hybrid_pairs ?C))"
    using pair_number_nth [OF hybrid_pairs_mem [of "str_nat s" ?C "str_nat e"]] assms(2,3)
    by (simp add: hybrid_port_def C(1))
  moreover have "hc_base_port ?C = base + (2 * repetition + i) * int (?n choose 2)" using C(2) by (simp only: pairs)
  moreover have "(2 * repetition + i + 1) * int (?n choose 2) = (2 * repetition + i) * int (?n choose 2) + int (?n choose 2)"
    by (simp only: distrib_right mult_1)
  moreover have "int (length (hybrid_pairs ?C)) \<le> int (?n choose 2)" using hybrid_pairs_count [of ?C] by (simp only: card of_nat_le_iff)
  ultimately show thesis by (intro that [OF i]) linarith+
qed

text \<open>
  Runs of different modes or repetitions never give two pairs of engines the same port.
\<close>

theorem runs_use_distinct_ports:
  assumes "setup_retirement base repetition bw ms G = Inr C" and "setup_retirement base repetition' bw' ms' G' = Inr C'"
    and "rg_engines G = rg_engines G'" and "(repetition, rg_mode G) \<noteq> (repetition', rg_mode G')"
    and "s < length (rg_engines G)" "e < length (rg_engines G)" "s \<noteq> e"
    and "s' < length (rg_engines G)" "e' < length (rg_engines G)" "s' \<noteq> e'"
  shows "hybrid_port (rg_coordinator C) (str_nat s) (str_nat e) \<noteq> hybrid_port (rg_coordinator C') (str_nat s') (str_nat e')"
proof -
  let ?p = "int (length (rg_engines G) choose 2)"
  obtain i where i: "mode_index (rg_mode G) = Inr i" "i = 0 \<or> i = 1"
    and p: "base + (2 * repetition + i) * ?p \<le> hybrid_port (rg_coordinator C) (str_nat s) (str_nat e)"
    "hybrid_port (rg_coordinator C) (str_nat s) (str_nat e) < base + (2 * repetition + i + 1) * ?p"
    by (rule setup_ports [OF assms(1,5-7)])
  obtain j where j: "mode_index (rg_mode G') = Inr j" "j = 0 \<or> j = 1"
    and q: "base + (2 * repetition' + j) * ?p \<le> hybrid_port (rg_coordinator C') (str_nat s') (str_nat e')"
    "hybrid_port (rg_coordinator C') (str_nat s') (str_nat e') < base + (2 * repetition' + j + 1) * ?p"
    using setup_ports [OF assms(2)] assms(3,8-10) by metis
  have "2 * repetition + i \<noteq> 2 * repetition' + j"
  proof
    assume "2 * repetition + i = 2 * repetition' + j"
    then have "i = j" "repetition = repetition'" using i(2) j(2) by presburger+
    moreover from \<open>i = j\<close> have "rg_mode G = rg_mode G'" using i(1) j(1) by (auto simp: mode_index_def split: if_splits)
    ultimately show False using assms(4) by simp
  qed
  then consider "2 * repetition + i + 1 \<le> 2 * repetition' + j" | "2 * repetition' + j + 1 \<le> 2 * repetition + i" by linarith
  then show ?thesis
  proof cases
    case 1
    then have "(2 * repetition + i + 1) * ?p \<le> (2 * repetition' + j) * ?p" by (intro mult_right_mono) simp_all
    then show ?thesis using p(2) q(1) by linarith
  next
    case 2
    then have "(2 * repetition' + j + 1) * ?p \<le> (2 * repetition + i) * ?p" by (intro mult_right_mono) simp_all
    then show ?thesis using p(1) q(2) by linarith
  qed
qed

section \<open>Witnesses\<close>

definition demo_retirement_config :: retirement_config where
  "demo_retirement_config = \<lparr>rg_mode = ''fluidkv-planner-prototype'', rg_engines = [''u0'', ''u1''], rg_drain_budget = 9,
     rg_cache_tokens = 2, rg_replay_tps = 10, rg_slots = 1,
     rg_planner = \<lparr>bp_bandwidth_bytes_per_second = 1000, bp_fixed_copy_seconds = 1\<rparr>,
     rg_coordinator = demo_hybrid, rg_fuel = 1\<rparr>"

definition demo_retirement_env :: retirement_env where
  "demo_retirement_env = \<lparr>rv_env = obliging, rv_load = (\<lambda>_ _. 0),
     rv_stream = (\<lambda>_ _ ts. Inr (JObj [(''meta_info'', JObj [(''prompt_tokens'', JInt (int (length ts))),
       (''cached_tokens'', JInt 0), (''completion_tokens'', JInt 1)])])),
     rv_observed = (\<lambda>_. []), rv_saved = (\<lambda>_ d. d)\<rparr>"

definition demo_retirement :: retirement where
  "demo_retirement = \<lparr>rm_rt = idle, rm_completed = [(''c'', 0, [4, 5])], rm_records = [], rm_retired = Some 0,
     rm_retired_at = 0, rm_scheduled = [], rm_adapter = new_dualmap 2 None, rm_active = [1],
     rm_current = new_preparation ''c'' 0 0 COPY_FULL_STATE [] 0 0 0 0\<rparr>"

lemma demo_preparation_runs:
  "case prepare demo_retirement_env demo_retirement_config ''c'' 0 demo_retirement of (r, t) \<Rightarrow>
     r = Inr () \<and> map pr_success (rm_records t) = [True]"
  by code_simp

theorem preparation_reported_truly_witness:
  "\<exists>t r branch k. prepare demo_retirement_env demo_retirement_config ''c'' 0 demo_retirement = (Inr (), t) \<and> rm_records t = [r] \<and>
     pr_success r \<and> pr_target r = 1 \<and> leases (rt_store (rm_rt t)) branch = Some (str_nat 1, k) \<and> 2 \<le> k"
proof -
  obtain t where t: "prepare demo_retirement_env demo_retirement_config ''c'' 0 demo_retirement = (Inr (), t)"
    and ok: "map pr_success (rm_records t) = [True]"
    using demo_preparation_runs by (auto split: prod.splits)
  have "rm_records t \<noteq> rm_records demo_retirement" using ok by (auto simp: demo_retirement_def)
  then obtain tokens where "branch_prepared ''c'' 0 tokens demo_retirement t"
    using preparation_reported_truly [OF t] by (auto simp: demo_retirement_def)
  then obtain r branch where r: "rm_records t = rm_records demo_retirement @ [r]" "pr_target r \<in> set (rm_active demo_retirement)"
    "pr_success r \<longrightarrow> adopted ''c'' branch (pr_target r) tokens t \<and>
       (\<forall>k. leases (rt_store (rm_rt t)) branch = Some (str_nat (pr_target r), k) \<longrightarrow> pr_target r = 0 \<or> 2 \<le> k)"
    unfolding branch_prepared_def by blast
  then have one: "rm_records t = [r]" "pr_target r = 1" by (simp_all add: demo_retirement_def)
  with ok have "pr_success r" by simp
  with r one t show ?thesis unfolding adopted_def by (intro exI [of _ t] exI [of _ r] exI [of _ branch]) auto
qed

theorem oversized_state_goes_unrecorded_witness:
  "\<exists>e t. prepare_branch demo_retirement_env demo_retirement_config ''c'' 0 0 [4, 5, 6] demo_retirement = (Inl e, t) \<and> rm_records t = []"
proof -
  obtain r t where run: "prepare_branch demo_retirement_env demo_retirement_config ''c'' 0 0 [4, 5, 6] demo_retirement = (r, t)"
    by (cases "prepare_branch demo_retirement_env demo_retirement_config ''c'' 0 0 [4, 5, 6] demo_retirement")
  from oversized_state_goes_unrecorded [OF _ _ run] show ?thesis using run
    by (auto simp: demo_retirement_config_def demo_retirement_def)
qed

theorem runs_use_distinct_ports_witness:
  "\<exists>C C'. setup_retirement 100 0 1 1 demo_retirement_config = Inr C \<and> setup_retirement 100 1 1 1 demo_retirement_config = Inr C' \<and>
     hybrid_port (rg_coordinator C) (str_nat 0) (str_nat 1) \<noteq> hybrid_port (rg_coordinator C') (str_nat 1) (str_nat 0)"
proof -
  have "\<exists>C. setup_retirement 100 k 1 1 demo_retirement_config = Inr C" for k
    by (simp add: setup_retirement_def bind_sum_def retirement_port_def mode_index_def new_hybrid_coordinator_def
        new_branch_state_planner_def demo_retirement_config_def)
  then obtain C C' where C: "setup_retirement 100 0 1 1 demo_retirement_config = Inr C" "setup_retirement 100 1 1 1 demo_retirement_config = Inr C'"
    by metis
  from runs_use_distinct_ports [OF C, of 0 1 1 0] C show ?thesis by (simp add: demo_retirement_config_def)
qed

end
