(* ===== verification/Production.thy ===== *)
theory Production
  imports EngineClient "HOL-Library.Sublist" "HOL-Library.Word"
begin

text \<open>
  \<open>agentshift/workloads/production.py\<close>: the reader of the anonymous Kimi log, the surrogate
  tokens of a hashed block, the inspection of the Qwen trace and the cohort of exact
  parent-prefix requests. A row is a record of the fields the code reads; the digest
  \<open>shake_256\<close> is an argument of the definitions that use it.
\<close>

section \<open>The Kimi log\<close>

text \<open>
  \<open>re.search\<close> of a literal followed by one group, of which \<open>grab\<close> gives the longest match:
  the first place at which both match.
\<close>

fun search_group :: "string \<Rightarrow> (string \<Rightarrow> string option) \<Rightarrow> string \<Rightarrow> string option" where
  "search_group literal grab [] = (if literal = [] then grab [] else None)"
| "search_group literal grab (c # cs) =
     (case (if prefix literal (c # cs) then grab (drop (length literal) (c # cs)) else None) of
        Some g \<Rightarrow> Some g
      | None \<Rightarrow> search_group literal grab cs)"

text \<open>\<open>(C+)\<close>, \<open>([^']+)'\<close> and \<open>(-?\d+)\<close>\<close>

definition some_of :: "(char \<Rightarrow> bool) \<Rightarrow> string \<Rightarrow> string option" where
  "some_of p s = (let g = takeWhile p s in if g = [] then None else Some g)"

definition quoted :: "string \<Rightarrow> string option" where
  "quoted s = (let g = takeWhile (\<lambda>c. c \<noteq> CHR 0x27) s in if g = [] \<or> length g = length s then None else Some g)"

definition signed_digits :: "string \<Rightarrow> string option" where
  "signed_digits s = (case s of c # cs \<Rightarrow>
       if c = CHR ''-'' then map_option (Cons c) (some_of is_digit cs) else some_of is_digit s
     | [] \<Rightarrow> None)"

definition float_char :: "char \<Rightarrow> bool" where
  "float_char c \<longleftrightarrow> is_digit c \<or> c \<in> set ''.eE+-''"

text \<open>A key between quotes, as in \<open>'completion_tokens': \<close>.\<close>

definition quoted_key :: "string \<Rightarrow> string" where
  "quoted_key k = py_repr k @ '': ''"

record kimi_line =
  kl_input_length :: "int option"
  kl_request_id :: "string option"
  kl_conversation_id :: "string option"
  kl_output_length :: "int option"
  kl_cached_tokens :: "int option"
  kl_arrival_seconds :: "rat option"
  kl_finished_seconds :: "rat option"
  kl_ttft_seconds :: "rat option"
  kl_dp_rank :: "int option"
  kl_input_ids_redacted :: bool
  kl_output_ids_redacted :: bool

text \<open>\<open>cast(match.group(1)) if match else None\<close>\<close>

definition cast_group :: "(string \<Rightarrow> exn + 'a) \<Rightarrow> string option \<Rightarrow> exn + 'a option" where
  "cast_group cast g = (case g of None \<Rightarrow> Inr None | Some s \<Rightarrow> (case cast s of Inl e \<Rightarrow> Inl e | Inr v \<Rightarrow> Inr (Some v)))"

definition find_int :: "string \<Rightarrow> string \<Rightarrow> exn + int option" where
  "find_int literal line = cast_group int_of_text (search_group literal (some_of is_digit) line)"

definition find_float :: "string \<Rightarrow> string \<Rightarrow> exn + rat option" where
  "find_float key line = cast_group float_of_text (search_group (quoted_key key) (some_of float_char) line)"

definition find_text :: "string \<Rightarrow> string \<Rightarrow> string option" where
  "find_text key line = search_group (key @ [CHR ''='', CHR 0x27]) quoted line"

definition contains :: "string \<Rightarrow> string \<Rightarrow> bool" where
  "contains needle line = list_ex (prefix needle) (suffixes line)"

text \<open>The fields in the table's order, so that the first cast that fails raises.\<close>

definition kimi_fields :: "string \<Rightarrow> exn + kimi_line" where
  "kimi_fields line =
     (case find_int ''Finish: input_ids_len='' line of Inl e \<Rightarrow> Inl e | Inr input_length \<Rightarrow>
     (case find_int (quoted_key ''completion_tokens'') line of Inl e \<Rightarrow> Inl e | Inr output_length \<Rightarrow>
     (case find_int (quoted_key ''cached_tokens'') line of Inl e \<Rightarrow> Inl e | Inr cached \<Rightarrow>
     (case find_float ''request_received_ts'' line of Inl e \<Rightarrow> Inl e | Inr arrival \<Rightarrow>
     (case find_float ''request_finished_ts'' line of Inl e \<Rightarrow> Inl e | Inr finished \<Rightarrow>
     (case find_float ''ttft'' line of Inl e \<Rightarrow> Inl e | Inr ttft \<Rightarrow>
     (case cast_group int_of_text (search_group (quoted_key ''dp_rank'') signed_digits line) of Inl e \<Rightarrow> Inl e | Inr rank \<Rightarrow>
        Inr \<lparr>kl_input_length = input_length, kl_request_id = find_text ''rid'' line,
          kl_conversation_id = find_text ''conversation_id'' line, kl_output_length = output_length,
          kl_cached_tokens = cached, kl_arrival_seconds = arrival, kl_finished_seconds = finished,
          kl_ttft_seconds = ttft, kl_dp_rank = rank,
          kl_input_ids_redacted = contains ''<REDACTED_INPUT_IDS>'' line,
          kl_output_ids_redacted = contains ''<REDACTED_OUTPUT_IDS>'' line\<rparr>)))))))"

definition missing_field :: "string \<Rightarrow> exn" where
  "missing_field k = ValueError (''missing Kimi field '' @ k)"

definition parse_kimi_line :: "string \<Rightarrow> exn + kimi_line option" where
  "parse_kimi_line line =
     (if \<not> prefix ''Finish:'' line then Inr None
      else case kimi_fields line of
          Inl e \<Rightarrow> Inl e
        | Inr r \<Rightarrow>
            if kl_request_id r = None then Inl (missing_field ''request_id'')
            else if kl_input_length r = None then Inl (missing_field ''input_length'')
            else if kl_output_length r = None then Inl (missing_field ''output_length'')
            else if kl_arrival_seconds r = None then Inl (missing_field ''arrival_seconds'')
            else Inr (Some r))"

section \<open>Surrogate tokens\<close>

text \<open>
  \<open>struct.unpack("<16I", payload)\<close>: sixteen little-endian words of the digest of the block.
  \<open>shake\<close> is \<open>hashlib.shake_256(text).digest(64)\<close>.
\<close>

type_synonym digest = "string \<Rightarrow> 8 word list"

fun unpack_words :: "nat \<Rightarrow> 8 word list \<Rightarrow> 32 word list" where
  "unpack_words 0 bs = []"
| "unpack_words (Suc n) bs = word_rcat (rev (take 4 bs)) # unpack_words n (drop 4 bs)"

definition block_tokens :: "digest \<Rightarrow> int \<Rightarrow> token list" where
  "block_tokens shake block_hash =
     map (\<lambda>number. 1000 + uint number mod 30000) (unpack_words 16 (shake (''fluidkv-block-v1:'' @ str_int block_hash)))"

record qwen_row =
  qr_chat_id :: int
  qr_parent_chat_id :: int
  qr_kind :: "string option"
  qr_timestamp :: seconds
  qr_input_length :: int
  qr_output_length :: int
  qr_hash_ids :: "int list"

text \<open>\<open>length <= 0 or len(hash_ids) != math.ceil(length / 16)\<close>\<close>

definition bad_blocks :: "qwen_row \<Rightarrow> bool" where
  "bad_blocks row \<longleftrightarrow> qr_input_length row \<le> 0 \<or>
     int (length (qr_hash_ids row)) \<noteq> \<lceil>of_int (qr_input_length row) / (16 :: rat)\<rceil>"

definition surrogate_tokens :: "digest \<Rightarrow> qwen_row \<Rightarrow> exn + token list" where
  "surrogate_tokens shake row =
     (if bad_blocks row then Inl (ValueError ''input length and hash block count disagree'')
      else Inr (take (nat (qr_input_length row)) (concat (map (block_tokens shake) (qr_hash_ids row)))))"

section \<open>Inspection\<close>

text \<open>\<open>by_id\<close> of the first pass. Timestamps are rationals, so \<open>math.isfinite\<close> holds of each.\<close>

type_synonym row_index = "int \<Rightarrow> qwen_row option"

fun index_rows :: "qwen_row list \<Rightarrow> row_index \<Rightarrow> exn + row_index" where
  "index_rows [] by_id = Inr by_id"
| "index_rows (row # rows) by_id =
     (let chat_id = qr_chat_id row in
      if by_id chat_id \<noteq> None then Inl (ValueError (''duplicate chat id '' @ str_int chat_id))
      else if bad_blocks row then Inl (ValueError (''invalid block count for '' @ str_int chat_id))
      else if qr_output_length row < 0 then Inl (ValueError (''invalid timestamp or output length for '' @ str_int chat_id))
      else index_rows rows (by_id(chat_id \<mapsto> row)))"

text \<open>A \<open>Counter\<close>: its items in the order the keys came.\<close>

type_synonym 'k counter = "('k \<times> int) list"

fun bump :: "'k \<Rightarrow> 'k counter \<Rightarrow> 'k counter" where
  "bump k [] = [(k, 1)]"
| "bump k ((q, n) # c) = (if q = k then (q, n + 1) # c else (q, n) # bump k c)"

record qwen_pair =
  qp_parent_id :: int
  qp_child_id :: int
  qp_parent_tokens :: int
  qp_child_tokens :: int
  qp_parent_arrival :: seconds
  qp_child_arrival :: seconds
  qp_arrival_delta :: seconds

record qwen_counts =
  qc_root_requests :: int
  qc_missing_parents :: int
  qc_linked_requests :: int
  qc_overlap_tokens :: int
  qc_linked_input_tokens :: int
  qc_partial_boundary :: int
  qc_not_fully_matched :: int
  qc_exact_pairs :: int
  qc_types :: "string counter"
  qc_children :: "int counter"
  qc_pairs :: "qwen_pair list"

definition no_counts :: qwen_counts where
  "no_counts = \<lparr>qc_root_requests = 0, qc_missing_parents = 0, qc_linked_requests = 0, qc_overlap_tokens = 0,
     qc_linked_input_tokens = 0, qc_partial_boundary = 0, qc_not_fully_matched = 0, qc_exact_pairs = 0,
     qc_types = [], qc_children = [], qc_pairs = []\<rparr>"

text \<open>Blocks shared from the start, and the input tokens they certainly cover.\<close>

fun matched_blocks :: "int list \<Rightarrow> int list \<Rightarrow> nat" where
  "matched_blocks (l # ls) (r # rs) = (if l \<noteq> r then 0 else Suc (matched_blocks ls rs))"
| "matched_blocks _ _ = 0"

definition overlap_tokens :: "qwen_row \<Rightarrow> qwen_row \<Rightarrow> int" where
  "overlap_tokens parent child =
     min (min (16 * int (matched_blocks (qr_hash_ids parent) (qr_hash_ids child))) (qr_input_length parent)) (qr_input_length child)"

definition pair_of :: "qwen_row \<Rightarrow> qwen_row \<Rightarrow> qwen_pair" where
  "pair_of parent child =
     \<lparr>qp_parent_id = qr_parent_chat_id child, qp_child_id = qr_chat_id child,
      qp_parent_tokens = qr_input_length parent, qp_child_tokens = qr_input_length child,
      qp_parent_arrival = qr_timestamp parent, qp_child_arrival = qr_timestamp child,
      qp_arrival_delta = qr_timestamp child - qr_timestamp parent\<rparr>"

text \<open>What a child linked to its parent adds.\<close>

definition count_link :: "int \<Rightarrow> qwen_row \<Rightarrow> qwen_row \<Rightarrow> qwen_counts \<Rightarrow> qwen_counts" where
  "count_link max_pair_tokens parent child c =
     (let plen = qr_input_length parent; clen = qr_input_length child; overlap = overlap_tokens parent child;
          exact = plen mod 16 = 0 \<and> overlap = plen;
          eligible = exact \<and> max plen clen \<le> max_pair_tokens \<and> plen < clen in
      c\<lparr>qc_linked_requests := qc_linked_requests c + 1,
        qc_children := bump (qr_parent_chat_id child) (qc_children c),
        qc_overlap_tokens := qc_overlap_tokens c + overlap,
        qc_linked_input_tokens := qc_linked_input_tokens c + clen,
        qc_partial_boundary := qc_partial_boundary c + (if plen mod 16 \<noteq> 0 then 1 else 0),
        qc_not_fully_matched := qc_not_fully_matched c + (if overlap \<noteq> plen then 1 else 0),
        qc_exact_pairs := qc_exact_pairs c + (if exact then 1 else 0),
        qc_pairs := qc_pairs c @ (if eligible then [pair_of parent child] else [])\<rparr>)"

fun count_children :: "int \<Rightarrow> row_index \<Rightarrow> qwen_row list \<Rightarrow> qwen_counts \<Rightarrow> exn + qwen_counts" where
  "count_children max_pair_tokens by_id [] c = Inr c"
| "count_children max_pair_tokens by_id (child # rows) c =
     (let c = c\<lparr>qc_types := bump (case qr_kind child of Some k \<Rightarrow> k | None \<Rightarrow> ''unknown'') (qc_types c)\<rparr>;
          parent_id = qr_parent_chat_id child in
      if parent_id < 0
      then count_children max_pair_tokens by_id rows (c\<lparr>qc_root_requests := qc_root_requests c + 1\<rparr>)
      else case by_id parent_id of
          None \<Rightarrow> count_children max_pair_tokens by_id rows (c\<lparr>qc_missing_parents := qc_missing_parents c + 1\<rparr>)
        | Some parent \<Rightarrow>
            if qr_timestamp child \<le> qr_timestamp parent
            then Inl (ValueError (''non-increasing parent timestamp for '' @ str_int (qr_chat_id child)))
            else count_children max_pair_tokens by_id rows (count_link max_pair_tokens parent child c))"

record qwen_summary =
  qs_counts :: qwen_counts
  qs_requests :: int
  qs_types :: "string counter"
  qs_max_children :: int
  qs_eligible_pair_count :: int
  qs_max_pair_tokens :: int
  qs_input_tokens :: int
  qs_output_tokens :: int
  qs_span_seconds :: seconds

text \<open>\<open>max(values, default=0)\<close> and \<open>min(values, default=0)\<close>\<close>

definition max_or_0 :: "'a :: {linorder, zero} list \<Rightarrow> 'a" where
  "max_or_0 xs = (case xs of [] \<Rightarrow> 0 | x # xs \<Rightarrow> fold max xs x)"

definition min_or_0 :: "'a :: {linorder, zero} list \<Rightarrow> 'a" where
  "min_or_0 xs = (case xs of [] \<Rightarrow> 0 | x # xs \<Rightarrow> fold min xs x)"

definition pair_order :: "qwen_pair \<Rightarrow> seconds \<times> int" where
  "pair_order p = (qp_child_arrival p, qp_child_id p)"

definition inspect_qwen_rows :: "qwen_row list \<Rightarrow> int \<Rightarrow> exn + qwen_summary \<times> qwen_pair list" where
  "inspect_qwen_rows rows max_pair_tokens =
     (case index_rows rows Map.empty of Inl e \<Rightarrow> Inl e | Inr by_id \<Rightarrow>
     (case count_children max_pair_tokens by_id rows no_counts of Inl e \<Rightarrow> Inl e | Inr c \<Rightarrow>
        let pairs = sort_key pair_order (qc_pairs c); times = map qr_timestamp rows in
        Inr (\<lparr>qs_counts = c, qs_requests = int (length rows), qs_types = qc_types c,
           qs_max_children = max_or_0 (map snd (qc_children c)), qs_eligible_pair_count = int (length pairs),
           qs_max_pair_tokens = max_pair_tokens, qs_input_tokens = sum_list (map qr_input_length rows),
           qs_output_tokens = sum_list (map qr_output_length rows),
           qs_span_seconds = max_or_0 times - min_or_0 times\<rparr>, pairs)))"

section \<open>The cohort\<close>

definition row_order :: "qwen_row \<Rightarrow> seconds \<times> int" where
  "row_order row = (qr_timestamp row, qr_chat_id row)"

definition rows_by_id :: "qwen_row list \<Rightarrow> row_index" where
  "rows_by_id rows = map_of (rev (map (\<lambda>row. (qr_chat_id row, row)) rows))"

definition exact_parent :: "qwen_row \<Rightarrow> qwen_row \<Rightarrow> bool" where
  "exact_parent parent child \<longleftrightarrow> qr_input_length parent mod 16 = 0 \<and> qr_input_length parent < qr_input_length child \<and>
     take (length (qr_hash_ids parent)) (qr_hash_ids child) = qr_hash_ids parent"

text \<open>The loop; \<open>selected\<close> is the set as a list without repetitions.\<close>

fun select_from :: "row_index \<Rightarrow> int \<Rightarrow> qwen_row list \<Rightarrow> int list \<Rightarrow> int list" where
  "select_from by_id max_requests [] selected = selected"
| "select_from by_id max_requests (child # rows) selected =
     (case by_id (qr_parent_chat_id child) of
        None \<Rightarrow> select_from by_id max_requests rows selected
      | Some parent \<Rightarrow>
          if \<not> exact_parent parent child then select_from by_id max_requests rows selected
          else
            let additions = filter (\<lambda>k. k \<notin> set selected) (remdups [qr_chat_id parent, qr_chat_id child]) in
            if max_requests < int (length selected + length additions) then select_from by_id max_requests rows selected
            else if int (length (selected @ additions)) = max_requests then selected @ additions
            else select_from by_id max_requests rows (selected @ additions))"

definition select_exact_parent_cohort :: "qwen_row list \<Rightarrow> int \<Rightarrow> qwen_row list" where
  "select_exact_parent_cohort rows max_requests =
     (let by_id = rows_by_id rows; selected = select_from by_id max_requests (sort_key row_order rows) [] in
      sort_key row_order (map (\<lambda>key. the (by_id key)) selected))"

end
