(* ===== verification/Lifecycle.thy ===== *)
theory Lifecycle
  imports Handover Production
begin

text \<open>
  \<open>experiments/fluidkv/engine_lifecycle.py\<close>: releasing a drained engine and starting it
  again. The operating system, \<open>psutil\<close>, \<open>nvidia-smi\<close> and the engine's endpoint are a world
  whose answers may change at every look at it: each call reads it as a function of the
  calls made so far, which are the state of the programs here.
\<close>

section \<open>The world\<close>

text \<open>An incarnation of a process: its number and when it was created.\<close>

record incarnation =
  in_pid :: int
  in_create_time :: rat

datatype signal = SIGTERM | SIGKILL

datatype happening =
    Saw int
  | Enumerated
  | Descended incarnation
  | Measured string
  | Dialled string
  | Asked_health string
  | Clocked
  | Paused seconds
  | Sent signal incarnation
  | Opened string
  | Spawned "string list" string "(string \<times> string) list"
  | Polled int

type_synonym history = "happening list"

record process_view =
  pv_create_time :: rat
  pv_running :: bool
  pv_zombie :: bool
  pv_cmdline :: "string list"
  pv_uid :: int
  pv_environ :: "(string \<times> string) list"
  pv_cwd :: string

record url_parts =
  up_scheme :: string
  up_hostname :: "string option"
  up_username :: "string option"
  up_password :: "string option"
  up_path :: string
  up_query :: string
  up_fragment :: string
  up_port :: "exn + int option"

text \<open>
  \<open>ow_process\<close> is what \<open>psutil\<close> tells of a process number, or the exception it raises;
  \<open>ow_signal\<close> an exception that sending a signal raises. \<open>ow_rows\<close> are the rows that a query
  of \<open>nvidia-smi\<close> prints.
\<close>

record os_world =
  ow_urlsplit :: "string \<Rightarrow> url_parts"
  ow_process :: "history \<Rightarrow> int \<Rightarrow> exn + process_view"
  ow_processes :: "history \<Rightarrow> incarnation list"
  ow_children :: "history \<Rightarrow> incarnation \<Rightarrow> exn + incarnation list"
  ow_rows :: "history \<Rightarrow> string \<Rightarrow> exn + string list list"
  ow_connects :: "history \<Rightarrow> string \<Rightarrow> bool"
  ow_health :: "history \<Rightarrow> string \<Rightarrow> exn + int"
  ow_clock :: "history \<Rightarrow> seconds"
  ow_signal :: "history \<Rightarrow> signal \<Rightarrow> incarnation \<Rightarrow> exn option"
  ow_open :: "history \<Rightarrow> string \<Rightarrow> exn option"
  ow_spawn :: "history \<Rightarrow> string list \<Rightarrow> exn + int"
  ow_poll :: "history \<Rightarrow> int \<Rightarrow> int option"
  ow_show_seconds :: "seconds \<Rightarrow> string"
  ow_getpid :: int
  ow_getuid :: int

definition call_world :: "happening \<Rightarrow> (history \<Rightarrow> exn + 'a) \<Rightarrow> (history, 'a) prog" where
  "call_world ev f l = (f l, l @ [ev])"

definition see :: "os_world \<Rightarrow> int \<Rightarrow> (history, process_view) prog" where
  "see W pid = call_world (Saw pid) (\<lambda>l. ow_process W l pid)"

definition read_time :: "os_world \<Rightarrow> (history, seconds) prog" where
  "read_time W = call_world Clocked (\<lambda>l. Inr (ow_clock W l))"

definition pause :: "seconds \<Rightarrow> (history, unit) prog" where
  "pause d = call_world (Paused d) (\<lambda>_. Inr ())"

definition send_signal :: "os_world \<Rightarrow> signal \<Rightarrow> incarnation \<Rightarrow> (history, unit) prog" where
  "send_signal W sig p =
     call_world (Sent sig p) (\<lambda>l. case ow_signal W l sig p of None \<Rightarrow> Inr () | Some e \<Rightarrow> Inl e)"

fun is_no_such_process :: "exn \<Rightarrow> bool" where
  "is_no_such_process (NoSuchProcess _) = True"
| "is_no_such_process _ = False"

fun is_access_denied :: "exn \<Rightarrow> bool" where
  "is_access_denied (AccessDenied _) = True"
| "is_access_denied _ = False"

text \<open>\<open>except psutil.NoSuchProcess\<close>\<close>

definition unless_gone :: "(history, 'a) prog \<Rightarrow> 'a \<Rightarrow> (history, 'a) prog" where
  "unless_gone m a = try_except m (\<lambda>e. if is_no_such_process e then ret a else throw e)"

section \<open>Endpoints and command lines\<close>

definition environment_keys :: "string list" where
  "environment_keys = [''PATH'', ''PYTHONPATH'', ''LD_LIBRARY_PATH'', ''CUDA_VISIBLE_DEVICES'', ''CUDA_DEVICE_ORDER'',
     ''OMP_NUM_THREADS'', ''MKL_NUM_THREADS'', ''LANG'', ''LC_ALL'', ''TMPDIR'', ''NCCL_IB_DISABLE'', ''NCCL_P2P_DISABLE'',
     ''NCCL_SHM_DISABLE'', ''NCCL_SOCKET_IFNAME'', ''NCCL_IB_HCA'', ''HF_HUB_OFFLINE'', ''TRANSFORMERS_OFFLINE'']"

definition local_hosts :: "string list" where
  "local_hosts = [''localhost'', ''127.0.0.1'', ''::1'']"

definition endpoint :: "os_world \<Rightarrow> string \<Rightarrow> exn + string \<times> int" where
  "endpoint W url =
     (let u = ow_urlsplit W url; bad = Inl (ValueError ''engine lifecycle requires an explicit local HTTP host and port'')
      in case up_hostname u of None \<Rightarrow> bad | Some host \<Rightarrow>
        if up_scheme u \<noteq> ''http'' \<or> host \<notin> set local_hosts \<or> up_username u \<noteq> None \<or> up_password u \<noteq> None \<or>
           up_path u \<notin> {[], ''/''} \<or> up_query u \<noteq> [] \<or> up_fragment u \<noteq> [] then bad
        else case up_port u of Inl e \<Rightarrow> Inl e | Inr None \<Rightarrow> bad | Inr (Some port) \<Rightarrow> Inr (host, port))"

definition after_equals :: "string \<Rightarrow> string" where
  "after_equals arg = tl (dropWhile (\<lambda>c. c \<noteq> CHR ''='') arg)"

fun option_of :: "string list \<Rightarrow> string \<Rightarrow> string option \<Rightarrow> string option" where
  "option_of [] name fallback = fallback"
| "option_of (arg # argv) name fallback =
     (if arg = name \<and> argv \<noteq> [] then Some (hd argv)
      else if prefix (name @ ''='') arg then Some (after_equals arg)
      else option_of argv name fallback)"

fun launches_server :: "string list \<Rightarrow> bool" where
  "launches_server (a # b # argv) = (a = ''-m'' \<and> b = ''sglang.launch_server'' \<or> launches_server (b # argv))"
| "launches_server _ = False"

definition matches_launch :: "string list \<Rightarrow> int \<Rightarrow> bool" where
  "matches_launch argv port \<longleftrightarrow> launches_server argv \<and> option_of argv ''--port'' None = Some (str_int port) \<and>
     (case option_of argv ''--host'' (Some ''127.0.0.1'') of None \<Rightarrow> False | Some host \<Rightarrow> host \<in> set local_hosts)"

definition lower_char :: "char \<Rightarrow> char" where
  "lower_char c = (if CHR ''A'' \<le> c \<and> c \<le> CHR ''Z'' then char_of (of_char c + (32 :: nat)) else c)"

definition credential_bearing :: "string \<Rightarrow> bool" where
  "credential_bearing arg \<longleftrightarrow> prefix ''--'' arg \<and>
     list_ex (\<lambda>key. contains key (takeWhile (\<lambda>c. c \<noteq> CHR ''='') (map lower_char arg)))
       [''api-key'', ''auth-token'', ''password'', ''secret'', ''access-token'']"

definition check_safe_arguments :: "string list \<Rightarrow> exn + unit" where
  "check_safe_arguments argv =
     (if list_ex credential_bearing argv
      then Inl (ValueError ''credential-bearing server command is outside lifecycle scope'') else Inr ())"

section \<open>Processes\<close>

record gpu_process =
  gq_pid :: int
  gq_gpu_uuid :: string
  gq_used_memory_mib :: "rat option"

record gpu =
  gg_uuid :: string
  gg_pci_bus_id :: string
  gg_memory_used_mib :: "rat option"

record engine_identity =
  ei_process :: incarnation
  ei_url :: string
  ei_cmdline :: "string list"
  ei_cwd :: string
  ei_environment :: "(string \<times> string) list"
  ei_owned_processes :: "incarnation list"
  ei_gpu_uuids :: "string list"
  ei_captured_monotonic :: seconds
  ei_compute_processes :: "gpu_process list"
  ei_gpus :: "gpu list"

text \<open>
  \<open>_same_process\<close>: the process with this number, when it is still the same incarnation.
  \<open>is_running\<close> compares the creation times again.
\<close>

definition same_process :: "os_world \<Rightarrow> incarnation \<Rightarrow> (history, incarnation option) prog" where
  "same_process W p =
     unless_gone (bindP (see W (in_pid p)) (\<lambda>v.
       if pv_create_time v \<noteq> in_create_time p then ret None
       else bindP (see W (in_pid p)) (\<lambda>u.
         ret (if pv_create_time u \<noteq> in_create_time p \<or> \<not> pv_running u \<or> pv_zombie u then None else Some p)))) None"

text \<open>\<open>_process_identity\<close> of a process that may be gone by now.\<close>

definition identify :: "os_world \<Rightarrow> incarnation \<Rightarrow> (history, incarnation option) prog" where
  "identify W p = unless_gone (bindP (see W (in_pid p)) (\<lambda>_. ret (Some p))) None"

definition identity_changed :: exn where
  "identity_changed = RuntimeError ''owned engine identity changed or PID is no longer alive''"

definition validate_root :: "os_world \<Rightarrow> engine_identity \<Rightarrow> (history, incarnation) prog" where
  "validate_root W i =
     bindP (liftS (endpoint W (ei_url i))) (\<lambda>(_, port).
     bindP (same_process W (ei_process i)) (\<lambda>found. case found of
       None \<Rightarrow> throw identity_changed
     | Some p \<Rightarrow>
         bindP (see W (in_pid p)) (\<lambda>v. thenP (guardP (pv_cmdline v = ei_cmdline i) identity_changed)
        (bindP (see W (in_pid p)) (\<lambda>v. thenP (guardP (matches_launch (pv_cmdline v) port) identity_changed)
        (bindP (see W (in_pid p)) (\<lambda>v. thenP (guardP (pv_uid v = ow_getuid W \<and> in_pid p \<noteq> ow_getpid W) identity_changed)
        (bindP (see W (in_pid p)) (\<lambda>v. thenP (liftS (check_safe_arguments (pv_cmdline v))) (ret p))))))))))"

definition numeric :: "string \<Rightarrow> rat option" where
  "numeric s = (case float_of_text s of Inl _ \<Rightarrow> None | Inr r \<Rightarrow> Some r)"

definition gpu_process_row :: "string list \<Rightarrow> gpu_process option" where
  "gpu_process_row row = (case row of
     [pid, uuid, used] \<Rightarrow> (case digits_from 0 False pid of
         Some n \<Rightarrow> if pid \<noteq> [] \<and> list_all is_digit pid
           then Some \<lparr>gq_pid = n, gq_gpu_uuid = uuid, gq_used_memory_mib = numeric used\<rparr> else None
       | None \<Rightarrow> None)
   | _ \<Rightarrow> None)"

definition gpu_row :: "string list \<Rightarrow> gpu option" where
  "gpu_row row = (case row of
     [uuid, bus, used] \<Rightarrow> Some \<lparr>gg_uuid = uuid, gg_pci_bus_id = bus, gg_memory_used_mib = numeric used\<rparr>
   | _ \<Rightarrow> None)"

definition query_gpus :: "os_world \<Rightarrow> string \<Rightarrow> (history, string list list) prog" where
  "query_gpus W what = call_world (Measured what) (\<lambda>l. ow_rows W l what)"

definition gpu_snapshot :: "os_world \<Rightarrow> (history, gpu_process list \<times> gpu list) prog" where
  "gpu_snapshot W =
     bindP (query_gpus W ''--query-compute-apps=pid,gpu_uuid,used_memory'') (\<lambda>apps.
     bindP (query_gpus W ''--query-gpu=uuid,pci.bus_id,memory.used'') (\<lambda>gpus.
       ret (List.map_filter gpu_process_row apps, List.map_filter gpu_row gpus)))"

section \<open>Capturing an engine\<close>

fun filterP :: "('a \<Rightarrow> ('s, bool) prog) \<Rightarrow> 'a list \<Rightarrow> ('s, 'a list) prog" where
  "filterP f [] = ret []"
| "filterP f (x # xs) = bindP (f x) (\<lambda>b. bindP (filterP f xs) (\<lambda>ys. ret (if b then x # ys else ys)))"

text \<open>\<open>url.rstrip("/")\<close>\<close>

definition without_slashes :: "string \<Rightarrow> string" where
  "without_slashes url = rev (dropWhile (\<lambda>c. c = CHR 0x2F) (rev url))"

definition launched_here :: "os_world \<Rightarrow> int \<Rightarrow> incarnation \<Rightarrow> (history, bool) prog" where
  "launched_here W port p =
     try_except
       (bindP (see W (in_pid p)) (\<lambda>v. if \<not> matches_launch (pv_cmdline v) port then ret False else
        bindP (see W (in_pid p)) (\<lambda>v. if pv_uid v \<noteq> ow_getuid W then ret False else
        bindP (see W (in_pid p)) (\<lambda>v. if pv_create_time v \<noteq> in_create_time p \<or> \<not> pv_running v then ret False else
        bindP (see W (in_pid p)) (\<lambda>v. ret (\<not> pv_zombie v))))))
       (\<lambda>e. if is_no_such_process e \<or> is_access_denied e then ret False else throw e)"

definition list_children :: "os_world \<Rightarrow> incarnation \<Rightarrow> (history, incarnation list) prog" where
  "list_children W p = call_world (Descended p) (\<lambda>l. ow_children W l p)"

definition capture_owned_engine :: "os_world \<Rightarrow> string \<Rightarrow> (history, engine_identity) prog" where
  "capture_owned_engine W url =
     bindP (liftS (endpoint W url)) (\<lambda>(_, port).
     bindP (call_world Enumerated (\<lambda>l. Inr (ow_processes W l))) (\<lambda>processes.
     bindP (filterP (launched_here W port) processes) (\<lambda>matches.
     thenP (guardP (length matches = 1) (RuntimeError (''expected exactly one owned SGLang launch process on port '' @
       str_int port @ ''; found '' @ str_nat (length matches))))
    (let proc = hd matches in
     thenP (guardP (in_pid proc \<noteq> ow_getpid W) (RuntimeError ''refusing to capture the experiment process itself''))
    (bindP (see W (in_pid proc)) (\<lambda>v. let argv = pv_cmdline v in
     thenP (liftS (check_safe_arguments argv))
    (bindP (list_children W proc) (\<lambda>children.
     bindP (mapP (identify W) children) (\<lambda>identified.
     bindP (gpu_snapshot W) (\<lambda>(apps, gpus).
     bindP (see W (in_pid proc)) (\<lambda>v.
     bindP (see W (in_pid proc)) (\<lambda>u.
     bindP (read_time W) (\<lambda>now.
     let owned = proc # List.map_filter id identified;
         mine = filter (\<lambda>q. gq_pid q \<in> set (map in_pid owned)) apps;
         uuids = sort (remdups (map gq_gpu_uuid mine)) in
       ret \<lparr>ei_process = proc, ei_url = without_slashes url, ei_cmdline = argv, ei_cwd = pv_cwd u,
         ei_environment = filter (\<lambda>kv. fst kv \<in> set environment_keys) (pv_environ v),
         ei_owned_processes = owned, ei_gpu_uuids = uuids, ei_captured_monotonic = now,
         ei_compute_processes = mine, ei_gpus = filter (\<lambda>g. gg_uuid g \<in> set uuids) gpus\<rparr>)))))))))))))"

definition endpoint_responds :: "os_world \<Rightarrow> string \<Rightarrow> (history, bool) prog" where
  "endpoint_responds W url =
     bindP (liftS (endpoint W url)) (\<lambda>_. call_world (Dialled url) (\<lambda>l. Inr (ow_connects W l url)))"

fun is_os_error :: "exn \<Rightarrow> bool" where
  "is_os_error (OSError _) = True"
| "is_os_error (TimeoutError _) = True"
| "is_os_error _ = False"

definition http_ready :: "os_world \<Rightarrow> string \<Rightarrow> (history, bool) prog" where
  "http_ready W url =
     try_except (bindP (call_world (Asked_health (without_slashes url @ ''/health''))
           (\<lambda>l. ow_health W l (without_slashes url @ ''/health''))) (\<lambda>status. ret (status = 200)))
       (\<lambda>e. if is_os_error e then ret False else throw e)"

section \<open>Releasing an engine\<close>

record release_evidence =
  re_monotonic :: seconds
  re_live_owned :: "int list"
  re_gpu_processes :: "gpu_process list"
  re_gpus :: "gpu list"
  re_endpoint_responds :: bool

datatype release_observation = Observed release_evidence | Unobserved seconds string

record release_result =
  rl_process :: incarnation
  rl_url :: string
  rl_gpu_uuids :: "string list"
  rl_released :: bool
  rl_graceful :: bool
  rl_forced_kill :: bool
  rl_confirmed_monotonic :: "seconds option"
  rl_observations :: "release_observation list"
  rl_signal_monotonic :: seconds
  rl_killed_pids :: "int list"
  rl_shutdown_seconds :: "seconds option"
  rl_error :: "string option"

record release_plan =
  rp_graceful_timeout :: seconds
  rp_confirmation_timeout :: seconds
  rp_poll_seconds :: seconds

definition observe_release ::
  "os_world \<Rightarrow> engine_identity \<Rightarrow> incarnation list \<Rightarrow> (history, release_evidence) prog" where
  "observe_release W i owned =
     bindP (gpu_snapshot W) (\<lambda>(apps, gpus).
     bindP (read_time W) (\<lambda>now.
     bindP (filterP (\<lambda>p. bindP (same_process W p) (\<lambda>found. ret (found \<noteq> None))) owned) (\<lambda>live.
     bindP (endpoint_responds W (ei_url i)) (\<lambda>responds.
       ret \<lparr>re_monotonic = now, re_live_owned = map in_pid live,
         re_gpu_processes = filter (\<lambda>q. gq_pid q \<in> set (map in_pid owned)) apps,
         re_gpus = filter (\<lambda>g. gg_uuid g \<in> set (ei_gpu_uuids i)) gpus, re_endpoint_responds = responds\<rparr>))))"

definition observe_again ::
  "os_world \<Rightarrow> engine_identity \<Rightarrow> incarnation list \<Rightarrow> (history, release_observation) prog" where
  "observe_again W i owned =
     catching (bindP (observe_release W i owned) (\<lambda>ev. ret (Observed ev)))
       (\<lambda>e. bindP (read_time W) (\<lambda>now. ret (Unobserved now (exn_str e))))"

fun disappeared :: "string set \<Rightarrow> release_observation \<Rightarrow> bool" where
  "disappeared uuids (Observed ev) \<longleftrightarrow> re_live_owned ev = [] \<and> re_gpu_processes ev = [] \<and>
     \<not> re_endpoint_responds ev \<and> uuids \<subseteq> set (map gg_uuid (re_gpus ev))"
| "disappeared uuids (Unobserved _ _) \<longleftrightarrow> False"

fun observation_time :: "release_observation \<Rightarrow> seconds" where
  "observation_time (Observed ev) = re_monotonic ev"
| "observation_time (Unobserved now _) = now"

text \<open>One process of the fallback: checked again, then killed. It returns what was killed.\<close>

definition kill_checked :: "os_world \<Rightarrow> incarnation \<Rightarrow> (history, int list) prog" where
  "kill_checked W p =
     bindP (same_process W p) (\<lambda>found. case found of
       None \<Rightarrow> ret []
     | Some q \<Rightarrow> unless_gone (thenP (send_signal W SIGKILL q) (ret [in_pid p])) [])"

definition kill_remaining ::
  "os_world \<Rightarrow> engine_identity \<Rightarrow> incarnation list \<Rightarrow> release_result \<Rightarrow> (history, release_result) prog" where
  "kill_remaining W i owned r =
     bindP (filterP (\<lambda>p. bindP (same_process W p) (\<lambda>found. ret (found \<noteq> None))) owned) (\<lambda>live.
       if live = [] then ret r
       else bindP (mapP (kill_checked W) (sort_key (\<lambda>p. in_pid p = in_pid (ei_process i)) live)) (\<lambda>killed.
         ret (r\<lparr>rl_forced_kill := True, rl_killed_pids := rl_killed_pids r @ concat killed\<rparr>)))"

definition confirm_release :: "release_observation \<Rightarrow> release_result \<Rightarrow> release_result" where
  "confirm_release ob r = r\<lparr>rl_released := True, rl_graceful := \<not> rl_forced_kill r,
     rl_confirmed_monotonic := Some (observation_time ob),
     rl_shutdown_seconds := Some (observation_time ob - rl_signal_monotonic r)\<rparr>"

fun release_loop ::
  "os_world \<Rightarrow> engine_identity \<Rightarrow> incarnation list \<Rightarrow> string set \<Rightarrow> seconds \<Rightarrow> seconds \<Rightarrow> seconds \<Rightarrow> nat \<Rightarrow>
    nat \<Rightarrow> release_result \<Rightarrow> (history, release_result) prog" where
  "release_loop W i owned uuids deadline hard poll 0 empties r = throw Unfinished"
| "release_loop W i owned uuids deadline hard poll (Suc fuel) empties r =
     bindP (read_time W) (\<lambda>now.
       if hard < now
       then ret (r\<lparr>rl_error := Some ''physical GPU/process/endpoint disappearance was not confirmed before timeout''\<rparr>)
       else bindP (observe_again W i owned) (\<lambda>ob.
         let r = r\<lparr>rl_observations := rl_observations r @ [ob]\<rparr>;
             empties = (if disappeared uuids ob then Suc empties else 0) in
         if 2 \<le> empties then ret (confirm_release ob r)
         else bindP (read_time W) (\<lambda>now.
           bindP (if deadline \<le> now \<and> \<not> rl_forced_kill r then kill_remaining W i owned r else ret r) (\<lambda>r.
             thenP (pause poll) (release_loop W i owned uuids deadline hard poll fuel empties r)))))"

definition add_owned :: "incarnation list \<Rightarrow> incarnation list \<Rightarrow> incarnation list" where
  "add_owned owned ps = fold (\<lambda>p os. if p \<in> set os then os else os @ [p]) ps owned"

definition release_owned :: "os_world \<Rightarrow> engine_identity \<Rightarrow> incarnation \<Rightarrow> (history, incarnation list) prog" where
  "release_owned W i proc =
     bindP (list_children W proc) (\<lambda>children.
     bindP (mapP (identify W) (proc # children)) (\<lambda>identified.
       ret (add_owned [] (ei_owned_processes i @ List.map_filter id identified))))"

definition new_release :: "engine_identity \<Rightarrow> release_evidence \<Rightarrow> seconds \<Rightarrow> release_result" where
  "new_release i before signalled =
     \<lparr>rl_process = ei_process i, rl_url = ei_url i, rl_gpu_uuids = ei_gpu_uuids i, rl_released = False,
      rl_graceful = False, rl_forced_kill = False, rl_confirmed_monotonic = None,
      rl_observations = [Observed before], rl_signal_monotonic = signalled, rl_killed_pids = [],
      rl_shutdown_seconds = None, rl_error = None\<rparr>"

text \<open>Everything before the signal: the guards, the owned processes and the first observation.\<close>

definition check_release ::
  "os_world \<Rightarrow> release_plan \<Rightarrow> bool \<Rightarrow> bool \<Rightarrow> engine_identity \<Rightarrow>
    (history, engine_identity \<times> incarnation list \<times> release_evidence \<times> incarnation) prog" where
  "check_release W P no_foreground no_transfers i =
     thenP (guardP (no_foreground \<and> no_transfers) (ValueError ''foreground and hybrid-transfer drain must both be confirmed''))
    (thenP (guardP (0 \<le> rp_graceful_timeout P \<and> 0 < rp_confirmation_timeout P \<and> 0 < rp_poll_seconds P)
       (ValueError ''lifecycle timeout and polling values must be positive''))
    (bindP (validate_root W i) (\<lambda>proc.
     bindP (release_owned W i proc) (\<lambda>owned.
     bindP (observe_release W i owned) (\<lambda>before.
     let j = i\<lparr>ei_gpu_uuids := sort (remdups (ei_gpu_uuids i @ map gq_gpu_uuid (re_gpu_processes before)))\<rparr> in
     thenP (guardP (ei_gpu_uuids j \<noteq> []) (RuntimeError ''cannot measure GPU release without an observed owned GPU worker''))
    (bindP (validate_root W j) (\<lambda>proc. ret (j, owned, before, proc))))))))"

definition stop_and_watch ::
  "os_world \<Rightarrow> nat \<Rightarrow> release_plan \<Rightarrow> engine_identity \<Rightarrow> incarnation list \<Rightarrow> release_evidence \<Rightarrow> incarnation \<Rightarrow>
    (history, release_result) prog" where
  "stop_and_watch W fuel P i owned before proc =
     bindP (read_time W) (\<lambda>signalled.
     thenP (send_signal W SIGTERM proc)
    (let deadline = signalled + rp_graceful_timeout P in
       release_loop W i owned (set (ei_gpu_uuids i)) deadline (deadline + rp_confirmation_timeout P) (rp_poll_seconds P) fuel 0
         (new_release i before signalled)))"

definition release_engine ::
  "os_world \<Rightarrow> nat \<Rightarrow> release_plan \<Rightarrow> bool \<Rightarrow> bool \<Rightarrow> engine_identity \<Rightarrow> (history, release_result) prog" where
  "release_engine W fuel P no_foreground no_transfers i =
     bindP (check_release W P no_foreground no_transfers i) (\<lambda>(j, owned, before, proc).
       stop_and_watch W fuel P j owned before proc)"

section \<open>Starting an engine\<close>

record started_engine =
  se_identity :: engine_identity
  se_started_monotonic :: seconds
  se_ready_monotonic :: seconds
  se_log_path :: string

definition never_ready :: "os_world \<Rightarrow> int \<Rightarrow> seconds \<Rightarrow> string \<Rightarrow> exn" where
  "never_ready W pid timeout path = RuntimeError (''engine launch PID '' @ str_int pid @ '' not ready within '' @
     ow_show_seconds W timeout @ ''s; inspect '' @ path)"

definition exited_early :: "int \<Rightarrow> int \<Rightarrow> string \<Rightarrow> exn" where
  "exited_early pid code path = RuntimeError (''engine launch PID '' @ str_int pid @ '' exited with '' @
     str_int code @ ''; inspect '' @ path)"

fun start_loop ::
  "os_world \<Rightarrow> engine_identity \<Rightarrow> seconds \<Rightarrow> seconds \<Rightarrow> int \<Rightarrow> string \<Rightarrow> nat \<Rightarrow> (history, started_engine) prog" where
  "start_loop W i timeout begun pid path 0 = throw Unfinished"
| "start_loop W i timeout begun pid path (Suc fuel) =
     bindP (read_time W) (\<lambda>now.
       if \<not> now - begun < timeout
       then throw (never_ready W pid timeout path)
       else bindP (call_world (Polled pid) (\<lambda>l. Inr (ow_poll W l pid))) (\<lambda>code. case code of
           Some c \<Rightarrow> throw (exited_early pid c path)
         | None \<Rightarrow>
             bindP (http_ready W (ei_url i)) (\<lambda>ready.
               if ready
               then bindP (capture_owned_engine W (ei_url i)) (\<lambda>captured.
                 if in_pid (ei_process captured) \<noteq> pid
                 then throw (RuntimeError ''ready endpoint does not belong to the launched PID'')
                 else bindP (read_time W) (\<lambda>now.
                   ret \<lparr>se_identity = captured, se_started_monotonic = begun, se_ready_monotonic = now, se_log_path = path\<rparr>))
               else thenP (pause (1 / 2)) (start_loop W i timeout begun pid path fuel))))"

definition open_path :: "os_world \<Rightarrow> string \<Rightarrow> (history, unit) prog" where
  "open_path W path = call_world (Opened path) (\<lambda>l. case ow_open W l path of None \<Rightarrow> Inr () | Some e \<Rightarrow> Inl e)"

text \<open>\<open>Popen\<close> with the captured directory and the allowed part of the captured environment.\<close>

definition spawn :: "os_world \<Rightarrow> engine_identity \<Rightarrow> (history, int) prog" where
  "spawn W i = call_world
     (Spawned (ei_cmdline i) (ei_cwd i) (filter (\<lambda>kv. fst kv \<in> set environment_keys) (ei_environment i)))
     (\<lambda>l. ow_spawn W l (ei_cmdline i))"

definition start_engine ::
  "os_world \<Rightarrow> nat \<Rightarrow> seconds \<Rightarrow> string \<Rightarrow> engine_identity \<Rightarrow> (history, started_engine) prog" where
  "start_engine W fuel timeout path i =
     bindP (liftS (endpoint W (ei_url i))) (\<lambda>(_, port).
     thenP (liftS (check_safe_arguments (ei_cmdline i)))
    (thenP (guardP (matches_launch (ei_cmdline i) port) (ValueError ''captured command does not match local engine endpoint''))
    (bindP (same_process W (ei_process i)) (\<lambda>old.
     bindP (if old \<noteq> None then ret True else endpoint_responds W (ei_url i)) (\<lambda>live.
     thenP (guardP (\<not> live) (RuntimeError ''refusing to start an engine whose prior process or port is still live''))
    (thenP (guardP (0 < timeout) (ValueError ''readiness timeout must be positive''))
    (thenP (open_path W path)
    (bindP (read_time W) (\<lambda>begun.
     thenP (open_path W path)
    (bindP (spawn W i) (\<lambda>pid.
     thenP (unless_gone (bindP (see W pid) (\<lambda>_. ret ())) ())
       (start_loop W i timeout begun pid path fuel))))))))))))"

end
