(* ===== verification/LifecycleProps.thy ===== *)
theory LifecycleProps
  imports Lifecycle
begin

text \<open>
  What the lifecycle guarantees, whatever the world answers: which processes get a signal
  and when, what a confirmed release rests on, that releasing ends, and what was started.
\<close>

section \<open>Signals along a history\<close>

text \<open>Every signal sent on the way from \<open>s\<close> to \<open>t\<close> was allowed by the history before it.\<close>

definition careful :: "(signal \<Rightarrow> incarnation \<Rightarrow> history \<Rightarrow> bool) \<Rightarrow> history \<Rightarrow> history \<Rightarrow> bool" where
  "careful ok s t \<longleftrightarrow> prefix s t \<and>
     (\<forall>n sig p. length s \<le> n \<longrightarrow> n < length t \<longrightarrow> t ! n = Sent sig p \<longrightarrow> ok sig p (take n t))"

lemma careful_refl: "careful ok s s"
  by (simp add: careful_def)

lemma careful_trans:
  assumes "careful ok s t" and "careful ok t u"
  shows "careful ok s u"
proof -
  obtain v where v: "u = t @ v" using assms(2) by (auto simp: careful_def prefix_def)
  have "ok sig p (take n u)" if n: "length s \<le> n" "n < length u" "u ! n = Sent sig p" for n sig p
  proof (cases "n < length t")
    case True
    then have "t ! n = Sent sig p" "take n u = take n t" using n(3) v by (simp_all add: nth_append)
    then show ?thesis using assms(1) n(1) True by (simp add: careful_def)
  next
    case False
    then show ?thesis using assms(2) n by (simp add: careful_def)
  qed
  then show ?thesis using assms by (auto simp: careful_def intro: prefix_order.trans)
qed

interpretation careful_steps: step_preorder "careful ok" for ok
  by unfold_locales (rule careful_refl, rule careful_trans)

lemma careful_call:
  assumes "\<And>sig p. ev = Sent sig p \<Longrightarrow> ok sig p l"
  shows "careful ok l (l @ [ev])"
  using assms by (auto simp: careful_def nth_append split: if_splits)

text \<open>No signal at all.\<close>

abbreviation quiet :: "history \<Rightarrow> history \<Rightarrow> bool" where
  "quiet \<equiv> careful (\<lambda>_ _ _. False)"

lemma careful_quiet: "careful ok s t \<Longrightarrow> quiet t u \<Longrightarrow> careful ok s u"
  by (rule careful_trans) (auto simp: careful_def)

lemma quiet_call: "(\<And>sig p. ev \<noteq> Sent sig p) \<Longrightarrow> steps quiet (call_world ev f)"
  by (rule stepsI) (auto simp: call_world_def intro!: careful_call)

lemma steps_filterP: "step_preorder R \<Longrightarrow> (\<And>x. steps R (f x)) \<Longrightarrow> steps R (filterP f xs)"
  by (induction xs) (auto intro!: step_preorder.steps_rules)

lemma steps_unless_gone: "steps quiet m \<Longrightarrow> steps quiet (unless_gone m a)"
  unfolding unless_gone_def by (intro careful_steps.steps_rules)

lemma quiet_calls:
  "steps quiet (see W pid)" "steps quiet (read_time W)" "steps quiet (pause d)" "steps quiet (query_gpus W q)"
  "steps quiet (list_children W p)" "steps quiet (open_path W path)" "steps quiet (spawn W i)"
  by (simp_all add: see_def read_time_def pause_def query_gpus_def list_children_def open_path_def spawn_def quiet_call)

lemmas quiet_rules = careful_steps.steps_rules careful_steps.steps_mapP careful_steps.steps_catch
  steps_filterP [OF careful_steps.step_preorder_axioms] steps_unless_gone quiet_calls

lemma quiet_same_process: "steps quiet (same_process W p)"
  unfolding same_process_def by (intro quiet_rules)

lemma quiet_identify: "steps quiet (identify W p)"
  unfolding identify_def by (intro quiet_rules)

lemma quiet_validate_root: "steps quiet (validate_root W i)"
  unfolding validate_root_def by (intro quiet_rules quiet_same_process)

lemma quiet_gpu_snapshot: "steps quiet (gpu_snapshot W)"
  unfolding gpu_snapshot_def by (intro quiet_rules)

lemma quiet_endpoint_responds: "steps quiet (endpoint_responds W url)"
  unfolding endpoint_responds_def by (intro quiet_rules quiet_call) simp

lemma quiet_observe: "steps quiet (observe_release W i owned)" "steps quiet (observe_again W i owned)"
  unfolding observe_release_def observe_again_def
  by (intro quiet_rules quiet_gpu_snapshot quiet_same_process quiet_endpoint_responds)+

lemma quiet_release_owned: "steps quiet (release_owned W i p)"
  unfolding release_owned_def by (intro quiet_rules quiet_identify)

section \<open>Who is killed, and when\<close>

text \<open>The last look before \<open>l\<close> found this incarnation running.\<close>

definition seen_running :: "os_world \<Rightarrow> incarnation \<Rightarrow> history \<Rightarrow> bool" where
  "seen_running W p l \<longleftrightarrow> (\<exists>h v. l = h @ [Saw (in_pid p)] \<and> ow_process W h (in_pid p) = Inr v \<and>
     pv_create_time v = in_create_time p \<and> pv_running v \<and> \<not> pv_zombie v)"

lemma same_process_seen: "same_process W p l = (Inr (Some q), t) \<Longrightarrow> q = p \<and> seen_running W p t"
  unfolding same_process_def unless_gone_def try_except_def see_def call_world_def seen_running_def
  by (auto simp: bindP_def ret_def throw_def split: prod.splits sum.splits if_splits)

definition kill_allowed :: "os_world \<Rightarrow> incarnation set \<Rightarrow> (history \<Rightarrow> bool) \<Rightarrow> signal \<Rightarrow> incarnation \<Rightarrow> history \<Rightarrow> bool" where
  "kill_allowed W owned due sig p l \<longleftrightarrow> sig = SIGKILL \<and> p \<in> owned \<and> seen_running W p l \<and> due l"

lemma kill_checked_careful:
  assumes "p \<in> owned" and "\<And>t. prefix l t \<Longrightarrow> due t"
  shows "careful (kill_allowed W owned due) l (snd (kill_checked W p l))"
proof -
  obtain r t where same: "same_process W p l = (r, t)" by (cases "same_process W p l")
  have q: "quiet l t" using stepsD [OF quiet_same_process same] .
  then have lt: "careful (kill_allowed W owned due) l t" by (rule careful_quiet [OF careful_refl])
  show ?thesis
  proof (cases "\<exists>q. r = Inr (Some q)")
    case True
    then obtain q where r: "r = Inr (Some q)" by blast
    have seen: "q = p" "seen_running W p t" using same_process_seen same r by blast+
    have "due t" using assms(2) q by (simp add: careful_def)
    then have "careful (kill_allowed W owned due) t (t @ [Sent SIGKILL p])"
      using seen assms(1) by (intro careful_call) (simp add: kill_allowed_def)
    then have "careful (kill_allowed W owned due) l (t @ [Sent SIGKILL p])" using lt by (rule careful_trans [rotated])
    moreover have "snd (kill_checked W p l) = t @ [Sent SIGKILL p]"
      using same r seen(1) by (simp add: kill_checked_def bindP_def unless_gone_def try_except_def send_signal_def
          call_world_def thenP_def ret_def throw_def split: option.split prod.splits sum.splits)
    ultimately show ?thesis by simp
  next
    case False
    then have "snd (kill_checked W p l) = t"
      using same by (cases r) (auto simp: kill_checked_def bindP_def ret_def split: option.splits)
    then show ?thesis using lt by simp
  qed
qed

definition lasting :: "(history \<Rightarrow> bool) \<Rightarrow> bool" where
  "lasting due \<longleftrightarrow> (\<forall>l t. due l \<longrightarrow> prefix l t \<longrightarrow> due t)"

lemma kill_list_careful:
  assumes "lasting due" and "set ps \<subseteq> owned" and "due l"
  shows "careful (kill_allowed W owned due) l (snd (mapP (kill_checked W) ps l))"
  using assms(2,3)
proof (induction ps arbitrary: l)
  case (Cons p ps)
  obtain r t where one: "kill_checked W p l = (r, t)" by (cases "kill_checked W p l")
  have lt: "careful (kill_allowed W owned due) l t"
    using kill_checked_careful [of p owned l due W] one Cons.prems assms(1) by (simp add: lasting_def)
  have "due t" using lt Cons.prems(2) assms(1) by (auto simp: lasting_def careful_def)
  then have rest: "careful (kill_allowed W owned due) t (snd (mapP (kill_checked W) ps t))"
    using Cons by simp
  show ?case
  proof (cases r)
    case (Inl e)
    then show ?thesis using one lt by (simp add: bindP_def)
  next
    case (Inr k)
    then have "snd (mapP (kill_checked W) (p # ps) l) = snd (mapP (kill_checked W) ps t)"
      using one by (simp add: bindP_def ret_def split: prod.split sum.split)
    then show ?thesis using lt rest by (simp add: careful_trans)
  qed
qed (simp add: ret_def careful_refl)

lemma filterP_subset: "filterP f xs s = (Inr ys, t) \<Longrightarrow> set ys \<subseteq> set xs"
proof (induction xs arbitrary: s ys t)
  case (Cons x xs)
  then obtain b u zs where zs: "filterP f xs u = (Inr zs, t)" "ys = (if b then x # zs else zs)"
    by (auto elim!: bindP_InrE simp: ret_def)
  have "set zs \<subseteq> set xs" by (rule Cons.IH [OF zs(1)])
  then show ?case using zs(2) by auto
qed (simp add: ret_def)

lemma kill_remaining_careful:
  assumes "lasting due" and "set owned \<subseteq> Q" and "due l"
  shows "careful (kill_allowed W Q due) l (snd (kill_remaining W i owned r l))"
proof -
  let ?live = "filterP (\<lambda>p. bindP (same_process W p) (\<lambda>found. ret (found \<noteq> None))) owned"
  obtain x t where x: "?live l = (x, t)" by (cases "?live l")
  have "steps quiet ?live" by (intro quiet_rules quiet_same_process)
  then have q: "quiet l t" using x by (rule stepsD)
  then have lt: "careful (kill_allowed W Q due) l t" by (rule careful_quiet [OF careful_refl])
  show ?thesis
  proof (cases "\<exists>live. x = Inr live \<and> live \<noteq> []")
    case True
    then obtain live where live: "x = Inr live" "live \<noteq> []" by blast
    let ?ps = "sort_key (\<lambda>p. in_pid p = in_pid (ei_process i)) live"
    have "set live \<subseteq> set owned" by (rule filterP_subset [OF x [unfolded live(1)]])
    then have "set ?ps \<subseteq> Q" using assms(2) by simp
    moreover have "due t" using assms(1,3) q by (auto simp: lasting_def careful_def)
    ultimately have "careful (kill_allowed W Q due) t (snd (mapP (kill_checked W) ?ps t))"
      by (rule kill_list_careful [OF assms(1)])
    moreover have "snd (kill_remaining W i owned r l) = snd (mapP (kill_checked W) ?ps t)"
      using x live by (simp add: kill_remaining_def bindP_def ret_def split: prod.split sum.split)
    ultimately show ?thesis using lt by (simp add: careful_trans)
  next
    case False
    then have "snd (kill_remaining W i owned r l) = t"
      using x by (cases x) (auto simp: kill_remaining_def bindP_def ret_def)
    then show ?thesis using lt by simp
  qed
qed

text \<open>After \<open>h\<close> the clock was read at the deadline or later.\<close>

definition overdue :: "os_world \<Rightarrow> history \<Rightarrow> seconds \<Rightarrow> history \<Rightarrow> bool" where
  "overdue W h deadline l \<longleftrightarrow> (\<exists>k. prefix h k \<and> prefix (k @ [Clocked]) l \<and> deadline \<le> ow_clock W k)"

lemma lasting_overdue: "lasting (overdue W h deadline)"
  unfolding lasting_def overdue_def by (blast intro: prefix_order.trans)

text \<open>From \<open>h\<close> on, kills are of owned processes and overdue.\<close>

definition careful_after :: "os_world \<Rightarrow> incarnation set \<Rightarrow> history \<Rightarrow> seconds \<Rightarrow> history \<Rightarrow> history \<Rightarrow> bool" where
  "careful_after W owned h deadline l t \<longleftrightarrow> (prefix h l \<longrightarrow> careful (kill_allowed W owned (overdue W h deadline)) l t)"

interpretation loop_steps: step_preorder "careful_after W owned h deadline" for W owned h deadline
proof
  show "careful_after W owned h deadline s s" for s by (simp add: careful_after_def careful_refl)
  show "careful_after W owned h deadline s u"
    if "careful_after W owned h deadline s t" "careful_after W owned h deadline t u" for s t u
  proof -
    have "careful (kill_allowed W owned (overdue W h deadline)) s u" if h: "prefix h s"
    proof -
      have st: "careful (kill_allowed W owned (overdue W h deadline)) s t"
        using h \<open>careful_after W owned h deadline s t\<close> by (simp add: careful_after_def)
      then have "prefix h t" using h by (auto simp: careful_def intro: prefix_order.trans)
      then have "careful (kill_allowed W owned (overdue W h deadline)) t u"
        using \<open>careful_after W owned h deadline t u\<close> by (simp add: careful_after_def)
      with st show ?thesis by (rule careful_trans)
    qed
    then show ?thesis by (simp add: careful_after_def)
  qed
qed

lemma quiet_after: "steps quiet m \<Longrightarrow> steps (careful_after W owned h deadline) m"
  by (auto simp: steps_def careful_after_def intro: careful_quiet [OF careful_refl])

lemma steps_overdue_kill:
  assumes "set owned \<subseteq> Q" and "\<And>r. steps (careful_after W Q h deadline) (f r)"
  shows "steps (careful_after W Q h deadline)
    (bindP (read_time W) (\<lambda>now. bindP (if deadline \<le> now \<and> b then kill_remaining W i owned r else ret r) f))"
proof -
  have "steps (careful_after W Q h deadline) (bindP (read_time W) (\<lambda>now. if deadline \<le> now \<and> b then kill_remaining W i owned r else ret r))"
  proof (rule stepsI)
    fix l
    let ?t = "l @ [Clocked]"
    have read: "read_time W l = (Inr (ow_clock W l), ?t)" by (simp add: read_time_def call_world_def)
    have step: "careful (kill_allowed W Q (overdue W h deadline)) l ?t" by (rule careful_call) simp
    have "careful (kill_allowed W Q (overdue W h deadline)) ?t (snd (kill_remaining W i owned r ?t))"
      if "prefix h l" "deadline \<le> ow_clock W l"
      using that by (intro kill_remaining_careful [OF lasting_overdue assms(1)]) (auto simp: overdue_def)
    then show "careful_after W Q h deadline l
       (snd (bindP (read_time W) (\<lambda>now. if deadline \<le> now \<and> b then kill_remaining W i owned r else ret r) l))"
      using step by (auto simp: careful_after_def bindP_def read ret_def intro: careful_trans)
  qed
  from loop_steps.steps_bindP [OF this assms(2)] show ?thesis by (simp add: bindP_assoc)
qed

lemma release_loop_careful:
  assumes "set owned \<subseteq> Q"
  shows "steps (careful_after W Q h deadline) (release_loop W i owned uuids deadline hard poll fuel empties r)"
proof (induction fuel arbitrary: empties r)
  case 0
  show ?case by (simp add: loop_steps.steps_throw)
next
  case (Suc fuel)
  show ?case unfolding release_loop.simps
    by (rule loop_steps.steps_bindP [OF quiet_after [OF quiet_calls(2)]], rule loop_steps.steps_if, rule loop_steps.steps_ret,
        rule loop_steps.steps_bindP [OF quiet_after [OF quiet_observe(2)]], rule loop_steps.steps_let, rule loop_steps.steps_let,
        rule loop_steps.steps_if, rule loop_steps.steps_ret, rule steps_overdue_kill [OF assms],
        rule loop_steps.steps_thenP [OF quiet_after [OF quiet_calls(3)] Suc.IH])
qed

section \<open>Which process gets the first signal\<close>

text \<open>
  The endpoint is local, and four looks in a row found the process, under the creation time
  it was captured with, with its command line, launching this port and of this user.
\<close>

definition recognised :: "os_world \<Rightarrow> engine_identity \<Rightarrow> history \<Rightarrow> bool" where
  "recognised W i l \<longleftrightarrow> (\<exists>h host port u v w. l = h @ replicate 4 (Saw (in_pid (ei_process i))) \<and>
     seen_running W (ei_process i) h \<and> endpoint W (ei_url i) = Inr (host, port) \<and>
     ow_process W h (in_pid (ei_process i)) = Inr u \<and> pv_cmdline u = ei_cmdline i \<and>
     ow_process W (h @ [Saw (in_pid (ei_process i))]) (in_pid (ei_process i)) = Inr v \<and> matches_launch (pv_cmdline v) port \<and>
     ow_process W (h @ [Saw (in_pid (ei_process i)), Saw (in_pid (ei_process i))]) (in_pid (ei_process i)) = Inr w \<and>
     pv_uid w = ow_getuid W \<and> in_pid (ei_process i) \<noteq> ow_getpid W)"

lemma see_run: "see W pid l = (r, t) \<longleftrightarrow> ow_process W l pid = r \<and> t = l @ [Saw pid]"
  by (auto simp: see_def call_world_def)

lemma guard_run: "guardP b e l = (Inr x, t) \<longleftrightarrow> b \<and> t = l"
  by (auto simp: guardP_def ret_def throw_def)

lemma lift_run: "liftS r l = (x, t) \<longleftrightarrow> r = x \<and> t = l"
  by (auto simp: liftS_def)

lemma validate_root_ok:
  assumes "validate_root W i l = (Inr p, t)"
  shows "p = ei_process i \<and> recognised W i t"
proof -
  obtain host port h found where e: "endpoint W (ei_url i) = Inr (host, port)"
    and h: "same_process W (ei_process i) l = (Inr found, h)" and rest: "(case found of
       None \<Rightarrow> throw identity_changed
     | Some p \<Rightarrow>
         bindP (see W (in_pid p)) (\<lambda>v. thenP (guardP (pv_cmdline v = ei_cmdline i) identity_changed)
        (bindP (see W (in_pid p)) (\<lambda>v. thenP (guardP (matches_launch (pv_cmdline v) port) identity_changed)
        (bindP (see W (in_pid p)) (\<lambda>v. thenP (guardP (pv_uid v = ow_getuid W \<and> in_pid p \<noteq> ow_getpid W) identity_changed)
        (bindP (see W (in_pid p)) (\<lambda>v. thenP (liftS (check_safe_arguments (pv_cmdline v))) (ret p))))))))) h = (Inr p, t)"
    using assms unfolding validate_root_def by (elim bindP_InrE) (auto simp: lift_run elim!: bindP_InrE)
  obtain q where q: "found = Some q" using rest by (cases found) (simp_all add: throw_def)
  then have q: "found = Some (ei_process i)" "seen_running W (ei_process i) h" using same_process_seen h by auto
  from rest [unfolded q(1) option.case thenP_def] show ?thesis
    unfolding recognised_def
    apply (elim bindP_InrE)
    apply (simp add: see_run guard_run lift_run ret_def)
    apply (rule exI [of _ h])
    using q(2) e apply (auto simp: numeral_eq_Suc)
    done
qed

text \<open>
  The processes of an engine: those captured, and what \<open>psutil\<close> listed as its children when
  the release began.
\<close>

definition engine_processes :: "os_world \<Rightarrow> engine_identity \<Rightarrow> history \<Rightarrow> incarnation set" where
  "engine_processes W i l = insert (ei_process i) (set (ei_owned_processes i)) \<union>
     {p. \<exists>h cs. prefix (h @ [Descended (ei_process i)]) l \<and> ow_children W h (ei_process i) = Inr cs \<and> p \<in> set cs}"

lemma engine_processes_mono: "prefix l t \<Longrightarrow> engine_processes W i l \<subseteq> engine_processes W i t"
  unfolding engine_processes_def by (blast intro: prefix_order.trans)

lemma set_add_owned: "set (add_owned os ps) = set os \<union> set ps"
  unfolding add_owned_def by (induction ps arbitrary: os) auto

lemma identified: "mapP (identify W) ps l = (Inr ids, t) \<Longrightarrow> set (List.map_filter id ids) \<subseteq> set ps"
proof (induction ps arbitrary: l ids)
  case (Cons p ps)
  then obtain u x xs where x: "identify W p l = (Inr x, u)" and xs: "mapP (identify W) ps u = (Inr xs, t)" "ids = x # xs"
    by (auto elim!: bindP_InrE simp: ret_def)
  have "x = None \<or> x = Some p"
    using x by (auto simp: identify_def unless_gone_def try_except_def bindP_def ret_def throw_def split: prod.splits sum.splits if_splits)
  moreover have "set (List.map_filter id xs) \<subseteq> set ps" by (rule Cons.IH [OF xs(1)])
  ultimately show ?case using xs(2) by (auto simp: List.map_filter_def split: if_splits)
qed (simp add: ret_def List.map_filter_def)

lemma release_owned_ok:
  assumes "release_owned W i (ei_process i) l = (Inr owned, t)"
  shows "set (ei_owned_processes i) \<subseteq> set owned \<and> set owned \<subseteq> engine_processes W i t"
proof -
  obtain cs u ids where cs: "list_children W (ei_process i) l = (Inr cs, u)"
    and ids: "mapP (identify W) (ei_process i # cs) u = (Inr ids, t)"
    and owned: "owned = add_owned [] (ei_owned_processes i @ List.map_filter id ids)"
    using assms unfolding release_owned_def by (elim bindP_InrE) (simp add: ret_def)
  have "u = l @ [Descended (ei_process i)]" "ow_children W l (ei_process i) = Inr cs"
    using cs by (simp_all add: list_children_def call_world_def)
  moreover have "prefix u t" using ids stepsD [of quiet "mapP (identify W) (ei_process i # cs)" u]
    careful_steps.steps_mapP [OF quiet_identify] by (fastforce simp: careful_def)
  ultimately have "set cs \<subseteq> engine_processes W i t" by (auto simp: engine_processes_def)
  then show ?thesis using identified [OF ids] owned by (auto simp: set_add_owned engine_processes_def)
qed

lemma check_release_ok:
  assumes "check_release W P nf nt i l = (Inr (j, owned, before, p), t)"
  shows "nf \<and> nt \<and> p = ei_process i \<and> ei_process j = ei_process i \<and> ei_owned_processes j = ei_owned_processes i \<and>
    set (ei_gpu_uuids i) \<subseteq> set (ei_gpu_uuids j) \<and> ei_gpu_uuids j \<noteq> [] \<and> recognised W i t \<and>
    set (ei_owned_processes i) \<subseteq> set owned \<and> set owned \<subseteq> engine_processes W i t \<and> quiet l t"
proof -
  have q: "steps quiet (check_release W P nf nt i)"
    unfolding check_release_def
    by (intro quiet_rules quiet_validate_root quiet_release_owned quiet_observe)
  obtain p0 h h1 h2 where p0: "validate_root W i l = (Inr p0, h)" and own: "release_owned W i p0 h = (Inr owned, h1)"
    and before: "observe_release W i owned h1 = (Inr before, h2)"
    and j: "j = i\<lparr>ei_gpu_uuids := sort (remdups (ei_gpu_uuids i @ map gq_gpu_uuid (re_gpu_processes before)))\<rparr>"
    and p: "validate_root W j h2 = (Inr p, t)" and g: "nf" "nt" "ei_gpu_uuids j \<noteq> []"
    using assms unfolding check_release_def thenP_def Let_def
    by (elim bindP_InrE) (auto simp: guard_run ret_def)
  have "p0 = ei_process i" using validate_root_ok [OF p0] by simp
  then have own: "set (ei_owned_processes i) \<subseteq> set owned" "set owned \<subseteq> engine_processes W i h1" using release_owned_ok own by auto
  have "p = ei_process j \<and> recognised W j t" by (rule validate_root_ok [OF p])
  then have rec: "p = ei_process i" "recognised W i t" by (simp_all add: j recognised_def)
  have "prefix h1 h2" using stepsD [OF quiet_observe(1) before] by (simp add: careful_def)
  moreover have "prefix h2 t" using stepsD [OF quiet_validate_root p] by (simp add: careful_def)
  ultimately have "engine_processes W i h1 \<subseteq> engine_processes W i t" using engine_processes_mono prefix_order.trans by blast
  then show ?thesis using g rec own j stepsD [OF q assms] by auto
qed

text \<open>The first signal was sent, and when the grace period had passed the clock was read.\<close>

definition asked_to_stop :: "os_world \<Rightarrow> release_plan \<Rightarrow> incarnation \<Rightarrow> history \<Rightarrow> bool" where
  "asked_to_stop W P p l \<longleftrightarrow> (\<exists>h. prefix (h @ [Clocked, Sent SIGTERM p]) l \<and>
     overdue W (h @ [Clocked, Sent SIGTERM p]) (ow_clock W h + rp_graceful_timeout P) l)"

fun signal_allowed :: "os_world \<Rightarrow> release_plan \<Rightarrow> engine_identity \<Rightarrow> signal \<Rightarrow> incarnation \<Rightarrow> history \<Rightarrow> bool" where
  "signal_allowed W P i SIGTERM p l \<longleftrightarrow> p = ei_process i \<and> (\<exists>h. l = h @ [Clocked] \<and> recognised W i h)"
| "signal_allowed W P i SIGKILL p l \<longleftrightarrow> p \<in> engine_processes W i l \<and> seen_running W p l \<and> asked_to_stop W P (ei_process i) l"

lemma careful_conseq:
  assumes "careful ok s t" and "\<And>sig p l. ok sig p l \<Longrightarrow> prefix l t \<Longrightarrow> length s \<le> length l \<Longrightarrow> ok' sig p l"
  shows "careful ok' s t"
proof -
  have "ok' sig p (take n t)" if n: "length s \<le> n" "n < length t" "t ! n = Sent sig p" for n sig p
    using assms(1) n by (intro assms(2)) (simp_all add: careful_def take_is_prefix)
  then show ?thesis using assms(1) by (simp add: careful_def)
qed

lemma stop_and_watch_careful:
  assumes "recognised W i l" and "set owned \<subseteq> engine_processes W i l" and "ei_process j = ei_process i"
    and "stop_and_watch W fuel P j owned before (ei_process i) l = (r, t)"
  shows "careful (signal_allowed W P i) l t"
proof -
  let ?h = "l @ [Clocked, Sent SIGTERM (ei_process i)]" and ?d = "ow_clock W l + rp_graceful_timeout P"
  have "careful (signal_allowed W P i) l (l @ [Clocked])" by (rule careful_call) simp
  moreover have "careful (signal_allowed W P i) (l @ [Clocked]) ((l @ [Clocked]) @ [Sent SIGTERM (ei_process i)])"
    by (rule careful_call) (use assms(1) in simp)
  ultimately have upto: "careful (signal_allowed W P i) l ?h" using careful_trans by fastforce
  show ?thesis
  proof (cases "t = ?h")
    case False
    let ?loop = "release_loop W j owned (set (ei_gpu_uuids j)) ?d (?d + rp_confirmation_timeout P) (rp_poll_seconds P) fuel 0
         (new_release j before (ow_clock W l))"
    have run: "?loop ?h = (r, t)"
      using assms(4) False by (auto simp: stop_and_watch_def read_time_def send_signal_def call_world_def bindP_def thenP_def Let_def
          split: option.splits)
    have "careful_after W (engine_processes W i l) ?h ?d ?h t"
      by (rule stepsD [OF release_loop_careful [OF assms(2)] run])
    then have after: "careful (kill_allowed W (engine_processes W i l) (overdue W ?h ?d)) ?h t"
      by (simp add: careful_after_def)
    have "careful (signal_allowed W P i) ?h t"
    proof (rule careful_conseq [OF after])
      fix sig p u
      assume k: "kill_allowed W (engine_processes W i l) (overdue W ?h ?d) sig p u" and "prefix u t" "length ?h \<le> length u"
      have "prefix ?h t" using after by (simp add: careful_def)
      then have hu: "prefix ?h u" using \<open>prefix u t\<close> \<open>length ?h \<le> length u\<close> by (rule prefix_length_prefix)
      then have "prefix l u" by (auto simp: prefix_def)
      then have "engine_processes W i l \<subseteq> engine_processes W i u" by (rule engine_processes_mono)
      then show "signal_allowed W P i sig p u" using k hu by (auto simp: kill_allowed_def asked_to_stop_def)
    qed
    with upto show ?thesis by (rule careful_trans)
  qed (use upto in simp)
qed

lemma check_release_quiet: "steps quiet (check_release W P nf nt i)"
  unfolding check_release_def
  by (intro quiet_rules quiet_validate_root quiet_release_owned quiet_observe)

text \<open>
  C34. Whatever the world answers, and whether it returns or raises, a release sends
  \<open>SIGTERM\<close> only to the captured process, recognised by its creation time, command line,
  port and user in the looks just before, and \<open>SIGKILL\<close> only to a process of the engine whose
  incarnation was seen running in the look just before, after the \<open>SIGTERM\<close> and once the clock
  had shown the end of the grace period; without both confirmations it sends nothing.
\<close>

theorem signals_hit_only_the_engine:
  assumes "release_engine W fuel P no_foreground no_transfers i s = (r, t)"
  shows "careful (\<lambda>sig p l. no_foreground \<and> no_transfers \<and> signal_allowed W P i sig p l) s t"
proof (cases "\<exists>x u. check_release W P no_foreground no_transfers i s = (Inr x, u)")
  case True
  then obtain j owned before p u where c: "check_release W P no_foreground no_transfers i s = (Inr (j, owned, before, p), u)"
    by (metis prod_cases4)
  note ok = check_release_ok [OF c]
  have "stop_and_watch W fuel P j owned before p u = (r, t)" using assms c by (simp add: release_engine_def bindP_def)
  then have "careful (signal_allowed W P i) u t"
    using stop_and_watch_careful [of W i u owned j fuel P before r t] ok by simp
  then have "careful (signal_allowed W P i) s t"
    using careful_trans careful_quiet [OF careful_refl] ok by blast
  then show ?thesis by (rule careful_conseq) (use ok in simp)
next
  case False
  then obtain e u where c: "check_release W P no_foreground no_transfers i s = (Inl e, u)"
    by (cases "check_release W P no_foreground no_transfers i s"; cases "fst (check_release W P no_foreground no_transfers i s)") auto
  then have "u = t" using assms by (simp add: release_engine_def bindP_def)
  then show ?thesis using stepsD [OF check_release_quiet c] by (auto intro: careful_quiet [OF careful_refl])
qed

end
