(* ===== verification/LifecycleRelease.thy ===== *)
theory LifecycleRelease
  imports LifecycleProps
begin

text \<open>
  A release reported as such rests on two observations in a row after the signal in which
  nothing of the engine was left, and a release always ends.
\<close>

section \<open>What a confirmation rests on\<close>

definition gone :: "os_world \<Rightarrow> incarnation \<Rightarrow> history \<Rightarrow> bool" where
  "gone W p l \<longleftrightarrow> fst (same_process W p l) = Inr None"

lemma quiet_prefix: "quiet l t \<Longrightarrow> prefix l t"
  by (simp add: careful_def)

lemma filterP_none:
  assumes "filterP f xs l = (Inr [], t)" and "\<And>x. steps quiet (f x)" and "x \<in> set xs"
  shows "\<exists>u v. prefix l u \<and> prefix v t \<and> f x u = (Inr False, v)"
  using assms(1,3)
proof (induction xs arbitrary: l)
  case (Cons y ys)
  obtain b u zs where b: "f y l = (Inr b, u)" and zs: "filterP f ys u = (Inr zs, t)" "[] = (if b then y # zs else zs)"
    using Cons.prems(1) by (auto elim!: bindP_InrE simp: ret_def)
  have none: "\<not> b" "zs = []" using zs(2) by (auto split: if_splits)
  have lu: "prefix l u" using stepsD [OF assms(2) b] by (rule quiet_prefix)
  have more: "steps quiet (filterP f ys)" by (intro quiet_rules assms(2))
  have ut: "prefix u t" using stepsD [OF more zs(1)] by (rule quiet_prefix)
  show ?case
  proof (cases "x = y")
    case True
    then show ?thesis using b none ut by (intro exI [of _ l] exI [of _ u]) simp
  next
    case False
    then have "\<exists>u' v. prefix u u' \<and> prefix v t \<and> f x u' = (Inr False, v)"
      using Cons.IH [OF zs(1) [unfolded none]] Cons.prems(2) by simp
    then show ?thesis using lu prefix_order.trans by blast
  qed
qed simp

lemma observed_gone:
  assumes "observe_release W i owned l = (Inr ev, t)" and "re_live_owned ev = []" and "p \<in> set owned"
  shows "\<exists>u. prefix l u \<and> prefix u t \<and> gone W p u"
proof -
  let ?f = "\<lambda>p. bindP (same_process W p) (\<lambda>found. ret (found \<noteq> None))"
  obtain x u1 now u2 live u3 b where snap: "gpu_snapshot W l = (Inr x, u1)" and now: "read_time W u1 = (Inr now, u2)"
    and live: "filterP ?f owned u2 = (Inr live, u3)" "re_live_owned ev = map in_pid live"
    and resp: "endpoint_responds W (ei_url i) u3 = (Inr b, t)"
    using assms(1) unfolding observe_release_def
    by (elim bindP_InrE) (auto elim!: bindP_InrE simp: ret_def)
  have f: "steps quiet (?f p)" for p by (intro quiet_rules quiet_same_process)
  have "live = []" using live(2) assms(2) by simp
  then obtain u v where u: "prefix u2 u" "prefix v u3" "?f p u = (Inr False, v)"
    using filterP_none [of ?f owned u2 u3 p] live(1) f assms(3) by auto
  have "prefix l u1" "prefix u1 u2" "prefix u3 t"
    using stepsD [OF quiet_gpu_snapshot snap] stepsD [OF quiet_calls(2) now] stepsD [OF quiet_endpoint_responds resp]
    by (simp_all add: quiet_prefix)
  moreover have "prefix u v" using stepsD [OF f u(3)] by (rule quiet_prefix)
  moreover have "gone W p u" using u(3) by (auto elim!: bindP_InrE simp: ret_def gone_def)
  ultimately show ?thesis using u(1,2) prefix_order.trans by meson
qed

text \<open>Nothing of the engine is left, and every one of its GPUs was measured.\<close>

definition clean :: "string set \<Rightarrow> release_evidence \<Rightarrow> bool" where
  "clean uuids ev \<longleftrightarrow> disappeared uuids (Observed ev)"

definition unkilled :: "history \<Rightarrow> history \<Rightarrow> bool" where
  "unkilled h l \<longleftrightarrow> (\<forall>p. Sent SIGKILL p \<notin> set (drop (length h) l))"

lemma unkilled_quiet: "prefix h l \<Longrightarrow> unkilled h l \<Longrightarrow> quiet l t \<Longrightarrow> unkilled h t"
proof -
  assume hl: "prefix h l" and u: "unkilled h l" and q: "quiet l t"
  obtain m where m: "t = l @ m" using quiet_prefix [OF q] by (auto simp: prefix_def)
  have "Sent SIGKILL p \<notin> set m" for p
  proof
    assume "Sent SIGKILL p \<in> set m"
    then obtain n where "n < length m" "m ! n = Sent SIGKILL p" by (auto simp: in_set_conv_nth)
    then show False using q m by (auto simp: careful_def nth_append dest: spec [of _ "length l + n"])
  qed
  then show "unkilled h t" using u m hl by (auto simp: unkilled_def prefix_def)
qed

text \<open>The loop's state, with \<open>h\<close> the history up to the signal.\<close>

definition watching :: "string set \<Rightarrow> history \<Rightarrow> nat \<Rightarrow> release_result \<Rightarrow> history \<Rightarrow> bool" where
  "watching uuids h k r l \<longleftrightarrow> prefix h l \<and> k \<le> 1 \<and> rl_observations r \<noteq> [] \<and> \<not> rl_released r \<and> \<not> rl_graceful r \<and>
     (k = 1 \<longrightarrow> (\<exists>obs a. rl_observations r = obs @ [Observed a] \<and> obs \<noteq> [] \<and> clean uuids a)) \<and>
     (\<not> rl_forced_kill r \<longrightarrow> unkilled h l)"

definition confirmed :: "os_world \<Rightarrow> incarnation set \<Rightarrow> string set \<Rightarrow> history \<Rightarrow> release_result \<Rightarrow> history \<Rightarrow> bool" where
  "confirmed W owned uuids h r t \<longleftrightarrow>
     (if rl_released r
      then \<exists>obs a b. rl_observations r = obs @ [Observed a, Observed b] \<and> obs \<noteq> [] \<and> clean uuids a \<and> clean uuids b \<and>
        rl_confirmed_monotonic r = Some (re_monotonic b) \<and>
        (\<forall>p \<in> owned. \<exists>u. prefix h u \<and> prefix u t \<and> gone W p u) \<and> (rl_graceful r \<longrightarrow> unkilled h t)
      else rl_error r \<noteq> None \<and> \<not> rl_graceful r)"

lemma watching_quiet: "watching uuids h k r l \<Longrightarrow> quiet l t \<Longrightarrow> watching uuids h k r t"
proof -
  assume w: "watching uuids h k r l" and q: "quiet l t"
  have "prefix h l" using w by (simp add: watching_def)
  then have "prefix h t" "unkilled h l \<Longrightarrow> unkilled h t"
    using quiet_prefix [OF q] unkilled_quiet [OF _ _ q] by (auto intro: prefix_order.trans)
  then show "watching uuids h k r t" using w by (auto simp: watching_def)
qed

lemma triple_watching: "steps quiet m \<Longrightarrow> triple (watching uuids h k r) m (\<lambda>_. watching uuids h k r) (\<lambda>_ _. True)"
  by (rule triple_steps_any [where R = quiet]) (auto intro: watching_quiet)

lemma triple_observe:
  "triple (watching uuids h k r) (observe_again W i owned)
     (\<lambda>ob l. watching uuids h k r l \<and>
        (disappeared uuids ob \<longrightarrow> (\<exists>ev. ob = Observed ev) \<and> (\<forall>p \<in> set owned. \<exists>u. prefix h u \<and> prefix u l \<and> gone W p u)))
     (\<lambda>_ _. True)"
proof (rule tripleI)
  fix l ob t
  assume w: "watching uuids h k r l" and run: "observe_again W i owned l = (Inr ob, t)"
  have "watching uuids h k r t" using watching_quiet [OF w] stepsD [OF quiet_observe(2) run] by blast
  moreover have "\<forall>p \<in> set owned. \<exists>u. prefix h u \<and> prefix u t \<and> gone W p u" if "ob = Observed ev" "disappeared uuids ob" for ev
  proof
    fix p
    assume p: "p \<in> set owned"
    have "observe_release W i owned l = (Inr ev, t)"
      using run that(1) by (auto simp: observe_again_def catching_def try_except_def bindP_def ret_def throw_def read_time_def
          call_world_def split: prod.splits sum.splits if_splits)
    moreover have "re_live_owned ev = []" using that by simp
    ultimately obtain u where "prefix l u" "prefix u t" "gone W p u" using observed_gone p by blast
    moreover have "prefix h l" using w by (simp add: watching_def)
    ultimately show "\<exists>u. prefix h u \<and> prefix u t \<and> gone W p u" using prefix_order.trans by blast
  qed
  moreover have "disappeared uuids ob \<longrightarrow> (\<exists>ev. ob = Observed ev)" by (cases ob) auto
  ultimately show "watching uuids h k r t \<and>
    (disappeared uuids ob \<longrightarrow> (\<exists>ev. ob = Observed ev) \<and> (\<forall>p \<in> set owned. \<exists>u. prefix h u \<and> prefix u t \<and> gone W p u))" by blast
qed simp

lemma triple_kill_remaining:
  "triple (watching uuids h k r) (kill_remaining W i owned r) (\<lambda>r' l. watching uuids h k r' l) (\<lambda>_ _. True)"
proof (rule tripleI)
  fix l r' t
  assume w: "watching uuids h k r l" and run: "kill_remaining W i owned r l = (Inr r', t)"
  let ?live = "filterP (\<lambda>p. bindP (same_process W p) (\<lambda>found. ret (found \<noteq> None))) owned"
  obtain live u where live: "?live l = (Inr live, u)" and rest: "(if live = [] then ret r
       else bindP (mapP (kill_checked W) (sort_key (\<lambda>p. in_pid p = in_pid (ei_process i)) live)) (\<lambda>killed.
         ret (r\<lparr>rl_forced_kill := True, rl_killed_pids := rl_killed_pids r @ concat killed\<rparr>))) u = (Inr r', t)"
    using run unfolding kill_remaining_def by (rule bindP_InrE)
  have q: "steps quiet ?live" by (intro quiet_rules quiet_same_process)
  have "watching uuids h k r u" by (rule watching_quiet [OF w stepsD [OF q live]])
  show "watching uuids h k r' t"
  proof (cases "live = []")
    case True
    then show ?thesis using rest \<open>watching uuids h k r u\<close> by (simp add: ret_def)
  next
    case False
    then obtain ks where ks: "r' = r\<lparr>rl_forced_kill := True, rl_killed_pids := ks\<rparr>"
      using rest by (auto elim!: bindP_InrE simp: ret_def)
    have "prefix l t"
      using kill_remaining_careful [of "\<lambda>_. True" owned "set owned" l W i r] run by (simp add: lasting_def careful_def)
    then have "prefix h t" using w prefix_order.trans unfolding watching_def by blast
    then show ?thesis using w ks by (simp add: watching_def)
  qed
qed simp

lemma watching_observed:
  assumes "watching uuids h k r l"
  shows "\<not> disappeared uuids ob \<Longrightarrow> watching uuids h 0 (r\<lparr>rl_observations := rl_observations r @ [ob]\<rparr>) l"
    and "ob = Observed ev \<Longrightarrow> disappeared uuids ob \<Longrightarrow> k = 0 \<Longrightarrow>
      watching uuids h 1 (r\<lparr>rl_observations := rl_observations r @ [ob]\<rparr>) l"
  using assms by (auto simp: watching_def clean_def)

lemma watching_confirmed:
  assumes "watching uuids h k r l" and "ob = Observed ev" and "disappeared uuids ob" and "k \<noteq> 0"
    and "\<forall>p \<in> owned. \<exists>u. prefix h u \<and> prefix u l \<and> gone W p u"
  shows "confirmed W owned uuids h (confirm_release ob (r\<lparr>rl_observations := rl_observations r @ [ob]\<rparr>)) l"
proof -
  obtain obs a where "rl_observations r = obs @ [Observed a]" "obs \<noteq> []" "clean uuids a"
    using assms(1,4) by (auto simp: watching_def)
  moreover have "clean uuids ev" using assms(2,3) by (simp add: clean_def)
  ultimately show ?thesis using assms(1,2,5) by (auto simp: confirmed_def confirm_release_def watching_def)
qed

lemma release_loop_confirmed:
  "triple (watching uuids h k r) (release_loop W i owned uuids deadline hard poll fuel k r)
     (confirmed W (set owned) uuids h) (\<lambda>_ _. True)"
proof (induction fuel arbitrary: k r)
  case 0
  show ?case by (simp add: triple_pure)
next
  case (Suc fuel)
  have late: "triple (watching uuids h k r) (ret (r\<lparr>rl_error := Some msg\<rparr>)) (confirmed W (set owned) uuids h) (\<lambda>_ _. True)" for msg
    by (rule triple_pure) (simp add: watching_def confirmed_def)
  have kill: "triple (watching uuids h k' r') (if b then kill_remaining W i owned r' else ret r')
      (\<lambda>r'' l. watching uuids h k' r'' l) (\<lambda>_ _. True)" for k' r' b
    using triple_kill_remaining by (simp add: triple_pure)
  have on: "triple (watching uuids h k' r')
     (bindP (read_time W) (\<lambda>now. bindP (if deadline \<le> now \<and> \<not> rl_forced_kill r' then kill_remaining W i owned r' else ret r') (\<lambda>r.
         thenP (pause poll) (release_loop W i owned uuids deadline hard poll fuel k' r))))
     (confirmed W (set owned) uuids h) (\<lambda>_ _. True)" for k' r'
    by (rule triple_bind [OF triple_watching [OF quiet_calls(2)]], rule triple_bind [OF kill],
        rule triple_then [OF triple_watching [OF quiet_calls(3)] Suc.IH])
  have seen: "triple (\<lambda>l. watching uuids h k r l \<and>
        (disappeared uuids ob \<longrightarrow> (\<exists>ev. ob = Observed ev) \<and> (\<forall>p \<in> set owned. \<exists>u. prefix h u \<and> prefix u l \<and> gone W p u)))
      (let r = r\<lparr>rl_observations := rl_observations r @ [ob]\<rparr>; empties = (if disappeared uuids ob then Suc k else 0) in
         if 2 \<le> empties then ret (confirm_release ob r)
         else bindP (read_time W) (\<lambda>now.
           bindP (if deadline \<le> now \<and> \<not> rl_forced_kill r then kill_remaining W i owned r else ret r) (\<lambda>r.
             thenP (pause poll) (release_loop W i owned uuids deadline hard poll fuel empties r))))
      (confirmed W (set owned) uuids h) (\<lambda>_ _. True)" for ob
  proof -
    let ?r = "r\<lparr>rl_observations := rl_observations r @ [ob]\<rparr>"
    consider "\<not> disappeared uuids ob" | "disappeared uuids ob" "k = 0" | "disappeared uuids ob" "k \<noteq> 0" by blast
    then show ?thesis
    proof cases
      case 1
      from triple_conseq [OF on [of 0 "r\<lparr>rl_observations := rl_observations r @ [ob]\<rparr>"]] watching_observed(1) [OF _ 1]
      show ?thesis using 1 by (simp add: Let_def)
    next
      case 2
      have "triple (\<lambda>l. watching uuids h k r l \<and> (disappeared uuids ob \<longrightarrow> (\<exists>ev. ob = Observed ev) \<and>
          (\<forall>p \<in> set owned. \<exists>u. prefix h u \<and> prefix u l \<and> gone W p u)))
        (bindP (read_time W) (\<lambda>now. bindP (if deadline \<le> now \<and> \<not> rl_forced_kill ?r then kill_remaining W i owned ?r else ret ?r) (\<lambda>r.
           thenP (pause poll) (release_loop W i owned uuids deadline hard poll fuel 1 r))))
        (confirmed W (set owned) uuids h) (\<lambda>_ _. True)"
        by (rule triple_conseq [OF on [of 1 ?r]]) (use watching_observed(2) [OF _ _ 2] 2(1) in blast)+
      then show ?thesis using 2 by (simp add: Let_def)
    next
      case 3
      then have "2 \<le> Suc k" by simp
      then show ?thesis using 3 by (simp add: Let_def) (rule triple_pure, auto intro: watching_confirmed)
    qed
  qed
  have body: "triple (watching uuids h k r) (if hard < now then ret (r\<lparr>rl_error := Some msg\<rparr>)
     else bindP (observe_again W i owned) (\<lambda>ob.
      (let r = r\<lparr>rl_observations := rl_observations r @ [ob]\<rparr>; empties = (if disappeared uuids ob then Suc k else 0) in
         if 2 \<le> empties then ret (confirm_release ob r)
         else bindP (read_time W) (\<lambda>now.
           bindP (if deadline \<le> now \<and> \<not> rl_forced_kill r then kill_remaining W i owned r else ret r) (\<lambda>r.
             thenP (pause poll) (release_loop W i owned uuids deadline hard poll fuel empties r))))))
      (confirmed W (set owned) uuids h) (\<lambda>_ _. True)" for now msg
    using late triple_bind [OF triple_observe seen] by simp
  show ?case unfolding release_loop.simps by (rule triple_bind [OF triple_watching [OF quiet_calls(2)] body])
qed

lemma confirmed_mono:
  assumes "S \<subseteq> S'" and "confirmed W S' uuids h r t"
  shows "confirmed W S uuids h r t"
proof -
  have "(\<forall>p \<in> S'. \<exists>u. prefix h u \<and> prefix u t \<and> gone W p u) \<Longrightarrow> (\<forall>p \<in> S. \<exists>u. prefix h u \<and> prefix u t \<and> gone W p u)"
    using assms(1) by blast
  then show ?thesis using assms(2) by (cases "rl_released r") (auto simp: confirmed_def)
qed

text \<open>
  C35. A release that returns either reports that the disappearance was not confirmed, or it
  was confirmed by the last two observations, both after the signal: no owned process alive,
  none on a GPU, the endpoint silent and every GPU of the engine measured; each captured
  process was seen gone after the signal, and a release reported graceful killed nothing.
\<close>

theorem release_is_confirmed:
  assumes "release_engine W fuel P no_foreground no_transfers i s = (Inr r, t)"
  shows "\<exists>h uuids. prefix s h \<and> prefix (h @ [Clocked, Sent SIGTERM (ei_process i)]) t \<and> set (ei_gpu_uuids i) \<subseteq> uuids \<and> uuids \<noteq> {} \<and>
    confirmed W (set (ei_owned_processes i)) uuids (h @ [Clocked, Sent SIGTERM (ei_process i)]) r t"
proof -
  obtain j owned before p u where c: "check_release W P no_foreground no_transfers i s = (Inr (j, owned, before, p), u)"
    and run: "stop_and_watch W fuel P j owned before p u = (Inr r, t)"
    using assms unfolding release_engine_def by (elim bindP_InrE) (auto split: prod.splits)
  note ok = check_release_ok [OF c]
  let ?h = "u @ [Clocked, Sent SIGTERM (ei_process i)]" and ?d = "ow_clock W u + rp_graceful_timeout P"
  let ?r = "new_release j before (ow_clock W u)"
  have loop: "release_loop W j owned (set (ei_gpu_uuids j)) ?d (?d + rp_confirmation_timeout P) (rp_poll_seconds P) fuel 0 ?r ?h = (Inr r, t)"
    using run ok by (auto simp: stop_and_watch_def read_time_def send_signal_def call_world_def bindP_def thenP_def Let_def
        split: option.splits)
  have "watching (set (ei_gpu_uuids j)) ?h 0 ?r ?h" by (simp add: watching_def new_release_def unkilled_def)
  then have post: "confirmed W (set owned) (set (ei_gpu_uuids j)) ?h r t"
    using triple_returns [OF release_loop_confirmed] loop by blast
  have "prefix ?h t"
    using stepsD [OF release_loop_careful [of owned "set owned" W ?h ?d] loop] by (simp add: careful_after_def careful_def)
  moreover have "confirmed W (set (ei_owned_processes i)) (set (ei_gpu_uuids j)) ?h r t"
    using post ok by (blast intro: confirmed_mono)
  moreover have "prefix s u" using ok quiet_prefix by blast
  ultimately show ?thesis using ok by (intro exI [of _ u] exI [of _ "set (ei_gpu_uuids j)"]) simp
qed

section \<open>Releasing ends\<close>

text \<open>\<open>Unfinished\<close> is no exception of the world's.\<close>

definition worldly :: "os_world \<Rightarrow> bool" where
  "worldly W \<longleftrightarrow> (\<forall>l pid. ow_process W l pid \<noteq> Inl Unfinished) \<and> (\<forall>l p. ow_children W l p \<noteq> Inl Unfinished) \<and>
     (\<forall>l q. ow_rows W l q \<noteq> Inl Unfinished) \<and> (\<forall>l sig p. ow_signal W l sig p \<noteq> Some Unfinished) \<and>
     (\<forall>url. up_port (ow_urlsplit W url) \<noteq> Inl Unfinished)"

definition finishes :: "(history, 'a) prog \<Rightarrow> bool" where
  "finishes m \<longleftrightarrow> (\<forall>l. fst (m l) \<noteq> Inl Unfinished)"

lemma finishes_bind: "finishes m \<Longrightarrow> (\<And>a. finishes (f a)) \<Longrightarrow> finishes (bindP m f)"
  unfolding finishes_def by (auto simp: bindP_def split: prod.splits sum.splits) (metis fst_conv)+

lemma finishes_try:
  "finishes m \<Longrightarrow> (\<And>e. e \<noteq> Unfinished \<Longrightarrow> finishes (h e)) \<Longrightarrow> finishes (try_except m h)"
  unfolding finishes_def by (auto simp: try_except_def split: prod.splits sum.splits) (metis fst_conv)+

lemma finishes_basic:
  "finishes (ret a)" "e \<noteq> Unfinished \<Longrightarrow> finishes (throw e)" "e \<noteq> Unfinished \<Longrightarrow> finishes (guardP b e)"
  "(\<And>l. f l \<noteq> Inl Unfinished) \<Longrightarrow> finishes (call_world ev f)" "r \<noteq> Inl Unfinished \<Longrightarrow> finishes (liftS r)"
  by (auto simp: finishes_def ret_def throw_def guardP_def call_world_def liftS_def)

lemma finishes_then: "finishes m \<Longrightarrow> finishes n \<Longrightarrow> finishes (thenP m n)"
  by (simp add: thenP_def finishes_bind)

lemma finishes_catching: "finishes m \<Longrightarrow> (\<And>e. finishes (h e)) \<Longrightarrow> finishes (catching m h)"
  unfolding catching_def by (rule finishes_try) simp_all

lemma finishes_unless_gone: "finishes m \<Longrightarrow> finishes (unless_gone m a)"
  unfolding unless_gone_def by (rule finishes_try) (simp_all add: finishes_basic)

lemma finishes_mapP: "(\<And>x. finishes (f x)) \<Longrightarrow> finishes (mapP f xs)"
  by (induction xs) (auto intro!: finishes_bind finishes_basic)

lemma finishes_filterP: "(\<And>x. finishes (f x)) \<Longrightarrow> finishes (filterP f xs)"
  by (induction xs) (auto intro!: finishes_bind finishes_basic)

lemma finishes_splits:
  "(b \<Longrightarrow> finishes m) \<Longrightarrow> (\<not> b \<Longrightarrow> finishes n) \<Longrightarrow> finishes (if b then m else n)"
  "(x = None \<Longrightarrow> finishes m) \<Longrightarrow> (\<And>a. x = Some a \<Longrightarrow> finishes (f a)) \<Longrightarrow> finishes (case x of None \<Rightarrow> m | Some a \<Rightarrow> f a)"
  "(\<And>a b. y = (a, b) \<Longrightarrow> finishes (g a b)) \<Longrightarrow> finishes (case y of (a, b) \<Rightarrow> g a b)"
  "(\<And>a. a = z \<Longrightarrow> finishes (k a)) \<Longrightarrow> finishes (let a = z in k a)"
  by (auto split: option.splits prod.splits)

lemma finishes_world:
  assumes "worldly W"
  shows "finishes (see W pid)" "finishes (read_time W)" "finishes (pause d)" "finishes (query_gpus W q)"
    "finishes (list_children W p)" "finishes (send_signal W sig p)" "finishes (liftS (endpoint W url))"
    "finishes (liftS (check_safe_arguments argv))"
  using assms
  by (auto simp: see_def read_time_def pause_def query_gpus_def list_children_def send_signal_def endpoint_def
      check_safe_arguments_def Let_def worldly_def intro!: finishes_basic split: option.splits sum.splits)

lemmas finishes_rules = finishes_splits finishes_then finishes_catching finishes_unless_gone finishes_mapP finishes_filterP
  finishes_bind finishes_basic(1) finishes_world

lemma finishes_same_process: "worldly W \<Longrightarrow> finishes (same_process W p)"
  unfolding same_process_def by (intro finishes_rules)

lemma finishes_responds: "worldly W \<Longrightarrow> finishes (endpoint_responds W url)"
  unfolding endpoint_responds_def by (intro finishes_rules finishes_basic(4)) simp_all

lemma finishes_observe: "worldly W \<Longrightarrow> finishes (observe_release W i owned)"
  unfolding observe_release_def gpu_snapshot_def by (intro finishes_rules finishes_same_process finishes_responds)

lemma finishes_observe_again: "worldly W \<Longrightarrow> finishes (observe_again W i owned)"
  unfolding observe_again_def by (intro finishes_rules finishes_observe)

lemma finishes_kill: "worldly W \<Longrightarrow> finishes (kill_remaining W i owned r)"
  unfolding kill_remaining_def kill_checked_def by (intro finishes_rules finishes_same_process)

lemma finishes_check: "worldly W \<Longrightarrow> finishes (check_release W P nf nt i)"
  unfolding check_release_def validate_root_def release_owned_def identify_def identity_changed_def
  by (intro finishes_rules finishes_same_process finishes_observe finishes_basic(2,3); simp)

definition pauses :: "history \<Rightarrow> nat" where
  "pauses l = length (filter (\<lambda>ev. case ev of Paused _ \<Rightarrow> True | _ \<Rightarrow> False) l)"

lemma pauses_append [simp]: "pauses (l @ m) = pauses l + pauses m"
  by (simp add: pauses_def)

text \<open>After \<open>n\<close> pauses more time than the limit has passed.\<close>

definition clock_passes :: "os_world \<Rightarrow> seconds \<Rightarrow> nat \<Rightarrow> bool" where
  "clock_passes W limit n \<longleftrightarrow> (\<forall>l m. n \<le> pauses m \<longrightarrow> ow_clock W l + limit < ow_clock W (l @ m))"

text \<open>From \<open>h\<close> on, the fuel and the pauses so far exceed \<open>n\<close>.\<close>

definition fuelled :: "nat \<Rightarrow> history \<Rightarrow> nat \<Rightarrow> history \<Rightarrow> bool" where
  "fuelled n h fuel l \<longleftrightarrow> (\<exists>m. l = h @ m \<and> n < fuel + pauses m)"

lemma fuelled_prefix: "fuelled n h fuel l \<Longrightarrow> prefix l t \<Longrightarrow> fuelled n h fuel t"
  unfolding fuelled_def prefix_def by fastforce

lemma triple_fuelled:
  assumes "finishes m" and "steps prefix m"
  shows "triple (fuelled n h fuel) m (\<lambda>_. fuelled n h fuel) (\<lambda>e _. e \<noteq> Unfinished)"
proof (rule tripleI)
  show "fuelled n h fuel t" if "fuelled n h fuel l" "m l = (Inr a, t)" for l a t
    using fuelled_prefix [OF that(1) stepsD [OF assms(2) that(2)]] .
  show "e \<noteq> Unfinished" if "m l = (Inl e, t)" for l e t
    using assms(1) that by (metis finishes_def fst_conv)
qed

lemma steps_prefix: "steps quiet m \<Longrightarrow> steps prefix m"
  by (simp add: steps_def quiet_prefix)

lemma steps_prefix_kill: "steps prefix (if b then kill_remaining W i owned r else ret r)"
proof -
  have "prefix l (snd (kill_remaining W i owned r l))" for l
    using kill_remaining_careful [of "\<lambda>_. True" owned "set owned" l W i r] by (simp add: lasting_def careful_def)
  then show ?thesis by (simp add: steps_def ret_def)
qed

lemma release_loop_ends:
  assumes "worldly W" and "clock_passes W limit n" and "hard = ow_clock W h + limit"
  shows "0 < fuel \<Longrightarrow> triple (fuelled n h fuel) (release_loop W i owned uuids deadline hard poll fuel k r)
    (\<lambda>_ _. True) (\<lambda>e _. e \<noteq> Unfinished)"
proof (induction fuel arbitrary: k r)
  case (Suc fuel)
  let ?F = "\<lambda>(e :: exn) (_ :: history). e \<noteq> Unfinished" and ?T = "\<lambda>(_ :: release_result) (_ :: history). True"
  have read: "triple (fuelled n h (Suc fuel)) (read_time W) (\<lambda>now l. fuelled n h (Suc fuel) l \<and> (hard < now \<or> 0 < fuel)) ?F"
  proof (rule tripleI)
    fix l now t
    assume f: "fuelled n h (Suc fuel) l" and run: "read_time W l = (Inr now, t)"
    then have t: "now = ow_clock W l" "t = l @ [Clocked]" by (simp_all add: read_time_def call_world_def)
    obtain m where m: "l = h @ m" "n < Suc fuel + pauses m" using f by (auto simp: fuelled_def)
    have "hard < now" if "fuel = 0"
      using assms(2,3) m t(1) that by (simp add: clock_passes_def)
    then show "fuelled n h (Suc fuel) t \<and> (hard < now \<or> 0 < fuel)"
      using fuelled_prefix [OF f, of t] t(2) by auto
  qed (simp add: read_time_def call_world_def)
  have paused: "triple (fuelled n h (Suc fuel)) (pause poll) (\<lambda>_. fuelled n h fuel) ?F"
  proof (rule tripleI)
    fix l x t
    assume "fuelled n h (Suc fuel) l" and "pause poll l = (Inr x, t)"
    then obtain m where "t = h @ (m @ [Paused poll])" "n < fuel + pauses (m @ [Paused poll])"
      by (auto simp: pause_def call_world_def fuelled_def pauses_def)
    then show "fuelled n h fuel t" unfolding fuelled_def by blast
  qed (simp add: pause_def call_world_def)
  have kill: "triple (fuelled n h (Suc fuel)) (if b then kill_remaining W i owned r else ret r) (\<lambda>_. fuelled n h (Suc fuel)) ?F" for b r
    by (rule triple_fuelled [OF _ steps_prefix_kill]) (intro finishes_rules finishes_kill assms(1))
  have goes: "triple (fuelled n h (Suc fuel)) (read_time W) (\<lambda>_. fuelled n h (Suc fuel)) ?F"
    "triple (fuelled n h (Suc fuel)) (observe_again W i owned) (\<lambda>_. fuelled n h (Suc fuel)) ?F"
    using assms(1) by (auto intro!: triple_fuelled steps_prefix quiet_calls quiet_observe finishes_world finishes_observe_again)
  have on: "triple (fuelled n h (Suc fuel))
     (bindP (read_time W) (\<lambda>now. bindP (if deadline \<le> now \<and> \<not> rl_forced_kill r then kill_remaining W i owned r else ret r) (\<lambda>r.
         thenP (pause poll) (release_loop W i owned uuids deadline hard poll fuel k r)))) ?T ?F" if "0 < fuel" for k r
    by (rule triple_bind [OF goes(1)], rule triple_bind [OF kill], rule triple_then [OF paused Suc.IH [OF that]])
  have body: "triple (\<lambda>l. fuelled n h (Suc fuel) l \<and> (hard < now \<or> 0 < fuel))
     (if hard < now then ret (r\<lparr>rl_error := Some msg\<rparr>)
     else bindP (observe_again W i owned) (\<lambda>ob.
      (let r = r\<lparr>rl_observations := rl_observations r @ [ob]\<rparr>; empties = (if disappeared uuids ob then Suc k else 0) in
         if 2 \<le> empties then ret (confirm_release ob r)
         else bindP (read_time W) (\<lambda>now.
           bindP (if deadline \<le> now \<and> \<not> rl_forced_kill r then kill_remaining W i owned r else ret r) (\<lambda>r.
             thenP (pause poll) (release_loop W i owned uuids deadline hard poll fuel empties r)))))) ?T ?F" for now msg
  proof (cases "hard < now")
    case True
    then show ?thesis by (simp add: triple_pure)
  next
    case False
    show ?thesis
    proof (cases "0 < fuel")
      case True
      have seen: "triple (fuelled n h (Suc fuel))
        (let r = r\<lparr>rl_observations := rl_observations r @ [ob]\<rparr>; empties = (if disappeared uuids ob then Suc k else 0) in
         if 2 \<le> empties then ret (confirm_release ob r)
         else bindP (read_time W) (\<lambda>now.
           bindP (if deadline \<le> now \<and> \<not> rl_forced_kill r then kill_remaining W i owned r else ret r) (\<lambda>r.
             thenP (pause poll) (release_loop W i owned uuids deadline hard poll fuel empties r)))) ?T ?F" for ob
      proof (cases "2 \<le> (if disappeared uuids ob then Suc k else 0)")
        case True
        then show ?thesis by (simp only: Let_def if_True) (rule triple_pure, simp)
      next
        case False
        then show ?thesis by (simp only: Let_def if_False) (rule on [OF \<open>0 < fuel\<close>])
      qed
      have "triple (fuelled n h (Suc fuel)) (bindP (observe_again W i owned) (\<lambda>ob.
      (let r = r\<lparr>rl_observations := rl_observations r @ [ob]\<rparr>; empties = (if disappeared uuids ob then Suc k else 0) in
         if 2 \<le> empties then ret (confirm_release ob r)
         else bindP (read_time W) (\<lambda>now.
           bindP (if deadline \<le> now \<and> \<not> rl_forced_kill r then kill_remaining W i owned r else ret r) (\<lambda>r.
             thenP (pause poll) (release_loop W i owned uuids deadline hard poll fuel empties r)))))) ?T ?F"
        by (rule triple_bind [OF goes(2) seen])
      then show ?thesis using False True by simp
    next
      case False
      with \<open>\<not> hard < now\<close> show ?thesis by (auto intro: tripleI)
    qed
  qed
  show ?case unfolding release_loop.simps by (rule triple_bind [OF read body])
qed simp

text \<open>
  C36. Releasing an engine ends whatever the processes, the GPUs and the endpoint answer: when
  the clock passes both timeouts within \<open>n\<close> pauses, \<open>n + 1\<close> turns of the loop are enough.
\<close>

theorem release_ends:
  assumes "worldly W" and "clock_passes W (rp_graceful_timeout P + rp_confirmation_timeout P) n" and "n < fuel"
  shows "fst (release_engine W fuel P no_foreground no_transfers i s) \<noteq> Inl Unfinished"
proof -
  have "fst (stop_and_watch W fuel P j owned before p u) \<noteq> Inl Unfinished" for j owned before p u
  proof -
    let ?h = "u @ [Clocked, Sent SIGTERM p]" and ?d = "ow_clock W u + rp_graceful_timeout P"
    let ?loop = "release_loop W j owned (set (ei_gpu_uuids j)) ?d (?d + rp_confirmation_timeout P) (rp_poll_seconds P) fuel 0
         (new_release j before (ow_clock W u))"
    have "fuelled n u fuel ?h" using assms(3) by (auto simp: fuelled_def)
    then have "fst (?loop ?h) \<noteq> Inl Unfinished"
      using triple_raises [OF release_loop_ends [OF assms(1,2), where h = u and fuel = fuel and hard = "?d + rp_confirmation_timeout P"]]
        assms(3) by (cases "?loop ?h"; cases "fst (?loop ?h)") (auto simp: add.assoc)
    moreover have "ow_signal W (u @ [Clocked]) SIGTERM p \<noteq> Some Unfinished" using assms(1) by (simp add: worldly_def)
    ultimately show ?thesis
      by (auto simp: stop_and_watch_def read_time_def send_signal_def call_world_def bindP_def thenP_def Let_def
          split: option.splits prod.splits)
  qed
  then have "finishes (release_engine W fuel P no_foreground no_transfers i)"
    unfolding release_engine_def by (intro finishes_rules finishes_check assms(1)) (simp add: finishes_def)
  then show ?thesis by (simp add: finishes_def)
qed

end
