(* ===== verification/LifecycleStart.thy ===== *)
theory LifecycleStart
  imports LifecycleRelease
begin

text \<open>
  What a captured identity holds, and what an engine reported as started is: the process
  that was launched, from a safe command, where the prior process and its port were gone.
\<close>

section \<open>Captured identities\<close>

text \<open>
  An identity that a restart may use: no credentials, only the allowed environment, the
  process among its own and not the caller's, the GPUs those of its processes.
\<close>

definition restartable :: "os_world \<Rightarrow> engine_identity \<Rightarrow> bool" where
  "restartable W i \<longleftrightarrow> \<not> list_ex credential_bearing (ei_cmdline i) \<and> fst ` set (ei_environment i) \<subseteq> set environment_keys \<and>
     ei_process i \<in> set (ei_owned_processes i) \<and> in_pid (ei_process i) \<noteq> ow_getpid W \<and>
     gq_pid ` set (ei_compute_processes i) \<subseteq> in_pid ` set (ei_owned_processes i) \<and>
     set (ei_gpu_uuids i) = gq_gpu_uuid ` set (ei_compute_processes i)"

lemma capture_ok: "capture_owned_engine W url l = (Inr i, t) \<Longrightarrow> restartable W i \<and> ei_url i = without_slashes url"
  unfolding capture_owned_engine_def thenP_def Let_def restartable_def
  by (elim bindP_InrE) (auto elim!: bindP_InrE simp: ret_def guard_run lift_run check_safe_arguments_def split: prod.splits if_splits)

section \<open>Starting\<close>

lemma quiet_launched_here: "steps quiet (launched_here W port p)"
  unfolding launched_here_def by (intro quiet_rules)

lemma quiet_capture: "steps quiet (capture_owned_engine W url)"
  unfolding capture_owned_engine_def
  by (intro quiet_rules quiet_call quiet_launched_here quiet_identify quiet_gpu_snapshot) simp_all

lemma quiet_http_ready: "steps quiet (http_ready W url)"
  unfolding http_ready_def by (intro quiet_rules quiet_call) simp

lemma http_ready_true:
  "http_ready W url l = (Inr True, t) \<Longrightarrow> ow_health W l (without_slashes url @ ''/health'') = Inr 200"
  by (auto simp: http_ready_def try_except_def call_world_def bindP_def ret_def throw_def split: sum.splits if_splits)

lemma start_loop_ok:
  assumes "start_loop W i timeout begun pid path fuel l = (Inr e, t)"
  shows "in_pid (ei_process (se_identity e)) = pid \<and> restartable W (se_identity e) \<and> quiet l t \<and>
    (\<exists>u. prefix l u \<and> prefix u t \<and> ow_health W u (without_slashes (ei_url i) @ ''/health'') = Inr 200)"
  using assms
proof (induction fuel arbitrary: l)
  case 0
  then show ?case by (simp add: throw_def)
next
  case (Suc fuel)
  obtain now u code v where u: "read_time W l = (Inr now, u)" and v: "call_world (Polled pid) (\<lambda>l. Inr (ow_poll W l pid)) u = (Inr code, v)"
    and rest: "(case code of
           Some c \<Rightarrow> throw (exited_early pid c path)
         | None \<Rightarrow>
             bindP (http_ready W (ei_url i)) (\<lambda>ready.
               if ready
               then bindP (capture_owned_engine W (ei_url i)) (\<lambda>captured.
                 if in_pid (ei_process captured) \<noteq> pid
                 then throw (RuntimeError ''ready endpoint does not belong to the launched PID'')
                 else bindP (read_time W) (\<lambda>now.
                   ret \<lparr>se_identity = captured, se_started_monotonic = begun, se_ready_monotonic = now, se_log_path = path\<rparr>))
               else thenP (pause (1 / 2)) (start_loop W i timeout begun pid path fuel))) v = (Inr e, t)"
    using Suc.prems unfolding start_loop.simps by (elim bindP_InrE) (auto elim!: bindP_InrE simp: throw_def split: if_splits)
  have poll: "steps quiet (call_world (Polled pid) (\<lambda>l. Inr (ow_poll W l pid)))" by (rule quiet_call) simp
  have lv: "quiet l v" using stepsD [OF quiet_calls(2) u] stepsD [OF poll v] by (rule careful_trans)
  have "code = None" using rest by (cases code) (simp_all add: throw_def)
  then obtain ready w where w: "http_ready W (ei_url i) v = (Inr ready, w)" and go: "(if ready
               then bindP (capture_owned_engine W (ei_url i)) (\<lambda>captured.
                 if in_pid (ei_process captured) \<noteq> pid
                 then throw (RuntimeError ''ready endpoint does not belong to the launched PID'')
                 else bindP (read_time W) (\<lambda>now.
                   ret \<lparr>se_identity = captured, se_started_monotonic = begun, se_ready_monotonic = now, se_log_path = path\<rparr>))
               else thenP (pause (1 / 2)) (start_loop W i timeout begun pid path fuel)) w = (Inr e, t)"
    using rest by (auto elim!: bindP_InrE)
  have lw: "quiet l w" using lv stepsD [OF quiet_http_ready w] by (rule careful_trans)
  show ?case
  proof (cases ready)
    case True
    then obtain c x now where c: "capture_owned_engine W (ei_url i) w = (Inr c, x)" "in_pid (ei_process c) = pid"
      and e: "read_time W x = (Inr now, t)" "se_identity e = c"
      using go by (auto elim!: bindP_InrE simp: ret_def throw_def split: if_splits)
    have "quiet l x" using lw stepsD [OF quiet_capture c(1)] by (rule careful_trans)
    then have lt: "quiet l t" using stepsD [OF quiet_calls(2) e(1)] by (rule careful_trans)
    have "ow_health W v (without_slashes (ei_url i) @ ''/health'') = Inr 200" using w True by (intro http_ready_true [of W "ei_url i" v w]) simp
    moreover have "prefix l v" using lv by (rule quiet_prefix)
    moreover have "quiet v t"
      by (rule careful_trans [OF careful_trans [OF stepsD [OF quiet_http_ready w] stepsD [OF quiet_capture c(1)]] stepsD [OF quiet_calls(2) e(1)]])
    ultimately show ?thesis using c(2) e(2) capture_ok [OF c(1)] lt quiet_prefix by blast
  next
    case False
    then obtain x where x: "pause (1 / 2) w = (Inr (), x)" "start_loop W i timeout begun pid path fuel x = (Inr e, t)"
      using go unfolding thenP_def by (auto elim!: bindP_InrE)
    have "quiet l x" using lw stepsD [OF quiet_calls(3) x(1)] by (rule careful_trans)
    then show ?thesis using Suc.IH [OF x(2)] careful_trans quiet_prefix prefix_order.trans by meson
  qed
qed

text \<open>
  An engine reported as started is the process that was launched: its number is the one
  \<open>Popen\<close> returned, its health endpoint answered 200 afterwards and its captured identity can
  be restarted again. Before the launch the old process was seen gone and the port silent,
  the command holds no credentials and the environment only allowed keys; nothing was signalled.
\<close>

theorem started_engine_is_the_launched_one:
  assumes "start_engine W fuel timeout path i s = (Inr e, t)"
  shows "\<exists>h env. prefix s h \<and> prefix (h @ [Spawned (ei_cmdline i) (ei_cwd i) env]) t \<and>
    ow_spawn W h (ei_cmdline i) = Inr (in_pid (ei_process (se_identity e))) \<and> restartable W (se_identity e) \<and>
    (\<exists>u. prefix h u \<and> prefix u t \<and> ow_health W u (without_slashes (ei_url i) @ ''/health'') = Inr 200) \<and>
    (\<exists>u. prefix s u \<and> prefix u h \<and> gone W (ei_process i) u) \<and>
    (\<exists>u. prefix s u \<and> prefix u h \<and> \<not> ow_connects W u (ei_url i)) \<and>
    fst ` set env \<subseteq> set environment_keys \<and> \<not> list_ex credential_bearing (ei_cmdline i) \<and> quiet s t"
proof -
  obtain old live a b c d begun f pid g x where old: "same_process W (ei_process i) s = (Inr old, a)"
    and live: "(if old \<noteq> None then ret True else endpoint_responds W (ei_url i)) a = (Inr live, b)" and dead: "\<not> live"
    and safe: "check_safe_arguments (ei_cmdline i) = Inr ()"
    and o1: "open_path W path b = (Inr (), c)" and begun: "read_time W c = (Inr begun, d)" and o2: "open_path W path d = (Inr (), f)"
    and pid: "spawn W i f = (Inr pid, g)"
    and x: "unless_gone (bindP (see W pid) (\<lambda>_. ret ())) () g = (Inr (), x)"
    and loop: "start_loop W i timeout begun pid path fuel x = (Inr e, t)"
    using assms unfolding start_engine_def thenP_def
    by (elim bindP_InrE) (auto elim!: bindP_InrE simp: guard_run lift_run)
  have none: "old = None" using live dead by (cases old) (auto simp: ret_def)
  have up: "endpoint_responds W (ei_url i) a = (Inr False, b)" using live dead none by simp
  then have silent: "b = a @ [Dialled (ei_url i)]" "\<not> ow_connects W a (ei_url i)"
    by (auto simp: endpoint_responds_def call_world_def bindP_def liftS_def split: sum.splits)
  have spawned: "g = f @ [Spawned (ei_cmdline i) (ei_cwd i) (filter (\<lambda>kv. fst kv \<in> set environment_keys) (ei_environment i))]"
    "ow_spawn W f (ei_cmdline i) = Inr pid"
    using pid by (simp_all add: spawn_def call_world_def)
  have look: "steps quiet (unless_gone (bindP (see W pid) (\<lambda>_. ret ())) ())" by (intro quiet_rules)
  note l = start_loop_ok [OF loop]
  have sa: "quiet s a" using stepsD [OF quiet_same_process old] .
  have ab: "quiet a b" using stepsD [OF quiet_endpoint_responds up] .
  have bf: "quiet b f"
    by (rule careful_trans [OF careful_trans [OF stepsD [OF quiet_calls(6) o1] stepsD [OF quiet_calls(2) begun]] stepsD [OF quiet_calls(6) o2]])
  have gx: "quiet g x" using stepsD [OF look x] .
  have fg: "quiet f g" using stepsD [OF quiet_calls(7) pid] .
  have sf: "quiet s f" by (rule careful_trans [OF careful_trans [OF sa ab] bf])
  have xt: "quiet x t" using l by simp
  have gt: "quiet g t" by (rule careful_trans [OF gx xt])
  have st: "quiet s t" by (rule careful_trans [OF careful_trans [OF sf fg] gt])
  have old_gone: "gone W (ei_process i) s" using old none by (simp add: gone_def)
  have "prefix a f" by (rule quiet_prefix [OF careful_trans [OF ab bf]])
  moreover obtain u where u: "prefix x u" "prefix u t" "ow_health W u (without_slashes (ei_url i) @ ''/health'') = Inr 200"
    using l by blast
  moreover have "prefix f u" by (rule prefix_order.trans [OF quiet_prefix [OF careful_trans [OF fg gx]] u(1)])
  moreover have "\<not> list_ex credential_bearing (ei_cmdline i)" using safe by (auto simp: check_safe_arguments_def split: if_splits)
  ultimately show ?thesis
    using quiet_prefix [OF sa] quiet_prefix [OF sf] quiet_prefix [OF gt] spawned l old_gone silent(2) st
    by (intro exI [of _ f] exI [of _ "filter (\<lambda>kv. fst kv \<in> set environment_keys) (ei_environment i)"]) auto
qed

section \<open>Witnesses\<close>

text \<open>A machine with one engine, process 7, that ends when it is asked to.\<close>

definition demo_process :: incarnation where
  "demo_process = \<lparr>in_pid = 7, in_create_time = 3\<rparr>"

definition demo_command :: "string list" where
  "demo_command = [''python'', ''-m'', ''sglang.launch_server'', ''--port'', ''8'']"

definition demo_machine :: os_world where
  "demo_machine = \<lparr>
     ow_urlsplit = (\<lambda>_. \<lparr>up_scheme = ''http'', up_hostname = Some ''localhost'', up_username = None, up_password = None,
       up_path = [], up_query = [], up_fragment = [], up_port = Inr (Some 8)\<rparr>),
     ow_process = (\<lambda>l pid. if pid = 7 \<and> (\<forall>ev \<in> set l. ev \<noteq> Sent SIGTERM demo_process)
       then Inr \<lparr>pv_create_time = 3, pv_running = True, pv_zombie = False, pv_cmdline = demo_command, pv_uid = 1,
         pv_environ = [(''PATH'', ''p''), (''TOKEN'', ''t'')], pv_cwd = ''w''\<rparr>
       else Inl (NoSuchProcess ''gone'')),
     ow_processes = (\<lambda>_. [demo_process]), ow_children = (\<lambda>_ _. Inr []),
     ow_rows = (\<lambda>l q. if q = ''--query-gpu=uuid,pci.bus_id,memory.used'' then Inr [[''g'', ''b'', ''1'']]
       else if \<forall>ev \<in> set l. ev \<noteq> Sent SIGTERM demo_process then Inr [[''7'', ''g'', ''5'']] else Inr []),
     ow_connects = (\<lambda>l _. \<forall>ev \<in> set l. ev \<noteq> Sent SIGTERM demo_process), ow_health = (\<lambda>_ _. Inr 200),
     ow_clock = (\<lambda>l. of_nat (pauses l)), ow_signal = (\<lambda>_ _ _. None), ow_open = (\<lambda>_ _. None),
     ow_spawn = (\<lambda>_ _. Inr 7), ow_poll = (\<lambda>_ _. None), ow_show_seconds = (\<lambda>_. ''t''), ow_getpid = 1, ow_getuid = 1\<rparr>"

definition demo_identity :: engine_identity where
  "demo_identity = \<lparr>ei_process = demo_process, ei_url = ''http://localhost:8'', ei_cmdline = demo_command, ei_cwd = ''w'',
     ei_environment = [], ei_owned_processes = [demo_process], ei_gpu_uuids = [''g''], ei_captured_monotonic = 0,
     ei_compute_processes = [], ei_gpus = []\<rparr>"

definition demo_release_plan :: release_plan where
  "demo_release_plan = \<lparr>rp_graceful_timeout = 1, rp_confirmation_timeout = 1, rp_poll_seconds = 1\<rparr>"

lemma demo_release_runs:
  "case fst (release_engine demo_machine 4 demo_release_plan True True demo_identity []) of
     Inr r \<Rightarrow> rl_released r \<and> rl_graceful r | Inl _ \<Rightarrow> False"
  by code_simp

theorem release_is_confirmed_witness:
  "\<exists>r t u. release_engine demo_machine 4 demo_release_plan True True demo_identity [] = (Inr r, t) \<and> rl_graceful r \<and>
     Sent SIGTERM demo_process \<in> set u \<and> prefix u t \<and> gone demo_machine demo_process u"
proof -
  obtain r t where run: "release_engine demo_machine 4 demo_release_plan True True demo_identity [] = (Inr r, t)"
    and ok: "rl_released r" "rl_graceful r"
    using demo_release_runs by (cases "release_engine demo_machine 4 demo_release_plan True True demo_identity []") (auto split: sum.splits)
  from release_is_confirmed [OF run] obtain h where
    "\<forall>p \<in> set (ei_owned_processes demo_identity). \<exists>u. prefix (h @ [Clocked, Sent SIGTERM (ei_process demo_identity)]) u \<and>
       prefix u t \<and> gone demo_machine p u"
    using ok by (auto simp: confirmed_def)
  then obtain u where "prefix (h @ [Clocked, Sent SIGTERM demo_process]) u" "prefix u t" "gone demo_machine demo_process u"
    by (auto simp: demo_identity_def)
  moreover from this(1) have "Sent SIGTERM demo_process \<in> set u" by (auto simp: prefix_def)
  ultimately show ?thesis using run ok(2) by blast
qed

theorem signals_hit_only_the_engine_witness:
  "\<exists>r t. release_engine demo_machine 4 demo_release_plan True True demo_identity [] = (r, t) \<and>
     careful (signal_allowed demo_machine demo_release_plan demo_identity) [] t"
proof -
  obtain r t where run: "release_engine demo_machine 4 demo_release_plan True True demo_identity [] = (r, t)"
    by (cases "release_engine demo_machine 4 demo_release_plan True True demo_identity []")
  from signals_hit_only_the_engine [OF this] run show ?thesis by simp
qed

theorem release_ends_witness:
  "fst (release_engine demo_machine 4 demo_release_plan True True demo_identity []) \<noteq> Inl Unfinished"
proof (rule release_ends)
  show "worldly demo_machine" by (auto simp: worldly_def demo_machine_def)
  show "clock_passes demo_machine (rp_graceful_timeout demo_release_plan + rp_confirmation_timeout demo_release_plan) 3"
    by (auto simp: clock_passes_def demo_machine_def demo_release_plan_def)
qed simp

text \<open>The same machine once the engine has ended, where a launch brings it back.\<close>

definition relaunching :: os_world where
  "relaunching = demo_machine\<lparr>
     ow_process := (\<lambda>l pid. if pid = 7 \<and> (\<exists>ev \<in> set l. case ev of Spawned _ _ _ \<Rightarrow> True | _ \<Rightarrow> False)
       then Inr \<lparr>pv_create_time = 3, pv_running = True, pv_zombie = False, pv_cmdline = demo_command, pv_uid = 1,
         pv_environ = [(''PATH'', ''p''), (''TOKEN'', ''t'')], pv_cwd = ''w''\<rparr>
       else Inl (NoSuchProcess ''gone'')),
     ow_connects := (\<lambda>_ _. False)\<rparr>"

theorem started_engine_is_the_launched_one_witness:
  "\<exists>e t. start_engine relaunching 2 9 ''log'' demo_identity [] = (Inr e, t) \<and> restartable relaunching (se_identity e) \<and>
     in_pid (ei_process (se_identity e)) = 7"
proof -
  have "case fst (start_engine relaunching 2 9 ''log'' demo_identity []) of Inr e \<Rightarrow> True | Inl _ \<Rightarrow> False" by code_simp
  then obtain e t where run: "start_engine relaunching 2 9 ''log'' demo_identity [] = (Inr e, t)"
    by (cases "start_engine relaunching 2 9 ''log'' demo_identity []") (auto split: sum.splits)
  from started_engine_is_the_launched_one [OF this] run show ?thesis by (auto simp: relaunching_def demo_machine_def)
qed

text \<open>
  The fallback asks for the owned processes outside the \<open>try\<close> block: when the system refuses
  to tell, the exception escapes after the signal and the partial result is lost.
\<close>

definition secretive :: os_world where
  "secretive = demo_machine\<lparr>ow_process := (\<lambda>l pid.
     if \<forall>ev \<in> set l. ev \<noteq> Sent SIGTERM demo_process then ow_process demo_machine l pid else Inl (AccessDenied ''denied''))\<rparr>"

lemma refused_look_loses_the_result:
  "fst (release_engine secretive 4 (demo_release_plan\<lparr>rp_graceful_timeout := 0\<rparr>) True True demo_identity []) = Inl (AccessDenied ''denied'')"
  by code_simp

end
