(* ===== verification/Intervals.thy ===== *)
theory Intervals
  imports Prelude
begin

text \<open>
  The interval arithmetic of \<open>experiments/local_pipeline/metrics.py\<close>: half-open intervals of
  time, their union as a sorted list without overlaps, and the intersection of two unions.
  A list of intervals stands for the points it covers. The union is proved to be a canonical
  form of that set, and the intersection the canonical form of the common points.
\<close>

text \<open>A float of the input: \<open>math.isfinite\<close> tells the two apart.\<close>

datatype pyfloat = Finite rat | NotFinite

type_synonym span = "rat \<times> rat"

text \<open>The values of a run that may raise at any of them, in order.\<close>

fun each_result :: "('a \<Rightarrow> exn + 'b) \<Rightarrow> 'a list \<Rightarrow> exn + 'b list" where
  "each_result f [] = Inr []"
| "each_result f (x # xs) = (case f x of Inl e \<Rightarrow> Inl e | Inr y \<Rightarrow>
     (case each_result f xs of Inl e \<Rightarrow> Inl e | Inr ys \<Rightarrow> Inr (y # ys)))"

definition checked_span :: "pyfloat \<times> pyfloat \<Rightarrow> exn + span" where
  "checked_span iv = (case iv of
     (Finite s, Finite e) \<Rightarrow> if e < s then Inl (ValueError ''invalid interval'') else Inr (s, e)
   | _ \<Rightarrow> Inl (ValueError ''invalid interval''))"

definition merge_span :: "span \<Rightarrow> span list \<Rightarrow> span list" where
  "merge_span iv result =
     (if result \<noteq> [] \<and> fst iv \<le> snd (List.last result)
      then butlast result @ [(fst (List.last result), max (snd (List.last result)) (snd iv))]
      else result @ [iv])"

definition merge_spans :: "span list \<Rightarrow> span list" where
  "merge_spans spans = fold merge_span (sort (filter (\<lambda>(s, e). s < e) spans)) []"

definition interval_union :: "(pyfloat \<times> pyfloat) list \<Rightarrow> exn + span list" where
  "interval_union intervals = (case each_result checked_span intervals of
     Inl e \<Rightarrow> Inl e | Inr spans \<Rightarrow> Inr (merge_spans spans))"

fun sweep :: "span list \<Rightarrow> span list \<Rightarrow> span list" where
  "sweep ((a, b) # l) ((c, d) # r) =
     (if max a c < min b d then [(max a c, min b d)] else []) @
     (if b < d then sweep l ((c, d) # r) else sweep ((a, b) # l) r)"
| "sweep _ _ = []"

definition interval_intersection ::
  "(pyfloat \<times> pyfloat) list \<Rightarrow> (pyfloat \<times> pyfloat) list \<Rightarrow> exn + span list" where
  "interval_intersection left right = (case interval_union left of
     Inl e \<Rightarrow> Inl e
   | Inr l \<Rightarrow> (case interval_union right of Inl e \<Rightarrow> Inl e | Inr r \<Rightarrow> Inr (sweep l r)))"

section \<open>Points and canonical lists\<close>

definition covered :: "span list \<Rightarrow> rat set" where
  "covered spans = (\<Union>(s, e) \<in> set spans. {s..<e})"

definition canonical :: "span list \<Rightarrow> bool" where
  "canonical spans \<longleftrightarrow> (\<forall>(s, e) \<in> set spans. s < e) \<and> sorted_wrt (\<lambda>p q. snd p < fst q) spans"

definition total_span :: "span list \<Rightarrow> rat" where
  "total_span spans = (\<Sum>(s, e) \<leftarrow> spans. e - s)"

lemma covered_simps [simp]:
  "covered [] = {}" "covered ((s, e) # ps) = {s..<e} \<union> covered ps" "covered (ps @ qs) = covered ps \<union> covered qs"
  by (auto simp: covered_def)

lemma canonical_simps [simp]:
  "canonical []"
  "canonical ((s, e) # ps) \<longleftrightarrow> s < e \<and> (\<forall>p \<in> set ps. e < fst p) \<and> canonical ps"
  by (auto simp: canonical_def)

lemma canonical_append:
  "canonical (ps @ qs) \<longleftrightarrow> canonical ps \<and> canonical qs \<and> (\<forall>p \<in> set ps. \<forall>q \<in> set qs. snd p < fst q)"
  by (auto simp: canonical_def sorted_wrt_append)

lemma total_span_simps [simp]: "total_span [] = 0" "total_span ((s, e) # ps) = e - s + total_span ps"
  by (simp_all add: total_span_def)

lemma covered_from: "\<forall>p \<in> set ps. e < fst p \<Longrightarrow> x \<in> covered ps \<Longrightarrow> e < x"
  by (force simp: covered_def)

lemma covered_filter: "covered (filter (\<lambda>(s, e). s < e) ps) = covered ps"
  by (force simp: covered_def)

lemma covered_sort: "covered (sort ps) = covered ps"
  by (simp add: covered_def)

text \<open>A canonical list is determined by the points it covers.\<close>

lemma covered_tail: "canonical ((s, e) # ps) \<Longrightarrow> x \<in> covered ps \<Longrightarrow> e < x"
  using covered_from [of ps e x] by simp

lemma canonical_head:
  assumes ps: "canonical ((a, b) # ps)" and qs: "canonical ((c, d) # qs)"
    and sub: "\<And>x. x \<in> covered ((a, b) # ps) \<Longrightarrow> x \<in> covered ((c, d) # qs)"
  shows "c \<le> a" and "a = c \<Longrightarrow> b \<le> d"
proof -
  have "a \<in> covered ((a, b) # ps)" using ps by simp
  from sub [OF this] have "a \<in> {c..<d} \<or> a \<in> covered qs" by simp
  then show "c \<le> a"
  proof
    assume "a \<in> covered qs"
    from covered_tail [OF qs this] show ?thesis using qs by simp
  qed simp
  show "b \<le> d" if "a = c"
  proof (rule ccontr)
    assume "\<not> b \<le> d"
    then have "d \<in> covered ((a, b) # ps)" using that qs by simp
    from sub [OF this] have "d \<in> covered qs" by simp
    from covered_tail [OF qs this] show False by simp
  qed
qed

lemma canonical_unique:
  "canonical ps \<Longrightarrow> canonical qs \<Longrightarrow> covered ps = covered qs \<Longrightarrow> ps = qs"
proof (induction ps arbitrary: qs)
  case Nil
  then show ?case by (cases qs) auto
next
  case (Cons p ps)
  obtain a b where p: "p = (a, b)" by (cases p)
  have "a \<in> covered qs" using Cons.prems(1,3) p by auto
  then obtain c d qs' where qs: "qs = (c, d) # qs'" by (cases qs) (auto simp: covered_def)
  have c1: "canonical ((a, b) # ps)" and c2: "canonical ((c, d) # qs')"
    and cov: "covered ((a, b) # ps) = covered ((c, d) # qs')" using Cons.prems p qs by simp_all
  have sub: "x \<in> covered ((a, b) # ps) \<Longrightarrow> x \<in> covered ((c, d) # qs')"
    "x \<in> covered ((c, d) # qs') \<Longrightarrow> x \<in> covered ((a, b) # ps)" for x using cov by (simp_all only:)
  have "c \<le> a" by (rule canonical_head(1) [OF c1 c2]) (rule sub(1))
  moreover have "a \<le> c" by (rule canonical_head(1) [OF c2 c1]) (rule sub(2))
  ultimately have eq: "c = a" by simp
  have "b \<le> d" by (rule canonical_head(2) [OF c1 c2]) (rule sub(1), assumption, simp add: eq)
  moreover have "d \<le> b" by (rule canonical_head(2) [OF c2 c1]) (rule sub(2), assumption, simp add: eq)
  ultimately have eq: "c = a" "d = b" using eq by simp_all
  have "{a..<b} \<inter> covered ps = {}" "{a..<b} \<inter> covered qs' = {}"
    using covered_tail [OF c1] covered_tail [OF c2] eq by force+
  moreover have "{a..<b} \<union> covered ps = {a..<b} \<union> covered qs'" using cov eq by simp
  ultimately have "covered ps = covered qs'" by blast
  then show ?case using Cons.IH [of qs'] Cons.prems(1,2) p qs eq by simp
qed

section \<open>The union\<close>

lemma merge_span_keeps:
  assumes "canonical acc" and "\<forall>p \<in> set acc. fst p \<le> s" and "s < e"
  shows "canonical (merge_span (s, e) acc) \<and> covered (merge_span (s, e) acc) = covered acc \<union> {s..<e} \<and>
    (\<forall>p \<in> set (merge_span (s, e) acc). fst p \<le> s)"
proof (cases acc rule: rev_cases)
  case Nil
  then show ?thesis using assms(3) by (simp add: merge_span_def)
next
  case (snoc ys y)
  obtain a b where y: "y = (a, b)" by (cases y)
  have ab: "a < b" "a \<le> s" using assms snoc y by (auto simp: canonical_def)
  show ?thesis
  proof (cases "s \<le> b")
    case True
    then have m: "merge_span (s, e) acc = ys @ [(a, max b e)]" by (simp add: merge_span_def snoc y)
    have "{a..<b} \<union> {s..<e} = {a..<max b e}" using True ab by auto
    then show ?thesis using assms snoc y ab unfolding m
      by (auto simp: canonical_append)
  next
    case False
    then have m: "merge_span (s, e) acc = acc @ [(s, e)]" by (simp add: merge_span_def snoc y)
    have "snd p < s" if "p \<in> set acc" for p
    proof -
      have "p = y \<or> snd p < a" using that assms(1) snoc y by (auto simp: canonical_append)
      then have "snd p \<le> b" using y ab by auto
      then show ?thesis using False by simp
    qed
    then show ?thesis using assms unfolding m by (auto simp: canonical_append)
  qed
qed

lemma merge_fold:
  "sorted ivs \<Longrightarrow> \<forall>(s, e) \<in> set ivs. s < e \<Longrightarrow> canonical acc \<Longrightarrow> \<forall>p \<in> set acc. \<forall>q \<in> set ivs. fst p \<le> fst q \<Longrightarrow>
    canonical (fold merge_span ivs acc) \<and> covered (fold merge_span ivs acc) = covered acc \<union> covered ivs"
proof (induction ivs arbitrary: acc)
  case (Cons iv ivs)
  obtain s e where iv: "iv = (s, e)" by (cases iv)
  have m: "canonical (merge_span (s, e) acc)" "covered (merge_span (s, e) acc) = covered acc \<union> {s..<e}"
    "\<forall>p \<in> set (merge_span (s, e) acc). fst p \<le> s"
    using merge_span_keeps [of acc s e] Cons.prems iv by auto
  have "\<forall>q \<in> set ivs. s \<le> fst q" using Cons.prems(1) iv by (auto simp: less_eq_prod_def)
  then have "\<forall>p \<in> set (merge_span (s, e) acc). \<forall>q \<in> set ivs. fst p \<le> fst q" using m(3) by force
  from Cons.IH [OF _ _ m(1) this] m(2) Cons.prems(1,2) iv show ?case by auto
qed simp

lemma merge_spans_spec: "canonical (merge_spans spans) \<and> covered (merge_spans spans) = covered spans"
proof -
  let ?f = "sort (filter (\<lambda>(s, e). s < e) spans)"
  have "canonical (fold merge_span ?f []) \<and> covered (fold merge_span ?f []) = covered [] \<union> covered ?f"
    by (rule merge_fold) auto
  then show ?thesis by (simp add: merge_spans_def covered_sort covered_filter)
qed

lemma merge_spans_canonical: "canonical spans \<Longrightarrow> merge_spans spans = spans"
  using merge_spans_spec canonical_unique by blast

lemma merge_spans_eq_iff: "merge_spans xs = merge_spans ys \<longleftrightarrow> covered xs = covered ys"
  using merge_spans_spec canonical_unique by metis

lemma each_result_map: "each_result f (map g xs) = each_result (\<lambda>x. f (g x)) xs"
  by (induction xs) (auto split: sum.split)

lemma each_result_Inr: "(\<And>x. x \<in> set xs \<Longrightarrow> f x = Inr (g x)) \<Longrightarrow> each_result f xs = Inr (map g xs)"
  by (induction xs) auto

lemma each_result_InlE: "each_result f xs = Inl e \<Longrightarrow> \<exists>x \<in> set xs. f x = Inl e"
  by (induction xs) (auto split: sum.splits)

lemma each_result_Inr_mem: "each_result f xs = Inr ys \<Longrightarrow> x \<in> set xs \<Longrightarrow> \<exists>y \<in> set ys. f x = Inr y"
  by (induction xs arbitrary: ys) (auto split: sum.splits)

definition finite_pair :: "span \<Rightarrow> pyfloat \<times> pyfloat" where
  "finite_pair iv = (Finite (fst iv), Finite (snd iv))"

lemma checked_finite_pair: "fst iv \<le> snd iv \<Longrightarrow> checked_span (finite_pair iv) = Inr iv"
  by (cases iv) (simp add: checked_span_def finite_pair_def)

lemma union_of_finite:
  assumes "\<forall>iv \<in> set spans. fst iv \<le> snd iv"
  shows "interval_union (map finite_pair spans) = Inr (merge_spans spans)"
proof -
  have "each_result checked_span (map finite_pair spans) = Inr (map id spans)"
    unfolding each_result_map by (rule each_result_Inr) (simp add: assms checked_finite_pair)
  then show ?thesis by (simp add: interval_union_def)
qed

section \<open>The intersection\<close>

lemma sweep_starts:
  "p \<in> set (sweep l r) \<Longrightarrow> (\<exists>q \<in> set l. fst q \<le> fst p) \<and> (\<exists>q \<in> set r. fst q \<le> fst p)"
  by (induction l r rule: sweep.induct) (auto split: if_splits)

lemma sweep_canonical: "canonical l \<Longrightarrow> canonical r \<Longrightarrow> canonical (sweep l r)"
proof (induction l r rule: sweep.induct)
  case (1 a b l c d r)
  let ?rest = "if b < d then sweep l ((c, d) # r) else sweep ((a, b) # l) r"
  have rest: "canonical ?rest" using 1 by auto
  have "min b d < fst p" if "p \<in> set ?rest" for p
  proof (cases "b < d")
    case True
    then obtain q where "q \<in> set l" "fst q \<le> fst p" using \<open>p \<in> set ?rest\<close> sweep_starts [of p l "(c, d) # r"] by auto
    then show ?thesis using 1(3) True by fastforce
  next
    case False
    then obtain q where "q \<in> set r" "fst q \<le> fst p" using \<open>p \<in> set ?rest\<close> sweep_starts [of p "(a, b) # l" r] by auto
    then show ?thesis using 1(4) False by fastforce
  qed
  then show ?case using rest by (auto simp: canonical_append)
qed auto

lemma sweep_covered: "canonical l \<Longrightarrow> canonical r \<Longrightarrow> covered (sweep l r) = covered l \<inter> covered r"
proof (induction l r rule: sweep.induct)
  case (1 a b l c d r)
  have l: "\<forall>x \<in> covered l. b < x" and r: "\<forall>x \<in> covered r. d < x"
    using 1(3,4) covered_from [of l b] covered_from [of r d] by auto
  have "covered (if max a c < min b d then [(max a c, min b d)] else []) = {a..<b} \<inter> {c..<d}" by auto
  moreover have "covered (if b < d then sweep l ((c, d) # r) else sweep ((a, b) # l) r) =
      (if b < d then covered l \<inter> covered ((c, d) # r) else covered ((a, b) # l) \<inter> covered r)"
    using 1 by auto
  moreover have "covered l \<inter> {c..<d} = {}" if "\<not> b < d" using that l by force
  moreover have "{a..<b} \<inter> covered r = {}" if "b < d" using that r by force
  ultimately show ?case by (cases "b < d") (simp_all add: Int_Un_distrib Int_Un_distrib2 Un_assoc Int_commute)
qed auto

lemma sweep_self: "canonical l \<Longrightarrow> canonical r \<Longrightarrow> covered l \<subseteq> covered r \<Longrightarrow> sweep l r = l"
  by (rule canonical_unique) (auto simp: sweep_canonical sweep_covered)

section \<open>Lengths\<close>

lemma total_span_bounded:
  "canonical ps \<Longrightarrow> covered ps \<subseteq> {lo..<hi} \<Longrightarrow> lo \<le> hi \<Longrightarrow> 0 \<le> total_span ps \<and> total_span ps \<le> hi - lo"
proof (induction ps arbitrary: lo)
  case (Cons p ps)
  obtain a b where p: "p = (a, b)" by (cases p)
  have ab: "a < b" "canonical ps" using Cons.prems(1) p by auto
  then have "{a..<b} \<subseteq> {lo..<hi}" using Cons.prems(2) p by auto
  then have in_range: "lo \<le> a" "b \<le> hi" using ab(1) by (auto simp: ivl_subset)
  have "covered ps \<subseteq> {b..<hi}"
    using covered_tail [of a b ps] Cons.prems(1,2) p by fastforce
  then have "0 \<le> total_span ps \<and> total_span ps \<le> hi - b" using Cons.IH [OF ab(2)] in_range by simp
  then show ?case using p ab in_range by simp
qed simp

section \<open>Properties\<close>

text \<open>
  \<open>interval_union\<close> computes a canonical form: two lists of valid intervals have the same
  union exactly when they cover the same points, and the union is sorted, without empty,
  overlapping or touching intervals. It raises exactly when an endpoint is not finite or
  an interval ends before it starts.
\<close>

definition valid_interval :: "pyfloat \<times> pyfloat \<Rightarrow> bool" where
  "valid_interval iv \<longleftrightarrow> (\<exists>s e. iv = (Finite s, Finite e) \<and> s \<le> e)"

fun span_of :: "pyfloat \<times> pyfloat \<Rightarrow> span" where
  "span_of (Finite s, Finite e) = (s, e)"
| "span_of _ = (0, 0)"

definition points :: "(pyfloat \<times> pyfloat) list \<Rightarrow> rat set" where
  "points ivs = covered (map span_of ivs)"

lemma checked_span_cases:
  "checked_span iv = (if valid_interval iv then Inr (span_of iv)
     else Inl (ValueError ''invalid interval''))"
  by (auto simp: checked_span_def valid_interval_def split: prod.splits pyfloat.splits)

lemma union_valid:
  assumes "\<forall>iv \<in> set ivs. valid_interval iv"
  shows "\<exists>spans. interval_union ivs = Inr (merge_spans spans) \<and> covered spans = points ivs"
proof -
  have "each_result checked_span ivs = Inr (map span_of ivs)"
    using assms by (intro each_result_Inr) (simp add: checked_span_cases)
  then show ?thesis by (auto simp: interval_union_def points_def)
qed

lemma union_invalid:
  assumes "\<not> (\<forall>iv \<in> set ivs. valid_interval iv)"
  shows "interval_union ivs = Inl (ValueError ''invalid interval'')"
proof (cases "each_result checked_span ivs")
  case (Inl e)
  then obtain iv where "checked_span iv = Inl e" using each_result_InlE by blast
  then show ?thesis using Inl by (simp add: interval_union_def checked_span_cases split: if_splits)
next
  case (Inr spans)
  then have "valid_interval iv" if "iv \<in> set ivs" for iv
    using each_result_Inr_mem [OF Inr that] by (auto simp: checked_span_cases split: if_splits)
  then show ?thesis using assms by blast
qed

lemma union_cases:
  obtains (valid) us where "\<forall>iv \<in> set ivs. valid_interval iv" and "interval_union ivs = Inr us"
    and "canonical us" and "covered us = points ivs"
  | (invalid) "\<not> (\<forall>iv \<in> set ivs. valid_interval iv)" and "interval_union ivs = Inl (ValueError ''invalid interval'')"
proof (cases "\<forall>iv \<in> set ivs. valid_interval iv")
  case True
  from union_valid [OF this] obtain spans where "interval_union ivs = Inr (merge_spans spans)"
    "covered spans = points ivs" by blast
  with merge_spans_spec [of spans] True show ?thesis using valid by metis
next
  case False
  from invalid [OF this union_invalid [OF this]] show ?thesis .
qed

text \<open>
  C28. \<open>interval_union\<close> is a canonical form: lists of valid intervals have the same union
  exactly when they cover the same points of time.
\<close>

theorem union_is_canonical_form:
  assumes "\<forall>iv \<in> set xs \<union> set ys. valid_interval iv"
  shows "interval_union xs = interval_union ys \<longleftrightarrow> points xs = points ys"
proof -
  obtain us where us: "interval_union xs = Inr us" "canonical us" "covered us = points xs"
    using assms by (cases xs rule: union_cases) auto
  obtain vs where vs: "interval_union ys = Inr vs" "canonical vs" "covered vs = points ys"
    using assms by (cases ys rule: union_cases) auto
  show ?thesis using us vs canonical_unique [OF us(2) vs(2)] by auto
qed

text \<open>
  The intersection covers exactly the points that both lists cover, as a canonical
  list; it raises exactly when an interval of either list is invalid.
\<close>

theorem intersection_covers_common_points:
  "(\<exists>zs. interval_intersection xs ys = Inr zs \<and> canonical zs \<and> covered zs = points xs \<inter> points ys) \<or>
   (interval_intersection xs ys = Inl (ValueError ''invalid interval'') \<and>
    (\<exists>iv \<in> set xs \<union> set ys. \<not> valid_interval iv))"
proof (cases xs rule: union_cases)
  case (valid us)
  note us = this
  show ?thesis
  proof (cases ys rule: union_cases)
    case (valid vs)
    then show ?thesis using us by (auto simp: interval_intersection_def sweep_canonical sweep_covered)
  next
    case invalid
    then show ?thesis using us by (auto simp: interval_intersection_def)
  qed
next
  case invalid
  then show ?thesis by (auto simp: interval_intersection_def)
qed

theorem union_is_canonical_form_witness:
  "interval_union [(Finite 2, Finite 3), (Finite 0, Finite 2)] = interval_union [(Finite 0, Finite 3)]"
proof -
  have "points [(Finite 2, Finite 3), (Finite 0, Finite 2)] = points [(Finite 0, Finite 3)]"
    by (auto simp: points_def)
  then show ?thesis using union_is_canonical_form [of "[(Finite 2, Finite 3), (Finite 0, Finite 2)]" "[(Finite 0, Finite 3)]"]
    by (simp add: valid_interval_def)
qed

end
