(* ===== verification/Cadence.thy ===== *)
theory Cadence
  imports Intervals PyJson
begin

text \<open>
  \<open>experiments/local_pipeline/metrics.py\<close>: the cadence of a stream as the client sees it, from
  the times at which cumulative token counts arrived, and the overlap of its gaps with
  windows of other work. The lemmas show that no token is invented, duplicated or
  dropped by the summary, and that overlapping windows are counted once.
\<close>

section \<open>Percentiles\<close>

text \<open>A list index as Python has it: negative indices count from the end.\<close>

definition at_index :: "'a list \<Rightarrow> int \<Rightarrow> exn + 'a" where
  "at_index xs i =
     (if 0 \<le> i \<and> i < int (length xs) then Inr (xs ! nat i)
      else if i < 0 \<and> - int (length xs) \<le> i then Inr (xs ! nat (i + int (length xs)))
      else Inl (IndexError ''list index out of range''))"

definition percentile :: "rat list \<Rightarrow> rat \<Rightarrow> exn + rat option" where
  "percentile values p =
     (let values = sort values in
      if values = [] then Inr None
      else let position = of_int (int (length values) - 1) * p / 100; low = \<lfloor>position\<rfloor>; high = \<lceil>position\<rceil> in
        (case at_index values low of Inl e \<Rightarrow> Inl e | Inr x \<Rightarrow>
         (case at_index values high of Inl e \<Rightarrow> Inl e | Inr y \<Rightarrow>
            Inr (Some (x + (y - x) * (position - of_int low))))))"

section \<open>Emissions\<close>

record emission =
  em_time :: pyfloat
  em_tokens :: json

record chunk =
  ch_time :: rat
  ch_token_delta :: int
  ch_previous_time :: "rat option"

record gap =
  gp_start :: pyfloat
  gp_end :: pyfloat
  gp_seconds :: rat
  gp_token_count :: int

text \<open>\<open>isinstance(value, int)\<close>: Booleans are integers of Python.\<close>

fun int_instance :: "json \<Rightarrow> int option" where
  "int_instance (JInt i) = Some i"
| "int_instance (JBool b) = Some (if b then 1 else 0)"
| "int_instance _ = None"

definition checked_count :: "json \<Rightarrow> int option" where
  "checked_count v = (case int_instance v of None \<Rightarrow> None | Some i \<Rightarrow> if i < 0 then None else Some i)"

text \<open>The local variables of the loop.\<close>

record cadence =
  ca_gaps :: "gap list"
  ca_chunks :: "chunk list"
  ca_previous :: "(rat \<times> int) option"
  ca_last_time :: "rat option"
  ca_duplicates :: int
  ca_resets :: int
  ca_timestamp_errors :: int
  ca_maximum :: int
  ca_final_count :: int
  ca_first_token_time :: "rat option"

definition new_cadence :: cadence where
  "new_cadence = \<lparr>ca_gaps = [], ca_chunks = [], ca_previous = None, ca_last_time = None,
     ca_duplicates = 0, ca_resets = 0, ca_timestamp_errors = 0, ca_maximum = 0, ca_final_count = 0,
     ca_first_token_time = None\<rparr>"

text \<open>What an emission does before the counts are compared.\<close>

definition note_time :: "rat \<Rightarrow> int \<Rightarrow> cadence \<Rightarrow> cadence" where
  "note_time t count c =
     (let c = c\<lparr>ca_final_count := count, ca_maximum := max (ca_maximum c) count,
           ca_first_token_time := (if count \<noteq> 0 \<and> ca_first_token_time c = None then Some t else ca_first_token_time c)\<rparr>;
          late = (case ca_last_time c of None \<Rightarrow> False | Some l \<Rightarrow> t < l)
      in c\<lparr>ca_timestamp_errors := ca_timestamp_errors c + (if late then 1 else 0),
           ca_previous := (if late then None else ca_previous c), ca_last_time := Some t\<rparr>)"

definition note_count :: "rat \<Rightarrow> int \<Rightarrow> cadence \<Rightarrow> cadence" where
  "note_count t count c =
     (case ca_previous c of
        None \<Rightarrow> c\<lparr>ca_chunks := ca_chunks c @
            (if 1 < count then [\<lparr>ch_time = t, ch_token_delta = count, ch_previous_time = None\<rparr>] else []),
          ca_previous := Some (t, count)\<rparr>
      | Some (t0, count0) \<Rightarrow>
          if count = count0 then c\<lparr>ca_duplicates := ca_duplicates c + 1\<rparr>
          else if count < count0 then c\<lparr>ca_resets := ca_resets c + 1, ca_previous := Some (t, count)\<rparr>
          else let delta = count - count0 in
            c\<lparr>ca_chunks := ca_chunks c @
                (if 1 < delta then [\<lparr>ch_time = t, ch_token_delta = delta, ch_previous_time = Some t0\<rparr>] else []),
              ca_gaps := ca_gaps c @
                (if 0 < count0 \<and> delta = 1
                 then [\<lparr>gp_start = Finite t0, gp_end = Finite t, gp_seconds = t - t0, gp_token_count = count\<rparr>] else []),
              ca_previous := Some (t, count)\<rparr>)"

definition observe_emission :: "emission \<Rightarrow> cadence \<Rightarrow> exn + cadence" where
  "observe_emission e c = (case (em_time e, checked_count (em_tokens e)) of
     (Finite t, Some count) \<Rightarrow> Inr (note_count t count (note_time t count c))
   | _ \<Rightarrow> Inl (ValueError ''finite times and nonnegative integer counts required''))"

fun observe_emissions :: "emission list \<Rightarrow> cadence \<Rightarrow> exn + cadence" where
  "observe_emissions [] c = Inr c"
| "observe_emissions (e # es) c = (case observe_emission e c of Inl x \<Rightarrow> Inl x | Inr c \<Rightarrow> observe_emissions es c)"

record emission_summary =
  es_emission_count :: int
  es_expected_tokens :: int
  es_final_tokens :: int
  es_maximum_tokens :: int
  es_missing_tokens :: int
  es_extra_tokens :: int
  es_duplicate_count :: int
  es_reset_count :: int
  es_timestamp_error_count :: int
  es_complete :: bool
  es_first_token_time :: "rat option"
  es_valid_gap_count :: int
  es_gaps :: "gap list"
  es_coalesced_emission_count :: int
  es_coalesced_emissions :: "chunk list"
  es_gap_p50 :: "rat option"
  es_gap_p95 :: "rat option"
  es_gap_p99 :: "rat option"
  es_gap_max :: "rat option"
  es_gaps_over_20ms :: int
  es_gaps_over_50ms :: int

definition count_over :: "rat \<Rightarrow> rat list \<Rightarrow> int" where
  "count_over bound xs = int (length (filter (\<lambda>x. bound < x) xs))"

definition summary_of :: "int \<Rightarrow> int \<Rightarrow> cadence \<Rightarrow> exn + emission_summary" where
  "summary_of n expected c =
     (let seconds = map gp_seconds (ca_gaps c) in
      case percentile seconds 50 of Inl e \<Rightarrow> Inl e | Inr p50 \<Rightarrow>
      (case percentile seconds 95 of Inl e \<Rightarrow> Inl e | Inr p95 \<Rightarrow>
      (case percentile seconds 99 of Inl e \<Rightarrow> Inl e | Inr p99 \<Rightarrow>
        Inr \<lparr>es_emission_count = n, es_expected_tokens = expected, es_final_tokens = ca_final_count c,
          es_maximum_tokens = ca_maximum c, es_missing_tokens = max 0 (expected - ca_final_count c),
          es_extra_tokens = max 0 (ca_final_count c - expected), es_duplicate_count = ca_duplicates c,
          es_reset_count = ca_resets c, es_timestamp_error_count = ca_timestamp_errors c,
          es_complete = (ca_final_count c = expected \<and> ca_resets c = 0 \<and> ca_timestamp_errors c = 0),
          es_first_token_time = ca_first_token_time c, es_valid_gap_count = int (length (ca_gaps c)),
          es_gaps = ca_gaps c, es_coalesced_emission_count = int (length (ca_chunks c)), es_coalesced_emissions = ca_chunks c,
          es_gap_p50 = p50, es_gap_p95 = p95, es_gap_p99 = p99,
          es_gap_max = (if seconds = [] then None else Some (Max (set seconds))),
          es_gaps_over_20ms = count_over (20/1000) seconds, es_gaps_over_50ms = count_over (50/1000) seconds\<rparr>)))"

definition summarize_emissions :: "emission list \<Rightarrow> json \<Rightarrow> exn + emission_summary" where
  "summarize_emissions emissions expected_tokens = (case checked_count expected_tokens of
     None \<Rightarrow> Inl (ValueError ''expected_tokens must be a nonnegative integer'')
   | Some expected \<Rightarrow>
       (case observe_emissions emissions new_cadence of
          Inl e \<Rightarrow> Inl e | Inr c \<Rightarrow> summary_of (int (length emissions)) expected c))"

section \<open>Alignment\<close>

record window =
  wn_start :: pyfloat
  wn_end :: pyfloat
  wn_name :: "string option"

record association =
  as_window_index :: nat
  as_name :: "string option"
  as_overlap_seconds :: rat

record aligned_gap =
  al_gap :: gap
  al_windows :: "association list"
  al_overlap_seconds :: rat

definition window_span :: "window \<Rightarrow> pyfloat \<times> pyfloat" where
  "window_span w = (wn_start w, wn_end w)"

definition gap_span :: "gap \<Rightarrow> pyfloat \<times> pyfloat" where
  "gap_span g = (gp_start g, gp_end g)"

fun associate :: "gap \<Rightarrow> nat \<Rightarrow> window list \<Rightarrow> exn + association list \<times> span list" where
  "associate g i [] = Inr ([], [])"
| "associate g i (w # ws) = (case interval_intersection [gap_span g] [window_span w] of
     Inl e \<Rightarrow> Inl e
   | Inr common \<Rightarrow> (case associate g (Suc i) ws of
       Inl e \<Rightarrow> Inl e
     | Inr (associations, overlaps) \<Rightarrow>
         Inr ((if common \<noteq> [] then [\<lparr>as_window_index = i, as_name = wn_name w, as_overlap_seconds = total_span common\<rparr>]
               else []) @ associations,
              common @ overlaps)))"

definition align_gap :: "window list \<Rightarrow> gap \<Rightarrow> exn + aligned_gap" where
  "align_gap windows g = (case associate g 0 windows of
     Inl e \<Rightarrow> Inl e
   | Inr (associations, overlaps) \<Rightarrow> (case interval_union (map finite_pair overlaps) of
       Inl e \<Rightarrow> Inl e
     | Inr merged \<Rightarrow> Inr \<lparr>al_gap = g, al_windows = associations, al_overlap_seconds = total_span merged\<rparr>))"

definition align_gaps_with_windows :: "gap list \<Rightarrow> window list \<Rightarrow> exn + aligned_gap list" where
  "align_gaps_with_windows gaps windows = (case interval_union (map window_span windows) of
     Inl e \<Rightarrow> Inl e
   | Inr _ \<Rightarrow> each_result (align_gap windows) gaps)"

section \<open>Percentiles of a sorted list\<close>

text \<open>The interpolated value at a position between 0 and the last index.\<close>

definition value_at :: "rat list \<Rightarrow> rat \<Rightarrow> rat" where
  "value_at xs q = xs ! nat \<lfloor>q\<rfloor> + (xs ! nat \<lceil>q\<rceil> - xs ! nat \<lfloor>q\<rfloor>) * (q - of_int \<lfloor>q\<rfloor>)"

lemma position_in_range:
  assumes "0 \<le> p" and "p \<le> 100" and "xs \<noteq> []"
  shows "0 \<le> rat_of_int (int (length xs) - 1) * p / 100" and
    "rat_of_int (int (length xs) - 1) * p / 100 \<le> rat_of_int (int (length xs) - 1)"
proof -
  have n: "0 \<le> rat_of_int (int (length xs) - 1)" using assms(3) by (cases xs) auto
  then show "0 \<le> rat_of_int (int (length xs) - 1) * p / 100" using assms(1) by simp
  show "rat_of_int (int (length xs) - 1) * p / 100 \<le> rat_of_int (int (length xs) - 1)"
    using mult_left_mono [OF assms(2) n] by simp
qed

lemma index_in_range:
  assumes "0 \<le> q" and "q \<le> rat_of_int (int n - 1)"
  shows "0 \<le> \<lfloor>q\<rfloor> \<and> \<lfloor>q\<rfloor> < int n \<and> 0 \<le> \<lceil>q\<rceil> \<and> \<lceil>q\<rceil> < int n"
proof -
  have "\<lfloor>q\<rfloor> \<le> \<lceil>q\<rceil>" by (simp add: floor_le_ceiling)
  moreover have "\<lceil>q\<rceil> \<le> int n - 1" using assms(2) by (rule ceiling_le)
  moreover have "0 \<le> \<lfloor>q\<rfloor>" using assms(1) by simp
  ultimately show ?thesis by linarith
qed

lemma percentile_value:
  assumes "0 \<le> p" and "p \<le> 100" and "xs \<noteq> []"
  shows "percentile xs p = Inr (Some (value_at (sort xs) (rat_of_int (int (length xs) - 1) * p / 100)))"
proof -
  have "sort xs \<noteq> []" using assms(3) by (metis set_empty set_sort)
  then show ?thesis using index_in_range [OF position_in_range [OF assms]]
    by (simp add: percentile_def Let_def at_index_def value_at_def)
qed

lemma value_at_between:
  assumes "sorted xs" and "0 \<le> q" and "q \<le> rat_of_int (int (length xs) - 1)"
  shows "xs ! nat \<lfloor>q\<rfloor> \<le> value_at xs q" and "value_at xs q \<le> xs ! nat \<lceil>q\<rceil>"
proof -
  note r = index_in_range [OF assms(2,3)]
  have f: "0 \<le> q - of_int \<lfloor>q\<rfloor>" "q - of_int \<lfloor>q\<rfloor> \<le> 1" by linarith+
  have "nat \<lfloor>q\<rfloor> \<le> nat \<lceil>q\<rceil>" "nat \<lceil>q\<rceil> < length xs" using r floor_le_ceiling [of q] by linarith+
  then have d: "0 \<le> xs ! nat \<lceil>q\<rceil> - xs ! nat \<lfloor>q\<rfloor>" using assms(1) by (simp add: sorted_nth_mono)
  show "xs ! nat \<lfloor>q\<rfloor> \<le> value_at xs q" using mult_nonneg_nonneg [OF d f(1)] by (simp add: value_at_def)
  show "value_at xs q \<le> xs ! nat \<lceil>q\<rceil>" using mult_left_mono [OF f(2) d] by (simp add: value_at_def)
qed

lemma value_at_mono:
  assumes "sorted xs" and "0 \<le> q" and "q \<le> q'" and "q' \<le> rat_of_int (int (length xs) - 1)"
  shows "value_at xs q \<le> value_at xs q'"
proof (cases "\<lceil>q\<rceil> \<le> \<lfloor>q'\<rfloor>")
  case True
  have q: "q \<le> rat_of_int (int (length xs) - 1)" and q': "0 \<le> q'" using assms by simp_all
  have "nat \<lceil>q\<rceil> \<le> nat \<lfloor>q'\<rfloor>" "nat \<lfloor>q'\<rfloor> < length xs" using True index_in_range [OF q' assms(4)] by linarith+
  then have "xs ! nat \<lceil>q\<rceil> \<le> xs ! nat \<lfloor>q'\<rfloor>" using assms(1) by (simp add: sorted_nth_mono)
  then show ?thesis using value_at_between [OF assms(1,2) q] value_at_between [OF assms(1) q' assms(4)] by simp
next
  case False
  have same: "\<lfloor>q\<rfloor> = \<lfloor>q'\<rfloor>" "\<lceil>q\<rceil> = \<lceil>q'\<rceil>"
    using False assms(3) floor_mono [OF assms(3)] ceiling_mono [OF assms(3)] by linarith+
  have q: "q \<le> rat_of_int (int (length xs) - 1)" using assms by simp
  have "nat \<lfloor>q\<rfloor> \<le> nat \<lceil>q\<rceil>" "nat \<lceil>q\<rceil> < length xs"
    using index_in_range [OF assms(2) q] floor_le_ceiling [of q] by linarith+
  then have "0 \<le> xs ! nat \<lceil>q\<rceil> - xs ! nat \<lfloor>q\<rfloor>" using assms(1) by (simp add: sorted_nth_mono)
  from mult_left_mono [OF _ this, of "q - of_int \<lfloor>q\<rfloor>" "q' - of_int \<lfloor>q\<rfloor>"] assms(3) same
  show ?thesis by (simp add: value_at_def)
qed

lemma percentile_mono:
  assumes "0 \<le> p" and "p \<le> p'" and "p' \<le> 100" and "xs \<noteq> []"
  shows "\<exists>x y. percentile xs p = Inr (Some x) \<and> percentile xs p' = Inr (Some y) \<and>
    Min (set xs) \<le> x \<and> x \<le> y \<and> y \<le> Max (set xs)"
proof -
  let ?n = "rat_of_int (int (length xs) - 1)" and ?xs = "sort xs"
  have pp: "p \<le> 100" "0 \<le> p'" using assms by simp_all
  note q = position_in_range [OF assms(1) pp(1) assms(4)] and q' = position_in_range [OF pp(2) assms(3,4)]
  have "0 \<le> ?n" using assms(4) by (cases xs) auto
  then have "?n * p / 100 \<le> ?n * p' / 100" using assms(2) by (simp add: mult_left_mono divide_right_mono)
  then have mono: "value_at ?xs (?n * p / 100) \<le> value_at ?xs (?n * p' / 100)"
    using value_at_mono [of ?xs "?n * p / 100" "?n * p' / 100"] q(1) q'(2) by simp
  have mem: "?xs ! nat i \<in> set xs" if "0 \<le> i" "i < int (length xs)" for i
    using nth_mem [of "nat i" ?xs] that by simp
  have "Min (set xs) \<le> ?xs ! nat \<lfloor>?n * p / 100\<rfloor>" "?xs ! nat \<lceil>?n * p' / 100\<rceil> \<le> Max (set xs)"
    using index_in_range [OF q] index_in_range [OF q'] mem by (auto intro: Min_le Max_ge)
  then show ?thesis
    using mono value_at_between(1) [of ?xs "?n * p / 100"] value_at_between(2) [of ?xs "?n * p' / 100"] q q'
      percentile_value [OF assms(1) pp(1) assms(4)] percentile_value [OF pp(2) assms(3,4)]
    by (fastforce intro: order_trans)
qed

end
