(* ===== verification/CadenceProps.thy ===== *)
theory CadenceProps
  imports Cadence
begin

text \<open>
  What a summary of emissions guarantees: its gaps lie between two observed emissions one
  token apart, its chunks and gaps account for the tokens of a complete stream, its
  percentiles are ordered, and an aligned gap counts overlapping windows once.
\<close>

section \<open>The loop over the emissions\<close>

definition observed_at :: "emission list \<Rightarrow> rat \<Rightarrow> int \<Rightarrow> bool" where
  "observed_at es t n \<longleftrightarrow> (\<exists>e \<in> set es. em_time e = Finite t \<and> checked_count (em_tokens e) = Some n)"

definition gap_observed :: "emission list \<Rightarrow> gap \<Rightarrow> bool" where
  "gap_observed es g \<longleftrightarrow> (\<exists>t0 t. gp_start g = Finite t0 \<and> gp_end g = Finite t \<and> gp_seconds g = t - t0 \<and> t0 \<le> t \<and>
     2 \<le> gp_token_count g \<and> observed_at es t0 (gp_token_count g - 1) \<and> observed_at es t (gp_token_count g))"

definition accounted :: "cadence \<Rightarrow> int" where
  "accounted c = (\<Sum>ch \<leftarrow> ca_chunks c. ch_token_delta ch) + int (length (ca_gaps c))"

text \<open>While there was neither a reset nor a late time, every token but the first is accounted for.\<close>

definition undisturbed_ok :: "cadence \<Rightarrow> bool" where
  "undisturbed_ok c \<longleftrightarrow> ca_maximum c = ca_final_count c \<and> 0 \<le> accounted c \<and>
     accounted c \<le> ca_final_count c \<and> ca_final_count c \<le> accounted c + 1 \<and>
     sorted_wrt (<) (map gp_token_count (ca_gaps c)) \<and> (\<forall>g \<in> set (ca_gaps c). gp_token_count g \<le> ca_final_count c) \<and>
     (ca_previous c = None \<longrightarrow> ca_final_count c = 0 \<and> ca_gaps c = [])"

definition cadence_ok :: "emission list \<Rightarrow> cadence \<Rightarrow> bool" where
  "cadence_ok es c \<longleftrightarrow> (\<forall>g \<in> set (ca_gaps c). gap_observed es g) \<and>
     (\<forall>t n. ca_previous c = Some (t, n) \<longrightarrow> observed_at es t n \<and> n = ca_final_count c \<and> 0 \<le> n \<and>
        (\<exists>l. ca_last_time c = Some l \<and> t \<le> l)) \<and>
     0 \<le> ca_resets c \<and> 0 \<le> ca_timestamp_errors c \<and>
     (ca_resets c = 0 \<and> ca_timestamp_errors c = 0 \<longrightarrow> undisturbed_ok c)"

lemma observed_at_mono: "observed_at es t n \<Longrightarrow> set es \<subseteq> set es' \<Longrightarrow> observed_at es' t n"
  by (auto simp: observed_at_def)

lemma gap_observed_mono: "gap_observed es g \<Longrightarrow> set es \<subseteq> set es' \<Longrightarrow> gap_observed es' g"
  unfolding gap_observed_def by (meson observed_at_mono)

lemma cadence_ok_new: "cadence_ok [] new_cadence"
  by (simp add: cadence_ok_def new_cadence_def undisturbed_ok_def accounted_def)

lemma checked_count_nonneg: "checked_count v = Some n \<Longrightarrow> 0 \<le> n"
  by (auto simp: checked_count_def split: option.splits if_splits)

text \<open>An emission is late, or a duplicate, a reset or a growth of the count.\<close>

lemma observe_emission_cases:
  assumes "observe_emission e c = Inr c'"
  obtains t n where "em_time e = Finite t" and "checked_count (em_tokens e) = Some n"
    and "c' = note_count t n (note_time t n c)"
  using assms by (auto simp: observe_emission_def split: pyfloat.splits option.splits)

lemma note_time_fields [simp]:
  "ca_gaps (note_time t n c) = ca_gaps c" "ca_chunks (note_time t n c) = ca_chunks c"
  "ca_resets (note_time t n c) = ca_resets c" "ca_final_count (note_time t n c) = n"
  "ca_maximum (note_time t n c) = max (ca_maximum c) n" "ca_last_time (note_time t n c) = Some t"
  by (simp_all add: note_time_def Let_def)

lemma note_count_fields [simp]:
  "ca_timestamp_errors (note_count t n c) = ca_timestamp_errors c"
  "ca_final_count (note_count t n c) = ca_final_count c" "ca_maximum (note_count t n c) = ca_maximum c"
  "ca_last_time (note_count t n c) = ca_last_time c"
  by (simp_all add: note_count_def Let_def split: option.split)

lemma note_time_cases:
  obtains (late) "ca_timestamp_errors (note_time t n c) = ca_timestamp_errors c + 1"
    and "ca_previous (note_time t n c) = None"
  | (in_time) "ca_timestamp_errors (note_time t n c) = ca_timestamp_errors c"
    and "ca_previous (note_time t n c) = ca_previous c" and "\<And>l. ca_last_time c = Some l \<Longrightarrow> l \<le> t"
proof (cases "\<exists>l. ca_last_time c = Some l \<and> t < l")
  case True
  then show ?thesis by (intro late) (auto simp: note_time_def Let_def)
next
  case False
  then show ?thesis by (intro in_time) (auto simp: note_time_def Let_def split: option.splits)
qed

lemma note_count_ok:
  assumes gaps: "\<forall>g \<in> set (ca_gaps c). gap_observed es g" and here: "observed_at es t n" "0 \<le> n"
    and last: "ca_last_time c = Some t" "ca_final_count c = n"
    and prev: "\<And>t0 m. ca_previous c = Some (t0, m) \<Longrightarrow> observed_at es t0 m \<and> 0 \<le> m \<and> t0 \<le> t"
  shows "(\<forall>g \<in> set (ca_gaps (note_count t n c)). gap_observed es g) \<and>
    (\<exists>t0. ca_previous (note_count t n c) = Some (t0, n) \<and> observed_at es t0 n \<and> t0 \<le> t)"
proof (cases "ca_previous c")
  case None
  then show ?thesis using assms by (auto simp: note_count_def)
next
  case (Some p)
  obtain t0 m where p: "p = (t0, m)" by (cases p)
  note pm = prev [OF Some [unfolded p]]
  have "gap_observed es \<lparr>gp_start = Finite t0, gp_end = Finite t, gp_seconds = t - t0, gp_token_count = n\<rparr>"
    if "0 < m" "n - m = 1"
  proof -
    have "m = n - 1" "2 \<le> n" using that by auto
    then show ?thesis using pm here by (auto simp: gap_observed_def)
  qed
  then show ?thesis using Some p pm gaps here by (auto simp: note_count_def Let_def)
qed

lemma note_count_undisturbed:
  assumes "ca_resets (note_count t n c) = 0" and "0 \<le> ca_resets c" and "0 \<le> n"
    and final: "ca_final_count c = n" and max: "ca_maximum c = max f n"
    and acc: "0 \<le> accounted c" "accounted c \<le> f" "f \<le> accounted c + 1"
    and gaps: "sorted_wrt (<) (map gp_token_count (ca_gaps c))" "\<forall>g \<in> set (ca_gaps c). gp_token_count g \<le> f"
    and none: "ca_previous c = None \<Longrightarrow> f = 0 \<and> ca_gaps c = []" and some: "\<And>t m. ca_previous c = Some (t, m) \<Longrightarrow> m = f"
  shows "ca_resets c = 0 \<and> undisturbed_ok (note_count t n c)"
proof (cases "ca_previous c")
  case None
  then show ?thesis using assms none by (auto simp: note_count_def undisturbed_ok_def accounted_def)
next
  case (Some p)
  obtain t0 where p: "p = (t0, f)" using some Some by (cases p) auto
  consider "n = f" | "n < f" | "f < n" by linarith
  then show ?thesis
  proof cases
    case 1
    then show ?thesis using assms(1-4) max acc gaps Some p by (auto simp: note_count_def undisturbed_ok_def accounted_def)
  next
    case 2
    then show ?thesis using assms(1,2) Some p by (simp add: note_count_def)
  next
    case 3
    have "\<forall>g \<in> set (ca_gaps c). gp_token_count g < n" using gaps(2) 3 by force
    then show ?thesis using assms(1-4) max acc gaps Some p 3
      by (auto simp: note_count_def Let_def undisturbed_ok_def accounted_def sorted_wrt_append)
  qed
qed

lemma observe_emission_ok:
  assumes ok: "cadence_ok es c" and run: "observe_emission e c = Inr c'"
  shows "cadence_ok (es @ [e]) c'"
proof -
  let ?es = "es @ [e]"
  obtain t n where e: "em_time e = Finite t" "checked_count (em_tokens e) = Some n"
    and c': "c' = note_count t n (note_time t n c)" using run by (rule observe_emission_cases)
  let ?c = "note_time t n c"
  have n: "0 \<le> n" using e(2) by (rule checked_count_nonneg)
  have here: "observed_at ?es t n" using e by (auto simp: observed_at_def)
  have gaps: "\<forall>g \<in> set (ca_gaps ?c). gap_observed ?es g"
    using ok by (auto simp: cadence_ok_def intro: gap_observed_mono)
  have prev: "observed_at ?es t0 m \<and> 0 \<le> m \<and> t0 \<le> t" if "ca_previous ?c = Some (t0, m)" for t0 m
  proof (cases t n c rule: note_time_cases)
    case in_time
    then have "ca_previous c = Some (t0, m)" using that by simp
    then obtain l where "observed_at es t0 m" "0 \<le> m" "ca_last_time c = Some l" "t0 \<le> l"
      using ok by (auto simp: cadence_ok_def)
    then show ?thesis using in_time(3) by (auto intro: observed_at_mono order_trans)
  qed (use that in simp)
  note nc = note_count_ok [OF gaps here n _ _ prev, simplified]
  have resets: "0 \<le> ca_resets c'" using ok unfolding c'
    by (auto simp: cadence_ok_def note_count_def Let_def split: option.split)
  have errors: "0 \<le> ca_timestamp_errors c'"
    using ok unfolding c' by (cases t n c rule: note_time_cases) (auto simp: cadence_ok_def)
  have "undisturbed_ok c'" if "ca_resets c' = 0" "ca_timestamp_errors c' = 0"
  proof (cases t n c rule: note_time_cases)
    case late
    then show ?thesis using that(2) ok by (simp add: c' cadence_ok_def)
  next
    case in_time
    have "ca_timestamp_errors c = 0" using that(2) in_time by (simp add: c')
    moreover have "ca_resets c = 0"
      using that(1) ok by (auto simp: c' cadence_ok_def note_count_def Let_def split: option.splits if_splits)
    ultimately have u: "undisturbed_ok c" using ok by (simp add: cadence_ok_def)
    show ?thesis unfolding c'
    proof (rule conjunct2 [OF note_count_undisturbed])
      show "ca_resets (note_count t n ?c) = 0" "0 \<le> ca_resets ?c" "0 \<le> n" "ca_final_count ?c = n"
        "ca_maximum ?c = max (ca_final_count c) n" "0 \<le> accounted ?c" "accounted ?c \<le> ca_final_count c"
        "ca_final_count c \<le> accounted ?c + 1" "sorted_wrt (<) (map gp_token_count (ca_gaps ?c))"
        "\<forall>g \<in> set (ca_gaps ?c). gp_token_count g \<le> ca_final_count c"
        using that(1) n u ok by (simp_all add: c' undisturbed_ok_def accounted_def cadence_ok_def)
      show "ca_final_count c = 0 \<and> ca_gaps ?c = []" if "ca_previous ?c = None"
        using that in_time u by (simp add: undisturbed_ok_def)
      show "m = ca_final_count c" if "ca_previous ?c = Some (t', m)" for t' m
        using that in_time ok by (simp add: cadence_ok_def)
    qed
  qed
  then show ?thesis using nc resets errors n unfolding cadence_ok_def by (auto simp: c')
qed

lemma observe_emissions_ok:
  "observe_emissions xs c = Inr c' \<Longrightarrow> cadence_ok es c \<Longrightarrow> cadence_ok (es @ xs) c'"
proof (induction xs arbitrary: c es)
  case (Cons x xs)
  then obtain d where d: "observe_emission x c = Inr d" "observe_emissions xs d = Inr c'"
    by (auto split: sum.splits)
  from Cons.IH [OF d(2) observe_emission_ok [OF Cons.prems(2) d(1)]] show ?case by simp
qed simp

section \<open>The summary\<close>

lemma summary_cases:
  assumes "summarize_emissions es v = Inr s"
  obtains c expected where "checked_count v = Some expected" and "observe_emissions es new_cadence = Inr c"
    and "cadence_ok es c" and "summary_of (int (length es)) expected c = Inr s"
proof -
  obtain expected c where "checked_count v = Some expected" "observe_emissions es new_cadence = Inr c"
    "summary_of (int (length es)) expected c = Inr s"
    using assms by (auto simp: summarize_emissions_def split: option.splits sum.splits)
  moreover have "cadence_ok es c" using observe_emissions_ok [OF calculation(2) cadence_ok_new] by simp
  ultimately show ?thesis using that by blast
qed

text \<open>The percentiles never raise, so a summary is made of every valid list of emissions.\<close>

lemma summary_total:
  "\<exists>s. summary_of n expected c = Inr s \<and> es_gaps s = ca_gaps c \<and> es_coalesced_emissions s = ca_chunks c \<and>
    es_final_tokens s = ca_final_count c \<and> es_expected_tokens s = expected \<and> es_maximum_tokens s = ca_maximum c \<and>
    es_missing_tokens s = max 0 (expected - ca_final_count c) \<and> es_extra_tokens s = max 0 (ca_final_count c - expected) \<and>
    es_complete s = (ca_final_count c = expected \<and> ca_resets c = 0 \<and> ca_timestamp_errors c = 0)"
proof -
  have "\<exists>x. percentile (map gp_seconds (ca_gaps c)) p = Inr x" if "0 \<le> p" "p \<le> 100" for p
  proof (cases "map gp_seconds (ca_gaps c) = []")
    case True
    then show ?thesis by (simp add: percentile_def)
  next
    case False
    from percentile_value [OF that False] show ?thesis by blast
  qed
  from this [of 50] this [of 95] this [of 99] show ?thesis by (auto simp: summary_of_def Let_def)
qed

definition emission_valid :: "emission \<Rightarrow> bool" where
  "emission_valid e \<longleftrightarrow> em_time e \<noteq> NotFinite \<and> checked_count (em_tokens e) \<noteq> None"

lemma observe_emissions_raises:
  "(\<exists>x. observe_emissions es c = Inl x) \<longleftrightarrow> \<not> (\<forall>e \<in> set es. emission_valid e)"
proof (induction es arbitrary: c)
  case (Cons e es)
  show ?case
  proof (cases "emission_valid e")
    case True
    then obtain c' where "observe_emission e c = Inr c'"
      by (cases "em_time e") (auto simp: emission_valid_def observe_emission_def)
    then show ?thesis using Cons.IH [of c'] True by simp
  next
    case False
    then have "\<exists>x. observe_emission e c = Inl x"
      by (cases "em_time e") (auto simp: emission_valid_def observe_emission_def)
    then show ?thesis using False by auto
  qed
qed simp

theorem summary_raises_on_invalid_input:
  "(\<exists>x. summarize_emissions es v = Inl x) \<longleftrightarrow> checked_count v = None \<or> \<not> (\<forall>e \<in> set es. emission_valid e)"
proof (cases "checked_count v")
  case (Some expected)
  note raises = observe_emissions_raises [of es new_cadence]
  show ?thesis
  proof (cases "observe_emissions es new_cadence")
    case (Inr c)
    obtain s where "summary_of (int (length es)) expected c = Inr s" using summary_total by blast
    then show ?thesis using raises Some Inr by (simp add: summarize_emissions_def)
  qed (use raises Some in \<open>simp add: summarize_emissions_def\<close>)
qed (simp add: summarize_emissions_def)

text \<open>
  C29. No token is invented: every gap a summary reports lies between two emissions of the
  input whose counts differ by exactly one, and has the nonnegative length of the time
  between them. In a stream reported complete the final count is the expected one and the
  largest, no token has two gaps, and the gaps and chunks account for all tokens
  but at most the first.
\<close>

theorem summary_accounts_for_tokens:
  assumes "summarize_emissions es v = Inr s"
  shows "(\<forall>g \<in> set (es_gaps s). gap_observed es g) \<and>
    (es_complete s \<longrightarrow> es_final_tokens s = es_expected_tokens s \<and> es_maximum_tokens s = es_final_tokens s \<and>
       es_missing_tokens s = 0 \<and> es_extra_tokens s = 0 \<and> sorted_wrt (<) (map gp_token_count (es_gaps s)) \<and>
       es_final_tokens s - ((\<Sum>ch \<leftarrow> es_coalesced_emissions s. ch_token_delta ch) + int (length (es_gaps s))) \<in> {0, 1})"
proof -
  obtain c expected where ok: "cadence_ok es c" and s: "summary_of (int (length es)) expected c = Inr s"
    using assms by (rule summary_cases)
  from s have fields: "es_gaps s = ca_gaps c" "es_coalesced_emissions s = ca_chunks c"
    "es_final_tokens s = ca_final_count c" "es_expected_tokens s = expected" "es_maximum_tokens s = ca_maximum c"
    "es_missing_tokens s = max 0 (expected - ca_final_count c)" "es_extra_tokens s = max 0 (ca_final_count c - expected)"
    "es_complete s = (ca_final_count c = expected \<and> ca_resets c = 0 \<and> ca_timestamp_errors c = 0)"
    using summary_total [of "int (length es)" expected c] by auto
  have gaps: "\<forall>g \<in> set (ca_gaps c). gap_observed es g" using ok by (simp add: cadence_ok_def)
  show ?thesis
  proof (intro conjI impI)
    assume "es_complete s"
    then have c: "ca_final_count c = expected" "undisturbed_ok c" using ok by (simp_all add: fields cadence_ok_def)
    then have "accounted c \<le> ca_final_count c" "ca_final_count c \<le> accounted c + 1" by (simp_all add: undisturbed_ok_def)
    then show "es_final_tokens s - ((\<Sum>ch \<leftarrow> es_coalesced_emissions s. ch_token_delta ch) + int (length (es_gaps s))) \<in> {0, 1}"
      by (auto simp: fields accounted_def)
    show "es_final_tokens s = es_expected_tokens s" "es_maximum_tokens s = es_final_tokens s"
      "es_missing_tokens s = 0" "es_extra_tokens s = 0" "sorted_wrt (<) (map gp_token_count (es_gaps s))"
      using c by (simp_all add: fields undisturbed_ok_def)
  qed (simp add: fields gaps)
qed

text \<open>
  The percentiles of the gaps are ordered and within their range: a summary with gaps
  has the median below the 95th below the 99th percentile, all between the shortest gap
  and the reported longest; one without gaps has none of them.
\<close>

theorem summary_percentiles_are_ordered:
  assumes "summarize_emissions es v = Inr s"
  shows "if es_gaps s = [] then es_gap_p50 s = None \<and> es_gap_p95 s = None \<and> es_gap_p99 s = None \<and> es_gap_max s = None
    else \<exists>p50 p95 p99 m. es_gap_p50 s = Some p50 \<and> es_gap_p95 s = Some p95 \<and> es_gap_p99 s = Some p99 \<and>
      es_gap_max s = Some m \<and> m \<in> gp_seconds ` set (es_gaps s) \<and>
      0 \<le> p50 \<and> p50 \<le> p95 \<and> p95 \<le> p99 \<and> p99 \<le> m"
proof -
  obtain c expected where ok: "cadence_ok es c" and s: "summary_of (int (length es)) expected c = Inr s"
    using assms by (rule summary_cases)
  let ?xs = "map gp_seconds (ca_gaps c)"
  have g: "es_gaps s = ca_gaps c" using summary_total [of "int (length es)" expected c] s by auto
  show ?thesis
  proof (cases "ca_gaps c = []")
    case True
    then have "percentile ?xs p = Inr None" for p by (simp add: percentile_def)
    then show ?thesis using True s g by (auto simp: summary_of_def Let_def)
  next
    case False
    then have ne: "?xs \<noteq> []" by simp
    obtain a b where ab: "percentile ?xs 50 = Inr (Some a)" "percentile ?xs 95 = Inr (Some b)" "Min (set ?xs) \<le> a" "a \<le> b"
      using percentile_mono [of 50 95 ?xs] ne by auto
    obtain d where d: "percentile ?xs 99 = Inr (Some d)" "b \<le> d" "d \<le> Max (set ?xs)"
      using percentile_mono [of 95 99 ?xs] ne ab(2) by auto
    have "0 \<le> x" if "x \<in> set ?xs" for x
      using that ok by (auto simp: cadence_ok_def gap_observed_def)
    then have "0 \<le> Min (set ?xs)" using ne by (simp add: Min_ge_iff)
    then have "0 \<le> a" using ab(3) by simp
    moreover have "Max (set ?xs) \<in> gp_seconds ` set (ca_gaps c)" using Max_in [of "set ?xs"] ne by simp
    ultimately show ?thesis using s g ab d False by (auto simp: summary_of_def Let_def)
  qed
qed

section \<open>Aligned gaps\<close>

lemma points_append: "points (ivs @ jvs) = points ivs \<union> points jvs"
  by (simp add: points_def)

lemmas points_Cons = points_append [of "[iv]" for iv, simplified]

lemma intersection_valid:
  assumes "\<forall>iv \<in> set xs \<union> set ys. valid_interval iv"
  obtains zs where "interval_intersection xs ys = Inr zs" and "canonical zs" and "covered zs = points xs \<inter> points ys"
  using intersection_covers_common_points [of xs ys] assms by auto

lemma canonical_empty: "canonical zs \<Longrightarrow> zs = [] \<longleftrightarrow> covered zs = {}"
  using canonical_unique [of zs "[]"] by auto

text \<open>The windows a gap is associated with, and what their overlaps cover together.\<close>

lemma associate_spec:
  assumes "valid_interval (gap_span g)" and "\<forall>w \<in> set ws. valid_interval (window_span w)"
  shows "\<exists>as os. associate g i ws = Inr (as, os) \<and>
    covered os = points [gap_span g] \<inter> points (map window_span ws) \<and> (\<forall>iv \<in> set os. fst iv \<le> snd iv) \<and>
    map as_window_index as = map fst (filter (\<lambda>(j, w). points [gap_span g] \<inter> points [window_span w] \<noteq> {}) (enumerate i ws))"
  using assms(2)
proof (induction ws arbitrary: i)
  case (Cons w ws)
  obtain zs where z: "interval_intersection [gap_span g] [window_span w] = Inr zs" "canonical zs"
    "covered zs = points [gap_span g] \<inter> points [window_span w]"
    using intersection_valid [of "[gap_span g]" "[window_span w]"] assms(1) Cons.prems by auto
  obtain as os where rest: "associate g (Suc i) ws = Inr (as, os)"
    "covered os = points [gap_span g] \<inter> points (map window_span ws)" "\<forall>iv \<in> set os. fst iv \<le> snd iv"
    "map as_window_index as = map fst (filter (\<lambda>(j, w). points [gap_span g] \<inter> points [window_span w] \<noteq> {}) (enumerate (Suc i) ws))"
    using Cons.IH [of "Suc i"] Cons.prems by auto
  have "zs = [] \<longleftrightarrow> points [gap_span g] \<inter> points [window_span w] = {}" using canonical_empty [OF z(2)] z(3) by simp
  moreover have "\<forall>iv \<in> set zs. fst iv \<le> snd iv" using z(2) by (force simp: canonical_def)
  moreover have "covered (zs @ os) = points [gap_span g] \<inter> points (map window_span (w # ws))"
    using z(3) rest(2) points_Cons [of "window_span w" "map window_span ws"] by (simp add: Int_Un_distrib)
  ultimately show ?case using z(1) rest by auto
qed (simp add: points_def)

lemma filter_enumerate: "map fst (filter (\<lambda>(j, w). P w) (enumerate 0 ws)) = filter (\<lambda>i. P (ws ! i)) [0..<length ws]"
proof -
  have "enumerate 0 ws = map (\<lambda>i. (i, ws ! i)) [0..<length ws]" by (rule nth_equalityI) (simp_all add: nth_enumerate_eq)
  then show ?thesis by (simp add: filter_map o_def)
qed

text \<open>
  An aligned gap counts overlapping windows once: it is associated with exactly the
  windows it has points in common with, in order, and its overlap is the length of its
  intersection with all windows together, which is between 0 and the length of the gap.
\<close>

theorem aligned_overlap_counts_once:
  assumes "gap_span g = (Finite s, Finite e)" and "s \<le> e" and "\<forall>w \<in> set windows. valid_interval (window_span w)"
  shows "\<exists>a zs. align_gaps_with_windows [g] windows = Inr [a] \<and>
    interval_intersection [gap_span g] (map window_span windows) = Inr zs \<and>
    al_overlap_seconds a = total_span zs \<and> 0 \<le> total_span zs \<and> total_span zs \<le> e - s \<and>
    map as_window_index (al_windows a) =
      filter (\<lambda>i. points [gap_span g] \<inter> points [window_span (windows ! i)] \<noteq> {}) [0..<length windows]"
proof -
  have valid: "valid_interval (gap_span g)" using assms(1,2) by (simp add: valid_interval_def)
  obtain as os where a: "associate g 0 windows = Inr (as, os)"
    "covered os = points [gap_span g] \<inter> points (map window_span windows)" "\<forall>iv \<in> set os. fst iv \<le> snd iv"
    "map as_window_index as = map fst (filter (\<lambda>(j, w). points [gap_span g] \<inter> points [window_span w] \<noteq> {}) (enumerate 0 windows))"
    using associate_spec [OF valid assms(3), of 0] by blast
  obtain zs where z: "interval_intersection [gap_span g] (map window_span windows) = Inr zs" "canonical zs"
    "covered zs = points [gap_span g] \<inter> points (map window_span windows)"
    using intersection_valid [of "[gap_span g]" "map window_span windows"] valid assms(3) by auto
  have merged: "merge_spans os = zs"
    by (rule canonical_unique) (simp_all add: merge_spans_spec z a(2))
  have "covered zs \<subseteq> {s..<e}" using assms(1) by (auto simp: z(3) points_def)
  note bound = total_span_bounded [OF z(2) this assms(2)]
  note index = filter_enumerate [of "\<lambda>w. points [gap_span g] \<inter> points [window_span w] \<noteq> {}" windows]
  have "\<exists>us. interval_union (map window_span windows) = Inr us"
    using assms(3) by (cases "map window_span windows" rule: union_cases) auto
  moreover have "align_gap windows g = Inr \<lparr>al_gap = g, al_windows = as, al_overlap_seconds = total_span zs\<rparr>"
    by (simp add: align_gap_def a(1) union_of_finite [OF a(3)] merged)
  ultimately show ?thesis using z(1) bound a(4) index by (auto simp: align_gaps_with_windows_def)
qed

section \<open>A late emission\<close>

definition late_emissions :: "emission list" where
  "late_emissions = [\<lparr>em_time = Finite 5, em_tokens = JInt 4\<rparr>, \<lparr>em_time = Finite 3, em_tokens = JInt 5\<rparr>]"

text \<open>
  An emission whose time goes back is recorded as a chunk of all tokens so far, those of
  earlier emissions once more: 5 tokens were observed, the chunks add up to 9.
\<close>

lemma late_emission_recounts_tokens:
  "map_sum id (\<lambda>s. (es_maximum_tokens s, map ch_token_delta (es_coalesced_emissions s)))
     (summarize_emissions late_emissions (JInt 5)) = Inr (5, [4, 5])"
  by code_simp

section \<open>Witnesses\<close>

definition demo_emissions :: "emission list" where
  "demo_emissions = [\<lparr>em_time = Finite 0, em_tokens = JInt 2\<rparr>, \<lparr>em_time = Finite 1, em_tokens = JInt 3\<rparr>,
     \<lparr>em_time = Finite 3, em_tokens = JInt 5\<rparr>]"

definition demo_summary :: emission_summary where
  "demo_summary = (case summarize_emissions demo_emissions (JInt 5) of Inr s \<Rightarrow> s)"

lemma demo_summarized: "summarize_emissions demo_emissions (JInt 5) = Inr demo_summary"
proof -
  have "\<forall>e \<in> set demo_emissions. emission_valid e"
    by (simp add: demo_emissions_def emission_valid_def checked_count_def)
  then have "\<nexists>x. summarize_emissions demo_emissions (JInt 5) = Inl x"
    by (simp add: summary_raises_on_invalid_input checked_count_def)
  then show ?thesis unfolding demo_summary_def by (cases "summarize_emissions demo_emissions (JInt 5)") simp_all
qed

theorem summary_accounts_for_tokens_witness:
  "es_complete demo_summary \<and> length (es_gaps demo_summary) = 1 \<and>
   5 - ((\<Sum>ch \<leftarrow> es_coalesced_emissions demo_summary. ch_token_delta ch) + 1) \<in> {0, 1}"
proof -
  have f: "es_complete demo_summary" "length (es_gaps demo_summary) = 1" "es_final_tokens demo_summary = 5" by code_simp+
  with summary_accounts_for_tokens [OF demo_summarized] show ?thesis by simp
qed

theorem summary_percentiles_are_ordered_witness:
  "\<exists>p50 p95. es_gap_p50 demo_summary = Some p50 \<and> es_gap_p95 demo_summary = Some p95 \<and> p50 \<le> p95"
proof -
  have "es_gaps demo_summary \<noteq> []" by code_simp
  with summary_percentiles_are_ordered [OF demo_summarized] show ?thesis by auto
qed

definition demo_gap :: gap where
  "demo_gap = \<lparr>gp_start = Finite 0, gp_end = Finite 4, gp_seconds = 4, gp_token_count = 3\<rparr>"

definition demo_windows :: "window list" where
  "demo_windows = [\<lparr>wn_start = Finite 1, wn_end = Finite 3, wn_name = Some ''copy''\<rparr>,
     \<lparr>wn_start = Finite 2, wn_end = Finite 9, wn_name = None\<rparr>]"

theorem aligned_overlap_counts_once_witness:
  "\<exists>a. align_gaps_with_windows [demo_gap] demo_windows = Inr [a] \<and> al_overlap_seconds a = 3"
proof -
  have g: "gap_span demo_gap = (Finite 0, Finite 4)" by (simp add: gap_span_def demo_gap_def)
  have w: "\<forall>w \<in> set demo_windows. valid_interval (window_span w)"
    by (simp add: demo_windows_def window_span_def valid_interval_def)
  obtain a zs where a: "align_gaps_with_windows [demo_gap] demo_windows = Inr [a]"
    "interval_intersection [gap_span demo_gap] (map window_span demo_windows) = Inr zs" "al_overlap_seconds a = total_span zs"
    using aligned_overlap_counts_once [OF g _ w] by auto
  have "interval_intersection [gap_span demo_gap] (map window_span demo_windows) = Inr [(1, 4)]" by code_simp
  then show ?thesis using a by simp
qed

end
