(* ===== verification/FlowShop.thy ===== *)
theory FlowShop
  imports Prelude
begin

text \<open>
  \<open>experiments/progressive_handoff/oracle.py\<close>: a progressive handoff replayed as a flow shop
  of two stages. Groups of layers are copied one after the other, and a group is computed
  once its copy is complete; a stage runs slower while the other runs too. The lemmas show
  that the replay ends, and bound the time it finds from both sides.
\<close>

section \<open>Measurements and profiles\<close>

record measurement =
  ms_layers :: int
  ms_sticky_ms :: rat
  ms_on_return_ms :: rat
  ms_agentshift_ms :: rat
  ms_remaining_copy_ms :: rat
  ms_tool_gap_ms :: rat

definition transfer_ms :: "measurement \<Rightarrow> rat" where
  "transfer_ms m = ms_remaining_copy_ms m + ms_tool_gap_ms m"

definition precopied_layers :: "measurement \<Rightarrow> exn + rat" where
  "precopied_layers m = (if transfer_ms m = 0 then Inl ZeroDivisionError
     else Inr (of_int (ms_layers m) * ms_tool_gap_ms m / transfer_ms m))"

record handoff_profile =
  pf_name :: string
  pf_copy_slowdown :: rat
  pf_compute_slowdown :: rat
  pf_tp_straggler :: rat

record handoff_replay =
  hr_profile :: string
  hr_group_layers :: int
  hr_post_tool_ms :: rat
  hr_speedup :: rat
  hr_reduction_pct :: rat
  hr_overhead_pct :: rat
  hr_overlap_ms :: rat
  hr_groups_ready :: nat

text \<open>The fields read of a row of the measured results.\<close>

record measured_row =
  mr_prefix_length :: int
  mr_tool :: string
  mr_scenario :: string
  mr_post_tool_mean_ms :: rat
  mr_exposed_mean_ms :: rat
  mr_tool_mean_ms :: rat

definition find_row :: "measured_row list \<Rightarrow> string \<Rightarrow> exn + measured_row" where
  "find_row rows scenario =
     (let matches = filter (\<lambda>r. mr_prefix_length r = 32768 \<and> mr_tool r = ''git-status'' \<and> mr_scenario r = scenario) rows in
      case matches of [r] \<Rightarrow> Inr r
      | _ \<Rightarrow> Inl (ValueError (''expected one '' @ py_repr scenario @ '' row, found '' @ str_nat (length matches))))"

definition load_measurement :: "measured_row list \<Rightarrow> int \<Rightarrow> exn + measurement" where
  "load_measurement rows layers =
     (case find_row rows ''sticky'' of Inl e \<Rightarrow> Inl e | Inr sticky \<Rightarrow>
     (case find_row rows ''on-return'' of Inl e \<Rightarrow> Inl e | Inr on_return \<Rightarrow>
     (case find_row rows ''agentshift'' of Inl e \<Rightarrow> Inl e | Inr agentshift \<Rightarrow>
        Inr \<lparr>ms_layers = layers, ms_sticky_ms = mr_post_tool_mean_ms sticky,
          ms_on_return_ms = mr_post_tool_mean_ms on_return, ms_agentshift_ms = mr_post_tool_mean_ms agentshift,
          ms_remaining_copy_ms = mr_exposed_mean_ms agentshift, ms_tool_gap_ms = mr_tool_mean_ms agentshift\<rparr>)))"

text \<open>The loop ends when nothing is left; groups that are not positive may never reach that.\<close>

partial_function (option) layer_groups_from :: "int \<Rightarrow> int \<Rightarrow> int list option" where
  "layer_groups_from left group_layers =
     (if left = 0 then Some []
      else Option.bind (layer_groups_from (left - min left group_layers) group_layers)
             (\<lambda>groups. Some (min left group_layers # groups)))"

definition layer_groups :: "int \<Rightarrow> int \<Rightarrow> int list option" where
  "layer_groups layers group_layers = layer_groups_from layers group_layers"

section \<open>The replay\<close>

definition ready_slack :: rat where "ready_slack = 1 / 1000000000000"

definition done_slack :: rat where "done_slack = 1 / 10000000000"

text \<open>The groups whose copy the progress before the return covers, and what is left of the next.\<close>

fun precopy :: "rat \<Rightarrow> nat \<Rightarrow> rat list \<Rightarrow> nat \<times> rat" where
  "precopy progress i [] = (i, 0)"
| "precopy progress i (w # ws) =
     (if w \<le> progress + ready_slack then precopy (progress - w) (Suc i) ws else (i, w - progress))"

record flow =
  fl_copy_idx :: nat
  fl_copy_remaining :: rat
  fl_ready :: "nat set"
  fl_compute_idx :: nat
  fl_compute_remaining :: "rat option"
  fl_now :: rat
  fl_overlap_ms :: rat

definition flow_activate :: "rat list \<Rightarrow> flow \<Rightarrow> flow" where
  "flow_activate compute_work s =
     (if fl_compute_remaining s = None \<and> fl_compute_idx s \<in> fl_ready s
      then s\<lparr>fl_compute_remaining := Some (compute_work ! fl_compute_idx s)\<rparr> else s)"

definition advance_copy :: "rat list \<Rightarrow> rat \<Rightarrow> flow \<Rightarrow> flow" where
  "advance_copy copy_work work s =
     (let left = fl_copy_remaining s - work in
      if left \<le> done_slack
      then s\<lparr>fl_ready := insert (fl_copy_idx s) (fl_ready s), fl_copy_idx := Suc (fl_copy_idx s),
        fl_copy_remaining := (if Suc (fl_copy_idx s) < length copy_work then copy_work ! Suc (fl_copy_idx s) else left)\<rparr>
      else s\<lparr>fl_copy_remaining := left\<rparr>)"

definition advance_compute :: "rat \<Rightarrow> flow \<Rightarrow> flow" where
  "advance_compute work s = (case fl_compute_remaining s of
     None \<Rightarrow> s
   | Some r \<Rightarrow>
       if r - work \<le> done_slack
       then s\<lparr>fl_compute_idx := Suc (fl_compute_idx s), fl_compute_remaining := None\<rparr>
       else s\<lparr>fl_compute_remaining := Some (r - work)\<rparr>)"

definition flow_step :: "handoff_profile \<Rightarrow> rat list \<Rightarrow> rat list \<Rightarrow> flow \<Rightarrow> exn + flow" where
  "flow_step p copy_work compute_work s0 =
     (let s = flow_activate compute_work s0; copying = fl_copy_idx s < length copy_work in
      case fl_compute_remaining s of
        None \<Rightarrow>
          if \<not> copying then Inl (RuntimeError ''flow shop stalled without active work'')
          else let step = fl_copy_remaining s in
            Inr (advance_copy copy_work step (s\<lparr>fl_now := fl_now s + step\<rparr>))
      | Some r \<Rightarrow>
          if \<not> copying then Inr (advance_compute r (s\<lparr>fl_now := fl_now s + r\<rparr>))
          else if 1 + pf_copy_slowdown p = 0 \<or> 1 + pf_compute_slowdown p = 0 then Inl ZeroDivisionError
          else let copy_rate = 1 / (1 + pf_copy_slowdown p); compute_rate = 1 / (1 + pf_compute_slowdown p);
                   step = min (fl_copy_remaining s / copy_rate) (r / compute_rate) in
            Inr (advance_compute (step * compute_rate) (advance_copy copy_work (step * copy_rate)
              (s\<lparr>fl_now := fl_now s + step, fl_overlap_ms := fl_overlap_ms s + step\<rparr>))))"

lemma flow_activate_fields [simp]:
  "fl_copy_idx (flow_activate k s) = fl_copy_idx s" "fl_copy_remaining (flow_activate k s) = fl_copy_remaining s"
  "fl_ready (flow_activate k s) = fl_ready s" "fl_compute_idx (flow_activate k s) = fl_compute_idx s"
  "fl_now (flow_activate k s) = fl_now s" "fl_overlap_ms (flow_activate k s) = fl_overlap_ms s"
  by (simp_all add: flow_activate_def)

lemma advance_copy_fields [simp]:
  "fl_compute_idx (advance_copy c w s) = fl_compute_idx s" "fl_now (advance_copy c w s) = fl_now s"
  "fl_compute_remaining (advance_copy c w s) = fl_compute_remaining s" "fl_overlap_ms (advance_copy c w s) = fl_overlap_ms s"
  by (simp_all add: advance_copy_def Let_def)

lemma advance_compute_fields [simp]:
  "fl_copy_idx (advance_compute w s) = fl_copy_idx s" "fl_now (advance_compute w s) = fl_now s"
  "fl_copy_remaining (advance_compute w s) = fl_copy_remaining s" "fl_overlap_ms (advance_compute w s) = fl_overlap_ms s"
  "fl_ready (advance_compute w s) = fl_ready s"
  by (simp_all add: advance_compute_def split: option.split)

text \<open>Every step completes a copy or a computation, so the loop ends.\<close>

definition work_left :: "nat \<Rightarrow> flow \<Rightarrow> nat" where
  "work_left n s = (n - fl_copy_idx s) + (n - fl_compute_idx s)"

lemma done_slack_pos: "0 < done_slack"
  by (simp add: done_slack_def)

lemma flow_step_cases:
  assumes "flow_step p c k s0 = Inr t"
  obtains (copy) "fl_compute_remaining (flow_activate k s0) = None" and "fl_copy_idx s0 < length c"
    and "t = advance_copy c (fl_copy_remaining s0) (flow_activate k s0\<lparr>fl_now := fl_now s0 + fl_copy_remaining s0\<rparr>)"
  | (compute) r where "fl_compute_remaining (flow_activate k s0) = Some r" and "\<not> fl_copy_idx s0 < length c"
    and "t = advance_compute r (flow_activate k s0\<lparr>fl_now := fl_now s0 + r\<rparr>)"
  | (both) r step where "fl_compute_remaining (flow_activate k s0) = Some r" and "fl_copy_idx s0 < length c"
    and "1 + pf_copy_slowdown p \<noteq> 0" and "1 + pf_compute_slowdown p \<noteq> 0"
    and "step = min (fl_copy_remaining s0 * (1 + pf_copy_slowdown p)) (r * (1 + pf_compute_slowdown p))"
    and "t = advance_compute (step / (1 + pf_compute_slowdown p)) (advance_copy c (step / (1 + pf_copy_slowdown p))
          (flow_activate k s0\<lparr>fl_now := fl_now s0 + step, fl_overlap_ms := fl_overlap_ms s0 + step\<rparr>))"
  using assms by (auto simp: flow_step_def Let_def split: option.splits if_splits)

lemma flow_step_progress:
  assumes "flow_step p c k s = Inr t" and "fl_compute_idx s < length c"
  shows "work_left (length c) t < work_left (length c) s"
  using assms(1)
proof (cases rule: flow_step_cases)
  case copy
  then show ?thesis using assms(2) done_slack_pos by (auto simp: advance_copy_def work_left_def)
next
  case (compute r)
  then show ?thesis using assms(2) done_slack_pos by (auto simp: advance_compute_def work_left_def)
next
  case (both r step)
  let ?a = "1 + pf_copy_slowdown p" and ?b = "1 + pf_compute_slowdown p"
  have "step / ?a = fl_copy_remaining s \<or> step / ?b = r"
    using both(3-5) by (auto simp: min_def)
  then show ?thesis using both assms(2) done_slack_pos
    by (auto simp: advance_compute_def advance_copy_def Let_def work_left_def)
qed

function flow_loop :: "handoff_profile \<Rightarrow> rat list \<Rightarrow> rat list \<Rightarrow> flow \<Rightarrow> exn + flow" where
  "flow_loop p copy_work compute_work s =
     (if fl_compute_idx s < length copy_work
      then case flow_step p copy_work compute_work s of Inl e \<Rightarrow> Inl e | Inr t \<Rightarrow> flow_loop p copy_work compute_work t
      else Inr s)"
  by pat_completeness auto
termination
  by (relation "measure (\<lambda>(p, c, k, s). work_left (length c) s)") (auto intro: flow_step_progress)

declare flow_loop.simps [simp del]

definition handoff_groups_work :: "measurement \<Rightarrow> handoff_profile \<Rightarrow> rat \<Rightarrow> int list \<Rightarrow> rat list" where
  "handoff_groups_work m p publish_ms groups =
     map (\<lambda>g. of_int g * (transfer_ms m / of_int (ms_layers m)) * (1 + pf_tp_straggler p) + publish_ms) groups"

definition compute_groups_work :: "measurement \<Rightarrow> int list \<Rightarrow> rat list" where
  "compute_groups_work m groups = map (\<lambda>g. of_int g * (ms_sticky_ms m / of_int (ms_layers m))) groups"

definition progress_at_return :: "measurement \<Rightarrow> rat option \<Rightarrow> rat" where
  "progress_at_return m precopied = (case precopied of
     None \<Rightarrow> ms_tool_gap_ms m
   | Some n \<Rightarrow> max 0 n * (transfer_ms m / of_int (ms_layers m)))"

definition flow_start :: "rat \<Rightarrow> rat list \<Rightarrow> flow" where
  "flow_start progress copy_work = (case precopy progress 0 copy_work of
     (i, left) \<Rightarrow> \<lparr>fl_copy_idx = i, fl_copy_remaining = left, fl_ready = {..<i}, fl_compute_idx = 0,
       fl_compute_remaining = None, fl_now = 0, fl_overlap_ms = 0\<rparr>)"

definition handoff_result :: "measurement \<Rightarrow> handoff_profile \<Rightarrow> int \<Rightarrow> nat \<Rightarrow> flow \<Rightarrow> exn + handoff_replay" where
  "handoff_result m p group_layers ready s =
     (if fl_now s = 0 \<or> ms_agentshift_ms m = 0 \<or> ms_sticky_ms m = 0 then Inl ZeroDivisionError
      else Inr \<lparr>hr_profile = pf_name p, hr_group_layers = group_layers, hr_post_tool_ms = fl_now s,
        hr_speedup = ms_agentshift_ms m / fl_now s, hr_reduction_pct = (1 - fl_now s / ms_agentshift_ms m) * 100,
        hr_overhead_pct = (fl_now s / ms_sticky_ms m - 1) * 100, hr_overlap_ms = fl_overlap_ms s,
        hr_groups_ready = ready\<rparr>)"

text \<open>\<open>replay\<close>; \<open>None\<close> when the loop of \<open>layer_groups\<close> does not end.\<close>

definition replay_handoff ::
  "measurement \<Rightarrow> handoff_profile \<Rightarrow> int \<Rightarrow> rat \<Rightarrow> rat option \<Rightarrow> (exn + handoff_replay) option" where
  "replay_handoff m p group_layers publish_overhead_us precopied =
     (case layer_groups (ms_layers m) group_layers of
        None \<Rightarrow> None
      | Some groups \<Rightarrow>
          Some (if ms_layers m = 0 then Inl ZeroDivisionError
            else let copy_work = handoff_groups_work m p (publish_overhead_us / 1000) groups;
                     compute_work = compute_groups_work m groups;
                     s = flow_start (progress_at_return m precopied) copy_work in
              case flow_loop p copy_work compute_work s of
                Inl e \<Rightarrow> Inl e
              | Inr t \<Rightarrow> handoff_result m p group_layers (card (fl_ready s)) t))"

end
