(* ===== verification/FlowShopProps.thy ===== *)
theory FlowShopProps
  imports FlowShop
begin

text \<open>
  The replay of a progressive handoff returns, and its time is bounded by the work: it is no
  shorter than the computation alone or than the copying that is left, and no longer than
  finishing the copy at its slowed rate and then computing.
\<close>

section \<open>Groups of layers\<close>

lemma layer_groups_from_zero: "layer_groups_from 0 g = Some []"
  by (subst layer_groups_from.simps) simp

lemma layer_groups_from_step:
  "left \<noteq> 0 \<Longrightarrow> layer_groups_from left g =
    Option.bind (layer_groups_from (left - min left g) g) (\<lambda>groups. Some (min left g # groups))"
  by (subst layer_groups_from.simps) simp

lemma layer_groups_from_returns:
  assumes "0 < g"
  shows "\<exists>groups. layer_groups_from (int n) g = Some groups \<and> sum_list groups = int n \<and>
    (\<forall>x \<in> set groups. 0 < x \<and> x \<le> g) \<and> length groups \<le> n"
proof (induction n rule: less_induct)
  case (less n)
  show ?case
  proof (cases "n = 0")
    case True
    then show ?thesis by (simp add: layer_groups_from_zero)
  next
    case False
    let ?m = "n - nat (min (int n) g)"
    have m: "?m < n" "int n - min (int n) g = int ?m" using False assms by auto
    obtain groups where "layer_groups_from (int ?m) g = Some groups" "sum_list groups = int ?m"
      "\<forall>x \<in> set groups. 0 < x \<and> x \<le> g" "length groups \<le> ?m" using less.IH [OF m(1)] by auto
    then show ?thesis using False assms m by (auto simp: layer_groups_from_step)
  qed
qed

lemma layer_groups_returns:
  assumes "0 < g" and "0 \<le> layers"
  obtains groups where "layer_groups layers g = Some groups" and "sum_list groups = layers"
    and "\<forall>x \<in> set groups. 0 < x \<and> x \<le> g" and "int (length groups) \<le> layers"
  using layer_groups_from_returns [OF assms(1), of "nat layers"] assms(2) by (auto simp: layer_groups_def)

text \<open>With groups that are not positive the loop of \<open>layer_groups\<close> never ends.\<close>

lemma layer_groups_diverges:
  assumes "g \<le> 0" and "0 < layers"
  shows "layer_groups layers g = None"
proof -
  have "\<not> (g \<le> 0 \<and> 0 < left)" if "layer_groups_from left g = Some r" for left g :: int and r
  proof (rule layer_groups_from.raw_induct [OF _ that])
    fix self and left g :: int and r :: "int list"
    assume IH: "\<And>left g r. self left g = Some r \<Longrightarrow> \<not> (g \<le> 0 \<and> 0 < left)"
      and run: "(if left = 0 then Some []
        else Option.bind (self (left - min left g) g) (\<lambda>groups. Some (min left g # groups))) = Some r"
    show "\<not> (g \<le> 0 \<and> 0 < left)"
    proof (cases "left = 0")
      case False
      then obtain r' where "self (left - min left g) g = Some r'" using run by (auto simp: bind_eq_Some_conv)
      from IH [OF this] show ?thesis by auto
    qed simp
  qed
  then show ?thesis using assms by (cases "layer_groups layers g") (auto simp: layer_groups_def)
qed

section \<open>Work that is left\<close>

definition copy_left :: "rat list \<Rightarrow> flow \<Rightarrow> rat" where
  "copy_left c s = (if fl_copy_idx s < length c then fl_copy_remaining s + sum_list (drop (Suc (fl_copy_idx s)) c) else 0)"

definition compute_left :: "rat list \<Rightarrow> flow \<Rightarrow> rat" where
  "compute_left k s = (case fl_compute_remaining s of
     None \<Rightarrow> sum_list (drop (fl_compute_idx s) k)
   | Some r \<Rightarrow> r + sum_list (drop (Suc (fl_compute_idx s)) k))"

text \<open>What may be dropped with the groups from the \<open>i\<close>-th on.\<close>

definition slack_left :: "nat \<Rightarrow> nat \<Rightarrow> rat" where
  "slack_left n i = done_slack * of_nat (n - i)"

lemma slack_left_Suc: "i < n \<Longrightarrow> slack_left n i = done_slack + slack_left n (Suc i)"
  by (simp add: slack_left_def of_nat_diff algebra_simps)

definition flow_ok :: "rat list \<Rightarrow> rat list \<Rightarrow> flow \<Rightarrow> bool" where
  "flow_ok c k s \<longleftrightarrow> fl_ready s = {..<fl_copy_idx s} \<and> fl_copy_idx s \<le> length c \<and> fl_compute_idx s \<le> fl_copy_idx s \<and>
     (\<forall>r. fl_compute_remaining s = Some r \<longrightarrow> fl_compute_idx s < fl_copy_idx s \<and> 0 \<le> r) \<and>
     (fl_copy_idx s < length c \<longrightarrow> 0 \<le> fl_copy_remaining s)"

definition nonneg_work :: "rat list \<Rightarrow> bool" where
  "nonneg_work ws \<longleftrightarrow> (\<forall>w \<in> set ws. 0 \<le> w)"

lemma nonneg_work_sum: "nonneg_work ws \<Longrightarrow> 0 \<le> sum_list (drop i ws)"
  by (intro sum_list_nonneg) (auto simp: nonneg_work_def dest: in_set_dropD)

lemma flow_activate_ok:
  assumes "flow_ok c k s" and "length k = length c" and "nonneg_work k"
  shows "flow_ok c k (flow_activate k s) \<and> compute_left k (flow_activate k s) = compute_left k s \<and>
    copy_left c (flow_activate k s) = copy_left c s"
proof (cases "fl_compute_remaining s = None \<and> fl_compute_idx s \<in> fl_ready s")
  case True
  then have i: "fl_compute_idx s < fl_copy_idx s" "fl_compute_idx s < length k" using assms by (auto simp: flow_ok_def)
  then have "0 \<le> k ! fl_compute_idx s" using assms(3) by (simp add: nonneg_work_def)
  then show ?thesis using True i assms(1)
    by (auto simp: flow_activate_def flow_ok_def compute_left_def copy_left_def Cons_nth_drop_Suc [symmetric])
next
  case False
  then have "flow_activate k s = s" by (auto simp: flow_activate_def)
  then show ?thesis using assms(1) by simp
qed

lemma advance_copy_ok:
  assumes ok: "flow_ok c k s" and i: "fl_copy_idx s < length c" and w: "0 \<le> w" "w \<le> fl_copy_remaining s" and c: "nonneg_work c"
  shows "flow_ok c k (advance_copy c w s)" and "copy_left c (advance_copy c w s) \<le> copy_left c s - w"
    and "copy_left c s - w - slack_left (length c) (fl_copy_idx s) \<le>
      copy_left c (advance_copy c w s) - slack_left (length c) (fl_copy_idx (advance_copy c w s))"
    and "compute_left k (advance_copy c w s) = compute_left k s" and "0 \<le> copy_left c s"
proof -
  let ?i = "fl_copy_idx s"
  have nonneg: "0 \<le> c ! j" if "j < length c" for j using that c by (simp add: nonneg_work_def)
  show "0 \<le> copy_left c s" using ok nonneg_work_sum [OF c] i by (simp add: copy_left_def flow_ok_def)
  show "compute_left k (advance_copy c w s) = compute_left k s"
    by (simp add: compute_left_def split: option.split)
  show "flow_ok c k (advance_copy c w s)"
    using ok i w nonneg by (auto simp: advance_copy_def Let_def flow_ok_def lessThan_Suc less_Suc_eq)
  have slack: "slack_left (length c) ?i = done_slack + slack_left (length c) (Suc ?i)" using i by (rule slack_left_Suc)
  have drop: "sum_list (drop (Suc ?i) c) = (if Suc ?i < length c then c ! Suc ?i + sum_list (drop (Suc (Suc ?i)) c) else 0)"
    by (simp add: Cons_nth_drop_Suc [symmetric])
  show "copy_left c (advance_copy c w s) \<le> copy_left c s - w"
    using i w drop by (auto simp: advance_copy_def Let_def copy_left_def)
  show "copy_left c s - w - slack_left (length c) ?i \<le>
      copy_left c (advance_copy c w s) - slack_left (length c) (fl_copy_idx (advance_copy c w s))"
    using i w drop slack by (auto simp: advance_copy_def Let_def copy_left_def)
qed

lemma advance_compute_ok:
  assumes ok: "flow_ok c k s" and r: "fl_compute_remaining s = Some r" and w: "0 \<le> w" "w \<le> r"
  shows "flow_ok c k (advance_compute w s)" and "compute_left k (advance_compute w s) \<le> compute_left k s - w"
    and "compute_left k s - w - slack_left (length c) (fl_compute_idx s) \<le>
      compute_left k (advance_compute w s) - slack_left (length c) (fl_compute_idx (advance_compute w s))"
    and "copy_left c (advance_compute w s) = copy_left c s"
proof -
  let ?i = "fl_compute_idx s"
  show "copy_left c (advance_compute w s) = copy_left c s" by (simp add: copy_left_def)
  show "flow_ok c k (advance_compute w s)"
    using ok r w by (auto simp: advance_compute_def flow_ok_def)
  have "?i < length c" using ok r by (auto simp: flow_ok_def)
  then have slack: "slack_left (length c) ?i = done_slack + slack_left (length c) (Suc ?i)" by (rule slack_left_Suc)
  show "compute_left k (advance_compute w s) \<le> compute_left k s - w"
    using r w by (auto simp: advance_compute_def compute_left_def)
  show "compute_left k s - w - slack_left (length c) ?i \<le>
      compute_left k (advance_compute w s) - slack_left (length c) (fl_compute_idx (advance_compute w s))"
    using r w slack by (auto simp: advance_compute_def compute_left_def)
qed

section \<open>Bounds of a step\<close>

definition flow_bounds :: "handoff_profile \<Rightarrow> rat list \<Rightarrow> rat list \<Rightarrow> flow \<Rightarrow> flow \<Rightarrow> bool" where
  "flow_bounds p c k s t \<longleftrightarrow>
     fl_now s + compute_left k s - slack_left (length c) (fl_compute_idx s) \<le>
       fl_now t + compute_left k t - slack_left (length c) (fl_compute_idx t) \<and>
     fl_now s + copy_left c s - slack_left (length c) (fl_copy_idx s) \<le>
       fl_now t + copy_left c t - slack_left (length c) (fl_copy_idx t) \<and>
     fl_now t + copy_left c t * (1 + pf_copy_slowdown p) + compute_left k t \<le>
       fl_now s + copy_left c s * (1 + pf_copy_slowdown p) + compute_left k s \<and>
     fl_overlap_ms s \<le> fl_overlap_ms t \<and> fl_overlap_ms t - fl_overlap_ms s \<le> fl_now t - fl_now s"

lemma flow_bounds_refl: "flow_bounds p c k s s"
  by (simp add: flow_bounds_def)

lemma flow_bounds_trans: "flow_bounds p c k s t \<Longrightarrow> flow_bounds p c k t u \<Longrightarrow> flow_bounds p c k s u"
  unfolding flow_bounds_def by linarith

lemma clock_left [simp]:
  "copy_left c (s\<lparr>fl_now := x\<rparr>) = copy_left c s" "compute_left k (s\<lparr>fl_now := x\<rparr>) = compute_left k s"
  "copy_left c (s\<lparr>fl_now := x, fl_overlap_ms := y\<rparr>) = copy_left c s"
  "compute_left k (s\<lparr>fl_now := x, fl_overlap_ms := y\<rparr>) = compute_left k s"
  "flow_ok c k (s\<lparr>fl_now := x\<rparr>) = flow_ok c k s" "flow_ok c k (s\<lparr>fl_now := x, fl_overlap_ms := y\<rparr>) = flow_ok c k s"
  by (simp_all add: copy_left_def compute_left_def flow_ok_def split: option.split)

text \<open>Slowing a stage down by a factor of at least one leaves at most the time as work.\<close>

lemma slowed: "0 \<le> (x :: rat) \<Longrightarrow> 0 \<le> d \<Longrightarrow> x / (1 + d) \<le> x \<and> 0 \<le> x / (1 + d) \<and> x / (1 + d) * (1 + d) = x"
proof -
  assume x: "0 \<le> x" and d: "0 \<le> d"
  have "x \<le> x * (1 + d)" using mult_left_mono [of 1 "1 + d" x] x d by simp
  then show ?thesis using x d by (simp add: divide_le_eq)
qed

lemma step_copy:
  assumes ok: "flow_ok c k s" and i: "fl_copy_idx s < length c" and c: "nonneg_work c" and d: "0 \<le> pf_copy_slowdown p"
    and t: "t = advance_copy c (fl_copy_remaining s) (s\<lparr>fl_now := fl_now s + fl_copy_remaining s\<rparr>)"
  shows "flow_ok c k t \<and> flow_bounds p c k s t"
proof -
  let ?w = "fl_copy_remaining s" and ?s = "s\<lparr>fl_now := fl_now s + fl_copy_remaining s\<rparr>"
  have w: "0 \<le> ?w" using ok i by (simp add: flow_ok_def)
  note a = advance_copy_ok [of c k ?s ?w, simplified, OF ok i w c]
  have "copy_left c t \<le> copy_left c s - ?w" using a(2) t by simp
  then have "copy_left c t * (1 + pf_copy_slowdown p) \<le> (copy_left c s - ?w) * (1 + pf_copy_slowdown p)"
    using d by (intro mult_right_mono) auto
  moreover have "0 \<le> ?w * pf_copy_slowdown p" using w d by simp
  ultimately have "?w + copy_left c t * (1 + pf_copy_slowdown p) \<le> copy_left c s * (1 + pf_copy_slowdown p)"
    by (simp add: algebra_simps)
  then show ?thesis using a w unfolding t flow_bounds_def by simp
qed

lemma step_compute:
  assumes ok: "flow_ok c k s" and r: "fl_compute_remaining s = Some r"
    and t: "t = advance_compute r (s\<lparr>fl_now := fl_now s + r\<rparr>)"
  shows "flow_ok c k t \<and> flow_bounds p c k s t"
proof -
  let ?s = "s\<lparr>fl_now := fl_now s + r\<rparr>"
  have w: "0 \<le> r" using ok r by (simp add: flow_ok_def)
  note a = advance_compute_ok [of c k ?s r r, simplified, OF ok r w]
  show ?thesis using a w unfolding t flow_bounds_def by simp
qed

lemma step_both:
  assumes ok: "flow_ok c k s" and r: "fl_compute_remaining s = Some r" and i: "fl_copy_idx s < length c" and c: "nonneg_work c"
    and d: "0 \<le> pf_copy_slowdown p" "0 \<le> pf_compute_slowdown p"
    and step: "step = min (fl_copy_remaining s * (1 + pf_copy_slowdown p)) (r * (1 + pf_compute_slowdown p))"
    and t: "t = advance_compute (step / (1 + pf_compute_slowdown p)) (advance_copy c (step / (1 + pf_copy_slowdown p))
          (s\<lparr>fl_now := fl_now s + step, fl_overlap_ms := fl_overlap_ms s + step\<rparr>))"
  shows "flow_ok c k t \<and> flow_bounds p c k s t"
proof -
  let ?x = "step / (1 + pf_copy_slowdown p)" and ?y = "step / (1 + pf_compute_slowdown p)"
  let ?s = "s\<lparr>fl_now := fl_now s + step, fl_overlap_ms := fl_overlap_ms s + step\<rparr>"
  have nonneg: "0 \<le> fl_copy_remaining s" "0 \<le> r" using ok i r by (simp_all add: flow_ok_def)
  then have s0: "0 \<le> step" using step d by simp
  note x = slowed [OF s0 d(1)] and y = slowed [OF s0 d(2)]
  have fits: "?x \<le> fl_copy_remaining s" "?y \<le> r" using step d by (simp_all add: divide_le_eq)
  note a = advance_copy_ok [of c k ?s ?x, simplified, OF ok i _ fits(1) c]
  let ?u = "advance_copy c ?x ?s"
  have u: "flow_ok c k ?u" "fl_compute_remaining ?u = Some r" using a(1) x r by simp_all
  note b = advance_compute_ok [OF u _ fits(2)]
  have "copy_left c t \<le> copy_left c s - ?x" using a(2) b(4) x y t by simp
  then have "copy_left c t * (1 + pf_copy_slowdown p) \<le> (copy_left c s - ?x) * (1 + pf_copy_slowdown p)"
    using d by (intro mult_right_mono) auto
  then have upper: "step + copy_left c t * (1 + pf_copy_slowdown p) \<le> copy_left c s * (1 + pf_copy_slowdown p)"
    using x by (simp add: left_diff_distrib)
  have "flow_ok c k t" using b(1) y t by simp
  moreover have "flow_bounds p c k s t"
    using a b x y s0 upper unfolding t flow_bounds_def by simp
  ultimately show ?thesis by simp
qed

lemma flow_step_ok:
  assumes ok: "flow_ok c k s" and len: "length k = length c" and w: "nonneg_work c" "nonneg_work k"
    and d: "0 \<le> pf_copy_slowdown p" "0 \<le> pf_compute_slowdown p" and i: "fl_compute_idx s < length c"
  shows "\<exists>t. flow_step p c k s = Inr t \<and> flow_ok c k t \<and> flow_bounds p c k s t"
proof -
  let ?s = "flow_activate k s"
  have a: "flow_ok c k ?s" "compute_left k ?s = compute_left k s" "copy_left c ?s = copy_left c s"
    using flow_activate_ok [OF ok len w(2)] by simp_all
  have same: "flow_bounds p c k s t \<longleftrightarrow> flow_bounds p c k ?s t" for t by (simp add: flow_bounds_def a)
  have "\<exists>t. flow_step p c k s = Inr t"
  proof (cases "fl_compute_remaining ?s")
    case None
    then have "fl_compute_idx s \<notin> fl_ready s" by (auto simp: flow_activate_def split: if_splits)
    then have "fl_copy_idx s < length c" using ok i by (auto simp: flow_ok_def)
    then show ?thesis using None by (simp add: flow_step_def Let_def)
  qed (use d in \<open>simp add: flow_step_def Let_def\<close>)
  then obtain t where t: "flow_step p c k s = Inr t" by blast
  from t have "flow_ok c k t \<and> flow_bounds p c k ?s t"
  proof (cases rule: flow_step_cases)
    case copy
    show ?thesis by (rule step_copy [OF a(1) _ w(1) d(1)]) (use copy in simp_all)
  next
    case (compute r)
    show ?thesis by (rule step_compute [OF a(1) compute(1)]) (use compute in simp)
  next
    case (both r step)
    show ?thesis by (rule step_both [OF a(1) both(1) _ w(1) d, of step]) (use both in simp_all)
  qed
  then show ?thesis using t same by blast
qed

lemma flow_loop_ok:
  assumes "length k = length c" and "nonneg_work c" and "nonneg_work k"
    and "0 \<le> pf_copy_slowdown p" and "0 \<le> pf_compute_slowdown p"
  shows "flow_ok c k s \<Longrightarrow> \<exists>t. flow_loop p c k s = Inr t \<and> flow_ok c k t \<and> flow_bounds p c k s t \<and> fl_compute_idx t = length c"
proof (induction "work_left (length c) s" arbitrary: s rule: less_induct)
  case less
  show ?case
  proof (cases "fl_compute_idx s < length c")
    case True
    obtain t where t: "flow_step p c k s = Inr t" "flow_ok c k t" "flow_bounds p c k s t"
      using flow_step_ok [OF less.prems assms True] by blast
    obtain u where u: "flow_loop p c k t = Inr u" "flow_ok c k u" "flow_bounds p c k t u" "fl_compute_idx u = length c"
      using less.hyps [OF flow_step_progress [OF t(1) True] t(2)] by blast
    have "flow_loop p c k s = Inr u" using t(1) u(1) True by (subst flow_loop.simps) simp
    then show ?thesis using u flow_bounds_trans [OF t(3) u(3)] by blast
  next
    case False
    then have "fl_compute_idx s = length c" using less.prems by (simp add: flow_ok_def)
    moreover from False have "flow_loop p c k s = Inr s" by (subst flow_loop.simps) simp
    ultimately show ?thesis using less.prems flow_bounds_refl by blast
  qed
qed

section \<open>The start and the result\<close>

lemma ready_slack_pos: "0 < ready_slack" and ready_slack_le: "ready_slack \<le> done_slack"
  by (simp_all add: ready_slack_def done_slack_def)

lemma precopy_spec:
  assumes "precopy progress i ws = (j, left)" and "nonneg_work ws"
  shows "i \<le> j \<and> j \<le> i + length ws \<and>
    (if j < i + length ws then 0 < left \<and> left + sum_list (drop (Suc (j - i)) ws) = sum_list ws - progress
     else left = 0 \<and> (ws \<noteq> [] \<longrightarrow> sum_list ws - progress \<le> ready_slack))"
  using assms
proof (induction progress i ws rule: precopy.induct)
  case (2 progress i w ws)
  show ?case
  proof (cases "w \<le> progress + ready_slack")
    case True
    then have run: "precopy (progress - w) (Suc i) ws = (j, left)" "nonneg_work ws"
      using 2(2,3) by (auto simp: nonneg_work_def)
    note IH = 2(1) [OF True run]
    have "j - i = Suc (j - Suc i)" using IH by auto
    then have "drop (Suc (j - i)) (w # ws) = drop (Suc (j - Suc i)) ws" by simp
    then show ?thesis using IH True by (cases "ws = []") (auto simp: algebra_simps)
  next
    case False
    then show ?thesis using 2(2) ready_slack_pos by auto
  qed
qed auto

lemma flow_start_ok:
  assumes "nonneg_work c" and "c \<noteq> []"
  shows "flow_ok c k (flow_start progress c)" and "compute_left k (flow_start progress c) = sum_list k"
    and "fl_now (flow_start progress c) = 0" and "fl_overlap_ms (flow_start progress c) = 0"
    and "fl_compute_idx (flow_start progress c) = 0" and "card (fl_ready (flow_start progress c)) \<le> length c"
    and "copy_left c (flow_start progress c) \<le> max 0 (sum_list c - progress)"
    and "sum_list c - progress - of_nat (length c) * done_slack \<le>
      copy_left c (flow_start progress c) - slack_left (length c) (fl_copy_idx (flow_start progress c))"
proof -
  obtain j left where j: "precopy progress 0 c = (j, left)" by (cases "precopy progress 0 c")
  note spec = precopy_spec [OF j assms(1), simplified]
  have s: "flow_start progress c = \<lparr>fl_copy_idx = j, fl_copy_remaining = left, fl_ready = {..<j}, fl_compute_idx = 0,
       fl_compute_remaining = None, fl_now = 0, fl_overlap_ms = 0\<rparr>" by (simp add: flow_start_def j)
  show "flow_ok c k (flow_start progress c)" "compute_left k (flow_start progress c) = sum_list k"
    "fl_now (flow_start progress c) = 0" "fl_overlap_ms (flow_start progress c) = 0"
    "fl_compute_idx (flow_start progress c) = 0" "card (fl_ready (flow_start progress c)) \<le> length c"
    using spec by (auto simp: s flow_ok_def compute_left_def split: if_splits)
  have left: "copy_left c (flow_start progress c) = (if j < length c then sum_list c - progress else 0)"
    using spec by (auto simp: s copy_left_def)
  have "0 < sum_list c - progress" if "j < length c"
    using that spec nonneg_work_sum [OF assms(1), of "Suc j"] by auto
  then show "copy_left c (flow_start progress c) \<le> max 0 (sum_list c - progress)" by (auto simp: left)
  show "sum_list c - progress - of_nat (length c) * done_slack \<le>
      copy_left c (flow_start progress c) - slack_left (length c) (fl_copy_idx (flow_start progress c))"
  proof (cases "j < length c")
    case True
    then have "slack_left (length c) j \<le> of_nat (length c) * done_slack"
      using done_slack_pos by (simp add: slack_left_def mult.commute)
    then show ?thesis using True left by (simp add: s)
  next
    case False
    have "done_slack \<le> of_nat (length c) * done_slack"
      using assms(2) done_slack_pos mult_right_mono [of 1 "of_nat (length c)" done_slack] by (cases c) auto
    then show ?thesis using False spec assms(2) ready_slack_le left by (simp add: s slack_left_def)
  qed
qed

lemma sum_list_scaled: "sum_list (map (\<lambda>g. of_int g * x) gs) = (of_int (sum_list gs) * x :: rat)"
  by (induction gs) (simp_all add: distrib_right)

lemma sum_list_shifted: "sum_list (map (\<lambda>g. f g + y) gs) = sum_list (map f gs) + of_nat (length gs) * (y :: rat)"
  by (induction gs) (simp_all add: distrib_right)

lemma handoff_groups_work_sum:
  assumes "sum_list groups = ms_layers m" and "ms_layers m \<noteq> 0"
  shows "sum_list (handoff_groups_work m p x groups) = transfer_ms m * (1 + pf_tp_straggler p) + of_nat (length groups) * x"
proof -
  have "sum_list (handoff_groups_work m p x groups) =
      sum_list (map (\<lambda>g. of_int g * (transfer_ms m / of_int (ms_layers m) * (1 + pf_tp_straggler p))) groups) + of_nat (length groups) * x"
    unfolding handoff_groups_work_def sum_list_shifted by (simp add: mult.assoc)
  also have "\<dots> = transfer_ms m * (1 + pf_tp_straggler p) + of_nat (length groups) * x"
    unfolding sum_list_scaled using assms by simp
  finally show ?thesis .
qed

lemma compute_groups_work_sum:
  "sum_list groups = ms_layers m \<Longrightarrow> ms_layers m \<noteq> 0 \<Longrightarrow> sum_list (compute_groups_work m groups) = ms_sticky_ms m"
  unfolding compute_groups_work_def sum_list_scaled by simp

definition copy_tail :: "measurement \<Rightarrow> handoff_profile \<Rightarrow> rat \<Rightarrow> rat option \<Rightarrow> nat \<Rightarrow> rat" where
  "copy_tail m p publish_overhead_us precopied n =
     transfer_ms m * (1 + pf_tp_straggler p) + of_nat n * (publish_overhead_us / 1000) - progress_at_return m precopied"

text \<open>
  C30. The replay of a progressive handoff returns, and its time is bounded by the work: up
  to the slack the loops allow per group, it is no shorter than the computation
  alone and no shorter than the copying left at the return, and it is no longer than
  finishing the copy at its slowed rate and then computing; the overlap is part of it.
\<close>

theorem handoff_replay_bounded:
  assumes "0 < group_layers" and "0 < ms_layers m" and "0 \<le> ms_remaining_copy_ms m" and "0 \<le> ms_tool_gap_ms m"
    and "ms_agentshift_ms m \<noteq> 0" and "of_int (ms_layers m) * done_slack < ms_sticky_ms m"
    and "0 \<le> pf_copy_slowdown p" and "0 \<le> pf_compute_slowdown p" and "0 \<le> pf_tp_straggler p" and "0 \<le> publish_overhead_us"
  shows "\<exists>n r. replay_handoff m p group_layers publish_overhead_us precopied = Some (Inr r) \<and> int n \<le> ms_layers m \<and>
    ms_sticky_ms m - of_nat n * done_slack \<le> hr_post_tool_ms r \<and>
    copy_tail m p publish_overhead_us precopied n - of_nat n * done_slack \<le> hr_post_tool_ms r \<and>
    hr_post_tool_ms r \<le> max 0 (copy_tail m p publish_overhead_us precopied n) * (1 + pf_copy_slowdown p) + ms_sticky_ms m \<and>
    0 \<le> hr_overlap_ms r \<and> hr_overlap_ms r \<le> hr_post_tool_ms r \<and> hr_groups_ready r \<le> n"
proof -
  obtain groups where g: "layer_groups (ms_layers m) group_layers = Some groups" "sum_list groups = ms_layers m"
    "\<forall>x \<in> set groups. 0 < x \<and> x \<le> group_layers" "int (length groups) \<le> ms_layers m"
    using layer_groups_returns [OF assms(1)] assms(2) by (metis less_imp_le)
  let ?n = "length groups"
  let ?c = "handoff_groups_work m p (publish_overhead_us / 1000) groups" and ?k = "compute_groups_work m groups"
  let ?s = "flow_start (progress_at_return m precopied) ?c" and ?tail = "copy_tail m p publish_overhead_us precopied ?n"
  have ne: "groups \<noteq> []" using g(2) assms(2) by auto
  have len: "length ?k = length ?c" "length ?c = ?n" "?c \<noteq> []"
    using ne by (simp_all add: handoff_groups_work_def compute_groups_work_def)
  have sticky: "0 < ms_sticky_ms m"
  proof -
    have "0 \<le> of_int (ms_layers m) * done_slack" using assms(2) done_slack_pos by simp
    then show ?thesis using assms(6) by linarith
  qed
  have work: "nonneg_work ?c" "nonneg_work ?k"
    using assms g(3) sticky
    by (auto simp: nonneg_work_def handoff_groups_work_def compute_groups_work_def transfer_ms_def less_imp_le)
  have sums: "sum_list ?c - progress_at_return m precopied = ?tail" "sum_list ?k = ms_sticky_ms m"
    using g(2) assms(2) by (simp_all add: handoff_groups_work_sum compute_groups_work_sum copy_tail_def)
  note start = flow_start_ok [OF work(1) len(3), where progress = "progress_at_return m precopied", unfolded sums]
  obtain t where t: "flow_loop p ?c ?k ?s = Inr t" "flow_ok ?c ?k t" "flow_bounds p ?c ?k ?s t" "fl_compute_idx t = length ?c"
    using flow_loop_ok [OF len(1) work assms(7,8) start(1)] by blast
  have fin: "fl_copy_idx t = ?n" "fl_compute_remaining t = None" using t(2,4) len(2) by (auto simp: flow_ok_def)
  have zero: "copy_left ?c t = 0" "compute_left ?k t = 0" using t(4) fin len by (simp_all add: copy_left_def compute_left_def)
  have slack: "slack_left ?n ?n = 0" "slack_left ?n 0 = of_nat ?n * done_slack"
    using done_slack_pos by (simp_all add: slack_left_def mult.commute)
  have b: "ms_sticky_ms m - of_nat ?n * done_slack \<le> fl_now t"
    "copy_left ?c ?s - slack_left ?n (fl_copy_idx ?s) \<le> fl_now t"
    "fl_now t \<le> copy_left ?c ?s * (1 + pf_copy_slowdown p) + ms_sticky_ms m"
    "0 \<le> fl_overlap_ms t" "fl_overlap_ms t \<le> fl_now t"
    using t(3,4) fin zero slack start(2-5) sums(2) len(2) by (simp_all add: flow_bounds_def)
  have "copy_left ?c ?s * (1 + pf_copy_slowdown p) \<le> max 0 ?tail * (1 + pf_copy_slowdown p)"
    using start(7) assms(7) by (intro mult_right_mono) auto
  moreover have "?tail - of_nat ?n * done_slack \<le> fl_now t" using start(8) b(2) len(2) by simp
  moreover have "0 < fl_now t"
  proof -
    have "of_nat ?n \<le> rat_of_int (ms_layers m)"
      using g(4) of_int_le_iff [of "int ?n" "ms_layers m", where 'a = rat] by simp
    then have "of_nat ?n * done_slack \<le> of_int (ms_layers m) * done_slack"
      using done_slack_pos by (intro mult_right_mono) simp_all
    then show ?thesis using b(1) assms(6) by linarith
  qed
  ultimately show ?thesis using g t(1) b start(6) len(2) assms(2,5) sticky
    by (intro exI [of _ ?n]) (simp add: replay_handoff_def handoff_result_def Let_def)
qed

section \<open>Witness\<close>

definition demo_measurement :: measurement where
  "demo_measurement = \<lparr>ms_layers = 4, ms_sticky_ms = 100, ms_on_return_ms = 300, ms_agentshift_ms = 150,
     ms_remaining_copy_ms = 60, ms_tool_gap_ms = 20\<rparr>"

definition demo_profile :: handoff_profile where
  "demo_profile = \<lparr>pf_name = ''mild'', pf_copy_slowdown = 1 / 10, pf_compute_slowdown = 1 / 10, pf_tp_straggler = 0\<rparr>"

theorem handoff_replay_bounded_witness:
  "\<exists>n r. replay_handoff demo_measurement demo_profile 2 0 None = Some (Inr r) \<and> n \<le> 4 \<and>
    100 - of_nat n * done_slack \<le> hr_post_tool_ms r \<and> hr_post_tool_ms r \<le> 166"
proof -
  have h: "0 < (2 :: int)" "0 < ms_layers demo_measurement" "0 \<le> ms_remaining_copy_ms demo_measurement"
    "0 \<le> ms_tool_gap_ms demo_measurement" "ms_agentshift_ms demo_measurement \<noteq> 0"
    "of_int (ms_layers demo_measurement) * done_slack < ms_sticky_ms demo_measurement"
    "0 \<le> pf_copy_slowdown demo_profile" "0 \<le> pf_compute_slowdown demo_profile" "0 \<le> pf_tp_straggler demo_profile"
    "0 \<le> (0 :: rat)"
    by (simp_all add: demo_measurement_def demo_profile_def done_slack_def)
  obtain n r where nr: "replay_handoff demo_measurement demo_profile 2 0 None = Some (Inr r)" "int n \<le> 4"
    "100 - of_nat n * done_slack \<le> hr_post_tool_ms r"
    "hr_post_tool_ms r \<le> max 0 (copy_tail demo_measurement demo_profile 0 None n) * (1 + 1 / 10) + 100"
    using handoff_replay_bounded [OF h, of None] by (auto simp: demo_measurement_def demo_profile_def)
  have "copy_tail demo_measurement demo_profile 0 None n = 60"
    by (simp add: copy_tail_def demo_measurement_def demo_profile_def transfer_ms_def progress_at_return_def)
  then show ?thesis using nr by (intro exI [of _ n] exI [of _ r]) simp
qed

end
