(* ===== verification/Placement.thy ===== *)
theory Placement
  imports Descriptor "HOL-Library.Sublist"
begin

text \<open>
  The two placement policies of \<open>agentshift/controller/placement.py\<close>: the simple one
  (least queue with room for the prefix) and the cost-benefit one, whose \<open>select\<close> scores
  every candidate on every destination, ranks the positive scores and admits a bounded set
  of handoffs greedily. Floats are exact rationals.
\<close>

record engine_load =
  el_engine_id :: engine_id
  el_queue_depth :: int
  el_free_kv_tokens :: int
  el_active_requests :: int
  el_kv_pressure :: rat
  el_free_state_snapshots :: int

record mobility_candidate =
  mc_agent_id :: agent_id
  mc_source_engine :: engine_id
  mc_prefix_tokens :: int
  mc_kv_bytes :: int
  mc_remaining_gap_seconds :: seconds
  mc_recompute_seconds :: seconds
  mc_future_service_seconds :: seconds
  mc_unknown_effect :: bool
  mc_state_bytes :: "int option"
  mc_state_descriptor :: "state_descriptor option"

record mobility_score =
  ms_agent_id :: agent_id
  ms_source_engine :: engine_id
  ms_destination_engine :: engine_id
  ms_score :: rat
  ms_estimated_copy_seconds :: seconds
  ms_exposed_seconds :: seconds
  ms_queue_relief_seconds :: seconds
  ms_recompute_saved_seconds :: seconds
  ms_hbm_relief_gib_seconds :: rat
  ms_interference_seconds :: seconds

section \<open>The simple policy\<close>

definition load_key :: "engine_load \<Rightarrow> int \<times> int" where
  "load_key x = (el_queue_depth x, el_active_requests x)"

definition choose_destination :: "engine_id \<Rightarrow> int \<Rightarrow> engine_load list \<Rightarrow> engine_id option" where
  "choose_destination source_engine prefix_tokens loads =
     (case filter (\<lambda>l. el_engine_id l \<noteq> source_engine \<and> prefix_tokens \<le> el_free_kv_tokens l) loads of
        [] \<Rightarrow> None
      | c # cs \<Rightarrow> Some (el_engine_id (min_by load_key c cs)))"

definition should_move :: "engine_load \<Rightarrow> engine_load \<Rightarrow> seconds \<Rightarrow> seconds \<Rightarrow> bool" where
  "should_move source destination migration_seconds tool_gap_seconds =
     (let queue_relief = el_queue_depth source - el_queue_depth destination;
          exposed_seconds = max 0 (migration_seconds - tool_gap_seconds)
      in 0 < queue_relief \<and> exposed_seconds < max (5/100) (1/100 * of_int queue_relief))"

section \<open>The cost-benefit policy\<close>

record cost_benefit_policy =
  cb_bandwidth_bytes_per_second :: rat
  cb_fixed_copy_seconds :: seconds
  cb_acceptable_exposure_seconds :: seconds
  cb_recompute_weight :: rat
  cb_hbm_weight :: rat
  cb_interference_weight :: rat
  cb_exposure_weight :: rat
  cb_max_concurrent_migrations :: int

definition new_cost_benefit_policy :: "cost_benefit_policy \<Rightarrow> exn + cost_benefit_policy" where
  "new_cost_benefit_policy p =
     (if cb_bandwidth_bytes_per_second p \<le> 0 then Inl (ValueError ''migration bandwidth must be positive'')
      else if cb_max_concurrent_migrations p \<le> 0
      then Inl (ValueError ''max concurrent migrations must be positive'')
      else Inr p)"

definition payload_bytes :: "mobility_candidate \<Rightarrow> int" where
  "payload_bytes c = (case mc_state_bytes c of Some b \<Rightarrow> b | None \<Rightarrow> mc_kv_bytes c)"

definition estimate_copy_seconds :: "cost_benefit_policy \<Rightarrow> mobility_candidate \<Rightarrow> seconds" where
  "estimate_copy_seconds p c =
     cb_fixed_copy_seconds p + of_int (payload_bytes c) / cb_bandwidth_bytes_per_second p"

definition required_tokens :: "mobility_candidate \<Rightarrow> int" where
  "required_tokens c = (case mc_state_descriptor c of Some d \<Rightarrow> token_slots d | None \<Rightarrow> mc_prefix_tokens c)"

definition required_snapshots :: "mobility_candidate \<Rightarrow> int" where
  "required_snapshots c = (case mc_state_descriptor c of Some d \<Rightarrow> snapshot_slots d | None \<Rightarrow> 0)"

definition score ::
  "cost_benefit_policy \<Rightarrow> mobility_candidate \<Rightarrow> engine_load \<Rightarrow> (engine_id \<rightharpoonup> engine_load) \<Rightarrow>
   exn + mobility_score option" where
  "score p c dest loads =
     (if mc_unknown_effect c \<or> el_engine_id dest = mc_source_engine c then Inr None
      else if el_free_kv_tokens dest < required_tokens c then Inr None
      else if el_free_state_snapshots dest < required_snapshots c then Inr None
      else case loads (mc_source_engine c) of
          None \<Rightarrow> Inl (KeyError (py_repr (''missing source load: '' @ mc_source_engine c)))
        | Some source \<Rightarrow>
            let copy_seconds = estimate_copy_seconds p c;
                exposed_seconds = max 0 (copy_seconds - mc_remaining_gap_seconds c)
            in if cb_acceptable_exposure_seconds p < exposed_seconds then Inr None
               else
                 let queue_delta = max 0 (el_queue_depth source - el_queue_depth dest);
                     queue_relief_seconds = of_int queue_delta * mc_future_service_seconds c;
                     pressure_delta = max 0 (el_kv_pressure source - el_kv_pressure dest);
                     hbm_relief = of_int (payload_bytes c) / 1024 ^ 3 * mc_remaining_gap_seconds c * pressure_delta
                 in if queue_relief_seconds = 0 \<and> hbm_relief = 0 then Inr None
                    else
                      let interference = copy_seconds *
                            (1 + of_int (el_active_requests source) + of_int (el_active_requests dest));
                          total = queue_relief_seconds + cb_recompute_weight p * mc_recompute_seconds c +
                            cb_hbm_weight p * hbm_relief - cb_interference_weight p * interference -
                            cb_exposure_weight p * exposed_seconds
                      in Inr (Some \<lparr>ms_agent_id = mc_agent_id c, ms_source_engine = mc_source_engine c,
                           ms_destination_engine = el_engine_id dest, ms_score = total,
                           ms_estimated_copy_seconds = copy_seconds, ms_exposed_seconds = exposed_seconds,
                           ms_queue_relief_seconds = queue_relief_seconds,
                           ms_recompute_saved_seconds = mc_recompute_seconds c,
                           ms_hbm_relief_gib_seconds = hbm_relief, ms_interference_seconds = interference\<rparr>))"

definition load_map :: "engine_load list \<Rightarrow> engine_id \<rightharpoonup> engine_load" where
  "load_map loads = map_of (rev (map (\<lambda>l. (el_engine_id l, l)) loads))"

definition candidate_map :: "mobility_candidate list \<Rightarrow> agent_id \<rightharpoonup> mobility_candidate" where
  "candidate_map cs = map_of (rev (map (\<lambda>c. (mc_agent_id c, c)) cs))"

text \<open>The two nested scoring loops, in their order; the first exception ends them.\<close>

fun score_pairs ::
  "cost_benefit_policy \<Rightarrow> engine_id set option \<Rightarrow> (engine_id \<rightharpoonup> engine_load) \<Rightarrow>
   (mobility_candidate \<times> engine_load) list \<Rightarrow> exn + mobility_score list" where
  "score_pairs p allowed lm [] = Inr []"
| "score_pairs p allowed lm ((c, dest) # rest) =
     (if (case allowed of None \<Rightarrow> False | Some ids \<Rightarrow> el_engine_id dest \<notin> ids) then score_pairs p allowed lm rest
      else case score p c dest lm of
          Inl e \<Rightarrow> Inl e
        | Inr r \<Rightarrow> (case score_pairs p allowed lm rest of
            Inl e \<Rightarrow> Inl e
          | Inr rs \<Rightarrow> Inr (case r of None \<Rightarrow> rs | Some r \<Rightarrow> if 0 < ms_score r then r # rs else rs)))"

text \<open>The state of the admission loop.\<close>

record admission =
  ad_selected :: "mobility_score list"
  ad_agents :: "agent_id set"
  ad_engines :: "engine_id set"
  ad_reserved :: "engine_id \<Rightarrow> int"

definition admit_one ::
  "(engine_id \<rightharpoonup> engine_load) \<Rightarrow> (agent_id \<rightharpoonup> mobility_candidate) \<Rightarrow> mobility_score \<Rightarrow> admission \<Rightarrow> admission" where
  "admit_one lm cm r a =
     (if ms_agent_id r \<in> ad_agents a then a
      else if ms_source_engine r \<in> ad_engines a \<or> ms_destination_engine r \<in> ad_engines a then a
      else let c = the (cm (ms_agent_id r)); dest = the (lm (ms_destination_engine r)) in
        if el_free_kv_tokens dest < ad_reserved a (ms_destination_engine r) + required_tokens c then a
        else a\<lparr>ad_selected := ad_selected a @ [r],
               ad_agents := insert (ms_agent_id r) (ad_agents a),
               ad_engines := insert (ms_destination_engine r) (insert (ms_source_engine r) (ad_engines a)),
               ad_reserved := (ad_reserved a)(ms_destination_engine r :=
                 ad_reserved a (ms_destination_engine r) + required_tokens c)\<rparr>)"

fun admit_ranked ::
  "int \<Rightarrow> (engine_id \<rightharpoonup> engine_load) \<Rightarrow> (agent_id \<rightharpoonup> mobility_candidate) \<Rightarrow> mobility_score list \<Rightarrow> admission \<Rightarrow> admission" where
  "admit_ranked limit lm cm [] a = a"
| "admit_ranked limit lm cm (r # rs) a =
     (if limit \<le> int (length (ad_selected a)) then a else admit_ranked limit lm cm rs (admit_one lm cm r a))"

definition select ::
  "cost_benefit_policy \<Rightarrow> mobility_candidate list \<Rightarrow> engine_load list \<Rightarrow> engine_id set option \<Rightarrow>
   exn + mobility_score list" where
  "select p cs loads allowed =
     (let lm = load_map loads in
      case score_pairs p allowed lm (List.product cs loads) of
        Inl e \<Rightarrow> Inl e
      | Inr scored \<Rightarrow> Inr (ad_selected (admit_ranked (cb_max_concurrent_migrations p) lm (candidate_map cs)
          (sort_key (\<lambda>r. - ms_score r) scored)
          \<lparr>ad_selected = [], ad_agents = {}, ad_engines = {}, ad_reserved = (\<lambda>_. 0)\<rparr>)))"

section \<open>Facts of the simple policy\<close>

text \<open>
  The simple policy picks an engine other than the source with room for the prefix, of
  least queue depth and then least active requests among those, and none exactly when no
  other engine has room.
\<close>

theorem choose_destination_least_loaded:
  "case choose_destination src n loads of
     None \<Rightarrow> \<forall>l \<in> set loads. el_engine_id l = src \<or> el_free_kv_tokens l < n
   | Some e \<Rightarrow> \<exists>l \<in> set loads. el_engine_id l = e \<and> e \<noteq> src \<and> n \<le> el_free_kv_tokens l \<and>
       (\<forall>k \<in> set loads. el_engine_id k = src \<or> el_free_kv_tokens k < n \<or>
          load_key l \<le> load_key k)"
proof (cases "filter (\<lambda>l. el_engine_id l \<noteq> src \<and> n \<le> el_free_kv_tokens l) loads")
  case Nil
  then show ?thesis by (fastforce simp: choose_destination_def filter_empty_conv not_le)
next
  case (Cons c cs)
  let ?l = "min_by load_key c cs"
  have mem: "x \<in> set (c # cs) \<longleftrightarrow> x \<in> set loads \<and> el_engine_id x \<noteq> src \<and> n \<le> el_free_kv_tokens x" for x
    using arg_cong [OF Cons, of set] by auto
  have "?l \<in> set (c # cs)" by (rule min_by_mem)
  then have l: "?l \<in> set loads" "el_engine_id ?l \<noteq> src" "n \<le> el_free_kv_tokens ?l" using mem by blast+
  have least: "load_key ?l \<le> load_key k" if "k \<in> set loads" "el_engine_id k \<noteq> src" "n \<le> el_free_kv_tokens k" for k
  proof -
    have "k \<in> set (c # cs)" using that mem by blast
    then show ?thesis by (rule min_by_least)
  qed
  have all: "\<forall>k \<in> set loads. el_engine_id k = src \<or> el_free_kv_tokens k < n \<or> load_key ?l \<le> load_key k"
  proof
    fix k assume k: "k \<in> set loads"
    show "el_engine_id k = src \<or> el_free_kv_tokens k < n \<or> load_key ?l \<le> load_key k"
      using least [OF k] by (metis linorder_not_less)
  qed
  moreover have "choose_destination src n loads = Some (el_engine_id ?l)"
    using Cons by (simp add: choose_destination_def)
  ultimately show ?thesis using l by (simp only: option.case) blast
qed

section \<open>Facts of the cost-benefit policy\<close>

lemma score_ok:
  assumes "score p c dest lm = Inr (Some r)"
  shows "ms_agent_id r = mc_agent_id c" and "ms_source_engine r = mc_source_engine c"
    and "ms_destination_engine r = el_engine_id dest" and "el_engine_id dest \<noteq> mc_source_engine c"
    and "\<not> mc_unknown_effect c" and "required_tokens c \<le> el_free_kv_tokens dest"
    and "required_snapshots c \<le> el_free_state_snapshots dest"
    and "ms_exposed_seconds r \<le> cb_acceptable_exposure_seconds p"
  using assms by (auto simp: score_def Let_def split: if_splits option.splits)

definition scored_by ::
  "cost_benefit_policy \<Rightarrow> engine_id set option \<Rightarrow> (engine_id \<rightharpoonup> engine_load) \<Rightarrow> mobility_candidate list \<Rightarrow>
   engine_load list \<Rightarrow> mobility_score \<Rightarrow> bool" where
  "scored_by p allowed lm cs loads r \<longleftrightarrow> (\<exists>c \<in> set cs. \<exists>dest \<in> set loads.
     score p c dest lm = Inr (Some r) \<and> 0 < ms_score r \<and>
     (case allowed of None \<Rightarrow> True | Some ids \<Rightarrow> el_engine_id dest \<in> ids))"

lemma score_pairs_sound:
  assumes "score_pairs p allowed lm pairs = Inr rs" and "r \<in> set rs"
  shows "\<exists>(c, dest) \<in> set pairs. score p c dest lm = Inr (Some r) \<and> 0 < ms_score r \<and>
     (case allowed of None \<Rightarrow> True | Some ids \<Rightarrow> el_engine_id dest \<in> ids)"
  using assms
proof (induction pairs arbitrary: rs)
  case (Cons pair rest)
  obtain c dest where pair: "pair = (c, dest)" by (cases pair)
  show ?case
  proof (cases "case allowed of None \<Rightarrow> False | Some ids \<Rightarrow> el_engine_id dest \<notin> ids")
    case True
    with Cons pair show ?thesis by auto
  next
    case False
    then obtain x rs' where x: "score p c dest lm = Inr x" and rs': "score_pairs p allowed lm rest = Inr rs'"
      and rs: "rs = (case x of None \<Rightarrow> rs' | Some q \<Rightarrow> if 0 < ms_score q then q # rs' else rs')"
      using Cons.prems(1) pair by (auto split: sum.splits)
    show ?thesis
    proof (cases "r \<in> set rs'")
      case True
      with Cons.IH [OF rs' True] show ?thesis by auto
    next
      case False
      then have "x = Some r" "0 < ms_score r" using Cons.prems(2) rs by (auto split: option.splits if_splits)
      then show ?thesis using x pair \<open>\<not> (case allowed of None \<Rightarrow> False | Some ids \<Rightarrow> el_engine_id dest \<notin> ids)\<close>
        by (auto split: option.splits)
    qed
  qed
qed simp

text \<open>What the admission loop keeps: distinct agents, engines used once, best scores first.\<close>

definition engines_of :: "mobility_score list \<Rightarrow> engine_id list" where
  "engines_of rs = concat (map (\<lambda>r. [ms_source_engine r, ms_destination_engine r]) rs)"

lemma engines_of_simps [simp]:
  "engines_of [] = []" "engines_of (rs @ [r]) = engines_of rs @ [ms_source_engine r, ms_destination_engine r]"
  by (simp_all add: engines_of_def)

definition admission_ok :: "(engine_id \<rightharpoonup> engine_load) \<Rightarrow> (agent_id \<rightharpoonup> mobility_candidate) \<Rightarrow> admission \<Rightarrow> bool" where
  "admission_ok lm cm a \<longleftrightarrow>
     distinct (map ms_agent_id (ad_selected a)) \<and> ad_agents a = set (map ms_agent_id (ad_selected a)) \<and>
     distinct (engines_of (ad_selected a)) \<and> ad_engines a = set (engines_of (ad_selected a)) \<and>
     (\<forall>e. e \<notin> ad_engines a \<longrightarrow> ad_reserved a e = 0) \<and>
     (\<forall>r \<in> set (ad_selected a).
        required_tokens (the (cm (ms_agent_id r))) \<le> el_free_kv_tokens (the (lm (ms_destination_engine r))))"

lemma admit_one_ok:
  assumes "admission_ok lm cm a" and "ms_destination_engine r \<noteq> ms_source_engine r"
  shows "admission_ok lm cm (admit_one lm cm r a)"
  using assms by (auto simp: admission_ok_def admit_one_def Let_def)

lemma admit_one_selected:
  "ad_selected (admit_one lm cm r a) = ad_selected a \<or> ad_selected (admit_one lm cm r a) = ad_selected a @ [r]"
  by (simp add: admit_one_def Let_def)

lemma admit_ranked_ok:
  assumes "admission_ok lm cm a" and "\<forall>r \<in> set rs. ms_destination_engine r \<noteq> ms_source_engine r"
    and "int (length (ad_selected a)) \<le> limit"
  shows "admission_ok lm cm (admit_ranked limit lm cm rs a) \<and>
    int (length (ad_selected (admit_ranked limit lm cm rs a))) \<le> limit \<and>
    (\<exists>more. ad_selected (admit_ranked limit lm cm rs a) = ad_selected a @ more \<and> subseq more rs)"
  using assms
proof (induction limit lm cm rs a rule: admit_ranked.induct)
  case (2 limit lm cm r rs a)
  show ?case
  proof (cases "limit \<le> int (length (ad_selected a))")
    case True
    then show ?thesis using 2 by simp
  next
    case False
    have ok: "admission_ok lm cm (admit_one lm cm r a)" using 2(2,3) by (simp add: admit_one_ok)
    have len: "int (length (ad_selected (admit_one lm cm r a))) \<le> limit"
      using admit_one_selected [of lm cm r a] False by auto
    note IH = 2(1) [OF False ok _ len]
    from 2(3) obtain more where more: "ad_selected (admit_ranked limit lm cm rs (admit_one lm cm r a)) =
        ad_selected (admit_one lm cm r a) @ more" "subseq more rs"
      using IH by auto
    have "\<exists>all. ad_selected (admit_ranked limit lm cm rs (admit_one lm cm r a)) = ad_selected a @ all \<and> subseq all (r # rs)"
      using admit_one_selected [of lm cm r a] more by (auto intro: list_emb_Cons)
    then show ?thesis using IH 2(3) False by simp
  qed
qed simp

lemma subseq_set: "subseq xs ys \<Longrightarrow> set xs \<subseteq> set ys"
  by (induction rule: list_emb.induct) auto

lemma subseq_sorted: "subseq xs ys \<Longrightarrow> sorted (map f ys) \<Longrightarrow> sorted (map f xs)"
  by (induction rule: list_emb.induct) (auto dest: subseq_set)

text \<open>
  The handoffs the cost-benefit policy starts together: at most the configured number,
  best score first, each a positive score of one of the candidates on one of the allowed
  engines, exposed no longer than acceptable; no agent twice, no engine in two handoffs (as
  source or destination), and the destination has the tokens the agent needs.
\<close>

theorem selected_handoffs_are_compatible:
  assumes "select p cs loads allowed = Inr rs" and "0 < cb_max_concurrent_migrations p"
  shows "int (length rs) \<le> cb_max_concurrent_migrations p \<and>
    sorted (map (\<lambda>r. - ms_score r) rs) \<and>
    (\<forall>r \<in> set rs. scored_by p allowed (load_map loads) cs loads r \<and>
       ms_exposed_seconds r \<le> cb_acceptable_exposure_seconds p \<and>
       required_tokens (the (candidate_map cs (ms_agent_id r))) \<le>
         el_free_kv_tokens (the (load_map loads (ms_destination_engine r)))) \<and>
    distinct (map ms_agent_id rs) \<and> distinct (engines_of rs)"
proof -
  let ?lm = "load_map loads" and ?cm = "candidate_map cs"
  let ?init = "\<lparr>ad_selected = [], ad_agents = {}, ad_engines = {}, ad_reserved = (\<lambda>_. 0)\<rparr>"
  obtain scored where sc: "score_pairs p allowed ?lm (List.product cs loads) = Inr scored"
    and rs: "rs = ad_selected (admit_ranked (cb_max_concurrent_migrations p) ?lm ?cm (sort_key (\<lambda>r. - ms_score r) scored) ?init)"
    using assms(1) by (auto simp: select_def Let_def split: sum.splits)
  have by_score: "scored_by p allowed ?lm cs loads r" if "r \<in> set scored" for r
    using score_pairs_sound [OF sc that] by (force simp: scored_by_def)
  have other: "ms_destination_engine r \<noteq> ms_source_engine r" if "scored_by p allowed ?lm cs loads r" for r
    using that score_ok(2,3,4) by (fastforce simp: scored_by_def)
  have exposed: "ms_exposed_seconds r \<le> cb_acceptable_exposure_seconds p" if "scored_by p allowed ?lm cs loads r" for r
    using that score_ok(8) by (auto simp: scored_by_def)
  have init: "admission_ok ?lm ?cm ?init" by (simp add: admission_ok_def)
  have dests: "\<forall>r \<in> set (sort_key (\<lambda>r. - ms_score r) scored). ms_destination_engine r \<noteq> ms_source_engine r"
    using by_score other by simp
  note ok = admit_ranked_ok [OF init dests, of "cb_max_concurrent_migrations p"]
  have sub: "subseq rs (sort_key (\<lambda>r. - ms_score r) scored)" using ok assms(2) rs by simp
  have "set rs \<subseteq> set scored" using subseq_set [OF sub] by simp
  moreover have "sorted (map (\<lambda>r. - ms_score r) rs)"
    by (rule subseq_sorted [OF sub sorted_sort_key])
  ultimately show ?thesis using ok assms(2) rs by_score exposed by (auto simp: admission_ok_def)
qed

definition demo_cb_policy :: cost_benefit_policy where
  "demo_cb_policy = \<lparr>cb_bandwidth_bytes_per_second = 1000, cb_fixed_copy_seconds = 0, cb_acceptable_exposure_seconds = 1,
     cb_recompute_weight = 1, cb_hbm_weight = 0, cb_interference_weight = 1, cb_exposure_weight = 2,
     cb_max_concurrent_migrations = 1\<rparr>"

definition demo_load :: "engine_id \<Rightarrow> int \<Rightarrow> engine_load" where
  "demo_load e q = \<lparr>el_engine_id = e, el_queue_depth = q, el_free_kv_tokens = 100, el_active_requests = 0,
     el_kv_pressure = 0, el_free_state_snapshots = 0\<rparr>"

definition demo_handoff :: "agent_id \<Rightarrow> mobility_candidate" where
  "demo_handoff a = \<lparr>mc_agent_id = a, mc_source_engine = ''e0'', mc_prefix_tokens = 50, mc_kv_bytes = 1000,
     mc_remaining_gap_seconds = 2, mc_recompute_seconds = 1, mc_future_service_seconds = 3,
     mc_unknown_effect = False, mc_state_bytes = None, mc_state_descriptor = None\<rparr>"

theorem selected_handoffs_are_compatible_witness:
  "\<exists>rs. select demo_cb_policy [demo_handoff ''a'', demo_handoff ''b''] [demo_load ''e0'' 2, demo_load ''e1'' 0] None = Inr rs \<and>
     length rs = 1 \<and> int (length rs) \<le> 1 \<and> distinct (engines_of rs)"
proof -
  let ?run = "select demo_cb_policy [demo_handoff ''a'', demo_handoff ''b''] [demo_load ''e0'' 2, demo_load ''e1'' 0] None"
  obtain rs where rs: "?run = Inr rs" "length rs = 1"
    by (simp add: select_def demo_cb_policy_def demo_handoff_def demo_load_def load_map_def candidate_map_def score_def
        payload_bytes_def estimate_copy_seconds_def required_tokens_def required_snapshots_def admit_one_def Let_def)
  have "0 < cb_max_concurrent_migrations demo_cb_policy" by (simp add: demo_cb_policy_def)
  from selected_handoffs_are_compatible [OF rs(1) this] rs show ?thesis by (simp add: demo_cb_policy_def)
qed

end
