(* ===== verification/Autoscaling.thy ===== *)
theory Autoscaling
  imports Prelude
begin

text \<open>
  \<open>WarmPoolAutoscaler\<close> of \<open>agentshift/controller/autoscaling.py\<close>: a hysteretic autoscaler
  over a fixed pool of model-ready engines. The state is the constructor's parameters, the
  life cycle of each engine, the two streaks and the time of the last action (\<open>-inf\<close>, as
  \<open>None\<close>, before the first). The lemmas show that every run keeps enough engines active,
  drains at most one at a time and never takes an engine that still has owners or requests.
\<close>

datatype engine_lifecycle = STANDBY | ACTIVE | DRAINING

record engine_observation =
  eo_engine_id :: engine_id
  eo_running_requests :: int
  eo_waiting_requests :: int
  eo_owner_count :: int
  eo_used_tokens :: int
  eo_max_tokens :: int

definition request_count :: "engine_observation \<Rightarrow> int" where
  "request_count o' = eo_running_requests o' + eo_waiting_requests o'"

record scaling_action =
  sa_action :: string
  sa_engine_id :: engine_id
  sa_reason :: string

record autoscaler =
  as_engine_ids :: "engine_id list"
  as_min_active :: int
  as_scale_out_waiting :: int
  as_scale_out_requests_per_engine :: rat
  as_scale_in_requests_per_engine :: rat
  as_scale_out_windows :: int
  as_scale_in_windows :: int
  as_cooldown_seconds :: seconds
  as_states :: "engine_id \<Rightarrow> engine_lifecycle"
  as_scale_out_streak :: int
  as_scale_in_streak :: int
  as_last_action_seconds :: "seconds option"

text \<open>
  The dictionary of the constructor: later positions of a repeated id win, as in the
  comprehension. Only ids of the pool are ever looked up.
\<close>

definition initial_states :: "engine_id list \<Rightarrow> int \<Rightarrow> engine_id \<Rightarrow> engine_lifecycle" where
  "initial_states ids min_active =
     (\<lambda>e. case map_of (rev (map (\<lambda>(i, e). (e, if i < min_active then ACTIVE else STANDBY))
                     (zip (map int [0..<length ids]) ids))) e of
        None \<Rightarrow> STANDBY | Some st \<Rightarrow> st)"

definition new_autoscaler ::
  "engine_id list \<Rightarrow> int \<Rightarrow> int \<Rightarrow> rat \<Rightarrow> rat \<Rightarrow> int \<Rightarrow> int \<Rightarrow> seconds \<Rightarrow> exn + autoscaler" where
  "new_autoscaler ids min_active out_waiting out_per_engine in_per_engine out_windows in_windows cooldown =
     (if ids = [] then Inl (ValueError ''at least one engine is required'')
      else if \<not> (1 \<le> min_active \<and> min_active \<le> int (length ids))
      then Inl (ValueError ''min_active must be within the engine pool'')
      else if out_windows \<le> 0 \<or> in_windows \<le> 0 then Inl (ValueError ''window counts must be positive'')
      else Inr \<lparr>as_engine_ids = ids, as_min_active = min_active, as_scale_out_waiting = out_waiting,
        as_scale_out_requests_per_engine = out_per_engine, as_scale_in_requests_per_engine = in_per_engine,
        as_scale_out_windows = out_windows, as_scale_in_windows = in_windows, as_cooldown_seconds = cooldown,
        as_states = initial_states ids min_active, as_scale_out_streak = 0, as_scale_in_streak = 0,
        as_last_action_seconds = None\<rparr>)"

definition engines_in :: "engine_lifecycle \<Rightarrow> autoscaler \<Rightarrow> engine_id list" where
  "engines_in st a = filter (\<lambda>e. as_states a e = st) (as_engine_ids a)"

definition active_engines :: "autoscaler \<Rightarrow> engine_id list" where
  "active_engines a = engines_in ACTIVE a"

definition draining_engines :: "autoscaler \<Rightarrow> engine_id list" where
  "draining_engines a = engines_in DRAINING a"

text \<open>\<open>f"{q:.2f}"\<close> of a nonnegative number: two decimals, ties to even.\<close>

definition fixed2 :: "rat \<Rightarrow> string" where
  "fixed2 q =
     (let x = q * 100; f = \<lfloor>x\<rfloor>; d = x - of_int f;
          n = (if d < 1/2 then f else if 1/2 < d then f + 1 else if f mod 2 = 0 then f else f + 1)
      in str_int (n div 100) @ ''.'' @ str_int (n mod 100 div 10) @ str_int (n mod 10))"

definition empty_engine :: "(engine_id \<rightharpoonup> engine_observation) \<Rightarrow> engine_id \<Rightarrow> bool" where
  "empty_engine obs e \<longleftrightarrow> eo_owner_count (the (obs e)) = 0 \<and> request_count (the (obs e)) = 0"

text \<open>The first loop: draining engines that are empty go back to standby.\<close>

fun finish_drains ::
  "(engine_id \<rightharpoonup> engine_observation) \<Rightarrow> engine_id list \<Rightarrow> autoscaler \<times> scaling_action list \<Rightarrow>
   autoscaler \<times> scaling_action list" where
  "finish_drains obs [] r = r"
| "finish_drains obs (e # es) (a, acts) =
     (if empty_engine obs e
      then finish_drains obs es (a\<lparr>as_states := (as_states a)(e := STANDBY)\<rparr>,
             acts @ [\<lparr>sa_action = ''SCALE_IN_COMPLETE'', sa_engine_id = e, sa_reason = ''drain empty''\<rparr>])
      else finish_drains obs es (a, acts))"

definition total_waiting :: "(engine_id \<rightharpoonup> engine_observation) \<Rightarrow> engine_id list \<Rightarrow> int" where
  "total_waiting obs es = sum_list (map (\<lambda>e. eo_waiting_requests (the (obs e))) es)"

definition requests_per_engine :: "(engine_id \<rightharpoonup> engine_observation) \<Rightarrow> engine_id list \<Rightarrow> rat" where
  "requests_per_engine obs es =
     of_int (sum_list (map (\<lambda>e. request_count (the (obs e))) es)) / of_int (max 1 (int (length es)))"

definition wants_scale_out :: "autoscaler \<Rightarrow> (engine_id \<rightharpoonup> engine_observation) \<Rightarrow> engine_id list \<Rightarrow> bool" where
  "wants_scale_out a obs es \<longleftrightarrow> as_scale_out_waiting a \<le> total_waiting obs es \<or>
     as_scale_out_requests_per_engine a \<le> requests_per_engine obs es"

definition wants_scale_in :: "autoscaler \<Rightarrow> (engine_id \<rightharpoonup> engine_observation) \<Rightarrow> engine_id list \<Rightarrow> bool" where
  "wants_scale_in a obs es \<longleftrightarrow> total_waiting obs es = 0 \<and>
     requests_per_engine obs es \<le> as_scale_in_requests_per_engine a"

definition cooldown_ready :: "autoscaler \<Rightarrow> seconds \<Rightarrow> bool" where
  "cooldown_ready a now \<longleftrightarrow>
     (case as_last_action_seconds a of None \<Rightarrow> True | Some t \<Rightarrow> as_cooldown_seconds a \<le> now - t)"

definition index_of :: "engine_id list \<Rightarrow> engine_id \<Rightarrow> int" where
  "index_of ids e = int (length (takeWhile (\<lambda>x. x \<noteq> e) ids))"

definition drain_key :: "autoscaler \<Rightarrow> (engine_id \<rightharpoonup> engine_observation) \<Rightarrow> engine_id \<Rightarrow> int \<times> int \<times> int" where
  "drain_key a obs e = (eo_owner_count (the (obs e)), request_count (the (obs e)), - index_of (as_engine_ids a) e)"

definition act :: "autoscaler \<Rightarrow> engine_id \<Rightarrow> engine_lifecycle \<Rightarrow> seconds \<Rightarrow> autoscaler" where
  "act a e st now = a\<lparr>as_states := (as_states a)(e := st), as_last_action_seconds := Some now,
     as_scale_out_streak := 0, as_scale_in_streak := 0\<rparr>"

definition observation_map :: "engine_observation list \<Rightarrow> engine_id \<rightharpoonup> engine_observation" where
  "observation_map observations = map_of (rev (map (\<lambda>ob. (eo_engine_id ob, ob)) observations))"

text \<open>The two streaks: one more window, or none.\<close>

definition counted :: "(engine_id \<rightharpoonup> engine_observation) \<Rightarrow> autoscaler \<Rightarrow> autoscaler" where
  "counted obs a = a\<lparr>
     as_scale_out_streak := (if wants_scale_out a obs (active_engines a) then as_scale_out_streak a + 1 else 0),
     as_scale_in_streak := (if wants_scale_in a obs (active_engines a) then as_scale_in_streak a + 1 else 0)\<rparr>"

definition scale_out_action :: "(engine_id \<rightharpoonup> engine_observation) \<Rightarrow> engine_id list \<Rightarrow> engine_id \<Rightarrow> scaling_action" where
  "scale_out_action obs active e = \<lparr>sa_action = ''SCALE_OUT'', sa_engine_id = e,
     sa_reason = ''waiting='' @ str_int (total_waiting obs active) @ '', requests_per_engine='' @
       fixed2 (requests_per_engine obs active)\<rparr>"

definition scale_in_action :: "(engine_id \<rightharpoonup> engine_observation) \<Rightarrow> engine_id list \<Rightarrow> engine_id \<Rightarrow> scaling_action" where
  "scale_in_action obs active e = \<lparr>sa_action = ''SCALE_IN_START'', sa_engine_id = e,
     sa_reason = ''requests_per_engine='' @ fixed2 (requests_per_engine obs active)\<rparr>"

text \<open>The streaks, then scale out, then scale in, on the state after the finished drains.\<close>

definition scale ::
  "seconds \<Rightarrow> (engine_id \<rightharpoonup> engine_observation) \<Rightarrow> autoscaler \<times> scaling_action list \<Rightarrow>
   autoscaler \<times> scaling_action list" where
  "scale now obs r =
     (case r of (a0, acts) \<Rightarrow>
        let active = active_engines a0;
            a = counted obs a0;
            ready = cooldown_ready a now;
            standby = engines_in STANDBY a
        in if ready \<and> standby \<noteq> [] \<and> as_scale_out_windows a \<le> as_scale_out_streak a then
             (act a (hd standby) ACTIVE now, acts @ [scale_out_action obs active (hd standby)])
           else if ready \<and> (as_min_active a < int (length active) \<and> draining_engines a = []) \<and>
                   as_scale_in_windows a \<le> as_scale_in_streak a then
             let e = min_by (drain_key a obs) (hd active) (tl active) in
             (act a e DRAINING now, acts @ [scale_in_action obs active e])
           else (a, acts))"

text \<open>\<open>tick\<close>; \<open>show_list\<close> is Python's \<open>str\<close> of the sorted list of missing ids.\<close>

definition tick ::
  "(engine_id list \<Rightarrow> string) \<Rightarrow> seconds \<Rightarrow> engine_observation list \<Rightarrow> (autoscaler, scaling_action list) prog" where
  "tick show_list now observations a =
     (let obs = observation_map observations;
          missing = filter (\<lambda>e. obs e = None) (remdups (as_engine_ids a))
      in if missing \<noteq> [] then
           (Inl (KeyError (py_repr (''missing engine observations: '' @ show_list (sort missing)))), a)
         else case scale now obs (finish_drains obs (draining_engines a) (a, [])) of
             (a', acts) \<Rightarrow> (Inr acts, a'))"

section \<open>One tick\<close>

lemma tick_cases:
  assumes "tick sl now observations a = (r, a')"
  obtains (missing) e where "r = Inl e" and "a' = a"
  | (ran) acts where "r = Inr acts" and "\<forall>e \<in> set (as_engine_ids a). observation_map observations e \<noteq> None"
    and "scale now (observation_map observations)
           (finish_drains (observation_map observations) (draining_engines a) (a, [])) = (a', acts)"
proof (cases "filter (\<lambda>e. observation_map observations e = None) (remdups (as_engine_ids a)) = []")
  case True
  then have "\<forall>e \<in> set (as_engine_ids a). observation_map observations e \<noteq> None"
    by (auto simp: filter_empty_conv)
  with True that(2) assms show ?thesis by (auto simp: tick_def Let_def split: prod.splits)
next
  case False
  with that(1) assms show ?thesis by (auto simp: tick_def Let_def)
qed

text \<open>Only the states of the pool and the actions change in the first loop.\<close>

definition same_settings :: "autoscaler \<Rightarrow> autoscaler \<Rightarrow> bool" where
  "same_settings a b \<longleftrightarrow> as_engine_ids b = as_engine_ids a \<and> as_min_active b = as_min_active a \<and>
     as_scale_out_waiting b = as_scale_out_waiting a \<and>
     as_scale_out_requests_per_engine b = as_scale_out_requests_per_engine a \<and>
     as_scale_in_requests_per_engine b = as_scale_in_requests_per_engine a \<and>
     as_scale_out_windows b = as_scale_out_windows a \<and> as_scale_in_windows b = as_scale_in_windows a \<and>
     as_cooldown_seconds b = as_cooldown_seconds a"

lemma finish_drains_spec:
  assumes "finish_drains obs es (a, acts) = (b, acts')"
  shows "same_settings a b \<and> as_scale_out_streak b = as_scale_out_streak a \<and>
    as_scale_in_streak b = as_scale_in_streak a \<and> as_last_action_seconds b = as_last_action_seconds a \<and>
    (\<forall>e. as_states b e = (if e \<in> set es \<and> empty_engine obs e then STANDBY else as_states a e)) \<and>
    (\<exists>more. acts' = acts @ more \<and> (\<forall>x \<in> set more. sa_action x = ''SCALE_IN_COMPLETE''))"
  using assms
proof (induction obs es "(a, acts)" arbitrary: a acts rule: finish_drains.induct)
  case (2 obs e es a acts)
  show ?case
  proof (cases "empty_engine obs e")
    case True
    have "finish_drains obs es (a\<lparr>as_states := (as_states a)(e := STANDBY)\<rparr>,
        acts @ [\<lparr>sa_action = ''SCALE_IN_COMPLETE'', sa_engine_id = e, sa_reason = ''drain empty''\<rparr>]) = (b, acts')"
      using 2(3) True by simp
    from 2(1) [OF True this] True show ?thesis by (auto simp: same_settings_def)
  next
    case False
    then have "finish_drains obs es (a, acts) = (b, acts')" using 2(3) by simp
    from 2(2) [OF False this] False show ?thesis by auto
  qed
qed (simp add: same_settings_def)

lemma counted_fields [simp]:
  "as_engine_ids (counted obs a) = as_engine_ids a" "as_states (counted obs a) = as_states a"
  "as_min_active (counted obs a) = as_min_active a" "as_last_action_seconds (counted obs a) = as_last_action_seconds a"
  "as_cooldown_seconds (counted obs a) = as_cooldown_seconds a"
  "as_scale_out_windows (counted obs a) = as_scale_out_windows a" "as_scale_in_windows (counted obs a) = as_scale_in_windows a"
  "engines_in st (counted obs a) = engines_in st a" "cooldown_ready (counted obs a) now = cooldown_ready a now"
  by (simp_all add: counted_def engines_in_def cooldown_ready_def cong: option.case_cong)

lemma counted_engines [simp]:
  "draining_engines (counted obs a) = draining_engines a" "active_engines (counted obs a) = active_engines a"
  by (simp_all add: draining_engines_def active_engines_def)

lemma action_names [simp]:
  "sa_action (scale_out_action obs active e) = ''SCALE_OUT''" "sa_action (scale_in_action obs active e) = ''SCALE_IN_START''"
  by (simp_all add: scale_out_action_def scale_in_action_def)

text \<open>The three ways the second part can end.\<close>

lemma scale_cases:
  assumes "scale now obs (a, acts) = (b, acts')" and "1 \<le> as_min_active a"
  obtains (out) e rest where "cooldown_ready a now" and "engines_in STANDBY a = e # rest"
    and "as_scale_out_windows a \<le> as_scale_out_streak (counted obs a)" and "b = act (counted obs a) e ACTIVE now"
    and "acts' = acts @ [scale_out_action obs (active_engines a) e]"
  | (drain) e where "cooldown_ready a now" and "e \<in> set (active_engines a)"
    and "as_min_active a < int (length (active_engines a))" and "draining_engines a = []"
    and "as_scale_in_windows a \<le> as_scale_in_streak (counted obs a)" and "b = act (counted obs a) e DRAINING now"
    and "acts' = acts @ [scale_in_action obs (active_engines a) e]"
    and "\<not> (engines_in STANDBY a \<noteq> [] \<and> as_scale_out_windows a \<le> as_scale_out_streak (counted obs a))"
  | (idle) "b = counted obs a" and "acts' = acts"
    and "\<not> (cooldown_ready a now \<and> engines_in STANDBY a \<noteq> [] \<and>
       as_scale_out_windows a \<le> as_scale_out_streak (counted obs a))"
proof -
  let ?c = "counted obs a"
  let ?out = "cooldown_ready a now \<and> engines_in STANDBY a \<noteq> [] \<and> as_scale_out_windows a \<le> as_scale_out_streak ?c"
  let ?in = "cooldown_ready a now \<and> (as_min_active a < int (length (active_engines a)) \<and> draining_engines a = []) \<and>
     as_scale_in_windows a \<le> as_scale_in_streak ?c"
  let ?e = "min_by (drain_key ?c obs) (hd (active_engines a)) (tl (active_engines a))"
  have run: "scale now obs (a, acts) =
     (if ?out then (act ?c (hd (engines_in STANDBY a)) ACTIVE now,
        acts @ [scale_out_action obs (active_engines a) (hd (engines_in STANDBY a))])
      else if ?in then (act ?c ?e DRAINING now, acts @ [scale_in_action obs (active_engines a) ?e])
      else (?c, acts))"
    by (simp add: scale_def Let_def)
  consider "?out" | "\<not> ?out" "?in" | "\<not> ?out" "\<not> ?in" by blast
  then show ?thesis
  proof cases
    case 1
    then obtain e rest where "engines_in STANDBY a = e # rest" by (cases "engines_in STANDBY a") auto
    with 1 run assms(1) out show ?thesis by auto
  next
    case 2
    then have "active_engines a \<noteq> []" using assms(2) by (cases "active_engines a") auto
    then have "?e \<in> set (active_engines a)"
      using min_by_mem [of "drain_key ?c obs" "hd (active_engines a)" "tl (active_engines a)"] by simp
    with 2 run assms(1) show ?thesis by (intro drain) auto
  next
    case 3
    with 3 run assms(1) idle show ?thesis by auto
  qed
qed

section \<open>What every tick keeps\<close>

definition auto_ok :: "autoscaler \<Rightarrow> bool" where
  "auto_ok a \<longleftrightarrow> distinct (as_engine_ids a) \<and> 1 \<le> as_min_active a \<and>
     as_min_active a \<le> int (length (active_engines a)) \<and> length (draining_engines a) \<le> 1 \<and>
     0 < as_scale_out_windows a \<and> 0 < as_scale_in_windows a"

lemma engines_after_act:
  assumes "distinct (as_engine_ids a)" and "e \<in> set (as_engine_ids a)" and "as_states a e = st"
  shows "length (engines_in st' (act a e new now)) =
    length (engines_in st' a) + (if st' = new then 1 else 0) - (if st' = st then 1 else 0)"
proof -
  let ?ids = "as_engine_ids a"
  have "{x \<in> set ?ids. ((as_states a)(e := new)) x = st'} =
      (if st' = new then insert e {x \<in> set ?ids. as_states a x = st'} else {x \<in> set ?ids. as_states a x = st'} - {e})"
    using assms(2) by auto
  moreover have "length (filter P ?ids) = card {x \<in> set ?ids. P x}" for P
    using assms(1) by (metis distinct_card distinct_filter set_filter)
  ultimately show ?thesis
    using assms(2,3) by (auto simp: engines_in_def act_def card_insert_if card_Diff_singleton_if)
qed

lemma finish_drains_ok:
  assumes "auto_ok a" and "finish_drains obs (draining_engines a) (a, []) = (b, acts)"
  shows "auto_ok b" and "active_engines b = active_engines a"
proof -
  note spec = finish_drains_spec [OF assms(2)]
  have act: "active_engines b = active_engines a"
    using spec by (auto simp: active_engines_def engines_in_def same_settings_def draining_engines_def intro!: filter_cong)
  have "length (draining_engines b) \<le> length (draining_engines a)"
  proof -
    have "draining_engines b = filter (\<lambda>e. \<not> empty_engine obs e) (draining_engines a)"
      using spec by (auto simp: draining_engines_def engines_in_def same_settings_def intro!: filter_cong)
    then show ?thesis by simp
  qed
  then show "auto_ok b" using assms(1) spec act by (auto simp: auto_ok_def same_settings_def)
  show "active_engines b = active_engines a" by (rule act)
qed

lemma scale_ok:
  assumes ok: "auto_ok a" and run: "scale now obs (a, acts) = (b, acts')"
  shows "auto_ok b"
proof -
  have pos: "1 \<le> as_min_active a" and dist: "distinct (as_engine_ids a)" using ok by (simp_all add: auto_ok_def)
  have c: "auto_ok (counted obs a)" using ok by (simp add: auto_ok_def)
  from run pos show ?thesis
  proof (cases rule: scale_cases)
    case (out e rest)
    then have e: "e \<in> set (as_engine_ids a)" "as_states a e = STANDBY"
      by (auto simp: engines_in_def filter_eq_Cons_iff)
    note len = engines_after_act [where a = "counted obs a" and e = e and new = ACTIVE and now = now, simplified, OF dist e]
    have "length (active_engines b) = length (active_engines a) + 1"
      "length (draining_engines b) = length (draining_engines a)"
      using len [of ACTIVE] len [of DRAINING] out(4) by (simp_all add: active_engines_def draining_engines_def)
    then show ?thesis using c out(4) by (simp add: auto_ok_def act_def)
  next
    case (drain e)
    then have e: "e \<in> set (as_engine_ids a)" "as_states a e = ACTIVE"
      by (auto simp: active_engines_def engines_in_def)
    note len = engines_after_act [where a = "counted obs a" and e = e and new = DRAINING and now = now, simplified, OF dist e]
    have "length (active_engines b) = length (active_engines a) - 1"
      "length (draining_engines b) = length (draining_engines a) + 1"
      using len [of ACTIVE] len [of DRAINING] drain(6) by (simp_all add: active_engines_def draining_engines_def)
    then show ?thesis using c drain(3,4,6) by (simp add: auto_ok_def act_def)
  next
    case idle
    then show ?thesis using c by simp
  qed
qed

lemma tick_ok:
  assumes "auto_ok a" and "tick sl now observations a = (r, b)"
  shows "auto_ok b"
  using assms(2)
proof (cases rule: tick_cases)
  case (ran acts)
  obtain c acts0 where fd: "finish_drains (observation_map observations) (draining_engines a) (a, []) = (c, acts0)"
    by (cases "finish_drains (observation_map observations) (draining_engines a) (a, [])")
  with ran show ?thesis using scale_ok [OF finish_drains_ok(1) [OF assms(1) fd]] by simp
qed (use assms(1) in simp)

text \<open>A run of ticks, each with its time and observations, and the actions it returned.\<close>

fun run_ticks ::
  "(engine_id list \<Rightarrow> string) \<Rightarrow> (seconds \<times> engine_observation list) list \<Rightarrow> autoscaler \<Rightarrow>
   scaling_action list \<times> autoscaler" where
  "run_ticks sl [] a = ([], a)"
| "run_ticks sl ((now, obs) # ts) a =
     (case tick sl now obs a of
        (Inl e, b) \<Rightarrow> run_ticks sl ts b
      | (Inr acts, b) \<Rightarrow> (case run_ticks sl ts b of (later, c) \<Rightarrow> (acts @ later, c)))"

lemma run_ticks_ok: "auto_ok a \<Longrightarrow> auto_ok (snd (run_ticks sl ts a))"
proof (induction sl ts a rule: run_ticks.induct)
  case (2 sl now obs ts a)
  obtain r b where run: "tick sl now obs a = (r, b)" by (cases "tick sl now obs a")
  show ?case
  proof (cases r)
    case (Inl e)
    then show ?thesis using 2(1) [OF run [symmetric]] tick_ok [OF 2(3) run] run by simp
  next
    case (Inr acts)
    then show ?thesis using 2(2) [OF run [symmetric]] tick_ok [OF 2(3) run] run by (cases "run_ticks sl ts b") simp
  qed
qed simp

lemma initial_states_nth:
  assumes "distinct ids" and "i < length ids"
  shows "initial_states ids n (ids ! i) = (if int i < n then ACTIVE else STANDBY)"
proof -
  let ?kvs = "map (\<lambda>(i, e). (e, if i < n then ACTIVE else STANDBY)) (zip (map int [0..<length ids]) ids)"
  have keys: "map fst ?kvs = ids" by (rule nth_equalityI) auto
  have "?kvs ! i = (ids ! i, if int i < n then ACTIVE else STANDBY)" using assms(2) by simp
  then have "(ids ! i, if int i < n then ACTIVE else STANDBY) \<in> set (rev ?kvs)"
    using assms(2) by (metis keys length_map nth_mem set_rev)
  moreover have "distinct (map fst (rev ?kvs))" using keys assms(1) by (metis distinct_rev rev_map)
  ultimately have "map_of (rev ?kvs) (ids ! i) = Some (if int i < n then ACTIVE else STANDBY)"
    by (simp add: map_of_eq_Some_iff)
  then show ?thesis by (simp add: initial_states_def)
qed

lemma new_autoscaler_ok:
  assumes "new_autoscaler ids n ow orpe irpe oww iww cd = Inr a" and "distinct ids"
  shows "auto_ok a" and "as_last_action_seconds a = None"
proof -
  have n: "1 \<le> n" "n \<le> int (length ids)" "0 < oww" "0 < iww" and ids: "as_engine_ids a = ids"
    and st: "as_states a = initial_states ids n" and rest: "as_min_active a = n"
      "as_scale_out_windows a = oww" "as_scale_in_windows a = iww"
    using assms(1) by (auto simp: new_autoscaler_def split: if_splits)
  have len: "length (filter P ids) = card {i. i < length ids \<and> P (ids ! i)}" for P
    by (rule length_filter_conv_card)
  have "{i. i < length ids \<and> initial_states ids n (ids ! i) = ACTIVE} = {..<nat n}"
    using n by (auto simp: initial_states_nth [OF assms(2)] split: if_splits)
  then have "length (active_engines a) = nat n"
    by (simp add: active_engines_def engines_in_def ids st len)
  moreover have "{i. i < length ids \<and> initial_states ids n (ids ! i) = DRAINING} = {}"
    by (auto simp: initial_states_nth [OF assms(2)] split: if_splits)
  then have "length (draining_engines a) = 0"
    by (simp only: draining_engines_def engines_in_def ids st len card.empty)
  ultimately show "auto_ok a" using n rest assms(2) ids by (simp add: auto_ok_def)
  show "as_last_action_seconds a = None" using assms(1) by (auto simp: new_autoscaler_def split: if_splits)
qed

lemma tick_settings:
  assumes "tick sl now observations a = (r, b)"
  shows "as_engine_ids b = as_engine_ids a" and "as_min_active b = as_min_active a"
    and "as_cooldown_seconds b = as_cooldown_seconds a"
proof -
  have sc: "as_engine_ids c = as_engine_ids a \<and> as_min_active c = as_min_active a \<and> as_cooldown_seconds c = as_cooldown_seconds a"
    if "scale now obs (a, acts) = (c, acts')" for obs a acts c acts'
    using that by (auto simp: scale_def Let_def act_def split: if_splits)
  have "as_engine_ids b = as_engine_ids a \<and> as_min_active b = as_min_active a \<and> as_cooldown_seconds b = as_cooldown_seconds a"
    using assms
  proof (cases rule: tick_cases)
    case (ran acts)
    obtain c acts0 where fd: "finish_drains (observation_map observations) (draining_engines a) (a, []) = (c, acts0)"
      by (cases "finish_drains (observation_map observations) (draining_engines a) (a, [])")
    with ran sc finish_drains_spec [OF fd] show ?thesis by (fastforce simp: same_settings_def)
  qed simp
  then show "as_engine_ids b = as_engine_ids a" and "as_min_active b = as_min_active a"
    and "as_cooldown_seconds b = as_cooldown_seconds a" by auto
qed

lemma run_ticks_settings:
  "as_engine_ids (snd (run_ticks sl ts a)) = as_engine_ids a \<and> as_min_active (snd (run_ticks sl ts a)) = as_min_active a"
proof (induction sl ts a rule: run_ticks.induct)
  case (2 sl now obs ts a)
  obtain r b where run: "tick sl now obs a = (r, b)" by (cases "tick sl now obs a")
  show ?case
    using 2 run tick_settings [OF run] by (cases r; cases "run_ticks sl ts b") auto
qed simp

text \<open>
  Whatever is observed and whenever, an autoscaler built over distinct engines always
  has at least \<open>min_active\<close> active engines of its pool and drains at most one.
\<close>

theorem enough_engines_stay_active:
  assumes "new_autoscaler ids n ow orpe irpe oww iww cd = Inr a" and "distinct ids"
    and "b = snd (run_ticks sl ts a)"
  shows "n \<le> int (length (active_engines b)) \<and> set (active_engines b) \<subseteq> set ids \<and>
    length (draining_engines b) \<le> 1"
proof -
  have "as_engine_ids a = ids" "as_min_active a = n"
    using assms(1) by (auto simp: new_autoscaler_def split: if_splits)
  moreover have "auto_ok b" using run_ticks_ok [OF new_autoscaler_ok(1) [OF assms(1,2)]] assms(3) by simp
  ultimately show ?thesis
    using run_ticks_settings [of sl ts a] assms(3)
    by (auto simp: auto_ok_def active_engines_def engines_in_def)
qed

text \<open>
  How an engine's life cycle may move in one tick: a standby engine may become active,
  an active one may start draining, and a draining one leaves that state only when the
  tick's observation shows it with no owner and no request.
\<close>

theorem lifecycle_moves_legally:
  assumes "auto_ok a" and "tick sl now observations a = (r, b)" and "e \<in> set (as_engine_ids a)"
  shows "case as_states a e of
      STANDBY \<Rightarrow> as_states b e = STANDBY \<or> as_states b e = ACTIVE
    | ACTIVE \<Rightarrow> as_states b e = ACTIVE \<or> as_states b e = DRAINING
    | DRAINING \<Rightarrow> as_states b e = DRAINING \<or>
        (empty_engine (observation_map observations) e \<and> (as_states b e = STANDBY \<or> as_states b e = ACTIVE))"
  using assms(2)
proof (cases rule: tick_cases)
  case missing
  then show ?thesis by (simp split: engine_lifecycle.splits)
next
  case (ran acts)
  let ?obs = "observation_map observations"
  obtain c acts0 where fd: "finish_drains ?obs (draining_engines a) (a, []) = (c, acts0)"
    by (cases "finish_drains ?obs (draining_engines a) (a, [])")
  have st: "as_states c e = (if as_states a e = DRAINING \<and> empty_engine ?obs e then STANDBY else as_states a e)"
    using finish_drains_spec [OF fd] assms(3) by (auto simp: draining_engines_def engines_in_def)
  have pos: "1 \<le> as_min_active c" using finish_drains_ok(1) [OF assms(1) fd] by (simp add: auto_ok_def)
  have sc: "scale now ?obs (c, acts0) = (b, acts)" using ran(3) fd by simp
  from sc pos show ?thesis
  proof (cases rule: scale_cases)
    case (out x rest)
    then have "as_states c x = STANDBY" by (auto simp: engines_in_def filter_eq_Cons_iff)
    then show ?thesis using out(4) st by (auto simp: act_def split: engine_lifecycle.splits if_splits)
  next
    case (drain x)
    then have "as_states c x = ACTIVE" by (auto simp: active_engines_def engines_in_def)
    then show ?thesis using drain(6) st by (auto simp: act_def split: engine_lifecycle.splits if_splits)
  next
    case idle
    then show ?thesis using st by (auto split: engine_lifecycle.splits)
  qed
qed

definition starts :: "scaling_action \<Rightarrow> bool" where
  "starts x \<longleftrightarrow> sa_action x \<noteq> ''SCALE_IN_COMPLETE''"

text \<open>
  Scaling actions are spaced by the cooldown: a tick starts at most one, only when the
  cooldown since the last one has passed, and then records its own time; a tick that starts
  none leaves the recorded time.
\<close>

theorem actions_respect_cooldown:
  assumes "auto_ok a" and "tick sl now observations a = (Inr acts, b)"
  shows "length (filter starts acts) \<le> 1 \<and>
    (if filter starts acts = [] then as_last_action_seconds b = as_last_action_seconds a
     else as_last_action_seconds b = Some now \<and>
       (\<forall>t. as_last_action_seconds a = Some t \<longrightarrow> as_cooldown_seconds a \<le> now - t))"
  using assms(2)
proof (cases rule: tick_cases)
  case missing
  then show ?thesis by simp
next
  case (ran acts')
  let ?obs = "observation_map observations"
  obtain c acts0 where fd: "finish_drains ?obs (draining_engines a) (a, []) = (c, acts0)"
    by (cases "finish_drains ?obs (draining_engines a) (a, [])")
  note spec = finish_drains_spec [OF fd]
  have none: "filter starts acts0 = []" using spec by (auto simp: filter_empty_conv starts_def)
  have pos: "1 \<le> as_min_active c" using finish_drains_ok(1) [OF assms(1) fd] by (simp add: auto_ok_def)
  have cool: "cooldown_ready c now \<Longrightarrow> as_last_action_seconds a = Some t \<Longrightarrow> as_cooldown_seconds a \<le> now - t" for t
    using spec by (simp add: cooldown_ready_def same_settings_def)
  have sc: "scale now ?obs (c, acts0) = (b, acts)" using ran fd by simp
  from sc pos show ?thesis
  proof (cases rule: scale_cases)
    case (out x rest)
    then show ?thesis using none cool by (auto simp: starts_def act_def)
  next
    case (drain x)
    then show ?thesis using none cool by (auto simp: starts_def act_def)
  next
    case idle
    then show ?thesis using none spec by simp
  qed
qed

section \<open>Sustained overload\<close>

definition hysteretic :: "autoscaler \<Rightarrow> bool" where
  "hysteretic a \<longleftrightarrow> 0 < as_scale_out_waiting a \<and> as_scale_in_requests_per_engine a < as_scale_out_requests_per_engine a"

text \<open>Every tick sees the whole pool, is past the cooldown and wants to scale out.\<close>

fun overload_run :: "(engine_id list \<Rightarrow> string) \<Rightarrow> (seconds \<times> engine_observation list) list \<Rightarrow> autoscaler \<Rightarrow> bool" where
  "overload_run sl [] a = True"
| "overload_run sl ((now, obs) # ts) a =
     (list_all (\<lambda>e. observation_map obs e \<noteq> None) (as_engine_ids a) \<and> cooldown_ready a now \<and>
      wants_scale_out a (observation_map obs) (active_engines a) \<and> overload_run sl ts (snd (tick sl now obs a)))"

lemma overload_tick:
  assumes ok: "auto_ok a" and hys: "hysteretic a"
    and all: "list_all (\<lambda>e. observation_map observations e \<noteq> None) (as_engine_ids a)"
    and ready: "cooldown_ready a now" and wants: "wants_scale_out a (observation_map observations) (active_engines a)"
    and standby: "engines_in STANDBY a \<noteq> []"
  obtains acts b where "tick sl now observations a = (Inr acts, b)" and "auto_ok b" and "hysteretic b"
    and "(\<exists>x \<in> set acts. sa_action x = ''SCALE_OUT'') \<or>
      (as_scale_out_streak b = as_scale_out_streak a + 1 \<and> as_scale_out_streak b < as_scale_out_windows b \<and>
       engines_in STANDBY b \<noteq> [] \<and> as_scale_out_windows b = as_scale_out_windows a)"
proof -
  let ?obs = "observation_map observations"
  obtain c acts0 where fd: "finish_drains ?obs (draining_engines a) (a, []) = (c, acts0)"
    by (cases "finish_drains ?obs (draining_engines a) (a, [])")
  note spec = finish_drains_spec [OF fd] and act = finish_drains_ok(2) [OF ok fd]
  obtain b acts where sc: "scale now ?obs (c, acts0) = (b, acts)" by (cases "scale now ?obs (c, acts0)")
  have run: "tick sl now observations a = (Inr acts, b)"
    using all fd sc by (simp add: tick_def Let_def list_all_iff filter_empty_conv)
  have pos: "1 \<le> as_min_active c" using finish_drains_ok(1) [OF ok fd] by (simp add: auto_ok_def)
  have out: "wants_scale_out c ?obs (active_engines c)"
    using wants spec act by (simp add: wants_scale_out_def same_settings_def)
  have not_in: "\<not> wants_scale_in c ?obs (active_engines c)"
    using out hys spec by (auto simp: wants_scale_out_def wants_scale_in_def hysteretic_def same_settings_def)
  have "set (engines_in STANDBY a) \<subseteq> set (engines_in STANDBY c)"
    using spec by (auto simp: engines_in_def same_settings_def)
  then have sb: "engines_in STANDBY c \<noteq> []" using standby by (metis list.set(1) set_empty subset_empty)
  have hb: "hysteretic b"
    using hys spec sc by (auto simp: hysteretic_def same_settings_def scale_def Let_def act_def counted_def split: if_splits)
  from sc pos have step: "(\<exists>x \<in> set acts. sa_action x = ''SCALE_OUT'') \<or>
      (as_scale_out_streak b = as_scale_out_streak a + 1 \<and> as_scale_out_streak b < as_scale_out_windows b \<and>
       engines_in STANDBY b \<noteq> [] \<and> as_scale_out_windows b = as_scale_out_windows a)"
  proof (cases rule: scale_cases)
    case (out x rest)
    then show ?thesis by simp
  next
    case (drain x)
    have "as_scale_in_streak (counted ?obs c) = 0" using not_in by (simp add: counted_def)
    moreover have "0 < as_scale_in_windows c" using finish_drains_ok(1) [OF ok fd] by (simp add: auto_ok_def)
    ultimately show ?thesis using drain(5) by simp
  next
    case idle
    have "cooldown_ready c now" using ready spec by (simp add: cooldown_ready_def same_settings_def split: option.splits)
    then have "as_scale_out_streak (counted ?obs c) < as_scale_out_windows c" using idle(3) sb by simp
    moreover have "as_scale_out_streak (counted ?obs c) = as_scale_out_streak a + 1"
      using out spec by (simp add: counted_def)
    ultimately show ?thesis using idle(1) sb spec by (simp add: same_settings_def)
  qed
  show thesis using that [OF run tick_ok [OF ok run] hb step] .
qed

text \<open>
  Sustained overload is answered: with the thresholds apart, a standby engine and the
  cooldown over, as many consecutive overloaded ticks as the scale-out window counts bring
  a \<open>SCALE_OUT\<close>.
\<close>

theorem sustained_overload_scales_out:
  assumes "auto_ok a" and "hysteretic a" and "0 \<le> as_scale_out_streak a" and "engines_in STANDBY a \<noteq> []"
    and "overload_run sl ts a" and "as_scale_out_windows a \<le> as_scale_out_streak a + int (length ts)" and "ts \<noteq> []"
  shows "\<exists>x \<in> set (fst (run_ticks sl ts a)). sa_action x = ''SCALE_OUT''"
  using assms
proof (induction ts arbitrary: a)
  case (Cons t ts)
  obtain now obs where t: "t = (now, obs)" by (cases t)
  have all: "list_all (\<lambda>e. observation_map obs e \<noteq> None) (as_engine_ids a)" and ready: "cooldown_ready a now"
    and wants: "wants_scale_out a (observation_map obs) (active_engines a)"
    using Cons.prems(5) t by simp_all
  obtain acts b where run: "tick sl now obs a = (Inr acts, b)" and ok: "auto_ok b" "hysteretic b"
    and step: "(\<exists>x \<in> set acts. sa_action x = ''SCALE_OUT'') \<or>
      (as_scale_out_streak b = as_scale_out_streak a + 1 \<and> as_scale_out_streak b < as_scale_out_windows b \<and>
       engines_in STANDBY b \<noteq> [] \<and> as_scale_out_windows b = as_scale_out_windows a)"
    by (rule overload_tick [OF Cons.prems(1,2) all ready wants Cons.prems(4)])
  from step show ?case
  proof
    assume "\<exists>x \<in> set acts. sa_action x = ''SCALE_OUT''"
    then show ?thesis using t run by (cases "run_ticks sl ts b") auto
  next
    assume b: "as_scale_out_streak b = as_scale_out_streak a + 1 \<and> as_scale_out_streak b < as_scale_out_windows b \<and>
       engines_in STANDBY b \<noteq> [] \<and> as_scale_out_windows b = as_scale_out_windows a"
    then have "ts \<noteq> []" using Cons.prems(6) by auto
    moreover have "overload_run sl ts b" using Cons.prems(5) t run by simp
    ultimately have "\<exists>x \<in> set (fst (run_ticks sl ts b)). sa_action x = ''SCALE_OUT''"
      using b ok Cons.prems(3,6) by (intro Cons.IH) auto
    then show ?thesis using t run by (cases "run_ticks sl ts b") auto
  qed
qed simp

section \<open>Witnesses\<close>

definition pool :: autoscaler where
  "pool = projr (new_autoscaler [''e0'', ''e1''] 1 1 2 (1/4) 2 20 15)"

definition seen :: "int \<Rightarrow> engine_observation list" where
  "seen w = map (\<lambda>e. \<lparr>eo_engine_id = e, eo_running_requests = 1, eo_waiting_requests = w, eo_owner_count = 1,
     eo_used_tokens = 0, eo_max_tokens = 0\<rparr>) [''e0'', ''e1'']"

definition show_ids :: "engine_id list \<Rightarrow> string" where
  "show_ids = concat"

lemma pool_new: "new_autoscaler [''e0'', ''e1''] 1 1 2 (1/4) 2 20 15 = Inr pool"
  by (simp add: pool_def new_autoscaler_def)

lemma pool_ok: "auto_ok pool"
  by (rule new_autoscaler_ok [OF pool_new]) simp

theorem enough_engines_stay_active_witness:
  "1 \<le> int (length (active_engines (snd (run_ticks show_ids [(1, seen 3), (2, seen 3)] pool))))"
  using enough_engines_stay_active [OF pool_new _ refl, of show_ids "[(1, seen 3), (2, seen 3)]"] by simp

lemma pool_tick: "tick show_ids 1 (seen 3) pool = (Inr [], snd (tick show_ids 1 (seen 3) pool))"
proof -
  have "fst (tick show_ids 1 (seen 3) pool) = Inr []" by code_simp
  then show ?thesis by (simp add: prod_eq_iff)
qed

theorem lifecycle_moves_legally_witness:
  "as_states (snd (tick show_ids 1 (seen 3) pool)) ''e0'' \<noteq> STANDBY"
proof -
  have "''e0'' \<in> set (as_engine_ids pool)" "as_states pool ''e0'' = ACTIVE" by code_simp+
  with lifecycle_moves_legally [OF pool_ok pool_tick this(1)] show ?thesis by auto
qed

theorem actions_respect_cooldown_witness:
  "as_last_action_seconds (snd (tick show_ids 1 (seen 3) pool)) = None"
  using actions_respect_cooldown [OF pool_ok pool_tick] new_autoscaler_ok(2) [OF pool_new] by simp

theorem sustained_overload_scales_out_witness:
  "\<exists>x \<in> set (fst (run_ticks show_ids [(1, seen 3), (2, seen 3)] pool)). sa_action x = ''SCALE_OUT''"
proof -
  have "overload_run show_ids [(1, seen 3), (2, seen 3)] pool" by code_simp
  moreover have "hysteretic pool" "0 \<le> as_scale_out_streak pool" "engines_in STANDBY pool \<noteq> []"
    "as_scale_out_windows pool \<le> as_scale_out_streak pool + int (length [(1, seen 3), (2, seen 3)])" by code_simp+
  ultimately show ?thesis by (intro sustained_overload_scales_out [OF pool_ok]) simp_all
qed

end
