(* ===== verification/Baselines.thy ===== *)
theory Baselines
  imports Prelude
begin

text \<open>
  \<open>agentshift/controller/baselines.py\<close>: the calibration of a retention time (TTL) from
  observed tool gaps, and the locality-aware routing rule. Floats are exact rationals; the
  initial cost \<open>inf\<close> is \<open>None\<close>. The lemmas prove the calibration optimal over every TTL, not
  only over the candidates it tries.
\<close>

record ttl_calibration =
  tc_ttl_seconds :: seconds
  tc_expected_cost_seconds :: rat
  tc_recompute_seconds :: seconds
  tc_kv_gib :: rat
  tc_hbm_cost_per_gib_second :: rat

definition gap_cost :: "seconds \<Rightarrow> rat \<Rightarrow> rat \<Rightarrow> seconds \<Rightarrow> seconds \<Rightarrow> rat" where
  "gap_cost recompute kv hbm ttl gap = min gap ttl * kv * hbm + (if ttl < gap then recompute else 0)"

definition expected_cost :: "seconds \<Rightarrow> rat \<Rightarrow> rat \<Rightarrow> seconds list \<Rightarrow> seconds \<Rightarrow> rat" where
  "expected_cost recompute kv hbm samples ttl =
     sum_list (map (gap_cost recompute kv hbm ttl) samples) / of_nat (length samples)"

text \<open>The loop over the candidates: best TTL and best cost so far.\<close>

fun best_ttl :: "(seconds \<Rightarrow> rat) \<Rightarrow> seconds list \<Rightarrow> seconds \<times> rat option \<Rightarrow> seconds \<times> rat option" where
  "best_ttl cost [] best = best"
| "best_ttl cost (ttl # ttls) (b, c) =
     (if (case c of None \<Rightarrow> True | Some c \<Rightarrow> cost ttl < c) then best_ttl cost ttls (ttl, Some (cost ttl))
      else best_ttl cost ttls (b, c))"

text \<open>\<open>sorted({0.0, *samples})\<close>\<close>

definition ttl_candidates :: "seconds list \<Rightarrow> seconds list" where
  "ttl_candidates samples = sort (remdups (0 # samples))"

definition calibrate_ttl ::
  "seconds list \<Rightarrow> seconds \<Rightarrow> rat \<Rightarrow> rat \<Rightarrow> exn + ttl_calibration" where
  "calibrate_ttl gaps recompute kv hbm =
     (let samples = map (\<lambda>g. max 0 g) gaps in
      if samples = [] then Inl (ValueError ''TTL calibration requires at least one gap sample'')
      else if recompute < 0 \<or> kv < 0 \<or> hbm < 0 then Inl (ValueError ''TTL calibration costs must be non-negative'')
      else case best_ttl (expected_cost recompute kv hbm samples) (ttl_candidates samples) (0, None) of
          (ttl, c) \<Rightarrow> Inr \<lparr>tc_ttl_seconds = ttl, tc_expected_cost_seconds = the c, tc_recompute_seconds = recompute,
             tc_kv_gib = kv, tc_hbm_cost_per_gib_second = hbm\<rparr>)"

record agentix_decision =
  ar_engine :: engine_id
  ar_source_cost_seconds :: seconds
  ar_destination_cost_seconds :: seconds

definition agentix_style_route ::
  "engine_id \<Rightarrow> engine_id \<Rightarrow> seconds \<Rightarrow> seconds \<Rightarrow> seconds \<Rightarrow> seconds \<Rightarrow> exn + agentix_decision" where
  "agentix_style_route source dest source_queue dest_queue service reprefill =
     (if list_ex (\<lambda>v. v < 0) [source_queue, dest_queue, service, reprefill]
      then Inl (ValueError ''routing costs must be non-negative'')
      else let source_cost = source_queue + service; dest_cost = dest_queue + reprefill + service in
        Inr \<lparr>ar_engine = (if source_cost \<le> dest_cost then source else dest),
             ar_source_cost_seconds = source_cost, ar_destination_cost_seconds = dest_cost\<rparr>)"

section \<open>Calibration\<close>

lemma best_ttl_spec:
  assumes "best_ttl cost ttls (b, Some c) = (t, r)" and "c = cost b"
  shows "\<exists>d. r = Some d \<and> d = cost t \<and> (t = b \<or> t \<in> set ttls) \<and> d \<le> c \<and> (\<forall>u \<in> set ttls. d \<le> cost u)"
  using assms
proof (induction ttls arbitrary: b c)
  case (Cons u ttls)
  show ?case
  proof (cases "cost u < c")
    case True
    with Cons.prems have "best_ttl cost ttls (u, Some (cost u)) = (t, r)" by simp
    from Cons.IH [OF this refl] True show ?thesis by auto
  next
    case False
    with Cons.prems have "best_ttl cost ttls (b, Some c) = (t, r)" by simp
    from Cons.IH [OF this Cons.prems(2)] False show ?thesis by auto
  qed
qed auto

lemma gap_cost_rounds_down:
  assumes "0 \<le> kv" "0 \<le> hbm" and "c \<le> ttl" and "g \<le> c \<or> ttl < g"
  shows "gap_cost recompute kv hbm c g \<le> gap_cost recompute kv hbm ttl g"
proof -
  have "min g c \<le> min g ttl" using assms(3) by auto
  then have "min g c * (kv * hbm) \<le> min g ttl * (kv * hbm)" using assms(1,2) by (intro mult_right_mono) auto
  then show ?thesis using assms(3,4) by (auto simp: gap_cost_def mult.assoc)
qed

text \<open>
  The calibrated TTL is optimal: for nonnegative costs it is 0 or an observed gap, its
  expected cost is the reported one, and no TTL at all has a lower expected cost on the
  samples; an empty sample or a negative cost raises.
\<close>

theorem calibrated_ttl_is_optimal:
  "case calibrate_ttl gaps recompute kv hbm of
     Inl e \<Rightarrow> (\<exists>msg. e = ValueError msg) \<and> (gaps = [] \<or> recompute < 0 \<or> kv < 0 \<or> hbm < 0)
   | Inr c \<Rightarrow> (let samples = map (\<lambda>g. max 0 g) gaps; cost = expected_cost recompute kv hbm samples in
        tc_ttl_seconds c \<in> insert 0 (set samples) \<and> tc_expected_cost_seconds c = cost (tc_ttl_seconds c) \<and>
        (\<forall>ttl \<ge> 0. tc_expected_cost_seconds c \<le> cost ttl))"
proof (cases "gaps = [] \<or> recompute < 0 \<or> kv < 0 \<or> hbm < 0")
  case True
  then show ?thesis by (auto simp: calibrate_ttl_def Let_def)
next
  case False
  let ?s = "map (\<lambda>g. max 0 g) gaps"
  let ?cost = "expected_cost recompute kv hbm ?s"
  let ?cands = "ttl_candidates ?s"
  have cands: "set ?cands = insert 0 (set ?s)" by (auto simp: ttl_candidates_def)
  obtain x xs where xs: "?cands = x # xs" by (cases ?cands) (use cands in auto)
  obtain t r where best: "best_ttl ?cost xs (x, Some (?cost x)) = (t, r)" by (cases "best_ttl ?cost xs (x, Some (?cost x))")
  then obtain d where r: "r = Some d" and d: "d = ?cost t" and t: "t \<in> set ?cands" and least: "\<forall>u \<in> set ?cands. d \<le> ?cost u"
    using best_ttl_spec [OF best refl] xs by auto
  have "d \<le> ?cost ttl" if "0 \<le> ttl" for ttl
  proof -
    let ?below = "{u \<in> set ?cands. u \<le> ttl}"
    have fin: "finite ?below" "?below \<noteq> {}" using that cands by auto
    let ?c = "Max ?below"
    have c: "?c \<in> set ?cands" "?c \<le> ttl" using Max_in [OF fin] by auto
    have "g \<le> ?c \<or> ttl < g" if "g \<in> set ?s" for g
      using that cands Max_ge [OF fin(1), of g] by fastforce
    then have "sum_list (map (gap_cost recompute kv hbm ?c) ?s) \<le> sum_list (map (gap_cost recompute kv hbm ttl) ?s)"
      using False c(2) by (intro sum_list_mono gap_cost_rounds_down) auto
    then have "?cost ?c \<le> ?cost ttl" by (simp add: expected_cost_def divide_right_mono)
    then show ?thesis using least c(1) by force
  qed
  moreover have "calibrate_ttl gaps recompute kv hbm = Inr \<lparr>tc_ttl_seconds = t, tc_expected_cost_seconds = d,
      tc_recompute_seconds = recompute, tc_kv_gib = kv, tc_hbm_cost_per_gib_second = hbm\<rparr>"
    using False xs best r by (simp add: calibrate_ttl_def Let_def)
  ultimately show ?thesis using d t cands by (simp add: Let_def)
qed

theorem calibrated_ttl_is_optimal_witness:
  "\<exists>c. calibrate_ttl [1, 5] 10 1 1 = Inr c \<and> tc_ttl_seconds c = 5 \<and>
     tc_expected_cost_seconds c \<le> expected_cost 10 1 1 [1, 5] 3"
proof -
  have "calibrate_ttl [1, 5] 10 1 1 = Inr \<lparr>tc_ttl_seconds = 5, tc_expected_cost_seconds = 3, tc_recompute_seconds = 10,
      tc_kv_gib = 1, tc_hbm_cost_per_gib_second = 1\<rparr>"
    by (simp add: calibrate_ttl_def expected_cost_def gap_cost_def ttl_candidates_def Let_def)
  then show ?thesis using calibrated_ttl_is_optimal [of "[1, 5]" 10 1 1] by (simp add: Let_def)
qed

end
