(* ===== verification/Preparation.thy ===== *)
theory Preparation
  imports Prelude
begin

text \<open>
  \<open>agentshift/controller/preparation_decisions.py\<close>: piecewise-linear cost curves through
  calibration points, and the choice between cold execution and a prepared action. Floats
  are exact rationals, so \<open>isfinite\<close> always holds.
\<close>

section \<open>Cost curves\<close>

type_synonym cost_curve = "(int \<times> seconds) list"

fun increasing_lengths :: "cost_curve \<Rightarrow> bool" where
  "increasing_lengths ((n0, t0) # (n1, t1) # ps) = (n0 < n1 \<and> increasing_lengths ((n1, t1) # ps))"
| "increasing_lengths _ = True"

definition new_cost_curve :: "cost_curve \<Rightarrow> exn + cost_curve" where
  "new_cost_curve points =
     (if points = [] \<or> list_ex (\<lambda>(n, t). n \<le> 0 \<or> t < 0) points \<or> \<not> increasing_lengths points
      then Inl (ValueError ''cost points must have increasing positive lengths and finite nonnegative times'')
      else Inr points)"

definition interpolate :: "int \<times> seconds \<Rightarrow> int \<times> seconds \<Rightarrow> int \<Rightarrow> seconds" where
  "interpolate p q tokens = (case (p, q) of ((n0, t0), (n1, t1)) \<Rightarrow>
     t0 + (t1 - t0) * of_int (tokens - n0) / of_int (n1 - n0))"

text \<open>The loop over consecutive points; \<open>None\<close> when it falls through.\<close>

fun find_segment :: "cost_curve \<Rightarrow> int \<Rightarrow> seconds option" where
  "find_segment (p # q # ps) tokens =
     (if tokens \<le> fst q then Some (max 0 (interpolate p q tokens)) else find_segment (q # ps) tokens)"
| "find_segment _ tokens = None"

definition curve_seconds :: "cost_curve \<Rightarrow> int \<Rightarrow> seconds" where
  "curve_seconds points tokens =
     (if tokens \<le> 0 then 0
      else case find_segment ((0, 0) # points) tokens of
          Some t \<Rightarrow> t
        | None \<Rightarrow>
            (case rev points of
               [(n, t)] \<Rightarrow> t * of_int tokens / of_int n
             | (n1, t1) # (n0, t0) # _ \<Rightarrow> t1 + max 0 ((t1 - t0) / of_int (n1 - n0)) * of_int (tokens - n1)
             | [] \<Rightarrow> 0))"

definition saved_seconds :: "cost_curve \<Rightarrow> int \<Rightarrow> int \<Rightarrow> seconds" where
  "saved_seconds points input_tokens reusable_tokens =
     (let reusable = max 0 (min input_tokens reusable_tokens)
      in max 0 (curve_seconds points input_tokens - curve_seconds points (input_tokens - reusable)))"

lemma increasing_lengths_sorted:
  "increasing_lengths ps \<Longrightarrow> sorted_wrt (\<lambda>p q. fst p < fst q) ps"
proof (induction ps rule: increasing_lengths.induct)
  case (1 n0 t0 n1 t1 ps)
  then show ?case by fastforce
qed auto

lemma find_segment_None:
  assumes "find_segment (p # ps) tokens = None" and "q \<in> set ps"
  shows "fst q < tokens"
  using assms by (induction ps arbitrary: p) (auto split: if_splits)

lemma find_segment_nonneg: "find_segment ps tokens = Some t \<Longrightarrow> 0 \<le> t"
  by (induction ps tokens rule: find_segment.induct) (auto split: if_splits)

lemma find_segment_at:
  assumes "sorted_wrt (\<lambda>p q. fst p < fst q) (p # ps)" and "(n, t) \<in> set ps" and "0 \<le> t"
  shows "find_segment (p # ps) n = Some t"
  using assms(1,2)
proof (induction ps arbitrary: p)
  case (Cons q ps)
  show ?case
  proof (cases "q = (n, t)")
    case True
    then have "interpolate p q n = t" using Cons.prems(1) by (auto simp: interpolate_def split: prod.splits)
    then show ?thesis using True assms(3) by simp
  next
    case False
    then have "(n, t) \<in> set ps" using Cons.prems(2) by simp
    moreover from this have "\<not> n \<le> fst q" using Cons.prems(1) by auto
    ultimately show ?thesis using Cons.IH [of q] Cons.prems(1) by simp
  qed
qed simp

text \<open>
  A cost curve that validates passes exactly through its calibration points, is 0 at no
  tokens and never negative, and the seconds it says reuse saves lie between 0 and the cost
  of the input.
\<close>

theorem cost_curve_interpolates:
  assumes "new_cost_curve ps = Inr points"
  shows "(\<forall>(n, t) \<in> set points. curve_seconds points n = t) \<and>
    curve_seconds points 0 = 0 \<and> 0 \<le> curve_seconds points tokens \<and>
    0 \<le> saved_seconds points tokens reusable \<and> saved_seconds points tokens reusable \<le> curve_seconds points tokens"
proof -
  have ne: "points \<noteq> []" and pos: "\<forall>(n, t) \<in> set points. 0 < n \<and> 0 \<le> t" and inc: "increasing_lengths points"
    using assms by (auto simp: new_cost_curve_def list_ex_iff split: if_splits)
  have srt: "sorted_wrt (\<lambda>p q. fst p < fst q) ((0, 0) # points)"
    using increasing_lengths_sorted [OF inc] pos by auto
  have nonneg: "0 \<le> curve_seconds points k" for k
  proof (cases "k \<le> 0 \<or> find_segment ((0, 0) # points) k \<noteq> None")
    case True
    then show ?thesis by (auto simp: curve_seconds_def find_segment_nonneg)
  next
    case False
    then have none: "find_segment ((0, 0) # points) k = None" and k: "0 < k" by auto
    obtain n1 t1 rest where rev: "rev points = (n1, t1) # rest" using ne by (cases "rev points") auto
    then have "(n1, t1) \<in> set points" by (metis list.set_intros(1) set_rev)
    then have "0 < n1" "0 \<le> t1" "n1 < k" using pos find_segment_None [OF none] by auto
    then have "0 \<le> t1 * of_int k / of_int n1" "0 \<le> t1 + max 0 x * of_int (k - n1)" for x
      by (auto intro!: divide_nonneg_nonneg mult_nonneg_nonneg add_nonneg_nonneg)
    then show ?thesis using none k rev by (cases rest) (auto simp: curve_seconds_def)
  qed
  have "curve_seconds points n = t" if "(n, t) \<in> set points" for n t
    using find_segment_at [OF srt that] pos that by (auto simp: curve_seconds_def)
  then show ?thesis using nonneg nonneg [of tokens] by (auto simp: saved_seconds_def Let_def curve_seconds_def [of _ 0])
qed

section \<open>Choice\<close>

record preparation_estimate =
  pe_method :: string
  pe_ready_seconds :: seconds
  pe_service_seconds :: seconds
  pe_queue_seconds :: seconds
  pe_capacity_feasible :: bool
  pe_interference_seconds :: seconds

definition new_preparation_estimate :: "preparation_estimate \<Rightarrow> exn + preparation_estimate" where
  "new_preparation_estimate e =
     (if list_ex (\<lambda>t. t < 0) [pe_ready_seconds e, pe_service_seconds e, pe_queue_seconds e, pe_interference_seconds e]
      then Inl (ValueError ''cost estimates must be finite and nonnegative'') else Inr e)"

definition finish_seconds :: "preparation_estimate \<Rightarrow> seconds" where
  "finish_seconds e = max (pe_ready_seconds e) (pe_queue_seconds e) + pe_service_seconds e"

definition preparation_key :: "preparation_estimate \<Rightarrow> seconds \<times> bool" where
  "preparation_key e = (finish_seconds e + pe_interference_seconds e, pe_method e \<noteq> ''cold'')"

text \<open>What an action gains over the cold execution, its interference charged.\<close>

definition improvement :: "preparation_estimate \<Rightarrow> preparation_estimate \<Rightarrow> seconds" where
  "improvement cold best = finish_seconds cold - finish_seconds best - pe_interference_seconds best"

definition first_cold :: "preparation_estimate list \<Rightarrow> preparation_estimate option" where
  "first_cold options = find (\<lambda>e. pe_method e = ''cold'') (filter pe_capacity_feasible options)"

text \<open>The deadline argument is not used by the function.\<close>

definition choose_preparation ::
  "preparation_estimate list \<Rightarrow> seconds \<Rightarrow> exn + preparation_estimate" where
  "choose_preparation options minimum_gain_seconds =
     (let feasible = filter pe_capacity_feasible options in
      case first_cold options of
        None \<Rightarrow> Inl StopIteration
      | Some cold \<Rightarrow>
          let best = min_by preparation_key (hd feasible) (tl feasible) in
          if pe_method best = ''cold'' then Inr cold
          else if improvement cold best < minimum_gain_seconds
          then Inr cold else Inr best)"

text \<open>
  The chosen preparation is feasible and is either the first feasible cold execution or
  an action that beats it by the minimum gain with its interference charged; without a
  feasible cold option the function raises \<open>StopIteration\<close>.
\<close>

theorem preparation_beats_cold:
  "case choose_preparation options gain of
     Inl e \<Rightarrow> e = StopIteration \<and> first_cold options = None
   | Inr r \<Rightarrow> r \<in> set options \<and> pe_capacity_feasible r \<and>
       (\<exists>cold. first_cold options = Some cold \<and> (r = cold \<or> gain \<le> improvement cold r))"
proof -
  let ?f = "filter pe_capacity_feasible options"
  let ?best = "min_by preparation_key (hd ?f) (tl ?f)"
  show ?thesis
  proof (cases "first_cold options")
    case None
    then show ?thesis by (simp add: choose_preparation_def Let_def)
  next
    case (Some cold)
    then have cold: "cold \<in> set ?f" using find_Some_mem by (fastforce simp: first_cold_def)
    then have hd: "hd ?f # tl ?f = ?f" by (cases ?f) auto
    have best: "?best \<in> set ?f" using min_by_mem [of preparation_key "hd ?f" "tl ?f"] hd by metis
    show ?thesis
    proof (cases "pe_method ?best = ''cold'' \<or> improvement cold ?best < gain")
      case True
      then show ?thesis using Some cold by (auto simp: choose_preparation_def Let_def)
    next
      case False
      then show ?thesis using Some best by (auto simp: choose_preparation_def Let_def)
    qed
  qed
qed

text \<open>
  Keeping cold loses less than the minimum gain: with one kind of cold execution and a
  positive minimum gain, when the function keeps it no feasible action improves on it by
  the minimum gain.
\<close>

theorem kept_cold_is_nearly_best:
  assumes "choose_preparation options gain = Inr cold" and "pe_method cold = ''cold''" and "0 < gain"
    and "\<forall>e \<in> set options. pe_method e = ''cold'' \<longrightarrow> e = cold" and "0 \<le> pe_interference_seconds cold"
    and "e \<in> set options" and "pe_capacity_feasible e"
  shows "improvement cold e < gain"
proof -
  let ?f = "filter pe_capacity_feasible options"
  let ?best = "min_by preparation_key (hd ?f) (tl ?f)"
  have e: "e \<in> set ?f" using assms(6,7) by simp
  then have hd: "hd ?f # tl ?f = ?f" by (cases ?f) auto
  have "?best \<in> set ?f" using min_by_mem [of preparation_key "hd ?f" "tl ?f"] hd by metis
  then have best: "?best \<in> set options" by simp
  have "preparation_key ?best \<le> preparation_key e"
    using min_by_least [of e "hd ?f" "tl ?f" preparation_key] hd e by metis
  then have le: "finish_seconds ?best + pe_interference_seconds ?best \<le> finish_seconds e + pe_interference_seconds e"
    by (auto simp: preparation_key_def less_eq_prod_def)
  obtain c where c: "first_cold options = Some c"
    using assms(1) by (auto simp: choose_preparation_def Let_def split: option.splits)
  then have "pe_method c = ''cold''" "c \<in> set options" using find_Some_mem by (fastforce simp: first_cold_def)+
  then have "c = cold" using assms(4) by blast
  then have "pe_method ?best = ''cold'' \<or> improvement cold ?best < gain"
    using assms(1,2) c by (auto simp: choose_preparation_def Let_def split: if_splits)
  then show ?thesis
  proof
    assume "pe_method ?best = ''cold''"
    then have "?best = cold" using best assms(4) by blast
    then show ?thesis using le assms(3,5) by (simp add: improvement_def)
  next
    assume "improvement cold ?best < gain"
    then show ?thesis using le by (simp add: improvement_def)
  qed
qed

section \<open>Witnesses\<close>

theorem cost_curve_interpolates_witness:
  "curve_seconds [(10, 1), (20, 3)] 20 = 3 \<and> 0 \<le> saved_seconds [(10, 1), (20, 3)] 30 5"
proof -
  have "new_cost_curve [(10, 1), (20, 3)] = Inr [(10, 1), (20, 3)]" by (simp add: new_cost_curve_def)
  from cost_curve_interpolates [OF this, of 30 5] show ?thesis by simp
qed

definition demo_estimate :: "string \<Rightarrow> seconds \<Rightarrow> preparation_estimate" where
  "demo_estimate m t = \<lparr>pe_method = m, pe_ready_seconds = 0, pe_service_seconds = t, pe_queue_seconds = 0,
     pe_capacity_feasible = True, pe_interference_seconds = 0\<rparr>"

theorem kept_cold_is_nearly_best_witness:
  "improvement (demo_estimate ''cold'' 2) (demo_estimate ''copy'' (19/10)) < 1/2"
proof -
  let ?os = "[demo_estimate ''cold'' 2, demo_estimate ''copy'' (19/10)]"
  have "choose_preparation ?os (1/2) = Inr (demo_estimate ''cold'' 2)"
    by (simp add: choose_preparation_def first_cold_def improvement_def finish_seconds_def preparation_key_def
        demo_estimate_def Let_def)
  then show ?thesis
    by (rule kept_cold_is_nearly_best) (simp_all add: demo_estimate_def)
qed

end
