(* ===== verification/Traces.thy ===== *)
theory Traces
  imports EngineClient
begin

text \<open>
  \<open>agentshift/workloads/traces.py\<close>: parent-linked chats read as agent turns, and the
  requests of the Kimi trace. A generator is the list of what it yields together with the
  exception that ends it, if one does. Lines come as what \<open>json.loads\<close> makes of them, rows
  as \<open>csv.DictReader\<close> does: a missing cell is \<open>None\<close>.
\<close>

section \<open>Generators\<close>

type_synonym 'a yields = "'a list \<times> exn option"

definition yield_first :: "'a \<Rightarrow> 'a yields \<Rightarrow> 'a yields" where
  "yield_first x g = (x # fst g, snd g)"

lemma yield_first_simps [simp]: "fst (yield_first x g) = x # fst g" "snd (yield_first x g) = snd g"
  by (simp_all add: yield_first_def)

text \<open>\<open>limit is not None and count >= limit\<close>\<close>

definition limit_reached :: "int option \<Rightarrow> nat \<Rightarrow> bool" where
  "limit_reached limit count = (case limit of None \<Rightarrow> False | Some k \<Rightarrow> k \<le> int count)"

section \<open>FlowPrefill turns\<close>

record agent_turn =
  at_agent_id :: agent_id
  at_turn :: int
  at_arrival_seconds :: seconds
  at_incremental_input_tokens :: int
  at_cumulative_prefix_tokens :: int
  at_output_tokens :: int
  at_tool_gap_seconds :: seconds

text \<open>\<open>len(item[k])\<close>\<close>

definition field_len :: "string \<Rightarrow> json \<Rightarrow> exn + int" where
  "field_len k j = (case jfield k j of
       Inl e \<Rightarrow> Inl e
     | Inr (JArr xs) \<Rightarrow> Inr (int (length xs))
     | Inr (JStr s) \<Rightarrow> Inr (int (length s))
     | Inr (JObj kvs) \<Rightarrow> Inr (int (length kvs))
     | Inr _ \<Rightarrow> Inl (TypeError ''object has no len()''))"

definition read_int :: "string \<Rightarrow> json \<Rightarrow> exn + int" where
  "read_int k j = (case jfield k j of Inl e \<Rightarrow> Inl e | Inr v \<Rightarrow> py_int v)"

definition read_float :: "string \<Rightarrow> json \<Rightarrow> exn + rat" where
  "read_float k j = (case jfield k j of Inl e \<Rightarrow> Inl e | Inr v \<Rightarrow> py_float v)"

text \<open>Root, gap and incremental tokens of an item: of a root chat, or relative to its parent.\<close>

definition turn_link :: "json list \<Rightarrow> nat list \<Rightarrow> json \<Rightarrow> exn + nat \<times> seconds \<times> int" where
  "turn_link records roots item =
     (case read_int ''parent_chat_id'' item of Inl e \<Rightarrow> Inl e | Inr parent \<Rightarrow>
      if parent < 0
      then (case read_int ''input_length'' item of Inl e \<Rightarrow> Inl e | Inr incremental \<Rightarrow> Inr (length records, 0, incremental))
      else if int (length records) \<le> parent
      then Inl (ValueError (''parent '' @ str_int parent @ '' appears after child''))
      else let parent_item = records ! nat parent in
        (case read_float ''timestamp'' item of Inl e \<Rightarrow> Inl e | Inr t \<Rightarrow>
        (case read_float ''timestamp'' parent_item of Inl e \<Rightarrow> Inl e | Inr t' \<Rightarrow>
        (case field_len ''hash_ids'' item of Inl e \<Rightarrow> Inl e | Inr n \<Rightarrow>
        (case field_len ''hash_ids'' parent_item of Inl e \<Rightarrow> Inl e | Inr n' \<Rightarrow>
           Inr (roots ! nat parent, max 0 (t - t'), max 0 ((n - n') * 16)))))))"

text \<open>The yielded turn, its fields evaluated in the order they are written.\<close>

definition turn_of :: "json \<Rightarrow> nat \<Rightarrow> seconds \<Rightarrow> int \<Rightarrow> exn + agent_turn" where
  "turn_of item origin gap incremental =
     (case py_int (jget_default ''turn'' (JInt 1) item) of Inl e \<Rightarrow> Inl e | Inr turn \<Rightarrow>
     (case read_float ''timestamp'' item of Inl e \<Rightarrow> Inl e | Inr arrival \<Rightarrow>
     (case field_len ''hash_ids'' item of Inl e \<Rightarrow> Inl e | Inr n \<Rightarrow>
     (case read_int ''output_length'' item of Inl e \<Rightarrow> Inl e | Inr out \<Rightarrow>
        Inr \<lparr>at_agent_id = ''flow-'' @ str_int (int origin), at_turn = turn, at_arrival_seconds = arrival,
          at_incremental_input_tokens = incremental, at_cumulative_prefix_tokens = n * 16,
          at_output_tokens = out, at_tool_gap_seconds = gap\<rparr>))))"

fun flowprefill_from :: "int option \<Rightarrow> json list \<Rightarrow> nat list \<Rightarrow> nat \<Rightarrow> (exn + json) list \<Rightarrow> agent_turn yields" where
  "flowprefill_from limit records roots emitted [] = ([], None)"
| "flowprefill_from limit records roots emitted (Inl e # rest) = ([], Some e)"
| "flowprefill_from limit records roots emitted (Inr item # rest) =
     (case turn_link records roots item of Inl e \<Rightarrow> ([], Some e) | Inr (origin, gap, incremental) \<Rightarrow>
     (case turn_of item origin gap incremental of Inl e \<Rightarrow> ([], Some e) | Inr turn \<Rightarrow>
        yield_first turn
          (if limit_reached limit (emitted + 1) then ([], None)
           else flowprefill_from limit (records @ [item]) (roots @ [origin]) (emitted + 1) rest)))"

definition iter_flowprefill_turns :: "(exn + json) list \<Rightarrow> int option \<Rightarrow> agent_turn yields" where
  "iter_flowprefill_turns items limit = flowprefill_from limit [] [] 0 items"

section \<open>Kimi requests\<close>

type_synonym csv_row = "(string \<times> string option) list"

definition cell :: "string \<Rightarrow> csv_row \<Rightarrow> exn + string option" where
  "cell k row = (case map_of row k of None \<Rightarrow> Inl (KeyError (py_repr k)) | Some v \<Rightarrow> Inr v)"

definition cell_int :: "string \<Rightarrow> csv_row \<Rightarrow> exn + int" where
  "cell_int k row = (case cell k row of
       Inl e \<Rightarrow> Inl e
     | Inr None \<Rightarrow> Inl (TypeError ''int() argument must be a string, a bytes-like object or a real number'')
     | Inr (Some s) \<Rightarrow> int_of_text s)"

definition kimi_request :: "csv_row \<Rightarrow> exn + string option \<times> int \<times> int" where
  "kimi_request row =
     (case cell ''TIMESTAMP'' row of Inl e \<Rightarrow> Inl e | Inr t \<Rightarrow>
     (case cell_int ''ContextTokens'' row of Inl e \<Rightarrow> Inl e | Inr context_tokens \<Rightarrow>
     (case cell_int ''GeneratedTokens'' row of Inl e \<Rightarrow> Inl e | Inr generated \<Rightarrow> Inr (t, context_tokens, generated))))"

fun kimi_from :: "int option \<Rightarrow> nat \<Rightarrow> csv_row list \<Rightarrow> (string option \<times> int \<times> int) yields" where
  "kimi_from limit index [] = ([], None)"
| "kimi_from limit index (row # rows) =
     (case kimi_request row of Inl e \<Rightarrow> ([], Some e) | Inr r \<Rightarrow>
        yield_first r (if limit_reached limit (index + 1) then ([], None) else kimi_from limit (index + 1) rows))"

definition iter_kimi_requests :: "csv_row list \<Rightarrow> int option \<Rightarrow> (string option \<times> int \<times> int) yields" where
  "iter_kimi_requests rows limit = kimi_from limit 0 rows"

section \<open>Properties\<close>

text \<open>What an item of the trace says, when it can be read.\<close>

definition parent_of :: "(exn + json) list \<Rightarrow> nat \<Rightarrow> int" where
  "parent_of items i = (case items ! i of Inr item \<Rightarrow> (case read_int ''parent_chat_id'' item of Inr p \<Rightarrow> p | _ \<Rightarrow> -1) | _ \<Rightarrow> -1)"

text \<open>The turns and roots after some items were read.\<close>

definition read_so_far :: "(exn + json) list \<Rightarrow> json list \<Rightarrow> nat list \<Rightarrow> bool" where
  "read_so_far before records roots \<longleftrightarrow> before = map Inr records \<and> length roots = length records \<and>
     (\<forall>i < length roots. if parent_of before i < 0 then roots ! i = i
        else nat (parent_of before i) < i \<and> roots ! i = roots ! nat (parent_of before i))"

lemma read_so_far_snoc:
  assumes "read_so_far before records roots" and "turn_link records roots item = Inr (origin, gap, incremental)"
  shows "read_so_far (before @ [Inr item]) (records @ [item]) (roots @ [origin])"
proof -
  have before: "before = map Inr records" "length roots = length records" using assms(1) by (simp_all add: read_so_far_def)
  obtain p where p: "read_int ''parent_chat_id'' item = Inr p"
    and origin: "p < 0 \<longrightarrow> origin = length records" "0 \<le> p \<longrightarrow> nat p < length records \<and> origin = roots ! nat p"
    using assms(2) by (auto simp: turn_link_def Let_def split: sum.splits if_splits)
  have old: "parent_of (before @ [Inr item]) i = parent_of before i" if "i < length records" for i
    using that before by (simp add: parent_of_def nth_append)
  have new: "parent_of (before @ [Inr item]) (length records) = p"
    using before p by (simp add: parent_of_def nth_append)
  show ?thesis
    unfolding read_so_far_def
  proof (intro conjI allI impI)
    fix i assume i: "i < length (roots @ [origin])"
    show "if parent_of (before @ [Inr item]) i < 0 then (roots @ [origin]) ! i = i
      else nat (parent_of (before @ [Inr item]) i) < i \<and>
        (roots @ [origin]) ! i = (roots @ [origin]) ! nat (parent_of (before @ [Inr item]) i)"
    proof (cases "i < length records")
      case True
      then have "if parent_of before i < 0 then roots ! i = i
        else nat (parent_of before i) < i \<and> roots ! i = roots ! nat (parent_of before i)"
        using assms(1) before by (auto simp: read_so_far_def)
      then show ?thesis using True before old by (auto simp: nth_append split: if_splits)
    next
      case False
      then have "i = length records" using i before by simp
      then show ?thesis using origin before new by (auto simp: nth_append)
    qed
  qed (use before in simp_all)
qed

text \<open>
  Every turn of a run, from any point of it: the agent of a turn is its root, which for a
  child is its parent's, and gap and increment are never negative for a child.
\<close>

definition well_linked :: "(exn + json) list \<Rightarrow> nat list \<Rightarrow> nat \<Rightarrow> agent_turn \<Rightarrow> bool" where
  "well_linked items roots i turn \<longleftrightarrow> at_agent_id turn = ''flow-'' @ str_int (int (roots ! i)) \<and>
     (if parent_of items i < 0 then at_tool_gap_seconds turn = 0
      else 0 \<le> at_tool_gap_seconds turn \<and> 0 \<le> at_incremental_input_tokens turn)"

lemma flowprefill_from_linked:
  assumes "read_so_far before records roots" and "i < length (fst (flowprefill_from limit records roots emitted rest))"
  shows "\<exists>records' roots'. read_so_far (take (Suc (length before + i)) (before @ rest)) records' (roots @ roots') \<and>
    length before + i < length (before @ rest) \<and>
    well_linked (before @ rest) (roots @ roots') (length before + i)
      (fst (flowprefill_from limit records roots emitted rest) ! i)"
  using assms
proof (induction limit records roots emitted rest arbitrary: before i rule: flowprefill_from.induct)
  case (3 limit records roots emitted item rest)
  from 3(3) obtain origin gap incremental turn
    where link: "turn_link records roots item = Inr (origin, gap, incremental)"
      and turn: "turn_of item origin gap incremental = Inr turn"
    by (auto split: sum.splits)
  let ?next = "if limit_reached limit (emitted + 1) then ([], None)
    else flowprefill_from limit (records @ [item]) (roots @ [origin]) (emitted + 1) rest"
  have out: "fst (flowprefill_from limit records roots emitted (Inr item # rest)) = turn # fst ?next"
    using link turn by simp
  note snoc = read_so_far_snoc [OF 3(2) link]
  have len: "length before = length records" "length roots = length records" using 3(2) by (auto simp: read_so_far_def)
  show ?case
  proof (cases i)
    case 0
    have "parent_of (before @ Inr item # rest) (length before) = (case read_int ''parent_chat_id'' item of Inr p \<Rightarrow> p | _ \<Rightarrow> -1)"
      by (simp add: parent_of_def)
    then have "well_linked (before @ Inr item # rest) (roots @ [origin]) (length before) turn"
      using link turn len unfolding well_linked_def
      by (auto simp: turn_link_def turn_of_def Let_def nth_append split: sum.splits if_splits)
    then show ?thesis using snoc 0 unfolding out by auto
  next
    case (Suc j)
    with 3(3) out have j: "\<not> limit_reached limit (emitted + 1)"
      "j < length (fst (flowprefill_from limit (records @ [item]) (roots @ [origin]) (emitted + 1) rest))"
      by (auto split: if_splits)
    from 3(1) [OF link refl refl turn j(1) snoc j(2)] show ?thesis using Suc j(1) unfolding out by auto
  qed
qed simp_all

lemma read_so_far_unique:
  assumes "read_so_far b records roots" and "read_so_far b' records' roots'"
    and "\<And>j. j < n \<Longrightarrow> b ! j = b' ! j" and "n \<le> length roots" "n \<le> length roots'"
  shows "i < n \<Longrightarrow> roots ! i = roots' ! i"
proof (induction i rule: less_induct)
  case (less i)
  have par: "parent_of b i = parent_of b' i" using assms(3) less.prems by (simp add: parent_of_def)
  have i: "i < length roots" "i < length roots'" using assms(4,5) less.prems by auto
  show ?case
  proof (cases "parent_of b i < 0")
    case True
    then show ?thesis using assms(1,2) i par by (auto simp: read_so_far_def)
  next
    case False
    then have "nat (parent_of b i) < i" "roots ! i = roots ! nat (parent_of b i)" "roots' ! i = roots' ! nat (parent_of b i)"
      using assms(1,2) i par by (auto simp: read_so_far_def)
    then show ?thesis using less by simp
  qed
qed

text \<open>
  Turns follow their parents: every turn read from the trace belongs to the same agent as
  its parent chat, which was yielded before it, with a gap and an increment that are never
  negative; a chat without a parent starts an agent of its own, named by its position, and
  has no gap.
\<close>

theorem flow_turns_follow_parents:
  assumes "i < length turns" and "turns = fst (iter_flowprefill_turns items limit)"
  shows "i < length items \<and>
    (if parent_of items i < 0
     then at_agent_id (turns ! i) = ''flow-'' @ str_int (int i) \<and> at_tool_gap_seconds (turns ! i) = 0
     else nat (parent_of items i) < i \<and> at_agent_id (turns ! i) = at_agent_id (turns ! nat (parent_of items i)) \<and>
       0 \<le> at_tool_gap_seconds (turns ! i) \<and> 0 \<le> at_incremental_input_tokens (turns ! i))"
proof -
  have nil: "read_so_far [] [] []" by (simp add: read_so_far_def)
  have at: "\<exists>records roots. read_so_far (take (Suc j) items) records roots \<and> j < length items \<and>
      well_linked items roots j (turns ! j)" if "j < length turns" for j
    using flowprefill_from_linked [OF nil, of j limit 0 items] that assms(2) by (auto simp: iter_flowprefill_turns_def)
  from at [OF assms(1)] obtain records roots where r: "read_so_far (take (Suc i) items) records roots" "i < length items"
    "well_linked items roots i (turns ! i)" by blast
  have len: "length roots = Suc i" using r(1,2) by (auto simp: read_so_far_def dest: arg_cong [where f = length])
  have par: "parent_of (take (Suc i) items) i = parent_of items i" by (simp add: parent_of_def)
  have root_i: "if parent_of items i < 0 then roots ! i = i
      else nat (parent_of items i) < i \<and> roots ! i = roots ! nat (parent_of items i)"
    using r(1) len par by (auto simp: read_so_far_def)
  show ?thesis
  proof (cases "parent_of items i < 0")
    case True
    then show ?thesis using r root_i by (simp add: well_linked_def)
  next
    case False
    let ?p = "nat (parent_of items i)"
    have p: "?p < i" "roots ! i = roots ! ?p" using root_i False by auto
    from at [of ?p] p(1) assms(1) obtain records' roots' where r': "read_so_far (take (Suc ?p) items) records' roots'"
      "well_linked items roots' ?p (turns ! ?p)" by auto
    have "length roots' = Suc ?p" using r'(1) r(2) p(1) by (auto simp: read_so_far_def dest: arg_cong [where f = length])
    then have "roots ! ?p = roots' ! ?p"
      using read_so_far_unique [OF r(1) r'(1), of "Suc ?p" ?p] p(1) len by simp
    then show ?thesis using r(2,3) r'(2) p False by (simp add: well_linked_def)
  qed
qed

text \<open>What a limit leaves of a generator, after \<open>n\<close> yields.\<close>

definition cut :: "int \<Rightarrow> nat \<Rightarrow> 'a yields \<Rightarrow> 'a yields" where
  "cut k n g = (let m = nat (max 1 (k - int n)) in if m \<le> length (fst g) then (take m (fst g), None) else g)"

lemma cut_nil: "cut k n ([], e) = ([], e)"
  by (simp add: cut_def Let_def)

lemma cut_first:
  "cut k n (yield_first x h) = yield_first x (if limit_reached (Some k) (Suc n) then ([], None) else cut k (Suc n) h)"
proof (cases "k \<le> int (Suc n)")
  case True
  then have "nat (max 1 (k - int n)) = 1" by simp
  then show ?thesis using True by (simp add: cut_def limit_reached_def yield_first_def)
next
  case False
  then have "nat (max 1 (k - int n)) = Suc (nat (max 1 (k - int (Suc n))))" by simp
  then show ?thesis using False by (simp add: cut_def limit_reached_def yield_first_def Let_def)
qed

lemma no_limit: "limit_reached None n = False"
  by (simp add: limit_reached_def)

lemma flowprefill_limit:
  "flowprefill_from (Some k) records roots emitted items = cut k emitted (flowprefill_from None records roots emitted items)"
proof (induction items arbitrary: records roots emitted)
  case (Cons x items)
  then show ?case
    by (cases x) (auto simp: cut_nil cut_first no_limit split: sum.split)
qed (simp add: cut_nil)

lemma kimi_limit: "kimi_from (Some k) index rows = cut k index (kimi_from None index rows)"
  by (induction rows arbitrary: index) (auto simp: cut_nil cut_first no_limit split: sum.split)

text \<open>
  A limit takes a prefix of at least one: with a limit \<open>k\<close>, both readers yield the first
  \<open>max 1 k\<close> elements of what they yield without one, and then stop without reading the rest,
  so an error behind them is not raised; a limit of zero or less still yields one element.
\<close>

theorem limit_takes_prefix:
  "iter_flowprefill_turns items (Some k) =
     (let g = iter_flowprefill_turns items None; m = nat (max 1 k) in if m \<le> length (fst g) then (take m (fst g), None) else g) \<and>
   iter_kimi_requests rows (Some k) =
     (let g = iter_kimi_requests rows None; m = nat (max 1 k) in if m \<le> length (fst g) then (take m (fst g), None) else g)"
  unfolding iter_flowprefill_turns_def iter_kimi_requests_def
  using flowprefill_limit [of k "[]" "[]" 0 items] kimi_limit [of k 0 rows] by (simp add: cut_def Let_def)

text \<open>A trace of a chat and two children.\<close>

definition demo_items :: "(exn + json) list" where
  "demo_items = map (\<lambda>(parent, time, n). Inr (JObj [(''parent_chat_id'', JInt parent), (''timestamp'', JInt time),
     (''input_length'', JInt 16), (''output_length'', JInt 1), (''hash_ids'', JArr (replicate n (JInt 7)))]))
     [(-1, 0, 1), (0, 5, 2), (1, 4, 1)]"

theorem flow_turns_follow_parents_witness:
  "map at_agent_id (fst (iter_flowprefill_turns demo_items None)) = [''flow-0'', ''flow-0'', ''flow-0''] \<and>
   0 \<le> at_tool_gap_seconds (fst (iter_flowprefill_turns demo_items None) ! 2)"
proof -
  have "map at_agent_id (fst (iter_flowprefill_turns demo_items None)) = [''flow-0'', ''flow-0'', ''flow-0'']" by code_simp
  moreover have "parent_of demo_items 2 = 1" by code_simp
  moreover have "2 < length (fst (iter_flowprefill_turns demo_items None))" by code_simp
  ultimately show ?thesis using flow_turns_follow_parents [OF _ refl, of 2 demo_items None] by simp
qed

end
