(* ===== verification/ProductionProps.thy ===== *)
theory ProductionProps
  imports Production "HOL-Library.Multiset"
begin

text \<open>
  The surrogate tokens stand for the hashed blocks, the inspected pairs and the selected
  cohort are exact parent prefixes.
\<close>

section \<open>Tokens\<close>

lemma length_unpack_words [simp]: "length (unpack_words n bs) = n"
  by (induction n arbitrary: bs) simp_all

lemma length_block_tokens [simp]: "length (block_tokens shake b) = 16"
  by (simp add: block_tokens_def)

lemma length_blocks: "length (concat (map (block_tokens shake) bs)) = 16 * length bs"
  by (induction bs) simp_all

lemma ceiling_sixteenth: "\<lceil>of_int n / (16 :: rat)\<rceil> = (n + 15) div 16"
proof -
  have "16 * ((n + 15) div 16) + (n + 15) mod 16 = n + 15" "0 \<le> (n + 15) mod 16" "(n + 15) mod 16 < 16" by simp_all
  then have "16 * ((n + 15) div 16) \<le> n + 15" "n \<le> 16 * ((n + 15) div 16)" by linarith+
  then have "rat_of_int (16 * ((n + 15) div 16)) \<le> of_int (n + 15)" "rat_of_int n \<le> of_int (16 * ((n + 15) div 16))"
    by (simp_all only: of_int_le_iff)
  then show ?thesis by (intro ceiling_unique) (simp_all add: field_simps)
qed

lemma aligned_blocks: "n mod 16 = 0 \<Longrightarrow> 16 * ((n + 15) div 16) = n" for n :: int
proof -
  assume "n mod 16 = 0"
  then obtain k where "n = 16 * k" by (metis mod_0_imp_dvd dvdE)
  then show ?thesis by simp
qed

lemma good_blocks: "\<not> bad_blocks row \<longleftrightarrow> 0 < qr_input_length row \<and> int (length (qr_hash_ids row)) = (qr_input_length row + 15) div 16"
  by (simp add: bad_blocks_def ceiling_sixteenth) linarith

text \<open>
  A row with a matching block count gets exactly its length of tokens, each between 1000
  and 30999, and any other row is refused.
\<close>

theorem surrogate_tokens_fit:
  "case surrogate_tokens shake row of
     Inr ts \<Rightarrow> int (length ts) = qr_input_length row \<and> 0 < qr_input_length row \<and> set ts \<subseteq> {1000..<31000}
   | Inl e \<Rightarrow> e = ValueError ''input length and hash block count disagree'' \<and> bad_blocks row"
proof (cases "bad_blocks row")
  case False
  let ?ts = "concat (map (block_tokens shake) (qr_hash_ids row))"
  from False have n: "0 < qr_input_length row" "qr_input_length row \<le> int (length ?ts)"
    by (auto simp: good_blocks length_blocks)
  have "set (block_tokens shake b) \<subseteq> {1000..<31000}" for b by (auto simp: block_tokens_def)
  then have "set ?ts \<subseteq> {1000..<31000}" by fastforce
  then have "set (take (nat (qr_input_length row)) ?ts) \<subseteq> {1000..<31000}" using set_take_subset by fast
  then show ?thesis using False n by (simp add: surrogate_tokens_def)
qed (simp add: surrogate_tokens_def)

text \<open>
  An exact parent's tokens are a proper prefix of its child's: the relation the cohort is
  selected by, on hashes and lengths, gives the relation the experiments need, on tokens.
\<close>

theorem exact_parent_tokens_are_prefix:
  assumes "exact_parent parent child"
    and "surrogate_tokens shake parent = Inr ps" and "surrogate_tokens shake child = Inr cs"
  shows "strict_prefix ps cs"
proof -
  let ?tokens = "\<lambda>row. concat (map (block_tokens shake) (qr_hash_ids row))"
  have ok: "\<not> bad_blocks parent" "\<not> bad_blocks child"
    and ps: "ps = take (nat (qr_input_length parent)) (?tokens parent)" and cs: "cs = take (nat (qr_input_length child)) (?tokens child)"
    using assms(2,3) by (auto simp: surrogate_tokens_def split: if_splits)
  note exact = assms(1) [unfolded exact_parent_def]
  have "qr_hash_ids child = qr_hash_ids parent @ drop (length (qr_hash_ids parent)) (qr_hash_ids child)"
    using exact by (metis append_take_drop_id)
  then obtain rest where blocks: "?tokens child = ?tokens parent @ rest" by (metis concat_append map_append)
  have "int (length (?tokens parent)) = qr_input_length parent"
    using ok(1) exact by (simp add: good_blocks length_blocks aligned_blocks)
  then have "ps = ?tokens parent" "nat (qr_input_length parent) = length (?tokens parent)" using ps by simp_all
  moreover have "qr_input_length child \<le> int (length (?tokens child))" using ok(2) by (simp add: good_blocks length_blocks)
  moreover have "length (?tokens parent) < nat (qr_input_length child)"
    using exact \<open>int (length (?tokens parent)) = qr_input_length parent\<close> by linarith
  ultimately have "prefix ps cs" "length ps < length cs"
    using cs blocks by auto
  then show ?thesis by (auto simp: strict_prefix_def)
qed

section \<open>Inspection\<close>

lemma index_rows_ok:
  assumes "index_rows rows by_id = Inr by_id'" and "\<And>k r. by_id k = Some r \<Longrightarrow> qr_chat_id r = k \<and> r \<in> S \<and> \<not> bad_blocks r"
    and "set rows \<subseteq> S" and "by_id' k = Some r"
  shows "qr_chat_id r = k \<and> r \<in> S \<and> \<not> bad_blocks r"
  using assms
proof (induction rows by_id rule: index_rows.induct)
  case (2 row rows by_id)
  let ?by_id = "by_id(qr_chat_id row \<mapsto> row)"
  from 2(2) have run: "index_rows rows ?by_id = Inr by_id'" and new: "by_id (qr_chat_id row) = None" and good: "\<not> bad_blocks row"
    and out: "\<not> qr_output_length row < 0"
    by (auto simp: Let_def split: if_splits)
  have "qr_chat_id r = k \<and> r \<in> S \<and> \<not> bad_blocks r" if "?by_id k = Some r" for k r
    using that 2(3) [of k r] 2(4) good by (cases "k = qr_chat_id row") auto
  moreover have "\<not> by_id (qr_chat_id row) \<noteq> None" using new by simp
  moreover have "set rows \<subseteq> S" using 2(4) by simp
  ultimately show ?case using 2(1) [OF refl _ good out run] 2(5) by metis
qed simp

lemma matched_all: "length ls \<le> matched_blocks ls rs \<Longrightarrow> take (length ls) rs = ls"
  by (induction ls rs rule: matched_blocks.induct) (auto split: if_splits)

lemma full_overlap_is_exact:
  assumes "\<not> bad_blocks parent" and "qr_input_length parent mod 16 = 0" and "overlap_tokens parent child = qr_input_length parent"
    and "qr_input_length parent < qr_input_length child"
  shows "exact_parent parent child"
proof -
  have "qr_input_length parent \<le> 16 * int (matched_blocks (qr_hash_ids parent) (qr_hash_ids child))"
    using assms(3) by (simp add: overlap_tokens_def)
  moreover have "16 * int (length (qr_hash_ids parent)) = qr_input_length parent"
    using assms(1,2) by (simp add: good_blocks aligned_blocks)
  ultimately have "length (qr_hash_ids parent) \<le> matched_blocks (qr_hash_ids parent) (qr_hash_ids child)" by linarith
  then show ?thesis using assms(2,4) by (simp add: exact_parent_def matched_all)
qed

definition good_pair :: "qwen_row list \<Rightarrow> int \<Rightarrow> qwen_pair \<Rightarrow> bool" where
  "good_pair rows max_pair_tokens p \<longleftrightarrow> (\<exists>parent child. parent \<in> set rows \<and> child \<in> set rows \<and> p = pair_of parent child \<and>
     qr_parent_chat_id child = qr_chat_id parent \<and> exact_parent parent child \<and>
     qr_timestamp parent < qr_timestamp child \<and> qr_input_length child \<le> max_pair_tokens)"

lemma count_children_ok:
  assumes "count_children m by_id rows c = Inr c'" and "set rows \<subseteq> set all"
    and "\<And>k r. by_id k = Some r \<Longrightarrow> qr_chat_id r = k \<and> r \<in> set all \<and> \<not> bad_blocks r"
    and "\<forall>p \<in> set (qc_pairs c). good_pair all m p"
  shows "(\<forall>p \<in> set (qc_pairs c'). good_pair all m p) \<and>
    qc_root_requests c' + qc_missing_parents c' + qc_linked_requests c' =
    qc_root_requests c + qc_missing_parents c + qc_linked_requests c + int (length rows)"
  using assms
proof (induction m by_id rows c rule: count_children.induct)
  case (2 m by_id child rows c)
  let ?c = "c\<lparr>qc_types := bump (case qr_kind child of Some k \<Rightarrow> k | None \<Rightarrow> ''unknown'') (qc_types c)\<rparr>"
  consider (root) "qr_parent_chat_id child < 0" | (missing) "\<not> qr_parent_chat_id child < 0" "by_id (qr_parent_chat_id child) = None"
    | (linked) parent where "\<not> qr_parent_chat_id child < 0" "by_id (qr_parent_chat_id child) = Some parent" by fastforce
  then show ?case
  proof cases
    case root
    let ?d = "?c\<lparr>qc_root_requests := qc_root_requests ?c + 1\<rparr>"
    have run: "count_children m by_id rows ?d = Inr c'" using 2(4) root by (simp add: Let_def)
    have "set rows \<subseteq> set all" "\<forall>p \<in> set (qc_pairs ?d). good_pair all m p" using 2(5,7) by simp_all
    from 2(1) [OF refl refl root run this(1) 2(6) this(2)] show ?thesis by simp
  next
    case missing
    let ?d = "?c\<lparr>qc_missing_parents := qc_missing_parents ?c + 1\<rparr>"
    have run: "count_children m by_id rows ?d = Inr c'" using 2(4) missing by (simp add: Let_def)
    have "set rows \<subseteq> set all" "\<forall>p \<in> set (qc_pairs ?d). good_pair all m p" using 2(5,7) by simp_all
    from 2(2) [OF refl refl missing run this(1) 2(6) this(2)] show ?thesis by simp
  next
    case (linked parent)
    have "count_children m by_id (child # rows) c = (if qr_timestamp child \<le> qr_timestamp parent
        then Inl (ValueError (''non-increasing parent timestamp for '' @ str_int (qr_chat_id child)))
        else count_children m by_id rows (count_link m parent child ?c))"
      using linked by (simp add: Let_def)
    then have time: "\<not> qr_timestamp child \<le> qr_timestamp parent" and run: "count_children m by_id rows (count_link m parent child ?c) = Inr c'"
      using 2(4) by (metis sum.distinct(1), metis sum.distinct(1))
    note parent = 2(6) [OF linked(2)]
    have "good_pair all m p" if "p \<in> set (qc_pairs (count_link m parent child ?c))" for p
    proof -
      have "p \<in> set (qc_pairs c) \<or> (p = pair_of parent child \<and> qr_input_length parent mod 16 = 0 \<and>
          overlap_tokens parent child = qr_input_length parent \<and> qr_input_length child \<le> m \<and>
          qr_input_length parent < qr_input_length child)"
        using that by (auto simp: count_link_def Let_def split: if_split_asm)
      then show ?thesis
      proof
        assume "p \<in> set (qc_pairs c)"
        then show ?thesis using 2(7) by blast
      next
        assume p: "p = pair_of parent child \<and> qr_input_length parent mod 16 = 0 \<and>
          overlap_tokens parent child = qr_input_length parent \<and> qr_input_length child \<le> m \<and>
          qr_input_length parent < qr_input_length child"
        then have "exact_parent parent child" using parent by (intro full_overlap_is_exact) auto
        moreover have "child \<in> set all" using 2(5) by simp
        ultimately show ?thesis using p parent time unfolding good_pair_def by (metis not_le)
      qed
    qed
    then have "(\<forall>p \<in> set (qc_pairs c'). good_pair all m p) \<and>
      qc_root_requests c' + qc_missing_parents c' + qc_linked_requests c' =
      qc_root_requests (count_link m parent child ?c) + qc_missing_parents (count_link m parent child ?c) +
      qc_linked_requests (count_link m parent child ?c) + int (length rows)"
      using 2(3) [OF refl refl linked(1,2) time run] 2(5,6) by auto
    then show ?thesis by (simp add: count_link_def Let_def)
  qed
qed simp

text \<open>
  Inspection reports exact prefix pairs and accounts for every request: each reported
  pair is a row and its parent in the trace, the parent's hashes are a block-aligned proper
  prefix of the child's, the parent arrived before, and both are within the token bound; the
  pairs are sorted by arrival, and each request is a root, misses its parent or is linked.
\<close>

theorem inspected_pairs_are_exact:
  assumes "inspect_qwen_rows rows max_pair_tokens = Inr (summary, pairs)"
  shows "(\<forall>p \<in> set pairs. good_pair rows max_pair_tokens p) \<and> sorted (map pair_order pairs) \<and>
    qs_eligible_pair_count summary = int (length pairs) \<and>
    qc_root_requests (qs_counts summary) + qc_missing_parents (qs_counts summary) + qc_linked_requests (qs_counts summary) =
      int (length rows)"
proof -
  from assms obtain by_id c where idx: "index_rows rows Map.empty = Inr by_id"
    and run: "count_children max_pair_tokens by_id rows no_counts = Inr c"
    and out: "pairs = sort_key pair_order (qc_pairs c)" "qs_counts summary = c" "qs_eligible_pair_count summary = int (length pairs)"
    by (auto simp: inspect_qwen_rows_def Let_def split: sum.splits)
  have "qr_chat_id r = k \<and> r \<in> set rows \<and> \<not> bad_blocks r" if "by_id k = Some r" for k r
    by (rule index_rows_ok [OF idx _ subset_refl that]) simp
  from count_children_ok [OF run subset_refl this] show ?thesis using out by (simp add: no_counts_def)
qed

section \<open>The cohort\<close>

lemma rows_by_id:
  assumes "distinct (map qr_chat_id rows)"
  shows "rows_by_id rows k = Some r \<longleftrightarrow> r \<in> set rows \<and> qr_chat_id r = k"
proof -
  let ?ps = "map (\<lambda>row. (qr_chat_id row, row)) rows"
  have "distinct (map fst (rev ?ps))" using assms by (simp add: rev_map [symmetric] comp_def)
  then have "map_of (rev ?ps) k = Some r \<longleftrightarrow> (k, r) \<in> set (rev ?ps)" by simp
  then show ?thesis by (auto simp: rows_by_id_def)
qed

text \<open>The selection so far: within the bound, and each request with its partner.\<close>

definition partnered :: "row_index \<Rightarrow> int list \<Rightarrow> int \<Rightarrow> bool" where
  "partnered by_id selected k \<longleftrightarrow> (\<exists>r q. by_id k = Some r \<and> qr_chat_id q \<in> set selected \<and> by_id (qr_chat_id q) = Some q \<and>
     (qr_parent_chat_id r = qr_chat_id q \<and> exact_parent q r \<or> qr_parent_chat_id q = k \<and> exact_parent r q))"

definition cohort_ok :: "row_index \<Rightarrow> int \<Rightarrow> int list \<Rightarrow> bool" where
  "cohort_ok by_id max_requests selected \<longleftrightarrow> distinct selected \<and> int (length selected) \<le> max 0 max_requests \<and>
     (\<forall>k \<in> set selected. partnered by_id selected k)"

lemma partnered_mono: "partnered by_id selected k \<Longrightarrow> set selected \<subseteq> set selected' \<Longrightarrow> partnered by_id selected' k"
  unfolding partnered_def by blast

lemma cohort_step:
  assumes ok: "cohort_ok by_id m selected"
    and parent: "by_id (qr_parent_chat_id child) = Some parent" "qr_chat_id parent = qr_parent_chat_id child"
    and child: "by_id (qr_chat_id child) = Some child" and exact: "exact_parent parent child"
    and add: "additions = filter (\<lambda>k. k \<notin> set selected) (remdups [qr_chat_id parent, qr_chat_id child])"
    and fits: "\<not> m < int (length selected + length additions)"
  shows "cohort_ok by_id m (selected @ additions)"
proof -
  let ?new = "selected @ additions"
  have new: "set ?new = set selected \<union> {qr_chat_id parent, qr_chat_id child}" using add by auto
  have "distinct ?new" using ok add by (auto simp: cohort_ok_def)
  moreover have "partnered by_id ?new (qr_chat_id parent)"
    using parent child exact new unfolding partnered_def by (metis UnCI insertCI)
  moreover have "partnered by_id ?new (qr_chat_id child)"
    using parent child exact new unfolding partnered_def by (metis UnCI insertCI)
  moreover have "partnered by_id ?new k" if "k \<in> set selected" for k
    using ok that partnered_mono [of by_id selected k ?new] by (auto simp: cohort_ok_def)
  ultimately show ?thesis using fits new by (auto simp: cohort_ok_def)
qed

lemma select_from_ok:
  assumes "cohort_ok by_id m selected" and "\<And>k r. by_id k = Some r \<Longrightarrow> qr_chat_id r = k"
    and "\<forall>row \<in> set rows. by_id (qr_chat_id row) = Some row"
  shows "cohort_ok by_id m (select_from by_id m rows selected)"
  using assms
proof (induction by_id m rows selected rule: select_from.induct)
  case (2 by_id m child rows selected)
  show ?case
  proof (cases "by_id (qr_parent_chat_id child)")
    case None
    then show ?thesis using 2 by simp
  next
    case (Some parent)
    let ?add = "filter (\<lambda>k. k \<notin> set selected) (remdups [qr_chat_id parent, qr_chat_id child])"
    show ?thesis
    proof (cases "exact_parent parent child \<and> \<not> m < int (length selected + length ?add)")
      case False
      have rows: "\<forall>row \<in> set rows. by_id (qr_chat_id row) = Some row" using 2(7) by simp
      have "select_from by_id m (child # rows) selected = select_from by_id m rows selected"
        using False Some by (auto simp: Let_def)
      moreover have "cohort_ok by_id m (select_from by_id m rows selected)"
        using False 2(2) [OF Some _ 2(5,6) rows] 2(3) [OF Some _ refl _ 2(5,6) rows] by blast
      ultimately show ?thesis by simp
    next
      case True
      then have step: "cohort_ok by_id m (selected @ ?add)"
        using cohort_step [OF 2(5) Some _ _ _ refl] 2(6,7) Some by auto
      have eq: "select_from by_id m (child # rows) selected =
        (if int (length (selected @ ?add)) = m then selected @ ?add else select_from by_id m rows (selected @ ?add))"
        using True Some by (simp add: Let_def)
      have rows: "\<forall>row \<in> set rows. by_id (qr_chat_id row) = Some row" using 2(7) by simp
      show ?thesis
        unfolding eq using 2(4) [OF Some _ refl _ _ step 2(6) rows] True step by simp
    qed
  qed
qed simp

text \<open>
  The cohort stays within its bound and is closed under its purpose: it has at most
  \<open>max_requests\<close> requests of the trace, each once and in order of arrival, and each of them
  is in the cohort together with its exact parent or with a child it is the exact parent of.
\<close>

theorem cohort_pairs_stay_together:
  assumes "distinct (map qr_chat_id rows)" and "cohort = select_exact_parent_cohort rows max_requests"
  shows "int (length cohort) \<le> max 0 max_requests \<and> set cohort \<subseteq> set rows \<and> distinct (map qr_chat_id cohort) \<and>
    sorted (map row_order cohort) \<and>
    (\<forall>r \<in> set cohort. \<exists>q \<in> set cohort.
       qr_parent_chat_id r = qr_chat_id q \<and> exact_parent q r \<or> qr_parent_chat_id q = qr_chat_id r \<and> exact_parent r q)"
proof -
  let ?ix = "rows_by_id rows" and ?sel = "select_from (rows_by_id rows) max_requests (sort_key row_order rows) []"
  let ?rows = "map (\<lambda>key. the (?ix key)) ?sel"
  note ix = rows_by_id [OF assms(1)]
  have ok: "cohort_ok ?ix max_requests ?sel"
    by (rule select_from_ok) (auto simp: cohort_ok_def ix)
  have cohort: "cohort = sort_key row_order ?rows" using assms(2) by (simp add: select_exact_parent_cohort_def Let_def)
  have known: "\<exists>r. ?ix k = Some r \<and> r \<in> set rows \<and> qr_chat_id r = k" if "k \<in> set ?sel" for k
    using ok that unfolding cohort_ok_def partnered_def by (metis ix)
  have "qr_chat_id (the (?ix k)) = k" if "k \<in> set ?sel" for k
    using known [OF that] by auto
  then have ids: "map qr_chat_id ?rows = ?sel" by (simp add: map_idI)
  have in_rows: "set ?rows \<subseteq> set rows" using known by fastforce
  have mem: "r \<in> set ?rows \<longleftrightarrow> qr_chat_id r \<in> set ?sel \<and> ?ix (qr_chat_id r) = Some r" for r
    using known ids by (auto simp: image_iff) (metis option.sel)+
  have pairs: "\<exists>q \<in> set ?rows. qr_parent_chat_id r = qr_chat_id q \<and> exact_parent q r \<or>
      qr_parent_chat_id q = qr_chat_id r \<and> exact_parent r q" if "r \<in> set ?rows" for r
  proof -
    have r: "qr_chat_id r \<in> set ?sel" "?ix (qr_chat_id r) = Some r" using that mem by auto
    then have "partnered ?ix ?sel (qr_chat_id r)" using ok by (simp add: cohort_ok_def)
    then show ?thesis using r mem unfolding partnered_def by (metis option.inject)
  qed
  have "distinct (map qr_chat_id cohort)"
  proof -
    have "distinct (map qr_chat_id ?rows)" using ok unfolding ids by (simp add: cohort_ok_def)
    moreover have "mset (map qr_chat_id cohort) = mset (map qr_chat_id ?rows)" unfolding cohort by (simp only: mset_map mset_sort)
    ultimately show ?thesis using mset_eq_imp_distinct_iff by blast
  qed
  moreover have "int (length cohort) \<le> max 0 max_requests" using ok unfolding cohort by (simp add: cohort_ok_def)
  moreover have "sorted (map row_order cohort)" unfolding cohort by simp
  moreover have "set cohort = set ?rows" unfolding cohort by simp
  ultimately show ?thesis using in_rows pairs by metis
qed

section \<open>Witnesses\<close>

definition demo_rows :: "qwen_row list" where
  "demo_rows = [\<lparr>qr_chat_id = 1, qr_parent_chat_id = -1, qr_kind = None, qr_timestamp = 0, qr_input_length = 16,
       qr_output_length = 1, qr_hash_ids = [7]\<rparr>,
     \<lparr>qr_chat_id = 2, qr_parent_chat_id = 1, qr_kind = None, qr_timestamp = 3, qr_input_length = 20,
       qr_output_length = 1, qr_hash_ids = [7, 8]\<rparr>,
     \<lparr>qr_chat_id = 3, qr_parent_chat_id = 9, qr_kind = None, qr_timestamp = 4, qr_input_length = 5,
       qr_output_length = 1, qr_hash_ids = [5]\<rparr>]"

theorem inspected_pairs_are_exact_witness:
  "\<exists>summary pairs. inspect_qwen_rows demo_rows 100 = Inr (summary, pairs) \<and> length pairs = 1 \<and>
     (\<forall>p \<in> set pairs. good_pair demo_rows 100 p)"
proof -
  have "(case inspect_qwen_rows demo_rows 100 of Inr (summary, pairs) \<Rightarrow> length pairs = 1 | _ \<Rightarrow> False)" by code_simp
  then obtain summary pairs where run: "inspect_qwen_rows demo_rows 100 = Inr (summary, pairs)" "length pairs = 1"
    by (auto split: sum.splits)
  from inspected_pairs_are_exact [OF run(1)] run show ?thesis by auto
qed

theorem exact_parent_tokens_are_prefix_witness:
  "\<exists>ps cs. surrogate_tokens (\<lambda>_. replicate 64 5) (demo_rows ! 0) = Inr ps \<and>
     surrogate_tokens (\<lambda>_. replicate 64 5) (demo_rows ! 1) = Inr cs \<and> strict_prefix ps cs"
proof -
  have e: "exact_parent (demo_rows ! 0) (demo_rows ! 1)" by code_simp
  have "\<not> bad_blocks (demo_rows ! 0)" "\<not> bad_blocks (demo_rows ! 1)" by (simp_all add: good_blocks demo_rows_def)
  then obtain ps cs where "surrogate_tokens (\<lambda>_. replicate 64 5) (demo_rows ! 0) = Inr ps"
    "surrogate_tokens (\<lambda>_. replicate 64 5) (demo_rows ! 1) = Inr cs" by (simp add: surrogate_tokens_def)
  with exact_parent_tokens_are_prefix [OF e this] show ?thesis by blast
qed

theorem cohort_pairs_stay_together_witness:
  "map qr_chat_id (select_exact_parent_cohort demo_rows 2) = [1, 2] \<and>
   set (select_exact_parent_cohort demo_rows 2) \<subseteq> set demo_rows"
proof -
  have "distinct (map qr_chat_id demo_rows)" by (simp add: demo_rows_def)
  from cohort_pairs_stay_together [OF this refl, of 2]
  have "set (select_exact_parent_cohort demo_rows 2) \<subseteq> set demo_rows" by blast
  moreover have "map qr_chat_id (select_exact_parent_cohort demo_rows 2) = [1, 2]" by code_simp
  ultimately show ?thesis by blast
qed

section \<open>Log lines\<close>

lemma search_group_here:
  assumes "grab s = Some g" and "literal \<noteq> []"
  shows "search_group literal grab (literal @ s) = Some g"
  using assms by (cases literal) auto

lemma digits_read_back:
  assumes "0 \<le> n" and "rest = [] \<or> \<not> is_digit (hd rest)"
  shows "some_of is_digit (str_int n @ rest) = Some (str_int n)"
proof -
  have "takeWhile is_digit (str_int n @ rest) = str_int n @ takeWhile is_digit rest"
    using assms(1) str_nat_all_digits by (intro takeWhile_append2) (auto simp: str_int_def)
  moreover have "takeWhile is_digit rest = []" using assms(2) by (cases rest) auto
  moreover have "str_int n \<noteq> []" using str_nat_digits by (simp add: str_int_def)
  ultimately show ?thesis by (simp add: some_of_def Let_def)
qed

text \<open>
  C21. A parsed log line has what the readers need, and the input length that stands in it: a
  line that begins with a written length is refused or yields a record with this length, a
  request id, an output length and an arrival time.
\<close>

theorem kimi_line_reads_back:
  assumes "0 \<le> n" and "rest = [] \<or> \<not> is_digit (hd rest)"
    and "parse_kimi_line (''Finish: input_ids_len='' @ str_int n @ rest) = Inr q"
  shows "\<exists>r. q = Some r \<and> kl_input_length r = Some n \<and> kl_request_id r \<noteq> None \<and> kl_output_length r \<noteq> None \<and>
    kl_arrival_seconds r \<noteq> None"
proof -
  let ?line = "''Finish: input_ids_len='' @ str_int n @ rest"
  have "search_group ''Finish: input_ids_len='' (some_of is_digit) ?line = Some (str_int n)"
    by (rule search_group_here, rule digits_read_back [OF assms(1,2)]) simp
  then have "find_int ''Finish: input_ids_len='' ?line = Inr (Some n)"
    using int_of_text_str [OF assms(1)] unfolding find_int_def cast_group_def by simp
  then have fields: "kl_input_length r = Some n" if "kimi_fields ?line = Inr r" for r
    using that unfolding kimi_fields_def by (auto split: sum.splits)
  show ?thesis
  proof (cases "kimi_fields ?line")
    case (Inr r)
    then show ?thesis using assms(3) fields [OF Inr] unfolding parse_kimi_line_def
      by (simp only: sum.case) (auto split: if_splits)
  qed (use assms(3) in \<open>simp add: parse_kimi_line_def\<close>)
qed

theorem kimi_line_reads_back_witness:
  "\<exists>r. parse_kimi_line (''Finish: input_ids_len=20, '' @ quoted_key ''completion_tokens'' @ ''3, rid='' @ py_repr ''x'' @ '', ''
       @ quoted_key ''request_received_ts'' @ ''1.5'') = Inr (Some r) \<and> kl_input_length r = Some 20"
proof -
  let ?rest = "'', '' @ quoted_key ''completion_tokens'' @ ''3, rid='' @ py_repr ''x'' @ '', ''
       @ quoted_key ''request_received_ts'' @ ''1.5''"
  have line: "''Finish: input_ids_len='' @ str_int 20 @ ?rest = ''Finish: input_ids_len=20, '' @ quoted_key ''completion_tokens''
       @ ''3, rid='' @ py_repr ''x'' @ '', '' @ quoted_key ''request_received_ts'' @ ''1.5''"
    by code_simp
  have "(case parse_kimi_line (''Finish: input_ids_len='' @ str_int 20 @ ?rest) of Inr (Some _) \<Rightarrow> True | _ \<Rightarrow> False)" by code_simp
  then obtain q where run: "parse_kimi_line (''Finish: input_ids_len='' @ str_int 20 @ ?rest) = Inr q"
    by (auto split: sum.splits)
  have "?rest = [] \<or> \<not> is_digit (hd ?rest)" by code_simp
  from kimi_line_reads_back [OF _ this run] run show ?thesis unfolding line by auto
qed

end
