(* ===== verification/Spec2Isabelle.thy ===== *)
theory Spec2Isabelle
  imports Executor MigrationRepair TieredProps HybridOrder Descriptor Materialization GlobalMobility SimulationRetention TraceStretch HandoffOrder
    OracleProps OraclePlans Workload TransferProps RetirementProps LifecycleStart CadenceProps FlowShopProps Placement Autoscaling SnapshotDirectory Baselines Preparation Traces ProductionProps
begin

text \<open>
  A model of AgentShift, the control plane that moves running LLM agents between inference
  engines (\<open>agentshift/\<close>). An agent is owned by one engine at one epoch: a lease in a SQLite
  store. Executors run its turns under that lease, coordinators move its cached prefix to
  another engine and then the lease, and policies decide what to move and where.

  \<^bold>\<open>The programs.\<close> A program of type \<open>('s, 'a) prog\<close> (theory Prelude) takes a state and returns
  an exception or a value, with the state it leaves: every raise, early return and
  \<open>try/except\<close> of the source is a branch. Store methods are programs over the tables
  (\<open>store\<close>). Handlers and coordinators are programs over \<open>rt\<close>, which is the store, the log of
  events so far and the table of transfer groups. What such a handler does not decide is an
  \<open>env\<close>: between any two of its events other processes run any list of store operations
  (\<open>others\<close>), engines answer anything (\<open>transport\<close>), clocks read anything, awaitables of a
  \<open>gather\<close> run in any order (\<open>next_task\<close>); each is a function of the log. A theorem for every
  \<open>env\<close> holds for every interleaving. \<open>alone E\<close> says that no other process runs. A store
  method is one event when all it does is one transaction; \<open>commit_migration\<close> and
  \<open>recover_committed_migration\<close>, which read the agent again after theirs, are two
  (\<open>db_commit_migration\<close>, \<open>db_recover_committed\<close>), so what a coordinator reports of its commit
  may already be a later owner's.

  \<^bold>\<open>Theories and sources.\<close>
  \<^item> Prelude, PyJson: programs, exceptions, stable selection, JSON values, numbers in texts.
  \<^item> Schema, SqlTable, StateStore: \<open>state/schema.py\<close> and \<open>state/store.py\<close>; \<open>transaction\<close> is
    \<open>BEGIN IMMEDIATE ... COMMIT/ROLLBACK\<close>, primary keys and the partial unique index of one
    live migration per agent are checks of the inserts and updates.
  \<^item> StoreLaws, StoreRuns, StoreProps: what every operation keeps (\<open>store_le\<close>, \<open>store_ok\<close>), runs
    of operations, and the lease theorems: an epoch names one owner, superseded leases are
    fenced, steps commit once, the commit and the recovery refine a compare-and-swap.
  \<^item> EngineClient: \<open>engine/sglang.py\<close>, requests, answers, streaming.
  \<^item> Runtime, Effects, Executor: the environment; \<open>runtime/effects.py\<close> (at most one submission
    per operation) and \<open>runtime/executor.py\<close>, \<open>mailbox.py\<close>, \<open>ownership.py\<close>.
  \<^item> Tasks: locks, \<open>gather\<close> and polling loops under a deadline; they end.
  \<^item> Handover: triples over programs, and what all migrations share, from the record's start
    to the commit, among interference and alone.
  \<^item> Migration, MigrationProps, MigrationRepair: \<open>controller/migration.py\<close>; ports, the moment
    at which a migration that returns moved the lease, a migration that fails, recovery,
    what reconciliation owes each unfinished record, and the record a recovery strands.
  \<^item> Tiered, TieredProps: \<open>controller/tiered.py\<close>; the handoff over a shared tier.
  \<^item> Hybrid, HybridProps, HybridOrder: \<open>controller/hybrid_migration.py\<close>; both variants, and the
    order of reservations and transfers.
  \<^item> Descriptor, Materialization, GlobalMobility, HandoffOrder, Placement, Autoscaling,
    SnapshotDirectory, Baselines, Preparation: \<open>state/descriptor.py\<close> and the policies under
    \<open>controller/\<close> (\<open>order_admissible_first\<close> of \<open>placement.py\<close> is in HandoffOrder); selections
    are best among the feasible, bounds are kept, the autoscaler keeps its minimum.
  \<^item> Simulation: \<open>ReplaySimulation\<close> of \<open>simulate_global_mobility.py\<close> (under
    \<open>experiments/hybrid_state_mobility/\<close>), which replays a trace over a fleet with the planner and
    the policy above, and \<open>scale_tool_gaps\<close> of \<open>sweep_global_mobility.py\<close>. SimulationProps:
    its loop as a step relation, the life of an agent as a state machine, termination, and that
    a well-formed replay returns. SimulationBooks: what each entry does to an engine's tokens,
    snapshots and sets; the counters stay within capacity, the log of moves. SimulationRetention:
    exact books, and states held within capacity, when the retention outlasts the last arrivals,
    and what goes wrong otherwise: an agent that returns after its state expired is charged too
    little, and engines come to hold more than their slots. TraceStretch: stretched traces.
  \<^item> CacheRoute: \<open>experiments/multinode/cacheroute.py\<close>, the plan of replicas for hot keys and its
    dispatch. Under \<open>experiments/weka_baselines/\<close>: OracleCache, OracleReplay, OracleProps,
    OraclePlans for \<open>oracle/simulate.py\<close>, the offline replay under seven routing policies (its
    cache refines the list of most recently used blocks, more capacity never hits less, the
    totals add up, the loads shown to the policies are zero), with \<open>rate_plan\<close> of \<open>common.py\<close>,
    whose plan over exact numbers is the one the replay builds; Workload for \<open>schedule\<close> and \<open>build_workload\<close>, which
    keep every stream in turn order. Recency and Counters hold what these share with the
    snapshot directory and the trace replay.
  \<^item> PrefixObservation, TransferControl, TransferProps: \<open>experiments/hygon_runtime/hybrid_control.py\<close>,
    the engine's side of a hybrid transfer. The walk over the radix tree finds exactly the
    executable prefixes, and an engine answers what all its ranks have; a transfer that raises
    gives its slots back and its group stays failed, except where it raises at the collective
    that no handler guards, and one that completes has copied the state. The runtime's tree
    cache and allocators are parameters under \<open>slot_laws\<close>, the peers, the collectives and the
    tensor operations an environment (\<open>peers\<close>), and any of them may raise.
  \<^item> DualMapReplica: the snapshots and their index by length in
    \<open>experiments/fluidkv/dualmap_adapter.py\<close>; its estimate is that of a scan, and with inspection
    the replicas follow the snapshot directory.
  \<^item> Retirement, RetirementProps: \<open>experiments/fluidkv/retirement_materializer.py\<close>, which puts
    the store, the hybrid coordinator, the planner and the adapter together: a preparation
    reported successful left the state with its target, in any interleaving.
  \<^item> Lifecycle, LifecycleProps, LifecycleRelease, LifecycleStart:
    \<open>experiments/fluidkv/engine_lifecycle.py\<close> over a world (\<open>os_world\<close>) of processes, GPUs and
    endpoints that may answer anything at any time: signals reach only the engine's own
    processes, a release reported as such rests on two clean observations, releasing ends
    within the turns \<open>release_ends\<close> names, a started engine is the one launched.
  \<^item> Intervals, Cadence, CadenceProps: \<open>experiments/local_pipeline/metrics.py\<close>. Unions of
    intervals are canonical forms of the points they cover; a summary of emissions invents
    no gap and accounts for the tokens; an aligned gap counts overlapping windows once.
  \<^item> FlowShop, FlowShopProps: \<open>experiments/progressive_handoff/oracle.py\<close>, the replay of a
    progressive handoff as a flow shop of copies and computations; it returns, within bounds.
  \<^item> Traces, Production, ProductionProps: \<open>workloads/traces.py\<close> and \<open>workloads/production.py\<close>.

  \<^bold>\<open>Interfaces.\<close> \<open>keyed_table\<close> is what the store asks of its tables, \<open>row_order\<close> and
  \<open>step_preorder\<close> are guarantees of single steps that programs keep, \<open>awaiting\<close> and
  \<open>engine_traffic\<close> those that interference, events and group changes keep, \<open>sim_invariant\<close> what every entry
  of a replay's timeline keeps (its facts hold all along a replay and at its end). Each is
  interpreted on the model (\<open>migration_tab\<close>, \<open>store_moves\<close>, \<open>rt_awaits\<close>, \<open>rt_traffic\<close>,
  \<open>same_store_moves\<close>, \<open>unstarted\<close> and others), and the properties rest on these facts.

  \<^bold>\<open>Numbers.\<close> Integers are Python's; floats are exact rationals, so rounding, infinities and
  NaN are outside the model: where nearly equal loads, costs or rates are compared, rounding
  can order them the other way, and a statement on the chosen one is one on exact numbers. The
  two planners of hot keys, for instance, place keys alike over exact numbers and can differ in
  floats. Texts are ASCII. Output tokens are integers: an engine's answer with other
  \<open>output_ids\<close> raises in the model (\<open>output_ids\<close> of Executor), where Python would store them.

  \<^bold>\<open>Fuel.\<close> Polling loops take \<open>fuel\<close>, the owner loop of a migration \<open>tries\<close>; running out is
  the outcome \<open>Unfinished\<close>, which no handler catches. \<open>waiting_ends\<close> shows that the waits end
  within a number of turns given by the number of sleeps after which the clock has passed
  the timeout. The owner loop repeats only while other processes keep moving the agent.
  The replay needs no fuel: \<open>replay\<close> is total by the measure \<open>potential\<close>.

  \<^bold>\<open>Not modelled.\<close> The engine behind HTTP: the scheduler and server files under \<open>experiments/\<close>
  are copies of a third-party runtime, so its answers are arbitrary here. SQLite files and
  thread pools beyond the contract above, cancellation of tasks, and a lock's waiting order:
  acquiring a lock is an event at which anything may have happened. numpy's percentiles, hash
  rings, SHA-256 and random shuffles and samples are parameters of the replays.
  \<open>scripts/\<close> and \<open>experiments/\<close> otherwise drive engines on GPUs and draw plots from their
  results.
\<close>

end
